(* ===== verification/Gossip_Prelude.thy ===== *)
theory Gossip_Prelude
  imports Main "HOL-Library.Word" "HOL-Library.List_Lexorder" "HOL-Library.Product_Lexorder"
begin

text \<open>
  Shared vocabulary of the development: machine integers as Rust's release profile computes
  them, hash containers and the order in which they are iterated, and the generic lemmas the
  component theories use.

  \<^item> An unsigned 64-bit counter is a \<^typ>\<open>nat\<close>; \<open>u64_add\<close> wraps at \<open>2 ^ 64\<close>
    (\<open>Cargo.toml\<close> leaves overflow checks off in the release profile), \<open>u64_sat_add\<close> is
    \<open>saturating_add\<close>. Subtraction on \<^typ>\<open>nat\<close> stops at 0, as \<open>saturating_sub\<close>,
    \<open>Instant::duration_since\<close> and \<open>saturating_duration_since\<close> do.
  \<^item> A \<open>HashMap\<close> is a map \<open>'k \<rightharpoonup> 'v\<close>, a \<open>HashSet\<close> a set. Rust leaves their iteration
    order open, so an operation that iterates takes the order as an argument: a list that
    \<open>iterates\<close> the map (or the set). A theorem then speaks about every order.
  \<^item> An instant is a \<^typ>\<open>nat\<close> in the unit the component uses; the current time is an argument
    of the operations that read the clock.
\<close>

named_theorems hash_simps \<open>lookups in hash maps after the operations of the library\<close>
named_theorems view_simps \<open>what an operation does to the abstract view of its state\<close>

type_synonym u8 = "8 word"
type_synonym bytes = "u8 list"
type_synonym instant = nat
type_synonym duration = nat

subsection \<open>Machine integers\<close>

definition u64_max :: nat where
  "u64_max = 2 ^ 64 - 1"

definition u64_add :: "nat \<Rightarrow> nat \<Rightarrow> nat" where
  "u64_add a b = (a + b) mod 2 ^ 64"

definition u64_sat_add :: "nat \<Rightarrow> nat \<Rightarrow> nat" where
  "u64_sat_add a b = min (a + b) u64_max"

lemma u64_max_eq: "u64_max = 18446744073709551615"
  by (simp add: u64_max_def)

lemma u64_add_exact [simp]: "a + b \<le> u64_max \<Longrightarrow> u64_add a b = a + b"
  by (simp add: u64_add_def u64_max_def)

lemma u64_add_less: "u64_add a b \<le> u64_max"
proof -
  have "(a + b) mod 2 ^ 64 < (2 ^ 64 :: nat)" by simp
  then show ?thesis unfolding u64_add_def u64_max_def by linarith
qed

lemma u64_sat_add_exact: "a + b \<le> u64_max \<Longrightarrow> u64_sat_add a b = a + b"
  by (simp add: u64_sat_add_def)

lemma u64_sat_add_le: "u64_sat_add a b \<le> u64_max"
  by (simp add: u64_sat_add_def)

definition le_bytes :: "nat \<Rightarrow> nat \<Rightarrow> bytes" where
  "le_bytes w n = map (\<lambda>i. word_of_nat (n div 256 ^ i mod 256)) [0..<w]"

lemma length_le_bytes [simp]: "length (le_bytes w n) = w"
  by (simp add: le_bytes_def)

subsection \<open>Hash maps and hash sets\<close>

definition iterates :: "'k list \<Rightarrow> ('k \<rightharpoonup> 'v) \<Rightarrow> bool" where
  "iterates ks m \<longleftrightarrow> distinct ks \<and> set ks = dom m"

definition iterates_set :: "'a list \<Rightarrow> 'a set \<Rightarrow> bool" where
  "iterates_set xs S \<longleftrightarrow> distinct xs \<and> set xs = S"

definition get_or :: "'v \<Rightarrow> ('k \<rightharpoonup> 'v) \<Rightarrow> 'k \<Rightarrow> 'v" where
  "get_or d m k = (case m k of None \<Rightarrow> d | Some v \<Rightarrow> v)"

definition map_retain :: "('k \<Rightarrow> 'v \<Rightarrow> bool) \<Rightarrow> ('k \<rightharpoonup> 'v) \<Rightarrow> ('k \<rightharpoonup> 'v)" where
  "map_retain P m = (\<lambda>k. case m k of None \<Rightarrow> None | Some v \<Rightarrow> if P k v then Some v else None)"

definition map_remove :: "'k \<Rightarrow> ('k \<rightharpoonup> 'v) \<Rightarrow> ('k \<rightharpoonup> 'v)" where
  "map_remove k m = m(k := None)"

definition map_or_insert :: "'k \<Rightarrow> 'v \<Rightarrow> ('k \<rightharpoonup> 'v) \<Rightarrow> ('k \<rightharpoonup> 'v)" where
  "map_or_insert k d m = (case m k of None \<Rightarrow> m(k \<mapsto> d) | Some _ \<Rightarrow> m)"

lemma get_or_empty [simp, hash_simps]: "get_or d Map.empty k = d"
  by (simp add: get_or_def)

lemma get_or_upd [simp, hash_simps]:
  "get_or d (m(k \<mapsto> v)) k' = (if k' = k then v else get_or d m k')"
  by (simp add: get_or_def)

lemma get_or_None_upd [simp, hash_simps]:
  "get_or d (m(k := None)) k' = (if k' = k then d else get_or d m k')"
  by (simp add: get_or_def)

lemma get_or_Some: "m k = Some v \<Longrightarrow> get_or d m k = v"
  by (simp add: get_or_def)

lemma get_or_None: "m k = None \<Longrightarrow> get_or d m k = d"
  by (simp add: get_or_def)

lemma map_retain_Some [simp, hash_simps]:
  "map_retain P m k = Some v \<longleftrightarrow> m k = Some v \<and> P k v"
  by (auto simp: map_retain_def split: option.splits)

lemma map_retain_None [hash_simps]:
  "map_retain P m k = None \<longleftrightarrow> (case m k of None \<Rightarrow> True | Some v \<Rightarrow> \<not> P k v)"
  by (auto simp: map_retain_def split: option.splits)

lemma dom_map_retain: "dom (map_retain P m) = {k \<in> dom m. P k (the (m k))}"
  by (auto simp: dom_def)

lemma dom_map_retain_subset: "dom (map_retain P m) \<subseteq> dom m"
  by (auto simp: dom_def)

lemma map_retain_idem [simp]: "map_retain P (map_retain P m) = map_retain P m"
  by (rule ext) (simp add: map_retain_def split: option.split)

lemma map_remove_apply [simp, hash_simps]:
  "map_remove k m k' = (if k' = k then None else m k')"
  by (simp add: map_remove_def)

lemma dom_map_remove [simp]: "dom (map_remove k m) = dom m - {k}"
  by (auto simp: map_remove_def)

lemma map_or_insert_apply [simp, hash_simps]:
  "map_or_insert k d m k' = (if k' = k then Some (get_or d m k) else m k')"
  by (auto simp: map_or_insert_def get_or_def split: option.splits)

lemma dom_map_or_insert [simp]: "dom (map_or_insert k d m) = insert k (dom m)"
  by (auto simp: map_or_insert_def split: option.splits)

lemma iterates_finite: "iterates ks m \<Longrightarrow> finite (dom m)"
  by (metis iterates_def List.finite_set)

lemma iterates_length: "iterates ks m \<Longrightarrow> length ks = card (dom m)"
  by (metis iterates_def distinct_card)

lemma iterates_mem: "iterates ks m \<Longrightarrow> k \<in> set ks \<longleftrightarrow> m k \<noteq> None"
  by (auto simp: iterates_def)

lemma iterates_empty [simp]: "iterates [] Map.empty"
  by (simp add: iterates_def)

lemma iterates_exists: "finite (dom m) \<Longrightarrow> \<exists>ks. iterates ks m"
  by (metis finite_distinct_list iterates_def)

lemma iterates_set_length: "iterates_set xs S \<Longrightarrow> length xs = card S"
  by (metis iterates_set_def distinct_card)

lemma iterates_set_finite: "iterates_set xs S \<Longrightarrow> finite S"
  by (metis iterates_set_def List.finite_set)

text \<open>
  A loop over the entries of a map whose body reads and writes only the entry's own key is
  pointwise: the order does not matter. The loop state is a function of the key.
\<close>

lemma fold_pointwise:
  assumes "distinct ks"
    and step: "\<And>k s. f k s = s(k := g k (s k))"
  shows "fold f ks s k = (if k \<in> set ks then g k (s k) else s k)"
  using assms(1)
proof (induction ks arbitrary: s)
  case Nil
  then show ?case by simp
next
  case (Cons a ks)
  then show ?case by (auto simp: step)
qed

lemma fold_invariant:
  assumes "P s" and "\<And>x s. x \<in> set xs \<Longrightarrow> P s \<Longrightarrow> P (f x s)"
  shows "P (fold f xs s)"
  using assms by (induction xs arbitrary: s) auto

subsection \<open>Sorting by a key\<close>

text \<open>\<open>sort_by_key\<close> and \<open>sort_by\<close> are stable; \<^const>\<open>sort_key\<close> is a stable sort.\<close>

lemma sorted_wrt_sort_key: "sorted_wrt (\<lambda>a b. f a \<le> f b) (sort_key f xs)"
  using sorted_sort_key [of f xs] by (simp add: sorted_wrt_map)

lemma distinct_map_sort_key [simp]: "distinct (map f (sort_key k xs)) = distinct (map f xs)"
  by (simp add: distinct_map)

end
