(* ===== verification/Gossip_Types.thy ===== *)
theory Gossip_Types
  imports Gossip_Prelude
begin

text \<open>
  The core types of the overlay (\<open>crates/types/src/lib.rs\<close>): peer and topic identifiers, the
  message header with its hop and TTL counters and its version-dispatched wire form, presence
  records, and the small enumerations the other crates exchange (peer health, topic priority,
  admission decisions).

  BLAKE3 and SHA-256 are arguments of the definitions that call them. The serde data model is
  represented by the sequence of elements a serializer is handed (\<open>header_element\<close>): the byte
  format behind it belongs to the serializer.
\<close>

subsection \<open>Identifiers\<close>

datatype TopicId = TopicId (topic_bytes: bytes)

datatype PeerId = PeerId (peer_bytes: bytes)

definition topic_from_entity :: "(bytes \<Rightarrow> bytes) \<Rightarrow> bytes \<Rightarrow> TopicId" where
  "topic_from_entity blake3 entity_id = TopicId (blake3 entity_id)"

definition ascii_bytes :: "string \<Rightarrow> bytes" where
  "ascii_bytes s = map (\<lambda>c. word_of_nat (of_char c)) s"

definition PEER_ID_DOMAIN_SEPARATOR :: bytes where
  "PEER_ID_DOMAIN_SEPARATOR = ascii_bytes ''AUTONOMI_PEER_ID_V2:''"

definition from_pubkey :: "(bytes \<Rightarrow> bytes) \<Rightarrow> bytes \<Rightarrow> PeerId" where
  "from_pubkey sha256 pubkey = PeerId (sha256 (PEER_ID_DOMAIN_SEPARATOR @ pubkey))"

text \<open>Identifiers are compared by their bytes, lexicographically (\<open>[u8; 32]::cmp\<close>).\<close>

instantiation PeerId :: linorder
begin

definition less_eq_PeerId :: "PeerId \<Rightarrow> PeerId \<Rightarrow> bool" where
  "less_eq_PeerId p q \<longleftrightarrow> peer_bytes p \<le> peer_bytes q"

definition less_PeerId :: "PeerId \<Rightarrow> PeerId \<Rightarrow> bool" where
  "less_PeerId p q \<longleftrightarrow> peer_bytes p < peer_bytes q"

instance
  by standard (auto simp: less_eq_PeerId_def less_PeerId_def PeerId.expand)

end

instantiation TopicId :: linorder
begin

definition less_eq_TopicId :: "TopicId \<Rightarrow> TopicId \<Rightarrow> bool" where
  "less_eq_TopicId p q \<longleftrightarrow> topic_bytes p \<le> topic_bytes q"

definition less_TopicId :: "TopicId \<Rightarrow> TopicId \<Rightarrow> bool" where
  "less_TopicId p q \<longleftrightarrow> topic_bytes p < topic_bytes q"

instance
  by standard (auto simp: less_eq_TopicId_def less_TopicId_def TopicId.expand)

end

subsection \<open>Message kinds\<close>

datatype MessageKind =
  Eager | IHave | IWant | Ping | Ack | Find | Presence | AntiEntropy | Shuffle

definition from_u8 :: "u8 \<Rightarrow> MessageKind option" where
  "from_u8 value =
     (if value = 0 then Some Eager
      else if value = 1 then Some IHave
      else if value = 2 then Some IWant
      else if value = 3 then Some Ping
      else if value = 4 then Some Ack
      else if value = 5 then Some Find
      else if value = 6 then Some Presence
      else if value = 7 then Some AntiEntropy
      else if value = 8 then Some Shuffle
      else None)"

fun to_u8 :: "MessageKind \<Rightarrow> u8" where
  "to_u8 Eager = 0"
| "to_u8 IHave = 1"
| "to_u8 IWant = 2"
| "to_u8 Ping = 3"
| "to_u8 Ack = 4"
| "to_u8 Find = 5"
| "to_u8 Presence = 6"
| "to_u8 AntiEntropy = 7"
| "to_u8 Shuffle = 8"

subsection \<open>Message header\<close>

datatype header_error = HopCountOverflow | TtlExpired | TruncatedMessageHeader | WrongElement

record MessageHeader =
  hdr_version :: u8
  hdr_topic :: TopicId
  hdr_msg_id :: bytes
  hdr_kind :: MessageKind
  hdr_hop :: u8
  hdr_ttl :: u8
  hdr_payload_hash :: "bytes option"

definition header_new :: "TopicId \<Rightarrow> MessageKind \<Rightarrow> u8 \<Rightarrow> MessageHeader" where
  "header_new topic kind ttl =
     \<lparr>hdr_version = 1, hdr_topic = topic, hdr_msg_id = replicate 32 0, hdr_kind = kind,
      hdr_hop = 0, hdr_ttl = ttl, hdr_payload_hash = None\<rparr>"

definition seal_payload_hash ::
  "(bytes \<Rightarrow> bytes) \<Rightarrow> bytes option \<Rightarrow> MessageHeader \<Rightarrow> MessageHeader" where
  "seal_payload_hash blake3 payload h =
     h\<lparr>hdr_payload_hash := Some (blake3 (case payload of None \<Rightarrow> [] | Some p \<Rightarrow> p)),
       hdr_version := 2\<rparr>"

text \<open>The bytes that are hashed into a message id, and the id itself.\<close>

definition msg_id_preimage :: "TopicId \<Rightarrow> nat \<Rightarrow> PeerId \<Rightarrow> bytes \<Rightarrow> bytes" where
  "msg_id_preimage topic epoch signer payload_hash =
     topic_bytes topic @ le_bytes 8 epoch @ peer_bytes signer @ payload_hash"

definition calculate_msg_id ::
  "(bytes \<Rightarrow> bytes) \<Rightarrow> TopicId \<Rightarrow> nat \<Rightarrow> PeerId \<Rightarrow> bytes \<Rightarrow> bytes" where
  "calculate_msg_id blake3 topic epoch signer payload_hash =
     take 32 (blake3 (msg_id_preimage topic epoch signer payload_hash))"

definition increment_hop :: "MessageHeader \<Rightarrow> header_error + MessageHeader" where
  "increment_hop h =
     (if hdr_hop h = 255 then Inl HopCountOverflow
      else Inr (h\<lparr>hdr_hop := hdr_hop h + 1\<rparr>))"

definition decrement_ttl :: "MessageHeader \<Rightarrow> header_error + MessageHeader" where
  "decrement_ttl h =
     (if hdr_ttl h = 0 then Inl TtlExpired
      else Inr (h\<lparr>hdr_ttl := hdr_ttl h - 1\<rparr>))"

text \<open>
  The element sequence of the manual \<open>Serialize\<close> and \<open>Deserialize\<close> instances. The visitor
  reads typed elements one after the other; the last one only when the version read first is
  at least 2.
\<close>

datatype header_element =
  ElU8 u8 | ElTopic TopicId | ElId bytes | ElKind MessageKind | ElHash "bytes option"

definition header_serialize :: "MessageHeader \<Rightarrow> header_element list" where
  "header_serialize h =
     [ElU8 (hdr_version h), ElTopic (hdr_topic h), ElId (hdr_msg_id h), ElKind (hdr_kind h),
      ElU8 (hdr_hop h), ElU8 (hdr_ttl h)]
     @ (if hdr_version h \<ge> 2 then [ElHash (hdr_payload_hash h)] else [])"

fun next_u8 :: "header_element list \<Rightarrow> header_error + (u8 \<times> header_element list)" where
  "next_u8 [] = Inl TruncatedMessageHeader"
| "next_u8 (ElU8 b # es) = Inr (b, es)"
| "next_u8 _ = Inl WrongElement"

fun next_topic :: "header_element list \<Rightarrow> header_error + (TopicId \<times> header_element list)" where
  "next_topic [] = Inl TruncatedMessageHeader"
| "next_topic (ElTopic t # es) = Inr (t, es)"
| "next_topic _ = Inl WrongElement"

fun next_id :: "header_element list \<Rightarrow> header_error + (bytes \<times> header_element list)" where
  "next_id [] = Inl TruncatedMessageHeader"
| "next_id (ElId i # es) = Inr (i, es)"
| "next_id _ = Inl WrongElement"

fun next_kind :: "header_element list \<Rightarrow> header_error + (MessageKind \<times> header_element list)" where
  "next_kind [] = Inl TruncatedMessageHeader"
| "next_kind (ElKind k # es) = Inr (k, es)"
| "next_kind _ = Inl WrongElement"

fun next_hash :: "header_element list \<Rightarrow> header_error + (bytes option \<times> header_element list)" where
  "next_hash [] = Inl TruncatedMessageHeader"
| "next_hash (ElHash h # es) = Inr (h, es)"
| "next_hash _ = Inl WrongElement"

definition bind_sum :: "'e + 'a \<Rightarrow> ('a \<Rightarrow> 'e + 'b) \<Rightarrow> 'e + 'b" where
  "bind_sum r f = (case r of Inl e \<Rightarrow> Inl e | Inr a \<Rightarrow> f a)"

definition header_deserialize ::
  "header_element list \<Rightarrow> header_error + (MessageHeader \<times> header_element list)" where
  "header_deserialize es =
     bind_sum (next_u8 es) (\<lambda>(version, es).
     bind_sum (next_topic es) (\<lambda>(topic, es).
     bind_sum (next_id es) (\<lambda>(msg_id, es).
     bind_sum (next_kind es) (\<lambda>(kind, es).
     bind_sum (next_u8 es) (\<lambda>(hop, es).
     bind_sum (next_u8 es) (\<lambda>(ttl, es).
     bind_sum (if version \<ge> 2 then next_hash es else Inr (None, es)) (\<lambda>(payload_hash, es).
       Inr (\<lparr>hdr_version = version, hdr_topic = topic, hdr_msg_id = msg_id, hdr_kind = kind,
             hdr_hop = hop, hdr_ttl = ttl, hdr_payload_hash = payload_hash\<rparr>, es))))))))"

subsection \<open>Presence records and FOAF queries\<close>

record PresenceRecord =
  presence_tag :: bytes
  addr_hints :: "string list"
  since :: nat
  expires :: nat
  seq :: nat
  four_words :: "string option"
  signature :: bytes
  signer_pubkey :: bytes

definition presence_new :: "nat \<Rightarrow> bytes \<Rightarrow> string list \<Rightarrow> nat \<Rightarrow> PresenceRecord" where
  "presence_new now tag hints ttl_seconds =
     \<lparr>presence_tag = tag, addr_hints = hints, since = now,
      expires = u64_add now ttl_seconds, seq = 0, four_words = None,
      signature = [], signer_pubkey = []\<rparr>"

definition with_four_words ::
  "nat \<Rightarrow> bytes \<Rightarrow> string list \<Rightarrow> nat \<Rightarrow> string \<Rightarrow> PresenceRecord" where
  "with_four_words now tag hints ttl_seconds words =
     \<lparr>presence_tag = tag, addr_hints = hints, since = now,
      expires = u64_add now ttl_seconds, seq = 0, four_words = Some words,
      signature = [], signer_pubkey = []\<rparr>"

definition presence_new_with_seq ::
  "nat \<Rightarrow> bytes \<Rightarrow> string list \<Rightarrow> nat \<Rightarrow> nat \<Rightarrow> PresenceRecord" where
  "presence_new_with_seq now tag hints ttl_seconds n =
     \<lparr>presence_tag = tag, addr_hints = hints, since = now,
      expires = u64_add now ttl_seconds, seq = n, four_words = None,
      signature = [], signer_pubkey = []\<rparr>"

definition presence_is_expired :: "nat \<Rightarrow> PresenceRecord \<Rightarrow> bool" where
  "presence_is_expired now r \<longleftrightarrow> now \<ge> expires r"

text \<open>The fields a presence signature covers: all but the signature and the signer's key.\<close>

record SignablePresenceRecord =
  sig_presence_tag :: bytes
  sig_addr_hints :: "string list"
  sig_since :: nat
  sig_expires :: nat
  sig_seq :: nat
  sig_four_words :: "string option"

definition signable_record :: "PresenceRecord \<Rightarrow> SignablePresenceRecord" where
  "signable_record r =
     \<lparr>sig_presence_tag = presence_tag r, sig_addr_hints = addr_hints r, sig_since = since r,
      sig_expires = expires r, sig_seq = seq r, sig_four_words = four_words r\<rparr>"

definition signable_bytes ::
  "(SignablePresenceRecord \<Rightarrow> bytes option) \<Rightarrow> PresenceRecord \<Rightarrow> bytes" where
  "signable_bytes postcard r =
     (case postcard (signable_record r) of None \<Rightarrow> [] | Some b \<Rightarrow> b)"

subsection \<open>Health, priorities and admission decisions\<close>

datatype PeerHealth = HealthAlive | HealthSuspect | HealthDead

datatype TopicPriority = Bulk | Normal | Critical

datatype AdmissionDropReason = PeerDead | PeerSuspect | BulkBackpressure | PeerCooled

datatype AdmissionDecision = Admit | Drop AdmissionDropReason

fun priority_rank :: "TopicPriority \<Rightarrow> nat" where
  "priority_rank Bulk = 0"
| "priority_rank Normal = 1"
| "priority_rank Critical = 2"

instantiation TopicPriority :: linorder
begin

definition less_eq_TopicPriority :: "TopicPriority \<Rightarrow> TopicPriority \<Rightarrow> bool" where
  "less_eq_TopicPriority p q \<longleftrightarrow> priority_rank p \<le> priority_rank q"

definition less_TopicPriority :: "TopicPriority \<Rightarrow> TopicPriority \<Rightarrow> bool" where
  "less_TopicPriority p q \<longleftrightarrow> priority_rank p < priority_rank q"

instance
proof
  fix x y z :: TopicPriority
  show "x < y \<longleftrightarrow> x \<le> y \<and> \<not> y \<le> x"
    by (auto simp: less_eq_TopicPriority_def less_TopicPriority_def)
  show "x \<le> x" by (simp add: less_eq_TopicPriority_def)
  show "x \<le> y \<Longrightarrow> y \<le> z \<Longrightarrow> x \<le> z" by (simp add: less_eq_TopicPriority_def)
  show "x \<le> y \<Longrightarrow> y \<le> x \<Longrightarrow> x = y"
    by (cases x; cases y) (simp_all add: less_eq_TopicPriority_def)
  show "x \<le> y \<or> y \<le> x" by (auto simp: less_eq_TopicPriority_def)
qed

end

definition default_priority :: TopicPriority where
  "default_priority = Normal"

subsection \<open>Facts about the types\<close>

lemma bind_sum_simps [simp]:
  "bind_sum (Inl e) f = Inl e" "bind_sum (Inr a) f = f a"
  by (simp_all add: bind_sum_def)

lemma from_u8_to_u8 [simp]: "from_u8 (to_u8 k) = Some k"
  by (cases k) (simp_all add: from_u8_def)

lemma from_u8_Some: "from_u8 b = Some k \<Longrightarrow> b = to_u8 k"
  by (auto simp: from_u8_def split: if_splits)

lemma le_bytes_inject_lemma:
  assumes "n < 256 ^ w" "m < 256 ^ w" "le_bytes w n = le_bytes w m"
  shows "n = m"
  using assms
proof (induction w arbitrary: n m)
  case 0
  then show ?case by simp
next
  case (Suc w)
  have split: "le_bytes (Suc w) x = word_of_nat (x mod 256) # le_bytes w (x div 256)" for x
  proof -
    have "[0..<Suc w] = 0 # map Suc [0..<w]" by (simp add: map_Suc_upt upt_conv_Cons del: upt_Suc)
    then show ?thesis by (simp add: le_bytes_def comp_def div_mult2_eq del: upt_Suc)
  qed
  from Suc.prems(3) have low: "(word_of_nat (n mod 256) :: u8) = word_of_nat (m mod 256)"
    and high: "le_bytes w (n div 256) = le_bytes w (m div 256)"
    by (simp_all add: split)
  have "unat (word_of_nat (n mod 256) :: u8) = unat (word_of_nat (m mod 256) :: u8)"
    using low by simp
  then have "n mod 256 = m mod 256" by (simp add: unat_of_nat take_bit_eq_mod)
  moreover have "n div 256 = m div 256"
  proof (rule Suc.IH [OF _ _ high])
    show "n div 256 < 256 ^ w" using Suc.prems(1) by (simp add: less_mult_imp_div_less mult.commute)
    show "m div 256 < 256 ^ w" using Suc.prems(2) by (simp add: less_mult_imp_div_less mult.commute)
  qed
  ultimately show ?case by (metis div_mult_mod_eq)
qed

lemma header_serialize_decode:
  "header_deserialize (header_serialize h @ rest) =
     Inr (h\<lparr>hdr_payload_hash := (if hdr_version h \<ge> 2 then hdr_payload_hash h else None)\<rparr>, rest)"
  by (simp add: header_deserialize_def header_serialize_def)

fun_cases next_u8_InrE: "next_u8 es = Inr r"
fun_cases next_topic_InrE: "next_topic es = Inr r"
fun_cases next_id_InrE: "next_id es = Inr r"
fun_cases next_kind_InrE: "next_kind es = Inr r"
fun_cases next_hash_InrE: "next_hash es = Inr r"

lemmas next_InrEs = next_u8_InrE next_topic_InrE next_id_InrE next_kind_InrE next_hash_InrE

lemma bind_sum_InrE:
  assumes "bind_sum r f = Inr b"
  obtains a where "r = Inr a" "f a = Inr b"
  using assms by (cases r) auto

lemma header_deserialize_encode:
  assumes "header_deserialize es = Inr (h, rest)"
  shows "es = header_serialize h @ rest" and "hdr_version h < 2 \<Longrightarrow> hdr_payload_hash h = None"
  using assms unfolding header_deserialize_def header_serialize_def
  by (auto elim!: bind_sum_InrE next_InrEs split: if_splits)

text \<open>
  The version-dispatched wire form of a header is exact in both directions. Decoding what
  a header serializes to gives the header back and leaves the rest of the input untouched
  (a header of version below 2 comes back without its payload hash, which it never writes);
  and every input that decodes at all is the serialization of what it decodes to, so a decoded
  version 1 header re-serializes to the identical elements and never carries a version 2 tail.
\<close>

theorem header_wire_exact:
  "header_deserialize (header_serialize h @ rest) =
     Inr (h\<lparr>hdr_payload_hash := (if hdr_version h \<ge> 2 then hdr_payload_hash h else None)\<rparr>, rest)
   \<and> (header_deserialize es = Inr (h', rest') \<longrightarrow>
        es = header_serialize h' @ rest' \<and> (hdr_version h' < 2 \<longrightarrow> hdr_payload_hash h' = None))"
  using header_serialize_decode header_deserialize_encode by blast

theorem header_wire_exact_witness:
  "header_deserialize (header_serialize (header_new (TopicId (replicate 32 7)) IHave 5)) =
     Inr (header_new (TopicId (replicate 32 7)) IHave 5, []) \<and>
   header_serialize (header_new (TopicId (replicate 32 7)) IHave 5) =
     header_serialize (header_new (TopicId (replicate 32 7)) IHave 5) @ []"
proof -
  let ?h = "header_new (TopicId (replicate 32 7)) IHave 5"
  have dec: "header_deserialize (header_serialize ?h) = Inr (?h, [])"
    using header_wire_exact [of ?h "[]" "[]" ?h "[]"] by (simp add: header_new_def)
  from dec header_wire_exact [of ?h "[]" "header_serialize ?h" ?h "[]"] show ?thesis by blast
qed

text \<open>
  The bytes hashed into a message id determine the topic, the epoch, the signer and the
  payload hash: with 32-byte identifiers and a 64-bit epoch no two different quadruples give
  the hash function the same input, so distinct messages collide only where BLAKE3 does.
\<close>

theorem msg_id_preimage_injective:
  assumes "length (topic_bytes t) = 32" "length (topic_bytes t') = 32"
    and "length (peer_bytes p) = 32" "length (peer_bytes p') = 32"
    and "e \<le> u64_max" "e' \<le> u64_max"
    and "msg_id_preimage t e p h = msg_id_preimage t' e' p' h'"
  shows "t = t' \<and> e = e' \<and> p = p' \<and> h = h'"
proof -
  from assms(7) have *: "topic_bytes t = topic_bytes t' \<and>
      le_bytes 8 e @ peer_bytes p @ h = le_bytes 8 e' @ peer_bytes p' @ h'"
    using assms(1,2) by (simp add: msg_id_preimage_def)
  then have "le_bytes 8 e = le_bytes 8 e'" "peer_bytes p = peer_bytes p'" "h = h'"
    using assms(3,4) by simp_all
  moreover from this(1) have "e = e'"
    using assms(5,6) le_bytes_inject_lemma [of e 8 e'] by (simp add: u64_max_def)
  ultimately show ?thesis using * by (simp add: TopicId.expand PeerId.expand)
qed

theorem msg_id_preimage_injective_witness:
  "length (topic_bytes (TopicId (replicate 32 1))) = 32 \<and>
   length (peer_bytes (PeerId (replicate 32 2))) = 32 \<and>
   msg_id_preimage (TopicId (replicate 32 1)) 3 (PeerId (replicate 32 2)) [4] \<noteq>
   msg_id_preimage (TopicId (replicate 32 1)) 5 (PeerId (replicate 32 2)) [4]"
  using msg_id_preimage_injective
    [of "TopicId (replicate 32 1)" "TopicId (replicate 32 1)"
        "PeerId (replicate 32 2)" "PeerId (replicate 32 2)" 3 5 "[4]" "[4]"]
  by (auto simp: u64_max_eq)

end
