(* ===== verification/Or_Set.thy ===== *)
theory Or_Set
  imports Gossip_Types
begin

text \<open>
  The observed-remove set of \<open>crates/crdt-sync/src/lib.rs\<close>: local additions and removals, the
  merge of a delta or of a whole state, the changelog with its compaction, and the deltas
  generated from it.

  A \<open>HashMap<T, HashSet<UniqueTag>>\<close> is a \<open>TagMap\<close>. The loops of \<open>apply_delta_parts\<close> run
  over the incoming maps in an order given by two key lists. The abstract view of a replica
  is the pair of its seen tags and its removed tags per element; merging is the join of that
  semilattice, which the locale \<open>state_merge\<close> turns into convergence.
\<close>

type_synonym UniqueTag = "PeerId \<times> nat"
type_synonym 't TagMap = "'t \<rightharpoonup> UniqueTag set"
type_synonym 't ChangelogEntry = "'t TagMap \<times> 't TagMap"

record 't OrSet =
  elements :: "'t TagMap"
  tombstones :: "'t TagMap"
  version :: nat
  changelog_floor :: nat
  changelog :: "nat \<rightharpoonup> 't ChangelogEntry"

record 't OrSetDelta =
  delta_added :: "'t TagMap"
  delta_removed :: "'t TagMap"
  delta_version :: nat

subsection \<open>Operations\<close>

definition tm_extend :: "'t \<Rightarrow> UniqueTag set \<Rightarrow> 't TagMap \<Rightarrow> 't TagMap" where
  "tm_extend e ts m = m(e \<mapsto> get_or {} m e \<union> ts)"

definition orset_new :: "'t OrSet" where
  "orset_new = \<lparr>elements = Map.empty, tombstones = Map.empty, version = 0,
                changelog_floor = 0, changelog = Map.empty\<rparr>"

text \<open>Bump the version and edit its changelog entry, created empty when absent.\<close>

definition log_change ::
  "('t ChangelogEntry \<Rightarrow> 't ChangelogEntry) \<Rightarrow> 't OrSet \<Rightarrow> 't OrSet" where
  "log_change f s =
     (let v = u64_add (version s) 1
      in s\<lparr>version := v,
           changelog := (changelog s)(v \<mapsto> f (get_or (Map.empty, Map.empty) (changelog s) v))\<rparr>)"

definition orset_add :: "'t \<Rightarrow> UniqueTag \<Rightarrow> 't OrSet \<Rightarrow> 't OrSet" where
  "orset_add element tag s =
     (let s1 = s\<lparr>elements := tm_extend element {tag} (elements s)\<rparr>;
          s2 = (case tombstones s1 element of
                  None \<Rightarrow> s1
                | Some ts \<Rightarrow>
                    (if ts - {tag} = {}
                     then s1\<lparr>tombstones := map_remove element (tombstones s1)\<rparr>
                     else s1\<lparr>tombstones := (tombstones s1)(element \<mapsto> ts - {tag})\<rparr>))
      in log_change (\<lambda>(added, removed). (tm_extend element {tag} added, removed)) s2)"

definition orset_remove :: "'t \<Rightarrow> 't OrSet \<Rightarrow> 't OrSet" where
  "orset_remove element s =
     (case elements s element of
        None \<Rightarrow> s
      | Some tags \<Rightarrow>
          log_change (\<lambda>(added, removed). (added, tm_extend element tags removed))
            (s\<lparr>tombstones := (if tags = {} then tombstones s
                              else tm_extend element tags (tombstones s)),
               elements := map_remove element (elements s)\<rparr>))"

definition contains :: "'t OrSet \<Rightarrow> 't \<Rightarrow> bool" where
  "contains s element \<longleftrightarrow> elements s element \<noteq> None"

definition record_changelog_entry :: "'t TagMap \<Rightarrow> 't TagMap \<Rightarrow> 't OrSet \<Rightarrow> 't OrSet" where
  "record_changelog_entry added removed s =
     (if added = Map.empty \<and> removed = Map.empty then s
      else let v = u64_add (version s) 1
           in s\<lparr>version := v, changelog := (changelog s)(v \<mapsto> (added, removed))\<rparr>)"

text \<open>The bodies of the two loops of \<open>apply_delta_parts\<close>, for one incoming entry.\<close>

definition merge_added_entry ::
  "'t TagMap \<Rightarrow> 't TagMap \<Rightarrow> 't \<Rightarrow> 't TagMap \<times> 't TagMap \<Rightarrow> 't TagMap \<times> 't TagMap" where
  "merge_added_entry tombs incoming e st =
     (let live = get_or {} incoming e - get_or {} tombs e; els = fst st; added = snd st
      in if live = {} then st
         else (tm_extend e live els,
               if live - get_or {} els e = {} then added
               else tm_extend e (live - get_or {} els e) added))"

definition merge_removed_entry ::
  "'t TagMap \<Rightarrow> 't \<Rightarrow> 't TagMap \<times> 't TagMap \<times> 't TagMap \<Rightarrow> 't TagMap \<times> 't TagMap \<times> 't TagMap" where
  "merge_removed_entry incoming e st =
     (let els = fst st; tombs = fst (snd st); removed = snd (snd st);
          tags = get_or {} incoming e; fresh = tags - get_or {} tombs e;
          tombs' = tm_extend e tags tombs
      in ((case els e of
             None \<Rightarrow> els
           | Some ours \<Rightarrow> if ours - get_or {} tombs' e = {} then map_remove e els
                          else els(e \<mapsto> ours - get_or {} tombs' e)),
          tombs',
          if fresh = {} then removed else removed(e \<mapsto> fresh)))"

definition apply_delta_parts ::
  "'t list \<Rightarrow> 't list \<Rightarrow> 't TagMap \<Rightarrow> 't TagMap \<Rightarrow> 't OrSet \<Rightarrow> 't OrSet" where
  "apply_delta_parts ka kr incoming_added incoming_removed s =
     (let (els, added) = fold (merge_added_entry (tombstones s) incoming_added) ka
                           (elements s, Map.empty);
          (els', tombs, removed) = fold (merge_removed_entry incoming_removed) kr
                           (els, tombstones s, Map.empty)
      in record_changelog_entry added removed (s\<lparr>elements := els', tombstones := tombs\<rparr>))"

definition merge_state :: "'t list \<Rightarrow> 't list \<Rightarrow> 't OrSet \<Rightarrow> 't OrSet \<Rightarrow> 't OrSet" where
  "merge_state ka kr other s = apply_delta_parts ka kr (elements other) (tombstones other) s"

definition merge_delta :: "'t list \<Rightarrow> 't list \<Rightarrow> 't OrSetDelta \<Rightarrow> 't OrSet \<Rightarrow> 't OrSet" where
  "merge_delta ka kr d s = apply_delta_parts ka kr (delta_added d) (delta_removed d) s"

definition compact :: "nat \<Rightarrow> 't OrSet \<Rightarrow> 't OrSet" where
  "compact keep_versions s =
     (if version s > keep_versions
      then let min_version = version s - keep_versions
           in s\<lparr>changelog := map_retain (\<lambda>v _. v > min_version) (changelog s),
                changelog_floor := max (changelog_floor s) min_version\<rparr>
      else s)"

text \<open>Every key of one map extended with its tags, as \<open>delta\<close> does entry by entry.\<close>

definition tm_extend_all :: "'t TagMap \<Rightarrow> 't TagMap \<Rightarrow> 't TagMap" where
  "tm_extend_all incoming m =
     (\<lambda>e. case incoming e of None \<Rightarrow> m e | Some ts \<Rightarrow> Some (get_or {} m e \<union> ts))"

fun collect_changes ::
  "(nat \<rightharpoonup> 't ChangelogEntry) \<Rightarrow> nat list \<Rightarrow> 't ChangelogEntry \<Rightarrow> 't ChangelogEntry option" where
  "collect_changes log [] acc = Some acc"
| "collect_changes log (v # vs) acc =
     (case log v of
        None \<Rightarrow> None
      | Some entry \<Rightarrow> collect_changes log vs
          (tm_extend_all (fst entry) (fst acc), tm_extend_all (snd entry) (snd acc)))"

definition delta :: "'t OrSet \<Rightarrow> nat \<Rightarrow> 't OrSetDelta option" where
  "delta s since_version =
     (if since_version \<ge> version s then None
      else if since_version < changelog_floor s then None
      else case collect_changes (changelog s) [since_version + 1..<version s + 1]
                  (Map.empty, Map.empty) of
             None \<Rightarrow> None
           | Some acc \<Rightarrow> Some \<lparr>delta_added = fst acc, delta_removed = snd acc,
                               delta_version = version s\<rparr>)"

definition max_retained_sequence_for_peer ::
  "'t list \<Rightarrow> 't list \<Rightarrow> PeerId \<Rightarrow> 't OrSet \<Rightarrow> nat option" where
  "max_retained_sequence_for_peer ke kt peer s =
     (let tags = (\<Union>e\<in>set ke. get_or {} (elements s) e) \<union> (\<Union>e\<in>set kt. get_or {} (tombstones s) e);
          sequences = snd ` Set.filter (\<lambda>tag. fst tag = peer) tags
      in if sequences = {} then None else Some (Max sequences))"

record 't CanonicalRetainedOrSet =
  canon_elements :: "'t \<rightharpoonup> UniqueTag list"
  canon_tombstones :: "'t \<rightharpoonup> UniqueTag list"
  canon_version :: nat
  canon_changelog_floor :: nat
  canon_changelog :: "nat \<rightharpoonup> (('t \<rightharpoonup> UniqueTag list) \<times> ('t \<rightharpoonup> UniqueTag list))"

definition canonical_retained_wire :: "'t OrSet \<Rightarrow> 't CanonicalRetainedOrSet" where
  "canonical_retained_wire s =
     \<lparr>canon_elements = map_option sorted_list_of_set \<circ> elements s,
      canon_tombstones = map_option sorted_list_of_set \<circ> tombstones s,
      canon_version = 0, canon_changelog_floor = 0, canon_changelog = Map.empty\<rparr>"

subsection \<open>The abstract view and well-formedness\<close>

definition live :: "'t OrSet \<Rightarrow> 't \<Rightarrow> UniqueTag set" where
  "live s e = get_or {} (elements s) e"

definition dead :: "'t OrSet \<Rightarrow> 't \<Rightarrow> UniqueTag set" where
  "dead s e = get_or {} (tombstones s) e"

type_synonym 't view = "('t \<Rightarrow> UniqueTag set) \<times> ('t \<Rightarrow> UniqueTag set)"

definition view_of :: "'t OrSet \<Rightarrow> 't view" where
  "view_of s = (\<lambda>e. live s e \<union> dead s e, dead s)"

definition parts_view :: "'t TagMap \<Rightarrow> 't TagMap \<Rightarrow> 't view" where
  "parts_view added removed =
     (\<lambda>e. get_or {} added e \<union> get_or {} removed e, \<lambda>e. get_or {} removed e)"

definition view_join :: "'t view \<Rightarrow> 't view \<Rightarrow> 't view" where
  "view_join a b = (\<lambda>e. fst a e \<union> fst b e, \<lambda>e. snd a e \<union> snd b e)"

definition orset_wf :: "'t OrSet \<Rightarrow> bool" where
  "orset_wf s \<longleftrightarrow> (\<forall>e. elements s e \<noteq> Some {}) \<and> (\<forall>e. live s e \<inter> dead s e = {})"

definition log_complete :: "'t OrSet \<Rightarrow> bool" where
  "log_complete s \<longleftrightarrow> changelog_floor s \<le> version s \<and>
     (\<forall>v. changelog s v \<noteq> None \<longleftrightarrow> changelog_floor s < v \<and> v \<le> version s)"

text \<open>
  The local history of a replica: one step is one call that changes it. An addition uses a
  tag this replica has not removed, as the contract of \<open>UniqueTag\<close> asks, and the version
  counter is below its maximum.
\<close>

inductive orset_step :: "'t OrSet \<Rightarrow> 't OrSet \<Rightarrow> bool" where
  step_add: "tag \<notin> dead s e \<Longrightarrow> version s < u64_max \<Longrightarrow> orset_step s (orset_add e tag s)"
| step_remove: "version s < u64_max \<Longrightarrow> orset_step s (orset_remove e s)"
| step_merge: "iterates ka added \<Longrightarrow> iterates kr removed \<Longrightarrow> version s < u64_max \<Longrightarrow>
    orset_step s (apply_delta_parts ka kr added removed s)"
| step_compact: "orset_step s (compact keep s)"

text \<open>The changes recorded after version \<open>v\<close>, joined.\<close>

definition log_view :: "'t OrSet \<Rightarrow> nat \<Rightarrow> 't view" where
  "log_view s v =
     (\<lambda>e. \<Union>u\<in>{v<..version s}. get_or {} (fst (the (changelog s u))) e \<union>
                                 get_or {} (snd (the (changelog s u))) e,
      \<lambda>e. \<Union>u\<in>{v<..version s}. get_or {} (snd (the (changelog s u))) e)"

subsection \<open>The loops of a merge\<close>

lemma get_or_tm_extend [simp, hash_simps]:
  "get_or {} (tm_extend e ts m) e' = (if e' = e then get_or {} m e \<union> ts else get_or {} m e')"
  by (simp add: tm_extend_def)

lemma tm_extend_apply [simp, hash_simps]:
  "tm_extend e ts m e' = (if e' = e then Some (get_or {} m e \<union> ts) else m e')"
  by (simp add: tm_extend_def)

lemma get_or_tm_extend_all [simp, hash_simps]:
  "get_or {} (tm_extend_all incoming m) e = get_or {} m e \<union> get_or {} incoming e"
  by (auto simp: tm_extend_all_def get_or_def split: option.splits)

lemma merge_added_entry_apply:
  "fst (merge_added_entry tombs inc e st) e' =
     (if e' = e \<and> get_or {} inc e - get_or {} tombs e \<noteq> {}
      then Some (get_or {} (fst st) e \<union> (get_or {} inc e - get_or {} tombs e)) else fst st e')"
  "snd (merge_added_entry tombs inc e st) e' =
     (if e' = e \<and> get_or {} inc e - get_or {} tombs e - get_or {} (fst st) e \<noteq> {}
      then Some (get_or {} (snd st) e \<union> (get_or {} inc e - get_or {} tombs e - get_or {} (fst st) e))
      else snd st e')"
  by (auto simp: merge_added_entry_def Let_def)

lemma fold_merge_added:
  assumes "distinct ks"
  shows "fst (fold (merge_added_entry tombs inc) ks st) e =
     (if e \<in> set ks \<and> get_or {} inc e - get_or {} tombs e \<noteq> {}
      then Some (get_or {} (fst st) e \<union> (get_or {} inc e - get_or {} tombs e)) else fst st e)
    \<and> snd (fold (merge_added_entry tombs inc) ks st) e =
     (if e \<in> set ks \<and> get_or {} inc e - get_or {} tombs e - get_or {} (fst st) e \<noteq> {}
      then Some (get_or {} (snd st) e \<union> (get_or {} inc e - get_or {} tombs e - get_or {} (fst st) e))
      else snd st e)"
  using assms
proof (induction ks arbitrary: st)
  case (Cons k ks)
  let ?st = "merge_added_entry tombs inc k st"
  have other: "e \<noteq> k \<Longrightarrow> fst ?st e = fst st e \<and> snd ?st e = snd st e"
    by (simp add: merge_added_entry_apply)
  then have other': "e \<noteq> k \<Longrightarrow> get_or {} (fst ?st) e = get_or {} (fst st) e
      \<and> get_or {} (snd ?st) e = get_or {} (snd st) e"
    by (simp add: get_or_def)
  show ?case
  proof (cases "e = k")
    case True
    then show ?thesis using Cons.IH [of ?st] Cons.prems by (simp add: merge_added_entry_apply)
  next
    case False
    then show ?thesis using Cons.IH [of ?st] Cons.prems other other' by simp
  qed
qed simp

lemma merge_removed_entry_apply:
  "fst (merge_removed_entry inc e st) e' =
     (if e' = e then (case fst st e of None \<Rightarrow> None | Some ours \<Rightarrow>
        (if ours - (get_or {} (fst (snd st)) e \<union> get_or {} inc e) = {} then None
         else Some (ours - (get_or {} (fst (snd st)) e \<union> get_or {} inc e)))) else fst st e')"
  "fst (snd (merge_removed_entry inc e st)) e' =
     (if e' = e then Some (get_or {} (fst (snd st)) e \<union> get_or {} inc e) else fst (snd st) e')"
  "snd (snd (merge_removed_entry inc e st)) e' =
     (if e' = e \<and> get_or {} inc e - get_or {} (fst (snd st)) e \<noteq> {}
      then Some (get_or {} inc e - get_or {} (fst (snd st)) e) else snd (snd st) e')"
  by (auto simp: merge_removed_entry_def Let_def split: option.splits)

lemma fold_merge_removed:
  assumes "distinct ks"
  shows "fst (fold (merge_removed_entry inc) ks st) e =
     (if e \<in> set ks then (case fst st e of None \<Rightarrow> None | Some ours \<Rightarrow>
        (if ours - (get_or {} (fst (snd st)) e \<union> get_or {} inc e) = {} then None
         else Some (ours - (get_or {} (fst (snd st)) e \<union> get_or {} inc e)))) else fst st e)
    \<and> fst (snd (fold (merge_removed_entry inc) ks st)) e =
     (if e \<in> set ks then Some (get_or {} (fst (snd st)) e \<union> get_or {} inc e) else fst (snd st) e)
    \<and> snd (snd (fold (merge_removed_entry inc) ks st)) e =
     (if e \<in> set ks \<and> get_or {} inc e - get_or {} (fst (snd st)) e \<noteq> {}
      then Some (get_or {} inc e - get_or {} (fst (snd st)) e) else snd (snd st) e)"
  using assms
proof (induction ks arbitrary: st)
  case (Cons k ks)
  let ?st = "merge_removed_entry inc k st"
  have other: "e \<noteq> k \<Longrightarrow> fst ?st e = fst st e \<and> fst (snd ?st) e = fst (snd st) e
      \<and> snd (snd ?st) e = snd (snd st) e"
    by (simp add: merge_removed_entry_apply)
  then have other': "e \<noteq> k \<Longrightarrow> get_or {} (fst (snd ?st)) e = get_or {} (fst (snd st)) e"
    by (simp add: get_or_def)
  show ?case
  proof (cases "e = k")
    case True
    have "k \<notin> set ks" using Cons.prems by simp
    then show ?thesis unfolding True using Cons.IH [of ?st] Cons.prems True
      by (simp add: merge_removed_entry_apply)
  next
    case False
    then show ?thesis using Cons.IH [of ?st] Cons.prems other other' by (simp split: option.split)
  qed
qed simp

subsection \<open>What a merge does to the view\<close>

definition merge_elements :: "'t TagMap \<Rightarrow> 't TagMap \<Rightarrow> 't OrSet \<Rightarrow> 't \<Rightarrow> UniqueTag set" where
  "merge_elements added removed s e =
     (live s e \<union> get_or {} added e) - (dead s e \<union> get_or {} removed e)"

lemma apply_delta_parts_fields:
  assumes "iterates ka added" "iterates kr removed" and wf: "orset_wf s"
  defines "s' \<equiv> apply_delta_parts ka kr added removed s"
  shows "live s' e = merge_elements added removed s e"
    and "dead s' e = dead s e \<union> get_or {} removed e"
    and "elements s' e \<noteq> Some {}"
proof -
  define st where "st = fold (merge_added_entry (tombstones s) added) ka (elements s, Map.empty)"
  define st' where "st' = fold (merge_removed_entry removed) kr (fst st, tombstones s, Map.empty)"
  have fields: "elements s' = fst st'" "tombstones s' = fst (snd st')"
    by (simp_all add: s'_def apply_delta_parts_def st_def st'_def record_changelog_entry_def
        Let_def case_prod_beta)
  have dk: "distinct ka" "distinct kr" and keys: "set ka = dom added" "set kr = dom removed"
    using assms(1,2) by (auto simp: iterates_def)
  have notin: "e \<notin> set ka \<Longrightarrow> get_or {} added e = {}" "e \<notin> set kr \<Longrightarrow> get_or {} removed e = {}"
    using keys by (auto simp: get_or_def split: option.splits)
  have disj: "live s e \<inter> dead s e = {}" and ne: "elements s e \<noteq> Some {}"
    using wf by (auto simp: orset_wf_def)
  have st: "fst st e = (if get_or {} added e - dead s e \<noteq> {}
      then Some (live s e \<union> (get_or {} added e - dead s e)) else elements s e)"
    using fold_merge_added [OF dk(1), of "tombstones s" added "(elements s, Map.empty)" e] notin(1)
    by (auto simp: st_def live_def dead_def)
  have fst_st: "get_or {} (fst st) e = live s e \<union> (get_or {} added e - dead s e)"
  proof (cases "get_or {} added e - dead s e = {}")
    case True
    then have "fst st e = elements s e" using st by (simp add: Diff_eq_empty_iff)
    then have "get_or {} (fst st) e = live s e" by (simp add: live_def get_or_def)
    with True show ?thesis by auto
  next
    case False
    then show ?thesis using st by (simp add: get_or_Some)
  qed
  have ne_st: "fst st e \<noteq> Some {}" using st ne by auto
  have st': "fst st' e = (if e \<in> set kr then (case fst st e of None \<Rightarrow> None | Some ours \<Rightarrow>
        (if ours - (dead s e \<union> get_or {} removed e) = {} then None
         else Some (ours - (dead s e \<union> get_or {} removed e)))) else fst st e)"
      "fst (snd st') e = (if e \<in> set kr then Some (dead s e \<union> get_or {} removed e) else tombstones s e)"
    using fold_merge_removed [OF dk(2), of removed "(fst st, tombstones s, Map.empty)" e]
    by (simp_all add: st'_def dead_def split: option.split)
  show "dead s' e = dead s e \<union> get_or {} removed e"
    using st'(2) notin(2) by (auto simp: dead_def fields get_or_def split: if_splits)
  show "elements s' e \<noteq> Some {}"
    using st'(1) ne_st by (auto simp: fields split: option.splits if_splits)
  have "get_or {} (fst st') e = get_or {} (fst st) e - (dead s e \<union> get_or {} removed e)"
  proof (cases "e \<in> set kr")
    case True
    then show ?thesis using st'(1) by (auto simp: get_or_def split: option.splits if_splits)
  next
    case False
    then have "fst st' e = fst st e" using st'(1) by simp
    then have "get_or {} (fst st') e = get_or {} (fst st) e" by (simp add: get_or_def)
    then show ?thesis using fst_st notin(2) [OF False] disj by auto
  qed
  then show "live s' e = merge_elements added removed s e"
    using fst_st by (auto simp: live_def dead_def merge_elements_def fields)
qed

lemma apply_delta_parts_wf:
  assumes "iterates ka added" "iterates kr removed" "orset_wf s"
  shows "orset_wf (apply_delta_parts ka kr added removed s)"
  using apply_delta_parts_fields [OF assms] by (auto simp: orset_wf_def merge_elements_def)

lemma apply_delta_parts_view [view_simps]:
  assumes "iterates ka added" "iterates kr removed" "orset_wf s"
  shows "view_of (apply_delta_parts ka kr added removed s) =
           view_join (view_of s) (parts_view added removed)"
  using apply_delta_parts_fields [OF assms]
  by (auto simp: view_of_def view_join_def parts_view_def merge_elements_def fun_eq_iff)

lemma contains_view: "orset_wf s \<Longrightarrow> contains s e \<longleftrightarrow> fst (view_of s) e - snd (view_of s) e \<noteq> {}"
proof -
  assume wf: "orset_wf s"
  have "contains s e \<longleftrightarrow> live s e \<noteq> {}"
    using wf by (auto simp: contains_def orset_wf_def live_def get_or_def split: option.splits)
  moreover have "live s e \<inter> dead s e = {}" using wf by (simp add: orset_wf_def)
  ultimately show ?thesis by (auto simp: view_of_def)
qed

lemma parts_view_state: "parts_view (elements s) (tombstones s) = view_of s"
  by (simp add: parts_view_def view_of_def live_def dead_def fun_eq_iff)

lemma view_join_laws:
  "view_join a b = view_join b a"
  "view_join (view_join a b) c = view_join a (view_join b c)"
  "view_join a a = a"
  by (auto simp: view_join_def fun_eq_iff)


subsection \<open>Convergence, from the laws of a join\<close>

text \<open>
  A replicated state with a merge whose effect on an abstract view is the join with the view of
  the payload. The client lemma: what a replica has after any sequence of merges depends only
  on the set of payload views it received, not on their order or multiplicity.
\<close>

locale state_merge =
  fixes merge :: "'p \<Rightarrow> 's \<Rightarrow> 's"
    and ok :: "'p \<Rightarrow> bool"
    and payload_view :: "'p \<Rightarrow> 'v"
    and view :: "'s \<Rightarrow> 'v"
    and join :: "'v \<Rightarrow> 'v \<Rightarrow> 'v"
    and wf :: "'s \<Rightarrow> bool"
  assumes view_merge: "ok p \<Longrightarrow> wf s \<Longrightarrow> view (merge p s) = join (view s) (payload_view p)"
    and wf_merge: "ok p \<Longrightarrow> wf s \<Longrightarrow> wf (merge p s)"
    and join_comm: "join a b = join b a"
    and join_assoc: "join (join a b) c = join a (join b c)"
    and join_idem: "join a a = a"
begin

lemma wf_merges: "wf s \<Longrightarrow> list_all ok ps \<Longrightarrow> wf (fold merge ps s)"
  by (induction ps arbitrary: s) (auto intro: wf_merge)

lemma view_merges:
  "wf s \<Longrightarrow> list_all ok ps \<Longrightarrow> view (fold merge ps s) = fold join (map payload_view ps) (view s)"
proof (induction ps arbitrary: s)
  case (Cons p ps)
  then have "view (fold merge ps (merge p s)) = fold join (map payload_view ps) (view (merge p s))"
    by (simp add: wf_merge)
  then show ?case using Cons.prems by (simp add: view_merge join_comm)
qed simp

lemma join_left_commute: "join a (join b c) = join b (join a c)"
  by (metis join_assoc join_comm)

lemma join_left_idem: "join a (join a b) = join a b"
  by (metis join_assoc join_idem)

lemma fold_join_set: "fold join xs v = Finite_Set.fold join v (set xs)"
proof -
  have "comp_fun_idem_on UNIV join"
    by unfold_locales (simp_all add: fun_eq_iff join_left_commute join_left_idem)
  then show ?thesis by (simp add: comp_fun_idem_on.fold_set_fold)
qed

lemma merges_converge:
  assumes "wf s" "wf t" "view s = view t" "list_all ok ps" "list_all ok qs"
    and "payload_view ` set ps = payload_view ` set qs"
  shows "view (fold merge ps s) = view (fold merge qs t)"
  using assms by (simp add: view_merges fold_join_set)

lemma merge_absorbs:
  assumes "wf s" "ok p" "join (view s) (payload_view p) = view s"
  shows "view (merge p s) = view s"
  using assms by (simp add: view_merge)

end

type_synonym 't payload = "'t list \<times> 't list \<times> 't TagMap \<times> 't TagMap"

definition merge_payload :: "'t payload \<Rightarrow> 't OrSet \<Rightarrow> 't OrSet" where
  "merge_payload p s = (case p of (ka, kr, a, r) \<Rightarrow> apply_delta_parts ka kr a r s)"

definition payload_ok :: "'t payload \<Rightarrow> bool" where
  "payload_ok p \<longleftrightarrow> (case p of (ka, kr, a, r) \<Rightarrow> iterates ka a \<and> iterates kr r)"

definition payload_parts :: "'t payload \<Rightarrow> 't view" where
  "payload_parts p = (case p of (ka, kr, a, r) \<Rightarrow> parts_view a r)"

interpretation orset: state_merge merge_payload payload_ok payload_parts view_of view_join orset_wf
  by unfold_locales
    (auto simp: merge_payload_def payload_ok_def payload_parts_def apply_delta_parts_view
      apply_delta_parts_wf view_join_laws(2,3) intro: view_join_laws(1))

subsection \<open>Each call as a logged change\<close>

text \<open>
  A call either leaves the view, the version and the log as they are (compaction aside), or it
  takes the next version and records under it exactly the change it made to the view.
\<close>

definition logs :: "'t OrSet \<Rightarrow> 't ChangelogEntry \<Rightarrow> 't OrSet \<Rightarrow> bool" where
  "logs s c s' \<longleftrightarrow> version s' = version s + 1 \<and> changelog_floor s' = changelog_floor s \<and>
     changelog s' = (changelog s)(version s + 1 \<mapsto> c) \<and>
     view_of s' = view_join (view_of s) (parts_view (fst c) (snd c))"

lemma orset_wf_new [simp]: "orset_wf orset_new"
  by (simp add: orset_wf_def orset_new_def live_def dead_def)

lemma log_complete_new [simp]: "log_complete orset_new"
  by (auto simp: log_complete_def orset_new_def)

lemma orset_new_fields [simp]:
  "live orset_new e = {}" "dead orset_new e = {}" "version orset_new = 0"
  "changelog_floor orset_new = 0"
  by (simp_all add: orset_new_def live_def dead_def)

lemma log_complete_next: "log_complete s \<Longrightarrow> changelog s (Suc (version s)) = None"
  unfolding log_complete_def by (metis Suc_n_not_le_n)

lemma log_complete_logs:
  assumes "log_complete s" "logs s c s'" shows "log_complete s'"
  using assms by (auto simp: log_complete_def logs_def le_Suc_eq)

lemma orset_add_fields:
  "live (orset_add e tag s) e' = (if e' = e then insert tag (live s e) else live s e')"
  "dead (orset_add e tag s) e' = (if e' = e then dead s e - {tag} else dead s e')"
  by (auto simp: orset_add_def log_change_def Let_def live_def dead_def get_or_def tm_extend_def
      map_remove_def split: option.splits)

lemma orset_add_wf: "orset_wf s \<Longrightarrow> orset_wf (orset_add e tag s)"
proof -
  assume wf: "orset_wf s"
  have "elements (orset_add e tag s) e' \<noteq> Some {}" for e'
    using wf by (auto simp: orset_add_def log_change_def Let_def orset_wf_def split: option.splits)
  then show ?thesis using wf by (auto simp: orset_wf_def orset_add_fields)
qed

lemma orset_add_logs:
  assumes "log_complete s" "tag \<notin> dead s e" "version s < u64_max"
  shows "logs s ([e \<mapsto> {tag}], Map.empty) (orset_add e tag s)"
proof -
  have "view_of (orset_add e tag s) = view_join (view_of s) (parts_view [e \<mapsto> {tag}] Map.empty)"
    using assms(2) by (auto simp: view_of_def view_join_def parts_view_def orset_add_fields fun_eq_iff)
  moreover have "get_or (Map.empty, Map.empty) (changelog s) (Suc (version s)) = (Map.empty, Map.empty)"
    using log_complete_next [OF assms(1)] by (simp add: get_or_def)
  ultimately show ?thesis using assms(3)
    by (auto simp: logs_def orset_add_def log_change_def Let_def tm_extend_def
        split: option.splits)
qed

lemma orset_remove_fields:
  "live (orset_remove e s) e' = (if e' = e then {} else live s e')"
  "dead (orset_remove e s) e' = (if e' = e then dead s e \<union> live s e else dead s e')"
  by (auto simp: orset_remove_def log_change_def Let_def live_def dead_def get_or_def tm_extend_def
      map_remove_def split: option.splits)

lemma orset_remove_wf: "orset_wf s \<Longrightarrow> orset_wf (orset_remove e s)"
proof -
  assume wf: "orset_wf s"
  have "elements (orset_remove e s) e' \<noteq> Some {}" for e'
    using wf by (auto simp: orset_remove_def log_change_def Let_def orset_wf_def split: option.splits)
  then show ?thesis using wf by (auto simp: orset_wf_def orset_remove_fields)
qed

lemma orset_remove_logs:
  assumes "log_complete s" "version s < u64_max" "elements s e = Some tags"
  shows "logs s (Map.empty, [e \<mapsto> tags]) (orset_remove e s)"
proof -
  have "live s e = tags" using assms(3) by (simp add: live_def get_or_def)
  then have "view_of (orset_remove e s) = view_join (view_of s) (parts_view Map.empty [e \<mapsto> tags])"
    by (auto simp: view_of_def view_join_def parts_view_def orset_remove_fields fun_eq_iff)
  moreover have "get_or (Map.empty, Map.empty) (changelog s) (Suc (version s)) = (Map.empty, Map.empty)"
    using log_complete_next [OF assms(1)] by (simp add: get_or_def)
  ultimately show ?thesis using assms(2,3)
    by (auto simp: logs_def orset_remove_def log_change_def Let_def tm_extend_def)
qed

lemma apply_delta_parts_changes:
  assumes "iterates ka added" "iterates kr removed" "orset_wf s"
  obtains a r where
    "apply_delta_parts ka kr added removed s =
       record_changelog_entry a r
         (s\<lparr>elements := elements (apply_delta_parts ka kr added removed s),
            tombstones := tombstones (apply_delta_parts ka kr added removed s)\<rparr>)"
    "\<And>e. get_or {} a e = get_or {} added e - dead s e - live s e"
    "\<And>e. get_or {} r e = get_or {} removed e - dead s e"
proof -
  define st where "st = fold (merge_added_entry (tombstones s) added) ka (elements s, Map.empty)"
  define st' where "st' = fold (merge_removed_entry removed) kr (fst st, tombstones s, Map.empty)"
  have dk: "distinct ka" "distinct kr" and keys: "set ka = dom added" "set kr = dom removed"
    using assms(1,2) by (auto simp: iterates_def)
  have notin: "e \<notin> set ka \<Longrightarrow> get_or {} added e = {}" "e \<notin> set kr \<Longrightarrow> get_or {} removed e = {}" for e
    using keys by (auto simp: get_or_def split: option.splits)
  have eq: "apply_delta_parts ka kr added removed s = record_changelog_entry (snd st) (snd (snd st'))
      (s\<lparr>elements := fst st', tombstones := fst (snd st')\<rparr>)"
    by (simp add: apply_delta_parts_def st_def st'_def Let_def case_prod_beta)
  have a: "get_or {} (snd st) e = get_or {} added e - dead s e - live s e" for e
    using fold_merge_added [OF dk(1), of "tombstones s" added "(elements s, Map.empty)" e] notin(1)
    by (auto simp: st_def live_def dead_def get_or_def [of _ "snd _"])
  have r: "get_or {} (snd (snd st')) e = get_or {} removed e - dead s e" for e
    using fold_merge_removed [OF dk(2), of removed "(fst st, tombstones s, Map.empty)" e] notin(2)
    by (auto simp: st'_def dead_def get_or_def [of _ "snd _"])
  have "elements (apply_delta_parts ka kr added removed s) = fst st'"
    "tombstones (apply_delta_parts ka kr added removed s) = fst (snd st')"
    unfolding eq by (simp_all add: record_changelog_entry_def Let_def)
  with eq a r that [of "snd st" "snd (snd st')"] show thesis by simp
qed

lemma view_join_fresh:
  assumes "\<And>e. get_or {} a e = get_or {} added e - dead s e - live s e"
    and "\<And>e. get_or {} r e = get_or {} removed e - dead s e"
  shows "view_join (view_of s) (parts_view a r) = view_join (view_of s) (parts_view added removed)"
  using assms by (auto simp: view_join_def view_of_def parts_view_def fun_eq_iff)

lemma apply_delta_parts_logs:
  assumes "iterates ka added" "iterates kr removed" "orset_wf s" "version s < u64_max"
  defines "s' \<equiv> apply_delta_parts ka kr added removed s"
  shows "(view_of s' = view_of s \<and> version s' = version s \<and> changelog s' = changelog s
            \<and> changelog_floor s' = changelog_floor s) \<or> (\<exists>c. logs s c s')"
proof -
  obtain a r where eq: "s' = record_changelog_entry a r
         (s\<lparr>elements := elements s', tombstones := tombstones s'\<rparr>)"
    and a: "\<And>e. get_or {} a e = get_or {} added e - dead s e - live s e"
    and r: "\<And>e. get_or {} r e = get_or {} removed e - dead s e"
    unfolding s'_def using apply_delta_parts_changes [OF assms(1-3)] by metis
  note eqs = arg_cong [OF eq, of version] arg_cong [OF eq, of changelog]
    arg_cong [OF eq, of changelog_floor]
  have view: "view_of s' = view_join (view_of s) (parts_view a r)"
    unfolding s'_def using apply_delta_parts_view [OF assms(1-3)] view_join_fresh [OF a r] by simp
  show ?thesis
  proof (cases "a = Map.empty \<and> r = Map.empty")
    case True
    then have "version s' = version s" "changelog s' = changelog s"
        "changelog_floor s' = changelog_floor s"
      using eqs by (simp_all add: record_changelog_entry_def)
    moreover have "view_of s' = view_of s"
      using view True by (simp add: view_join_def parts_view_def)
    ultimately show ?thesis by simp
  next
    case False
    then have "version s' = version s + 1 \<and> changelog_floor s' = changelog_floor s
        \<and> changelog s' = (changelog s)(version s + 1 \<mapsto> (a, r))"
      using eqs assms(4) by (auto simp: record_changelog_entry_def Let_def)
    then have "logs s (a, r) s'" using view by (simp add: logs_def)
    then show ?thesis by blast
  qed
qed

lemma compact_fields [simp]:
  "live (compact k s) = live s" "dead (compact k s) = dead s" "view_of (compact k s) = view_of s"
  "version (compact k s) = version s" "elements (compact k s) = elements s"
  by (auto simp: compact_def Let_def live_def dead_def view_of_def fun_eq_iff)

lemma compact_wf: "orset_wf s \<Longrightarrow> orset_wf (compact k s)"
  by (simp add: orset_wf_def)

lemma compact_floor: "changelog_floor s \<le> changelog_floor (compact k s)"
  by (simp add: compact_def Let_def)

lemma compact_changelog:
  "log_complete s \<Longrightarrow> changelog_floor (compact k s) < v \<Longrightarrow> changelog (compact k s) v = changelog s v"
  by (auto simp: compact_def Let_def map_retain_def log_complete_def split: option.split if_splits)

lemma compact_log_complete:
  assumes "log_complete s" shows "log_complete (compact k s)"
proof -
  have "changelog (compact k s) v \<noteq> None \<longleftrightarrow> changelog_floor (compact k s) < v \<and> v \<le> version s" for v
  proof -
    have "changelog s v \<noteq> None \<longleftrightarrow> changelog_floor s < v \<and> v \<le> version s"
      using assms unfolding log_complete_def by blast
    then show ?thesis
      by (cases "changelog s v") (auto simp: compact_def Let_def map_retain_def)
  qed
  then show ?thesis using assms by (auto simp: log_complete_def compact_def Let_def)
qed

lemma orset_step_cases:
  assumes "orset_step s s'" "orset_wf s" "log_complete s"
  shows "(\<exists>k. s' = compact k s) \<or>
    (view_of s' = view_of s \<and> version s' = version s \<and> changelog s' = changelog s
       \<and> changelog_floor s' = changelog_floor s) \<or> (\<exists>c. logs s c s')"
  using assms
proof (cases rule: orset_step.cases)
  case (step_remove e)
  show ?thesis
  proof (cases "elements s e")
    case None
    then show ?thesis using step_remove by (simp add: orset_remove_def)
  next
    case (Some tags)
    then show ?thesis using step_remove orset_remove_logs [OF assms(3)] by blast
  qed
next
  case (step_add tag e)
  then show ?thesis using orset_add_logs [OF assms(3)] by blast
next
  case (step_merge ka added kr removed)
  then show ?thesis using apply_delta_parts_logs [OF step_merge(2,3) assms(2)] by simp
next
  case (step_compact keep)
  then show ?thesis by blast
qed

lemma orset_step_wf: "orset_step s s' \<Longrightarrow> orset_wf s \<Longrightarrow> orset_wf s'"
  by (induction rule: orset_step.induct)
    (auto intro: orset_add_wf orset_remove_wf apply_delta_parts_wf compact_wf)

lemma orset_step_log_complete:
  assumes "orset_step s s'" "orset_wf s" "log_complete s" shows "log_complete s'"
  using orset_step_cases [OF assms]
proof (elim disjE exE)
  assume "view_of s' = view_of s \<and> version s' = version s \<and> changelog s' = changelog s
       \<and> changelog_floor s' = changelog_floor s"
  then show ?thesis using assms(3) by (simp add: log_complete_def)
qed (use assms log_complete_logs compact_log_complete in blast)+

lemma orset_steps_invariant:
  assumes "orset_step\<^sup>*\<^sup>* s s'" "orset_wf s" "log_complete s"
  shows "orset_wf s' \<and> log_complete s'"
  using assms by (induction rule: rtranclp_induct) (auto intro: orset_step_wf orset_step_log_complete)

subsection \<open>Deltas carry the whole difference\<close>

lemma collect_changes_Some:
  assumes "\<forall>v \<in> set vs. log v \<noteq> None"
  obtains acc' where "collect_changes log vs acc = Some acc'"
    "\<And>e. get_or {} (fst acc') e = get_or {} (fst acc) e \<union> (\<Union>v\<in>set vs. get_or {} (fst (the (log v))) e)"
    "\<And>e. get_or {} (snd acc') e = get_or {} (snd acc) e \<union> (\<Union>v\<in>set vs. get_or {} (snd (the (log v))) e)"
  using assms
proof (induction vs arbitrary: acc thesis)
  case (Cons v vs)
  then obtain entry where e: "log v = Some entry" by auto
  show ?case
    by (rule Cons.IH [of "(tm_extend_all (fst entry) (fst acc), tm_extend_all (snd entry) (snd acc))"])
      (use Cons.prems e in \<open>auto simp: Un_assoc\<close>)
qed auto

lemma log_view_logs:
  assumes "logs s c s'" "v \<le> version s"
  shows "log_view s' v = view_join (log_view s v) (parts_view (fst c) (snd c))"
proof -
  have "{v<..version s'} = insert (Suc (version s)) {v<..version s}"
    using assms by (auto simp: logs_def)
  moreover have "u \<in> {v<..version s} \<Longrightarrow> changelog s' u = changelog s u" for u
    using assms by (auto simp: logs_def)
  ultimately show ?thesis using assms(1)
    by (auto simp: log_view_def view_join_def parts_view_def logs_def fun_eq_iff)
qed

lemma log_view_compact:
  assumes "log_complete s" "changelog_floor (compact k s) \<le> v"
  shows "log_view (compact k s) v = log_view s v"
  using compact_changelog [OF assms(1)] assms(2)
  by (auto simp: log_view_def fun_eq_iff)

lemma changelog_floor_mono:
  assumes "orset_step s s'" "orset_wf s" "log_complete s"
  shows "changelog_floor s \<le> changelog_floor s' \<and> version s \<le> version s'"
  using orset_step_cases [OF assms] compact_floor by (auto simp: logs_def)

lemma log_view_difference:
  assumes "orset_step\<^sup>*\<^sup>* s s'" "orset_wf s" "log_complete s" "changelog_floor s' \<le> version s"
  shows "version s \<le> version s' \<and> view_of s' = view_join (view_of s) (log_view s' (version s))"
  using assms
proof (induction rule: rtranclp_induct)
  case base
  then show ?case by (simp add: log_view_def view_join_def)
next
  case (step t u)
  have inv: "orset_wf t" "log_complete t"
    using orset_steps_invariant [OF step.hyps(1) step.prems(1,2)] by auto
  have "changelog_floor t \<le> changelog_floor u" "version t \<le> version u"
    using changelog_floor_mono [OF step.hyps(2) inv] by auto
  then have IH: "version s \<le> version t" "view_of t = view_join (view_of s) (log_view t (version s))"
    using step by auto
  show ?case using orset_step_cases [OF step.hyps(2) inv]
  proof (elim disjE exE)
    fix k assume "u = compact k t"
    then show ?thesis using IH log_view_compact [OF inv(2)] step.prems(3) by simp
  next
    assume "view_of u = view_of t \<and> version u = version t \<and> changelog u = changelog t
       \<and> changelog_floor u = changelog_floor t"
    then show ?thesis using IH by (simp add: log_view_def)
  next
    fix c assume "logs t c u"
    moreover then have "view_of u = view_join (view_of t) (parts_view (fst c) (snd c))"
        "version u = version t + 1" by (simp_all add: logs_def)
    ultimately show ?thesis using IH log_view_logs [of t c u "version s"]
      by (simp add: view_join_laws(2))
  qed
qed

lemma delta_view:
  assumes "log_complete s" "changelog_floor s \<le> v" "v < version s"
  obtains d where "delta s v = Some d" "delta_version d = version s"
    "parts_view (delta_added d) (delta_removed d) = log_view s v"
proof -
  have range: "set [v + 1..<version s + 1] = {v<..version s}" by auto
  have "\<forall>u \<in> set [v + 1..<version s + 1]. changelog s u \<noteq> None"
    using assms unfolding log_complete_def range by auto
  from collect_changes_Some [OF this, of "(Map.empty, Map.empty)"] obtain acc where
    acc: "collect_changes (changelog s) [v + 1..<version s + 1] (Map.empty, Map.empty) = Some acc"
      "\<And>e. get_or {} (fst acc) e = (\<Union>u\<in>{v<..version s}. get_or {} (fst (the (changelog s u))) e)"
      "\<And>e. get_or {} (snd acc) e = (\<Union>u\<in>{v<..version s}. get_or {} (snd (the (changelog s u))) e)"
    unfolding range by auto
  have "parts_view (fst acc) (snd acc) = log_view s v"
    using acc(2,3) by (auto simp: parts_view_def log_view_def fun_eq_iff)
  with acc(1) assms show thesis by (auto simp: delta_def intro: that)
qed

lemma delta_catches_up:
  assumes "orset_step\<^sup>*\<^sup>* s s'" "orset_wf s" "log_complete s"
    and "changelog_floor s' \<le> version s" "version s < version s'"
  obtains d where "delta s' (version s) = Some d" "delta_version d = version s'"
    "view_join (view_of s) (parts_view (delta_added d) (delta_removed d)) = view_of s'"
proof -
  have "log_complete s'" using orset_steps_invariant [OF assms(1-3)] by simp
  from delta_view [OF this assms(4,5)] obtain d where
    "delta s' (version s) = Some d" "delta_version d = version s'"
    "parts_view (delta_added d) (delta_removed d) = log_view s' (version s)" .
  with log_view_difference [OF assms(1-4)] show thesis by (auto intro: that)
qed

subsection \<open>Properties\<close>

abbreviation peer_of :: "u8 \<Rightarrow> PeerId" where
  "peer_of b \<equiv> PeerId (replicate 32 b)"

text \<open>
  C5: Whatever the iteration order of the two hash maps, merging a payload keeps a replica
  well formed (no element without a tag, no tag both live and removed) and is the join of the
  replica's view with the payload's: an element is in the set afterwards exactly when some tag
  of it is live here or added by the payload and removed by neither.
\<close>

theorem merge_is_join:
  assumes "iterates ka added" "iterates kr removed" "orset_wf s"
  shows "orset_wf (apply_delta_parts ka kr added removed s) \<and>
    view_of (apply_delta_parts ka kr added removed s) = view_join (view_of s) (parts_view added removed) \<and>
    contains (apply_delta_parts ka kr added removed s) e =
      ((live s e \<union> get_or {} added e) - (dead s e \<union> get_or {} removed e) \<noteq> {})"
proof -
  have "contains (apply_delta_parts ka kr added removed s) e \<longleftrightarrow>
      live (apply_delta_parts ka kr added removed s) e \<noteq> {}"
    using apply_delta_parts_fields(3) [OF assms, of e]
    by (auto simp: contains_def live_def get_or_def split: option.splits)
  then show ?thesis using assms
    by (simp add: apply_delta_parts_wf apply_delta_parts_view apply_delta_parts_fields(1)
        merge_elements_def)
qed

theorem merge_is_join_witness:
  "contains (apply_delta_parts [7] [] [7 \<mapsto> {(peer_of 1, 1)}] Map.empty orset_new) (7::nat)"
  using merge_is_join [of "[7::nat]" "[7 \<mapsto> {(peer_of 1, 1)}]" "[]" Map.empty orset_new 7]
  by (simp add: iterates_def)

text \<open>
  C1: Replicas that start with the same view and receive the same set of payloads, in any
  order, any number of times each and with any iteration orders, end with the same view and
  so contain the same elements: the strong convergence of the set.
\<close>

theorem replicas_converge:
  assumes "orset_wf s" "orset_wf t" "view_of s = view_of t"
    and "list_all payload_ok ps" "list_all payload_ok qs"
    and "payload_parts ` set ps = payload_parts ` set qs"
  shows "view_of (fold merge_payload ps s) = view_of (fold merge_payload qs t) \<and>
    contains (fold merge_payload ps s) = contains (fold merge_payload qs t)"
proof -
  have view: "view_of (fold merge_payload ps s) = view_of (fold merge_payload qs t)"
    by (rule orset.merges_converge [OF assms])
  have "orset_wf (fold merge_payload ps s)" "orset_wf (fold merge_payload qs t)"
    using assms orset.wf_merges by blast+
  with view show ?thesis by (auto simp: contains_view fun_eq_iff)
qed

theorem replicas_converge_witness:
  "contains (fold merge_payload [([7], [], [7 \<mapsto> {(peer_of 1, 1)}], Map.empty),
       ([], [7], Map.empty, [7 \<mapsto> {(peer_of 1, 1)}])] orset_new) =
   contains (fold merge_payload [([], [7], Map.empty, [7 \<mapsto> {(peer_of 1, 1)}]),
       ([7], [], [7 \<mapsto> {(peer_of 1, 1)}], Map.empty),
       ([], [7::nat], Map.empty, [7 \<mapsto> {(peer_of 1, 1)}])] orset_new)"
  by (rule replicas_converge [THEN conjunct2])
    (auto simp: payload_ok_def iterates_def payload_parts_def)

text \<open>
  C8: In every history of a replica (adds with tags it has not removed, removals, merges,
  compactions, before the version counter is exhausted) the state is well formed, the
  changelog holds exactly the versions above the floor, and a delta is refused exactly when
  nothing is new or the requested version lies below the floor.
\<close>

theorem history_invariant:
  assumes "orset_step\<^sup>*\<^sup>* orset_new s"
  shows "orset_wf s \<and> log_complete s \<and> (delta s v = None) = (version s \<le> v \<or> v < changelog_floor s)"
proof -
  have inv: "orset_wf s" "log_complete s" using orset_steps_invariant [OF assms] by auto
  have "delta s v \<noteq> None" if "v < version s" "changelog_floor s \<le> v"
    using delta_view [OF inv(2) that(2,1)] by auto
  then show ?thesis using inv by (auto simp: delta_def not_le)
qed

theorem history_invariant_witness:
  "orset_step\<^sup>*\<^sup>* orset_new (compact 0 (orset_add (7::nat) (peer_of 1, 1) orset_new)) \<and>
   delta (compact 0 (orset_add (7::nat) (peer_of 1, 1) orset_new)) 0 = None"
proof -
  let ?s = "orset_add (7::nat) (peer_of 1, 1) orset_new"
  have "orset_step orset_new ?s"
    by (rule step_add) (simp_all add: dead_def orset_new_def u64_max_eq)
  moreover have "orset_step ?s (compact 0 ?s)" by (rule step_compact)
  ultimately have steps: "orset_step\<^sup>*\<^sup>* orset_new (compact 0 ?s)" by simp
  moreover have "changelog_floor (compact 0 ?s) = 1"
    by (simp add: compact_def orset_add_def orset_new_def log_change_def u64_max_eq)
  ultimately show ?thesis using history_invariant [OF steps, of 0] by simp
qed

text \<open>
  C4: A delta is complete. A source moves from \<open>s\<close> to \<open>s'\<close> without compacting past \<open>version s\<close>.
  Then it has a delta since that version, stamped with its current version, and a replica
  that already has what \<open>s\<close> had gets everything \<open>s'\<close> has by merging it.
\<close>

theorem delta_is_complete:
  assumes "orset_step\<^sup>*\<^sup>* orset_new s" "orset_step\<^sup>*\<^sup>* s s'"
    and "changelog_floor s' \<le> version s" "version s < version s'"
    and "orset_wf t" "view_join (view_of t) (view_of s) = view_of t"
  shows "\<exists>d. delta s' (version s) = Some d \<and> delta_version d = version s' \<and>
    (\<forall>ka kr. iterates ka (delta_added d) \<and> iterates kr (delta_removed d) \<longrightarrow>
       view_of (merge_delta ka kr d t) = view_join (view_of t) (view_of s'))"
proof -
  have "orset_wf s" "log_complete s" using orset_steps_invariant [OF assms(1)] by auto
  from delta_catches_up [OF assms(2) this assms(3,4)] obtain d where d:
    "delta s' (version s) = Some d" "delta_version d = version s'"
    "view_join (view_of s) (parts_view (delta_added d) (delta_removed d)) = view_of s'" .
  have "view_of (merge_delta ka kr d t) = view_join (view_of t) (view_of s')"
    if "iterates ka (delta_added d)" "iterates kr (delta_removed d)" for ka kr
    using apply_delta_parts_view [OF that assms(5)] d(3) assms(6)
    by (metis merge_delta_def view_join_laws(2))
  with d show ?thesis by blast
qed

theorem delta_is_complete_witness:
  "\<exists>d. delta (orset_add (7::nat) (peer_of 1, 1) orset_new) 0 = Some d \<and> delta_version d = 1"
proof -
  let ?s = "orset_add (7::nat) (peer_of 1, 1) orset_new"
  have "orset_step orset_new ?s"
    by (rule step_add) (simp_all add: dead_def orset_new_def u64_max_eq)
  then have steps: "orset_step\<^sup>*\<^sup>* orset_new ?s" by simp
  have fields: "version ?s = 1" "changelog_floor ?s = 0" "version orset_new = 0"
    by (simp_all add: orset_add_def orset_new_def log_change_def u64_max_eq)
  show ?thesis
    using delta_is_complete [OF rtranclp.rtrancl_refl steps _ _ orset_wf_new view_join_laws(3)]
    unfolding fields by auto
qed

text \<open>
  C15: Observed-remove semantics. After a replica removes an element, merging another replica
  brings it back exactly when that replica has a live tag for it that the remover had never
  seen: a removal cancels the additions it observed and no concurrent one.
\<close>

theorem remove_only_observed:
  assumes "orset_wf s" "orset_wf other"
    and "iterates ka (elements other)" "iterates kr (tombstones other)"
  shows "contains (merge_state ka kr other (orset_remove e s)) e =
    (\<not> live other e \<subseteq> live s e \<union> dead s e)"
proof -
  have wf: "orset_wf (orset_remove e s)" using assms(1) by (rule orset_remove_wf)
  have disj: "live other e \<inter> dead other e = {}" using assms(2) by (simp add: orset_wf_def)
  have "contains (merge_state ka kr other (orset_remove e s)) e \<longleftrightarrow>
      merge_elements (elements other) (tombstones other) (orset_remove e s) e \<noteq> {}"
    using apply_delta_parts_fields(1,3) [OF assms(3,4) wf, of e]
    by (auto simp: merge_state_def contains_def live_def get_or_def split: option.splits)
  also have "merge_elements (elements other) (tombstones other) (orset_remove e s) e =
      live other e - (dead s e \<union> live s e \<union> dead other e)"
    by (simp add: merge_elements_def orset_remove_fields live_def [of other] dead_def [of other])
  finally show ?thesis using disj by blast
qed

theorem remove_only_observed_witness:
  "contains (merge_state [7] [] (orset_add (7::nat) (peer_of 2, 1) orset_new)
     (orset_remove 7 (orset_add 7 (peer_of 1, 1) orset_new))) 7"
proof -
  have "orset_wf (orset_add (7::nat) t orset_new)" for t by (simp add: orset_add_wf)
  moreover have "iterates [7] (elements (orset_add (7::nat) t orset_new))"
    "iterates [] (tombstones (orset_add (7::nat) t orset_new))" for t
    by (simp_all add: iterates_def orset_add_def orset_new_def log_change_def Let_def tm_extend_def dom_def)
  ultimately show ?thesis
    by (simp add: remove_only_observed orset_add_fields)
qed

text \<open>
  The canonical wire form keeps every live and every removed tag, sorted and without
  repetition, so its length is the number of tags and decoding it into a fresh set and merging
  loses nothing.
\<close>

theorem canonical_wire_lossless:
  assumes "\<And>e. finite (live s e)" "\<And>e. finite (dead s e)"
  shows "(\<lambda>e. map_option set (canon_elements (canonical_retained_wire s) e)) = elements s \<and>
    (\<lambda>e. map_option set (canon_tombstones (canonical_retained_wire s) e)) = tombstones s \<and>
    (\<forall>e ts. canon_elements (canonical_retained_wire s) e = Some ts \<longrightarrow> sorted ts \<and> distinct ts)"
proof -
  have "map_option set (map_option sorted_list_of_set (m e)) = m e"
    if "finite (get_or {} m e)" for m :: "'a TagMap" and e
    using that by (cases "m e") (auto simp: get_or_def)
  then show ?thesis using assms
    by (auto simp: canonical_retained_wire_def fun_eq_iff live_def dead_def)
qed

theorem canonical_wire_lossless_witness:
  "map_option set (canon_elements (canonical_retained_wire
     (orset_add (7::nat) (peer_of 1, 1) orset_new)) 7) = Some {(peer_of 1, 1)}"
proof -
  let ?s = "orset_add (7::nat) (peer_of 1, 1) orset_new"
  have fin: "finite (live ?s e)" "finite (dead ?s e)" for e
    by (simp_all add: orset_add_fields)
  have "elements ?s 7 = Some {(peer_of 1, 1)}"
    by (simp add: orset_add_def orset_new_def log_change_def Let_def)
  with canonical_wire_lossless [OF fin, THEN conjunct1, THEN fun_cong, of 7] show ?thesis by simp
qed

end
