(* ===== verification/Vector_Clock.thy ===== *)
theory Vector_Clock
  imports Gossip_Types
begin

text \<open>
  Vector clocks and the last-writer-wins register of \<open>crates/crdt-sync/src/lib.rs\<close>. The order
  test runs over the hash maps with its early return; the register's tie-breaker hashes the
  sorted clock with a hasher that is a parameter, because Rust does not specify the function
  \<open>DefaultHasher\<close> computes.
\<close>

record VectorClock =
  clocks :: "PeerId \<rightharpoonup> nat"

definition vc_new :: VectorClock where
  "vc_new = \<lparr>clocks = Map.empty\<rparr>"

definition vc_get :: "VectorClock \<Rightarrow> PeerId \<Rightarrow> nat" where
  "vc_get c peer = get_or 0 (clocks c) peer"

definition vc_increment :: "PeerId \<Rightarrow> VectorClock \<Rightarrow> VectorClock" where
  "vc_increment peer c = \<lparr>clocks = (clocks c)(peer \<mapsto> u64_add (vc_get c peer) 1)\<rparr>"

definition vc_merge_entry :: "VectorClock \<Rightarrow> PeerId \<Rightarrow> VectorClock \<Rightarrow> VectorClock" where
  "vc_merge_entry other peer c =
     (let our = map_or_insert peer 0 (clocks c)
      in \<lparr>clocks = our(peer \<mapsto> max (get_or 0 our peer) (vc_get other peer))\<rparr>)"

definition vc_merge :: "PeerId list \<Rightarrow> VectorClock \<Rightarrow> VectorClock \<Rightarrow> VectorClock" where
  "vc_merge ko other c = fold (vc_merge_entry other) ko c"

text \<open>The first loop of \<open>happens_before\<close>; \<^const>\<open>None\<close> is its early \<open>return false\<close>.\<close>

fun hb_scan :: "VectorClock \<Rightarrow> VectorClock \<Rightarrow> PeerId list \<Rightarrow> bool \<Rightarrow> bool option" where
  "hb_scan self other [] strictly_less = Some strictly_less"
| "hb_scan self other (peer # ps) strictly_less =
     (if vc_get self peer > vc_get other peer then None
      else hb_scan self other ps (strictly_less \<or> vc_get self peer < vc_get other peer))"

definition happens_before ::
  "PeerId list \<Rightarrow> PeerId list \<Rightarrow> VectorClock \<Rightarrow> VectorClock \<Rightarrow> bool" where
  "happens_before ks ko self other =
     (case hb_scan self other ks False of
        None \<Rightarrow> False
      | Some strictly_less \<Rightarrow>
          fold (\<lambda>peer sl. if clocks self peer = None \<and> vc_get other peer > 0 then True else sl)
            ko strictly_less)"

definition concurrent ::
  "PeerId list \<Rightarrow> PeerId list \<Rightarrow> VectorClock \<Rightarrow> VectorClock \<Rightarrow> bool" where
  "concurrent ks ko self other \<longleftrightarrow>
     \<not> happens_before ks ko self other \<and> \<not> happens_before ko ks other self \<and> self \<noteq> other"

record 'a LwwRegister =
  lww_value :: 'a
  lww_clock :: VectorClock

definition lww_new :: "'a \<Rightarrow> 'a LwwRegister" where
  "lww_new value = \<lparr>lww_value = value, lww_clock = vc_new\<rparr>"

definition lww_set :: "'a \<Rightarrow> PeerId \<Rightarrow> 'a LwwRegister \<Rightarrow> 'a LwwRegister" where
  "lww_set value peer r = r\<lparr>lww_clock := vc_increment peer (lww_clock r), lww_value := value\<rparr>"

type_synonym hasher = "(PeerId \<times> nat) list \<Rightarrow> nat"

definition hash_clock :: "hasher \<Rightarrow> PeerId list \<Rightarrow> 'a LwwRegister \<Rightarrow> nat" where
  "hash_clock hasher ks r =
     hasher (sort_key fst (map (\<lambda>peer. (peer, vc_get (lww_clock r) peer)) ks))"

definition lww_merge ::
  "hasher \<Rightarrow> PeerId list \<Rightarrow> PeerId list \<Rightarrow> 'a LwwRegister \<Rightarrow> 'a LwwRegister \<Rightarrow> 'a LwwRegister" where
  "lww_merge hasher ks ko other r =
     (if happens_before ko ks (lww_clock other) (lww_clock r)
      then r\<lparr>lww_clock := vc_merge ko (lww_clock other) (lww_clock r)\<rparr>
      else if happens_before ks ko (lww_clock r) (lww_clock other)
      then r\<lparr>lww_value := lww_value other, lww_clock := lww_clock other\<rparr>
      else if concurrent ks ko (lww_clock r) (lww_clock other)
      then let r' = (if hash_clock hasher ko other < hash_clock hasher ks r
                     then r\<lparr>lww_value := lww_value other\<rparr> else r)
           in r'\<lparr>lww_clock := vc_merge ko (lww_clock other) (lww_clock r')\<rparr>
      else r)"

subsection \<open>Clocks as functions\<close>

definition vc_le :: "VectorClock \<Rightarrow> VectorClock \<Rightarrow> bool" where
  "vc_le a b \<longleftrightarrow> (\<forall>p. vc_get a p \<le> vc_get b p)"

lemma vc_get_absent: "iterates ks (clocks c) \<Longrightarrow> p \<notin> set ks \<Longrightarrow> vc_get c p = 0"
  by (auto simp: iterates_def vc_get_def get_or_def split: option.splits)

lemma vc_get_merge_entry:
  "vc_get (vc_merge_entry other q c) p = (if p = q then max (vc_get c q) (vc_get other q) else vc_get c p)"
  by (auto simp: vc_merge_entry_def vc_get_def Let_def get_or_def split: option.splits)

lemma vc_get_merge_fold:
  "vc_get (fold (vc_merge_entry other) ko c) p =
     (if p \<in> set ko then max (vc_get c p) (vc_get other p) else vc_get c p)"
  by (induction ko arbitrary: c) (auto simp: vc_get_merge_entry)

lemma vc_get_merge:
  assumes "iterates ko (clocks other)"
  shows "vc_get (vc_merge ko other c) p = max (vc_get c p) (vc_get other p)"
  using vc_get_absent [OF assms, of p] by (simp add: vc_merge_def vc_get_merge_fold)

lemma vc_get_increment:
  "vc_get (vc_increment q c) p = (if p = q then u64_add (vc_get c q) 1 else vc_get c p)"
  by (simp add: vc_increment_def vc_get_def)

lemma vc_get_new [simp]: "vc_get vc_new p = 0"
  by (simp add: vc_get_def vc_new_def)

lemma hb_scan_eq:
  "hb_scan self other ks sl =
     (if \<forall>p\<in>set ks. vc_get self p \<le> vc_get other p
      then Some (sl \<or> (\<exists>p\<in>set ks. vc_get self p < vc_get other p)) else None)"
  by (induction self other ks sl rule: hb_scan.induct) auto

lemma fold_flag: "fold (\<lambda>x b. if P x then True else b) xs b \<longleftrightarrow> b \<or> (\<exists>x\<in>set xs. P x)"
  by (induction xs arbitrary: b) auto

lemma happens_before_order:
  assumes "iterates ks (clocks a)" "iterates ko (clocks b)"
  shows "happens_before ks ko a b \<longleftrightarrow> vc_le a b \<and> (\<exists>p. vc_get a p < vc_get b p)"
proof -
  have le: "(\<forall>p\<in>set ks. vc_get a p \<le> vc_get b p) \<longleftrightarrow> vc_le a b"
    using vc_get_absent [OF assms(1)] by (auto simp: vc_le_def)
  have "(\<exists>p\<in>set ks. vc_get a p < vc_get b p) \<or> (\<exists>p\<in>set ko. clocks a p = None \<and> 0 < vc_get b p)
      \<longleftrightarrow> (\<exists>p. vc_get a p < vc_get b p)" (is "?L \<longleftrightarrow> ?R")
  proof
    have "clocks a p = None \<Longrightarrow> vc_get a p = 0" for p by (simp add: vc_get_def get_or_def)
    then show "?L \<Longrightarrow> ?R" by metis
  next
    assume ?R
    then obtain p where p: "vc_get a p < vc_get b p" by blast
    have "p \<in> set ko" using p vc_get_absent [OF assms(2)] by (metis not_less_zero)
    moreover have "p \<in> set ks \<or> clocks a p = None" using assms(1) by (auto simp: iterates_def)
    moreover have "0 < vc_get b p" using p by simp
    ultimately show ?L using p by blast
  qed
  then show ?thesis
    unfolding happens_before_def hb_scan_eq le by (simp add: fold_flag)
qed

lemma vc_le_laws:
  "vc_le a a" "vc_le a b \<Longrightarrow> vc_le b c \<Longrightarrow> vc_le a c"
  by (auto simp: vc_le_def intro: order_trans)

subsection \<open>Properties\<close>

text \<open>
  Whatever order the two hash maps are iterated in, \<open>happens_before\<close> decides the strict
  pointwise order of the clocks, and \<open>concurrent\<close> holds exactly of clocks that are neither
  ordered nor structurally equal.
\<close>

theorem happens_before_is_strict_order:
  assumes "iterates ks (clocks a)" "iterates ko (clocks b)"
  shows "happens_before ks ko a b = (vc_le a b \<and> (\<exists>p. vc_get a p < vc_get b p)) \<and>
    concurrent ks ko a b = ((\<exists>p. vc_get b p < vc_get a p) \<and> (\<exists>p. vc_get a p < vc_get b p)
       \<or> vc_get a = vc_get b \<and> a \<noteq> b)"
  using happens_before_order [OF assms] happens_before_order [OF assms(2,1)]
  unfolding concurrent_def vc_le_def
  by (auto simp: fun_eq_iff not_le not_less intro: order_antisym dest: leD)

theorem happens_before_is_strict_order_witness:
  "happens_before [] [PeerId [1]] vc_new (vc_increment (PeerId [1]) vc_new) \<and>
   concurrent [PeerId [2]] [PeerId [1]] (vc_increment (PeerId [2]) vc_new) (vc_increment (PeerId [1]) vc_new)"
proof -
  let ?c = "\<lambda>p. vc_increment p vc_new"
  have it: "iterates [] (clocks vc_new)" "iterates [p] (clocks (?c p))" for p
    by (simp_all add: vc_new_def vc_increment_def iterates_def)
  have get: "vc_get (?c p) q = (if q = p then 1 else 0)" "vc_get vc_new q = 0" for p q
    by (simp_all add: vc_get_increment u64_max_eq)
  have "happens_before [] [PeerId [1]] vc_new (?c (PeerId [1]))"
    unfolding happens_before_is_strict_order [OF it(1) it(2), THEN conjunct1]
    by (auto simp: get vc_le_def)
  moreover have "concurrent [PeerId [2]] [PeerId [1]] (?c (PeerId [2])) (?c (PeerId [1]))"
    unfolding happens_before_is_strict_order [OF it(2) it(2), THEN conjunct2]
    by (auto simp: get)
  ultimately show ?thesis by simp
qed

text \<open>
  Merging clocks is the least upper bound of the pointwise order, in every iteration order
  of the other clock; in particular a merge never loses an event either side knew of.
\<close>

theorem vc_merge_least_upper_bound:
  assumes "iterates ko (clocks b)"
  shows "vc_le a (vc_merge ko b a) \<and> vc_le b (vc_merge ko b a) \<and>
    (\<forall>c. vc_le a c \<and> vc_le b c \<longrightarrow> vc_le (vc_merge ko b a) c)"
  by (simp add: vc_le_def vc_get_merge [OF assms])

theorem vc_merge_least_upper_bound_witness:
  "vc_le (vc_increment (PeerId [1]) vc_new)
     (vc_merge [PeerId [1]] (vc_increment (PeerId [1]) vc_new) vc_new)"
  using vc_merge_least_upper_bound [of "[PeerId [1]]" "vc_increment (PeerId [1]) vc_new" vc_new]
  by (simp add: iterates_def vc_increment_def vc_new_def)

text \<open>
  Two replicas of a register that merge each other agree on the value and on every clock
  entry, provided equal clocks carry equal values and the hashes of concurrent clocks differ.
\<close>

theorem lww_pair_converges:
  assumes "iterates ka (clocks (lww_clock a))" "iterates kb (clocks (lww_clock b))"
    and "lww_clock a = lww_clock b \<longrightarrow> lww_value a = lww_value b"
    and "concurrent ka kb (lww_clock a) (lww_clock b) \<longrightarrow> hash_clock h ka a \<noteq> hash_clock h kb b"
  shows "lww_value (lww_merge h ka kb b a) = lww_value (lww_merge h kb ka a b) \<and>
    vc_get (lww_clock (lww_merge h ka kb b a)) = vc_get (lww_clock (lww_merge h kb ka a b))"
proof -
  note order = happens_before_order [OF assms(1,2)] happens_before_order [OF assms(2,1)]
  have sym: "concurrent ka kb (lww_clock a) (lww_clock b) = concurrent kb ka (lww_clock b) (lww_clock a)"
    by (auto simp: concurrent_def)
  consider (ab) "happens_before ka kb (lww_clock a) (lww_clock b)"
    | (ba) "happens_before kb ka (lww_clock b) (lww_clock a)"
    | (conc) "concurrent ka kb (lww_clock a) (lww_clock b)"
    | (eq) "lww_clock a = lww_clock b"
    by (auto simp: concurrent_def)
  then show ?thesis
  proof cases
    case ab
    then have "\<not> happens_before kb ka (lww_clock b) (lww_clock a)"
      by (auto simp: order vc_le_def not_le dest: leD)
    then show ?thesis using ab
      by (auto simp: lww_merge_def fun_eq_iff vc_get_merge [OF assms(1)] order vc_le_def max_absorb1)
  next
    case ba
    then have "\<not> happens_before ka kb (lww_clock a) (lww_clock b)"
      by (auto simp: order vc_le_def not_le dest: leD)
    then show ?thesis using ba
      by (auto simp: lww_merge_def fun_eq_iff vc_get_merge [OF assms(2)] order vc_le_def max_absorb1)
  next
    case conc
    then have "\<not> happens_before ka kb (lww_clock a) (lww_clock b)"
      "\<not> happens_before kb ka (lww_clock b) (lww_clock a)" "hash_clock h ka a \<noteq> hash_clock h kb b"
      using assms(4) by (auto simp: concurrent_def)
    then show ?thesis using conc sym
      by (auto simp: lww_merge_def Let_def fun_eq_iff vc_get_merge [OF assms(1)]
          vc_get_merge [OF assms(2)] max.commute)
  next
    case eq
    then have "\<not> happens_before ka kb (lww_clock a) (lww_clock b)"
      "\<not> happens_before kb ka (lww_clock b) (lww_clock a)"
      unfolding order by (simp_all add: eq)
    then show ?thesis using eq assms(3) by (simp add: lww_merge_def concurrent_def)
  qed
qed

theorem lww_pair_converges_witness:
  "lww_value (lww_merge (\<lambda>xs. snd (hd xs)) [PeerId [1]] [] (lww_new CHR ''a'')
       (lww_set CHR ''b'' (PeerId [1]) (lww_new CHR ''a''))) =
   lww_value (lww_merge (\<lambda>xs. snd (hd xs)) [] [PeerId [1]]
       (lww_set CHR ''b'' (PeerId [1]) (lww_new CHR ''a'')) (lww_new CHR ''a''))"
proof -
  let ?a = "lww_set CHR ''b'' (PeerId [1]) (lww_new CHR ''a'')" and ?b = "lww_new CHR ''a''"
  have it: "iterates [PeerId [1]] (clocks (lww_clock ?a))" "iterates [] (clocks (lww_clock ?b))"
    by (simp_all add: lww_set_def lww_new_def vc_new_def vc_increment_def iterates_def)
  have "happens_before [] [PeerId [1]] (lww_clock ?b) (lww_clock ?a)"
    unfolding happens_before_order [OF it(2,1)]
    by (auto simp: lww_set_def lww_new_def vc_get_increment vc_le_def u64_max_eq)
  then have "\<not> concurrent [PeerId [1]] [] (lww_clock ?a) (lww_clock ?b)" by (simp add: concurrent_def)
  moreover have "lww_clock ?a \<noteq> lww_clock ?b"
    by (auto simp: lww_set_def lww_new_def vc_new_def vc_increment_def)
  ultimately show ?thesis using lww_pair_converges [OF it, of "\<lambda>xs. snd (hd xs)"] by simp
qed

text \<open>
  Three writers. Each entry of the merged clock is the same whichever way three concurrent
  writes are combined, but the tie-breaker hashes the merged clock afresh, so the values can
  differ.
\<close>

definition one_write :: "'a \<Rightarrow> PeerId \<Rightarrow> 'a LwwRegister" where
  "one_write v p = \<lparr>lww_value = v, lww_clock = \<lparr>clocks = [p \<mapsto> 1]\<rparr>\<rparr>"

lemma vc_get_literal: "vc_get \<lparr>clocks = m\<rparr> p = get_or 0 m p"
  by (simp add: vc_get_def)

lemma happens_before_disjoint:
  assumes "iterates ks (clocks a)" "iterates ko (clocks b)"
    and "vc_get a p > vc_get b p" "vc_get b q > vc_get a q"
  shows "concurrent ks ko a b"
  using assms happens_before_order [OF assms(1,2)] happens_before_order [OF assms(2,1)]
  by (auto simp: concurrent_def vc_le_def not_le dest: leD)

lemma lww_merge_concurrent:
  assumes "concurrent ks ko (lww_clock r) (lww_clock other)"
  shows "lww_merge h ks ko other r =
    \<lparr>lww_value = (if hash_clock h ko other < hash_clock h ks r then lww_value other else lww_value r),
     lww_clock = vc_merge ko (lww_clock other) (lww_clock r)\<rparr>"
  using assms by (auto simp: lww_merge_def concurrent_def Let_def)

lemma vc_merge_single:
  "vc_merge [p] \<lparr>clocks = [p \<mapsto> 1]\<rparr> \<lparr>clocks = m\<rparr> = \<lparr>clocks = m(p \<mapsto> max (get_or 0 m p) 1)\<rparr>"
  by (simp add: vc_merge_def vc_merge_entry_def Let_def vc_get_def map_or_insert_def get_or_def
      split: option.splits)

text \<open>
  The register does not converge for three concurrent writers. If the hash of the clock
  of \<open>a\<close> merged with \<open>b\<close> is above that of \<open>c\<close>, and \<open>a\<close>'s hash is not above that of \<open>c\<close>
  merged into \<open>b\<close>, then the replica that merged \<open>a\<close>, \<open>b\<close>, \<open>c\<close> in this order holds the
  value of \<open>c\<close> while the one that merged \<open>b\<close> with \<open>c\<close> into \<open>a\<close> holds that of \<open>a\<close>, both with
  the same clock; and then merging one into the other changes nothing.
\<close>

theorem lww_three_way_divergence:
  fixes h :: hasher and x y z :: 'a
  assumes "distinct [p, q, r]"
    and "h [(p, 1)] \<le> h [(q, 1)]" "h [(r, 1)] < h (sort_key fst [(p, 1), (q, 1)])"
    and "h [(p, 1)] \<le> h (sort_key fst [(q, 1), (r, 1)])"
  defines "ab \<equiv> lww_merge h [p] [q] (one_write y q) (one_write x p)"
    and "bc \<equiv> lww_merge h [q] [r] (one_write z r) (one_write y q)"
  defines "left \<equiv> lww_merge h [p, q] [r] (one_write z r) ab"
    and "right \<equiv> lww_merge h [p] [q, r] bc (one_write x p)"
  shows "lww_value left = z \<and> lww_value right = x \<and> lww_clock left = lww_clock right \<and>
    lww_merge h [p, q, r] [p, q, r] right left = left"
proof -
  have ne: "p \<noteq> q" "p \<noteq> r" "q \<noteq> r" using assms(1) by auto
  have conc: "concurrent [p'] [q'] \<lparr>clocks = [p' \<mapsto> 1]\<rparr> \<lparr>clocks = [q' \<mapsto> 1]\<rparr>" if "p' \<noteq> q'" for p' q'
    by (rule happens_before_disjoint [of _ _ _ _ p' q'])
      (use that in \<open>auto simp: iterates_def vc_get_literal\<close>)
  have ab: "ab = \<lparr>lww_value = x, lww_clock = \<lparr>clocks = [p \<mapsto> 1, q \<mapsto> 1]\<rparr>\<rparr>"
    using conc [OF ne(1)] assms(2) ne unfolding ab_def
    by (simp add: lww_merge_concurrent one_write_def hash_clock_def vc_get_literal vc_merge_single
        del: One_nat_def)
  have bc: "lww_clock bc = \<lparr>clocks = [q \<mapsto> 1, r \<mapsto> 1]\<rparr>"
    using conc [OF ne(3)] ne unfolding bc_def
    by (simp add: lww_merge_concurrent one_write_def hash_clock_def vc_get_literal vc_merge_single
        del: One_nat_def)
  have "concurrent [p, q] [r] \<lparr>clocks = [p \<mapsto> 1, q \<mapsto> 1]\<rparr> \<lparr>clocks = [r \<mapsto> 1]\<rparr>"
    by (rule happens_before_disjoint [of _ _ _ _ p r])
      (use ne in \<open>auto simp: iterates_def vc_get_literal\<close>)
  then have left: "left = \<lparr>lww_value = z, lww_clock = \<lparr>clocks = [p \<mapsto> 1, q \<mapsto> 1, r \<mapsto> 1]\<rparr>\<rparr>"
    using assms(3) ne unfolding left_def ab
    by (simp add: lww_merge_concurrent one_write_def hash_clock_def vc_get_literal vc_merge_single
        del: One_nat_def)
  have "concurrent [p] [q, r] \<lparr>clocks = [p \<mapsto> 1]\<rparr> \<lparr>clocks = [q \<mapsto> 1, r \<mapsto> 1]\<rparr>"
    by (rule happens_before_disjoint [of _ _ _ _ p q])
      (use ne in \<open>auto simp: iterates_def vc_get_literal\<close>)
  then have right: "lww_value right = x" "lww_clock right = \<lparr>clocks = [p \<mapsto> 1, q \<mapsto> 1, r \<mapsto> 1]\<rparr>"
    using assms(4) ne bc unfolding right_def
    by (auto simp: lww_merge_concurrent one_write_def hash_clock_def vc_get_literal
        vc_merge_def vc_merge_entry_def vc_get_def map_or_insert_def Let_def)
  have "\<not> happens_before [p, q, r] [p, q, r] (lww_clock left) (lww_clock right)"
    by (subst happens_before_order) (use ne in \<open>auto simp: left right iterates_def\<close>)
  then have "lww_merge h [p, q, r] [p, q, r] right left = left"
    by (simp add: lww_merge_def concurrent_def left right)
  then show ?thesis by (simp add: left right)
qed

theorem lww_three_way_divergence_witness:
  "lww_value (lww_merge length [PeerId [1], PeerId [2]] [PeerId [3]] (one_write (3::nat) (PeerId [3]))
     (lww_merge length [PeerId [1]] [PeerId [2]] (one_write 2 (PeerId [2])) (one_write 1 (PeerId [1])))) = 3 \<and>
   lww_value (lww_merge length [PeerId [1]] [PeerId [2], PeerId [3]]
     (lww_merge length [PeerId [2]] [PeerId [3]] (one_write (3::nat) (PeerId [3])) (one_write 2 (PeerId [2])))
     (one_write 1 (PeerId [1]))) = 1"
  using lww_three_way_divergence [where p = "PeerId [1]" and q = "PeerId [2]" and r = "PeerId [3]"
      and h = length and x = 1 and y = 2 and z = "3::nat"]
  by (simp add: less_eq_PeerId_def)

end
