(* ===== verification/Anti_Entropy.thy ===== *)
theory Anti_Entropy
  imports Or_Set
begin

text \<open>
  The anti-entropy manager of \<open>crates/crdt-sync/src/lib.rs\<close>: the versions each peer has
  acknowledged and the periodic tick that sends deltas. The operations are generic in the
  CRDT, whose \<open>delta\<close>, \<open>version\<close> and \<open>merge\<close> are arguments as in the trait \<open>DeltaCrdt\<close>.

  The task holds no lock while the callback runs, so a tick is a sequence of small steps
  (\<open>ae_step\<close>) between which the local set changes and peers come and go. The locale
  \<open>delta_source\<close> states what the manager relies on; it is interpreted on the OR-Set.
\<close>

record 'c AntiEntropyManager =
  ae_crdt :: 'c
  ae_peer_versions :: "PeerId \<rightharpoonup> nat"
  ae_interval_secs :: nat

definition ae_new :: "'c \<Rightarrow> nat \<Rightarrow> 'c AntiEntropyManager" where
  "ae_new crdt interval_secs =
     \<lparr>ae_crdt = crdt, ae_peer_versions = Map.empty, ae_interval_secs = interval_secs\<rparr>"

definition update_peer_version ::
  "PeerId \<Rightarrow> nat \<Rightarrow> 'c AntiEntropyManager \<Rightarrow> 'c AntiEntropyManager" where
  "update_peer_version peer v m = m\<lparr>ae_peer_versions := (ae_peer_versions m)(peer \<mapsto> v)\<rparr>"

text \<open>\<open>merge\<close> returns the error of the CRDT, if any; then the peer is not registered.\<close>

definition ae_apply_delta ::
  "('d \<Rightarrow> 'c \<Rightarrow> 'e + 'c) \<Rightarrow> PeerId \<Rightarrow> 'd \<Rightarrow> 'c AntiEntropyManager \<Rightarrow> 'e + 'c AntiEntropyManager" where
  "ae_apply_delta merge peer d m =
     (case merge d (ae_crdt m) of
        Inl err \<Rightarrow> Inl err
      | Inr c \<Rightarrow> Inr (m\<lparr>ae_crdt := c,
                         ae_peer_versions := map_or_insert peer 0 (ae_peer_versions m)\<rparr>))"

definition ae_add_peer :: "PeerId \<Rightarrow> 'c AntiEntropyManager \<Rightarrow> 'c AntiEntropyManager" where
  "ae_add_peer peer m = m\<lparr>ae_peer_versions := map_or_insert peer 0 (ae_peer_versions m)\<rparr>"

definition ae_remove_peer :: "PeerId \<Rightarrow> 'c AntiEntropyManager \<Rightarrow> 'c AntiEntropyManager" where
  "ae_remove_peer peer m = m\<lparr>ae_peer_versions := map_remove peer (ae_peer_versions m)\<rparr>"

definition peers_to_sync :: "PeerId list \<Rightarrow> 'c AntiEntropyManager \<Rightarrow> (PeerId \<times> nat) list" where
  "peers_to_sync ks m = map (\<lambda>p. (p, get_or 0 (ae_peer_versions m) p)) ks"

text \<open>Reading the delta with its version, and recording the outcome of the callback.\<close>

definition prepare_sync ::
  "('c \<Rightarrow> nat \<Rightarrow> 'd option) \<Rightarrow> ('c \<Rightarrow> nat) \<Rightarrow> nat \<Rightarrow> 'c AntiEntropyManager \<Rightarrow> ('d \<times> nat) option" where
  "prepare_sync dlt ver peer_version m =
     map_option (\<lambda>d. (d, ver (ae_crdt m))) (dlt (ae_crdt m) peer_version)"

definition complete_sync ::
  "PeerId \<Rightarrow> nat \<Rightarrow> bool \<Rightarrow> 'c AntiEntropyManager \<Rightarrow> 'c AntiEntropyManager" where
  "complete_sync peer sent_version success m =
     (if success then m\<lparr>ae_peer_versions := (ae_peer_versions m)(peer \<mapsto> sent_version)\<rparr> else m)"

definition sync_peer ::
  "('c \<Rightarrow> nat \<Rightarrow> 'd option) \<Rightarrow> ('c \<Rightarrow> nat) \<Rightarrow> (PeerId \<Rightarrow> 'd \<Rightarrow> bool) \<Rightarrow> PeerId \<times> nat \<Rightarrow>
   'c AntiEntropyManager \<Rightarrow> 'c AntiEntropyManager" where
  "sync_peer dlt ver callback pv m =
     (case prepare_sync dlt ver (snd pv) m of
        None \<Rightarrow> m
      | Some (d, sent_version) \<Rightarrow> complete_sync (fst pv) sent_version (callback (fst pv) d) m)"

definition sync_tick ::
  "('c \<Rightarrow> nat \<Rightarrow> 'd option) \<Rightarrow> ('c \<Rightarrow> nat) \<Rightarrow> (PeerId \<Rightarrow> 'd \<Rightarrow> bool) \<Rightarrow> PeerId list \<Rightarrow>
   'c AntiEntropyManager \<Rightarrow> 'c AntiEntropyManager" where
  "sync_tick dlt ver callback ks m = fold (sync_peer dlt ver callback) (peers_to_sync ks m) m"

subsection \<open>What the manager relies on\<close>

locale delta_source =
  fixes step :: "'c \<Rightarrow> 'c \<Rightarrow> bool"
    and init :: 'c
    and ver :: "'c \<Rightarrow> nat"
    and log_floor :: "'c \<Rightarrow> nat"
    and dlt :: "'c \<Rightarrow> nat \<Rightarrow> 'd option"
    and contents :: "'c \<Rightarrow> 'v"
    and delta_contents :: "'d \<Rightarrow> 'v"
    and join :: "'v \<Rightarrow> 'v \<Rightarrow> 'v"
  assumes ver_init: "ver init = 0"
    and init_least: "join r (contents init) = r"
    and dlt_complete: "step\<^sup>*\<^sup>* init s \<Longrightarrow> step\<^sup>*\<^sup>* s s' \<Longrightarrow> log_floor s' \<le> ver s \<Longrightarrow> ver s < ver s' \<Longrightarrow>
      \<exists>d. dlt s' (ver s) = Some d \<and> join (contents s) (delta_contents d) = contents s'"
    and dlt_below: "v < log_floor s \<Longrightarrow> dlt s v = None"
    and dlt_current: "ver s \<le> v \<Longrightarrow> dlt s v = None"
    and floor_mono: "step\<^sup>*\<^sup>* init s \<Longrightarrow> step s s' \<Longrightarrow> log_floor s \<le> log_floor s'"
    and src_join_comm: "join a b = join b a"
    and src_join_assoc: "join (join a b) c = join a (join b c)"
    and src_join_idem: "join a a = a"
begin

text \<open>A peer that holds \<open>r\<close> has acknowledged version \<open>v\<close> of the history that led to \<open>s\<close>.\<close>

definition acked :: "'c \<Rightarrow> nat \<Rightarrow> 'v \<Rightarrow> bool" where
  "acked s v r \<longleftrightarrow> (\<exists>s0. step\<^sup>*\<^sup>* init s0 \<and> step\<^sup>*\<^sup>* s0 s \<and> ver s0 = v \<and> join r (contents s0) = r)"

lemma acked_zero: "step\<^sup>*\<^sup>* init s \<Longrightarrow> acked s 0 r"
  unfolding acked_def using ver_init init_least by blast

lemma acked_step: "acked s v r \<Longrightarrow> step s s' \<Longrightarrow> acked s' v r"
  unfolding acked_def using rtranclp.rtrancl_into_rtrancl [of step _ s s'] by blast

lemma acked_grow: "acked s v r \<Longrightarrow> acked s v (join r x)"
  unfolding acked_def by (metis src_join_assoc src_join_comm)

lemma acked_delivered:
  assumes "step\<^sup>*\<^sup>* init s" "acked s v r" "dlt s v = Some d"
  shows "join (join r (delta_contents d)) (contents s) = join r (delta_contents d)"
    and "acked s (ver s) (join r (delta_contents d))"
proof -
  obtain s0 where s0: "step\<^sup>*\<^sup>* init s0" "step\<^sup>*\<^sup>* s0 s" "ver s0 = v" "join r (contents s0) = r"
    using assms(2) unfolding acked_def by blast
  have "log_floor s \<le> v" "v < ver s"
    using assms(3) dlt_below [of v s] dlt_current [of s v] by (auto simp: not_le not_less) (meson leI)+
  with dlt_complete [OF s0(1,2)] s0(3) assms(3) have
    eq: "join (contents s0) (delta_contents d) = contents s" by auto
  show *: "join (join r (delta_contents d)) (contents s) = join r (delta_contents d)"
    unfolding eq [symmetric] using s0(4) by (metis src_join_assoc src_join_comm src_join_idem)
  then show "acked s (ver s) (join r (delta_contents d))"
    unfolding acked_def using assms(1) by blast
qed

lemma floor_steps: "step\<^sup>*\<^sup>* s s' \<Longrightarrow> step\<^sup>*\<^sup>* init s \<Longrightarrow> log_floor s \<le> log_floor s'"
proof (induction rule: rtranclp_induct)
  case (step t u)
  then have "step\<^sup>*\<^sup>* init t" by simp
  with step floor_mono show ?case by (meson order_trans)
qed simp

lemma starved:
  assumes "step\<^sup>*\<^sup>* init s" "step\<^sup>*\<^sup>* s s'" "v < log_floor s"
  shows "dlt s' v = None"
  using dlt_below floor_steps [OF assms(2,1)] assms(3) by simp

end

interpretation or_set: delta_source orset_step orset_new version changelog_floor delta view_of
    "\<lambda>d. parts_view (delta_added d) (delta_removed d)" view_join
proof unfold_locales
  fix s s' :: "'a OrSet"
  assume s: "orset_step\<^sup>*\<^sup>* orset_new s" "orset_step\<^sup>*\<^sup>* s s'" "changelog_floor s' \<le> version s" "version s < version s'"
  have "orset_wf s" "log_complete s" using orset_steps_invariant [OF s(1)] by auto
  from delta_catches_up [OF s(2) this s(3,4)] show
    "\<exists>d. delta s' (version s) = Some d \<and>
       view_join (view_of s) (parts_view (delta_added d) (delta_removed d)) = view_of s'" by metis
next
  fix s s' :: "'a OrSet"
  assume s: "orset_step\<^sup>*\<^sup>* orset_new s" "orset_step s s'"
  have "orset_wf s" "log_complete s" using orset_steps_invariant [OF s(1)] by auto
  then show "changelog_floor s \<le> changelog_floor s'" using changelog_floor_mono [OF s(2)] by simp
next
  show "view_join r (view_of orset_new) = r" for r :: "'a view"
    by (simp add: view_join_def view_of_def)
qed (auto simp: delta_def view_join_laws(2,3) intro: view_join_laws(1))

subsection \<open>The task interleaved with everything else\<close>

text \<open>
  The manager with the rest of its tick: the peers still to serve, the delta being sent, and,
  for the specification, what each remote replica holds. A successful callback means the peer
  has merged the delta.
\<close>

record 't ae_world =
  w_manager :: "'t OrSet AntiEntropyManager"
  w_todo :: "(PeerId \<times> nat) list"
  w_sending :: "(PeerId \<times> 't OrSetDelta \<times> nat) option"
  w_remote :: "PeerId \<Rightarrow> 't view"

definition ae_init :: "nat \<Rightarrow> (PeerId \<Rightarrow> 't view) \<Rightarrow> 't ae_world" where
  "ae_init interval remote =
     \<lparr>w_manager = ae_new orset_new interval, w_todo = [], w_sending = None, w_remote = remote\<rparr>"

inductive ae_step :: "'t ae_world \<Rightarrow> 't ae_world \<Rightarrow> bool" where
  ae_local: "orset_step (ae_crdt (w_manager w)) c \<Longrightarrow>
    ae_step w (w\<lparr>w_manager := (w_manager w)\<lparr>ae_crdt := c\<rparr>\<rparr>)"
| ae_receive: "iterates ka (delta_added d) \<Longrightarrow> iterates kr (delta_removed d) \<Longrightarrow>
    version (ae_crdt (w_manager w)) < u64_max \<Longrightarrow>
    ae_apply_delta (\<lambda>d s. Inr (merge_delta ka kr d s) :: unit + 't OrSet) p d (w_manager w) = Inr m \<Longrightarrow>
    ae_step w (w\<lparr>w_manager := m\<rparr>)"
| ae_add: "ae_step w (w\<lparr>w_manager := ae_add_peer p (w_manager w)\<rparr>)"
| ae_remove: "ae_step w (w\<lparr>w_manager := ae_remove_peer p (w_manager w)\<rparr>)"
| ae_tick: "w_todo w = [] \<Longrightarrow> w_sending w = None \<Longrightarrow>
    iterates ks (ae_peer_versions (w_manager w)) \<Longrightarrow>
    ae_step w (w\<lparr>w_todo := peers_to_sync ks (w_manager w)\<rparr>)"
| ae_take: "w_todo w = (p, pv) # rest \<Longrightarrow> w_sending w = None \<Longrightarrow>
    ae_step w (w\<lparr>w_todo := rest,
                 w_sending := map_option (\<lambda>(d, sent). (p, d, sent)) (prepare_sync delta version pv (w_manager w))\<rparr>)"
| ae_done: "w_sending w = Some (p, d, sent) \<Longrightarrow>
    ae_step w (w\<lparr>w_sending := None, w_manager := complete_sync p sent True (w_manager w),
                 w_remote := (w_remote w)(p := view_join (w_remote w p) (parts_view (delta_added d) (delta_removed d)))\<rparr>)"
| ae_failed: "w_sending w = Some (p, d, sent) \<Longrightarrow>
    ae_step w (w\<lparr>w_sending := None, w_manager := complete_sync p sent False (w_manager w)\<rparr>)"
| ae_remote: "ae_step w (w\<lparr>w_remote := (w_remote w)(p := view_join (w_remote w p) x)\<rparr>)"

definition ae_inv :: "'t ae_world \<Rightarrow> bool" where
  "ae_inv w \<longleftrightarrow>
     (let s = ae_crdt (w_manager w) in
      orset_step\<^sup>*\<^sup>* orset_new s \<and>
      (\<forall>p v. ae_peer_versions (w_manager w) p = Some v \<longrightarrow> or_set.acked s v (w_remote w p)) \<and>
      (\<forall>(p, v) \<in> set (w_todo w). or_set.acked s v (w_remote w p)) \<and>
      (\<forall>p d v. w_sending w = Some (p, d, v) \<longrightarrow>
         or_set.acked s v (view_join (w_remote w p) (parts_view (delta_added d) (delta_removed d)))))"

lemma ae_invI:
  assumes "orset_step\<^sup>*\<^sup>* orset_new (ae_crdt (w_manager w))"
    and "\<And>p v. ae_peer_versions (w_manager w) p = Some v \<Longrightarrow>
      or_set.acked (ae_crdt (w_manager w)) v (w_remote w p)"
    and "\<And>p v. (p, v) \<in> set (w_todo w) \<Longrightarrow> or_set.acked (ae_crdt (w_manager w)) v (w_remote w p)"
    and "\<And>p d v. w_sending w = Some (p, d, v) \<Longrightarrow> or_set.acked (ae_crdt (w_manager w)) v
      (view_join (w_remote w p) (parts_view (delta_added d) (delta_removed d)))"
  shows "ae_inv w"
  using assms unfolding ae_inv_def Let_def by blast

lemma ae_invD:
  assumes "ae_inv w"
  shows "orset_step\<^sup>*\<^sup>* orset_new (ae_crdt (w_manager w))"
    and "ae_peer_versions (w_manager w) p = Some v \<Longrightarrow>
      or_set.acked (ae_crdt (w_manager w)) v (w_remote w p)"
    and "(p, v) \<in> set (w_todo w) \<Longrightarrow> or_set.acked (ae_crdt (w_manager w)) v (w_remote w p)"
    and "w_sending w = Some (p, d, v) \<Longrightarrow> or_set.acked (ae_crdt (w_manager w)) v
      (view_join (w_remote w p) (parts_view (delta_added d) (delta_removed d)))"
  using assms unfolding ae_inv_def Let_def by blast+

lemma ae_inv_init: "ae_inv (ae_init interval remote)"
  by (rule ae_invI) (simp_all add: ae_init_def ae_new_def)

lemma ae_inv_crdt:
  assumes inv: "ae_inv w"
    and c: "orset_step\<^sup>=\<^sup>= (ae_crdt (w_manager w)) (ae_crdt m)"
    and m: "\<And>p v. ae_peer_versions m p = Some v \<Longrightarrow> ae_peer_versions (w_manager w) p = Some v \<or> v = 0"
  shows "ae_inv (w\<lparr>w_manager := m\<rparr>)"
proof -
  have reach: "orset_step\<^sup>*\<^sup>* orset_new (ae_crdt m)"
    using ae_invD(1) [OF inv] c by (auto intro: rtranclp.rtrancl_into_rtrancl)
  have mono: "or_set.acked (ae_crdt (w_manager w)) v r \<Longrightarrow> or_set.acked (ae_crdt m) v r" for v r
    using c by (auto intro: or_set.acked_step)
  show ?thesis
  proof (rule ae_invI)
    fix p v assume "ae_peer_versions (w_manager (w\<lparr>w_manager := m\<rparr>)) p = Some v"
    then show "or_set.acked (ae_crdt (w_manager (w\<lparr>w_manager := m\<rparr>))) v (w_remote (w\<lparr>w_manager := m\<rparr>) p)"
      using m [of p v] ae_invD(2) [OF inv, of p v] by (auto intro: mono or_set.acked_zero [OF reach])
  qed (use reach ae_invD [OF inv] in \<open>auto intro: mono\<close>)
qed

lemma ae_inv_step: "ae_step w w' \<Longrightarrow> ae_inv w \<Longrightarrow> ae_inv w'"
proof (induction rule: ae_step.induct)
  case (ae_local w c)
  then show ?case by (intro ae_inv_crdt) auto
next
  case (ae_receive ka d kr w p m)
  then have "orset_step (ae_crdt (w_manager w)) (merge_delta ka kr d (ae_crdt (w_manager w)))"
    by (simp add: merge_delta_def step_merge)
  with ae_receive show ?case
    by (intro ae_inv_crdt)
      (auto simp: ae_apply_delta_def get_or_def split: if_splits option.splits)
next
  case (ae_add w p)
  then show ?case
    by (intro ae_inv_crdt) (auto simp: ae_add_peer_def get_or_def split: if_splits option.splits)
next
  case (ae_remove w p)
  then show ?case by (intro ae_inv_crdt) (auto simp: ae_remove_peer_def split: if_splits)
next
  case (ae_tick w ks)
  note inv = ae_invD [OF ae_tick.prems]
  show ?case
    by (rule ae_invI)
      (use inv ae_tick.hyps in \<open>auto simp: peers_to_sync_def iterates_def get_or_def\<close>)
next
  case (ae_take w p pv rest)
  note inv = ae_invD [OF ae_take.prems]
  have "or_set.acked (ae_crdt (w_manager w)) (version (ae_crdt (w_manager w)))
      (view_join (w_remote w p) (parts_view (delta_added d) (delta_removed d)))"
    if "delta (ae_crdt (w_manager w)) pv = Some d" for d
    using or_set.acked_delivered(2) [OF inv(1) _ that] inv(3) ae_take.hyps by simp
  then show ?case
    by (intro ae_invI) (use inv ae_take.hyps in \<open>auto simp: prepare_sync_def\<close>)
next
  case (ae_done w p d sent)
  note inv = ae_invD [OF ae_done.prems]
  show ?case
    by (rule ae_invI)
      (use inv ae_done.hyps in \<open>auto simp: complete_sync_def intro: or_set.acked_grow split: if_splits\<close>)
next
  case (ae_failed w p d sent)
  then show ?case by (intro ae_invI) (auto simp: complete_sync_def dest: ae_invD)
next
  case (ae_remote w p x)
  note inv = ae_invD [OF ae_remote.prems]
  have swap: "view_join (view_join r x) y = view_join (view_join r y) x" for r y :: "'a view"
    by (metis view_join_laws(1,2))
  show ?case
    by (rule ae_invI) (use inv in \<open>auto simp: swap intro: or_set.acked_grow split: if_splits\<close>)
qed

lemma ae_inv_steps: "ae_step\<^sup>*\<^sup>* (ae_init interval remote) w \<Longrightarrow> ae_inv w"
  by (induction rule: rtranclp_induct) (auto intro: ae_inv_init ae_inv_step)


subsection \<open>Properties\<close>

text \<open>
  C12: However ticks, callbacks, local changes, received deltas and peer registrations
  interleave, the version recorded for a peer is one the peer really has: the local set went
  through a state of that version and the peer holds everything that state held.
\<close>

theorem acknowledged_means_delivered:
  assumes "ae_step\<^sup>*\<^sup>* (ae_init interval remote) w" "ae_peer_versions (w_manager w) p = Some v"
  shows "\<exists>s0. orset_step\<^sup>*\<^sup>* orset_new s0 \<and> orset_step\<^sup>*\<^sup>* s0 (ae_crdt (w_manager w)) \<and> version s0 = v \<and>
    view_join (w_remote w p) (view_of s0) = w_remote w p"
  using ae_invD(2) [OF ae_inv_steps [OF assms(1)] assms(2)] unfolding or_set.acked_def .

theorem acknowledged_means_delivered_witness:
  "\<exists>w s0. ae_step\<^sup>*\<^sup>* (ae_init 30 (\<lambda>_. view_of (orset_new :: nat OrSet))) w \<and>
     ae_peer_versions (w_manager w) (PeerId [1]) = Some 0 \<and>
     orset_step\<^sup>*\<^sup>* s0 (ae_crdt (w_manager w)) \<and> version s0 = 0"
proof -
  let ?i = "ae_init 30 (\<lambda>_. view_of (orset_new :: nat OrSet))"
  let ?w = "?i\<lparr>w_manager := ae_add_peer (PeerId [1]) (w_manager ?i)\<rparr>"
  have step: "ae_step\<^sup>*\<^sup>* ?i ?w" by (rule r_into_rtranclp) (rule ae_add)
  have v: "ae_peer_versions (w_manager ?w) (PeerId [1]) = Some 0"
    by (simp add: ae_init_def ae_new_def ae_add_peer_def)
  show ?thesis using acknowledged_means_delivered [OF step v] step v by blast
qed

text \<open>
  One served peer of a tick. When the peer's acknowledged version is behind and not below
  the floor and the callback succeeds, the peer ends up with everything the local set holds
  and is recorded at the current version; when the callback fails nothing is recorded.
\<close>

theorem sync_peer_delivers:
  assumes "ae_step\<^sup>*\<^sup>* (ae_init interval remote) w" "ae_peer_versions (w_manager w) p = Some v"
    and "changelog_floor (ae_crdt (w_manager w)) \<le> v" "v < version (ae_crdt (w_manager w))"
  shows "\<exists>d. delta (ae_crdt (w_manager w)) v = Some d \<and>
    (let r = view_join (w_remote w p) (parts_view (delta_added d) (delta_removed d))
     in view_join r (view_of (ae_crdt (w_manager w))) = r) \<and>
    ae_peer_versions (sync_peer delta version (\<lambda>_ _. True) (p, v) (w_manager w)) p =
      Some (version (ae_crdt (w_manager w))) \<and>
    sync_peer delta version (\<lambda>_ _. False) (p, v) (w_manager w) = w_manager w"
proof -
  note inv = ae_inv_steps [OF assms(1)]
  have "log_complete (ae_crdt (w_manager w))" using orset_steps_invariant [OF ae_invD(1) [OF inv]] by simp
  from delta_view [OF this assms(3,4)] obtain d where d: "delta (ae_crdt (w_manager w)) v = Some d" by metis
  with or_set.acked_delivered(1) [OF ae_invD(1) [OF inv] ae_invD(2) [OF inv assms(2)] d] show ?thesis
    by (simp add: sync_peer_def prepare_sync_def complete_sync_def Let_def)
qed

theorem sync_peer_delivers_witness:
  "\<exists>w v. ae_peer_versions (w_manager w) (PeerId [1]) = Some v \<and>
     v < version (ae_crdt (w_manager w)) \<and>
     ae_peer_versions (sync_peer delta version (\<lambda>_ _. True) (PeerId [1], v) (w_manager w)) (PeerId [1]) =
       Some (version (ae_crdt (w_manager (w :: nat ae_world))))"
proof -
  let ?i = "ae_init 30 (\<lambda>_. view_of (orset_new :: nat OrSet))"
  let ?w = "?i\<lparr>w_manager := ae_add_peer (PeerId [1]) (w_manager ?i)\<rparr>"
  let ?c = "orset_add 7 (peer_of 1, 1) (ae_crdt (w_manager ?w))"
  let ?w' = "?w\<lparr>w_manager := (w_manager ?w)\<lparr>ae_crdt := ?c\<rparr>\<rparr>"
  have "ae_step ?i ?w" by (rule ae_add)
  moreover have "ae_step ?w ?w'"
    by (rule ae_local) (rule step_add, simp_all add: ae_init_def ae_new_def ae_add_peer_def u64_max_eq)
  ultimately have steps: "ae_step\<^sup>*\<^sup>* ?i ?w'" by simp
  have "ae_peer_versions (w_manager ?w') (PeerId [1]) = Some 0"
    "changelog_floor (ae_crdt (w_manager ?w')) \<le> 0" "0 < version (ae_crdt (w_manager ?w'))"
    by (simp_all add: ae_init_def ae_new_def ae_add_peer_def orset_add_def log_change_def
        orset_new_def Let_def u64_max_eq)
  with sync_peer_delivers [OF steps this] show ?thesis by blast
qed

text \<open>
  A peer whose acknowledged version lies below the changelog floor is never served again:
  in every later state of the local set there is no delta for that version, so no callback
  runs and the recorded version stays. A peer registered after a compaction is in this
  position from the start, at version 0.
\<close>

theorem peer_below_floor_starves:
  assumes "orset_step\<^sup>*\<^sup>* orset_new s" "v < changelog_floor s" "orset_step\<^sup>*\<^sup>* s s'"
  shows "sync_peer delta version callback (p, v) (m\<lparr>ae_crdt := s'\<rparr>) = m\<lparr>ae_crdt := s'\<rparr> \<and>
    get_or 0 (ae_peer_versions (ae_add_peer q (ae_new s interval))) q < changelog_floor s"
  using or_set.starved [OF assms(1,3,2)] assms(2)
  by (simp add: sync_peer_def prepare_sync_def ae_add_peer_def ae_new_def get_or_def)

theorem peer_below_floor_starves_witness:
  "let s = compact 0 (orset_add (7::nat) (peer_of 1, 1) orset_new)
   in sync_peer delta version (\<lambda>_ _. True) (PeerId [2], 0) ((ae_new orset_new 30)\<lparr>ae_crdt := s\<rparr>) =
        (ae_new orset_new 30)\<lparr>ae_crdt := s\<rparr>"
proof -
  let ?s = "orset_add (7::nat) (peer_of 1, 1) orset_new"
  have "orset_step orset_new ?s" by (rule step_add) (simp_all add: u64_max_eq)
  moreover have "orset_step ?s (compact 0 ?s)" by (rule step_compact)
  ultimately have steps: "orset_step\<^sup>*\<^sup>* orset_new (compact 0 ?s)" by simp
  have floor: "0 < changelog_floor (compact 0 ?s)"
    by (simp add: compact_def orset_add_def orset_new_def log_change_def u64_max_eq)
  show ?thesis using peer_below_floor_starves [OF steps floor rtranclp.rtrancl_refl] by (simp add: Let_def)
qed

end
