(* ===== verification/Swim.thy ===== *)
theory Swim
  imports Gossip_Types
begin

text \<open>
  The SWIM failure detector of \<open>crates/membership/src/lib.rs\<close>: the peer states, the pending
  direct and indirect probes, the message handlers and one tick of each of the three
  background tasks. Instants are milliseconds. The transport is a record of two functions
  (does serializing, does sending this message succeed); the messages a handler sends are
  returned. The random choice \<open>choose_multiple\<close> of the \<open>rand\<close> crate is an argument.
\<close>

definition SWIM_INDIRECT_PROBE_FANOUT :: nat where
  "SWIM_INDIRECT_PROBE_FANOUT = 3"

definition SWIM_ACK_TIMEOUT_MS :: nat where
  "SWIM_ACK_TIMEOUT_MS = 500"

datatype SwimMessage =
    Ping
  | Ack
  | PingReq PeerId PeerId \<comment> \<open>target, requester\<close>
  | AckResponse PeerId PeerId \<comment> \<open>target, requester\<close>

datatype PeerState = Alive | Suspect | Dead

record SwimPeerEntry =
  sw_state :: PeerState
  sw_last_update :: instant

record SwimDetector =
  sw_self :: PeerId
  sw_states :: "PeerId \<rightharpoonup> SwimPeerEntry"
  sw_pending :: "PeerId \<rightharpoonup> instant"
  sw_indirect :: "PeerId \<times> PeerId \<rightharpoonup> instant"
  sw_probe_period :: nat
  sw_suspect_timeout :: nat
  sw_probe_fanout :: nat

datatype send_error = SerializeFailed | SendFailed

record swim_transport =
  ser_ok :: "SwimMessage \<Rightarrow> bool"
  send_ok :: "PeerId \<Rightarrow> SwimMessage \<Rightarrow> bool"

type_synonym outbox = "(PeerId \<times> SwimMessage) list"
type_synonym chooser = "nat \<Rightarrow> PeerId list \<Rightarrow> PeerId list"

text \<open>The documented contract of \<open>SliceRandom::choose_multiple\<close>.\<close>

definition choose_multiple_spec :: "chooser \<Rightarrow> bool" where
  "choose_multiple_spec pick \<longleftrightarrow>
     (\<forall>n xs. length (pick n xs) = min n (length xs) \<and> set (pick n xs) \<subseteq> set xs \<and>
       (distinct xs \<longrightarrow> distinct (pick n xs)))"

subsection \<open>State updates\<close>

definition swim_new :: "PeerId \<Rightarrow> nat \<Rightarrow> nat \<Rightarrow> nat \<Rightarrow> SwimDetector" where
  "swim_new self_peer_id probe_period suspect_timeout probe_fanout =
     \<lparr>sw_self = self_peer_id, sw_states = Map.empty, sw_pending = Map.empty,
      sw_indirect = Map.empty, sw_probe_period = probe_period,
      sw_suspect_timeout = suspect_timeout, sw_probe_fanout = probe_fanout\<rparr>"

definition set_alive :: "instant \<Rightarrow> PeerId \<Rightarrow> (PeerId \<rightharpoonup> SwimPeerEntry) \<Rightarrow> (PeerId \<rightharpoonup> SwimPeerEntry)" where
  "set_alive now peer states = states(peer \<mapsto> \<lparr>sw_state = Alive, sw_last_update = now\<rparr>)"

definition mark_alive :: "instant \<Rightarrow> PeerId \<Rightarrow> SwimDetector \<Rightarrow> SwimDetector" where
  "mark_alive now peer s = s\<lparr>sw_states := set_alive now peer (sw_states s)\<rparr>"

definition mark_suspect :: "instant \<Rightarrow> PeerId \<Rightarrow> SwimDetector \<Rightarrow> SwimDetector" where
  "mark_suspect now peer s =
     (case sw_states s peer of
        None \<Rightarrow> s
      | Some entry \<Rightarrow>
          if sw_state entry = Alive
          then s\<lparr>sw_states := (sw_states s)(peer \<mapsto> \<lparr>sw_state = Suspect, sw_last_update = now\<rparr>)\<rparr>
          else s)"

definition mark_dead :: "instant \<Rightarrow> PeerId \<Rightarrow> SwimDetector \<Rightarrow> SwimDetector" where
  "mark_dead now peer s =
     s\<lparr>sw_states := (sw_states s)(peer \<mapsto> \<lparr>sw_state = Dead, sw_last_update = now\<rparr>)\<rparr>"

definition get_state :: "SwimDetector \<Rightarrow> PeerId \<Rightarrow> PeerState option" where
  "get_state s peer = map_option sw_state (sw_states s peer)"

definition get_peers_in_state :: "PeerId list \<Rightarrow> PeerState \<Rightarrow> SwimDetector \<Rightarrow> PeerId list" where
  "get_peers_in_state ks st s = filter (\<lambda>p. get_state s p = Some st) ks"

definition swim_remove_peer :: "PeerId \<Rightarrow> SwimDetector \<Rightarrow> SwimDetector" where
  "swim_remove_peer peer s = s\<lparr>sw_states := map_remove peer (sw_states s)\<rparr>"

definition record_probe :: "instant \<Rightarrow> PeerId \<Rightarrow> SwimDetector \<Rightarrow> SwimDetector" where
  "record_probe now peer s = s\<lparr>sw_pending := (sw_pending s)(peer \<mapsto> now)\<rparr>"

definition clear_probe :: "PeerId \<Rightarrow> SwimDetector \<Rightarrow> bool \<times> SwimDetector" where
  "clear_probe peer s = (sw_pending s peer \<noteq> None, s\<lparr>sw_pending := map_remove peer (sw_pending s)\<rparr>)"

definition record_indirect_probe_request ::
  "instant \<Rightarrow> PeerId \<Rightarrow> PeerId \<Rightarrow> SwimDetector \<Rightarrow> SwimDetector" where
  "record_indirect_probe_request now requester target s =
     s\<lparr>sw_indirect := (map_retain (\<lambda>_ requested_at. now - requested_at < SWIM_ACK_TIMEOUT_MS)
                         (sw_indirect s))((target, requester) \<mapsto> now)\<rparr>"

definition clear_indirect_probe_request :: "PeerId \<Rightarrow> PeerId \<Rightarrow> SwimDetector \<Rightarrow> SwimDetector" where
  "clear_indirect_probe_request requester target s =
     s\<lparr>sw_indirect := map_remove (target, requester) (sw_indirect s)\<rparr>"

text \<open>\<open>retain\<close> visits the pending requests in the order \<open>ks\<close> and collects the requesters.\<close>

definition take_indirect_probe_requesters ::
  "(PeerId \<times> PeerId) list \<Rightarrow> instant \<Rightarrow> PeerId \<Rightarrow> SwimDetector \<Rightarrow> PeerId list \<times> SwimDetector" where
  "take_indirect_probe_requesters ks now target s =
     (let expired = (\<lambda>requested_at. now - requested_at \<ge> SWIM_ACK_TIMEOUT_MS)
      in (map snd (filter (\<lambda>k. fst k = target \<and>
              (case sw_indirect s k of None \<Rightarrow> False | Some t \<Rightarrow> \<not> expired t)) ks),
          s\<lparr>sw_indirect := map_retain (\<lambda>k t. fst k \<noteq> target \<and> \<not> expired t) (sw_indirect s)\<rparr>))"

subsection \<open>Message handlers\<close>

definition send_msg :: "swim_transport \<Rightarrow> PeerId \<Rightarrow> SwimMessage \<Rightarrow> send_error + outbox" where
  "send_msg tr peer msg =
     (if \<not> ser_ok tr msg then Inl SerializeFailed
      else if \<not> send_ok tr peer msg then Inl SendFailed
      else Inr [(peer, msg)])"

definition handle_ping ::
  "swim_transport \<Rightarrow> instant \<Rightarrow> PeerId \<Rightarrow> SwimDetector \<Rightarrow> SwimDetector \<times> (send_error + outbox)" where
  "handle_ping tr now sender s = (mark_alive now sender s, send_msg tr sender Ack)"

text \<open>The forwarding loop returns at the first failure; what was sent before stays sent.\<close>

fun forward_acks :: "swim_transport \<Rightarrow> PeerId \<Rightarrow> PeerId list \<Rightarrow> outbox \<times> send_error option" where
  "forward_acks tr target [] = ([], None)"
| "forward_acks tr target (requester # rs) =
     (case send_msg tr requester (AckResponse target requester) of
        Inl err \<Rightarrow> ([], Some err)
      | Inr out \<Rightarrow> (let (rest, res) = forward_acks tr target rs in (out @ rest, res)))"

definition handle_ack ::
  "swim_transport \<Rightarrow> (PeerId \<times> PeerId) list \<Rightarrow> instant \<Rightarrow> PeerId \<Rightarrow> SwimDetector \<Rightarrow>
   SwimDetector \<times> outbox \<times> send_error option" where
  "handle_ack tr ks now sender s =
     (let (was_pending, s1) = clear_probe sender s;
          s2 = mark_alive now sender s1;
          (requesters, s3) = take_indirect_probe_requesters ks now sender s2
      in (s3, forward_acks tr sender requesters))"

text \<open>Sending a batch whose failures are only logged.\<close>

definition send_all :: "swim_transport \<Rightarrow> (PeerId \<times> SwimMessage) list \<Rightarrow> outbox" where
  "send_all tr msgs = filter (\<lambda>(p, m). ser_ok tr m \<and> send_ok tr p m) msgs"

definition indirect_probes ::
  "swim_transport \<Rightarrow> chooser \<Rightarrow> PeerId list \<Rightarrow> PeerId \<Rightarrow> SwimDetector \<Rightarrow> outbox" where
  "indirect_probes tr pick ks target s =
     (let alive_peers = filter (\<lambda>p. get_state s p = Some Alive \<and> p \<noteq> target \<and> p \<noteq> sw_self s) ks
      in if alive_peers = [] then []
         else send_all tr (map (\<lambda>p. (p, PingReq target (sw_self s)))
                (pick (min SWIM_INDIRECT_PROBE_FANOUT (length alive_peers)) alive_peers)))"

definition request_indirect_probes ::
  "swim_transport \<Rightarrow> chooser \<Rightarrow> PeerId list \<Rightarrow> PeerId \<Rightarrow> SwimDetector \<Rightarrow> outbox" where
  "request_indirect_probes tr pick ks target s = indirect_probes tr pick ks target s"

definition handle_ping_req ::
  "swim_transport \<Rightarrow> instant \<Rightarrow> PeerId \<Rightarrow> PeerId \<Rightarrow> SwimDetector \<Rightarrow>
   SwimDetector \<times> (send_error + outbox)" where
  "handle_ping_req tr now requester target s =
     (let s1 = record_indirect_probe_request now requester target s
      in if \<not> ser_ok tr Ping then (s1, Inl SerializeFailed)
         else if \<not> send_ok tr target Ping
         then (clear_indirect_probe_request requester target s1, Inl SendFailed)
         else (s1, Inr [(target, Ping)]))"

definition handle_ack_response :: "instant \<Rightarrow> PeerId \<Rightarrow> SwimDetector \<Rightarrow> SwimDetector" where
  "handle_ack_response now target s = mark_alive now target (snd (clear_probe target s))"

definition health_of :: "SwimDetector \<Rightarrow> PeerId \<Rightarrow> PeerHealth option" where
  "health_of s peer =
     map_option (\<lambda>st. case st of Alive \<Rightarrow> HealthAlive | Suspect \<Rightarrow> HealthSuspect | Dead \<Rightarrow> HealthDead)
       (get_state s peer)"

subsection \<open>Background tasks\<close>

definition timed_out_peers :: "PeerId list \<Rightarrow> instant \<Rightarrow> SwimDetector \<Rightarrow> (PeerId \<times> instant) list" where
  "timed_out_peers ks now s =
     List.map_filter (\<lambda>p. case sw_pending s p of
         None \<Rightarrow> None
       | Some t \<Rightarrow> if now - t \<ge> SWIM_ACK_TIMEOUT_MS then Some (p, t) else None) ks"

text \<open>The re-check under both locks; the flag says whether the peer is processed further.\<close>

definition timeout_recheck ::
  "instant \<Rightarrow> PeerId \<times> instant \<Rightarrow> SwimDetector \<Rightarrow> bool \<times> SwimDetector" where
  "timeout_recheck now pt s =
     (if sw_pending s (fst pt) \<noteq> Some (snd pt) then (False, s)
      else (True, mark_suspect now (fst pt) s))"

definition timeout_clear :: "PeerId \<Rightarrow> SwimDetector \<Rightarrow> SwimDetector" where
  "timeout_clear peer s = s\<lparr>sw_pending := map_remove peer (sw_pending s)\<rparr>"

definition timeout_one ::
  "swim_transport \<Rightarrow> chooser \<Rightarrow> PeerId list \<Rightarrow> instant \<Rightarrow> PeerId \<times> instant \<Rightarrow>
   SwimDetector \<times> outbox \<Rightarrow> SwimDetector \<times> outbox" where
  "timeout_one tr pick ks now pt so =
     (case timeout_recheck now pt (fst so) of
        (False, s) \<Rightarrow> (s, snd so)
      | (True, s) \<Rightarrow> (let s' = timeout_clear (fst pt) s
                       in (s', snd so @ indirect_probes tr pick ks (fst pt) s')))"

definition probe_timeout_tick ::
  "swim_transport \<Rightarrow> chooser \<Rightarrow> PeerId list \<Rightarrow> PeerId list \<Rightarrow> instant \<Rightarrow> SwimDetector \<Rightarrow>
   SwimDetector \<times> outbox" where
  "probe_timeout_tick tr pick kp ks now s =
     fold (timeout_one tr pick ks now) (timed_out_peers kp now s) (s, [])"

definition probe_one ::
  "swim_transport \<Rightarrow> instant \<Rightarrow> PeerId \<Rightarrow> SwimDetector \<times> outbox \<Rightarrow> SwimDetector \<times> outbox" where
  "probe_one tr now peer so =
     ((fst so)\<lparr>sw_pending := map_or_insert peer now (sw_pending (fst so))\<rparr>,
      snd so @ send_all tr [(peer, Ping)])"

definition probe_tick ::
  "swim_transport \<Rightarrow> chooser \<Rightarrow> PeerId list \<Rightarrow> instant \<Rightarrow> SwimDetector \<Rightarrow> SwimDetector \<times> outbox" where
  "probe_tick tr pick ks now s =
     (let alive_peers = filter (\<lambda>p. get_state s p = Some Alive) ks
      in if alive_peers = [] then (s, [])
         else fold (probe_one tr now)
                (pick (min (sw_probe_fanout s) (length alive_peers)) alive_peers) (s, []))"

definition to_mark_dead :: "PeerId list \<Rightarrow> instant \<Rightarrow> SwimDetector \<Rightarrow> PeerId list" where
  "to_mark_dead ks now s =
     filter (\<lambda>p. case sw_states s p of
         None \<Rightarrow> False
       | Some entry \<Rightarrow> sw_state entry = Suspect \<and>
           now - sw_last_update entry > sw_suspect_timeout s * 1000) ks"

definition suspect_timeout_tick :: "PeerId list \<Rightarrow> instant \<Rightarrow> SwimDetector \<Rightarrow> SwimDetector" where
  "suspect_timeout_tick ks now s = fold (mark_dead now) (to_mark_dead ks now s) s"


subsection \<open>What the overlay relies on\<close>

text \<open>
  The membership layer marks peers alive and dead and reads their state; it needs no more of
  the detector than these laws.
\<close>

locale failure_detector =
  fixes alive :: "instant \<Rightarrow> PeerId \<Rightarrow> 's \<Rightarrow> 's"
    and dead :: "instant \<Rightarrow> PeerId \<Rightarrow> 's \<Rightarrow> 's"
    and state_of :: "'s \<Rightarrow> PeerId \<Rightarrow> PeerState option"
  assumes alive_at: "state_of (alive now p s) q = (if q = p then Some Alive else state_of s q)"
    and dead_at: "state_of (dead now p s) q = (if q = p then Some Dead else state_of s q)"
begin

lemma alive_all: "state_of (fold (alive now) ps s) q = (if q \<in> set ps then Some Alive else state_of s q)"
  by (induction ps arbitrary: s) (auto simp: alive_at)

lemma alive_then_dead: "state_of (dead now p (alive now' p s)) p = Some Dead"
  by (simp add: dead_at)

end

interpretation swim: failure_detector mark_alive mark_dead get_state
  by unfold_locales (simp_all add: mark_alive_def set_alive_def mark_dead_def get_state_def)

subsection \<open>Lock regions as atomic actions\<close>

text \<open>
  The handlers and tasks run concurrently; each holds a lock only for one of these actions.
  A run of the detector is a list of actions in the order in which the locks were taken.
\<close>

datatype swim_action =
    MarkAlive PeerId instant
  | MarkSuspect PeerId instant
  | MarkDead PeerId instant
  | RemovePeer PeerId
  | RecordProbe PeerId instant
  | ProbeIfAbsent PeerId instant
  | ClearProbe PeerId
  | Recheck PeerId instant instant \<comment> \<open>peer, probe time of the scan, now\<close>
  | ClearTimedOut PeerId
  | SuspectTick "PeerId list" instant

fun exec :: "swim_action \<Rightarrow> SwimDetector \<Rightarrow> SwimDetector" where
  "exec (MarkAlive p now) s = mark_alive now p s"
| "exec (MarkSuspect p now) s = mark_suspect now p s"
| "exec (MarkDead p now) s = mark_dead now p s"
| "exec (RemovePeer p) s = swim_remove_peer p s"
| "exec (RecordProbe p now) s = record_probe now p s"
| "exec (ProbeIfAbsent p now) s = s\<lparr>sw_pending := map_or_insert p now (sw_pending s)\<rparr>"
| "exec (ClearProbe p) s = snd (clear_probe p s)"
| "exec (Recheck p t now) s = snd (timeout_recheck now (p, t) s)"
| "exec (ClearTimedOut p) s = timeout_clear p s"
| "exec (SuspectTick ks now) s = suspect_timeout_tick ks now s"

abbreviation run :: "swim_action list \<Rightarrow> SwimDetector \<Rightarrow> SwimDetector" where
  "run \<equiv> fold exec"

named_theorems swim_defs \<open>definitions of the detector's state updates\<close>

lemmas [swim_defs] = mark_alive_def set_alive_def mark_dead_def mark_suspect_def
  swim_remove_peer_def record_probe_def clear_probe_def timeout_clear_def timeout_recheck_def
  get_state_def

lemma sw_pending_states [simp]:
  "sw_pending (mark_alive n p s) = sw_pending s" "sw_pending (mark_suspect n p s) = sw_pending s"
  "sw_pending (mark_dead n p s) = sw_pending s" "sw_pending (swim_remove_peer p s) = sw_pending s"
  "sw_states (record_probe n p s) = sw_states s" "sw_states (snd (clear_probe p s)) = sw_states s"
  "sw_states (timeout_clear p s) = sw_states s"
  "sw_suspect_timeout (mark_dead n p s) = sw_suspect_timeout s"
  by (auto simp: swim_defs split: option.split)

lemma states_mark_suspect:
  "sw_states (mark_suspect now p s) q =
     (if q = p \<and> get_state s p = Some Alive then Some \<lparr>sw_state = Suspect, sw_last_update = now\<rparr>
      else sw_states s q)"
  by (auto simp: swim_defs split: option.splits)

lemma states_fold_mark_dead:
  "sw_states (fold (mark_dead now) ps s) q =
     (if q \<in> set ps then Some \<lparr>sw_state = Dead, sw_last_update = now\<rparr> else sw_states s q)"
  by (induction ps arbitrary: s) (auto simp: mark_dead_def)

lemma pending_fold_mark_dead [simp]: "sw_pending (fold (mark_dead now) ps s) = sw_pending s"
  by (induction ps arbitrary: s) auto

lemma states_suspect_tick:
  "sw_states (suspect_timeout_tick ks now s) q =
     (if q \<in> set ks \<and> (\<exists>e. sw_states s q = Some e \<and> sw_state e = Suspect \<and>
           now - sw_last_update e > sw_suspect_timeout s * 1000)
      then Some \<lparr>sw_state = Dead, sw_last_update = now\<rparr> else sw_states s q)"
  by (auto simp: suspect_timeout_tick_def states_fold_mark_dead to_mark_dead_def split: option.splits)

lemma pending_suspect_tick [simp]: "sw_pending (suspect_timeout_tick ks now s) = sw_pending s"
  by (simp add: suspect_timeout_tick_def)

subsection \<open>A probe-timeout tick\<close>

lemma timeout_one_fields:
  assumes "sw_pending (fst so) (fst pt) = Some (snd pt)"
  shows "sw_pending (fst (timeout_one tr pick ks now pt so)) = map_remove (fst pt) (sw_pending (fst so))"
    and "sw_states (fst (timeout_one tr pick ks now pt so)) = sw_states (mark_suspect now (fst pt) (fst so))"
    and "snd (timeout_one tr pick ks now pt so) = snd so @ indirect_probes tr pick ks (fst pt)
       (timeout_clear (fst pt) (mark_suspect now (fst pt) (fst so)))"
  using assms by (simp_all add: timeout_one_def timeout_recheck_def Let_def timeout_clear_def)

lemma fold_timeout_one:
  assumes "distinct (map fst pts)" "\<And>p t. (p, t) \<in> set pts \<Longrightarrow> sw_pending (fst so) p = Some t"
  shows "sw_pending (fst (fold (timeout_one tr pick ks now) pts so)) q =
      (if q \<in> fst ` set pts then None else sw_pending (fst so) q) \<and>
    sw_states (fst (fold (timeout_one tr pick ks now) pts so)) q =
      (if q \<in> fst ` set pts \<and> get_state (fst so) q = Some Alive
       then Some \<lparr>sw_state = Suspect, sw_last_update = now\<rparr> else sw_states (fst so) q)"
  using assms
proof (induction pts arbitrary: so)
  case (Cons pt pts)
  have pend: "sw_pending (fst so) (fst pt) = Some (snd pt)"
    using Cons.prems(2) [of "fst pt" "snd pt"] by simp
  note one = timeout_one_fields [OF pend, of tr pick ks now]
  have "sw_pending (fst (timeout_one tr pick ks now pt so)) p = Some t" if "(p, t) \<in> set pts" for p t
  proof -
    have "p \<noteq> fst pt" using Cons.prems(1) that by (auto simp: image_iff)
    then show ?thesis using Cons.prems(2) that by (simp add: one(1))
  qed
  from Cons.IH [OF _ this] Cons.prems(1) show ?case
    by (auto simp: one(1,2) states_mark_suspect get_state_def)
qed simp

lemma timed_out_set:
  "set (timed_out_peers ks now s) =
     {(p, t). p \<in> set ks \<and> sw_pending s p = Some t \<and> SWIM_ACK_TIMEOUT_MS \<le> now - t}"
  by (force simp: timed_out_peers_def List.map_filter_def split: option.splits if_splits)

lemma timed_out_distinct: "distinct ks \<Longrightarrow> distinct (map fst (timed_out_peers ks now s))"
proof (induction ks)
  case (Cons k ks)
  have "fst ` set (timed_out_peers ks now s) \<subseteq> set ks" by (auto simp: timed_out_set)
  with Cons show ?case
    by (auto simp: timed_out_peers_def map_filter_simps split: option.splits)
qed (simp add: timed_out_peers_def map_filter_simps)

lemma choose_multiple_specD:
  assumes "choose_multiple_spec pick"
  shows "set (pick n xs) \<subseteq> set xs" "length (pick n xs) \<le> n" "distinct xs \<Longrightarrow> distinct (pick n xs)"
  using assms by (auto simp: choose_multiple_spec_def)

lemma choose_multiple_take [simp]: "choose_multiple_spec take"
  by (auto simp: choose_multiple_spec_def min.commute dest: in_set_takeD)

lemma indirect_probes_targets:
  assumes "choose_multiple_spec pick" "(q, m) \<in> set (indirect_probes tr pick ks target s)"
  shows "m = PingReq target (sw_self s) \<and> q \<noteq> target \<and> q \<noteq> sw_self s \<and> get_state s q = Some Alive"
proof -
  let ?alive = "filter (\<lambda>p. get_state s p = Some Alive \<and> p \<noteq> target \<and> p \<noteq> sw_self s) ks"
  have "set (pick (min SWIM_INDIRECT_PROBE_FANOUT (length ?alive)) ?alive) \<subseteq> set ?alive"
    by (rule choose_multiple_specD(1) [OF assms(1)])
  with assms(2) show ?thesis
    by (auto simp: indirect_probes_def Let_def send_all_def split: if_splits)
qed

lemma indirect_probes_bound:
  assumes "choose_multiple_spec pick"
  shows "length (indirect_probes tr pick ks target s) \<le> SWIM_INDIRECT_PROBE_FANOUT"
proof -
  have "length (filter P (map f (pick (min SWIM_INDIRECT_PROBE_FANOUT (length xs)) xs)))
      \<le> SWIM_INDIRECT_PROBE_FANOUT" for P :: "PeerId \<times> SwimMessage \<Rightarrow> bool" and f xs
  proof -
    have "length (pick (min SWIM_INDIRECT_PROBE_FANOUT (length xs)) xs) \<le> SWIM_INDIRECT_PROBE_FANOUT"
      using choose_multiple_specD(2) [OF assms, of "min SWIM_INDIRECT_PROBE_FANOUT (length xs)" xs]
      by simp
    then show ?thesis using length_filter_le [of P] by (metis le_trans length_map)
  qed
  then show ?thesis by (simp add: indirect_probes_def Let_def send_all_def)
qed


subsection \<open>Properties\<close>

text \<open>
  Every change of a peer's state has a cause, in every order in which the locks are
  taken: it becomes alive only by an acknowledgement or ping that marks it alive; suspect only
  from alive, by \<open>mark_suspect\<close> or because the very probe the timeout scan saw is still
  pending; dead by \<open>mark_dead\<close> or from suspect after the whole suspect timeout; and untracked
  only by removal.
\<close>

theorem state_change_has_cause:
  assumes "get_state (exec a s) p \<noteq> get_state s p"
  shows "case get_state (exec a s) p of
      None \<Rightarrow> a = RemovePeer p
    | Some Alive \<Rightarrow> \<exists>n. a = MarkAlive p n
    | Some Suspect \<Rightarrow> get_state s p = Some Alive \<and>
        ((\<exists>n. a = MarkSuspect p n) \<or> (\<exists>t n. a = Recheck p t n \<and> sw_pending s p = Some t))
    | Some Dead \<Rightarrow> (\<exists>n. a = MarkDead p n) \<or>
        (\<exists>ks n e. a = SuspectTick ks n \<and> sw_states s p = Some e \<and> sw_state e = Suspect \<and>
           n - sw_last_update e > sw_suspect_timeout s * 1000)"
  using assms
proof (cases a)
  case (SuspectTick ks n)
  then show ?thesis using assms by (auto simp: get_state_def states_suspect_tick split: if_splits)
next
  case (MarkSuspect q n)
  then show ?thesis using assms by (auto simp: get_state_def states_mark_suspect split: if_splits)
next
  case (Recheck q t n)
  then show ?thesis using assms
    by (auto simp: get_state_def timeout_recheck_def states_mark_suspect split: if_splits)
qed (use assms in \<open>auto simp: get_state_def mark_alive_def set_alive_def mark_dead_def
       swim_remove_peer_def split: if_splits option.splits\<close>)

theorem state_change_has_cause_witness:
  "get_state (exec (MarkAlive (PeerId [1]) 5) (swim_new (PeerId [0]) 1 3 3)) (PeerId [1]) = Some Alive \<and>
   (\<exists>n. MarkAlive (PeerId [1]) 5 = MarkAlive (PeerId [1]) n)"
  using state_change_has_cause [of "MarkAlive (PeerId [1]) 5" "swim_new (PeerId [0]) 1 3 3" "PeerId [1]"]
  by (simp add: swim_defs swim_new_def)

definition quiet_for :: "PeerId \<Rightarrow> instant \<Rightarrow> swim_action \<Rightarrow> bool" where
  "quiet_for p t0 a \<longleftrightarrow> (case a of
      MarkSuspect q _ \<Rightarrow> q \<noteq> p | MarkDead q _ \<Rightarrow> q \<noteq> p | RemovePeer q \<Rightarrow> q \<noteq> p
    | RecordProbe q n \<Rightarrow> q = p \<longrightarrow> t0 \<le> n | ProbeIfAbsent q n \<Rightarrow> q = p \<longrightarrow> t0 \<le> n
    | Recheck q t _ \<Rightarrow> q = p \<longrightarrow> t < t0
    | _ \<Rightarrow> True)"

definition no_old_probe :: "PeerId \<Rightarrow> instant \<Rightarrow> SwimDetector \<Rightarrow> bool" where
  "no_old_probe p t0 s \<longleftrightarrow> (\<forall>t. sw_pending s p = Some t \<longrightarrow> t0 \<le> t)"

lemma no_old_probe_exec:
  "quiet_for p t0 a \<Longrightarrow> no_old_probe p t0 s \<Longrightarrow> no_old_probe p t0 (exec a s)"
  by (cases a) (auto simp: no_old_probe_def quiet_for_def record_probe_def clear_probe_def
      timeout_recheck_def timeout_clear_def get_or_def split: if_splits option.splits)

lemma alive_exec:
  assumes "quiet_for p t0 a" "no_old_probe p t0 s" "get_state s p = Some Alive"
  shows "get_state (exec a s) p = Some Alive"
proof (cases a)
  case (Recheck q t n)
  then have "q = p \<Longrightarrow> sw_pending s p \<noteq> Some t"
    using assms(1,2) by (auto simp: quiet_for_def no_old_probe_def)
  then show ?thesis using assms(3) Recheck
    by (auto simp: timeout_recheck_def get_state_def states_mark_suspect)
next
  case (SuspectTick ks n)
  then show ?thesis using assms(3) by (auto simp: get_state_def states_suspect_tick)
next
  case (MarkSuspect q n)
  then show ?thesis using assms by (auto simp: quiet_for_def get_state_def states_mark_suspect)
qed (use assms in \<open>auto simp: quiet_for_def get_state_def mark_alive_def set_alive_def mark_dead_def
       swim_remove_peer_def\<close>)

lemma no_old_probe_run:
  "list_all (quiet_for p t0) as \<Longrightarrow> no_old_probe p t0 s \<Longrightarrow> no_old_probe p t0 (run as s)"
  by (induction as arbitrary: s) (auto intro: no_old_probe_exec)

lemma alive_run:
  "list_all (quiet_for p t0) as \<Longrightarrow> no_old_probe p t0 s \<Longrightarrow> get_state s p = Some Alive \<Longrightarrow>
    get_state (run as s) p = Some Alive"
  by (induction as arbitrary: s) (auto intro: no_old_probe_exec alive_exec)

text \<open>
  C19: An acknowledgement is never lost to the probe-timeout task. The handler clears the
  probe and then marks the peer alive, two separate lock regions; whatever runs before,
  between and after them, rechecks of probes from before the acknowledgement (time \<open>t0\<close>)
  included, the peer ends up alive and no probe from before \<open>t0\<close> is pending.
\<close>

theorem ack_never_lost:
  assumes "list_all (quiet_for p t0) ys" "list_all (quiet_for p t0) zs"
  shows "get_state (run (xs @ [ClearProbe p] @ ys @ [MarkAlive p n] @ zs) s) p = Some Alive \<and>
    no_old_probe p t0 (run (xs @ [ClearProbe p] @ ys @ [MarkAlive p n] @ zs) s)"
proof -
  let ?a = "run ys (snd (clear_probe p (run xs s)))"
  have a: "no_old_probe p t0 ?a"
    by (rule no_old_probe_run [OF assms(1)]) (simp add: no_old_probe_def clear_probe_def)
  have b: "no_old_probe p t0 (mark_alive n p ?a)" using a by (simp add: no_old_probe_def)
  have "get_state (mark_alive n p ?a) p = Some Alive" by (simp add: swim_defs)
  with alive_run [OF assms(2) b] no_old_probe_run [OF assms(2) b] show ?thesis by simp
qed

theorem ack_never_lost_witness:
  "get_state (run ([RecordProbe (PeerId [1]) 100] @ [ClearProbe (PeerId [1])] @
      [Recheck (PeerId [1]) 100 700] @ [MarkAlive (PeerId [1]) 650] @ [Recheck (PeerId [1]) 100 700])
      (swim_new (PeerId [0]) 1 3 3)) (PeerId [1]) = Some Alive"
  by (rule ack_never_lost [of "PeerId [1]" 600, THEN conjunct1]) (simp_all add: quiet_for_def)

lemma timeout_tick_fields:
  assumes "iterates kp (sw_pending s)"
  shows "sw_pending (fst (probe_timeout_tick tr pick kp ks now s)) =
      map_retain (\<lambda>_ t. now - t < SWIM_ACK_TIMEOUT_MS) (sw_pending s)" (is ?P)
    and "sw_states (fst (probe_timeout_tick tr pick kp ks now s)) p =
      (if get_state s p = Some Alive \<and>
            (\<exists>t. sw_pending s p = Some t \<and> SWIM_ACK_TIMEOUT_MS \<le> now - t)
       then Some \<lparr>sw_state = Suspect, sw_last_update = now\<rparr> else sw_states s p)" (is ?Q)
proof -
  have d: "distinct (map fst (timed_out_peers kp now s))"
    using assms by (simp add: iterates_def timed_out_distinct)
  have pend: "(p, t) \<in> set (timed_out_peers kp now s) \<Longrightarrow> sw_pending (fst (s, [])) p = Some t" for p t
    by (simp add: timed_out_set)
  have mem: "p \<in> fst ` set (timed_out_peers kp now s) \<longleftrightarrow>
      (\<exists>t. sw_pending s p = Some t \<and> SWIM_ACK_TIMEOUT_MS \<le> now - t)" for p
    using assms by (force simp: timed_out_set iterates_def image_iff)
  note tick = fold_timeout_one [OF d pend, of tr pick ks now]
  show ?P using tick [THEN conjunct1]
    by (auto simp: probe_timeout_tick_def fun_eq_iff mem map_retain_def not_le split: option.split)
  show ?Q using tick [THEN conjunct2, of p] by (auto simp: probe_timeout_tick_def mem)
qed

lemma timeout_tick_outbox:
  assumes "choose_multiple_spec pick" "iterates kp (sw_pending s)"
    and "(q, m) \<in> set (snd (probe_timeout_tick tr pick kp ks now s))"
  shows "\<exists>p. m = PingReq p (sw_self s) \<and> q \<noteq> p \<and> q \<noteq> sw_self s \<and>
    (\<exists>t. sw_pending s p = Some t \<and> SWIM_ACK_TIMEOUT_MS \<le> now - t)"
proof -
  let ?ok = "\<lambda>pts. \<exists>p t. m = PingReq p (sw_self s) \<and> q \<noteq> p \<and> q \<noteq> sw_self s \<and> (p, t) \<in> set pts"
  have "(q, m) \<in> set (snd (fold (timeout_one tr pick ks now) pts so)) \<Longrightarrow>
      sw_self (fst so) = sw_self s \<Longrightarrow> (q, m) \<in> set (snd so) \<or> ?ok pts" for pts so
  proof (induction pts arbitrary: so)
    case (Cons pt pts)
    let ?so = "timeout_one tr pick ks now pt so"
    let ?s = "timeout_clear (fst pt) (mark_suspect now (fst pt) (fst so))"
    have self: "sw_self (fst ?so) = sw_self s" "sw_self ?s = sw_self s"
      using Cons.prems(2) by (auto simp: timeout_one_def timeout_recheck_def mark_suspect_def
          timeout_clear_def Let_def split: option.split)
    have "snd ?so = snd so \<or> snd ?so = snd so @ indirect_probes tr pick ks (fst pt) ?s"
      by (simp add: timeout_one_def timeout_recheck_def Let_def)
    moreover have "(q, m) \<in> set (indirect_probes tr pick ks (fst pt) ?s) \<Longrightarrow> ?ok (pt # pts)"
      using indirect_probes_targets [OF assms(1), of q m tr ks "fst pt" ?s] self(2)
      by (cases pt) auto
    ultimately have "(q, m) \<in> set (snd ?so) \<Longrightarrow> (q, m) \<in> set (snd so) \<or> ?ok (pt # pts)" by auto
    then show ?case using Cons.IH [OF _ self(1)] Cons.prems(1) by auto
  qed simp
  from this [of "timed_out_peers kp now s" "(s, [])"] assms(3) show ?thesis
    by (auto simp: probe_timeout_tick_def timed_out_set)
qed

text \<open>
  One undisturbed probe-timeout tick, exactly: the probes older than the timeout are no
  longer pending, the alive peers among their targets become suspect as of now, every other
  peer and probe is untouched, and the only messages sent ask other peers to probe a target that timed out.
\<close>

theorem probe_timeout_tick_exact:
  assumes "choose_multiple_spec pick" "iterates kp (sw_pending s)"
  shows "sw_pending (fst (probe_timeout_tick tr pick kp ks now s)) =
      map_retain (\<lambda>_ t. now - t < SWIM_ACK_TIMEOUT_MS) (sw_pending s) \<and>
    sw_states (fst (probe_timeout_tick tr pick kp ks now s)) =
      (\<lambda>p. if get_state s p = Some Alive \<and>
              (\<exists>t. sw_pending s p = Some t \<and> SWIM_ACK_TIMEOUT_MS \<le> now - t)
           then Some \<lparr>sw_state = Suspect, sw_last_update = now\<rparr> else sw_states s p) \<and>
    (\<forall>(q, m) \<in> set (snd (probe_timeout_tick tr pick kp ks now s)).
       \<exists>p. m = PingReq p (sw_self s) \<and> q \<noteq> p \<and> q \<noteq> sw_self s \<and>
           (\<exists>t. sw_pending s p = Some t \<and> SWIM_ACK_TIMEOUT_MS \<le> now - t))"
  using timeout_tick_fields [OF assms(2)] timeout_tick_outbox [OF assms] by (auto simp: fun_eq_iff)

theorem probe_timeout_tick_exact_witness:
  "sw_pending (fst (probe_timeout_tick \<lparr>ser_ok = \<lambda>_. True, send_ok = \<lambda>_ _. True\<rparr> take [PeerId [1]] []
      600 (record_probe 100 (PeerId [1]) (swim_new (PeerId [0]) 1 3 3)))) (PeerId [1]) = None"
proof -
  let ?s = "record_probe 100 (PeerId [1]) (swim_new (PeerId [0]) 1 3 3)"
  have it: "iterates [PeerId [1]] (sw_pending ?s)" and p: "sw_pending ?s = [PeerId [1] \<mapsto> 100]"
    by (simp_all add: iterates_def record_probe_def swim_new_def)
  show ?thesis
    unfolding probe_timeout_tick_exact [OF choose_multiple_take it, THEN conjunct1]
    unfolding p by (simp add: map_retain_def SWIM_ACK_TIMEOUT_MS_def)
qed

lemma fold_probe_one:
  "sw_states (fst (fold (probe_one tr now) ps so)) = sw_states (fst so)"
  "sw_suspect_timeout (fst (fold (probe_one tr now) ps so)) = sw_suspect_timeout (fst so)"
  "sw_pending (fst (fold (probe_one tr now) ps so)) q =
     (if q \<in> set ps then Some (get_or now (sw_pending (fst so)) q) else sw_pending (fst so) q)"
proof (induction ps arbitrary: so)
  case (Cons p ps)
  {
    case 3
    show ?case unfolding fold_Cons o_apply Cons.IH(3)
      by (auto simp: probe_one_def get_or_def split: option.splits)
  }
qed (simp_all add: probe_one_def)

text \<open>
  C24: A peer that stops answering is found dead: probed at \<open>t0\<close>, it is suspect after a
  timeout tick at least 500 ms later and dead after a suspect tick more than the suspect
  timeout after that.
\<close>

theorem silent_peer_is_found_dead:
  assumes "iterates ks (sw_states s)" "get_state s p = Some Alive" "sw_pending s p = None"
    and "p \<in> set (pick (min (sw_probe_fanout s) (length (filter (\<lambda>q. get_state s q = Some Alive) ks)))
           (filter (\<lambda>q. get_state s q = Some Alive) ks))"
    and "s1 = fst (probe_tick tr pick ks t0 s)"
    and "iterates kp (sw_pending s1)" "s2 = fst (probe_timeout_tick tr pick kp ks t1 s1)"
    and "t0 + SWIM_ACK_TIMEOUT_MS \<le> t1" "t1 + sw_suspect_timeout s2 * 1000 < t2"
  shows "get_state s2 p = Some Suspect \<and> get_state (suspect_timeout_tick ks t2 s2) p = Some Dead"
proof -
  have mem: "p \<in> set ks" using assms(1,2) by (auto simp: iterates_def get_state_def)
  then have "filter (\<lambda>q. get_state s q = Some Alive) ks \<noteq> []"
    using assms(2) by (auto simp: filter_empty_conv)
  then have s1: "sw_states s1 = sw_states s" "sw_pending s1 p = Some t0"
    using assms(3,4,5) by (auto simp: probe_tick_def Let_def fold_probe_one get_or_def)
  have "sw_states s2 p = Some \<lparr>sw_state = Suspect, sw_last_update = t1\<rparr>"
    using timeout_tick_fields(2) [OF assms(6), of tr pick ks t1] assms(2,7,8) s1
    by (auto simp: get_state_def)
  then show ?thesis using assms(9) mem
    by (simp add: get_state_def states_suspect_tick less_diff_conv add.commute)
qed

theorem silent_peer_is_found_dead_witness:
  "let tr = \<lparr>ser_ok = \<lambda>_. True, send_ok = \<lambda>_ _. False\<rparr>; p = PeerId [1];
       s = mark_alive 0 p (swim_new (PeerId [0]) 1 3 3);
       s1 = fst (probe_tick tr take [p] 1000 s);
       s2 = fst (probe_timeout_tick tr take [p] [p] 1500 s1)
   in get_state (suspect_timeout_tick [p] 4501 s2) p = Some Dead"
proof -
  let ?tr = "\<lparr>ser_ok = \<lambda>_. True, send_ok = \<lambda>_ _. False\<rparr>" and ?p = "PeerId [1]"
  let ?s = "mark_alive 0 ?p (swim_new (PeerId [0]) 1 3 3)"
  let ?s1 = "fst (probe_tick ?tr take [?p] 1000 ?s)"
  let ?s2 = "fst (probe_timeout_tick ?tr take [?p] [?p] 1500 ?s1)"
  have s: "iterates [?p] (sw_states ?s)" "get_state ?s ?p = Some Alive" "sw_pending ?s ?p = None"
    "sw_probe_fanout ?s = 3"
    by (simp_all add: iterates_def swim_defs swim_new_def)
  have pend: "sw_pending ?s1 = [?p \<mapsto> 1000]"
    by (simp add: probe_tick_def probe_one_def swim_defs swim_new_def Let_def map_or_insert_def)
  then have it: "iterates [?p] (sw_pending ?s1)" by (simp add: iterates_def)
  have timeout: "sw_suspect_timeout ?s2 = 3" using pend
    by (simp add: probe_timeout_tick_def timed_out_peers_def map_filter_simps timeout_one_def
        timeout_recheck_def timeout_clear_def mark_suspect_def probe_tick_def probe_one_def Let_def
        mark_alive_def set_alive_def swim_new_def get_state_def SWIM_ACK_TIMEOUT_MS_def)
  have picked: "?p \<in> set (take (min (sw_probe_fanout ?s)
      (length (filter (\<lambda>q. get_state ?s q = Some Alive) [?p])))
        (filter (\<lambda>q. get_state ?s q = Some Alive) [?p]))"
    using s by simp
  have "1000 + SWIM_ACK_TIMEOUT_MS \<le> 1500" "1500 + sw_suspect_timeout ?s2 * 1000 < 4501"
    unfolding timeout by (simp_all add: SWIM_ACK_TIMEOUT_MS_def)
  from silent_peer_is_found_dead [OF s(1-3) picked refl it refl this]
  show ?thesis by (simp add: Let_def)
qed

lemma take_requesters_mem:
  assumes "iterates ks (sw_indirect s)"
  shows "r \<in> set (fst (take_indirect_probe_requesters ks now target s)) \<longleftrightarrow>
    (\<exists>t. sw_indirect s (target, r) = Some t \<and> now - t < SWIM_ACK_TIMEOUT_MS)"
  using assms by (force simp: take_indirect_probe_requesters_def Let_def iterates_def not_le image_iff
      split: option.splits)

lemma take_requesters_state:
  "sw_indirect (snd (take_indirect_probe_requesters ks now target s)) (target, r) = None"
  by (auto simp: take_indirect_probe_requesters_def Let_def map_retain_def split: option.split)

lemma forward_acks_all:
  assumes "\<And>r m. ser_ok tr m \<and> send_ok tr r m"
  shows "forward_acks tr target rs = (map (\<lambda>r. (r, AckResponse target r)) rs, None)"
  using assms by (induction rs) (simp_all add: send_msg_def)

text \<open>
  An indirect probe. A node asked to probe a target relays the target's acknowledgement
  to the requester exactly when it arrives within the 500 ms window (the transport delivering),
  uses the request up by doing so, marks the target alive, and forgets the request at once
  when the ping to the target could not be sent.
\<close>

theorem indirect_probe_relayed:
  assumes "\<And>p m. ser_ok tr m \<and> send_ok tr p m"
    and "s1 = fst (handle_ping_req tr t0 requester target s)" "iterates ks (sw_indirect s1)"
  shows "((requester, AckResponse target requester) \<in> set (fst (snd (handle_ack tr ks t1 target s1))))
       = (t1 - t0 < SWIM_ACK_TIMEOUT_MS) \<and>
    sw_indirect (fst (handle_ack tr ks t1 target s1)) (target, requester) = None \<and>
    get_state (fst (handle_ack tr ks t1 target s1)) target = Some Alive \<and>
    (\<not> send_ok tr' target Ping \<longrightarrow> ser_ok tr' Ping \<longrightarrow>
       sw_indirect (fst (handle_ping_req tr' t0 requester target s)) (target, requester) = None)"
proof -
  let ?s2 = "mark_alive t1 target (snd (clear_probe target s1))"
  have ind: "sw_indirect ?s2 = sw_indirect s1" by (simp add: mark_alive_def clear_probe_def)
  have at: "sw_indirect s1 (target, requester) = Some t0"
    using assms(1,2) by (simp add: handle_ping_req_def record_indirect_probe_request_def Let_def)
  have out: "fst (snd (handle_ack tr ks t1 target s1)) =
      map (\<lambda>r. (r, AckResponse target r)) (fst (take_indirect_probe_requesters ks t1 target ?s2))"
    using assms(1) by (simp add: handle_ack_def Let_def case_prod_beta forward_acks_all)
  have "requester \<in> set (fst (take_indirect_probe_requesters ks t1 target ?s2)) \<longleftrightarrow>
      t1 - t0 < SWIM_ACK_TIMEOUT_MS"
    using take_requesters_mem [of ks ?s2 requester t1 target] assms(3) ind at by simp
  moreover have "get_state (fst (handle_ack tr ks t1 target s1)) target = Some Alive"
    by (simp add: handle_ack_def Let_def case_prod_beta take_indirect_probe_requesters_def
        mark_alive_def set_alive_def get_state_def)
  moreover have "sw_indirect (fst (handle_ack tr ks t1 target s1)) (target, requester) = None"
    by (simp add: handle_ack_def Let_def case_prod_beta take_requesters_state)
  ultimately show ?thesis unfolding out
    by (auto simp: handle_ping_req_def Let_def clear_indirect_probe_request_def)
qed

theorem indirect_probe_relayed_witness:
  "(PeerId [1], AckResponse (PeerId [2]) (PeerId [1])) \<in>
     set (fst (snd (handle_ack \<lparr>ser_ok = \<lambda>_. True, send_ok = \<lambda>_ _. True\<rparr> [(PeerId [2], PeerId [1])] 499
       (PeerId [2]) (fst (handle_ping_req \<lparr>ser_ok = \<lambda>_. True, send_ok = \<lambda>_ _. True\<rparr> 0 (PeerId [1])
         (PeerId [2]) (swim_new (PeerId [0]) 1 3 3))))))"
proof -
  let ?tr = "\<lparr>ser_ok = \<lambda>_. True, send_ok = \<lambda>_ _. True\<rparr>"
  let ?s1 = "fst (handle_ping_req ?tr 0 (PeerId [1]) (PeerId [2]) (swim_new (PeerId [0]) 1 3 3))"
  have ok: "ser_ok ?tr m \<and> send_ok ?tr p m" for p m by simp
  have "sw_indirect ?s1 = [(PeerId [2], PeerId [1]) \<mapsto> 0]"
    by (simp add: handle_ping_req_def record_indirect_probe_request_def swim_new_def map_retain_def
        fun_eq_iff)
  then have it: "iterates [(PeerId [2], PeerId [1])] (sw_indirect ?s1)" by (simp add: iterates_def)
  show ?thesis
    using indirect_probe_relayed [OF ok refl it, of 499 ?tr] by (simp add: SWIM_ACK_TIMEOUT_MS_def)
qed

text \<open>
  The relay stops at the first requester that cannot be reached, and the requests it had
  already taken are gone: the requesters after it get no answer although the target is alive.
\<close>

theorem relay_stops_at_first_failure:
  assumes "fst (take_indirect_probe_requesters ks now sender
      (mark_alive now sender (snd (clear_probe sender s)))) = rs1 @ bad # rs2"
    and "\<not> send_ok tr bad (AckResponse sender bad)" "r \<in> set rs2" "r \<notin> set rs1" "r \<noteq> bad"
  shows "(r, AckResponse sender r) \<notin> set (fst (snd (handle_ack tr ks now sender s))) \<and>
    sw_indirect (fst (handle_ack tr ks now sender s)) (sender, r) = None \<and>
    snd (snd (handle_ack tr ks now sender s)) \<noteq> None"
proof -
  have "set (fst (forward_acks tr sender (rs1 @ bad # rs2))) \<subseteq> (\<lambda>r. (r, AckResponse sender r)) ` set rs1 \<and>
      snd (forward_acks tr sender (rs1 @ bad # rs2)) \<noteq> None"
    using assms(2) by (induction rs1) (auto simp: send_msg_def case_prod_beta)
  then show ?thesis using assms(1,3-5)
    by (auto simp: handle_ack_def Let_def case_prod_beta take_requesters_state)
qed

theorem relay_stops_at_first_failure_witness:
  "let tr = \<lparr>ser_ok = \<lambda>_. True, send_ok = \<lambda>p _. p \<noteq> PeerId [1]\<rparr>; ks = [(PeerId [9], PeerId [1]), (PeerId [9], PeerId [2])];
       s = (swim_new (PeerId [0]) 1 3 3)\<lparr>sw_indirect := [(PeerId [9], PeerId [1]) \<mapsto> 0, (PeerId [9], PeerId [2]) \<mapsto> 0]\<rparr>
   in (PeerId [2], AckResponse (PeerId [9]) (PeerId [2])) \<notin> set (fst (snd (handle_ack tr ks 10 (PeerId [9]) s)))"
  unfolding Let_def
  by (rule relay_stops_at_first_failure [of _ _ _ _ "[]" "PeerId [1]" "[PeerId [2]]", THEN conjunct1])
    (simp_all add: take_indirect_probe_requesters_def mark_alive_def clear_probe_def swim_new_def
      SWIM_ACK_TIMEOUT_MS_def Let_def)

end
