(* ===== verification/Join_Ledger.thy ===== *)
theory Join_Ledger
  imports Gossip_Types
begin

text \<open>
  The JOIN retry discipline of \<open>crates/membership/src/lib.rs\<close>: the ledger of attempts, dial
  backoff and loss cooldown per seed, one dial, and the loop of \<open>join\<close> over the seeds.
  Instants and delays are milliseconds. The environment of a join is a record of functions:
  the answer of a dial and when it comes, the random numbers, when a sleep ends, and how a
  seed string parses. What \<open>join_send\<close> does to the views is an argument.
\<close>

datatype SocketAddr = SocketAddr bytes nat

definition JOIN_MAX_ATTEMPTS :: nat where
  "JOIN_MAX_ATTEMPTS = 10"

definition JOIN_INITIAL_DELAY_MS :: nat where
  "JOIN_INITIAL_DELAY_MS = 100"

definition JOIN_MAX_DELAY_MS :: nat where
  "JOIN_MAX_DELAY_MS = 30000"

record JoinSeedState =
  js_attempts :: nat
  js_delay_ms :: nat
  js_loss_delay_ms :: nat
  js_ready_at :: "instant option"

record JoinLedger =
  lg_seeds :: "SocketAddr \<rightharpoonup> JoinSeedState"

datatype JoinDial =
    Answered PeerId
  | DialFailed duration bool \<comment> \<open>retry after, exhausted\<close>
  | Exhausted
  | NotReady instant

datatype JoinSend = Joined | JoinSendFailed

record join_env =
  je_dial :: "SocketAddr \<Rightarrow> instant \<Rightarrow> PeerId option \<times> instant"
  je_random :: "instant \<Rightarrow> nat"
  je_wake :: "instant \<Rightarrow> instant"
  je_parse :: "string \<Rightarrow> SocketAddr option"

definition seed_default :: JoinSeedState where
  "seed_default = \<lparr>js_attempts = 0, js_delay_ms = JOIN_INITIAL_DELAY_MS,
                   js_loss_delay_ms = JOIN_INITIAL_DELAY_MS, js_ready_at = None\<rparr>"

definition join_jitter_ms :: "nat \<Rightarrow> nat \<Rightarrow> nat" where
  "join_jitter_ms random delay_ms = random mod (delay_ms div 4) - delay_ms div 8"

definition ledger_new :: JoinLedger where
  "ledger_new = \<lparr>lg_seeds = Map.empty\<rparr>"

definition seed_state :: "JoinLedger \<Rightarrow> SocketAddr \<Rightarrow> JoinSeedState" where
  "seed_state lg seed = get_or seed_default (lg_seeds lg) seed"

definition attempts :: "JoinLedger \<Rightarrow> SocketAddr \<Rightarrow> nat" where
  "attempts lg seed = (case lg_seeds lg seed of None \<Rightarrow> 0 | Some st \<Rightarrow> js_attempts st)"

definition is_exhausted :: "JoinLedger \<Rightarrow> SocketAddr \<Rightarrow> bool" where
  "is_exhausted lg seed \<longleftrightarrow> attempts lg seed \<ge> JOIN_MAX_ATTEMPTS"

definition ledger_delay_ms :: "JoinLedger \<Rightarrow> SocketAddr \<Rightarrow> nat" where
  "ledger_delay_ms lg seed =
     (case lg_seeds lg seed of None \<Rightarrow> JOIN_INITIAL_DELAY_MS | Some st \<Rightarrow> js_delay_ms st)"

definition ledger_loss_delay_ms :: "JoinLedger \<Rightarrow> SocketAddr \<Rightarrow> nat" where
  "ledger_loss_delay_ms lg seed =
     (case lg_seeds lg seed of None \<Rightarrow> JOIN_INITIAL_DELAY_MS | Some st \<Rightarrow> js_loss_delay_ms st)"

definition ledger_ready_at :: "JoinLedger \<Rightarrow> SocketAddr \<Rightarrow> instant option" where
  "ledger_ready_at lg seed = Option.bind (lg_seeds lg seed) js_ready_at"

definition later :: "instant option \<Rightarrow> instant \<Rightarrow> instant" where
  "later current t = (case current of None \<Rightarrow> t | Some c \<Rightarrow> max c t)"

definition record_loss ::
  "nat \<Rightarrow> instant \<Rightarrow> SocketAddr \<Rightarrow> JoinLedger \<Rightarrow> instant \<times> JoinLedger" where
  "record_loss random now seed lg =
     (let st = seed_state lg seed;
          delay_ms = js_loss_delay_ms st;
          cooldown = delay_ms + join_jitter_ms random delay_ms;
          ready = later (js_ready_at st) (now + cooldown)
      in (ready,
          lg\<lparr>lg_seeds := (lg_seeds lg)(seed \<mapsto>
               st\<lparr>js_loss_delay_ms := min (delay_ms * 2) JOIN_MAX_DELAY_MS,
                  js_ready_at := Some ready\<rparr>)\<rparr>))"

text \<open>One dial; the last component is the time at which it ends.\<close>

definition join_dial ::
  "join_env \<Rightarrow> instant \<Rightarrow> SocketAddr \<Rightarrow> JoinLedger \<Rightarrow> JoinDial \<times> JoinLedger \<times> instant" where
  "join_dial env now addr lg =
     (let st = seed_state lg addr;
          put = (\<lambda>st'. lg\<lparr>lg_seeds := (lg_seeds lg)(addr \<mapsto> st')\<rparr>)
      in if js_attempts st \<ge> JOIN_MAX_ATTEMPTS then (Exhausted, put st, now)
         else if (case js_ready_at st of None \<Rightarrow> False | Some r \<Rightarrow> r > now)
         then (NotReady (the (js_ready_at st)), put st, now)
         else let st1 = st\<lparr>js_attempts := js_attempts st + 1\<rparr>;
                  (answer, now') = je_dial env addr now
              in case answer of
                   Some peer \<Rightarrow> (Answered peer, put st1, now')
                 | None \<Rightarrow>
                     (let delay_ms = js_delay_ms st1;
                          retry_after = delay_ms + join_jitter_ms (je_random env now') delay_ms
                      in (DialFailed retry_after (js_attempts st1 \<ge> JOIN_MAX_ATTEMPTS),
                          put (st1\<lparr>js_delay_ms := min (delay_ms * 2) JOIN_MAX_DELAY_MS,
                                   js_ready_at := Some (later (js_ready_at st1) (now' + retry_after))\<rparr>),
                          now')))"

text \<open>
  The retry loop for one seed, with fuel for its iterations; \<^const>\<open>None\<close> when the fuel runs
  out. The result says whether the node joined, with the ledger, the views and the time.
\<close>

type_synonym 's join_send = "SocketAddr \<Rightarrow> PeerId \<Rightarrow> instant \<Rightarrow> 's \<Rightarrow> JoinSend \<times> 's"

fun join_seed ::
  "join_env \<Rightarrow> 's join_send \<Rightarrow> nat \<Rightarrow> SocketAddr \<Rightarrow> JoinLedger \<Rightarrow> instant \<Rightarrow> 's \<Rightarrow>
   (bool \<times> JoinLedger \<times> instant \<times> 's) option" where
  "join_seed env send 0 addr lg now s = None"
| "join_seed env send (Suc fuel) addr lg now s =
     (case join_dial env now addr lg of
        (Answered peer, lg', now') \<Rightarrow>
          (case send addr peer now' s of
             (Joined, s') \<Rightarrow> Some (True, lg', now', s')
           | (JoinSendFailed, s') \<Rightarrow> join_seed env send fuel addr lg' now' s')
      | (DialFailed retry_after _, lg', now') \<Rightarrow>
          join_seed env send fuel addr lg' (je_wake env (now' + retry_after)) s
      | (NotReady ready_at, lg', now') \<Rightarrow> join_seed env send fuel addr lg' (je_wake env ready_at) s
      | (Exhausted, lg', now') \<Rightarrow> Some (False, lg', now', s))"

definition JOIN_FUEL :: nat where
  "JOIN_FUEL = JOIN_MAX_ATTEMPTS + 1"

datatype join_error = NoSeedReached | OutOfFuel

fun join_seeds ::
  "join_env \<Rightarrow> 's join_send \<Rightarrow> string list \<Rightarrow> instant \<Rightarrow> 's \<Rightarrow> (join_error + unit) \<times> instant \<times> 's" where
  "join_seeds env send [] now s = (Inl NoSeedReached, now, s)"
| "join_seeds env send (seed # seeds) now s =
     (case je_parse env seed of
        None \<Rightarrow> join_seeds env send seeds now s
      | Some addr \<Rightarrow>
          (case join_seed env send JOIN_FUEL addr ledger_new now s of
             None \<Rightarrow> (Inl OutOfFuel, now, s)
           | Some (joined, _, now', s') \<Rightarrow>
               if joined then (Inr (), now', s') else join_seeds env send seeds now' s'))"

definition join ::
  "join_env \<Rightarrow> 's join_send \<Rightarrow> string list \<Rightarrow> instant \<Rightarrow> 's \<Rightarrow> (join_error + unit) \<times> instant \<times> 's" where
  "join env send seeds now s = (if seeds = [] then (Inr (), now, s) else join_seeds env send seeds now s)"

subsection \<open>The ledger invariant\<close>

text \<open>
  The two delays are between 100 ms and 30 s, and a seed has at most ten attempts. So the
  modulus of the jitter is never zero.
\<close>

definition seed_ok :: "JoinSeedState \<Rightarrow> bool" where
  "seed_ok st \<longleftrightarrow> js_attempts st \<le> JOIN_MAX_ATTEMPTS \<and>
     JOIN_INITIAL_DELAY_MS \<le> js_delay_ms st \<and> js_delay_ms st \<le> JOIN_MAX_DELAY_MS \<and>
     JOIN_INITIAL_DELAY_MS \<le> js_loss_delay_ms st \<and> js_loss_delay_ms st \<le> JOIN_MAX_DELAY_MS"

definition ledger_ok :: "JoinLedger \<Rightarrow> bool" where
  "ledger_ok lg \<longleftrightarrow> (\<forall>seed. seed_ok (seed_state lg seed))"

named_theorems join_consts \<open>constants of the JOIN discipline\<close>

lemmas [join_consts] = JOIN_MAX_ATTEMPTS_def JOIN_INITIAL_DELAY_MS_def JOIN_MAX_DELAY_MS_def

lemma seed_state_upd [simp]:
  "seed_state (lg\<lparr>lg_seeds := (lg_seeds lg)(a \<mapsto> st)\<rparr>) b = (if b = a then st else seed_state lg b)"
  by (simp add: seed_state_def)

lemma seed_state_new [simp]: "seed_state ledger_new a = seed_default"
  by (simp add: seed_state_def ledger_new_def)

lemma seed_state_eq:
  "attempts lg a = js_attempts (seed_state lg a)" "ledger_ready_at lg a = js_ready_at (seed_state lg a)"
  "ledger_delay_ms lg a = js_delay_ms (seed_state lg a)"
  "ledger_loss_delay_ms lg a = js_loss_delay_ms (seed_state lg a)"
  by (simp_all add: attempts_def ledger_ready_at_def ledger_delay_ms_def ledger_loss_delay_ms_def
      seed_state_def get_or_def seed_default_def split: option.split)

lemma ledger_ok_new [simp]: "ledger_ok ledger_new"
  by (simp add: ledger_ok_def seed_ok_def seed_default_def join_consts)

lemma ledger_ok_put:
  "ledger_ok lg \<Longrightarrow> seed_ok st \<Longrightarrow> ledger_ok (lg\<lparr>lg_seeds := (lg_seeds lg)(a \<mapsto> st)\<rparr>)"
  by (simp add: ledger_ok_def)

lemma jitter_bound: "8 \<le> d \<Longrightarrow> join_jitter_ms r d \<le> d div 8"
proof -
  assume "8 \<le> d"
  then have "r mod (d div 4) < d div 4" by (intro mod_less_divisor) simp
  moreover have "d div 4 \<le> 2 * (d div 8) + 1" by linarith
  ultimately show ?thesis unfolding join_jitter_ms_def by linarith
qed

lemma seed_ok_double:
  "seed_ok st \<Longrightarrow> seed_ok (st\<lparr>js_delay_ms := min (js_delay_ms st * 2) JOIN_MAX_DELAY_MS, js_ready_at := r\<rparr>)"
  "seed_ok st \<Longrightarrow> seed_ok (st\<lparr>js_loss_delay_ms := min (js_loss_delay_ms st * 2) JOIN_MAX_DELAY_MS, js_ready_at := r\<rparr>)"
  by (auto simp: seed_ok_def join_consts)

lemma join_dial_cases:
  obtains
    (exhausted) "JOIN_MAX_ATTEMPTS \<le> attempts lg addr"
      "join_dial env now addr lg = (Exhausted, lg\<lparr>lg_seeds := (lg_seeds lg)(addr \<mapsto> seed_state lg addr)\<rparr>, now)"
  | (not_ready) r where "attempts lg addr < JOIN_MAX_ATTEMPTS" "ledger_ready_at lg addr = Some r" "now < r"
      "join_dial env now addr lg = (NotReady r, lg\<lparr>lg_seeds := (lg_seeds lg)(addr \<mapsto> seed_state lg addr)\<rparr>, now)"
  | (answered) p t where "attempts lg addr < JOIN_MAX_ATTEMPTS"
      "\<And>r. ledger_ready_at lg addr = Some r \<Longrightarrow> r \<le> now" "je_dial env addr now = (Some p, t)"
      "join_dial env now addr lg = (Answered p, lg\<lparr>lg_seeds := (lg_seeds lg)(addr \<mapsto>
         (seed_state lg addr)\<lparr>js_attempts := attempts lg addr + 1\<rparr>)\<rparr>, t)"
  | (failed) t d where "attempts lg addr < JOIN_MAX_ATTEMPTS"
      "\<And>r. ledger_ready_at lg addr = Some r \<Longrightarrow> r \<le> now" "je_dial env addr now = (None, t)"
      "d = ledger_delay_ms lg addr + join_jitter_ms (je_random env t) (ledger_delay_ms lg addr)"
      "join_dial env now addr lg = (DialFailed d (JOIN_MAX_ATTEMPTS \<le> attempts lg addr + 1),
         lg\<lparr>lg_seeds := (lg_seeds lg)(addr \<mapsto> (seed_state lg addr)\<lparr>js_attempts := attempts lg addr + 1,
           js_delay_ms := min (ledger_delay_ms lg addr * 2) JOIN_MAX_DELAY_MS,
           js_ready_at := Some (later (ledger_ready_at lg addr) (t + d))\<rparr>)\<rparr>, t)"
proof (cases "JOIN_MAX_ATTEMPTS \<le> attempts lg addr")
  case True
  then show thesis by (intro exhausted) (simp_all add: join_dial_def Let_def seed_state_eq)
next
  case False
  show thesis
  proof (cases "\<exists>r. ledger_ready_at lg addr = Some r \<and> now < r")
    case True
    then obtain r where "ledger_ready_at lg addr = Some r" "now < r" by blast
    with False show thesis by (intro not_ready [of r]) (simp_all add: join_dial_def Let_def seed_state_eq)
  next
    case notready: False
    obtain a t where d: "je_dial env addr now = (a, t)" by fastforce
    have rd: "\<not> (case js_ready_at (seed_state lg addr) of None \<Rightarrow> False | Some r \<Rightarrow> r > now)"
      using notready by (auto simp: seed_state_eq split: option.split)
    show thesis
    proof (cases a)
      case None
      with False notready rd d show thesis
        by (intro failed) (auto simp: join_dial_def Let_def seed_state_eq not_le not_less)
    next
      case (Some p)
      with False notready rd d show thesis
        by (intro answered) (auto simp: join_dial_def Let_def seed_state_eq not_le not_less)
    qed
  qed
qed

subsection \<open>Properties\<close>

definition env_ok :: "join_env \<Rightarrow> bool" where
  "env_ok env \<longleftrightarrow> (\<forall>t. t \<le> je_wake env t) \<and> (\<forall>addr t. t \<le> snd (je_dial env addr t))"

lemma join_dial_ok: "ledger_ok lg \<Longrightarrow> ledger_ok (fst (snd (join_dial env now addr lg)))"
proof (cases rule: join_dial_cases [of lg addr env now])
  case (failed t d)
  assume ok: "ledger_ok lg"
  then have "seed_ok ((seed_state lg addr)\<lparr>js_attempts := attempts lg addr + 1\<rparr>)"
    using failed(1) by (simp add: ledger_ok_def seed_ok_def)
  from ledger_ok_put [OF ok seed_ok_double(1) [OF this]] show ?thesis
    by (simp add: failed(5) seed_state_eq)
qed (auto simp: ledger_ok_def seed_ok_def)

text \<open>
  One dial keeps the ledger's bounds and touches no other seed. It dials only a seed with
  attempts left whose readiness has come, and then uses exactly one attempt; a failed dial
  waits its backoff plus at most an eighth, and the next backoff is doubled up to 30 s, while
  an answered dial leaves the backoff alone; refused dials change nothing.
\<close>

theorem join_dial_discipline:
  assumes "ledger_ok lg" "join_dial env now addr lg = (res, lg', t)"
  shows "ledger_ok lg' \<and> (\<forall>b. b \<noteq> addr \<longrightarrow> seed_state lg' b = seed_state lg b) \<and>
    (case res of
       Answered p \<Rightarrow> \<not> is_exhausted lg addr \<and> (\<forall>r. ledger_ready_at lg addr = Some r \<longrightarrow> r \<le> now) \<and>
         attempts lg' addr = attempts lg addr + 1 \<and> ledger_delay_ms lg' addr = ledger_delay_ms lg addr
     | DialFailed d final \<Rightarrow> \<not> is_exhausted lg addr \<and> (\<forall>r. ledger_ready_at lg addr = Some r \<longrightarrow> r \<le> now) \<and>
         attempts lg' addr = attempts lg addr + 1 \<and> final = is_exhausted lg' addr \<and>
         ledger_delay_ms lg addr \<le> d \<and> d \<le> ledger_delay_ms lg addr + ledger_delay_ms lg addr div 8 \<and>
         ledger_delay_ms lg' addr = min (2 * ledger_delay_ms lg addr) JOIN_MAX_DELAY_MS \<and>
         (\<exists>r. ledger_ready_at lg' addr = Some r \<and> t + d \<le> r)
     | Exhausted \<Rightarrow> is_exhausted lg addr \<and> seed_state lg' addr = seed_state lg addr
     | NotReady r \<Rightarrow> ledger_ready_at lg addr = Some r \<and> now < r \<and> seed_state lg' addr = seed_state lg addr)"
proof -
  have ok: "ledger_ok lg'" using join_dial_ok [OF assms(1), of env now addr] assms(2) by simp
  have d8: "8 \<le> ledger_delay_ms lg addr"
    using assms(1) by (auto simp: ledger_ok_def seed_ok_def seed_state_eq join_consts dest: spec [of _ addr])
  show ?thesis
  proof (cases rule: join_dial_cases [of lg addr env now])
    case (failed t' d)
    then show ?thesis using ok assms(2) jitter_bound [OF d8]
      by (auto simp: seed_state_eq is_exhausted_def later_def mult.commute split: option.splits)
  qed (use ok assms(2) in \<open>auto simp: seed_state_eq is_exhausted_def\<close>)
qed

theorem join_dial_discipline_witness:
  "let env = \<lparr>je_dial = \<lambda>_ t. (None, t + 20), je_random = \<lambda>_. 7, je_wake = \<lambda>t. t, je_parse = \<lambda>_. None\<rparr>;
       lg' = fst (snd (join_dial env 5 (SocketAddr [1] 80) ledger_new))
   in ledger_ok lg' \<and> attempts lg' (SocketAddr [1] 80) = 1"
proof -
  let ?env = "\<lparr>je_dial = \<lambda>_ t. (None, t + 20), je_random = \<lambda>_. 7, je_wake = \<lambda>t. t, je_parse = \<lambda>_. None\<rparr>"
  let ?r = "join_dial ?env 5 (SocketAddr [1] 80) ledger_new"
  have "\<exists>d. fst ?r = DialFailed d False" "attempts (fst (snd ?r)) (SocketAddr [1] 80) = 1"
    by (simp_all add: join_dial_def Let_def seed_default_def seed_state_eq join_consts)
  moreover have "?r = (fst ?r, fst (snd ?r), snd (snd ?r))" by simp
  ultimately show ?thesis using join_dial_discipline [OF ledger_ok_new \<open>?r = _\<close>] by (simp add: Let_def)
qed

text \<open>
  A recorded loss starts a cooldown of at least the loss delay: until it ends a seed with
  attempts left is not dialled, its attempts and dial backoff stay, and the next cooldown is
  doubled up to 30 s.
\<close>

theorem loss_cooldown_holds:
  assumes "ledger_ok lg" "record_loss random t0 seed lg = (ready, lg')"
    and "t < t0 + ledger_loss_delay_ms lg seed" "\<not> is_exhausted lg seed"
  shows "ledger_ok lg' \<and> fst (join_dial env t seed lg') = NotReady ready \<and>
    attempts lg' seed = attempts lg seed \<and> ledger_delay_ms lg' seed = ledger_delay_ms lg seed \<and>
    ledger_loss_delay_ms lg' seed = min (2 * ledger_loss_delay_ms lg seed) JOIN_MAX_DELAY_MS"
proof -
  let ?st = "seed_state lg seed"
  have lg': "lg' = lg\<lparr>lg_seeds := (lg_seeds lg)(seed \<mapsto>
      ?st\<lparr>js_loss_delay_ms := min (js_loss_delay_ms ?st * 2) JOIN_MAX_DELAY_MS, js_ready_at := Some ready\<rparr>)\<rparr>"
    and ready: "t0 + js_loss_delay_ms ?st \<le> ready"
    using assms(2) by (auto simp: record_loss_def Let_def later_def split: option.splits)
  have "ledger_ok lg'" unfolding lg'
    using assms(1) by (intro ledger_ok_put seed_ok_double(2)) (auto simp: ledger_ok_def)
  moreover have "fst (join_dial env t seed lg') = NotReady ready"
    using assms(3,4) ready by (simp add: join_dial_def Let_def lg' seed_state_eq is_exhausted_def)
  ultimately show ?thesis by (simp add: seed_state_eq lg' mult.commute)
qed

theorem loss_cooldown_holds_witness:
  "\<exists>ready lg'. record_loss 7 1000 (SocketAddr [1] 80) ledger_new = (ready, lg') \<and>
     fst (join_dial \<lparr>je_dial = \<lambda>_ t. (None, t), je_random = \<lambda>_. 7, je_wake = \<lambda>t. t, je_parse = \<lambda>_. None\<rparr>
       1099 (SocketAddr [1] 80) lg') = NotReady ready"
proof -
  obtain ready lg' where r: "record_loss 7 1000 (SocketAddr [1] 80) ledger_new = (ready, lg')" by fastforce
  have "1099 < 1000 + ledger_loss_delay_ms ledger_new (SocketAddr [1] 80)" "\<not> is_exhausted ledger_new (SocketAddr [1] 80)"
    by (simp_all add: seed_state_eq is_exhausted_def seed_default_def join_consts)
  from loss_cooldown_holds [OF ledger_ok_new r this] r show ?thesis by blast
qed

lemma join_seed_returns:
  assumes "env_ok env"
    and "JOIN_MAX_ATTEMPTS - attempts lg addr < fuel" "attempts lg addr \<le> JOIN_MAX_ATTEMPTS"
    and "\<And>r. ledger_ready_at lg addr = Some r \<Longrightarrow> r \<le> now"
  shows "\<exists>joined lg' t s'. join_seed env send fuel addr lg now s = Some (joined, lg', t, s') \<and>
    attempts lg' addr \<le> JOIN_MAX_ATTEMPTS \<and> (joined \<or> attempts lg' addr = JOIN_MAX_ATTEMPTS)"
  using assms(2-)
proof (induction fuel arbitrary: lg now s)
  case (Suc fuel)
  have wake: "t \<le> je_wake env t" and dial: "t \<le> snd (je_dial env addr t)" for t
    using assms(1) by (auto simp: env_ok_def)
  show ?case
  proof (cases rule: join_dial_cases [of lg addr env now])
    case exhausted
    then show ?thesis using Suc.prems by (auto simp: seed_state_eq)
  next
    case (not_ready r)
    then show ?thesis using Suc.prems(3) by fastforce
  next
    case (answered p t)
    let ?lg = "lg\<lparr>lg_seeds := (lg_seeds lg)(addr \<mapsto> (seed_state lg addr)\<lparr>js_attempts := attempts lg addr + 1\<rparr>)\<rparr>"
    have "now \<le> t" using dial [of now] answered(3) by simp
    then have "\<And>r. ledger_ready_at ?lg addr = Some r \<Longrightarrow> r \<le> t"
      using answered(2) by (force simp: seed_state_eq)
    moreover have at: "attempts ?lg addr = attempts lg addr + 1" by (simp add: seed_state_eq)
    ultimately have IH: "\<exists>joined lg' t' s''. join_seed env send fuel addr ?lg t s' = Some (joined, lg', t', s'') \<and>
        attempts lg' addr \<le> JOIN_MAX_ATTEMPTS \<and> (joined \<or> attempts lg' addr = JOIN_MAX_ATTEMPTS)" for s'
      using Suc.prems(1) answered(1) by (intro Suc.IH) auto
    obtain v s' where "send addr p t s = (v, s')" by fastforce
    then show ?thesis using IH [of s'] at answered(1) by (cases v) (auto simp: answered(4))
  next
    case (failed t d)
    have "now \<le> t" using dial [of now] failed(3) by simp
    then have "later (ledger_ready_at lg addr) (t + d) = t + d"
      using failed(2) by (fastforce simp: later_def split: option.split)
    note eq = failed(5) [unfolded this]
    let ?lg = "fst (snd (join_dial env now addr lg))"
    have at: "attempts ?lg addr = attempts lg addr + 1" "ledger_ready_at ?lg addr = Some (t + d)"
      unfolding eq by (simp_all add: seed_state_eq)
    have "\<exists>joined lg' t' s'. join_seed env send fuel addr ?lg (je_wake env (t + d)) s = Some (joined, lg', t', s') \<and>
        attempts lg' addr \<le> JOIN_MAX_ATTEMPTS \<and> (joined \<or> attempts lg' addr = JOIN_MAX_ATTEMPTS)"
      using Suc.prems(1) failed(1) at wake [of "t + d"] by (intro Suc.IH) auto
    then show ?thesis by (simp add: eq)
  qed
qed simp

text \<open>
  C33: \<open>join\<close> always returns (sleeps ending no earlier than asked, dials ending after they
  start): for one seed the loop ends after at most ten dials, without a success only when all
  ten attempts are used, so the fuel of the model is never exhausted; with no seeds it
  succeeds at once.
\<close>

theorem join_terminates:
  assumes "env_ok env"
  shows "(\<exists>joined lg' t s'. join_seed env send JOIN_FUEL addr ledger_new now s = Some (joined, lg', t, s') \<and>
      attempts lg' addr \<le> JOIN_MAX_ATTEMPTS \<and> (joined \<or> attempts lg' addr = JOIN_MAX_ATTEMPTS)) \<and>
    fst (join env send seeds now s) \<noteq> Inl OutOfFuel \<and> join env send [] now s = (Inr (), now, s)"
proof -
  have one: "\<exists>joined lg' t s'. join_seed env send JOIN_FUEL addr ledger_new now s = Some (joined, lg', t, s') \<and>
      attempts lg' addr \<le> JOIN_MAX_ATTEMPTS \<and> (joined \<or> attempts lg' addr = JOIN_MAX_ATTEMPTS)" for addr now s
    by (rule join_seed_returns [OF assms]) (simp_all add: JOIN_FUEL_def seed_state_eq seed_default_def)
  have "fst (join_seeds env send seeds now s) \<noteq> Inl OutOfFuel"
  proof (induction seeds arbitrary: now s)
    case (Cons seed seeds)
    show ?case
    proof (cases "je_parse env seed")
      case (Some addr)
      with one [of addr now s] Cons.IH show ?thesis by (auto split: if_splits)
    qed (simp add: Cons.IH)
  qed simp
  with one show ?thesis by (simp add: join_def)
qed

theorem join_terminates_witness:
  "fst (join \<lparr>je_dial = \<lambda>_ t. (None, t + 20), je_random = \<lambda>_. 7, je_wake = \<lambda>t. t + 1, je_parse = \<lambda>_. Some (SocketAddr [1] 80)\<rparr>
     (\<lambda>_ _ _ s. (Joined, s)) [''seed''] 0 ()) \<noteq> Inl OutOfFuel"
  by (rule join_terminates [THEN conjunct2, THEN conjunct1]) (simp add: env_ok_def)

end
