(* ===== verification/Hyparview.thy ===== *)
theory Hyparview
  imports Swim Join_Ledger
begin

text \<open>
  The HyParView partial views of \<open>crates/membership/src/lib.rs\<close>: the active and passive view,
  the commit of a new active peer with its lock rounds, the message handlers and their
  dispatch, and JOIN.

  The environment of a handler is a record: the transport's outcomes, the order in which the
  hash sets are iterated (\<open>ev_order\<close>, any function that lists a finite set) and that of the
  indirect-probe table. A handler returns the new state, the messages sent and the error it
  returned, if any.
\<close>

definition ACTIVE_RANDOM_WALK_LENGTH :: nat where
  "ACTIVE_RANDOM_WALK_LENGTH = 6"

definition PASSIVE_RANDOM_WALK_LENGTH :: nat where
  "PASSIVE_RANDOM_WALK_LENGTH = 3"

definition COMMIT_TRY_ROUNDS :: nat where
  "COMMIT_TRY_ROUNDS = 8"

datatype NeighborPriority = High | Low

datatype HyParViewMessage =
    Join PeerId nat \<comment> \<open>sender, ttl\<close>
  | ForwardJoin PeerId PeerId nat \<comment> \<open>sender, new peer, ttl\<close>
  | Neighbor PeerId NeighborPriority
  | NeighborReply bool
  | Shuffle PeerId "PeerId list" nat \<comment> \<open>sender, peers, ttl\<close>
  | ShuffleReply "PeerId list"
  | Disconnect

datatype MembershipProtocolMessage = HyParView HyParViewMessage | SwimMsg SwimMessage

record MembershipConfig =
  mc_active_degree :: nat
  mc_max_active_degree :: nat
  mc_max_passive_degree :: nat
  mc_shuffle_period :: duration
  mc_shuffle_active_size :: nat
  mc_shuffle_passive_size :: nat
  mc_adaptive_enabled :: bool

definition config_default :: MembershipConfig where
  "config_default = \<lparr>mc_active_degree = 8, mc_max_active_degree = 12, mc_max_passive_degree = 128,
     mc_shuffle_period = 30, mc_shuffle_active_size = 3, mc_shuffle_passive_size = 4,
     mc_adaptive_enabled = True\<rparr>"

text \<open>The last two fields are the local variables of the maintenance task.\<close>

record HyParViewMembership =
  hv_local :: PeerId
  hv_active :: "PeerId set"
  hv_passive :: "PeerId set"
  hv_addrs :: "PeerId \<rightharpoonup> SocketAddr"
  hv_swim :: SwimDetector
  hv_config :: MembershipConfig
  hv_seen :: "PeerId \<rightharpoonup> instant"
  hv_prev_active_target :: nat
  hv_prev_passive_max :: nat

record hv_env =
  ev_swim :: swim_transport
  ev_ser :: "HyParViewMessage \<Rightarrow> bool"
  ev_send :: "PeerId \<Rightarrow> HyParViewMessage \<Rightarrow> bool"
  ev_order :: "PeerId set \<Rightarrow> PeerId list"
  ev_indirect_order :: "(PeerId \<times> PeerId) list"

definition order_ok :: "hv_env \<Rightarrow> bool" where
  "order_ok env \<longleftrightarrow> (\<forall>S. finite S \<longrightarrow> iterates_set (ev_order env S) S)"

type_synonym mp_outbox = "(PeerId \<times> MembershipProtocolMessage) list"
type_synonym hv_result = "HyParViewMembership \<times> mp_outbox \<times> send_error option"

definition hv_new :: "PeerId \<Rightarrow> MembershipConfig \<Rightarrow> HyParViewMembership" where
  "hv_new local_peer_id config =
     \<lparr>hv_local = local_peer_id, hv_active = {}, hv_passive = {}, hv_addrs = Map.empty,
      hv_swim = swim_new local_peer_id 1 3 3, hv_config = config, hv_seen = Map.empty,
      hv_prev_active_target = mc_active_degree config,
      hv_prev_passive_max = mc_max_passive_degree config\<rparr>"

definition with_degrees :: "PeerId \<Rightarrow> nat \<Rightarrow> nat \<Rightarrow> HyParViewMembership" where
  "with_degrees local_peer_id active_degree passive_degree =
     hv_new local_peer_id
       (config_default\<lparr>mc_active_degree := active_degree,
                       mc_max_passive_degree := max passive_degree 128\<rparr>)"

subsection \<open>The views\<close>

definition store_peer_addr :: "PeerId \<Rightarrow> SocketAddr \<Rightarrow> HyParViewMembership \<Rightarrow> HyParViewMembership" where
  "store_peer_addr peer addr s = s\<lparr>hv_addrs := (hv_addrs s)(peer \<mapsto> addr)\<rparr>"

definition add_to_passive :: "PeerId \<Rightarrow> HyParViewMembership \<Rightarrow> HyParViewMembership" where
  "add_to_passive peer s =
     (if peer = hv_local s then s
      else if peer \<in> hv_active s then s
      else if card (hv_passive s) < mc_max_passive_degree (hv_config s)
      then s\<lparr>hv_passive := insert peer (hv_passive s)\<rparr> else s)"

definition random_active_peer_except :: "hv_env \<Rightarrow> PeerId \<Rightarrow> HyParViewMembership \<Rightarrow> PeerId option" where
  "random_active_peer_except env exclude s = List.find (\<lambda>p. p \<noteq> exclude) (ev_order env (hv_active s))"

definition sample_active :: "hv_env \<Rightarrow> nat \<Rightarrow> HyParViewMembership \<Rightarrow> PeerId list" where
  "sample_active env count s = take count (ev_order env (hv_active s))"

definition sample_passive :: "hv_env \<Rightarrow> nat \<Rightarrow> HyParViewMembership \<Rightarrow> PeerId list" where
  "sample_passive env count s = take count (ev_order env (hv_passive s))"

definition demotion :: "hv_env \<Rightarrow> HyParViewMembership \<Rightarrow> PeerId option" where
  "demotion env s =
     (if card (hv_active s) \<ge> mc_active_degree (hv_config s)
      then (case ev_order env (hv_active s) of [] \<Rightarrow> None | p # _ \<Rightarrow> Some p) else None)"

definition apply_commit ::
  "instant \<Rightarrow> PeerId option \<Rightarrow> PeerId \<Rightarrow> HyParViewMembership \<Rightarrow> HyParViewMembership" where
  "apply_commit now to_demote peer s =
     (let s1 = (case to_demote of
                  None \<Rightarrow> s
                | Some d \<Rightarrow>
                    (let s0 = s\<lparr>hv_active := hv_active s - {d}\<rparr>
                     in if card (hv_passive s0) < mc_max_passive_degree (hv_config s0)
                        then s0\<lparr>hv_passive := insert d (hv_passive s0)\<rparr> else s0))
      in s1\<lparr>hv_active := insert peer (hv_active s1), hv_swim := mark_alive now peer (hv_swim s1)\<rparr>)"

text \<open>
  The lock rounds of \<open>commit_active\<close>. \<open>free r l\<close>: does \<open>try_write\<close> on lock \<open>l\<close> succeed in the
  round with \<open>r\<close> rounds left; \<open>st r\<close>: the state when that round holds its locks, which other
  tasks may have changed since the round before. With no round left the locks are awaited in
  order.
\<close>

datatype CommitLock = LockSwim | LockActive | LockPassive

fun commit_rounds ::
  "hv_env \<Rightarrow> instant \<Rightarrow> PeerId \<Rightarrow> (nat \<Rightarrow> CommitLock \<Rightarrow> bool) \<Rightarrow> (nat \<Rightarrow> HyParViewMembership) \<Rightarrow>
   nat \<Rightarrow> CommitLock option \<Rightarrow> nat \<times> HyParViewMembership" where
  "commit_rounds env now peer free st 0 wait_for =
     (0, apply_commit now (demotion env (st 0)) peer (st 0))"
| "commit_rounds env now peer free st (Suc r) wait_for =
     (let held = (\<lambda>l. wait_for = Some l \<or> free (Suc r) l)
      in if \<not> held LockSwim then commit_rounds env now peer free st r (Some LockSwim)
         else if \<not> held LockActive then commit_rounds env now peer free st r (Some LockActive)
         else let to_demote = demotion env (st (Suc r))
              in if to_demote \<noteq> None \<and> \<not> held LockPassive
                 then commit_rounds env now peer free st r (Some LockPassive)
                 else (Suc r, apply_commit now to_demote peer (st (Suc r))))"

definition commit_active :: "hv_env \<Rightarrow> instant \<Rightarrow> PeerId \<Rightarrow> HyParViewMembership \<Rightarrow> HyParViewMembership" where
  "commit_active env now peer s = apply_commit now (demotion env s) peer s"

definition add_active :: "hv_env \<Rightarrow> instant \<Rightarrow> PeerId \<Rightarrow> HyParViewMembership \<Rightarrow> HyParViewMembership" where
  "add_active env now peer s = commit_active env now peer s"

definition remove_active :: "instant \<Rightarrow> PeerId \<Rightarrow> HyParViewMembership \<Rightarrow> HyParViewMembership" where
  "remove_active now peer s =
     (if peer \<in> hv_active s
      then s\<lparr>hv_active := hv_active s - {peer}, hv_swim := mark_dead now peer (hv_swim s)\<rparr> else s)"

definition promote :: "hv_env \<Rightarrow> instant \<Rightarrow> PeerId \<Rightarrow> HyParViewMembership \<Rightarrow> HyParViewMembership" where
  "promote env now peer s =
     (if peer \<in> hv_passive s
      then add_active env now peer (s\<lparr>hv_passive := hv_passive s - {peer}\<rparr>) else s)"

definition see :: "instant \<Rightarrow> PeerId \<Rightarrow> HyParViewMembership \<Rightarrow> HyParViewMembership" where
  "see now peer s = s\<lparr>hv_seen := (hv_seen s)(peer \<mapsto> now)\<rparr>"

subsection \<open>Messages\<close>

definition send_hyparview_message ::
  "hv_env \<Rightarrow> PeerId \<Rightarrow> HyParViewMessage \<Rightarrow> mp_outbox \<times> send_error option" where
  "send_hyparview_message env peer msg =
     (if \<not> ev_ser env msg then ([], Some SerializeFailed)
      else if \<not> ev_send env peer msg then ([], Some SendFailed)
      else ([(peer, HyParView msg)], None))"

definition join_send ::
  "hv_env \<Rightarrow> (HyParViewMembership \<times> mp_outbox) join_send" where
  "join_send env addr peer now so =
     (let s = store_peer_addr peer addr (fst so);
          (out, err) = send_hyparview_message env peer (Join (hv_local s) ACTIVE_RANDOM_WALK_LENGTH)
      in if err \<noteq> None then (JoinSendFailed, s, snd so @ out)
         else (Joined, add_active env now peer s, snd so @ out))"

definition hv_join ::
  "hv_env \<Rightarrow> join_env \<Rightarrow> string list \<Rightarrow> instant \<Rightarrow> HyParViewMembership \<Rightarrow>
   (join_error + unit) \<times> instant \<times> HyParViewMembership \<times> mp_outbox" where
  "hv_join env jenv seeds now s = join jenv (join_send env) seeds now (s, [])"

definition shuffle_list :: "hv_env \<Rightarrow> HyParViewMembership \<Rightarrow> PeerId list" where
  "shuffle_list env s =
     hv_local s # sample_active env (mc_shuffle_active_size (hv_config s)) s @
                  sample_passive env (mc_shuffle_passive_size (hv_config s)) s"

definition shuffle :: "hv_env \<Rightarrow> HyParViewMembership \<Rightarrow> hv_result" where
  "shuffle env s =
     (case ev_order env (hv_active s) of
        [] \<Rightarrow> (s, [], None)
      | target # _ \<Rightarrow> (s, send_hyparview_message env target
            (Shuffle (hv_local s) (shuffle_list env s) PASSIVE_RANDOM_WALK_LENGTH)))"

definition integrate_peers :: "PeerId list \<Rightarrow> HyParViewMembership \<Rightarrow> HyParViewMembership" where
  "integrate_peers peers s =
     fold (\<lambda>peer s. if peer \<noteq> hv_local s then add_to_passive peer s else s) peers s"

definition handle_shuffle ::
  "hv_env \<Rightarrow> instant \<Rightarrow> PeerId \<Rightarrow> PeerId list \<Rightarrow> nat \<Rightarrow> HyParViewMembership \<Rightarrow> hv_result" where
  "handle_shuffle env now sender peers ttl s =
     (let s1 = see now sender s;
          next_hop = (if ttl > 0 \<and> card (hv_active s1) > 1
                      then List.find (\<lambda>p. p \<noteq> sender) (ev_order env (hv_active s1)) else None)
      in case next_hop of
           Some n \<Rightarrow> (s1, send_hyparview_message env n (Shuffle sender peers (ttl - 1)))
         | None \<Rightarrow>
             (let (out, err) = send_hyparview_message env sender
                                 (ShuffleReply (sample_passive env (length peers) s1))
              in if err \<noteq> None then (s1, out, err) else (integrate_peers peers s1, out, None)))"

definition handle_shuffle_reply :: "PeerId list \<Rightarrow> HyParViewMembership \<Rightarrow> HyParViewMembership" where
  "handle_shuffle_reply peers s = integrate_peers peers s"

definition handle_join ::
  "hv_env \<Rightarrow> instant \<Rightarrow> PeerId \<Rightarrow> nat \<Rightarrow> HyParViewMembership \<Rightarrow> hv_result" where
  "handle_join env now new_peer ttl s =
     (let s1 = add_active env now new_peer (see now new_peer s)
      in if ttl > 0
         then (s1, concat (map (\<lambda>t. fst (send_hyparview_message env t
                     (ForwardJoin (hv_local s1) new_peer (ttl - 1))))
                   (filter (\<lambda>p. p \<noteq> new_peer) (ev_order env (hv_active s1)))), None)
         else (s1, [], None))"

definition handle_forward_join ::
  "hv_env \<Rightarrow> instant \<Rightarrow> PeerId \<Rightarrow> PeerId \<Rightarrow> nat \<Rightarrow> HyParViewMembership \<Rightarrow> hv_result" where
  "handle_forward_join env now sender new_peer ttl s =
     (let s1 = see now new_peer s;
          active_count = card (hv_active s1);
          (s2, out, err) =
            (if ttl = 0 \<or> active_count < mc_active_degree (hv_config s1)
             then (add_active env now new_peer s1,
                   send_hyparview_message env new_peer
                     (Neighbor (hv_local s1) (if active_count = 0 then High else Low)))
             else case random_active_peer_except env new_peer s1 of
                    None \<Rightarrow> (s1, [], None)
                  | Some n \<Rightarrow> (s1, send_hyparview_message env n
                                (ForwardJoin (hv_local s1) new_peer (ttl - 1))))
      in if err \<noteq> None then (s2, out, err)
         else if ttl = PASSIVE_RANDOM_WALK_LENGTH then (add_to_passive new_peer s2, out, None)
         else (s2, out, None))"

definition handle_neighbor ::
  "hv_env \<Rightarrow> instant \<Rightarrow> PeerId \<Rightarrow> NeighborPriority \<Rightarrow> HyParViewMembership \<Rightarrow> hv_result" where
  "handle_neighbor env now sender priority s =
     (let s1 = see now sender s;
          accepted = (priority = High \<or> card (hv_active s1) < mc_max_active_degree (hv_config s1));
          s2 = (if accepted then add_active env now sender s1 else s1)
      in (s2, send_hyparview_message env sender (NeighborReply accepted)))"

definition handle_neighbor_reply ::
  "instant \<Rightarrow> PeerId \<Rightarrow> bool \<Rightarrow> HyParViewMembership \<Rightarrow> HyParViewMembership" where
  "handle_neighbor_reply now sender accepted s =
     (if accepted then s\<lparr>hv_swim := mark_alive now sender (hv_swim s)\<rparr>
      else if sender \<in> hv_active s
      then add_to_passive sender (s\<lparr>hv_active := hv_active s - {sender}\<rparr>) else s)"

definition handle_disconnect :: "hv_env \<Rightarrow> instant \<Rightarrow> PeerId \<Rightarrow> HyParViewMembership \<Rightarrow> HyParViewMembership" where
  "handle_disconnect env now sender s =
     (let s1 = remove_active now sender s
      in case ev_order env (hv_passive s1) of
           [] \<Rightarrow> s1
         | candidate # _ \<Rightarrow> promote env now candidate s1)"

subsection \<open>Dispatch\<close>

fun dispatch_hyparview ::
  "hv_env \<Rightarrow> instant \<Rightarrow> PeerId \<Rightarrow> HyParViewMessage \<Rightarrow> HyParViewMembership \<Rightarrow> hv_result" where
  "dispatch_hyparview env now sender (Join p ttl) s = handle_join env now p ttl s"
| "dispatch_hyparview env now sender (ForwardJoin q p ttl) s = handle_forward_join env now q p ttl s"
| "dispatch_hyparview env now sender (Neighbor p prio) s = handle_neighbor env now p prio s"
| "dispatch_hyparview env now sender (NeighborReply ok) s = (handle_neighbor_reply now sender ok s, [], None)"
| "dispatch_hyparview env now sender (Shuffle p peers ttl) s = handle_shuffle env now p peers ttl s"
| "dispatch_hyparview env now sender (ShuffleReply peers) s = (handle_shuffle_reply peers s, [], None)"
| "dispatch_hyparview env now sender Disconnect s = (handle_disconnect env now sender s, [], None)"

definition swim_out :: "send_error + outbox \<Rightarrow> mp_outbox \<times> send_error option" where
  "swim_out r = (case r of Inl e \<Rightarrow> ([], Some e) | Inr out \<Rightarrow> (map (apsnd SwimMsg) out, None))"

fun dispatch_swim ::
  "hv_env \<Rightarrow> instant \<Rightarrow> PeerId \<Rightarrow> SwimMessage \<Rightarrow> HyParViewMembership \<Rightarrow> hv_result" where
  "dispatch_swim env now sender Ping s =
     (let (sw, r) = handle_ping (ev_swim env) now sender (hv_swim s)
      in (s\<lparr>hv_swim := sw\<rparr>, swim_out r))"
| "dispatch_swim env now sender Ack s =
     (let (sw, out, err) = handle_ack (ev_swim env) (ev_indirect_order env) now sender (hv_swim s)
      in (s\<lparr>hv_swim := sw\<rparr>, map (apsnd SwimMsg) out, err))"
| "dispatch_swim env now sender (PingReq target requester) s =
     (let (sw, r) = handle_ping_req (ev_swim env) now requester target (hv_swim s)
      in (s\<lparr>hv_swim := sw\<rparr>, swim_out r))"
| "dispatch_swim env now sender (AckResponse target _) s =
     (s\<lparr>hv_swim := handle_ack_response now target (hv_swim s)\<rparr>, [], None)"

datatype dispatch_error = DeserializeFailed | HandlerFailed send_error

definition dispatch_message ::
  "(bytes \<Rightarrow> MembershipProtocolMessage option) \<Rightarrow> hv_env \<Rightarrow> instant \<Rightarrow> PeerId \<Rightarrow> bytes \<Rightarrow>
   HyParViewMembership \<Rightarrow> HyParViewMembership \<times> mp_outbox \<times> dispatch_error option" where
  "dispatch_message decode env now sender data s =
     (case decode data of
        None \<Rightarrow> (s, [], Some DeserializeFailed)
      | Some msg \<Rightarrow>
          (let (s', out, err) = (case msg of
                 HyParView m \<Rightarrow> dispatch_hyparview env now sender m s
               | SwimMsg m \<Rightarrow> dispatch_swim env now sender m s)
           in (s', out, map_option HandlerFailed err)))"

subsection \<open>The view bounds\<close>

definition config_ok :: "MembershipConfig \<Rightarrow> bool" where
  "config_ok c \<longleftrightarrow> 1 \<le> mc_active_degree c \<and> mc_active_degree c \<le> mc_max_active_degree c \<and>
     mc_active_degree c * 8 \<le> mc_max_passive_degree c"

definition views_ok :: "HyParViewMembership \<Rightarrow> bool" where
  "views_ok s \<longleftrightarrow> finite (hv_active s) \<and> finite (hv_passive s) \<and>
     card (hv_active s) \<le> mc_max_active_degree (hv_config s) \<and>
     card (hv_passive s) \<le> mc_max_passive_degree (hv_config s)"

text \<open>What no operation but the maintenance task changes.\<close>

definition same_frame :: "HyParViewMembership \<Rightarrow> HyParViewMembership \<Rightarrow> bool" where
  "same_frame s s' \<longleftrightarrow> hv_config s' = hv_config s \<and> hv_local s' = hv_local s \<and>
     hv_prev_active_target s' = hv_prev_active_target s \<and> hv_prev_passive_max s' = hv_prev_passive_max s"

definition keeps_views :: "HyParViewMembership \<Rightarrow> HyParViewMembership \<Rightarrow> bool" where
  "keeps_views s s' \<longleftrightarrow> same_frame s s' \<and> (config_ok (hv_config s) \<longrightarrow> views_ok s \<longrightarrow> views_ok s')"

lemma keeps_views_refl [simp]: "keeps_views s s"
  by (simp add: keeps_views_def same_frame_def)

lemma keeps_views_trans [trans]: "keeps_views s t \<Longrightarrow> keeps_views t u \<Longrightarrow> keeps_views s u"
  by (auto simp: keeps_views_def same_frame_def)

lemma keeps_views_fold: "(\<And>x s. keeps_views s (f x s)) \<Longrightarrow> keeps_views s (fold f xs s)"
  by (induction xs arbitrary: s) (auto intro: keeps_views_trans)

lemma keeps_views_other [simp]:
  "keeps_views s (s\<lparr>hv_swim := sw\<rparr>)" "keeps_views s (see now p s)" "keeps_views s (store_peer_addr p a s)"
  by (simp_all add: keeps_views_def same_frame_def views_ok_def see_def store_peer_addr_def)

lemma card_insert_Diff:
  assumes "finite A" "d \<in> A" shows "card (insert p (A - {d})) \<le> card A"
  using assms by (metis card_Suc_Diff1 card_insert_le_m1 diff_Suc_1 finite_Diff le_refl
      zero_less_Suc)

lemma add_to_passive_keeps: "keeps_views s (add_to_passive p s)"
  by (auto simp: keeps_views_def same_frame_def views_ok_def add_to_passive_def card_insert_if)

lemma add_to_passive_fields [simp]:
  "hv_local (add_to_passive p s) = hv_local s" "hv_active (add_to_passive p s) = hv_active s"
  by (auto simp: add_to_passive_def)

lemma integrate_peers_keeps: "keeps_views s (integrate_peers ps s)"
  unfolding integrate_peers_def by (rule keeps_views_fold) (auto intro: add_to_passive_keeps)

lemma order_okD: "order_ok env \<Longrightarrow> finite S \<Longrightarrow> distinct (ev_order env S) \<and> set (ev_order env S) = S"
  by (simp add: order_ok_def iterates_set_def)

lemma demotion_cases:
  assumes "order_ok env" "finite (hv_active s)"
  obtains (room) "demotion env s = None" "card (hv_active s) < mc_active_degree (hv_config s) \<or> hv_active s = {}"
  | (full) d where "demotion env s = Some d" "d \<in> hv_active s"
      "mc_active_degree (hv_config s) \<le> card (hv_active s)"
proof (cases "demotion env s")
  case None
  then show thesis using order_okD [OF assms]
    by (intro room) (auto simp: demotion_def not_le split: if_splits list.splits)
next
  case (Some d)
  then show thesis using order_okD [OF assms]
    by (intro full) (auto simp: demotion_def split: if_splits list.splits)
qed

lemma commit_active_keeps:
  assumes "order_ok env" shows "keeps_views s (commit_active env now p s)"
  unfolding keeps_views_def
proof (intro conjI impI)
  show "same_frame s (commit_active env now p s)"
    by (auto simp: same_frame_def commit_active_def apply_commit_def Let_def split: option.split)
  assume ok: "config_ok (hv_config s)" "views_ok s"
  then have fin: "finite (hv_active s)" by (simp add: views_ok_def)
  show "views_ok (commit_active env now p s)"
    using assms fin
  proof (cases rule: demotion_cases)
    case room
    then have "card (insert p (hv_active s)) \<le> mc_active_degree (hv_config s)"
      using ok(1) fin by (auto simp: card_insert_if config_ok_def)
    with room ok show ?thesis
      by (simp add: commit_active_def apply_commit_def views_ok_def config_ok_def)
  next
    case (full d)
    with ok card_insert_Diff [OF fin full(2), of p] show ?thesis
      by (auto simp: commit_active_def apply_commit_def views_ok_def Let_def card_insert_if)
  qed
qed

lemma see_commit_keeps:
  "order_ok env \<Longrightarrow> keeps_views s (add_active env now p (see now p s))"
  unfolding add_active_def by (rule keeps_views_trans [OF keeps_views_other(2) commit_active_keeps])

lemma remove_active_keeps: "keeps_views s (remove_active now p s)"
  by (auto simp: keeps_views_def same_frame_def views_ok_def remove_active_def
      intro: order_trans [OF card_Diff1_le])

lemma promote_keeps: "order_ok env \<Longrightarrow> keeps_views s (promote env now p s)"
proof -
  assume env: "order_ok env"
  have "keeps_views s (s\<lparr>hv_passive := hv_passive s - {p}\<rparr>)"
    by (auto simp: keeps_views_def same_frame_def views_ok_def intro: order_trans [OF card_Diff1_le])
  with commit_active_keeps [OF env] show ?thesis
    by (auto simp: promote_def add_active_def intro: keeps_views_trans)
qed

lemma handle_shuffle_keeps: "keeps_views s (fst (handle_shuffle env now sender peers ttl s))"
  by (auto simp: handle_shuffle_def Let_def case_prod_beta
      intro: keeps_views_trans [OF keeps_views_other(2) integrate_peers_keeps] split: option.split)

lemma handle_join_keeps: "order_ok env \<Longrightarrow> keeps_views s (fst (handle_join env now p ttl s))"
  by (simp add: handle_join_def Let_def see_commit_keeps)

lemma handle_forward_join_keeps:
  assumes "order_ok env" shows "keeps_views s (fst (handle_forward_join env now q p ttl s))"
proof -
  have a: "keeps_views s (add_active env now p (see now p s))" by (rule see_commit_keeps [OF assms])
  then have "keeps_views s (add_to_passive p (add_active env now p (see now p s)))"
      "keeps_views s (add_to_passive p (see now p s))"
    using add_to_passive_keeps keeps_views_trans keeps_views_other(2) by blast+
  with a show ?thesis
    by (auto simp: handle_forward_join_def Let_def case_prod_beta split: option.split)
qed

lemma handle_neighbor_keeps: "order_ok env \<Longrightarrow> keeps_views s (fst (handle_neighbor env now p prio s))"
  by (simp add: handle_neighbor_def Let_def see_commit_keeps)

lemma handle_neighbor_reply_keeps: "keeps_views s (handle_neighbor_reply now p ok s)"
proof -
  have "keeps_views s (s\<lparr>hv_active := hv_active s - {p}\<rparr>)"
    by (auto simp: keeps_views_def same_frame_def views_ok_def intro: order_trans [OF card_Diff1_le])
  then have "keeps_views s (add_to_passive p (s\<lparr>hv_active := hv_active s - {p}\<rparr>))"
    using add_to_passive_keeps keeps_views_trans by blast
  then show ?thesis by (simp add: handle_neighbor_reply_def)
qed

lemma handle_disconnect_keeps: "order_ok env \<Longrightarrow> keeps_views s (handle_disconnect env now p s)"
  using remove_active_keeps promote_keeps keeps_views_trans
  by (fastforce simp: handle_disconnect_def Let_def split: list.split)

lemma dispatch_hyparview_keeps:
  assumes "order_ok env" shows "keeps_views s (fst (dispatch_hyparview env now sender m s))"
  using assms
  by (cases m) (simp_all add: handle_join_keeps handle_forward_join_keeps handle_neighbor_keeps
      handle_neighbor_reply_keeps handle_shuffle_keeps handle_shuffle_reply_def integrate_peers_keeps
      handle_disconnect_keeps)

lemma dispatch_swim_keeps: "keeps_views s (fst (dispatch_swim env now sender m s))"
  by (cases m) (simp_all add: Let_def case_prod_beta)

lemma dispatch_message_keeps:
  "order_ok env \<Longrightarrow> keeps_views s (fst (dispatch_message decode env now sender data s))"
  by (auto simp: dispatch_message_def Let_def case_prod_beta dispatch_hyparview_keeps
      dispatch_swim_keeps split: option.split MembershipProtocolMessage.split)

end
