(* ===== verification/Degree_Maintenance.thy ===== *)
theory Degree_Maintenance
  imports Hyparview
begin

text \<open>
  The degree-maintenance task of \<open>crates/membership/src/lib.rs\<close>: adaptive degrees, their
  smoothing, and the reconciliation of the views and of SWIM with the connections the
  transport reports. Then the properties of the membership layer as a whole.

  The floating-point target \<open>(ln(n) * 2.0).ceil() as usize\<close> is a function \<open>ln_degree\<close> of the
  estimated size. \<open>clamp\<close> panics when its bounds are crossed: \<^const>\<open>None\<close>.
\<close>

definition clamp :: "nat \<Rightarrow> nat \<Rightarrow> nat \<Rightarrow> nat option" where
  "clamp x lo hi = (if lo > hi then None else Some (max lo (min x hi)))"

definition recent_count :: "hv_env \<Rightarrow> instant \<Rightarrow> HyParViewMembership \<Rightarrow> nat" where
  "recent_count env now s =
     length (filter (\<lambda>p. case hv_seen s p of None \<Rightarrow> False | Some t \<Rightarrow> now - t < 300000)
       (ev_order env (dom (hv_seen s))))"

definition estimated_network_size :: "hv_env \<Rightarrow> instant \<Rightarrow> HyParViewMembership \<Rightarrow> nat" where
  "estimated_network_size env now s =
     max (card (hv_active s) + card (hv_passive s) + 1) (recent_count env now s)"

definition calculate_adaptive_degrees ::
  "(nat \<Rightarrow> nat) \<Rightarrow> hv_env \<Rightarrow> instant \<Rightarrow> HyParViewMembership \<Rightarrow> (nat \<times> nat) option" where
  "calculate_adaptive_degrees ln_degree env now s =
     (let c = hv_config s
      in if \<not> mc_adaptive_enabled c then Some (mc_active_degree c, mc_max_passive_degree c)
         else Option.bind
           (clamp (ln_degree (estimated_network_size env now s)) (mc_active_degree c) (mc_max_active_degree c))
           (\<lambda>active. Option.bind (clamp (active * 8) (mc_active_degree c * 8) (mc_max_passive_degree c))
           (\<lambda>passive. Some (active, passive))))"

definition smooth :: "nat \<Rightarrow> nat \<Rightarrow> nat" where
  "smooth prev target =
     (if target > prev then prev + min (target - prev) 2 else prev - min (prev - target) 2)"

definition reconcile :: "PeerId set \<Rightarrow> HyParViewMembership \<Rightarrow> HyParViewMembership" where
  "reconcile connected s =
     (let active = {p \<in> hv_active s. p \<in> connected};
          passive = hv_passive s \<union> {p \<in> hv_active s. p \<notin> connected \<and> p \<noteq> hv_local s};
          sw = hv_swim s
      in s\<lparr>hv_active := active,
           hv_passive := {p \<in> passive. p \<noteq> hv_local s \<and> p \<notin> active},
           hv_swim := sw\<lparr>sw_states := map_retain (\<lambda>p _. p \<in> connected) (sw_states sw),
                         sw_pending := map_retain (\<lambda>p _. p \<in> connected) (sw_pending sw),
                         sw_indirect := map_retain (\<lambda>k _. fst k \<in> connected \<and> snd k \<in> connected) (sw_indirect sw)\<rparr>\<rparr>)"

definition promote_one :: "instant \<Rightarrow> PeerId \<Rightarrow> HyParViewMembership \<Rightarrow> HyParViewMembership" where
  "promote_one now p s =
     s\<lparr>hv_passive := hv_passive s - {p}, hv_active := insert p (hv_active s),
       hv_swim := mark_alive now p (hv_swim s)\<rparr>"

definition promote_connected ::
  "hv_env \<Rightarrow> instant \<Rightarrow> nat \<Rightarrow> PeerId set \<Rightarrow> HyParViewMembership \<Rightarrow> HyParViewMembership" where
  "promote_connected env now smoothed_active connected s =
     (if card (hv_active s) < smoothed_active \<and> hv_passive s \<noteq> {}
      then fold (promote_one now)
             (take (smoothed_active - card (hv_active s))
               (filter (\<lambda>p. p \<in> connected) (ev_order env (hv_passive s)))) s
      else s)"

definition demote_one :: "nat \<Rightarrow> PeerId \<Rightarrow> HyParViewMembership \<Rightarrow> HyParViewMembership" where
  "demote_one smoothed_passive p s =
     (let s1 = s\<lparr>hv_active := hv_active s - {p}\<rparr>
      in if card (hv_passive s1) < smoothed_passive
         then s1\<lparr>hv_passive := insert p (hv_passive s1)\<rparr> else s1)"

definition demote_excess ::
  "hv_env \<Rightarrow> nat \<Rightarrow> nat \<Rightarrow> HyParViewMembership \<Rightarrow> HyParViewMembership" where
  "demote_excess env active_count smoothed_passive s =
     (if active_count > mc_max_active_degree (hv_config s)
      then fold (demote_one smoothed_passive)
             (take (active_count - mc_max_active_degree (hv_config s)) (ev_order env (hv_active s))) s
      else s)"

definition trim_passive :: "hv_env \<Rightarrow> nat \<Rightarrow> HyParViewMembership \<Rightarrow> HyParViewMembership" where
  "trim_passive env smoothed_passive s =
     (if card (hv_passive s) > smoothed_passive
      then s\<lparr>hv_passive := hv_passive s -
               set (take (card (hv_passive s) - smoothed_passive) (ev_order env (hv_passive s)))\<rparr>
      else s)"

definition maintain_views ::
  "hv_env \<Rightarrow> instant \<Rightarrow> nat \<Rightarrow> nat \<Rightarrow> PeerId set \<Rightarrow> HyParViewMembership \<Rightarrow> HyParViewMembership" where
  "maintain_views env now smoothed_active smoothed_passive connected s =
     (let s1 = reconcile connected s;
          active_count = card (hv_active s1);
          s2 = promote_connected env now smoothed_active connected s1;
          s3 = demote_excess env active_count smoothed_passive s2
      in trim_passive env smoothed_passive s3)"

definition maintenance_tick ::
  "(nat \<Rightarrow> nat) \<Rightarrow> hv_env \<Rightarrow> instant \<Rightarrow> PeerId set \<Rightarrow> HyParViewMembership \<Rightarrow> HyParViewMembership option" where
  "maintenance_tick ln_degree env now connected s =
     (case calculate_adaptive_degrees ln_degree env now s of
        None \<Rightarrow> None
      | Some (target_active, target_passive) \<Rightarrow>
          (let sa = smooth (hv_prev_active_target s) target_active;
               sp = smooth (hv_prev_passive_max s) target_passive;
               s1 = s\<lparr>hv_prev_active_target := sa, hv_prev_passive_max := sp\<rparr>;
               s2 = maintain_views env now sa sp connected s1
           in Some (s2\<lparr>hv_seen := map_retain (\<lambda>_ t. now - t < 300000) (hv_seen s2)\<rparr>)))"


subsection \<open>Each stage of a tick\<close>

lemma smooth_bounds: "lo \<le> prev \<Longrightarrow> lo \<le> target \<Longrightarrow> prev \<le> hi \<Longrightarrow> target \<le> hi \<Longrightarrow> lo \<le> smooth prev target \<and> smooth prev target \<le> hi"
  by (auto simp: smooth_def)

lemma clampD: "clamp x lo hi = Some y \<Longrightarrow> lo \<le> y \<and> y \<le> hi"
  by (auto simp: clamp_def split: if_splits)

lemma clamp_total: "lo \<le> hi \<Longrightarrow> clamp x lo hi \<noteq> None"
  by (simp add: clamp_def)

lemma adaptive_degrees_ok:
  assumes "config_ok (hv_config s)"
  obtains a p where "calculate_adaptive_degrees ln_degree env now s = Some (a, p)"
    "mc_active_degree (hv_config s) \<le> a" "a \<le> mc_max_active_degree (hv_config s)"
    "p \<le> mc_max_passive_degree (hv_config s)"
proof (cases "mc_adaptive_enabled (hv_config s)")
  case False
  then show thesis using assms by (intro that) (auto simp: calculate_adaptive_degrees_def Let_def config_ok_def)
next
  case True
  obtain a where a: "clamp (ln_degree (estimated_network_size env now s)) (mc_active_degree (hv_config s))
      (mc_max_active_degree (hv_config s)) = Some a"
    using assms clamp_total by (fastforce simp: config_ok_def)
  obtain p where p: "clamp (a * 8) (mc_active_degree (hv_config s) * 8) (mc_max_passive_degree (hv_config s)) = Some p"
    using assms clamp_total by (fastforce simp: config_ok_def)
  show thesis using True a p clampD [OF a] clampD [OF p]
    by (intro that) (auto simp: calculate_adaptive_degrees_def Let_def)
qed

lemma reconcile_fields:
  "hv_active (reconcile c s) = hv_active s \<inter> c"
  "hv_passive (reconcile c s) = (hv_passive s \<union> (hv_active s - c)) - {hv_local s} - (hv_active s \<inter> c)"
  "hv_local (reconcile c s) = hv_local s" "hv_config (reconcile c s) = hv_config s"
  "hv_prev_active_target (reconcile c s) = hv_prev_active_target s"
  "hv_prev_passive_max (reconcile c s) = hv_prev_passive_max s"
  "get_state (hv_swim (reconcile c s)) p = (if p \<in> c then get_state (hv_swim s) p else None)"
  by (auto simp: reconcile_def Let_def get_state_def map_retain_def split: option.split)

lemma fold_promote_one:
  "hv_active (fold (promote_one now) ps s) = hv_active s \<union> set ps"
  "hv_passive (fold (promote_one now) ps s) = hv_passive s - set ps"
  "hv_local (fold (promote_one now) ps s) = hv_local s"
  "hv_config (fold (promote_one now) ps s) = hv_config s"
  "hv_prev_active_target (fold (promote_one now) ps s) = hv_prev_active_target s"
  "hv_prev_passive_max (fold (promote_one now) ps s) = hv_prev_passive_max s"
  "hv_swim (fold (promote_one now) ps s) = fold (mark_alive now) ps (hv_swim s)"
  by (induction ps arbitrary: s) (auto simp: promote_one_def)

lemma promote_connected_eq:
  assumes "order_ok env" "finite (hv_passive s)"
  obtains ps where "promote_connected env now n c s = fold (promote_one now) ps s" "distinct ps"
    "set ps \<subseteq> hv_passive s \<inter> c" "length ps = min (n - card (hv_active s)) (card (hv_passive s \<inter> c))"
proof -
  let ?cand = "filter (\<lambda>p. p \<in> c) (ev_order env (hv_passive s))"
  have cand: "distinct ?cand" "set ?cand = hv_passive s \<inter> c"
    using order_okD [OF assms] by auto
  have len: "length ?cand = card (hv_passive s \<inter> c)"
    using distinct_card [OF cand(1)] unfolding cand(2) by simp
  show thesis
  proof (cases "card (hv_active s) < n \<and> hv_passive s \<noteq> {}")
    case True
    let ?ps = "take (n - card (hv_active s)) ?cand"
    have "set ?ps \<subseteq> hv_passive s \<inter> c" using cand(2) set_take_subset [of _ ?cand] by blast
    then show thesis using True cand(1) len
      by (intro that [of ?ps]) (simp_all add: promote_connected_def min.commute del: set_filter)
  next
    case False
    then show thesis using len by (intro that [of "[]"]) (auto simp: promote_connected_def)
  qed
qed

lemma fold_demote_one:
  "hv_active (fold (demote_one n) ps s) = hv_active s - set ps"
  "hv_local (fold (demote_one n) ps s) = hv_local s"
  "hv_config (fold (demote_one n) ps s) = hv_config s"
  "hv_swim (fold (demote_one n) ps s) = hv_swim s"
  "hv_prev_active_target (fold (demote_one n) ps s) = hv_prev_active_target s"
  "hv_prev_passive_max (fold (demote_one n) ps s) = hv_prev_passive_max s"
  by (induction ps arbitrary: s) (auto simp: demote_one_def Let_def)

lemma fold_demote_passive:
  "hv_passive (fold (demote_one n) ps s) \<subseteq> hv_passive s \<union> set ps"
  "finite (hv_passive s) \<Longrightarrow> finite (hv_passive (fold (demote_one n) ps s))"
proof (induction ps arbitrary: s)
  case (Cons p ps)
  { case 1 show ?case using Cons.IH(1) [of "demote_one n p s"] by (auto simp: demote_one_def Let_def split: if_splits) }
  { case 2 then show ?case using Cons.IH(2) [of "demote_one n p s"] by (auto simp: demote_one_def Let_def split: if_splits) }
qed auto

lemma trim_passive_fields:
  assumes "order_ok env" "finite (hv_passive s)"
  shows "hv_passive (trim_passive env n s) \<subseteq> hv_passive s"
    and "card (hv_passive (trim_passive env n s)) \<le> n"
    and "hv_active (trim_passive env n s) = hv_active s" "hv_swim (trim_passive env n s) = hv_swim s"
    and "hv_config (trim_passive env n s) = hv_config s" "hv_local (trim_passive env n s) = hv_local s"
    and "hv_prev_active_target (trim_passive env n s) = hv_prev_active_target s"
    and "hv_prev_passive_max (trim_passive env n s) = hv_prev_passive_max s"
proof -
  let ?cut = "take (card (hv_passive s) - n) (ev_order env (hv_passive s))"
  have o: "distinct (ev_order env (hv_passive s))" "set (ev_order env (hv_passive s)) = hv_passive s"
    using order_okD [OF assms] by auto
  have "set ?cut \<subseteq> hv_passive s" using o(2) set_take_subset by metis
  moreover have "card (set ?cut) = min (card (hv_passive s)) (card (hv_passive s) - n)"
    using distinct_card [of ?cut] o distinct_card [OF o(1)] by simp
  ultimately show "card (hv_passive (trim_passive env n s)) \<le> n"
    using card_Diff_subset [of "set ?cut" "hv_passive s"] by (auto simp: trim_passive_def)
qed (auto simp: trim_passive_def)

text \<open>What a state looks like between the stages of a tick.\<close>

definition reconciled :: "PeerId set \<Rightarrow> HyParViewMembership \<Rightarrow> bool" where
  "reconciled c s \<longleftrightarrow> finite (hv_active s) \<and> finite (hv_passive s) \<and> hv_active s \<subseteq> c \<and>
     hv_active s \<inter> hv_passive s = {} \<and> hv_local s \<notin> hv_passive s \<and>
     (\<forall>p. get_state (hv_swim s) p \<noteq> None \<longrightarrow> p \<in> c)"

lemma reconcile_reconciled:
  assumes "finite (hv_active s)" "finite (hv_passive s)"
  shows "reconciled c (reconcile c s)"
  using assms by (auto simp: reconciled_def reconcile_fields split: if_splits)

lemma promote_reconciled:
  fixes now :: instant
  assumes "order_ok env" "reconciled c s" "n \<le> mc_max_active_degree (hv_config s)"
  defines "s' \<equiv> promote_connected env now n c s"
  shows "reconciled c s'" "min n (card (hv_active s) + card (hv_passive s \<inter> c)) \<le> card (hv_active s')"
    "card (hv_active s') \<le> max (card (hv_active s)) n"
    "hv_config s' = hv_config s" "hv_local s' = hv_local s"
    "hv_prev_active_target s' = hv_prev_active_target s" "hv_prev_passive_max s' = hv_prev_passive_max s"
    "\<And>p. p \<in> hv_active s' - hv_active s \<Longrightarrow> get_state (hv_swim s') p = Some Alive"
    "n \<le> card (hv_active s) \<Longrightarrow> s' = s"
proof -
  have fin: "finite (hv_passive s)" using assms(2) by (simp add: reconciled_def)
  obtain ps where ps: "s' = fold (promote_one now) ps s" "distinct ps" "set ps \<subseteq> hv_passive s \<inter> c"
    "length ps = min (n - card (hv_active s)) (card (hv_passive s \<inter> c))"
    unfolding s'_def using promote_connected_eq [OF assms(1) fin] by metis
  have disj: "hv_active s \<inter> set ps = {}" using ps(3) assms(2) by (auto simp: reconciled_def)
  have card: "card (hv_active s') = card (hv_active s) + length ps"
    using disj assms(2) distinct_card [OF ps(2)]
    by (simp add: ps(1) fold_promote_one card_Un_disjoint reconciled_def)
  show "reconciled c s'" using assms(2) ps(3)
    by (auto simp: reconciled_def ps(1) fold_promote_one swim.alive_all split: if_splits)
  show "min n (card (hv_active s) + card (hv_passive s \<inter> c)) \<le> card (hv_active s')"
    "card (hv_active s') \<le> max (card (hv_active s)) n"
    using card ps(4) by auto
  show "p \<in> hv_active s' - hv_active s \<Longrightarrow> get_state (hv_swim s') p = Some Alive" for p
    by (auto simp: ps(1) fold_promote_one swim.alive_all)
  show "n \<le> card (hv_active s) \<Longrightarrow> s' = s" by (simp add: s'_def promote_connected_def)
qed (simp_all add: s'_def promote_connected_def fold_promote_one)

lemma demote_reconciled:
  fixes sp :: nat
  assumes "order_ok env" "reconciled c s" "hv_local s \<notin> c" "n = card (hv_active s) \<or> n \<le> mc_max_active_degree (hv_config s)"
  defines "s' \<equiv> demote_excess env n sp s"
  shows "reconciled c s'"
    "card (hv_active s') = (if n \<le> mc_max_active_degree (hv_config s) then card (hv_active s)
       else mc_max_active_degree (hv_config s))"
    "hv_config s' = hv_config s" "hv_local s' = hv_local s" "hv_swim s' = hv_swim s"
    "hv_prev_active_target s' = hv_prev_active_target s" "hv_prev_passive_max s' = hv_prev_passive_max s"
    "hv_active s' \<subseteq> hv_active s"
proof -
  let ?ps = "take (n - mc_max_active_degree (hv_config s)) (ev_order env (hv_active s))"
  have fin: "finite (hv_active s)" "finite (hv_passive s)" using assms(2) by (auto simp: reconciled_def)
  have o: "distinct (ev_order env (hv_active s))" "set (ev_order env (hv_active s)) = hv_active s"
    using order_okD [OF assms(1) fin(1)] by auto
  have sub: "set ?ps \<subseteq> hv_active s" using o(2) set_take_subset by metis
  have "reconciled c (fold (demote_one sp) ?ps s)"
    using assms(2,3) fold_demote_passive [where n = sp and ps = ?ps and s = s] sub fin
    by (auto simp: reconciled_def fold_demote_one)
  with assms(2) show "reconciled c s'" by (simp add: s'_def demote_excess_def)
  have len: "length (ev_order env (hv_active s)) = card (hv_active s)" using distinct_card [OF o(1)] o(2) by simp
  have "card (set ?ps) = min (card (hv_active s)) (n - mc_max_active_degree (hv_config s))"
    using distinct_card [of ?ps] o(1) len by simp
  then have "card (hv_active s - set ?ps) = card (hv_active s) - min (card (hv_active s)) (n - mc_max_active_degree (hv_config s))"
    using card_Diff_subset [OF _ sub] by simp
  then show "card (hv_active s') = (if n \<le> mc_max_active_degree (hv_config s) then card (hv_active s)
       else mc_max_active_degree (hv_config s))"
    using assms(4) by (auto simp: s'_def demote_excess_def fold_demote_one)
qed (auto simp: s'_def demote_excess_def fold_demote_one)

lemma maintain_views_post:
  fixes now :: instant and sp :: nat
  assumes "order_ok env" "finite (hv_active s)" "finite (hv_passive s)" "hv_local s \<notin> c"
    and "sa \<le> mc_max_active_degree (hv_config s)"
  defines "s' \<equiv> maintain_views env now sa sp c s"
  shows "reconciled c s'" "card (hv_active s') \<le> mc_max_active_degree (hv_config s)"
    "card (hv_passive s') \<le> sp"
    "min sa (card (hv_active s \<inter> c) + card ((hv_passive s - {hv_local s} - hv_active s) \<inter> c)) \<le> card (hv_active s')"
    "hv_config s' = hv_config s" "hv_local s' = hv_local s"
    "hv_prev_active_target s' = hv_prev_active_target s" "hv_prev_passive_max s' = hv_prev_passive_max s"
    "\<And>p. p \<in> hv_active s' - hv_active s \<Longrightarrow> get_state (hv_swim s') p = Some Alive"
proof -
  let ?m = "mc_max_active_degree (hv_config s)"
  define s1 where "s1 = reconcile c s"
  define s2 where "s2 = promote_connected env now sa c s1"
  define s3 where "s3 = demote_excess env (card (hv_active s1)) sp s2"
  have s': "s' = trim_passive env sp s3"
    by (simp add: s'_def maintain_views_def Let_def s1_def s2_def s3_def)
  have r1: "reconciled c s1" unfolding s1_def by (rule reconcile_reconciled [OF assms(2,3)])
  have f1: "hv_config s1 = hv_config s" "hv_local s1 = hv_local s" "hv_active s1 = hv_active s \<inter> c"
    by (simp_all add: s1_def reconcile_fields)
  note p = promote_reconciled [OF assms(1) r1, where n = sa and now = now, folded s2_def, unfolded f1(1), OF assms(5)]
  have "card (hv_active s1) = card (hv_active s2) \<or> card (hv_active s1) \<le> mc_max_active_degree (hv_config s2)"
  proof (cases "sa \<le> card (hv_active s1)")
    case True
    then show ?thesis using p(9) by simp
  next
    case False
    then show ?thesis using assms(5) p(4) f1(1) by simp
  qed
  note d = demote_reconciled [OF assms(1) p(1) _ this, where sp = sp, folded s3_def]
  have c2: "hv_local s2 \<notin> c" using assms(4) p(5) f1(2) by simp
  note d = d [OF c2]
  have fin3: "finite (hv_passive s3)" using d(1) by (simp add: reconciled_def)
  note t = trim_passive_fields [OF assms(1) fin3, where n = sp, folded s']
  show "reconciled c s'" using d(1) t by (auto simp: reconciled_def intro: finite_subset)
  show "card (hv_passive s') \<le> sp" by (rule t(2))
  have P: "hv_passive s1 \<inter> c = (hv_passive s - {hv_local s} - hv_active s) \<inter> c"
    by (auto simp: s1_def reconcile_fields)
  show "card (hv_active s') \<le> ?m"
    using d(2) t(3) p(3,4) f1(1) assms(5) p(9) by (auto split: if_splits)
  show "min sa (card (hv_active s \<inter> c) + card ((hv_passive s - {hv_local s} - hv_active s) \<inter> c)) \<le> card (hv_active s')"
    using d(2) t(3) p(2,4) f1 assms(5) unfolding P by (auto split: if_splits)
  show "p \<in> hv_active s' - hv_active s \<Longrightarrow> get_state (hv_swim s') p = Some Alive" for p
    using d(5,8) t(3,4) p(8) f1(3) by auto
  show "hv_config s' = hv_config s" "hv_local s' = hv_local s"
    "hv_prev_active_target s' = hv_prev_active_target s" "hv_prev_passive_max s' = hv_prev_passive_max s"
    using t(5-8) d(3,4,6,7) p(4-7) f1 by (simp_all add: s1_def reconcile_fields)
qed

subsection \<open>Runs of the membership layer\<close>

inductive hv_step :: "HyParViewMembership \<Rightarrow> HyParViewMembership \<Rightarrow> bool" where
  hv_dispatch: "order_ok env \<Longrightarrow> hv_step s (fst (dispatch_message decode env now sender data s))"
| hv_join_send: "order_ok env \<Longrightarrow> hv_step s (fst (snd (join_send env addr peer now (s, out))))"
| hv_add: "order_ok env \<Longrightarrow> hv_step s (add_active env now peer s)"
| hv_remove: "hv_step s (remove_active now peer s)"
| hv_promote: "order_ok env \<Longrightarrow> hv_step s (promote env now peer s)"
| hv_passive: "hv_step s (add_to_passive peer s)"
| hv_swim_task: "hv_step s (s\<lparr>hv_swim := sw\<rparr>)"
| hv_tick: "order_ok env \<Longrightarrow> hv_local s \<notin> connected \<Longrightarrow>
    maintenance_tick ln_degree env now connected s = Some s' \<Longrightarrow> hv_step s s'"

definition hv_inv :: "HyParViewMembership \<Rightarrow> bool" where
  "hv_inv s \<longleftrightarrow> config_ok (hv_config s) \<and> views_ok s \<and>
     mc_active_degree (hv_config s) \<le> hv_prev_active_target s \<and>
     hv_prev_active_target s \<le> mc_max_active_degree (hv_config s) \<and>
     hv_prev_passive_max s \<le> mc_max_passive_degree (hv_config s)"

lemma hv_inv_keeps: "keeps_views s s' \<Longrightarrow> hv_inv s \<Longrightarrow> hv_inv s'"
  by (auto simp: keeps_views_def same_frame_def hv_inv_def)

lemma hv_inv_new: "config_ok c \<Longrightarrow> hv_inv (hv_new p c)"
  by (simp add: hv_inv_def hv_new_def views_ok_def config_ok_def)

lemma tick_eq:
  assumes "hv_inv s"
  obtains sa sp where
    "maintenance_tick ln_degree env now c s = Some
       (let s2 = maintain_views env now sa sp c (s\<lparr>hv_prev_active_target := sa, hv_prev_passive_max := sp\<rparr>)
        in s2\<lparr>hv_seen := map_retain (\<lambda>_ t. now - t < 300000) (hv_seen s2)\<rparr>)"
    "mc_active_degree (hv_config s) \<le> sa" "sa \<le> mc_max_active_degree (hv_config s)"
    "sp \<le> mc_max_passive_degree (hv_config s)"
    "sa \<le> hv_prev_active_target s + 2" "hv_prev_active_target s \<le> sa + 2"
proof -
  have ok: "config_ok (hv_config s)" using assms by (simp add: hv_inv_def)
  from adaptive_degrees_ok [OF ok, of ln_degree env now] obtain a p where
    ap: "calculate_adaptive_degrees ln_degree env now s = Some (a, p)"
      "mc_active_degree (hv_config s) \<le> a" "a \<le> mc_max_active_degree (hv_config s)"
      "p \<le> mc_max_passive_degree (hv_config s)" .
  let ?sa = "smooth (hv_prev_active_target s) a" and ?sp = "smooth (hv_prev_passive_max s) p"
  have "mc_active_degree (hv_config s) \<le> ?sa \<and> ?sa \<le> mc_max_active_degree (hv_config s)"
    using assms ap by (intro smooth_bounds) (auto simp: hv_inv_def)
  moreover have "?sp \<le> mc_max_passive_degree (hv_config s)"
    using assms ap(4) by (auto simp: smooth_def hv_inv_def)
  moreover have "?sa \<le> hv_prev_active_target s + 2" "hv_prev_active_target s \<le> ?sa + 2"
    by (auto simp: smooth_def)
  ultimately show thesis using ap(1)
    by (intro that [of ?sa ?sp]) (simp_all add: maintenance_tick_def Let_def)
qed

lemma tick_post:
  assumes "hv_inv s" "order_ok env" "hv_local s \<notin> c" "maintenance_tick ln_degree env now c s = Some s'"
  shows "hv_inv s'" "reconciled c s'" "hv_local s' = hv_local s"
    "min (hv_prev_active_target s') (card (hv_active s \<inter> c) + card ((hv_passive s - {hv_local s} - hv_active s) \<inter> c))
       \<le> card (hv_active s')"
    "\<And>p. p \<in> hv_active s' - hv_active s \<Longrightarrow> get_state (hv_swim s') p = Some Alive"
    "hv_prev_active_target s' \<le> hv_prev_active_target s + 2 \<and> hv_prev_active_target s \<le> hv_prev_active_target s' + 2"
proof -
  from tick_eq [OF assms(1), of ln_degree env now c] obtain sa sp where tick:
    "maintenance_tick ln_degree env now c s = Some
       (let s2 = maintain_views env now sa sp c (s\<lparr>hv_prev_active_target := sa, hv_prev_passive_max := sp\<rparr>)
        in s2\<lparr>hv_seen := map_retain (\<lambda>_ t. now - t < 300000) (hv_seen s2)\<rparr>)"
    "mc_active_degree (hv_config s) \<le> sa" "sa \<le> mc_max_active_degree (hv_config s)"
    "sp \<le> mc_max_passive_degree (hv_config s)"
    "sa \<le> hv_prev_active_target s + 2" "hv_prev_active_target s \<le> sa + 2" .
  let ?s = "s\<lparr>hv_prev_active_target := sa, hv_prev_passive_max := sp\<rparr>"
  define m where "m = maintain_views env now sa sp c ?s"
  have fin: "finite (hv_active ?s)" "finite (hv_passive ?s)" "hv_local ?s \<notin> c"
      "sa \<le> mc_max_active_degree (hv_config ?s)"
    using assms(1,3) tick(3) by (auto simp: hv_inv_def views_ok_def)
  note post = maintain_views_post [OF assms(2) fin, where now = now and sp = sp, folded m_def]
  have s': "s' = m\<lparr>hv_seen := map_retain (\<lambda>_ t. now - t < 300000) (hv_seen m)\<rparr>"
    using assms(4) tick(1) by (simp add: Let_def m_def)
  show "reconciled c s'" using post(1) by (simp add: reconciled_def s')
  show "hv_inv s'" using post(1,2,3,5,7,8) assms(1) tick(2-4)
    by (auto simp: hv_inv_def views_ok_def reconciled_def s')
  show "hv_local s' = hv_local s" using post(6) by (simp add: s')
  show "min (hv_prev_active_target s') (card (hv_active s \<inter> c) + card ((hv_passive s - {hv_local s} - hv_active s) \<inter> c))
       \<le> card (hv_active s')" using post(4,7) by (simp add: s')
  show "p \<in> hv_active s' - hv_active s \<Longrightarrow> get_state (hv_swim s') p = Some Alive" for p
    using post(9) by (simp add: s')
  show "hv_prev_active_target s' \<le> hv_prev_active_target s + 2 \<and> hv_prev_active_target s \<le> hv_prev_active_target s' + 2"
    using post(7) tick(5,6) by (simp add: s')
qed

lemma join_send_keeps: "order_ok env \<Longrightarrow> keeps_views s (fst (snd (join_send env addr peer now (s, out))))"
  using keeps_views_trans [OF keeps_views_other(3) commit_active_keeps]
  by (auto simp: join_send_def Let_def case_prod_beta add_active_def)

lemma hv_inv_step: "hv_step s s' \<Longrightarrow> hv_inv s \<Longrightarrow> hv_inv s'"
proof (induction rule: hv_step.induct)
  case (hv_tick env s connected ln_degree now s')
  then show ?case using tick_post(1) by blast
qed (auto intro: hv_inv_keeps dispatch_message_keeps join_send_keeps commit_active_keeps
      remove_active_keeps promote_keeps add_to_passive_keeps keeps_views_other(1) simp: add_active_def)

lemma hv_inv_steps: "hv_step\<^sup>*\<^sup>* (hv_new p c) s \<Longrightarrow> config_ok c \<Longrightarrow> hv_inv s"
  by (induction rule: rtranclp_induct) (auto intro: hv_inv_new hv_inv_step)

subsection \<open>Properties\<close>

text \<open>
  C21: In every run (messages of any sender and content, joins, API calls, SWIM tasks and
  maintenance ticks, with any iteration orders) the active view never exceeds
  \<open>max_active_degree\<close> and the passive view never exceeds \<open>max_passive_degree\<close>, and a
  maintenance tick never panics, provided the configured degrees are ordered.
\<close>

theorem views_stay_bounded:
  assumes "hv_step\<^sup>*\<^sup>* (hv_new p c) s" "config_ok c"
  shows "card (hv_active s) \<le> mc_max_active_degree (hv_config s) \<and>
    card (hv_passive s) \<le> mc_max_passive_degree (hv_config s) \<and>
    maintenance_tick ln_degree env now connected s \<noteq> None"
proof -
  have inv: "hv_inv s" by (rule hv_inv_steps [OF assms])
  obtain t where "maintenance_tick ln_degree env now connected s = Some t"
    using tick_eq [OF inv, of ln_degree env now connected] by blast
  with inv show ?thesis by (simp add: hv_inv_def views_ok_def)
qed

theorem views_stay_bounded_witness:
  "hv_step\<^sup>*\<^sup>* (hv_new (PeerId [0]) config_default) (add_to_passive (PeerId [1]) (hv_new (PeerId [0]) config_default)) \<and>
   card (hv_passive (add_to_passive (PeerId [1]) (hv_new (PeerId [0]) config_default))) \<le> 128"
proof -
  let ?s = "add_to_passive (PeerId [1]) (hv_new (PeerId [0]) config_default)"
  have run: "hv_step\<^sup>*\<^sup>* (hv_new (PeerId [0]) config_default) ?s"
    by (rule r_into_rtranclp) (rule hv_passive)
  have "config_ok config_default" by (simp add: config_ok_def config_default_def)
  from views_stay_bounded [OF run this] run show ?thesis
    by (simp add: add_to_passive_def hv_new_def config_default_def)
qed

text \<open>
  C22: A maintenance tick heals the overlay: afterwards every active peer is connected, the
  two views are disjoint, the passive view does not hold the node itself, SWIM tracks
  connected peers only, peers promoted to the active view are marked alive, the active view
  is filled up to the smoothed target as far as connected candidates allow, and that target
  moved by at most two.
\<close>

theorem maintenance_heals:
  assumes "hv_step\<^sup>*\<^sup>* (hv_new p c) s" "config_ok c" "order_ok env" "hv_local s \<notin> connected"
    and "maintenance_tick ln_degree env now connected s = Some s'"
  shows "hv_active s' \<subseteq> connected \<and> hv_active s' \<inter> hv_passive s' = {} \<and> hv_local s' \<notin> hv_passive s' \<and>
    (\<forall>q. get_state (hv_swim s') q \<noteq> None \<longrightarrow> q \<in> connected) \<and>
    (\<forall>q \<in> hv_active s' - hv_active s. get_state (hv_swim s') q = Some Alive) \<and>
    min (hv_prev_active_target s')
      (card (hv_active s \<inter> connected) + card ((hv_passive s - {hv_local s} - hv_active s) \<inter> connected))
      \<le> card (hv_active s') \<and>
    hv_prev_active_target s' \<le> hv_prev_active_target s + 2 \<and>
    hv_prev_active_target s \<le> hv_prev_active_target s' + 2"
  using tick_post [OF hv_inv_steps [OF assms(1,2)] assms(3-5)] by (auto simp: reconciled_def)

definition sorted_env :: hv_env where
  "sorted_env = \<lparr>ev_swim = \<lparr>ser_ok = \<lambda>_. True, send_ok = \<lambda>_ _. True\<rparr>, ev_ser = \<lambda>_. True, ev_send = \<lambda>_ _. True,
     ev_order = sorted_list_of_set, ev_indirect_order = []\<rparr>"

lemma sorted_env_ok [simp]: "order_ok sorted_env"
  by (simp add: order_ok_def sorted_env_def iterates_set_def)

lemma config_default_ok [simp]: "config_ok config_default"
  by (simp add: config_ok_def config_default_def)

theorem maintenance_heals_witness:
  "\<exists>s'. maintenance_tick (\<lambda>n. n) sorted_env 0 {PeerId [1]}
       (add_to_passive (PeerId [1]) (hv_new (PeerId [0]) config_default)) = Some s' \<and> hv_active s' \<subseteq> {PeerId [1]}"
proof -
  let ?s = "add_to_passive (PeerId [1]) (hv_new (PeerId [0]) config_default)"
  have run: "hv_step\<^sup>*\<^sup>* (hv_new (PeerId [0]) config_default) ?s"
    by (rule r_into_rtranclp) (rule hv_passive)
  have "hv_local ?s \<notin> {PeerId [1]}" by (simp add: hv_new_def)
  moreover obtain s' where "maintenance_tick (\<lambda>n. n) sorted_env 0 {PeerId [1]} ?s = Some s'"
    using tick_eq [OF hv_inv_steps [OF run config_default_ok]] by metis
  ultimately show ?thesis using maintenance_heals [OF run config_default_ok sorted_env_ok] by blast
qed

text \<open>
  A commit of a new active peer takes effect exactly once, within eight busy rounds or
  the final ordered wait, whatever the other tasks do to the locks and to the state between
  the rounds; the peer it demotes is chosen in the very state it changes.
\<close>

theorem commit_is_atomic:
  "\<exists>r \<le> COMMIT_TRY_ROUNDS. commit_rounds env now peer free st COMMIT_TRY_ROUNDS None =
     (r, commit_active env now peer (st r))"
proof -
  have "\<exists>r' \<le> r. commit_rounds env now peer free st r w = (r', commit_active env now peer (st r'))" for r w
    by (induction r arbitrary: w) (auto simp: Let_def commit_active_def intro: le_SucI)
  then show ?thesis by blast
qed

fun walk_ttl :: "HyParViewMessage \<Rightarrow> nat option" where
  "walk_ttl (Join _ ttl) = Some ttl"
| "walk_ttl (ForwardJoin _ _ ttl) = Some ttl"
| "walk_ttl (Shuffle _ _ ttl) = Some ttl"
| "walk_ttl _ = None"

lemma send_out: "(q, m) \<in> set (fst (send_hyparview_message env p msg)) \<Longrightarrow> q = p \<and> m = HyParView msg"
  by (auto simp: send_hyparview_message_def split: if_splits)

text \<open>
  Random walks end. Whatever message is handled, a JOIN, FORWARDJOIN or SHUFFLE it sends
  on carries exactly one hop less than the one received, so a walk of length \<open>ttl\<close> makes at
  most \<open>ttl\<close> hops and nothing is forwarded at zero.
\<close>

theorem walks_end:
  assumes "(q, HyParView m') \<in> set (fst (snd (dispatch_hyparview env now sender m s)))" "walk_ttl m' = Some t'"
  shows "walk_ttl m = Some (t' + 1)"
  using assms
proof (cases m)
  case (Join p ttl)
  then show ?thesis using assms
    by (auto simp: handle_join_def Let_def dest!: send_out split: if_splits)
next
  case (ForwardJoin p q ttl)
  then show ?thesis using assms
    by (auto simp: handle_forward_join_def Let_def case_prod_beta dest!: send_out
        split: if_splits option.splits)
next
  case (Shuffle p ps ttl)
  then show ?thesis using assms
    by (auto simp: handle_shuffle_def Let_def case_prod_beta dest!: send_out
        split: if_splits option.splits)
qed (auto simp: handle_neighbor_def Let_def dest!: send_out)

theorem walks_end_witness:
  "(PeerId [2], HyParView (ForwardJoin (PeerId [0]) (PeerId [1]) 5)) \<in>
     set (fst (snd (dispatch_hyparview sorted_env 0 (PeerId [1]) (Join (PeerId [1]) 6)
       ((hv_new (PeerId [0]) config_default)\<lparr>hv_active := {PeerId [2]}\<rparr>)))) \<and>
   walk_ttl (Join (PeerId [1]) 6) = Some (5 + 1)"
proof -
  let ?s = "(hv_new (PeerId [0]) config_default)\<lparr>hv_active := {PeerId [2]}\<rparr>"
  let ?m = "HyParView (ForwardJoin (PeerId [0]) (PeerId [1]) 5)"
  have "(PeerId [2], ?m) \<in> set (fst (snd (dispatch_hyparview sorted_env 0 (PeerId [1]) (Join (PeerId [1]) 6) ?s)))"
    by (simp add: handle_join_def Let_def add_active_def commit_active_def demotion_def apply_commit_def
        see_def hv_new_def config_default_def send_hyparview_message_def sorted_env_def)
  moreover from walks_end [OF this] have "walk_ttl (Join (PeerId [1]) 6) = Some (5 + 1)" by simp
  ultimately show ?thesis by blast
qed

text \<open>
  Between maintenance ticks the views need not be disjoint: a peer that sends JOIN while
  it is in the passive view is afterwards in both, and a node that is sent a JOIN with its own
  id puts itself into its active view.
\<close>

theorem join_can_duplicate_peer:
  assumes "p \<in> hv_passive s"
  shows "p \<in> hv_active (fst (handle_join env now p ttl s)) \<and> p \<in> hv_passive (fst (handle_join env now p ttl s)) \<and>
    hv_local t \<in> hv_active (fst (handle_join env now (hv_local t) ttl t))"
  using assms by (auto simp: handle_join_def Let_def add_active_def commit_active_def apply_commit_def
      see_def split: option.split)

theorem join_can_duplicate_peer_witness:
  "let s = add_to_passive (PeerId [1]) (hv_new (PeerId [0]) config_default)
   in PeerId [1] \<in> hv_active (fst (handle_join sorted_env 0 (PeerId [1]) 6 s)) \<inter>
        hv_passive (fst (handle_join sorted_env 0 (PeerId [1]) 6 s))"
proof -
  have "PeerId [1] \<in> hv_passive (add_to_passive (PeerId [1]) (hv_new (PeerId [0]) config_default))"
    by (simp add: add_to_passive_def hv_new_def config_default_def)
  from join_can_duplicate_peer [OF this] show ?thesis by (simp add: Let_def)
qed

text \<open>
  With an active degree above the default maximum of 12 the constructor \<open>with_degrees\<close>
  builds a node whose first maintenance tick panics in \<open>clamp\<close>, so its views are never healed.
\<close>

theorem with_degrees_panics:
  assumes "12 < active_degree"
  shows "maintenance_tick ln_degree env now connected (with_degrees p active_degree passive_degree) = None"
  using assms by (simp add: maintenance_tick_def calculate_adaptive_degrees_def with_degrees_def
      hv_new_def config_default_def clamp_def Let_def)

theorem with_degrees_panics_witness:
  "maintenance_tick (\<lambda>n. n) sorted_env 0 {} (with_degrees (PeerId [0]) 16 128) = None"
  by (rule with_degrees_panics) simp

end
