(* ===== verification/Admission.thy ===== *)
theory Admission
  imports Gossip_Types
begin

text \<open>
  Admission control of \<open>crates/pubsub/src/admission.rs\<close>, with the callers in
  \<open>crates/pubsub/src/lib.rs\<close> that filter a peer list through it and release the reserved Bulk
  depth. The lookups the callers make (SWIM health, cooling, transport connectivity) are
  arguments; relaxed atomic counters are counters of one thread, since each is only added to.
\<close>

record AdmissionStats =
  admitted_critical :: nat
  admitted_normal :: nat
  admitted_bulk :: nat
  dropped_bulk_peer_dead :: nat
  dropped_bulk_peer_suspect :: nat
  dropped_bulk_peer_cooled :: nat
  dropped_bulk_backpressure :: nat
  dropped_normal_peer_dead :: nat
  dropped_normal_peer_suspect :: nat
  dropped_critical_hard_error :: nat
  dropped_critical_cooling :: nat
  dropped_critical_no_target :: nat

record AdmissionConfig =
  per_peer_bulk_slack_threshold :: nat
  per_peer_critical_queue_cap :: nat

record AdmissionControl =
  ac_registry :: "TopicId \<rightharpoonup> TopicPriority"
  ac_config :: AdmissionConfig
  ac_stats :: AdmissionStats
  ac_per_peer :: "PeerId \<rightharpoonup> nat"

definition stats_zero :: AdmissionStats where
  "stats_zero = \<lparr>admitted_critical = 0, admitted_normal = 0, admitted_bulk = 0,
     dropped_bulk_peer_dead = 0, dropped_bulk_peer_suspect = 0, dropped_bulk_peer_cooled = 0,
     dropped_bulk_backpressure = 0, dropped_normal_peer_dead = 0, dropped_normal_peer_suspect = 0,
     dropped_critical_hard_error = 0, dropped_critical_cooling = 0, dropped_critical_no_target = 0\<rparr>"

definition admission_config_default :: AdmissionConfig where
  "admission_config_default = \<lparr>per_peer_bulk_slack_threshold = 64, per_peer_critical_queue_cap = 256\<rparr>"

definition admission_new :: AdmissionControl where
  "admission_new = \<lparr>ac_registry = Map.empty, ac_config = admission_config_default,
     ac_stats = stats_zero, ac_per_peer = Map.empty\<rparr>"

definition register :: "TopicId \<Rightarrow> TopicPriority \<Rightarrow> AdmissionControl \<Rightarrow> AdmissionControl" where
  "register topic priority ac = ac\<lparr>ac_registry := (ac_registry ac)(topic \<mapsto> priority)\<rparr>"

definition priority_for :: "AdmissionControl \<Rightarrow> TopicId \<Rightarrow> TopicPriority" where
  "priority_for ac topic = get_or default_priority (ac_registry ac) topic"

fun record_admit :: "TopicPriority \<Rightarrow> AdmissionStats \<Rightarrow> AdmissionStats" where
  "record_admit Critical st = st\<lparr>admitted_critical := u64_add (admitted_critical st) 1\<rparr>"
| "record_admit Normal st = st\<lparr>admitted_normal := u64_add (admitted_normal st) 1\<rparr>"
| "record_admit Bulk st = st\<lparr>admitted_bulk := u64_add (admitted_bulk st) 1\<rparr>"

fun record_drop :: "TopicPriority \<Rightarrow> AdmissionDropReason \<Rightarrow> AdmissionStats \<Rightarrow> AdmissionStats" where
  "record_drop Critical _ st = st\<lparr>dropped_critical_hard_error := u64_add (dropped_critical_hard_error st) 1\<rparr>"
| "record_drop Normal PeerDead st = st\<lparr>dropped_normal_peer_dead := u64_add (dropped_normal_peer_dead st) 1\<rparr>"
| "record_drop Normal PeerSuspect st = st\<lparr>dropped_normal_peer_suspect := u64_add (dropped_normal_peer_suspect st) 1\<rparr>"
| "record_drop Bulk PeerDead st = st\<lparr>dropped_bulk_peer_dead := u64_add (dropped_bulk_peer_dead st) 1\<rparr>"
| "record_drop Bulk PeerSuspect st = st\<lparr>dropped_bulk_peer_suspect := u64_add (dropped_bulk_peer_suspect st) 1\<rparr>"
| "record_drop Bulk PeerCooled st = st\<lparr>dropped_bulk_peer_cooled := u64_add (dropped_bulk_peer_cooled st) 1\<rparr>"
| "record_drop Bulk BulkBackpressure st = st\<lparr>dropped_bulk_backpressure := u64_add (dropped_bulk_backpressure st) 1\<rparr>"
| "record_drop Normal _ st = st\<lparr>dropped_bulk_backpressure := u64_add (dropped_bulk_backpressure st) 1\<rparr>"

definition record_critical_hard_error :: "AdmissionStats \<Rightarrow> AdmissionStats" where
  "record_critical_hard_error st = st\<lparr>dropped_critical_hard_error := u64_add (dropped_critical_hard_error st) 1\<rparr>"

definition record_critical_cooling :: "AdmissionStats \<Rightarrow> AdmissionStats" where
  "record_critical_cooling st = st\<lparr>dropped_critical_cooling := u64_add (dropped_critical_cooling st) 1\<rparr>"

definition record_critical_no_target :: "AdmissionStats \<Rightarrow> AdmissionStats" where
  "record_critical_no_target st = st\<lparr>dropped_critical_no_target := u64_add (dropped_critical_no_target st) 1\<rparr>"

definition drop_with ::
  "TopicPriority \<Rightarrow> AdmissionDropReason \<Rightarrow> AdmissionControl \<Rightarrow> AdmissionDecision \<times> AdmissionControl" where
  "drop_with priority reason ac =
     (Drop reason, ac\<lparr>ac_stats := record_drop priority reason (ac_stats ac)\<rparr>)"

definition admit_with :: "TopicPriority \<Rightarrow> AdmissionControl \<Rightarrow> AdmissionDecision \<times> AdmissionControl" where
  "admit_with priority ac = (Admit, ac\<lparr>ac_stats := record_admit priority (ac_stats ac)\<rparr>)"

definition admit_bulk ::
  "PeerId \<Rightarrow> PeerHealth option \<Rightarrow> bool \<Rightarrow> AdmissionControl \<Rightarrow> AdmissionDecision \<times> AdmissionControl" where
  "admit_bulk peer health is_peer_cooled ac =
     (if health = Some HealthDead then drop_with Bulk PeerDead ac
      else if health = Some HealthSuspect then drop_with Bulk PeerSuspect ac
      else if is_peer_cooled then drop_with Bulk PeerCooled ac
      else let entries = map_or_insert peer 0 (ac_per_peer ac);
               depth = get_or 0 entries peer
           in if depth \<ge> per_peer_bulk_slack_threshold (ac_config ac)
              then drop_with Bulk BulkBackpressure (ac\<lparr>ac_per_peer := entries\<rparr>)
              else admit_with Bulk (ac\<lparr>ac_per_peer := entries(peer \<mapsto> u64_sat_add depth 1)\<rparr>))"

definition admit ::
  "TopicId \<Rightarrow> PeerId \<Rightarrow> PeerHealth option \<Rightarrow> bool \<Rightarrow> AdmissionControl \<Rightarrow>
   AdmissionDecision \<times> AdmissionControl" where
  "admit topic peer health is_peer_cooled ac =
     (case priority_for ac topic of
        Critical \<Rightarrow> admit_with Critical ac
      | Normal \<Rightarrow>
          if health = Some HealthDead then drop_with Normal PeerDead ac
          else if health = Some HealthSuspect then drop_with Normal PeerSuspect ac
          else admit_with Normal ac
      | Bulk \<Rightarrow> admit_bulk peer health is_peer_cooled ac)"

definition release_bulk :: "PeerId \<Rightarrow> AdmissionControl \<Rightarrow> AdmissionControl" where
  "release_bulk peer ac =
     (case ac_per_peer ac peer of
        None \<Rightarrow> ac
      | Some depth \<Rightarrow> ac\<lparr>ac_per_peer := (ac_per_peer ac)(peer \<mapsto> depth - 1)\<rparr>)"

definition per_peer_snapshot :: "AdmissionControl \<Rightarrow> PeerId \<rightharpoonup> nat \<times> nat \<times> nat" where
  "per_peer_snapshot ac = (\<lambda>peer. map_option (\<lambda>depth. (depth, 0, 0)) (ac_per_peer ac peer))"

subsection \<open>The callers\<close>

definition effective_health_for_admission ::
  "TopicPriority \<Rightarrow> PeerHealth option \<Rightarrow> bool option \<Rightarrow> PeerHealth option" where
  "effective_health_for_admission priority health transport_connected =
     (if priority = Normal \<and> (health = Some HealthSuspect \<or> health = Some HealthDead) \<and>
         transport_connected = Some True
      then None else health)"

record send_view =
  sv_connected :: "PeerId set option"
  sv_health :: "PeerId \<rightharpoonup> PeerHealth"
  sv_cooled :: "PeerId set"

text \<open>The filter of background tasks: admitted peers, and those with a Bulk reservation.\<close>

fun filter_in_state ::
  "send_view \<Rightarrow> TopicId \<Rightarrow> PeerId list \<Rightarrow> AdmissionControl \<Rightarrow> (PeerId list \<times> PeerId list) \<times> AdmissionControl" where
  "filter_in_state sv topic [] ac = (([], []), ac)"
| "filter_in_state sv topic (peer # peers) ac =
     (if (case sv_connected sv of None \<Rightarrow> False | Some c \<Rightarrow> peer \<notin> c)
      then filter_in_state sv topic peers ac
      else let (decision, ac1) = admit topic peer (sv_health sv peer) (peer \<in> sv_cooled sv) ac;
               ((admitted, bulk_admitted), ac2) = filter_in_state sv topic peers ac1
           in case decision of
                Admit \<Rightarrow> ((peer # admitted,
                           if priority_for ac topic = Bulk then peer # bulk_admitted else bulk_admitted), ac2)
              | Drop _ \<Rightarrow> ((admitted, bulk_admitted), ac2))"

text \<open>The filter of the publish path, with the transport override for Normal traffic.\<close>

fun filter_peers_through_admission ::
  "send_view \<Rightarrow> TopicId \<Rightarrow> TopicPriority \<Rightarrow> PeerId list \<Rightarrow> AdmissionControl \<Rightarrow> PeerId list \<times> AdmissionControl" where
  "filter_peers_through_admission sv topic priority [] ac = ([], ac)"
| "filter_peers_through_admission sv topic priority (peer # peers) ac =
     (let transport_connected = map_option (\<lambda>c. peer \<in> c) (sv_connected sv)
      in if transport_connected = Some False
         then filter_peers_through_admission sv topic priority peers ac
         else let health = effective_health_for_admission priority (sv_health sv peer) transport_connected;
                  (decision, ac1) = admit topic peer health (peer \<in> sv_cooled sv) ac;
                  (admitted, ac2) = filter_peers_through_admission sv topic priority peers ac1
              in (case decision of Admit \<Rightarrow> peer # admitted | Drop _ \<Rightarrow> admitted, ac2))"

definition release_bulk_admissions_free :: "PeerId list \<Rightarrow> AdmissionControl \<Rightarrow> AdmissionControl" where
  "release_bulk_admissions_free bulk_admitted ac = fold release_bulk bulk_admitted ac"

subsection \<open>Depths and counters\<close>

definition depth :: "AdmissionControl \<Rightarrow> PeerId \<Rightarrow> nat" where
  "depth ac peer = get_or 0 (ac_per_peer ac) peer"

definition decisions :: "AdmissionStats \<Rightarrow> nat" where
  "decisions st = admitted_critical st + admitted_normal st + admitted_bulk st +
     dropped_bulk_peer_dead st + dropped_bulk_peer_suspect st + dropped_bulk_peer_cooled st +
     dropped_bulk_backpressure st + dropped_normal_peer_dead st + dropped_normal_peer_suspect st"

abbreviation threshold :: "AdmissionControl \<Rightarrow> nat" where
  "threshold ac \<equiv> per_peer_bulk_slack_threshold (ac_config ac)"

lemma admit_frame [simp]:
  "ac_config (snd (admit t p h c ac)) = ac_config ac" "ac_registry (snd (admit t p h c ac)) = ac_registry ac"
  by (auto simp: admit_def admit_bulk_def drop_with_def admit_with_def Let_def split: TopicPriority.split)

lemma priority_for_admit [simp]: "priority_for (snd (admit t p h c ac)) t' = priority_for ac t'"
  by (simp add: priority_for_def)

lemma admit_decision:
  "fst (admit t p h c ac) =
     (case priority_for ac t of
        Critical \<Rightarrow> Admit
      | Normal \<Rightarrow> (case h of Some HealthDead \<Rightarrow> Drop PeerDead | Some HealthSuspect \<Rightarrow> Drop PeerSuspect | _ \<Rightarrow> Admit)
      | Bulk \<Rightarrow> (case h of Some HealthDead \<Rightarrow> Drop PeerDead | Some HealthSuspect \<Rightarrow> Drop PeerSuspect
                 | _ \<Rightarrow> if c then Drop PeerCooled
                        else if threshold ac \<le> depth ac p then Drop BulkBackpressure else Admit))"
  by (auto simp: admit_def admit_bulk_def drop_with_def admit_with_def Let_def depth_def get_or_def
      split: TopicPriority.split PeerHealth.split option.split)

lemma admit_depth:
  "depth (snd (admit t p h c ac)) q =
     (if q = p \<and> priority_for ac t = Bulk \<and> fst (admit t p h c ac) = Admit
      then u64_sat_add (depth ac p) 1 else depth ac q)"
  by (auto simp: admit_def admit_bulk_def drop_with_def admit_with_def Let_def depth_def get_or_def
      split: TopicPriority.split option.split)

lemma depth_release: "depth (release_bulk p ac) q = (if q = p then depth ac p - 1 else depth ac q)"
  by (auto simp: release_bulk_def depth_def get_or_def split: option.split)

lemma depth_release_all: "depth (release_bulk_admissions_free ps ac) q = depth ac q - count_list ps q"
proof (induction ps arbitrary: ac)
  case (Cons p ps)
  then show ?case by (auto simp: release_bulk_admissions_free_def depth_release)
qed (simp add: release_bulk_admissions_free_def)

lemma filter_in_state_frame:
  "ac_config (snd (filter_in_state sv t ps ac)) = ac_config ac"
  by (induction ps arbitrary: ac)
    (simp_all add: Let_def case_prod_beta split: AdmissionDecision.split)

lemma filter_in_state_depth:
  assumes "threshold ac \<le> u64_max"
  shows "depth (snd (filter_in_state sv t ps ac)) q =
      depth ac q + count_list (snd (fst (filter_in_state sv t ps ac))) q \<and>
    depth (snd (filter_in_state sv t ps ac)) q \<le> max (depth ac q) (threshold ac)"
  using assms
proof (induction ps arbitrary: ac)
  case (Cons p ps)
  let ?ac = "snd (admit t p (sv_health sv p) (p \<in> sv_cooled sv) ac)"
  show ?case
  proof (cases "case sv_connected sv of None \<Rightarrow> False | Some c \<Rightarrow> p \<notin> c")
    case True
    then show ?thesis using Cons.IH [OF Cons.prems] by simp
  next
    case False
    have IH: "depth (snd (filter_in_state sv t ps ?ac)) q =
        depth ?ac q + count_list (snd (fst (filter_in_state sv t ps ?ac))) q \<and>
      depth (snd (filter_in_state sv t ps ?ac)) q \<le> max (depth ?ac q) (threshold ac)"
      using Cons.IH [of ?ac] Cons.prems by simp
    have bulk: "depth ac p < threshold ac" if "priority_for ac t = Bulk"
        "fst (admit t p (sv_health sv p) (p \<in> sv_cooled sv) ac) = Admit"
      using that by (auto simp: admit_decision split: option.splits PeerHealth.splits if_splits)
    show ?thesis
    proof (cases "priority_for ac t = Bulk \<and> fst (admit t p (sv_health sv p) (p \<in> sv_cooled sv) ac) = Admit")
      case True
      then have "u64_sat_add (depth ac p) 1 = depth ac p + 1"
        using bulk Cons.prems by (intro u64_sat_add_exact) simp
      then show ?thesis using False True IH bulk
        by (auto simp: case_prod_beta Let_def admit_depth)
    next
      case notbulk: False
      then have "depth ?ac q = depth ac q" by (auto simp: admit_depth)
      then show ?thesis using False notbulk IH
        by (auto simp: case_prod_beta Let_def split: AdmissionDecision.split)
    qed
  qed
qed simp

subsection \<open>Properties\<close>

text \<open>
  The decision matrix, exactly. Critical traffic is always admitted. Normal traffic is
  refused only to dead or suspect peers. Bulk traffic is admitted exactly to peers that are
  neither dead nor suspect nor cooled and whose Bulk depth is below the threshold. Only an
  admitted Bulk message takes a unit of depth, no call records a Critical hard error, and
  every call is counted once (the counters not overflowing).
\<close>

theorem admission_matrix:
  assumes "decisions (ac_stats ac) < u64_max"
  shows "(fst (admit topic peer health cooled ac) = Admit) =
      (case priority_for ac topic of
         Critical \<Rightarrow> True
       | Normal \<Rightarrow> health \<noteq> Some HealthDead \<and> health \<noteq> Some HealthSuspect
       | Bulk \<Rightarrow> health \<noteq> Some HealthDead \<and> health \<noteq> Some HealthSuspect \<and> \<not> cooled \<and> depth ac peer < threshold ac) \<and>
    (\<forall>q. depth (snd (admit topic peer health cooled ac)) q =
       (if q = peer \<and> priority_for ac topic = Bulk \<and> fst (admit topic peer health cooled ac) = Admit
        then u64_sat_add (depth ac peer) 1 else depth ac q)) \<and>
    dropped_critical_hard_error (ac_stats (snd (admit topic peer health cooled ac))) =
      dropped_critical_hard_error (ac_stats ac) \<and>
    decisions (ac_stats (snd (admit topic peer health cooled ac))) = decisions (ac_stats ac) + 1"
proof (intro conjI)
  show "(fst (admit topic peer health cooled ac) = Admit) =
      (case priority_for ac topic of
         Critical \<Rightarrow> True
       | Normal \<Rightarrow> health \<noteq> Some HealthDead \<and> health \<noteq> Some HealthSuspect
       | Bulk \<Rightarrow> health \<noteq> Some HealthDead \<and> health \<noteq> Some HealthSuspect \<and> \<not> cooled \<and> depth ac peer < threshold ac)"
    unfolding admit_decision by (auto split: TopicPriority.split option.split PeerHealth.split)
  show "\<forall>q. depth (snd (admit topic peer health cooled ac)) q =
       (if q = peer \<and> priority_for ac topic = Bulk \<and> fst (admit topic peer health cooled ac) = Admit
        then u64_sat_add (depth ac peer) 1 else depth ac q)" by (simp add: admit_depth)
  show "dropped_critical_hard_error (ac_stats (snd (admit topic peer health cooled ac))) =
      dropped_critical_hard_error (ac_stats ac)"
    by (auto simp: admit_def admit_bulk_def drop_with_def admit_with_def Let_def split: TopicPriority.split)
  show "decisions (ac_stats (snd (admit topic peer health cooled ac))) = decisions (ac_stats ac) + 1"
    using assms by (auto simp: admit_def admit_bulk_def drop_with_def admit_with_def Let_def decisions_def
        split: TopicPriority.split)
qed

theorem admission_matrix_witness:
  "fst (admit (TopicId [1]) (PeerId [1]) None False (register (TopicId [1]) Bulk admission_new)) = Admit"
proof -
  let ?ac = "register (TopicId [1]) Bulk admission_new"
  have ac: "decisions (ac_stats ?ac) = 0" "priority_for ?ac (TopicId [1]) = Bulk" "depth ?ac (PeerId [1]) = 0"
    "threshold ?ac = 64"
    by (simp_all add: register_def admission_new_def stats_zero_def decisions_def priority_for_def
        depth_def admission_config_default_def)
  have "decisions (ac_stats ?ac) < u64_max" by (simp add: ac u64_max_eq)
  from admission_matrix [OF this, of "TopicId [1]" "PeerId [1]" None False] show ?thesis
    by (simp add: ac)
qed

text \<open>
  The Bulk depth of a peer never passes the threshold by filtering a peer list, however
  often the list names it, and releasing exactly the reported reservations once puts every
  depth back: nothing leaks.
\<close>

theorem bulk_reservations_balance:
  assumes "threshold ac \<le> u64_max" "filter_in_state sv topic peers ac = ((admitted, bulk_admitted), ac')"
  shows "depth ac' q \<le> max (depth ac q) (threshold ac) \<and>
    depth (release_bulk_admissions_free bulk_admitted ac') q = depth ac q"
  using filter_in_state_depth [OF assms(1), of sv topic peers q] assms(2) by (simp add: depth_release_all)

theorem bulk_reservations_balance_witness:
  "let sv = \<lparr>sv_connected = None, sv_health = Map.empty, sv_cooled = {}\<rparr>;
       r = filter_in_state sv (TopicId [1]) [PeerId [1], PeerId [1]] (register (TopicId [1]) Bulk admission_new)
   in depth (release_bulk_admissions_free (snd (fst r)) (snd r)) (PeerId [1]) = 0"
proof -
  let ?sv = "\<lparr>sv_connected = None, sv_health = Map.empty, sv_cooled = {}\<rparr>"
  let ?ac = "register (TopicId [1]) Bulk admission_new"
  let ?r = "filter_in_state ?sv (TopicId [1]) [PeerId [1], PeerId [1]] ?ac"
  have "threshold ?ac \<le> u64_max"
    by (simp add: register_def admission_new_def admission_config_default_def u64_max_eq)
  moreover have "?r = ((fst (fst ?r), snd (fst ?r)), snd ?r)" by simp
  ultimately have "depth (release_bulk_admissions_free (snd (fst ?r)) (snd ?r)) (PeerId [1]) = depth ?ac (PeerId [1])"
    using bulk_reservations_balance by blast
  then show ?thesis by (simp add: Let_def depth_def register_def admission_new_def)
qed

end
