(* ===== verification/Peer_Cooling.thy ===== *)
theory Peer_Cooling
  imports Admission
begin

text \<open>
  Send-side cooling of slow peers: \<open>AdaptiveCoolingConfig\<close> of \<open>crates/pubsub/src/timing.rs\<close> and,
  in \<open>crates/pubsub/src/lib.rs\<close>, \<open>PeerCoolingState\<close> and the operations of \<open>TopicState\<close> on the
  eager and lazy peers and their cooling. Durations and instants are milliseconds.

  Parameters: the floating-point decay \<open>dec\<close> of a cooldown's part above the initial
  value. The supply of recovery-probe ids is one counter of the process; the state carries it, and a step lets other topics take ids. The peer scores the operations also record and the
  diagnostic events they return beside the attempt are not part of this state: they never
  decide what the operations here do, and the maintenance of the next theory takes the
  scores as a parameter.
\<close>

definition DURATION_MAX :: duration where
  "DURATION_MAX = 2 ^ 64 * 1000 - 1"

definition checked_mul :: "duration \<Rightarrow> nat \<Rightarrow> duration option" where
  "checked_mul d n = (if d * n \<le> DURATION_MAX then Some (d * n) else None)"

definition MIN_EAGER_DEGREE :: nat where
  "MIN_EAGER_DEGREE = 6"

definition PEER_TIMEOUT_WINDOW :: duration where
  "PEER_TIMEOUT_WINDOW = 60000"

definition PEER_TIMEOUT_THRESHOLD :: nat where
  "PEER_TIMEOUT_THRESHOLD = 8"

definition PEER_SUPPRESSION_COOLDOWN :: duration where
  "PEER_SUPPRESSION_COOLDOWN = 30000"

definition PEER_SUPPRESSION_BACKOFF_MAX :: duration where
  "PEER_SUPPRESSION_BACKOFF_MAX = 300000"

definition PEER_COOLDOWN_BYPASS_MIN_INTERVAL :: duration where
  "PEER_COOLDOWN_BYPASS_MIN_INTERVAL = 5000"

subsection \<open>The cooldown schedule\<close>

record AdaptiveCoolingConfig =
  cc_initial :: duration
  cc_max :: duration
  cc_escalation_factor :: nat

definition cooling_config_default :: AdaptiveCoolingConfig where
  "cooling_config_default = \<lparr>cc_initial = 30000, cc_max = 300000, cc_escalation_factor = 2\<rparr>"

definition with_escalation_factor :: "nat \<Rightarrow> AdaptiveCoolingConfig \<Rightarrow> AdaptiveCoolingConfig" where
  "with_escalation_factor factor c = c\<lparr>cc_escalation_factor := (if factor < 1 then 1 else factor)\<rparr>"

definition escalation_factor :: "AdaptiveCoolingConfig \<Rightarrow> nat" where
  "escalation_factor c = (if cc_escalation_factor c < 1 then 1 else cc_escalation_factor c)"

definition next_cooldown :: "AdaptiveCoolingConfig \<Rightarrow> duration \<Rightarrow> duration" where
  "next_cooldown c previous =
     (if previous = 0 then min (cc_initial c) (cc_max c)
      else min (case checked_mul previous (escalation_factor c) of None \<Rightarrow> cc_max c | Some d \<Rightarrow> d) (cc_max c))"

definition decay_on_success ::
  "(duration \<Rightarrow> duration \<Rightarrow> duration) \<Rightarrow> AdaptiveCoolingConfig \<Rightarrow> duration \<Rightarrow> duration \<Rightarrow> duration" where
  "decay_on_success dec c current elapsed =
     (if current \<le> cc_initial c \<or> elapsed = 0 then max current (cc_initial c)
      else min (max (cc_initial c + dec (current - cc_initial c) elapsed) (cc_initial c)) (cc_max c))"

definition escalate_on_dead :: "AdaptiveCoolingConfig \<Rightarrow> duration \<Rightarrow> duration" where
  "escalate_on_dead c current =
     (let base = (if current = 0 then cc_initial c else current)
      in min (case checked_mul base 2 of None \<Rightarrow> cc_max c | Some d \<Rightarrow> d) (cc_max c))"

subsection \<open>The cooling of one peer\<close>

record PeerCoolingState =
  pc_timeout_window_started :: instant
  pc_timeout_count :: nat
  pc_suppressed_until :: "instant option"
  pc_cooldown :: duration
  pc_last_suppressed_at :: "instant option"
  pc_last_suppression_timeout_count :: nat
  pc_recovery_probe_in_flight :: bool
  pc_recovery_probe_id :: "nat option"
  pc_last_bypass_probe_at :: "instant option"

datatype SendAttemptKind = NormalSend | RecoveryProbe | CooldownBypass

record PeerSendAttempt =
  at_peer :: PeerId
  at_kind :: SendAttemptKind
  at_recovery_probe_id :: "nat option"

definition cooling_new :: "instant \<Rightarrow> PeerCoolingState" where
  "cooling_new now =
     \<lparr>pc_timeout_window_started = now, pc_timeout_count = 0, pc_suppressed_until = None,
      pc_cooldown = 0, pc_last_suppressed_at = None, pc_last_suppression_timeout_count = 0,
      pc_recovery_probe_in_flight = False, pc_recovery_probe_id = None, pc_last_bypass_probe_at = None\<rparr>"

definition suppression_expired_at :: "PeerCoolingState \<Rightarrow> instant \<Rightarrow> bool" where
  "suppression_expired_at c now \<longleftrightarrow> (case pc_suppressed_until c of None \<Rightarrow> False | Some t \<Rightarrow> t \<le> now)"

definition actively_suppressed_at :: "PeerCoolingState \<Rightarrow> instant \<Rightarrow> bool" where
  "actively_suppressed_at c now \<longleftrightarrow> (case pc_suppressed_until c of None \<Rightarrow> False | Some t \<Rightarrow> t > now)"

definition is_suppressed_at :: "PeerCoolingState \<Rightarrow> instant \<Rightarrow> bool" where
  "is_suppressed_at c now \<longleftrightarrow>
     actively_suppressed_at c now \<or> pc_recovery_probe_in_flight c \<or> suppression_expired_at c now"

definition can_graft_at :: "PeerCoolingState \<Rightarrow> instant \<Rightarrow> bool" where
  "can_graft_at c now \<longleftrightarrow> \<not> is_suppressed_at c now"

definition recovery_probe_due_at :: "PeerCoolingState \<Rightarrow> instant \<Rightarrow> bool" where
  "recovery_probe_due_at c now \<longleftrightarrow> suppression_expired_at c now \<and> \<not> pc_recovery_probe_in_flight c"

definition cooldown_bypass_due_at :: "PeerCoolingState \<Rightarrow> instant \<Rightarrow> bool" where
  "cooldown_bypass_due_at c now \<longleftrightarrow>
     actively_suppressed_at c now \<and> \<not> pc_recovery_probe_in_flight c \<and>
     (case pc_last_bypass_probe_at c of
        None \<Rightarrow> True | Some t \<Rightarrow> now - t \<ge> PEER_COOLDOWN_BYPASS_MIN_INTERVAL)"

definition note_cooldown_bypass_claimed_at :: "instant \<Rightarrow> PeerCoolingState \<Rightarrow> PeerCoolingState" where
  "note_cooldown_bypass_claimed_at now c = c\<lparr>pc_last_bypass_probe_at := Some now\<rparr>"

text \<open>The kind and probe id of the claimed attempt, the new state and the next probe id.\<close>

definition claim_send_attempt ::
  "nat \<Rightarrow> instant \<Rightarrow> bool \<Rightarrow> PeerCoolingState \<Rightarrow>
   ((SendAttemptKind \<times> nat option) \<times> PeerCoolingState \<times> nat) option" where
  "claim_send_attempt fresh_id now critical_data c =
     (if actively_suppressed_at c now
      then if critical_data then Some ((NormalSend, None), c, fresh_id)
           else if \<not> cooldown_bypass_due_at c now then None
           else Some ((CooldownBypass, None), c, fresh_id)
      else if suppression_expired_at c now
      then if pc_recovery_probe_in_flight c
           then (if critical_data then Some ((NormalSend, None), c, fresh_id) else None)
           else Some ((RecoveryProbe, Some fresh_id),
                      c\<lparr>pc_recovery_probe_in_flight := True, pc_recovery_probe_id := Some fresh_id\<rparr>,
                      u64_add fresh_id 1)
      else Some ((NormalSend, None), c, fresh_id))"

definition matches_recovery_probe :: "PeerCoolingState \<Rightarrow> nat option \<Rightarrow> bool" where
  "matches_recovery_probe c probe \<longleftrightarrow> pc_recovery_probe_in_flight c \<and> pc_recovery_probe_id c = probe"

definition next_legacy_cooldown :: "PeerCoolingState \<Rightarrow> duration" where
  "next_legacy_cooldown c =
     (let previous = (if pc_suppressed_until c \<noteq> None then pc_cooldown c else 0)
      in if previous = 0 then PEER_SUPPRESSION_COOLDOWN
         else (case checked_mul previous 2 of
                 Some d \<Rightarrow> min d PEER_SUPPRESSION_BACKOFF_MAX | None \<Rightarrow> PEER_SUPPRESSION_BACKOFF_MAX))"

definition suppress ::
  "instant \<Rightarrow> duration \<Rightarrow> nat \<Rightarrow> PeerCoolingState \<Rightarrow> PeerCoolingState" where
  "suppress now cooldown timeouts c =
     c\<lparr>pc_cooldown := cooldown, pc_suppressed_until := Some (now + cooldown),
       pc_last_suppressed_at := Some now, pc_last_suppression_timeout_count := timeouts,
       pc_recovery_probe_in_flight := False, pc_recovery_probe_id := None,
       pc_timeout_window_started := now, pc_timeout_count := 0\<rparr>"

subsection \<open>The peers of a topic\<close>

record MeshState =
  ms_eager :: "PeerId set"
  ms_lazy :: "PeerId set"
  ms_cooling :: "PeerId \<rightharpoonup> PeerCoolingState"
  ms_live_subscribers :: bool
  ms_configured_max_eager_degree :: nat
  ms_max_eager_degree :: nat
  ms_preferred_eager :: "PeerId list"
  ms_last_opportunistic_graft :: "instant option"
  ms_next_probe_id :: nat

definition is_peer_suppressed_at :: "MeshState \<Rightarrow> PeerId \<Rightarrow> instant \<Rightarrow> bool" where
  "is_peer_suppressed_at s peer now \<longleftrightarrow>
     (case ms_cooling s peer of None \<Rightarrow> False | Some c \<Rightarrow> is_suppressed_at c now)"

definition is_peer_cooled_for_admission_at :: "MeshState \<Rightarrow> PeerId \<Rightarrow> instant \<Rightarrow> bool" where
  "is_peer_cooled_for_admission_at s peer now \<longleftrightarrow>
     is_peer_suppressed_at s peer now \<and>
     \<not> (case ms_cooling s peer of None \<Rightarrow> False
        | Some c \<Rightarrow> recovery_probe_due_at c now \<or> cooldown_bypass_due_at c now)"

definition can_graft_peer_at :: "MeshState \<Rightarrow> PeerId \<Rightarrow> instant \<Rightarrow> bool" where
  "can_graft_peer_at s peer now \<longleftrightarrow>
     (case ms_cooling s peer of None \<Rightarrow> True | Some c \<Rightarrow> can_graft_at c now)"

definition eligible_eager_after_suppressing_at :: "MeshState \<Rightarrow> PeerId \<Rightarrow> instant \<Rightarrow> nat option" where
  "eligible_eager_after_suppressing_at s peer now =
     (if \<not> ms_live_subscribers s \<or> peer \<notin> ms_eager s then None
      else Some (card {q \<in> ms_eager s. q \<noteq> peer \<and> \<not> is_peer_suppressed_at s q now}))"

definition has_graft_eligible_lazy_peer_at :: "MeshState \<Rightarrow> instant \<Rightarrow> bool" where
  "has_graft_eligible_lazy_peer_at s now \<longleftrightarrow> (\<exists>p \<in> ms_lazy s. can_graft_peer_at s p now)"

definition cooling_floor_blocks_at :: "MeshState \<Rightarrow> PeerId \<Rightarrow> instant \<Rightarrow> bool" where
  "cooling_floor_blocks_at s peer now =
     (case eligible_eager_after_suppressing_at s peer now of
        None \<Rightarrow> False
      | Some eligible_after \<Rightarrow>
          if eligible_after = 0 then True
          else if has_graft_eligible_lazy_peer_at s now then False
          else eligible_after + 1 = min MIN_EAGER_DEGREE (ms_max_eager_degree s))"

definition cooling_floor_last_peer_blocks_at :: "MeshState \<Rightarrow> PeerId \<Rightarrow> instant \<Rightarrow> bool" where
  "cooling_floor_last_peer_blocks_at s peer now \<longleftrightarrow>
     eligible_eager_after_suppressing_at s peer now = Some 0"

definition prune_peer :: "PeerId \<Rightarrow> MeshState \<Rightarrow> bool \<times> MeshState" where
  "prune_peer peer s =
     (if peer \<in> ms_eager s
      then (True, s\<lparr>ms_eager := ms_eager s - {peer}, ms_lazy := insert peer (ms_lazy s)\<rparr>)
      else (False, s))"

definition graft_peer_at :: "PeerId \<Rightarrow> instant \<Rightarrow> MeshState \<Rightarrow> bool \<times> MeshState" where
  "graft_peer_at peer now s =
     (if card (ms_eager s) \<ge> ms_max_eager_degree s then (False, s)
      else if \<not> can_graft_peer_at s peer now then (False, s)
      else if peer \<in> ms_lazy s
      then (True, s\<lparr>ms_lazy := ms_lazy s - {peer}, ms_eager := insert peer (ms_eager s)\<rparr>)
      else (False, s))"

definition mesh_claim_send_attempt ::
  "PeerId \<Rightarrow> instant \<Rightarrow> bool \<Rightarrow> MeshState \<Rightarrow> PeerSendAttempt option \<times> MeshState" where
  "mesh_claim_send_attempt peer now critical_data s =
     (case ms_cooling s peer of
        None \<Rightarrow> (Some \<lparr>at_peer = peer, at_kind = NormalSend, at_recovery_probe_id = None\<rparr>, s)
      | Some c \<Rightarrow>
          (case claim_send_attempt (ms_next_probe_id s) now critical_data c of
             None \<Rightarrow> (None, s)
           | Some ((kind, probe), c', n) \<Rightarrow>
               (Some \<lparr>at_peer = peer, at_kind = kind, at_recovery_probe_id = probe\<rparr>,
                s\<lparr>ms_cooling := (ms_cooling s)(peer \<mapsto> c'), ms_next_probe_id := n\<rparr>)))"

definition confirm_cooldown_bypass_claim :: "PeerId \<Rightarrow> instant \<Rightarrow> MeshState \<Rightarrow> MeshState" where
  "confirm_cooldown_bypass_claim peer now s =
     (case ms_cooling s peer of
        None \<Rightarrow> s
      | Some c \<Rightarrow> s\<lparr>ms_cooling := (ms_cooling s)(peer \<mapsto> note_cooldown_bypass_claimed_at now c)\<rparr>)"

definition abandon_unsent_recovery_probe :: "PeerId \<Rightarrow> nat option \<Rightarrow> MeshState \<Rightarrow> MeshState" where
  "abandon_unsent_recovery_probe peer probe s =
     (case ms_cooling s peer of
        None \<Rightarrow> s
      | Some c \<Rightarrow>
          if matches_recovery_probe c probe
          then s\<lparr>ms_cooling := (ms_cooling s)(peer \<mapsto>
                  c\<lparr>pc_recovery_probe_in_flight := False, pc_recovery_probe_id := None\<rparr>)\<rparr>
          else s)"

definition decay_cooling ::
  "(duration \<Rightarrow> duration \<Rightarrow> duration) \<Rightarrow> AdaptiveCoolingConfig \<Rightarrow> instant \<Rightarrow> PeerCoolingState \<Rightarrow> PeerCoolingState" where
  "decay_cooling dec config now c =
     (case pc_last_suppressed_at c of
        None \<Rightarrow> c
      | Some t \<Rightarrow> c\<lparr>pc_cooldown := decay_on_success dec config (pc_cooldown c) (now - t)\<rparr>)"

definition record_send_success ::
  "(duration \<Rightarrow> duration \<Rightarrow> duration) \<Rightarrow> AdaptiveCoolingConfig \<Rightarrow> PeerSendAttempt \<Rightarrow> instant \<Rightarrow> MeshState \<Rightarrow>
   bool \<times> MeshState" where
  "record_send_success dec config attempt now s =
     (case ms_cooling s (at_peer attempt) of
        None \<Rightarrow> (False, s)
      | Some c \<Rightarrow>
          (let put = (\<lambda>c'. s\<lparr>ms_cooling := (ms_cooling s)(at_peer attempt \<mapsto> c')\<rparr>)
           in case at_kind attempt of
                RecoveryProbe \<Rightarrow>
                  if \<not> matches_recovery_probe c (at_recovery_probe_id attempt) then (False, s)
                  else (True, put ((decay_cooling dec config now c)
                          \<lparr>pc_suppressed_until := None, pc_timeout_count := 0,
                           pc_timeout_window_started := now, pc_last_suppression_timeout_count := 0,
                           pc_recovery_probe_in_flight := False, pc_recovery_probe_id := None\<rparr>))
              | CooldownBypass \<Rightarrow> (False, put (decay_cooling dec config now c))
              | NormalSend \<Rightarrow>
                  if is_suppressed_at c now then (False, s)
                  else (False, put ((decay_cooling dec config now c)
                          \<lparr>pc_timeout_count := 0, pc_timeout_window_started := now\<rparr>))))"

datatype timeout_event =
    NoEvent
  | RequestIndirectProbe
  | Suppressed instant nat duration bool \<comment> \<open>until, recent timeouts, cooldown, demoted\<close>

definition record_timeout_on_peer ::
  "AdaptiveCoolingConfig option \<Rightarrow> PeerHealth option \<Rightarrow> bool \<Rightarrow> bool \<Rightarrow> instant \<Rightarrow> PeerCoolingState \<Rightarrow>
   timeout_event \<times> PeerCoolingState" where
  "record_timeout_on_peer config health floor_blocks dead_floor_blocks now c =
     (if is_suppressed_at c now then (NoEvent, c)
      else let c1 = (if now - pc_timeout_window_started c > PEER_TIMEOUT_WINDOW
                     then c\<lparr>pc_timeout_window_started := now, pc_timeout_count := 0\<rparr> else c);
               c2 = c1\<lparr>pc_timeout_count := u64_sat_add (pc_timeout_count c1) 1\<rparr>
           in if health = Some HealthDead \<and> \<not> dead_floor_blocks
              then let cooldown = (case config of None \<Rightarrow> next_legacy_cooldown c2
                                    | Some cfg \<Rightarrow> escalate_on_dead cfg (pc_cooldown c2));
                       n = max (pc_timeout_count c2) 1
                   in (Suppressed (now + cooldown) n cooldown False, suppress now cooldown n c2)
              else if pc_timeout_count c2 \<ge> PEER_TIMEOUT_THRESHOLD \<and> health = Some HealthSuspect
              then (RequestIndirectProbe,
                    c2\<lparr>pc_timeout_count := PEER_TIMEOUT_THRESHOLD - 1, pc_timeout_window_started := now\<rparr>)
              else if pc_timeout_count c2 < PEER_TIMEOUT_THRESHOLD \<or> floor_blocks then (NoEvent, c2)
              else let cooldown = (case config of None \<Rightarrow> next_legacy_cooldown c2
                                    | Some cfg \<Rightarrow> next_cooldown cfg (pc_cooldown c2));
                       n = pc_timeout_count c2
                   in (Suppressed (now + cooldown) n cooldown False, suppress now cooldown n c2))"

definition finish_timeout :: "PeerId \<Rightarrow> timeout_event \<times> MeshState \<Rightarrow> timeout_event \<times> MeshState" where
  "finish_timeout peer r =
     (case fst r of
        Suppressed t n cooldown _ \<Rightarrow>
          (let (demoted, s') = prune_peer peer (snd r) in (Suppressed t n cooldown demoted, s'))
      | _ \<Rightarrow> r)"

definition record_send_timeout ::
  "AdaptiveCoolingConfig option \<Rightarrow> PeerHealth option \<Rightarrow> PeerSendAttempt \<Rightarrow> instant \<Rightarrow> MeshState \<Rightarrow>
   timeout_event \<times> MeshState" where
  "record_send_timeout config health attempt now s =
     (let peer = at_peer attempt
      in case at_kind attempt of
           CooldownBypass \<Rightarrow> (NoEvent, s)
         | RecoveryProbe \<Rightarrow>
             (case ms_cooling s peer of
                None \<Rightarrow> (NoEvent, s)
              | Some c \<Rightarrow>
                  if \<not> matches_recovery_probe c (at_recovery_probe_id attempt) then (NoEvent, s)
                  else let cooldown = (case config of None \<Rightarrow> next_legacy_cooldown c
                                        | Some cfg \<Rightarrow> next_cooldown cfg (pc_cooldown c))
                       in finish_timeout peer
                            (Suppressed (now + cooldown) 1 cooldown False,
                             s\<lparr>ms_cooling := (ms_cooling s)(peer \<mapsto> suppress now cooldown 1 c)\<rparr>))
         | NormalSend \<Rightarrow>
             (let floor_blocks = cooling_floor_blocks_at s peer now;
                  dead_floor_blocks = cooling_floor_last_peer_blocks_at s peer now;
                  (ev, c') = record_timeout_on_peer config health floor_blocks dead_floor_blocks now
                               (get_or (cooling_new now) (ms_cooling s) peer)
              in finish_timeout peer (ev, s\<lparr>ms_cooling := (ms_cooling s)(peer \<mapsto> c')\<rparr>)))"

record NotConnectedEviction =
  ev_eager :: bool
  ev_lazy :: bool
  ev_cooling :: bool

definition evict_not_connected_peer :: "PeerId \<Rightarrow> MeshState \<Rightarrow> NotConnectedEviction \<times> MeshState" where
  "evict_not_connected_peer peer s =
     (\<lparr>ev_eager = (peer \<in> ms_eager s), ev_lazy = (peer \<in> ms_lazy s), ev_cooling = (ms_cooling s peer \<noteq> None)\<rparr>,
      s\<lparr>ms_eager := ms_eager s - {peer}, ms_lazy := ms_lazy s - {peer},
        ms_cooling := map_remove peer (ms_cooling s)\<rparr>)"

definition clear_disconnected_peer_cooling :: "PeerId set \<Rightarrow> MeshState \<Rightarrow> PeerId set \<times> MeshState" where
  "clear_disconnected_peer_cooling connected s =
     (dom (ms_cooling s) - connected,
      s\<lparr>ms_cooling := map_retain (\<lambda>p _. p \<in> connected) (ms_cooling s)\<rparr>)"

definition record_inbound_peer_activity :: "PeerId \<Rightarrow> MeshState \<Rightarrow> bool \<times> MeshState" where
  "record_inbound_peer_activity peer s =
     (ms_cooling s peer \<noteq> None, s\<lparr>ms_cooling := map_remove peer (ms_cooling s)\<rparr>)"

text \<open>The cleaner drops entries of peers that left the topic: expired ones without a probe, then all
  that carry no meaning any more.\<close>

definition clean_expired_peer_cooling :: "instant \<Rightarrow> MeshState \<Rightarrow> MeshState" where
  "clean_expired_peer_cooling now s =
     s\<lparr>ms_cooling := map_retain (\<lambda>peer c.
         \<not> (suppression_expired_at c now \<and> \<not> pc_recovery_probe_in_flight c \<and> peer \<notin> ms_eager s \<and> peer \<notin> ms_lazy s)) (ms_cooling s)\<rparr>"

definition prune_churned_cooling :: "instant \<Rightarrow> MeshState \<Rightarrow> MeshState" where
  "prune_churned_cooling now s =
     s\<lparr>ms_cooling := map_retain (\<lambda>peer c.
         if peer \<in> ms_eager s \<or> peer \<in> ms_lazy s then True
         else (case pc_suppressed_until c of None \<Rightarrow> False | Some until \<Rightarrow> until > now) \<or> pc_recovery_probe_in_flight c) (ms_cooling s)\<rparr>"

subsection \<open>Runs of a topic's peer state\<close>

inductive mesh_step :: "MeshState \<Rightarrow> MeshState \<Rightarrow> bool" where
  mesh_claim: "mesh_step s (snd (mesh_claim_send_attempt peer now critical s))"
| mesh_confirm: "mesh_step s (confirm_cooldown_bypass_claim peer now s)"
| mesh_abandon: "mesh_step s (abandon_unsent_recovery_probe peer probe s)"
| mesh_success: "mesh_step s (snd (record_send_success dec config attempt now s))"
| mesh_timeout: "mesh_step s (snd (record_send_timeout cfg health attempt now s))"
| mesh_prune: "mesh_step s (snd (prune_peer peer s))"
| mesh_graft: "mesh_step s (snd (graft_peer_at peer now s))"
| mesh_evict: "mesh_step s (snd (evict_not_connected_peer peer s))"
| mesh_clear: "mesh_step s (snd (clear_disconnected_peer_cooling connected s))"
| mesh_inbound: "mesh_step s (snd (record_inbound_peer_activity peer s))"
| mesh_clean_expired: "mesh_step s (clean_expired_peer_cooling now s)"
| mesh_prune_churned: "mesh_step s (prune_churned_cooling now s)"
| mesh_subscribers: "mesh_step s (s\<lparr>ms_live_subscribers := b\<rparr>)"
| mesh_other_topic_probes: "mesh_step s (s\<lparr>ms_next_probe_id := k\<rparr>)"
| mesh_new_lazy: "peer \<notin> ms_eager s \<Longrightarrow> mesh_step s (s\<lparr>ms_lazy := insert peer (ms_lazy s)\<rparr>)"

definition mesh_init :: "nat \<Rightarrow> MeshState" where
  "mesh_init max_eager_degree =
     \<lparr>ms_eager = {}, ms_lazy = {}, ms_cooling = Map.empty, ms_live_subscribers = False,
      ms_configured_max_eager_degree = max_eager_degree, ms_max_eager_degree = max_eager_degree,
      ms_preferred_eager = [], ms_last_opportunistic_graft = None, ms_next_probe_id = 1\<rparr>"

definition cooling_ok :: "PeerCoolingState \<Rightarrow> bool" where
  "cooling_ok c \<longleftrightarrow>
     (pc_recovery_probe_in_flight c \<longrightarrow> pc_suppressed_until c \<noteq> None) \<and>
     (pc_recovery_probe_in_flight c \<longleftrightarrow> pc_recovery_probe_id c \<noteq> None)"

definition mesh_ok :: "MeshState \<Rightarrow> bool" where
  "mesh_ok s \<longleftrightarrow> (\<forall>p c. ms_cooling s p = Some c \<longrightarrow> cooling_ok c) \<and> ms_eager s \<inter> ms_lazy s = {}"

lemma cooling_ok_new [simp]: "cooling_ok (cooling_new now)"
  by (simp add: cooling_ok_def cooling_new_def)

lemma cooling_ok_suppress [simp]: "cooling_ok (suppress now d n c)"
  by (simp add: cooling_ok_def suppress_def)

lemma cooling_ok_decay [simp]: "cooling_ok (decay_cooling dec config now c) = cooling_ok c"
  by (simp add: cooling_ok_def decay_cooling_def split: option.split)

lemma record_timeout_on_peer_ok:
  "cooling_ok c \<Longrightarrow> cooling_ok (snd (record_timeout_on_peer cfg h f d now c))"
  by (auto simp: record_timeout_on_peer_def Let_def) (auto simp: cooling_ok_def)

lemma claim_send_attempt_ok:
  "claim_send_attempt n now crit c = Some (k, c', n') \<Longrightarrow> cooling_ok c \<Longrightarrow> cooling_ok c'"
  by (auto simp: claim_send_attempt_def cooling_ok_def suppression_expired_at_def split: if_splits option.splits)

lemma mesh_ok_put: "mesh_ok s \<Longrightarrow> cooling_ok c \<Longrightarrow> mesh_ok (s\<lparr>ms_cooling := (ms_cooling s)(p \<mapsto> c)\<rparr>)"
  by (simp add: mesh_ok_def)

lemma mesh_okD: "mesh_ok s \<Longrightarrow> ms_cooling s p = Some c \<Longrightarrow> cooling_ok c"
  by (simp add: mesh_ok_def)

lemma prune_peer_fields:
  "ms_cooling (snd (prune_peer p s)) = ms_cooling s" "ms_eager (snd (prune_peer p s)) = ms_eager s - {p}"
  "mesh_ok s \<Longrightarrow> mesh_ok (snd (prune_peer p s))"
  by (auto simp: prune_peer_def mesh_ok_def)

lemma finish_timeout_ok: "mesh_ok (snd r) \<Longrightarrow> mesh_ok (snd (finish_timeout p r))"
  by (auto simp: finish_timeout_def case_prod_beta prune_peer_fields split: timeout_event.split)

lemma mesh_claim_ok: "mesh_ok s \<Longrightarrow> mesh_ok (snd (mesh_claim_send_attempt peer now crit s))"
proof (cases "ms_cooling s peer")
  case (Some c)
  assume ok: "mesh_ok s"
  show ?thesis
  proof (cases "claim_send_attempt (ms_next_probe_id s) now crit c")
    case None
    with Some ok show ?thesis by (simp add: mesh_claim_send_attempt_def)
  next
    case claim: (Some r)
    obtain k probe c' n where r: "r = ((k, probe), c', n)" by (metis prod.exhaust)
    have "cooling_ok c'" using claim_send_attempt_ok claim r mesh_okD [OF ok Some] by blast
    with mesh_ok_put [OF ok this, of peer] Some claim r show ?thesis
      by (simp add: mesh_claim_send_attempt_def mesh_ok_def)
  qed
qed (simp add: mesh_claim_send_attempt_def)

lemma record_send_success_ok: "mesh_ok s \<Longrightarrow> mesh_ok (snd (record_send_success dec config attempt now s))"
  by (auto simp: record_send_success_def Let_def intro!: mesh_ok_put dest: mesh_okD
      split: option.split SendAttemptKind.split) (auto simp: cooling_ok_def decay_cooling_def dest: mesh_okD split: option.splits)

lemma record_send_timeout_ok:
  assumes "mesh_ok s" shows "mesh_ok (snd (record_send_timeout cfg health attempt now s))"
proof (cases "at_kind attempt")
  case NormalSend
  let ?p = "at_peer attempt"
  have "cooling_ok (get_or (cooling_new now) (ms_cooling s) ?p)"
    using assms by (auto simp: get_or_def dest: mesh_okD split: option.split)
  from record_timeout_on_peer_ok [OF this] show ?thesis using NormalSend assms
    by (auto simp: record_send_timeout_def Let_def case_prod_beta intro!: finish_timeout_ok mesh_ok_put)
qed (use assms in \<open>auto simp: record_send_timeout_def Let_def intro!: finish_timeout_ok mesh_ok_put split: option.split\<close>)

lemma mesh_ok_step: "mesh_step s s' \<Longrightarrow> mesh_ok s \<Longrightarrow> mesh_ok s'"
proof (induction rule: mesh_step.induct)
  case (mesh_confirm s peer now)
  then show ?case
    by (auto simp: confirm_cooldown_bypass_claim_def note_cooldown_bypass_claimed_at_def cooling_ok_def
        intro!: mesh_ok_put dest: mesh_okD split: option.split)
next
  case (mesh_abandon s peer probe)
  then show ?case
    by (auto simp: abandon_unsent_recovery_probe_def cooling_ok_def intro!: mesh_ok_put split: option.split)
next
  case (mesh_graft s peer now)
  then show ?case by (auto simp: graft_peer_at_def mesh_ok_def)
next
  case (mesh_evict s peer)
  then show ?case by (auto simp: evict_not_connected_peer_def mesh_ok_def)
next
  case (mesh_clear s connected)
  then show ?case by (auto simp: clear_disconnected_peer_cooling_def mesh_ok_def)
next
  case (mesh_inbound s peer)
  then show ?case by (auto simp: record_inbound_peer_activity_def mesh_ok_def)
next
  case (mesh_clean_expired s now)
  then show ?case by (auto simp: clean_expired_peer_cooling_def mesh_ok_def map_retain_def split: option.splits if_splits)
next
  case (mesh_prune_churned s now)
  then show ?case by (auto simp: prune_churned_cooling_def mesh_ok_def map_retain_def split: option.splits if_splits)
next
  case (mesh_subscribers s b)
  then show ?case by (simp add: mesh_ok_def)
next
  case (mesh_other_topic_probes s k)
  then show ?case by (simp add: mesh_ok_def)
next
  case (mesh_new_lazy peer s)
  then show ?case by (auto simp: mesh_ok_def)
qed (simp_all add: mesh_claim_ok record_send_success_ok record_send_timeout_ok prune_peer_fields(3))

lemma mesh_ok_init: "mesh_ok (mesh_init n)"
  by (simp add: mesh_ok_def mesh_init_def)

subsection \<open>Properties\<close>

definition eligible :: "MeshState \<Rightarrow> instant \<Rightarrow> PeerId set" where
  "eligible s now = {p \<in> ms_eager s. \<not> is_peer_suppressed_at s p now}"

lemma timeout_other_peer:
  assumes "q \<noteq> at_peer attempt"
  shows "q \<in> eligible (snd (record_send_timeout cfg h attempt now s)) now \<longleftrightarrow> q \<in> eligible s now"
  using assms
  by (auto simp: eligible_def record_send_timeout_def Let_def finish_timeout_def case_prod_beta
      is_peer_suppressed_at_def prune_peer_fields split: SendAttemptKind.split option.split timeout_event.split)

lemma timeout_blocked_keeps:
  assumes "\<not> is_suppressed_at c now" "f" "d"
  shows "\<not> is_suppressed_at (snd (record_timeout_on_peer cfg h f d now c)) now \<and>
    (\<forall>t n cd b. fst (record_timeout_on_peer cfg h f d now c) \<noteq> Suppressed t n cd b)"
  using assms by (auto simp: record_timeout_on_peer_def Let_def is_suppressed_at_def
      actively_suppressed_at_def suppression_expired_at_def)

text \<open>
  C13: Cooling never takes the last delivery path. On a topic with a live local subscriber, a
  send timeout of any kind, with any health verdict and any cooldown schedule, leaves at least
  one unsuppressed eager peer if there was one.
\<close>

theorem timeout_keeps_delivery_path:
  assumes "ms_live_subscribers s" "eligible s now \<noteq> {}"
  shows "eligible (snd (record_send_timeout cfg health attempt now s)) now \<noteq> {}"
proof (cases "\<exists>q \<noteq> at_peer attempt. q \<in> eligible s now")
  case True
  then show ?thesis using timeout_other_peer by blast
next
  case False
  let ?p = "at_peer attempt"
  from False have "eligible s now \<subseteq> {?p}" by blast
  with assms(2) have only: "eligible s now = {?p}" by (simp add: subset_singleton_iff)
  then have ns: "\<not> is_peer_suppressed_at s ?p now" "?p \<in> ms_eager s" by (auto simp: eligible_def)
  have "{q \<in> ms_eager s. q \<noteq> ?p \<and> \<not> is_peer_suppressed_at s q now} = {}" using only by (auto simp: eligible_def)
  then have zero: "eligible_eager_after_suppressing_at s ?p now = Some 0"
    using assms(1) ns(2) by (simp add: eligible_eager_after_suppressing_at_def del: Collect_empty_eq)
  then have floors: "cooling_floor_blocks_at s ?p now" "cooling_floor_last_peer_blocks_at s ?p now"
    by (simp_all add: cooling_floor_blocks_at_def cooling_floor_last_peer_blocks_at_def)
  show ?thesis
  proof (cases "at_kind attempt")
    case NormalSend
    let ?c = "get_or (cooling_new now) (ms_cooling s) ?p"
    have "\<not> is_suppressed_at ?c now"
      using ns(1) by (auto simp: is_peer_suppressed_at_def get_or_def cooling_new_def is_suppressed_at_def
          actively_suppressed_at_def suppression_expired_at_def split: option.splits)
    from timeout_blocked_keeps [OF this floors, of cfg health]
    have "?p \<in> eligible (snd (record_send_timeout cfg health attempt now s)) now"
      using NormalSend ns(2) floors
      by (auto simp: record_send_timeout_def Let_def case_prod_beta finish_timeout_def eligible_def
          is_peer_suppressed_at_def split: timeout_event.split)
    then show ?thesis by blast
  next
    case RecoveryProbe
    have "\<not> matches_recovery_probe c probe" if "ms_cooling s ?p = Some c" for c probe
      using that ns(1) by (auto simp: is_peer_suppressed_at_def is_suppressed_at_def matches_recovery_probe_def)
    then have "snd (record_send_timeout cfg health attempt now s) = s"
      using RecoveryProbe by (auto simp: record_send_timeout_def Let_def split: option.split)
    then show ?thesis using assms(2) by simp
  next
    case CooldownBypass
    then show ?thesis using assms(2) by (simp add: record_send_timeout_def Let_def)
  qed
qed

definition two_peer_mesh :: MeshState where
  "two_peer_mesh = (mesh_init 2)\<lparr>ms_eager := {PeerId [1]}, ms_lazy := {PeerId [2]}, ms_live_subscribers := True\<rparr>"

theorem timeout_keeps_delivery_path_witness:
  "eligible (snd (record_send_timeout (Some cooling_config_default) (Some HealthDead)
     \<lparr>at_peer = PeerId [1], at_kind = NormalSend, at_recovery_probe_id = None\<rparr> 5 two_peer_mesh)) 5 \<noteq> {}"
proof -
  have "ms_live_subscribers two_peer_mesh" by (simp add: two_peer_mesh_def)
  moreover have "PeerId [1] \<in> eligible two_peer_mesh 5"
    by (simp add: two_peer_mesh_def eligible_def is_peer_suppressed_at_def mesh_init_def)
  ultimately show ?thesis using timeout_keeps_delivery_path by blast
qed

definition cooled_mesh :: MeshState where
  "cooled_mesh = confirm_cooldown_bypass_claim (PeerId [1]) 5
     (snd (record_send_timeout (Some cooling_config_default) (Some HealthDead)
        \<lparr>at_peer = PeerId [1], at_kind = NormalSend, at_recovery_probe_id = None\<rparr> 5 (mesh_init 2)))"

lemmas cooling_eval = record_send_timeout_def Let_def record_timeout_on_peer_def mesh_init_def
  cooling_new_def is_suppressed_at_def actively_suppressed_at_def suppression_expired_at_def
  cooling_floor_last_peer_blocks_at_def eligible_eager_after_suppressing_at_def finish_timeout_def
  prune_peer_def escalate_on_dead_def cooling_config_default_def checked_mul_def DURATION_MAX_def
  get_or_def u64_sat_add_def u64_add_def u64_max_eq PEER_TIMEOUT_WINDOW_def suppress_def
  confirm_cooldown_bypass_claim_def note_cooldown_bypass_claimed_at_def cooled_mesh_def
  mesh_claim_send_attempt_def claim_send_attempt_def cooldown_bypass_due_at_def
  PEER_COOLDOWN_BYPASS_MIN_INTERVAL_def

lemma schedule_bounds: "next_cooldown c d \<le> cc_max c" "escalate_on_dead c d \<le> cc_max c"
  by (auto simp: next_cooldown_def escalate_on_dead_def Let_def)

lemma record_timeout_on_peer_event:
  assumes "fst (record_timeout_on_peer (Some config) health f d now c) = Suppressed t k cooldown b"
  shows "t = now + cooldown \<and> cooldown \<le> cc_max config \<and> health \<noteq> Some HealthSuspect \<and>
    (health = Some HealthDead \<or> PEER_TIMEOUT_THRESHOLD \<le> k)"
  using assms schedule_bounds
  by (auto simp: record_timeout_on_peer_def Let_def split: if_splits)

lemma is_suppressed_at_suppress [simp]: "is_suppressed_at (suppress now d n c) now"
  by (simp add: is_suppressed_at_def suppress_def actively_suppressed_at_def suppression_expired_at_def, linarith)

lemma record_timeout_on_peer_suppresses:
  assumes "fst (record_timeout_on_peer config health f d now c) = Suppressed t k cooldown b"
  shows "is_suppressed_at (snd (record_timeout_on_peer config health f d now c)) now"
  using assms by (auto simp: record_timeout_on_peer_def Let_def split: if_splits)

lemma finish_timeout_event:
  assumes "finish_timeout peer r = (Suppressed t k cooldown demoted, s')"
  obtains b where "fst r = Suppressed t k cooldown b"
  using assms by (auto simp: finish_timeout_def case_prod_beta split: timeout_event.splits)

lemma finish_timeout_suppressed:
  "finish_timeout peer (Suppressed t k cooldown b, s) = (Suppressed t' k' cooldown' demoted, s') \<longleftrightarrow>
     t' = t \<and> k' = k \<and> cooldown' = cooldown \<and> demoted = (peer \<in> ms_eager s) \<and> s' = snd (prune_peer peer s)"
  by (auto simp: finish_timeout_def case_prod_beta prune_peer_def)

text \<open>
  A suppression by timeouts is justified and bounded. When a timed-out send suppresses its
  peer under the adaptive schedule, the suppression ends at \<open>now\<close> plus the reported cooldown, which
  is at most the configured maximum; the peer leaves the eager set and reads as suppressed; and an
  ordinary send suppresses only a peer with a dead verdict, or one with eight timeouts that is
  not suspect.
\<close>

theorem suppression_is_justified:
  assumes "record_send_timeout (Some config) health attempt now s = (Suppressed t k cooldown demoted, s')"
  shows "t = now + cooldown \<and> cooldown \<le> cc_max config \<and>
    at_peer attempt \<notin> ms_eager s' \<and> is_peer_suppressed_at s' (at_peer attempt) now \<and>
    demoted = (at_peer attempt \<in> ms_eager s) \<and>
    (at_kind attempt = NormalSend \<longrightarrow> health \<noteq> Some HealthSuspect \<and>
       (health = Some HealthDead \<or> PEER_TIMEOUT_THRESHOLD \<le> k))"
proof (cases "at_kind attempt")
  case NormalSend
  let ?r = "record_timeout_on_peer (Some config) health (cooling_floor_blocks_at s (at_peer attempt) now)
    (cooling_floor_last_peer_blocks_at s (at_peer attempt) now) now (get_or (cooling_new now) (ms_cooling s) (at_peer attempt))"
  have r: "finish_timeout (at_peer attempt) (fst ?r, s\<lparr>ms_cooling := (ms_cooling s)(at_peer attempt \<mapsto> snd ?r)\<rparr>) =
      (Suppressed t k cooldown demoted, s')"
    using assms NormalSend by (simp add: record_send_timeout_def Let_def case_prod_beta)
  then obtain b where b: "fst ?r = Suppressed t k cooldown b" by (rule finish_timeout_event) simp
  have "is_suppressed_at (snd ?r) now" using record_timeout_on_peer_suppresses [OF b] .
  with r b record_timeout_on_peer_event [OF b] NormalSend show ?thesis
    by (simp add: finish_timeout_suppressed is_peer_suppressed_at_def prune_peer_fields)
next
  case RecoveryProbe
  then obtain c where c: "ms_cooling s (at_peer attempt) = Some c"
    "matches_recovery_probe c (at_recovery_probe_id attempt)"
    using assms by (auto simp: record_send_timeout_def Let_def split: option.splits if_splits)
  with assms RecoveryProbe schedule_bounds show ?thesis
    by (auto simp: record_send_timeout_def Let_def finish_timeout_suppressed is_peer_suppressed_at_def prune_peer_fields)
next
  case CooldownBypass
  with assms show ?thesis by (simp add: record_send_timeout_def Let_def)
qed

theorem suppression_is_justified_witness:
  "let attempt = \<lparr>at_peer = PeerId [2], at_kind = NormalSend, at_recovery_probe_id = None\<rparr>;
       r = record_send_timeout (Some cooling_config_default) (Some HealthDead) attempt 5 two_peer_mesh
   in fst r = Suppressed 60005 1 60000 False \<and> is_peer_suppressed_at (snd r) (PeerId [2]) 5"
proof -
  let ?attempt = "\<lparr>at_peer = PeerId [2], at_kind = NormalSend, at_recovery_probe_id = None\<rparr>"
  let ?r = "record_send_timeout (Some cooling_config_default) (Some HealthDead) ?attempt 5 two_peer_mesh"
  have r: "fst ?r = Suppressed 60005 1 60000 False"
    by (simp add: cooling_eval two_peer_mesh_def)
  then have "?r = (Suppressed 60005 1 60000 False, snd ?r)" by (metis prod.collapse)
  from suppression_is_justified [OF this] r show ?thesis by (simp add: Let_def)
qed

text \<open>
  Only the probe in flight decides recovery. In every state the outcome of a recovery probe
  with another id changes nothing, be it a success, a timeout or an abandoned send; the success
  of the matching probe lifts the suppression for good, so that the peer can be grafted at any
  later time, and its timeout suppresses the peer again.
\<close>

theorem probe_outcome_needs_matching_id:
  assumes "ms_cooling s (at_peer attempt) = Some c" "at_kind attempt = RecoveryProbe"
  shows "if matches_recovery_probe c (at_recovery_probe_id attempt)
    then fst (record_send_success dec config attempt now s) \<and>
      can_graft_peer_at (snd (record_send_success dec config attempt now s)) (at_peer attempt) t \<and>
      is_peer_suppressed_at (snd (record_send_timeout cfg health attempt now s)) (at_peer attempt) t
    else record_send_success dec config attempt now s = (False, s) \<and>
      record_send_timeout cfg health attempt now s = (NoEvent, s) \<and>
      abandon_unsent_recovery_probe (at_peer attempt) (at_recovery_probe_id attempt) s = s"
proof -
  have "is_suppressed_at (suppress now d n c) t" for d n
    by (simp add: is_suppressed_at_def suppress_def actively_suppressed_at_def suppression_expired_at_def, linarith)
  then show ?thesis using assms
    by (auto simp: record_send_success_def record_send_timeout_def abandon_unsent_recovery_probe_def Let_def
        can_graft_peer_at_def can_graft_at_def is_suppressed_at_def actively_suppressed_at_def
        suppression_expired_at_def is_peer_suppressed_at_def finish_timeout_def case_prod_beta prune_peer_fields)
qed

theorem probe_outcome_needs_matching_id_witness:
  "let claimed = snd (mesh_claim_send_attempt (PeerId [1]) 70000 False cooled_mesh);
       probe = \<lambda>id. \<lparr>at_peer = PeerId [1], at_kind = RecoveryProbe, at_recovery_probe_id = id\<rparr>
   in can_graft_peer_at (snd (record_send_success (\<lambda>d _. d) cooling_config_default (probe (Some 1)) 70001 claimed))
        (PeerId [1]) 70002 \<and>
      record_send_success (\<lambda>d _. d) cooling_config_default (probe (Some 2)) 70001 claimed = (False, claimed)"
proof -
  let ?s = "snd (mesh_claim_send_attempt (PeerId [1]) 70000 False cooled_mesh)"
  let ?a = "\<lambda>id. \<lparr>at_peer = PeerId [1], at_kind = RecoveryProbe, at_recovery_probe_id = id\<rparr>"
  obtain c where c: "ms_cooling ?s (PeerId [1]) = Some c" "matches_recovery_probe c (Some 1)"
    "\<not> matches_recovery_probe c (Some 2)"
    by (simp add: cooling_eval matches_recovery_probe_def)
  from probe_outcome_needs_matching_id [of ?s "?a (Some 1)" c "\<lambda>d _. d" cooling_config_default 70001 70002]
    probe_outcome_needs_matching_id [of ?s "?a (Some 2)" c "\<lambda>d _. d" cooling_config_default 70001 70002]
  show ?thesis using c by (simp add: Let_def)
qed

end
