(* ===== verification/Eager_Mesh.thy ===== *)
theory Eager_Mesh
  imports Complex_Main Peer_Cooling
begin

text \<open>
  The eager mesh of a topic: the operations of \<open>TopicState\<close> in \<open>crates/pubsub/src/lib.rs\<close> that
  choose the eager peers among the members of the topic (\<open>maintain_degree_at\<close> and what it calls,
  \<open>rescue_suppressed_eager_peer_if_needed_at\<close>) and the membership operations of \<open>PlumtreePubSub\<close>
  on one topic (\<open>initialize_topic_peers\<close>, \<open>set_topic_preferred_eager_set\<close>,
  \<open>set_topic_peers_with_preferred_eager\<close>, \<open>set_eager_degree_ceiling\<close>).

  The environment gives the iteration order of a hash set and the score of each peer. The scores
  are 64-bit floats of the code; only their order and two thresholds matter here, and they
  are rational numbers of the model. \<open>maintain_degree_at\<close> and \<open>prefer_eager_peer_at\<close> call each
  other, so the model takes fuel; one more than the excess of the eager set over its
  ceiling is enough.
\<close>

definition PEER_SCORE_EAGER_MIN :: rat where
  "PEER_SCORE_EAGER_MIN = 45 / 100"

definition OPPORTUNISTIC_GRAFT_INTERVAL :: duration where
  "OPPORTUNISTIC_GRAFT_INTERVAL = 60000"

definition OPPORTUNISTIC_GRAFT_MAX_REPLACEMENTS :: nat where
  "OPPORTUNISTIC_GRAFT_MAX_REPLACEMENTS = 1"

definition OPPORTUNISTIC_GRAFT_MIN_SCORE_DELTA :: rat where
  "OPPORTUNISTIC_GRAFT_MIN_SCORE_DELTA = 20 / 100"

definition MAX_EAGER_DEGREE :: nat where
  "MAX_EAGER_DEGREE = 12"

definition MAX_PREFERRED_EAGER_PEERS :: nat where
  "MAX_PREFERRED_EAGER_PEERS = 8"

record mesh_env =
  me_order :: "PeerId set \<Rightarrow> PeerId list"
  me_score :: "PeerId \<Rightarrow> instant \<Rightarrow> rat"

type_synonym moved = "nat \<times> nat \<times> MeshState" \<comment> \<open>pruned, grafted, the new state\<close>

definition refresh_preferred_eager_ceiling :: "MeshState \<Rightarrow> MeshState" where
  "refresh_preferred_eager_ceiling s =
     s\<lparr>ms_max_eager_degree := max (ms_configured_max_eager_degree s) (length (ms_preferred_eager s))\<rparr>"

definition is_score_eligible_for_eager_at :: "mesh_env \<Rightarrow> MeshState \<Rightarrow> PeerId \<Rightarrow> instant \<Rightarrow> bool" where
  "is_score_eligible_for_eager_at env s peer now \<longleftrightarrow>
     can_graft_peer_at s peer now \<and> me_score env peer now \<ge> PEER_SCORE_EAGER_MIN"

definition is_healthy_preferred_at :: "mesh_env \<Rightarrow> MeshState \<Rightarrow> PeerId \<Rightarrow> instant \<Rightarrow> bool" where
  "is_healthy_preferred_at env s peer now \<longleftrightarrow>
     peer \<in> set (ms_preferred_eager s) \<and> is_score_eligible_for_eager_at env s peer now"

definition scored_lazy_peers_at :: "mesh_env \<Rightarrow> MeshState \<Rightarrow> instant \<Rightarrow> (PeerId \<times> rat) list" where
  "scored_lazy_peers_at env s now =
     sort_key (\<lambda>x. - snd x) (map (\<lambda>p. (p, me_score env p now))
       (filter (\<lambda>p. can_graft_peer_at s p now) (me_order env (ms_lazy s))))"

definition scored_eager_peers_at :: "mesh_env \<Rightarrow> MeshState \<Rightarrow> instant \<Rightarrow> (PeerId \<times> rat) list" where
  "scored_eager_peers_at env s now =
     sort_key snd (map (\<lambda>p. (p, me_score env p now)) (me_order env (ms_eager s)))"

definition add_new_peer_lazy :: "PeerId \<Rightarrow> MeshState \<Rightarrow> bool \<times> MeshState" where
  "add_new_peer_lazy peer s =
     (if peer \<in> ms_eager s \<or> peer \<in> ms_lazy s then (False, s)
      else (True, s\<lparr>ms_lazy := insert peer (ms_lazy s)\<rparr>))"

fun prune_all :: "PeerId list \<Rightarrow> MeshState \<Rightarrow> nat \<times> MeshState" where
  "prune_all [] s = (0, s)"
| "prune_all (p # ps) s =
     (let (moved, s1) = prune_peer p s; (n, s2) = prune_all ps s1 in (if moved then n + 1 else n, s2))"

fun graft_all :: "instant \<Rightarrow> PeerId list \<Rightarrow> MeshState \<Rightarrow> nat \<times> MeshState" where
  "graft_all now [] s = (0, s)"
| "graft_all now (p # ps) s =
     (let (moved, s1) = graft_peer_at p now s; (n, s2) = graft_all now ps s1 in (if moved then n + 1 else n, s2))"

text \<open>\<open>again\<close> is the call of \<open>maintain_degree_at\<close> after a refused graft.\<close>

definition promote_preferred ::
  "(MeshState \<Rightarrow> moved option) \<Rightarrow> nat \<Rightarrow> PeerId \<Rightarrow> instant \<Rightarrow> MeshState \<Rightarrow> moved option" where
  "promote_preferred again pruned peer now s =
     (let (grafted, s') = graft_peer_at peer now s
      in if grafted then Some (pruned, 1, s')
         else (case again s' of
                 None \<Rightarrow> None
               | Some (_, restored, s'') \<Rightarrow> Some (pruned, restored, s'')))"

definition prefer_eager_peer_at ::
  "mesh_env \<Rightarrow> (MeshState \<Rightarrow> moved option) \<Rightarrow> PeerId \<Rightarrow> instant \<Rightarrow> MeshState \<Rightarrow> moved option" where
  "prefer_eager_peer_at env again peer now s =
     (if peer \<in> ms_eager s then Some (0, 0, s)
      else if peer \<notin> ms_lazy s \<or> \<not> is_score_eligible_for_eager_at env s peer now then Some (0, 0, s)
      else if card (ms_eager s) \<ge> ms_max_eager_degree s
      then (case find (\<lambda>x. \<not> is_healthy_preferred_at env s (fst x) now) (scored_eager_peers_at env s now) of
              None \<Rightarrow> Some (0, 0, s)
            | Some (displaced, _) \<Rightarrow>
                (let (moved, s') = prune_peer displaced s
                 in if moved then promote_preferred again 1 peer now s' else Some (0, 0, s')))
      else promote_preferred again 0 peer now s)"

fun apply_preferred_loop ::
  "mesh_env \<Rightarrow> (MeshState \<Rightarrow> moved option) \<Rightarrow> instant \<Rightarrow> PeerId list \<Rightarrow> nat \<Rightarrow> nat \<Rightarrow> MeshState \<Rightarrow> moved option" where
  "apply_preferred_loop env again now [] pruned grafted s = Some (pruned, grafted, s)"
| "apply_preferred_loop env again now (peer # peers) pruned grafted s =
     (if peer \<in> ms_eager s \<and> \<not> is_score_eligible_for_eager_at env s peer now
      then (let (moved, s') = prune_peer peer s
            in apply_preferred_loop env again now peers (if moved then pruned + 1 else pruned) grafted s')
      else (case prefer_eager_peer_at env again peer now s of
              None \<Rightarrow> None
            | Some (peer_pruned, peer_grafted, s') \<Rightarrow>
                apply_preferred_loop env again now peers (pruned + peer_pruned) (grafted + peer_grafted) s'))"

definition apply_preferred_eager_at ::
  "mesh_env \<Rightarrow> (MeshState \<Rightarrow> moved option) \<Rightarrow> instant \<Rightarrow> MeshState \<Rightarrow> moved option" where
  "apply_preferred_eager_at env again now s = apply_preferred_loop env again now (ms_preferred_eager s) 0 0 s"

definition demote_excess_eager :: "mesh_env \<Rightarrow> instant \<Rightarrow> MeshState \<Rightarrow> nat \<times> MeshState" where
  "demote_excess_eager env now s =
     (if card (ms_eager s) > ms_max_eager_degree s
      then let to_demote = card (ms_eager s) - ms_max_eager_degree s;
               scored = map fst (scored_eager_peers_at env s now);
               peers = take to_demote (filter (\<lambda>p. \<not> is_healthy_preferred_at env s p now) scored);
               peers' = (if length peers < to_demote
                         then peers @ take (to_demote - length peers)
                                (filter (\<lambda>p. is_healthy_preferred_at env s p now) scored)
                         else peers)
           in prune_all peers' s
      else (0, s))"

definition promote_lazy :: "mesh_env \<Rightarrow> instant \<Rightarrow> MeshState \<Rightarrow> nat \<times> MeshState" where
  "promote_lazy env now s =
     (let target = min MIN_EAGER_DEGREE (ms_max_eager_degree s)
      in if card (ms_eager s) < target \<and> ms_lazy s \<noteq> {}
         then let to_promote = target - card (ms_eager s);
                  others = filter (\<lambda>x. fst x \<notin> set (ms_preferred_eager s)) (scored_lazy_peers_at env s now);
                  peers = take to_promote (map fst (filter (\<lambda>x. snd x \<ge> PEER_SCORE_EAGER_MIN) others));
                  peers' = (if length peers < to_promote
                            then peers @ take (to_promote - length peers)
                                   (map fst (filter (\<lambda>x. snd x < PEER_SCORE_EAGER_MIN) others))
                            else peers)
              in graft_all now peers' s
         else (0, s))"

fun opportunistic_loop ::
  "instant \<Rightarrow> (PeerId \<times> rat) list \<Rightarrow> (PeerId \<times> rat) list \<Rightarrow> nat \<Rightarrow> nat \<Rightarrow> MeshState \<Rightarrow> moved" where
  "opportunistic_loop now ((eager_peer, eager_score) # es) ((lazy_peer, lazy_score) # ls) pruned grafted s =
     (if \<not> grafted < OPPORTUNISTIC_GRAFT_MAX_REPLACEMENTS then (pruned, grafted, s)
      else if eager_score \<ge> PEER_SCORE_EAGER_MIN \<or>
              lazy_score < eager_score + OPPORTUNISTIC_GRAFT_MIN_SCORE_DELTA then (pruned, grafted, s)
      else (let (moved, s') = prune_peer eager_peer s
            in if moved
               then let (back, s'') = graft_peer_at lazy_peer now s'
                    in opportunistic_loop now es ls (pruned + 1) (if back then grafted + 1 else grafted) s''
               else opportunistic_loop now es ls pruned grafted s'))"
| "opportunistic_loop now es ls pruned grafted s = (pruned, grafted, s)"

definition opportunistic_graft_at :: "mesh_env \<Rightarrow> instant \<Rightarrow> MeshState \<Rightarrow> moved" where
  "opportunistic_graft_at env now s =
     (if card (ms_eager s) < min MIN_EAGER_DEGREE (ms_max_eager_degree s) \<or>
         card (ms_eager s) > ms_max_eager_degree s \<or> ms_lazy s = {}
      then (0, 0, s)
      else if (case ms_last_opportunistic_graft s of
                 None \<Rightarrow> False | Some t \<Rightarrow> now - t < OPPORTUNISTIC_GRAFT_INTERVAL)
      then (0, 0, s)
      else let s' = s\<lparr>ms_last_opportunistic_graft := Some now\<rparr>
           in opportunistic_loop now
                (filter (\<lambda>x. \<not> is_healthy_preferred_at env s' (fst x) now) (scored_eager_peers_at env s' now))
                (filter (\<lambda>x. snd x \<ge> PEER_SCORE_EAGER_MIN) (scored_lazy_peers_at env s' now)) 0 0 s')"

primrec maintain_degree_at :: "nat \<Rightarrow> mesh_env \<Rightarrow> instant \<Rightarrow> MeshState \<Rightarrow> moved option" where
  "maintain_degree_at 0 env now s = None"
| "maintain_degree_at (Suc fuel) env now s =
     (case apply_preferred_eager_at env (maintain_degree_at fuel env now) now s of
        None \<Rightarrow> None
      | Some (pruned, grafted, s1) \<Rightarrow>
          (let (demoted, s2) = demote_excess_eager env now s1;
               (promoted, s3) = promote_lazy env now s2;
               (opportunistic_pruned, opportunistic_grafted, s4) = opportunistic_graft_at env now s3
           in Some (pruned + demoted + opportunistic_pruned, grafted + promoted + opportunistic_grafted, s4)))"

subsection \<open>Rescue of a delivery path\<close>

fun min_by :: "('a \<Rightarrow> 'a \<Rightarrow> bool) \<Rightarrow> 'a list \<Rightarrow> 'a option" where
  "min_by before [] = None"
| "min_by before (x # xs) = Some (foldl (\<lambda>best y. if before y best then y else best) x xs)"

definition remaining_suppression :: "MeshState \<Rightarrow> instant \<Rightarrow> PeerId \<Rightarrow> duration" where
  "remaining_suppression s now peer =
     (case ms_cooling s peer of
        None \<Rightarrow> 0
      | Some c \<Rightarrow> (case pc_suppressed_until c of None \<Rightarrow> 0 | Some t \<Rightarrow> t - now))"

definition rescue_candidate :: "mesh_env \<Rightarrow> instant \<Rightarrow> MeshState \<Rightarrow> PeerId option" where
  "rescue_candidate env now s =
     min_by (\<lambda>a b. remaining_suppression s now a < remaining_suppression s now b \<or>
                   remaining_suppression s now a = remaining_suppression s now b \<and>
                   me_score env a now > me_score env b now)
       (filter (\<lambda>p. is_peer_suppressed_at s p now) (me_order env (ms_eager s) @ me_order env (ms_lazy s)))"

definition clear_suppression :: "PeerId \<Rightarrow> MeshState \<Rightarrow> MeshState" where
  "clear_suppression peer s =
     (case ms_cooling s peer of
        None \<Rightarrow> s
      | Some c \<Rightarrow> s\<lparr>ms_cooling := (ms_cooling s)(peer \<mapsto>
          c\<lparr>pc_suppressed_until := None, pc_recovery_probe_in_flight := False, pc_recovery_probe_id := None\<rparr>)\<rparr>)"

definition rescue_suppressed_eager_peer_if_needed_at ::
  "mesh_env \<Rightarrow> instant \<Rightarrow> MeshState \<Rightarrow> PeerId option \<times> MeshState" where
  "rescue_suppressed_eager_peer_if_needed_at env now s =
     (if \<not> ms_live_subscribers s then (None, s)
      else if \<exists>p \<in> ms_eager s. \<not> is_peer_suppressed_at s p now then (None, s)
      else case rescue_candidate env now s of
             None \<Rightarrow> (None, s)
           | Some best \<Rightarrow>
               (let s1 = clear_suppression best s
                in if best \<in> ms_lazy s1
                   then let s2 = (if card (ms_eager s1) \<ge> ms_max_eager_degree s1
                                  then (case find (\<lambda>x. \<not> is_healthy_preferred_at env s1 (fst x) now)
                                               (scored_eager_peers_at env s1 now) of
                                          None \<Rightarrow> s1
                                        | Some (worst, _) \<Rightarrow> snd (prune_peer worst s1))
                                  else s1)
                        in (Some best, snd (graft_peer_at best now s2))
                   else (Some best, s1)))"

subsection \<open>Membership of a topic\<close>

definition mesh_fuel :: "MeshState \<Rightarrow> nat" where
  "mesh_fuel s = Suc (card (ms_eager s) - ms_max_eager_degree s)"

definition maintain_degree :: "mesh_env \<Rightarrow> instant \<Rightarrow> MeshState \<Rightarrow> moved option" where
  "maintain_degree env now s = maintain_degree_at (mesh_fuel s) env now s"

definition initialize_topic_peers :: "mesh_env \<Rightarrow> instant \<Rightarrow> PeerId list \<Rightarrow> MeshState \<Rightarrow> moved option" where
  "initialize_topic_peers env now peers s =
     maintain_degree env now (fold (\<lambda>p s. snd (add_new_peer_lazy p s)) peers s)"

fun retain_preferences :: "PeerId list \<Rightarrow> PeerId list \<Rightarrow> PeerId list" where
  "retain_preferences kept [] = kept"
| "retain_preferences kept (peer # peers) =
     (if length kept \<ge> MAX_PREFERRED_EAGER_PEERS then kept
      else retain_preferences (if peer \<in> set kept then kept else kept @ [peer]) peers)"

definition set_topic_preferred_eager_set ::
  "mesh_env \<Rightarrow> instant \<Rightarrow> PeerId list \<Rightarrow> MeshState \<Rightarrow> (nat \<times> moved) option" where
  "set_topic_preferred_eager_set env now peers s =
     (let s1 = refresh_preferred_eager_ceiling (s\<lparr>ms_preferred_eager := retain_preferences [] peers\<rparr>)
      in case maintain_degree env now s1 of
           None \<Rightarrow> None
         | Some (pruned, grafted, s2) \<Rightarrow> Some (length (ms_preferred_eager s2), pruned, grafted, s2))"

definition set_topic_peers_with_preferred_eager ::
  "mesh_env \<Rightarrow> instant \<Rightarrow> PeerId set \<Rightarrow> PeerId option \<Rightarrow> MeshState \<Rightarrow> (bool \<times> moved) option" where
  "set_topic_peers_with_preferred_eager env now connected_set preferred s =
     (let s1 = s\<lparr>ms_eager := {p \<in> ms_eager s. p \<in> connected_set}, ms_lazy := {p \<in> ms_lazy s. p \<in> connected_set}\<rparr>;
          s2 = snd (clear_disconnected_peer_cooling connected_set s1);
          s3 = fold (\<lambda>p s. snd (add_new_peer_lazy p s)) (me_order env connected_set) s2;
          s4 = (case preferred of
                  None \<Rightarrow> s3
                | Some peer \<Rightarrow> refresh_preferred_eager_ceiling (s3\<lparr>ms_preferred_eager := [peer]\<rparr>))
      in case maintain_degree env now s4 of
           None \<Rightarrow> None
         | Some (pruned, grafted, s5) \<Rightarrow>
             Some ((case preferred of None \<Rightarrow> True | Some peer \<Rightarrow> peer \<in> ms_eager s5), pruned, grafted, s5))"

definition set_eager_degree_ceiling :: "mesh_env \<Rightarrow> instant \<Rightarrow> nat \<Rightarrow> MeshState \<Rightarrow> moved option" where
  "set_eager_degree_ceiling env now degree s =
     maintain_degree env now (refresh_preferred_eager_ceiling
       (s\<lparr>ms_configured_max_eager_degree := (if degree = 0 then MAX_EAGER_DEGREE else degree)\<rparr>))"

subsection \<open>What maintenance keeps\<close>

definition members :: "MeshState \<Rightarrow> PeerId set" where
  "members s = ms_eager s \<union> ms_lazy s"

definition mesh_wf :: "MeshState \<Rightarrow> bool" where
  "mesh_wf s \<longleftrightarrow> finite (members s) \<and> ms_eager s \<inter> ms_lazy s = {} \<and>
     length (ms_preferred_eager s) \<le> ms_max_eager_degree s"

definition over :: "MeshState \<Rightarrow> nat" where
  "over s = card (ms_eager s) - ms_max_eager_degree s"

definition env_ok :: "mesh_env \<Rightarrow> bool" where
  "env_ok env \<longleftrightarrow> (\<forall>S. finite S \<longrightarrow> iterates_set (me_order env S) S)"

definition keeps_mesh :: "mesh_env \<Rightarrow> instant \<Rightarrow> MeshState \<Rightarrow> MeshState \<Rightarrow> bool" where
  "keeps_mesh env now s s' \<longleftrightarrow>
     ms_cooling s' = ms_cooling s \<and> ms_preferred_eager s' = ms_preferred_eager s \<and>
     ms_max_eager_degree s' = ms_max_eager_degree s \<and>
     ms_configured_max_eager_degree s' = ms_configured_max_eager_degree s \<and>
     ms_live_subscribers s' = ms_live_subscribers s \<and>
     members s' = members s \<and> ms_eager s' \<inter> ms_lazy s' = {} \<and> over s' \<le> over s \<and>
     (\<forall>p \<in> ms_eager s. is_healthy_preferred_at env s p now \<longrightarrow> p \<in> ms_eager s')"

lemma mesh_wfD:
  assumes "mesh_wf s"
  shows "finite (ms_eager s)" "finite (ms_lazy s)" "ms_eager s \<inter> ms_lazy s = {}"
    "length (ms_preferred_eager s) \<le> ms_max_eager_degree s"
  using assms by (auto simp: mesh_wf_def members_def)

lemma keeps_mesh_wf: "keeps_mesh env now s s' \<Longrightarrow> mesh_wf s \<Longrightarrow> mesh_wf s'"
  by (simp add: keeps_mesh_def mesh_wf_def)

lemma keeps_mesh_preds:
  assumes "keeps_mesh env now s s'"
  shows "can_graft_peer_at s' p t = can_graft_peer_at s p t"
    "is_score_eligible_for_eager_at env s' p t = is_score_eligible_for_eager_at env s p t"
    "is_healthy_preferred_at env s' p t = is_healthy_preferred_at env s p t"
    "is_peer_suppressed_at s' p t = is_peer_suppressed_at s p t"
    "members s' = members s" "ms_preferred_eager s' = ms_preferred_eager s"
    "ms_max_eager_degree s' = ms_max_eager_degree s"
  using assms
  by (simp_all add: keeps_mesh_def can_graft_peer_at_def is_score_eligible_for_eager_at_def
      is_healthy_preferred_at_def is_peer_suppressed_at_def)

lemma keeps_mesh_refl: "mesh_wf s \<Longrightarrow> keeps_mesh env now s s"
  by (simp add: keeps_mesh_def mesh_wf_def)

lemma keeps_mesh_trans:
  assumes "keeps_mesh env now s s'" "keeps_mesh env now s' s''"
  shows "keeps_mesh env now s s''"
  using assms keeps_mesh_preds(3) [OF assms(1)] by (auto simp: keeps_mesh_def)

lemma prune_keeps:
  assumes "mesh_wf s" "\<not> is_healthy_preferred_at env s p now"
  shows "keeps_mesh env now s (snd (prune_peer p s))"
proof -
  have "card (ms_eager s - {p}) \<le> card (ms_eager s)" using mesh_wfD [OF assms(1)] by (simp add: card_Diff1_le)
  then show ?thesis using assms
    by (auto simp: keeps_mesh_def prune_peer_def members_def over_def mesh_wf_def)
qed

lemma graft_keeps:
  assumes "mesh_wf s"
  shows "keeps_mesh env now s (snd (graft_peer_at p t s))"
  using mesh_wfD [OF assms] by (auto simp: keeps_mesh_def graft_peer_at_def members_def over_def card_insert_if)

lemma graft_succeeds:
  assumes "card (ms_eager s) < ms_max_eager_degree s" "can_graft_peer_at s p now" "p \<in> ms_lazy s"
  shows "graft_peer_at p now s =
    (True, s\<lparr>ms_lazy := ms_lazy s - {p}, ms_eager := insert p (ms_eager s)\<rparr>)"
  using assms by (simp add: graft_peer_at_def)

lemma env_okD: "env_ok env \<Longrightarrow> finite S \<Longrightarrow> set (me_order env S) = S \<and> distinct (me_order env S)"
  by (auto simp: env_ok_def iterates_set_def)

lemma scored_eager_props:
  assumes "env_ok env" "finite (ms_eager s)"
  shows "fst ` set (scored_eager_peers_at env s now) = ms_eager s"
    "distinct (map fst (scored_eager_peers_at env s now))"
    "x \<in> set (scored_eager_peers_at env s now) \<Longrightarrow> snd x = me_score env (fst x) now"
proof -
  have o: "set (me_order env (ms_eager s)) = ms_eager s" "distinct (me_order env (ms_eager s))"
    using env_okD [OF assms] by auto
  show "fst ` set (scored_eager_peers_at env s now) = ms_eager s"
    by (simp add: scored_eager_peers_at_def image_image o)
  show "distinct (map fst (scored_eager_peers_at env s now))"
    by (simp add: scored_eager_peers_at_def o comp_def)
  show "x \<in> set (scored_eager_peers_at env s now) \<Longrightarrow> snd x = me_score env (fst x) now"
    by (auto simp: scored_eager_peers_at_def)
qed

lemma scored_lazy_props:
  assumes "env_ok env" "finite (ms_lazy s)"
  shows "fst ` set (scored_lazy_peers_at env s now) = {p \<in> ms_lazy s. can_graft_peer_at s p now}"
    "distinct (map fst (scored_lazy_peers_at env s now))"
    "x \<in> set (scored_lazy_peers_at env s now) \<Longrightarrow> snd x = me_score env (fst x) now"
proof -
  have o: "set (me_order env (ms_lazy s)) = ms_lazy s" "distinct (me_order env (ms_lazy s))"
    using env_okD [OF assms] by auto
  show "fst ` set (scored_lazy_peers_at env s now) = {p \<in> ms_lazy s. can_graft_peer_at s p now}"
    by (auto simp: scored_lazy_peers_at_def image_image o)
  show "distinct (map fst (scored_lazy_peers_at env s now))"
    by (simp add: scored_lazy_peers_at_def o comp_def)
  show "x \<in> set (scored_lazy_peers_at env s now) \<Longrightarrow> snd x = me_score env (fst x) now"
    by (auto simp: scored_lazy_peers_at_def)
qed

lemma scored_mem:
  assumes "env_ok env" "mesh_wf s"
  shows "x \<in> set (scored_eager_peers_at env s now) \<Longrightarrow> fst x \<in> ms_eager s"
    "x \<in> set (scored_lazy_peers_at env s now) \<Longrightarrow> fst x \<in> ms_lazy s"
    "x \<in> set (scored_lazy_peers_at env s now) \<Longrightarrow> can_graft_peer_at s (fst x) now"
  using scored_eager_props(1) [OF assms(1) mesh_wfD(1) [OF assms(2)], of now]
    scored_lazy_props(1) [OF assms(1) mesh_wfD(2) [OF assms(2)], of now] by blast+

subsection \<open>Preferred peers\<close>

definition prefs_eager :: "mesh_env \<Rightarrow> instant \<Rightarrow> MeshState \<Rightarrow> bool" where
  "prefs_eager env now s \<longleftrightarrow>
     (\<forall>p \<in> members s. is_healthy_preferred_at env s p now \<longrightarrow> p \<in> ms_eager s)"

text \<open>What a call of the maintenance promises, as far as the calls inside it need it.\<close>

definition settles :: "mesh_env \<Rightarrow> instant \<Rightarrow> (MeshState \<Rightarrow> moved option) \<Rightarrow> MeshState \<Rightarrow> bool" where
  "settles env now run s \<longleftrightarrow>
     (\<exists>pruned grafted s'. run s = Some (pruned, grafted, s') \<and> keeps_mesh env now s s' \<and> prefs_eager env now s')"

lemma settlesI: "run s = Some (pruned, grafted, s') \<Longrightarrow> keeps_mesh env now s s' \<Longrightarrow> prefs_eager env now s' \<Longrightarrow>
    settles env now run s"
  by (auto simp: settles_def)

lemma promote_preferred_ok:
  assumes "mesh_wf s" "peer \<in> ms_lazy s" "can_graft_peer_at s peer now"
    and "card (ms_eager s) \<ge> ms_max_eager_degree s \<Longrightarrow> settles env now again s"
  shows "\<exists>grafted s'. promote_preferred again n peer now s = Some (n, grafted, s') \<and> keeps_mesh env now s s' \<and>
    (is_healthy_preferred_at env s peer now \<longrightarrow> peer \<in> ms_eager s')"
proof (cases "card (ms_eager s) < ms_max_eager_degree s")
  case True
  from graft_succeeds [OF this assms(3,2)] graft_keeps [OF assms(1), of env now peer now] show ?thesis
    by (simp add: promote_preferred_def)
next
  case False
  then have "graft_peer_at peer now s = (False, s)" by (simp add: graft_peer_at_def)
  moreover obtain p g s' where "again s = Some (p, g, s')" "keeps_mesh env now s s'" "prefs_eager env now s'"
    using assms(4) False by (auto simp: settles_def)
  ultimately show ?thesis using assms(2) keeps_mesh_preds(3,5)
    by (fastforce simp: promote_preferred_def prefs_eager_def members_def)
qed

lemma healthy_card:
  assumes "P \<subseteq> {p. is_healthy_preferred_at env s p now}" "mesh_wf s"
  shows "finite P" "card P \<le> ms_max_eager_degree s"
proof -
  have "P \<subseteq> set (ms_preferred_eager s)" using assms(1) by (auto simp: is_healthy_preferred_at_def)
  then show "finite P" "card P \<le> ms_max_eager_degree s"
    using mesh_wfD(4) [OF assms(2)] card_mono [of "set (ms_preferred_eager s)" P]
      card_length [of "ms_preferred_eager s"] by (auto intro: finite_subset)
qed

lemma displaced_exists:
  assumes "env_ok env" "mesh_wf s" "peer \<notin> ms_eager s" "is_healthy_preferred_at env s peer now"
    "card (ms_eager s) \<ge> ms_max_eager_degree s"
  shows "find (\<lambda>x. \<not> is_healthy_preferred_at env s (fst x) now) (scored_eager_peers_at env s now) \<noteq> None"
proof
  assume "find (\<lambda>x. \<not> is_healthy_preferred_at env s (fst x) now) (scored_eager_peers_at env s now) = None"
  then have "\<forall>p \<in> ms_eager s. is_healthy_preferred_at env s p now"
    using scored_eager_props(1) [OF assms(1) mesh_wfD(1) [OF assms(2)], of now] by (metis (no_types, lifting) find_None_iff imageE)
  then have "insert peer (ms_eager s) \<subseteq> {p. is_healthy_preferred_at env s p now}" using assms(4) by auto
  from healthy_card(2) [OF this assms(2)] assms(3,5) mesh_wfD(1) [OF assms(2)] show False by simp
qed

lemma displaced_props:
  assumes "env_ok env" "mesh_wf s"
    "find (\<lambda>x. \<not> is_healthy_preferred_at env s (fst x) now) (scored_eager_peers_at env s now) = Some x"
  shows "fst x \<in> ms_eager s" "\<not> is_healthy_preferred_at env s (fst x) now"
  using assms(3) scored_eager_props(1) [OF assms(1) mesh_wfD(1) [OF assms(2)], of now]
  by (auto simp: find_Some_iff)

lemma prefer_eager_peer_ok:
  assumes "env_ok env" "mesh_wf s"
    and again: "\<And>t. mesh_wf t \<Longrightarrow> over t < over s \<Longrightarrow> settles env now again t"
  shows "\<exists>pruned grafted s'. prefer_eager_peer_at env again peer now s = Some (pruned, grafted, s') \<and>
    keeps_mesh env now s s' \<and>
    (peer \<in> members s \<longrightarrow> is_healthy_preferred_at env s peer now \<longrightarrow> peer \<in> ms_eager s')"
proof (cases "peer \<in> ms_eager s \<or> peer \<notin> ms_lazy s \<or> \<not> is_score_eligible_for_eager_at env s peer now")
  case True
  then show ?thesis using keeps_mesh_refl [OF assms(2)]
    by (auto simp: prefer_eager_peer_at_def members_def is_healthy_preferred_at_def)
next
  case False
  then have lz: "peer \<in> ms_lazy s" "peer \<notin> ms_eager s" "can_graft_peer_at s peer now"
    by (auto simp: is_score_eligible_for_eager_at_def)
  show ?thesis
  proof (cases "card (ms_eager s) < ms_max_eager_degree s")
    case True
    then obtain g s' where "promote_preferred again 0 peer now s = Some (0, g, s')" "keeps_mesh env now s s'"
      "is_healthy_preferred_at env s peer now \<longrightarrow> peer \<in> ms_eager s'"
      using promote_preferred_ok [OF assms(2) lz(1,3), of env again 0] by auto
    then show ?thesis using True False by (auto simp: prefer_eager_peer_at_def)
  next
    case full: False
    show ?thesis
    proof (cases "find (\<lambda>x. \<not> is_healthy_preferred_at env s (fst x) now) (scored_eager_peers_at env s now)")
      case None
      then show ?thesis using displaced_exists [OF assms(1,2) lz(2), of now] full False keeps_mesh_refl [OF assms(2)]
        by (auto simp: prefer_eager_peer_at_def)
    next
      case (Some x)
      let ?s1 = "snd (prune_peer (fst x) s)"
      note d = displaced_props [OF assms(1,2) Some]
      have k: "keeps_mesh env now s ?s1" using prune_keeps [OF assms(2) d(2)] .
      have wf: "mesh_wf ?s1" using keeps_mesh_wf [OF k assms(2)] .
      have p: "prune_peer (fst x) s = (True, ?s1)" using d(1) by (simp add: prune_peer_def)
      have c: "card (ms_eager ?s1) = card (ms_eager s) - 1" "card (ms_eager s) \<ge> 1"
        using d(1) mesh_wfD(1) [OF assms(2)] card_gt_0_iff [of "ms_eager s"] by (auto simp: prune_peer_fields)
      have "settles env now again ?s1" if "card (ms_eager ?s1) \<ge> ms_max_eager_degree ?s1"
        using again [OF wf] that c keeps_mesh_preds(7) [OF k] by (auto simp: over_def)
      moreover have "peer \<in> ms_lazy ?s1" "can_graft_peer_at ?s1 peer now"
        using lz keeps_mesh_preds(1) [OF k] by (auto simp: prune_peer_def)
      ultimately obtain g s' where s': "promote_preferred again 1 peer now ?s1 = Some (1, g, s')"
        "keeps_mesh env now ?s1 s'" "is_healthy_preferred_at env ?s1 peer now \<longrightarrow> peer \<in> ms_eager s'"
        using promote_preferred_ok [OF wf] by blast
      then have "prefer_eager_peer_at env again peer now s = Some (1, g, s')"
        using False full Some p d(1) by (simp add: prefer_eager_peer_at_def case_prod_beta prune_peer_def)
      then show ?thesis using keeps_mesh_trans [OF k s'(2)] s'(3) keeps_mesh_preds(3) [OF k] by auto
    qed
  qed
qed

lemma apply_preferred_loop_ok:
  assumes "env_ok env" "mesh_wf s"
    and again: "\<And>t. mesh_wf t \<Longrightarrow> over t < over s \<Longrightarrow> settles env now again t"
  shows "\<exists>pruned grafted s'. apply_preferred_loop env again now peers a b s = Some (pruned, grafted, s') \<and>
    keeps_mesh env now s s' \<and>
    (\<forall>p \<in> set peers \<inter> members s. is_healthy_preferred_at env s p now \<longrightarrow> p \<in> ms_eager s')"
  using assms(2) again
proof (induction peers arbitrary: a b s)
  case Nil
  then show ?case by (simp add: keeps_mesh_refl)
next
  case (Cons peer peers)
  have "\<exists>a' b' s1. apply_preferred_loop env again now (peer # peers) a b s =
      apply_preferred_loop env again now peers a' b' s1 \<and> keeps_mesh env now s s1 \<and>
      (peer \<in> members s \<longrightarrow> is_healthy_preferred_at env s peer now \<longrightarrow> peer \<in> ms_eager s1)"
  proof (cases "peer \<in> ms_eager s \<and> \<not> is_score_eligible_for_eager_at env s peer now")
    case True
    then have "\<not> is_healthy_preferred_at env s peer now" by (simp add: is_healthy_preferred_at_def)
    with prune_keeps [OF Cons.prems(1) this] True show ?thesis by (auto simp: case_prod_beta)
  next
    case False
    with prefer_eager_peer_ok [OF assms(1) Cons.prems, of peer] show ?thesis by fastforce
  qed
  then obtain a' b' s1 where s1: "apply_preferred_loop env again now (peer # peers) a b s =
      apply_preferred_loop env again now peers a' b' s1" "keeps_mesh env now s s1"
      "peer \<in> members s \<longrightarrow> is_healthy_preferred_at env s peer now \<longrightarrow> peer \<in> ms_eager s1" by blast
  have "over s1 \<le> over s" using s1(2) by (simp add: keeps_mesh_def)
  then obtain p g s' where s': "apply_preferred_loop env again now peers a' b' s1 = Some (p, g, s')"
    "keeps_mesh env now s1 s'" "\<forall>p \<in> set peers \<inter> members s1. is_healthy_preferred_at env s1 p now \<longrightarrow> p \<in> ms_eager s'"
    using Cons.IH [OF keeps_mesh_wf [OF s1(2) Cons.prems(1)]] Cons.prems(2) order.strict_trans2 by metis
  have "peer \<in> members s \<longrightarrow> is_healthy_preferred_at env s peer now \<longrightarrow> peer \<in> ms_eager s'"
    using s1(2,3) s'(2) keeps_mesh_preds(3) [OF s1(2)] by (auto simp: keeps_mesh_def)
  then show ?case using s1(1) s'(1,3) keeps_mesh_trans [OF s1(2) s'(2)] keeps_mesh_preds(3,5) [OF s1(2)] by auto
qed

subsection \<open>The degree\<close>

lemma prune_all_state [simp]: "snd (prune_all (p # ps) s) = snd (prune_all ps (snd (prune_peer p s)))"
  by (simp add: case_prod_beta Let_def)

lemma prune_all_keeps:
  assumes "mesh_wf s" "\<forall>p \<in> set ps. \<not> is_healthy_preferred_at env s p now"
  shows "keeps_mesh env now s (snd (prune_all ps s)) \<and> ms_eager (snd (prune_all ps s)) = ms_eager s - set ps"
  using assms
proof (induction ps arbitrary: s)
  case Nil
  then show ?case by (simp add: keeps_mesh_refl)
next
  case (Cons p ps)
  note [simp del] = prune_all.simps(2)
  have k: "keeps_mesh env now s (snd (prune_peer p s))" using prune_keeps Cons.prems by simp
  have "keeps_mesh env now (snd (prune_peer p s)) (snd (prune_all ps (snd (prune_peer p s)))) \<and>
      ms_eager (snd (prune_all ps (snd (prune_peer p s)))) = ms_eager (snd (prune_peer p s)) - set ps"
    using Cons.IH [OF keeps_mesh_wf [OF k Cons.prems(1)]] Cons.prems(2) keeps_mesh_preds(3) [OF k] by simp
  then show ?case using keeps_mesh_trans [OF k] by (auto simp: prune_peer_fields)
qed

lemma demote_excess_ok:
  assumes "env_ok env" "mesh_wf s"
  shows "keeps_mesh env now s (snd (demote_excess_eager env now s)) \<and> over (snd (demote_excess_eager env now s)) = 0"
proof (cases "card (ms_eager s) > ms_max_eager_degree s")
  case True
  let ?scored = "map fst (scored_eager_peers_at env s now)"
  let ?H = "\<lambda>p. is_healthy_preferred_at env s p now"
  let ?d = "card (ms_eager s) - ms_max_eager_degree s"
  let ?ps = "take ?d (filter (\<lambda>p. \<not> ?H p) ?scored)"
  have fin: "finite (ms_eager s)" using mesh_wfD(1) [OF assms(2)] .
  have sc: "set ?scored = ms_eager s" "distinct ?scored" using scored_eager_props [OF assms(1) fin] by auto
  have "card {p \<in> ms_eager s. ?H p} \<le> ms_max_eager_degree s"
    by (rule healthy_card(2) [OF _ assms(2), of _ env now]) auto
  moreover have "card (ms_eager s) = card {p \<in> ms_eager s. ?H p} + card {p \<in> ms_eager s. \<not> ?H p}"
    using fin by (subst card_Un_disjoint [symmetric]) (auto intro: arg_cong [where f = card])
  moreover have "length (filter (\<lambda>p. \<not> ?H p) ?scored) = card {p \<in> ms_eager s. \<not> ?H p}"
    using distinct_card [OF distinct_filter [OF sc(2)], of "\<lambda>p. \<not> ?H p"] by (simp only: set_filter sc(1))
  ultimately have len: "length ?ps = ?d" by simp
  define ps where "ps = ?ps"
  have eq: "demote_excess_eager env now s = prune_all ps s" using True len unfolding ps_def
    by (simp add: demote_excess_eager_def Let_def)
  have sub: "set ps \<subseteq> {p \<in> ms_eager s. \<not> ?H p}" using set_take_subset sc(1) unfolding ps_def by fastforce
  have "card (set ps) = ?d" using len distinct_card sc(2) unfolding ps_def by (metis distinct_filter distinct_take)
  moreover have "card (ms_eager s - set ps) = card (ms_eager s) - card (set ps)"
    using sub fin by (intro card_Diff_subset) auto
  ultimately have c: "card (ms_eager s - set ps) = ms_max_eager_degree s" using True by simp
  have k: "keeps_mesh env now s (snd (prune_all ps s))" "ms_eager (snd (prune_all ps s)) = ms_eager s - set ps"
    using prune_all_keeps [OF assms(2), of ps env now] sub by auto
  show ?thesis unfolding eq over_def using k c keeps_mesh_preds(7) [OF k(1)] by simp
next
  case False
  then show ?thesis using keeps_mesh_refl [OF assms(2)] by (simp add: demote_excess_eager_def over_def)
qed

lemma graft_all_state [simp]: "snd (graft_all now (p # ps) s) = snd (graft_all now ps (snd (graft_peer_at p now s)))"
  by (simp add: case_prod_beta Let_def)

lemma graft_all_keeps:
  assumes "mesh_wf s" "distinct ps" "set ps \<subseteq> {p \<in> ms_lazy s. can_graft_peer_at s p now}"
    "card (ms_eager s) + length ps \<le> ms_max_eager_degree s"
  shows "keeps_mesh env now s (snd (graft_all now ps s)) \<and>
    ms_eager (snd (graft_all now ps s)) = ms_eager s \<union> set ps"
  using assms
proof (induction ps arbitrary: s)
  case Nil
  then show ?case by (simp add: keeps_mesh_refl)
next
  case (Cons p ps)
  note [simp del] = graft_all.simps(2)
  let ?s1 = "s\<lparr>ms_lazy := ms_lazy s - {p}, ms_eager := insert p (ms_eager s)\<rparr>"
  have g: "snd (graft_peer_at p now s) = ?s1" using graft_succeeds [of s p now] Cons.prems by simp
  have k: "keeps_mesh env now s ?s1" using graft_keeps [OF Cons.prems(1), of env now p now] g by simp
  have "card (insert p (ms_eager s)) = Suc (card (ms_eager s))"
    using Cons.prems(3) mesh_wfD [OF Cons.prems(1)] by (subst card_insert_disjoint) auto
  then have "keeps_mesh env now ?s1 (snd (graft_all now ps ?s1)) \<and>
      ms_eager (snd (graft_all now ps ?s1)) = ms_eager ?s1 \<union> set ps"
    using Cons.prems(2,3,4) keeps_mesh_preds(1) [OF k] by (intro Cons.IH keeps_mesh_wf [OF k Cons.prems(1)]) auto
  then show ?case using keeps_mesh_trans [OF k] g by auto
qed

definition degree_settled :: "instant \<Rightarrow> MeshState \<Rightarrow> bool" where
  "degree_settled now s \<longleftrightarrow>
     (card (ms_eager s) < min MIN_EAGER_DEGREE (ms_max_eager_degree s) \<longrightarrow>
      (\<forall>p \<in> ms_lazy s. can_graft_peer_at s p now \<longrightarrow> p \<in> set (ms_preferred_eager s)))"

text \<open>The list of peers to promote: a prefix of two lists, whole when it is short.\<close>

lemma take_two_lists:
  fixes n :: nat
  defines "q xs ys \<equiv> (if length (take n xs) < n then take n xs @ take (n - length (take n xs)) ys else take n xs)"
  shows "set (q xs ys) \<subseteq> set (xs @ ys)" "distinct (xs @ ys) \<Longrightarrow> distinct (q xs ys)" "length (q xs ys) \<le> n"
    "length (q xs ys) < n \<Longrightarrow> q xs ys = xs @ ys"
proof -
  show sub: "set (q xs ys) \<subseteq> set (xs @ ys)"
    using set_take_subset [of n xs] set_take_subset [of "n - length (take n xs)" ys] by (auto simp: q_def)
  show "distinct (q xs ys)" if "distinct (xs @ ys)"
    using that set_take_subset [of n xs] set_take_subset [of "n - length (take n xs)" ys] by (auto simp: q_def)
  show "length (q xs ys) \<le> n" by (auto simp: q_def)
  show "length (q xs ys) < n \<Longrightarrow> q xs ys = xs @ ys" by (auto simp: q_def split: if_splits)
qed

lemma filter_by_score:
  assumes "\<And>x. x \<in> set xs \<Longrightarrow> snd x = f (fst x)"
  shows "\<forall>p \<in> set (map fst (filter (\<lambda>x. P (snd x)) (filter Q xs))). P (f p)"
  using assms by fastforce

lemma promote_lazy_ok:
  assumes "env_ok env" "mesh_wf s" "over s = 0"
  shows "keeps_mesh env now s (snd (promote_lazy env now s)) \<and> degree_settled now (snd (promote_lazy env now s))"
proof (cases "card (ms_eager s) < min MIN_EAGER_DEGREE (ms_max_eager_degree s) \<and> ms_lazy s \<noteq> {}")
  case True
  let ?n = "min MIN_EAGER_DEGREE (ms_max_eager_degree s) - card (ms_eager s)"
  let ?others = "filter (\<lambda>x. fst x \<notin> set (ms_preferred_eager s)) (scored_lazy_peers_at env s now)"
  define xs where "xs = map fst (filter (\<lambda>x. snd x \<ge> PEER_SCORE_EAGER_MIN) ?others)"
  define ys where "ys = map fst (filter (\<lambda>x. snd x < PEER_SCORE_EAGER_MIN) ?others)"
  define ps where "ps = (if length (take ?n xs) < ?n then take ?n xs @ take (?n - length (take ?n xs)) ys else take ?n xs)"
  note sc = scored_lazy_props [OF assms(1) mesh_wfD(2) [OF assms(2)], where now = now]
  have eq: "promote_lazy env now s = graft_all now ps s"
    using True by (simp add: promote_lazy_def Let_def ps_def xs_def ys_def)
  have "set (xs @ ys) = {p \<in> fst ` set (scored_lazy_peers_at env s now). p \<notin> set (ms_preferred_eager s)}"
    unfolding xs_def ys_def by (auto simp: not_le intro!: image_eqI)
  then have all: "set (xs @ ys) = {p \<in> ms_lazy s. can_graft_peer_at s p now \<and> p \<notin> set (ms_preferred_eager s)}"
    by (auto simp only: sc(1))
  have "distinct xs" "distinct ys" using sc(2) unfolding xs_def ys_def by (simp_all add: distinct_map_filter)
  moreover have "\<forall>p \<in> set xs. PEER_SCORE_EAGER_MIN \<le> me_score env p now"
    "\<forall>p \<in> set ys. me_score env p now < PEER_SCORE_EAGER_MIN"
    unfolding xs_def ys_def using sc(3) by (intro filter_by_score; blast)+
  then have "set xs \<inter> set ys = {}" by force
  ultimately have dist: "distinct (xs @ ys)" by simp
  note two = take_two_lists [where n = ?n and xs = xs and ys = ys, folded ps_def]
  have sub: "set ps \<subseteq> {p \<in> ms_lazy s. can_graft_peer_at s p now}" using two(1) all by blast
  have len: "card (ms_eager s) + length ps \<le> ms_max_eager_degree s" using two(3) True by linarith
  have k: "keeps_mesh env now s (snd (graft_all now ps s))" "ms_eager (snd (graft_all now ps s)) = ms_eager s \<union> set ps"
    using graft_all_keeps [OF assms(2) two(2) [OF dist] sub len, of env] by auto
  have "degree_settled now (snd (graft_all now ps s))"
  proof (cases "length ps < ?n")
    case short: True
    then have "set ps = set (xs @ ys)" using two(4) by simp
    moreover have "ms_lazy (snd (graft_all now ps s)) \<subseteq> ms_lazy s - set ps"
      using k unfolding keeps_mesh_def members_def by blast
    ultimately show ?thesis using all keeps_mesh_preds(1,6) [OF k(1)] by (auto simp: degree_settled_def)
  next
    case False
    have "card (set ps) = length ps" using distinct_card [OF two(2) [OF dist]] .
    moreover have "card (ms_eager s \<union> set ps) = card (ms_eager s) + card (set ps)"
      using two(1) all mesh_wfD [OF assms(2)] by (intro card_Un_disjoint) auto
    ultimately show ?thesis using False k(2) keeps_mesh_preds(7) [OF k(1)] by (auto simp: degree_settled_def)
  qed
  then show ?thesis using k(1) by (simp add: eq)
next
  case False
  then show ?thesis using keeps_mesh_refl [OF assms(2)] by (auto simp: promote_lazy_def Let_def degree_settled_def)
qed

lemma opportunistic_loop_done: "opportunistic_loop now es ls n 1 s = (n, 1, s)"
  by (cases es; cases ls) (auto simp: OPPORTUNISTIC_GRAFT_MAX_REPLACEMENTS_def)

lemma opportunistic_loop_ok:
  assumes "mesh_wf s" "card (ms_eager s) \<le> ms_max_eager_degree s"
    and "\<forall>x \<in> set es. fst x \<in> ms_eager s \<and> \<not> is_healthy_preferred_at env s (fst x) now"
    and "\<forall>x \<in> set ls. fst x \<in> ms_lazy s \<and> can_graft_peer_at s (fst x) now"
    and "opportunistic_loop now es ls 0 0 s = (p, g, s')"
  shows "keeps_mesh env now s s' \<and> card (ms_eager s') = card (ms_eager s)"
proof (cases "es = [] \<or> ls = []")
  case True
  then have "s' = s" using assms(5) by (cases es; cases ls) auto
  then show ?thesis using keeps_mesh_refl [OF assms(1)] by simp
next
  case False
  then obtain e es' l ls' where el: "es = e # es'" "ls = l # ls'" by (meson list.exhaust)
  let ?s1 = "snd (prune_peer (fst e) s)"
  have e: "fst e \<in> ms_eager s" "\<not> is_healthy_preferred_at env s (fst e) now" and
    l: "fst l \<in> ms_lazy s" "can_graft_peer_at s (fst l) now" using assms(3,4) el by auto
  have k: "keeps_mesh env now s ?s1" using prune_keeps [OF assms(1) e(2)] .
  have wf: "mesh_wf ?s1" using keeps_mesh_wf [OF k assms(1)] .
  have c: "card (ms_eager ?s1) = card (ms_eager s) - 1" "card (ms_eager s) \<ge> 1"
    using e(1) mesh_wfD(1) [OF assms(1)] card_gt_0_iff [of "ms_eager s"] by (auto simp: prune_peer_fields)
  have g: "graft_peer_at (fst l) now ?s1 =
      (True, ?s1\<lparr>ms_lazy := ms_lazy ?s1 - {fst l}, ms_eager := insert (fst l) (ms_eager ?s1)\<rparr>)"
    using c assms(2) l keeps_mesh_preds(1,7) [OF k] e(1) by (intro graft_succeeds) (auto simp: prune_peer_def)
  have "fst l \<notin> ms_eager ?s1" using l(1) mesh_wfD(3) [OF assms(1)] by (auto simp: prune_peer_fields)
  then have "card (ms_eager (snd (graft_peer_at (fst l) now ?s1))) = card (ms_eager s)"
    using g c mesh_wfD(1) [OF wf] by simp
  moreover have "s' = s \<or> s' = snd (graft_peer_at (fst l) now ?s1)"
    using assms(5) el g e(1) opportunistic_loop_done [of now es' ls' 1]
    by (cases e; cases l) (auto simp: case_prod_beta prune_peer_def split: if_splits)
  ultimately show ?thesis
    using keeps_mesh_refl [OF assms(1)] keeps_mesh_trans [OF k graft_keeps [OF wf]] by auto
qed

lemma opportunistic_graft_ok:
  assumes "env_ok env" "mesh_wf s" "opportunistic_graft_at env now s = (p, g, s')" "degree_settled now s"
  shows "keeps_mesh env now s s' \<and> degree_settled now s'"
proof (cases "card (ms_eager s) < min MIN_EAGER_DEGREE (ms_max_eager_degree s) \<or>
    card (ms_eager s) > ms_max_eager_degree s \<or> ms_lazy s = {} \<or>
    (case ms_last_opportunistic_graft s of None \<Rightarrow> False | Some t \<Rightarrow> now - t < OPPORTUNISTIC_GRAFT_INTERVAL)")
  case True
  then have "s' = s" using assms(3) by (auto simp: opportunistic_graft_at_def split: if_splits)
  then show ?thesis using keeps_mesh_refl [OF assms(2)] assms(4) by simp
next
  case False
  let ?s = "s\<lparr>ms_last_opportunistic_graft := Some now\<rparr>"
  have ks: "keeps_mesh env now s ?s" using assms(2) by (simp add: keeps_mesh_def mesh_wf_def members_def over_def)
  have wf: "mesh_wf ?s" using keeps_mesh_wf [OF ks assms(2)] .
  let ?es = "filter (\<lambda>x. \<not> is_healthy_preferred_at env ?s (fst x) now) (scored_eager_peers_at env ?s now)"
  let ?ls = "filter (\<lambda>x. snd x \<ge> PEER_SCORE_EAGER_MIN) (scored_lazy_peers_at env ?s now)"
  have run: "opportunistic_loop now ?es ?ls 0 0 ?s = (p, g, s')"
    using assms(3) False by (simp only: opportunistic_graft_at_def Let_def de_Morgan_disj if_False simp_thms)
  have es: "\<forall>x \<in> set ?es. fst x \<in> ms_eager ?s \<and> \<not> is_healthy_preferred_at env ?s (fst x) now"
    using scored_mem(1) [OF assms(1) wf] unfolding set_filter by blast
  have ls: "\<forall>x \<in> set ?ls. fst x \<in> ms_lazy ?s \<and> can_graft_peer_at ?s (fst x) now"
    using scored_mem(2,3) [OF assms(1) wf] unfolding set_filter by blast
  have "card (ms_eager ?s) \<le> ms_max_eager_degree ?s" using False by simp
  from opportunistic_loop_ok [OF wf this es ls run] have k: "keeps_mesh env now ?s s'" "card (ms_eager s') = card (ms_eager s)"
    by auto
  then show ?thesis using keeps_mesh_trans [OF ks k(1)] False keeps_mesh_preds(7) [OF k(1)]
    by (auto simp: degree_settled_def)
qed

lemma prefs_eager_keeps: "keeps_mesh env now s s' \<Longrightarrow> prefs_eager env now s \<Longrightarrow> prefs_eager env now s'"
  unfolding prefs_eager_def by (simp add: keeps_mesh_preds) (auto simp: keeps_mesh_def)

lemma maintain_degree_at_ok:
  assumes "env_ok env" "mesh_wf s" "over s < fuel"
  shows "\<exists>pruned grafted s'. maintain_degree_at fuel env now s = Some (pruned, grafted, s') \<and>
    keeps_mesh env now s s' \<and> over s' = 0 \<and> prefs_eager env now s' \<and> degree_settled now s'"
  using assms(2,3)
proof (induction fuel arbitrary: s)
  case (Suc fuel)
  have again: "settles env now (maintain_degree_at fuel env now) t" if "mesh_wf t" "over t < over s" for t
    using Suc.IH [OF that(1)] that(2) Suc.prems(2) unfolding settles_def by (meson less_Suc_eq_le order_less_le_trans)
  obtain p g s1 where s1: "apply_preferred_eager_at env (maintain_degree_at fuel env now) now s = Some (p, g, s1)"
    "keeps_mesh env now s s1"
    "\<forall>p \<in> set (ms_preferred_eager s) \<inter> members s. is_healthy_preferred_at env s p now \<longrightarrow> p \<in> ms_eager s1"
    using apply_preferred_loop_ok [OF assms(1) Suc.prems(1) again, of "ms_preferred_eager s" 0 0]
    unfolding apply_preferred_eager_at_def by blast
  have pe: "prefs_eager env now s1" using s1(2,3) keeps_mesh_preds(3,5) [OF s1(2)]
    by (auto simp: prefs_eager_def is_healthy_preferred_at_def)
  obtain n2 s2 where s2: "demote_excess_eager env now s1 = (n2, s2)" by fastforce
  obtain n3 s3 where s3: "promote_lazy env now s2 = (n3, s3)" by fastforce
  obtain n4 n5 s4 where s4: "opportunistic_graft_at env now s3 = (n4, n5, s4)" using prod_cases3 by blast
  have wf1: "mesh_wf s1" using keeps_mesh_wf [OF s1(2) Suc.prems(1)] .
  have k2: "keeps_mesh env now s1 s2" "over s2 = 0" using demote_excess_ok [OF assms(1) wf1, of now] s2 by auto
  have wf2: "mesh_wf s2" using keeps_mesh_wf [OF k2(1) wf1] .
  have k3: "keeps_mesh env now s2 s3" "degree_settled now s3"
    using promote_lazy_ok [OF assms(1) wf2 k2(2), of now] s3 by auto
  have k4: "keeps_mesh env now s3 s4" "degree_settled now s4"
    using opportunistic_graft_ok [OF assms(1) keeps_mesh_wf [OF k3(1) wf2] s4 k3(2)] by auto
  have k: "keeps_mesh env now s2 s4" using keeps_mesh_trans [OF k3(1) k4(1)] .
  have k': "keeps_mesh env now s1 s4" using keeps_mesh_trans [OF k2(1) k] .
  have "maintain_degree_at (Suc fuel) env now s = Some (p + n2 + n4, g + n3 + n5, s4)"
    using s1(1) s2 s3 s4 by simp
  moreover have "over s4 = 0" using k k2(2) by (simp add: keeps_mesh_def)
  ultimately show ?case
    using keeps_mesh_trans [OF s1(2) k'] prefs_eager_keeps [OF k' pe] k4(2) by blast
qed simp

lemma maintain_degree_ok:
  assumes "env_ok env" "mesh_wf s"
  obtains pruned grafted s' where "maintain_degree env now s = Some (pruned, grafted, s')"
    "keeps_mesh env now s s'" "over s' = 0" "prefs_eager env now s'" "degree_settled now s'"
  using maintain_degree_at_ok [OF assms, of "mesh_fuel s" now] unfolding maintain_degree_def mesh_fuel_def over_def
  by auto

subsection \<open>Runs of a topic\<close>

inductive topic_step :: "MeshState \<Rightarrow> MeshState \<Rightarrow> bool" where
  topic_cooling: "mesh_step s s' \<Longrightarrow> topic_step s s'"
| topic_maintain: "env_ok env \<Longrightarrow> maintain_degree env now s = Some (p, g, s') \<Longrightarrow> topic_step s s'"
| topic_initialize: "env_ok env \<Longrightarrow> initialize_topic_peers env now peers s = Some (p, g, s') \<Longrightarrow> topic_step s s'"
| topic_prefer: "env_ok env \<Longrightarrow> set_topic_preferred_eager_set env now peers s = Some (k, p, g, s') \<Longrightarrow> topic_step s s'"
| topic_members: "env_ok env \<Longrightarrow> finite connected_set \<Longrightarrow>
    set_topic_peers_with_preferred_eager env now connected_set preferred s = Some (ok, p, g, s') \<Longrightarrow> topic_step s s'"
| topic_ceiling: "env_ok env \<Longrightarrow> set_eager_degree_ceiling env now degree s = Some (p, g, s') \<Longrightarrow> topic_step s s'"
| topic_rescue: "env_ok env \<Longrightarrow> topic_step s (snd (rescue_suppressed_eager_peer_if_needed_at env now s))"

definition topic_inv :: "MeshState \<Rightarrow> bool" where
  "topic_inv s \<longleftrightarrow> mesh_wf s \<and> over s = 0 \<and> length (ms_preferred_eager s) \<le> MAX_PREFERRED_EAGER_PEERS \<and>
     ms_max_eager_degree s = max (ms_configured_max_eager_degree s) (length (ms_preferred_eager s))"

lemma topic_invD: "topic_inv s \<Longrightarrow> mesh_wf s" "topic_inv s \<Longrightarrow> over s = 0"
  by (simp_all add: topic_inv_def)

text \<open>The fields that decide \<^const>\<open>topic_inv\<close>, and when a step keeps it.\<close>

lemma topic_inv_frame:
  assumes "topic_inv s" "ms_eager s' \<subseteq> ms_eager s" "ms_eager s' \<inter> ms_lazy s' = {}" "finite (ms_lazy s')"
    "ms_max_eager_degree s' = ms_max_eager_degree s" "ms_preferred_eager s' = ms_preferred_eager s"
    "ms_configured_max_eager_degree s' = ms_configured_max_eager_degree s"
  shows "topic_inv s'"
proof -
  have fin: "finite (ms_eager s)" using mesh_wfD(1) [OF topic_invD(1) [OF assms(1)]] .
  have "card (ms_eager s') \<le> card (ms_eager s)" using card_mono [OF fin assms(2)] .
  then show ?thesis using assms fin by (auto simp: topic_inv_def mesh_wf_def members_def over_def finite_subset)
qed

lemma topic_inv_keeps:
  assumes "keeps_mesh env now s s'" "mesh_wf s" "length (ms_preferred_eager s) \<le> MAX_PREFERRED_EAGER_PEERS"
    "ms_max_eager_degree s = max (ms_configured_max_eager_degree s) (length (ms_preferred_eager s))" "over s' = 0"
  shows "topic_inv s'"
  using assms keeps_mesh_wf [OF assms(1,2)] by (simp add: topic_inv_def keeps_mesh_def)

lemma finish_timeout_mesh:
  "ms_eager (snd (finish_timeout p r)) \<subseteq> ms_eager (snd r)"
  "ms_eager (snd r) \<inter> ms_lazy (snd r) = {} \<Longrightarrow> ms_eager (snd (finish_timeout p r)) \<inter> ms_lazy (snd (finish_timeout p r)) = {}"
  "finite (ms_lazy (snd r)) \<Longrightarrow> finite (ms_lazy (snd (finish_timeout p r)))"
  "ms_max_eager_degree (snd (finish_timeout p r)) = ms_max_eager_degree (snd r)"
  "ms_preferred_eager (snd (finish_timeout p r)) = ms_preferred_eager (snd r)"
  "ms_configured_max_eager_degree (snd (finish_timeout p r)) = ms_configured_max_eager_degree (snd r)"
  by (auto simp: finish_timeout_def case_prod_beta prune_peer_def split: timeout_event.split)

lemma record_send_timeout_mesh:
  obtains r where "snd (record_send_timeout cfg health attempt now s) = snd (finish_timeout (at_peer attempt) r)"
    "ms_eager (snd r) = ms_eager s" "ms_lazy (snd r) = ms_lazy s" "ms_max_eager_degree (snd r) = ms_max_eager_degree s"
    "ms_preferred_eager (snd r) = ms_preferred_eager s"
    "ms_configured_max_eager_degree (snd r) = ms_configured_max_eager_degree s"
proof -
  have "\<exists>r. snd (record_send_timeout cfg health attempt now s) = snd (finish_timeout (at_peer attempt) r) \<and>
    (\<exists>c. snd r = s\<lparr>ms_cooling := c\<rparr>)"
  proof -
    have "\<exists>c. s = s\<lparr>ms_cooling := c\<rparr>" by (rule exI [of _ "ms_cooling s"]) simp
    then have same: "\<exists>r. s = snd (finish_timeout (at_peer attempt) r) \<and> (\<exists>c. snd r = s\<lparr>ms_cooling := c\<rparr>)"
      by (intro exI [of _ "(NoEvent, s)"]) (simp add: finish_timeout_def)
    show ?thesis
    proof (cases "at_kind attempt")
      case NormalSend
      then show ?thesis by (auto simp: record_send_timeout_def Let_def case_prod_beta)
    next
      case RecoveryProbe
      then show ?thesis using same
        by (auto simp: record_send_timeout_def Let_def split: option.split)
    qed (use same in \<open>simp add: record_send_timeout_def Let_def\<close>)
  qed
  then show thesis using that by force
qed

lemma topic_inv_graft:
  assumes "topic_inv s" shows "topic_inv (snd (graft_peer_at p now s))"
proof -
  note wf = topic_invD(1) [OF assms]
  have "keeps_mesh env now s (snd (graft_peer_at p now s))" for env using graft_keeps [OF wf] .
  from topic_inv_keeps [OF this wf] this assms show ?thesis by (auto simp: topic_inv_def keeps_mesh_def)
qed

lemma topic_inv_timeout:
  assumes "topic_inv s" shows "topic_inv (snd (record_send_timeout cfg health attempt now s))"
proof -
  note wf = topic_invD(1) [OF assms]
  obtain r where r: "snd (record_send_timeout cfg health attempt now s) = snd (finish_timeout (at_peer attempt) r)"
    "ms_eager (snd r) = ms_eager s" "ms_lazy (snd r) = ms_lazy s" "ms_max_eager_degree (snd r) = ms_max_eager_degree s"
    "ms_preferred_eager (snd r) = ms_preferred_eager s"
    "ms_configured_max_eager_degree (snd r) = ms_configured_max_eager_degree s"
    by (rule record_send_timeout_mesh)
  show ?thesis unfolding r(1)
    using finish_timeout_mesh [where p = "at_peer attempt" and r = r] r mesh_wfD [OF wf] by (intro topic_inv_frame [OF assms]) auto
qed

lemma topic_inv_mesh_step: "mesh_step s s' \<Longrightarrow> topic_inv s \<Longrightarrow> topic_inv s'"
proof (induction rule: mesh_step.induct)
  case (mesh_timeout s cfg health attempt now)
  then show ?case by (rule topic_inv_timeout)
next
  case (mesh_graft s peer now)
  then show ?case by (rule topic_inv_graft)
qed (rule topic_inv_frame, assumption,
  (auto simp: mesh_claim_send_attempt_def confirm_cooldown_bypass_claim_def abandon_unsent_recovery_probe_def
    record_send_success_def prune_peer_def evict_not_connected_peer_def clear_disconnected_peer_cooling_def
    record_inbound_peer_activity_def clean_expired_peer_cooling_def prune_churned_cooling_def Let_def topic_inv_def mesh_wf_def members_def
    split: option.splits SendAttemptKind.splits prod.splits)[6])+

lemma add_new_all:
  fixes ps s
  defines "s' \<equiv> fold (\<lambda>p s. snd (add_new_peer_lazy p s)) ps s"
  shows "ms_eager s' = ms_eager s" "ms_lazy s' = ms_lazy s \<union> (set ps - ms_eager s)" "ms_cooling s' = ms_cooling s"
    "ms_max_eager_degree s' = ms_max_eager_degree s" "ms_preferred_eager s' = ms_preferred_eager s"
    "ms_configured_max_eager_degree s' = ms_configured_max_eager_degree s"
  unfolding s'_def by (induction ps arbitrary: s) (auto simp: add_new_peer_lazy_def)

lemma topic_inv_add_new:
  assumes "topic_inv s" shows "topic_inv (fold (\<lambda>p s. snd (add_new_peer_lazy p s)) ps s)"
  using mesh_wfD [OF topic_invD(1) [OF assms]] by (intro topic_inv_frame [OF assms]) (auto simp: add_new_all)

text \<open>Maintenance after a change of the ceiling or of the preferences re-establishes the invariant.\<close>

lemma topic_inv_maintain:
  assumes "env_ok env" "finite (members s)" "ms_eager s \<inter> ms_lazy s = {}"
    "length (ms_preferred_eager s) \<le> MAX_PREFERRED_EAGER_PEERS"
    "ms_max_eager_degree s = max (ms_configured_max_eager_degree s) (length (ms_preferred_eager s))"
    "maintain_degree env now s = Some (p, g, s')"
  shows "topic_inv s'"
proof -
  have wf: "mesh_wf s" using assms by (simp add: mesh_wf_def)
  from maintain_degree_ok [OF assms(1) this, of now] assms(6) have "keeps_mesh env now s s'" "over s' = 0"
    by (metis option.inject prod.inject)+
  then show ?thesis using topic_inv_keeps wf assms(4,5) by blast
qed

lemma topic_inv_maintained:
  "topic_inv s \<Longrightarrow> env_ok env \<Longrightarrow> maintain_degree env now s = Some (p, g, s') \<Longrightarrow> topic_inv s'"
  by (rule topic_inv_maintain) (auto simp: topic_inv_def mesh_wf_def)

lemma retain_preferences_length:
  "length kept \<le> MAX_PREFERRED_EAGER_PEERS \<Longrightarrow> length (retain_preferences kept ps) \<le> MAX_PREFERRED_EAGER_PEERS"
  by (induction kept ps rule: retain_preferences.induct) auto

subsection \<open>The rescue\<close>

lemma min_by_least:
  fixes k :: "'a \<Rightarrow> nat"
  assumes "min_by before xs = Some x"
    and "\<And>a b. before a b \<Longrightarrow> k a \<le> k b" "\<And>a b. \<not> before a b \<Longrightarrow> k b \<le> k a"
  shows "x \<in> set xs \<and> (\<forall>y \<in> set xs. k x \<le> k y)"
proof -
  let ?pick = "foldl (\<lambda>best y. if before y best then y else best)"
  have "?pick z ys \<in> set (z # ys) \<and> (\<forall>y \<in> set (z # ys). k (?pick z ys) \<le> k y)" for z ys
  proof (induction ys arbitrary: z)
    case (Cons y ys)
    let ?z = "if before y z then y else z"
    have "k ?z \<le> k z" "k ?z \<le> k y" using assms(2,3) by auto
    then show ?case using Cons.IH [of ?z] by (fastforce split: if_splits)
  qed simp
  then show ?thesis using assms(1) by (cases xs) auto
qed

lemma min_by_None: "min_by before xs = None \<longleftrightarrow> xs = []"
  by (cases xs) auto

lemma rescue_candidate_props:
  assumes "env_ok env" "mesh_wf s"
  shows "rescue_candidate env now s = None \<longleftrightarrow> (\<forall>p \<in> members s. \<not> is_peer_suppressed_at s p now)"
    and "rescue_candidate env now s = Some best \<Longrightarrow> best \<in> members s \<and> is_peer_suppressed_at s best now \<and>
      (\<forall>q \<in> members s. is_peer_suppressed_at s q now \<longrightarrow> remaining_suppression s now best \<le> remaining_suppression s now q)"
proof -
  let ?xs = "filter (\<lambda>p. is_peer_suppressed_at s p now) (me_order env (ms_eager s) @ me_order env (ms_lazy s))"
  have xs: "set ?xs = {p \<in> members s. is_peer_suppressed_at s p now}"
    using env_okD [OF assms(1)] mesh_wfD [OF assms(2)] by (auto simp: members_def)
  show "rescue_candidate env now s = None \<longleftrightarrow> (\<forall>p \<in> members s. \<not> is_peer_suppressed_at s p now)"
    unfolding rescue_candidate_def min_by_None using xs by (metis (no_types, lifting) empty_Collect_eq set_empty)
  assume "rescue_candidate env now s = Some best"
  then have "best \<in> set ?xs \<and> (\<forall>q \<in> set ?xs. remaining_suppression s now best \<le> remaining_suppression s now q)"
    unfolding rescue_candidate_def by (rule min_by_least) linarith+
  then show "best \<in> members s \<and> is_peer_suppressed_at s best now \<and>
      (\<forall>q \<in> members s. is_peer_suppressed_at s q now \<longrightarrow> remaining_suppression s now best \<le> remaining_suppression s now q)"
    unfolding xs by blast
qed

lemma clear_suppression_simps [simp]:
  "ms_eager (clear_suppression p s) = ms_eager s" "ms_lazy (clear_suppression p s) = ms_lazy s"
  "ms_max_eager_degree (clear_suppression p s) = ms_max_eager_degree s"
  "ms_preferred_eager (clear_suppression p s) = ms_preferred_eager s"
  "ms_configured_max_eager_degree (clear_suppression p s) = ms_configured_max_eager_degree s"
  "is_peer_suppressed_at (clear_suppression p s) q now \<longleftrightarrow> q \<noteq> p \<and> is_peer_suppressed_at s q now"
  by (auto simp: clear_suppression_def is_peer_suppressed_at_def is_suppressed_at_def actively_suppressed_at_def
      suppression_expired_at_def split: option.splits)

lemma can_graft_iff: "can_graft_peer_at s p now \<longleftrightarrow> \<not> is_peer_suppressed_at s p now"
  by (simp add: can_graft_peer_at_def is_peer_suppressed_at_def can_graft_at_def split: option.split)

lemma rescue_room:
  assumes "env_ok env" "topic_inv s1" "ms_max_eager_degree s1 > 0" "best \<in> ms_lazy s1"
    "\<forall>p \<in> ms_eager s1. is_peer_suppressed_at s1 p now" "\<not> is_peer_suppressed_at s1 best now"
  defines "s2 \<equiv> (if card (ms_eager s1) \<ge> ms_max_eager_degree s1
     then (case find (\<lambda>x. \<not> is_healthy_preferred_at env s1 (fst x) now) (scored_eager_peers_at env s1 now) of
             None \<Rightarrow> s1 | Some (worst, _) \<Rightarrow> snd (prune_peer worst s1))
     else s1)"
  shows "keeps_mesh env now s1 (snd (graft_peer_at best now s2)) \<and> best \<in> ms_eager (snd (graft_peer_at best now s2))"
proof -
  note wf = topic_invD(1) [OF assms(2)]
  have cap: "card (ms_eager s1) \<le> ms_max_eager_degree s1" using topic_invD(2) [OF assms(2)] by (simp add: over_def)
  have nh: "\<not> is_healthy_preferred_at env s1 p now" if "p \<in> ms_eager s1" for p
    using assms(5) that by (auto simp: is_healthy_preferred_at_def is_score_eligible_for_eager_at_def can_graft_iff)
  have "keeps_mesh env now s1 s2 \<and> card (ms_eager s2) < ms_max_eager_degree s1 \<and> best \<in> ms_lazy s2"
  proof (cases "card (ms_eager s1) \<ge> ms_max_eager_degree s1")
    case True
    then have ne: "ms_eager s1 \<noteq> {}" using assms(3) by auto
    obtain x where x: "find (\<lambda>x. \<not> is_healthy_preferred_at env s1 (fst x) now) (scored_eager_peers_at env s1 now) = Some x"
      using ne nh scored_eager_props(1) [OF assms(1) mesh_wfD(1) [OF wf], of now]
      by (metis (no_types, lifting) find_None_iff image_is_empty equals0I option.exhaust imageI set_empty)
    then have s2: "s2 = snd (prune_peer (fst x) s1)" using True by (simp add: s2_def case_prod_beta)
    have "card (ms_eager s2) < ms_max_eager_degree s1"
      using displaced_props(1) [OF assms(1) wf x] cap assms(3) mesh_wfD(1) [OF wf]
      by (simp add: s2 prune_peer_fields)
    moreover have "best \<in> ms_lazy s2" using assms(4) by (simp add: s2 prune_peer_def)
    ultimately show ?thesis using prune_keeps [OF wf displaced_props(2) [OF assms(1) wf x]] s2 by simp
  next
    case False
    then show ?thesis using keeps_mesh_refl [OF wf] assms(4) by (simp add: s2_def)
  qed
  then have k: "keeps_mesh env now s1 s2" "card (ms_eager s2) < ms_max_eager_degree s2" "best \<in> ms_lazy s2"
    using keeps_mesh_preds(7) by auto
  have "can_graft_peer_at s2 best now" using assms(6) keeps_mesh_preds(1) [OF k(1)] by (simp add: can_graft_iff)
  from graft_succeeds [OF k(2) this k(3)] keeps_mesh_trans [OF k(1) graft_keeps [OF keeps_mesh_wf [OF k(1) wf], of env now best now]]
  show ?thesis by simp
qed

lemma rescue_result:
  assumes "env_ok env" "topic_inv s" "ms_max_eager_degree s > 0" "ms_live_subscribers s"
    "rescue_suppressed_eager_peer_if_needed_at env now s = (r, s')"
  shows "topic_inv s'" "members s' = members s"
    and "r = None \<Longrightarrow> s' = s \<and> (eligible s now \<noteq> {} \<or> (\<forall>p \<in> members s. \<not> is_peer_suppressed_at s p now))"
    and "r = Some best \<Longrightarrow> eligible s now = {} \<and> rescue_candidate env now s = Some best \<and> best \<in> eligible s' now"
proof -
  note wf = topic_invD(1) [OF assms(2)]
  let ?s1 = "clear_suppression best s"
  have inv1: "topic_inv (clear_suppression b s)" for b
    using mesh_wfD [OF wf] by (intro topic_inv_frame [OF assms(2)]) auto
  have main: "topic_inv s' \<and> members s' = members s \<and> best \<in> eligible s' now"
    if e: "eligible s now = {}" and c: "rescue_candidate env now s = Some best" for best
  proof -
    let ?s1 = "clear_suppression best s"
    have all: "\<forall>p \<in> ms_eager s. is_peer_suppressed_at s p now" using e by (auto simp: eligible_def)
    note best = rescue_candidate_props(2) [OF assms(1) wf c]
    show ?thesis
    proof (cases "best \<in> ms_lazy s")
      case False
      then have "s' = ?s1" using assms(4,5) all c by (auto simp: rescue_suppressed_eager_peer_if_needed_at_def Let_def)
      then show ?thesis using inv1 best False by (simp add: members_def eligible_def)
    next
      case True
      have "best \<notin> ms_eager s" using True mesh_wfD(3) [OF wf] by auto
      then have "\<forall>p \<in> ms_eager ?s1. is_peer_suppressed_at ?s1 p now" using all by auto
      from rescue_room [OF assms(1) inv1 _ _ this] True assms(3,4,5) all c
      have k: "keeps_mesh env now ?s1 s'" "best \<in> ms_eager s'"
        by (auto simp: rescue_suppressed_eager_peer_if_needed_at_def Let_def)
      have "topic_inv s'" using topic_inv_keeps [OF k(1) topic_invD(1) [OF inv1]] k(1) inv1 [of best]
        by (simp add: topic_inv_def keeps_mesh_def)
      then show ?thesis using k keeps_mesh_preds(4,5) [OF k(1)] by (simp add: members_def eligible_def)
    qed
  qed
  have stay: "r = None \<and> s' = s" if "eligible s now \<noteq> {} \<or> rescue_candidate env now s = None"
    using assms(4,5) that unfolding rescue_suppressed_eager_peer_if_needed_at_def eligible_def
    by (cases "\<exists>p \<in> ms_eager s. \<not> is_peer_suppressed_at s p now") auto
  have move: "r = Some b" if "eligible s now = {}" "rescue_candidate env now s = Some b" for b
  proof -
    have "\<not> (\<exists>p \<in> ms_eager s. \<not> is_peer_suppressed_at s p now)" using that(1) by (auto simp: eligible_def)
    then show ?thesis using assms(4,5) that(2)
      by (auto simp: rescue_suppressed_eager_peer_if_needed_at_def Let_def split: if_splits)
  qed
  consider "r = None" "s' = s" "eligible s now \<noteq> {} \<or> rescue_candidate env now s = None"
    | b where "r = Some b" "eligible s now = {}" "rescue_candidate env now s = Some b" using stay move by fastforce
  note cases = this
  show "topic_inv s'" "members s' = members s" using main assms(2) by (cases rule: cases; auto)+
  show "r = None \<Longrightarrow> s' = s \<and> (eligible s now \<noteq> {} \<or> (\<forall>p \<in> members s. \<not> is_peer_suppressed_at s p now))"
    using rescue_candidate_props(1) [OF assms(1) wf, of now] by (cases rule: cases) auto
  show "r = Some best \<Longrightarrow> eligible s now = {} \<and> rescue_candidate env now s = Some best \<and> best \<in> eligible s' now"
    using main by (cases rule: cases) auto
qed

text \<open>With a ceiling of zero the eager set is empty and a rescue grafts nobody.\<close>

lemma rescue_topic_inv:
  assumes "env_ok env" "topic_inv s"
  shows "topic_inv (snd (rescue_suppressed_eager_peer_if_needed_at env now s))"
proof (cases "ms_live_subscribers s \<and> ms_max_eager_degree s > 0")
  case True
  then show ?thesis using rescue_result(1) [OF assms] by (metis prod.collapse)
next
  case False
  have "topic_inv (snd (graft_peer_at b now (clear_suppression b s)))" "topic_inv (clear_suppression b s)" for b
    using topic_inv_graft topic_inv_frame [OF assms(2), of "clear_suppression b s"] mesh_wfD [OF topic_invD(1) [OF assms(2)]]
    by auto
  moreover have "scored_eager_peers_at env t now = []" if "ms_max_eager_degree s = 0" "ms_eager t = ms_eager s" for t
  proof -
    have "ms_eager s = {}" using that(1) assms(2) mesh_wfD(1) [OF topic_invD(1) [OF assms(2)]]
      by (simp add: topic_inv_def over_def)
    then show ?thesis using env_okD [OF assms(1), of "{}"] that(2) by (simp add: scored_eager_peers_at_def)
  qed
  ultimately show ?thesis using False assms(2)
    by (auto simp: rescue_suppressed_eager_peer_if_needed_at_def Let_def split: option.split)
qed

lemma topic_inv_retain:
  assumes "topic_inv s"
  shows "topic_inv (snd (clear_disconnected_peer_cooling connected_set
    (s\<lparr>ms_eager := {p \<in> ms_eager s. p \<in> connected_set}, ms_lazy := {p \<in> ms_lazy s. p \<in> connected_set}\<rparr>)))"
  using mesh_wfD [OF topic_invD(1) [OF assms]]
  by (intro topic_inv_frame [OF assms]) (auto simp: clear_disconnected_peer_cooling_def)

lemma topic_inv_step: "topic_step s s' \<Longrightarrow> topic_inv s \<Longrightarrow> topic_inv s'"
proof (induction rule: topic_step.induct)
  case (topic_cooling s s')
  then show ?case using topic_inv_mesh_step by blast
next
  case (topic_maintain env now s p g s')
  then show ?case using topic_inv_maintained by blast
next
  case (topic_initialize env now peers s p g s')
  then show ?case using topic_inv_maintained topic_inv_add_new unfolding initialize_topic_peers_def by blast
next
  case (topic_prefer env now peers s k p g s')
  let ?s = "refresh_preferred_eager_ceiling (s\<lparr>ms_preferred_eager := retain_preferences [] peers\<rparr>)"
  have "maintain_degree env now ?s = Some (p, g, s')"
    using topic_prefer.hyps(2) by (auto simp: set_topic_preferred_eager_set_def Let_def split: option.splits)
  from topic_inv_maintain [OF topic_prefer.hyps(1) _ _ _ _ this] show ?case
    using topic_prefer.prems retain_preferences_length [of "[]"]
    by (auto simp: refresh_preferred_eager_ceiling_def members_def topic_inv_def mesh_wf_def)
next
  case (topic_members env connected_set now preferred s ok p g s')
  obtain s3 where "topic_inv s3" "maintain_degree env now (case preferred of None \<Rightarrow> s3
      | Some peer \<Rightarrow> refresh_preferred_eager_ceiling (s3\<lparr>ms_preferred_eager := [peer]\<rparr>)) = Some (p, g, s')"
    using topic_members.hyps(3) topic_inv_add_new [OF topic_inv_retain [OF topic_members.prems]]
    by (auto simp: set_topic_peers_with_preferred_eager_def Let_def split: option.splits)
  then show ?case
  proof (cases preferred)
    case (Some peer)
    let ?s = "refresh_preferred_eager_ceiling (s3\<lparr>ms_preferred_eager := [peer]\<rparr>)"
    have "maintain_degree env now ?s = Some (p, g, s')" using \<open>maintain_degree env now _ = _\<close> Some by simp
    from topic_inv_maintain [OF topic_members.hyps(1) _ _ _ _ this] show ?thesis using \<open>topic_inv s3\<close>
      by (auto simp: refresh_preferred_eager_ceiling_def members_def topic_inv_def mesh_wf_def
          MAX_PREFERRED_EAGER_PEERS_def)
  qed (use topic_inv_maintained topic_members.hyps(1) in simp)
next
  case (topic_ceiling env now degree s p g s')
  let ?s = "refresh_preferred_eager_ceiling
      (s\<lparr>ms_configured_max_eager_degree := (if degree = 0 then MAX_EAGER_DEGREE else degree)\<rparr>)"
  have "maintain_degree env now ?s = Some (p, g, s')"
    using topic_ceiling.hyps(2) by (simp add: set_eager_degree_ceiling_def)
  from topic_inv_maintain [OF topic_ceiling.hyps(1) _ _ _ _ this] show ?case
    using topic_ceiling.prems by (auto simp: refresh_preferred_eager_ceiling_def members_def topic_inv_def mesh_wf_def)
next
  case (topic_rescue env s now)
  then show ?case using rescue_topic_inv by blast
qed

lemma topic_inv_init: "topic_inv (mesh_init n)"
  by (simp add: topic_inv_def mesh_init_def mesh_wf_def members_def over_def)

lemma topic_inv_steps: "topic_step\<^sup>*\<^sup>* (mesh_init n) s \<Longrightarrow> topic_inv s"
  by (induction rule: rtranclp_induct) (auto intro: topic_inv_init topic_inv_step)

text \<open>No operation on the members touches the cooling of a peer; a rescue clears one entry as a whole.\<close>

lemma prune_all_cooling: "ms_cooling (snd (prune_all ps s)) = ms_cooling s"
  by (induction ps arbitrary: s) (auto simp: Let_def case_prod_beta prune_peer_fields)

lemma graft_cooling [simp]: "ms_cooling (snd (graft_peer_at p now s)) = ms_cooling s"
  by (simp add: graft_peer_at_def)

lemma graft_all_cooling: "ms_cooling (snd (graft_all now ps s)) = ms_cooling s"
  by (induction ps arbitrary: s) (auto simp: Let_def case_prod_beta)

lemma opportunistic_loop_cooling: "ms_cooling (snd (snd (opportunistic_loop now es ls p g s))) = ms_cooling s"
proof (induction es arbitrary: ls p g s)
  case (Cons e es)
  then show ?case by (cases e; cases ls) (auto simp: Let_def case_prod_beta prune_peer_fields)
qed simp

lemma prefer_cooling:
  assumes "\<And>t p g t'. again t = Some (p, g, t') \<Longrightarrow> ms_cooling t' = ms_cooling t"
    and "prefer_eager_peer_at env again peer now s = Some (p, g, s')"
  shows "ms_cooling s' = ms_cooling s"
  using assms(2) by (auto simp: prefer_eager_peer_at_def promote_preferred_def Let_def case_prod_beta prune_peer_fields
      dest!: assms(1) split: if_splits option.splits)

lemma apply_preferred_cooling:
  assumes "\<And>t p g t'. again t = Some (p, g, t') \<Longrightarrow> ms_cooling t' = ms_cooling t"
  shows "apply_preferred_loop env again now peers p g s = Some (p', g', s') \<Longrightarrow> ms_cooling s' = ms_cooling s"
proof (induction peers arbitrary: p g s)
  case (Cons peer peers)
  show ?case
  proof (cases "peer \<in> ms_eager s \<and> \<not> is_score_eligible_for_eager_at env s peer now")
    case True
    then show ?thesis using Cons.prems by (auto simp: Let_def case_prod_beta prune_peer_fields dest: Cons.IH)
  next
    case False
    then show ?thesis using Cons.prems prefer_cooling [OF assms]
      by (auto dest!: Cons.IH split: option.splits simp del: de_Morgan_conj)
  qed
qed simp

lemma maintenance_rounds_cooling:
  "ms_cooling (snd (demote_excess_eager env now s)) = ms_cooling s"
  "ms_cooling (snd (promote_lazy env now s)) = ms_cooling s"
  "ms_cooling (snd (snd (opportunistic_graft_at env now s))) = ms_cooling s"
  by (simp_all add: demote_excess_eager_def promote_lazy_def opportunistic_graft_at_def Let_def prune_all_cooling
      graft_all_cooling opportunistic_loop_cooling)

lemma maintain_degree_at_cooling: "maintain_degree_at fuel env now s = Some (p, g, s') \<Longrightarrow> ms_cooling s' = ms_cooling s"
proof (induction fuel arbitrary: s p g s')
  case (Suc fuel)
  from Suc.prems obtain p1 g1 s1 where a: "apply_preferred_eager_at env (maintain_degree_at fuel env now) now s = Some (p1, g1, s1)"
    by (simp split: option.splits) (metis prod.exhaust)
  then have "s' = snd (snd (opportunistic_graft_at env now (snd (promote_lazy env now (snd (demote_excess_eager env now s1))))))"
    using Suc.prems by (simp add: Let_def case_prod_beta)
  moreover have "ms_cooling s1 = ms_cooling s"
    using a unfolding apply_preferred_eager_at_def by (rule apply_preferred_cooling [rotated]) (rule Suc.IH)
  ultimately show ?case by (simp add: maintenance_rounds_cooling)
qed simp

lemma maintain_cooling: "maintain_degree env now s = Some (p, g, s') \<Longrightarrow> ms_cooling s' = ms_cooling s"
  unfolding maintain_degree_def by (rule maintain_degree_at_cooling)

definition coolings_ok :: "MeshState \<Rightarrow> bool" where
  "coolings_ok s \<longleftrightarrow> (\<forall>p c. ms_cooling s p = Some c \<longrightarrow> cooling_ok c)"

lemma coolings_ok_same: "ms_cooling s' = ms_cooling s \<Longrightarrow> coolings_ok s' = coolings_ok s"
  by (simp add: coolings_ok_def)

lemma mesh_ok_iff: "mesh_ok s \<longleftrightarrow> coolings_ok s \<and> ms_eager s \<inter> ms_lazy s = {}"
  by (simp add: mesh_ok_def coolings_ok_def)

lemma rescue_coolings:
  assumes "coolings_ok s"
  shows "coolings_ok (snd (rescue_suppressed_eager_peer_if_needed_at env now s))"
proof -
  have "coolings_ok (clear_suppression b s)" for b
    using assms by (auto simp: coolings_ok_def clear_suppression_def cooling_ok_def split: option.split)
  moreover have "ms_cooling (snd (rescue_suppressed_eager_peer_if_needed_at env now s)) \<in>
      {ms_cooling s} \<union> range (\<lambda>b. ms_cooling (clear_suppression b s))"
    by (auto simp: rescue_suppressed_eager_peer_if_needed_at_def Let_def prune_peer_fields split: option.split)
  ultimately show ?thesis using assms by (auto simp: coolings_ok_def)
qed

lemma topic_step_coolings:
  assumes "topic_step s s'" "coolings_ok s" "ms_eager s \<inter> ms_lazy s = {}"
  shows "coolings_ok s'"
  using assms(1)
proof cases
  case topic_cooling
  then show ?thesis using mesh_ok_step assms(2,3) by (simp add: mesh_ok_iff)
next
  case (topic_members env connected_set now preferred ok p g)
  then show ?thesis using assms(2)
    by (auto simp: set_topic_peers_with_preferred_eager_def Let_def refresh_preferred_eager_ceiling_def add_new_all
        clear_disconnected_peer_cooling_def coolings_ok_def map_retain_def dest!: maintain_cooling split: option.splits if_splits)
next
  case (topic_rescue env now)
  then show ?thesis using rescue_coolings [OF assms(2)] by simp
qed (use assms(2) in \<open>auto simp: initialize_topic_peers_def set_topic_preferred_eager_set_def set_eager_degree_ceiling_def
    refresh_preferred_eager_ceiling_def Let_def add_new_all coolings_ok_def dest!: maintain_cooling split: option.splits\<close>)

lemma topic_ok_steps: "topic_step\<^sup>*\<^sup>* (mesh_init n) s \<Longrightarrow> mesh_ok s"
proof (induction rule: rtranclp_induct)
  case (step s s')
  have "ms_eager s' \<inter> ms_lazy s' = {}"
    using topic_inv_steps [OF rtranclp.rtrancl_into_rtrancl [OF step(1,2)]] by (simp add: topic_inv_def mesh_wf_def)
  then show ?case using topic_step_coolings [OF step(2)] step.IH by (simp add: mesh_ok_iff)
qed (rule mesh_ok_init)

subsection \<open>Properties\<close>

definition sorted_mesh_env :: mesh_env where
  "sorted_mesh_env = \<lparr>me_order = sorted_list_of_set, me_score = \<lambda>_ _. 1 / 2\<rparr>"

lemma sorted_mesh_env_ok: "env_ok sorted_mesh_env"
  by (simp add: env_ok_def iterates_set_def sorted_mesh_env_def)

lemma one_peer_run: "topic_step\<^sup>*\<^sup>* (mesh_init n) ((mesh_init n)\<lparr>ms_lazy := {p}\<rparr>)"
proof -
  have "mesh_step (mesh_init n) ((mesh_init n)\<lparr>ms_lazy := insert p (ms_lazy (mesh_init n))\<rparr>)"
    by (rule mesh_new_lazy) (simp add: mesh_init_def)
  then show ?thesis by (auto simp: mesh_init_def intro: topic_cooling r_into_rtranclp)
qed

text \<open>
  C9: The eager mesh respects its ceiling at all times. In every state a topic can reach through
  cooling, degree maintenance, membership refreshes, preference changes, ceiling changes and
  rescues, in any order, the eager set is at most the ceiling, no peer is both eager and
  lazy, at most eight preferred peers are kept, and the ceiling is the configured one raised
  only to fit them.
\<close>

theorem eager_degree_bounded:
  assumes "topic_step\<^sup>*\<^sup>* (mesh_init n) s"
  shows "card (ms_eager s) \<le> ms_max_eager_degree s \<and> ms_eager s \<inter> ms_lazy s = {} \<and>
    length (ms_preferred_eager s) \<le> MAX_PREFERRED_EAGER_PEERS \<and>
    ms_max_eager_degree s = max (ms_configured_max_eager_degree s) (length (ms_preferred_eager s))"
  using topic_inv_steps [OF assms] by (simp add: topic_inv_def mesh_wf_def over_def)

theorem eager_degree_bounded_witness:
  "let s = (mesh_init 2)\<lparr>ms_lazy := {PeerId [1]}\<rparr> in card (ms_eager s) \<le> 2"
  using eager_degree_bounded [OF one_peer_run [where n = 2 and p = "PeerId [1]"]] by (simp add: mesh_init_def)

text \<open>
  C16: Degree maintenance always returns and settles the mesh, from every state, also one whose
  eager set is far above a lowered ceiling: the members and their cooling are unchanged, the
  eager set is within the ceiling, every preferred member that is eligible is eager, and if the
  eager set is still below the target degree then no lazy peer outside the preferences can
  be grafted.
\<close>

theorem maintenance_settles:
  assumes "env_ok env" "mesh_wf s"
  shows "\<exists>pruned grafted s'. maintain_degree env now s = Some (pruned, grafted, s') \<and>
    members s' = members s \<and> ms_cooling s' = ms_cooling s \<and> ms_max_eager_degree s' = ms_max_eager_degree s \<and>
    card (ms_eager s') \<le> ms_max_eager_degree s \<and>
    (\<forall>p \<in> members s. is_healthy_preferred_at env s p now \<longrightarrow> p \<in> ms_eager s') \<and>
    (card (ms_eager s') < min MIN_EAGER_DEGREE (ms_max_eager_degree s) \<longrightarrow>
       (\<forall>p \<in> ms_lazy s'. can_graft_peer_at s p now \<longrightarrow> p \<in> set (ms_preferred_eager s)))"
proof -
  obtain p g s' where s': "maintain_degree env now s = Some (p, g, s')" "keeps_mesh env now s s'" "over s' = 0"
    "prefs_eager env now s'" "degree_settled now s'"
    by (rule maintain_degree_ok [OF assms])
  note k = keeps_mesh_preds [OF s'(2)]
  have "card (ms_eager s') \<le> ms_max_eager_degree s" using s'(3) k(7) by (simp add: over_def)
  moreover have "ms_cooling s' = ms_cooling s" using s'(2) by (simp add: keeps_mesh_def)
  ultimately show ?thesis using s'(1,4,5) k by (auto simp: prefs_eager_def degree_settled_def)
qed

theorem maintenance_settles_witness:
  "let s = (mesh_init 0)\<lparr>ms_eager := {PeerId [1], PeerId [2], PeerId [3]}, ms_lazy := {PeerId [4]}\<rparr>
   in \<exists>pruned grafted s'. maintain_degree sorted_mesh_env 0 s = Some (pruned, grafted, s') \<and>
        card (ms_eager s') = 0 \<and> members s' = {PeerId [1], PeerId [2], PeerId [3], PeerId [4]}"
proof -
  let ?s = "(mesh_init 0)\<lparr>ms_eager := {PeerId [1], PeerId [2], PeerId [3]}, ms_lazy := {PeerId [4]}\<rparr>"
  have "mesh_wf ?s" by (simp add: mesh_wf_def members_def mesh_init_def)
  from maintenance_settles [OF sorted_mesh_env_ok this, of 0]
  obtain p g s' where "maintain_degree sorted_mesh_env 0 ?s = Some (p, g, s')" "members s' = members ?s"
    "card (ms_eager s') \<le> ms_max_eager_degree ?s" by blast
  then show ?thesis unfolding Let_def by (auto simp: mesh_init_def members_def)
qed

text \<open>
  A rescue restores the last delivery path. In a reachable state with a live local subscriber
  and a positive ceiling, a rescue keeps the members and the ceiling; if some eager peer was
  eligible it does nothing; and otherwise, if any member is suppressed, the member with the
  least remaining suppression becomes an eligible eager peer.
\<close>

theorem rescue_restores_path:
  assumes "topic_step\<^sup>*\<^sup>* (mesh_init n) s" "env_ok env" "ms_live_subscribers s" "ms_max_eager_degree s > 0"
    and "rescue_suppressed_eager_peer_if_needed_at env now s = (r, s')"
  shows "members s' = members s \<and> card (ms_eager s') \<le> ms_max_eager_degree s' \<and>
    (eligible s now \<noteq> {} \<longrightarrow> r = None \<and> s' = s) \<and>
    (eligible s now = {} \<longrightarrow> (\<exists>p \<in> members s. is_peer_suppressed_at s p now) \<longrightarrow>
       (\<exists>best. r = Some best \<and> best \<in> eligible s' now \<and>
          (\<forall>q \<in> members s. is_peer_suppressed_at s q now \<longrightarrow>
             remaining_suppression s now best \<le> remaining_suppression s now q)))"
proof -
  note inv = topic_inv_steps [OF assms(1)]
  note res = rescue_result [OF assms(2) inv assms(4,3,5)]
  have "card (ms_eager s') \<le> ms_max_eager_degree s'" using res(1) by (simp add: topic_inv_def over_def)
  moreover have "\<forall>q \<in> members s. is_peer_suppressed_at s q now \<longrightarrow>
      remaining_suppression s now best \<le> remaining_suppression s now q" if "r = Some best" for best
    using rescue_candidate_props(2) [OF assms(2) topic_invD(1) [OF inv]] res(4) [OF that] by blast
  ultimately show ?thesis using res(2,3,4) by (cases r) auto
qed

definition lonely_mesh :: MeshState where
  "lonely_mesh = (snd (record_send_timeout (Some cooling_config_default) (Some HealthDead)
      \<lparr>at_peer = PeerId [1], at_kind = NormalSend, at_recovery_probe_id = None\<rparr> 5
      ((mesh_init 2)\<lparr>ms_lazy := {PeerId [1]}\<rparr>)))\<lparr>ms_live_subscribers := True\<rparr>"

lemma lonely_mesh_run: "topic_step\<^sup>*\<^sup>* (mesh_init 2) lonely_mesh"
  unfolding lonely_mesh_def
  by (rule rtranclp.rtrancl_into_rtrancl [OF rtranclp.rtrancl_into_rtrancl [OF one_peer_run]])
    (rule topic_cooling mesh_timeout mesh_subscribers)+

theorem rescue_restores_path_witness:
  "eligible lonely_mesh 6 = {} \<and>
   eligible (snd (rescue_suppressed_eager_peer_if_needed_at sorted_mesh_env 6 lonely_mesh)) 6 \<noteq> {}"
proof -
  have s: "ms_eager lonely_mesh = {}" "ms_lazy lonely_mesh = {PeerId [1]}" "ms_live_subscribers lonely_mesh"
    "ms_max_eager_degree lonely_mesh = 2" "is_peer_suppressed_at lonely_mesh (PeerId [1]) 6"
    by (simp_all add: lonely_mesh_def is_peer_suppressed_at_def cooling_eval)
  then have e: "eligible lonely_mesh 6 = {}" "PeerId [1] \<in> members lonely_mesh" "0 < ms_max_eager_degree lonely_mesh"
    by (simp_all add: eligible_def members_def)
  have "rescue_suppressed_eager_peer_if_needed_at sorted_mesh_env 6 lonely_mesh =
    (fst (rescue_suppressed_eager_peer_if_needed_at sorted_mesh_env 6 lonely_mesh),
     snd (rescue_suppressed_eager_peer_if_needed_at sorted_mesh_env 6 lonely_mesh))" by simp
  from rescue_restores_path [OF lonely_mesh_run sorted_mesh_env_ok s(3) e(3) this] s(5) e(1,2) show ?thesis by blast
qed

text \<open>
  A membership refresh replaces the members of a reachable topic by exactly the connected
  peers: it always returns, forgets the cooling of every disconnected peer and of no other, keeps the
  eager set within the ceiling, and, with a preference for a connected peer that is not
  cooling and scores high enough, reports success and has the peer eager.
\<close>

theorem membership_refresh_exact:
  assumes "topic_step\<^sup>*\<^sup>* (mesh_init n) s" "env_ok env" "finite connected_set"
  shows "\<exists>ok pruned grafted s'.
    set_topic_peers_with_preferred_eager env now connected_set preferred s = Some (ok, pruned, grafted, s') \<and>
    members s' = connected_set \<and> ms_cooling s' = ms_cooling s |` connected_set \<and>
    card (ms_eager s') \<le> ms_max_eager_degree s' \<and>
    (\<forall>peer. preferred = Some peer \<longrightarrow> ok = (peer \<in> ms_eager s') \<and>
       (peer \<in> connected_set \<longrightarrow> is_score_eligible_for_eager_at env s peer now \<longrightarrow> ok))"
proof -
  let ?s2 = "snd (clear_disconnected_peer_cooling connected_set
    (s\<lparr>ms_eager := {p \<in> ms_eager s. p \<in> connected_set}, ms_lazy := {p \<in> ms_lazy s. p \<in> connected_set}\<rparr>))"
  let ?s3 = "fold (\<lambda>p s. snd (add_new_peer_lazy p s)) (me_order env connected_set) ?s2"
  let ?s4 = "case preferred of None \<Rightarrow> ?s3
    | Some peer \<Rightarrow> refresh_preferred_eager_ceiling (?s3\<lparr>ms_preferred_eager := [peer]\<rparr>)"
  have inv: "topic_inv ?s3" using topic_inv_add_new [OF topic_inv_retain [OF topic_inv_steps [OF assms(1)]]] .
  have "map_retain (\<lambda>p _. p \<in> connected_set) (ms_cooling s) = ms_cooling s |` connected_set"
    by (rule ext) (simp add: map_retain_def restrict_map_def split: option.split)
  then have cool: "ms_cooling ?s4 = ms_cooling s |` connected_set"
    by (simp add: refresh_preferred_eager_ceiling_def add_new_all clear_disconnected_peer_cooling_def split: option.split)
  have "members ?s3 = connected_set"
    using env_okD [OF assms(2,3)] by (auto simp: members_def add_new_all clear_disconnected_peer_cooling_def)
  then have mem: "members ?s4 = connected_set"
    by (simp add: refresh_preferred_eager_ceiling_def members_def split: option.split)
  have wf: "mesh_wf ?s4" using topic_invD(1) [OF inv]
    by (auto simp: refresh_preferred_eager_ceiling_def members_def mesh_wf_def split: option.split)
  obtain p g s' where s': "maintain_degree env now ?s4 = Some (p, g, s')" "keeps_mesh env now ?s4 s'" "over s' = 0"
    "prefs_eager env now s'" by (rule maintain_degree_ok [OF assms(2) wf])
  note k = keeps_mesh_preds [OF s'(2)]
  have pref: "peer \<in> ms_eager s'" if "preferred = Some peer" "peer \<in> connected_set"
    "is_score_eligible_for_eager_at env s peer now" for peer
  proof -
    have "can_graft_peer_at ?s4 peer now" using that(2,3) cool
      by (simp add: is_score_eligible_for_eager_at_def can_graft_peer_at_def)
    then have "is_healthy_preferred_at env ?s4 peer now" using that
      by (simp add: is_healthy_preferred_at_def is_score_eligible_for_eager_at_def refresh_preferred_eager_ceiling_def)
    then show ?thesis using s'(4) k mem that(2) by (simp add: prefs_eager_def)
  qed
  have "set_topic_peers_with_preferred_eager env now connected_set preferred s =
      Some ((case preferred of None \<Rightarrow> True | Some peer \<Rightarrow> peer \<in> ms_eager s'), p, g, s')"
    using s'(1) by (simp add: set_topic_peers_with_preferred_eager_def Let_def)
  moreover have "members s' = connected_set" "ms_cooling s' = ms_cooling s |` connected_set"
    "card (ms_eager s') \<le> ms_max_eager_degree s'"
    using k mem cool s'(2,3) by (simp_all add: keeps_mesh_def over_def)
  ultimately show ?thesis using pref by auto
qed

theorem membership_refresh_exact_witness:
  "\<exists>pruned grafted s'. set_topic_peers_with_preferred_eager sorted_mesh_env 9 {PeerId [2]} (Some (PeerId [2])) lonely_mesh =
     Some (True, pruned, grafted, s') \<and> members s' = {PeerId [2]} \<and> PeerId [2] \<in> ms_eager s'"
proof -
  have "is_score_eligible_for_eager_at sorted_mesh_env lonely_mesh (PeerId [2]) 9"
    by (simp add: is_score_eligible_for_eager_at_def can_graft_peer_at_def lonely_mesh_def sorted_mesh_env_def
        PEER_SCORE_EAGER_MIN_def cooling_eval)
  then show ?thesis
    using membership_refresh_exact [OF lonely_mesh_run sorted_mesh_env_ok, of "{PeerId [2]}" 9 "Some (PeerId [2])"] by auto
qed

text \<open>
  C23: Admission and the claim layer agree. In every state a topic can reach through claims, send
  results, maintenance, membership changes and rescues a peer reads as cooled for
  Bulk admission exactly when a claim for ordinary traffic is refused at that moment; Critical
  data is never refused; and a claim while suppressed is a rate-limited bypass before the
  cooldown ends and one recovery probe after it.
\<close>

theorem cooled_iff_claim_refused:
  assumes "topic_step\<^sup>*\<^sup>* (mesh_init n) s"
  shows "is_peer_cooled_for_admission_at s peer now = (fst (mesh_claim_send_attempt peer now False s) = None) \<and>
    fst (mesh_claim_send_attempt peer now True s) \<noteq> None \<and>
    (\<forall>a. fst (mesh_claim_send_attempt peer now False s) = Some a \<longrightarrow> is_peer_suppressed_at s peer now \<longrightarrow>
       (at_kind a = CooldownBypass \<or>
        at_kind a = RecoveryProbe \<and> at_recovery_probe_id a = Some (ms_next_probe_id s) \<and>
        fst (mesh_claim_send_attempt peer now False (snd (mesh_claim_send_attempt peer now False s))) = None))"
proof (cases "ms_cooling s peer")
  case None
  then show ?thesis
    by (simp add: is_peer_cooled_for_admission_at_def is_peer_suppressed_at_def mesh_claim_send_attempt_def)
next
  case (Some c)
  have "cooling_ok c" using mesh_okD [OF topic_ok_steps [OF assms] Some] .
  then show ?thesis using Some
    by (cases "pc_suppressed_until c")
      (auto simp: is_peer_cooled_for_admission_at_def is_peer_suppressed_at_def mesh_claim_send_attempt_def
        claim_send_attempt_def is_suppressed_at_def actively_suppressed_at_def suppression_expired_at_def
        recovery_probe_due_at_def cooldown_bypass_due_at_def cooling_ok_def split: if_splits)
qed

lemma cooled_mesh_run: "topic_step\<^sup>*\<^sup>* (mesh_init 2) cooled_mesh"
  unfolding cooled_mesh_def
  by (meson topic_cooling mesh_confirm mesh_timeout rtranclp.rtrancl_into_rtrancl rtranclp.rtrancl_refl)

theorem cooled_iff_claim_refused_witness:
  "is_peer_cooled_for_admission_at cooled_mesh (PeerId [1]) 6 \<and>
   \<not> is_peer_cooled_for_admission_at cooled_mesh (PeerId [1]) 5005"
proof -
  have "fst (mesh_claim_send_attempt (PeerId [1]) 6 False cooled_mesh) = None"
    "fst (mesh_claim_send_attempt (PeerId [1]) 5005 False cooled_mesh) \<noteq> None"
    by (simp_all add: cooling_eval)
  then show ?thesis using cooled_iff_claim_refused [OF cooled_mesh_run] by metis
qed

text \<open>
  A recovery probe whose send gets no permit leaves no trace: in every reachable state,
  claiming a probe and abandoning it restores the topic's peers and their cooling, and the
  next claim at that time is a recovery probe again, under a new id.
\<close>

theorem abandoned_probe_leaves_no_trace:
  assumes "topic_step\<^sup>*\<^sup>* (mesh_init n) s"
    and "mesh_claim_send_attempt peer now critical s = (Some attempt, s')" "at_kind attempt = RecoveryProbe"
  shows "abandon_unsent_recovery_probe peer (at_recovery_probe_id attempt) s' =
      s\<lparr>ms_next_probe_id := u64_add (ms_next_probe_id s) 1\<rparr> \<and>
    fst (mesh_claim_send_attempt peer now critical
           (abandon_unsent_recovery_probe peer (at_recovery_probe_id attempt) s')) =
      Some \<lparr>at_peer = peer, at_kind = RecoveryProbe, at_recovery_probe_id = Some (u64_add (ms_next_probe_id s) 1)\<rparr>"
proof (cases "ms_cooling s peer")
  case None
  with assms(2,3) show ?thesis by (auto simp: mesh_claim_send_attempt_def)
next
  case (Some c)
  have ok: "pc_recovery_probe_in_flight c \<longleftrightarrow> pc_recovery_probe_id c \<noteq> None"
    using mesh_okD [OF topic_ok_steps [OF assms(1)] Some] by (simp add: cooling_ok_def)
  have due: "\<not> actively_suppressed_at c now" "suppression_expired_at c now" "\<not> pc_recovery_probe_in_flight c"
    using assms(2,3) Some by (auto simp: mesh_claim_send_attempt_def claim_send_attempt_def split: if_splits)
  then have "c\<lparr>pc_recovery_probe_in_flight := False, pc_recovery_probe_id := None\<rparr> = c" using ok by (cases c) simp
  moreover have "(ms_cooling s)(peer \<mapsto> c) = ms_cooling s" using Some by (simp add: fun_upd_idem_iff)
  ultimately show ?thesis using assms(2,3) Some due
    by (auto simp: mesh_claim_send_attempt_def claim_send_attempt_def abandon_unsent_recovery_probe_def
        matches_recovery_probe_def)
qed

theorem abandoned_probe_leaves_no_trace_witness:
  "let (attempt, s) = mesh_claim_send_attempt (PeerId [1]) 70000 False cooled_mesh
   in attempt \<noteq> None \<and>
      abandon_unsent_recovery_probe (PeerId [1]) (at_recovery_probe_id (the attempt)) s =
        cooled_mesh\<lparr>ms_next_probe_id := 2\<rparr>"
proof -
  let ?r = "mesh_claim_send_attempt (PeerId [1]) 70000 False cooled_mesh"
  let ?a = "\<lparr>at_peer = PeerId [1], at_kind = RecoveryProbe, at_recovery_probe_id = Some 1\<rparr>"
  have a: "fst ?r = Some ?a" "ms_next_probe_id cooled_mesh = 1" by (simp_all add: cooling_eval)
  then have "?r = (Some ?a, snd ?r)" by (metis prod.collapse)
  from abandoned_probe_leaves_no_trace [OF cooled_mesh_run this] a show ?thesis
    by (simp add: case_prod_beta u64_add_def u64_max_eq)
qed

end
