(* ===== verification/Message_Cache.thy ===== *)
theory Message_Cache
  imports Gossip_Types
begin

text \<open>
  The message cache of a topic: \<open>BoundedMessageCache\<close>, the payload guard of the forward path, the
  replay cache, and the cache operations of \<open>TopicState\<close>, all of \<open>crates/pubsub/src/lib.rs\<close>.

  \<open>LruCache\<close> is a type of the crate \<open>lru\<close>. Its operations are a parameter \<open>ops\<close> of every
  definition that uses it; \<open>lru_laws\<close> states what its documentation promises: iteration runs
  from the most to the least recently used entry, \<open>push\<close> and \<open>get\<close> make an entry the most
  recent one, \<open>push\<close> returns the entry it replaced or evicted, and \<open>pop_lru\<close> takes the least
  recent one. The two eviction loops take the number of entries plus one as fuel.
\<close>

subsection \<open>The cache of the crate \<open>lru\<close>\<close>

record ('k, 'v, 'l) lru_ops =
  lru_new :: "nat \<Rightarrow> 'l"
  lru_cap :: "'l \<Rightarrow> nat"
  lru_iter :: "'l \<Rightarrow> ('k \<times> 'v) list"
  lru_len :: "'l \<Rightarrow> nat"
  lru_pop :: "'k \<Rightarrow> 'l \<Rightarrow> 'v option \<times> 'l"
  lru_push :: "'k \<Rightarrow> 'v \<Rightarrow> 'l \<Rightarrow> ('k \<times> 'v) option \<times> 'l"
  lru_pop_lru :: "'l \<Rightarrow> ('k \<times> 'v) option \<times> 'l"
  lru_get :: "'k \<Rightarrow> 'l \<Rightarrow> 'v option \<times> 'l"
  lru_get_mut :: "'k \<Rightarrow> ('v \<Rightarrow> 'v) \<Rightarrow> 'l \<Rightarrow> 'v option \<times> 'l" \<comment> \<open>the entry is rewritten through the reference\<close>
  lru_peek :: "'k \<Rightarrow> 'l \<Rightarrow> 'v option"

definition without :: "'k \<Rightarrow> ('k \<times> 'v) list \<Rightarrow> ('k \<times> 'v) list" where
  "without k xs = filter (\<lambda>x. fst x \<noteq> k) xs"

definition lru_reads :: "('k, 'v, 'l) lru_ops \<Rightarrow> bool" where
  "lru_reads ops \<longleftrightarrow>
     (\<forall>n. lru_iter ops (lru_new ops n) = [] \<and> lru_cap ops (lru_new ops n) = n) \<and>
     (\<forall>l. distinct (map fst (lru_iter ops l)) \<and> lru_len ops l = length (lru_iter ops l)) \<and>
     (\<forall>k l. lru_peek ops k l = map_of (lru_iter ops l) k)"

definition lru_pops :: "('k, 'v, 'l) lru_ops \<Rightarrow> bool" where
  "lru_pops ops \<longleftrightarrow>
     (\<forall>k l. fst (lru_pop ops k l) = map_of (lru_iter ops l) k \<and>
        lru_iter ops (snd (lru_pop ops k l)) = without k (lru_iter ops l) \<and>
        lru_cap ops (snd (lru_pop ops k l)) = lru_cap ops l) \<and>
     (\<forall>l. fst (lru_pop_lru ops l) = (if lru_iter ops l = [] then None else Some (last (lru_iter ops l))) \<and>
        lru_iter ops (snd (lru_pop_lru ops l)) = butlast (lru_iter ops l) \<and>
        lru_cap ops (snd (lru_pop_lru ops l)) = lru_cap ops l)"

definition lru_pushes :: "('k, 'v, 'l) lru_ops \<Rightarrow> bool" where
  "lru_pushes ops \<longleftrightarrow>
     (\<forall>k v l. lru_cap ops (snd (lru_push ops k v l)) = lru_cap ops l \<and>
        (case map_of (lru_iter ops l) k of
           Some old \<Rightarrow> fst (lru_push ops k v l) = Some (k, old) \<and>
                       lru_iter ops (snd (lru_push ops k v l)) = (k, v) # without k (lru_iter ops l)
         | None \<Rightarrow>
             if length (lru_iter ops l) < lru_cap ops l
             then fst (lru_push ops k v l) = None \<and>
                  lru_iter ops (snd (lru_push ops k v l)) = (k, v) # lru_iter ops l
             else lru_iter ops l \<noteq> [] \<longrightarrow>
                  fst (lru_push ops k v l) = Some (last (lru_iter ops l)) \<and>
                  lru_iter ops (snd (lru_push ops k v l)) = (k, v) # butlast (lru_iter ops l)))"

definition lru_gets :: "('k, 'v, 'l) lru_ops \<Rightarrow> bool" where
  "lru_gets ops \<longleftrightarrow>
     (\<forall>k l. fst (lru_get ops k l) = map_of (lru_iter ops l) k \<and>
        lru_iter ops (snd (lru_get ops k l)) =
          (case map_of (lru_iter ops l) k of
             None \<Rightarrow> lru_iter ops l | Some v \<Rightarrow> (k, v) # without k (lru_iter ops l)) \<and>
        lru_cap ops (snd (lru_get ops k l)) = lru_cap ops l) \<and>
     (\<forall>k f l. fst (lru_get_mut ops k f l) = map_of (lru_iter ops l) k \<and>
        lru_iter ops (snd (lru_get_mut ops k f l)) =
          (case map_of (lru_iter ops l) k of
             None \<Rightarrow> lru_iter ops l | Some v \<Rightarrow> (k, f v) # without k (lru_iter ops l)) \<and>
        lru_cap ops (snd (lru_get_mut ops k f l)) = lru_cap ops l)"

definition lru_laws :: "('k, 'v, 'l) lru_ops \<Rightarrow> bool" where
  "lru_laws ops \<longleftrightarrow> lru_reads ops \<and> lru_pops ops \<and> lru_pushes ops \<and> lru_gets ops"

subsection \<open>Cached messages\<close>

type_synonym MessageIdType = bytes

record VerifiedInner =
  vi_author :: PeerId
  vi_digest :: bytes
  vi_revision :: nat

record CachedMessage =
  cm_payload :: bytes
  cm_header :: MessageHeader
  cm_dropped :: bool
  cm_local_origin :: bool
  cm_inner_proof :: "VerifiedInner option"

record CachedEntry =
  ce_message :: CachedMessage
  ce_bytes :: nat
  ce_inserted_at :: instant

definition MESSAGE_HEADER_OVERHEAD_BYTES :: nat where
  "MESSAGE_HEADER_OVERHEAD_BYTES = 256"

definition MESSAGE_CRYPTO_OVERHEAD_BYTES :: nat where
  "MESSAGE_CRYPTO_OVERHEAD_BYTES = 5500"

definition estimate_message_bytes :: "CachedMessage \<Rightarrow> nat" where
  "estimate_message_bytes m =
     u64_sat_add (u64_sat_add (length (cm_payload m)) MESSAGE_HEADER_OVERHEAD_BYTES) MESSAGE_CRYPTO_OVERHEAD_BYTES"

subsection \<open>The payload guard of the forward path\<close>

definition ZERO_TAIL_FORWARD_LIMIT :: nat where
  "ZERO_TAIL_FORWARD_LIMIT = 512"

definition ZERO_WINDOW_FORWARD_LIMIT :: nat where
  "ZERO_WINDOW_FORWARD_LIMIT = 1024"

definition payload_zero_tail :: "bytes \<Rightarrow> nat" where
  "payload_zero_tail payload = length (takeWhile (\<lambda>b. b = 0) (rev payload))"

fun zero_run_loop :: "bytes \<Rightarrow> nat \<Rightarrow> nat \<Rightarrow> nat" where
  "zero_run_loop [] longest run = longest"
| "zero_run_loop (b # bs) longest run =
     (if b = 0
      then (if run + 1 > longest
            then (if run + 1 > ZERO_WINDOW_FORWARD_LIMIT then run + 1
                  else zero_run_loop bs (run + 1) (run + 1))
            else zero_run_loop bs longest (run + 1))
      else zero_run_loop bs longest 0)"

definition payload_longest_zero_run :: "bytes \<Rightarrow> nat" where
  "payload_longest_zero_run payload = zero_run_loop payload 0 0"

definition forwardable_payload :: "bytes \<Rightarrow> bool" where
  "forwardable_payload payload =
     (if payload_zero_tail payload > ZERO_TAIL_FORWARD_LIMIT then False
      else if payload_longest_zero_run payload > ZERO_WINDOW_FORWARD_LIMIT then False
      else True)"

subsection \<open>The bounded cache\<close>

type_synonym 'l cache_ops = "(MessageIdType, CachedEntry, 'l) lru_ops"

record 'l BoundedMessageCache =
  mc_lru :: 'l
  mc_total_bytes :: nat
  mc_max_count :: nat
  mc_max_bytes :: nat
  mc_max_age :: duration
  mc_evicted_by_age :: nat
  mc_evicted_by_bytes :: nat
  mc_evicted_by_count :: nat
  mc_live_local_origin :: nat

definition cache_new :: "'l cache_ops \<Rightarrow> nat \<Rightarrow> nat \<Rightarrow> duration \<Rightarrow> 'l BoundedMessageCache" where
  "cache_new ops max_count max_bytes max_age =
     \<lparr>mc_lru = lru_new ops max_count, mc_total_bytes = 0, mc_max_count = max_count, mc_max_bytes = max_bytes,
      mc_max_age = max_age, mc_evicted_by_age = 0, mc_evicted_by_bytes = 0, mc_evicted_by_count = 0,
      mc_live_local_origin = 0\<rparr>"

definition counts_as_live_local :: "CachedMessage \<Rightarrow> bool" where
  "counts_as_live_local m \<longleftrightarrow> cm_local_origin m \<and> \<not> cm_dropped m"

definition note_removed_entry :: "CachedEntry \<Rightarrow> 'l BoundedMessageCache \<Rightarrow> 'l BoundedMessageCache" where
  "note_removed_entry entry c =
     (if counts_as_live_local (ce_message entry)
      then c\<lparr>mc_live_local_origin := mc_live_local_origin c - 1\<rparr> else c)"

definition has_live_local_origin :: "'l BoundedMessageCache \<Rightarrow> bool" where
  "has_live_local_origin c \<longleftrightarrow> mc_live_local_origin c > 0"

text \<open>The bookkeeping of an entry that left the LRU cache, before its eviction is counted.\<close>

definition forget_entry :: "CachedEntry \<Rightarrow> 'l BoundedMessageCache \<Rightarrow> 'l BoundedMessageCache" where
  "forget_entry entry c = note_removed_entry entry (c\<lparr>mc_total_bytes := mc_total_bytes c - ce_bytes entry\<rparr>)"

definition mark_dropped :: "'l cache_ops \<Rightarrow> MessageIdType \<Rightarrow> 'l BoundedMessageCache \<Rightarrow> bool \<times> 'l BoundedMessageCache" where
  "mark_dropped ops msg_id c =
     (let drop = (\<lambda>entry. entry\<lparr>ce_message := (ce_message entry)\<lparr>cm_dropped := True\<rparr>\<rparr>);
          (found, lru) = lru_get_mut ops msg_id drop (mc_lru c)
      in case found of
           None \<Rightarrow> (False, c\<lparr>mc_lru := lru\<rparr>)
         | Some entry \<Rightarrow>
             if cm_dropped (ce_message entry) then (True, c\<lparr>mc_lru := lru\<rparr>)
             else if cm_local_origin (ce_message entry)
             then (True, c\<lparr>mc_lru := lru, mc_live_local_origin := mc_live_local_origin c - 1\<rparr>)
             else (True, c\<lparr>mc_lru := lru\<rparr>))"

definition expire_one :: "'l cache_ops \<Rightarrow> MessageIdType \<Rightarrow> 'l BoundedMessageCache \<Rightarrow> 'l BoundedMessageCache" where
  "expire_one ops msg_id c =
     (case lru_pop ops msg_id (mc_lru c) of
        (None, lru) \<Rightarrow> c\<lparr>mc_lru := lru\<rparr>
      | (Some entry, lru) \<Rightarrow>
          (let c' = forget_entry entry (c\<lparr>mc_lru := lru\<rparr>)
           in c'\<lparr>mc_evicted_by_age := u64_sat_add (mc_evicted_by_age c') 1\<rparr>))"

definition prune_expired_at :: "'l cache_ops \<Rightarrow> instant \<Rightarrow> 'l BoundedMessageCache \<Rightarrow> 'l BoundedMessageCache" where
  "prune_expired_at ops now c =
     fold (expire_one ops)
       (map fst (filter (\<lambda>x. now - ce_inserted_at (snd x) \<ge> mc_max_age c) (lru_iter ops (mc_lru c)))) c"

fun ensure_bytes_capacity ::
  "nat \<Rightarrow> 'l cache_ops \<Rightarrow> nat \<Rightarrow> 'l BoundedMessageCache \<Rightarrow> 'l BoundedMessageCache option" where
  "ensure_bytes_capacity 0 ops incoming c = None"
| "ensure_bytes_capacity (Suc fuel) ops incoming c =
     (if u64_sat_add (mc_total_bytes c) incoming > mc_max_bytes c
      then (case lru_pop_lru ops (mc_lru c) of
              (None, lru) \<Rightarrow> Some (c\<lparr>mc_lru := lru\<rparr>)
            | (Some (_, entry), lru) \<Rightarrow>
                (let c' = forget_entry entry (c\<lparr>mc_lru := lru\<rparr>)
                 in ensure_bytes_capacity fuel ops incoming
                      (c'\<lparr>mc_evicted_by_bytes := u64_sat_add (mc_evicted_by_bytes c') 1\<rparr>)))
      else Some c)"

fun ensure_count_capacity_for_insert ::
  "nat \<Rightarrow> 'l cache_ops \<Rightarrow> 'l BoundedMessageCache \<Rightarrow> 'l BoundedMessageCache option" where
  "ensure_count_capacity_for_insert 0 ops c = None"
| "ensure_count_capacity_for_insert (Suc fuel) ops c =
     (if u64_sat_add (lru_len ops (mc_lru c)) 1 > mc_max_count c
      then (case lru_pop_lru ops (mc_lru c) of
              (None, lru) \<Rightarrow> Some (c\<lparr>mc_lru := lru\<rparr>)
            | (Some (_, entry), lru) \<Rightarrow>
                (let c' = forget_entry entry (c\<lparr>mc_lru := lru\<rparr>)
                 in ensure_count_capacity_for_insert fuel ops
                      (c'\<lparr>mc_evicted_by_count := u64_sat_add (mc_evicted_by_count c') 1\<rparr>)))
      else Some c)"

definition push_entry ::
  "'l cache_ops \<Rightarrow> MessageIdType \<Rightarrow> CachedEntry \<Rightarrow> 'l BoundedMessageCache \<Rightarrow> 'l BoundedMessageCache" where
  "push_entry ops msg_id entry c =
     (let c1 = c\<lparr>mc_total_bytes := u64_sat_add (mc_total_bytes c) (ce_bytes entry)\<rparr>;
          c2 = (case lru_push ops msg_id entry (mc_lru c1) of
                  (None, lru) \<Rightarrow> c1\<lparr>mc_lru := lru\<rparr>
                | (Some (_, evicted), lru) \<Rightarrow>
                    (let c' = forget_entry evicted (c1\<lparr>mc_lru := lru\<rparr>)
                     in c'\<lparr>mc_evicted_by_count := u64_sat_add (mc_evicted_by_count c') 1\<rparr>))
      in if counts_as_live_local (ce_message entry)
         then c2\<lparr>mc_live_local_origin := u64_sat_add (mc_live_local_origin c2) 1\<rparr> else c2)"

definition drop_existing :: "'l cache_ops \<Rightarrow> MessageIdType \<Rightarrow> 'l BoundedMessageCache \<Rightarrow> 'l BoundedMessageCache" where
  "drop_existing ops msg_id c =
     (case lru_pop ops msg_id (mc_lru c) of
        (None, lru) \<Rightarrow> c\<lparr>mc_lru := lru\<rparr>
      | (Some existing, lru) \<Rightarrow> forget_entry existing (c\<lparr>mc_lru := lru\<rparr>))"

definition insert_at ::
  "'l cache_ops \<Rightarrow> MessageIdType \<Rightarrow> CachedMessage \<Rightarrow> instant \<Rightarrow> 'l BoundedMessageCache \<Rightarrow>
   (bool \<times> 'l BoundedMessageCache) option" where
  "insert_at ops msg_id message now c =
     (let size = estimate_message_bytes message;
          c1 = drop_existing ops msg_id (prune_expired_at ops now c)
      in if size > mc_max_bytes c1 then Some (False, c1)
         else case ensure_bytes_capacity (Suc (lru_len ops (mc_lru c1))) ops size c1 of
                None \<Rightarrow> None
              | Some c2 \<Rightarrow>
                  (case ensure_count_capacity_for_insert (Suc (lru_len ops (mc_lru c2))) ops c2 of
                     None \<Rightarrow> None
                   | Some c3 \<Rightarrow>
                       Some (True, push_entry ops msg_id
                         \<lparr>ce_message = message, ce_bytes = size, ce_inserted_at = now\<rparr> c3)))"

definition get_at ::
  "'l cache_ops \<Rightarrow> MessageIdType \<Rightarrow> instant \<Rightarrow> 'l BoundedMessageCache \<Rightarrow> CachedMessage option \<times> 'l BoundedMessageCache" where
  "get_at ops msg_id now c =
     (let c1 = prune_expired_at ops now c;
          (found, lru) = lru_get ops msg_id (mc_lru c1)
      in (map_option ce_message found, c1\<lparr>mc_lru := lru\<rparr>))"

definition cache_contains :: "'l cache_ops \<Rightarrow> 'l BoundedMessageCache \<Rightarrow> MessageIdType \<Rightarrow> bool" where
  "cache_contains ops c msg_id \<longleftrightarrow> lru_peek ops msg_id (mc_lru c) \<noteq> None"

definition cache_ids :: "'l cache_ops \<Rightarrow> 'l BoundedMessageCache \<Rightarrow> MessageIdType list" where
  "cache_ids ops c = map fst (lru_iter ops (mc_lru c))"

text \<open>\<open>TopicState::cache_message\<close>: a network echo never replaces a message of local origin.
  The lookup and the insertion read the clock one after the other, at \<open>t1\<close> and \<open>t2\<close>.\<close>

definition cache_message ::
  "'l cache_ops \<Rightarrow> MessageIdType \<Rightarrow> bytes \<Rightarrow> MessageHeader \<Rightarrow> bool \<Rightarrow> instant \<Rightarrow> instant \<Rightarrow> 'l BoundedMessageCache \<Rightarrow>
   (bool \<times> 'l BoundedMessageCache) option" where
  "cache_message ops msg_id payload header local_origin t1 t2 c =
     (let (seen, c1) = (if local_origin then (None, c) else get_at ops msg_id t1 c)
      in if \<not> local_origin \<and> (case seen of None \<Rightarrow> False | Some cached \<Rightarrow> cm_local_origin cached)
         then Some (False, c1)
         else insert_at ops msg_id
                \<lparr>cm_payload = payload, cm_header = header, cm_dropped = False, cm_local_origin = local_origin,
                 cm_inner_proof = None\<rparr> t2 c1)"

definition set_inner_proof ::
  "'l cache_ops \<Rightarrow> MessageIdType \<Rightarrow> VerifiedInner option \<Rightarrow> 'l BoundedMessageCache \<Rightarrow> 'l BoundedMessageCache" where
  "set_inner_proof ops msg_id proof c =
     c\<lparr>mc_lru := snd (lru_get_mut ops msg_id
          (\<lambda>entry. entry\<lparr>ce_message := (ce_message entry)\<lparr>cm_inner_proof := proof\<rparr>\<rparr>) (mc_lru c))\<rparr>"

definition get_local_origin_message ::
  "'l cache_ops \<Rightarrow> MessageIdType \<Rightarrow> instant \<Rightarrow> 'l BoundedMessageCache \<Rightarrow> CachedMessage option \<times> 'l BoundedMessageCache" where
  "get_local_origin_message ops msg_id now c =
     (let c1 = prune_expired_at ops now c
      in (case lru_peek ops msg_id (mc_lru c1) of
            None \<Rightarrow> None
          | Some entry \<Rightarrow> if cm_local_origin (ce_message entry) then Some (ce_message entry) else None, c1))"

subsection \<open>Books of the cache\<close>

definition sum_bytes :: "(MessageIdType \<times> CachedEntry) list \<Rightarrow> nat" where
  "sum_bytes xs = sum_list (map (\<lambda>x. ce_bytes (snd x)) xs)"

definition live_count :: "(MessageIdType \<times> CachedEntry) list \<Rightarrow> nat" where
  "live_count xs = length (filter (\<lambda>x. counts_as_live_local (ce_message (snd x))) xs)"

definition books :: "'l cache_ops \<Rightarrow> 'l BoundedMessageCache \<Rightarrow> (MessageIdType \<times> CachedEntry) list \<Rightarrow> bool" where
  "books ops c xs \<longleftrightarrow> lru_iter ops (mc_lru c) = xs \<and> mc_total_bytes c = sum_bytes xs \<and>
     mc_live_local_origin c = live_count xs \<and> lru_cap ops (mc_lru c) = mc_max_count c"

definition same_limits :: "'l BoundedMessageCache \<Rightarrow> 'l BoundedMessageCache \<Rightarrow> bool" where
  "same_limits c c' \<longleftrightarrow> mc_max_count c' = mc_max_count c \<and> mc_max_bytes c' = mc_max_bytes c \<and> mc_max_age c' = mc_max_age c"

lemma sum_bytes_simps [simp]:
  "sum_bytes [] = 0" "sum_bytes (x # xs) = ce_bytes (snd x) + sum_bytes xs"
  "sum_bytes (xs @ ys) = sum_bytes xs + sum_bytes ys"
  by (simp_all add: sum_bytes_def)

lemma live_count_simps [simp]:
  "live_count [] = 0"
  "live_count (x # xs) = (if counts_as_live_local (ce_message (snd x)) then 1 else 0) + live_count xs"
  "live_count (xs @ ys) = live_count xs + live_count ys"
  by (simp_all add: live_count_def)

lemma same_limits_refl [simp]: "same_limits c c"
  by (simp add: same_limits_def)

lemma same_limits_trans: "same_limits c c' \<Longrightarrow> same_limits c' c'' \<Longrightarrow> same_limits c c''"
  by (simp add: same_limits_def)

lemma lru_lawsD:
  assumes "lru_laws ops"
  shows "lru_reads ops" "lru_pops ops" "lru_pushes ops" "lru_gets ops"
  using assms by (simp_all add: lru_laws_def)

lemma lru_distinct: "lru_laws ops \<Longrightarrow> books ops c xs \<Longrightarrow> distinct (map fst xs)"
  by (auto simp: lru_laws_def lru_reads_def books_def)

lemma without_absent: "map_of xs k = None \<Longrightarrow> without k xs = xs"
  by (induction xs) (auto simp: without_def split: if_splits)

lemma without_present:
  assumes "distinct (map fst xs)" "map_of xs k = Some e"
  shows "sum_bytes xs = ce_bytes e + sum_bytes (without k xs)"
    "live_count xs = (if counts_as_live_local (ce_message e) then 1 else 0) + live_count (without k xs)"
proof -
  have "sum_bytes xs = ce_bytes e + sum_bytes (without k xs) \<and>
    live_count xs = (if counts_as_live_local (ce_message e) then 1 else 0) + live_count (without k xs)"
    using assms
  proof (induction xs)
    case (Cons x xs)
    show ?case
    proof (cases "fst x = k")
      case True
      then have "map_of xs k = None" using Cons.prems(1) by (auto simp: map_of_eq_None_iff)
      from without_absent [OF this] show ?thesis using True Cons.prems(2) by (cases x) (simp add: without_def)
    next
      case False
      then show ?thesis using Cons by (cases x) (auto simp: without_def)
    qed
  qed simp
  then show "sum_bytes xs = ce_bytes e + sum_bytes (without k xs)"
    "live_count xs = (if counts_as_live_local (ce_message e) then 1 else 0) + live_count (without k xs)" by auto
qed

lemma forget_entry_simps [simp]:
  "mc_lru (forget_entry e c) = mc_lru c" "mc_max_count (forget_entry e c) = mc_max_count c"
  "mc_max_bytes (forget_entry e c) = mc_max_bytes c" "mc_max_age (forget_entry e c) = mc_max_age c"
  "mc_total_bytes (forget_entry e c) = mc_total_bytes c - ce_bytes e"
  "mc_live_local_origin (forget_entry e c) =
     mc_live_local_origin c - (if counts_as_live_local (ce_message e) then 1 else 0)"
  by (auto simp: forget_entry_def note_removed_entry_def)

lemma lru_pop_result:
  assumes "lru_laws ops" "books ops c xs"
  obtains lru where "lru_pop ops k (mc_lru c) = (map_of xs k, lru)" "lru_iter ops lru = without k xs"
    "lru_cap ops lru = lru_cap ops (mc_lru c)"
proof
  have l: "fst (lru_pop ops k (mc_lru c)) = map_of (lru_iter ops (mc_lru c)) k"
    "lru_iter ops (snd (lru_pop ops k (mc_lru c))) = without k (lru_iter ops (mc_lru c))"
    "lru_cap ops (snd (lru_pop ops k (mc_lru c))) = lru_cap ops (mc_lru c)"
    using lru_lawsD(2) [OF assms(1)] unfolding lru_pops_def by blast+
  have x: "lru_iter ops (mc_lru c) = xs" using assms(2) by (simp add: books_def)
  show "lru_pop ops k (mc_lru c) = (map_of xs k, snd (lru_pop ops k (mc_lru c)))" using l(1) x by (simp add: prod_eq_iff)
  show "lru_iter ops (snd (lru_pop ops k (mc_lru c))) = without k xs"
    "lru_cap ops (snd (lru_pop ops k (mc_lru c))) = lru_cap ops (mc_lru c)" using l x by simp_all
qed

lemma expire_one_books:
  assumes "lru_laws ops" "books ops c xs"
  shows "books ops (expire_one ops k c) (without k xs) \<and> same_limits c (expire_one ops k c)"
proof -
  obtain lru where p: "lru_pop ops k (mc_lru c) = (map_of xs k, lru)" "lru_iter ops lru = without k xs"
    "lru_cap ops lru = lru_cap ops (mc_lru c)" using lru_pop_result [OF assms] .
  show ?thesis
  proof (cases "map_of xs k")
    case None
    with p assms(2) without_absent [OF None] show ?thesis by (simp add: expire_one_def books_def same_limits_def)
  next
    case (Some e)
    with p assms(2) without_present [OF lru_distinct [OF assms] Some] show ?thesis
      by (simp add: expire_one_def books_def same_limits_def Let_def)
  qed
qed

lemma expire_all_books:
  assumes "lru_laws ops" "books ops c xs"
  shows "books ops (fold (expire_one ops) ks c) (filter (\<lambda>x. fst x \<notin> set ks) xs) \<and>
    same_limits c (fold (expire_one ops) ks c)"
  using assms(2)
proof (induction ks arbitrary: c xs)
  case (Cons k ks)
  note e = expire_one_books [OF assms(1) Cons.prems, of k]
  have "filter (\<lambda>x. fst x \<notin> set ks) (without k xs) = filter (\<lambda>x. fst x \<notin> set (k # ks)) xs"
    by (auto simp: without_def intro: filter_cong)
  then show ?case using Cons.IH [OF conjunct1 [OF e]] e same_limits_trans by auto
qed simp

definition fresh :: "instant \<Rightarrow> duration \<Rightarrow> (MessageIdType \<times> CachedEntry) list \<Rightarrow> (MessageIdType \<times> CachedEntry) list" where
  "fresh now max_age xs = filter (\<lambda>x. now - ce_inserted_at (snd x) < max_age) xs"

lemma prune_expired_books:
  assumes "lru_laws ops" "books ops c xs"
  shows "books ops (prune_expired_at ops now c) (fresh now (mc_max_age c) xs) \<and>
    same_limits c (prune_expired_at ops now c)"
proof -
  let ?ks = "map fst (filter (\<lambda>x. now - ce_inserted_at (snd x) \<ge> mc_max_age c) xs)"
  have "fst x \<in> set ?ks \<longleftrightarrow> now - ce_inserted_at (snd x) \<ge> mc_max_age c" if "x \<in> set xs" for x
    using that lru_distinct [OF assms] by (auto simp: distinct_map inj_on_def)
  then have "filter (\<lambda>x. fst x \<notin> set ?ks) xs = fresh now (mc_max_age c) xs"
    unfolding fresh_def by (intro filter_cong) (auto simp: not_le)
  moreover have "prune_expired_at ops now c = fold (expire_one ops) ?ks c"
    using assms(2) by (simp add: prune_expired_at_def books_def)
  ultimately show ?thesis using expire_all_books [OF assms, of ?ks] by simp
qed

lemma drop_existing_books:
  assumes "lru_laws ops" "books ops c xs"
  shows "books ops (drop_existing ops k c) (without k xs) \<and> same_limits c (drop_existing ops k c)"
proof -
  obtain lru where p: "lru_pop ops k (mc_lru c) = (map_of xs k, lru)" "lru_iter ops lru = without k xs"
    "lru_cap ops lru = lru_cap ops (mc_lru c)" using lru_pop_result [OF assms] .
  show ?thesis
  proof (cases "map_of xs k")
    case None
    with p assms(2) without_absent [OF None] show ?thesis by (simp add: drop_existing_def books_def same_limits_def)
  next
    case (Some e)
    with p assms(2) without_present [OF lru_distinct [OF assms] Some] show ?thesis
      by (simp add: drop_existing_def books_def same_limits_def Let_def)
  qed
qed

lemma lru_pop_lru_result:
  assumes "lru_laws ops" "books ops c xs"
  obtains lru where "lru_pop_lru ops (mc_lru c) = (if xs = [] then None else Some (last xs), lru)"
    "lru_iter ops lru = butlast xs" "lru_cap ops lru = lru_cap ops (mc_lru c)"
proof
  have l: "fst (lru_pop_lru ops (mc_lru c)) =
      (if lru_iter ops (mc_lru c) = [] then None else Some (last (lru_iter ops (mc_lru c))))"
    "lru_iter ops (snd (lru_pop_lru ops (mc_lru c))) = butlast (lru_iter ops (mc_lru c))"
    "lru_cap ops (snd (lru_pop_lru ops (mc_lru c))) = lru_cap ops (mc_lru c)"
    using lru_lawsD(2) [OF assms(1)] unfolding lru_pops_def by blast+
  have x: "lru_iter ops (mc_lru c) = xs" using assms(2) by (simp add: books_def)
  show "lru_pop_lru ops (mc_lru c) = (if xs = [] then None else Some (last xs), snd (lru_pop_lru ops (mc_lru c)))"
    using l(1) x by (simp add: prod_eq_iff)
  show "lru_iter ops (snd (lru_pop_lru ops (mc_lru c))) = butlast xs"
    "lru_cap ops (snd (lru_pop_lru ops (mc_lru c))) = lru_cap ops (mc_lru c)" using l x by simp_all
qed

text \<open>One round of an eviction loop: the least recent entry leaves and the books stay balanced.\<close>

lemma evict_last_books:
  assumes "lru_laws ops" "books ops c xs" "xs \<noteq> []"
  obtains lru where "lru_pop_lru ops (mc_lru c) = (Some (last xs), lru)"
    "books ops (forget_entry (snd (last xs)) (c\<lparr>mc_lru := lru\<rparr>)) (butlast xs)"
proof -
  obtain lru where l: "lru_pop_lru ops (mc_lru c) = (if xs = [] then None else Some (last xs), lru)"
    "lru_iter ops lru = butlast xs" "lru_cap ops lru = lru_cap ops (mc_lru c)"
    using lru_pop_lru_result [OF assms(1,2)] .
  then have lru: "lru_pop_lru ops (mc_lru c) = (Some (last xs), lru)"
    "lru_iter ops lru = butlast xs" "lru_cap ops lru = lru_cap ops (mc_lru c)" using assms(3) by simp_all
  have "sum_bytes xs = sum_bytes (butlast xs @ [last xs])" "live_count xs = live_count (butlast xs @ [last xs])"
    using assms(3) by simp_all
  then have "books ops (forget_entry (snd (last xs)) (c\<lparr>mc_lru := lru\<rparr>)) (butlast xs)"
    using assms(2) lru by (simp add: books_def)
  then show thesis using that lru(1) by blast
qed

lemma books_evicted [simp]:
  "books ops (c\<lparr>mc_evicted_by_bytes := n\<rparr>) xs = books ops c xs"
  "books ops (c\<lparr>mc_evicted_by_count := n\<rparr>) xs = books ops c xs"
  "same_limits c (c'\<lparr>mc_evicted_by_bytes := n\<rparr>) = same_limits c c'"
  "same_limits c (c'\<lparr>mc_evicted_by_count := n\<rparr>) = same_limits c c'"
  by (simp_all add: books_def same_limits_def)

definition cuts_bytes :: "nat \<Rightarrow> nat \<Rightarrow> (MessageIdType \<times> CachedEntry) list \<Rightarrow> nat \<Rightarrow> bool" where
  "cuts_bytes limit incoming xs n \<longleftrightarrow> n \<le> length xs \<and> sum_bytes (take n xs) + incoming \<le> limit \<and>
     (n < length xs \<longrightarrow> sum_bytes (take (Suc n) xs) + incoming > limit)"

lemma ensure_bytes_books:
  assumes "lru_laws ops" "incoming \<le> mc_max_bytes c" "mc_max_bytes c < u64_max"
    and "books ops c xs" "length xs < fuel"
  shows "\<exists>c' n. ensure_bytes_capacity fuel ops incoming c = Some c' \<and> books ops c' (take n xs) \<and>
    same_limits c c' \<and> cuts_bytes (mc_max_bytes c) incoming xs n"
  using assms(2-)
proof (induction fuel arbitrary: c xs)
  case (Suc fuel)
  have over: "u64_sat_add (mc_total_bytes c) incoming > mc_max_bytes c \<longleftrightarrow> sum_bytes xs + incoming > mc_max_bytes c"
    using Suc.prems(2,3) by (auto simp: u64_sat_add_def books_def)
  show ?case
  proof (cases "sum_bytes xs + incoming > mc_max_bytes c")
    case False
    then show ?thesis using over Suc.prems
      by (intro exI [of _ c] exI [of _ "length xs"]) (simp add: cuts_bytes_def)
  next
    case True
    then have ne: "xs \<noteq> []" using Suc.prems(1) by auto
    obtain lru where e: "lru_pop_lru ops (mc_lru c) = (Some (last xs), lru)"
      "books ops (forget_entry (snd (last xs)) (c\<lparr>mc_lru := lru\<rparr>)) (butlast xs)"
      using evict_last_books [OF assms(1) Suc.prems(3) ne] .
    let ?c = "forget_entry (snd (last xs)) (c\<lparr>mc_lru := lru\<rparr>)"
    let ?c' = "?c\<lparr>mc_evicted_by_bytes := u64_sat_add (mc_evicted_by_bytes ?c) 1\<rparr>"
    have lim: "same_limits c ?c'" by (simp add: same_limits_def)
    have short: "length xs - Suc 0 < fuel" using Suc.prems(4) ne by (cases xs) auto
    obtain c'' n where r: "ensure_bytes_capacity fuel ops incoming ?c' = Some c''" "books ops c'' (take n (butlast xs))"
      "same_limits ?c' c''" "cuts_bytes (mc_max_bytes ?c') incoming (butlast xs) n"
      using Suc.IH [of ?c' "butlast xs"] Suc.prems e(2) short by auto
    have n: "n \<le> length xs - 1" using r(4) by (simp add: cuts_bytes_def)
    then have t: "take n (butlast xs) = take n xs" by (simp add: butlast_conv_take)
    have "cuts_bytes (mc_max_bytes c) incoming xs n"
    proof (cases "n < length xs - 1")
      case True
      then have "take (Suc n) (butlast xs) = take (Suc n) xs" by (simp add: butlast_conv_take)
      then show ?thesis using r(4) True t by (simp add: cuts_bytes_def)
    next
      case False
      then have "Suc n = length xs" using n ne by (cases xs) auto
      then show ?thesis using \<open>sum_bytes xs + incoming > mc_max_bytes c\<close> r(4) t by (simp add: cuts_bytes_def)
    qed
    moreover have "ensure_bytes_capacity (Suc fuel) ops incoming c = Some c''"
      using over True e(1) r(1) by (simp add: Let_def case_prod_beta)
    ultimately show ?thesis using r(2,3) t same_limits_trans [OF lim] by auto
  qed
qed simp

lemma ensure_count_books:
  assumes "lru_laws ops" "0 < mc_max_count c" "mc_max_count c < u64_max"
    and "books ops c xs" "length xs < fuel"
  shows "\<exists>c'. ensure_count_capacity_for_insert fuel ops c = Some c' \<and>
    books ops c' (take (mc_max_count c - 1) xs) \<and> same_limits c c'"
  using assms(2-)
proof (induction fuel arbitrary: c xs)
  case (Suc fuel)
  have len: "lru_len ops (mc_lru c) = length xs"
    using lru_lawsD(1) [OF assms(1)] Suc.prems(3) by (auto simp: lru_reads_def books_def)
  have over: "u64_sat_add (lru_len ops (mc_lru c)) 1 > mc_max_count c \<longleftrightarrow> length xs \<ge> mc_max_count c"
    using Suc.prems(2) by (auto simp: u64_sat_add_def len)
  show ?case
  proof (cases "length xs \<ge> mc_max_count c")
    case False
    then show ?thesis using over Suc.prems by simp
  next
    case True
    then have ne: "xs \<noteq> []" using Suc.prems(1) by auto
    obtain lru where e: "lru_pop_lru ops (mc_lru c) = (Some (last xs), lru)"
      "books ops (forget_entry (snd (last xs)) (c\<lparr>mc_lru := lru\<rparr>)) (butlast xs)"
      using evict_last_books [OF assms(1) Suc.prems(3) ne] .
    let ?c = "forget_entry (snd (last xs)) (c\<lparr>mc_lru := lru\<rparr>)"
    let ?c' = "?c\<lparr>mc_evicted_by_count := u64_sat_add (mc_evicted_by_count ?c) 1\<rparr>"
    have lim: "same_limits c ?c'" by (simp add: same_limits_def)
    have short: "length xs - Suc 0 < fuel" using Suc.prems(4) ne by (cases xs) auto
    obtain c'' where r: "ensure_count_capacity_for_insert fuel ops ?c' = Some c''"
      "books ops c'' (take (mc_max_count c - 1) (butlast xs))" "same_limits ?c' c''"
      using Suc.IH [of ?c' "butlast xs"] Suc.prems e(2) short by auto
    have "take (mc_max_count c - 1) (butlast xs) = take (mc_max_count c - 1) xs"
      using True by (simp add: butlast_conv_take min_def)
    moreover have "ensure_count_capacity_for_insert (Suc fuel) ops c = Some c''"
      using over True e(1) r(1) by (simp add: Let_def case_prod_beta)
    ultimately show ?thesis using r(2,3) same_limits_trans [OF lim] by auto
  qed
qed simp

lemma push_entry_books:
  assumes "lru_laws ops" "books ops c xs" "map_of xs k = None" "length xs < mc_max_count c"
    and "sum_bytes xs + ce_bytes e \<le> u64_max" "length xs < u64_max"
  shows "books ops (push_entry ops k e c) ((k, e) # xs) \<and> same_limits c (push_entry ops k e c)"
proof -
  have x: "lru_iter ops (mc_lru c) = xs" "lru_cap ops (mc_lru c) = mc_max_count c"
    using assms(2) by (simp_all add: books_def)
  have "lru_cap ops (snd (lru_push ops k e (mc_lru c))) = lru_cap ops (mc_lru c) \<and>
      fst (lru_push ops k e (mc_lru c)) = None \<and> lru_iter ops (snd (lru_push ops k e (mc_lru c))) = (k, e) # xs"
    using lru_lawsD(3) [OF assms(1)] assms(3,4) x unfolding lru_pushes_def by (smt (verit) option.simps(4))
  then obtain lru where lru: "lru_push ops k e (mc_lru c) = (None, lru)" "lru_iter ops lru = (k, e) # xs"
    "lru_cap ops lru = mc_max_count c" using x by (metis prod.collapse)
  have "live_count xs \<le> length xs" by (simp add: live_count_def)
  then have "u64_sat_add (live_count xs) 1 = live_count xs + 1" using assms(6) by (simp add: u64_sat_add_exact)
  moreover have "u64_sat_add (sum_bytes xs) (ce_bytes e) = sum_bytes xs + ce_bytes e"
    using assms(5) by (simp add: u64_sat_add_exact)
  ultimately show ?thesis using lru assms(2) by (simp add: push_entry_def Let_def books_def same_limits_def)
qed

subsection \<open>The invariant\<close>

definition entries :: "'l cache_ops \<Rightarrow> 'l BoundedMessageCache \<Rightarrow> (MessageIdType \<times> CachedEntry) list" where
  "entries ops c = lru_iter ops (mc_lru c)"

definition limits_ok :: "'l BoundedMessageCache \<Rightarrow> bool" where
  "limits_ok c \<longleftrightarrow> 0 < mc_max_count c \<and> mc_max_count c < u64_max \<and> mc_max_bytes c < u64_max"

definition sized :: "(MessageIdType \<times> CachedEntry) list \<Rightarrow> bool" where
  "sized xs \<longleftrightarrow> (\<forall>x \<in> set xs. ce_bytes (snd x) = estimate_message_bytes (ce_message (snd x)))"

definition cache_ok :: "'l cache_ops \<Rightarrow> 'l BoundedMessageCache \<Rightarrow> bool" where
  "cache_ok ops c \<longleftrightarrow> limits_ok c \<and> books ops c (entries ops c) \<and> sum_bytes (entries ops c) \<le> mc_max_bytes c \<and>
     length (entries ops c) \<le> mc_max_count c \<and> sized (entries ops c)"

lemma cache_okD:
  assumes "cache_ok ops c"
  shows "limits_ok c" "books ops c (entries ops c)" "sum_bytes (entries ops c) \<le> mc_max_bytes c"
    "length (entries ops c) \<le> mc_max_count c" "sized (entries ops c)"
  using assms by (simp_all add: cache_ok_def)

lemma cache_okI:
  assumes "cache_ok ops c" "books ops c' ys" "same_limits c c'" "sum_bytes ys \<le> mc_max_bytes c"
    "length ys \<le> mc_max_count c" "sized ys"
  shows "cache_ok ops c'"
proof -
  have "entries ops c' = ys" using assms(2) by (simp add: entries_def books_def)
  then show ?thesis using assms by (simp add: cache_ok_def limits_ok_def same_limits_def)
qed

lemma sum_bytes_filter: "sum_bytes (filter P xs) \<le> sum_bytes xs"
  by (induction xs) (auto intro: le_SucI trans_le_add2)

lemma sum_bytes_take: "m \<le> n \<Longrightarrow> sum_bytes (take m xs) \<le> sum_bytes (take n xs)"
proof (induction xs arbitrary: m n)
  case (Cons x xs)
  then show ?case by (cases m; cases n) auto
qed simp

lemma sized_subset: "sized xs \<Longrightarrow> set ys \<subseteq> set xs \<Longrightarrow> sized ys"
  by (auto simp: sized_def)

text \<open>What an insertion leaves: the new entry, and in front of the evicted ones the most recently
  used entries that are neither expired nor under the same id, as many as both bounds admit.\<close>

definition kept :: "MessageIdType \<Rightarrow> instant \<Rightarrow> duration \<Rightarrow> (MessageIdType \<times> CachedEntry) list \<Rightarrow> (MessageIdType \<times> CachedEntry) list" where
  "kept msg_id now max_age xs = without msg_id (fresh now max_age xs)"

lemma kept_subset: "set (kept k now age xs) \<subseteq> set xs" "length (kept k now age xs) \<le> length xs"
  "sum_bytes (kept k now age xs) \<le> sum_bytes xs" "map_of (kept k now age xs) k = None"
proof -
  show "sum_bytes (kept k now age xs) \<le> sum_bytes xs"
    unfolding kept_def without_def fresh_def by (meson order_trans sum_bytes_filter)
  show "set (kept k now age xs) \<subseteq> set xs" "length (kept k now age xs) \<le> length xs"
    by (auto simp: kept_def without_def fresh_def intro: order_trans [OF length_filter_le])
  show "map_of (kept k now age xs) k = None"
    by (auto simp: kept_def without_def map_of_eq_None_iff)
qed

lemma insert_at_result:
  fixes msg_id now message
  assumes "lru_laws ops" "cache_ok ops c"
  defines "ys \<equiv> kept msg_id now (mc_max_age c) (entries ops c)"
  defines "sz \<equiv> estimate_message_bytes message"
  shows "if sz > mc_max_bytes c
    then \<exists>c'. insert_at ops msg_id message now c = Some (False, c') \<and> books ops c' ys \<and> same_limits c c'
    else \<exists>n c'. insert_at ops msg_id message now c = Some (True, c') \<and>
      books ops c' ((msg_id, \<lparr>ce_message = message, ce_bytes = sz, ce_inserted_at = now\<rparr>) # take n ys) \<and>
      same_limits c c' \<and> n \<le> length ys \<and> sum_bytes (take n ys) + sz \<le> mc_max_bytes c \<and> Suc n \<le> mc_max_count c \<and>
      (n < length ys \<longrightarrow> sum_bytes (take (Suc n) ys) + sz > mc_max_bytes c \<or> Suc n = mc_max_count c)"
proof -
  let ?c0 = "prune_expired_at ops now c"
  let ?c1 = "drop_existing ops msg_id ?c0"
  note lim = cache_okD(1) [OF assms(2), unfolded limits_ok_def]
  note p = prune_expired_books [OF assms(1) cache_okD(2) [OF assms(2)], of now]
  note d = drop_existing_books [OF assms(1) conjunct1 [OF p], of msg_id]
  have b1: "books ops ?c1 ys" using d by (simp add: ys_def kept_def)
  have l1: "same_limits c ?c1" using p d same_limits_trans by blast
  have len1: "lru_len ops (mc_lru ?c1) = length ys"
    using b1 lru_lawsD(1) [OF assms(1)] by (simp add: lru_reads_def books_def)
  show ?thesis
  proof (cases "sz > mc_max_bytes c")
    case True
    then show ?thesis using b1 l1 by (simp add: insert_at_def Let_def sz_def same_limits_def)
  next
    case False
    have "sz \<le> mc_max_bytes ?c1" "mc_max_bytes ?c1 < u64_max" using False lim l1 by (auto simp: same_limits_def)
    from ensure_bytes_books [OF assms(1) this b1, of "Suc (length ys)"]
    obtain c2 n1 where c2: "ensure_bytes_capacity (Suc (length ys)) ops sz ?c1 = Some c2" "books ops c2 (take n1 ys)"
      "same_limits ?c1 c2" "cuts_bytes (mc_max_bytes ?c1) sz ys n1" by auto
    have l2: "same_limits c c2" using same_limits_trans [OF l1 c2(3)] .
    have len2: "lru_len ops (mc_lru c2) = length (take n1 ys)"
      using c2(2) lru_lawsD(1) [OF assms(1)] by (simp add: lru_reads_def books_def)
    have "0 < mc_max_count c2" "mc_max_count c2 < u64_max" using lim l2 by (auto simp: same_limits_def)
    from ensure_count_books [OF assms(1) this c2(2), of "Suc (length (take n1 ys))"]
    obtain c3 where c3: "ensure_count_capacity_for_insert (Suc (length (take n1 ys))) ops c2 = Some c3"
      "books ops c3 (take (mc_max_count c2 - 1) (take n1 ys))" "same_limits c2 c3" by auto
    have l3: "same_limits c c3" using same_limits_trans [OF l2 c3(3)] .
    define n where "n = min (mc_max_count c - 1) n1"
    have b3: "books ops c3 (take n ys)" using c3(2) l2 by (simp add: n_def same_limits_def)
    have cut: "n1 \<le> length ys" "sum_bytes (take n1 ys) + sz \<le> mc_max_bytes c"
      "n1 < length ys \<longrightarrow> sum_bytes (take (Suc n1) ys) + sz > mc_max_bytes c"
      using c2(4) l1 by (auto simp: cuts_bytes_def same_limits_def)
    have n: "n \<le> length ys" "sum_bytes (take n ys) + sz \<le> mc_max_bytes c" "Suc n \<le> mc_max_count c"
      using cut(1,2) sum_bytes_take [of n n1 ys] lim by (auto simp: n_def)
    have max: "n < length ys \<longrightarrow> sum_bytes (take (Suc n) ys) + sz > mc_max_bytes c \<or> Suc n = mc_max_count c"
      using cut(3) lim by (auto simp: n_def min_def)
    let ?e = "\<lparr>ce_message = message, ce_bytes = sz, ce_inserted_at = now\<rparr>"
    have "map_of (take n ys) msg_id = None"
      using kept_subset(4) [of msg_id now "mc_max_age c" "entries ops c"] set_take_subset [of n ys]
      unfolding ys_def map_of_eq_None_iff by blast
    from push_entry_books [OF assms(1) b3 this, of ?e]
    have "books ops (push_entry ops msg_id ?e c3) ((msg_id, ?e) # take n ys) \<and> same_limits c3 (push_entry ops msg_id ?e c3)"
      using n l3 lim by (auto simp: same_limits_def)
    moreover have "insert_at ops msg_id message now c = Some (True, push_entry ops msg_id ?e c3)"
      using False c2(1) c3(1) len1 len2 l1 by (simp add: insert_at_def Let_def sz_def same_limits_def)
    ultimately show ?thesis using False n max same_limits_trans [OF l3] by auto
  qed
qed

lemma insert_at_ok:
  assumes "lru_laws ops" "cache_ok ops c"
  obtains b c' where "insert_at ops msg_id message now c = Some (b, c')" "cache_ok ops c'"
proof -
  let ?ys = "kept msg_id now (mc_max_age c) (entries ops c)"
  note ks = kept_subset [of msg_id now "mc_max_age c" "entries ops c"]
  note ok = cache_okD [OF assms(2)]
  show thesis
  proof (cases "estimate_message_bytes message > mc_max_bytes c")
    case True
    then obtain c' where "insert_at ops msg_id message now c = Some (False, c')" "books ops c' ?ys" "same_limits c c'"
      using insert_at_result [OF assms, of message msg_id now] by auto
    moreover from this have "cache_ok ops c'"
      using ks ok sized_subset [OF ok(5) ks(1)] by (intro cache_okI [OF assms(2), where ys = ?ys]) auto
    ultimately show thesis using that by blast
  next
    case False
    then obtain n c' where "insert_at ops msg_id message now c = Some (True, c')" "same_limits c c'"
      "books ops c' ((msg_id, \<lparr>ce_message = message, ce_bytes = estimate_message_bytes message, ce_inserted_at = now\<rparr>) # take n ?ys)"
      "sum_bytes (take n ?ys) + estimate_message_bytes message \<le> mc_max_bytes c" "Suc n \<le> mc_max_count c" "n \<le> length ?ys"
      using insert_at_result [OF assms, of message msg_id now] by auto
    moreover from this have "cache_ok ops c'"
      using ks ok set_take_subset [of n ?ys]
      by (intro cache_okI [OF assms(2), where ys = "(msg_id, \<lparr>ce_message = message,
        ce_bytes = estimate_message_bytes message, ce_inserted_at = now\<rparr>) # take n ?ys"]) (auto simp: sized_def)
    ultimately show thesis using that by blast
  qed
qed

text \<open>\<open>get\<close> and \<open>get_mut\<close> move the entry to the front; the rewriting keeps its size.\<close>

lemma front_books:
  assumes "distinct (map fst xs)" "map_of xs k = Some e" "ce_bytes (f e) = ce_bytes e"
  shows "sum_bytes ((k, f e) # without k xs) = sum_bytes xs" "length ((k, f e) # without k xs) = length xs"
    "live_count ((k, f e) # without k xs) + (if counts_as_live_local (ce_message e) then 1 else 0) =
       live_count xs + (if counts_as_live_local (ce_message (f e)) then 1 else 0)"
proof -
  show "sum_bytes ((k, f e) # without k xs) = sum_bytes xs"
    "live_count ((k, f e) # without k xs) + (if counts_as_live_local (ce_message e) then 1 else 0) =
       live_count xs + (if counts_as_live_local (ce_message (f e)) then 1 else 0)"
    using without_present [OF assms(1,2)] assms(3) by simp_all
  show "length ((k, f e) # without k xs) = length xs" using assms(1,2)
  proof (induction xs)
    case (Cons x xs)
    show ?case
    proof (cases "fst x = k")
      case True
      then have "map_of xs k = None" using Cons.prems(1) by (auto simp: map_of_eq_None_iff)
      from without_absent [OF this] show ?thesis using True by (simp add: without_def)
    next
      case False
      then show ?thesis using Cons by (cases x) (auto simp: without_def)
    qed
  qed simp
qed

lemma sized_front:
  assumes "sized xs" "map_of xs k = Some e" "ce_bytes (f e) = ce_bytes e"
    "estimate_message_bytes (ce_message (f e)) = estimate_message_bytes (ce_message e)"
  shows "sized ((k, f e) # without k xs)"
proof -
  have "(k, e) \<in> set xs" using map_of_SomeD [OF assms(2)] .
  with assms(1) have "ce_bytes e = estimate_message_bytes (ce_message e)" by (auto simp: sized_def)
  then show ?thesis using assms by (auto simp: sized_def without_def)
qed

lemma lru_get_mut_result:
  assumes "lru_laws ops" "books ops c xs"
  obtains lru where "lru_get_mut ops k f (mc_lru c) = (map_of xs k, lru)"
    "lru_iter ops lru = (case map_of xs k of None \<Rightarrow> xs | Some e \<Rightarrow> (k, f e) # without k xs)"
    "lru_cap ops lru = lru_cap ops (mc_lru c)"
proof
  let ?r = "lru_get_mut ops k f (mc_lru c)"
  have x: "lru_iter ops (mc_lru c) = xs" using assms(2) by (simp add: books_def)
  have l: "fst ?r = map_of (lru_iter ops (mc_lru c)) k"
    "lru_iter ops (snd ?r) = (case map_of (lru_iter ops (mc_lru c)) k of
        None \<Rightarrow> lru_iter ops (mc_lru c) | Some v \<Rightarrow> (k, f v) # without k (lru_iter ops (mc_lru c)))"
    "lru_cap ops (snd ?r) = lru_cap ops (mc_lru c)"
    using lru_lawsD(4) [OF assms(1)] unfolding lru_gets_def by blast+
  note l = l [unfolded x]
  show "?r = (map_of xs k, snd ?r)" using l(1) by (simp add: prod_eq_iff)
  show "lru_iter ops (snd ?r) = (case map_of xs k of None \<Rightarrow> xs | Some e \<Rightarrow> (k, f e) # without k xs)"
    "lru_cap ops (snd ?r) = lru_cap ops (mc_lru c)" by (fact l)+
qed

lemma lru_get_result:
  assumes "lru_laws ops" "books ops c xs"
  obtains lru where "lru_get ops k (mc_lru c) = (map_of xs k, lru)"
    "lru_iter ops lru = (case map_of xs k of None \<Rightarrow> xs | Some e \<Rightarrow> (k, e) # without k xs)"
    "lru_cap ops lru = lru_cap ops (mc_lru c)"
proof
  let ?r = "lru_get ops k (mc_lru c)"
  have x: "lru_iter ops (mc_lru c) = xs" using assms(2) by (simp add: books_def)
  have l: "fst ?r = map_of (lru_iter ops (mc_lru c)) k"
    "lru_iter ops (snd ?r) = (case map_of (lru_iter ops (mc_lru c)) k of
        None \<Rightarrow> lru_iter ops (mc_lru c) | Some v \<Rightarrow> (k, v) # without k (lru_iter ops (mc_lru c)))"
    "lru_cap ops (snd ?r) = lru_cap ops (mc_lru c)"
    using lru_lawsD(4) [OF assms(1)] unfolding lru_gets_def by blast+
  note l = l [unfolded x]
  show "?r = (map_of xs k, snd ?r)" using l(1) by (simp add: prod_eq_iff)
  show "lru_iter ops (snd ?r) = (case map_of xs k of None \<Rightarrow> xs | Some e \<Rightarrow> (k, e) # without k xs)"
    "lru_cap ops (snd ?r) = lru_cap ops (mc_lru c)" by (fact l)+
qed

text \<open>Moving one entry to the front, with a change that keeps its size and whether it is live.\<close>

lemma touch_ok:
  assumes "lru_laws ops" "cache_ok ops c" "lru_cap ops lru = lru_cap ops (mc_lru c)"
    and iter: "lru_iter ops lru = (case map_of (entries ops c) k of
      None \<Rightarrow> entries ops c | Some e \<Rightarrow> (k, f e) # without k (entries ops c))"
    and "\<And>e. ce_bytes (f e) = ce_bytes e"
    "\<And>e. estimate_message_bytes (ce_message (f e)) = estimate_message_bytes (ce_message e)"
    and live: "live = live_count (lru_iter ops lru)"
  shows "cache_ok ops (c\<lparr>mc_lru := lru, mc_live_local_origin := live\<rparr>)"
proof -
  note ok = cache_okD [OF assms(2)]
  have dist: "distinct (map fst (entries ops c))" using lru_distinct [OF assms(1) ok(2)] .
  have "sum_bytes (lru_iter ops lru) = sum_bytes (entries ops c)" "length (lru_iter ops lru) = length (entries ops c)"
    "sized (lru_iter ops lru)"
    using iter front_books(1,2) [where f = f, OF dist] sized_front [where f = f, OF ok(5)] assms(5,6) ok(5)
    by (cases "map_of (entries ops c) k"; simp)+
  then show ?thesis using ok assms(3) live by (simp add: cache_ok_def books_def entries_def limits_ok_def)
qed

lemma prune_expired_ok:
  assumes "lru_laws ops" "cache_ok ops c" shows "cache_ok ops (prune_expired_at ops now c)"
proof -
  note ok = cache_okD [OF assms(2)]
  note p = prune_expired_books [OF assms(1) ok(2), of now]
  have "set (fresh now (mc_max_age c) (entries ops c)) \<subseteq> set (entries ops c)"
    "length (fresh now (mc_max_age c) (entries ops c)) \<le> length (entries ops c)"
    "sum_bytes (fresh now (mc_max_age c) (entries ops c)) \<le> sum_bytes (entries ops c)"
    by (auto simp: fresh_def sum_bytes_filter)
  then show ?thesis using p ok sized_subset [OF ok(5)]
    by (intro cache_okI [OF assms(2), where ys = "fresh now (mc_max_age c) (entries ops c)"]) auto
qed

lemma mark_dropped_ok:
  assumes "lru_laws ops" "cache_ok ops c" shows "cache_ok ops (snd (mark_dropped ops k c))"
proof -
  let ?f = "\<lambda>entry. entry\<lparr>ce_message := (ce_message entry)\<lparr>cm_dropped := True\<rparr>\<rparr>"
  note ok = cache_okD [OF assms(2)]
  obtain lru where l: "lru_get_mut ops k ?f (mc_lru c) = (map_of (entries ops c) k, lru)"
    "lru_iter ops lru = (case map_of (entries ops c) k of
       None \<Rightarrow> entries ops c | Some e \<Rightarrow> (k, ?f e) # without k (entries ops c))"
    "lru_cap ops lru = lru_cap ops (mc_lru c)" using lru_get_mut_result [OF assms(1) ok(2)] .
  have dist: "distinct (map fst (entries ops c))" using lru_distinct [OF assms(1) ok(2)] .
  have live: "mc_live_local_origin c = live_count (entries ops c)" using ok(2) by (simp add: books_def)
  have "snd (mark_dropped ops k c) = c\<lparr>mc_lru := lru, mc_live_local_origin := live_count (lru_iter ops lru)\<rparr>"
  proof (cases "map_of (entries ops c) k")
    case None
    then show ?thesis using l live by (simp add: mark_dropped_def Let_def)
  next
    case (Some e)
    have "live_count (lru_iter ops lru) + (if counts_as_live_local (ce_message e) then 1 else 0) = live_count (entries ops c)"
      using front_books(3) [OF dist Some, of ?f] l(2) Some by (simp add: counts_as_live_local_def)
    then show ?thesis using l(1) Some live by (auto simp: mark_dropped_def Let_def counts_as_live_local_def)
  qed
  then show ?thesis using touch_ok [OF assms l(3,2)] by (simp add: estimate_message_bytes_def)
qed

lemma set_inner_proof_ok:
  assumes "lru_laws ops" "cache_ok ops c" shows "cache_ok ops (set_inner_proof ops k proof c)"
proof -
  let ?f = "\<lambda>entry. entry\<lparr>ce_message := (ce_message entry)\<lparr>cm_inner_proof := proof\<rparr>\<rparr>"
  note ok = cache_okD [OF assms(2)]
  obtain lru where l: "lru_get_mut ops k ?f (mc_lru c) = (map_of (entries ops c) k, lru)"
    "lru_iter ops lru = (case map_of (entries ops c) k of
       None \<Rightarrow> entries ops c | Some e \<Rightarrow> (k, ?f e) # without k (entries ops c))"
    "lru_cap ops lru = lru_cap ops (mc_lru c)" using lru_get_mut_result [OF assms(1) ok(2)] .
  have dist: "distinct (map fst (entries ops c))" using lru_distinct [OF assms(1) ok(2)] .
  have "live_count (lru_iter ops lru) = live_count (entries ops c)"
    using l(2) front_books(3) [OF dist, of k _ ?f] by (cases "map_of (entries ops c) k") (auto simp: counts_as_live_local_def)
  then have "mc_live_local_origin c = live_count (lru_iter ops lru)" using ok(2) by (simp add: books_def)
  then have "set_inner_proof ops k proof c = c\<lparr>mc_lru := lru, mc_live_local_origin := live_count (lru_iter ops lru)\<rparr>"
    using l(1) by (simp add: set_inner_proof_def)
  then show ?thesis using touch_ok [OF assms l(3,2)] by (simp add: estimate_message_bytes_def)
qed

lemma get_at_ok:
  assumes "lru_laws ops" "cache_ok ops c"
  shows "cache_ok ops (snd (get_at ops k now c))"
    "fst (get_at ops k now c) = map_option ce_message (map_of (fresh now (mc_max_age c) (entries ops c)) k)"
    "set (entries ops (snd (get_at ops k now c))) = set (fresh now (mc_max_age c) (entries ops c))"
    "same_limits c (snd (get_at ops k now c))"
proof -
  let ?c = "prune_expired_at ops now c" and ?xs = "fresh now (mc_max_age c) (entries ops c)"
  note p = prune_expired_books [OF assms(1) cache_okD(2) [OF assms(2)], of now]
  have ok: "cache_ok ops ?c" using prune_expired_ok [OF assms] .
  have xs: "entries ops ?c = ?xs" using p by (simp add: books_def entries_def)
  obtain lru where l: "lru_get ops k (mc_lru ?c) = (map_of ?xs k, lru)"
    "lru_iter ops lru = (case map_of ?xs k of None \<Rightarrow> ?xs | Some e \<Rightarrow> (k, e) # without k ?xs)"
    "lru_cap ops lru = lru_cap ops (mc_lru ?c)" using lru_get_result [OF assms(1) conjunct1 [OF p]] .
  have dist: "distinct (map fst ?xs)" using lru_distinct [OF assms(1) conjunct1 [OF p]] .
  have "live_count (lru_iter ops lru) = live_count ?xs"
    using l(2) front_books(3) [OF dist, of k _ "\<lambda>e. e"] by (cases "map_of ?xs k") auto
  then have "mc_live_local_origin ?c = live_count (lru_iter ops lru)" using p by (simp add: books_def)
  then have eq: "snd (get_at ops k now c) = ?c\<lparr>mc_lru := lru, mc_live_local_origin := live_count (lru_iter ops lru)\<rparr>"
    using l(1) by (simp add: get_at_def Let_def)
  show "cache_ok ops (snd (get_at ops k now c))"
    unfolding eq by (rule touch_ok [OF assms(1) ok l(3), of k "\<lambda>e. e"]) (simp_all add: l(2) xs split: option.split)
  show "fst (get_at ops k now c) = map_option ce_message (map_of ?xs k)" using l(1) by (simp add: get_at_def Let_def)
  show "same_limits c (snd (get_at ops k now c))" using p eq by (simp add: same_limits_def)
  have "set ((k, e) # without k ?xs) = set ?xs" if "map_of ?xs k = Some e" for e
    using that dist map_of_SomeD [OF that] by (auto simp: without_def) (metis fst_conv map_of_is_SomeI option.inject)
  then show "set (entries ops (snd (get_at ops k now c))) = set ?xs"
    using l(2) eq by (auto simp: entries_def split: option.splits)
qed

lemma cache_message_ok:
  assumes "lru_laws ops" "cache_ok ops c"
  obtains b c' where "cache_message ops k payload header origin t1 t2 c = Some (b, c')" "cache_ok ops c'"
proof -
  let ?r = "if origin then (None, c) else get_at ops k t1 c"
  have ok: "cache_ok ops (snd ?r)" using get_at_ok(1) [OF assms] assms(2) by simp
  show thesis
  proof (cases "\<not> origin \<and> (case fst ?r of None \<Rightarrow> False | Some cached \<Rightarrow> cm_local_origin cached)")
    case True
    then have "cache_message ops k payload header origin t1 t2 c = Some (False, snd ?r)"
      by (auto simp: cache_message_def Let_def case_prod_beta)
    then show thesis using that ok by blast
  next
    case False
    obtain b c' where "insert_at ops k \<lparr>cm_payload = payload, cm_header = header, cm_dropped = False,
        cm_local_origin = origin, cm_inner_proof = None\<rparr> t2 (snd ?r) = Some (b, c')" "cache_ok ops c'"
      using insert_at_ok [OF assms(1) ok] .
    moreover have "cache_message ops k payload header origin t1 t2 c = insert_at ops k \<lparr>cm_payload = payload,
        cm_header = header, cm_dropped = False, cm_local_origin = origin, cm_inner_proof = None\<rparr> t2 (snd ?r)"
      using False by (auto simp: cache_message_def Let_def case_prod_beta)
    ultimately show thesis using that by simp
  qed
qed

subsection \<open>Runs of the cache\<close>

inductive cache_step :: "'l cache_ops \<Rightarrow> 'l BoundedMessageCache \<Rightarrow> 'l BoundedMessageCache \<Rightarrow> bool" for ops where
  cache_insert: "insert_at ops k m now c = Some (b, c') \<Longrightarrow> cache_step ops c c'"
| cache_publish: "cache_message ops k payload header origin t1 t2 c = Some (b, c') \<Longrightarrow> cache_step ops c c'"
| cache_get: "cache_step ops c (snd (get_at ops k now c))"
| cache_get_local: "cache_step ops c (snd (get_local_origin_message ops k now c))"
| cache_drop: "cache_step ops c (snd (mark_dropped ops k c))"
| cache_prune: "cache_step ops c (prune_expired_at ops now c)"
| cache_proof: "cache_step ops c (set_inner_proof ops k proof c)"

lemma cache_ok_step:
  assumes "lru_laws ops" "cache_step ops c c'" "cache_ok ops c"
  shows "cache_ok ops c'"
  using assms(2,3)
proof (induction rule: cache_step.induct)
  case (cache_insert k m now c b c')
  then show ?case using insert_at_ok [OF assms(1) cache_insert.prems, of k m now] by (metis option.inject prod.inject)
next
  case (cache_publish k payload header origin t1 t2 c b c')
  then show ?case using cache_message_ok [OF assms(1) cache_publish.prems, of k payload header origin t1 t2]
    by (metis option.inject prod.inject)
qed (simp_all add: assms(1) get_at_ok(1) mark_dropped_ok prune_expired_ok set_inner_proof_ok get_local_origin_message_def Let_def)

lemma cache_ok_new:
  assumes "lru_laws ops" "0 < max_count" "max_count < u64_max" "max_bytes < u64_max"
  shows "cache_ok ops (cache_new ops max_count max_bytes max_age)"
  using assms lru_lawsD(1) [OF assms(1)]
  by (simp add: cache_ok_def limits_ok_def books_def entries_def cache_new_def sized_def lru_reads_def)

lemma cache_ok_steps:
  assumes "lru_laws ops" "0 < max_count" "max_count < u64_max" "max_bytes < u64_max"
    "(cache_step ops)\<^sup>*\<^sup>* (cache_new ops max_count max_bytes max_age) c"
  shows "cache_ok ops c"
  using assms(5) by (induction rule: rtranclp_induct) (auto intro: cache_ok_new [OF assms(1-4)] cache_ok_step [OF assms(1)])

subsection \<open>An instance of the laws\<close>

text \<open>A list from the most to the least recently used entry satisfies the laws of \<open>LruCache\<close>.\<close>

typedef ('k, 'v) lru_list = "{(n :: nat, xs :: ('k \<times> 'v) list). distinct (map fst xs)}"
  by (rule exI [of _ "(0, [])"]) simp

definition list_push :: "'k \<Rightarrow> 'v \<Rightarrow> nat \<times> ('k \<times> 'v) list \<Rightarrow> ('k \<times> 'v) option \<times> nat \<times> ('k \<times> 'v) list" where
  "list_push k v l =
     (case map_of (snd l) k of
        Some old \<Rightarrow> (Some (k, old), fst l, (k, v) # without k (snd l))
      | None \<Rightarrow> if length (snd l) < fst l then (None, fst l, (k, v) # snd l)
                else (if snd l = [] then None else Some (last (snd l)), fst l, (k, v) # butlast (snd l)))"

definition list_get_mut :: "'k \<Rightarrow> ('v \<Rightarrow> 'v) \<Rightarrow> nat \<times> ('k \<times> 'v) list \<Rightarrow> 'v option \<times> nat \<times> ('k \<times> 'v) list" where
  "list_get_mut k f l =
     (case map_of (snd l) k of
        None \<Rightarrow> (None, l) | Some v \<Rightarrow> (Some v, fst l, (k, f v) # without k (snd l)))"

definition list_lru :: "('k, 'v, ('k, 'v) lru_list) lru_ops" where
  "list_lru =
     \<lparr>lru_new = \<lambda>n. Abs_lru_list (n, []), lru_cap = \<lambda>l. fst (Rep_lru_list l), lru_iter = \<lambda>l. snd (Rep_lru_list l),
      lru_len = \<lambda>l. length (snd (Rep_lru_list l)),
      lru_pop = \<lambda>k l. (map_of (snd (Rep_lru_list l)) k, Abs_lru_list (fst (Rep_lru_list l), without k (snd (Rep_lru_list l)))),
      lru_push = \<lambda>k v l. apsnd Abs_lru_list (list_push k v (Rep_lru_list l)),
      lru_pop_lru = \<lambda>l. (if snd (Rep_lru_list l) = [] then None else Some (last (snd (Rep_lru_list l))),
        Abs_lru_list (fst (Rep_lru_list l), butlast (snd (Rep_lru_list l)))),
      lru_get = \<lambda>k l. apsnd Abs_lru_list (list_get_mut k (\<lambda>v. v) (Rep_lru_list l)),
      lru_get_mut = \<lambda>k f l. apsnd Abs_lru_list (list_get_mut k f (Rep_lru_list l)),
      lru_peek = \<lambda>k l. map_of (snd (Rep_lru_list l)) k\<rparr>"

lemma Rep_distinct: "distinct (map fst (snd (Rep_lru_list l)))"
  using Rep_lru_list [of l] by (auto simp: case_prod_beta)

lemma Abs_Rep [simp]: "distinct (map fst xs) \<Longrightarrow> Rep_lru_list (Abs_lru_list (n, xs)) = (n, xs)"
  by (simp add: Abs_lru_list_inverse)

lemma distinct_without: "distinct (map fst xs) \<Longrightarrow> distinct (map fst (without k xs))" "k \<notin> fst ` set (without k xs)"
  by (auto simp: without_def distinct_map_filter)

lemma distinct_keys_butlast: "distinct (map fst xs) \<Longrightarrow> distinct (map fst (butlast xs))"
  by (simp add: map_butlast distinct_butlast)

lemma list_lru_laws: "lru_laws (list_lru :: ('a, 'b, ('a, 'b) lru_list) lru_ops)"
proof -
  have d: "distinct (map fst (without k (snd (Rep_lru_list l))))" "distinct (map fst (butlast (snd (Rep_lru_list l))))"
    for k :: 'a and l :: "('a, 'b) lru_list"
    by (rule distinct_without(1) [OF Rep_distinct], rule distinct_keys_butlast [OF Rep_distinct])
  have n: "k \<notin> fst ` set (butlast (snd (Rep_lru_list l)))" if "map_of (snd (Rep_lru_list l)) k = None"
    for k :: 'a and l :: "('a, 'b) lru_list"
    using that unfolding map_of_eq_None_iff by (auto dest!: in_set_butlastD intro: rev_image_eqI)
  have "lru_reads (list_lru :: ('a, 'b, ('a, 'b) lru_list) lru_ops)" using Rep_distinct by (auto simp: lru_reads_def list_lru_def)
  moreover have "lru_pops (list_lru :: ('a, 'b, ('a, 'b) lru_list) lru_ops)" by (simp add: lru_pops_def list_lru_def d)
  moreover have "lru_pushes (list_lru :: ('a, 'b, ('a, 'b) lru_list) lru_ops)"
    unfolding lru_pushes_def
  proof (intro allI)
    fix k :: 'a and v and l :: "('a, 'b) lru_list"
    show "lru_cap list_lru (snd (lru_push list_lru k v l)) = lru_cap list_lru l \<and>
      (case map_of (lru_iter list_lru l) k of
         Some old \<Rightarrow> fst (lru_push list_lru k v l) = Some (k, old) \<and>
           lru_iter list_lru (snd (lru_push list_lru k v l)) = (k, v) # without k (lru_iter list_lru l)
       | None \<Rightarrow> if length (lru_iter list_lru l) < lru_cap list_lru l
           then fst (lru_push list_lru k v l) = None \<and>
             lru_iter list_lru (snd (lru_push list_lru k v l)) = (k, v) # lru_iter list_lru l
           else lru_iter list_lru l \<noteq> [] \<longrightarrow> fst (lru_push list_lru k v l) = Some (last (lru_iter list_lru l)) \<and>
             lru_iter list_lru (snd (lru_push list_lru k v l)) = (k, v) # butlast (lru_iter list_lru l))"
    proof (cases "map_of (snd (Rep_lru_list l)) k")
      case None
      then have "k \<notin> fst ` set (snd (Rep_lru_list l))" by (simp add: map_of_eq_None_iff)
      then show ?thesis using None n [OF None] d(2) [of l] Rep_distinct [of l]
        by (simp add: list_lru_def list_push_def)
    next
      case (Some old)
      then show ?thesis using d(1) [of k l] distinct_without(2) [of k "snd (Rep_lru_list l)"]
        by (simp add: list_lru_def list_push_def)
    qed
  qed
  moreover have "lru_gets (list_lru :: ('a, 'b, ('a, 'b) lru_list) lru_ops)"
  proof -
    have "fst (lru_get_mut list_lru k f l) = map_of (snd (Rep_lru_list l)) k \<and>
        snd (Rep_lru_list (snd (lru_get_mut list_lru k f l))) =
          (case map_of (snd (Rep_lru_list l)) k of None \<Rightarrow> snd (Rep_lru_list l)
           | Some v \<Rightarrow> (k, f v) # without k (snd (Rep_lru_list l))) \<and>
        fst (Rep_lru_list (snd (lru_get_mut list_lru k f l))) = fst (Rep_lru_list l)" for k :: 'a and f and l :: "('a, 'b) lru_list"
    proof (cases "map_of (snd (Rep_lru_list l)) k")
      case None
      then show ?thesis by (simp add: list_lru_def list_get_mut_def Rep_lru_list_inverse)
    next
      case (Some v)
      then show ?thesis using d(1) [of k l] distinct_without(2) [of k "snd (Rep_lru_list l)"]
        by (simp add: list_lru_def list_get_mut_def)
    qed
    moreover have "lru_get list_lru k l = lru_get_mut list_lru k (\<lambda>v. v) l" for k :: 'a and l :: "('a, 'b) lru_list"
      by (simp add: list_lru_def)
    moreover have "lru_iter list_lru = (\<lambda>l :: ('a, 'b) lru_list. snd (Rep_lru_list l))"
      "lru_cap list_lru = (\<lambda>l :: ('a, 'b) lru_list. fst (Rep_lru_list l))" by (simp_all add: list_lru_def)
    ultimately show ?thesis unfolding lru_gets_def by (simp split: option.split)
  qed
  ultimately show ?thesis by (simp add: lru_laws_def)
qed

subsection \<open>Zero runs\<close>

definition has_zero_run :: "nat \<Rightarrow> bytes \<Rightarrow> bool" where
  "has_zero_run n p \<longleftrightarrow> (\<exists>a b. p = a @ replicate n 0 @ b)"

lemma has_zero_run_skip:
  assumes "b \<noteq> 0" "r < n"
  shows "has_zero_run n (replicate r 0 @ b # bs) \<longleftrightarrow> has_zero_run n bs"
proof
  assume "has_zero_run n (replicate r 0 @ b # bs)"
  then obtain a c where e: "replicate r 0 @ b # bs = a @ replicate n 0 @ c" by (auto simp: has_zero_run_def)
  have "r < length a"
  proof (rule ccontr)
    assume "\<not> r < length a"
    moreover have "r - length a < n" using assms(2) by linarith
    ultimately have "(a @ replicate n 0 @ c) ! r = 0" by (simp add: nth_append)
    moreover have "(replicate r 0 @ b # bs) ! r = b" by (simp add: nth_append)
    ultimately show False using e assms(1) by simp
  qed
  then have "bs = drop (Suc r) a @ replicate n 0 @ c" using arg_cong [OF e, of "drop (Suc r)"] by simp
  then show "has_zero_run n bs" by (auto simp: has_zero_run_def)
next
  assume "has_zero_run n bs"
  then obtain a c where "bs = a @ replicate n 0 @ c" by (auto simp: has_zero_run_def)
  then have "replicate r 0 @ b # bs = (replicate r 0 @ b # a) @ replicate n 0 @ c" by simp
  then show "has_zero_run n (replicate r 0 @ b # bs)" unfolding has_zero_run_def by blast
qed

lemma zero_run_loop_exact:
  assumes "run \<le> longest" "longest \<le> ZERO_WINDOW_FORWARD_LIMIT"
  shows "zero_run_loop bs longest run > ZERO_WINDOW_FORWARD_LIMIT \<longleftrightarrow>
    has_zero_run (Suc ZERO_WINDOW_FORWARD_LIMIT) (replicate run 0 @ bs)"
  using assms
proof (induction bs arbitrary: longest run)
  case Nil
  have "\<not> has_zero_run (Suc ZERO_WINDOW_FORWARD_LIMIT) (replicate run 0)"
  proof
    assume "has_zero_run (Suc ZERO_WINDOW_FORWARD_LIMIT) (replicate run 0)"
    then obtain a b :: bytes where "replicate run 0 = a @ replicate (Suc ZERO_WINDOW_FORWARD_LIMIT) 0 @ b"
      by (auto simp: has_zero_run_def)
    from arg_cong [OF this, of length] Nil show False by simp
  qed
  then show ?case using Nil by simp
next
  case (Cons b bs)
  have shift: "replicate run (0 :: u8) @ 0 # bs = 0 # replicate run 0 @ bs"
    by (simp add: replicate_app_Cons_same)
  show ?case
  proof (cases "b = 0")
    case True
    show ?thesis
    proof (cases "run + 1 > ZERO_WINDOW_FORWARD_LIMIT")
      case over: True
      have "has_zero_run (Suc ZERO_WINDOW_FORWARD_LIMIT) (replicate (run + 1) 0 @ bs)"
        using over Cons.prems unfolding has_zero_run_def by (intro exI [of _ "[]"] exI [of _ bs]) simp
      then show ?thesis using True over Cons.prems by (simp add: shift)
    next
      case False
      then show ?thesis using True Cons.IH [of "run + 1" "max longest (run + 1)"] Cons.prems
        by (auto simp: max_def shift)
    qed
  next
    case False
    then show ?thesis using Cons.IH [of 0 longest] Cons.prems has_zero_run_skip [OF False, of run] by simp
  qed
qed

lemma zero_prefix: "length (takeWhile (\<lambda>b. b = 0) xs) \<ge> n \<longleftrightarrow> (\<exists>ys. xs = replicate n 0 @ ys)"
proof (induction xs arbitrary: n)
  case (Cons x xs)
  then show ?case by (cases n) auto
qed simp

lemma payload_zero_tail_exact:
  "payload_zero_tail p > ZERO_TAIL_FORWARD_LIMIT \<longleftrightarrow> (\<exists>a. p = a @ replicate (Suc ZERO_TAIL_FORWARD_LIMIT) 0)"
proof -
  have "payload_zero_tail p > ZERO_TAIL_FORWARD_LIMIT \<longleftrightarrow> (\<exists>ys. rev p = replicate (Suc ZERO_TAIL_FORWARD_LIMIT) 0 @ ys)"
    unfolding payload_zero_tail_def zero_prefix [symmetric] by (simp add: Suc_le_eq)
  also have "\<dots> \<longleftrightarrow> (\<exists>a. p = a @ replicate (Suc ZERO_TAIL_FORWARD_LIMIT) 0)"
    by (metis rev_append rev_replicate rev_rev_ident)
  finally show ?thesis .
qed

subsection \<open>Properties\<close>

definition small_cache :: "(MessageIdType, CachedEntry) lru_list BoundedMessageCache" where
  "small_cache = cache_new list_lru 2 20000 60000"

definition small_message :: "bytes \<Rightarrow> bool \<Rightarrow> CachedMessage" where
  "small_message payload origin = \<lparr>cm_payload = payload, cm_header = header_new (TopicId [1]) Eager 8,
     cm_dropped = False, cm_local_origin = origin, cm_inner_proof = None\<rparr>"

lemma small_cache_ok: "cache_ok list_lru small_cache"
  unfolding small_cache_def by (rule cache_ok_new [OF list_lru_laws]) (simp_all add: u64_max_eq)

lemma small_cache_inserted:
  obtains c where "insert_at list_lru [7] (small_message [1, 2] True) 5 small_cache = Some (True, c)"
    "entries list_lru c = [([7], \<lparr>ce_message = small_message [1, 2] True, ce_bytes = 5758, ce_inserted_at = 5\<rparr>)]"
    "cache_ok list_lru c" "mc_max_age c = 60000" "mc_max_bytes c = 20000"
proof -
  have z: "entries list_lru small_cache = []" "mc_max_bytes small_cache = 20000" "mc_max_age small_cache = 60000"
    by (simp_all add: small_cache_def cache_new_def entries_def list_lru_def)
  have sz: "estimate_message_bytes (small_message [1, 2] True) = 5758"
    by (simp add: estimate_message_bytes_def small_message_def MESSAGE_HEADER_OVERHEAD_BYTES_def
        MESSAGE_CRYPTO_OVERHEAD_BYTES_def u64_sat_add_def u64_max_eq)
  from insert_at_result [OF list_lru_laws small_cache_ok, of "small_message [1, 2] True" "[7]" 5] z sz
  obtain c where c: "insert_at list_lru [7] (small_message [1, 2] True) 5 small_cache = Some (True, c)"
    "books list_lru c [([7], \<lparr>ce_message = small_message [1, 2] True, ce_bytes = 5758, ce_inserted_at = 5\<rparr>)]"
    "same_limits small_cache c" by (auto simp: kept_def fresh_def without_def)
  moreover have "cache_ok list_lru c"
    using insert_at_ok [OF list_lru_laws small_cache_ok, of "[7]" "small_message [1, 2] True" 5] c(1)
    by (metis option.inject prod.inject)
  ultimately show thesis using that z by (simp add: books_def entries_def same_limits_def)
qed

text \<open>
  C20: The cache keeps its bounds. Given the documented behaviour of \<open>LruCache\<close>, after any sequence of
  operations a cache created with a positive count bound holds at most that many messages and
  at most the byte bound, its byte counter is the sum of the sizes of its entries, and its
  counter of live messages of local origin is exact.
\<close>

theorem message_cache_bounded:
  assumes "lru_laws ops" "0 < max_count" "max_count < u64_max" "max_bytes < u64_max"
    and "(cache_step ops)\<^sup>*\<^sup>* (cache_new ops max_count max_bytes max_age) c"
  shows "length (cache_ids ops c) \<le> mc_max_count c \<and> mc_total_bytes c \<le> mc_max_bytes c \<and>
    mc_total_bytes c = (\<Sum>x \<leftarrow> entries ops c. estimate_message_bytes (ce_message (snd x))) \<and>
    (has_live_local_origin c \<longleftrightarrow> (\<exists>x \<in> set (entries ops c). counts_as_live_local (ce_message (snd x))))"
proof -
  note ok = cache_okD [OF cache_ok_steps [OF assms]]
  have "sum_bytes (entries ops c) = (\<Sum>x \<leftarrow> entries ops c. estimate_message_bytes (ce_message (snd x)))"
    using ok(5) unfolding sum_bytes_def sized_def by (intro arg_cong [of _ _ sum_list] map_cong) auto
  moreover have "live_count (entries ops c) > 0 \<longleftrightarrow>
      (\<exists>x \<in> set (entries ops c). counts_as_live_local (ce_message (snd x)))"
    by (auto simp: live_count_def filter_empty_conv)
  ultimately show ?thesis using ok
    by (simp add: books_def cache_ids_def entries_def has_live_local_origin_def)
qed

theorem message_cache_bounded_witness:
  "\<exists>c. insert_at list_lru [7] (small_message [1, 2] True) 5 small_cache = Some (True, c) \<and>
     mc_total_bytes c = 5758 \<and> has_live_local_origin c"
proof -
  obtain c where c: "insert_at list_lru [7] (small_message [1, 2] True) 5 small_cache = Some (True, c)"
    "entries list_lru c = [([7], \<lparr>ce_message = small_message [1, 2] True, ce_bytes = 5758, ce_inserted_at = 5\<rparr>)]"
    using small_cache_inserted .
  have "(cache_step list_lru)\<^sup>*\<^sup>* (cache_new list_lru 2 20000 60000) c"
    using c(1) cache_insert unfolding small_cache_def by (intro r_into_rtranclp) blast
  from message_cache_bounded [OF list_lru_laws _ _ _ this] c(2)
  have "mc_total_bytes c = 5758 \<and> has_live_local_origin c"
    by (simp add: u64_max_eq estimate_message_bytes_def small_message_def MESSAGE_HEADER_OVERHEAD_BYTES_def
        MESSAGE_CRYPTO_OVERHEAD_BYTES_def u64_sat_add_def counts_as_live_local_def)
  then show ?thesis using c(1) by blast
qed

text \<open>
  An insertion always returns. A message larger than the byte bound is refused; any other
  message is cached as the most recent one, expired messages and the old message of the same id
  are gone, and of the rest the most recently used ones stay, as many as both bounds allow.
\<close>

theorem insert_keeps_most_recent:
  assumes "lru_laws ops" "cache_ok ops c"
  shows "\<exists>accepted c'. insert_at ops msg_id message now c = Some (accepted, c') \<and>
    accepted = (estimate_message_bytes message \<le> mc_max_bytes c) \<and>
    (let ys = kept msg_id now (mc_max_age c) (entries ops c)
     in if accepted
        then \<exists>n \<le> length ys. cache_ids ops c' = msg_id # map fst (take n ys) \<and>
          fst (get_at ops msg_id now c') = (if mc_max_age c = 0 then None else Some message) \<and>
          (n < length ys \<longrightarrow> sum_bytes (take (Suc n) ys) + estimate_message_bytes message > mc_max_bytes c \<or>
             Suc n = mc_max_count c)
        else cache_ids ops c' = map fst ys)"
proof (cases "estimate_message_bytes message > mc_max_bytes c")
  case True
  then obtain c' where "insert_at ops msg_id message now c = Some (False, c')"
    "books ops c' (kept msg_id now (mc_max_age c) (entries ops c))"
    using insert_at_result [OF assms, of message msg_id now] by auto
  then show ?thesis using True by (auto simp: Let_def cache_ids_def books_def)
next
  case False
  let ?ys = "kept msg_id now (mc_max_age c) (entries ops c)"
  let ?e = "\<lparr>ce_message = message, ce_bytes = estimate_message_bytes message, ce_inserted_at = now\<rparr>"
  obtain n c' where r: "insert_at ops msg_id message now c = Some (True, c')" "books ops c' ((msg_id, ?e) # take n ?ys)"
    "same_limits c c'" "n \<le> length ?ys"
    "n < length ?ys \<longrightarrow> sum_bytes (take (Suc n) ?ys) + estimate_message_bytes message > mc_max_bytes c \<or> Suc n = mc_max_count c"
    using insert_at_result [OF assms, of message msg_id now] False by auto
  have ok: "cache_ok ops c'" using insert_at_ok [OF assms, of msg_id message now] r(1) by (metis option.inject prod.inject)
  have e: "entries ops c' = (msg_id, ?e) # take n ?ys" using r(2) by (simp add: entries_def books_def)
  have "map_of (fresh now (mc_max_age c) (take n ?ys)) msg_id = None"
    using kept_subset(4) [of msg_id now "mc_max_age c" "entries ops c"] set_take_subset [of n ?ys]
    unfolding map_of_eq_None_iff fresh_def by fastforce
  then have g: "fst (get_at ops msg_id now c') = (if mc_max_age c = 0 then None else Some message)"
    using get_at_ok(2) [OF assms(1) ok, of msg_id now] e r(3) by (simp add: fresh_def same_limits_def)
  have ids: "cache_ids ops c' = msg_id # map fst (take n ?ys)" using e by (simp add: cache_ids_def entries_def)
  have "\<exists>n \<le> length ?ys. cache_ids ops c' = msg_id # map fst (take n ?ys) \<and>
      fst (get_at ops msg_id now c') = (if mc_max_age c = 0 then None else Some message) \<and>
      (n < length ?ys \<longrightarrow> sum_bytes (take (Suc n) ?ys) + estimate_message_bytes message > mc_max_bytes c \<or>
         Suc n = mc_max_count c)"
    using ids g r(4,5) by (intro exI [of _ n]) blast
  then show ?thesis unfolding Let_def using r(1) False by (intro exI [of _ True] exI [of _ c']) simp
qed

theorem insert_keeps_most_recent_witness:
  "\<exists>c. insert_at list_lru [7] (small_message [1, 2] True) 5 small_cache = Some (True, c) \<and> cache_ids list_lru c = [[7]]"
proof -
  obtain c where c: "insert_at list_lru [7] (small_message [1, 2] True) 5 small_cache = Some (True, c)"
    using small_cache_inserted .
  have "kept [7] 5 (mc_max_age small_cache) (entries list_lru small_cache) = []"
    by (simp add: small_cache_def cache_new_def entries_def list_lru_def kept_def fresh_def without_def)
  then show ?thesis
    using insert_keeps_most_recent [OF list_lru_laws small_cache_ok, of "[7]" "small_message [1, 2] True" 5] c
    by (auto simp: Let_def)
qed

text \<open>
  A message this node published is safe from the network. While it is cached and not
  expired, a message from the network under the same id is not accepted and neither payload nor
  origin of the cached message changes.
\<close>

theorem local_copy_protected:
  assumes "lru_laws ops" "cache_ok ops c" "(msg_id, entry) \<in> set (entries ops c)"
    "cm_local_origin (ce_message entry)" "t1 - ce_inserted_at entry < mc_max_age c"
  shows "\<exists>c'. cache_message ops msg_id payload header False t1 t2 c = Some (False, c') \<and>
    (msg_id, entry) \<in> set (entries ops c')"
proof -
  let ?xs = "fresh t1 (mc_max_age c) (entries ops c)"
  have mem: "(msg_id, entry) \<in> set ?xs" using assms(3,5) by (simp add: fresh_def)
  have "distinct (map fst ?xs)"
    using lru_distinct [OF assms(1) conjunct1 [OF prune_expired_books [OF assms(1) cache_okD(2) [OF assms(2)]]]] .
  then have "map_of ?xs msg_id = Some entry" using mem by simp
  then have "fst (get_at ops msg_id t1 c) = Some (ce_message entry)" using get_at_ok(2) [OF assms(1,2)] by simp
  then have "cache_message ops msg_id payload header False t1 t2 c = Some (False, snd (get_at ops msg_id t1 c))"
    using assms(4) by (simp add: cache_message_def case_prod_beta)
  then show ?thesis using mem get_at_ok(3) [OF assms(1,2)] by simp
qed

theorem local_copy_protected_witness:
  "\<exists>c c'. insert_at list_lru [7] (small_message [1, 2] True) 5 small_cache = Some (True, c) \<and>
     cache_message list_lru [7] [9] (header_new (TopicId [1]) Eager 8) False 6 6 c = Some (False, c')"
proof -
  obtain c where c: "insert_at list_lru [7] (small_message [1, 2] True) 5 small_cache = Some (True, c)"
    "entries list_lru c = [([7], \<lparr>ce_message = small_message [1, 2] True, ce_bytes = 5758, ce_inserted_at = 5\<rparr>)]"
    "cache_ok list_lru c" "mc_max_age c = 60000" using small_cache_inserted .
  from local_copy_protected [OF list_lru_laws c(3), of "[7]" _ 6] c show ?thesis
    by (fastforce simp: small_message_def)
qed

text \<open>
  The forward guard decides exactly what it claims, early exit included: a payload may be
  forwarded if and only if it neither ends in more than 512 zero bytes nor contains more than
  1024 consecutive zero bytes.
\<close>

theorem forward_guard_exact:
  "forwardable_payload payload \<longleftrightarrow>
     \<not> (\<exists>a. payload = a @ replicate (Suc ZERO_TAIL_FORWARD_LIMIT) 0) \<and>
     \<not> (\<exists>a b. payload = a @ replicate (Suc ZERO_WINDOW_FORWARD_LIMIT) 0 @ b)"
  using zero_run_loop_exact [of 0 0 payload]
  by (simp add: forwardable_payload_def payload_longest_zero_run_def has_zero_run_def payload_zero_tail_exact)

end
