(* ===== verification/Topic_State.thy ===== *)
theory Topic_State
  imports Eager_Mesh Message_Cache
begin

text \<open>
  The state of a topic and its announcements: the structures of \<open>TopicState\<close> in
  \<open>crates/pubsub/src/lib.rs\<close> and the operations on stranded publishes, withheld and retained
  announcements, pending IHAVE ids, late offers to new peers, deferred IWANT requests and the
  payload replay cache. The peer sets with their cooling and the message cache are the states
  of the theories imported here.

  The clock is an argument: an operation that reads \<open>Instant::now\<close> several times under
  the topic lock reads one instant. The hash of the \<open>blake3\<close> crate is a parameter. Peer
  scores, subscriber channels and statistics are not part of the state.
\<close>

subsection \<open>Limits\<close>

definition MAX_IHAVE_BATCH_SIZE :: nat where
  "MAX_IHAVE_BATCH_SIZE = 1024"

definition MAX_PENDING_IHAVE :: nat where
  "MAX_PENDING_IHAVE = MAX_IHAVE_BATCH_SIZE"

definition MAX_DEFERRED_IWANT_IDS :: nat where
  "MAX_DEFERRED_IWANT_IDS = MAX_IHAVE_BATCH_SIZE"

definition MAX_LATE_LOCAL_OFFERS :: nat where
  "MAX_LATE_LOCAL_OFFERS = MAX_IHAVE_BATCH_SIZE"

definition MAX_CACHE_AGE_SECS :: nat where
  "MAX_CACHE_AGE_SECS = 60"

definition RETAINED_ANNOUNCE_TTL :: duration where
  "RETAINED_ANNOUNCE_TTL = 30000"

definition REPLAY_CACHE_MAX_ENTRIES :: nat where
  "REPLAY_CACHE_MAX_ENTRIES = 10000"

definition REPLAY_CACHE_TTL_SECS :: nat where
  "REPLAY_CACHE_TTL_SECS = 300"

definition ZERO_FANOUT_WARN_INTERVAL :: duration where
  "ZERO_FANOUT_WARN_INTERVAL = 60000"

lemmas limit_defs = MAX_IHAVE_BATCH_SIZE_def MAX_PENDING_IHAVE_def MAX_DEFERRED_IWANT_IDS_def
  MAX_LATE_LOCAL_OFFERS_def

subsection \<open>Records\<close>

record StrandedIhaveEntry =
  si_msg_id :: MessageIdType
  si_targets :: "PeerId list"
  si_served :: "PeerId list"
  si_advertised :: "PeerId list"
  si_retry_expires :: instant
  si_retry_delivered :: bool

record LazyWithheldEntry =
  lw_msg_id :: MessageIdType
  lw_targets :: "PeerId list"
  lw_cold_relay :: bool
  lw_served :: "PeerId list"
  lw_retain_until :: "instant option"

record LateLocalOffer =
  lo_cutoff :: instant
  lo_cursor :: "(instant \<times> MessageIdType) option"
  lo_failures :: nat
  lo_next_attempt :: "instant option"

record OutstandingIwant =
  oi_peer :: PeerId
  oi_requested_at :: instant
  oi_retry_pending :: bool
  oi_failures :: nat
  oi_retry_not_before :: "instant option"

record DeferredIwant =
  di_peer :: PeerId
  di_msg_ids :: "MessageIdType list"
  di_requested_at :: instant

record DeferredEagerReply =
  dr_id :: nat
  dr_peer :: PeerId
  dr_msg_id :: MessageIdType
  dr_requested_at :: instant

record EagerReplyClaim =
  ec_token :: nat
  ec_claimed_at :: instant
  ec_rerequested :: bool
  ec_probe :: "nat option"

datatype reply_key = ReplyKey (rk_peer: PeerId) (rk_msg_id: MessageIdType)

record PayloadReplayEntry =
  pr_inserted_at :: instant
  pr_refused :: bool

type_synonym 'r replay_ops = "(bytes, PayloadReplayEntry, 'r) lru_ops"

text \<open>\<open>TopicState\<close>. The two counters at the end are the process-wide atomics that number custody
  entries and reply tokens; a step lets other topics draw from them.\<close>

record ('l, 'r) TopicState =
  ts_mesh :: MeshState
  ts_stranded_ihave :: "StrandedIhaveEntry list"
  ts_lazy_withheld :: "LazyWithheldEntry list"
  ts_message_cache :: "'l BoundedMessageCache"
  ts_pending_ihave :: "MessageIdType list"
  ts_ihave_advertised :: "MessageIdType \<rightharpoonup> PeerId set"
  ts_late_local_offers :: "PeerId \<rightharpoonup> LateLocalOffer"
  ts_outstanding_iwants :: "MessageIdType \<rightharpoonup> OutstandingIwant"
  ts_deferred_iwants :: "DeferredIwant list"
  ts_deferred_eager_replies :: "DeferredEagerReply list"
  ts_eager_reply_claims :: "reply_key \<rightharpoonup> EagerReplyClaim"
  ts_replay_cache :: 'r
  ts_replay_ttl :: duration
  ts_last_activity :: instant
  ts_zero_fanout_publishes :: nat
  ts_last_zero_fanout_warn :: "instant option"
  ts_next_custody_id :: nat
  ts_next_reply_token :: nat

text \<open>\<open>TopicState::with_cache_config\<close>. The two counters are the current values of the atomics, and
  \<open>probe_id\<close> that of the recovery probes.\<close>

definition with_cache_config ::
  "'l cache_ops \<Rightarrow> 'r replay_ops \<Rightarrow> nat \<Rightarrow> nat \<Rightarrow> duration \<Rightarrow> instant \<Rightarrow> nat \<Rightarrow> nat \<Rightarrow> nat \<Rightarrow> ('l, 'r) TopicState" where
  "with_cache_config ops rops max_count max_bytes max_age now probe_id custody_id token =
     \<lparr>ts_mesh = (mesh_init MAX_EAGER_DEGREE)\<lparr>ms_next_probe_id := probe_id\<rparr>, ts_stranded_ihave = [], ts_lazy_withheld = [],
      ts_message_cache = cache_new ops max_count max_bytes max_age, ts_pending_ihave = [],
      ts_ihave_advertised = Map.empty, ts_late_local_offers = Map.empty, ts_outstanding_iwants = Map.empty,
      ts_deferred_iwants = [], ts_deferred_eager_replies = [], ts_eager_reply_claims = Map.empty,
      ts_replay_cache = lru_new rops REPLAY_CACHE_MAX_ENTRIES, ts_replay_ttl = REPLAY_CACHE_TTL_SECS * 1000,
      ts_last_activity = now, ts_zero_fanout_publishes = 0, ts_last_zero_fanout_warn = None,
      ts_next_custody_id = custody_id, ts_next_reply_token = token\<rparr>"

definition touch :: "instant \<Rightarrow> ('l, 'r) TopicState \<Rightarrow> ('l, 'r) TopicState" where
  "touch now s = s\<lparr>ts_last_activity := now\<rparr>"

definition is_idle :: "duration \<Rightarrow> instant \<Rightarrow> ('l, 'r) TopicState \<Rightarrow> bool" where
  "is_idle ttl now s \<longleftrightarrow> now - ts_last_activity s > ttl \<and> \<not> ms_live_subscribers (ts_mesh s)"

definition record_zero_fanout_publish_at :: "instant \<Rightarrow> ('l, 'r) TopicState \<Rightarrow> bool \<times> ('l, 'r) TopicState" where
  "record_zero_fanout_publish_at now s =
     (let s1 = s\<lparr>ts_zero_fanout_publishes := u64_sat_add (ts_zero_fanout_publishes s) 1\<rparr>;
          due = (case ts_last_zero_fanout_warn s1 of
                   None \<Rightarrow> True | Some warned \<Rightarrow> now - warned \<ge> ZERO_FANOUT_WARN_INTERVAL)
      in (due, if due then s1\<lparr>ts_last_zero_fanout_warn := Some now\<rparr> else s1))"

subsection \<open>Vectors\<close>

text \<open>\<open>iter_mut().find(..)\<close> followed by an update of the entry found, and \<open>push\<close> of the elements
  not yet contained.\<close>

fun update_first :: "('a \<Rightarrow> bool) \<Rightarrow> ('a \<Rightarrow> 'a) \<Rightarrow> 'a list \<Rightarrow> 'a list" where
  "update_first P f [] = []"
| "update_first P f (x # xs) = (if P x then f x # xs else x # update_first P f xs)"

definition push_absent :: "'a \<Rightarrow> 'a list \<Rightarrow> 'a list" where
  "push_absent x xs = (if x \<in> set xs then xs else xs @ [x])"

definition push_all_absent :: "'a list \<Rightarrow> 'a list \<Rightarrow> 'a list" where
  "push_all_absent ys xs = fold push_absent ys xs"

text \<open>The room made for one more entry: the oldest entries are drained when the list is full.\<close>

definition drain_oldest :: "nat \<Rightarrow> 'a list \<Rightarrow> 'a list" where
  "drain_oldest cap xs = (if length xs \<ge> cap then drop (length xs - cap + 1) xs else xs)"

subsection \<open>Payload replay\<close>

definition is_payload_replay ::
  "(bytes \<Rightarrow> bytes) \<Rightarrow> 'r replay_ops \<Rightarrow> bytes \<Rightarrow> instant \<Rightarrow> ('l, 'r) TopicState \<Rightarrow> bool \<times> ('l, 'r) TopicState" where
  "is_payload_replay blake3 rops payload now s =
     (let s1 = touch now s;
          key = blake3 payload;
          (found, lru) = lru_get rops key (ts_replay_cache s1);
          live = (case found of None \<Rightarrow> False | Some entry \<Rightarrow> now - pr_inserted_at entry < ts_replay_ttl s1)
      in if live then (True, s1\<lparr>ts_replay_cache := lru\<rparr>)
         else (False, s1\<lparr>ts_replay_cache :=
                 snd (lru_push rops key \<lparr>pr_inserted_at = now, pr_refused = False\<rparr> lru)\<rparr>))"

definition refuse_payload_replays ::
  "(bytes \<Rightarrow> bytes) \<Rightarrow> 'r replay_ops \<Rightarrow> bytes \<Rightarrow> ('l, 'r) TopicState \<Rightarrow> ('l, 'r) TopicState" where
  "refuse_payload_replays blake3 rops payload s =
     s\<lparr>ts_replay_cache := snd (lru_get_mut rops (blake3 payload) (pr_refused_update (\<lambda>_. True)) (ts_replay_cache s))\<rparr>"

definition payload_replay_was_refused ::
  "(bytes \<Rightarrow> bytes) \<Rightarrow> 'r replay_ops \<Rightarrow> bytes \<Rightarrow> ('l, 'r) TopicState \<Rightarrow> bool \<times> ('l, 'r) TopicState" where
  "payload_replay_was_refused blake3 rops payload s =
     (let (found, lru) = lru_get rops (blake3 payload) (ts_replay_cache s)
      in ((case found of None \<Rightarrow> False | Some entry \<Rightarrow> pr_refused entry), s\<lparr>ts_replay_cache := lru\<rparr>))"

subsection \<open>Stranded publishes\<close>

definition queue_stranded_ihave ::
  "MessageIdType \<Rightarrow> PeerId list \<Rightarrow> instant \<Rightarrow> ('l, 'r) TopicState \<Rightarrow> ('l, 'r) TopicState" where
  "queue_stranded_ihave msg_id peers now s =
     (if peers = [] then s
      else if \<exists>e \<in> set (ts_stranded_ihave s). si_msg_id e = msg_id
      then s\<lparr>ts_stranded_ihave := update_first (\<lambda>e. si_msg_id e = msg_id)
               (\<lambda>e. e\<lparr>si_targets := push_all_absent peers (si_targets e)\<rparr>) (ts_stranded_ihave s)\<rparr>
      else s\<lparr>ts_stranded_ihave := drain_oldest MAX_IHAVE_BATCH_SIZE (ts_stranded_ihave s) @
               [\<lparr>si_msg_id = msg_id, si_targets = peers, si_served = [], si_advertised = [],
                 si_retry_expires = now + MAX_CACHE_AGE_SECS * 1000, si_retry_delivered = False\<rparr>]\<rparr>)"

definition record_stranded_ihave_served ::
  "MessageIdType \<Rightarrow> PeerId \<Rightarrow> ('l, 'r) TopicState \<Rightarrow> ('l, 'r) TopicState" where
  "record_stranded_ihave_served msg_id peer s =
     s\<lparr>ts_stranded_ihave := update_first (\<lambda>e. si_msg_id e = msg_id)
         (\<lambda>e. e\<lparr>si_served := push_absent peer (si_served e)\<rparr>) (ts_stranded_ihave s)\<rparr>"

definition record_stranded_ihave_advertised ::
  "MessageIdType list \<Rightarrow> PeerId \<Rightarrow> ('l, 'r) TopicState \<Rightarrow> ('l, 'r) TopicState" where
  "record_stranded_ihave_advertised batch peer s =
     s\<lparr>ts_stranded_ihave := map (\<lambda>e. if si_msg_id e \<in> set batch
         then e\<lparr>si_advertised := push_absent peer (si_advertised e)\<rparr> else e) (ts_stranded_ihave s)\<rparr>"

definition stranded_ihave_served_peers :: "('l, 'r) TopicState \<Rightarrow> MessageIdType \<Rightarrow> PeerId list" where
  "stranded_ihave_served_peers s msg_id =
     (case find (\<lambda>e. si_msg_id e = msg_id) (ts_stranded_ihave s) of None \<Rightarrow> [] | Some e \<Rightarrow> si_served e)"

definition stranded_retry_expires :: "('l, 'r) TopicState \<Rightarrow> MessageIdType \<Rightarrow> instant option" where
  "stranded_retry_expires s msg_id =
     map_option si_retry_expires (find (\<lambda>e. si_msg_id e = msg_id) (ts_stranded_ihave s))"

definition record_stranded_retry_delivered ::
  "MessageIdType \<Rightarrow> PeerId \<Rightarrow> ('l, 'r) TopicState \<Rightarrow> ('l, 'r) TopicState" where
  "record_stranded_retry_delivered msg_id peer s =
     s\<lparr>ts_stranded_ihave := update_first (\<lambda>e. si_msg_id e = msg_id)
         (\<lambda>e. e\<lparr>si_retry_delivered := True, si_served := push_absent peer (si_served e)\<rparr>) (ts_stranded_ihave s)\<rparr>"

definition remove_stranded_ihave :: "MessageIdType \<Rightarrow> ('l, 'r) TopicState \<Rightarrow> ('l, 'r) TopicState" where
  "remove_stranded_ihave msg_id s =
     s\<lparr>ts_stranded_ihave := filter (\<lambda>e. si_msg_id e \<noteq> msg_id) (ts_stranded_ihave s)\<rparr>"

definition stranded_ihave_targets_for :: "('l, 'r) TopicState \<Rightarrow> MessageIdType list \<Rightarrow> PeerId list" where
  "stranded_ihave_targets_for s batch =
     (if ts_stranded_ihave s = [] \<or> batch = [] then []
      else fold (\<lambda>e targets.
             if si_msg_id e \<in> set batch
             then push_all_absent (filter (\<lambda>p. p \<notin> set (si_served e) \<and> p \<notin> set (si_advertised e)) (si_targets e)) targets
             else targets) (ts_stranded_ihave s) [])"

subsection \<open>Pending IHAVE ids\<close>

fun drop_pending_overflow ::
  "MessageIdType list \<Rightarrow> (MessageIdType \<rightharpoonup> PeerId set) \<Rightarrow> nat \<times> MessageIdType list \<times> (MessageIdType \<rightharpoonup> PeerId set)" where
  "drop_pending_overflow [] advertised = (0, [], advertised)"
| "drop_pending_overflow (expired # ids) advertised =
     (if length (expired # ids) \<ge> MAX_PENDING_IHAVE
      then (let (dropped, rest) = drop_pending_overflow ids (map_remove expired advertised) in (Suc dropped, rest))
      else (0, expired # ids, advertised))"

definition push_pending_ihave :: "MessageIdType \<Rightarrow> ('l, 'r) TopicState \<Rightarrow> nat \<times> ('l, 'r) TopicState" where
  "push_pending_ihave msg_id s =
     (let (dropped, ids, advertised) = drop_pending_overflow (ts_pending_ihave s) (ts_ihave_advertised s)
      in (dropped, s\<lparr>ts_pending_ihave := ids @ [msg_id], ts_ihave_advertised := advertised\<rparr>))"

definition ihave_target_pending :: "('l, 'r) TopicState \<Rightarrow> MessageIdType list \<Rightarrow> PeerId \<Rightarrow> bool" where
  "ihave_target_pending s batch peer \<longleftrightarrow>
     (\<exists>msg_id \<in> set batch. \<not> (case ts_ihave_advertised s msg_id of None \<Rightarrow> False | Some peers \<Rightarrow> peer \<in> peers))"

definition record_ihave_handoff :: "MessageIdType list \<Rightarrow> PeerId \<Rightarrow> ('l, 'r) TopicState \<Rightarrow> ('l, 'r) TopicState" where
  "record_ihave_handoff batch peer s =
     s\<lparr>ts_ihave_advertised :=
         fold (\<lambda>msg_id adv. adv(msg_id \<mapsto> insert peer (get_or {} adv msg_id))) batch (ts_ihave_advertised s)\<rparr>"

subsection \<open>Withheld and retained announcements\<close>

definition has_unresolved_retained_target :: "LazyWithheldEntry \<Rightarrow> bool" where
  "has_unresolved_retained_target e \<longleftrightarrow>
     lw_retain_until e \<noteq> None \<and> (\<exists>peer \<in> set (lw_targets e). peer \<notin> set (lw_served e))"

definition queue_lazy_withheld ::
  "MessageIdType \<Rightarrow> PeerId list \<Rightarrow> bool \<Rightarrow> ('l, 'r) TopicState \<Rightarrow> ('l, 'r) TopicState" where
  "queue_lazy_withheld msg_id peers cold_relay s =
     (if peers = [] \<and> \<not> cold_relay then s
      else if \<exists>e \<in> set (ts_lazy_withheld s). lw_msg_id e = msg_id
      then s\<lparr>ts_lazy_withheld := update_first (\<lambda>e. lw_msg_id e = msg_id)
               (\<lambda>e. e\<lparr>lw_cold_relay := lw_cold_relay e \<or> cold_relay,
                      lw_targets := push_all_absent peers (lw_targets e)\<rparr>) (ts_lazy_withheld s)\<rparr>
      else s\<lparr>ts_lazy_withheld := drain_oldest MAX_IHAVE_BATCH_SIZE (ts_lazy_withheld s) @
               [\<lparr>lw_msg_id = msg_id, lw_targets = peers, lw_cold_relay = cold_relay, lw_served = [],
                 lw_retain_until = None\<rparr>]\<rparr>)"

definition queue_retained_announce ::
  "MessageIdType \<Rightarrow> PeerId list \<Rightarrow> instant \<Rightarrow> ('l, 'r) TopicState \<Rightarrow> ('l, 'r) TopicState" where
  "queue_retained_announce msg_id peers now s =
     (if peers = [] then s
      else let deadline = now + RETAINED_ANNOUNCE_TTL;
               s1 = queue_lazy_withheld msg_id peers False s
           in s1\<lparr>ts_lazy_withheld := update_first (\<lambda>e. lw_msg_id e = msg_id)
                (\<lambda>e. e\<lparr>lw_retain_until := Some (case lw_retain_until e of
                          None \<Rightarrow> deadline | Some t \<Rightarrow> max t deadline)\<rparr>) (ts_lazy_withheld s1)\<rparr>)"

definition record_lazy_withheld_advertised ::
  "MessageIdType list \<Rightarrow> PeerId list \<Rightarrow> ('l, 'r) TopicState \<Rightarrow> ('l, 'r) TopicState" where
  "record_lazy_withheld_advertised batch peers s =
     (if peers = [] \<or> \<not> (\<exists>e \<in> set (ts_lazy_withheld s). lw_retain_until e \<noteq> None) then s
      else s\<lparr>ts_lazy_withheld := map (\<lambda>e. if lw_retain_until e \<noteq> None \<and> lw_msg_id e \<in> set batch
               then e\<lparr>lw_targets := filter (\<lambda>t. t \<notin> set peers) (lw_targets e)\<rparr> else e) (ts_lazy_withheld s)\<rparr>)"

definition transport_connected_for_peer :: "PeerId set option \<Rightarrow> PeerId \<Rightarrow> bool option" where
  "transport_connected_for_peer snapshot peer = map_option (\<lambda>peers. peer \<in> peers) snapshot"

definition prune_retained_entry :: "instant \<Rightarrow> PeerId set option \<Rightarrow> LazyWithheldEntry \<Rightarrow> LazyWithheldEntry option" where
  "prune_retained_entry now connected_peers e =
     (case lw_retain_until e of
        None \<Rightarrow> Some e
      | Some deadline \<Rightarrow>
          if deadline \<le> now then None
          else let e' = e\<lparr>lw_targets := filter (\<lambda>p. p \<notin> set (lw_served e) \<and>
                                   transport_connected_for_peer connected_peers p \<noteq> Some False) (lw_targets e)\<rparr>
               in if lw_targets e' = [] then None else Some e')"

definition prune_retained_announces ::
  "instant \<Rightarrow> PeerId set option \<Rightarrow> ('l, 'r) TopicState \<Rightarrow> ('l, 'r) TopicState" where
  "prune_retained_announces now connected_peers s =
     s\<lparr>ts_lazy_withheld := List.map_filter (prune_retained_entry now connected_peers) (ts_lazy_withheld s)\<rparr>"

definition retained_announce_work :: "('l, 'r) TopicState \<Rightarrow> (MessageIdType list \<times> PeerId list) option" where
  "retained_announce_work s =
     (if \<not> (\<exists>e \<in> set (ts_lazy_withheld s). has_unresolved_retained_target e) then None
      else let due = filter (\<lambda>e. has_unresolved_retained_target e \<and> lw_msg_id e \<notin> set (ts_pending_ihave s)) (ts_lazy_withheld s);
               batch = map lw_msg_id due;
               targets = fold (\<lambda>e targets. push_all_absent (filter (\<lambda>p. p \<notin> set (lw_served e)) (lw_targets e)) targets) due []
           in if batch = [] then None else Some (batch, targets))"

definition drop_resolved_retained_announces :: "('l, 'r) TopicState \<Rightarrow> ('l, 'r) TopicState" where
  "drop_resolved_retained_announces s =
     s\<lparr>ts_lazy_withheld := filter (\<lambda>e. lw_retain_until e = None \<or> has_unresolved_retained_target e) (ts_lazy_withheld s)\<rparr>"

definition offer_pending_cold_relay_to_new_eager ::
  "'l cache_ops \<Rightarrow> PeerId list \<Rightarrow> ('l, 'r) TopicState \<Rightarrow> ('l, 'r) TopicState" where
  "offer_pending_cold_relay_to_new_eager ops peers s =
     (if peers = [] \<or> ts_lazy_withheld s = [] then s
      else s\<lparr>ts_lazy_withheld := map (\<lambda>e.
          if \<not> lw_cold_relay e \<or> lw_msg_id e \<notin> set (ts_pending_ihave s) \<or>
             (case lru_peek ops (lw_msg_id e) (mc_lru (ts_message_cache s)) of
                None \<Rightarrow> True | Some cached \<Rightarrow> cm_dropped (ce_message cached))
          then e
          else e\<lparr>lw_targets := push_all_absent (filter (\<lambda>p. p \<notin> set (lw_served e)) peers)
                    (filter (\<lambda>p. p \<in> ms_eager (ts_mesh s)) (lw_targets e))\<rparr>) (ts_lazy_withheld s)\<rparr>)"

definition record_lazy_withheld_served ::
  "MessageIdType \<Rightarrow> PeerId \<Rightarrow> ('l, 'r) TopicState \<Rightarrow> ('l, 'r) TopicState" where
  "record_lazy_withheld_served msg_id peer s =
     s\<lparr>ts_lazy_withheld := update_first (\<lambda>e. lw_msg_id e = msg_id)
         (\<lambda>e. e\<lparr>lw_served := push_absent peer (lw_served e)\<rparr>) (ts_lazy_withheld s)\<rparr>"

definition lazy_withheld_targets_for :: "('l, 'r) TopicState \<Rightarrow> MessageIdType list \<Rightarrow> PeerId list" where
  "lazy_withheld_targets_for s batch =
     (if ts_lazy_withheld s = [] \<or> batch = [] then []
      else fold (\<lambda>e targets.
             if lw_msg_id e \<in> set batch
             then push_all_absent (filter (\<lambda>p. p \<notin> set (lw_served e)) (lw_targets e)) targets
             else targets) (ts_lazy_withheld s) [])"

definition consume_flushed_ihave_batch :: "MessageIdType list \<Rightarrow> ('l, 'r) TopicState \<Rightarrow> ('l, 'r) TopicState" where
  "consume_flushed_ihave_batch batch s =
     (if batch = [] then s
      else s\<lparr>ts_pending_ihave := filter (\<lambda>i. i \<notin> set batch) (ts_pending_ihave s),
             ts_ihave_advertised := map_retain (\<lambda>i _. i \<notin> set batch) (ts_ihave_advertised s),
             ts_lazy_withheld := filter (\<lambda>e. lw_msg_id e \<notin> set batch \<or> has_unresolved_retained_target e) (ts_lazy_withheld s)\<rparr>)"

subsection \<open>Late offers to new peers\<close>

definition prune_late_local_offers :: "instant \<Rightarrow> ('l, 'r) TopicState \<Rightarrow> ('l, 'r) TopicState" where
  "prune_late_local_offers now s =
     s\<lparr>ts_late_local_offers :=
         map_retain (\<lambda>_ offer. now - lo_cutoff offer < mc_max_age (ts_message_cache s)) (ts_late_local_offers s)\<rparr>"

definition queue_late_local_offer ::
  "'l cache_ops \<Rightarrow> PeerId \<Rightarrow> instant \<Rightarrow> ('l, 'r) TopicState \<Rightarrow> ('l, 'r) TopicState" where
  "queue_late_local_offer ops peer now s =
     (let s1 = s\<lparr>ts_message_cache := prune_expired_at ops now (ts_message_cache s)\<rparr>;
          s2 = prune_late_local_offers now s1
      in if has_live_local_origin (ts_message_cache s2)
         then (if card (dom (ts_late_local_offers s2)) \<ge> MAX_LATE_LOCAL_OFFERS \<and> ts_late_local_offers s2 peer = None
               then s2
               else s2\<lparr>ts_late_local_offers := map_or_insert peer
                        \<lparr>lo_cutoff = now, lo_cursor = None, lo_failures = 0, lo_next_attempt = None\<rparr>
                        (ts_late_local_offers s2)\<rparr>)
         else s2)"

definition late_local_offer_backoff :: "nat \<Rightarrow> duration" where
  "late_local_offer_backoff failures = 1000 * 2 ^ (min (max failures 1) 5 - 1)"

definition late_local_offer_keys ::
  "'l cache_ops \<Rightarrow> PeerId \<Rightarrow> instant \<Rightarrow> ('l, 'r) TopicState \<Rightarrow> (instant \<times> MessageIdType) list option \<times> ('l, 'r) TopicState" where
  "late_local_offer_keys ops peer now s =
     (case ts_late_local_offers s peer of
        None \<Rightarrow> (None, s)
      | Some offer \<Rightarrow>
          (let s1 = s\<lparr>ts_message_cache := prune_expired_at ops now (ts_message_cache s)\<rparr>;
               eligible = List.map_filter (\<lambda>(msg_id, entry).
                 (let key = (ce_inserted_at entry, msg_id)
                  in if cm_local_origin (ce_message entry) \<and> \<not> cm_dropped (ce_message entry) \<and>
                        ce_inserted_at entry \<le> lo_cutoff offer \<and>
                        (case lo_cursor offer of None \<Rightarrow> True | Some cursor \<Rightarrow> cursor < key)
                     then Some key else None)) (lru_iter ops (mc_lru (ts_message_cache s1)))
           in if eligible = [] then (None, s1\<lparr>ts_late_local_offers := map_remove peer (ts_late_local_offers s1)\<rparr>)
              else (Some eligible, s1)))"

text \<open>The page of one flush: \<open>flush_ihave_batches\<close> sorts the keys, keeps one batch and remembers
  the last key as the next cursor.\<close>

definition late_offer_page ::
  "(instant \<times> MessageIdType) list \<Rightarrow> (MessageIdType list \<times> (instant \<times> MessageIdType)) option" where
  "late_offer_page keys =
     (let eligible = take MAX_IHAVE_BATCH_SIZE (sort keys)
      in if eligible = [] then None else Some (map snd eligible, last eligible))"

definition advance_late_local_offer ::
  "PeerId \<Rightarrow> instant \<times> MessageIdType \<Rightarrow> ('l, 'r) TopicState \<Rightarrow> ('l, 'r) TopicState" where
  "advance_late_local_offer peer cursor s =
     (case ts_late_local_offers s peer of
        None \<Rightarrow> s
      | Some offer \<Rightarrow> s\<lparr>ts_late_local_offers := (ts_late_local_offers s)
          (peer \<mapsto> offer\<lparr>lo_cursor := Some cursor, lo_failures := 0, lo_next_attempt := None\<rparr>)\<rparr>)"

definition backoff_late_local_offer ::
  "PeerId \<Rightarrow> instant \<times> MessageIdType \<Rightarrow> instant \<Rightarrow> ('l, 'r) TopicState \<Rightarrow> ('l, 'r) TopicState" where
  "backoff_late_local_offer peer cursor now s =
     (case ts_late_local_offers s peer of
        None \<Rightarrow> s
      | Some offer \<Rightarrow>
          (let failures = min (lo_failures offer + 1) 255
           in s\<lparr>ts_late_local_offers := (ts_late_local_offers s)
                (peer \<mapsto> offer\<lparr>lo_cursor := Some cursor, lo_failures := failures,
                     lo_next_attempt := Some (now + late_local_offer_backoff failures)\<rparr>)\<rparr>))"

subsection \<open>Deferred requests\<close>

definition prune_deferred_iwants :: "instant \<Rightarrow> ('l, 'r) TopicState \<Rightarrow> ('l, 'r) TopicState" where
  "prune_deferred_iwants now s =
     (let retry_age = mc_max_age (ts_message_cache s);
          outstanding = map_retain (\<lambda>_ entry. now - oi_requested_at entry < retry_age) (ts_outstanding_iwants s)
      in s\<lparr>ts_outstanding_iwants := outstanding,
           ts_deferred_iwants := filter (\<lambda>entry. now - di_requested_at entry < retry_age \<and>
             (\<exists>msg_id \<in> set (di_msg_ids entry).
                case outstanding msg_id of None \<Rightarrow> False
                | Some pending \<Rightarrow> oi_retry_pending pending \<and> oi_peer pending = di_peer entry)) (ts_deferred_iwants s)\<rparr>)"

definition retain_deferred_iwant ::
  "PeerId \<Rightarrow> MessageIdType list \<Rightarrow> instant \<Rightarrow> ('l, 'r) TopicState \<Rightarrow> bool \<times> ('l, 'r) TopicState" where
  "retain_deferred_iwant peer msg_ids now s =
     (let s1 = prune_deferred_iwants now s
      in if \<exists>entry \<in> set (ts_deferred_iwants s1). di_peer entry = peer \<and> di_msg_ids entry = msg_ids then (True, s1)
         else if u64_sat_add (\<Sum>entry \<leftarrow> ts_deferred_iwants s1. length (di_msg_ids entry)) (length msg_ids) > MAX_DEFERRED_IWANT_IDS
         then (False, s1)
         else (True, s1\<lparr>ts_deferred_iwants := ts_deferred_iwants s1 @
                 [\<lparr>di_peer = peer, di_msg_ids = msg_ids, di_requested_at = now\<rparr>]\<rparr>))"

subsection \<open>Periodic cleaning\<close>

definition prune_churned_peer_state :: "instant \<Rightarrow> ('l, 'r) TopicState \<Rightarrow> ('l, 'r) TopicState" where
  "prune_churned_peer_state now s = s\<lparr>ts_mesh := prune_churned_cooling now (ts_mesh s)\<rparr>"

definition clean_cache :: "'l cache_ops \<Rightarrow> 'r replay_ops \<Rightarrow> instant \<Rightarrow> ('l, 'r) TopicState \<Rightarrow> ('l, 'r) TopicState" where
  "clean_cache ops rops now s =
     (let expired_replay = map fst (filter (\<lambda>x. now - pr_inserted_at (snd x) > ts_replay_ttl s)
                              (lru_iter rops (ts_replay_cache s)))
      in s\<lparr>ts_message_cache := prune_expired_at ops now (ts_message_cache s),
           ts_replay_cache := fold (\<lambda>hash l. snd (lru_pop rops hash l)) expired_replay (ts_replay_cache s)\<rparr>)"

end
