(* ===== verification/Outbound_Budget.thy ===== *)
theory Outbound_Budget
  imports Admission "HOL-Library.Multiset"
begin

text \<open>
  Permits of concurrent sends to one peer: \<open>PeerOutboundBudgets\<close>, \<open>CriticalSendGate\<close> and
  \<open>OutboundSendPermit\<close> of \<open>crates/pubsub/src/lib.rs\<close>. Relayed data, local data and control each have
  their own lane of permits; critical data queues at a gate that lets one send through.

  The semaphore of the gate is the number of its free permits. The references the code counts
  with \<open>Arc::strong_count\<close> are a field of the slot. A wait at the gate is resolved by the caller
  of the model: it ends when the permit is free or when its time runs out. The permits in use
  are explicit values, and a run of the component is a sequence of steps on the budgets and the
  list of permits that are alive.
\<close>

subsection \<open>State\<close>

datatype OutboundSendClass = DataSend | ControlSend

definition for_op :: "string \<Rightarrow> OutboundSendClass" where
  "for_op op = (if op = ''EAGER'' then DataSend else ControlSend)"

definition OUTBOUND_CRITICAL_DATA_PERMITS_PER_PEER :: nat where
  "OUTBOUND_CRITICAL_DATA_PERMITS_PER_PEER = 1"

definition OUTBOUND_BEST_EFFORT_DATA_PERMITS_PER_PEER :: nat where
  "OUTBOUND_BEST_EFFORT_DATA_PERMITS_PER_PEER = 1"

definition OUTBOUND_LOCAL_DATA_PERMITS_PER_PEER :: nat where
  "OUTBOUND_LOCAL_DATA_PERMITS_PER_PEER = 1"

definition OUTBOUND_CONTROL_PERMITS_PER_PEER :: nat where
  "OUTBOUND_CONTROL_PERMITS_PER_PEER = 2"

definition OUTBOUND_BUDGET_REAP_AFTER :: duration where
  "OUTBOUND_BUDGET_REAP_AFTER = 600000"

definition OUTBOUND_CRITICAL_QUEUE_PER_PEER :: nat where
  "OUTBOUND_CRITICAL_QUEUE_PER_PEER = 64"

lemmas permit_limits = OUTBOUND_CRITICAL_DATA_PERMITS_PER_PEER_def OUTBOUND_BEST_EFFORT_DATA_PERMITS_PER_PEER_def
  OUTBOUND_LOCAL_DATA_PERMITS_PER_PEER_def OUTBOUND_CONTROL_PERMITS_PER_PEER_def
  OUTBOUND_CRITICAL_QUEUE_PER_PEER_def

record InFlightDataSlot =
  ds_slot_id :: nat
  ds_priority :: TopicPriority
  ds_local_origin :: bool

record PeerOutboundBudgetEntry =
  be_critical_data_in_flight :: nat
  be_best_effort_data_in_flight :: nat
  be_local_data_in_flight :: nat
  be_control_in_flight :: nat
  be_data_slots :: "InFlightDataSlot list"
  be_last_used :: instant

definition entry_new :: "instant \<Rightarrow> PeerOutboundBudgetEntry" where
  "entry_new now =
     \<lparr>be_critical_data_in_flight = 0, be_best_effort_data_in_flight = 0, be_local_data_in_flight = 0,
      be_control_in_flight = 0, be_data_slots = [], be_last_used = now\<rparr>"

definition is_idle_at :: "PeerOutboundBudgetEntry \<Rightarrow> instant \<Rightarrow> bool" where
  "is_idle_at e now \<longleftrightarrow>
     be_critical_data_in_flight e = 0 \<and> be_best_effort_data_in_flight e = 0 \<and> be_local_data_in_flight e = 0 \<and>
     be_control_in_flight e = 0 \<and> be_data_slots e = [] \<and> now - be_last_used e > OUTBOUND_BUDGET_REAP_AFTER"

record CriticalPeerSlot =
  cs_free :: nat
  cs_queued :: nat
  cs_refs :: nat

definition slot_new :: CriticalPeerSlot where
  "slot_new = \<lparr>cs_free = OUTBOUND_CRITICAL_DATA_PERMITS_PER_PEER, cs_queued = 0, cs_refs = 0\<rparr>"

type_synonym CriticalSendGate = "PeerId \<rightharpoonup> CriticalPeerSlot"

datatype CriticalPermitState = NoGate | Reserved | Engaged

record OutboundSendPermit =
  op_peer :: PeerId
  op_class :: OutboundSendClass
  op_slot_id :: nat
  op_critical :: CriticalPermitState

record PeerOutboundBudgets =
  ob_peers :: "PeerId \<rightharpoonup> PeerOutboundBudgetEntry"
  ob_gate :: CriticalSendGate
  ob_next_slot_id :: nat

definition budgets_new :: "nat \<Rightarrow> PeerOutboundBudgets" where
  "budgets_new slot_id = \<lparr>ob_peers = Map.empty, ob_gate = Map.empty, ob_next_slot_id = slot_id\<rparr>"

subsection \<open>The gate of critical sends\<close>

definition try_reserve :: "PeerId \<Rightarrow> CriticalSendGate \<Rightarrow> bool \<times> CriticalSendGate" where
  "try_reserve peer gate =
     (let gate1 = map_or_insert peer slot_new (map_retain (\<lambda>_ slot. cs_refs slot > 0) gate);
          slot = get_or slot_new gate1 peer
      in if cs_queued slot \<ge> OUTBOUND_CRITICAL_QUEUE_PER_PEER then (False, gate1)
         else (True, gate1(peer \<mapsto> slot\<lparr>cs_queued := cs_queued slot + 1, cs_refs := cs_refs slot + 1\<rparr>)))"

text \<open>\<open>engage\<close> once the semaphore grants the permit: the hold takes over the reference.\<close>

definition engage :: "PeerId \<Rightarrow> CriticalSendGate \<Rightarrow> CriticalSendGate option" where
  "engage peer gate =
     (case gate peer of
        None \<Rightarrow> None
      | Some slot \<Rightarrow> if cs_free slot = 0 then None else Some (gate(peer \<mapsto> slot\<lparr>cs_free := cs_free slot - 1\<rparr>)))"

definition drop_reservation :: "PeerId \<Rightarrow> CriticalSendGate \<Rightarrow> CriticalSendGate" where
  "drop_reservation peer gate =
     (case gate peer of
        None \<Rightarrow> gate
      | Some slot \<Rightarrow> gate(peer \<mapsto> slot\<lparr>cs_queued := cs_queued slot - 1, cs_refs := cs_refs slot - 1\<rparr>))"

definition drop_hold :: "PeerId \<Rightarrow> CriticalSendGate \<Rightarrow> CriticalSendGate" where
  "drop_hold peer gate =
     (case gate peer of
        None \<Rightarrow> gate
      | Some slot \<Rightarrow> gate(peer \<mapsto> slot\<lparr>cs_free := cs_free slot + 1, cs_queued := cs_queued slot - 1,
                                  cs_refs := cs_refs slot - 1\<rparr>))"

subsection \<open>Permits\<close>

definition data_lane_available :: "PeerOutboundBudgets \<Rightarrow> PeerId \<Rightarrow> TopicPriority \<Rightarrow> bool \<Rightarrow> bool" where
  "data_lane_available b peer priority local_origin \<longleftrightarrow>
     (if priority = Critical then True
      else case ob_peers b peer of
             None \<Rightarrow> True
           | Some entry \<Rightarrow>
               if local_origin then be_local_data_in_flight entry < OUTBOUND_LOCAL_DATA_PERMITS_PER_PEER
               else be_best_effort_data_in_flight entry < OUTBOUND_BEST_EFFORT_DATA_PERMITS_PER_PEER)"

definition lane_exhausted :: "OutboundSendClass \<Rightarrow> TopicPriority \<Rightarrow> bool \<Rightarrow> PeerOutboundBudgetEntry \<Rightarrow> bool" where
  "lane_exhausted class priority local_origin entry \<longleftrightarrow>
     (case class of
        DataSend \<Rightarrow>
          if priority = Critical then False
          else if local_origin then be_local_data_in_flight entry \<ge> OUTBOUND_LOCAL_DATA_PERMITS_PER_PEER
          else be_best_effort_data_in_flight entry \<ge> OUTBOUND_BEST_EFFORT_DATA_PERMITS_PER_PEER
      | ControlSend \<Rightarrow> be_control_in_flight entry \<ge> OUTBOUND_CONTROL_PERMITS_PER_PEER)"

definition take_lane ::
  "OutboundSendClass \<Rightarrow> TopicPriority \<Rightarrow> bool \<Rightarrow> nat \<Rightarrow> PeerOutboundBudgetEntry \<Rightarrow> nat \<times> nat \<times> PeerOutboundBudgetEntry" where
  "take_lane class priority local_origin next_slot entry =
     (case class of
        DataSend \<Rightarrow>
          if priority = Critical then (0, next_slot, entry)
          else (let entry1 = (if local_origin
                              then entry\<lparr>be_local_data_in_flight := be_local_data_in_flight entry + 1\<rparr>
                              else entry\<lparr>be_best_effort_data_in_flight := be_best_effort_data_in_flight entry + 1\<rparr>)
                in (next_slot, u64_add next_slot 1,
                    entry1\<lparr>be_data_slots := be_data_slots entry1 @
                      [\<lparr>ds_slot_id = next_slot, ds_priority = priority, ds_local_origin = local_origin\<rparr>]\<rparr>))
      | ControlSend \<Rightarrow> (0, next_slot, entry\<lparr>be_control_in_flight := be_control_in_flight entry + 1\<rparr>))"

definition acquire_lane ::
  "PeerId \<Rightarrow> OutboundSendClass \<Rightarrow> TopicPriority \<Rightarrow> bool \<Rightarrow> CriticalPermitState \<Rightarrow> instant \<Rightarrow> PeerOutboundBudgets \<Rightarrow>
   OutboundSendPermit option \<times> PeerOutboundBudgets" where
  "acquire_lane peer class priority local_origin critical now b =
     (let peers = map_or_insert peer (entry_new now) (map_retain (\<lambda>_ entry. \<not> is_idle_at entry now) (ob_peers b));
          entry = get_or (entry_new now) peers peer
      in if lane_exhausted class priority local_origin entry
         then (None, b\<lparr>ob_peers := peers(peer \<mapsto> entry\<lparr>be_last_used := now\<rparr>)\<rparr>)
         else let (slot_id, next_slot, entry1) = take_lane class priority local_origin (ob_next_slot_id b) entry
              in (Some \<lparr>op_peer = peer, op_class = class, op_slot_id = slot_id, op_critical = critical\<rparr>,
                  b\<lparr>ob_peers := peers(peer \<mapsto> entry1\<lparr>be_last_used := now\<rparr>), ob_next_slot_id := next_slot\<rparr>))"

definition try_acquire_for_origin ::
  "PeerId \<Rightarrow> OutboundSendClass \<Rightarrow> TopicPriority \<Rightarrow> bool \<Rightarrow> instant \<Rightarrow> PeerOutboundBudgets \<Rightarrow>
   OutboundSendPermit option \<times> PeerOutboundBudgets" where
  "try_acquire_for_origin peer class priority local_origin now b =
     (if class = DataSend \<and> priority = Critical
      then (let (reserved, gate) = try_reserve peer (ob_gate b);
                b1 = b\<lparr>ob_gate := gate\<rparr>
            in if \<not> reserved then (None, b1)
               else acquire_lane peer class priority local_origin Reserved now b1)
      else acquire_lane peer class priority local_origin NoGate now b)"

fun remove_slot :: "nat \<Rightarrow> InFlightDataSlot list \<Rightarrow> (InFlightDataSlot \<times> InFlightDataSlot list) option" where
  "remove_slot slot_id [] = None"
| "remove_slot slot_id (slot # slots) =
     (if ds_slot_id slot = slot_id then Some (slot, slots)
      else map_option (\<lambda>(found, rest). (found, slot # rest)) (remove_slot slot_id slots))"

definition release_entry :: "OutboundSendClass \<Rightarrow> nat \<Rightarrow> PeerOutboundBudgetEntry \<Rightarrow> PeerOutboundBudgetEntry" where
  "release_entry class slot_id entry =
     (case class of
        DataSend \<Rightarrow>
          (case remove_slot slot_id (be_data_slots entry) of
             None \<Rightarrow> entry
           | Some (slot, slots) \<Rightarrow>
               (let e = entry\<lparr>be_data_slots := slots\<rparr>
                in if ds_priority slot = Critical
                   then e\<lparr>be_critical_data_in_flight := be_critical_data_in_flight e - 1\<rparr>
                   else if ds_local_origin slot
                   then e\<lparr>be_local_data_in_flight := be_local_data_in_flight e - 1\<rparr>
                   else e\<lparr>be_best_effort_data_in_flight := be_best_effort_data_in_flight e - 1\<rparr>))
      | ControlSend \<Rightarrow> entry\<lparr>be_control_in_flight := be_control_in_flight entry - 1\<rparr>)"

definition release :: "PeerId \<Rightarrow> OutboundSendClass \<Rightarrow> nat \<Rightarrow> instant \<Rightarrow> PeerOutboundBudgets \<Rightarrow> PeerOutboundBudgets" where
  "release peer class slot_id now b =
     (case ob_peers b peer of
        None \<Rightarrow> b
      | Some entry \<Rightarrow>
          b\<lparr>ob_peers := (ob_peers b)(peer \<mapsto> (release_entry class slot_id entry)\<lparr>be_last_used := now\<rparr>)\<rparr>)"

text \<open>\<open>engage_critical_gate\<close>: the wait ends with the permit, or with its time; \<open>None\<close> while it lasts.\<close>

definition engage_critical_gate ::
  "bool \<Rightarrow> OutboundSendPermit \<Rightarrow> PeerOutboundBudgets \<Rightarrow> (bool \<times> OutboundSendPermit \<times> PeerOutboundBudgets) option" where
  "engage_critical_gate timed_out p b =
     (if op_critical p = Reserved
      then (case engage (op_peer p) (ob_gate b) of
              Some gate \<Rightarrow>
                if timed_out then Some (False, p\<lparr>op_critical := NoGate\<rparr>, b\<lparr>ob_gate := drop_reservation (op_peer p) (ob_gate b)\<rparr>)
                else Some (True, p\<lparr>op_critical := Engaged\<rparr>, b\<lparr>ob_gate := gate\<rparr>)
            | None \<Rightarrow>
                if timed_out then Some (False, p\<lparr>op_critical := NoGate\<rparr>, b\<lparr>ob_gate := drop_reservation (op_peer p) (ob_gate b)\<rparr>)
                else None)
      else Some (True, p, b))"

text \<open>Dropping a permit releases its lane and then the reservation or hold it carries.\<close>

definition drop_permit :: "OutboundSendPermit \<Rightarrow> instant \<Rightarrow> PeerOutboundBudgets \<Rightarrow> PeerOutboundBudgets" where
  "drop_permit p now b =
     (let b1 = release (op_peer p) (op_class p) (op_slot_id p) now b
      in case op_critical p of
           NoGate \<Rightarrow> b1
         | Reserved \<Rightarrow> b1\<lparr>ob_gate := drop_reservation (op_peer p) (ob_gate b1)\<rparr>
         | Engaged \<Rightarrow> b1\<lparr>ob_gate := drop_hold (op_peer p) (ob_gate b1)\<rparr>)"

subsection \<open>Runs\<close>

text \<open>A permit in use, with the priority and the origin it was acquired for.\<close>

type_synonym held = "OutboundSendPermit \<times> TopicPriority \<times> bool"

inductive budget_step :: "PeerOutboundBudgets \<times> held multiset \<Rightarrow> PeerOutboundBudgets \<times> held multiset \<Rightarrow> bool" where
  budget_acquire: "try_acquire_for_origin peer class priority local_origin now b = (Some p, b') \<Longrightarrow>
    ob_next_slot_id b < u64_max \<Longrightarrow> budget_step (b, hs) (b', add_mset (p, priority, local_origin) hs)"
| budget_refuse: "try_acquire_for_origin peer class priority local_origin now b = (None, b') \<Longrightarrow>
    budget_step (b, hs) (b', hs)"
| budget_engage: "(p, priority, local_origin) \<in># hs \<Longrightarrow> engage_critical_gate timed_out p b = Some (granted, p', b') \<Longrightarrow>
    budget_step (b, hs) (b', add_mset (p', priority, local_origin) (hs - {#(p, priority, local_origin)#}))"
| budget_drop: "(p, priority, local_origin) \<in># hs \<Longrightarrow>
    budget_step (b, hs) (drop_permit p now b, hs - {#(p, priority, local_origin)#})"

inductive_cases budget_stepE: "budget_step (b, hs) (b', hs')"

subsection \<open>Invariant\<close>

definition on_slot :: "PeerId \<Rightarrow> held \<Rightarrow> bool" where
  "on_slot peer h \<longleftrightarrow> op_peer (fst h) = peer \<and> op_class (fst h) = DataSend \<and> fst (snd h) \<noteq> Critical"

definition on_control :: "PeerId \<Rightarrow> held \<Rightarrow> bool" where
  "on_control peer h \<longleftrightarrow> op_peer (fst h) = peer \<and> op_class (fst h) = ControlSend"

definition on_gate :: "PeerId \<Rightarrow> held \<Rightarrow> bool" where
  "on_gate peer h \<longleftrightarrow> op_peer (fst h) = peer \<and> op_critical (fst h) \<noteq> NoGate"

definition holds_gate :: "PeerId \<Rightarrow> held \<Rightarrow> bool" where
  "holds_gate peer h \<longleftrightarrow> op_peer (fst h) = peer \<and> op_critical (fst h) = Engaged"

definition held_tag :: "held \<Rightarrow> nat \<times> TopicPriority \<times> bool" where
  "held_tag h = (op_slot_id (fst h), snd h)"

definition slot_tag :: "InFlightDataSlot \<Rightarrow> nat \<times> TopicPriority \<times> bool" where
  "slot_tag sl = (ds_slot_id sl, ds_priority sl, ds_local_origin sl)"

definition entry_ok :: "nat \<Rightarrow> PeerOutboundBudgetEntry \<Rightarrow> bool" where
  "entry_ok bound e \<longleftrightarrow>
     distinct (map ds_slot_id (be_data_slots e)) \<and>
     (\<forall>sl \<in> set (be_data_slots e). 0 < ds_slot_id sl \<and> ds_slot_id sl < bound \<and> ds_priority sl \<noteq> Critical) \<and>
     be_critical_data_in_flight e = 0 \<and>
     be_local_data_in_flight e = length (filter ds_local_origin (be_data_slots e)) \<and>
     be_best_effort_data_in_flight e = length (filter (\<lambda>sl. \<not> ds_local_origin sl) (be_data_slots e)) \<and>
     be_local_data_in_flight e \<le> 1 \<and> be_best_effort_data_in_flight e \<le> 1 \<and> be_control_in_flight e \<le> 2"

fun lane_ok :: "nat \<Rightarrow> PeerOutboundBudgetEntry option \<Rightarrow> held multiset \<Rightarrow> held multiset \<Rightarrow> bool" where
  "lane_ok bound None S C \<longleftrightarrow> S = {#} \<and> C = {#}"
| "lane_ok bound (Some e) S C \<longleftrightarrow> entry_ok bound e \<and>
     mset (map slot_tag (be_data_slots e)) = image_mset held_tag S \<and> be_control_in_flight e = size C"

fun gate_ok :: "CriticalPeerSlot option \<Rightarrow> nat \<Rightarrow> nat \<Rightarrow> bool" where
  "gate_ok None queued engaged \<longleftrightarrow> queued = 0 \<and> engaged = 0"
| "gate_ok (Some sl) queued engaged \<longleftrightarrow> cs_queued sl = queued \<and> cs_refs sl = queued \<and> cs_free sl + engaged = 1 \<and> engaged \<le> queued \<and> queued \<le> 64"

definition held_ok :: "held \<Rightarrow> bool" where
  "held_ok h \<longleftrightarrow> (fst (snd h) = Critical \<and> op_class (fst h) = DataSend \<longrightarrow> op_slot_id (fst h) = 0) \<and>
     (op_critical (fst h) \<noteq> NoGate \<longrightarrow> op_class (fst h) = DataSend \<and> fst (snd h) = Critical)"

definition budget_ok :: "PeerOutboundBudgets \<times> held multiset \<Rightarrow> bool" where
  "budget_ok s \<longleftrightarrow>
     0 < ob_next_slot_id (fst s) \<and> ob_next_slot_id (fst s) \<le> u64_max \<and> (\<forall>h \<in># snd s. held_ok h) \<and>
     (\<forall>peer. lane_ok (ob_next_slot_id (fst s)) (ob_peers (fst s) peer) (filter_mset (on_slot peer) (snd s)) (filter_mset (on_control peer) (snd s))) \<and>
     (\<forall>peer. gate_ok (ob_gate (fst s) peer) (size (filter_mset (on_gate peer) (snd s))) (size (filter_mset (holds_gate peer) (snd s))))"

lemma lane_ok_idle:
  assumes "lane_ok bound (Some e) S C" "is_idle_at e now"
  shows "lane_ok bound None S C"
  using assms by (auto simp: is_idle_at_def)

lemma entry_ok_mono: "entry_ok m e \<Longrightarrow> m \<le> n \<Longrightarrow> entry_ok n e"
  unfolding entry_ok_def by (auto intro: order.strict_trans2)

lemma lane_ok_mono: "lane_ok m e S C \<Longrightarrow> m \<le> n \<Longrightarrow> lane_ok n e S C"
  by (cases e) (auto intro: entry_ok_mono)

lemma entry_ok_last_used [simp]: "entry_ok n (e\<lparr>be_last_used := t\<rparr>) = entry_ok n e"
  by (simp add: entry_ok_def)

lemma lane_ok_new: "lane_ok n (Some (entry_new now)) {#} {#}"
  by (simp add: entry_new_def entry_ok_def)

text \<open>The entry an acquisition starts from: idle entries are reaped and a missing one is created.\<close>

definition reaped :: "PeerId \<Rightarrow> instant \<Rightarrow> (PeerId \<rightharpoonup> PeerOutboundBudgetEntry) \<Rightarrow> (PeerId \<rightharpoonup> PeerOutboundBudgetEntry)" where
  "reaped peer now m = map_or_insert peer (entry_new now) (map_retain (\<lambda>_ e. \<not> is_idle_at e now) m)"

lemma lane_ok_reaped:
  assumes "lane_ok n (m q) S C"
  shows "lane_ok n (reaped peer now m q) S C"
proof (cases "map_retain (\<lambda>_ e. \<not> is_idle_at e now) m q")
  case None
  then have "lane_ok n None S C"
    using assms lane_ok_idle [of n _ S C now] by (auto simp: map_retain_def split: option.splits if_splits)
  then show ?thesis using None lane_ok_new [of n now] by (auto simp: reaped_def get_or_None)
next
  case (Some e)
  then have "reaped peer now m q = Some e" by (auto simp: reaped_def get_or_Some)
  then show ?thesis using assms Some by simp
qed

lemma reaped_present: "reaped peer now m peer = Some (get_or (entry_new now) (reaped peer now m) peer)"
  by (simp add: reaped_def get_or_def)

subsection \<open>Every step keeps the invariant\<close>

definition takes_slot :: "OutboundSendClass \<Rightarrow> TopicPriority \<Rightarrow> bool" where
  "takes_slot class priority \<longleftrightarrow> class = DataSend \<and> priority \<noteq> Critical"

lemma entry_ok_fresh_id:
  assumes "entry_ok n e" "sl \<in> set (be_data_slots e)"
  shows "ds_slot_id sl \<noteq> n"
  using assms by (auto simp: entry_ok_def)

lemma lane_ok_take:
  assumes "lane_ok n (Some e) S C" "\<not> lane_exhausted class priority local_origin e" "0 < n" "n < u64_max"
    and "take_lane class priority local_origin n e = (sid, n', e')"
    and "h = (\<lparr>op_peer = peer, op_class = class, op_slot_id = sid, op_critical = cr\<rparr>, priority, local_origin)"
  shows "lane_ok n' (Some e') (if takes_slot class priority then add_mset h S else S)
    (if class = ControlSend then add_mset h C else C)" "n \<le> n'" "n' \<le> u64_max"
    "class = DataSend \<Longrightarrow> priority = Critical \<Longrightarrow> sid = 0"
proof -
  have ok: "entry_ok n e" using assms(1) by simp
  have fresh: "n \<notin> ds_slot_id ` set (be_data_slots e)" using entry_ok_fresh_id [OF ok] by auto
  have n1: "u64_add n 1 = n + 1" using assms(4) by simp
  have "entry_ok n' e' \<and> n \<le> n' \<and> n' \<le> u64_max \<and> (class = DataSend \<longrightarrow> priority = Critical \<longrightarrow> sid = 0)"
    using assms(2-5) ok fresh entry_ok_mono [OF ok, of "n + 1"]
    by (cases "class"; cases "priority = Critical"; cases local_origin)
      (auto simp: take_lane_def lane_exhausted_def entry_ok_def n1 permit_limits less_Suc_eq not_less_eq_eq)
  then show "n \<le> n'" "n' \<le> u64_max" "class = DataSend \<Longrightarrow> priority = Critical \<Longrightarrow> sid = 0"
    and "lane_ok n' (Some e') (if takes_slot class priority then add_mset h S else S)
      (if class = ControlSend then add_mset h C else C)"
    using assms(1,5,6)
    by (cases "class"; cases "priority = Critical"; cases local_origin;
        auto simp: take_lane_def takes_slot_def slot_tag_def held_tag_def)+
qed

lemma remove_slot_Some:
  "remove_slot sid slots = Some (sl, rest) \<Longrightarrow>
     ds_slot_id sl = sid \<and> sl \<in> set slots \<and> mset slots = add_mset sl (mset rest)"
  by (induction slots arbitrary: sl rest) (auto split: if_splits)

lemma remove_slot_None: "remove_slot sid slots = None \<longleftrightarrow> sid \<notin> ds_slot_id ` set slots"
  by (induction slots) auto

lemma distinct_mset_map: "mset xs = mset ys \<Longrightarrow> distinct (map f xs) = distinct (map f ys)"
  by (metis mset_eq_imp_distinct_iff mset_map)

lemma length_filter_mset: "length (filter P xs) = size (filter_mset P (mset xs))"
  by (metis mset_filter size_mset)

lemma lane_ok_release_slot:
  assumes "lane_ok n (Some e) S C" "h \<in># S"
  shows "lane_ok n (Some (release_entry DataSend (op_slot_id (fst h)) e)) (S - {#h#}) C"
proof -
  have ok: "entry_ok n e" and tags: "mset (map slot_tag (be_data_slots e)) = image_mset held_tag S"
    using assms(1) by simp_all
  have "held_tag h \<in># mset (map slot_tag (be_data_slots e))" using assms(2) by (simp add: tags del: mset_map)
  then obtain sl0 where sl0: "sl0 \<in> set (be_data_slots e)" "slot_tag sl0 = held_tag h" by auto
  then have "ds_slot_id sl0 = op_slot_id (fst h)" by (simp add: slot_tag_def held_tag_def)
  then have "op_slot_id (fst h) \<in> ds_slot_id ` set (be_data_slots e)" using sl0(1) by (metis imageI)
  then obtain sl rest where rm: "remove_slot (op_slot_id (fst h)) (be_data_slots e) = Some (sl, rest)"
    using remove_slot_None [of "op_slot_id (fst h)" "be_data_slots e"] by fastforce
  note rs = remove_slot_Some [OF rm]
  have dist: "distinct (map ds_slot_id (sl # rest))"
    using ok distinct_mset_map [of "be_data_slots e" "sl # rest" ds_slot_id] rs by (simp add: entry_ok_def)
  have set_eq: "set (be_data_slots e) = insert sl (set rest)" using rs by (metis mset.simps(2) set_mset_mset list.simps(15))
  have "ds_slot_id sl0 = ds_slot_id sl" using sl0 rs by (simp add: slot_tag_def held_tag_def)
  moreover have "ds_slot_id sl \<notin> ds_slot_id ` set rest" using dist by simp
  ultimately have "sl0 \<notin> set rest" by (metis imageI)
  then have "sl0 = sl" using sl0(1) set_eq by auto
  then have tag: "slot_tag sl = held_tag h" using sl0 by simp
  have mrest: "image_mset slot_tag (mset rest) = image_mset held_tag (S - {#h#})"
  proof -
    have "add_mset (held_tag h) (image_mset slot_tag (mset rest)) = image_mset held_tag S"
      using tags rs tag by simp
    then show ?thesis using multi_member_split [OF assms(2)] by auto
  qed
  have len: "length (filter P (be_data_slots e)) = length (filter P (sl # rest))" for P
    using rs by (metis length_filter_mset mset.simps(2))
  have "entry_ok n (release_entry DataSend (op_slot_id (fst h)) e)"
    using ok dist set_eq len [of ds_local_origin] len [of "\<lambda>sl. \<not> ds_local_origin sl"]
    by (auto simp: release_entry_def rm entry_ok_def Let_def split: if_splits)
  then show ?thesis using mrest assms(1) by (simp add: release_entry_def rm Let_def)
qed

lemma lane_ok_release_other:
  assumes "lane_ok n (Some e) S C"
  shows "h \<in># C \<Longrightarrow> lane_ok n (Some (release_entry ControlSend sid e)) S (C - {#h#})"
    and "lane_ok n (Some (release_entry DataSend 0 e)) S C"
proof -
  show "h \<in># C \<Longrightarrow> lane_ok n (Some (release_entry ControlSend sid e)) S (C - {#h#})"
    using assms by (auto simp: release_entry_def entry_ok_def size_Diff_singleton)
  have "remove_slot 0 (be_data_slots e) = None" using assms by (auto simp: remove_slot_None entry_ok_def)
  then show "lane_ok n (Some (release_entry DataSend 0 e)) S C" using assms by (simp add: release_entry_def)
qed

lemma gate_ok_default: "gate_ok (g p) queued engaged \<Longrightarrow> gate_ok (Some (get_or slot_new g p)) queued engaged"
  by (cases "g p") (auto simp: get_or_def slot_new_def permit_limits)

lemma gate_ok_reap:
  "gate_ok (gate q) queued engaged \<Longrightarrow> gate_ok (map_retain (\<lambda>_ slot. cs_refs slot > 0) gate q) queued engaged"
  by (cases "gate q") (auto simp: map_retain_def)

lemma gate_ok_reserve:
  assumes "gate_ok (gate q) queued engaged" "try_reserve peer gate = (reserved, gate')"
  shows "gate_ok (gate' q) (if reserved \<and> q = peer then Suc queued else queued) engaged"
proof -
  define g where "g = map_retain (\<lambda>_ slot. cs_refs slot > 0) gate"
  have keep: "gate_ok (g q) queued engaged" unfolding g_def using assms(1) by (rule gate_ok_reap)
  have slot: "q = peer \<Longrightarrow> gate_ok (Some (get_or slot_new g peer)) queued engaged"
    using gate_ok_default [of g peer] keep by simp
  show ?thesis
    using assms(2) keep slot unfolding try_reserve_def g_def [symmetric]
    by (auto simp: Let_def permit_limits get_or_def split: if_splits)
qed

lemma try_reserve_refused:
  assumes "gate_ok (gate peer) queued engaged"
  shows "fst (try_reserve peer gate) \<longleftrightarrow> queued < 64"
proof -
  define g where "g = map_retain (\<lambda>_ slot. cs_refs slot > 0) gate"
  have "gate_ok (Some (get_or slot_new g peer)) queued engaged"
    unfolding g_def using assms gate_ok_reap [of gate peer] by (intro gate_ok_default) blast
  then show ?thesis unfolding try_reserve_def g_def [symmetric]
    by (auto simp: Let_def permit_limits get_or_def)
qed

lemma gate_ok_drop:
  assumes "gate_ok (gate q) queued engaged"
  shows "engaged < queued \<Longrightarrow> gate_ok (drop_reservation peer gate q) (if q = peer then queued - 1 else queued) engaged"
    and "0 < engaged \<Longrightarrow> gate_ok (drop_hold peer gate q) (if q = peer then queued - 1 else queued)
           (if q = peer then engaged - 1 else engaged)"
    and "engage peer gate = Some gate' \<Longrightarrow> engaged < queued \<Longrightarrow> gate_ok (gate' q) queued (if q = peer then Suc engaged else engaged)"
  using assms by (cases "gate peer"; auto simp: drop_reservation_def drop_hold_def engage_def split: if_splits)+

lemma budget_okI:
  assumes "0 < ob_next_slot_id b" "ob_next_slot_id b \<le> u64_max" "\<And>h. h \<in># hs \<Longrightarrow> held_ok h"
    "\<And>peer. lane_ok (ob_next_slot_id b) (ob_peers b peer) (filter_mset (on_slot peer) hs) (filter_mset (on_control peer) hs)"
    "\<And>peer. gate_ok (ob_gate b peer) (size (filter_mset (on_gate peer) hs)) (size (filter_mset (holds_gate peer) hs))"
  shows "budget_ok (b, hs)"
  using assms by (simp add: budget_ok_def)

lemma budget_okD:
  assumes "budget_ok (b, hs)"
  shows "0 < ob_next_slot_id b" "ob_next_slot_id b \<le> u64_max" "h \<in># hs \<Longrightarrow> held_ok h"
    "lane_ok (ob_next_slot_id b) (ob_peers b peer) (filter_mset (on_slot peer) hs) (filter_mset (on_control peer) hs)"
    "gate_ok (ob_gate b peer) (size (filter_mset (on_gate peer) hs)) (size (filter_mset (holds_gate peer) hs))"
  using assms by (auto simp: budget_ok_def)

lemmas held_preds = on_slot_def on_control_def on_gate_def holds_gate_def

lemma acquire_lane_reaped:
  "acquire_lane peer class priority local_origin critical now b =
     (let peers = reaped peer now (ob_peers b); entry = get_or (entry_new now) peers peer
      in if lane_exhausted class priority local_origin entry
         then (None, b\<lparr>ob_peers := peers(peer \<mapsto> entry\<lparr>be_last_used := now\<rparr>)\<rparr>)
         else let (slot_id, next_slot, entry1) = take_lane class priority local_origin (ob_next_slot_id b) entry
              in (Some \<lparr>op_peer = peer, op_class = class, op_slot_id = slot_id, op_critical = critical\<rparr>,
                  b\<lparr>ob_peers := peers(peer \<mapsto> entry1\<lparr>be_last_used := now\<rparr>), ob_next_slot_id := next_slot\<rparr>))"
  unfolding acquire_lane_def reaped_def ..

lemma acquire_lane_refused:
  assumes "acquire_lane peer class priority local_origin critical now b = (None, b')"
    "\<And>q. lane_ok (ob_next_slot_id b) (ob_peers b q) (S q) (C q)"
  shows "lane_ok (ob_next_slot_id b') (ob_peers b' q) (S q) (C q)" "ob_gate b' = ob_gate b" "ob_next_slot_id b' = ob_next_slot_id b"
proof -
  have r: "lane_ok (ob_next_slot_id b) (reaped peer now (ob_peers b) q) (S q) (C q)" for q
    using lane_ok_reaped assms(2) by blast
  have "b' = b\<lparr>ob_peers := (reaped peer now (ob_peers b))(peer \<mapsto>
      (get_or (entry_new now) (reaped peer now (ob_peers b)) peer)\<lparr>be_last_used := now\<rparr>)\<rparr>"
    using assms(1) by (simp add: acquire_lane_reaped Let_def case_prod_beta split: if_splits)
  then show "lane_ok (ob_next_slot_id b') (ob_peers b' q) (S q) (C q)" "ob_gate b' = ob_gate b" "ob_next_slot_id b' = ob_next_slot_id b"
    using r [of peer] r [of q] reaped_present [of peer now "ob_peers b"] by auto
qed

lemma acquire_lane_granted:
  assumes "acquire_lane peer class priority local_origin critical now b = (Some p, b')"
    "\<And>q. lane_ok (ob_next_slot_id b) (ob_peers b q) (S q) (C q)" "0 < ob_next_slot_id b" "ob_next_slot_id b < u64_max"
  shows "lane_ok (ob_next_slot_id b') (ob_peers b' q)
      (if q = peer \<and> takes_slot class priority then add_mset (p, priority, local_origin) (S q) else S q)
      (if q = peer \<and> class = ControlSend then add_mset (p, priority, local_origin) (C q) else C q)"
    "ob_gate b' = ob_gate b" "ob_next_slot_id b \<le> ob_next_slot_id b'" "ob_next_slot_id b' \<le> u64_max"
    "op_peer p = peer" "op_class p = class" "op_critical p = critical"
    "class = DataSend \<Longrightarrow> priority = Critical \<Longrightarrow> op_slot_id p = 0"
proof -
  let ?m = "reaped peer now (ob_peers b)"
  let ?e = "get_or (entry_new now) ?m peer"
  have r: "lane_ok (ob_next_slot_id b) (?m q) (S q) (C q)" for q
    using lane_ok_reaped assms(2) by blast
  obtain sid n' e' where t: "take_lane class priority local_origin (ob_next_slot_id b) ?e = (sid, n', e')"
    by (metis prod_cases3)
  have ex: "\<not> lane_exhausted class priority local_origin ?e"
    using assms(1) by (auto simp: acquire_lane_reaped Let_def split: if_splits)
  have p: "p = \<lparr>op_peer = peer, op_class = class, op_slot_id = sid, op_critical = critical\<rparr>"
    and b': "b' = b\<lparr>ob_peers := ?m(peer \<mapsto> e'\<lparr>be_last_used := now\<rparr>), ob_next_slot_id := n'\<rparr>"
    using assms(1) ex t by (simp_all add: acquire_lane_reaped Let_def)
  have "lane_ok (ob_next_slot_id b) (Some ?e) (S peer) (C peer)"
    using r [of peer] reaped_present [of peer now "ob_peers b"] by simp
  note T = lane_ok_take [OF this ex assms(3,4) t, of "(p, priority, local_origin)" peer critical]
  have tk: "lane_ok n' (Some e') (if takes_slot class priority then add_mset (p, priority, local_origin) (S peer) else S peer)
      (if class = ControlSend then add_mset (p, priority, local_origin) (C peer) else C peer)"
    "ob_next_slot_id b \<le> n'" "n' \<le> u64_max" "class = DataSend \<Longrightarrow> priority = Critical \<Longrightarrow> sid = 0"
    using T p by auto
  show "lane_ok (ob_next_slot_id b') (ob_peers b' q)
      (if q = peer \<and> takes_slot class priority then add_mset (p, priority, local_origin) (S q) else S q)
      (if q = peer \<and> class = ControlSend then add_mset (p, priority, local_origin) (C q) else C q)"
    using tk(1) lane_ok_mono [OF r [of q] tk(2)] unfolding b' by simp
  show "ob_gate b' = ob_gate b" "ob_next_slot_id b \<le> ob_next_slot_id b'" "ob_next_slot_id b' \<le> u64_max"
    "op_peer p = peer" "op_class p = class" "op_critical p = critical"
    "class = DataSend \<Longrightarrow> priority = Critical \<Longrightarrow> op_slot_id p = 0"
    using tk(2-4) by (auto simp: b' p)
qed

lemma budget_ok_acquire:
  assumes "budget_ok (b, hs)" "try_acquire_for_origin peer class priority local_origin now b = (Some p, b')"
    "ob_next_slot_id b < u64_max"
  shows "budget_ok (b', add_mset (p, priority, local_origin) hs)"
proof -
  note ok = budget_okD [OF assms(1)]
  define cr where "cr = (if class = DataSend \<and> priority = Critical then Reserved else NoGate)"
  obtain b1 where b1: "acquire_lane peer class priority local_origin cr now b1 = (Some p, b')"
      "ob_next_slot_id b1 = ob_next_slot_id b" "ob_peers b1 = ob_peers b"
      "\<And>q. gate_ok (ob_gate b1 q) (if cr = Reserved \<and> q = peer then Suc (size (filter_mset (on_gate q) hs))
             else size (filter_mset (on_gate q) hs)) (size (filter_mset (holds_gate q) hs))"
  proof (cases "class = DataSend \<and> priority = Critical")
    case True
    obtain reserved gate where tr: "try_reserve peer (ob_gate b) = (reserved, gate)" by (cases "try_reserve peer (ob_gate b)")
    have "reserved" and "acquire_lane peer class priority local_origin Reserved now (b\<lparr>ob_gate := gate\<rparr>) = (Some p, b')"
      using assms(2) tr True by (auto simp: try_acquire_for_origin_def Let_def split: if_splits)
    then show thesis using that [of "b\<lparr>ob_gate := gate\<rparr>"] gate_ok_reserve [OF ok(5) tr] True
      by (simp add: cr_def)
  next
    case False
    then show thesis using that [of b] assms(2) ok(5) by (simp add: try_acquire_for_origin_def cr_def split: if_splits)
  qed
  note G = acquire_lane_granted [OF b1(1), of "\<lambda>q. filter_mset (on_slot q) hs" "\<lambda>q. filter_mset (on_control q) hs",
      unfolded b1(2,3), OF ok(4) ok(1) assms(3)]
  show ?thesis
  proof (rule budget_okI)
    show "0 < ob_next_slot_id b'" "ob_next_slot_id b' \<le> u64_max" using G(3,4) ok(1) by auto
    show "held_ok h" if "h \<in># add_mset (p, priority, local_origin) hs" for h
    proof (cases "h = (p, priority, local_origin)")
      case True
      then show ?thesis using G(6-8) by (auto simp: held_ok_def cr_def split: if_splits)
    qed (use that ok(3) in auto)
    show "lane_ok (ob_next_slot_id b') (ob_peers b' q) (filter_mset (on_slot q) (add_mset (p, priority, local_origin) hs))
        (filter_mset (on_control q) (add_mset (p, priority, local_origin) hs))" for q
      using G(1) [of q] G(5,6) by (simp add: on_slot_def on_control_def takes_slot_def eq_commute [of q] conj_commute)
    show "gate_ok (ob_gate b' q) (size (filter_mset (on_gate q) (add_mset (p, priority, local_origin) hs)))
        (size (filter_mset (holds_gate q) (add_mset (p, priority, local_origin) hs)))" for q
      using b1(4) [of q] G(2,5,7) by (auto simp: on_gate_def holds_gate_def cr_def split: if_splits)
  qed
qed

lemma budget_ok_refuse:
  assumes "budget_ok (b, hs)" "try_acquire_for_origin peer class priority local_origin now b = (None, b')"
  shows "budget_ok (b', hs)"
proof -
  note ok = budget_okD [OF assms(1)]
  obtain reserved gate where tr: "try_reserve peer (ob_gate b) = (reserved, gate)" by (cases "try_reserve peer (ob_gate b)")
  show ?thesis
  proof (cases "class = DataSend \<and> priority = Critical")
    case True
    have "\<not> lane_exhausted class priority local_origin e" for e using True by (simp add: lane_exhausted_def)
    then have "\<not> reserved" "b' = b\<lparr>ob_gate := gate\<rparr>"
      using assms(2) tr True by (auto simp: try_acquire_for_origin_def acquire_lane_def Let_def split: if_splits prod.splits)
    then show ?thesis using ok gate_ok_reserve [OF ok(5) tr] by (intro budget_okI) auto
  next
    case False
    then have "acquire_lane peer class priority local_origin NoGate now b = (None, b')"
      using assms(2) by (auto simp: try_acquire_for_origin_def)
    note R = acquire_lane_refused [OF this, of "\<lambda>q. filter_mset (on_slot q) hs" "\<lambda>q. filter_mset (on_control q) hs", OF ok(4)]
    show ?thesis using ok R by (intro budget_okI) auto
  qed
qed

lemma filter_less:
  assumes "x \<in># A" "P x" "\<not> Q x" "\<And>y. Q y \<Longrightarrow> P y"
  shows "size (filter_mset Q A) < size (filter_mset P A)"
proof -
  have "filter_mset Q A = filter_mset Q (filter_mset P A)" using assms(4) by (auto simp: filter_filter_mset intro: filter_mset_cong)
  moreover have "x \<in># filter_mset P A" using assms by simp
  ultimately show ?thesis using assms(3) size_filter_unsat_elem by metis
qed

lemma filter_replace:
  assumes "x \<in># A" "P x = P y"
  shows "size (filter_mset P (add_mset y (A - {#x#}))) = size (filter_mset P A)"
  using multi_member_split [OF assms(1)] assms(2) by auto

lemma size_filter_remove:
  assumes "x \<in># A"
  shows "size (filter_mset P (A - {#x#})) = (if P x then size (filter_mset P A) - 1 else size (filter_mset P A))"
  using multi_member_split [OF assms] by auto

lemma filter_remove:
  assumes "x \<in># A"
  shows "filter_mset P (A - {#x#}) = (if P x then filter_mset P A - {#x#} else filter_mset P A)"
  using multi_member_split [OF assms] by auto

lemma gate_queued:
  assumes "(p, x) \<in># hs" "op_critical p = Reserved"
  shows "size (filter_mset (holds_gate (op_peer p)) hs) < size (filter_mset (on_gate (op_peer p)) hs)"
  using filter_less [OF assms(1), of "on_gate (op_peer p)" "holds_gate (op_peer p)"] assms(2)
  by (auto simp: on_gate_def holds_gate_def)

lemma gate_held:
  assumes "(p, x) \<in># hs" "op_critical p = Engaged"
  shows "0 < size (filter_mset (holds_gate (op_peer p)) hs)"
  using assms multi_member_split [OF assms(1)] by (auto simp: holds_gate_def)

lemma budget_ok_gate:
  assumes "budget_ok (b, hs)" "h \<in># hs" "on_slot q h' = on_slot q h" "on_control q h' = on_control q h" "held_ok h'"
    and "held_tag h' = held_tag h"
  shows "lane_ok (ob_next_slot_id b) (ob_peers b q) (filter_mset (on_slot q) (add_mset h' (hs - {#h#})))
    (filter_mset (on_control q) (add_mset h' (hs - {#h#})))"
proof -
  obtain A where A: "hs = add_mset h A" using multi_member_split [OF assms(2)] by blast
  show ?thesis using budget_okD(4) [OF assms(1), of q] assms(3,4,6) unfolding A
    by (cases "ob_peers b q") (auto split: if_splits)
qed

lemma budget_ok_engage:
  assumes "budget_ok (b, hs)" "(p, x) \<in># hs" "engage_critical_gate timed_out p b = Some (granted, p', b')"
  shows "budget_ok (b', add_mset (p', x) (hs - {#(p, x)#}))"
proof (cases "op_critical p = Reserved")
  case False
  then show ?thesis using assms by (simp add: engage_critical_gate_def)
next
  case True
  note ok = budget_okD [OF assms(1)]
  note hp = ok(3) [OF assms(2)]
  have lane: "op_slot_id p' = op_slot_id p" "op_peer p' = op_peer p" "op_class p' = op_class p"
    "ob_peers b' = ob_peers b" "ob_next_slot_id b' = ob_next_slot_id b" "op_critical p' \<noteq> Reserved"
    using assms(3) True by (auto simp: engage_critical_gate_def split: option.splits if_splits)
  have ok': "held_ok (p', x)" using hp lane True by (auto simp: held_ok_def)
  obtain A where A: "hs = add_mset (p, x) A" using multi_member_split [OF assms(2)] by blast
  have gate: "gate_ok (ob_gate b' q) (size (filter_mset (on_gate q) (add_mset (p', x) (hs - {#(p, x)#}))))
      (size (filter_mset (holds_gate q) (add_mset (p', x) (hs - {#(p, x)#}))))" for q
  proof -
    have less: "size (filter_mset (holds_gate (op_peer p)) hs) < size (filter_mset (on_gate (op_peer p)) hs)"
      by (rule gate_queued [OF assms(2) True])
    have pq: "on_gate q (p, x) = (q = op_peer p)" "\<not> holds_gate q (p, x)"
      "on_gate q (p', x) = (q = op_peer p \<and> op_critical p' \<noteq> NoGate)"
      "holds_gate q (p', x) = (q = op_peer p \<and> op_critical p' = Engaged)"
      using True lane(2) by (auto simp: on_gate_def holds_gate_def)
    consider (grant) gate where "engage (op_peer p) (ob_gate b) = Some gate" "op_critical p' = Engaged" "ob_gate b' = gate"
      | (timeout) "op_critical p' = NoGate" "ob_gate b' = drop_reservation (op_peer p) (ob_gate b)"
      using assms(3) True by (auto simp: engage_critical_gate_def split: option.splits if_splits)
    then show ?thesis
    proof cases
      case grant
      then show ?thesis using gate_ok_drop(3) [OF ok(5) [of q] grant(1)] less pq ok(5) [of q] unfolding A
        by (cases "q = op_peer p") (auto simp: engage_def split: option.splits if_splits)
    next
      case timeout
      then show ?thesis using gate_ok_drop(1) [where gate = "ob_gate b" and q = q and peer = "op_peer p", OF ok(5) [of q]] less pq ok(5) [of q] unfolding A
        by (cases "q = op_peer p") (auto simp: drop_reservation_def split: option.splits)
    qed
  qed
  show ?thesis
  proof (rule budget_okI)
    show "0 < ob_next_slot_id b'" "ob_next_slot_id b' \<le> u64_max" using ok(1,2) lane by auto
    show "held_ok h" if "h \<in># add_mset (p', x) (hs - {#(p, x)#})" for h
      using that ok' ok(3) by (metis in_diffD insert_iff set_mset_add_mset_insert)
    show "lane_ok (ob_next_slot_id b') (ob_peers b' q) (filter_mset (on_slot q) (add_mset (p', x) (hs - {#(p, x)#})))
        (filter_mset (on_control q) (add_mset (p', x) (hs - {#(p, x)#})))" for q
      using budget_ok_gate [OF assms(1,2) _ _ ok', of q] lane by (simp add: on_slot_def on_control_def held_tag_def)
    show "gate_ok (ob_gate b' q) (size (filter_mset (on_gate q) (add_mset (p', x) (hs - {#(p, x)#}))))
        (size (filter_mset (holds_gate q) (add_mset (p', x) (hs - {#(p, x)#}))))" for q by (rule gate)
  qed
qed

lemma budget_ok_drop:
  assumes "budget_ok (b, hs)" "(p, x) \<in># hs"
  shows "budget_ok (drop_permit p now b, hs - {#(p, x)#})"
proof -
  note ok = budget_okD [OF assms(1)]
  note hp = ok(3) [OF assms(2)]
  let ?b = "release (op_peer p) (op_class p) (op_slot_id p) now b"
  let ?b' = "drop_permit p now b"
  have fields: "ob_next_slot_id ?b' = ob_next_slot_id b" "ob_peers ?b' = ob_peers ?b" "ob_gate ?b = ob_gate b"
    by (auto simp: drop_permit_def release_def Let_def split: CriticalPermitState.split option.split)
  have lane: "lane_ok (ob_next_slot_id b) (ob_peers ?b q) (filter_mset (on_slot q) (hs - {#(p, x)#}))
      (filter_mset (on_control q) (hs - {#(p, x)#}))" for q
  proof (cases "q = op_peer p")
    case False
    then have "ob_peers ?b q = ob_peers b q" by (auto simp: release_def split: option.split)
    then show ?thesis using ok(4) [of q] False filter_remove [OF assms(2), of "on_slot q"] filter_remove [OF assms(2), of "on_control q"]
      by (simp add: on_slot_def on_control_def)
  next
    case True
    show ?thesis
    proof (cases "ob_peers b q")
      case None
      have e: "filter_mset (on_slot q) hs = {#}" "filter_mset (on_control q) hs = {#}"
        using ok(4) [of q] by (simp_all only: None lane_ok.simps)
      have "ob_peers ?b q = None" using None True by (simp add: release_def)
      then show ?thesis unfolding filter_remove [OF assms(2)] e by simp
    next
      case (Some e)
      note le = ok(4) [of q, unfolded Some]
      have "lane_ok (ob_next_slot_id b) (Some (release_entry (op_class p) (op_slot_id p) e))
          (filter_mset (on_slot q) (hs - {#(p, x)#})) (filter_mset (on_control q) (hs - {#(p, x)#}))"
      proof (cases "op_class p")
        case ControlSend
        then have "(p, x) \<in># filter_mset (on_control q) hs" "\<not> on_slot q (p, x)" using assms(2) True by (simp_all add: on_control_def on_slot_def)
        then show ?thesis using lane_ok_release_other(1) [OF le, of "(p, x)" "op_slot_id p"] ControlSend
          by (simp add: filter_remove [OF assms(2)])
      next
        case DataSend
        then have nc: "\<not> on_control q (p, x)" by (simp add: on_control_def)
        show ?thesis
        proof (cases "fst x = Critical")
          case True
          then have "op_slot_id p = 0" "\<not> on_slot q (p, x)" using hp DataSend by (auto simp: held_ok_def on_slot_def)
          then show ?thesis using lane_ok_release_other(2) [OF le] DataSend nc by (simp add: filter_remove [OF assms(2)])
        next
          case False
          then have "(p, x) \<in># filter_mset (on_slot q) hs" using assms(2) \<open>q = op_peer p\<close> DataSend by (simp add: on_slot_def)
          then show ?thesis using lane_ok_release_slot [OF le] DataSend nc by (fastforce simp: filter_remove [OF assms(2)])
        qed
      qed
      then show ?thesis using Some True by (simp add: release_def)
    qed
  qed
  have gate: "gate_ok (ob_gate ?b' q) (size (filter_mset (on_gate q) (hs - {#(p, x)#})))
      (size (filter_mset (holds_gate q) (hs - {#(p, x)#})))" for q
  proof -
    have rm: "size (filter_mset (on_gate q) (hs - {#(p, x)#})) =
        (if q = op_peer p \<and> op_critical p \<noteq> NoGate then size (filter_mset (on_gate q) hs) - 1 else size (filter_mset (on_gate q) hs))"
      "size (filter_mset (holds_gate q) (hs - {#(p, x)#})) =
        (if q = op_peer p \<and> op_critical p = Engaged then size (filter_mset (holds_gate q) hs) - 1 else size (filter_mset (holds_gate q) hs))"
      unfolding size_filter_remove [OF assms(2)] by (auto simp: on_gate_def holds_gate_def)
    note g = ok(5) [of q]
    show ?thesis
    proof (cases "op_critical p")
      case NoGate
      then show ?thesis using g rm fields(3) by (simp add: drop_permit_def)
    next
      case Reserved
      then show ?thesis using g rm fields(3) gate_queued [OF assms(2) Reserved]
          gate_ok_drop(1) [where gate = "ob_gate b" and q = q and peer = "op_peer p", OF g]
        by (cases "q = op_peer p") (auto simp: drop_permit_def drop_reservation_def Let_def split: option.splits)
    next
      case Engaged
      then show ?thesis using g rm fields(3) gate_held [OF assms(2) Engaged]
          gate_ok_drop(2) [where gate = "ob_gate b" and q = q and peer = "op_peer p", OF g]
        by (cases "q = op_peer p") (auto simp: drop_permit_def drop_hold_def Let_def split: option.splits)
    qed
  qed
  have "held_ok h" if "h \<in># hs - {#(p, x)#}" for h using ok(3) in_diffD [OF that] by blast
  then show ?thesis using ok(1,2) lane gate fields by (intro budget_okI) simp_all
qed

lemma budget_ok_step:
  assumes "budget_step s s'" "budget_ok s"
  shows "budget_ok s'"
  using assms by (induction rule: budget_step.induct)
    (auto intro: budget_ok_acquire budget_ok_refuse budget_ok_engage budget_ok_drop)

lemma budget_ok_new: "0 < n \<Longrightarrow> n \<le> u64_max \<Longrightarrow> budget_ok (budgets_new n, {#})"
  by (intro budget_okI) (auto simp: budgets_new_def)

lemma budget_ok_steps:
  assumes "budget_step\<^sup>*\<^sup>* (budgets_new n, {#}) s" "0 < n" "n \<le> u64_max"
  shows "budget_ok s"
  using assms(1) by (induction rule: rtranclp_induct) (auto intro: budget_ok_new assms(2,3) budget_ok_step)

subsection \<open>Lanes and live permits\<close>

definition live_local :: "PeerId \<Rightarrow> held multiset \<Rightarrow> nat" where
  "live_local peer hs = size (filter_mset (\<lambda>h. on_slot peer h \<and> snd (snd h)) hs)"

definition live_relay :: "PeerId \<Rightarrow> held multiset \<Rightarrow> nat" where
  "live_relay peer hs = size (filter_mset (\<lambda>h. on_slot peer h \<and> \<not> snd (snd h)) hs)"

definition live_control :: "PeerId \<Rightarrow> held multiset \<Rightarrow> nat" where
  "live_control peer hs = size (filter_mset (on_control peer) hs)"

definition live_critical :: "PeerId \<Rightarrow> held multiset \<Rightarrow> nat" where
  "live_critical peer hs = size (filter_mset (on_gate peer) hs)"

lemma tagged_count:
  assumes "mset (map slot_tag slots) = image_mset held_tag S"
  shows "length (filter (\<lambda>sl. P (ds_local_origin sl)) slots) = size (filter_mset (\<lambda>h. P (snd (snd h))) S)"
proof -
  have "length (filter (\<lambda>sl. P (ds_local_origin sl)) slots) =
      size (filter_mset (\<lambda>t. P (snd (snd t))) (mset (map slot_tag slots)))"
    by (simp add: length_filter_mset filter_mset_image_mset slot_tag_def)
  also have "\<dots> = size (filter_mset (\<lambda>h. P (snd (snd h))) S)"
    unfolding assms by (simp add: filter_mset_image_mset held_tag_def)
  finally show ?thesis .
qed

lemma lane_counts:
  assumes "budget_ok (b, hs)"
  shows "(case ob_peers b peer of None \<Rightarrow> 0 | Some e \<Rightarrow> be_local_data_in_flight e) = live_local peer hs"
    "(case ob_peers b peer of None \<Rightarrow> 0 | Some e \<Rightarrow> be_best_effort_data_in_flight e) = live_relay peer hs"
    "(case ob_peers b peer of None \<Rightarrow> 0 | Some e \<Rightarrow> be_control_in_flight e) = live_control peer hs"
    "live_local peer hs \<le> 1" "live_relay peer hs \<le> 1" "live_control peer hs \<le> 2"
proof -
  note ok = budget_okD(4) [OF assms, of peer]
  have split: "live_local peer hs = size (filter_mset (\<lambda>h. snd (snd h)) (filter_mset (on_slot peer) hs))"
    "live_relay peer hs = size (filter_mset (\<lambda>h. \<not> snd (snd h)) (filter_mset (on_slot peer) hs))"
    by (simp_all add: live_local_def live_relay_def filter_filter_mset conj_commute)
  have "(case ob_peers b peer of None \<Rightarrow> 0 | Some e \<Rightarrow> be_local_data_in_flight e) = live_local peer hs \<and>
      (case ob_peers b peer of None \<Rightarrow> 0 | Some e \<Rightarrow> be_best_effort_data_in_flight e) = live_relay peer hs \<and>
      (case ob_peers b peer of None \<Rightarrow> 0 | Some e \<Rightarrow> be_control_in_flight e) = live_control peer hs \<and>
      live_local peer hs \<le> 1 \<and> live_relay peer hs \<le> 1 \<and> live_control peer hs \<le> 2"
  proof (cases "ob_peers b peer")
    case None
    have e: "filter_mset (on_slot peer) hs = {#}" "filter_mset (on_control peer) hs = {#}"
      using ok by (simp_all only: None lane_ok.simps)
    show ?thesis unfolding split live_control_def None e by simp
  next
    case (Some e)
    have e: "entry_ok (ob_next_slot_id b) e"
      "mset (map slot_tag (be_data_slots e)) = image_mset held_tag (filter_mset (on_slot peer) hs)"
      "be_control_in_flight e = live_control peer hs"
      using ok unfolding Some live_control_def by auto
    then show ?thesis using tagged_count [OF e(2), of "\<lambda>x. x"] tagged_count [OF e(2), of Not] unfolding split Some
      by (auto simp: entry_ok_def)
  qed
  then show "(case ob_peers b peer of None \<Rightarrow> 0 | Some e \<Rightarrow> be_local_data_in_flight e) = live_local peer hs"
    "(case ob_peers b peer of None \<Rightarrow> 0 | Some e \<Rightarrow> be_best_effort_data_in_flight e) = live_relay peer hs"
    "(case ob_peers b peer of None \<Rightarrow> 0 | Some e \<Rightarrow> be_control_in_flight e) = live_control peer hs"
    "live_local peer hs \<le> 1" "live_relay peer hs \<le> 1" "live_control peer hs \<le> 2" by auto
qed

lemma gate_ok_bound: "gate_ok g queued engaged \<Longrightarrow> queued \<le> 64 \<and> engaged \<le> 1"
  by (cases g) auto

lemma gate_counts:
  assumes "budget_ok (b, hs)"
  shows "live_critical peer hs \<le> 64" "size (filter_mset (holds_gate peer) hs) \<le> 1"
  using gate_ok_bound [OF budget_okD(5) [OF assms, of peer]] by (simp_all only: live_critical_def)

lemma acquire_lane_decides:
  assumes "budget_ok (b, hs)" "\<not> (class = DataSend \<and> priority = Critical)"
  shows "fst (acquire_lane peer class priority local_origin cr now b) = None \<longleftrightarrow>
    (if class = ControlSend then live_control peer hs = 2
     else if local_origin then live_local peer hs = 1 else live_relay peer hs = 1)"
proof -
  have "lane_ok (ob_next_slot_id b) (reaped peer now (ob_peers b) q) (filter_mset (on_slot q) hs) (filter_mset (on_control q) hs)" for q
    using lane_ok_reaped budget_okD(4) [OF assms(1)] by blast
  then have "budget_ok (b\<lparr>ob_peers := reaped peer now (ob_peers b)\<rparr>, hs)"
    using assms(1) by (simp add: budget_ok_def)
  from lane_counts [OF this, of peer]
  have c: "be_local_data_in_flight (get_or (entry_new now) (reaped peer now (ob_peers b)) peer) = live_local peer hs"
    "be_best_effort_data_in_flight (get_or (entry_new now) (reaped peer now (ob_peers b)) peer) = live_relay peer hs"
    "be_control_in_flight (get_or (entry_new now) (reaped peer now (ob_peers b)) peer) = live_control peer hs"
    "live_local peer hs \<le> 1" "live_relay peer hs \<le> 1" "live_control peer hs \<le> 2"
    using reaped_present [of peer now "ob_peers b"] by simp_all
  show ?thesis using assms(2) c
    by (cases "class") (auto simp: acquire_lane_reaped Let_def lane_exhausted_def permit_limits split: prod.split)
qed

subsection \<open>Properties\<close>

text \<open>
  However sends acquire, wait for, lose and drop their permits, at most one relayed and one
  local data send and two control sends of a peer hold a permit, at most 64 critical sends are
  queued or in flight, and at most one of them has passed the gate. The slot ids are assumed
  not to wrap, which takes \<open>2 ^ 64\<close> sends.
\<close>

theorem outbound_permits_bounded:
  assumes "0 < n" "n \<le> u64_max" "budget_step\<^sup>*\<^sup>* (budgets_new n, {#}) (b, hs)"
  shows "live_relay peer hs \<le> OUTBOUND_BEST_EFFORT_DATA_PERMITS_PER_PEER \<and>
    live_local peer hs \<le> OUTBOUND_LOCAL_DATA_PERMITS_PER_PEER \<and>
    live_control peer hs \<le> OUTBOUND_CONTROL_PERMITS_PER_PEER \<and>
    live_critical peer hs \<le> OUTBOUND_CRITICAL_QUEUE_PER_PEER \<and>
    size (filter_mset (holds_gate peer) hs) \<le> OUTBOUND_CRITICAL_DATA_PERMITS_PER_PEER"
proof -
  have ok: "budget_ok (b, hs)" using budget_ok_steps [OF assms(3,1,2)] .
  show ?thesis using lane_counts(4-6) [OF ok, of peer] gate_counts [OF ok, of peer] by (simp add: permit_limits)
qed

definition relay_permit :: held where
  "relay_permit = (\<lparr>op_peer = PeerId [1], op_class = DataSend, op_slot_id = 1, op_critical = NoGate\<rparr>, Normal, False)"

definition relay_budgets :: PeerOutboundBudgets where
  "relay_budgets = snd (try_acquire_for_origin (PeerId [1]) DataSend Normal False 0 (budgets_new 1))"

lemma relay_run: "budget_step\<^sup>*\<^sup>* (budgets_new 1, {#}) (relay_budgets, {#relay_permit#})"
proof -
  have "try_acquire_for_origin (PeerId [1]) DataSend Normal False 0 (budgets_new 1) = (Some (fst relay_permit), relay_budgets)"
    by (simp add: relay_budgets_def relay_permit_def try_acquire_for_origin_def acquire_lane_def take_lane_def budgets_new_def
        entry_new_def lane_exhausted_def permit_limits get_or_def Let_def map_retain_def u64_max_eq)
  from budget_acquire [OF this, of "{#}"]
  show ?thesis by (intro r_into_rtranclp) (simp add: relay_permit_def budgets_new_def u64_max_eq)
qed

theorem outbound_permits_bounded_witness:
  "live_relay (PeerId [1]) {#relay_permit#} = 1 \<and> live_relay (PeerId [1]) {#relay_permit#} \<le> OUTBOUND_BEST_EFFORT_DATA_PERMITS_PER_PEER"
  using outbound_permits_bounded [OF _ _ relay_run, of "PeerId [1]"]
  by (simp add: u64_max_eq live_relay_def on_slot_def relay_permit_def permit_limits)

lemma permit_decision:
  assumes "0 < n" "n \<le> u64_max" "budget_step\<^sup>*\<^sup>* (budgets_new n, {#}) (b, hs)"
  shows "fst (try_acquire_for_origin peer class priority local_origin now b) = None \<longleftrightarrow>
      (case class of
         ControlSend \<Rightarrow> live_control peer hs = 2
       | DataSend \<Rightarrow> if priority = Critical then live_critical peer hs = 64
                     else if local_origin then live_local peer hs = 1 else live_relay peer hs = 1)"
    and "priority \<noteq> Critical \<Longrightarrow> data_lane_available b peer priority local_origin \<longleftrightarrow>
      fst (try_acquire_for_origin peer DataSend priority local_origin now b) \<noteq> None"
proof -
  have ok: "budget_ok (b, hs)" using budget_ok_steps [OF assms(3,1,2)] .
  have critical: "fst (try_acquire_for_origin peer DataSend Critical local_origin now b) = None \<longleftrightarrow> live_critical peer hs = 64"
  proof -
    obtain reserved gate where tr: "try_reserve peer (ob_gate b) = (reserved, gate)" by (cases "try_reserve peer (ob_gate b)")
    have "reserved \<longleftrightarrow> live_critical peer hs < 64"
      using try_reserve_refused [where gate = "ob_gate b" and peer = peer, OF budget_okD(5) [OF ok]] tr by (simp add: live_critical_def)
    moreover have "fst (acquire_lane peer DataSend Critical local_origin Reserved now b0) \<noteq> None" for b0
      by (simp add: acquire_lane_def lane_exhausted_def Let_def split: prod.split)
    ultimately show ?thesis using tr gate_counts(1) [OF ok, of peer] by (auto simp: try_acquire_for_origin_def Let_def)
  qed
  show decision: "fst (try_acquire_for_origin peer class priority local_origin now b) = None \<longleftrightarrow>
      (case class of
         ControlSend \<Rightarrow> live_control peer hs = 2
       | DataSend \<Rightarrow> if priority = Critical then live_critical peer hs = 64
                     else if local_origin then live_local peer hs = 1 else live_relay peer hs = 1)" for "class" priority
    using critical acquire_lane_decides [OF ok, of "class" priority peer local_origin NoGate now]
    by (cases "class") (auto simp: try_acquire_for_origin_def)
  show "priority \<noteq> Critical \<Longrightarrow> data_lane_available b peer priority local_origin \<longleftrightarrow>
      fst (try_acquire_for_origin peer DataSend priority local_origin now b) \<noteq> None"
    using decision [of DataSend priority] lane_counts [OF ok, of peer]
    by (auto simp: data_lane_available_def permit_limits split: option.splits)
qed

text \<open>
  In every reachable state the answer of \<open>try_acquire_for_origin\<close> depends on the live permits
  of its own lane only: critical data is refused exactly when 64 critical sends are queued, control
  when two are in flight, and other data when the one permit of its origin is taken. So relayed
  traffic never takes the permit of a local publish, no permit leaks from a send that was dropped,
  and \<open>data_lane_available\<close> foretells the answer for data that is not critical.
\<close>

theorem permit_decision_exact:
  assumes "0 < n" "n \<le> u64_max" "budget_step\<^sup>*\<^sup>* (budgets_new n, {#}) (b, hs)"
  shows "(fst (try_acquire_for_origin peer class priority local_origin now b) = None \<longleftrightarrow>
      (case class of
         ControlSend \<Rightarrow> live_control peer hs = 2
       | DataSend \<Rightarrow> if priority = Critical then live_critical peer hs = 64
                     else if local_origin then live_local peer hs = 1 else live_relay peer hs = 1)) \<and>
    (priority \<noteq> Critical \<longrightarrow> (data_lane_available b peer priority local_origin \<longleftrightarrow>
      fst (try_acquire_for_origin peer DataSend priority local_origin now b) \<noteq> None))"
  using permit_decision [OF assms] by blast

theorem permit_decision_exact_witness:
  "fst (try_acquire_for_origin (PeerId [1]) DataSend Normal False 5 relay_budgets) = None \<and>
   fst (try_acquire_for_origin (PeerId [1]) DataSend Normal True 5 relay_budgets) \<noteq> None \<and>
   data_lane_available relay_budgets (PeerId [1]) Normal True"
proof -
  have c: "live_relay (PeerId [1]) {#relay_permit#} = 1" "live_local (PeerId [1]) {#relay_permit#} = 0"
    by (simp_all add: live_relay_def live_local_def on_slot_def relay_permit_def)
  note d = permit_decision_exact [OF _ _ relay_run]
  have u: "0 < (1 :: nat)" "1 \<le> u64_max" by (simp_all add: u64_max_eq)
  show ?thesis using d [OF u, of "PeerId [1]" DataSend Normal False 5] d [OF u, of "PeerId [1]" DataSend Normal True 5] c by simp
qed

end
