(* ===== verification/Send_Claims.thy ===== *)
theory Send_Claims
  imports Topic_State Outbound_Budget "HOL-Library.Sublist"
begin

text \<open>
  The claim of send attempts and the booking of their results, in \<open>crates/pubsub/src/lib.rs\<close>: where
  the cooling of a topic's peers meets the outbound permits. A claim asks the cooling state
  first and the permits second, and takes the cooling side back when no permit is free. The
  counters of \<open>AdmissionStats\<close> and of the stage statistics are not part of this state.
\<close>

datatype ClaimSkipReason = TransportDisconnected | Cooling | Budget

record SendClaimSkips =
  sk_transport_disconnected :: nat
  sk_cooling :: nat
  sk_budget_exhausted :: nat

definition primary_reason :: "SendClaimSkips \<Rightarrow> ClaimSkipReason" where
  "primary_reason skips =
     (if sk_budget_exhausted skips > 0 then Budget
      else if sk_cooling skips > 0 then Cooling
      else if sk_transport_disconnected skips > 0 then TransportDisconnected
      else Budget)"

record SendClaimContext =
  sc_connected_peers :: "PeerId set option"
  sc_send_class :: OutboundSendClass
  sc_priority :: TopicPriority
  sc_local_origin :: bool

definition peer_is_transport_disconnected :: "PeerId set option \<Rightarrow> PeerId \<Rightarrow> bool" where
  "peer_is_transport_disconnected snapshot peer \<longleftrightarrow>
     (case snapshot of None \<Rightarrow> False | Some peers \<Rightarrow> peer \<notin> peers)"

text \<open>One turn of the claim loop: the attempt with its permit, or why there is none.\<close>

datatype claim_result = Claimed PeerSendAttempt OutboundSendPermit | Skipped ClaimSkipReason

definition claim_one ::
  "SendClaimContext \<Rightarrow> instant \<Rightarrow> PeerId \<Rightarrow> MeshState \<times> PeerOutboundBudgets \<Rightarrow>
   claim_result \<times> MeshState \<times> PeerOutboundBudgets" where
  "claim_one ctx now peer s =
     (if peer_is_transport_disconnected (sc_connected_peers ctx) peer then (Skipped TransportDisconnected, s)
      else let critical_data = (sc_priority ctx = Critical \<and> sc_send_class ctx = DataSend)
           in case mesh_claim_send_attempt peer now critical_data (fst s) of
                (None, m) \<Rightarrow> (Skipped Cooling, m, snd s)
              | (Some attempt, m) \<Rightarrow>
                  (case try_acquire_for_origin peer (sc_send_class ctx) (sc_priority ctx) (sc_local_origin ctx) now (snd s) of
                     (None, b) \<Rightarrow>
                       (Skipped Budget,
                        if at_kind attempt = RecoveryProbe
                        then abandon_unsent_recovery_probe peer (at_recovery_probe_id attempt) m else m, b)
                   | (Some permit, b) \<Rightarrow>
                       (Claimed attempt permit,
                        if at_kind attempt = CooldownBypass then confirm_cooldown_bypass_claim peer now m else m, b)))"

definition count_skip :: "ClaimSkipReason \<Rightarrow> SendClaimSkips \<Rightarrow> SendClaimSkips" where
  "count_skip reason skips =
     (case reason of
        TransportDisconnected \<Rightarrow> skips\<lparr>sk_transport_disconnected := sk_transport_disconnected skips + 1\<rparr>
      | Cooling \<Rightarrow> skips\<lparr>sk_cooling := sk_cooling skips + 1\<rparr>
      | Budget \<Rightarrow> skips\<lparr>sk_budget_exhausted := sk_budget_exhausted skips + 1\<rparr>)"

definition no_skips :: SendClaimSkips where
  "no_skips = \<lparr>sk_transport_disconnected = 0, sk_cooling = 0, sk_budget_exhausted = 0\<rparr>"

fun claim_loop ::
  "SendClaimContext \<Rightarrow> instant \<Rightarrow> PeerId list \<Rightarrow> (PeerSendAttempt \<times> OutboundSendPermit) list \<times> SendClaimSkips \<Rightarrow>
   MeshState \<times> PeerOutboundBudgets \<Rightarrow>
   ((PeerSendAttempt \<times> OutboundSendPermit) list \<times> SendClaimSkips) \<times> MeshState \<times> PeerOutboundBudgets" where
  "claim_loop ctx now [] acc s = (acc, s)"
| "claim_loop ctx now (peer # peers) (claims, skips) s =
     (case claim_one ctx now peer s of
        (Claimed attempt permit, s') \<Rightarrow> claim_loop ctx now peers (claims @ [(attempt, permit)], skips) s'
      | (Skipped reason, s') \<Rightarrow> claim_loop ctx now peers (claims, count_skip reason skips) s')"

definition claim_topic_send_attempts_for_state ::
  "SendClaimContext \<Rightarrow> instant \<Rightarrow> PeerId list \<Rightarrow> MeshState \<times> PeerOutboundBudgets \<Rightarrow>
   ((PeerSendAttempt \<times> OutboundSendPermit) list \<times> SendClaimSkips) \<times> MeshState \<times> PeerOutboundBudgets" where
  "claim_topic_send_attempts_for_state ctx now peers s = claim_loop ctx now peers ([], no_skips) s"

subsection \<open>Booking of results\<close>

definition drop_eager_reply_records_for_peer :: "PeerId \<Rightarrow> ('l, 'r) TopicState \<Rightarrow> ('l, 'r) TopicState" where
  "drop_eager_reply_records_for_peer peer s =
     s\<lparr>ts_deferred_eager_replies := filter (\<lambda>entry. dr_peer entry \<noteq> peer) (ts_deferred_eager_replies s),
       ts_eager_reply_claims := map_retain (\<lambda>k _. rk_peer k \<noteq> peer) (ts_eager_reply_claims s)\<rparr>"

definition topic_evict_not_connected_peer ::
  "PeerId \<Rightarrow> ('l, 'r) TopicState \<Rightarrow> NotConnectedEviction \<times> ('l, 'r) TopicState" where
  "topic_evict_not_connected_peer peer s =
     (let (evicted, mesh) = evict_not_connected_peer peer (ts_mesh s);
          s1 = s\<lparr>ts_late_local_offers := map_remove peer (ts_late_local_offers s)\<rparr>;
          s2 = drop_eager_reply_records_for_peer peer s1
      in (evicted, s2\<lparr>ts_mesh := mesh\<rparr>))"

record SendAttemptResults =
  sr_sent :: "PeerSendAttempt list"
  sr_timed_out :: "PeerSendAttempt list"
  sr_not_connected :: "PeerSendAttempt list"

text \<open>\<open>dec\<close> is the decay of the cooldown, \<open>health\<close> the snapshot of the failure detector.\<close>

definition book_topic_send_attempt_results ::
  "(duration \<Rightarrow> duration \<Rightarrow> duration) \<Rightarrow> AdaptiveCoolingConfig \<Rightarrow> (PeerId \<rightharpoonup> PeerHealth) \<Rightarrow> instant \<Rightarrow>
   SendAttemptResults \<Rightarrow> ('l, 'r) TopicState \<Rightarrow> ('l, 'r) TopicState" where
  "book_topic_send_attempt_results dec config health now results s =
     (let s1 = fold (\<lambda>a s. s\<lparr>ts_mesh := snd (record_send_success dec config a now (ts_mesh s))\<rparr>) (sr_sent results) s;
          s2 = fold (\<lambda>a s. snd (topic_evict_not_connected_peer (at_peer a) s)) (sr_not_connected results) s1
      in fold (\<lambda>a s. s\<lparr>ts_mesh := snd (record_send_timeout (Some config) (health (at_peer a)) a now (ts_mesh s))\<rparr>)
           (sr_timed_out results) s2)"

definition recovery_probe_timeout :: "PeerSendAttempt \<Rightarrow> PeerSendAttempt list" where
  "recovery_probe_timeout attempt = (if at_kind attempt = RecoveryProbe then [attempt] else [])"

subsection \<open>What a claim does\<close>

lemma mesh_claim_fields:
  assumes "mesh_claim_send_attempt peer now critical m = (r, m')"
  shows "q \<noteq> peer \<Longrightarrow> ms_cooling m' q = ms_cooling m q" "ms_eager m' = ms_eager m" "ms_lazy m' = ms_lazy m"
    and "\<And>attempt. r = Some attempt \<Longrightarrow> at_peer attempt = peer"
    and "\<And>attempt. r = Some attempt \<Longrightarrow> at_kind attempt \<noteq> RecoveryProbe \<Longrightarrow> ms_cooling m' = ms_cooling m"
    and "r = None \<Longrightarrow> m' = m"
  using assms by (auto simp: mesh_claim_send_attempt_def claim_send_attempt_def fun_upd_idem split: option.splits if_splits)

lemma abandoned_claim_restores:
  assumes "mesh_ok m" "mesh_claim_send_attempt peer now critical m = (Some attempt, m')" "at_kind attempt = RecoveryProbe"
  shows "ms_cooling (abandon_unsent_recovery_probe peer (at_recovery_probe_id attempt) m') = ms_cooling m"
proof (cases "ms_cooling m peer")
  case None
  then show ?thesis using assms(2,3) by (auto simp: mesh_claim_send_attempt_def)
next
  case (Some c)
  have ok: "pc_recovery_probe_in_flight c \<longleftrightarrow> pc_recovery_probe_id c \<noteq> None"
    using mesh_okD [OF assms(1) Some] by (simp add: cooling_ok_def)
  have due: "\<not> actively_suppressed_at c now" "suppression_expired_at c now" "\<not> pc_recovery_probe_in_flight c"
    using assms(2,3) Some by (auto simp: mesh_claim_send_attempt_def claim_send_attempt_def split: if_splits)
  then have "c\<lparr>pc_recovery_probe_in_flight := False, pc_recovery_probe_id := None\<rparr> = c" using ok by (cases c) simp
  then show ?thesis using assms(2,3) Some due
    by (auto simp: mesh_claim_send_attempt_def claim_send_attempt_def abandon_unsent_recovery_probe_def matches_recovery_probe_def fun_upd_idem)
qed

lemma abandon_fields [simp]:
  "ms_eager (abandon_unsent_recovery_probe peer probe m) = ms_eager m"
  "ms_lazy (abandon_unsent_recovery_probe peer probe m) = ms_lazy m"
  "q \<noteq> peer \<Longrightarrow> ms_cooling (abandon_unsent_recovery_probe peer probe m) q = ms_cooling m q"
  by (auto simp: abandon_unsent_recovery_probe_def split: option.split)

lemma confirm_fields [simp]:
  "ms_eager (confirm_cooldown_bypass_claim peer now m) = ms_eager m"
  "ms_lazy (confirm_cooldown_bypass_claim peer now m) = ms_lazy m"
  "q \<noteq> peer \<Longrightarrow> ms_cooling (confirm_cooldown_bypass_claim peer now m) q = ms_cooling m q"
  by (auto simp: confirm_cooldown_bypass_claim_def split: option.split)

lemma acquire_fields:
  assumes "try_acquire_for_origin peer class priority local_origin now b = (r, b')"
  shows "\<And>permit. r = Some permit \<Longrightarrow> op_peer permit = peer \<and> op_class permit = class"
    and "ob_next_slot_id b < u64_max \<Longrightarrow> ob_next_slot_id b' \<le> ob_next_slot_id b + 1"
  using assms by (auto simp: try_acquire_for_origin_def acquire_lane_def take_lane_def Let_def
      split: prod.splits if_splits OutboundSendClass.splits)

definition held_of :: "SendClaimContext \<Rightarrow> PeerSendAttempt \<times> OutboundSendPermit \<Rightarrow> held" where
  "held_of ctx claim = (snd claim, sc_priority ctx, sc_local_origin ctx)"

fun claims_of :: "claim_result \<Rightarrow> (PeerSendAttempt \<times> OutboundSendPermit) list" where
  "claims_of (Claimed attempt permit) = [(attempt, permit)]"
| "claims_of (Skipped reason) = []"

text \<open>One turn: the mesh keeps its sets and the cooling of everybody but a claimed peer, and the
  permits move as the budget's own steps do.\<close>

lemma claim_one_facts:
  assumes "mesh_ok m" "claim_one ctx now peer (m, b) = (r, m', b')" "ob_next_slot_id b < u64_max"
  shows "mesh_step\<^sup>*\<^sup>* m m'"
    and "q \<notin> at_peer ` fst ` set (claims_of r) \<Longrightarrow> ms_cooling m' q = ms_cooling m q"
    and "budget_step\<^sup>*\<^sup>* (b, hs) (b', hs + mset (map (held_of ctx) (claims_of r)))"
    and "ob_next_slot_id b' \<le> ob_next_slot_id b + 1"
    and "\<And>claim. claim \<in> set (claims_of r) \<Longrightarrow> at_peer (fst claim) = peer \<and> op_peer (snd claim) = peer \<and>
      op_class (snd claim) = sc_send_class ctx \<and> \<not> peer_is_transport_disconnected (sc_connected_peers ctx) peer"
proof -
  let ?crit = "sc_priority ctx = Critical \<and> sc_send_class ctx = DataSend"
  let ?acq = "try_acquire_for_origin peer (sc_send_class ctx) (sc_priority ctx) (sc_local_origin ctx) now b"
  obtain ro m1 where cl: "mesh_claim_send_attempt peer now ?crit m = (ro, m1)" by (cases "mesh_claim_send_attempt peer now ?crit m")
  obtain po b1 where ac: "?acq = (po, b1)" by (cases ?acq)
  note M = mesh_claim_fields [OF cl]
  note A = acquire_fields [OF ac]
  have step: "mesh_step m m1" using mesh_claim [of m peer now ?crit] by (simp add: cl)
  have refuse: "budget_step (b, hs) (b1, hs)" if "po = None" using budget_refuse ac that by simp
  have grant: "budget_step (b, hs) (b1, add_mset (permit, sc_priority ctx, sc_local_origin ctx) hs)" if "po = Some permit" for permit
    using budget_acquire [OF _ assms(3)] ac that by simp
  consider (disconnected) "peer_is_transport_disconnected (sc_connected_peers ctx) peer" "r = Skipped TransportDisconnected" "m' = m" "b' = b"
    | (cooling) "r = Skipped Cooling" "m' = m" "b' = b"
    | (budget) attempt where "ro = Some attempt" "po = None" "r = Skipped Budget" "b' = b1"
        "m' = (if at_kind attempt = RecoveryProbe then abandon_unsent_recovery_probe peer (at_recovery_probe_id attempt) m1 else m1)"
    | (claimed) attempt permit where "\<not> peer_is_transport_disconnected (sc_connected_peers ctx) peer" "ro = Some attempt" "po = Some permit"
        "r = Claimed attempt permit" "b' = b1" "m' = (if at_kind attempt = CooldownBypass then confirm_cooldown_bypass_claim peer now m1 else m1)"
    using assms(2) cl ac M(6) unfolding claim_one_def Let_def by (fastforce split: if_splits option.splits)
  note cases = this
  show "mesh_step\<^sup>*\<^sup>* m m'"
    using cases by cases (use step mesh_confirm mesh_abandon in \<open>auto intro: rtranclp.rtrancl_into_rtrancl\<close>)
  show "ms_cooling m' q = ms_cooling m q" if "q \<notin> at_peer ` fst ` set (claims_of r)"
    using cases
  proof cases
    case budget
    then show ?thesis using abandoned_claim_restores [OF assms(1), of peer now ?crit attempt m1] cl M(5) by auto
  next
    case claimed
    then show ?thesis using that M(1,4) by auto
  qed simp_all
  show "budget_step\<^sup>*\<^sup>* (b, hs) (b', hs + mset (map (held_of ctx) (claims_of r)))"
    using cases by cases (use refuse grant in \<open>auto simp: held_of_def\<close>)
  show "ob_next_slot_id b' \<le> ob_next_slot_id b + 1" using cases by cases (use A(2) assms(3) in auto)
  show "at_peer (fst claim) = peer \<and> op_peer (snd claim) = peer \<and>
      op_class (snd claim) = sc_send_class ctx \<and> \<not> peer_is_transport_disconnected (sc_connected_peers ctx) peer"
    if "claim \<in> set (claims_of r)" for claim
    using cases that by cases (use M(4) A(1) in auto)
qed

definition skip_total :: "SendClaimSkips \<Rightarrow> nat" where
  "skip_total skips = sk_transport_disconnected skips + sk_cooling skips + sk_budget_exhausted skips"

lemma skip_total_count: "skip_total (count_skip reason skips) = skip_total skips + 1"
  by (cases reason) (simp_all add: count_skip_def skip_total_def)

lemma claim_loop_facts:
  assumes "mesh_ok m" "ob_next_slot_id b + length peers \<le> u64_max"
    and "claim_loop ctx now peers (claims, skips) (m, b) = ((claims', skips'), m', b')"
  shows "\<exists>new. claims' = claims @ new \<and> length new + skip_total skips' = skip_total skips + length peers \<and>
    subseq (map (at_peer \<circ> fst) new) peers \<and>
    (\<forall>claim \<in> set new. op_peer (snd claim) = at_peer (fst claim) \<and> op_class (snd claim) = sc_send_class ctx \<and>
       \<not> peer_is_transport_disconnected (sc_connected_peers ctx) (at_peer (fst claim))) \<and>
    (\<forall>q. q \<notin> at_peer ` fst ` set new \<longrightarrow> ms_cooling m' q = ms_cooling m q) \<and>
    budget_step\<^sup>*\<^sup>* (b, hs) (b', hs + mset (map (held_of ctx) new))"
  using assms
proof (induction peers arbitrary: m b hs claims skips)
  case Nil
  then show ?case by simp
next
  case (Cons peer peers)
  obtain r m1 b1 where one: "claim_one ctx now peer (m, b) = (r, m1, b1)" by (cases "claim_one ctx now peer (m, b)") auto
  have slot: "ob_next_slot_id b < u64_max" using Cons.prems(2) by simp
  note F = claim_one_facts [OF Cons.prems(1) one slot]
  define skips1 where "skips1 = (case r of Claimed _ _ \<Rightarrow> skips | Skipped reason \<Rightarrow> count_skip reason skips)"
  have loop: "claim_loop ctx now peers (claims @ claims_of r, skips1) (m1, b1) = ((claims', skips'), m', b')"
    using Cons.prems(3) one by (cases r) (simp_all add: skips1_def)
  have tot: "length (claims_of r) + skip_total skips1 = skip_total skips + 1"
    by (cases r) (simp_all add: skips1_def skip_total_count)
  have ok1: "mesh_ok m1" using F(1) Cons.prems(1) by (induction rule: rtranclp_induct) (auto intro: mesh_ok_step)
  have "ob_next_slot_id b1 + length peers \<le> u64_max" using F(4) Cons.prems(2) by simp
  from Cons.IH [OF ok1 this loop, of "hs + mset (map (held_of ctx) (claims_of r))"]
  obtain new where new: "claims' = (claims @ claims_of r) @ new" "length new + skip_total skips' = skip_total skips1 + length peers"
    "subseq (map (at_peer \<circ> fst) new) peers"
    "\<forall>claim \<in> set new. op_peer (snd claim) = at_peer (fst claim) \<and> op_class (snd claim) = sc_send_class ctx \<and>
       \<not> peer_is_transport_disconnected (sc_connected_peers ctx) (at_peer (fst claim))"
    "\<forall>q. q \<notin> at_peer ` fst ` set new \<longrightarrow> ms_cooling m' q = ms_cooling m1 q"
    "budget_step\<^sup>*\<^sup>* (b1, hs + mset (map (held_of ctx) (claims_of r))) (b', hs + mset (map (held_of ctx) (claims_of r)) + mset (map (held_of ctx) new))"
    by blast
  have sub: "subseq (map (at_peer \<circ> fst) (claims_of r @ new)) (peer # peers)"
    using new(3) F(5) by (cases r) (auto intro: list_emb_Cons)
  have perm: "budget_step\<^sup>*\<^sup>* (b, hs) (b', hs + mset (map (held_of ctx) (claims_of r @ new)))"
    using rtranclp_trans [OF F(3) [of hs] new(6)] by (simp add: add.assoc)
  have cool: "ms_cooling m' q = ms_cooling m q" if "q \<notin> at_peer ` fst ` set (claims_of r @ new)" for q
    using new(5) F(2) [of q] that by (auto simp: image_Un)
  show ?case
    by (rule exI [where x = "claims_of r @ new"]) (use new(1,2,4) F(5) sub perm cool tot in \<open>auto simp: comp_def\<close>)
qed

subsection \<open>Properties\<close>

text \<open>
  A round of send claims accounts for every peer. Each peer asked for is claimed or counted under
  one reason; the claims keep the order of the peers; every claim holds a permit of its own peer
  and class, taken by the steps of the permit budget, so that its bounds hold; a peer the
  transport reports as disconnected is never claimed; and the cooling of a peer that was not claimed is
  as it was, also when its recovery probe or bypass had been granted before the permit was refused.
\<close>

theorem send_claims_exact:
  assumes "topic_step\<^sup>*\<^sup>* (mesh_init n) m" "ob_next_slot_id b + length peers \<le> u64_max"
    and "claim_topic_send_attempts_for_state ctx now peers (m, b) = ((claims, skips), m', b')"
  shows "length claims + sk_transport_disconnected skips + sk_cooling skips + sk_budget_exhausted skips = length peers \<and>
    subseq (map (at_peer \<circ> fst) claims) peers \<and>
    (\<forall>(attempt, permit) \<in> set claims. op_peer permit = at_peer attempt \<and> op_class permit = sc_send_class ctx \<and>
       \<not> peer_is_transport_disconnected (sc_connected_peers ctx) (at_peer attempt)) \<and>
    (\<forall>q. q \<notin> at_peer ` fst ` set claims \<longrightarrow> ms_cooling m' q = ms_cooling m q) \<and>
    budget_step\<^sup>*\<^sup>* (b, hs) (b', hs + mset (map (\<lambda>c. (snd c, sc_priority ctx, sc_local_origin ctx)) claims))"
proof -
  have "held_of ctx = (\<lambda>c. (snd c, sc_priority ctx, sc_local_origin ctx))" by (simp add: fun_eq_iff held_of_def)
  moreover note claim_loop_facts [OF topic_ok_steps [OF assms(1)] assms(2) assms(3) [unfolded claim_topic_send_attempts_for_state_def], of hs]
  ultimately show ?thesis by (auto simp: skip_total_def no_skips_def)
qed

theorem send_claims_exact_witness:
  "let ctx = \<lparr>sc_connected_peers = Some {PeerId [1]}, sc_send_class = DataSend, sc_priority = Normal, sc_local_origin = False\<rparr>;
       r = claim_topic_send_attempts_for_state ctx 0 [PeerId [1], PeerId [2]] (mesh_init 3, budgets_new 1)
   in length (fst (fst r)) + skip_total (snd (fst r)) = 2 \<and> subseq (map (at_peer \<circ> fst) (fst (fst r))) [PeerId [1], PeerId [2]]"
proof -
  let ?ctx = "\<lparr>sc_connected_peers = Some {PeerId [1]}, sc_send_class = DataSend, sc_priority = Normal, sc_local_origin = False\<rparr> :: SendClaimContext"
  obtain claims skips m' b' where r: "claim_topic_send_attempts_for_state ?ctx 0 [PeerId [1], PeerId [2]] (mesh_init 3, budgets_new 1) = ((claims, skips), m', b')"
    by (metis prod.collapse)
  have slot: "ob_next_slot_id (budgets_new 1) + length [PeerId [1], PeerId [2]] \<le> u64_max" by (simp add: budgets_new_def u64_max_eq)
  from send_claims_exact [OF rtranclp.rtrancl_refl slot r, of "{#}"] show ?thesis unfolding Let_def r by (simp add: skip_total_def)
qed

end
