(* ===== verification/Announcements.thy ===== *)
theory Announcements
  imports Send_Claims
begin

text \<open>
  What the announcements of a topic promise. The operations of \<open>Topic_State\<close> are collected in a
  datatype of announcement steps, so that a run of a topic is a list of them: the lists stay
  bounded and free of duplicates, a retained announcement is offered on every flush until its
  target has been reached or a documented reason ends it, and the pages of a late offer
  cover the local messages of a topic exactly once.
\<close>

subsection \<open>Steps\<close>

datatype announce_op =
    QueueStranded MessageIdType "PeerId list" instant
  | StrandedServed MessageIdType PeerId
  | StrandedAdvertised "MessageIdType list" PeerId
  | StrandedDelivered MessageIdType PeerId
  | RemoveStranded MessageIdType
  | PushPending MessageIdType
  | IhaveHandoff "MessageIdType list" PeerId
  | QueueWithheld MessageIdType "PeerId list" bool
  | QueueRetained MessageIdType "PeerId list" instant
  | WithheldAdvertised "MessageIdType list" "PeerId list"
  | PruneRetained instant "PeerId set option"
  | DropResolved
  | OfferColdRelay "PeerId list"
  | WithheldServed MessageIdType PeerId
  | ConsumeBatch "MessageIdType list"
  | PruneLate instant
  | QueueLate PeerId instant
  | LateKeys PeerId instant
  | AdvanceLate PeerId "instant \<times> MessageIdType"
  | BackoffLate PeerId "instant \<times> MessageIdType" instant
  | PruneIwants instant
  | RetainIwant PeerId "MessageIdType list" instant
  | EvictPeer PeerId
  | CleanCache instant

fun announce :: "'l cache_ops \<Rightarrow> 'r replay_ops \<Rightarrow> announce_op \<Rightarrow> ('l, 'r) TopicState \<Rightarrow> ('l, 'r) TopicState" where
  "announce ops rops (QueueStranded i peers now) s = queue_stranded_ihave i peers now s"
| "announce ops rops (StrandedServed i peer) s = record_stranded_ihave_served i peer s"
| "announce ops rops (StrandedAdvertised batch peer) s = record_stranded_ihave_advertised batch peer s"
| "announce ops rops (StrandedDelivered i peer) s = record_stranded_retry_delivered i peer s"
| "announce ops rops (RemoveStranded i) s = remove_stranded_ihave i s"
| "announce ops rops (PushPending i) s = snd (push_pending_ihave i s)"
| "announce ops rops (IhaveHandoff batch peer) s = record_ihave_handoff batch peer s"
| "announce ops rops (QueueWithheld i peers cold) s = queue_lazy_withheld i peers cold s"
| "announce ops rops (QueueRetained i peers now) s = queue_retained_announce i peers now s"
| "announce ops rops (WithheldAdvertised batch peers) s = record_lazy_withheld_advertised batch peers s"
| "announce ops rops (PruneRetained now snapshot) s = prune_retained_announces now snapshot s"
| "announce ops rops DropResolved s = drop_resolved_retained_announces s"
| "announce ops rops (OfferColdRelay peers) s = offer_pending_cold_relay_to_new_eager ops peers s"
| "announce ops rops (WithheldServed i peer) s = record_lazy_withheld_served i peer s"
| "announce ops rops (ConsumeBatch batch) s = consume_flushed_ihave_batch batch s"
| "announce ops rops (PruneLate now) s = prune_late_local_offers now s"
| "announce ops rops (QueueLate peer now) s = queue_late_local_offer ops peer now s"
| "announce ops rops (LateKeys peer now) s = snd (late_local_offer_keys ops peer now s)"
| "announce ops rops (AdvanceLate peer cursor) s = advance_late_local_offer peer cursor s"
| "announce ops rops (BackoffLate peer cursor now) s = backoff_late_local_offer peer cursor now s"
| "announce ops rops (PruneIwants now) s = prune_deferred_iwants now s"
| "announce ops rops (RetainIwant peer ids now) s = snd (retain_deferred_iwant peer ids now s)"
| "announce ops rops (EvictPeer peer) s = snd (topic_evict_not_connected_peer peer s)"
| "announce ops rops (CleanCache now) s = clean_cache ops rops now s"

definition announces :: "'l cache_ops \<Rightarrow> 'r replay_ops \<Rightarrow> announce_op list \<Rightarrow> ('l, 'r) TopicState \<Rightarrow> ('l, 'r) TopicState" where
  "announces ops rops aops s = fold (announce ops rops) aops s"

subsection \<open>Well-formed lists\<close>

definition iwant_ids :: "DeferredIwant list \<Rightarrow> nat" where
  "iwant_ids xs = (\<Sum>entry \<leftarrow> xs. length (di_msg_ids entry))"

definition late_ok :: "(PeerId \<rightharpoonup> LateLocalOffer) \<Rightarrow> bool" where
  "late_ok m \<longleftrightarrow> finite (dom m) \<and> card (dom m) \<le> MAX_LATE_LOCAL_OFFERS \<and>
     (\<forall>offer \<in> ran m. lo_failures offer \<le> 255 \<and> (lo_next_attempt offer = None \<longleftrightarrow> lo_failures offer = 0))"

definition id_list_ok :: "('a \<Rightarrow> MessageIdType) \<Rightarrow> 'a list \<Rightarrow> bool" where
  "id_list_ok f xs \<longleftrightarrow> distinct (map f xs) \<and> length xs \<le> MAX_IHAVE_BATCH_SIZE"

definition announce_wf :: "('l, 'r) TopicState \<Rightarrow> bool" where
  "announce_wf s \<longleftrightarrow>
     id_list_ok si_msg_id (ts_stranded_ihave s) \<and> id_list_ok lw_msg_id (ts_lazy_withheld s) \<and>
     length (ts_pending_ihave s) \<le> MAX_PENDING_IHAVE \<and> late_ok (ts_late_local_offers s) \<and>
     iwant_ids (ts_deferred_iwants s) \<le> MAX_DEFERRED_IWANT_IDS"

lemma map_update_first: "(\<And>x. f (g x) = f x) \<Longrightarrow> map f (update_first P g xs) = map f xs"
  by (induction xs) auto

lemma length_update_first [simp]: "length (update_first P g xs) = length xs"
  by (induction xs) auto

lemma id_list_ok_update_first: "(\<And>x. f (g x) = f x) \<Longrightarrow> id_list_ok f (update_first P g xs) = id_list_ok f xs"
  by (simp add: id_list_ok_def map_update_first)

lemma id_list_ok_map: "(\<And>x. f (g x) = f x) \<Longrightarrow> id_list_ok f (map g xs) = id_list_ok f xs"
  by (simp add: id_list_ok_def comp_def)

lemma id_list_ok_filter: "id_list_ok f xs \<Longrightarrow> id_list_ok f (filter P xs)"
  by (auto simp: id_list_ok_def distinct_map_filter intro: le_trans [OF length_filter_le])

lemma id_list_ok_map_filter:
  assumes "id_list_ok f xs" "\<And>x y. g x = Some y \<Longrightarrow> f y = f x"
  shows "id_list_ok f (List.map_filter g xs)"
proof -
  have "map f (List.map_filter g xs) = map f (filter (\<lambda>x. g x \<noteq> None) xs)"
    using assms(2) by (induction xs) (auto simp: List.map_filter_simps split: option.split)
  moreover have "length (List.map_filter g xs) \<le> length xs"
    by (simp add: List.map_filter_def)
  ultimately show ?thesis using assms(1) distinct_map_filter [of f xs] by (auto simp: id_list_ok_def)
qed

lemma length_drain_oldest: "0 < cap \<Longrightarrow> length (drain_oldest cap xs) < cap"
  by (auto simp: drain_oldest_def)

lemma id_list_ok_push:
  assumes "id_list_ok f xs" "f x \<notin> f ` set xs"
  shows "id_list_ok f (drain_oldest MAX_IHAVE_BATCH_SIZE xs @ [x])"
proof -
  have "distinct (map f (drain_oldest MAX_IHAVE_BATCH_SIZE xs))"
    using assms(1) by (auto simp: drain_oldest_def id_list_ok_def drop_map [symmetric] distinct_drop)
  moreover have "f x \<notin> f ` set (drain_oldest MAX_IHAVE_BATCH_SIZE xs)"
    using assms(2) by (auto simp: drain_oldest_def dest: in_set_dropD)
  moreover have "length (drain_oldest MAX_IHAVE_BATCH_SIZE xs) < MAX_IHAVE_BATCH_SIZE"
    by (rule length_drain_oldest) (simp add: MAX_IHAVE_BATCH_SIZE_def)
  ultimately show ?thesis by (simp add: id_list_ok_def)
qed

lemma stranded_queue_ok:
  assumes "id_list_ok si_msg_id (ts_stranded_ihave s)"
  shows "id_list_ok si_msg_id (ts_stranded_ihave (queue_stranded_ihave i peers now s))"
proof -
  let ?x = "\<lparr>si_msg_id = i, si_targets = peers, si_served = [], si_advertised = [],
     si_retry_expires = now + MAX_CACHE_AGE_SECS * 1000, si_retry_delivered = False\<rparr>"
  have "id_list_ok si_msg_id (drain_oldest MAX_IHAVE_BATCH_SIZE (ts_stranded_ihave s) @ [?x])"
    if "\<forall>e \<in> set (ts_stranded_ihave s). si_msg_id e \<noteq> i"
    using that by (intro id_list_ok_push [OF assms]) auto
  then show ?thesis using assms by (auto simp: queue_stranded_ihave_def id_list_ok_update_first)
qed

lemma withheld_queue_ok:
  assumes "id_list_ok lw_msg_id (ts_lazy_withheld s)"
  shows "id_list_ok lw_msg_id (ts_lazy_withheld (queue_lazy_withheld i peers cold s))"
proof -
  let ?x = "\<lparr>lw_msg_id = i, lw_targets = peers, lw_cold_relay = cold, lw_served = [], lw_retain_until = None\<rparr>"
  have "id_list_ok lw_msg_id (drain_oldest MAX_IHAVE_BATCH_SIZE (ts_lazy_withheld s) @ [?x])"
    if "\<forall>e \<in> set (ts_lazy_withheld s). lw_msg_id e \<noteq> i"
    using that by (intro id_list_ok_push [OF assms]) auto
  then show ?thesis using assms by (auto simp: queue_lazy_withheld_def id_list_ok_update_first)
qed

lemma retained_queue_ok:
  "id_list_ok lw_msg_id (ts_lazy_withheld s) \<Longrightarrow> id_list_ok lw_msg_id (ts_lazy_withheld (queue_retained_announce i peers now s))"
  using withheld_queue_ok [of s i peers False] by (simp add: queue_retained_announce_def Let_def id_list_ok_update_first)

lemma prune_retained_entry_id: "prune_retained_entry now snapshot e = Some e' \<Longrightarrow> lw_msg_id e' = lw_msg_id e"
  by (auto simp: prune_retained_entry_def Let_def split: option.splits if_splits)

lemma drop_pending_overflow_length:
  "drop_pending_overflow ids adv = (n, ids', adv') \<Longrightarrow> length ids' < MAX_PENDING_IHAVE \<and> n + length ids' = length ids \<and> ids' = drop n ids"
  by (induction ids adv arbitrary: n ids' adv' rule: drop_pending_overflow.induct)
    (auto simp: Let_def limit_defs split: if_splits prod.splits)

lemma late_ok_retain: "late_ok m \<Longrightarrow> late_ok (map_retain P m)"
proof -
  assume ok: "late_ok m"
  have "card (dom (map_retain P m)) \<le> card (dom m)" "finite (dom (map_retain P m))"
    using ok dom_map_retain_subset [of P m] by (auto simp: late_ok_def intro: card_mono finite_subset)
  moreover have "ran (map_retain P m) \<subseteq> ran m" by (auto simp: ran_def)
  ultimately show ?thesis using ok by (auto simp: late_ok_def)
qed

lemma late_ok_remove:
  assumes "late_ok m"
  shows "late_ok (map_remove k m)"
proof -
  have "map_remove k m = map_retain (\<lambda>k' _. k' \<noteq> k) m" by (auto simp: map_retain_def split: option.split)
  then show ?thesis using late_ok_retain [OF assms] by simp
qed

lemma late_ok_upd:
  assumes "late_ok m" "m k \<noteq> None \<or> card (dom m) < MAX_LATE_LOCAL_OFFERS"
    and "lo_failures offer \<le> 255" "lo_next_attempt offer = None \<longleftrightarrow> lo_failures offer = 0"
  shows "late_ok (m(k \<mapsto> offer))"
proof -
  have "card (insert k (dom m)) \<le> MAX_LATE_LOCAL_OFFERS"
    using assms(1,2) by (auto simp: late_ok_def card_insert_if dom_def)
  moreover have "ran (m(k \<mapsto> offer)) \<subseteq> insert offer (ran m)" by (auto simp: ran_def)
  ultimately show ?thesis using assms unfolding late_ok_def by auto
qed

lemma queue_late_ok:
  assumes "late_ok (ts_late_local_offers s)"
  shows "late_ok (ts_late_local_offers (queue_late_local_offer ops peer now s))"
proof -
  define m where "m = ts_late_local_offers (prune_late_local_offers now
    (s\<lparr>ts_message_cache := prune_expired_at ops now (ts_message_cache s)\<rparr>))"
  have ok: "late_ok m" using assms by (simp add: m_def prune_late_local_offers_def late_ok_retain)
  have new: "late_ok (m(peer \<mapsto> \<lparr>lo_cutoff = now, lo_cursor = None, lo_failures = 0, lo_next_attempt = None\<rparr>))"
    if "card (dom m) < MAX_LATE_LOCAL_OFFERS"
    using that by (intro late_ok_upd [OF ok]) auto
  have "late_ok (map_or_insert peer \<lparr>lo_cutoff = now, lo_cursor = None, lo_failures = 0, lo_next_attempt = None\<rparr> m)"
    if "\<not> (card (dom m) \<ge> MAX_LATE_LOCAL_OFFERS \<and> m peer = None)"
    using ok new that by (auto simp: map_or_insert_def split: option.split)
  then show ?thesis using ok by (simp add: queue_late_local_offer_def Let_def m_def [symmetric])
qed

lemma iwant_ids_filter: "iwant_ids (filter P xs) \<le> iwant_ids xs"
  unfolding iwant_ids_def by (induction xs) auto

lemma announce_wf_step:
  assumes "announce_wf s"
  shows "announce_wf (announce ops rops aop s)"
proof -
  have D: "id_list_ok si_msg_id (ts_stranded_ihave s)" "id_list_ok lw_msg_id (ts_lazy_withheld s)"
    "length (ts_pending_ihave s) \<le> MAX_PENDING_IHAVE" "late_ok (ts_late_local_offers s)"
    "iwant_ids (ts_deferred_iwants s) \<le> MAX_DEFERRED_IWANT_IDS" using assms by (simp_all add: announce_wf_def)
  show ?thesis
  proof (cases aop)
    case (QueueStranded i peers now)
    then show ?thesis using D stranded_queue_ok [of s i peers now] by (auto simp: announce_wf_def queue_stranded_ihave_def)
  next
    case (QueueWithheld i peers cold)
    then show ?thesis using D withheld_queue_ok [of s i peers cold] by (auto simp: announce_wf_def queue_lazy_withheld_def)
  next
    case (QueueRetained i peers now)
    then show ?thesis using D retained_queue_ok [of s i peers now]
      by (auto simp: announce_wf_def queue_retained_announce_def queue_lazy_withheld_def Let_def)
  next
    case (PushPending i)
    then show ?thesis using D drop_pending_overflow_length [of "ts_pending_ihave s" "ts_ihave_advertised s"]
      by (auto simp: announce_wf_def push_pending_ihave_def split: prod.split)
  next
    case (PruneRetained now snapshot)
    then show ?thesis using D id_list_ok_map_filter [OF D(2) prune_retained_entry_id]
      by (simp add: announce_wf_def prune_retained_announces_def)
  next
    case (OfferColdRelay peers)
    then show ?thesis using D by (simp add: announce_wf_def offer_pending_cold_relay_to_new_eager_def id_list_ok_map)
  next
    case (ConsumeBatch batch)
    then show ?thesis using D
      by (auto simp: announce_wf_def consume_flushed_ihave_batch_def id_list_ok_filter intro: le_trans [OF length_filter_le])
  next
    case (QueueLate peer now)
    then show ?thesis using D queue_late_ok [OF D(4), of ops peer now]
      by (auto simp: announce_wf_def queue_late_local_offer_def prune_late_local_offers_def Let_def)
  next
    case (LateKeys peer now)
    then show ?thesis using D late_ok_remove [OF D(4)]
      by (auto simp: announce_wf_def late_local_offer_keys_def Let_def split: option.split)
  next
    case (AdvanceLate peer cursor)
    then show ?thesis using D late_ok_upd [OF D(4), of peer]
      by (auto simp: announce_wf_def advance_late_local_offer_def split: option.split)
  next
    case (BackoffLate peer cursor now)
    then show ?thesis using D late_ok_upd [OF D(4), of peer]
      by (auto simp: announce_wf_def backoff_late_local_offer_def Let_def split: option.split)
  next
    case (PruneIwants now)
    then show ?thesis using D le_trans [OF iwant_ids_filter D(5)] by (simp add: announce_wf_def prune_deferred_iwants_def Let_def)
  next
    case (RetainIwant peer ids now)
    have "iwant_ids (ts_deferred_iwants (prune_deferred_iwants now s)) \<le> MAX_DEFERRED_IWANT_IDS"
      using le_trans [OF iwant_ids_filter D(5)] by (simp add: prune_deferred_iwants_def Let_def)
    moreover have "iwant_ids (xs @ [\<lparr>di_peer = peer, di_msg_ids = ids, di_requested_at = now\<rparr>]) \<le> MAX_DEFERRED_IWANT_IDS"
      if "\<not> MAX_DEFERRED_IWANT_IDS < u64_sat_add (iwant_ids xs) (length ids)" for xs
      using that by (auto simp: iwant_ids_def u64_sat_add_def limit_defs u64_max_eq min_def split: if_splits)
    ultimately show ?thesis using RetainIwant D
      by (auto simp: announce_wf_def retain_deferred_iwant_def prune_deferred_iwants_def Let_def iwant_ids_def [symmetric])
  next
    case (EvictPeer peer)
    then show ?thesis using D late_ok_remove [OF D(4)]
      by (simp add: announce_wf_def topic_evict_not_connected_peer_def drop_eager_reply_records_for_peer_def Let_def split: prod.split)
  qed (use D in \<open>simp_all add: announce_wf_def record_stranded_ihave_served_def record_stranded_ihave_advertised_def
      record_stranded_retry_delivered_def remove_stranded_ihave_def record_ihave_handoff_def record_lazy_withheld_advertised_def
      drop_resolved_retained_announces_def record_lazy_withheld_served_def prune_late_local_offers_def clean_cache_def Let_def
      id_list_ok_update_first id_list_ok_map id_list_ok_filter late_ok_retain\<close>)
qed

subsection \<open>Retained targets\<close>

text \<open>A target that a retained announcement still owes its message, and the reasons for which a
  step may drop it without an announcement.\<close>

definition unresolved :: "('l, 'r) TopicState \<Rightarrow> MessageIdType \<Rightarrow> PeerId \<Rightarrow> bool" where
  "unresolved s i t \<longleftrightarrow>
     (\<exists>e \<in> set (ts_lazy_withheld s). lw_msg_id e = i \<and> lw_retain_until e \<noteq> None \<and> t \<in> set (lw_targets e) \<and> t \<notin> set (lw_served e))"

definition evicts_oldest :: "('l, 'r) TopicState \<Rightarrow> MessageIdType \<Rightarrow> MessageIdType \<Rightarrow> bool" where
  "evicts_oldest s j i \<longleftrightarrow>
     length (ts_lazy_withheld s) = MAX_IHAVE_BATCH_SIZE \<and> lw_msg_id (hd (ts_lazy_withheld s)) = i \<and>
     (\<forall>e \<in> set (ts_lazy_withheld s). lw_msg_id e \<noteq> j)"

fun releases :: "announce_op \<Rightarrow> ('l, 'r) TopicState \<Rightarrow> MessageIdType \<Rightarrow> PeerId \<Rightarrow> bool" where
  "releases (WithheldAdvertised batch peers) s i t \<longleftrightarrow> i \<in> set batch \<and> t \<in> set peers"
| "releases (WithheldServed j peer) s i t \<longleftrightarrow> j = i \<and> peer = t"
| "releases (PruneRetained now snapshot) s i t \<longleftrightarrow>
     transport_connected_for_peer snapshot t = Some False \<or>
     (\<exists>e \<in> set (ts_lazy_withheld s). lw_msg_id e = i \<and> (\<exists>deadline. lw_retain_until e = Some deadline \<and> deadline \<le> now))"
| "releases (QueueWithheld j peers cold) s i t \<longleftrightarrow> evicts_oldest s j i"
| "releases (QueueRetained j peers now) s i t \<longleftrightarrow> evicts_oldest s j i"
| "releases (OfferColdRelay peers) s i t \<longleftrightarrow>
     t \<notin> ms_eager (ts_mesh s) \<and> i \<in> set (ts_pending_ihave s) \<and>
     (\<exists>e \<in> set (ts_lazy_withheld s). lw_msg_id e = i \<and> lw_cold_relay e)"
| "releases _ s i t \<longleftrightarrow> False"

lemma set_push_all_absent [simp]: "set (push_all_absent ys xs) = set xs \<union> set ys"
  unfolding push_all_absent_def by (induction ys arbitrary: xs) (auto simp: push_absent_def)

lemma in_update_first:
  assumes "e \<in> set xs" "\<And>x. x \<in> set xs \<Longrightarrow> P x \<Longrightarrow> Q x \<Longrightarrow> Q (f x)" "Q e"
  shows "\<exists>e' \<in> set (update_first P f xs). Q e'"
  using assms by (induction xs) auto

text \<open>One step of the lists can change an unresolved target only by rewriting its entry.\<close>

lemma unresolvedI:
  "\<exists>e \<in> set (ts_lazy_withheld s). lw_msg_id e = i \<and> lw_retain_until e \<noteq> None \<and> t \<in> set (lw_targets e) \<and> t \<notin> set (lw_served e) \<Longrightarrow>
   unresolved s i t"
  by (simp add: unresolved_def)

lemma in_drain_oldest:
  assumes "e \<in> set xs" "length xs \<le> cap" "0 < cap"
  shows "e \<in> set (drain_oldest cap xs) \<or> (length xs = cap \<and> e = hd xs)"
proof (cases "length xs = cap")
  case True
  then have "drain_oldest cap xs = tl xs" by (simp add: drain_oldest_def drop_Suc)
  then show ?thesis using True assms(1) by (cases xs) auto
next
  case False
  then show ?thesis using assms by (simp add: drain_oldest_def)
qed

lemma unresolved_queue_withheld:
  assumes "announce_wf s" "unresolved s i t"
  shows "unresolved (queue_lazy_withheld j peers cold s) i t \<or> evicts_oldest s j i"
proof -
  from assms(2) obtain e where e: "e \<in> set (ts_lazy_withheld s)" "lw_msg_id e = i" "lw_retain_until e \<noteq> None"
    "t \<in> set (lw_targets e)" "t \<notin> set (lw_served e)" unfolding unresolved_def by blast
  have len: "length (ts_lazy_withheld s) \<le> MAX_IHAVE_BATCH_SIZE" using assms(1) by (simp add: announce_wf_def id_list_ok_def)
  consider (nothing) "queue_lazy_withheld j peers cold s = s"
    | (update) f :: "LazyWithheldEntry \<Rightarrow> LazyWithheldEntry" where "ts_lazy_withheld (queue_lazy_withheld j peers cold s) = update_first (\<lambda>e. lw_msg_id e = j) f (ts_lazy_withheld s)"
        "\<And>x. lw_msg_id (f x) = lw_msg_id x" "\<And>x. lw_retain_until (f x) = lw_retain_until x"
        "\<And>x. set (lw_targets x) \<subseteq> set (lw_targets (f x))" "\<And>x. lw_served (f x) = lw_served x"
    | (push) x where "ts_lazy_withheld (queue_lazy_withheld j peers cold s) = drain_oldest MAX_IHAVE_BATCH_SIZE (ts_lazy_withheld s) @ [x]"
        "\<forall>e \<in> set (ts_lazy_withheld s). lw_msg_id e \<noteq> j"
  proof (cases "peers = [] \<and> \<not> cold")
    case True
    show ?thesis by (rule nothing) (use True in \<open>simp add: queue_lazy_withheld_def\<close>)
  next
    case False
    show ?thesis
    proof (cases "\<exists>e \<in> set (ts_lazy_withheld s). lw_msg_id e = j")
      case True
      show ?thesis
        by (rule update [of "\<lambda>e. e\<lparr>lw_cold_relay := lw_cold_relay e \<or> cold, lw_targets := push_all_absent peers (lw_targets e)\<rparr>"])
          (use True False in \<open>auto simp: queue_lazy_withheld_def\<close>)
    next
      case absent: False
      show ?thesis
        by (rule push [of "\<lparr>lw_msg_id = j, lw_targets = peers, lw_cold_relay = cold, lw_served = [], lw_retain_until = None\<rparr>"])
          (use absent False in \<open>auto simp: queue_lazy_withheld_def\<close>)
    qed
  qed
  then show ?thesis
  proof cases
    case nothing
    then show ?thesis using assms(2) by simp
  next
    case update
    have "\<exists>e' \<in> set (update_first (\<lambda>e. lw_msg_id e = j) f (ts_lazy_withheld s)).
        lw_msg_id e' = i \<and> lw_retain_until e' \<noteq> None \<and> t \<in> set (lw_targets e') \<and> t \<notin> set (lw_served e')"
      by (rule in_update_first [OF e(1)]) (use e update(2-5) in auto)
    then show ?thesis using update(1) by (simp add: unresolvedI)
  next
    case push
    have "0 < MAX_IHAVE_BATCH_SIZE" by (simp add: MAX_IHAVE_BATCH_SIZE_def)
    from in_drain_oldest [OF e(1) len this] show ?thesis
      using e push unfolding unresolved_def evicts_oldest_def by auto
  qed
qed

lemma unresolved_mono:
  assumes "unresolved s i t"
    and "\<And>e. e \<in> set (ts_lazy_withheld s) \<Longrightarrow> lw_msg_id e = i \<Longrightarrow> lw_retain_until e \<noteq> None \<Longrightarrow> t \<in> set (lw_targets e) \<Longrightarrow>
      t \<notin> set (lw_served e) \<Longrightarrow>
      \<exists>e' \<in> set (ts_lazy_withheld s'). lw_msg_id e' = i \<and> lw_retain_until e' \<noteq> None \<and> t \<in> set (lw_targets e') \<and> t \<notin> set (lw_served e')"
  shows "unresolved s' i t"
  using assms unfolding unresolved_def by blast

lemma unresolved_queue_retained:
  assumes "announce_wf s" "unresolved s i t"
  shows "unresolved (queue_retained_announce j peers now s) i t \<or> evicts_oldest s j i"
proof (cases "peers = []")
  case True
  then show ?thesis using assms(2) by (simp add: queue_retained_announce_def)
next
  case False
  let ?s1 = "queue_lazy_withheld j peers False s"
  have "unresolved (queue_retained_announce j peers now s) i t" if u: "unresolved ?s1 i t"
  proof -
    from u obtain e where e: "e \<in> set (ts_lazy_withheld ?s1)" "lw_msg_id e = i" "lw_retain_until e \<noteq> None"
      "t \<in> set (lw_targets e)" "t \<notin> set (lw_served e)" unfolding unresolved_def by blast
    define f where "f = (\<lambda>e :: LazyWithheldEntry. e\<lparr>lw_retain_until := Some (case lw_retain_until e of
        None \<Rightarrow> now + RETAINED_ANNOUNCE_TTL | Some d \<Rightarrow> max d (now + RETAINED_ANNOUNCE_TTL))\<rparr>)"
    have f: "lw_msg_id (f x) = lw_msg_id x" "lw_retain_until (f x) \<noteq> None" "lw_targets (f x) = lw_targets x"
      "lw_served (f x) = lw_served x" for x by (simp_all add: f_def)
    have l: "ts_lazy_withheld (queue_retained_announce j peers now s) = update_first (\<lambda>e. lw_msg_id e = j) f (ts_lazy_withheld ?s1)"
      using False by (simp add: queue_retained_announce_def Let_def f_def)
    have "\<exists>e' \<in> set (update_first (\<lambda>e. lw_msg_id e = j) f (ts_lazy_withheld ?s1)).
        lw_msg_id e' = i \<and> lw_retain_until e' \<noteq> None \<and> t \<in> set (lw_targets e') \<and> t \<notin> set (lw_served e')"
      by (rule in_update_first [OF e(1)]) (use e f in \<open>simp_all\<close>)
    then show ?thesis by (simp add: l unresolvedI)
  qed
  then show ?thesis using unresolved_queue_withheld [OF assms, of j peers False] by blast
qed

lemma unresolved_map:
  assumes "unresolved s i t" "ts_lazy_withheld s' = map g (ts_lazy_withheld s)"
    and "\<And>e. e \<in> set (ts_lazy_withheld s) \<Longrightarrow> lw_msg_id e = i \<Longrightarrow> t \<in> set (lw_targets e) \<Longrightarrow> t \<in> set (lw_targets (g e))"
    and "\<And>e. lw_msg_id (g e) = lw_msg_id e \<and> lw_retain_until (g e) = lw_retain_until e \<and> lw_served (g e) = lw_served e"
  shows "unresolved s' i t"
proof (rule unresolved_mono [OF assms(1)])
  fix e
  assume "e \<in> set (ts_lazy_withheld s)" "lw_msg_id e = i" "lw_retain_until e \<noteq> None" "t \<in> set (lw_targets e)" "t \<notin> set (lw_served e)"
  then show "\<exists>e' \<in> set (ts_lazy_withheld s'). lw_msg_id e' = i \<and> lw_retain_until e' \<noteq> None \<and> t \<in> set (lw_targets e') \<and> t \<notin> set (lw_served e')"
    using assms(2-4) by (intro bexI [where x = "g e"]) simp_all
qed

lemma unresolved_advertised:
  assumes "unresolved s i t" "\<not> (i \<in> set batch \<and> t \<in> set peers)"
  shows "unresolved (record_lazy_withheld_advertised batch peers s) i t"
proof (cases "peers = [] \<or> \<not> (\<exists>e \<in> set (ts_lazy_withheld s). lw_retain_until e \<noteq> None)")
  case True
  then show ?thesis using assms(1) by (auto simp: record_lazy_withheld_advertised_def)
next
  case False
  then show ?thesis
    by (intro unresolved_map [OF assms(1), where g = "\<lambda>e. if lw_retain_until e \<noteq> None \<and> lw_msg_id e \<in> set batch
        then e\<lparr>lw_targets := filter (\<lambda>t. t \<notin> set peers) (lw_targets e)\<rparr> else e"])
      (use assms(2) in \<open>auto simp: record_lazy_withheld_advertised_def\<close>)
qed

lemma unresolved_served:
  assumes "unresolved s i t" "\<not> (j = i \<and> peer = t)"
  shows "unresolved (record_lazy_withheld_served j peer s) i t"
proof (rule unresolved_mono [OF assms(1)])
  fix e
  assume e: "e \<in> set (ts_lazy_withheld s)" "lw_msg_id e = i" "lw_retain_until e \<noteq> None" "t \<in> set (lw_targets e)" "t \<notin> set (lw_served e)"
  define f where "f = (\<lambda>e :: LazyWithheldEntry. e\<lparr>lw_served := push_absent peer (lw_served e)\<rparr>)"
  have f: "lw_msg_id (f x) = lw_msg_id x" "lw_retain_until (f x) = lw_retain_until x" "lw_targets (f x) = lw_targets x"
    "set (lw_served (f x)) = insert peer (set (lw_served x))" for x by (auto simp: f_def push_absent_def)
  have "\<exists>e' \<in> set (update_first (\<lambda>e. lw_msg_id e = j) f (ts_lazy_withheld s)).
      lw_msg_id e' = i \<and> lw_retain_until e' \<noteq> None \<and> t \<in> set (lw_targets e') \<and> t \<notin> set (lw_served e')"
    by (rule in_update_first [OF e(1)]) (use e f assms(2) in auto)
  then show "\<exists>e' \<in> set (ts_lazy_withheld (record_lazy_withheld_served j peer s)).
      lw_msg_id e' = i \<and> lw_retain_until e' \<noteq> None \<and> t \<in> set (lw_targets e') \<and> t \<notin> set (lw_served e')"
    by (simp add: record_lazy_withheld_served_def f_def)
qed

lemma in_map_filter: "x \<in> set xs \<Longrightarrow> g x = Some y \<Longrightarrow> y \<in> set (List.map_filter g xs)"
  by (force simp: List.map_filter_def)

lemma unresolved_prune:
  assumes "unresolved s i t" "transport_connected_for_peer snapshot t \<noteq> Some False"
    and alive: "\<forall>e \<in> set (ts_lazy_withheld s). lw_msg_id e = i \<longrightarrow> (\<forall>deadline. lw_retain_until e = Some deadline \<longrightarrow> now < deadline)"
  shows "unresolved (prune_retained_announces now snapshot s) i t"
proof (rule unresolved_mono [OF assms(1)])
  fix e
  assume e: "e \<in> set (ts_lazy_withheld s)" "lw_msg_id e = i" "lw_retain_until e \<noteq> None" "t \<in> set (lw_targets e)" "t \<notin> set (lw_served e)"
  then obtain deadline where d: "lw_retain_until e = Some deadline" "now < deadline" using alive by auto
  let ?keep = "filter (\<lambda>p. p \<notin> set (lw_served e) \<and> transport_connected_for_peer snapshot p \<noteq> Some False) (lw_targets e)"
  have t: "t \<in> set ?keep" using e assms(2) by simp
  then have "prune_retained_entry now snapshot e = Some (e\<lparr>lw_targets := ?keep\<rparr>)"
    using d by (auto simp: prune_retained_entry_def Let_def filter_empty_conv)
  from in_map_filter [where g = "prune_retained_entry now snapshot", OF e(1) this] show "\<exists>e' \<in> set (ts_lazy_withheld (prune_retained_announces now snapshot s)).
      lw_msg_id e' = i \<and> lw_retain_until e' \<noteq> None \<and> t \<in> set (lw_targets e') \<and> t \<notin> set (lw_served e')"
    using e t by (intro bexI [where x = "e\<lparr>lw_targets := ?keep\<rparr>"]) (simp_all add: prune_retained_announces_def)
qed

lemma unresolved_offer:
  assumes "unresolved s i t"
    and "t \<in> ms_eager (ts_mesh s) \<or> i \<notin> set (ts_pending_ihave s) \<or> (\<forall>e \<in> set (ts_lazy_withheld s). lw_msg_id e = i \<longrightarrow> \<not> lw_cold_relay e)"
  shows "unresolved (offer_pending_cold_relay_to_new_eager ops peers s) i t"
proof (cases "peers = [] \<or> ts_lazy_withheld s = []")
  case True
  then show ?thesis using assms(1) by (auto simp: offer_pending_cold_relay_to_new_eager_def)
next
  case False
  then show ?thesis
    by (intro unresolved_map [OF assms(1), where g = "\<lambda>e.
          if \<not> lw_cold_relay e \<or> lw_msg_id e \<notin> set (ts_pending_ihave s) \<or>
             (case lru_peek ops (lw_msg_id e) (mc_lru (ts_message_cache s)) of
                None \<Rightarrow> True | Some cached \<Rightarrow> cm_dropped (ce_message cached))
          then e
          else e\<lparr>lw_targets := push_all_absent (filter (\<lambda>p. p \<notin> set (lw_served e)) peers)
                    (filter (\<lambda>p. p \<in> ms_eager (ts_mesh s)) (lw_targets e))\<rparr>"])
      (use assms(2) in \<open>auto simp: offer_pending_cold_relay_to_new_eager_def\<close>)
qed

lemma unresolved_consume: "unresolved s i t \<Longrightarrow> unresolved (consume_flushed_ihave_batch batch s) i t"
  by (erule unresolved_mono) (auto simp: consume_flushed_ihave_batch_def has_unresolved_retained_target_def)

lemma unresolved_drop_resolved: "unresolved s i t \<Longrightarrow> unresolved (drop_resolved_retained_announces s) i t"
  by (erule unresolved_mono) (auto simp: drop_resolved_retained_announces_def has_unresolved_retained_target_def)

lemma unresolved_same: "ts_lazy_withheld s' = ts_lazy_withheld s \<Longrightarrow> unresolved s i t \<Longrightarrow> unresolved s' i t"
  by (simp add: unresolved_def)

lemma unresolved_step:
  assumes "announce_wf s" "unresolved s i t"
  shows "unresolved (announce ops rops aop s) i t \<or> releases aop s i t"
proof (cases aop)
  case (QueueWithheld j peers cold)
  then show ?thesis using unresolved_queue_withheld [OF assms] by simp
next
  case (QueueRetained j peers now)
  then show ?thesis using unresolved_queue_retained [OF assms] by simp
next
  case (WithheldAdvertised batch peers)
  then show ?thesis using unresolved_advertised [OF assms(2)] by auto
next
  case (PruneRetained now snapshot)
  then show ?thesis using unresolved_prune [OF assms(2), of snapshot now] unfolding PruneRetained announce.simps releases.simps by (meson not_le)
next
  case DropResolved
  then show ?thesis using unresolved_drop_resolved [OF assms(2)] by simp
next
  case (OfferColdRelay peers)
  then show ?thesis using unresolved_offer [OF assms(2), of ops peers] by auto
next
  case (WithheldServed j peer)
  then show ?thesis using unresolved_served [OF assms(2)] by auto
next
  case (ConsumeBatch batch)
  then show ?thesis using unresolved_consume [OF assms(2)] by simp
qed (rule disjI1, rule unresolved_same [OF _ assms(2)];
    simp add: queue_stranded_ihave_def record_stranded_ihave_served_def record_stranded_ihave_advertised_def
      record_stranded_retry_delivered_def remove_stranded_ihave_def push_pending_ihave_def record_ihave_handoff_def
      prune_late_local_offers_def queue_late_local_offer_def late_local_offer_keys_def advance_late_local_offer_def
      backoff_late_local_offer_def prune_deferred_iwants_def retain_deferred_iwant_def topic_evict_not_connected_peer_def
      drop_eager_reply_records_for_peer_def clean_cache_def Let_def split: prod.split option.split)+

lemma set_fold_targets:
  "set (fold (\<lambda>e targets. if Q e then push_all_absent (g e) targets else targets) xs acc) =
     set acc \<union> (\<Union>e \<in> {e \<in> set xs. Q e}. set (g e))"
  by (induction xs arbitrary: acc) auto

lemma set_fold_all_targets:
  "set (fold (\<lambda>e targets. push_all_absent (g e) targets) xs acc) = set acc \<union> (\<Union>e \<in> set xs. set (g e))"
  by (induction xs arbitrary: acc) auto

text \<open>The next flush covers an unresolved target, with the pending ids or as retained work.\<close>

lemma unresolved_covered:
  assumes "unresolved s i t"
  shows "if i \<in> set (ts_pending_ihave s) then t \<in> set (lazy_withheld_targets_for s (ts_pending_ihave s))
    else \<exists>batch targets. retained_announce_work s = Some (batch, targets) \<and> i \<in> set batch \<and> t \<in> set targets"
proof -
  from assms obtain e where e: "e \<in> set (ts_lazy_withheld s)" "lw_msg_id e = i" "lw_retain_until e \<noteq> None"
    "t \<in> set (lw_targets e)" "t \<notin> set (lw_served e)" unfolding unresolved_def by blast
  have un: "has_unresolved_retained_target e" using e by (auto simp: has_unresolved_retained_target_def)
  show ?thesis
  proof (cases "i \<in> set (ts_pending_ihave s)")
    case True
    then show ?thesis using e unfolding lazy_withheld_targets_for_def by (auto simp: set_fold_targets)
  next
    case False
    define due where "due = filter (\<lambda>e. has_unresolved_retained_target e \<and> lw_msg_id e \<notin> set (ts_pending_ihave s)) (ts_lazy_withheld s)"
    define targets where "targets = fold (\<lambda>e targets. push_all_absent (filter (\<lambda>p. p \<notin> set (lw_served e)) (lw_targets e)) targets) due []"
    have due: "e \<in> set due" using e(1,2) un False by (simp add: due_def)
    have "t \<in> set targets" unfolding targets_def set_fold_all_targets using due e(4,5) by auto
    moreover have "i \<in> set (map lw_msg_id due)" using imageI [OF due, of lw_msg_id] e(2) unfolding set_map by simp
    moreover have "map lw_msg_id due \<noteq> []" using due by (cases due) simp_all
    moreover have "\<exists>e \<in> set (ts_lazy_withheld s). has_unresolved_retained_target e" using e(1) un ..
    ultimately show ?thesis using False
      unfolding retained_announce_work_def Let_def due_def [symmetric] targets_def [symmetric] by simp
  qed
qed

subsection \<open>Pages of a late offer\<close>

text \<open>One flush that hands the page of a late offer over, and a sequence of them at the times given.\<close>

definition late_offer_round ::
  "'l cache_ops \<Rightarrow> PeerId \<Rightarrow> instant \<Rightarrow> ('l, 'r) TopicState \<Rightarrow> MessageIdType list \<times> ('l, 'r) TopicState" where
  "late_offer_round ops peer now s =
     (case late_local_offer_keys ops peer now s of
        (None, s1) \<Rightarrow> ([], s1)
      | (Some keys, s1) \<Rightarrow>
          (case late_offer_page keys of
             None \<Rightarrow> ([], s1)
           | Some (batch, last_key) \<Rightarrow> (batch, advance_late_local_offer peer last_key s1)))"

fun late_offer_rounds ::
  "'l cache_ops \<Rightarrow> PeerId \<Rightarrow> instant list \<Rightarrow> ('l, 'r) TopicState \<Rightarrow> MessageIdType list \<times> ('l, 'r) TopicState" where
  "late_offer_rounds ops peer [] s = ([], s)"
| "late_offer_rounds ops peer (now # nows) s =
     (let (batch, s1) = late_offer_round ops peer now s;
          (rest, s2) = late_offer_rounds ops peer nows s1
      in (batch @ rest, s2))"

definition offer_keys :: "instant \<Rightarrow> (MessageIdType \<times> CachedEntry) list \<Rightarrow> (instant \<times> MessageIdType) list" where
  "offer_keys cutoff xs = map (\<lambda>x. (ce_inserted_at (snd x), fst x))
     (filter (\<lambda>x. cm_local_origin (ce_message (snd x)) \<and> \<not> cm_dropped (ce_message (snd x)) \<and> ce_inserted_at (snd x) \<le> cutoff) xs)"

definition beyond :: "(instant \<times> MessageIdType) option \<Rightarrow> (instant \<times> MessageIdType) list \<Rightarrow> (instant \<times> MessageIdType) list" where
  "beyond cursor ks = filter (\<lambda>k. case cursor of None \<Rightarrow> True | Some c \<Rightarrow> c < k) ks"

lemma eligible_keys:
  "List.map_filter (\<lambda>(msg_id, entry).
     (let key = (ce_inserted_at entry, msg_id)
      in if cm_local_origin (ce_message entry) \<and> \<not> cm_dropped (ce_message entry) \<and> ce_inserted_at entry \<le> cutoff \<and>
            (case cursor of None \<Rightarrow> True | Some c \<Rightarrow> c < key)
         then Some key else None)) xs = beyond cursor (offer_keys cutoff xs)"
  by (induction xs) (auto simp: offer_keys_def beyond_def Let_def List.map_filter_simps split: option.splits)

lemma offer_keys_mono: "set xs \<subseteq> set ys \<Longrightarrow> set (offer_keys c xs) \<subseteq> set (offer_keys c ys)"
  by (auto simp: offer_keys_def)

lemma offer_keys_inj: "distinct (map fst xs) \<Longrightarrow> inj_on snd (set (offer_keys c xs))"
proof (rule inj_onI)
  fix k k'
  assume d: "distinct (map fst xs)" and k: "k \<in> set (offer_keys c xs)" "k' \<in> set (offer_keys c xs)" "snd k = snd k'"
  from k(1,2) obtain x x' where x: "x \<in> set xs" "x' \<in> set xs" "k = (ce_inserted_at (snd x), fst x)" "k' = (ce_inserted_at (snd x'), fst x')"
    unfolding offer_keys_def by auto
  then have "x = x'" using d k(3) by (auto simp: distinct_map dest: inj_onD)
  then show "k = k'" using x by simp
qed

lemma offer_keys_distinct: "distinct (map fst xs) \<Longrightarrow> distinct (offer_keys c xs)"
  unfolding offer_keys_def distinct_map by (auto simp: inj_on_def)

text \<open>What one flush announces, over the list of cached entries.\<close>

lemma late_offer_round_cases:
  assumes "lru_laws ops" "books ops (ts_message_cache s) xs"
    and "ts_late_local_offers s peer = Some offer"
    and "E = beyond (lo_cursor offer) (offer_keys (lo_cutoff offer) (fresh now (mc_max_age (ts_message_cache s)) xs))"
    and "late_offer_round ops peer now s = (batch, s')"
  shows "books ops (ts_message_cache s') (fresh now (mc_max_age (ts_message_cache s)) xs)"
    and "E = [] \<Longrightarrow> batch = [] \<and> ts_late_local_offers s' peer = None"
    and "E \<noteq> [] \<Longrightarrow> batch = map snd (take MAX_IHAVE_BATCH_SIZE (sort E)) \<and>
      (\<exists>offer'. ts_late_local_offers s' peer = Some offer' \<and> lo_cutoff offer' = lo_cutoff offer \<and>
        lo_cursor offer' = Some (last (take MAX_IHAVE_BATCH_SIZE (sort E))))"
proof -
  let ?c = "prune_expired_at ops now (ts_message_cache s)"
  have b: "books ops ?c (fresh now (mc_max_age (ts_message_cache s)) xs)" using prune_expired_books [OF assms(1,2)] by blast
  then have it: "lru_iter ops (mc_lru ?c) = fresh now (mc_max_age (ts_message_cache s)) xs" by (simp add: books_def)
  define s1 where "s1 = s\<lparr>ts_message_cache := ?c\<rparr>"
  have keys: "late_local_offer_keys ops peer now s =
      (if E = [] then (None, s1\<lparr>ts_late_local_offers := map_remove peer (ts_late_local_offers s1)\<rparr>) else (Some E, s1))"
    unfolding late_local_offer_keys_def by (simp add: assms(3) s1_def eligible_keys it assms(4) [symmetric])
  have page: "late_offer_page E = Some (map snd (take MAX_IHAVE_BATCH_SIZE (sort E)), last (take MAX_IHAVE_BATCH_SIZE (sort E)))"
    if "E \<noteq> []"
  proof -
    have "sort E \<noteq> []" using that by (metis length_0_conv length_sort)
    then show ?thesis by (simp add: late_offer_page_def Let_def MAX_IHAVE_BATCH_SIZE_def)
  qed
  have offer: "ts_late_local_offers s1 peer = Some offer" using assms(3) by (simp add: s1_def)
  show "books ops (ts_message_cache s') (fresh now (mc_max_age (ts_message_cache s)) xs)"
    using b assms(5) page offer unfolding late_offer_round_def keys
    by (cases "E = []") (auto simp: s1_def advance_late_local_offer_def)
  show "E = [] \<Longrightarrow> batch = [] \<and> ts_late_local_offers s' peer = None"
    using assms(5) unfolding late_offer_round_def keys by auto
  show "E \<noteq> [] \<Longrightarrow> batch = map snd (take MAX_IHAVE_BATCH_SIZE (sort E)) \<and>
      (\<exists>offer'. ts_late_local_offers s' peer = Some offer' \<and> lo_cutoff offer' = lo_cutoff offer \<and>
        lo_cursor offer' = Some (last (take MAX_IHAVE_BATCH_SIZE (sort E))))"
    using assms(5) page offer unfolding late_offer_round_def keys by (auto simp: advance_late_local_offer_def)
qed

lemma late_offer_round_age:
  assumes "lru_laws ops" "books ops (ts_message_cache s) xs" "late_offer_round ops peer now s = (batch, s')"
  shows "mc_max_age (ts_message_cache s') = mc_max_age (ts_message_cache s)"
  using conjunct2 [OF prune_expired_books [OF assms(1,2), of now]] assms(3)
  by (auto simp: late_offer_round_def late_local_offer_keys_def late_offer_page_def advance_late_local_offer_def same_limits_def Let_def
      split: option.splits if_splits)

text \<open>\<open>K\<close> are the keys announced so far, in \<open>n\<close> flushes. As long as the offer stands, the last of them
  is its cursor, everything up to the cursor has been announced, and every flush but the last
  announced a full page.\<close>

definition paged :: "nat \<Rightarrow> instant \<Rightarrow> (MessageIdType \<times> CachedEntry) list \<Rightarrow> (instant \<times> MessageIdType) list \<Rightarrow>
    LateLocalOffer option \<Rightarrow> bool" where
  "paged n cutoff xs K offer \<longleftrightarrow>
     (case offer of
        None \<Rightarrow> set (offer_keys cutoff xs) \<subseteq> set K
      | Some off \<Rightarrow> lo_cutoff off = cutoff \<and>
          (case lo_cursor off of
             None \<Rightarrow> K = [] \<and> n = 0
           | Some c \<Rightarrow> 0 < n \<and> K \<noteq> [] \<and> last K = c \<and> (\<forall>k \<in> set (offer_keys cutoff xs). k \<le> c \<longrightarrow> k \<in> set K) \<and>
               MAX_IHAVE_BATCH_SIZE * (n - 1) < length K \<and>
               (length K = MAX_IHAVE_BATCH_SIZE * n \<or> (\<forall>k \<in> set (offer_keys cutoff xs). k \<le> c))))"

lemma sorted_take_last:
  fixes xs :: "'a::linorder list"
  assumes "sorted xs" "x \<in> set xs" "x \<le> last (take n xs)" "distinct xs" "take n xs \<noteq> []"
  shows "x \<in> set (take n xs)"
proof (rule ccontr)
  assume "x \<notin> set (take n xs)"
  moreover have "set xs = set (take n xs) \<union> set (drop n xs)" by (metis append_take_drop_id set_append)
  ultimately have d: "x \<in> set (drop n xs)" using assms(2) by blast
  have l: "last (take n xs) \<in> set (take n xs)" using assms(5) by simp
  have "last (take n xs) \<le> x"
    using assms(1) d l sorted_append [of "take n xs" "drop n xs"] by simp
  then have "x = last (take n xs)" using assms(3) by simp
  then show False using l \<open>x \<notin> set (take n xs)\<close> by simp
qed

lemma sorted_le_last:
  fixes xs :: "'a::linorder list"
  shows "sorted xs \<Longrightarrow> x \<in> set xs \<Longrightarrow> x \<le> last xs"
  by (induction xs) auto

lemma page_advances:
  fixes K :: "(instant \<times> MessageIdType) list"
  assumes "distinct (map fst xs)" "paged n cutoff ys K (Some off)" "set xs \<subseteq> set ys" "sorted_wrt (<) K"
    and "E = beyond (lo_cursor off) (offer_keys cutoff xs)" "E \<noteq> []"
    and "off' = off\<lparr>lo_cursor := Some (last (take MAX_IHAVE_BATCH_SIZE (sort E)))\<rparr>"
  shows "sorted_wrt (<) (K @ take MAX_IHAVE_BATCH_SIZE (sort E)) \<and>
    paged (Suc n) cutoff xs (K @ take MAX_IHAVE_BATCH_SIZE (sort E)) (Some off')"
proof -
  let ?P = "take MAX_IHAVE_BATCH_SIZE (sort E)"
  have "sort E \<noteq> []" using assms(6) by (metis length_0_conv length_sort)
  then have ne: "?P \<noteq> []" by (simp add: MAX_IHAVE_BATCH_SIZE_def)
  have dE: "distinct E" using offer_keys_distinct [OF assms(1), of cutoff] by (simp add: assms(5) beyond_def)
  have sP: "sorted_wrt (<) ?P" using dE by (simp add: strict_sorted_iff sorted_wrt_take)
  have inE: "set ?P \<subseteq> set E" by (metis set_sort set_take_subset)
  have sub: "set (offer_keys cutoff xs) \<subseteq> set (offer_keys cutoff ys)" using offer_keys_mono [OF assms(3)] .
  have cut: "lo_cutoff off = cutoff" using assms(2) by (simp add: paged_def)
  have above: "\<forall>k \<in> set K. \<forall>p \<in> set ?P. k < p"
  proof (cases "lo_cursor off")
    case None
    then show ?thesis using assms(2) by (simp add: paged_def)
  next
    case (Some c)
    then have c: "last K = c" using assms(2) by (simp add: paged_def)
    have "k \<le> c" if "k \<in> set K" for k
      using sorted_le_last [of K k] that c assms(4) by (simp add: strict_sorted_iff)
    moreover have "c < p" if "p \<in> set ?P" for p
      using subsetD [OF inE that] Some by (simp add: assms(5) beyond_def)
    ultimately show ?thesis by (meson le_less_trans)
  qed
  have covered: "k \<in> set (K @ ?P)" if k: "k \<in> set (offer_keys cutoff xs)" "k \<le> last ?P" for k
  proof (cases "k \<in> set E")
    case True
    then show ?thesis using sorted_take_last [of "sort E" k MAX_IHAVE_BATCH_SIZE] k(2) dE ne by simp
  next
    case False
    then obtain c where "lo_cursor off = Some c" "k \<le> c" using k(1) by (auto simp: assms(5) beyond_def not_less split: option.splits)
    then show ?thesis using assms(2) subsetD [OF sub k(1)] by (simp add: paged_def)
  qed
  have rest: "length ?P = MAX_IHAVE_BATCH_SIZE \<or> (\<forall>k \<in> set (offer_keys cutoff xs). k \<le> last ?P)"
  proof (cases "length E < MAX_IHAVE_BATCH_SIZE")
    case True
    then have P: "?P = sort E" by simp
    have "k \<le> last ?P" if k: "k \<in> set (offer_keys cutoff xs)" for k
    proof (cases "k \<in> set E")
      case True
      then show ?thesis unfolding P by (intro sorted_le_last) simp_all
    next
      case False
      then obtain c where c: "lo_cursor off = Some c" "k \<le> c" using k by (auto simp: assms(5) beyond_def not_less split: option.splits)
      have "last ?P \<in> set E" using subsetD [OF inE last_in_set [OF ne]] .
      then have "c < last ?P" using c(1) by (simp add: assms(5) beyond_def)
      then show ?thesis using c(2) by simp
    qed
    then show ?thesis by blast
  next
    case False
    then show ?thesis by simp
  qed
  have full: "length K = MAX_IHAVE_BATCH_SIZE * n"
  proof (cases "lo_cursor off")
    case None
    then show ?thesis using assms(2) by (simp add: paged_def)
  next
    case (Some c)
    obtain e where e: "e \<in> set E" using assms(6) by (cases E) auto
    then have "e \<in> set (offer_keys cutoff ys)" "\<not> e \<le> c" using sub Some by (auto simp: assms(5) beyond_def)
    then show ?thesis using assms(2) Some by (auto simp: paged_def)
  qed
  have "sorted_wrt (<) (K @ ?P)" using assms(4) sP above by (simp add: sorted_wrt_append)
  moreover have "paged (Suc n) cutoff xs (K @ ?P) (Some off')"
    using ne covered rest full cut assms(7) by (auto simp: paged_def)
  ultimately show ?thesis by blast
qed

lemma late_rounds_paged:
  assumes "lru_laws ops" "books ops (ts_message_cache s) xs" "set xs \<subseteq> set xs0" "distinct (map fst xs)"
    and "sorted_wrt (<) K" "set K \<subseteq> set (offer_keys cutoff xs0)" "paged n cutoff xs K (ts_late_local_offers s peer)"
    and "late_offer_rounds ops peer nows s = (announced, s')"
  shows "\<exists>K' xs'. announced = map snd K' \<and> books ops (ts_message_cache s') xs' \<and> sorted_wrt (<) (K @ K') \<and>
    set (K @ K') \<subseteq> set (offer_keys cutoff xs0) \<and> paged (n + length nows) cutoff xs' (K @ K') (ts_late_local_offers s' peer)"
  using assms(2-8)
proof (induction nows arbitrary: s xs K n announced)
  case Nil
  then show ?case by (intro exI [where x = "[]"] exI [where x = xs]) simp
next
  case (Cons now nows)
  let ?xs = "fresh now (mc_max_age (ts_message_cache s)) xs"
  obtain batch s1 where r1: "late_offer_round ops peer now s = (batch, s1)" by (cases "late_offer_round ops peer now s")
  obtain rest where r2: "late_offer_rounds ops peer nows s1 = (rest, s')" and ann: "announced = batch @ rest"
    using Cons.prems(7) r1 by (auto split: prod.splits)
  have sub: "set ?xs \<subseteq> set xs" by (auto simp: fresh_def)
  have dist: "distinct (map fst ?xs)" using Cons.prems(3) by (simp add: fresh_def distinct_map_filter)
  have mono: "set (offer_keys cutoff ?xs) \<subseteq> set (offer_keys cutoff xs)" using offer_keys_mono [OF sub] .
  have "\<exists>P xs1. batch = map snd P \<and> books ops (ts_message_cache s1) xs1 \<and> set xs1 \<subseteq> set xs \<and> distinct (map fst xs1) \<and>
      sorted_wrt (<) (K @ P) \<and> set P \<subseteq> set (offer_keys cutoff xs) \<and> paged (Suc n) cutoff xs1 (K @ P) (ts_late_local_offers s1 peer)"
  proof (cases "ts_late_local_offers s peer")
    case None
    then have "batch = []" "s1 = s" using r1 by (auto simp: late_offer_round_def late_local_offer_keys_def)
    then show ?thesis using Cons.prems None by (intro exI [where x = "[]"] exI [where x = xs]) (simp add: paged_def)
  next
    case (Some off)
    have cut: "lo_cutoff off = cutoff" using Cons.prems(6) Some by (simp add: paged_def)
    define E where "E = beyond (lo_cursor off) (offer_keys cutoff ?xs)"
    note R = late_offer_round_cases [OF assms(1) Cons.prems(1) Some E_def [folded cut] r1]
    show ?thesis
    proof (cases "E = []")
      case True
      have "k \<in> set K" if k: "k \<in> set (offer_keys cutoff ?xs)" for k
      proof -
        from True k obtain c where "lo_cursor off = Some c" "k \<le> c"
          by (auto simp: E_def beyond_def filter_empty_conv not_less split: option.splits)
        then show ?thesis using Cons.prems(6) Some subsetD [OF mono k] by (simp add: paged_def)
      qed
      then show ?thesis using R(1,2) True sub dist Cons.prems(4)
        by (intro exI [where x = "[]"] exI [where x = ?xs]) (auto simp: paged_def)
    next
      case False
      let ?P = "take MAX_IHAVE_BATCH_SIZE (sort E)"
      from R(3) [OF False] obtain off' where off': "batch = map snd ?P" "ts_late_local_offers s1 peer = Some off'"
        "lo_cutoff off' = cutoff" "lo_cursor off' = Some (last ?P)" using cut by blast
      have A: "sorted_wrt (<) (K @ ?P) \<and> paged (Suc n) cutoff ?xs (K @ ?P) (Some (off\<lparr>lo_cursor := Some (last ?P)\<rparr>))"
        using page_advances [OF dist Cons.prems(6) [unfolded Some] sub Cons.prems(4) E_def False refl] .
      have "set ?P \<subseteq> set E" by (metis set_sort set_take_subset)
      then have "set ?P \<subseteq> set (offer_keys cutoff xs)" using mono by (auto simp: E_def beyond_def)
      moreover have "paged (Suc n) cutoff ?xs (K @ ?P) (Some off')" using A off'(3,4) by (simp add: paged_def)
      ultimately show ?thesis using A R(1) off'(1,2) sub dist by (intro exI [where x = ?P] exI [where x = ?xs]) simp
    qed
  qed
  then obtain P xs1 where P: "batch = map snd P" "books ops (ts_message_cache s1) xs1" "set xs1 \<subseteq> set xs" "distinct (map fst xs1)"
    "sorted_wrt (<) (K @ P)" "set P \<subseteq> set (offer_keys cutoff xs)" "paged (Suc n) cutoff xs1 (K @ P) (ts_late_local_offers s1 peer)" by blast
  have "set (K @ P) \<subseteq> set (offer_keys cutoff xs0)" using Cons.prems(5) order.trans [OF P(6) offer_keys_mono [OF Cons.prems(2)]] by simp
  from Cons.IH [OF P(2) order.trans [OF P(3) Cons.prems(2)] P(4,5) this P(7) r2]
  obtain K' xs' where "rest = map snd K'" "books ops (ts_message_cache s') xs'" "sorted_wrt (<) ((K @ P) @ K')"
    "set ((K @ P) @ K') \<subseteq> set (offer_keys cutoff xs0)" "paged (Suc n + length nows) cutoff xs' ((K @ P) @ K') (ts_late_local_offers s' peer)" by blast
  then show ?case using ann P(1) by (intro exI [where x = "P @ K'"] exI [where x = xs']) simp
qed

subsection \<open>Properties\<close>

text \<open>
  C26: The announcement lists of a topic are well formed in every state its operations reach, in
  any order: no message has two stranded or two withheld entries, none of these lists and not
  the list of pending ids exceeds 1024, late offers are kept for at most 1024 peers with a
  failure count of one byte that is zero exactly when no backoff runs, and at most 1024 ids wait
  in deferred requests.
\<close>

theorem announce_lists_wellformed:
  "let s = announces ops rops aops (with_cache_config ops rops max_count max_bytes max_age now probe_id custody_id token) in
   distinct (map si_msg_id (ts_stranded_ihave s)) \<and> length (ts_stranded_ihave s) \<le> 1024 \<and>
   distinct (map lw_msg_id (ts_lazy_withheld s)) \<and> length (ts_lazy_withheld s) \<le> 1024 \<and>
   length (ts_pending_ihave s) \<le> 1024 \<and> card (dom (ts_late_local_offers s)) \<le> 1024 \<and>
   (\<forall>offer \<in> ran (ts_late_local_offers s). lo_failures offer \<le> 255 \<and> (lo_next_attempt offer = None \<longleftrightarrow> lo_failures offer = 0)) \<and>
   (\<Sum>entry \<leftarrow> ts_deferred_iwants s. length (di_msg_ids entry)) \<le> 1024"
proof -
  let ?s0 = "with_cache_config ops rops max_count max_bytes max_age now probe_id custody_id token"
  have "announce_wf ?s0" by (simp add: announce_wf_def with_cache_config_def id_list_ok_def late_ok_def iwant_ids_def)
  then have "announce_wf (announces ops rops aops ?s0)" unfolding announces_def
    by (rule fold_invariant) (rule announce_wf_step)
  then show ?thesis by (simp add: announce_wf_def id_list_ok_def late_ok_def iwant_ids_def limit_defs Let_def)
qed

theorem announce_lists_wellformed_witness:
  "card (dom (ts_late_local_offers (announces list_lru list_lru [PushPending [1], QueueWithheld [1] [PeerId [2]] True]
     (with_cache_config list_lru (list_lru :: (bytes, PayloadReplayEntry, (bytes, PayloadReplayEntry) lru_list) lru_ops) 4 100000 60000 0 1 1 1)))) \<le> 1024"
  using announce_lists_wellformed [of list_lru list_lru "[PushPending [1], QueueWithheld [1] [PeerId [2]] True]" 4 100000 60000 0 1 1 1]
  by (simp add: Let_def)

text \<open>
  A retained announcement does not lose a target. From every reachable state, while a target has
  neither been reached nor served, the next flush advertises the message to it, with the pending
  ids or as retained work of its own; and a step ends that state only for a documented reason:
  the handoff to that target, its own pull, its disconnect, the deadline of the entry, the cold
  relay offer that drops targets no longer eager, or the eviction of the oldest of 1024 entries.
\<close>

theorem retained_target_not_lost:
  assumes "s = announces ops rops aops (with_cache_config ops rops max_count max_bytes max_age t0 probe_id custody_id token)"
    and "unresolved s i t"
  shows "(if i \<in> set (ts_pending_ihave s) then t \<in> set (lazy_withheld_targets_for s (ts_pending_ihave s))
     else \<exists>batch targets. retained_announce_work s = Some (batch, targets) \<and> i \<in> set batch \<and> t \<in> set targets) \<and>
    (unresolved (announce ops rops aop s) i t \<or> releases aop s i t)"
proof -
  let ?s0 = "with_cache_config ops rops max_count max_bytes max_age t0 probe_id custody_id token"
  have "announce_wf ?s0" by (simp add: announce_wf_def with_cache_config_def id_list_ok_def late_ok_def iwant_ids_def)
  then have "announce_wf s" unfolding assms(1) announces_def by (rule fold_invariant) (rule announce_wf_step)
  then show ?thesis using unresolved_covered [OF assms(2)] unresolved_step [OF _ assms(2), of ops rops aop] by (intro conjI)
qed

definition retained_topic :: "((MessageIdType, CachedEntry) lru_list, (bytes, PayloadReplayEntry) lru_list) TopicState" where
  "retained_topic = announces list_lru list_lru [QueueRetained [1] [PeerId [2]] 5] (with_cache_config list_lru list_lru 4 100000 60000 0 1 1 1)"

theorem retained_target_not_lost_witness:
  "unresolved retained_topic [1] (PeerId [2]) \<and>
   (\<exists>batch targets. retained_announce_work retained_topic = Some (batch, targets) \<and> [1] \<in> set batch \<and> PeerId [2] \<in> set targets)"
proof -
  have u: "unresolved retained_topic [1] (PeerId [2])" "ts_pending_ihave retained_topic = []"
    by (simp_all add: retained_topic_def announces_def queue_retained_announce_def queue_lazy_withheld_def with_cache_config_def
        unresolved_def drain_oldest_def MAX_IHAVE_BATCH_SIZE_def)
  show ?thesis using retained_target_not_lost [OF retained_topic_def u(1)] u by simp
qed

text \<open>
  The pages of a late offer cover the local messages of a topic. Flushes that hand their pages
  over announce to a new peer distinct local messages that were cached by the time of the offer,
  oldest first; after one flush more than the messages fill pages of 1024 the offer is gone, and
  every such message that is still cached has been announced, although messages may expire
  between the flushes.
\<close>

theorem late_offer_pages_cover:
  assumes "lru_laws ops" "cache_ok ops (ts_message_cache s)"
    and "ts_late_local_offers s peer = Some offer" "lo_cursor offer = None"
    and "length (offer_keys (lo_cutoff offer) (entries ops (ts_message_cache s))) + MAX_IHAVE_BATCH_SIZE \<le> MAX_IHAVE_BATCH_SIZE * length nows"
    and "late_offer_rounds ops peer nows s = (announced, s')"
  shows "ts_late_local_offers s' peer = None \<and> distinct announced \<and>
    (\<exists>K. announced = map snd K \<and> sorted K \<and> set K \<subseteq> set (offer_keys (lo_cutoff offer) (entries ops (ts_message_cache s)))) \<and>
    snd ` set (offer_keys (lo_cutoff offer) (entries ops (ts_message_cache s'))) \<subseteq> set announced"
proof -
  let ?xs = "entries ops (ts_message_cache s)" and ?c = "lo_cutoff offer"
  have b: "books ops (ts_message_cache s) ?xs" using cache_okD(2) [OF assms(2)] .
  have d: "distinct (map fst ?xs)" using lru_distinct [OF assms(1) b] .
  have start: "paged 0 ?c ?xs [] (ts_late_local_offers s peer)" using assms(3,4) by (simp add: paged_def)
  from late_rounds_paged [OF assms(1) b order.refl d _ _ start assms(6)]
  obtain K xs' where K: "announced = map snd K" "books ops (ts_message_cache s') xs'" "sorted_wrt (<) K"
    "set K \<subseteq> set (offer_keys ?c ?xs)" "paged (length nows) ?c xs' K (ts_late_local_offers s' peer)" by auto
  have dK: "distinct K" "sorted K" using K(3) by (simp_all add: strict_sorted_iff)
  have len: "length K \<le> length (offer_keys ?c ?xs)"
    using dK(1) K(4) by (metis card_length card_mono distinct_card List.finite_set order.trans)
  have gone: "ts_late_local_offers s' peer = None"
  proof (rule ccontr)
    assume "ts_late_local_offers s' peer \<noteq> None"
    then obtain off where off: "ts_late_local_offers s' peer = Some off" by blast
    have "length nows \<noteq> 0" using assms(5) by (auto simp: MAX_IHAVE_BATCH_SIZE_def)
    then have "MAX_IHAVE_BATCH_SIZE * (length nows - 1) < length K" using K(5) off by (auto simp: paged_def split: option.splits)
    then show False using len assms(5) by (simp add: diff_mult_distrib2)
  qed
  have "distinct announced" unfolding K(1) distinct_map using dK(1) inj_on_subset [OF offer_keys_inj [OF d] K(4)] by blast
  moreover have "entries ops (ts_message_cache s') = xs'" using K(2) by (simp add: books_def entries_def)
  ultimately show ?thesis using gone K(1,4,5) dK(2) by (auto simp: paged_def)
qed

definition offered_topic :: "((MessageIdType, CachedEntry) lru_list, (bytes, PayloadReplayEntry) lru_list) TopicState" where
  "offered_topic = (with_cache_config list_lru list_lru 2 20000 60000 0 1 1 1)
     \<lparr>ts_message_cache := snd (the (insert_at list_lru [7] (small_message [1, 2] True) 5 small_cache)),
      ts_late_local_offers := [PeerId [2] \<mapsto> \<lparr>lo_cutoff = 9, lo_cursor = None, lo_failures = 0, lo_next_attempt = None\<rparr>]\<rparr>"

theorem late_offer_pages_cover_witness:
  "\<exists>announced s'. late_offer_rounds list_lru (PeerId [2]) [10, 11] offered_topic = (announced, s') \<and>
     ts_late_local_offers s' (PeerId [2]) = None \<and> set announced \<subseteq> {[7]}"
proof -
  obtain c where c: "insert_at list_lru [7] (small_message [1, 2] True) 5 small_cache = Some (True, c)"
    "entries list_lru c = [([7], \<lparr>ce_message = small_message [1, 2] True, ce_bytes = 5758, ce_inserted_at = 5\<rparr>)]"
    "cache_ok list_lru c" using small_cache_inserted .
  let ?offer = "\<lparr>lo_cutoff = 9, lo_cursor = None, lo_failures = 0, lo_next_attempt = None\<rparr> :: LateLocalOffer"
  have t: "ts_message_cache offered_topic = c" "ts_late_local_offers offered_topic (PeerId [2]) = Some ?offer"
    using c(1) by (simp_all add: offered_topic_def)
  have k: "offer_keys 9 (entries list_lru c) = [(5, [7])]" by (simp add: c(2) offer_keys_def small_message_def)
  obtain announced s' where r: "late_offer_rounds list_lru (PeerId [2]) [10, 11] offered_topic = (announced, s')"
    by (cases "late_offer_rounds list_lru (PeerId [2]) [10, 11] offered_topic")
  have "ts_late_local_offers s' (PeerId [2]) = None" and "\<exists>K. announced = map snd K \<and> set K \<subseteq> {(5 :: instant, [7])}"
    using late_offer_pages_cover [OF list_lru_laws _ t(2) _ _ r] t(1) c(3) k by (auto simp: MAX_IHAVE_BATCH_SIZE_def)
  moreover from this(2) have "set announced \<subseteq> {[7]}" by fastforce
  ultimately show ?thesis using r by blast
qed

end
