(* ===== verification/Eager_Reply.thy ===== *)
theory Eager_Reply
  imports Send_Claims
begin

text \<open>
  The life of a reply to an IWANT request, in \<open>crates/pubsub/src/lib.rs\<close>: custody of requests that
  wait for a retry, the claim that one reply is in flight, and the gate every completion passes.
  Here are the operations, their runs and the consistency of the records; the lifecycle that the
  documentation of \<open>DeferredEagerReply\<close> states is the specification of the next theory.

  The retry tick is the claiming block of \<open>flush_deferred_eager_replies\<close>, with the attempts the
  send claim granted as an argument. \<open>ro\<close> gives the order in which the hash map of claims is
  iterated.
\<close>

definition MAX_DEFERRED_EAGER_REPLIES :: nat where
  "MAX_DEFERRED_EAGER_REPLIES = MAX_IHAVE_BATCH_SIZE"

definition EAGER_REPLY_CLAIM_TTL :: duration where
  "EAGER_REPLY_CLAIM_TTL = 60000"

type_synonym reply_order = "(reply_key \<rightharpoonup> EagerReplyClaim) \<Rightarrow> reply_key list"

record EagerReplyCompletion =
  rc_peer :: PeerId
  rc_msg_id :: MessageIdType
  rc_token :: nat
  rc_own_custody :: "DeferredEagerReply option"

record AdmittedEagerReply =
  ar_completion :: EagerReplyCompletion
  ar_rerequested :: bool

datatype EagerReplyOutcome = ReplySent | ReplyDeferred | ReplyFailed

subsection \<open>Operations\<close>

definition claim_live :: "instant \<Rightarrow> EagerReplyClaim \<Rightarrow> bool" where
  "claim_live now claim \<longleftrightarrow> now - ec_claimed_at claim < EAGER_REPLY_CLAIM_TTL"

definition abandon_probe_of :: "(reply_key \<rightharpoonup> EagerReplyClaim) \<Rightarrow> reply_key \<Rightarrow> MeshState \<Rightarrow> MeshState" where
  "abandon_probe_of claims k m =
     (case claims k of
        None \<Rightarrow> m
      | Some claim \<Rightarrow>
          (case ec_probe claim of None \<Rightarrow> m | Some probe \<Rightarrow> abandon_unsent_recovery_probe (rk_peer k) (Some probe) m))"

definition prune_eager_reply_claims :: "reply_order \<Rightarrow> instant \<Rightarrow> ('l, 'r) TopicState \<Rightarrow> ('l, 'r) TopicState" where
  "prune_eager_reply_claims ro now s =
     (let claims = ts_eager_reply_claims s;
          expired = filter (\<lambda>k. case claims k of None \<Rightarrow> False | Some claim \<Rightarrow> \<not> claim_live now claim) (ro claims)
      in s\<lparr>ts_eager_reply_claims := map_retain (\<lambda>_. claim_live now) claims,
           ts_mesh := fold (abandon_probe_of claims) expired (ts_mesh s)\<rparr>)"

definition custody_live :: "'l cache_ops \<Rightarrow> instant \<Rightarrow> 'l BoundedMessageCache \<Rightarrow> DeferredEagerReply \<Rightarrow> bool" where
  "custody_live ops now cache entry \<longleftrightarrow>
     now - dr_requested_at entry < mc_max_age cache \<and>
     (case lru_peek ops (dr_msg_id entry) (mc_lru cache) of
        None \<Rightarrow> False | Some cached \<Rightarrow> \<not> cm_dropped (ce_message cached))"

definition prune_deferred_eager_replies ::
  "'l cache_ops \<Rightarrow> reply_order \<Rightarrow> instant \<Rightarrow> ('l, 'r) TopicState \<Rightarrow> ('l, 'r) TopicState" where
  "prune_deferred_eager_replies ops ro now s =
     (let cache = prune_expired_at ops now (ts_message_cache s)
      in prune_eager_reply_claims ro now
           (s\<lparr>ts_message_cache := cache,
              ts_deferred_eager_replies := filter (custody_live ops now cache) (ts_deferred_eager_replies s)\<rparr>))"

definition attach_probe_to_eager_reply_claim ::
  "PeerId \<Rightarrow> MessageIdType \<Rightarrow> nat \<Rightarrow> PeerSendAttempt \<Rightarrow> ('l, 'r) TopicState \<Rightarrow> ('l, 'r) TopicState" where
  "attach_probe_to_eager_reply_claim peer msg_id token attempt s =
     (if at_kind attempt \<noteq> RecoveryProbe then s
      else case ts_eager_reply_claims s (ReplyKey peer msg_id) of
             None \<Rightarrow> s
           | Some claim \<Rightarrow>
               if ec_token claim = token
               then s\<lparr>ts_eager_reply_claims := (ts_eager_reply_claims s)
                        (ReplyKey peer msg_id \<mapsto> claim\<lparr>ec_probe := at_recovery_probe_id attempt\<rparr>)\<rparr>
               else s)"

definition eager_reply_claimed :: "('l, 'r) TopicState \<Rightarrow> PeerId \<Rightarrow> MessageIdType \<Rightarrow> bool" where
  "eager_reply_claimed s peer msg_id \<longleftrightarrow> ts_eager_reply_claims s (ReplyKey peer msg_id) \<noteq> None"

definition insert_eager_reply_claim ::
  "PeerId \<Rightarrow> MessageIdType \<Rightarrow> instant \<Rightarrow> ('l, 'r) TopicState \<Rightarrow> nat \<times> ('l, 'r) TopicState" where
  "insert_eager_reply_claim peer msg_id now s =
     (let token = ts_next_reply_token s
      in (token, s\<lparr>ts_next_reply_token := u64_add token 1,
                   ts_eager_reply_claims := (ts_eager_reply_claims s)(ReplyKey peer msg_id \<mapsto>
                     \<lparr>ec_token = token, ec_claimed_at = now, ec_rerequested = False, ec_probe = None\<rparr>)\<rparr>))"

definition claim_eager_reply_for_iwant ::
  "reply_order \<Rightarrow> PeerId \<Rightarrow> MessageIdType \<Rightarrow> instant \<Rightarrow> ('l, 'r) TopicState \<Rightarrow> nat option \<times> ('l, 'r) TopicState" where
  "claim_eager_reply_for_iwant ro peer msg_id now s =
     (let s1 = prune_eager_reply_claims ro now s
      in case ts_eager_reply_claims s1 (ReplyKey peer msg_id) of
           Some claim \<Rightarrow>
             (None, s1\<lparr>ts_eager_reply_claims := (ts_eager_reply_claims s1)
                         (ReplyKey peer msg_id \<mapsto> claim\<lparr>ec_rerequested := True\<rparr>)\<rparr>)
         | None \<Rightarrow> (let (token, s2) = insert_eager_reply_claim peer msg_id now s1 in (Some token, s2)))"

definition admit_eager_reply_completion ::
  "EagerReplyCompletion \<Rightarrow> ('l, 'r) TopicState \<Rightarrow> AdmittedEagerReply option \<times> ('l, 'r) TopicState" where
  "admit_eager_reply_completion completion s =
     (let key = ReplyKey (rc_peer completion) (rc_msg_id completion);
          stale = (None, case rc_own_custody completion of
                           None \<Rightarrow> s
                         | Some own \<Rightarrow> s\<lparr>ts_deferred_eager_replies :=
                             filter (\<lambda>entry. dr_id entry \<noteq> dr_id own) (ts_deferred_eager_replies s)\<rparr>)
      in case ts_eager_reply_claims s key of
           None \<Rightarrow> stale
         | Some claim \<Rightarrow>
             if ec_token claim = rc_token completion
             then (Some \<lparr>ar_completion = completion, ar_rerequested = ec_rerequested claim\<rparr>,
                   s\<lparr>ts_eager_reply_claims := map_remove key (ts_eager_reply_claims s)\<rparr>)
             else stale)"

definition retain_deferred_eager_reply ::
  "'l cache_ops \<Rightarrow> reply_order \<Rightarrow> PeerId \<Rightarrow> MessageIdType \<Rightarrow> instant \<Rightarrow> ('l, 'r) TopicState \<Rightarrow> bool \<times> ('l, 'r) TopicState" where
  "retain_deferred_eager_reply ops ro peer msg_id now s =
     (let s1 = prune_deferred_eager_replies ops ro now s
      in if \<exists>entry \<in> set (ts_deferred_eager_replies s1). dr_peer entry = peer \<and> dr_msg_id entry = msg_id then (True, s1)
         else if length (ts_deferred_eager_replies s1) \<ge> MAX_DEFERRED_EAGER_REPLIES then (False, s1)
         else (True, s1\<lparr>ts_deferred_eager_replies := ts_deferred_eager_replies s1 @
                 [\<lparr>dr_id = ts_next_custody_id s1, dr_peer = peer, dr_msg_id = msg_id, dr_requested_at = now\<rparr>],
               ts_next_custody_id := u64_add (ts_next_custody_id s1) 1\<rparr>))"

definition apply_eager_reply_outcome ::
  "'l cache_ops \<Rightarrow> reply_order \<Rightarrow> AdmittedEagerReply \<Rightarrow> EagerReplyOutcome \<Rightarrow> instant \<Rightarrow> ('l, 'r) TopicState \<Rightarrow> ('l, 'r) TopicState" where
  "apply_eager_reply_outcome ops ro admitted outcome now s =
     (let completion = ar_completion admitted;
          peer = rc_peer completion;
          msg_id = rc_msg_id completion
      in case outcome of
           ReplySent \<Rightarrow>
             record_lazy_withheld_served msg_id peer (record_stranded_ihave_served msg_id peer
               (s\<lparr>ts_deferred_eager_replies :=
                    filter (\<lambda>entry. dr_peer entry \<noteq> peer \<or> dr_msg_id entry \<noteq> msg_id) (ts_deferred_eager_replies s)\<rparr>))
         | ReplyDeferred \<Rightarrow> snd (retain_deferred_eager_reply ops ro peer msg_id now s)
         | ReplyFailed \<Rightarrow>
             (let s1 = (case rc_own_custody completion of
                          None \<Rightarrow> s
                        | Some own \<Rightarrow> s\<lparr>ts_deferred_eager_replies :=
                            filter (\<lambda>entry. dr_id entry \<noteq> dr_id own) (ts_deferred_eager_replies s)\<rparr>)
              in if ar_rerequested admitted then snd (retain_deferred_eager_reply ops ro peer msg_id now s1) else s1))"

definition settle_eager_reply ::
  "'l cache_ops \<Rightarrow> reply_order \<Rightarrow> EagerReplyCompletion \<Rightarrow> EagerReplyOutcome \<Rightarrow> instant \<Rightarrow> ('l, 'r) TopicState \<Rightarrow> ('l, 'r) TopicState" where
  "settle_eager_reply ops ro completion outcome now s =
     (case admit_eager_reply_completion completion s of
        (None, s1) \<Rightarrow> s1
      | (Some admitted, s1) \<Rightarrow> apply_eager_reply_outcome ops ro admitted outcome now s1)"

definition complete_eager_reply ::
  "'l cache_ops \<Rightarrow> reply_order \<Rightarrow> (duration \<Rightarrow> duration \<Rightarrow> duration) \<Rightarrow> AdaptiveCoolingConfig \<Rightarrow> (PeerId \<rightharpoonup> PeerHealth) \<Rightarrow>
   EagerReplyCompletion \<Rightarrow> EagerReplyOutcome \<Rightarrow> SendAttemptResults \<Rightarrow> instant \<Rightarrow> ('l, 'r) TopicState \<Rightarrow> ('l, 'r) TopicState" where
  "complete_eager_reply ops ro dec config health completion outcome results now s =
     (case admit_eager_reply_completion completion s of
        (None, s1) \<Rightarrow> s1
      | (Some admitted, s1) \<Rightarrow>
          book_topic_send_attempt_results dec config health now results
            (apply_eager_reply_outcome ops ro admitted outcome now s1))"

text \<open>The claiming block of a retry: the reply is claimed when nobody holds it and the send claim
  granted an attempt, under the lock of that send claim. \<open>mesh\<close> is the mesh the send claim left.\<close>

definition retry_claim ::
  "reply_order \<Rightarrow> PeerId \<Rightarrow> MessageIdType \<Rightarrow> instant \<Rightarrow> (MeshState \<Rightarrow> PeerSendAttempt list \<times> MeshState) \<Rightarrow>
   ('l, 'r) TopicState \<Rightarrow> nat option \<times> ('l, 'r) TopicState" where
  "retry_claim ro peer msg_id now send_claim s =
     (let s1 = prune_eager_reply_claims ro now s
      in if eager_reply_claimed s1 peer msg_id then (None, s1)
         else let (attempts, mesh) = send_claim (ts_mesh s1);
                  s2 = s1\<lparr>ts_mesh := mesh\<rparr>
              in if attempts = [] then (None, s2)
                 else let (token, s3) = insert_eager_reply_claim peer msg_id now s2
                      in (Some token, fold (attach_probe_to_eager_reply_claim peer msg_id token) attempts s3))"

text \<open>Connected-set refresh: the records of peers that are no longer connected go.\<close>

definition drop_disconnected_reply_records :: "PeerId set \<Rightarrow> ('l, 'r) TopicState \<Rightarrow> ('l, 'r) TopicState" where
  "drop_disconnected_reply_records connected_set s =
     s\<lparr>ts_deferred_eager_replies := filter (\<lambda>entry. dr_peer entry \<in> connected_set) (ts_deferred_eager_replies s),
       ts_eager_reply_claims := map_retain (\<lambda>k _. rk_peer k \<in> connected_set) (ts_eager_reply_claims s)\<rparr>"

text \<open>A retry finds that the cached message may not be served: its custody entry is dropped.\<close>

definition discard_deferred_reply :: "DeferredEagerReply \<Rightarrow> ('l, 'r) TopicState \<Rightarrow> ('l, 'r) TopicState" where
  "discard_deferred_reply entry s =
     s\<lparr>ts_deferred_eager_replies := filter (\<lambda>candidate. candidate \<noteq> entry) (ts_deferred_eager_replies s)\<rparr>"

subsection \<open>Runs of a topic's replies\<close>

datatype reply_phase = Idle | Pending | InFlight nat

definition key_of :: "DeferredEagerReply \<Rightarrow> reply_key" where
  "key_of entry = ReplyKey (dr_peer entry) (dr_msg_id entry)"

definition completion_key :: "EagerReplyCompletion \<Rightarrow> reply_key" where
  "completion_key c = ReplyKey (rc_peer c) (rc_msg_id c)"

definition in_custody :: "('l, 'r) TopicState \<Rightarrow> reply_key \<Rightarrow> bool" where
  "in_custody s k \<longleftrightarrow> k \<in> key_of ` set (ts_deferred_eager_replies s)"

definition phase :: "('l, 'r) TopicState \<Rightarrow> reply_key \<Rightarrow> reply_phase" where
  "phase s k =
     (case ts_eager_reply_claims s k of
        Some claim \<Rightarrow> InFlight (ec_token claim)
      | None \<Rightarrow> if in_custody s k then Pending else Idle)"

text \<open>What happens to the replies of a topic, with the inputs of each operation: whether a retry was
  granted an attempt, the completion that is presented, the peers that are disconnected, and the ids
  other topics took meanwhile.\<close>

datatype reply_event =
    IwantEvent reply_key
  | RetryEvent reply_key bool
  | CompletionEvent EagerReplyCompletion EagerReplyOutcome
  | DisconnectEvent "PeerId set"
  | DiscardEvent DeferredEagerReply
  | PruneEvent
  | PruneClaimsEvent
  | OtherTopicsEvent nat nat
  | TopicRemovedEvent

text \<open>A run of a topic's replies. The first component collects every custody entry there ever was:
  a completion may present one that is long gone. A topic that is removed is later created anew,
  while the counters of the process go on.\<close>

inductive reply_step ::
  "'l cache_ops \<Rightarrow> reply_order \<Rightarrow> reply_event \<Rightarrow> instant \<Rightarrow> DeferredEagerReply set \<times> ('l, 'r) TopicState \<Rightarrow>
   DeferredEagerReply set \<times> ('l, 'r) TopicState \<Rightarrow> bool" for ops ro where
  reply_iwant: "claim_eager_reply_for_iwant ro peer msg_id now s = (token, s') \<Longrightarrow> ts_next_reply_token s < u64_max \<Longrightarrow>
    reply_step ops ro (IwantEvent (ReplyKey peer msg_id)) now (H, s) (H, s')"
| reply_retry: "retry_claim ro peer msg_id now send_claim s = (token, s') \<Longrightarrow> ts_next_reply_token s < u64_max \<Longrightarrow>
    granted = (fst (send_claim (ts_mesh (prune_eager_reply_claims ro now s))) \<noteq> []) \<Longrightarrow>
    reply_step ops ro (RetryEvent (ReplyKey peer msg_id) granted) now (H, s) (H, s')"
| reply_settle: "settle_eager_reply ops ro c outcome now s = s' \<Longrightarrow> ts_next_custody_id s < u64_max \<Longrightarrow>
    (\<forall>own. rc_own_custody c = Some own \<longrightarrow> own \<in> H \<and> key_of own = completion_key c) \<Longrightarrow>
    reply_step ops ro (CompletionEvent c outcome) now (H, s)
      (H \<union> set (ts_deferred_eager_replies s'), s')"
| reply_book: "book_topic_send_attempt_results dec config health now results s = s' \<Longrightarrow>
    reply_step ops ro (DisconnectEvent (at_peer ` set (sr_not_connected results))) now (H, s) (H, s')"
| reply_refresh: "reply_step ops ro (DisconnectEvent (- connected_set)) now (H, s) (H, drop_disconnected_reply_records connected_set s)"
| reply_discard: "entry \<in> H \<Longrightarrow> reply_step ops ro (DiscardEvent entry) now (H, s) (H, discard_deferred_reply entry s)"
| reply_prune: "reply_step ops ro PruneEvent now (H, s) (H, prune_deferred_eager_replies ops ro now s)"
| reply_prune_claims: "reply_step ops ro PruneClaimsEvent now (H, s) (H, prune_eager_reply_claims ro now s)"
| reply_elsewhere: "ts_next_custody_id s \<le> i \<Longrightarrow> i \<le> u64_max \<Longrightarrow> ts_next_reply_token s \<le> t \<Longrightarrow> t \<le> u64_max \<Longrightarrow>
    reply_step ops ro (OtherTopicsEvent i t) now (H, s) (H, s\<lparr>ts_next_custody_id := i, ts_next_reply_token := t\<rparr>)"
| reply_removed: "reply_step ops ro TopicRemovedEvent now (H, s)
    (H, with_cache_config ops rops max_count max_bytes max_age now probe_id (ts_next_custody_id s) (ts_next_reply_token s))"

definition reply_inv :: "DeferredEagerReply set \<times> ('l, 'r) TopicState \<Rightarrow> bool" where
  "reply_inv Hs \<longleftrightarrow>
     (let H = fst Hs; s = snd Hs in
      inj_on dr_id H \<and> set (ts_deferred_eager_replies s) \<subseteq> H \<and>
      (\<forall>e \<in> H. dr_id e < ts_next_custody_id s) \<and> ts_next_custody_id s \<le> u64_max \<and>
      distinct (map key_of (ts_deferred_eager_replies s)) \<and>
      length (ts_deferred_eager_replies s) \<le> MAX_DEFERRED_EAGER_REPLIES \<and>
      (\<forall>k c. ts_eager_reply_claims s k = Some c \<longrightarrow> ec_token c < ts_next_reply_token s) \<and>
      (\<forall>k k' c c'. ts_eager_reply_claims s k = Some c \<longrightarrow> ts_eager_reply_claims s k' = Some c' \<longrightarrow>
         ec_token c = ec_token c' \<longrightarrow> k = k') \<and> ts_next_reply_token s \<le> u64_max)"

lemma reply_invI:
  assumes "inj_on dr_id H" "set (ts_deferred_eager_replies s) \<subseteq> H" "\<And>e. e \<in> H \<Longrightarrow> dr_id e < ts_next_custody_id s"
    "ts_next_custody_id s \<le> u64_max" "distinct (map key_of (ts_deferred_eager_replies s))"
    "length (ts_deferred_eager_replies s) \<le> MAX_DEFERRED_EAGER_REPLIES"
    "\<And>k c. ts_eager_reply_claims s k = Some c \<Longrightarrow> ec_token c < ts_next_reply_token s"
    "\<And>k k' c c'. ts_eager_reply_claims s k = Some c \<Longrightarrow> ts_eager_reply_claims s k' = Some c' \<Longrightarrow> ec_token c = ec_token c' \<Longrightarrow> k = k'"
    "ts_next_reply_token s \<le> u64_max"
  shows "reply_inv (H, s)"
  unfolding reply_inv_def Let_def fst_conv snd_conv using assms by blast

lemma reply_invD:
  assumes "reply_inv (H, s)"
  shows "inj_on dr_id H" "set (ts_deferred_eager_replies s) \<subseteq> H" "\<And>e. e \<in> H \<Longrightarrow> dr_id e < ts_next_custody_id s"
    "ts_next_custody_id s \<le> u64_max" "distinct (map key_of (ts_deferred_eager_replies s))"
    "length (ts_deferred_eager_replies s) \<le> MAX_DEFERRED_EAGER_REPLIES"
    "\<And>k c. ts_eager_reply_claims s k = Some c \<Longrightarrow> ec_token c < ts_next_reply_token s"
    "\<And>k k' c c'. ts_eager_reply_claims s k = Some c \<Longrightarrow> ts_eager_reply_claims s k' = Some c' \<Longrightarrow> ec_token c = ec_token c' \<Longrightarrow> k = k'"
    "ts_next_reply_token s \<le> u64_max"
  using assms unfolding reply_inv_def Let_def fst_conv snd_conv by blast+

subsection \<open>What the operations do to the records\<close>

text \<open>The reply records of a topic, as far as the lifecycle looks at them.\<close>

definition token_of :: "('l, 'r) TopicState \<Rightarrow> reply_key \<rightharpoonup> nat" where
  "token_of s k = map_option ec_token (ts_eager_reply_claims s k)"

definition reply_view :: "('l, 'r) TopicState \<Rightarrow> DeferredEagerReply list \<times> (reply_key \<rightharpoonup> nat) \<times> nat \<times> nat" where
  "reply_view s = (ts_deferred_eager_replies s, token_of s, ts_next_custody_id s, ts_next_reply_token s)"

lemma phase_token: "phase s k = (case token_of s k of Some t \<Rightarrow> InFlight t | None \<Rightarrow> if in_custody s k then Pending else Idle)"
  by (simp add: phase_def token_of_def split: option.split)

lemma phase_view: "reply_view s' = reply_view s \<Longrightarrow> phase s' k = phase s k"
  by (simp add: reply_view_def phase_token in_custody_def)

lemma token_of_Some: "ts_eager_reply_claims s k = Some c \<Longrightarrow> token_of s k = Some (ec_token c)"
  by (simp add: token_of_def)

lemma reply_inv_view:
  assumes "reply_view s' = reply_view s" "reply_inv (H, s)"
  shows "reply_inv (H, s')"
proof -
  have v: "ts_deferred_eager_replies s' = ts_deferred_eager_replies s" "token_of s' = token_of s"
    "ts_next_custody_id s' = ts_next_custody_id s" "ts_next_reply_token s' = ts_next_reply_token s"
    using assms(1) by (simp_all add: reply_view_def)
  note D = reply_invD [OF assms(2)]
  have old: "\<exists>x. ts_eager_reply_claims s k = Some x \<and> ec_token x = ec_token c" if "ts_eager_reply_claims s' k = Some c" for k c
    using token_of_Some [OF that] unfolding v(2) token_of_def by auto
  show ?thesis
  proof (rule reply_invI)
    show "ec_token c < ts_next_reply_token s'" if "ts_eager_reply_claims s' k = Some c" for k c
      using old [OF that] D(7) v(4) by force
    show "k = k'" if "ts_eager_reply_claims s' k = Some x" "ts_eager_reply_claims s' k' = Some y" "ec_token x = ec_token y" for k k' x y
      using old [OF that(1)] old [OF that(2)] that(3) D(8) by metis
  qed (use D v in simp_all)
qed

lemma prune_claims_fields [simp]:
  "ts_eager_reply_claims (prune_eager_reply_claims ro now s) = map_retain (\<lambda>_. claim_live now) (ts_eager_reply_claims s)"
  "ts_deferred_eager_replies (prune_eager_reply_claims ro now s) = ts_deferred_eager_replies s"
  "ts_next_custody_id (prune_eager_reply_claims ro now s) = ts_next_custody_id s"
  "ts_next_reply_token (prune_eager_reply_claims ro now s) = ts_next_reply_token s"
  "ts_message_cache (prune_eager_reply_claims ro now s) = ts_message_cache s"
  by (simp_all add: prune_eager_reply_claims_def Let_def)

lemma prune_custody_fields [simp]:
  "ts_eager_reply_claims (prune_deferred_eager_replies ops ro now s) = map_retain (\<lambda>_. claim_live now) (ts_eager_reply_claims s)"
  "ts_deferred_eager_replies (prune_deferred_eager_replies ops ro now s) =
     filter (custody_live ops now (prune_expired_at ops now (ts_message_cache s))) (ts_deferred_eager_replies s)"
  "ts_next_custody_id (prune_deferred_eager_replies ops ro now s) = ts_next_custody_id s"
  "ts_next_reply_token (prune_deferred_eager_replies ops ro now s) = ts_next_reply_token s"
  by (simp_all add: prune_deferred_eager_replies_def Let_def)

text \<open>Removing records keeps the invariant.\<close>

lemma reply_inv_shrink:
  assumes "reply_inv (H, s)" "ts_deferred_eager_replies s' = filter P (ts_deferred_eager_replies s)"
    "ts_eager_reply_claims s' \<subseteq>\<^sub>m ts_eager_reply_claims s"
    "ts_next_custody_id s' = ts_next_custody_id s" "ts_next_reply_token s' = ts_next_reply_token s"
  shows "reply_inv (H, s')"
proof -
  have c: "ts_eager_reply_claims s k = Some c" if "ts_eager_reply_claims s' k = Some c" for k c
    using assms(3) that by (auto simp: map_le_def dom_def)
  note D = reply_invD [OF assms(1)]
  show ?thesis
  proof (rule reply_invI)
    show "inj_on dr_id H" by (rule D(1))
    show "set (ts_deferred_eager_replies s') \<subseteq> H" using D(2) assms(2) by auto
    show "dr_id e < ts_next_custody_id s'" if "e \<in> H" for e using D(3) [OF that] assms(4) by simp
    show "distinct (map key_of (ts_deferred_eager_replies s'))" using D(5) assms(2) by (simp add: distinct_map_filter)
    show "length (ts_deferred_eager_replies s') \<le> MAX_DEFERRED_EAGER_REPLIES"
      unfolding assms(2) using D(6) by (meson length_filter_le order_trans)
    show "ec_token c < ts_next_reply_token s'" if "ts_eager_reply_claims s' k = Some c" for k c
      using D(7) [OF c [OF that]] assms(5) by simp
    show "k = k'" if "ts_eager_reply_claims s' k = Some x" "ts_eager_reply_claims s' k' = Some y" "ec_token x = ec_token y" for k k' x y
      using D(8) [OF c [OF that(1)] c [OF that(2)] that(3)] .
  qed (use D(4,9) assms(4,5) in simp_all)
qed

lemma map_retain_le: "map_retain P m \<subseteq>\<^sub>m m"
  by (auto simp: map_le_def map_retain_def split: option.splits)

lemma reply_inv_union: "reply_inv (H, s) \<Longrightarrow> H \<union> set (ts_deferred_eager_replies s) = H"
  by (auto simp: reply_inv_def Let_def)

lemma reply_inv_prune_claims: "reply_inv (H, s) \<Longrightarrow> reply_inv (H, prune_eager_reply_claims ro now s)"
  by (rule reply_inv_shrink [where s = s and P = "\<lambda>_. True"]) (simp_all add: map_retain_le)

lemma reply_inv_prune: "reply_inv (H, s) \<Longrightarrow> reply_inv (H, prune_deferred_eager_replies ops ro now s)"
  by (rule reply_inv_shrink [where s = s]) (simp_all add: map_retain_le)

lemma reply_inv_append:
  assumes "reply_inv (H, s)" "\<not> in_custody s (key_of e)" "length (ts_deferred_eager_replies s) < MAX_DEFERRED_EAGER_REPLIES"
    "dr_id e = ts_next_custody_id s" "ts_next_custody_id s < u64_max"
  shows "reply_inv (insert e H, s\<lparr>ts_deferred_eager_replies := ts_deferred_eager_replies s @ [e],
    ts_next_custody_id := u64_add (ts_next_custody_id s) 1\<rparr>)"
proof -
  have n: "u64_add (ts_next_custody_id s) 1 = ts_next_custody_id s + 1" using assms(5) by simp
  note D = reply_invD [OF assms(1)]
  show ?thesis
  proof (rule reply_invI)
    have "dr_id e \<notin> dr_id ` H" using D(3) assms(4) by (metis imageE less_irrefl)
    then show "inj_on dr_id (insert e H)" unfolding inj_on_insert using D(1) by blast
    show "dr_id x < ts_next_custody_id (s\<lparr>ts_deferred_eager_replies := ts_deferred_eager_replies s @ [e],
        ts_next_custody_id := u64_add (ts_next_custody_id s) 1\<rparr>)" if "x \<in> insert e H" for x
      using that D(3) [of x] assms(4) n by auto
    show "k = k'" if "ts_eager_reply_claims (s\<lparr>ts_deferred_eager_replies := ts_deferred_eager_replies s @ [e],
        ts_next_custody_id := u64_add (ts_next_custody_id s) 1\<rparr>) k = Some x"
      "ts_eager_reply_claims (s\<lparr>ts_deferred_eager_replies := ts_deferred_eager_replies s @ [e],
        ts_next_custody_id := u64_add (ts_next_custody_id s) 1\<rparr>) k' = Some y" "ec_token x = ec_token y" for k k' x y
      using that D(8) by simp
    show "distinct (map key_of (ts_deferred_eager_replies (s\<lparr>ts_deferred_eager_replies := ts_deferred_eager_replies s @ [e],
        ts_next_custody_id := u64_add (ts_next_custody_id s) 1\<rparr>)))"
      using D(5) assms(2) by (simp add: in_custody_def)
  qed (use D(2,7,9) assms(3,5) n in auto)
qed

text \<open>What \<open>retain_deferred_eager_reply\<close> leaves.\<close>

lemma retain_reply:
  fixes ops ro peer msg_id now
  assumes "reply_inv (H, s)" "ts_next_custody_id s < u64_max"
  defines "s' \<equiv> snd (retain_deferred_eager_reply ops ro peer msg_id now s)"
  shows "reply_inv (H \<union> set (ts_deferred_eager_replies s'), s')"
    "ts_eager_reply_claims s' = map_retain (\<lambda>_. claim_live now) (ts_eager_reply_claims s)"
    "in_custody s' k \<Longrightarrow> in_custody s k \<or> k = ReplyKey peer msg_id"
    "fst (retain_deferred_eager_reply ops ro peer msg_id now s) \<Longrightarrow> in_custody s' (ReplyKey peer msg_id)"
    "\<not> fst (retain_deferred_eager_reply ops ro peer msg_id now s) \<Longrightarrow>
       length (ts_deferred_eager_replies s) = MAX_DEFERRED_EAGER_REPLIES"
    "ts_next_reply_token s' = ts_next_reply_token s"
proof -
  define s1 where "s1 = prune_deferred_eager_replies ops ro now s"
  have f1: "ts_eager_reply_claims s1 = map_retain (\<lambda>_. claim_live now) (ts_eager_reply_claims s)"
    "set (ts_deferred_eager_replies s1) \<subseteq> set (ts_deferred_eager_replies s)"
    "length (ts_deferred_eager_replies s1) \<le> length (ts_deferred_eager_replies s)"
    "ts_next_custody_id s1 = ts_next_custody_id s" "ts_next_reply_token s1 = ts_next_reply_token s"
    by (auto simp: s1_def)
  let ?e = "\<lparr>dr_id = ts_next_custody_id s1, dr_peer = peer, dr_msg_id = msg_id, dr_requested_at = now\<rparr>"
  let ?s2 = "s1\<lparr>ts_deferred_eager_replies := ts_deferred_eager_replies s1 @ [?e],
    ts_next_custody_id := u64_add (ts_next_custody_id s1) 1\<rparr>"
  have inv1: "reply_inv (H, s1)" unfolding s1_def by (rule reply_inv_prune [OF assms(1)])
  have held: "in_custody s1 (ReplyKey peer msg_id) \<longleftrightarrow>
      (\<exists>entry \<in> set (ts_deferred_eager_replies s1). dr_peer entry = peer \<and> dr_msg_id entry = msg_id)"
    unfolding in_custody_def key_of_def by force
  have r: "in_custody s1 (ReplyKey peer msg_id) \<Longrightarrow> retain_deferred_eager_reply ops ro peer msg_id now s = (True, s1)"
    "\<not> in_custody s1 (ReplyKey peer msg_id) \<Longrightarrow> length (ts_deferred_eager_replies s1) \<ge> MAX_DEFERRED_EAGER_REPLIES \<Longrightarrow>
       retain_deferred_eager_reply ops ro peer msg_id now s = (False, s1)"
    "\<not> in_custody s1 (ReplyKey peer msg_id) \<Longrightarrow> \<not> length (ts_deferred_eager_replies s1) \<ge> MAX_DEFERRED_EAGER_REPLIES \<Longrightarrow>
       retain_deferred_eager_reply ops ro peer msg_id now s = (True, ?s2)"
    unfolding retain_deferred_eager_reply_def Let_def s1_def [symmetric] held [symmetric] by (simp_all only: if_True if_False not_False_eq_True)
  consider (there) "in_custody s1 (ReplyKey peer msg_id)" "retain_deferred_eager_reply ops ro peer msg_id now s = (True, s1)"
    | (full) "length (ts_deferred_eager_replies s1) \<ge> MAX_DEFERRED_EAGER_REPLIES"
        "retain_deferred_eager_reply ops ro peer msg_id now s = (False, s1)"
    | (new) "\<not> in_custody s1 (ReplyKey peer msg_id)" "length (ts_deferred_eager_replies s1) < MAX_DEFERRED_EAGER_REPLIES"
        "retain_deferred_eager_reply ops ro peer msg_id now s = (True, ?s2)"
    using r not_le by blast
  then have "reply_inv (H \<union> set (ts_deferred_eager_replies s'), s') \<and>
    ts_eager_reply_claims s' = map_retain (\<lambda>_. claim_live now) (ts_eager_reply_claims s) \<and>
    (in_custody s' k \<longrightarrow> in_custody s k \<or> k = ReplyKey peer msg_id) \<and>
    (fst (retain_deferred_eager_reply ops ro peer msg_id now s) \<longrightarrow> in_custody s' (ReplyKey peer msg_id)) \<and>
    (\<not> fst (retain_deferred_eager_reply ops ro peer msg_id now s) \<longrightarrow>
       length (ts_deferred_eager_replies s) = MAX_DEFERRED_EAGER_REPLIES) \<and> ts_next_reply_token s' = ts_next_reply_token s"
  proof cases
    case there
    then show ?thesis using inv1 reply_inv_union [OF inv1] f1 unfolding s'_def in_custody_def by auto
  next
    case full
    then have "length (ts_deferred_eager_replies s) = MAX_DEFERRED_EAGER_REPLIES"
      using reply_invD(6) [OF assms(1)] f1(3) by linarith
    then show ?thesis using full inv1 reply_inv_union [OF inv1] f1 unfolding s'_def in_custody_def by auto
  next
    case new
    have "reply_inv (insert ?e H, ?s2)"
      using new assms(2) f1(4) by (intro reply_inv_append [OF inv1]) (simp_all add: key_of_def)
    moreover have "H \<union> set (ts_deferred_eager_replies ?s2) = insert ?e H" using reply_inv_union [OF inv1] by auto
    moreover have "in_custody ?s2 q \<longleftrightarrow> in_custody s1 q \<or> q = ReplyKey peer msg_id" for q
      by (auto simp: in_custody_def key_of_def)
    ultimately show ?thesis using new f1 unfolding s'_def by (auto simp: in_custody_def)
  qed
  then show "reply_inv (H \<union> set (ts_deferred_eager_replies s'), s')"
    "ts_eager_reply_claims s' = map_retain (\<lambda>_. claim_live now) (ts_eager_reply_claims s)"
    "in_custody s' k \<Longrightarrow> in_custody s k \<or> k = ReplyKey peer msg_id"
    "fst (retain_deferred_eager_reply ops ro peer msg_id now s) \<Longrightarrow> in_custody s' (ReplyKey peer msg_id)"
    "\<not> fst (retain_deferred_eager_reply ops ro peer msg_id now s) \<Longrightarrow>
       length (ts_deferred_eager_replies s) = MAX_DEFERRED_EAGER_REPLIES"
    "ts_next_reply_token s' = ts_next_reply_token s" by auto
qed

lemma attach_view [simp]: "reply_view (attach_probe_to_eager_reply_claim peer msg_id token attempt s) = reply_view s"
  by (auto simp: reply_view_def token_of_def attach_probe_to_eager_reply_claim_def fun_eq_iff split: option.split)

lemma attach_all_view [simp]: "reply_view (fold (attach_probe_to_eager_reply_claim peer msg_id token) attempts s) = reply_view s"
  by (induction attempts arbitrary: s) auto

lemma insert_claim:
  fixes peer msg_id now
  assumes "reply_inv (H, s)" "ts_eager_reply_claims s (ReplyKey peer msg_id) = None" "ts_next_reply_token s < u64_max"
  defines "s' \<equiv> snd (insert_eager_reply_claim peer msg_id now s)"
  shows "reply_inv (H, s')" "token_of s' = (token_of s)(ReplyKey peer msg_id \<mapsto> ts_next_reply_token s)"
    "ts_deferred_eager_replies s' = ts_deferred_eager_replies s"
proof -
  note D = reply_invD [OF assms(1)]
  have n: "u64_add (ts_next_reply_token s) 1 = ts_next_reply_token s + 1" using assms(3) by simp
  have claims: "ts_eager_reply_claims s' = (ts_eager_reply_claims s)(ReplyKey peer msg_id \<mapsto>
      \<lparr>ec_token = ts_next_reply_token s, ec_claimed_at = now, ec_rerequested = False, ec_probe = None\<rparr>)"
    and rest: "ts_deferred_eager_replies s' = ts_deferred_eager_replies s" "ts_next_custody_id s' = ts_next_custody_id s"
      "ts_next_reply_token s' = ts_next_reply_token s + 1"
    using n by (simp_all add: s'_def insert_eager_reply_claim_def Let_def)
  show "token_of s' = (token_of s)(ReplyKey peer msg_id \<mapsto> ts_next_reply_token s)"
    by (auto simp: token_of_def claims)
  show "ts_deferred_eager_replies s' = ts_deferred_eager_replies s" by (rule rest(1))
  show "reply_inv (H, s')"
  proof (rule reply_invI)
    show "ec_token c < ts_next_reply_token s'" if "ts_eager_reply_claims s' k = Some c" for k c
      using that D(7) [of k c] unfolding claims rest by (auto split: if_splits)
    show "k = k'" if "ts_eager_reply_claims s' k = Some x" "ts_eager_reply_claims s' k' = Some y" "ec_token x = ec_token y" for k k' x y
      using that D(8) [of k x k' y] D(7) [of k x] D(7) [of k' y] unfolding claims by (auto split: if_splits)
  qed (use D rest assms(3) in simp_all)
qed

lemma claim_for_iwant:
  fixes ro peer msg_id now
  assumes "reply_inv (H, s)" "ts_next_reply_token s < u64_max"
  defines "s1 \<equiv> prune_eager_reply_claims ro now s"
    and "r \<equiv> claim_eager_reply_for_iwant ro peer msg_id now s"
  shows "reply_inv (H, snd r)" "in_custody (snd r) k = in_custody s k"
    "token_of (snd r) k = (if k = ReplyKey peer msg_id \<and> token_of s1 k = None then Some (ts_next_reply_token s) else token_of s1 k)"
    "fst r = (if token_of s1 (ReplyKey peer msg_id) = None then Some (ts_next_reply_token s) else None)"
proof -
  have inv1: "reply_inv (H, s1)" unfolding s1_def by (rule reply_inv_prune_claims [OF assms(1)])
  have f1: "ts_deferred_eager_replies s1 = ts_deferred_eager_replies s" "ts_next_reply_token s1 = ts_next_reply_token s"
    by (simp_all add: s1_def)
  have "reply_inv (H, snd r) \<and> in_custody (snd r) k = in_custody s k \<and>
    token_of (snd r) k = (if k = ReplyKey peer msg_id \<and> token_of s1 k = None then Some (ts_next_reply_token s) else token_of s1 k) \<and>
    fst r = (if token_of s1 (ReplyKey peer msg_id) = None then Some (ts_next_reply_token s) else None)"
  proof (cases "ts_eager_reply_claims s1 (ReplyKey peer msg_id)")
    case None
    then have r: "r = (Some (ts_next_reply_token s), snd (insert_eager_reply_claim peer msg_id now s1))"
      unfolding r_def claim_eager_reply_for_iwant_def s1_def [symmetric] Let_def
      by (simp add: insert_eager_reply_claim_def Let_def f1)
    have t: "token_of s1 (ReplyKey peer msg_id) = None" using None by (simp add: token_of_def)
    show ?thesis using insert_claim [OF inv1 None, of now] assms(2) f1 t unfolding r by (auto simp: in_custody_def)
  next
    case (Some claim)
    let ?s2 = "s1\<lparr>ts_eager_reply_claims := (ts_eager_reply_claims s1)(ReplyKey peer msg_id \<mapsto> claim\<lparr>ec_rerequested := True\<rparr>)\<rparr>"
    have r: "r = (None, ?s2)"
      using Some unfolding r_def claim_eager_reply_for_iwant_def s1_def [symmetric] Let_def by simp
    have v: "reply_view ?s2 = reply_view s1" using Some by (auto simp: reply_view_def token_of_def)
    have t: "token_of s1 (ReplyKey peer msg_id) = Some (ec_token claim)" using Some by (simp add: token_of_def)
    have "token_of ?s2 = token_of s1" using v by (simp add: reply_view_def)
    moreover have "in_custody ?s2 k = in_custody s k" using f1 by (simp add: in_custody_def)
    ultimately show ?thesis using reply_inv_view [OF v inv1] t unfolding r by auto
  qed
  then show "reply_inv (H, snd r)" "in_custody (snd r) k = in_custody s k"
    "token_of (snd r) k = (if k = ReplyKey peer msg_id \<and> token_of s1 k = None then Some (ts_next_reply_token s) else token_of s1 k)"
    "fst r = (if token_of s1 (ReplyKey peer msg_id) = None then Some (ts_next_reply_token s) else None)" by auto
qed

lemma retry_claim_result:
  fixes ro peer msg_id now send_claim
  assumes "reply_inv (H, s)" "ts_next_reply_token s < u64_max"
  defines "s1 \<equiv> prune_eager_reply_claims ro now s"
    and "r \<equiv> retry_claim ro peer msg_id now send_claim s"
  shows "reply_inv (H, snd r)" "in_custody (snd r) k = in_custody s k"
    "token_of (snd r) k = token_of s1 k \<or>
      k = ReplyKey peer msg_id \<and> token_of s1 k = None \<and> token_of (snd r) k = Some (ts_next_reply_token s)"
proof -
  have inv1: "reply_inv (H, s1)" unfolding s1_def by (rule reply_inv_prune_claims [OF assms(1)])
  have f1: "ts_deferred_eager_replies s1 = ts_deferred_eager_replies s" "ts_next_reply_token s1 = ts_next_reply_token s"
    by (simp_all add: s1_def)
  obtain attempts mesh where sc: "send_claim (ts_mesh s1) = (attempts, mesh)" by (cases "send_claim (ts_mesh s1)")
  let ?s2 = "s1\<lparr>ts_mesh := mesh\<rparr>"
  have v2: "reply_view ?s2 = reply_view s1" by (simp add: reply_view_def token_of_def fun_eq_iff)
  have inv2: "reply_inv (H, ?s2)" by (rule reply_inv_view [OF v2 inv1])
  have "reply_inv (H, snd r) \<and> ts_deferred_eager_replies (snd r) = ts_deferred_eager_replies s \<and>
    (token_of (snd r) k = token_of s1 k \<or>
      k = ReplyKey peer msg_id \<and> token_of s1 k = None \<and> token_of (snd r) k = Some (ts_next_reply_token s))"
  proof (cases "ts_eager_reply_claims s1 (ReplyKey peer msg_id) = None \<and> attempts \<noteq> []")
    case False
    then have "snd r = s1 \<or> snd r = ?s2"
      unfolding r_def retry_claim_def s1_def [symmetric] Let_def eager_reply_claimed_def using sc by auto
    then show ?thesis using inv1 inv2 v2 f1 by (auto simp: reply_view_def)
  next
    case True
    obtain token s3 where i: "insert_eager_reply_claim peer msg_id now ?s2 = (token, s3)"
      by (cases "insert_eager_reply_claim peer msg_id now ?s2")
    then have r: "snd r = fold (attach_probe_to_eager_reply_claim peer msg_id token) attempts s3"
      unfolding r_def retry_claim_def s1_def [symmetric] Let_def eager_reply_claimed_def using sc True by simp
    have v: "reply_view (snd r) = reply_view s3" unfolding r by simp
    have I: "reply_inv (H, s3)" "token_of s3 = (token_of ?s2)(ReplyKey peer msg_id \<mapsto> ts_next_reply_token ?s2)"
      "ts_deferred_eager_replies s3 = ts_deferred_eager_replies ?s2"
      using insert_claim [OF inv2, of peer msg_id now] True assms(2) f1(2) i by auto
    have "token_of ?s2 = token_of s1" using v2 by (simp add: reply_view_def)
    moreover have "token_of s1 (ReplyKey peer msg_id) = None" using True by (simp add: token_of_def)
    ultimately show ?thesis using v reply_inv_view [OF v I(1)] I(2,3) f1 by (auto simp: reply_view_def)
  qed
  then show "reply_inv (H, snd r)" "in_custody (snd r) k = in_custody s k"
    "token_of (snd r) k = token_of s1 k \<or>
      k = ReplyKey peer msg_id \<and> token_of s1 k = None \<and> token_of (snd r) k = Some (ts_next_reply_token s)"
    by (auto simp: in_custody_def)
qed

text \<open>A completion is current when the claim of its key carries its token.\<close>

definition current_completion :: "EagerReplyCompletion \<Rightarrow> ('l, 'r) TopicState \<Rightarrow> bool" where
  "current_completion c s \<longleftrightarrow> token_of s (completion_key c) = Some (rc_token c)"

definition drop_own_custody :: "EagerReplyCompletion \<Rightarrow> ('l, 'r) TopicState \<Rightarrow> ('l, 'r) TopicState" where
  "drop_own_custody c s =
     (case rc_own_custody c of
        None \<Rightarrow> s
      | Some own \<Rightarrow> s\<lparr>ts_deferred_eager_replies :=
          filter (\<lambda>entry. dr_id entry \<noteq> dr_id own) (ts_deferred_eager_replies s)\<rparr>)"

definition release_claim :: "EagerReplyCompletion \<Rightarrow> ('l, 'r) TopicState \<Rightarrow> ('l, 'r) TopicState" where
  "release_claim c s = s\<lparr>ts_eager_reply_claims := map_remove (completion_key c) (ts_eager_reply_claims s)\<rparr>"

lemma admit_cases:
  "\<not> current_completion c s \<Longrightarrow> admit_eager_reply_completion c s = (None, drop_own_custody c s)"
  "current_completion c s \<Longrightarrow> \<exists>claim. ts_eager_reply_claims s (completion_key c) = Some claim \<and>
     admit_eager_reply_completion c s =
       (Some \<lparr>ar_completion = c, ar_rerequested = ec_rerequested claim\<rparr>, release_claim c s)"
  by (auto simp: current_completion_def token_of_def completion_key_def admit_eager_reply_completion_def
      drop_own_custody_def release_claim_def Let_def split: option.splits)

lemma drop_own:
  assumes "reply_inv (H, s)" "\<forall>own. rc_own_custody c = Some own \<longrightarrow> own \<in> H \<and> key_of own = completion_key c"
  shows "reply_inv (H, drop_own_custody c s)" "token_of (drop_own_custody c s) = token_of s"
    "ts_next_custody_id (drop_own_custody c s) = ts_next_custody_id s"
    "in_custody (drop_own_custody c s) k \<Longrightarrow> in_custody s k"
    "k \<noteq> completion_key c \<Longrightarrow> in_custody (drop_own_custody c s) k = in_custody s k"
proof -
  show "reply_inv (H, drop_own_custody c s)"
    by (cases "rc_own_custody c") (auto simp: drop_own_custody_def intro: assms(1) reply_inv_shrink [OF assms(1)])
  show "token_of (drop_own_custody c s) = token_of s" "ts_next_custody_id (drop_own_custody c s) = ts_next_custody_id s"
    by (auto simp: drop_own_custody_def token_of_def fun_eq_iff split: option.split)
  show sub: "in_custody (drop_own_custody c s) k \<Longrightarrow> in_custody s k" for k
    by (auto simp: drop_own_custody_def in_custody_def split: option.splits)
  have same: "e = own" if "e \<in> set (ts_deferred_eager_replies s)" "rc_own_custody c = Some own" "dr_id e = dr_id own" for e own
    using that reply_invD(1,2) [OF assms(1)] assms(2) by (meson inj_onD subsetD)
  have "in_custody (drop_own_custody c s) k" if held: "in_custody s k" and other: "k \<noteq> completion_key c"
  proof (cases "rc_own_custody c")
    case None
    then show ?thesis using held by (simp add: drop_own_custody_def)
  next
    case (Some own)
    obtain e where e: "e \<in> set (ts_deferred_eager_replies s)" "key_of e = k" using held by (auto simp: in_custody_def)
    then have "dr_id e \<noteq> dr_id own" using same [OF e(1) Some] assms(2) Some other by metis
    then show ?thesis using e Some by (auto simp: drop_own_custody_def in_custody_def)
  qed
  then show "k \<noteq> completion_key c \<Longrightarrow> in_custody (drop_own_custody c s) k = in_custody s k" using sub by blast
qed

lemma release_claim:
  assumes "reply_inv (H, s)"
  shows "reply_inv (H, release_claim c s)" "token_of (release_claim c s) = (token_of s)(completion_key c := None)"
    "in_custody (release_claim c s) k = in_custody s k" "ts_next_custody_id (release_claim c s) = ts_next_custody_id s"
proof -
  show "reply_inv (H, release_claim c s)"
    by (rule reply_inv_shrink [OF assms, of _ "\<lambda>_. True"]) (auto simp: release_claim_def map_le_def)
  show "token_of (release_claim c s) = (token_of s)(completion_key c := None)"
    "in_custody (release_claim c s) k = in_custody s k" "ts_next_custody_id (release_claim c s) = ts_next_custody_id s"
    by (auto simp: release_claim_def token_of_def in_custody_def)
qed

lemma served_view [simp]:
  "reply_view (record_lazy_withheld_served m p s) = reply_view s"
  "reply_view (record_stranded_ihave_served m p s) = reply_view s"
  by (simp_all add: reply_view_def token_of_def fun_eq_iff record_lazy_withheld_served_def record_stranded_ihave_served_def)

definition lapsed :: "instant \<Rightarrow> ('l, 'r) TopicState \<Rightarrow> reply_key \<Rightarrow> bool" where
  "lapsed now s k \<longleftrightarrow> (case ts_eager_reply_claims s k of None \<Rightarrow> False | Some c \<Rightarrow> \<not> claim_live now c)"

lemma token_of_retained:
  "ts_eager_reply_claims s' = map_retain (\<lambda>_. claim_live now) (ts_eager_reply_claims s) \<Longrightarrow>
     token_of s' k = token_of s k \<or> lapsed now s k \<and> token_of s' k = None"
  by (auto simp: token_of_def lapsed_def map_retain_def split: option.splits)

lemma lapsed_release [simp]: "lapsed now (release_claim c s) k \<longleftrightarrow> lapsed now s k \<and> k \<noteq> completion_key c"
  by (simp add: lapsed_def release_claim_def)

lemma lapsed_drop_own [simp]: "lapsed now (drop_own_custody c s) k = lapsed now s k"
  by (simp add: lapsed_def drop_own_custody_def split: option.split)

text \<open>What a settled completion leaves, for the invariant and for the phase of every key.\<close>

lemma settle_current:
  fixes ops ro now outcome
  assumes "reply_inv (H, s)" "ts_next_custody_id s < u64_max" "current_completion c s"
    "\<forall>own. rc_own_custody c = Some own \<longrightarrow> own \<in> H \<and> key_of own = completion_key c"
  defines "s' \<equiv> settle_eager_reply ops ro c outcome now s"
  shows "reply_inv (H \<union> set (ts_deferred_eager_replies s'), s')"
    "k \<noteq> completion_key c \<Longrightarrow> (token_of s' k = token_of s k \<or> outcome \<noteq> ReplySent \<and> lapsed now s k \<and> token_of s' k = None) \<and>
       (in_custody s' k \<longrightarrow> in_custody s k) \<and> (outcome = ReplySent \<longrightarrow> in_custody s' k = in_custody s k)"
    "token_of s' (completion_key c) = None"
    "outcome = ReplySent \<Longrightarrow> \<not> in_custody s' (completion_key c)"
proof -
  obtain claim where claim: "ts_eager_reply_claims s (completion_key c) = Some claim"
    "admit_eager_reply_completion c s = (Some \<lparr>ar_completion = c, ar_rerequested = ec_rerequested claim\<rparr>, release_claim c s)"
    using admit_cases(2) [OF assms(3)] by blast
  let ?s1 = "release_claim c s"
  note R = release_claim [OF assms(1), of c]
  have s': "s' = apply_eager_reply_outcome ops ro \<lparr>ar_completion = c, ar_rerequested = ec_rerequested claim\<rparr> outcome now ?s1"
    by (simp add: s'_def settle_eager_reply_def claim(2))
  have key: "completion_key c = ReplyKey (rc_peer c) (rc_msg_id c)" by (simp add: completion_key_def)
  have retained: "reply_inv (H \<union> set (ts_deferred_eager_replies t'), t') \<and>
      (\<forall>k. token_of t' k = token_of t k \<or> lapsed now t k \<and> token_of t' k = None) \<and>
      (\<forall>k. k \<noteq> completion_key c \<longrightarrow> in_custody t' k \<longrightarrow> in_custody t k)"
    if "reply_inv (H, t)" "ts_next_custody_id t < u64_max"
      "t' = snd (retain_deferred_eager_reply ops ro (rc_peer c) (rc_msg_id c) now t)" for t t'
  proof -
    note Q = retain_reply [OF that(1,2), where ops = ops and ro = ro and peer = "rc_peer c" and msg_id = "rc_msg_id c" and now = now,
        folded that(3)]
    show ?thesis using Q(1) Q(3) token_of_retained [OF Q(2)] unfolding key by blast
  qed
  have goal: "reply_inv (H \<union> set (ts_deferred_eager_replies s'), s') \<and>
    (\<forall>k. k \<noteq> completion_key c \<longrightarrow> (token_of s' k = token_of s k \<or> outcome \<noteq> ReplySent \<and> lapsed now s k \<and> token_of s' k = None) \<and>
       (in_custody s' k \<longrightarrow> in_custody s k) \<and> (outcome = ReplySent \<longrightarrow> in_custody s' k = in_custody s k)) \<and>
    token_of s' (completion_key c) = None \<and> (outcome = ReplySent \<longrightarrow> \<not> in_custody s' (completion_key c))"
  proof (cases outcome)
    case ReplySent
    let ?t = "?s1\<lparr>ts_deferred_eager_replies := filter (\<lambda>e. dr_peer e \<noteq> rc_peer c \<or> dr_msg_id e \<noteq> rc_msg_id c) (ts_deferred_eager_replies ?s1)\<rparr>"
    have v: "reply_view s' = reply_view ?t" unfolding s' ReplySent by (simp add: apply_eager_reply_outcome_def Let_def)
    have inv: "reply_inv (H, ?t)" by (rule reply_inv_shrink [OF R(1)]) simp_all
    have inv': "reply_inv (H, s')" by (rule reply_inv_view [OF v inv])
    have tok: "token_of s' = (token_of s)(completion_key c := None)"
      using v R(2) by (simp add: reply_view_def token_of_def fun_eq_iff)
    have "in_custody s' k \<longleftrightarrow> in_custody s k \<and> k \<noteq> completion_key c" for k
      using v by (auto simp: reply_view_def in_custody_def key_of_def completion_key_def release_claim_def)
    then show ?thesis using inv' reply_inv_union [OF inv'] tok ReplySent by simp
  next
    case ReplyDeferred
    have "s' = snd (retain_deferred_eager_reply ops ro (rc_peer c) (rc_msg_id c) now ?s1)"
      unfolding s' ReplyDeferred by (simp add: apply_eager_reply_outcome_def Let_def)
    from retained [OF R(1) _ this] show ?thesis using R(2-4) assms(2) ReplyDeferred
      by (metis fun_upd_apply EagerReplyOutcome.distinct(1) lapsed_release)
  next
    case ReplyFailed
    let ?t = "drop_own_custody c ?s1"
    have t: "s' = (if ec_rerequested claim then snd (retain_deferred_eager_reply ops ro (rc_peer c) (rc_msg_id c) now ?t) else ?t)"
      unfolding s' ReplyFailed by (simp add: apply_eager_reply_outcome_def drop_own_custody_def Let_def)
    note O = drop_own [OF R(1) assms(4)]
    show ?thesis
    proof (cases "ec_rerequested claim")
      case True
      have "s' = snd (retain_deferred_eager_reply ops ro (rc_peer c) (rc_msg_id c) now ?t)" using t True by simp
      from retained [OF O(1) _ this] show ?thesis using O(2-5) R(2-4) assms(2) ReplyFailed
        by (metis fun_upd_apply EagerReplyOutcome.distinct(3) lapsed_release lapsed_drop_own)
    next
      case False
      then show ?thesis using t O(1,2,4,5) reply_inv_union [OF O(1)] R(2,3) ReplyFailed by (metis fun_upd_apply EagerReplyOutcome.distinct(3))
    qed
  qed
  then show "reply_inv (H \<union> set (ts_deferred_eager_replies s'), s')" "token_of s' (completion_key c) = None"
    "k \<noteq> completion_key c \<Longrightarrow> (token_of s' k = token_of s k \<or> outcome \<noteq> ReplySent \<and> lapsed now s k \<and> token_of s' k = None) \<and>
       (in_custody s' k \<longrightarrow> in_custody s k) \<and> (outcome = ReplySent \<longrightarrow> in_custody s' k = in_custody s k)"
    "outcome = ReplySent \<Longrightarrow> \<not> in_custody s' (completion_key c)"
    by blast+
qed

lemma settle_stale:
  "\<not> current_completion c s \<Longrightarrow> settle_eager_reply ops ro c outcome now s = drop_own_custody c s"
  by (simp add: settle_eager_reply_def admit_cases(1))

text \<open>Operations that drop the records of the peers outside a set and leave the rest alone.\<close>

definition keeps_only :: "PeerId set \<Rightarrow> ('l, 'r) TopicState \<Rightarrow> ('l, 'r) TopicState \<Rightarrow> bool" where
  "keeps_only P s s' \<longleftrightarrow>
     ts_deferred_eager_replies s' = filter (\<lambda>e. dr_peer e \<in> P) (ts_deferred_eager_replies s) \<and>
     ts_eager_reply_claims s' = map_retain (\<lambda>k _. rk_peer k \<in> P) (ts_eager_reply_claims s) \<and>
     ts_next_custody_id s' = ts_next_custody_id s \<and> ts_next_reply_token s' = ts_next_reply_token s"

lemma keeps_only_inv: "keeps_only P s s' \<Longrightarrow> reply_inv (H, s) \<Longrightarrow> reply_inv (H, s')"
  by (rule reply_inv_shrink) (auto simp: keeps_only_def map_retain_le)

lemma keeps_only_claim:
  "keeps_only P s s' \<Longrightarrow> ts_eager_reply_claims s' k = (if rk_peer k \<in> P then ts_eager_reply_claims s k else None)"
  by (auto simp: keeps_only_def map_retain_def split: option.split)

lemma keeps_only_phase:
  assumes "keeps_only P s s'"
  shows "phase s' k = (if rk_peer k \<in> P then phase s k else Idle)"
proof -
  have "in_custody s' k \<longleftrightarrow> in_custody s k \<and> rk_peer k \<in> P"
    using assms by (auto simp: keeps_only_def in_custody_def key_of_def)
  then show ?thesis using keeps_only_claim [OF assms, of k] by (auto simp: phase_def split: option.splits)
qed

lemma keeps_only_trans:
  assumes "keeps_only P s s'" "keeps_only Q s' s''"
  shows "keeps_only (P \<inter> Q) s s''"
  using assms by (auto simp: keeps_only_def filter_filter fun_eq_iff map_retain_def conj_commute split: option.split intro!: filter_cong)

lemma keeps_only_mesh: "keeps_only UNIV s (s\<lparr>ts_mesh := m\<rparr>)"
  by (auto simp: keeps_only_def map_retain_def fun_eq_iff split: option.split)

lemma keeps_only_refl: "keeps_only UNIV s s"
  using keeps_only_mesh [of s "ts_mesh s"] by simp

lemma keeps_only_evict: "keeps_only (- {peer}) s (snd (topic_evict_not_connected_peer peer s))"
  by (simp add: keeps_only_def topic_evict_not_connected_peer_def drop_eager_reply_records_for_peer_def Let_def case_prod_beta)

lemma keeps_only_mesh_fold: "keeps_only UNIV s (fold (\<lambda>a s. s\<lparr>ts_mesh := f a (ts_mesh s)\<rparr>) xs s)"
proof (induction xs arbitrary: s)
  case (Cons x xs)
  show ?case using keeps_only_trans [OF keeps_only_mesh Cons.IH] by simp
qed (simp add: keeps_only_refl)

lemma keeps_only_evict_fold:
  "keeps_only (- at_peer ` set xs) s (fold (\<lambda>a s. snd (topic_evict_not_connected_peer (at_peer a) s)) xs s)"
proof (induction xs arbitrary: s)
  case (Cons x xs)
  have "- at_peer ` set (x # xs) = - {at_peer x} \<inter> - at_peer ` set xs" by auto
  then show ?case using keeps_only_trans [OF keeps_only_evict Cons.IH] by simp
qed (simp add: keeps_only_refl)

lemma keeps_only_book:
  "keeps_only (- at_peer ` set (sr_not_connected results)) s (book_topic_send_attempt_results dec config health now results s)"
  using keeps_only_trans [OF keeps_only_trans [OF keeps_only_mesh_fold keeps_only_evict_fold] keeps_only_mesh_fold]
  by (simp add: book_topic_send_attempt_results_def Let_def)

lemma keeps_only_refresh: "keeps_only connected_set s (drop_disconnected_reply_records connected_set s)"
  by (simp add: keeps_only_def drop_disconnected_reply_records_def)

subsection \<open>What a step keeps\<close>

lemma pruned_token:
  "token_of (prune_eager_reply_claims ro now s) k = token_of s k \<or> lapsed now s k \<and> token_of (prune_eager_reply_claims ro now s) k = None"
  by (rule token_of_retained) simp

lemma reply_step_settle:
  fixes ops ro now outcome
  assumes "reply_inv (H, s)" "ts_next_custody_id s < u64_max"
    "\<forall>own. rc_own_custody c = Some own \<longrightarrow> own \<in> H \<and> key_of own = completion_key c"
  defines "s' \<equiv> settle_eager_reply ops ro c outcome now s"
  shows "reply_inv (H \<union> set (ts_deferred_eager_replies s'), s')"
    "token_of s' k = token_of s k \<or> lapsed now s k \<or> k = completion_key c \<and> current_completion c s"
proof -
  have "reply_inv (H \<union> set (ts_deferred_eager_replies s'), s') \<and>
    (token_of s' k = token_of s k \<or> lapsed now s k \<or> k = completion_key c \<and> current_completion c s)"
  proof (cases "current_completion c s")
    case False
    then have s': "s' = drop_own_custody c s" by (simp add: s'_def settle_stale)
    note O = drop_own [OF assms(1,3)]
    show ?thesis using O(1,2) reply_inv_union [OF O(1)] s' by simp
  next
    case True
    note C = settle_current [OF assms(1,2) True assms(3), where outcome = outcome and ops = ops and ro = ro and now = now, folded s'_def]
    show ?thesis using C(1) C(2) [of k] True by blast
  qed
  then show "reply_inv (H \<union> set (ts_deferred_eager_replies s'), s')"
    "token_of s' k = token_of s k \<or> lapsed now s k \<or> k = completion_key c \<and> current_completion c s" by blast+
qed

lemma discard_records:
  assumes "reply_inv (H, s)"
  shows "reply_inv (H, discard_deferred_reply entry s)" "token_of (discard_deferred_reply entry s) = token_of s"
proof -
  show "reply_inv (H, discard_deferred_reply entry s)"
    by (rule reply_inv_shrink [OF assms, of _ "\<lambda>c. c \<noteq> entry"]) (simp_all add: discard_deferred_reply_def)
  show "token_of (discard_deferred_reply entry s) = token_of s"
    by (simp add: token_of_def discard_deferred_reply_def fun_eq_iff)
qed

text \<open>A step keeps the invariant, and it takes a claim away only for one of the documented reasons.\<close>

definition claim_kept :: "reply_event \<Rightarrow> instant \<Rightarrow> ('l, 'r) TopicState \<Rightarrow> ('l, 'r) TopicState \<Rightarrow> reply_key \<Rightarrow> bool" where
  "claim_kept ev now s s' k \<longleftrightarrow>
     (\<forall>c. ts_eager_reply_claims s k = Some c \<longrightarrow> claim_live now c \<longrightarrow>
        token_of s' k = Some (ec_token c) \<or>
        (\<exists>d out. ev = CompletionEvent d out \<and> completion_key d = k \<and> rc_token d = ec_token c) \<or>
        (\<exists>P. ev = DisconnectEvent P \<and> rk_peer k \<in> P) \<or> ev = TopicRemovedEvent)"

lemma claim_keptI: "token_of s' k = token_of s k \<or> lapsed now s k \<Longrightarrow> claim_kept ev now s s' k"
  by (auto simp: claim_kept_def lapsed_def token_of_def)

lemma keeps_only_step:
  assumes "keeps_only P s s'" "reply_inv (H, s)" "Q = - P"
  shows "reply_inv (H, s') \<and> claim_kept (DisconnectEvent Q) now s s' k"
proof -
  have "claim_kept (DisconnectEvent Q) now s s' k"
  proof (cases "rk_peer k \<in> P")
    case True
    then show ?thesis using keeps_only_claim [OF assms(1), of k] by (intro claim_keptI) (simp add: token_of_def)
  qed (simp add: claim_kept_def assms(3))
  then show ?thesis using keeps_only_inv [OF assms(1,2)] by blast
qed

lemma reply_step_facts:
  assumes "reply_step ops ro ev now (H, s) (H', s')" "reply_inv (H, s)"
  shows "reply_inv (H', s') \<and> claim_kept ev now s s' k"
  using assms(1)
proof (cases rule: reply_step.cases)
  case (reply_iwant peer msg_id token)
  note C = claim_for_iwant [OF assms(2) reply_iwant(4), of ro peer msg_id now, unfolded reply_iwant(3), simplified]
  have "claim_kept ev now s s' k"
    using C(3) [of k] pruned_token [of ro now s k] by (auto simp: claim_kept_def lapsed_def token_of_def split: if_splits)
  then show ?thesis using C(1) reply_iwant(2) by simp
next
  case (reply_retry peer msg_id send_claim token granted)
  note C = retry_claim_result [OF assms(2) reply_retry(4), of ro peer msg_id now send_claim, unfolded reply_retry(3), simplified]
  have "claim_kept ev now s s' k"
    using C(3) [of k] pruned_token [of ro now s k] by (auto simp: claim_kept_def lapsed_def token_of_def)
  then show ?thesis using C(1) reply_retry(2) by simp
next
  case (reply_settle c outcome)
  note S = reply_step_settle [OF assms(2) reply_settle(4,5), where outcome = outcome and ops = ops and ro = ro and now = now,
      unfolded reply_settle(3)]
  have "claim_kept ev now s s' k"
  proof (cases "k = completion_key c \<and> current_completion c s")
    case True
    then show ?thesis unfolding claim_kept_def reply_settle(1) by (auto simp: current_completion_def token_of_def)
  next
    case False
    then show ?thesis using S(2) [of k] by (intro claim_keptI) blast
  qed
  then show ?thesis using S(1) reply_settle(2) by simp
next
  case (reply_book dec config health results)
  then show ?thesis using keeps_only_step [OF keeps_only_book assms(2)] by auto
next
  case (reply_refresh connected_set)
  then show ?thesis using keeps_only_step [OF keeps_only_refresh assms(2)] by auto
next
  case (reply_discard entry)
  then show ?thesis using discard_records [OF assms(2)] by (auto intro!: claim_keptI)
next
  case reply_prune
  have "token_of s' k = token_of s k \<or> lapsed now s k \<and> token_of s' k = None"
    unfolding reply_prune(3) by (rule token_of_retained) simp
  then show ?thesis using reply_prune reply_inv_prune [OF assms(2)] by (auto intro: claim_keptI)
next
  case reply_prune_claims
  then show ?thesis using pruned_token [of ro now s k] reply_inv_prune_claims [OF assms(2)] by (auto intro: claim_keptI)
next
  case (reply_elsewhere i t)
  have "reply_inv (H, s\<lparr>ts_next_custody_id := i, ts_next_reply_token := t\<rparr>)"
  proof (rule reply_invI)
    show "dr_id e < ts_next_custody_id (s\<lparr>ts_next_custody_id := i, ts_next_reply_token := t\<rparr>)" if "e \<in> H" for e
      using reply_invD(3) [OF assms(2) that] reply_elsewhere(4) by simp
    show "ec_token c < ts_next_reply_token (s\<lparr>ts_next_custody_id := i, ts_next_reply_token := t\<rparr>)"
      if "ts_eager_reply_claims (s\<lparr>ts_next_custody_id := i, ts_next_reply_token := t\<rparr>) k = Some c" for k c
      using reply_invD(7) [OF assms(2), of k c] that reply_elsewhere(6) by simp
  qed (use reply_invD [OF assms(2)] reply_elsewhere(5,7) in simp_all)
  then show ?thesis using reply_elsewhere by (auto simp: token_of_def intro: claim_keptI)
next
  case (reply_removed rops max_count max_bytes max_age probe_id)
  have "reply_inv (H, s')"
    unfolding reply_removed(3) by (rule reply_invI) (use reply_invD [OF assms(2)] in \<open>simp_all add: with_cache_config_def\<close>)
  then show ?thesis using reply_removed by (simp add: claim_kept_def)
qed

definition reply_run ::
  "'l cache_ops \<Rightarrow> reply_order \<Rightarrow> DeferredEagerReply set \<times> ('l, 'r) TopicState \<Rightarrow> DeferredEagerReply set \<times> ('l, 'r) TopicState \<Rightarrow> bool" where
  "reply_run ops ro = (\<lambda>x y. \<exists>ev now. reply_step ops ro ev now x y)\<^sup>*\<^sup>*"

lemma reply_inv_run:
  assumes "reply_run ops ro x y" "reply_inv x"
  shows "reply_inv y"
  using assms(1) unfolding reply_run_def
proof (induction rule: rtranclp_induct)
  case (step y z)
  then obtain ev now where "reply_step ops ro ev now (fst y, snd y) (fst z, snd z)" by auto
  from reply_step_facts [OF this] step.IH show ?case by simp
qed (rule assms(2))

lemma reply_inv_new:
  assumes "custody_id \<le> u64_max" "token \<le> u64_max"
  shows "reply_inv ({}, with_cache_config ops rops max_count max_bytes max_age now probe_id custody_id token)"
  by (rule reply_invI) (use assms in \<open>simp_all add: with_cache_config_def\<close>)

subsection \<open>The recovery probe of an expired claim\<close>

definition probe_in_flight :: "MeshState \<Rightarrow> PeerId \<Rightarrow> nat \<Rightarrow> bool" where
  "probe_in_flight m peer probe \<longleftrightarrow>
     (case ms_cooling m peer of None \<Rightarrow> False | Some c \<Rightarrow> matches_recovery_probe c (Some probe))"

lemma abandon_keeps: "\<not> probe_in_flight m p q \<Longrightarrow> \<not> probe_in_flight (abandon_unsent_recovery_probe p' x m) p q"
  by (auto simp: probe_in_flight_def abandon_unsent_recovery_probe_def matches_recovery_probe_def split: option.splits if_splits)

lemma abandon_clears: "\<not> probe_in_flight (abandon_unsent_recovery_probe p (Some q) m) p q"
  by (auto simp: probe_in_flight_def abandon_unsent_recovery_probe_def matches_recovery_probe_def split: option.splits)

lemma abandon_of_keeps: "\<not> probe_in_flight m p q \<Longrightarrow> \<not> probe_in_flight (fold (abandon_probe_of claims) ks m) p q"
proof (induction ks arbitrary: m)
  case (Cons k ks)
  have "\<not> probe_in_flight (abandon_probe_of claims k m) p q"
    using Cons.prems by (simp add: abandon_probe_of_def abandon_keeps split: option.split)
  then show ?case using Cons.IH by simp
qed simp

lemma abandon_of_clears:
  assumes "k \<in> set ks" "claims k = Some c" "ec_probe c = Some q"
  shows "\<not> probe_in_flight (fold (abandon_probe_of claims) ks m) (rk_peer k) q"
  using assms(1)
proof (induction ks arbitrary: m)
  case (Cons x ks)
  show ?case
  proof (cases "x = k")
    case True
    then have "\<not> probe_in_flight (abandon_probe_of claims x m) (rk_peer k) q"
      using assms(2,3) abandon_clears by (simp add: abandon_probe_of_def)
    then show ?thesis using abandon_of_keeps by simp
  next
    case False
    then show ?thesis using Cons by simp
  qed
qed simp

lemma abandon_of_other:
  "(\<And>k. k \<in> set ks \<Longrightarrow> rk_peer k \<noteq> p) \<Longrightarrow> ms_cooling (fold (abandon_probe_of claims) ks m) p = ms_cooling m p"
proof (induction ks arbitrary: m)
  case (Cons k ks)
  have "ms_cooling (abandon_probe_of claims k m) p = ms_cooling m p"
    using Cons.prems [of k] by (auto simp: abandon_probe_of_def abandon_unsent_recovery_probe_def split: option.split)
  then show ?case using Cons.IH [of "abandon_probe_of claims k m"] Cons.prems by simp
qed simp

subsection \<open>Properties\<close>

text \<open>
  The records of a topic's replies are consistent in every reachable state: at most one
  custody entry per requester and message, at most 1024 entries, no custody id used twice, and
  distinct tokens for distinct replies in flight. Counters are assumed not to wrap, which takes
  \<open>2 ^ 64\<close> requests.
\<close>

theorem reply_records_consistent:
  assumes "custody_id \<le> u64_max" "token \<le> u64_max"
    and "reply_run ops ro ({}, with_cache_config ops rops max_count max_bytes max_age now probe_id custody_id token) (H, s)"
  shows "distinct (map key_of (ts_deferred_eager_replies s)) \<and> distinct (map dr_id (ts_deferred_eager_replies s)) \<and>
    length (ts_deferred_eager_replies s) \<le> MAX_DEFERRED_EAGER_REPLIES \<and>
    (\<forall>k k' t. phase s k = InFlight t \<and> phase s k' = InFlight t \<longrightarrow> k = k')"
proof -
  note D = reply_invD [OF reply_inv_run [OF assms(3) reply_inv_new [OF assms(1,2)]]]
  have "distinct (ts_deferred_eager_replies s)" using D(5) by (simp add: distinct_map)
  then have "distinct (map dr_id (ts_deferred_eager_replies s))"
    using D(1,2) by (simp add: distinct_map inj_on_subset)
  moreover have "k = k'" if "phase s k = InFlight t" "phase s k' = InFlight t" for k k' t
    using that D(8) [of k _ k'] by (auto simp: phase_def split: option.splits if_splits)
  ultimately show ?thesis using D(5,6) by blast
qed

definition small_topic ::
  "((MessageIdType, CachedEntry) lru_list, (bytes, PayloadReplayEntry) lru_list) TopicState" where
  "small_topic = with_cache_config list_lru list_lru 4 100000 60000 0 1 1 1"

definition claimed_topic ::
  "((MessageIdType, CachedEntry) lru_list, (bytes, PayloadReplayEntry) lru_list) TopicState" where
  "claimed_topic = snd (claim_eager_reply_for_iwant (\<lambda>_. []) (PeerId [1]) [7] 10 small_topic)"

lemma small_topic_run: "reply_run list_lru (\<lambda>_. []) ({}, small_topic) ({}, claimed_topic)"
proof -
  have "reply_step list_lru (\<lambda>_. []) (IwantEvent (ReplyKey (PeerId [1]) [7])) 10 ({}, small_topic) ({}, claimed_topic)"
    by (rule reply_iwant [where token = "fst (claim_eager_reply_for_iwant (\<lambda>_. []) (PeerId [1]) [7] 10 small_topic)"])
      (simp_all add: claimed_topic_def small_topic_def with_cache_config_def u64_max_eq)
  then show ?thesis unfolding reply_run_def by blast
qed

lemma claimed_topic_claim:
  "ts_eager_reply_claims claimed_topic =
     [ReplyKey (PeerId [1]) [7] \<mapsto> \<lparr>ec_token = 1, ec_claimed_at = 10, ec_rerequested = False, ec_probe = None\<rparr>]"
  by (simp add: claimed_topic_def small_topic_def claim_eager_reply_for_iwant_def Let_def map_retain_def
      insert_eager_reply_claim_def with_cache_config_def fun_eq_iff)

theorem reply_records_consistent_witness:
  "phase claimed_topic (ReplyKey (PeerId [1]) [7]) = InFlight 1 \<and> phase claimed_topic (ReplyKey (PeerId [2]) [7]) \<noteq> InFlight 1"
proof -
  have p: "phase claimed_topic (ReplyKey (PeerId [1]) [7]) = InFlight 1" by (simp add: phase_def claimed_topic_claim)
  have u: "(1 :: nat) \<le> u64_max" by (simp add: u64_max_eq)
  have "\<forall>k k' t. phase claimed_topic k = InFlight t \<and> phase claimed_topic k' = InFlight t \<longrightarrow> k = k'"
    using reply_records_consistent [OF u u small_topic_run [unfolded small_topic_def]] by blast
  then have "phase claimed_topic (ReplyKey (PeerId [2]) [7]) = InFlight 1 \<Longrightarrow> ReplyKey (PeerId [1]) [7] = ReplyKey (PeerId [2]) [7]"
    using p by blast
  then show ?thesis using p by auto
qed

text \<open>
  At most one reply to a requester for a message is in flight: while a claim is younger than a
  minute, no step replaces or removes it except the completion that presents its token, a
  disconnect of the requester and the removal of the topic, so no second send of the reply starts.
\<close>

theorem one_reply_in_flight:
  assumes "custody_id \<le> u64_max" "token \<le> u64_max"
    and "reply_run ops ro ({}, with_cache_config ops rops max_count max_bytes max_age t0 probe_id custody_id token) (H, s)"
    and "reply_step ops ro ev now (H, s) (H', s')"
    and "ts_eager_reply_claims s k = Some c" "now - ec_claimed_at c < EAGER_REPLY_CLAIM_TTL"
  shows "phase s' k = InFlight (ec_token c) \<or>
    (\<exists>d out. ev = CompletionEvent d out \<and> completion_key d = k \<and> rc_token d = ec_token c) \<or>
    (\<exists>P. ev = DisconnectEvent P \<and> rk_peer k \<in> P) \<or> ev = TopicRemovedEvent"
  using reply_step_facts [OF assms(4) reply_inv_run [OF assms(3) reply_inv_new [OF assms(1,2)]], of k] assms(5,6)
  by (auto simp: claim_kept_def claim_live_def phase_token)

theorem one_reply_in_flight_witness:
  "phase (snd (claim_eager_reply_for_iwant (\<lambda>_. []) (PeerId [1]) [7] 50 claimed_topic)) (ReplyKey (PeerId [1]) [7]) = InFlight 1"
proof -
  have "reply_step list_lru (\<lambda>_. []) (IwantEvent (ReplyKey (PeerId [1]) [7])) 50 ({}, claimed_topic)
      ({}, snd (claim_eager_reply_for_iwant (\<lambda>_. []) (PeerId [1]) [7] 50 claimed_topic))"
    by (rule reply_iwant [where token = "fst (claim_eager_reply_for_iwant (\<lambda>_. []) (PeerId [1]) [7] 50 claimed_topic)"])
      (simp_all add: claimed_topic_def small_topic_def claim_eager_reply_for_iwant_def Let_def map_retain_def
        insert_eager_reply_claim_def with_cache_config_def u64_max_eq)
  from one_reply_in_flight [OF _ _ small_topic_run [unfolded small_topic_def] this, of "ReplyKey (PeerId [1]) [7]"]
  show ?thesis by (simp add: u64_max_eq claimed_topic_claim EAGER_REPLY_CLAIM_TTL_def)
qed

text \<open>
  A completion that comes too late has exactly one effect. If the claim of its reply is gone
  or belongs to another send, completing it, with any outcome and any transport results, leaves
  the topic as it was except that the custody entry it was dispatched for is removed: it books no
  timeout, evicts nobody and re-queues nothing.
\<close>

theorem stale_completion_inert:
  assumes "phase s (completion_key c) \<noteq> InFlight (rc_token c)"
  shows "complete_eager_reply ops ro dec config health c outcome results now s =
      s\<lparr>ts_deferred_eager_replies :=
          filter (\<lambda>e. case rc_own_custody c of None \<Rightarrow> True | Some own \<Rightarrow> dr_id e \<noteq> dr_id own) (ts_deferred_eager_replies s)\<rparr> \<and>
    settle_eager_reply ops ro c outcome now s = complete_eager_reply ops ro dec config health c outcome results now s"
proof -
  have stale: "\<not> current_completion c s" using assms by (auto simp: current_completion_def phase_token)
  have "drop_own_custody c s =
      s\<lparr>ts_deferred_eager_replies :=
          filter (\<lambda>e. case rc_own_custody c of None \<Rightarrow> True | Some own \<Rightarrow> dr_id e \<noteq> dr_id own) (ts_deferred_eager_replies s)\<rparr>"
    by (cases "rc_own_custody c") (simp_all add: drop_own_custody_def)
  then show ?thesis using stale by (simp add: complete_eager_reply_def settle_stale admit_cases(1))
qed

theorem stale_completion_inert_witness:
  "complete_eager_reply list_lru (\<lambda>_. []) (\<lambda>c _. c) cooling_config_default Map.empty
     \<lparr>rc_peer = PeerId [1], rc_msg_id = [7], rc_token = 9, rc_own_custody = None\<rparr> ReplySent
     \<lparr>sr_sent = [], sr_timed_out = [], sr_not_connected = [\<lparr>at_peer = PeerId [1], at_kind = NormalSend, at_recovery_probe_id = None\<rparr>]\<rparr>
     30 claimed_topic = claimed_topic"
proof -
  let ?c = "\<lparr>rc_peer = PeerId [1], rc_msg_id = [7 :: u8], rc_token = 9, rc_own_custody = None\<rparr> :: EagerReplyCompletion"
  have "phase claimed_topic (completion_key ?c) \<noteq> InFlight (rc_token ?c)"
    by (simp add: phase_def claimed_topic_claim completion_key_def)
  from stale_completion_inert [OF this] show ?thesis by simp
qed

text \<open>
  A request that is repeated while its reply is in flight is not lost when that reply fails: the
  completion puts it back into custody, as it does for a reply that was deferred, as long as
  custody is not full. A reply that was sent leaves neither claim nor custody.
\<close>

theorem failed_reply_requeued:
  assumes "custody_id \<le> u64_max" "token \<le> u64_max"
    and "reply_run ops ro ({}, with_cache_config ops rops max_count max_bytes max_age t0 probe_id custody_id token) (H, s)"
    and "ts_next_custody_id s < u64_max" "length (ts_deferred_eager_replies s) < MAX_DEFERRED_EAGER_REPLIES"
    and "\<forall>own. rc_own_custody c = Some own \<longrightarrow> own \<in> H \<and> key_of own = completion_key c"
    and "ts_eager_reply_claims s (completion_key c) = Some claim" "ec_token claim = rc_token c"
  shows "phase (settle_eager_reply ops ro c outcome now s) (completion_key c) =
    (case outcome of
       ReplySent \<Rightarrow> Idle
     | ReplyDeferred \<Rightarrow> Pending
     | ReplyFailed \<Rightarrow> if ec_rerequested claim then Pending
                     else if in_custody (drop_own_custody c s) (completion_key c) then Pending else Idle)"
proof -
  have inv: "reply_inv (H, s)" using reply_inv_run [OF assms(3) reply_inv_new [OF assms(1,2)]] .
  have cur: "current_completion c s" using assms(7,8) by (simp add: current_completion_def token_of_def)
  note C = settle_current [OF inv assms(4) cur assms(6), where ops = ops and ro = ro and now = now]
  have settle: "settle_eager_reply ops ro c outcome now s =
      apply_eager_reply_outcome ops ro \<lparr>ar_completion = c, ar_rerequested = ec_rerequested claim\<rparr> outcome now (release_claim c s)"
    using admit_cases(2) [OF cur] assms(7) by (auto simp: settle_eager_reply_def)
  have retained: "in_custody (snd (retain_deferred_eager_reply ops ro (rc_peer c) (rc_msg_id c) now t)) (completion_key c)"
    if "reply_inv (H, t)" "ts_next_custody_id t < u64_max" "length (ts_deferred_eager_replies t) < MAX_DEFERRED_EAGER_REPLIES" for t
    using retain_reply(4,5) [OF that(1,2), where ops = ops and ro = ro and peer = "rc_peer c" and msg_id = "rc_msg_id c" and now = now] that(3)
    by (auto simp: completion_key_def)
  note R = release_claim [OF inv, of c]
  note O = drop_own [OF R(1) assms(6)]
  have len: "length (ts_deferred_eager_replies (drop_own_custody c (release_claim c s))) < MAX_DEFERRED_EAGER_REPLIES"
    using assms(5)
    by (cases "rc_own_custody c") (simp_all add: drop_own_custody_def release_claim_def le_less_trans [OF length_filter_le])
  have pend: "phase t (completion_key c) = (if in_custody t (completion_key c) then Pending else Idle)"
    if "t = settle_eager_reply ops ro c outcome now s" for t using C(3) [of outcome] that by (simp add: phase_token)
  show ?thesis
  proof (cases outcome)
    case ReplySent
    then show ?thesis using pend [OF refl] C(4) [of outcome] by simp
  next
    case ReplyDeferred
    have "in_custody (settle_eager_reply ops ro c outcome now s) (completion_key c)"
      using retained [OF R(1)] R(4) assms(4,5) unfolding settle unfolding ReplyDeferred
      by (simp add: apply_eager_reply_outcome_def Let_def release_claim_def)
    then show ?thesis using pend [OF refl] ReplyDeferred by simp
  next
    case ReplyFailed
    let ?t = "drop_own_custody c (release_claim c s)"
    have s': "settle_eager_reply ops ro c outcome now s =
        (if ec_rerequested claim then snd (retain_deferred_eager_reply ops ro (rc_peer c) (rc_msg_id c) now ?t) else ?t)"
      unfolding settle unfolding ReplyFailed by (simp add: apply_eager_reply_outcome_def drop_own_custody_def Let_def)
    have "in_custody ?t (completion_key c) = in_custody (drop_own_custody c s) (completion_key c)"
      by (auto simp: drop_own_custody_def release_claim_def in_custody_def split: option.split)
    then show ?thesis using pend [OF refl] s' retained [OF O(1) _ len] O(3) R(4) assms(4) ReplyFailed by auto
  qed
qed

theorem failed_reply_requeued_witness:
  "phase (settle_eager_reply list_lru (\<lambda>_. []) \<lparr>rc_peer = PeerId [1], rc_msg_id = [7], rc_token = 1, rc_own_custody = None\<rparr>
     ReplyDeferred 30 claimed_topic) (ReplyKey (PeerId [1]) [7]) = Pending"
proof -
  let ?c = "\<lparr>rc_peer = PeerId [1], rc_msg_id = [7 :: u8], rc_token = 1, rc_own_custody = None\<rparr> :: EagerReplyCompletion"
  have k: "completion_key ?c = ReplyKey (PeerId [1]) [7]" by (simp add: completion_key_def)
  have f: "ts_next_custody_id claimed_topic = 1" "ts_deferred_eager_replies claimed_topic = []"
    by (simp_all add: claimed_topic_def small_topic_def claim_eager_reply_for_iwant_def Let_def map_retain_def
        insert_eager_reply_claim_def with_cache_config_def)
  show ?thesis
    using failed_reply_requeued [OF _ _ small_topic_run [unfolded small_topic_def], of ?c
        "\<lparr>ec_token = 1, ec_claimed_at = 10, ec_rerequested = False, ec_probe = None\<rparr>" ReplyDeferred 30, unfolded k]
    by (simp add: f u64_max_eq claimed_topic_claim MAX_DEFERRED_EAGER_REPLIES_def limit_defs)
qed

text \<open>
  An expired claim leaves no recovery probe behind: pruning removes the claim and the probe its
  send carried, so that the peer can be probed again although the late completion of that send
  will book nothing; the cooling of a peer without an expired claim stays as it is.
\<close>

theorem expired_claim_frees_probe:
  assumes "iterates (ro (ts_eager_reply_claims s)) (ts_eager_reply_claims s)"
    and "ts_eager_reply_claims s k = Some c" "now - ec_claimed_at c \<ge> EAGER_REPLY_CLAIM_TTL" "ec_probe c = Some probe"
  shows "ts_eager_reply_claims (prune_eager_reply_claims ro now s) k = None \<and>
    \<not> probe_in_flight (ts_mesh (prune_eager_reply_claims ro now s)) (rk_peer k) probe \<and>
    (\<forall>p. (\<forall>k' c'. ts_eager_reply_claims s k' = Some c' \<and> now - ec_claimed_at c' \<ge> EAGER_REPLY_CLAIM_TTL \<longrightarrow> rk_peer k' \<noteq> p) \<longrightarrow>
       ms_cooling (ts_mesh (prune_eager_reply_claims ro now s)) p = ms_cooling (ts_mesh s) p)"
proof -
  let ?claims = "ts_eager_reply_claims s"
  let ?expired = "filter (\<lambda>k. case ?claims k of None \<Rightarrow> False | Some claim \<Rightarrow> \<not> claim_live now claim) (ro ?claims)"
  have mesh: "ts_mesh (prune_eager_reply_claims ro now s) = fold (abandon_probe_of ?claims) ?expired (ts_mesh s)"
    by (simp add: prune_eager_reply_claims_def Let_def)
  have "k \<in> set ?expired" using assms by (auto simp: iterates_def claim_live_def dom_def)
  then have "\<not> probe_in_flight (fold (abandon_probe_of ?claims) ?expired (ts_mesh s)) (rk_peer k) probe"
    using abandon_of_clears [of k ?expired ?claims c probe] assms(2,4) by blast
  moreover have "ms_cooling (fold (abandon_probe_of ?claims) ?expired (ts_mesh s)) p = ms_cooling (ts_mesh s) p"
    if "\<forall>k' c'. ?claims k' = Some c' \<and> now - ec_claimed_at c' \<ge> EAGER_REPLY_CLAIM_TTL \<longrightarrow> rk_peer k' \<noteq> p" for p
    using that by (intro abandon_of_other) (auto simp: claim_live_def not_less split: option.splits)
  moreover have "ts_eager_reply_claims (prune_eager_reply_claims ro now s) k = None"
    using assms(2,3) by (simp add: map_retain_def claim_live_def)
  ultimately show ?thesis unfolding mesh by blast
qed

definition probing_topic ::
  "((MessageIdType, CachedEntry) lru_list, (bytes, PayloadReplayEntry) lru_list) TopicState" where
  "probing_topic = claimed_topic\<lparr>
     ts_mesh := (ts_mesh claimed_topic)\<lparr>ms_cooling := [PeerId [1] \<mapsto>
       (cooling_new 0)\<lparr>pc_recovery_probe_in_flight := True, pc_recovery_probe_id := Some 5\<rparr>]\<rparr>,
     ts_eager_reply_claims := [ReplyKey (PeerId [1]) [7] \<mapsto>
       \<lparr>ec_token = 1, ec_claimed_at = 10, ec_rerequested = False, ec_probe = Some 5\<rparr>]\<rparr>"

theorem expired_claim_frees_probe_witness:
  "probe_in_flight (ts_mesh probing_topic) (PeerId [1]) 5 \<and>
   \<not> probe_in_flight (ts_mesh (prune_eager_reply_claims (\<lambda>_. [ReplyKey (PeerId [1]) [7]]) 70000 probing_topic)) (PeerId [1]) 5"
  using expired_claim_frees_probe [where ro = "\<lambda>_. [ReplyKey (PeerId [1]) [7]]" and s = probing_topic and
      k = "ReplyKey (PeerId [1]) [7]" and now = 70000 and probe = 5]
  by (simp add: probing_topic_def iterates_def EAGER_REPLY_CLAIM_TTL_def probe_in_flight_def matches_recovery_probe_def)

end
