(* ===== verification/Reply_Lifecycle.thy ===== *)
theory Reply_Lifecycle
  imports Eager_Reply
begin

text \<open>
  The lifecycle of an IWANT reply, as the table in the documentation of \<open>DeferredEagerReply\<close>
  (\<open>crates/pubsub/src/lib.rs\<close>) states it, written as one function on an abstract book: per pair of
  requester and message the custody entry and the claim, and the two counters of the process. The
  function says for every event exactly what happens to every pair. The inputs it does not decide
  itself are the time and whether a custody entry may still be served, which depends on the cache.

  The refinement is functional: the book of the topic after an operation is the lifecycle function
  applied to the book before it.
\<close>

subsection \<open>The book\<close>

record ReplyClaim =
  cl_token :: nat
  cl_since :: instant
  cl_rerequested :: bool

record ReplyRecord =
  rr_custody :: "DeferredEagerReply option"
  rr_claim :: "ReplyClaim option"

record ReplyBook =
  rb_records :: "reply_key \<Rightarrow> ReplyRecord"
  rb_next_custody :: nat
  rb_next_token :: nat

definition no_record :: ReplyRecord where
  "no_record = \<lparr>rr_custody = None, rr_claim = None\<rparr>"

definition record_phase :: "ReplyRecord \<Rightarrow> reply_phase" where
  "record_phase r =
     (case rr_claim r of
        Some c \<Rightarrow> InFlight (cl_token c)
      | None \<Rightarrow> if rr_custody r = None then Idle else Pending)"

subsection \<open>The lifecycle\<close>

text \<open>A claim lapses after its time, custody when its entry may not be served any more.\<close>

definition lapse_claim :: "instant \<Rightarrow> ReplyRecord \<Rightarrow> ReplyRecord" where
  "lapse_claim now r =
     (case rr_claim r of
        None \<Rightarrow> r
      | Some c \<Rightarrow> if now - cl_since c < EAGER_REPLY_CLAIM_TTL then r else r\<lparr>rr_claim := None\<rparr>)"

definition lapse_custody :: "(DeferredEagerReply \<Rightarrow> bool) \<Rightarrow> ReplyRecord \<Rightarrow> ReplyRecord" where
  "lapse_custody servable r =
     (case rr_custody r of
        None \<Rightarrow> r
      | Some e \<Rightarrow> if servable e then r else r\<lparr>rr_custody := None\<rparr>)"

definition lapse_claims :: "instant \<Rightarrow> ReplyBook \<Rightarrow> ReplyBook" where
  "lapse_claims now b = b\<lparr>rb_records := lapse_claim now \<circ> rb_records b\<rparr>"

definition lapse_all :: "(DeferredEagerReply \<Rightarrow> bool) \<Rightarrow> instant \<Rightarrow> ReplyBook \<Rightarrow> ReplyBook" where
  "lapse_all servable now b = b\<lparr>rb_records := lapse_claim now \<circ> lapse_custody servable \<circ> rb_records b\<rparr>"

definition put_record :: "reply_key \<Rightarrow> ReplyRecord \<Rightarrow> ReplyBook \<Rightarrow> ReplyBook" where
  "put_record k r b = b\<lparr>rb_records := (rb_records b)(k := r)\<rparr>"

text \<open>A claim with a fresh token, and a request that enters custody where there is none and room for it.\<close>

definition new_claim :: "reply_key \<Rightarrow> instant \<Rightarrow> ReplyBook \<Rightarrow> ReplyBook" where
  "new_claim k now b =
     (put_record k ((rb_records b k)\<lparr>rr_claim := Some \<lparr>cl_token = rb_next_token b, cl_since = now, cl_rerequested = False\<rparr>\<rparr>) b)
       \<lparr>rb_next_token := u64_add (rb_next_token b) 1\<rparr>"

definition custody_count :: "ReplyBook \<Rightarrow> nat" where
  "custody_count b = card {k. rr_custody (rb_records b k) \<noteq> None}"

definition enter_custody :: "(DeferredEagerReply \<Rightarrow> bool) \<Rightarrow> instant \<Rightarrow> reply_key \<Rightarrow> ReplyBook \<Rightarrow> ReplyBook" where
  "enter_custody servable now k b =
     (let b1 = lapse_all servable now b
      in if rr_custody (rb_records b1 k) \<noteq> None \<or> custody_count b1 \<ge> MAX_DEFERRED_EAGER_REPLIES then b1
         else (put_record k ((rb_records b1 k)\<lparr>rr_custody := Some
                 \<lparr>dr_id = rb_next_custody b1, dr_peer = rk_peer k, dr_msg_id = rk_msg_id k, dr_requested_at = now\<rparr>\<rparr>) b1)
                \<lparr>rb_next_custody := u64_add (rb_next_custody b1) 1\<rparr>)"

definition drop_entry :: "DeferredEagerReply option \<Rightarrow> ReplyRecord \<Rightarrow> ReplyRecord" where
  "drop_entry own r =
     (if own \<noteq> None \<and> map_option dr_id (rr_custody r) = map_option dr_id own then r\<lparr>rr_custody := None\<rparr> else r)"

fun lifecycle :: "(DeferredEagerReply \<Rightarrow> bool) \<Rightarrow> instant \<Rightarrow> reply_event \<Rightarrow> ReplyBook \<Rightarrow> ReplyBook" where
  "lifecycle servable now (IwantEvent k) b =
     (let b1 = lapse_claims now b
      in case rr_claim (rb_records b1 k) of
           None \<Rightarrow> new_claim k now b1
         | Some c \<Rightarrow> put_record k ((rb_records b1 k)\<lparr>rr_claim := Some (c\<lparr>cl_rerequested := True\<rparr>)\<rparr>) b1)"
| "lifecycle servable now (RetryEvent k granted) b =
     (let b1 = lapse_claims now b
      in if rr_claim (rb_records b1 k) = None \<and> granted then new_claim k now b1 else b1)"
| "lifecycle servable now (CompletionEvent d outcome) b =
     (let k = completion_key d; r = rb_records b k
      in case rr_claim r of
           None \<Rightarrow> put_record k (drop_entry (rc_own_custody d) r) b
         | Some c \<Rightarrow>
             if cl_token c \<noteq> rc_token d then put_record k (drop_entry (rc_own_custody d) r) b
             else (case outcome of
                     ReplySent \<Rightarrow> put_record k no_record b
                   | ReplyDeferred \<Rightarrow> enter_custody servable now k (put_record k (r\<lparr>rr_claim := None\<rparr>) b)
                   | ReplyFailed \<Rightarrow>
                       (let b1 = put_record k ((drop_entry (rc_own_custody d) r)\<lparr>rr_claim := None\<rparr>) b
                        in if cl_rerequested c then enter_custody servable now k b1 else b1)))"
| "lifecycle servable now (DisconnectEvent peers) b =
     b\<lparr>rb_records := (\<lambda>k. if rk_peer k \<in> peers then no_record else rb_records b k)\<rparr>"
| "lifecycle servable now (DiscardEvent e) b =
     (let r = rb_records b (key_of e)
      in if rr_custody r = Some e then put_record (key_of e) (r\<lparr>rr_custody := None\<rparr>) b else b)"
| "lifecycle servable now PruneEvent b = lapse_all servable now b"
| "lifecycle servable now PruneClaimsEvent b = lapse_claims now b"
| "lifecycle servable now (OtherTopicsEvent i t) b = b\<lparr>rb_next_custody := i, rb_next_token := t\<rparr>"
| "lifecycle servable now TopicRemovedEvent b = b\<lparr>rb_records := (\<lambda>_. no_record)\<rparr>"

text \<open>The rows of the table, read off the function: where \<open>p\<close> is the phase before and the claim of the
  pair has not lapsed.\<close>

lemma lifecycle_rows:
  fixes b k now servable
  defines "r \<equiv> rb_records b k"
    and "after \<equiv> \<lambda>ev. record_phase (rb_records (lifecycle servable now ev b) k)"
  assumes live: "\<And>c. rr_claim r = Some c \<Longrightarrow> now - cl_since c < EAGER_REPLY_CLAIM_TTL"
  shows "record_phase r \<in> {Idle, Pending} \<Longrightarrow> after (IwantEvent k) = InFlight (rb_next_token b)"
    "record_phase r = InFlight t \<Longrightarrow> after (IwantEvent k) = InFlight t"
    "record_phase r = Pending \<Longrightarrow> after (RetryEvent k True) = InFlight (rb_next_token b)"
    "record_phase r = InFlight t \<Longrightarrow> after (RetryEvent k granted) = InFlight t"
    "record_phase r = InFlight (rc_token d) \<Longrightarrow> completion_key d = k \<Longrightarrow> after (CompletionEvent d ReplySent) = Idle"
    "record_phase r = InFlight t \<Longrightarrow> t \<noteq> rc_token d \<Longrightarrow> after (CompletionEvent d outcome) = InFlight t \<or> completion_key d \<noteq> k"
    "rk_peer k \<in> peers \<Longrightarrow> after (DisconnectEvent peers) = Idle"
    "rk_peer k \<notin> peers \<Longrightarrow> after (DisconnectEvent peers) = record_phase r"
    "after TopicRemovedEvent = Idle"
proof -
  have l: "lapse_claim now r = r" using live by (auto simp: lapse_claim_def split: option.split)
  have L: "rb_records (lapse_claims now b) k = r" "rb_next_token (lapse_claims now b) = rb_next_token b"
    using l by (simp_all add: lapse_claims_def r_def)
  show "record_phase r \<in> {Idle, Pending} \<Longrightarrow> after (IwantEvent k) = InFlight (rb_next_token b)"
    "record_phase r = InFlight t \<Longrightarrow> after (IwantEvent k) = InFlight t"
    "record_phase r = Pending \<Longrightarrow> after (RetryEvent k True) = InFlight (rb_next_token b)"
    "record_phase r = InFlight t \<Longrightarrow> after (RetryEvent k granted) = InFlight t"
    by (auto simp: after_def record_phase_def Let_def L new_claim_def put_record_def split: option.splits if_splits)
  show "record_phase r = InFlight (rc_token d) \<Longrightarrow> completion_key d = k \<Longrightarrow> after (CompletionEvent d ReplySent) = Idle"
    "record_phase r = InFlight t \<Longrightarrow> t \<noteq> rc_token d \<Longrightarrow> after (CompletionEvent d outcome) = InFlight t \<or> completion_key d \<noteq> k"
    by (auto simp: after_def record_phase_def Let_def r_def put_record_def no_record_def drop_entry_def split: option.splits if_splits)
  show "rk_peer k \<in> peers \<Longrightarrow> after (DisconnectEvent peers) = Idle"
    "rk_peer k \<notin> peers \<Longrightarrow> after (DisconnectEvent peers) = record_phase r" "after TopicRemovedEvent = Idle"
    by (auto simp: after_def r_def record_phase_def no_record_def)
qed

subsection \<open>The book of a topic\<close>

definition entry_of :: "('l, 'r) TopicState \<Rightarrow> reply_key \<Rightarrow> DeferredEagerReply option" where
  "entry_of s k = find (\<lambda>e. key_of e = k) (ts_deferred_eager_replies s)"

definition claim_of :: "('l, 'r) TopicState \<Rightarrow> reply_key \<Rightarrow> ReplyClaim option" where
  "claim_of s k =
     map_option (\<lambda>c. \<lparr>cl_token = ec_token c, cl_since = ec_claimed_at c, cl_rerequested = ec_rerequested c\<rparr>) (ts_eager_reply_claims s k)"

definition book_of :: "('l, 'r) TopicState \<Rightarrow> ReplyBook" where
  "book_of s = \<lparr>rb_records = (\<lambda>k. \<lparr>rr_custody = entry_of s k, rr_claim = claim_of s k\<rparr>),
     rb_next_custody = ts_next_custody_id s, rb_next_token = ts_next_reply_token s\<rparr>"

definition servable_now :: "'l cache_ops \<Rightarrow> instant \<Rightarrow> ('l, 'r) TopicState \<Rightarrow> DeferredEagerReply \<Rightarrow> bool" where
  "servable_now ops now s = custody_live ops now (prune_expired_at ops now (ts_message_cache s))"

lemma book_eqI:
  assumes "\<And>k. entry_of s k = rr_custody (rb_records b k)" "\<And>k. claim_of s k = rr_claim (rb_records b k)"
    "ts_next_custody_id s = rb_next_custody b" "ts_next_reply_token s = rb_next_token b"
  shows "book_of s = b"
  using assms by (cases b) (simp add: book_of_def fun_eq_iff)

lemma book_of_sel [simp]:
  "rr_custody (rb_records (book_of s) k) = entry_of s k" "rr_claim (rb_records (book_of s) k) = claim_of s k"
  "rb_next_custody (book_of s) = ts_next_custody_id s" "rb_next_token (book_of s) = ts_next_reply_token s"
  by (simp_all add: book_of_def)

lemma entry_of_None: "entry_of s k = None \<longleftrightarrow> \<not> in_custody s k"
  by (auto simp: entry_of_def in_custody_def find_None_iff)

lemma phase_of_record: "phase s k = record_phase (rb_records (book_of s) k)"
  by (simp add: phase_def record_phase_def claim_of_def entry_of_None split: option.split)

lemma find_unique:
  assumes "distinct (map f xs)" "x \<in> set xs"
  shows "find (\<lambda>e. f e = f x) xs = Some x"
  using assms by (induction xs) (auto simp: rev_image_eqI)

lemma entry_of_Some:
  assumes "reply_inv (H, s)"
  shows "entry_of s k = Some e \<longleftrightarrow> e \<in> set (ts_deferred_eager_replies s) \<and> key_of e = k"
  using find_unique [OF reply_invD(5) [OF assms]] by (auto simp: entry_of_def find_Some_iff)

lemma entry_of_key: "reply_inv (H, s) \<Longrightarrow> entry_of s k = Some e \<Longrightarrow> key_of e = k"
  using entry_of_Some by blast

text \<open>The entry of a key after entries were filtered.\<close>

lemma find_filter:
  assumes "distinct (map f xs)"
  shows "find (\<lambda>e. f e = k) (filter P xs) = (case find (\<lambda>e. f e = k) xs of None \<Rightarrow> None | Some e \<Rightarrow> if P e then Some e else None)"
  using assms
proof (induction xs)
  case (Cons x xs)
  then show ?case
  proof (cases "f x = k")
    case True
    then have "find (\<lambda>e. f e = k) (filter P xs) = None" using Cons.prems by (auto simp: find_None_iff) (metis imageI)
    then show ?thesis using True by simp
  qed simp
qed simp

lemma entry_of_filtered:
  assumes "reply_inv (H, s)" "ts_deferred_eager_replies s' = filter P (ts_deferred_eager_replies s)"
  shows "entry_of s' k = (case entry_of s k of None \<Rightarrow> None | Some e \<Rightarrow> if P e then Some e else None)"
  unfolding entry_of_def assms(2) by (rule find_filter [OF reply_invD(5) [OF assms(1)]])

lemma custody_count_book:
  assumes "reply_inv (H, s)"
  shows "custody_count (book_of s) = length (ts_deferred_eager_replies s)"
proof -
  have "{k. rr_custody (rb_records (book_of s) k) \<noteq> None} = set (map key_of (ts_deferred_eager_replies s))"
    by (auto simp: entry_of_None in_custody_def)
  then show ?thesis unfolding custody_count_def using distinct_card [OF reply_invD(5) [OF assms]] by simp
qed

subsection \<open>The operations on the book\<close>

lemma claim_of_retained:
  "ts_eager_reply_claims s' = map_retain (\<lambda>_. claim_live now) (ts_eager_reply_claims s) \<Longrightarrow>
     claim_of s' k = rr_claim (lapse_claim now (rb_records (book_of s) k))"
  by (auto simp: claim_of_def map_retain_def lapse_claim_def claim_live_def split: option.split)

lemma lapse_sel [simp]:
  "rr_custody (lapse_claim now r) = rr_custody r" "rr_claim (lapse_custody sv r) = rr_claim r"
  "rr_claim (lapse_claim now (lapse_custody sv r)) = rr_claim (lapse_claim now r)"
  "rr_custody (lapse_custody sv r) = (case rr_custody r of None \<Rightarrow> None | Some e \<Rightarrow> if sv e then Some e else None)"
  by (auto simp: lapse_claim_def lapse_custody_def split: option.split)

lemma book_prune_claims: "book_of (prune_eager_reply_claims ro now s) = lapse_claims now (book_of s)"
  by (rule book_eqI) (simp_all add: lapse_claims_def entry_of_def claim_of_retained [of _ now s])

lemma book_prune:
  assumes "reply_inv (H, s)"
  shows "book_of (prune_deferred_eager_replies ops ro now s) = lapse_all (servable_now ops now s) now (book_of s)"
  by (rule book_eqI)
    (simp_all add: lapse_all_def entry_of_filtered [OF assms] claim_of_retained [of _ now s] servable_now_def)

lemma book_insert_claim:
  "book_of (snd (insert_eager_reply_claim peer msg_id now s)) = new_claim (ReplyKey peer msg_id) now (book_of s)"
  by (rule book_eqI) (auto simp: insert_eager_reply_claim_def Let_def new_claim_def put_record_def entry_of_def claim_of_def)

lemma book_attach: "book_of (attach_probe_to_eager_reply_claim peer msg_id token attempt s) = book_of s"
  by (rule book_eqI) (auto simp: attach_probe_to_eager_reply_claim_def entry_of_def claim_of_def split: option.split)

lemma book_attach_all: "book_of (fold (attach_probe_to_eager_reply_claim peer msg_id token) attempts s) = book_of s"
  by (induction attempts arbitrary: s) (simp_all add: book_attach)

lemma book_mesh: "book_of (s\<lparr>ts_mesh := m\<rparr>) = book_of s"
  by (rule book_eqI) (simp_all add: entry_of_def claim_of_def)

lemma book_iwant:
  "book_of (snd (claim_eager_reply_for_iwant ro peer msg_id now s)) =
     lifecycle servable now (IwantEvent (ReplyKey peer msg_id)) (book_of s)"
proof -
  define s1 where "s1 = prune_eager_reply_claims ro now s"
  let ?k = "ReplyKey peer msg_id"
  have b: "lapse_claims now (book_of s) = book_of s1" by (simp add: s1_def book_prune_claims)
  show ?thesis
  proof (cases "ts_eager_reply_claims s1 ?k")
    case None
    then have "snd (claim_eager_reply_for_iwant ro peer msg_id now s) = snd (insert_eager_reply_claim peer msg_id now s1)"
      unfolding claim_eager_reply_for_iwant_def Let_def s1_def [symmetric] by (simp add: case_prod_beta)
    then show ?thesis using None by (simp add: book_insert_claim b claim_of_def Let_def)
  next
    case (Some c)
    let ?s2 = "s1\<lparr>ts_eager_reply_claims := (ts_eager_reply_claims s1)(?k \<mapsto> c\<lparr>ec_rerequested := True\<rparr>)\<rparr>"
    have s2: "snd (claim_eager_reply_for_iwant ro peer msg_id now s) = ?s2"
      using Some unfolding claim_eager_reply_for_iwant_def Let_def s1_def [symmetric] by simp
    have "book_of ?s2 = put_record ?k ((rb_records (book_of s1) ?k)\<lparr>rr_claim := map_option (\<lambda>c. c\<lparr>cl_rerequested := True\<rparr>) (claim_of s1 ?k)\<rparr>) (book_of s1)"
      by (rule book_eqI) (use Some in \<open>auto simp: put_record_def entry_of_def claim_of_def\<close>)
    then show ?thesis using Some unfolding s2 by (simp add: b claim_of_def Let_def)
  qed
qed

lemma book_retry:
  assumes "granted = (fst (send_claim (ts_mesh (prune_eager_reply_claims ro now s))) \<noteq> [])"
  shows "book_of (snd (retry_claim ro peer msg_id now send_claim s)) =
    lifecycle servable now (RetryEvent (ReplyKey peer msg_id) granted) (book_of s)"
proof -
  define s1 where "s1 = prune_eager_reply_claims ro now s"
  let ?k = "ReplyKey peer msg_id"
  have b: "lapse_claims now (book_of s) = book_of s1" by (simp add: s1_def book_prune_claims)
  obtain attempts mesh where sc: "send_claim (ts_mesh s1) = (attempts, mesh)" by (cases "send_claim (ts_mesh s1)")
  have g: "granted = (attempts \<noteq> [])" using assms sc by (simp add: s1_def)
  show ?thesis
  proof (cases "ts_eager_reply_claims s1 ?k = None \<and> attempts \<noteq> []")
    case True
    then have "book_of (snd (retry_claim ro peer msg_id now send_claim s)) =
        book_of (snd (insert_eager_reply_claim peer msg_id now (s1\<lparr>ts_mesh := mesh\<rparr>)))"
      using sc unfolding retry_claim_def Let_def eager_reply_claimed_def s1_def [symmetric] by (simp add: case_prod_beta book_attach_all)
    then show ?thesis using True g by (simp add: book_insert_claim book_mesh b claim_of_def Let_def)
  next
    case False
    then have "snd (retry_claim ro peer msg_id now send_claim s) \<in> {s1, s1\<lparr>ts_mesh := mesh\<rparr>}"
      using sc unfolding retry_claim_def Let_def eager_reply_claimed_def s1_def [symmetric] by auto
    then have "book_of (snd (retry_claim ro peer msg_id now send_claim s)) = book_of s1" using book_mesh by auto
    then show ?thesis using False g by (auto simp: b claim_of_def Let_def)
  qed
qed

lemma book_retain:
  assumes "reply_inv (H, s)"
  shows "book_of (snd (retain_deferred_eager_reply ops ro peer msg_id now s)) =
    enter_custody (servable_now ops now s) now (ReplyKey peer msg_id) (book_of s)"
proof -
  let ?s1 = "prune_deferred_eager_replies ops ro now s" and ?k = "ReplyKey peer msg_id"
  let ?e = "\<lparr>dr_id = ts_next_custody_id ?s1, dr_peer = peer, dr_msg_id = msg_id, dr_requested_at = now\<rparr>"
  let ?s2 = "?s1\<lparr>ts_deferred_eager_replies := ts_deferred_eager_replies ?s1 @ [?e],
    ts_next_custody_id := u64_add (ts_next_custody_id ?s1) 1\<rparr>"
  have inv: "reply_inv (H, ?s1)" by (rule reply_inv_prune [OF assms])
  have held: "(\<exists>entry \<in> set (ts_deferred_eager_replies ?s1). dr_peer entry = peer \<and> dr_msg_id entry = msg_id) \<longleftrightarrow> entry_of ?s1 ?k \<noteq> None"
    unfolding entry_of_None in_custody_def key_of_def by force
  have r: "snd (retain_deferred_eager_reply ops ro peer msg_id now s) =
      (if entry_of ?s1 ?k \<noteq> None \<or> length (ts_deferred_eager_replies ?s1) \<ge> MAX_DEFERRED_EAGER_REPLIES then ?s1 else ?s2)"
    unfolding retain_deferred_eager_reply_def Let_def held by simp
  have new: "book_of ?s2 = (put_record ?k ((rb_records (book_of ?s1) ?k)\<lparr>rr_custody := Some ?e\<rparr>) (book_of ?s1))
      \<lparr>rb_next_custody := u64_add (ts_next_custody_id ?s1) 1\<rparr>" if "entry_of ?s1 ?k = None"
  proof (rule book_eqI)
    have app: "find P (xs @ ys) = (case find P xs of None \<Rightarrow> find P ys | Some x \<Rightarrow> Some x)" for P and xs ys :: "DeferredEagerReply list"
      by (induction xs) simp_all
    have "key_of ?e = ?k" by (simp add: key_of_def)
    then show "entry_of ?s2 k = rr_custody (rb_records ((put_record ?k ((rb_records (book_of ?s1) ?k)\<lparr>rr_custody := Some ?e\<rparr>) (book_of ?s1))
      \<lparr>rb_next_custody := u64_add (ts_next_custody_id ?s1) 1\<rparr>) k)" for k
      using that by (auto simp: entry_of_def app put_record_def split: option.split)
  qed (auto simp: put_record_def claim_of_def)
  show ?thesis unfolding r enter_custody_def Let_def book_prune [OF assms, of ops ro now, symmetric]
    using custody_count_book [OF inv] new by simp
qed

lemma book_drop_own:
  assumes "reply_inv (H, s)" "\<forall>own. rc_own_custody d = Some own \<longrightarrow> own \<in> H \<and> key_of own = completion_key d"
  shows "book_of (drop_own_custody d s) =
    put_record (completion_key d) (drop_entry (rc_own_custody d) (rb_records (book_of s) (completion_key d))) (book_of s)"
proof (cases "rc_own_custody d")
  case None
  then show ?thesis by (intro book_eqI) (simp_all add: drop_own_custody_def put_record_def drop_entry_def)
next
  case (Some own)
  have other: "dr_id e \<noteq> dr_id own" if "entry_of s k = Some e" "k \<noteq> completion_key d" for k e
    using that Some assms(2) reply_invD(1,2) [OF assms(1)] unfolding entry_of_Some [OF assms(1)] by (metis inj_onD subsetD)
  have "entry_of (drop_own_custody d s) k = (case entry_of s k of None \<Rightarrow> None | Some e \<Rightarrow> if dr_id e \<noteq> dr_id own then Some e else None)" for k
    by (rule entry_of_filtered [OF assms(1)]) (simp add: drop_own_custody_def Some)
  then show ?thesis using other Some
    by (intro book_eqI) (auto simp: drop_own_custody_def put_record_def drop_entry_def claim_of_def split: option.split)
qed

lemma book_release: "book_of (release_claim d s) = put_record (completion_key d)
    ((rb_records (book_of s) (completion_key d))\<lparr>rr_claim := None\<rparr>) (book_of s)"
  by (rule book_eqI) (auto simp: release_claim_def put_record_def entry_of_def claim_of_def)

lemma book_served: "book_of (record_lazy_withheld_served m p (record_stranded_ihave_served m p s)) = book_of s"
  by (rule book_eqI) (simp_all add: entry_of_def claim_of_def record_lazy_withheld_served_def record_stranded_ihave_served_def)

lemma put_put: "put_record k r (put_record k r' b) = put_record k r b" "rb_records (put_record k r b) k = r"
  by (simp_all add: put_record_def)

lemma servable_release [simp]: "servable_now ops now (release_claim d s) = servable_now ops now s"
  "servable_now ops now (drop_own_custody d s) = servable_now ops now s"
  by (simp_all add: servable_now_def release_claim_def drop_own_custody_def split: option.split)

lemma book_completion:
  assumes "reply_inv (H, s)" "\<forall>own. rc_own_custody d = Some own \<longrightarrow> own \<in> H \<and> key_of own = completion_key d"
  shows "book_of (settle_eager_reply ops ro d outcome now s) =
    lifecycle (servable_now ops now s) now (CompletionEvent d outcome) (book_of s)"
proof (cases "current_completion d s")
  case False
  then have "\<And>c. claim_of s (completion_key d) = Some c \<Longrightarrow> cl_token c \<noteq> rc_token d"
    by (auto simp: current_completion_def token_of_def claim_of_def)
  then show ?thesis using False
    by (auto simp: settle_stale book_drop_own [OF assms] Let_def split: option.split)
next
  case True
  obtain claim where claim: "ts_eager_reply_claims s (completion_key d) = Some claim"
    "admit_eager_reply_completion d s = (Some \<lparr>ar_completion = d, ar_rerequested = ec_rerequested claim\<rparr>, release_claim d s)"
    using admit_cases(2) [OF True] by blast
  let ?r = "rb_records (book_of s) (completion_key d)" and ?s1 = "release_claim d s"
  have key: "completion_key d = ReplyKey (rc_peer d) (rc_msg_id d)" by (simp add: completion_key_def)
  have inv: "reply_inv (H, ?s1)" by (rule release_claim(1) [OF assms(1)])
  have settle: "settle_eager_reply ops ro d outcome now s =
      apply_eager_reply_outcome ops ro \<lparr>ar_completion = d, ar_rerequested = ec_rerequested claim\<rparr> outcome now ?s1"
    by (simp add: settle_eager_reply_def claim(2))
  have cl: "claim_of s (completion_key d) = Some \<lparr>cl_token = rc_token d, cl_since = ec_claimed_at claim, cl_rerequested = ec_rerequested claim\<rparr>"
    using True claim(1) by (simp add: claim_of_def current_completion_def token_of_def)
  show ?thesis
  proof (cases outcome)
    case ReplySent
    let ?t = "?s1\<lparr>ts_deferred_eager_replies := filter (\<lambda>e. dr_peer e \<noteq> rc_peer d \<or> dr_msg_id e \<noteq> rc_msg_id d) (ts_deferred_eager_replies ?s1)\<rparr>"
    have "entry_of ?t k = (if k = completion_key d then None else entry_of s k)" for k
    proof -
      have "entry_of ?t k = (case entry_of s k of None \<Rightarrow> None | Some e \<Rightarrow> if key_of e \<noteq> completion_key d then Some e else None)"
        by (rule entry_of_filtered [OF assms(1)]) (simp add: release_claim_def key key_of_def)
      then show ?thesis using entry_of_key [OF assms(1), of k] by (cases "entry_of s k") simp_all
    qed
    then have "book_of ?t = put_record (completion_key d) no_record (book_of s)"
      by (intro book_eqI) (auto simp: put_record_def no_record_def claim_of_def release_claim_def)
    then show ?thesis using cl unfolding settle unfolding ReplySent
      by (simp add: apply_eager_reply_outcome_def Let_def book_served)
  next
    case ReplyDeferred
    show ?thesis using cl unfolding settle unfolding ReplyDeferred
      by (simp add: apply_eager_reply_outcome_def Let_def book_retain [OF inv] book_release key)
  next
    case ReplyFailed
    let ?t = "drop_own_custody d ?s1"
    have t: "settle_eager_reply ops ro d outcome now s =
        (if ec_rerequested claim then snd (retain_deferred_eager_reply ops ro (rc_peer d) (rc_msg_id d) now ?t) else ?t)"
      unfolding settle unfolding ReplyFailed by (simp add: apply_eager_reply_outcome_def drop_own_custody_def Let_def)
    have "drop_entry own (r\<lparr>rr_claim := None\<rparr>) = (drop_entry own r)\<lparr>rr_claim := None\<rparr>" for own r
      by (simp add: drop_entry_def)
    then have b: "book_of ?t = put_record (completion_key d) ((drop_entry (rc_own_custody d) ?r)\<lparr>rr_claim := None\<rparr>) (book_of s)"
      by (simp add: book_drop_own [OF inv assms(2)] book_release put_put)
    show ?thesis using cl unfolding t
      by (simp add: ReplyFailed book_retain [OF drop_own(1) [OF inv assms(2)]] b Let_def key)
  qed
qed

lemma book_kept:
  assumes "reply_inv (H, s)" "keeps_only P s s'"
  shows "book_of s' = lifecycle servable now (DisconnectEvent (- P)) (book_of s)"
proof (rule book_eqI)
  fix k
  have f: "ts_deferred_eager_replies s' = filter (\<lambda>e. dr_peer e \<in> P) (ts_deferred_eager_replies s)" using assms(2) by (simp add: keeps_only_def)
  show "entry_of s' k = rr_custody (rb_records (lifecycle servable now (DisconnectEvent (- P)) (book_of s)) k)"
    using entry_of_filtered [OF assms(1) f, of k] entry_of_key [OF assms(1), of k]
    by (cases "entry_of s k") (auto simp: no_record_def key_of_def)
  show "claim_of s' k = rr_claim (rb_records (lifecycle servable now (DisconnectEvent (- P)) (book_of s)) k)"
    by (simp add: claim_of_def keeps_only_claim [OF assms(2)] no_record_def)
qed (use assms(2) in \<open>simp_all add: keeps_only_def\<close>)

lemma book_discard:
  assumes "reply_inv (H, s)"
  shows "book_of (discard_deferred_reply e s) = lifecycle servable now (DiscardEvent e) (book_of s)"
proof (rule book_eqI)
  fix k
  show "entry_of (discard_deferred_reply e s) k = rr_custody (rb_records (lifecycle servable now (DiscardEvent e) (book_of s)) k)"
  proof -
    have "entry_of (discard_deferred_reply e s) k = (case entry_of s k of None \<Rightarrow> None | Some c \<Rightarrow> if c \<noteq> e then Some c else None)"
      by (rule entry_of_filtered [OF assms]) (simp add: discard_deferred_reply_def)
    moreover have "entry_of s k = Some e \<Longrightarrow> k = key_of e" using entry_of_key [OF assms] by blast
    ultimately show ?thesis by (cases "entry_of s k") (auto simp: put_record_def Let_def)
  qed
qed (simp_all add: discard_deferred_reply_def put_record_def claim_of_def Let_def)

lemma step_follows_lifecycle:
  assumes "reply_step ops ro ev now (H, s) (H', s')" "reply_inv (H, s)"
  shows "book_of s' = lifecycle (servable_now ops now s) now ev (book_of s)"
  using assms(1)
proof (cases rule: reply_step.cases)
  case (reply_iwant peer msg_id token)
  then show ?thesis using book_iwant [of ro peer msg_id now s] by (metis snd_conv)
next
  case (reply_retry peer msg_id send_claim token granted)
  then show ?thesis using book_retry [where send_claim = send_claim, OF reply_retry(5), of peer msg_id] by (metis snd_conv)
next
  case (reply_settle c outcome)
  then show ?thesis using book_completion [OF assms(2) reply_settle(5)] by metis
next
  case (reply_book dec config health results)
  then show ?thesis using book_kept [OF assms(2) keeps_only_book [of results s dec config health now]] by simp
next
  case (reply_refresh connected_set)
  then show ?thesis using book_kept [OF assms(2) keeps_only_refresh] by simp
next
  case (reply_discard entry)
  then show ?thesis using book_discard [OF assms(2)] by simp
next
  case reply_prune
  then show ?thesis using book_prune [OF assms(2)] by simp
next
  case reply_prune_claims
  then show ?thesis using book_prune_claims by simp
next
  case (reply_elsewhere i t)
  show ?thesis unfolding reply_elsewhere(1,3) by (rule book_eqI) (simp_all add: entry_of_def claim_of_def)
next
  case (reply_removed rops max_count max_bytes max_age probe_id)
  show ?thesis unfolding reply_removed(1,3)
    by (rule book_eqI) (simp_all add: entry_of_def claim_of_def with_cache_config_def no_record_def)
qed

subsection \<open>Properties\<close>



end
