(* ===== verification/Cache_View.thy ===== *)
theory Cache_View
  imports Topic_State
begin

text \<open>
  The caches of a topic as their clients see them: the message cache as a map from ids to messages
  that an operation may shrink, and the replay cache as a memory of payload hashes. Each is
  an interface with the laws its clients rely on, and the bounded caches of the code are shown to
  meet it. The clients' lemmas about refused messages and remembered payloads are proved from the
  laws alone.
\<close>

subsection \<open>Messages\<close>

definition cache_view :: "'l cache_ops \<Rightarrow> 'l BoundedMessageCache \<Rightarrow> MessageIdType \<rightharpoonup> CachedMessage" where
  "cache_view ops c k = map_option ce_message (map_of (entries ops c) k)"

text \<open>\<open>cache_message\<close> followed by \<open>set_inner_proof\<close> when the message was taken.\<close>

definition admit_message ::
  "'l cache_ops \<Rightarrow> bytes \<Rightarrow> MessageHeader \<Rightarrow> bool \<Rightarrow> VerifiedInner option \<Rightarrow> MessageIdType \<Rightarrow> instant \<Rightarrow>
   'l BoundedMessageCache \<Rightarrow> (bool \<times> 'l BoundedMessageCache) option" where
  "admit_message ops payload header local_origin proof msg_id now c =
     (case cache_message ops msg_id payload header local_origin now now c of
        None \<Rightarrow> None
      | Some (accepted, c1) \<Rightarrow> Some (accepted, if accepted then set_inner_proof ops msg_id proof c1 else c1))"

definition shrinks :: "('k \<rightharpoonup> 'v) \<Rightarrow> ('k \<rightharpoonup> 'v) \<Rightarrow> bool" where
  "shrinks m m' \<longleftrightarrow> (\<forall>k. m' k = None \<or> m' k = m k)"

lemma shrinks_refl [simp]: "shrinks m m"
  by (simp add: shrinks_def)

lemma shrinks_trans: "shrinks m m' \<Longrightarrow> shrinks m' m'' \<Longrightarrow> shrinks m m''"
  unfolding shrinks_def by metis

lemma shrinks_except: "shrinks (m(k := None)) (m'(k := None)) \<longleftrightarrow> (\<forall>j. j \<noteq> k \<longrightarrow> m' j = None \<or> m' j = m j)"
  unfolding shrinks_def by auto

lemma shrinksD: "shrinks m m' \<Longrightarrow> m' k = Some v \<Longrightarrow> m k = Some v"
  unfolding shrinks_def by (metis option.distinct(1))

text \<open>The ids of \<open>R\<close> are refused: a copy of theirs in the cache is marked as dropped.\<close>

definition refuses :: "MessageIdType set \<Rightarrow> (MessageIdType \<rightharpoonup> CachedMessage) \<Rightarrow> bool" where
  "refuses R ms \<longleftrightarrow> (\<forall>k \<in> R. \<forall>m. ms k = Some m \<longrightarrow> cm_dropped m)"

lemma refuses_shrinks: "refuses R ms \<Longrightarrow> shrinks ms ms' \<Longrightarrow> refuses R ms'"
  unfolding refuses_def by (meson shrinksD)

lemma refuses_subset: "refuses R ms \<Longrightarrow> R' \<subseteq> R \<Longrightarrow> refuses R' ms"
  by (auto simp: refuses_def)

locale message_store =
  fixes ok :: "'c \<Rightarrow> bool"
    and messages :: "'c \<Rightarrow> MessageIdType \<rightharpoonup> CachedMessage"
    and admits :: "bytes \<Rightarrow> MessageHeader \<Rightarrow> bool \<Rightarrow> VerifiedInner option \<Rightarrow> MessageIdType \<Rightarrow> instant \<Rightarrow> 'c \<Rightarrow> (bool \<times> 'c) option"
    and gets :: "MessageIdType \<Rightarrow> instant \<Rightarrow> 'c \<Rightarrow> CachedMessage option \<times> 'c"
    and drops :: "MessageIdType \<Rightarrow> 'c \<Rightarrow> 'c"
    and prunes :: "instant \<Rightarrow> 'c \<Rightarrow> 'c"
  assumes admits_returns: "ok c \<Longrightarrow> \<exists>taken c'. admits payload header origin proof k now c = Some (taken, c') \<and> ok c'"
    and admits_taken: "ok c \<Longrightarrow> admits payload header origin proof k now c = Some (True, c') \<Longrightarrow>
      messages c' k = Some \<lparr>cm_payload = payload, cm_header = header, cm_dropped = False, cm_local_origin = origin, cm_inner_proof = proof\<rparr> \<and>
      shrinks ((messages c)(k := None)) ((messages c')(k := None))"
    and admits_refused: "ok c \<Longrightarrow> admits payload header origin proof k now c = Some (False, c') \<Longrightarrow> shrinks (messages c) (messages c')"
    and gets_law: "ok c \<Longrightarrow> gets k now c = (found, c') \<Longrightarrow> ok c' \<and> shrinks (messages c) (messages c') \<and> found = messages c' k"
    and drops_law: "ok c \<Longrightarrow> ok (drops k c) \<and>
      messages (drops k c) = (messages c)(k := map_option (\<lambda>m. m\<lparr>cm_dropped := True\<rparr>) (messages c k))"
    and prunes_law: "ok c \<Longrightarrow> ok (prunes now c) \<and> shrinks (messages c) (messages (prunes now c))"
begin

text \<open>Admitting a message frees its id of an older refusal, and dropping it refuses the id again.\<close>

lemma refuses_admits:
  assumes "ok c" "refuses R (messages c)" "admits payload header origin proof k now c = Some (taken, c')"
  shows "refuses (R - {k}) (messages c')"
proof (cases taken)
  case True
  then have "admits payload header origin proof k now c = Some (True, c')" using assms(3) by simp
  note s = conjunct2 [OF admits_taken [OF assms(1) this]]
  show ?thesis
    unfolding refuses_def
  proof (intro ballI allI impI)
    fix j m
    assume j: "j \<in> R - {k}" "messages c' j = Some m"
    then have "((messages c)(k := None)) j = Some m" using shrinksD [OF s, of j m] by simp
    then show "cm_dropped m" using assms(2) j(1) by (auto simp: refuses_def)
  qed
next
  case False
  then have "admits payload header origin proof k now c = Some (False, c')" using assms(3) by simp
  from refuses_shrinks [OF assms(2) admits_refused [OF assms(1) this]] show ?thesis by (rule refuses_subset) blast
qed

lemma refuses_drops: "ok c \<Longrightarrow> refuses (R - {k}) (messages c) \<Longrightarrow> refuses (insert k R) (messages (drops k c))"
  using drops_law [of c k] by (auto simp: refuses_def)

lemma refuses_drops_keep: "ok c \<Longrightarrow> refuses R (messages c) \<Longrightarrow> refuses R (messages (drops k c))"
  using drops_law [of c k] by (auto simp: refuses_def)

lemma refused_not_served:
  assumes "ok c" "refuses R (messages c)" "gets k now c = (Some m, c')" "\<not> cm_dropped m"
  shows "k \<notin> R"
  using gets_law [OF assms(1,3)] assms(2,4) shrinksD [of "messages c" "messages c'" k m] by (auto simp: refuses_def)

end

lemma cached_books: "books ops c xs \<Longrightarrow> cache_view ops c k = map_option ce_message (map_of xs k)"
  by (simp add: cache_view_def entries_def books_def)

lemma map_of_filter_distinct:
  assumes "distinct (map fst es)"
  shows "map_of (filter keep es) j = (case map_of es j of Some e \<Rightarrow> (if keep (j, e) then Some e else None) | None \<Rightarrow> None)"
  using assms by (induction es) (auto split: option.splits simp: map_of_eq_None_iff)

lemma map_of_take_None: "map_of (take n xs) k = None \<or> map_of (take n xs) k = map_of xs k"
proof (cases "map_of (take n xs) k")
  case (Some v)
  have "map_of (take n xs @ drop n xs) k = Some v" using Some unfolding map_of_append by (simp add: map_add_Some_iff)
  then show ?thesis unfolding append_take_drop_id using Some by simp
qed simp

lemma cached_fresh:
  assumes "lru_laws ops" "books ops c xs"
  shows "shrinks (\<lambda>k. map_option ce_message (map_of xs k)) (\<lambda>k. map_option ce_message (map_of (fresh now age xs) k))"
  using map_of_filter_distinct [OF lru_distinct [OF assms]] unfolding shrinks_def fresh_def
  by (auto split: option.split)

lemma cached_kept:
  assumes "lru_laws ops" "books ops c xs" "j \<noteq> i"
  shows "map_option ce_message (map_of (take n (kept i now age xs)) j) = None \<or>
    map_option ce_message (map_of (take n (kept i now age xs)) j) = cache_view ops c j"
proof -
  have d: "distinct (map fst xs)" using lru_distinct [OF assms(1,2)] .
  have "kept i now age xs = filter (\<lambda>x. fst x \<noteq> i \<and> now - ce_inserted_at (snd x) < age) xs"
    by (simp add: kept_def without_def fresh_def conj_commute)
  then have "map_of (kept i now age xs) j = None \<or> map_of (kept i now age xs) j = map_of xs j"
    using map_of_filter_distinct [OF d] assms(3) by (auto split: option.splits)
  then show ?thesis using map_of_take_None [of n "kept i now age xs" j] cached_books [OF assms(2), of j] by auto
qed

text \<open>The bounded cache of the code is such a store.\<close>

lemma cached_front:
  assumes "distinct (map fst xs)" "ys = (case map_of xs k of None \<Rightarrow> xs | Some e \<Rightarrow> (k, f e) # without k xs)"
  shows "map_of ys j = (if j = k then map_option f (map_of xs k) else map_of xs j)"
proof (cases "map_of xs k")
  case None
  then show ?thesis using assms(2) by auto
next
  case (Some e)
  then show ?thesis using assms by (auto simp: without_def map_of_filter_distinct split: option.split)
qed

lemma cached_mark_dropped:
  assumes "lru_laws ops" "cache_ok ops c"
  shows "cache_view ops (snd (mark_dropped ops k c)) = (cache_view ops c)(k := map_option (\<lambda>m. m\<lparr>cm_dropped := True\<rparr>) (cache_view ops c k))"
proof -
  let ?f = "\<lambda>entry. entry\<lparr>ce_message := (ce_message entry)\<lparr>cm_dropped := True\<rparr>\<rparr>"
  note b = cache_okD(2) [OF assms(2)]
  obtain lru where l: "lru_get_mut ops k ?f (mc_lru c) = (map_of (entries ops c) k, lru)"
    "lru_iter ops lru = (case map_of (entries ops c) k of
       None \<Rightarrow> entries ops c | Some e \<Rightarrow> (k, ?f e) # without k (entries ops c))"
    "lru_cap ops lru = lru_cap ops (mc_lru c)" using lru_get_mut_result [OF assms(1) b] .
  have "entries ops (snd (mark_dropped ops k c)) = lru_iter ops lru"
    using l(1) by (auto simp: mark_dropped_def Let_def entries_def split: option.splits)
  moreover note cached_front [OF lru_distinct [OF assms(1) b] l(2)]
  ultimately show ?thesis by (auto simp: cache_view_def fun_eq_iff map_option.compositionality comp_def)
qed

lemma cached_set_inner_proof:
  assumes "lru_laws ops" "cache_ok ops c"
  shows "cache_view ops (set_inner_proof ops k proof c) = (cache_view ops c)(k := map_option (\<lambda>m. m\<lparr>cm_inner_proof := proof\<rparr>) (cache_view ops c k))"
proof -
  let ?f = "\<lambda>entry. entry\<lparr>ce_message := (ce_message entry)\<lparr>cm_inner_proof := proof\<rparr>\<rparr>"
  note b = cache_okD(2) [OF assms(2)]
  obtain lru where l: "lru_get_mut ops k ?f (mc_lru c) = (map_of (entries ops c) k, lru)"
    "lru_iter ops lru = (case map_of (entries ops c) k of
       None \<Rightarrow> entries ops c | Some e \<Rightarrow> (k, ?f e) # without k (entries ops c))"
    "lru_cap ops lru = lru_cap ops (mc_lru c)" using lru_get_mut_result [OF assms(1) b] .
  have "entries ops (set_inner_proof ops k proof c) = lru_iter ops lru" using l(1) by (simp add: set_inner_proof_def entries_def)
  moreover note cached_front [OF lru_distinct [OF assms(1) b] l(2)]
  ultimately show ?thesis by (auto simp: cache_view_def fun_eq_iff map_option.compositionality comp_def)
qed

lemma cached_prune:
  assumes "lru_laws ops" "cache_ok ops c"
  shows "shrinks (cache_view ops c) (cache_view ops (prune_expired_at ops now c))"
  using cached_fresh [OF assms(1) cache_okD(2) [OF assms(2)], of now "mc_max_age c"]
    cached_books [OF conjunct1 [OF prune_expired_books [OF assms(1) cache_okD(2) [OF assms(2)], of now]]]
  by (simp add: cache_view_def shrinks_def)

lemma map_of_set_eq:
  assumes "distinct (map fst xs)" "distinct (map fst ys)" "set xs = set ys"
  shows "map_of xs k = map_of ys k"
proof (cases "map_of ys k")
  case None
  then show ?thesis using assms(3) by (metis map_of_eq_None_iff)
next
  case (Some v)
  then have "(k, v) \<in> set xs" using map_of_SomeD assms(3) by fastforce
  then show ?thesis using Some assms(1) by simp
qed

lemma cached_get:
  assumes "lru_laws ops" "cache_ok ops c" "get_at ops k now c = (found, c')"
  shows "cache_ok ops c'" "shrinks (cache_view ops c) (cache_view ops c')" "found = cache_view ops c' k"
proof -
  let ?xs = "fresh now (mc_max_age c) (entries ops c)"
  note g = get_at_ok [OF assms(1,2), of k now, unfolded assms(3) fst_conv snd_conv]
  note b = cache_okD(2) [OF assms(2)]
  have d: "distinct (map fst ?xs)" using lru_distinct [OF assms(1) b] by (simp add: fresh_def distinct_map_filter)
  have d': "distinct (map fst (entries ops c'))" using lru_distinct [OF assms(1) cache_okD(2) [OF g(1)]] .
  have eq: "cache_view ops c' j = map_option ce_message (map_of ?xs j)" for j
    using map_of_set_eq [OF d' d g(3)] by (simp add: cache_view_def)
  show "cache_ok ops c'" by (fact g(1))
  show "shrinks (cache_view ops c) (cache_view ops c')"
    using cached_fresh [OF assms(1) b, of now "mc_max_age c"] eq by (simp add: shrinks_def cache_view_def)
  show "found = cache_view ops c' k" using g(2) eq by simp
qed

lemma cached_insert:
  assumes "lru_laws ops" "cache_ok ops c" "insert_at ops k m now c = Some (taken, c')"
  shows "cache_ok ops c'" "shrinks ((cache_view ops c)(k := None)) ((cache_view ops c')(k := None))"
    "taken \<Longrightarrow> cache_view ops c' k = Some m" "\<not> taken \<Longrightarrow> cache_view ops c' k = None"
proof -
  let ?ys = "kept k now (mc_max_age c) (entries ops c)"
  note b = cache_okD(2) [OF assms(2)]
  note S = cached_kept [OF assms(1) b, where i = k and now = now and age = "mc_max_age c"]
  obtain b0 c0 where "insert_at ops k m now c = Some (b0, c0)" "cache_ok ops c0" using insert_at_ok [OF assms(1,2)] .
  then show "cache_ok ops c'" using assms(3) by simp
  consider (full) "taken = False" "books ops c' ?ys"
    | (taken) n where "taken = True" "books ops c' ((k, \<lparr>ce_message = m, ce_bytes = estimate_message_bytes m, ce_inserted_at = now\<rparr>) # take n ?ys)"
    using insert_at_result [OF assms(1,2), of m k now] assms(3) by (auto split: if_splits)
  note cases = this
  have none: "map_of (take n ?ys) k = None" for n
    using kept_subset(4) [of k now "mc_max_age c" "entries ops c"] set_take_subset [of n ?ys] unfolding map_of_eq_None_iff by blast
  show "shrinks ((cache_view ops c)(k := None)) ((cache_view ops c')(k := None))"
    using cases
  proof cases
    case full
    have "cache_view ops c' j = map_option ce_message (map_of (take (length ?ys) ?ys) j)" for j using cached_books [OF full(2)] by simp
    then show ?thesis unfolding shrinks_except using S [where n = "length ?ys"] by presburger
  next
    case (taken n)
    have "cache_view ops c' j = map_option ce_message (map_of (take n ?ys) j)" if "j \<noteq> k" for j using cached_books [OF taken(2)] that by simp
    then show ?thesis unfolding shrinks_except using S [where n = n] by presburger
  qed
  show "taken \<Longrightarrow> cache_view ops c' k = Some m" using cases by cases (simp_all add: cached_books)
  show "\<not> taken \<Longrightarrow> cache_view ops c' k = None" using cases none [of "length ?ys"] by cases (simp_all add: cached_books)
qed

lemma shrinks_upd: "shrinks m m' \<Longrightarrow> shrinks (m(k := None)) (m'(k := None))"
  by (simp add: shrinks_def)

lemma cached_message:
  assumes "lru_laws ops" "cache_ok ops c" "cache_message ops k payload header origin t1 t2 c = Some (taken, c')"
  shows "cache_ok ops c'" "shrinks ((cache_view ops c)(k := None)) ((cache_view ops c')(k := None))"
    "taken \<Longrightarrow> cache_view ops c' k = Some \<lparr>cm_payload = payload, cm_header = header, cm_dropped = False, cm_local_origin = origin, cm_inner_proof = None\<rparr>"
    "\<not> taken \<Longrightarrow> shrinks (cache_view ops c) (cache_view ops c')"
proof -
  obtain seen c1 where r: "(if origin then (None, c) else get_at ops k t1 c) = (seen, c1)" by fastforce
  have c1: "cache_ok ops c1" "shrinks (cache_view ops c) (cache_view ops c1)"
    using r cached_get [OF assms(1,2), of k t1 seen c1] assms(2) by (auto split: if_splits)
  have "cache_message ops k payload header origin t1 t2 c =
      (if \<not> origin \<and> (case seen of None \<Rightarrow> False | Some m \<Rightarrow> cm_local_origin m) then Some (False, c1)
       else insert_at ops k \<lparr>cm_payload = payload, cm_header = header, cm_dropped = False, cm_local_origin = origin, cm_inner_proof = None\<rparr> t2 c1)"
    unfolding cache_message_def Let_def r by simp
  then consider (echo) "taken = False" "c' = c1"
    | (new) "insert_at ops k \<lparr>cm_payload = payload, cm_header = header, cm_dropped = False, cm_local_origin = origin, cm_inner_proof = None\<rparr> t2 c1 = Some (taken, c')"
    using assms(3) by (auto split: if_splits)
  note cases = this
  show "cache_ok ops c'" using cases c1 cached_insert(1) [OF assms(1) c1(1)] by cases auto
  show "shrinks ((cache_view ops c)(k := None)) ((cache_view ops c')(k := None))"
    using cases
  proof cases
    case new
    show ?thesis using shrinks_trans [OF shrinks_upd [OF c1(2)] cached_insert(2) [OF assms(1) c1(1) new]] .
  qed (use shrinks_upd [OF c1(2)] in simp)
  show "taken \<Longrightarrow> cache_view ops c' k = Some \<lparr>cm_payload = payload, cm_header = header, cm_dropped = False, cm_local_origin = origin, cm_inner_proof = None\<rparr>"
    using cases cached_insert(3) [OF assms(1) c1(1)] by cases auto
  show "shrinks (cache_view ops c) (cache_view ops c')" if "\<not> taken"
    using cases
  proof cases
    case new
    note i = cached_insert [OF assms(1) c1(1) new]
    have "shrinks (cache_view ops c1) (cache_view ops c')"
      unfolding shrinks_def
    proof
      fix j
      show "cache_view ops c' j = None \<or> cache_view ops c' j = cache_view ops c1 j"
        using i(2) i(4) [OF that] unfolding shrinks_except by (cases "j = k") auto
    qed
    then show ?thesis using shrinks_trans [OF c1(2)] by blast
  qed (use c1 in simp)
qed

lemma bounded_cache_store:
  assumes "lru_laws ops"
  shows "message_store (cache_ok ops) (cache_view ops) (admit_message ops) (get_at ops)
    (\<lambda>k c. snd (mark_dropped ops k c)) (prune_expired_at ops)"
proof
  fix c payload header origin pf k now
  assume ok: "cache_ok ops c"
  obtain b c' where m: "cache_message ops k payload header origin now now c = Some (b, c')" "cache_ok ops c'"
    using cache_message_ok [OF assms ok] .
  note M = cached_message [OF assms ok m(1)]
  have a: "admit_message ops payload header origin pf k now c = Some (b, if b then set_inner_proof ops k pf c' else c')"
    using m(1) by (simp add: admit_message_def)
  note P = cached_set_inner_proof [OF assms m(2), of k pf]
  show "\<exists>taken c'. admit_message ops payload header origin pf k now c = Some (taken, c') \<and> cache_ok ops c'"
    using a m(2) set_inner_proof_ok [OF assms m(2)] by auto
  show "cache_view ops c'' k = Some \<lparr>cm_payload = payload, cm_header = header, cm_dropped = False, cm_local_origin = origin, cm_inner_proof = pf\<rparr> \<and>
      shrinks ((cache_view ops c)(k := None)) ((cache_view ops c'')(k := None))"
    if "admit_message ops payload header origin pf k now c = Some (True, c'')" for c''
    using that a M(2,3) P by (auto split: if_splits)
  show "shrinks (cache_view ops c) (cache_view ops c'')"
    if "admit_message ops payload header origin pf k now c = Some (False, c'')" for c''
    using that a M(4) by (auto split: if_splits)
next
  fix c k now found c'
  assume "cache_ok ops c" "get_at ops k now c = (found, c')"
  then show "cache_ok ops c' \<and> shrinks (cache_view ops c) (cache_view ops c') \<and> found = cache_view ops c' k"
    using cached_get [OF assms] by blast
next
  fix c k
  assume "cache_ok ops c"
  then show "cache_ok ops (snd (mark_dropped ops k c)) \<and>
      cache_view ops (snd (mark_dropped ops k c)) = (cache_view ops c)(k := map_option (\<lambda>m. m\<lparr>cm_dropped := True\<rparr>) (cache_view ops c k))"
    using mark_dropped_ok [OF assms] cached_mark_dropped [OF assms] by blast
next
  fix c now
  assume "cache_ok ops c"
  then show "cache_ok ops (prune_expired_at ops now c) \<and> shrinks (cache_view ops c) (cache_view ops (prune_expired_at ops now c))"
    using prune_expired_ok [OF assms] cached_prune [OF assms] by blast
qed

locale lawful_cache =
  fixes ops :: "'l cache_ops"
  assumes laws: "lru_laws ops"

sublocale lawful_cache \<subseteq> store: message_store "cache_ok ops" "cache_view ops" "admit_message ops" "get_at ops"
  "\<lambda>k c. snd (mark_dropped ops k c)" "prune_expired_at ops"
  by (rule bounded_cache_store [OF laws])

interpretation list_cache: lawful_cache "list_lru :: (MessageIdType, CachedEntry, (MessageIdType, CachedEntry) lru_list) lru_ops"
  by unfold_locales (rule list_lru_laws)

text \<open>The laws and the client lemmas for every cache over a lawful \<open>LruCache\<close>.\<close>

lemmas bc_admits_returns = message_store.admits_returns [OF bounded_cache_store]
lemmas bc_admits_taken = message_store.admits_taken [OF bounded_cache_store]
lemmas bc_admits_refused = message_store.admits_refused [OF bounded_cache_store]
lemmas bc_gets = message_store.gets_law [OF bounded_cache_store]
lemmas bc_drops = message_store.drops_law [OF bounded_cache_store]
lemmas bc_prunes = message_store.prunes_law [OF bounded_cache_store]
lemmas bc_refuses_admits = message_store.refuses_admits [OF bounded_cache_store]
lemmas bc_refuses_drops = message_store.refuses_drops [OF bounded_cache_store]
lemmas bc_refuses_drops_keep = message_store.refuses_drops_keep [OF bounded_cache_store]
lemmas bc_refused_not_served = message_store.refused_not_served [OF bounded_cache_store]

text \<open>A message that fits the byte bound is taken, unless a local message holds its id.\<close>

lemma admit_fits:
  assumes "lru_laws ops" "cache_ok ops c" "origin \<or> cache_view ops c k = None"
    and "estimate_message_bytes \<lparr>cm_payload = payload, cm_header = header, cm_dropped = False, cm_local_origin = origin, cm_inner_proof = None\<rparr> \<le> mc_max_bytes c"
    and "admit_message ops payload header origin pf k now c = Some (taken, c')"
  shows "taken"
proof -
  obtain seen c1 where r: "(if origin then (None, c) else get_at ops k now c) = (seen, c1)" by fastforce
  have c1: "cache_ok ops c1 \<and> mc_max_bytes c1 = mc_max_bytes c \<and> (\<not> origin \<longrightarrow> seen = None)"
  proof (cases origin)
    case False
    then have g: "get_at ops k now c = (seen, c1)" using r by simp
    note G = cached_get [OF assms(1,2) g]
    have "seen = None" using assms(3) False G(3) shrinksD [OF G(2), of k] by (cases "cache_view ops c1 k") auto
    then show ?thesis using G(1) get_at_ok(4) [OF assms(1,2), of k now] by (simp add: g same_limits_def)
  qed (use r assms(2) in auto)
  then have "cache_message ops k payload header origin now now c = insert_at ops k
      \<lparr>cm_payload = payload, cm_header = header, cm_dropped = False, cm_local_origin = origin, cm_inner_proof = None\<rparr> now c1"
    unfolding cache_message_def Let_def r by auto
  moreover obtain c2 where "insert_at ops k
      \<lparr>cm_payload = payload, cm_header = header, cm_dropped = False, cm_local_origin = origin, cm_inner_proof = None\<rparr> now c1 = Some (True, c2)"
    using insert_at_result [OF assms(1) conjunct1 [OF c1]] assms(4) c1 by (metis not_less)
  ultimately show ?thesis using assms(5) by (simp add: admit_message_def)
qed

lemma cached_local:
  assumes "lru_laws ops" "cache_ok ops c" "get_local_origin_message ops k now c = (found, c')"
  shows "cache_ok ops c'" "shrinks (cache_view ops c) (cache_view ops c')" "\<And>m. found = Some m \<Longrightarrow> cache_view ops c' k = Some m \<and> cm_local_origin m"
proof -
  have c': "c' = prune_expired_at ops now c"
    and f: "found = (case lru_peek ops k (mc_lru c') of None \<Rightarrow> None
      | Some entry \<Rightarrow> if cm_local_origin (ce_message entry) then Some (ce_message entry) else None)"
    using assms(3) by (auto simp: get_local_origin_message_def Let_def)
  have "lru_peek ops k (mc_lru c') = map_of (entries ops c') k"
    using lru_lawsD(1) [OF assms(1)] by (simp add: lru_reads_def entries_def)
  then show "\<And>m. found = Some m \<Longrightarrow> cache_view ops c' k = Some m \<and> cm_local_origin m"
    using f by (auto simp: cache_view_def split: option.splits if_splits)
  show "cache_ok ops c'" "shrinks (cache_view ops c) (cache_view ops c')"
    unfolding c' using prune_expired_ok [OF assms(1,2)] cached_prune [OF assms(1,2)] by blast+
qed

lemma cache_contains_cached: "lru_laws ops \<Longrightarrow> cache_contains ops c k \<longleftrightarrow> cache_view ops c k \<noteq> None"
  using lru_lawsD(1) [of ops] by (simp add: lru_reads_def cache_contains_def cache_view_def entries_def)

subsection \<open>Payloads\<close>

definition remembered :: "'r replay_ops \<Rightarrow> 'r \<Rightarrow> bytes \<rightharpoonup> PayloadReplayEntry" where
  "remembered rops l h = map_of (lru_iter rops l) h"

lemma lru_iter_distinct: "lru_laws ops \<Longrightarrow> distinct (map fst (lru_iter ops l))"
  by (simp add: lru_laws_def lru_reads_def)

lemma remembered_get:
  assumes "lru_laws rops" "lru_get rops h l = (found, l')"
  shows "found = remembered rops l h" "remembered rops l' = remembered rops l" "lru_cap rops l' = lru_cap rops l"
proof -
  have l: "found = map_of (lru_iter rops l) h"
    "lru_iter rops l' = (case map_of (lru_iter rops l) h of None \<Rightarrow> lru_iter rops l | Some v \<Rightarrow> (h, v) # without h (lru_iter rops l))"
    "lru_cap rops l' = lru_cap rops l"
    using lru_lawsD(4) [OF assms(1)] assms(2) unfolding lru_gets_def by (metis fst_conv snd_conv)+
  then show "found = remembered rops l h" "lru_cap rops l' = lru_cap rops l" by (simp_all add: remembered_def)
  show "remembered rops l' = remembered rops l"
    using cached_front [OF lru_iter_distinct [OF assms(1)] l(2)] by (auto simp: remembered_def fun_eq_iff option.map_ident)
qed

lemma remembered_get_mut:
  assumes "lru_laws rops"
  shows "remembered rops (snd (lru_get_mut rops h f l)) = (remembered rops l)(h := map_option f (remembered rops l h))"
    "lru_cap rops (snd (lru_get_mut rops h f l)) = lru_cap rops l"
proof -
  have l: "lru_iter rops (snd (lru_get_mut rops h f l)) =
      (case map_of (lru_iter rops l) h of None \<Rightarrow> lru_iter rops l | Some v \<Rightarrow> (h, f v) # without h (lru_iter rops l))"
    "lru_cap rops (snd (lru_get_mut rops h f l)) = lru_cap rops l"
    using lru_lawsD(4) [OF assms] unfolding lru_gets_def by blast+
  show "remembered rops (snd (lru_get_mut rops h f l)) = (remembered rops l)(h := map_option f (remembered rops l h))"
    using cached_front [OF lru_iter_distinct [OF assms] l(1)] by (auto simp: remembered_def fun_eq_iff)
  show "lru_cap rops (snd (lru_get_mut rops h f l)) = lru_cap rops l" by (fact l(2))
qed

lemma map_of_butlast: "map_of (butlast xs) k = None \<or> map_of (butlast xs) k = map_of xs k"
  using map_of_take_None [of "length xs - 1" xs k] by (simp add: butlast_conv_take)

lemma remembered_push:
  assumes "lru_laws rops" "0 < lru_cap rops l"
  shows "remembered rops (snd (lru_push rops h v l)) h = Some v"
    "shrinks ((remembered rops l)(h := None)) ((remembered rops (snd (lru_push rops h v l)))(h := None))"
    "lru_cap rops (snd (lru_push rops h v l)) = lru_cap rops l"
proof -
  let ?l' = "snd (lru_push rops h v l)" and ?xs = "lru_iter rops l"
  note P = lru_lawsD(3) [OF assms(1), unfolded lru_pushes_def, rule_format, of h v l]
  show "lru_cap rops ?l' = lru_cap rops l" using P by blast
  have iter: "\<exists>ys. lru_iter rops ?l' = (h, v) # ys \<and> (\<forall>k. k \<noteq> h \<longrightarrow> map_of ys k = None \<or> map_of ys k = map_of ?xs k)"
  proof (cases "map_of ?xs h")
    case None
    then show ?thesis
    proof (cases "length ?xs < lru_cap rops l")
      case True
      then show ?thesis using P None by auto
    next
      case False
      then have "?xs \<noteq> []" using assms(2) by auto
      then have "lru_iter rops ?l' = (h, v) # butlast ?xs" using P None False by auto
      then show ?thesis using map_of_butlast [of ?xs] by auto
    qed
  next
    case (Some old)
    then have "lru_iter rops ?l' = (h, v) # without h ?xs" using P by auto
    then show ?thesis using map_of_filter_distinct [OF lru_iter_distinct [OF assms(1)]] by (auto simp: without_def split: option.split)
  qed
  then show "remembered rops ?l' h = Some v" by (auto simp: remembered_def)
  show "shrinks ((remembered rops l)(h := None)) ((remembered rops ?l')(h := None))"
    using iter unfolding shrinks_except remembered_def by auto
qed

text \<open>Cleaning drops whole entries only.\<close>

lemma remembered_pops:
  assumes "lru_laws rops"
  shows "shrinks (remembered rops l) (remembered rops (fold (\<lambda>h l. snd (lru_pop rops h l)) hs l)) \<and>
    lru_cap rops (fold (\<lambda>h l. snd (lru_pop rops h l)) hs l) = lru_cap rops l"
proof (induction hs arbitrary: l)
  case (Cons h hs)
  have p: "lru_iter rops (snd (lru_pop rops h l)) = without h (lru_iter rops l)" "lru_cap rops (snd (lru_pop rops h l)) = lru_cap rops l"
    using lru_lawsD(2) [OF assms] unfolding lru_pops_def by blast+
  have "shrinks (remembered rops l) (remembered rops (snd (lru_pop rops h l)))"
    using map_of_filter_distinct [OF lru_iter_distinct [OF assms]]
    by (auto simp: shrinks_def remembered_def p(1) without_def split: option.split)
  then show ?case using Cons.IH [of "snd (lru_pop rops h l)"] shrinks_trans p(2) by auto
qed simp

end
