(* ===== verification/Plumtree.thy ===== *)
theory Plumtree
  imports Eager_Reply Announcements Cache_View
begin

text \<open>
  The Plumtree exchange of a topic, in \<open>crates/pubsub/src/lib.rs\<close>: the handlers of EAGER, IHAVE,
  IWANT and anti-entropy messages and the local publish. The code holds the lock of a topic for
  sections of a handler and releases it around signature checks and sends; every section is a
  definition here, a handler is the composition of its sections, and a run of a topic may
  interleave the sections of any number of handlers.

  Parameters, collected in \<open>plum_env\<close>: the LRU caches, the hash of \<open>blake3\<close>, the signature check
  of the identity crate, the wire policy of \<open>compat.rs\<close> for a topic (\<open>pe_registered\<close>, \<open>pe_ingress\<close>,
  \<open>pe_verify_inner\<close>), whether \<open>postcard\<close> can serialize a message (\<open>pe_encodes\<close>), scores and iteration
  orders of the mesh. The verdict of the application's
  validator and the outcome of a send are arguments: they may differ from call to call. A handler
  returns \<open>None\<close> only when the fuel of a cache or mesh operation runs out, which never happens.
\<close>

subsection \<open>Messages and verdicts\<close>

record GossipMessage =
  gm_header :: MessageHeader
  gm_payload :: "bytes option"
  gm_signature :: bytes
  gm_public_key :: bytes

datatype ValidationAction = ForwardAndDeliver | DeliverOnly | DropMessage | LazyForward

datatype SignaturePolicy = AcceptV1 | RejectV1

datatype PeerSendOutcome = Sent | NotConnected | TimedOut | Deferred

datatype plum_error =
    HeaderMismatch
  | InvalidSignature
  | IngressRefused
  | InnerProofRefused
  | MissingPayload
  | DecodeFailed
  | SendFailed
  | CacheServeRefused
  | ForwardSerializeFailed
  | IwantSerializeFailed

record ('l, 'r) plum_env =
  pe_ops :: "'l cache_ops"
  pe_rops :: "'r replay_ops"
  pe_blake3 :: "bytes \<Rightarrow> bytes"
  pe_verify :: "MessageHeader \<Rightarrow> bytes \<Rightarrow> bytes \<Rightarrow> bool"
  pe_policy :: SignaturePolicy
  pe_registered :: bool
  pe_ingress :: "PeerId \<Rightarrow> GossipMessage \<Rightarrow> bool"
  pe_verify_inner :: "bytes \<Rightarrow> VerifiedInner option option"
  pe_encodes :: "GossipMessage \<Rightarrow> bool"
  pe_mesh :: mesh_env
  pe_new_topic :: "instant \<Rightarrow> ('l, 'r) TopicState"

text \<open>\<open>verify_message_signature\<close>: the header version fits its payload hash, the signature over the
  header holds, and a sealed header covers the payload.\<close>

definition verify_payload_covering_signature :: "('l, 'r) plum_env \<Rightarrow> GossipMessage \<Rightarrow> bool" where
  "verify_payload_covering_signature env m \<longleftrightarrow>
     (case hdr_payload_hash (gm_header m) of
        Some expected \<Rightarrow> pe_blake3 env (case gm_payload m of None \<Rightarrow> [] | Some p \<Rightarrow> p) = expected
      | None \<Rightarrow> pe_policy env \<noteq> RejectV1)"

definition verify_message_signature :: "('l, 'r) plum_env \<Rightarrow> GossipMessage \<Rightarrow> bool" where
  "verify_message_signature env m \<longleftrightarrow>
     (hdr_version (gm_header m) = 1 \<and> hdr_payload_hash (gm_header m) = None \<or>
      hdr_version (gm_header m) = 2 \<and> hdr_payload_hash (gm_header m) \<noteq> None) \<and>
     pe_verify env (gm_header m) (gm_signature m) (gm_public_key m) \<and> verify_payload_covering_signature env m"

definition has_message :: "'l cache_ops \<Rightarrow> ('l, 'r) TopicState \<Rightarrow> MessageIdType \<Rightarrow> bool" where
  "has_message ops s msg_id \<longleftrightarrow> cache_contains ops (ts_message_cache s) msg_id"

definition mark_message_dropped :: "'l cache_ops \<Rightarrow> MessageIdType \<Rightarrow> ('l, 'r) TopicState \<Rightarrow> ('l, 'r) TopicState" where
  "mark_message_dropped ops msg_id s = s\<lparr>ts_message_cache := snd (mark_dropped ops msg_id (ts_message_cache s))\<rparr>"

definition record_inbound :: "PeerId \<Rightarrow> ('l, 'r) TopicState \<Rightarrow> ('l, 'r) TopicState" where
  "record_inbound peer s = s\<lparr>ts_mesh := snd (record_inbound_peer_activity peer (ts_mesh s))\<rparr>"

text \<open>\<open>cache_message\<close> of a topic touches it, and a message that was cached gets its inner proof.\<close>

definition topic_cache_message ::
  "'l cache_ops \<Rightarrow> MessageIdType \<Rightarrow> bytes \<Rightarrow> MessageHeader \<Rightarrow> bool \<Rightarrow> VerifiedInner option \<Rightarrow> instant \<Rightarrow> ('l, 'r) TopicState \<Rightarrow>
   ('l, 'r) TopicState option" where
  "topic_cache_message ops msg_id payload header local_origin proof now s =
     (case admit_message ops payload header local_origin proof msg_id now (ts_message_cache s) of
        None \<Rightarrow> None
      | Some (accepted, cache) \<Rightarrow>
          Some (let s1 = s\<lparr>ts_message_cache := cache\<rparr> in if accepted then touch now s1 else s1))"

definition topic_maintain_degree :: "mesh_env \<Rightarrow> instant \<Rightarrow> ('l, 'r) TopicState \<Rightarrow> ('l, 'r) TopicState option" where
  "topic_maintain_degree env now s =
     (case maintain_degree env now (ts_mesh s) of
        None \<Rightarrow> None
      | Some (pruned, grafted, mesh) \<Rightarrow> Some (s\<lparr>ts_mesh := mesh\<rparr>))"

text \<open>\<open>topics.entry(topic).or_insert_with(new_topic_state)\<close>.\<close>

definition new_topic_state ::
  "'l cache_ops \<Rightarrow> 'r replay_ops \<Rightarrow> nat \<Rightarrow> nat \<Rightarrow> duration \<Rightarrow> nat \<Rightarrow> nat \<Rightarrow> nat \<Rightarrow> nat \<Rightarrow> instant \<Rightarrow> ('l, 'r) TopicState" where
  "new_topic_state ops rops max_count max_bytes max_age max_eager_degree probe_id custody_id token now =
     (let s = with_cache_config ops rops max_count max_bytes max_age now probe_id custody_id token
      in s\<lparr>ts_mesh := refresh_preferred_eager_ceiling ((ts_mesh s)\<lparr>ms_configured_max_eager_degree := max_eager_degree\<rparr>)\<rparr>)"

definition or_new :: "('l, 'r) plum_env \<Rightarrow> instant \<Rightarrow> ('l, 'r) TopicState option \<Rightarrow> ('l, 'r) TopicState" where
  "or_new env now st = (case st of Some s \<Rightarrow> s | None \<Rightarrow> pe_new_topic env now)"

subsection \<open>EAGER\<close>

text \<open>What a handled EAGER message does. \<open>Accepted\<close> carries the verdict, and the peers it is forwarded
  to; it has been handed to the local subscribers. So has an \<open>Unforwarded\<close> one, whose forward then failed
  to serialize.\<close>

datatype eager_outcome =
    Duplicate
  | Replayed bool
  | Dropped
  | Accepted ValidationAction "PeerId list"
  | Unforwarded ValidationAction

definition prune_duplicate_sender :: "mesh_env \<Rightarrow> instant \<Rightarrow> PeerId \<Rightarrow> ('l, 'r) TopicState \<Rightarrow> ('l, 'r) TopicState" where
  "prune_duplicate_sender env now from s =
     (if is_healthy_preferred_at env (ts_mesh s) from now then s else s\<lparr>ts_mesh := snd (prune_peer from (ts_mesh s))\<rparr>)"

text \<open>The duplicate check before the signature is verified, and the one after it.\<close>

definition eager_pre_verify ::
  "('l, 'r) plum_env \<Rightarrow> instant \<Rightarrow> PeerId \<Rightarrow> MessageIdType \<Rightarrow> ('l, 'r) TopicState option \<Rightarrow> ('l, 'r) TopicState option" where
  "eager_pre_verify env now from msg_id st =
     (case st of
        None \<Rightarrow> None
      | Some s \<Rightarrow> if \<not> pe_registered env \<and> has_message (pe_ops env) s msg_id
                 then Some (prune_duplicate_sender (pe_mesh env) now from (touch now s)) else None)"

definition eager_forward_targets :: "mesh_env \<Rightarrow> PeerId \<Rightarrow> ('l, 'r) TopicState \<Rightarrow> PeerId list" where
  "eager_forward_targets env from s = filter (\<lambda>p. p \<noteq> from) (me_order env (ms_eager (ts_mesh s)))"

text \<open>The consequences of a verdict other than \<open>Drop\<close>.\<close>

definition eager_propagate ::
  "('l, 'r) plum_env \<Rightarrow> ValidationAction \<Rightarrow> instant \<Rightarrow> PeerId \<Rightarrow> MessageIdType \<Rightarrow> ('l, 'r) TopicState \<Rightarrow>
   (PeerId list \<times> ('l, 'r) TopicState) option" where
  "eager_propagate env action now from msg_id s =
     (let (added, mesh) = add_new_peer_lazy from (ts_mesh s);
          s1 = s\<lparr>ts_mesh := mesh\<rparr>
      in case (if added then topic_maintain_degree (pe_mesh env) now s1 else Some s1) of
           None \<Rightarrow> None
         | Some s2 \<Rightarrow>
             (let withheld = (if action = LazyForward then eager_forward_targets (pe_mesh env) from s2 else []);
                  targets = (if action = ForwardAndDeliver then eager_forward_targets (pe_mesh env) from s2 else []);
                  s3 = (if action = LazyForward then queue_lazy_withheld msg_id withheld True s2 else s2);
                  s4 = (if action = ForwardAndDeliver \<or> action = LazyForward then snd (push_pending_ihave msg_id s3) else s3)
              in Some (targets, s4)))"

text \<open>The section of a message that is not cached: it is cached, checked for a replay and put before
  the validator, whose verdict is \<open>action\<close>.\<close>

definition eager_accept ::
  "('l, 'r) plum_env \<Rightarrow> ValidationAction \<Rightarrow> instant \<Rightarrow> PeerId \<Rightarrow> GossipMessage \<Rightarrow> bytes \<Rightarrow> VerifiedInner option \<Rightarrow>
   ('l, 'r) TopicState \<Rightarrow> (eager_outcome \<times> ('l, 'r) TopicState) option" where
  "eager_accept env action now from m payload proof s =
     (let msg_id = hdr_msg_id (gm_header m);
          s1 = record_inbound from (touch now s)
      in case topic_cache_message (pe_ops env) msg_id payload (gm_header m) False proof now s1 of
           None \<Rightarrow> None
         | Some s2 \<Rightarrow>
             (let s3 = s2\<lparr>ts_outstanding_iwants := map_remove msg_id (ts_outstanding_iwants s2)\<rparr>;
                  (replay, s4) = is_payload_replay (pe_blake3 env) (pe_rops env) payload now s3
              in if replay
                 then (let (refused, s5) = payload_replay_was_refused (pe_blake3 env) (pe_rops env) payload s4
                       in Some (Replayed refused, if refused then mark_message_dropped (pe_ops env) msg_id s5 else s5))
                 else if action = DropMessage
                 then Some (Dropped, refuse_payload_replays (pe_blake3 env) (pe_rops env) payload (mark_message_dropped (pe_ops env) msg_id s4))
                 else (case eager_propagate env action now from msg_id s4 of
                         None \<Rightarrow> None
                       | Some (targets, s5) \<Rightarrow> Some (Accepted action targets, s5))))"

text \<open>The section after the signature check.\<close>

definition eager_post_verify ::
  "('l, 'r) plum_env \<Rightarrow> ValidationAction \<Rightarrow> instant \<Rightarrow> PeerId \<Rightarrow> GossipMessage \<Rightarrow> ('l, 'r) TopicState option \<Rightarrow>
   ((plum_error + eager_outcome) \<times> ('l, 'r) TopicState option) option" where
  "eager_post_verify env action now from m st =
     (let msg_id = hdr_msg_id (gm_header m)
      in if (case st of None \<Rightarrow> False | Some s \<Rightarrow> has_message (pe_ops env) s msg_id)
         then Some (Inr Duplicate, map_option (\<lambda>s. prune_duplicate_sender (pe_mesh env) now from (record_inbound from (touch now s))) st)
         else case gm_payload m of
                None \<Rightarrow> Some (Inl MissingPayload, st)
              | Some payload \<Rightarrow>
                  (case pe_verify_inner env payload of
                     None \<Rightarrow> Some (Inl InnerProofRefused, st)
                   | Some proof \<Rightarrow>
                       (case eager_accept env action now from m payload proof (or_new env now st) of
                          None \<Rightarrow> None
                        | Some (outcome, s) \<Rightarrow> Some (Inr outcome, Some s))))"

text \<open>After the lock is released: the forward guard stops a payload with too many zero bytes, and any
  other message is serialized, once for all peers, also when there is none to forward to.\<close>

definition message_forwardable :: "GossipMessage \<Rightarrow> bool" where
  "message_forwardable m \<longleftrightarrow> (case gm_payload m of None \<Rightarrow> True | Some payload \<Rightarrow> forwardable_payload payload)"

definition eager_forward_stage :: "('l, 'r) plum_env \<Rightarrow> GossipMessage \<Rightarrow> eager_outcome \<Rightarrow> eager_outcome" where
  "eager_forward_stage env m outcome =
     (case outcome of
        Accepted action targets \<Rightarrow> if message_forwardable m \<and> \<not> pe_encodes env m then Unforwarded action else outcome
      | _ \<Rightarrow> outcome)"

text \<open>\<open>handle_eager_admitted\<close>; \<open>eager_error\<close> is the error the call returns. The last one comes after the
  topic was changed and the message delivered.\<close>

definition handle_eager_admitted ::
  "('l, 'r) plum_env \<Rightarrow> ValidationAction \<Rightarrow> instant \<Rightarrow> PeerId \<Rightarrow> TopicId \<Rightarrow> GossipMessage \<Rightarrow> ('l, 'r) TopicState option \<Rightarrow>
   ((plum_error + eager_outcome) \<times> ('l, 'r) TopicState option) option" where
  "handle_eager_admitted env action now from topic m st =
     (if \<not> (hdr_topic (gm_header m) = topic \<and> hdr_kind (gm_header m) = Eager) then Some (Inl HeaderMismatch, st)
      else case eager_pre_verify env now from (hdr_msg_id (gm_header m)) st of
             Some s \<Rightarrow> Some (Inr Duplicate, Some s)
           | None \<Rightarrow>
               if \<not> verify_message_signature env m then Some (Inl InvalidSignature, st)
               else if \<not> pe_ingress env from m then Some (Inl IngressRefused, st)
               else (case eager_post_verify env action now from m st of
                       None \<Rightarrow> None
                     | Some (Inl e, st') \<Rightarrow> Some (Inl e, st')
                     | Some (Inr outcome, st') \<Rightarrow> Some (Inr (eager_forward_stage env m outcome), st')))"

definition eager_error :: "plum_error + eager_outcome \<Rightarrow> plum_error option" where
  "eager_error r = (case r of Inl e \<Rightarrow> Some e | Inr (Unforwarded _) \<Rightarrow> Some ForwardSerializeFailed | Inr _ \<Rightarrow> None)"

definition eager_forwards :: "GossipMessage \<Rightarrow> eager_outcome \<Rightarrow> PeerId list" where
  "eager_forwards m outcome =
     (case outcome of
        Accepted action targets \<Rightarrow> if message_forwardable m then targets else []
      | _ \<Rightarrow> [])"

definition delivers :: "eager_outcome \<Rightarrow> bool" where
  "delivers outcome \<longleftrightarrow> (case outcome of Accepted _ _ \<Rightarrow> True | Unforwarded _ \<Rightarrow> True | _ \<Rightarrow> False)"

subsection \<open>IHAVE\<close>

definition iwant_retry_backoff :: "nat \<Rightarrow> duration" where
  "iwant_retry_backoff failures = 1000 * 2 ^ (min (max failures 1) 5 - 1)"

text \<open>What the request loop does with one advertised id: \<open>break\<close>, \<open>continue\<close> or a request.\<close>

datatype ihave_verdict = StopRequests | SkipId | RequestId nat

definition ihave_verdict_for ::
  "'l cache_ops \<Rightarrow> instant \<Rightarrow> PeerId \<Rightarrow> MessageIdType \<Rightarrow> ('l, 'r) TopicState \<Rightarrow> ihave_verdict \<times> ('l, 'r) TopicState" where
  "ihave_verdict_for ops now from msg_id s =
     (if has_message ops s msg_id then (SkipId, s)
      else case ts_outstanding_iwants s msg_id of
             None \<Rightarrow>
               if card (dom (ts_outstanding_iwants s)) \<ge> MAX_IHAVE_BATCH_SIZE then (StopRequests, s) else (RequestId 0, s)
           | Some entry \<Rightarrow>
               if oi_peer entry = from \<and> (oi_retry_pending entry \<or>
                    (case oi_retry_not_before entry of None \<Rightarrow> False | Some t \<Rightarrow> now < t)) then (SkipId, s)
               else if oi_peer entry \<noteq> from \<and> oi_retry_not_before entry = None then (SkipId, s)
               else let s1 = s\<lparr>ts_outstanding_iwants := map_remove msg_id (ts_outstanding_iwants s)\<rparr>
                    in if card (dom (ts_outstanding_iwants s1)) \<ge> MAX_IHAVE_BATCH_SIZE then (StopRequests, s1)
                       else (RequestId (if oi_peer entry = from then oi_failures entry else 0), s1))"

fun ihave_request_loop ::
  "'l cache_ops \<Rightarrow> instant \<Rightarrow> PeerId \<Rightarrow> MessageIdType list \<Rightarrow> ('l, 'r) TopicState \<Rightarrow> MessageIdType list \<times> ('l, 'r) TopicState" where
  "ihave_request_loop ops now from [] s = ([], s)"
| "ihave_request_loop ops now from (msg_id # msg_ids) s =
     (case ihave_verdict_for ops now from msg_id s of
        (StopRequests, s1) \<Rightarrow> ([], s1)
      | (SkipId, s1) \<Rightarrow> ihave_request_loop ops now from msg_ids s1
      | (RequestId failures, s1) \<Rightarrow>
          (let s2 = s1\<lparr>ts_outstanding_iwants := (ts_outstanding_iwants s1)(msg_id \<mapsto>
                 \<lparr>oi_peer = from, oi_requested_at = now, oi_retry_pending = False, oi_failures = failures, oi_retry_not_before = None\<rparr>)\<rparr>;
               (requested, s3) = ihave_request_loop ops now from msg_ids s2
           in (msg_id # requested, s3)))"

definition ihave_request ::
  "('l, 'r) plum_env \<Rightarrow> instant \<Rightarrow> PeerId \<Rightarrow> MessageIdType list \<Rightarrow> ('l, 'r) TopicState option \<Rightarrow> MessageIdType list \<times> ('l, 'r) TopicState" where
  "ihave_request env now from msg_ids st =
     ihave_request_loop (pe_ops env) now from msg_ids (prune_deferred_iwants now (touch now (or_new env now st)))"

text \<open>The claims of the requested ids that the sending peer still holds are rewritten.\<close>

definition update_claims ::
  "PeerId \<Rightarrow> MessageIdType list \<Rightarrow> (OutstandingIwant \<Rightarrow> OutstandingIwant) \<Rightarrow> ('l, 'r) TopicState \<Rightarrow> ('l, 'r) TopicState" where
  "update_claims from requested f s =
     s\<lparr>ts_outstanding_iwants := fold (\<lambda>msg_id m. case m msg_id of
          None \<Rightarrow> m | Some entry \<Rightarrow> if oi_peer entry = from then m(msg_id \<mapsto> f entry) else m) requested (ts_outstanding_iwants s)\<rparr>"

definition release_claims :: "PeerId \<Rightarrow> MessageIdType list \<Rightarrow> ('l, 'r) TopicState \<Rightarrow> ('l, 'r) TopicState" where
  "release_claims from requested s =
     s\<lparr>ts_outstanding_iwants := fold (\<lambda>msg_id m. case m msg_id of
          None \<Rightarrow> m | Some entry \<Rightarrow> if oi_peer entry = from then map_remove msg_id m else m) requested (ts_outstanding_iwants s)\<rparr>"

text \<open>The section after the send of the IWANT, by its outcome; \<open>None\<close> is a send that failed with an error.\<close>

definition ihave_complete ::
  "instant \<Rightarrow> PeerId \<Rightarrow> MessageIdType list \<Rightarrow> PeerSendOutcome option \<Rightarrow> ('l, 'r) TopicState \<Rightarrow> ('l, 'r) TopicState" where
  "ihave_complete now from requested outcome s =
     (case outcome of
        Some Sent \<Rightarrow> update_claims from requested (oi_requested_at_update (\<lambda>_. now)) s
      | Some Deferred \<Rightarrow>
          (let s1 = update_claims from requested (oi_retry_pending_update (\<lambda>_. True)) s;
               (kept, s2) = retain_deferred_iwant from requested now s1
           in if kept then s2 else release_claims from requested s2)
      | _ \<Rightarrow> update_claims from requested
              (\<lambda>entry. let failures = min (oi_failures entry + 1) 255
                       in entry\<lparr>oi_failures := failures, oi_retry_not_before := Some (now + iwant_retry_backoff failures)\<rparr>) s)"

definition handle_ihave_admitted ::
  "('l, 'r) plum_env \<Rightarrow> instant \<Rightarrow> instant \<Rightarrow> PeerId \<Rightarrow> MessageIdType list \<Rightarrow> (MessageIdType list \<Rightarrow> PeerSendOutcome option) \<Rightarrow>
   ('l, 'r) TopicState option \<Rightarrow> (plum_error + MessageIdType list) \<times> ('l, 'r) TopicState" where
  "handle_ihave_admitted env now later from msg_ids send st =
     (let (requested, s1) = ihave_request env now from msg_ids st
      in if requested = [] then (Inr [], s1)
         else let outcome = send requested;
                  s2 = ihave_complete later from requested outcome s1
              in (if outcome = None then Inl SendFailed else Inr requested, s2))"

subsection \<open>IWANT\<close>

text \<open>The messages selected for a requester, under the lock.\<close>

definition iwant_lookup ::
  "'l cache_ops \<Rightarrow> bool \<Rightarrow> instant \<Rightarrow> MessageIdType \<Rightarrow> ('l, 'r) TopicState \<Rightarrow> CachedMessage option \<times> ('l, 'r) TopicState" where
  "iwant_lookup ops local_origin_only now msg_id s =
     (let (found, cache) = (if local_origin_only then get_local_origin_message ops msg_id now (ts_message_cache s)
                            else get_at ops msg_id now (ts_message_cache s))
      in (found, s\<lparr>ts_message_cache := cache\<rparr>))"

fun iwant_select_loop ::
  "'l cache_ops \<Rightarrow> bool \<Rightarrow> instant \<Rightarrow> MessageIdType list \<Rightarrow> ('l, 'r) TopicState \<Rightarrow>
   (MessageIdType \<times> CachedMessage) list \<times> ('l, 'r) TopicState" where
  "iwant_select_loop ops local_only now [] s = ([], s)"
| "iwant_select_loop ops local_only now (msg_id # msg_ids) s =
     (let (found, s1) = iwant_lookup ops local_only now msg_id s;
          (rest, s2) = iwant_select_loop ops local_only now msg_ids s1
      in (case found of
            None \<Rightarrow> rest
          | Some cached \<Rightarrow> if cm_dropped cached then rest else (msg_id, cached) # rest, s2))"

definition iwant_select ::
  "('l, 'r) plum_env \<Rightarrow> bool \<Rightarrow> instant \<Rightarrow> PeerId \<Rightarrow> MessageIdType list \<Rightarrow> ('l, 'r) TopicState option \<Rightarrow>
   ((MessageIdType \<times> CachedMessage) list \<times> ('l, 'r) TopicState option) option" where
  "iwant_select env local_only now from msg_ids st =
     (if local_only \<and> st = None then Some ([], None)
      else let s = or_new env now st;
               s1 = (if local_only then s else touch now s);
               (to_send, s2) = iwant_select_loop (pe_ops env) local_only now msg_ids s1
           in if to_send = [] then Some ([], Some s2)
              else let s3 = (if local_only then record_inbound from (touch now s2) else s2);
                       s4 = s3\<lparr>ts_mesh := snd (add_new_peer_lazy from (ts_mesh s3))\<rparr>
                   in map_option (\<lambda>s5. (to_send, Some s5)) (topic_maintain_degree (pe_mesh env) now s4))"

text \<open>One claimed reply. \<open>send\<close> is the bounded send, whose completion runs in \<open>complete_eager_reply\<close>;
  \<open>admitted\<close> is the answer of the wire policy.\<close>

definition send_claimed_iwant_reply ::
  "bool \<Rightarrow> (GossipMessage \<Rightarrow> PeerSendOutcome option) \<Rightarrow> bytes \<Rightarrow> (MessageHeader \<Rightarrow> bytes) \<Rightarrow> CachedMessage \<Rightarrow>
   (plum_error + EagerReplyOutcome) \<times> GossipMessage option" where
  "send_claimed_iwant_reply admitted send public_key sign cached =
     (if \<not> admitted then (Inl CacheServeRefused, None)
      else if \<not> forwardable_payload (cm_payload cached) then (Inr ReplyFailed, None)
      else let m = \<lparr>gm_header = cm_header cached, gm_payload = Some (cm_payload cached),
                    gm_signature = sign (cm_header cached), gm_public_key = public_key\<rparr>
           in (case send m of
                 None \<Rightarrow> Inl SendFailed
               | Some Sent \<Rightarrow> Inr ReplySent
               | Some Deferred \<Rightarrow> Inr ReplyDeferred
               | Some _ \<Rightarrow> Inr ReplyFailed, Some m))"

definition reply_outcome :: "plum_error + EagerReplyOutcome \<Rightarrow> EagerReplyOutcome" where
  "reply_outcome result = (case result of Inl _ \<Rightarrow> ReplyFailed | Inr outcome \<Rightarrow> outcome)"

text \<open>The reply loop: claim, send, settle, and stop at the first error. \<open>reply\<close> gives the result of each
  send; the result lists the messages whose reply was claimed.\<close>

fun iwant_reply_loop ::
  "'l cache_ops \<Rightarrow> reply_order \<Rightarrow> instant \<Rightarrow> PeerId \<Rightarrow> (CachedMessage \<Rightarrow> (plum_error + EagerReplyOutcome) \<times> GossipMessage option) \<Rightarrow>
   (MessageIdType \<times> CachedMessage) list \<Rightarrow> ('l, 'r) TopicState \<Rightarrow> ((plum_error + bool) \<times> GossipMessage list) \<times> ('l, 'r) TopicState" where
  "iwant_reply_loop ops ro now from reply [] s = ((Inr False, []), s)"
| "iwant_reply_loop ops ro now from reply ((msg_id, cached) # to_send) s =
     (case claim_eager_reply_for_iwant ro from msg_id now s of
        (None, s1) \<Rightarrow> iwant_reply_loop ops ro now from reply to_send s1
      | (Some token, s1) \<Rightarrow>
          (let (result, sent) = reply cached;
               s2 = settle_eager_reply ops ro \<lparr>rc_peer = from, rc_msg_id = msg_id, rc_token = token, rc_own_custody = None\<rparr>
                      (reply_outcome result) now s1;
               out = (case sent of None \<Rightarrow> [] | Some m \<Rightarrow> [m])
           in case result of
                Inl err \<Rightarrow> ((Inl err, out), s2)
              | Inr outcome \<Rightarrow>
                  (let ((rest, sends), s3) = iwant_reply_loop ops ro now from reply to_send s2
                   in ((case rest of Inl err \<Rightarrow> Inl err | Inr b \<Rightarrow> Inr (outcome = ReplySent \<or> b), out @ sends), s3))))"

definition handle_iwant_admitted_filtered ::
  "('l, 'r) plum_env \<Rightarrow> reply_order \<Rightarrow> bool \<Rightarrow> instant \<Rightarrow> PeerId \<Rightarrow> MessageIdType list \<Rightarrow>
   (CachedMessage \<Rightarrow> (plum_error + EagerReplyOutcome) \<times> GossipMessage option) \<Rightarrow> ('l, 'r) TopicState option \<Rightarrow>
   (((plum_error + bool) \<times> GossipMessage list) \<times> ('l, 'r) TopicState option) option" where
  "handle_iwant_admitted_filtered env ro local_only now from msg_ids reply st =
     (case iwant_select env local_only now from msg_ids st of
        None \<Rightarrow> None
      | Some (to_send, None) \<Rightarrow> Some ((Inr False, []), None)
      | Some (to_send, Some s) \<Rightarrow>
          (let (r, s1) = iwant_reply_loop (pe_ops env) ro now from reply to_send s in Some (r, Some s1)))"

subsection \<open>Anti-entropy\<close>

text \<open>The digest of a peer: the messages it lacks, read from the cache and never one that was dropped,
  and the ids this node lacks. \<open>order\<close> iterates the set differences.\<close>

fun digest_serve_loop ::
  "'l cache_ops \<Rightarrow> instant \<Rightarrow> MessageIdType list \<Rightarrow> ('l, 'r) TopicState \<Rightarrow> (MessageIdType \<times> CachedMessage) list \<times> ('l, 'r) TopicState" where
  "digest_serve_loop ops now [] s = ([], s)"
| "digest_serve_loop ops now (msg_id # msg_ids) s =
     (let (found, cache) = get_at ops msg_id now (ts_message_cache s);
          (rest, s1) = digest_serve_loop ops now msg_ids (s\<lparr>ts_message_cache := cache\<rparr>)
      in (case found of
            None \<Rightarrow> rest
          | Some m \<Rightarrow> if cm_dropped m then rest else (msg_id, m) # rest, s1))"

definition anti_entropy_digest ::
  "('l, 'r) plum_env \<Rightarrow> (MessageIdType set \<Rightarrow> MessageIdType list) \<Rightarrow> instant \<Rightarrow> MessageIdType list \<Rightarrow> ('l, 'r) TopicState option \<Rightarrow>
   ((MessageIdType \<times> CachedMessage) list \<times> MessageIdType list) \<times> ('l, 'r) TopicState" where
  "anti_entropy_digest env order now msg_ids st =
     (let s = touch now (or_new env now st);
          our_ids = set (cache_ids (pe_ops env) (ts_message_cache s));
          surplus = order (our_ids - set msg_ids);
          (to_send, s1) = digest_serve_loop (pe_ops env) now (if pe_registered env then take 32 surplus else surplus) s
      in ((to_send, order (set msg_ids - our_ids)), s1))"

text \<open>The frames a digest is answered with: the wire policy ends the serving, the forward guard skips a
  message, and so does a failure to serialize it. \<open>admitted\<close> are the answers of the policy, one after the other.\<close>

definition cached_frame :: "bytes \<Rightarrow> (MessageHeader \<Rightarrow> bytes) \<Rightarrow> CachedMessage \<Rightarrow> GossipMessage" where
  "cached_frame public_key sign cached =
     \<lparr>gm_header = cm_header cached, gm_payload = Some (cm_payload cached), gm_signature = sign (cm_header cached), gm_public_key = public_key\<rparr>"

fun digest_frames ::
  "(GossipMessage \<Rightarrow> bool) \<Rightarrow> (nat \<Rightarrow> bool) \<Rightarrow> bytes \<Rightarrow> (MessageHeader \<Rightarrow> bytes) \<Rightarrow> nat \<Rightarrow> (MessageIdType \<times> CachedMessage) list \<Rightarrow>
   plum_error option \<times> GossipMessage list" where
  "digest_frames encodes admitted public_key sign n [] = (None, [])"
| "digest_frames encodes admitted public_key sign n ((msg_id, cached) # ms) =
     (if \<not> admitted n then (Some CacheServeRefused, [])
      else let (err, rest) = digest_frames encodes admitted public_key sign (n + 1) ms
           in (err, if forwardable_payload (cm_payload cached) \<and> encodes (cached_frame public_key sign cached)
                    then cached_frame public_key sign cached # rest else rest))"

text \<open>The one IWANT for the ids that are missing, with the error of the handler and the ids that are requested.
  \<open>encode_ids\<close> is the encoding of the \<open>postcard\<close> crate.\<close>

definition iwant_message :: "('l, 'r) plum_env \<Rightarrow> bytes \<Rightarrow> (MessageHeader \<Rightarrow> bytes) \<Rightarrow> TopicId \<Rightarrow> MessageIdType \<Rightarrow> bytes \<Rightarrow> GossipMessage" where
  "iwant_message env public_key sign topic first payload =
     (let header = seal_payload_hash (pe_blake3 env) (Some payload) ((header_new topic IWant 10)\<lparr>hdr_msg_id := first\<rparr>)
      in \<lparr>gm_header = header, gm_payload = Some payload, gm_signature = sign header, gm_public_key = public_key\<rparr>)"

definition anti_entropy_iwant ::
  "('l, 'r) plum_env \<Rightarrow> (MessageIdType list \<Rightarrow> bytes option) \<Rightarrow> bytes \<Rightarrow> (MessageHeader \<Rightarrow> bytes) \<Rightarrow> TopicId \<Rightarrow> MessageIdType list \<Rightarrow>
   plum_error option \<times> MessageIdType list" where
  "anti_entropy_iwant env encode_ids public_key sign topic ids =
     (if ids = [] then (None, [])
      else case encode_ids ids of
             None \<Rightarrow> (Some IwantSerializeFailed, [])
           | Some payload \<Rightarrow> (None, if pe_encodes env (iwant_message env public_key sign topic (hd ids) payload) then ids else []))"

definition anti_entropy_response ::
  "'l cache_ops \<Rightarrow> instant \<Rightarrow> MessageIdType list \<Rightarrow> ('l, 'r) TopicState option \<Rightarrow> MessageIdType list \<times> ('l, 'r) TopicState option" where
  "anti_entropy_response ops now missing_ids st =
     (case st of
        None \<Rightarrow> (missing_ids, None)
      | Some s \<Rightarrow> (filter (\<lambda>i. \<not> has_message ops s i) missing_ids, Some (touch now s)))"

text \<open>\<open>handle_anti_entropy_admitted\<close>. The result holds the error, if any, the EAGER frames sent to the
  peer, and the ids requested from it. \<open>decode\<close> is the decoding of the \<open>postcard\<close> crate.\<close>

datatype AntiEntropyPayload =
    DigestPayload "MessageIdType list"
  | ResponsePayload "MessageIdType list"

definition record_verified_inbound_from_peer ::
  "('l, 'r) plum_env \<Rightarrow> instant \<Rightarrow> PeerId \<Rightarrow> ('l, 'r) TopicState option \<Rightarrow> ('l, 'r) TopicState" where
  "record_verified_inbound_from_peer env now peer st = record_inbound peer (touch now (or_new env now st))"

definition handle_anti_entropy_admitted ::
  "('l, 'r) plum_env \<Rightarrow> (bytes \<Rightarrow> AntiEntropyPayload option) \<Rightarrow> (MessageIdType list \<Rightarrow> bytes option) \<Rightarrow> (MessageIdType set \<Rightarrow> MessageIdType list) \<Rightarrow>
   (nat \<Rightarrow> bool) \<Rightarrow> bytes \<Rightarrow> (MessageHeader \<Rightarrow> bytes) \<Rightarrow> instant \<Rightarrow> PeerId \<Rightarrow> TopicId \<Rightarrow> GossipMessage \<Rightarrow> ('l, 'r) TopicState option \<Rightarrow>
   (plum_error option \<times> GossipMessage list \<times> MessageIdType list) \<times> ('l, 'r) TopicState option" where
  "handle_anti_entropy_admitted env decode encode_ids order admitted public_key sign now from topic m st =
     (if \<not> verify_message_signature env m then ((Some InvalidSignature, [], []), st)
      else if \<not> pe_ingress env from m then ((Some IngressRefused, [], []), st)
      else let s = record_verified_inbound_from_peer env now from st
           in case gm_payload m of
                None \<Rightarrow> ((Some MissingPayload, [], []), Some s)
              | Some payload \<Rightarrow>
                  (case decode payload of
                     None \<Rightarrow> ((Some DecodeFailed, [], []), Some s)
                   | Some (DigestPayload msg_ids) \<Rightarrow>
                       (let ((to_send, ids_we_need), s1) = anti_entropy_digest env order now msg_ids (Some s);
                            (err, frames) = digest_frames (pe_encodes env) admitted public_key sign 0 to_send
                        in case err of
                             Some e \<Rightarrow> ((Some e, frames, []), Some s1)
                           | None \<Rightarrow>
                               (let (err', requested) = anti_entropy_iwant env encode_ids public_key sign topic ids_we_need
                                in ((err', frames, requested), Some s1)))
                   | Some (ResponsePayload missing_ids) \<Rightarrow>
                       (let (ids_to_request, st1) = anti_entropy_response (pe_ops env) now missing_ids (Some s);
                            (err, requested) = anti_entropy_iwant env encode_ids public_key sign topic ids_to_request
                        in ((err, [], requested), st1))))"

definition anti_entropy_ids :: "('l, 'r) plum_env \<Rightarrow> ('l, 'r) TopicState \<Rightarrow> MessageIdType list" where
  "anti_entropy_ids env s =
     (let ids = cache_ids (pe_ops env) (ts_message_cache s) in if pe_registered env then take 1024 ids else ids)"

subsection \<open>Local publish\<close>

definition publish_header :: "('l, 'r) plum_env \<Rightarrow> TopicId \<Rightarrow> MessageIdType \<Rightarrow> bytes \<Rightarrow> MessageHeader" where
  "publish_header env topic msg_id payload =
     seal_payload_hash (pe_blake3 env) (Some payload) ((header_new topic Eager 10)\<lparr>hdr_msg_id := msg_id\<rparr>)"

text \<open>The first section: cache, seed the replay cache, rescue the delivery path, hand the message to
  the local subscribers; it returns the peers of the fan-out.\<close>

definition publish_prepare ::
  "('l, 'r) plum_env \<Rightarrow> instant \<Rightarrow> MessageIdType \<Rightarrow> bytes \<Rightarrow> MessageHeader \<Rightarrow> VerifiedInner option \<Rightarrow> ('l, 'r) TopicState option \<Rightarrow>
   (PeerId list \<times> ('l, 'r) TopicState) option" where
  "publish_prepare env now msg_id payload header proof st =
     (case topic_cache_message (pe_ops env) msg_id payload header True proof now (or_new env now st) of
        None \<Rightarrow> None
      | Some s \<Rightarrow>
          (let s1 = snd (is_payload_replay (pe_blake3 env) (pe_rops env) payload now s);
               s2 = s1\<lparr>ts_mesh := snd (rescue_suppressed_eager_peer_if_needed_at (pe_mesh env) now (ts_mesh s1))\<rparr>
           in Some (me_order (pe_mesh env) (ms_eager (ts_mesh s2)), s2)))"

text \<open>The section after the fan-out, with the number of successful sends and the attempted peers.\<close>

definition publish_finish ::
  "instant \<Rightarrow> MessageIdType \<Rightarrow> nat \<Rightarrow> PeerId list \<Rightarrow> ('l, 'r) TopicState \<Rightarrow> ('l, 'r) TopicState" where
  "publish_finish now msg_id succeeded attempted s =
     (let s1 = (if succeeded = 0 then snd (record_zero_fanout_publish_at now s) else s);
          s2 = snd (push_pending_ihave msg_id s1)
      in if attempted \<noteq> [] \<and> succeeded = 0 then queue_stranded_ihave msg_id attempted now s2 else s2)"

definition publish_local ::
  "('l, 'r) plum_env \<Rightarrow> (MessageHeader \<Rightarrow> bytes) \<Rightarrow> instant \<Rightarrow> instant \<Rightarrow> TopicId \<Rightarrow> MessageIdType \<Rightarrow> bytes \<Rightarrow>
   (PeerId list \<Rightarrow> nat \<times> PeerId list) \<Rightarrow> ('l, 'r) TopicState option \<Rightarrow>
   ((plum_error + nat) \<times> ('l, 'r) TopicState option) option" where
  "publish_local env sign now later topic msg_id payload fanout st =
     (case pe_verify_inner env payload of
        None \<Rightarrow> Some (Inl InnerProofRefused, st)
      | Some proof \<Rightarrow>
          (let header = publish_header env topic msg_id payload
           in if sign header = [] then Some (Inl InvalidSignature, st)
              else case publish_prepare env now msg_id payload header proof st of
                     None \<Rightarrow> None
                   | Some (peers, s) \<Rightarrow>
                       (let (succeeded, attempted) = fanout peers
                        in Some (Inr succeeded, Some (publish_finish later msg_id succeeded attempted s)))))"

end
