(* ===== verification/Exchange.thy ===== *)
theory Exchange
  imports Plumtree
begin

text \<open>
  What the Plumtree exchange of a topic guarantees. A run interleaves the sections of the
  handlers of \<open>Plumtree\<close> with the announcement steps, the reply steps and the mesh steps of the
  other theories. The history of a run remembers which message ids and which payloads were
  refused.
\<close>

subsection \<open>States of an exchange\<close>

definition exchange_ok :: "('l, 'r) plum_env \<Rightarrow> ('l, 'r) TopicState \<Rightarrow> bool" where
  "exchange_ok env s \<longleftrightarrow>
     cache_ok (pe_ops env) (ts_message_cache s) \<and> 0 < lru_cap (pe_rops env) (ts_replay_cache s) \<and> topic_inv (ts_mesh s)"

definition plum_lawful :: "('l, 'r) plum_env \<Rightarrow> bool" where
  "plum_lawful env \<longleftrightarrow> lru_laws (pe_ops env) \<and> lru_laws (pe_rops env) \<and> env_ok (pe_mesh env)"

abbreviation messages_of :: "('l, 'r) plum_env \<Rightarrow> ('l, 'r) TopicState \<Rightarrow> MessageIdType \<rightharpoonup> CachedMessage" where
  "messages_of env s \<equiv> cache_view (pe_ops env) (ts_message_cache s)"

abbreviation payloads_of :: "('l, 'r) plum_env \<Rightarrow> ('l, 'r) TopicState \<Rightarrow> bytes \<rightharpoonup> PayloadReplayEntry" where
  "payloads_of env s \<equiv> remembered (pe_rops env) (ts_replay_cache s)"

lemma plum_lawfulD:
  assumes "plum_lawful env"
  shows "lru_laws (pe_ops env)" "lru_laws (pe_rops env)" "env_ok (pe_mesh env)" "lawful_cache (pe_ops env)"
  using assms by (simp_all add: plum_lawful_def lawful_cache_def)

lemma exchange_okD:
  assumes "exchange_ok env s"
  shows "cache_ok (pe_ops env) (ts_message_cache s)" "0 < lru_cap (pe_rops env) (ts_replay_cache s)" "topic_inv (ts_mesh s)"
  using assms by (simp_all add: exchange_ok_def)

text \<open>Most operations leave both caches as they are, or drop entries from them.\<close>

definition frame :: "('l, 'r) plum_env \<Rightarrow> ('l, 'r) TopicState \<Rightarrow> ('l, 'r) TopicState \<Rightarrow> bool" where
  "frame env s s' \<longleftrightarrow>
     (exchange_ok env s \<longrightarrow> exchange_ok env s' \<and> shrinks (messages_of env s) (messages_of env s') \<and>
        shrinks (payloads_of env s) (payloads_of env s') \<and> ts_replay_ttl s' = ts_replay_ttl s)"

lemma frame_refl [simp]: "frame env s s"
  by (simp add: frame_def)

lemma frame_trans: "frame env s s' \<Longrightarrow> frame env s' s'' \<Longrightarrow> frame env s s''"
  unfolding frame_def by (metis shrinks_trans)

lemma frame_fold: "(\<And>x s. frame env s (f x s)) \<Longrightarrow> frame env s (fold f xs s)"
proof (induction xs arbitrary: s)
  case (Cons x xs)
  show ?case using frame_trans [OF Cons.prems Cons.IH [OF Cons.prems]] by simp
qed simp

lemma frame_same:
  assumes "ts_message_cache s' = ts_message_cache s" "ts_replay_cache s' = ts_replay_cache s" "ts_replay_ttl s' = ts_replay_ttl s"
    and "topic_inv (ts_mesh s) \<Longrightarrow> topic_inv (ts_mesh s')"
  shows "frame env s s'"
  using assms by (simp add: frame_def exchange_ok_def)

lemma frame_same_mesh:
  assumes "ts_message_cache s' = ts_message_cache s" "ts_replay_cache s' = ts_replay_cache s" "ts_replay_ttl s' = ts_replay_ttl s"
    and "ts_mesh s' = ts_mesh s"
  shows "frame env s s'"
  using assms by (simp add: frame_same)

lemma frame_prune_cache:
  assumes "plum_lawful env"
  shows "frame env s (s\<lparr>ts_message_cache := prune_expired_at (pe_ops env) now (ts_message_cache s)\<rparr>)"
  unfolding frame_def exchange_ok_def
  using bc_prunes [OF plum_lawfulD(1) [OF assms], of "ts_message_cache s" now] by simp

lemma frame_mesh: "topic_step (ts_mesh s) m \<Longrightarrow> frame env s (s\<lparr>ts_mesh := m\<rparr>)"
  by (rule frame_same) (auto intro: topic_inv_step)

lemma frame_mesh_step: "mesh_step (ts_mesh s) m \<Longrightarrow> frame env s (s\<lparr>ts_mesh := m\<rparr>)"
  by (rule frame_mesh) (rule topic_cooling)

lemma frame_touch [simp]: "frame env s (touch now s)"
  by (rule frame_same_mesh) (simp_all add: touch_def)

lemma frame_inbound [simp]: "frame env s (record_inbound peer s)"
  unfolding record_inbound_def by (rule frame_mesh_step) (rule mesh_inbound)

lemma frame_duplicate [simp]: "frame env s (prune_duplicate_sender menv now from s)"
  unfolding prune_duplicate_sender_def using frame_mesh_step [OF mesh_prune, of env s "from"] by simp

text \<open>Announcement steps.\<close>

lemma frame_queue_withheld: "frame env s (queue_lazy_withheld i peers cold s)"
  by (rule frame_same_mesh) (auto simp: queue_lazy_withheld_def)

lemma frame_push_pending: "frame env s (snd (push_pending_ihave i s))"
  by (rule frame_same_mesh) (auto simp: push_pending_ihave_def split: prod.split)

lemma frame_queue_stranded: "frame env s (queue_stranded_ihave i peers now s)"
  by (rule frame_same_mesh) (auto simp: queue_stranded_ihave_def)

lemma frame_queue_late: "plum_lawful env \<Longrightarrow> frame env s (queue_late_local_offer (pe_ops env) peer now s)"
  by (rule frame_trans [OF frame_prune_cache [of env s now]], assumption, rule frame_same_mesh)
    (auto simp: queue_late_local_offer_def prune_late_local_offers_def Let_def)

lemma frame_late_keys:
  assumes "plum_lawful env"
  shows "frame env s (snd (late_local_offer_keys (pe_ops env) peer now s))"
proof (cases "ts_late_local_offers s peer")
  case None
  then show ?thesis by (simp add: late_local_offer_keys_def)
next
  case (Some offer)
  show ?thesis
    by (rule frame_trans [OF frame_prune_cache [OF assms, of s now]], rule frame_same_mesh)
      (auto simp: late_local_offer_keys_def Some Let_def)
qed

lemma frame_clean:
  assumes "plum_lawful env"
  shows "frame env s (clean_cache (pe_ops env) (pe_rops env) now s)"
proof (rule frame_trans [OF frame_prune_cache [OF assms, of s now]])
  let ?s1 = "s\<lparr>ts_message_cache := prune_expired_at (pe_ops env) now (ts_message_cache s)\<rparr>"
  let ?hs = "map fst (filter (\<lambda>x. now - pr_inserted_at (snd x) > ts_replay_ttl s) (lru_iter (pe_rops env) (ts_replay_cache s)))"
  have "clean_cache (pe_ops env) (pe_rops env) now s =
      ?s1\<lparr>ts_replay_cache := fold (\<lambda>h l. snd (lru_pop (pe_rops env) h l)) ?hs (ts_replay_cache s)\<rparr>"
    by (simp add: clean_cache_def Let_def)
  then show "frame env ?s1 (clean_cache (pe_ops env) (pe_rops env) now s)"
    using remembered_pops [OF plum_lawfulD(2) [OF assms], of "ts_replay_cache s" ?hs] by (simp add: frame_def exchange_ok_def)
qed

lemma frame_evict: "frame env s (snd (topic_evict_not_connected_peer peer s))"
proof -
  obtain e m where ev: "evict_not_connected_peer peer (ts_mesh s) = (e, m)" by (cases "evict_not_connected_peer peer (ts_mesh s)")
  have "mesh_step (ts_mesh s) m" using mesh_evict [of "ts_mesh s" peer] by (simp add: ev)
  then have "frame env s (s\<lparr>ts_mesh := m\<rparr>)" by (rule frame_mesh_step)
  moreover have "frame env (s\<lparr>ts_mesh := m\<rparr>) (snd (topic_evict_not_connected_peer peer s))"
    by (rule frame_same_mesh) (simp_all add: topic_evict_not_connected_peer_def drop_eager_reply_records_for_peer_def Let_def ev)
  ultimately show ?thesis by (rule frame_trans)
qed

lemma frame_announce:
  assumes "plum_lawful env"
  shows "frame env s (announce (pe_ops env) (pe_rops env) aop s)"
proof (cases aop)
  case (QueueStranded i peers now)
  then show ?thesis by (simp add: frame_queue_stranded)
next
  case (PushPending i)
  then show ?thesis by (simp add: frame_push_pending)
next
  case (QueueWithheld i peers cold)
  then show ?thesis by (simp add: frame_queue_withheld)
next
  case (QueueRetained i peers now)
  have "frame env s (queue_retained_announce i peers now s)"
    by (rule frame_same_mesh) (auto simp: queue_retained_announce_def queue_lazy_withheld_def Let_def)
  then show ?thesis using QueueRetained by simp
next
  case (QueueLate peer now)
  then show ?thesis using frame_queue_late [OF assms] by simp
next
  case (LateKeys peer now)
  then show ?thesis using frame_late_keys [OF assms] by simp
next
  case (EvictPeer peer)
  then show ?thesis by (simp add: frame_evict)
next
  case (CleanCache now)
  then show ?thesis using frame_clean [OF assms] by simp
qed (rule frame_same_mesh;
    simp add: record_stranded_ihave_served_def record_stranded_ihave_advertised_def record_stranded_retry_delivered_def
      remove_stranded_ihave_def record_ihave_handoff_def record_lazy_withheld_advertised_def prune_retained_announces_def
      drop_resolved_retained_announces_def offer_pending_cold_relay_to_new_eager_def record_lazy_withheld_served_def
      consume_flushed_ihave_batch_def prune_late_local_offers_def advance_late_local_offer_def backoff_late_local_offer_def
      prune_deferred_iwants_def retain_deferred_iwant_def Let_def split: option.split)+

text \<open>Reply steps.\<close>

lemma frame_prune_claims: "frame env s (prune_eager_reply_claims ro now s)"
proof (rule frame_same)
  have abandon: "topic_inv (abandon_probe_of claims k m)" if "topic_inv m" for claims k m
    using topic_inv_mesh_step [OF mesh_abandon that] that by (auto simp: abandon_probe_of_def split: option.split)
  have "topic_inv (fold (abandon_probe_of claims) ks m)" if "topic_inv m" for claims ks m
    using that by (induction ks arbitrary: m) (auto intro: abandon)
  then show "topic_inv (ts_mesh s) \<Longrightarrow> topic_inv (ts_mesh (prune_eager_reply_claims ro now s))"
    by (simp add: prune_eager_reply_claims_def Let_def)
qed (simp_all add: prune_eager_reply_claims_def Let_def)

lemma frame_claim_reply: "frame env s (snd (claim_eager_reply_for_iwant ro peer i now s))"
  by (rule frame_trans [OF frame_prune_claims], rule frame_same_mesh)
    (auto simp: claim_eager_reply_for_iwant_def insert_eager_reply_claim_def Let_def split: option.split)

lemma frame_prune_custody:
  assumes "plum_lawful env"
  shows "frame env s (prune_deferred_eager_replies (pe_ops env) ro now s)"
proof -
  let ?s1 = "s\<lparr>ts_message_cache := prune_expired_at (pe_ops env) now (ts_message_cache s)\<rparr>"
  let ?s2 = "?s1\<lparr>ts_deferred_eager_replies :=
    filter (custody_live (pe_ops env) now (ts_message_cache ?s1)) (ts_deferred_eager_replies s)\<rparr>"
  have "frame env s ?s1" by (rule frame_prune_cache [OF assms])
  moreover have "frame env ?s1 ?s2" by (rule frame_same_mesh) simp_all
  moreover have "frame env ?s2 (prune_deferred_eager_replies (pe_ops env) ro now s)"
    using frame_prune_claims [of env ?s2 ro now] by (simp add: prune_deferred_eager_replies_def Let_def)
  ultimately show ?thesis by (blast intro: frame_trans)
qed

lemma frame_retain_reply:
  assumes "plum_lawful env"
  shows "frame env s (snd (retain_deferred_eager_reply (pe_ops env) ro peer i now s))"
  by (rule frame_trans [OF frame_prune_custody [OF assms]], rule frame_same_mesh)
    (auto simp: retain_deferred_eager_reply_def Let_def)

lemma frame_apply_outcome:
  assumes "plum_lawful env"
  shows "frame env s (apply_eager_reply_outcome (pe_ops env) ro admitted outcome now s)"
proof (cases outcome)
  case ReplySent
  show ?thesis by (rule frame_same_mesh)
    (simp_all add: ReplySent apply_eager_reply_outcome_def record_lazy_withheld_served_def record_stranded_ihave_served_def Let_def)
next
  case ReplyDeferred
  then show ?thesis using frame_retain_reply [OF assms] by (simp add: apply_eager_reply_outcome_def Let_def)
next
  case ReplyFailed
  define s1 where "s1 = (case rc_own_custody (ar_completion admitted) of None \<Rightarrow> s
    | Some own \<Rightarrow> s\<lparr>ts_deferred_eager_replies := filter (\<lambda>entry. dr_id entry \<noteq> dr_id own) (ts_deferred_eager_replies s)\<rparr>)"
  have "frame env s s1" by (rule frame_same_mesh) (simp_all add: s1_def split: option.split)
  then show ?thesis using frame_trans [OF _ frame_retain_reply [OF assms]]
    by (simp add: ReplyFailed apply_eager_reply_outcome_def Let_def s1_def [symmetric])
qed

lemma frame_admit_reply: "frame env s (snd (admit_eager_reply_completion c s))"
  by (rule frame_same_mesh) (auto simp: admit_eager_reply_completion_def Let_def split: option.split)

lemma frame_settle:
  assumes "plum_lawful env"
  shows "frame env s (settle_eager_reply (pe_ops env) ro c outcome now s)"
proof (cases "admit_eager_reply_completion c s")
  case (Pair a s1)
  then have "frame env s s1" using frame_admit_reply [of env s c] by simp
  then show ?thesis using frame_trans [OF _ frame_apply_outcome [OF assms]] Pair by (simp add: settle_eager_reply_def split: option.split)
qed

lemma frame_book: "frame env s (book_topic_send_attempt_results dec config health now results s)"
proof -
  have a: "frame env s (fold (\<lambda>a s. s\<lparr>ts_mesh := snd (record_send_success dec config a now (ts_mesh s))\<rparr>) xs s)" for xs s
    by (rule frame_fold) (rule frame_mesh_step, rule mesh_success)
  have b: "frame env s (fold (\<lambda>a s. snd (topic_evict_not_connected_peer (at_peer a) s)) xs s)" for xs s
    by (rule frame_fold) (rule frame_evict)
  have c: "frame env s (fold (\<lambda>a s. s\<lparr>ts_mesh := snd (record_send_timeout (Some config) (health (at_peer a)) a now (ts_mesh s))\<rparr>) xs s)" for xs s
    by (rule frame_fold) (rule frame_mesh_step, rule mesh_timeout)
  show ?thesis unfolding book_topic_send_attempt_results_def Let_def
    by (rule frame_trans [OF a], rule frame_trans [OF b], rule c)
qed

lemma frame_complete:
  assumes "plum_lawful env"
  shows "frame env s (complete_eager_reply (pe_ops env) ro dec config health c outcome results now s)"
proof (cases "admit_eager_reply_completion c s")
  case (Pair a s1)
  then have "frame env s s1" using frame_admit_reply [of env s c] by simp
  then show ?thesis using frame_trans [OF _ frame_trans [OF frame_apply_outcome [OF assms] frame_book]] Pair
    by (simp add: complete_eager_reply_def split: option.split)
qed

lemma frame_retry:
  assumes "\<And>m. mesh_step\<^sup>*\<^sup>* m (snd (send_claim m))"
  shows "frame env s (snd (retry_claim ro peer i now send_claim s))"
proof -
  define s1 where "s1 = prune_eager_reply_claims ro now s"
  have s1: "frame env s s1" using frame_prune_claims unfolding s1_def .
  have inv: "topic_inv m \<Longrightarrow> topic_inv (snd (send_claim m))" for m
    using rtranclp_induct [OF assms, of topic_inv] topic_inv_mesh_step by blast
  have attach: "frame env t (fold (attach_probe_to_eager_reply_claim peer i token) xs t)" for token xs t
    by (rule frame_fold) (rule frame_same_mesh, auto simp: attach_probe_to_eager_reply_claim_def split: option.split)
  have "frame env s1 (snd (retry_claim ro peer i now send_claim s))"
  proof (cases "eager_reply_claimed s1 peer i")
    case True
    then show ?thesis by (simp add: retry_claim_def s1_def [symmetric] Let_def)
  next
    case False
    obtain attempts mesh where sc: "send_claim (ts_mesh s1) = (attempts, mesh)" by fastforce
    let ?s2 = "s1\<lparr>ts_mesh := mesh\<rparr>"
    have s2: "frame env s1 ?s2" using inv [of "ts_mesh s1"] by (intro frame_same) (simp_all add: sc)
    obtain token s3 where c: "insert_eager_reply_claim peer i now ?s2 = (token, s3)" by fastforce
    have "frame env ?s2 s3" using c by (intro frame_same_mesh) (auto simp: insert_eager_reply_claim_def Let_def)
    from frame_trans [OF s2 frame_trans [OF this attach]] s2 False sc c show ?thesis
      by (simp add: retry_claim_def s1_def [symmetric] Let_def)
  qed
  with s1 show ?thesis by (rule frame_trans)
qed

text \<open>Mesh, request and publish sections.\<close>

lemma maintain_returns:
  assumes "plum_lawful env" "exchange_ok env s"
  obtains s' where "topic_maintain_degree (pe_mesh env) now s = Some s'" "frame env s s'"
    "messages_of env s' = messages_of env s" "payloads_of env s' = payloads_of env s"
proof -
  obtain p g m where m: "maintain_degree (pe_mesh env) now (ts_mesh s) = Some (p, g, m)"
    using maintain_degree_ok [OF plum_lawfulD(3) [OF assms(1)] topic_invD(1) [OF exchange_okD(3) [OF assms(2)]]] .
  have "frame env s (s\<lparr>ts_mesh := m\<rparr>)" by (rule frame_mesh) (rule topic_maintain [OF plum_lawfulD(3) [OF assms(1)] m])
  with that show ?thesis by (simp add: topic_maintain_degree_def m)
qed

lemma frame_new_lazy: "frame env s (s\<lparr>ts_mesh := snd (add_new_peer_lazy peer (ts_mesh s))\<rparr>)"
  using frame_mesh_step [OF mesh_new_lazy, of peer s env] by (auto simp: add_new_peer_lazy_def)

lemma frame_request: "frame env s (snd (ihave_request_loop ops now peer ids s))"
proof (induction ids arbitrary: s)
  case (Cons i ids)
  obtain v s1 where v: "ihave_verdict_for ops now peer i s = (v, s1)" by fastforce
  have s1: "frame env s s1"
    using v by (intro frame_same_mesh) (auto simp: ihave_verdict_for_def Let_def split: if_splits option.splits)
  show ?case
  proof (cases v)
    case (RequestId failures)
    let ?s2 = "s1\<lparr>ts_outstanding_iwants := (ts_outstanding_iwants s1)(i \<mapsto>
       \<lparr>oi_peer = peer, oi_requested_at = now, oi_retry_pending = False, oi_failures = failures, oi_retry_not_before = None\<rparr>)\<rparr>"
    have "frame env s1 ?s2" by (rule frame_same_mesh) simp_all
    from frame_trans [OF s1 frame_trans [OF this Cons.IH]] show ?thesis by (auto simp: v RequestId Let_def split: prod.split)
  qed (use s1 frame_trans [OF s1 Cons.IH] in \<open>simp_all add: v\<close>)
qed simp

lemma frame_ihave_complete: "frame env s (ihave_complete now peer ids outcome s)"
  by (rule frame_same_mesh; cases outcome rule: option.exhaust;
      auto simp: ihave_complete_def update_claims_def release_claims_def retain_deferred_iwant_def prune_deferred_iwants_def Let_def
        split: PeerSendOutcome.split option.split)

lemma frame_publish_finish: "frame env s (publish_finish now i succeeded attempted s)"
proof -
  have "frame env s (snd (record_zero_fanout_publish_at now s))" for s
    by (rule frame_same_mesh) (simp_all add: record_zero_fanout_publish_at_def Let_def)
  then have "frame env s (if succeeded = 0 then snd (record_zero_fanout_publish_at now s) else s)" by simp
  from frame_trans [OF this frame_push_pending]
  have "frame env s (snd (push_pending_ihave i (if succeeded = 0 then snd (record_zero_fanout_publish_at now s) else s)))" .
  from this frame_trans [OF this frame_queue_stranded] show ?thesis unfolding publish_finish_def Let_def by auto
qed

lemma propagate_returns:
  assumes "plum_lawful env" "exchange_ok env s"
  obtains targets s' where "eager_propagate env action now peer i s = Some (targets, s')" "frame env s s'"
    "messages_of env s' = messages_of env s" "payloads_of env s' = payloads_of env s"
    "peer \<notin> set targets" "action \<noteq> ForwardAndDeliver \<longrightarrow> targets = []"
proof -
  obtain added m where n: "add_new_peer_lazy peer (ts_mesh s) = (added, m)" by fastforce
  let ?s1 = "s\<lparr>ts_mesh := m\<rparr>"
  have s1: "frame env s ?s1" using frame_new_lazy [of env s peer] by (simp add: n)
  then have ok: "exchange_ok env ?s1" using assms(2) by (simp add: frame_def)
  obtain t where t: "topic_maintain_degree (pe_mesh env) now ?s1 = Some t" "frame env ?s1 t"
    "messages_of env t = messages_of env ?s1" "payloads_of env t = payloads_of env ?s1"
    by (rule maintain_returns [OF assms(1) ok])
  define s2 where "s2 = (if added then t else ?s1)"
  have s2: "(if added then topic_maintain_degree (pe_mesh env) now ?s1 else Some ?s1) = Some s2" "frame env ?s1 s2"
    "messages_of env s2 = messages_of env s" "payloads_of env s2 = payloads_of env s"
    using t by (simp_all add: s2_def)
  let ?s3 = "if action = LazyForward then queue_lazy_withheld i (eager_forward_targets (pe_mesh env) peer s2) True s2 else s2"
  let ?s4 = "if action = ForwardAndDeliver \<or> action = LazyForward then snd (push_pending_ihave i ?s3) else ?s3"
  have "frame env s2 ?s3" by (simp add: frame_queue_withheld)
  then have "frame env s2 ?s4" by (simp add: frame_trans [OF _ frame_push_pending])
  from frame_trans [OF frame_trans [OF s1 s2(2)] this] have f: "frame env s ?s4" .
  have "ts_message_cache ?s4 = ts_message_cache s2" "ts_replay_cache ?s4 = ts_replay_cache s2"
    by (simp_all add: queue_lazy_withheld_def push_pending_ihave_def split: prod.split)
  then show ?thesis using that [of "if action = ForwardAndDeliver then eager_forward_targets (pe_mesh env) peer s2 else []" ?s4] s2 f
    unfolding eager_propagate_def n Let_def by (simp add: eager_forward_targets_def)
qed

subsection \<open>A topic to start from\<close>

definition list_env :: "((MessageIdType, CachedEntry) lru_list, (bytes, PayloadReplayEntry) lru_list) plum_env" where
  "list_env = \<lparr>pe_ops = list_lru, pe_rops = list_lru, pe_blake3 = id, pe_verify = \<lambda>_ _ _. True, pe_policy = AcceptV1, pe_registered = False,
     pe_ingress = \<lambda>_ _. True, pe_verify_inner = \<lambda>_. Some None, pe_encodes = \<lambda>m. gm_payload m \<noteq> Some [2], pe_mesh = sorted_mesh_env,
     pe_new_topic = new_topic_state list_lru list_lru 4 100000 60000 12 1 1 1\<rparr>"

lemma list_env_lawful: "plum_lawful list_env"
  by (simp add: plum_lawful_def list_env_def list_lru_laws sorted_mesh_env_ok)

lemma new_topic_ok:
  assumes "plum_lawful env" "0 < max_count" "max_count < u64_max" "max_bytes < u64_max"
  shows "exchange_ok env (new_topic_state (pe_ops env) (pe_rops env) max_count max_bytes max_age degree probe_id custody_id token now)"
proof -
  have "cache_ok (pe_ops env) (cache_new (pe_ops env) max_count max_bytes max_age)"
    using cache_ok_new [OF plum_lawfulD(1) [OF assms(1)] assms(2-4)] .
  moreover have "lru_cap (pe_rops env) (lru_new (pe_rops env) REPLAY_CACHE_MAX_ENTRIES) = REPLAY_CACHE_MAX_ENTRIES"
    using lru_lawsD(1) [OF plum_lawfulD(2) [OF assms(1)]] by (simp add: lru_reads_def)
  moreover have "topic_inv (refresh_preferred_eager_ceiling ((mesh_init MAX_EAGER_DEGREE)\<lparr>ms_next_probe_id := probe_id, ms_configured_max_eager_degree := degree\<rparr>))"
    by (simp add: topic_inv_def mesh_init_def mesh_wf_def members_def over_def refresh_preferred_eager_ceiling_def)
  ultimately show ?thesis
    by (simp add: exchange_ok_def new_topic_state_def with_cache_config_def REPLAY_CACHE_MAX_ENTRIES_def Let_def)
qed

end
