(* ===== verification/Delivery.thy ===== *)
theory Delivery
  imports Exchange
begin

text \<open>
  What the handlers of a topic guarantee about payloads and message ids: the EAGER handler always
  returns and its outcome is determined by the message, the caches and the verdict; a payload is
  delivered once per replay window; a message the application refused is never served or forwarded
  again; the claims of the IHAVE handler keep their bound.
\<close>

subsection \<open>The sections of a delivery\<close>

text \<open>A payload that was seen within the replay window.\<close>

definition live_replay :: "('l, 'r) plum_env \<Rightarrow> instant \<Rightarrow> bytes \<Rightarrow> ('l, 'r) TopicState \<Rightarrow> PayloadReplayEntry option" where
  "live_replay env now payload s =
     (case payloads_of env s (pe_blake3 env payload) of
        None \<Rightarrow> None
      | Some entry \<Rightarrow> if now - pr_inserted_at entry < ts_replay_ttl s then Some entry else None)"

text \<open>The replay cache after a payload was put before it, up to evictions.\<close>

definition remembers :: "('k \<rightharpoonup> 'v) \<Rightarrow> 'k \<Rightarrow> 'v \<Rightarrow> ('k \<rightharpoonup> 'v) \<Rightarrow> bool" where
  "remembers m h v m' \<longleftrightarrow> m' h = Some v \<and> shrinks (m(h := None)) (m'(h := None))"

lemma replay_check:
  assumes "plum_lawful env" "exchange_ok env s" "is_payload_replay (pe_blake3 env) (pe_rops env) payload now s = (replay, s')"
  shows "replay \<longleftrightarrow> live_replay env now payload s \<noteq> None" "exchange_ok env s'" "messages_of env s' = messages_of env s"
    "ts_replay_ttl s' = ts_replay_ttl s" "ts_outstanding_iwants s' = ts_outstanding_iwants s"
    "replay \<Longrightarrow> payloads_of env s' = payloads_of env s"
    "\<not> replay \<Longrightarrow> remembers (payloads_of env s) (pe_blake3 env payload) \<lparr>pr_inserted_at = now, pr_refused = False\<rparr> (payloads_of env s')"
proof -
  let ?h = "pe_blake3 env payload"
  obtain found lru where g: "lru_get (pe_rops env) ?h (ts_replay_cache s) = (found, lru)" by fastforce
  note G = remembered_get [OF plum_lawfulD(2) [OF assms(1)] g]
  have live: "(case found of None \<Rightarrow> False | Some entry \<Rightarrow> now - pr_inserted_at entry < ts_replay_ttl s) \<longleftrightarrow> live_replay env now payload s \<noteq> None"
    using G(1) by (auto simp: live_replay_def split: option.splits)
  have eq: "(replay, s') = (if live_replay env now payload s \<noteq> None then (True, (touch now s)\<lparr>ts_replay_cache := lru\<rparr>)
      else (False, (touch now s)\<lparr>ts_replay_cache := snd (lru_push (pe_rops env) ?h \<lparr>pr_inserted_at = now, pr_refused = False\<rparr> lru)\<rparr>))"
    using assms(3) live by (cases found) (auto simp: is_payload_replay_def touch_def Let_def g split: if_splits)
  show r: "replay \<longleftrightarrow> live_replay env now payload s \<noteq> None" using eq by (simp split: if_splits)
  note cap = exchange_okD(2) [OF assms(2)]
  note Q = remembered_push [OF plum_lawfulD(2) [OF assms(1)], of lru ?h "\<lparr>pr_inserted_at = now, pr_refused = False\<rparr>"]
  show "messages_of env s' = messages_of env s" "ts_replay_ttl s' = ts_replay_ttl s" "ts_outstanding_iwants s' = ts_outstanding_iwants s"
    using eq by (auto simp: touch_def split: if_splits)
  show "exchange_ok env s'" using eq assms(2) G(3) Q(3) cap by (auto simp: exchange_ok_def touch_def split: if_splits)
  show "replay \<Longrightarrow> payloads_of env s' = payloads_of env s" using eq G(2) by (auto split: if_splits)
  show "\<not> replay \<Longrightarrow> remembers (payloads_of env s) ?h \<lparr>pr_inserted_at = now, pr_refused = False\<rparr> (payloads_of env s')"
    using eq Q(1,2) G(2,3) cap by (auto simp: remembers_def split: if_splits)
qed

lemma refused_check:
  assumes "plum_lawful env" "exchange_ok env s" "payload_replay_was_refused (pe_blake3 env) (pe_rops env) payload s = (refused, s')"
  shows "refused \<longleftrightarrow> (\<exists>e. payloads_of env s (pe_blake3 env payload) = Some e \<and> pr_refused e)" "exchange_ok env s'"
    "messages_of env s' = messages_of env s" "payloads_of env s' = payloads_of env s" "ts_replay_ttl s' = ts_replay_ttl s"
proof -
  obtain found lru where g: "lru_get (pe_rops env) (pe_blake3 env payload) (ts_replay_cache s) = (found, lru)" by fastforce
  note G = remembered_get [OF plum_lawfulD(2) [OF assms(1)] g]
  have eq: "refused = (case found of None \<Rightarrow> False | Some entry \<Rightarrow> pr_refused entry)" "s' = s\<lparr>ts_replay_cache := lru\<rparr>"
    using assms(3) by (auto simp: payload_replay_was_refused_def g)
  show "refused \<longleftrightarrow> (\<exists>e. payloads_of env s (pe_blake3 env payload) = Some e \<and> pr_refused e)"
    using eq(1) G(1) by (auto split: option.splits)
  show "exchange_ok env s'" using assms(2) G(3) by (simp add: exchange_ok_def eq(2))
  show "messages_of env s' = messages_of env s" "payloads_of env s' = payloads_of env s" "ts_replay_ttl s' = ts_replay_ttl s"
    using G(2) by (simp_all add: eq(2))
qed

lemma refuse_step:
  fixes payload :: bytes
  assumes "plum_lawful env" "exchange_ok env s"
  defines "s' \<equiv> refuse_payload_replays (pe_blake3 env) (pe_rops env) payload s"
  shows "exchange_ok env s'" "messages_of env s' = messages_of env s" "ts_replay_ttl s' = ts_replay_ttl s"
    "payloads_of env s' = (payloads_of env s)(pe_blake3 env payload :=
       map_option (pr_refused_update (\<lambda>_. True)) (payloads_of env s (pe_blake3 env payload)))"
  using assms(2) remembered_get_mut [OF plum_lawfulD(2) [OF assms(1)]]
  by (simp_all add: s'_def refuse_payload_replays_def exchange_ok_def)

lemma mark_step:
  fixes i :: MessageIdType
  assumes "plum_lawful env" "exchange_ok env s"
  defines "s' \<equiv> mark_message_dropped (pe_ops env) i s"
  shows "exchange_ok env s'" "payloads_of env s' = payloads_of env s" "ts_replay_ttl s' = ts_replay_ttl s"
    "messages_of env s' = (messages_of env s)(i := map_option (\<lambda>m. m\<lparr>cm_dropped := True\<rparr>) (messages_of env s i))"
  using assms(2) bc_drops [OF plum_lawfulD(1) [OF assms(1)], of "ts_message_cache s" i]
  by (simp_all add: s'_def mark_message_dropped_def exchange_ok_def)

text \<open>A message put into the cache is there as it came; only one that does not fit, or whose id a local
  message holds, may be missing.\<close>

definition stored ::
  "bool \<Rightarrow> CachedMessage \<Rightarrow> MessageIdType \<Rightarrow> (MessageIdType \<rightharpoonup> CachedMessage) \<Rightarrow> (MessageIdType \<rightharpoonup> CachedMessage) \<Rightarrow> bool" where
  "stored fits m i ms ms' \<longleftrightarrow> remembers ms i m ms' \<or> \<not> fits \<and> shrinks ms ms'"

definition payload_fits :: "bytes \<Rightarrow> ('l, 'r) TopicState \<Rightarrow> bool" where
  "payload_fits payload s \<longleftrightarrow>
     u64_sat_add (u64_sat_add (length payload) MESSAGE_HEADER_OVERHEAD_BYTES) MESSAGE_CRYPTO_OVERHEAD_BYTES \<le> mc_max_bytes (ts_message_cache s)"

lemma cache_returns:
  assumes "plum_lawful env" "exchange_ok env s"
  obtains s' where "topic_cache_message (pe_ops env) i payload header origin pf now s = Some s'" "exchange_ok env s'"
    "payloads_of env s' = payloads_of env s" "ts_replay_ttl s' = ts_replay_ttl s"
    "stored (payload_fits payload s \<and> (origin \<or> messages_of env s i = None))
       \<lparr>cm_payload = payload, cm_header = header, cm_dropped = False, cm_local_origin = origin, cm_inner_proof = pf\<rparr> i
       (messages_of env s) (messages_of env s')"
proof -
  note L = plum_lawfulD(1) [OF assms(1)] and C = exchange_okD(1) [OF assms(2)]
  obtain taken c where a: "admit_message (pe_ops env) payload header origin pf i now (ts_message_cache s) = Some (taken, c)" "cache_ok (pe_ops env) c"
    using bc_admits_returns [OF L C] by blast
  have fits: "taken" if "payload_fits payload s" "origin \<or> messages_of env s i = None"
    using admit_fits [OF L C that(2) _ a(1)] that(1) by (simp add: payload_fits_def estimate_message_bytes_def)
  have st: "stored (payload_fits payload s \<and> (origin \<or> messages_of env s i = None))
       \<lparr>cm_payload = payload, cm_header = header, cm_dropped = False, cm_local_origin = origin, cm_inner_proof = pf\<rparr> i
       (messages_of env s) (cache_view (pe_ops env) c)"
  proof (cases taken)
    case True
    then show ?thesis unfolding stored_def remembers_def using bc_admits_taken [OF L C, of payload header origin pf i now c] a(1) by simp
  next
    case False
    then show ?thesis unfolding stored_def using bc_admits_refused [OF L C, of payload header origin pf i now c] a(1) fits by auto
  qed
  show ?thesis
    by (rule that [of "if taken then touch now (s\<lparr>ts_message_cache := c\<rparr>) else s\<lparr>ts_message_cache := c\<rparr>"])
      (use a assms(2) st in \<open>simp_all add: topic_cache_message_def touch_def exchange_ok_def Let_def\<close>)
qed

text \<open>The outcome of a message that is not cached, and what the section leaves behind. A refused message
  is one the validator dropped, or one whose payload the validator dropped within the replay window.\<close>

fun refused :: "eager_outcome \<Rightarrow> bool" where
  "refused Dropped = True"
| "refused (Replayed b) = b"
| "refused _ = False"

definition accept_outcome ::
  "('l, 'r) plum_env \<Rightarrow> ValidationAction \<Rightarrow> instant \<Rightarrow> PeerId \<Rightarrow> bytes \<Rightarrow> ('l, 'r) TopicState \<Rightarrow> eager_outcome \<Rightarrow> bool" where
  "accept_outcome env action now peer payload s outcome \<longleftrightarrow>
     (case live_replay env now payload s of
        Some entry \<Rightarrow> outcome = Replayed (pr_refused entry)
      | None \<Rightarrow>
          if action = DropMessage then outcome = Dropped
          else \<exists>targets. outcome = Accepted action targets \<and> peer \<notin> set targets \<and> (action \<noteq> ForwardAndDeliver \<longrightarrow> targets = []))"

definition accept_leaves ::
  "('l, 'r) plum_env \<Rightarrow> instant \<Rightarrow> GossipMessage \<Rightarrow> bytes \<Rightarrow> VerifiedInner option \<Rightarrow> ('l, 'r) TopicState \<Rightarrow> eager_outcome \<Rightarrow> ('l, 'r) TopicState \<Rightarrow> bool" where
  "accept_leaves env now m payload pf s outcome s' \<longleftrightarrow>
     exchange_ok env s' \<and> ts_replay_ttl s' = ts_replay_ttl s \<and>
     stored (payload_fits payload s)
       \<lparr>cm_payload = payload, cm_header = gm_header m, cm_dropped = refused outcome, cm_local_origin = False, cm_inner_proof = pf\<rparr>
       (hdr_msg_id (gm_header m)) (messages_of env s) (messages_of env s') \<and>
     (case live_replay env now payload s of
        Some entry \<Rightarrow> payloads_of env s' = payloads_of env s
      | None \<Rightarrow> remembers (payloads_of env s) (pe_blake3 env payload) \<lparr>pr_inserted_at = now, pr_refused = refused outcome\<rparr> (payloads_of env s'))"

lemma stored_mark:
  assumes "stored b m i ms ms'" "ms i = None"
  shows "stored b (m\<lparr>cm_dropped := True\<rparr>) i ms (ms'(i := map_option (\<lambda>m. m\<lparr>cm_dropped := True\<rparr>) (ms' i)))"
proof (cases "remembers ms i m ms'")
  case True
  then show ?thesis by (simp add: stored_def remembers_def)
next
  case False
  then have s: "shrinks ms ms'" "\<not> b" using assms(1) by (simp_all add: stored_def)
  then have "ms' i = None" using assms(2) by (auto simp: shrinks_def dest: spec [of _ i])
  then have "ms'(i := map_option (\<lambda>m. m\<lparr>cm_dropped := True\<rparr>) (ms' i)) = ms'" by (auto simp: fun_eq_iff)
  with s show ?thesis by (simp add: stored_def)
qed

lemma accept_returns:
  assumes L: "plum_lawful env" and ok: "exchange_ok env s" and new: "messages_of env s (hdr_msg_id (gm_header m)) = None"
  obtains outcome s' where "eager_accept env action now peer m payload pf s = Some (outcome, s')"
    "accept_outcome env action now peer payload s outcome" "accept_leaves env now m payload pf s outcome s'"
proof -
  let ?i = "hdr_msg_id (gm_header m)" and ?h = "pe_blake3 env payload"
  define s1 where "s1 = record_inbound peer (touch now s)"
  have s1: "exchange_ok env s1" "messages_of env s1 = messages_of env s" "payloads_of env s1 = payloads_of env s" "ts_replay_ttl s1 = ts_replay_ttl s"
    "payload_fits payload s1 = payload_fits payload s"
    using frame_trans [OF frame_touch [of env s now] frame_inbound [of env _ peer]] ok by (simp_all add: s1_def frame_def record_inbound_def touch_def payload_fits_def)
  obtain s2 where s2: "topic_cache_message (pe_ops env) ?i payload (gm_header m) False pf now s1 = Some s2" "exchange_ok env s2"
    "payloads_of env s2 = payloads_of env s1" "ts_replay_ttl s2 = ts_replay_ttl s1"
    "stored (payload_fits payload s1 \<and> (False \<or> messages_of env s1 ?i = None))
       \<lparr>cm_payload = payload, cm_header = gm_header m, cm_dropped = False, cm_local_origin = False, cm_inner_proof = pf\<rparr> ?i
       (messages_of env s1) (messages_of env s2)"
    by (rule cache_returns [OF L s1(1)])
  define s3 where "s3 = s2\<lparr>ts_outstanding_iwants := map_remove ?i (ts_outstanding_iwants s2)\<rparr>"
  have s3: "exchange_ok env s3" "messages_of env s3 = messages_of env s2" "payloads_of env s3 = payloads_of env s" "ts_replay_ttl s3 = ts_replay_ttl s"
    "live_replay env now payload s3 = live_replay env now payload s"
    using s2 s1 by (simp_all add: s3_def exchange_ok_def live_replay_def split: option.split)
  obtain replay s4 where r: "is_payload_replay (pe_blake3 env) (pe_rops env) payload now s3 = (replay, s4)" by fastforce
  note R = replay_check [OF L s3(1) r]
  note st = stored_mark [OF s2(5)] s2(5)
  have a: "eager_accept env action now peer m payload pf s =
     (if replay
      then (let (refused, s5) = payload_replay_was_refused (pe_blake3 env) (pe_rops env) payload s4
            in Some (Replayed refused, if refused then mark_message_dropped (pe_ops env) ?i s5 else s5))
      else if action = DropMessage
      then Some (Dropped, refuse_payload_replays (pe_blake3 env) (pe_rops env) payload (mark_message_dropped (pe_ops env) ?i s4))
      else (case eager_propagate env action now peer ?i s4 of
              None \<Rightarrow> None | Some (targets, s5) \<Rightarrow> Some (Accepted action targets, s5)))"
    unfolding eager_accept_def Let_def s1_def [symmetric] s2(1) option.case s3_def [symmetric] r prod.case ..
  show ?thesis
  proof (cases "live_replay env now payload s")
    case (Some entry)
    have e: "payloads_of env s ?h = Some entry" using Some by (auto simp: live_replay_def split: option.splits if_splits)
    have rep: "replay" using R(1) s3(5) Some by simp
    obtain b s5 where b: "payload_replay_was_refused (pe_blake3 env) (pe_rops env) payload s4 = (b, s5)" by fastforce
    note B = refused_check [OF L R(2) b]
    have be: "b = pr_refused entry" using B(1) R(6) rep s3(3) e by simp
    note K = mark_step [OF L B(2), of ?i]
    show ?thesis
      by (rule that [of "Replayed b" "if b then mark_message_dropped (pe_ops env) ?i s5 else s5"])
        (use a rep b Some be K B R s3 s1 st new in \<open>auto simp: accept_outcome_def accept_leaves_def\<close>)
  next
    case None
    then have rep: "\<not> replay" using R(1) s3(5) by simp
    note K = mark_step [OF L R(2), of ?i]
    note F = refuse_step [OF L K(1), of payload]
    show ?thesis
    proof (cases "action = DropMessage")
      case True
      show ?thesis
        by (rule that [of Dropped "refuse_payload_replays (pe_blake3 env) (pe_rops env) payload (mark_message_dropped (pe_ops env) ?i s4)"])
          (use a rep True None F K R s3 s1 st new in \<open>auto simp: accept_outcome_def accept_leaves_def remembers_def\<close>)
    next
      case False
      obtain targets s5 where p: "eager_propagate env action now peer ?i s4 = Some (targets, s5)" "frame env s4 s5"
        "messages_of env s5 = messages_of env s4" "payloads_of env s5 = payloads_of env s4" "peer \<notin> set targets"
        "action \<noteq> ForwardAndDeliver \<longrightarrow> targets = []"
        by (rule propagate_returns [OF L R(2)])
      have "exchange_ok env s5" "ts_replay_ttl s5 = ts_replay_ttl s4" using p(2) R(2) by (simp_all add: frame_def)
      then show ?thesis
        by (intro that [of "Accepted action targets" s5])
          (use a rep False None p R s3 s1 st new in \<open>auto simp: accept_outcome_def accept_leaves_def\<close>)
    qed
  qed
qed

subsection \<open>Serving\<close>

text \<open>The IWANT handler and the digest handler serve from the cache; nothing that is marked as dropped
  leaves it.\<close>

definition serves :: "('l, 'r) plum_env \<Rightarrow> ('l, 'r) TopicState \<Rightarrow> (MessageIdType \<times> CachedMessage) list \<Rightarrow> ('l, 'r) TopicState \<Rightarrow> bool" where
  "serves env s to_send s' \<longleftrightarrow>
     frame env s s' \<and> (\<forall>(i, m) \<in> set to_send. messages_of env s i = Some m \<and> \<not> cm_dropped m)"

lemma serves_Nil: "serves env s [] s' \<longleftrightarrow> frame env s s'"
  by (simp add: serves_def)

lemma serves_step:
  assumes "exchange_ok env s" "frame env s s1" "\<And>m. found = Some m \<Longrightarrow> messages_of env s1 i = Some m" "serves env s1 rest s2"
  shows "serves env s (case found of None \<Rightarrow> rest | Some m \<Rightarrow> if cm_dropped m then rest else (i, m) # rest) s2"
proof -
  have sub: "messages_of env s1 j = Some v \<Longrightarrow> messages_of env s j = Some v" for j v
    using assms(1,2) shrinksD by (metis frame_def)
  have "frame env s s2" using frame_trans [OF assms(2)] assms(4) by (simp add: serves_def)
  moreover have "\<forall>(j, v) \<in> set rest. messages_of env s j = Some v \<and> \<not> cm_dropped v" using assms(4) sub by (auto simp: serves_def)
  ultimately show ?thesis using assms(3) sub by (auto simp: serves_def split: option.split)
qed

lemma lookup_frame:
  assumes "plum_lawful env" "exchange_ok env s" "iwant_lookup (pe_ops env) local_only now i s = (found, s')"
  shows "frame env s s'" "found = Some m \<Longrightarrow> messages_of env s' i = Some m" "local_only \<Longrightarrow> found = Some m \<Longrightarrow> cm_local_origin m"
proof -
  note L = plum_lawfulD(1) [OF assms(1)] and C = exchange_okD(1) [OF assms(2)]
  obtain c where c: "(if local_only then get_local_origin_message (pe_ops env) i now (ts_message_cache s) else get_at (pe_ops env) i now (ts_message_cache s)) = (found, c)"
    "s' = s\<lparr>ts_message_cache := c\<rparr>" using assms(3) by (auto simp: iwant_lookup_def split: prod.splits if_splits)
  have "cache_ok (pe_ops env) c \<and> shrinks (messages_of env s) (cache_view (pe_ops env) c)"
    using c(1) cached_local(1,2) [OF L C] bc_gets [OF L C] by (metis (full_types))
  then show "frame env s s'" by (simp add: frame_def exchange_ok_def c(2))
  show "found = Some m \<Longrightarrow> messages_of env s' i = Some m" "local_only \<Longrightarrow> found = Some m \<Longrightarrow> cm_local_origin m"
    using c cached_local(3) [OF L C, of i now found c m] bc_gets [OF L C, of i now found c] by (auto split: if_splits)
qed

lemma select_loop_serves:
  assumes "plum_lawful env" "exchange_ok env s" "iwant_select_loop (pe_ops env) local_only now ids s = (to_send, s')"
  shows "serves env s to_send s' \<and> set (map fst to_send) \<subseteq> set ids \<and> (local_only \<longrightarrow> (\<forall>(i, m) \<in> set to_send. cm_local_origin m))"
  using assms(2,3)
proof (induction ids arbitrary: s to_send)
  case (Cons i ids)
  obtain found s1 where f: "iwant_lookup (pe_ops env) local_only now i s = (found, s1)" by fastforce
  obtain rest s2 where r: "iwant_select_loop (pe_ops env) local_only now ids s1 = (rest, s2)" by fastforce
  have eq: "to_send = (case found of None \<Rightarrow> rest | Some m \<Rightarrow> if cm_dropped m then rest else (i, m) # rest)" "s' = s2"
    using Cons.prems(2) by (simp_all add: f r)
  note F = lookup_frame [OF assms(1) Cons.prems(1) f]
  have "exchange_ok env s1" using F(1) Cons.prems(1) by (simp add: frame_def)
  from Cons.IH [OF this r [folded eq(2)]] have ih: "serves env s1 rest s2" "set (map fst rest) \<subseteq> set ids" "local_only \<longrightarrow> (\<forall>(i, m) \<in> set rest. cm_local_origin m)"
    by (simp_all add: eq(2))
  have "set (map fst to_send) \<subseteq> set (i # ids)" "local_only \<longrightarrow> (\<forall>(i, m) \<in> set to_send. cm_local_origin m)"
    unfolding eq(1) using ih(2,3) F(3) by (auto split: option.splits if_splits)
  with serves_step [OF Cons.prems(1) F(1) F(2) ih(1)] show ?case unfolding eq by blast
qed (simp add: serves_def)

lemma digest_loop_eq: "digest_serve_loop ops now ids s = iwant_select_loop ops False now ids s"
  by (induction ids arbitrary: s) (simp_all add: iwant_lookup_def Let_def split: prod.split)

lemma select_returns:
  assumes "plum_lawful env" "exchange_ok env s"
  obtains to_send s' where "iwant_select env local_only now peer ids (Some s) = Some (to_send, Some s')" "serves env s to_send s'"
    "set (map fst to_send) \<subseteq> set ids" "local_only \<longrightarrow> (\<forall>(i, m) \<in> set to_send. cm_local_origin m)"
proof -
  define s1 where "s1 = (if local_only then s else touch now s)"
  have s1: "frame env s s1" "exchange_ok env s1" "messages_of env s1 = messages_of env s"
    using assms(2) by (simp_all add: s1_def exchange_ok_def touch_def) (simp_all add: frame_same_mesh)
  obtain ts s2 where l: "iwant_select_loop (pe_ops env) local_only now ids s1 = (ts, s2)" by fastforce
  note S = select_loop_serves [OF assms(1) s1(2) l]
  have f2: "frame env s s2" using frame_trans [OF s1(1)] S by (simp add: serves_def)
  define s3 where "s3 = (if local_only then record_inbound peer (touch now s2) else s2)"
  define s4 where "s4 = s3\<lparr>ts_mesh := snd (add_new_peer_lazy peer (ts_mesh s3))\<rparr>"
  have "frame env s2 s3" unfolding s3_def by (simp add: frame_trans [OF frame_touch frame_inbound])
  then have f4: "frame env s s4" using frame_trans [OF f2 frame_trans [OF _ frame_new_lazy]] by (simp add: s4_def)
  then obtain s5 where s5: "topic_maintain_degree (pe_mesh env) now s4 = Some s5" "frame env s4 s5"
    using maintain_returns [OF assms(1), of s4 now] assms(2) unfolding frame_def by metis
  have "iwant_select env local_only now peer ids (Some s) = Some (if ts = [] then ([], Some s2) else (ts, Some s5))"
    using l s5(1) by (auto simp: iwant_select_def or_new_def s1_def [symmetric] s3_def [symmetric] s4_def [symmetric] Let_def split: if_splits)
  then show ?thesis using that [of ts "if ts = [] then s2 else s5"] S f2 frame_trans [OF f4 s5(2)] s1(3)
    by (auto simp: serves_def split: if_splits)
qed

subsection \<open>Runs of a topic\<close>

text \<open>The sections that neither admit a message nor judge a payload.\<close>

inductive quiet :: "('l, 'r) plum_env \<Rightarrow> ('l, 'r) TopicState \<Rightarrow> ('l, 'r) TopicState \<Rightarrow> bool" for env where
  quiet_duplicate: "eager_pre_verify env now peer i (Some s) = Some s' \<Longrightarrow> quiet env s s'"
| quiet_request: "ihave_request env now peer ids (Some s) = (requested, s') \<Longrightarrow> quiet env s s'"
| quiet_requested: "quiet env s (ihave_complete now peer ids outcome s)"
| quiet_select: "iwant_select env local_only now peer ids (Some s) = Some (to_send, Some s') \<Longrightarrow> quiet env s s'"
| quiet_digest: "anti_entropy_digest env order now ids (Some s) = (answer, s') \<Longrightarrow> quiet env s s'"
| quiet_response: "anti_entropy_response (pe_ops env) now ids (Some s) = (missing, Some s') \<Longrightarrow> quiet env s s'"
| quiet_inbound: "quiet env s (record_verified_inbound_from_peer env now peer (Some s))"
| quiet_claim: "quiet env s (snd (claim_eager_reply_for_iwant ro peer i now s))"
| quiet_retry: "(\<And>m. mesh_step\<^sup>*\<^sup>* m (snd (send_claim m))) \<Longrightarrow> quiet env s (snd (retry_claim ro peer i now send_claim s))"
| quiet_settle: "quiet env s (settle_eager_reply (pe_ops env) ro completion reply now s)"
| quiet_complete: "quiet env s (complete_eager_reply (pe_ops env) ro dec config health completion reply results now s)"
| quiet_published: "quiet env s (publish_finish now i succeeded attempted s)"
| quiet_announce: "quiet env s (announce (pe_ops env) (pe_rops env) aop s)"
| quiet_mesh: "topic_step (ts_mesh s) m \<Longrightarrow> quiet env s (s\<lparr>ts_mesh := m\<rparr>)"

lemma digest_serves:
  assumes "plum_lawful env" "exchange_ok env s" "anti_entropy_digest env order now ids (Some s) = ((to_send, missing), s')"
  shows "serves env s to_send s'"
proof -
  define ours where "ours = set (cache_ids (pe_ops env) (ts_message_cache (touch now s)))"
  define surplus where "surplus = (if pe_registered env then take 32 (order (ours - set ids)) else order (ours - set ids))"
  have ok: "exchange_ok env (touch now s)" "messages_of env (touch now s) = messages_of env s"
    using assms(2) by (simp_all add: touch_def exchange_ok_def)
  obtain ts t where l: "iwant_select_loop (pe_ops env) False now surplus (touch now s) = (ts, t)" by fastforce
  have "to_send = ts" "s' = t"
    using assms(3) l unfolding surplus_def ours_def by (simp_all add: anti_entropy_digest_def or_new_def digest_loop_eq Let_def)
  then show ?thesis using select_loop_serves [OF assms(1) ok(1) l] frame_trans [OF frame_touch] by (auto simp: serves_def ok(2))
qed

lemma quiet_frame:
  assumes "plum_lawful env" "quiet env s s'" "exchange_ok env s"
  shows "frame env s s'"
  using assms(2,3)
proof cases
  case (quiet_duplicate now peer i)
  then have "s' = prune_duplicate_sender (pe_mesh env) now peer (touch now s)" by (auto simp: eager_pre_verify_def split: if_splits)
  then show ?thesis using frame_trans [OF frame_touch frame_duplicate] by simp
next
  case (quiet_request now peer ids requested)
  have "frame env (touch now s) (prune_deferred_iwants now (touch now s))"
    by (rule frame_same_mesh) (simp_all add: prune_deferred_iwants_def Let_def)
  from frame_trans [OF frame_trans [OF frame_touch this] frame_request [of env _ "pe_ops env" now peer ids]] quiet_request
  show ?thesis by (simp add: ihave_request_def or_new_def)
next
  case (quiet_select local_only now peer ids to_send)
  obtain ts t where "iwant_select env local_only now peer ids (Some s) = Some (ts, Some t)" "serves env s ts t"
    by (rule select_returns [OF assms(1,3)])
  then show ?thesis using quiet_select(1) by (simp add: serves_def)
next
  case (quiet_digest order now ids answer)
  then show ?thesis using digest_serves [OF assms(1,3)] by (cases answer) (auto simp: serves_def)
next
  case (quiet_inbound now peer)
  then show ?thesis using frame_trans [OF frame_touch frame_inbound] by (simp add: record_verified_inbound_from_peer_def or_new_def)
next
  case (quiet_response now ids missing)
  then show ?thesis by (auto simp: anti_entropy_response_def)
qed (auto intro: frame_ihave_complete frame_claim_reply frame_retry frame_settle frame_complete frame_publish_finish
    frame_announce frame_mesh assms(1))

text \<open>The history of a run: the ids and the payloads that were refused, when a payload was last delivered
  from the network, and the clock. Accepting a message anew lifts a refusal of its id, accepting a
  payload anew one of the payload.\<close>

record history =
  hi_refused :: "MessageIdType set"
  hi_banned :: "bytes set"
  hi_delivered :: "bytes \<rightharpoonup> instant"
  hi_clock :: instant

fun note_outcome :: "MessageIdType \<Rightarrow> bytes \<Rightarrow> instant \<Rightarrow> eager_outcome \<Rightarrow> history \<Rightarrow> history" where
  "note_outcome i h now Duplicate H = H"
| "note_outcome i h now (Replayed b) H = H\<lparr>hi_refused := (if b then insert i (hi_refused H) else hi_refused H - {i})\<rparr>"
| "note_outcome i h now Dropped H = H\<lparr>hi_refused := insert i (hi_refused H), hi_banned := insert h (hi_banned H)\<rparr>"
| "note_outcome i h now (Accepted action targets) H =
     H\<lparr>hi_refused := hi_refused H - {i}, hi_banned := hi_banned H - {h}, hi_delivered := (hi_delivered H)(h \<mapsto> now)\<rparr>"
| "note_outcome i h now (Unforwarded action) H =
     H\<lparr>hi_refused := hi_refused H - {i}, hi_banned := hi_banned H - {h}, hi_delivered := (hi_delivered H)(h \<mapsto> now)\<rparr>"

definition payload_hash :: "('l, 'r) plum_env \<Rightarrow> GossipMessage \<Rightarrow> bytes" where
  "payload_hash env m = pe_blake3 env (case gm_payload m of None \<Rightarrow> [] | Some payload \<Rightarrow> payload)"

inductive exchange_run :: "('l, 'r) plum_env \<Rightarrow> ('l, 'r) TopicState \<Rightarrow> history \<Rightarrow> bool" for env where
  run_new: "0 < max_count \<Longrightarrow> max_count < u64_max \<Longrightarrow> max_bytes < u64_max \<Longrightarrow>
    exchange_run env (new_topic_state (pe_ops env) (pe_rops env) max_count max_bytes max_age degree probe_id custody_id token now)
      \<lparr>hi_refused = {}, hi_banned = {}, hi_delivered = Map.empty, hi_clock = now\<rparr>"
| run_quiet: "exchange_run env s H \<Longrightarrow> quiet env s s' \<Longrightarrow> exchange_run env s' H"
| run_eager: "exchange_run env s H \<Longrightarrow> hi_clock H \<le> now \<Longrightarrow>
    eager_post_verify env action now peer m (Some s) = Some (Inr outcome, Some s') \<Longrightarrow>
    exchange_run env s' (note_outcome (hdr_msg_id (gm_header m)) (payload_hash env m) now outcome (H\<lparr>hi_clock := now\<rparr>))"
| run_publish: "exchange_run env s H \<Longrightarrow> hi_clock H \<le> now \<Longrightarrow>
    publish_prepare env now i payload header pf (Some s) = Some (peers, s') \<Longrightarrow>
    exchange_run env s' (H\<lparr>hi_refused := hi_refused H - {i}, hi_banned := hi_banned H - {pe_blake3 env payload}, hi_clock := now\<rparr>)"

definition run_inv :: "('l, 'r) plum_env \<Rightarrow> ('l, 'r) TopicState \<Rightarrow> history \<Rightarrow> bool" where
  "run_inv env s H \<longleftrightarrow>
     exchange_ok env s \<and> ts_replay_ttl s = REPLAY_CACHE_TTL_SECS * 1000 \<and> refuses (hi_refused H) (messages_of env s) \<and>
     (\<forall>h e. payloads_of env s h = Some e \<longrightarrow>
        (h \<in> hi_banned H \<longrightarrow> pr_refused e) \<and> pr_inserted_at e \<le> hi_clock H \<and>
        (\<forall>t. hi_delivered H h = Some t \<longrightarrow> t \<le> pr_inserted_at e)) \<and>
     (\<forall>h t. hi_delivered H h = Some t \<longrightarrow> t \<le> hi_clock H)"

lemma run_invD:
  assumes "run_inv env s H"
  shows "exchange_ok env s" "ts_replay_ttl s = REPLAY_CACHE_TTL_SECS * 1000" "refuses (hi_refused H) (messages_of env s)"
    "payloads_of env s h = Some e \<Longrightarrow> h \<in> hi_banned H \<Longrightarrow> pr_refused e" "payloads_of env s h = Some e \<Longrightarrow> pr_inserted_at e \<le> hi_clock H"
    "payloads_of env s h = Some e \<Longrightarrow> hi_delivered H h = Some t \<Longrightarrow> t \<le> pr_inserted_at e"
    "hi_delivered H h = Some t \<Longrightarrow> t \<le> hi_clock H"
  using assms unfolding run_inv_def by blast+

text \<open>Quiet sections forget at most; the clock may advance at any time.\<close>

lemma run_inv_frame:
  assumes "run_inv env s H" "frame env s s'"
  shows "run_inv env s' H"
proof -
  note I = run_invD [OF assms(1)]
  have f: "exchange_ok env s'" "shrinks (messages_of env s) (messages_of env s')" "shrinks (payloads_of env s) (payloads_of env s')"
    "ts_replay_ttl s' = ts_replay_ttl s" using assms(2) I(1) by (simp_all add: frame_def)
  have "ts_replay_ttl s' = REPLAY_CACHE_TTL_SECS * 1000" using f(4) I(2) by simp
  then show ?thesis unfolding run_inv_def
    using f(1) I(4-7) refuses_shrinks [OF I(3) f(2)] shrinksD [OF f(3)] by blast
qed

lemma run_inv_clock: "run_inv env s H \<Longrightarrow> hi_clock H \<le> now \<Longrightarrow> run_inv env s (H\<lparr>hi_clock := now\<rparr>)"
  unfolding run_inv_def by simp (meson order.trans)

text \<open>A message is stored, refused or not.\<close>

lemma refuses_stored:
  assumes "refuses R ms" "stored b m i ms ms'" "ms i = None"
  shows "refuses (if cm_dropped m then insert i R else R - {i}) ms'"
proof (cases "remembers ms i m ms'")
  case True
  have keep: "cm_dropped v" if "j \<in> R" "j \<noteq> i" "ms' j = Some v" for j v
  proof -
    have "(ms(i := None)) j = Some v" using True that(2,3) shrinksD [of "ms(i := None)" "ms'(i := None)" j v] by (simp add: remembers_def)
    then show ?thesis using assms(1) that(1,2) by (simp add: refuses_def)
  qed
  show ?thesis
    unfolding refuses_def
  proof (intro ballI allI impI)
    fix j v
    assume "j \<in> (if cm_dropped m then insert i R else R - {i})" "ms' j = Some v"
    then show "cm_dropped v" using True keep [of j v] by (cases "j = i") (auto simp: remembers_def split: if_splits)
  qed
next
  case False
  then have s: "shrinks ms ms'" using assms(2) by (simp add: stored_def)
  have "ms' i = None" using shrinksD [OF s, of i] assms(3) by (cases "ms' i") auto
  then show ?thesis using refuses_shrinks [OF assms(1) s] by (auto simp: refuses_def)
qed

text \<open>A payload is remembered from now on, refused or not; whatever else is still remembered was before.\<close>

lemma run_inv_accept:
  assumes I: "run_inv env s H" "hi_clock H \<le> now" and new: "messages_of env s (hdr_msg_id (gm_header m)) = None"
    and a: "accept_outcome env action now peer payload s outcome" "accept_leaves env now m payload pf s outcome s'"
    and h: "payload_hash env m = pe_blake3 env payload"
  shows "run_inv env s' (note_outcome (hdr_msg_id (gm_header m)) (payload_hash env m) now outcome (H\<lparr>hi_clock := now\<rparr>))"
proof -
  let ?i = "hdr_msg_id (gm_header m)" and ?h = "pe_blake3 env payload"
  note D = run_invD [OF run_inv_clock [OF I]]
  have L: "exchange_ok env s'" "ts_replay_ttl s' = ts_replay_ttl s" using a(2) by (simp_all add: accept_leaves_def)
  have R: "refuses (if refused outcome then insert ?i (hi_refused H) else hi_refused H - {?i}) (messages_of env s')"
    using refuses_stored [OF D(3) _ new, of _ _ "messages_of env s'"] a(2) by (fastforce simp: accept_leaves_def)
  show ?thesis
  proof (cases "live_replay env now payload s")
    case (Some entry)
    then have o: "outcome = Replayed (pr_refused entry)" "payloads_of env s' = payloads_of env s"
      using a by (simp_all add: accept_outcome_def accept_leaves_def)
    show ?thesis unfolding run_inv_def using L D R o by (auto simp: h)
  next
    case None
    then have P: "remembers (payloads_of env s) ?h \<lparr>pr_inserted_at = now, pr_refused = refused outcome\<rparr> (payloads_of env s')"
      using a(2) by (simp add: accept_leaves_def)
    have p: "payloads_of env s' ?h = Some \<lparr>pr_inserted_at = now, pr_refused = refused outcome\<rparr>" using P by (simp add: remembers_def)
    have old: "payloads_of env s k = Some e" if "payloads_of env s' k = Some e" "k \<noteq> ?h" for k e
      using P that shrinksD [of "(payloads_of env s)(?h := None)" "(payloads_of env s')(?h := None)" k e] by (simp add: remembers_def)
    consider "outcome = Dropped" | action' targets where "outcome = Accepted action' targets"
      using a(1) None by (auto simp: accept_outcome_def split: if_splits)
    then show ?thesis
    proof cases
      case 1
      have "(k \<in> insert ?h (hi_banned H) \<longrightarrow> pr_refused e) \<and> pr_inserted_at e \<le> now \<and> (\<forall>t. hi_delivered H k = Some t \<longrightarrow> t \<le> pr_inserted_at e)"
        if "payloads_of env s' k = Some e" for k e
        using that old [OF that] p D(4-7) [of k] 1 by (cases "k = ?h") auto
      then show ?thesis unfolding run_inv_def using L D(2,7) R 1 by (auto simp: h)
    next
      case 2
      have "(k \<in> hi_banned H - {?h} \<longrightarrow> pr_refused e) \<and> pr_inserted_at e \<le> now \<and> (\<forall>t. ((hi_delivered H)(?h \<mapsto> now)) k = Some t \<longrightarrow> t \<le> pr_inserted_at e)"
        if "payloads_of env s' k = Some e" for k e
        using that old [OF that] p D(4-6) [of k] by (cases "k = ?h") auto
      then show ?thesis unfolding run_inv_def using L D(2,7) R 2 by (auto simp: h)
    qed
  qed
qed

lemma stored_old: "stored b m i ms ms' \<Longrightarrow> j \<noteq> i \<Longrightarrow> ms' j = Some v \<Longrightarrow> ms j = Some v"
  using shrinksD [of "ms(i := None)" "ms'(i := None)" j v] shrinksD [of ms ms' j v] by (auto simp: stored_def remembers_def)

lemma refuses_stored_any: "refuses R ms \<Longrightarrow> stored b m i ms ms' \<Longrightarrow> refuses (R - {i}) ms'"
  unfolding refuses_def by (metis Diff_iff insert_iff stored_old)

lemma run_inv_remembered:
  assumes "run_inv env s H" "hi_clock H \<le> now" "exchange_ok env s'" "ts_replay_ttl s' = ts_replay_ttl s" "refuses R' (messages_of env s')"
    and "payloads_of env s' = payloads_of env s \<or> remembers (payloads_of env s) h \<lparr>pr_inserted_at = now, pr_refused = False\<rparr> (payloads_of env s')"
  shows "run_inv env s' (H\<lparr>hi_refused := R', hi_banned := hi_banned H - {h}, hi_clock := now\<rparr>)"
proof -
  note D = run_invD [OF run_inv_clock [OF assms(1,2)]]
  have p: "(k \<in> hi_banned H - {h} \<longrightarrow> pr_refused e) \<and> pr_inserted_at e \<le> now \<and> (\<forall>t. hi_delivered H k = Some t \<longrightarrow> t \<le> pr_inserted_at e)"
    if "payloads_of env s' k = Some e" for k e
    using assms(6)
  proof
    assume "payloads_of env s' = payloads_of env s"
    then show ?thesis using that D(4-6) [of k e] by auto
  next
    assume r: "remembers (payloads_of env s) h \<lparr>pr_inserted_at = now, pr_refused = False\<rparr> (payloads_of env s')"
    show ?thesis
    proof (cases "k = h")
      case True
      then show ?thesis using r that D(7) [of k] by (auto simp: remembers_def)
    next
      case False
      then have "payloads_of env s k = Some e"
        using r that shrinksD [of "(payloads_of env s)(h := None)" "(payloads_of env s')(h := None)" k e] by (simp add: remembers_def)
      then show ?thesis using D(4-6) [of k e] by auto
    qed
  qed
  have ttl: "ts_replay_ttl s' = REPLAY_CACHE_TTL_SECS * 1000" using assms(4) D(2) by simp
  have "t \<le> now" if "hi_delivered H k = Some t" for k t using D(7) [of k t] that by simp
  then show ?thesis using assms(3,5) p ttl unfolding run_inv_def by simp
qed

lemma publish_prepare_inv:
  assumes "plum_lawful env" "run_inv env s H" "hi_clock H \<le> now" "publish_prepare env now i payload header pf (Some s) = Some (peers, s')"
  shows "run_inv env s' (H\<lparr>hi_refused := hi_refused H - {i}, hi_banned := hi_banned H - {pe_blake3 env payload}, hi_clock := now\<rparr>)"
proof -
  note I = run_invD [OF assms(2)]
  obtain s1 where s1: "topic_cache_message (pe_ops env) i payload header True pf now s = Some s1" "exchange_ok env s1"
    "payloads_of env s1 = payloads_of env s" "ts_replay_ttl s1 = ts_replay_ttl s"
    "stored (payload_fits payload s \<and> (True \<or> messages_of env s i = None))
       \<lparr>cm_payload = payload, cm_header = header, cm_dropped = False, cm_local_origin = True, cm_inner_proof = pf\<rparr> i
       (messages_of env s) (messages_of env s1)"
    by (rule cache_returns [OF assms(1) I(1)])
  obtain r s2 where r: "is_payload_replay (pe_blake3 env) (pe_rops env) payload now s1 = (r, s2)" by fastforce
  note R = replay_check [OF assms(1) s1(2) r]
  have s': "s' = s2\<lparr>ts_mesh := snd (rescue_suppressed_eager_peer_if_needed_at (pe_mesh env) now (ts_mesh s2))\<rparr>"
    using assms(4) by (simp add: publish_prepare_def or_new_def s1(1) r Let_def)
  have "frame env s2 s'" unfolding s' by (rule frame_mesh) (rule topic_rescue [OF plum_lawfulD(3) [OF assms(1)]])
  then have ok: "exchange_ok env s'" using R(2) by (simp add: frame_def)
  show ?thesis
  proof (rule run_inv_remembered [OF assms(2,3) ok])
    show "ts_replay_ttl s' = ts_replay_ttl s" using R(4) s1(4) by (simp add: s')
    show "refuses (hi_refused H - {i}) (messages_of env s')" using refuses_stored_any [OF I(3) s1(5)] R(3) by (simp add: s')
    show "payloads_of env s' = payloads_of env s \<or>
      remembers (payloads_of env s) (pe_blake3 env payload) \<lparr>pr_inserted_at = now, pr_refused = False\<rparr> (payloads_of env s')"
      using R(6,7) s1(3) by (cases r) (simp_all add: s')
  qed
qed

lemma has_message_iff: "plum_lawful env \<Longrightarrow> has_message (pe_ops env) s i \<longleftrightarrow> messages_of env s i \<noteq> None"
  using cache_contains_cached [OF plum_lawfulD(1)] by (simp add: has_message_def)

lemma post_verify_result:
  assumes "plum_lawful env" "exchange_ok env s"
  obtains (cached) s' where "has_message (pe_ops env) s (hdr_msg_id (gm_header m))" "frame env s s'"
      "eager_post_verify env action now peer m (Some s) = Some (Inr Duplicate, Some s')"
    | (refused) e where "\<not> has_message (pe_ops env) s (hdr_msg_id (gm_header m))"
        "e = (if gm_payload m = None then MissingPayload else InnerProofRefused)"
        "gm_payload m = None \<or> pe_verify_inner env (the (gm_payload m)) = None"
        "eager_post_verify env action now peer m (Some s) = Some (Inl e, Some s)"
    | (accepted) payload pf outcome s' where "\<not> has_message (pe_ops env) s (hdr_msg_id (gm_header m))" "gm_payload m = Some payload"
        "pe_verify_inner env payload = Some pf" "eager_post_verify env action now peer m (Some s) = Some (Inr outcome, Some s')"
        "accept_outcome env action now peer payload s outcome" "accept_leaves env now m payload pf s outcome s'"
proof (cases "has_message (pe_ops env) s (hdr_msg_id (gm_header m))")
  case True
  show ?thesis
  proof (rule cached [OF True])
    show "frame env s (prune_duplicate_sender (pe_mesh env) now peer (record_inbound peer (touch now s)))"
      by (rule frame_trans [OF frame_trans [OF frame_touch frame_inbound] frame_duplicate])
  qed (simp add: eager_post_verify_def True)
next
  case False
  show ?thesis
  proof (cases "gm_payload m = None \<or> pe_verify_inner env (the (gm_payload m)) = None")
    case True
    then show ?thesis by (intro refused [OF False refl True]) (auto simp: eager_post_verify_def False)
  next
    case ok: False
    then obtain payload pf where p: "gm_payload m = Some payload" "pe_verify_inner env payload = Some pf" by auto
    have "messages_of env s (hdr_msg_id (gm_header m)) = None" using False has_message_iff [OF assms(1)] by simp
    then obtain outcome s' where a: "eager_accept env action now peer m payload pf s = Some (outcome, s')"
      "accept_outcome env action now peer payload s outcome" "accept_leaves env now m payload pf s outcome s'"
      by (rule accept_returns [OF assms])
    show ?thesis by (rule accepted [OF False p _ a(2,3)]) (simp add: eager_post_verify_def False p or_new_def a(1))
  qed
qed

lemma exchange_run_inv: "exchange_run env s H \<Longrightarrow> plum_lawful env \<Longrightarrow> run_inv env s H"
proof (induction rule: exchange_run.induct)
  case (run_new max_count max_bytes max_age degree probe_id custody_id token now)
  let ?s = "new_topic_state (pe_ops env) (pe_rops env) max_count max_bytes max_age degree probe_id custody_id token now"
  have "lru_iter (pe_rops env) (ts_replay_cache ?s) = []"
    using lru_lawsD(1) [OF plum_lawfulD(2) [OF run_new(4)]] by (simp add: new_topic_state_def with_cache_config_def Let_def lru_reads_def)
  then show ?case using new_topic_ok [OF run_new(4,1-3)] 
    by (simp add: run_inv_def refuses_def remembered_def) (simp add: new_topic_state_def with_cache_config_def Let_def)
next
  case (run_quiet s H s')
  then show ?case using run_inv_frame quiet_frame run_invD(1) by blast
next
  case (run_eager s H now action peer m outcome s')
  note inv = run_eager.IH [OF run_eager.prems]
  note ok = run_invD(1) [OF inv]
  from run_eager.prems ok show ?case
  proof (cases rule: post_verify_result [where m = m and action = action and now = now and peer = peer])
    case (cached t)
    then show ?thesis using run_inv_clock [OF run_inv_frame [OF inv cached(2)] run_eager.hyps(2)] run_eager.hyps(3) by simp
  next
    case (refused e)
    then show ?thesis using run_eager.hyps(3) by simp
  next
    case (accepted payload pf outcome' t)
    have "messages_of env s (hdr_msg_id (gm_header m)) = None" using accepted(1) has_message_iff [OF run_eager.prems] by simp
    moreover have "payload_hash env m = pe_blake3 env payload" by (simp add: payload_hash_def accepted(2))
    ultimately show ?thesis using run_inv_accept [OF inv run_eager.hyps(2) _ accepted(5,6)] accepted(4) run_eager.hyps(3) by simp
  qed
next
  case (run_publish s H now i payload header pf peers s')
  then show ?case using publish_prepare_inv by blast
qed

subsection \<open>Properties\<close>

text \<open>What the handler does with a frame that names the topic and is not dropped as a duplicate before the
  signature check.\<close>

abbreviation addressed :: "TopicId \<Rightarrow> GossipMessage \<Rightarrow> bool" where
  "addressed topic m \<equiv> hdr_topic (gm_header m) = topic \<and> hdr_kind (gm_header m) = Eager"

abbreviation authentic :: "('l, 'r) plum_env \<Rightarrow> PeerId \<Rightarrow> GossipMessage \<Rightarrow> bool" where
  "authentic env peer m \<equiv> verify_message_signature env m \<and> pe_ingress env peer m"

lemma handle_cases:
  fixes s :: "('l, 'r) TopicState"
  defines "cached \<equiv> \<lambda>env (s :: ('l, 'r) TopicState) m. has_message (pe_ops env) s (hdr_msg_id (gm_header m))"
  obtains (mismatch) "\<not> addressed topic m" "handle_eager_admitted env action now peer topic m (Some s) = Some (Inl HeaderMismatch, Some s)"
    | (early) s' where "addressed topic m" "\<not> pe_registered env" "cached env s m" "frame env s s'"
        "handle_eager_admitted env action now peer topic m (Some s) = Some (Inr Duplicate, Some s')"
    | (forged) "addressed topic m" "pe_registered env \<or> \<not> cached env s m" "\<not> verify_message_signature env m"
        "handle_eager_admitted env action now peer topic m (Some s) = Some (Inl InvalidSignature, Some s)"
    | (barred) "addressed topic m" "pe_registered env \<or> \<not> cached env s m" "verify_message_signature env m" "\<not> pe_ingress env peer m"
        "handle_eager_admitted env action now peer topic m (Some s) = Some (Inl IngressRefused, Some s)"
    | (verified) "addressed topic m" "pe_registered env \<or> \<not> cached env s m" "authentic env peer m"
        "\<And>e st'. eager_post_verify env action now peer m (Some s) = Some (Inl e, st') \<Longrightarrow>
           handle_eager_admitted env action now peer topic m (Some s) = Some (Inl e, st')"
        "\<And>outcome st'. eager_post_verify env action now peer m (Some s) = Some (Inr outcome, st') \<Longrightarrow>
           handle_eager_admitted env action now peer topic m (Some s) = Some (Inr (eager_forward_stage env m outcome), st')"
proof (cases "addressed topic m \<and> \<not> pe_registered env \<and> cached env s m")
  case True
  let ?s' = "prune_duplicate_sender (pe_mesh env) now peer (touch now s)"
  have "frame env s ?s'" by (rule frame_trans [OF frame_touch frame_duplicate])
  then show ?thesis using early [of ?s'] True by (simp add: handle_eager_admitted_def eager_pre_verify_def cached_def)
next
  case False
  show ?thesis
  proof (cases "addressed topic m")
    case True
    then have c: "pe_registered env \<or> \<not> cached env s m" using False by blast
    then have pre: "eager_pre_verify env now peer (hdr_msg_id (gm_header m)) (Some s) = None" by (auto simp: eager_pre_verify_def cached_def)
    consider "\<not> verify_message_signature env m" | "verify_message_signature env m" "\<not> pe_ingress env peer m" | "authentic env peer m" by blast
    then show ?thesis
      by cases (rule forged [OF True c] barred [OF True c] verified [OF True c], use True in \<open>simp_all add: handle_eager_admitted_def pre\<close>)+
  qed (rule mismatch, simp_all add: handle_eager_admitted_def)
qed

lemma forward_stage [simp]:
  "delivers (eager_forward_stage env m outcome) = delivers outcome"
  "eager_forward_stage env m Duplicate = Duplicate" "eager_forward_stage env m (Replayed b) = Replayed b"
  "set (eager_forwards m (eager_forward_stage env m outcome)) \<subseteq> set (eager_forwards m outcome)"
  by (auto simp: eager_forward_stage_def delivers_def eager_forwards_def split: eager_outcome.splits if_splits)

lemma handle_result:
  assumes "plum_lawful env" "exchange_ok env s"
  shows "\<exists>r s'. handle_eager_admitted env action now peer topic m (Some s) = Some (r, Some s') \<and> exchange_ok env s' \<and>
    ((\<exists>outcome. r = Inr outcome \<and> delivers outcome) \<longleftrightarrow>
       addressed topic m \<and> authentic env peer m \<and> \<not> has_message (pe_ops env) s (hdr_msg_id (gm_header m)) \<and> action \<noteq> DropMessage \<and>
       (\<exists>payload. gm_payload m = Some payload \<and> pe_verify_inner env payload \<noteq> None \<and> live_replay env now payload s = None)) \<and>
    (\<forall>outcome p. r = Inr outcome \<and> p \<in> set (eager_forwards m outcome) \<longrightarrow>
       action = ForwardAndDeliver \<and> p \<noteq> peer \<and> delivers outcome \<and> (\<forall>payload. gm_payload m = Some payload \<longrightarrow> forwardable_payload payload))"
proof (cases rule: handle_cases [where env = env and action = action and now = now and peer = peer and topic = topic and m = m and s = s])
  case (early s')
  then show ?thesis using assms(2) by (auto simp: frame_def delivers_def eager_forwards_def)
next
  case verified
  from assms show ?thesis
  proof (cases rule: post_verify_result [where m = m and action = action and now = now and peer = peer])
    case (cached s')
    then show ?thesis using assms(2) verified(1,3) verified(5) [OF cached(3)] by (auto simp: frame_def delivers_def eager_forwards_def)
  next
    case (refused e)
    then show ?thesis using assms(2) verified(1,3) verified(4) [OF refused(4)] by (auto simp: delivers_def)
  next
    case (accepted payload pf outcome s')
    have del: "delivers outcome \<longleftrightarrow> live_replay env now payload s = None \<and> action \<noteq> DropMessage"
      using accepted(5) by (auto simp: accept_outcome_def delivers_def split: option.splits if_splits)
    moreover have "action = ForwardAndDeliver \<and> p \<noteq> peer \<and> delivers outcome \<and> forwardable_payload payload" if "p \<in> set (eager_forwards m outcome)" for p
      using that accepted(2,5)
      by (auto simp: accept_outcome_def eager_forwards_def message_forwardable_def delivers_def split: option.splits if_splits eager_outcome.splits)
    then have "action = ForwardAndDeliver \<and> p \<noteq> peer \<and> delivers outcome \<and> forwardable_payload payload"
      if "p \<in> set (eager_forwards m (eager_forward_stage env m outcome))" for p
      using that forward_stage(4) by blast
    moreover note verified(5) [OF accepted(4)]
    ultimately show ?thesis using accepted verified(1,3) by (auto simp: accept_leaves_def)
  qed
qed (use assms(2) in \<open>auto simp: delivers_def\<close>)

lemma handle_delivers:
  assumes "plum_lawful env" "exchange_ok env s"
  obtains r s' where "handle_eager_admitted env action now peer topic m (Some s) = Some (r, Some s')"
    "(\<exists>outcome. r = Inr outcome \<and> delivers outcome) \<longleftrightarrow>
       addressed topic m \<and> authentic env peer m \<and> \<not> has_message (pe_ops env) s (hdr_msg_id (gm_header m)) \<and> action \<noteq> DropMessage \<and>
       (\<exists>payload. gm_payload m = Some payload \<and> pe_verify_inner env payload \<noteq> None \<and> live_replay env now payload s = None)"
  using handle_result [OF assms] by metis

text \<open>
  C2: The EAGER handler always returns, keeps the topic well-formed, and hands a message to the local
  subscribers exactly when the frame is addressed to the topic, is not cached, its signature, the
  ingress policy and the inner proof hold, its payload was not seen within the replay window, and
  the application did not drop it. It forwards a message only on the verdict to forward, never
  back to the sender, and never a payload the forward guard stops.
\<close>

theorem eager_delivery_exact:
  assumes "plum_lawful env" "exchange_ok env s"
  shows "\<exists>r s'. handle_eager_admitted env action now peer topic m (Some s) = Some (r, Some s') \<and> exchange_ok env s' \<and>
    ((\<exists>outcome. r = Inr outcome \<and> delivers outcome) \<longleftrightarrow>
       addressed topic m \<and> authentic env peer m \<and> \<not> has_message (pe_ops env) s (hdr_msg_id (gm_header m)) \<and> action \<noteq> DropMessage \<and>
       (\<exists>payload. gm_payload m = Some payload \<and> pe_verify_inner env payload \<noteq> None \<and> live_replay env now payload s = None)) \<and>
    (\<forall>outcome p. r = Inr outcome \<and> p \<in> set (eager_forwards m outcome) \<longrightarrow>
       action = ForwardAndDeliver \<and> p \<noteq> peer \<and> delivers outcome \<and> (\<forall>payload. gm_payload m = Some payload \<longrightarrow> forwardable_payload payload))"
  by (rule handle_result [OF assms])

definition new_topic :: "((MessageIdType, CachedEntry) lru_list, (bytes, PayloadReplayEntry) lru_list) TopicState" where
  "new_topic = pe_new_topic list_env 0"

definition frame_of :: "MessageIdType \<Rightarrow> bytes \<Rightarrow> GossipMessage" where
  "frame_of i payload = \<lparr>gm_header = (header_new (TopicId [3]) Eager 10)\<lparr>hdr_msg_id := i\<rparr>, gm_payload = Some payload, gm_signature = [], gm_public_key = []\<rparr>"

lemma new_topic_run: "exchange_run list_env new_topic \<lparr>hi_refused = {}, hi_banned = {}, hi_delivered = Map.empty, hi_clock = 0\<rparr>"
  using run_new [of 4 100000 list_env 60000 12 1 1 1 0] by (simp add: new_topic_def list_env_def u64_max_def)

lemma new_topic_empty: "messages_of list_env new_topic i = None" "payloads_of list_env new_topic h = None" "exchange_ok list_env new_topic"
  using run_invD(1) [OF exchange_run_inv [OF new_topic_run list_env_lawful]]
  by (simp_all add: new_topic_def list_env_def new_topic_state_def with_cache_config_def cache_new_def cache_view_def entries_def
      remembered_def Let_def) (simp_all add: list_lru_def)

lemma frame_of_props: "addressed (TopicId [3]) (frame_of i payload)" "authentic list_env peer (frame_of i payload)"
  "hdr_msg_id (gm_header (frame_of i payload)) = i" "gm_payload (frame_of i payload) = Some payload" "payload_hash list_env (frame_of i payload) = payload"
  "pe_verify_inner list_env payload = Some None"
  by (simp_all add: frame_of_def header_new_def verify_message_signature_def verify_payload_covering_signature_def list_env_def payload_hash_def)

theorem eager_delivery_exact_witness:
  "\<exists>outcome s'. handle_eager_admitted list_env ForwardAndDeliver 5 (PeerId [2]) (TopicId [3]) (frame_of [7] [1]) (Some new_topic) = Some (Inr outcome, Some s') \<and>
     delivers outcome"
proof -
  have "\<not> has_message (pe_ops list_env) new_topic [7]" using has_message_iff [OF list_env_lawful] new_topic_empty(1) by simp
  moreover have "live_replay list_env 5 [1] new_topic = None" by (simp add: live_replay_def new_topic_empty(2))
  ultimately show ?thesis
    using eager_delivery_exact [OF list_env_lawful new_topic_empty(3), of ForwardAndDeliver 5 "PeerId [2]" "TopicId [3]" "frame_of [7] [1]"] frame_of_props
    by auto
qed

text \<open>
  C10: Every error of the EAGER handler has one cause, reported in this order: a header of another topic or
  kind; a signature that does not hold, unless the message is cached on a topic without a wire policy; a
  frame the ingress policy refuses; for a message that is not cached, a missing payload or an inner
  proof that does not hold; and, when the message was accepted and may be forwarded, a failure to
  serialize it. All but the last leave the topic as it was. The last one is reported for a message that has
  been delivered to the local subscribers and whose payload is remembered, so that a retransmission
  of it is not delivered again.
\<close>

theorem eager_errors_exact:
  assumes "plum_lawful env" "exchange_ok env s"
  shows "\<exists>r s'. handle_eager_admitted env action now peer topic m (Some s) = Some (r, Some s') \<and>
    (\<forall>e. eager_error r = Some e \<longrightarrow>
       e \<in> {HeaderMismatch, InvalidSignature, IngressRefused, MissingPayload, InnerProofRefused} \<and> s' = s \<or>
       e = ForwardSerializeFailed \<and> (\<exists>outcome. r = Inr outcome \<and> delivers outcome) \<and>
         payloads_of env s' (payload_hash env m) = Some \<lparr>pr_inserted_at = now, pr_refused = False\<rparr>) \<and>
    (eager_error r = Some HeaderMismatch \<longleftrightarrow> \<not> addressed topic m) \<and>
    (eager_error r = Some InvalidSignature \<longleftrightarrow> addressed topic m \<and>
       (pe_registered env \<or> \<not> has_message (pe_ops env) s (hdr_msg_id (gm_header m))) \<and> \<not> verify_message_signature env m) \<and>
    (eager_error r = Some IngressRefused \<longleftrightarrow> addressed topic m \<and>
       (pe_registered env \<or> \<not> has_message (pe_ops env) s (hdr_msg_id (gm_header m))) \<and> verify_message_signature env m \<and> \<not> pe_ingress env peer m) \<and>
    (eager_error r = Some MissingPayload \<longleftrightarrow> addressed topic m \<and> authentic env peer m \<and>
       \<not> has_message (pe_ops env) s (hdr_msg_id (gm_header m)) \<and> gm_payload m = None) \<and>
    (eager_error r = Some InnerProofRefused \<longleftrightarrow> addressed topic m \<and> authentic env peer m \<and>
       \<not> has_message (pe_ops env) s (hdr_msg_id (gm_header m)) \<and> (\<exists>payload. gm_payload m = Some payload \<and> pe_verify_inner env payload = None)) \<and>
    (eager_error r = Some ForwardSerializeFailed \<longleftrightarrow> addressed topic m \<and> authentic env peer m \<and>
       \<not> has_message (pe_ops env) s (hdr_msg_id (gm_header m)) \<and> action \<noteq> DropMessage \<and>
       (\<exists>payload. gm_payload m = Some payload \<and> pe_verify_inner env payload \<noteq> None \<and> live_replay env now payload s = None \<and>
          forwardable_payload payload) \<and> \<not> pe_encodes env m)"
proof (cases rule: handle_cases [where env = env and action = action and now = now and peer = peer and topic = topic and m = m and s = s])
  case verified
  from assms show ?thesis
  proof (cases rule: post_verify_result [where m = m and action = action and now = now and peer = peer])
    case (cached s')
    then show ?thesis using verified(1,3) verified(5) [OF cached(3)] by (auto simp: eager_error_def)
  next
    case (refused e)
    then show ?thesis using verified(1,3) verified(4) [OF refused(4)] by (cases "gm_payload m") (simp_all add: eager_error_def)
  next
    case (accepted payload pf outcome s')
    have stage: "eager_error (Inr (eager_forward_stage env m outcome)) =
        (if live_replay env now payload s = None \<and> action \<noteq> DropMessage \<and> forwardable_payload payload \<and> \<not> pe_encodes env m
         then Some ForwardSerializeFailed else None)"
      using accepted(2,5) by (auto simp: accept_outcome_def eager_forward_stage_def message_forwardable_def eager_error_def split: option.splits if_splits)
    have "delivers outcome \<and> payloads_of env s' (payload_hash env m) = Some \<lparr>pr_inserted_at = now, pr_refused = False\<rparr>"
      if "live_replay env now payload s = None" "action \<noteq> DropMessage"
      using accepted(2,5,6) that by (auto simp: accept_outcome_def accept_leaves_def delivers_def remembers_def payload_hash_def)
    then show ?thesis using accepted(1-3) verified(1,3) verified(5) [OF accepted(4)] stage by (auto split: if_splits)
  qed
qed (auto simp: eager_error_def)

theorem eager_errors_exact_witness:
  "handle_eager_admitted list_env ForwardAndDeliver 5 (PeerId [2]) (TopicId [4]) (frame_of [7] [1]) (Some new_topic) = Some (Inl HeaderMismatch, Some new_topic) \<and>
   (\<exists>r s'. handle_eager_admitted list_env DeliverOnly 5 (PeerId [2]) (TopicId [3]) (frame_of [7] [2]) (Some new_topic) = Some (r, Some s') \<and>
      eager_error r = Some ForwardSerializeFailed \<and> (\<exists>outcome. r = Inr outcome \<and> delivers outcome))"
proof
  show "handle_eager_admitted list_env ForwardAndDeliver 5 (PeerId [2]) (TopicId [4]) (frame_of [7] [1]) (Some new_topic) = Some (Inl HeaderMismatch, Some new_topic)"
    using frame_of_props(1) [of "[7]" "[1]"] by (simp add: handle_eager_admitted_def)
  have "\<not> has_message (pe_ops list_env) new_topic [7]" using has_message_iff [OF list_env_lawful] new_topic_empty(1) by simp
  moreover have "live_replay list_env 5 [2] new_topic = None" by (simp add: live_replay_def new_topic_empty(2))
  moreover have "\<not> pe_encodes list_env (frame_of [7] [2])" by (simp add: list_env_def frame_of_def)
  moreover have "forwardable_payload [2]" by code_simp
  ultimately show "\<exists>r s'. handle_eager_admitted list_env DeliverOnly 5 (PeerId [2]) (TopicId [3]) (frame_of [7] [2]) (Some new_topic) = Some (r, Some s') \<and>
      eager_error r = Some ForwardSerializeFailed \<and> (\<exists>outcome. r = Inr outcome \<and> delivers outcome)"
    using eager_errors_exact [OF list_env_lawful new_topic_empty(3), of DeliverOnly 5 "PeerId [2]" "TopicId [3]" "frame_of [7] [2]"] frame_of_props
    by auto
qed

lemma refused_runs:
  assumes "plum_lawful env" "exchange_run env s H"
  shows "iwant_select env local_only now peer ids (Some s) = Some (to_send, st) \<Longrightarrow> fst ` set to_send \<inter> hi_refused H = {}"
    and "anti_entropy_digest env order now ids (Some s) = ((to_send, missing), s') \<Longrightarrow> fst ` set to_send \<inter> hi_refused H = {}"
    and "handle_eager_admitted env action now peer topic m (Some s) = Some (Inr outcome, st) \<Longrightarrow>
      payload_hash env m \<in> hi_banned H \<Longrightarrow> live_replay env now (the (gm_payload m)) s \<noteq> None \<Longrightarrow> gm_payload m \<noteq> None \<Longrightarrow>
      (outcome = Duplicate \<or> outcome = Replayed True) \<and> eager_forwards m outcome = [] \<and> \<not> delivers outcome"
proof -
  note I = run_invD [OF exchange_run_inv [OF assms(2,1)]]
  have served: "fst ` set ts \<inter> hi_refused H = {}" if "serves env s ts t" for ts t
    using that I(3) by (fastforce simp: serves_def refuses_def)
  show "fst ` set to_send \<inter> hi_refused H = {}" if a: "iwant_select env local_only now peer ids (Some s) = Some (to_send, st)"
  proof -
    obtain ts t where "iwant_select env local_only now peer ids (Some s) = Some (ts, Some t)" "serves env s ts t"
      by (rule select_returns [OF assms(1) I(1)])
    then show ?thesis using a served by simp
  qed
  show "fst ` set to_send \<inter> hi_refused H = {}" if "anti_entropy_digest env order now ids (Some s) = ((to_send, missing), s')"
    using served digest_serves [OF assms(1) I(1) that] .
  assume h: "handle_eager_admitted env action now peer topic m (Some s) = Some (Inr outcome, st)"
    and b: "payload_hash env m \<in> hi_banned H" "live_replay env now (the (gm_payload m)) s \<noteq> None" "gm_payload m \<noteq> None"
  have "outcome = Duplicate \<or> outcome = Replayed True"
  proof (cases rule: handle_cases [where env = env and action = action and now = now and peer = peer and topic = topic and m = m and s = s])
    case verified
    from assms(1) I(1) show ?thesis
    proof (cases rule: post_verify_result [where m = m and action = action and now = now and peer = peer])
      case (accepted payload pf outcome' s')
      then obtain e where e: "live_replay env now payload s = Some e" using b(2) by auto
      then have "payloads_of env s (pe_blake3 env payload) = Some e" by (auto simp: live_replay_def split: option.splits if_splits)
      then have "pr_refused e" using I(4) b(1) accepted(2) by (simp add: payload_hash_def)
      then show ?thesis using accepted(5) e h verified(5) [OF accepted(4)] by (simp add: accept_outcome_def)
    qed (use h verified(4,5) in auto)
  qed (use h in auto)
  then show "(outcome = Duplicate \<or> outcome = Replayed True) \<and> eager_forwards m outcome = [] \<and> \<not> delivers outcome"
    by (auto simp: eager_forwards_def delivers_def)
qed

text \<open>
  C3: What the application refused stays refused. In every run of a topic, neither an IWANT nor a digest
  is answered with a message whose id was refused last time it was judged; and while a payload
  that was refused last time is still remembered within the replay window, a frame that carries
  it under any id is neither delivered nor forwarded, and its own id is refused with it.
\<close>

theorem refused_never_served:
  assumes "plum_lawful env" "exchange_run env s H"
  shows "(\<forall>local_only now peer ids to_send st. iwant_select env local_only now peer ids (Some s) = Some (to_send, st) \<longrightarrow>
      fst ` set to_send \<inter> hi_refused H = {}) \<and>
    (\<forall>order now ids to_send missing s'. anti_entropy_digest env order now ids (Some s) = ((to_send, missing), s') \<longrightarrow>
      fst ` set to_send \<inter> hi_refused H = {}) \<and>
    (\<forall>action now peer topic m outcome st. handle_eager_admitted env action now peer topic m (Some s) = Some (Inr outcome, st) \<longrightarrow>
      payload_hash env m \<in> hi_banned H \<longrightarrow> gm_payload m \<noteq> None \<longrightarrow> live_replay env now (the (gm_payload m)) s \<noteq> None \<longrightarrow>
      (outcome = Duplicate \<or> outcome = Replayed True) \<and> eager_forwards m outcome = [] \<and> \<not> delivers outcome)"
proof -
  note R = refused_runs [OF assms]
  have 1: "\<forall>local_only now peer ids to_send st. iwant_select env local_only now peer ids (Some s) = Some (to_send, st) \<longrightarrow>
      fst ` set to_send \<inter> hi_refused H = {}" using R(1) by blast
  have 2: "\<forall>order now ids to_send missing s'. anti_entropy_digest env order now ids (Some s) = ((to_send, missing), s') \<longrightarrow>
      fst ` set to_send \<inter> hi_refused H = {}" using R(2) by blast
  show ?thesis by (rule conjI [OF 1 conjI [OF 2]], intro allI impI, rule R(3))
qed

text \<open>A topic on which one payload was dropped or delivered.\<close>

lemma one_frame_run:
  assumes "action \<noteq> ForwardAndDeliver"
  obtains s where "exchange_run list_env s (note_outcome [7] [1] 5 (if action = DropMessage then Dropped else Accepted action [])
       \<lparr>hi_refused = {}, hi_banned = {}, hi_delivered = Map.empty, hi_clock = 5\<rparr>)"
    "payloads_of list_env s [1] = Some \<lparr>pr_inserted_at = 5, pr_refused = (action = DropMessage)\<rparr>" "exchange_ok list_env s"
    "messages_of list_env s [8] = None" "ts_replay_ttl s = REPLAY_CACHE_TTL_SECS * 1000" "messages_of list_env s [7] \<noteq> None"
    "handle_eager_admitted list_env action 5 (PeerId [2]) (TopicId [3]) (frame_of [7] [1]) (Some new_topic) =
       Some (Inr (if action = DropMessage then Dropped else Accepted action []), Some s)"
proof -
  let ?m = "frame_of [7] [1]"
  have live: "live_replay list_env 5 [1] new_topic = None" by (simp add: live_replay_def new_topic_empty(2))
  from list_env_lawful new_topic_empty(3) show ?thesis
  proof (cases rule: post_verify_result [where m = ?m and action = action and now = 5 and peer = "PeerId [2]"])
    case (cached t)
    then show ?thesis using has_message_iff [OF list_env_lawful] new_topic_empty(1) by simp
  next
    case (refused e)
    then show ?thesis using frame_of_props(4,6) by simp
  next
    case (accepted payload pf outcome s')
    have p: "payload = [1]" using accepted(2) frame_of_props(4) by simp
    have o: "outcome = (if action = DropMessage then Dropped else Accepted action [])"
      using accepted(5) live assms by (auto simp: accept_outcome_def p split: if_splits)
    have run: "exchange_run list_env s' (note_outcome [7] [1] 5 outcome \<lparr>hi_refused = {}, hi_banned = {}, hi_delivered = Map.empty, hi_clock = 5\<rparr>)"
      using run_eager [OF new_topic_run _ accepted(4)] frame_of_props(3,5) by simp
    have l: "stored (payload_fits [1] new_topic) \<lparr>cm_payload = [1], cm_header = gm_header ?m, cm_dropped = refused outcome, cm_local_origin = False, cm_inner_proof = pf\<rparr> [7]
        (messages_of list_env new_topic) (messages_of list_env s')" "exchange_ok list_env s'"
      "payloads_of list_env s' (pe_blake3 list_env [1]) = Some \<lparr>pr_inserted_at = 5, pr_refused = refused outcome\<rparr>"
      using accepted(6) live frame_of_props(3) by (simp_all add: accept_leaves_def p remembers_def)
    have "messages_of list_env s' [8] = None"
      using stored_old [OF l(1), of "[8]"] new_topic_empty(1) by (cases "messages_of list_env s' [8]") auto
    moreover have "ts_replay_ttl s' = REPLAY_CACHE_TTL_SECS * 1000" using run_invD(2) [OF exchange_run_inv [OF run list_env_lawful]] .
    moreover have "pe_blake3 list_env = id" by (simp add: list_env_def)
    moreover have "payload_fits [1] new_topic"
      by (simp add: payload_fits_def new_topic_def list_env_def new_topic_state_def with_cache_config_def cache_new_def Let_def
          MESSAGE_HEADER_OVERHEAD_BYTES_def MESSAGE_CRYPTO_OVERHEAD_BYTES_def u64_sat_add_def u64_max_eq)
    then have "messages_of list_env s' [7] \<noteq> None" using l(1) by (simp add: stored_def remembers_def)
    moreover have "handle_eager_admitted list_env action 5 (PeerId [2]) (TopicId [3]) ?m (Some new_topic) = Some (Inr outcome, Some s')"
      using accepted(1,4) frame_of_props(1,2)
      by (simp add: handle_eager_admitted_def eager_pre_verify_def eager_forward_stage_def list_env_def frame_of_def split: eager_outcome.split)
    ultimately show ?thesis using that [of s'] run l(2,3) o by (auto split: if_splits)
  qed
qed

theorem refused_never_served_witness:
  "\<exists>s H to_send st. exchange_run list_env s H \<and> hi_refused H = {[7]} \<and> hi_banned H = {[1]} \<and>
     iwant_select list_env False 6 (PeerId [4]) [[7]] (Some s) = Some (to_send, st) \<and> to_send = []"
proof -
  let ?H = "note_outcome [7] [1] 5 Dropped \<lparr>hi_refused = {}, hi_banned = {}, hi_delivered = Map.empty, hi_clock = 5\<rparr>"
  obtain s where s: "exchange_run list_env s ?H" "exchange_ok list_env s" by (rule one_frame_run [of DropMessage]) simp_all
  obtain to_send t where t: "iwant_select list_env False 6 (PeerId [4]) [[7]] (Some s) = Some (to_send, Some t)" "set (map fst to_send) \<subseteq> set [[7]]"
    by (rule select_returns [OF list_env_lawful s(2)])
  have "fst ` set to_send \<inter> {[7]} = {}" using conjunct1 [OF refused_never_served [OF list_env_lawful s(1)], rule_format, OF t(1)] by simp
  then have "to_send = []" using t(2) by (cases to_send) auto
  moreover have "hi_refused ?H = {[7]}" "hi_banned ?H = {[1]}" by simp_all
  ultimately show ?thesis using s(1) t(1) by blast
qed

text \<open>
  C7: A payload is delivered once per replay window. In every run of a topic, when the EAGER handler
  delivers a payload that is still remembered, under whatever id and from whatever peer, its last
  delivery from the network lies at least the replay window back.
\<close>

theorem payload_delivered_once:
  assumes "plum_lawful env" "exchange_run env s H"
    and "handle_eager_admitted env action now peer topic m (Some s) = Some (Inr outcome, st)" "delivers outcome"
    and "hi_delivered H (payload_hash env m) = Some t" "payloads_of env s (payload_hash env m) \<noteq> None"
  shows "t + REPLAY_CACHE_TTL_SECS * 1000 \<le> now"
proof -
  note I = run_invD [OF exchange_run_inv [OF assms(2,1)]]
  obtain e where e: "payloads_of env s (payload_hash env m) = Some e" using assms(6) by blast
  obtain payload where p: "gm_payload m = Some payload" "live_replay env now payload s = None"
  proof (cases rule: handle_cases [where env = env and action = action and now = now and peer = peer and topic = topic and m = m and s = s])
    case verified
    from assms(1) I(1) show ?thesis
    proof (cases rule: post_verify_result [where m = m and action = action and now = now and peer = peer])
      case (accepted payload pf outcome' s')
      then have "delivers outcome'" using assms(3,4) verified(5) [OF accepted(4)] by auto
      then show ?thesis using accepted(2,5) that [of payload]
        by (cases "live_replay env now payload s") (auto simp: accept_outcome_def delivers_def)
    qed (use assms(3,4) verified(4,5) in \<open>auto simp: delivers_def\<close>)
  qed (use assms(3,4) in \<open>auto simp: delivers_def\<close>)
  then have "\<not> now - pr_inserted_at e < REPLAY_CACHE_TTL_SECS * 1000"
    using e I(2) by (simp add: live_replay_def payload_hash_def split: if_splits)
  then show ?thesis using I(6) [OF e assms(5)] by (simp add: REPLAY_CACHE_TTL_SECS_def)
qed

theorem payload_delivered_once_witness:
  "\<exists>s H outcome st. exchange_run list_env s H \<and> hi_delivered H [1] = Some 5 \<and> delivers outcome \<and>
     handle_eager_admitted list_env DeliverOnly 400000 (PeerId [4]) (TopicId [3]) (frame_of [8] [1]) (Some s) = Some (Inr outcome, st) \<and>
     5 + REPLAY_CACHE_TTL_SECS * 1000 \<le> 400000"
proof -
  let ?H = "note_outcome [7] [1] 5 (Accepted DeliverOnly []) \<lparr>hi_refused = {}, hi_banned = {}, hi_delivered = Map.empty, hi_clock = 5\<rparr>"
  obtain s where s: "exchange_run list_env s ?H" "payloads_of list_env s [1] = Some \<lparr>pr_inserted_at = 5, pr_refused = False\<rparr>"
    "exchange_ok list_env s" "messages_of list_env s [8] = None" "ts_replay_ttl s = REPLAY_CACHE_TTL_SECS * 1000"
    by (rule one_frame_run [of DeliverOnly]) simp_all
  have id: "pe_blake3 list_env = id" by (simp add: list_env_def)
  have "live_replay list_env 400000 [1] s = None" using s(2,5) id by (simp add: live_replay_def REPLAY_CACHE_TTL_SECS_def)
  moreover have "\<not> has_message (pe_ops list_env) s [8]" using s(4) has_message_iff [OF list_env_lawful] by simp
  moreover obtain r s' where r: "handle_eager_admitted list_env DeliverOnly 400000 (PeerId [4]) (TopicId [3]) (frame_of [8] [1]) (Some s) = Some (r, Some s')"
    "(\<exists>outcome. r = Inr outcome \<and> delivers outcome) \<longleftrightarrow> addressed (TopicId [3]) (frame_of [8] [1]) \<and> authentic list_env (PeerId [4]) (frame_of [8] [1]) \<and>
      \<not> has_message (pe_ops list_env) s (hdr_msg_id (gm_header (frame_of [8] [1]))) \<and> DeliverOnly \<noteq> DropMessage \<and>
       (\<exists>payload. gm_payload (frame_of [8] [1]) = Some payload \<and> pe_verify_inner list_env payload \<noteq> None \<and> live_replay list_env 400000 payload s = None)"
    by (rule handle_delivers [OF list_env_lawful s(3)])
  ultimately obtain outcome where o: "r = Inr outcome" "delivers outcome" using frame_of_props by auto
  have d: "hi_delivered ?H [1] = Some 5" by simp
  have "5 + REPLAY_CACHE_TTL_SECS * 1000 \<le> (400000 :: nat)"
    using payload_delivered_once [OF list_env_lawful s(1) r(1) [unfolded o(1)] o(2)] frame_of_props(5) s(2) d by simp
  then show ?thesis using s(1) d o r(1) by blast
qed

text \<open>
  Whoever signs a frame chooses its message id, and the receiver never recomputes it: once a frame
  has entered the cache under an id, every other authentic frame with that id is a duplicate, is
  not delivered and leaves the cached message in place, whoever published it and whatever its
  payload. A signed frame can therefore suppress a message whose id is known beforehand.
\<close>

theorem chosen_id_suppresses_genuine:
  assumes "plum_lawful env" "exchange_ok env s"
    and "handle_eager_admitted env action now peer topic m1 (Some s) = Some (Inr (Accepted verdict targets), Some s1)"
    and "has_message (pe_ops env) s1 (hdr_msg_id (gm_header m1))"
    and "hdr_msg_id (gm_header m2) = hdr_msg_id (gm_header m1)" "addressed topic m2" "authentic env peer2 m2"
  shows "\<exists>s2. handle_eager_admitted env action2 later peer2 topic m2 (Some s1) = Some (Inr Duplicate, Some s2) \<and> \<not> delivers Duplicate \<and>
    messages_of env s2 (hdr_msg_id (gm_header m2)) \<in> {None, messages_of env s1 (hdr_msg_id (gm_header m1))}"
proof -
  have ok: "exchange_ok env s1" using handle_result [OF assms(1,2), of action now peer topic m1] assms(3) by auto
  have same: "messages_of env s2 i \<in> {None, messages_of env s1 i}" if "frame env s1 s2" for s2 i
    using that ok by (auto simp: frame_def shrinks_def)
  show ?thesis
  proof (cases rule: handle_cases [where env = env and action = action2 and now = later and peer = peer2 and topic = topic and m = m2 and s = s1])
    case (early s2)
    then show ?thesis using same [OF early(4)] assms(5) by (simp add: delivers_def)
  next
    case verified
    from assms(1) ok show ?thesis
      by (cases rule: post_verify_result [where m = m2 and action = action2 and now = later and peer = peer2])
        (use verified(5) assms(4,5) same in \<open>auto simp: delivers_def\<close>)
  qed (use assms(6,7) in auto)
qed

theorem chosen_id_suppresses_genuine_witness:
  "\<exists>s1 s2. has_message (pe_ops list_env) s1 [7] \<and>
     handle_eager_admitted list_env ForwardAndDeliver 6 (PeerId [4]) (TopicId [3]) (frame_of [7] [9]) (Some s1) = Some (Inr Duplicate, Some s2)"
proof -
  obtain s where s: "messages_of list_env s [7] \<noteq> None"
    "handle_eager_admitted list_env DeliverOnly 5 (PeerId [2]) (TopicId [3]) (frame_of [7] [1]) (Some new_topic) = Some (Inr (Accepted DeliverOnly []), Some s)"
    by (rule one_frame_run [of DeliverOnly]) simp_all
  have h: "has_message (pe_ops list_env) s [7]" using s(1) has_message_iff [OF list_env_lawful] by simp
  show ?thesis
    using chosen_id_suppresses_genuine [OF list_env_lawful new_topic_empty(3) s(2), of "frame_of [7] [9]" "PeerId [4]" ForwardAndDeliver 6]
      h frame_of_props by auto
qed

end
