(* ===== verification/Requests.thy ===== *)
theory Requests
  imports Exchange
begin

text \<open>
  The IWANT claims of a topic: which ids an IHAVE makes this node request and from whom, the bound
  on the claims, and what becomes of a claim after its request was sent.
\<close>

subsection \<open>Claims\<close>

definition claims_ok :: "('l, 'r) TopicState \<Rightarrow> bool" where
  "claims_ok s \<longleftrightarrow> finite (dom (ts_outstanding_iwants s)) \<and> card (dom (ts_outstanding_iwants s)) \<le> MAX_IHAVE_BATCH_SIZE"

text \<open>A claim that keeps an advertiser from being asked: the same peer while a retry is queued or its
  backoff runs, another peer as long as the holder has not failed.\<close>

definition suppressed :: "instant \<Rightarrow> PeerId \<Rightarrow> OutstandingIwant \<Rightarrow> bool" where
  "suppressed now peer entry \<longleftrightarrow>
     (if oi_peer entry = peer
      then oi_retry_pending entry \<or> (case oi_retry_not_before entry of None \<Rightarrow> False | Some t \<Rightarrow> now < t)
      else oi_retry_not_before entry = None)"

text \<open>The request loop as a function of the claims alone: the ids asked for, in order, and the claims
  they leave.\<close>

definition fresh_claim :: "instant \<Rightarrow> PeerId \<Rightarrow> OutstandingIwant option \<Rightarrow> OutstandingIwant" where
  "fresh_claim now peer old =
     \<lparr>oi_peer = peer, oi_requested_at = now, oi_retry_pending = False,
      oi_failures = (case old of Some entry \<Rightarrow> if oi_peer entry = peer then oi_failures entry else 0 | None \<Rightarrow> 0),
      oi_retry_not_before = None\<rparr>"

fun request_spec ::
  "(MessageIdType \<Rightarrow> bool) \<Rightarrow> instant \<Rightarrow> PeerId \<Rightarrow> MessageIdType list \<Rightarrow> (MessageIdType \<rightharpoonup> OutstandingIwant) \<Rightarrow>
   MessageIdType list \<times> (MessageIdType \<rightharpoonup> OutstandingIwant)" where
  "request_spec have now peer [] claims = ([], claims)"
| "request_spec have now peer (i # ids) claims =
     (if have i \<or> (\<exists>entry. claims i = Some entry \<and> suppressed now peer entry) then request_spec have now peer ids claims
      else if claims i = None \<and> card (dom claims) = MAX_IHAVE_BATCH_SIZE then ([], claims)
      else let (requested, claims') = request_spec have now peer ids (claims(i \<mapsto> fresh_claim now peer (claims i)))
           in (i # requested, claims'))"

lemma card_dom_remove: "finite (dom m) \<Longrightarrow> m k = Some v \<Longrightarrow> card (dom (map_remove k m)) = card (dom m) - 1"
  by (simp add: map_remove_def domI)

text \<open>The verdict on one id.\<close>

lemma verdict_cases:
  assumes "claims_ok s"
  shows "has_message ops s i \<or> (\<exists>entry. ts_outstanding_iwants s i = Some entry \<and> suppressed now peer entry) \<Longrightarrow>
      ihave_verdict_for ops now peer i s = (SkipId, s)"
    and "\<not> has_message ops s i \<Longrightarrow> ts_outstanding_iwants s i = None \<Longrightarrow> ihave_verdict_for ops now peer i s =
      (if card (dom (ts_outstanding_iwants s)) = MAX_IHAVE_BATCH_SIZE then StopRequests else RequestId 0, s)"
    and "\<not> has_message ops s i \<Longrightarrow> ts_outstanding_iwants s i = Some entry \<Longrightarrow> \<not> suppressed now peer entry \<Longrightarrow>
      ihave_verdict_for ops now peer i s = (RequestId (if oi_peer entry = peer then oi_failures entry else 0),
        s\<lparr>ts_outstanding_iwants := map_remove i (ts_outstanding_iwants s)\<rparr>)"
proof -
  show "ihave_verdict_for ops now peer i s = (SkipId, s)"
    if "has_message ops s i \<or> (\<exists>entry. ts_outstanding_iwants s i = Some entry \<and> suppressed now peer entry)"
    using that by (auto simp: ihave_verdict_for_def suppressed_def split: if_splits)
  show "ihave_verdict_for ops now peer i s =
      (if card (dom (ts_outstanding_iwants s)) = MAX_IHAVE_BATCH_SIZE then StopRequests else RequestId 0, s)"
    if "\<not> has_message ops s i" "ts_outstanding_iwants s i = None"
    using that assms by (auto simp: ihave_verdict_for_def claims_ok_def)
  assume a: "\<not> has_message ops s i" "ts_outstanding_iwants s i = Some entry" "\<not> suppressed now peer entry"
  have "0 < card (dom (ts_outstanding_iwants s))" using assms a(2) by (auto simp: claims_ok_def card_gt_0_iff)
  then have "\<not> card (dom (map_remove i (ts_outstanding_iwants s))) \<ge> MAX_IHAVE_BATCH_SIZE"
    using card_dom_remove [where m = "ts_outstanding_iwants s" and k = i, OF _ a(2)] assms by (auto simp: claims_ok_def)
  then show "ihave_verdict_for ops now peer i s = (RequestId (if oi_peer entry = peer then oi_failures entry else 0),
        s\<lparr>ts_outstanding_iwants := map_remove i (ts_outstanding_iwants s)\<rparr>)"
    using a by (auto simp: ihave_verdict_for_def suppressed_def Let_def split: if_splits)
qed

lemma request_loop_spec:
  assumes "claims_ok s"
  shows "ihave_request_loop ops now peer ids s =
     (let (requested, claims) = request_spec (has_message ops s) now peer ids (ts_outstanding_iwants s)
      in (requested, s\<lparr>ts_outstanding_iwants := claims\<rparr>)) \<and> claims_ok (snd (ihave_request_loop ops now peer ids s))"
  using assms
proof (induction ids arbitrary: s)
  case (Cons i ids)
  let ?C = "ts_outstanding_iwants s" and ?spec = "request_spec (has_message ops s) now peer"
  consider (skip) "has_message ops s i \<or> (\<exists>entry. ?C i = Some entry \<and> suppressed now peer entry)"
    | (full) "\<not> has_message ops s i" "?C i = None" "card (dom ?C) = MAX_IHAVE_BATCH_SIZE"
    | (new) "\<not> has_message ops s i" "?C i = None" "card (dom ?C) \<noteq> MAX_IHAVE_BATCH_SIZE"
    | (again) entry where "\<not> has_message ops s i" "?C i = Some entry" "\<not> suppressed now peer entry"
    by (cases "?C i") auto
  then show ?case
  proof cases
    case skip
    then show ?thesis using Cons.IH [OF Cons.prems] verdict_cases(1) [OF Cons.prems skip] by auto
  next
    case full
    then show ?thesis using verdict_cases(2) [OF Cons.prems full(1,2)] Cons.prems by simp
  next
    case new
    let ?s2 = "s\<lparr>ts_outstanding_iwants := ?C(i \<mapsto> fresh_claim now peer None)\<rparr>"
    have "i \<notin> dom ?C" using new(2) by (simp add: domIff)
    then have "claims_ok ?s2" using Cons.prems new(3) by (simp add: claims_ok_def)
    note ih = Cons.IH [OF this]
    have have_eq: "has_message ops ?s2 = has_message ops s" by (simp add: has_message_def fun_eq_iff)
    obtain r c where rc: "?spec ids (?C(i \<mapsto> fresh_claim now peer None)) = (r, c)" by fastforce
    have "ihave_verdict_for ops now peer i s = (RequestId 0, s)" using verdict_cases(2) [OF Cons.prems new(1,2)] new(3) by simp
    then have "ihave_request_loop ops now peer (i # ids) s = (let (requested, t) = ihave_request_loop ops now peer ids ?s2 in (i # requested, t))"
      by (simp add: fresh_claim_def)
    moreover have "ihave_request_loop ops now peer ids ?s2 = (r, s\<lparr>ts_outstanding_iwants := c\<rparr>)" "claims_ok (s\<lparr>ts_outstanding_iwants := c\<rparr>)"
      using ih rc by (auto simp: have_eq simp del: fun_upd_apply)
    moreover have "?spec (i # ids) ?C = (i # r, c)"
      using new rc by (simp add: Let_def del: fun_upd_apply)
    ultimately show ?thesis by simp
  next
    case (again entry)
    let ?s2 = "s\<lparr>ts_outstanding_iwants := ?C(i \<mapsto> fresh_claim now peer (Some entry))\<rparr>"
    have e: "(map_remove i ?C)(i \<mapsto> v) = ?C(i \<mapsto> v)" for v by (auto simp: map_remove_def fun_eq_iff)
    have "insert i (dom ?C) = dom ?C" using again(2) by auto
    then have "claims_ok ?s2" using Cons.prems by (simp add: claims_ok_def)
    note ih = Cons.IH [OF this]
    have have_eq: "has_message ops ?s2 = has_message ops s" by (simp add: has_message_def fun_eq_iff)
    obtain r c where rc: "?spec ids (?C(i \<mapsto> fresh_claim now peer (Some entry))) = (r, c)" by fastforce
    have "ihave_request_loop ops now peer (i # ids) s = (let (requested, t) = ihave_request_loop ops now peer ids ?s2 in (i # requested, t))"
      using verdict_cases(3) [OF Cons.prems again] e by (simp add: fresh_claim_def)
    moreover have "ihave_request_loop ops now peer ids ?s2 = (r, s\<lparr>ts_outstanding_iwants := c\<rparr>)" "claims_ok (s\<lparr>ts_outstanding_iwants := c\<rparr>)"
      using ih rc by (auto simp: have_eq simp del: fun_upd_apply)
    moreover have "?spec (i # ids) ?C = (i # r, c)"
      using again rc by (simp add: Let_def del: fun_upd_apply)
    ultimately show ?thesis by simp
  qed
qed simp

text \<open>What the loop asks for, and what it leaves alone.\<close>

lemma request_spec_Cons:
  assumes "request_spec have now peer (j # ids) claims = (requested, claims')"
  obtains (skip) "have j \<or> (\<exists>entry. claims j = Some entry \<and> suppressed now peer entry)" "request_spec have now peer ids claims = (requested, claims')"
    | (full) "card (dom claims) = MAX_IHAVE_BATCH_SIZE" "requested = []" "claims' = claims"
    | (request) r where "\<not> have j" "\<not> (\<exists>entry. claims j = Some entry \<and> suppressed now peer entry)" "requested = j # r"
        "request_spec have now peer ids (claims(j \<mapsto> fresh_claim now peer (claims j))) = (r, claims')"
proof (cases "have j \<or> (\<exists>entry. claims j = Some entry \<and> suppressed now peer entry)")
  case True
  then show ?thesis using assms skip by simp
next
  case False
  show ?thesis
  proof (cases "claims j = None \<and> card (dom claims) = MAX_IHAVE_BATCH_SIZE")
    case True
    then show ?thesis using assms False full by simp
  next
    case go: False
    then have "request_spec have now peer (j # ids) claims =
        (let (r, c) = request_spec have now peer ids (claims(j \<mapsto> fresh_claim now peer (claims j))) in (j # r, c))"
      using False by (simp only: request_spec.simps if_False)
    then show ?thesis using assms False request by (auto simp: Let_def split: prod.splits)
  qed
qed

lemma request_spec_asked:
  assumes "request_spec have now peer ids claims = (requested, claims')" "i \<in> set requested"
  shows "i \<in> set ids \<and> \<not> have i \<and> \<not> (\<exists>entry. claims i = Some entry \<and> suppressed now peer entry)"
  using assms
proof (induction ids arbitrary: claims requested)
  case (Cons j ids)
  from Cons.prems(1) show ?case
  proof (cases rule: request_spec_Cons)
    case skip
    then show ?thesis using Cons.IH [OF skip(2)] Cons.prems(2) by simp
  next
    case (request r)
    then show ?thesis using Cons.IH [OF request(4)] Cons.prems(2) by (cases "i = j") auto
  qed (use Cons.prems(2) in simp)
qed simp

lemma request_spec_claims:
  assumes "request_spec have now peer ids claims = (requested, claims')"
  shows "(i \<notin> set requested \<longrightarrow> claims' i = claims i) \<and>
    (i \<in> set requested \<longrightarrow> (\<exists>entry. claims' i = Some entry \<and> oi_peer entry = peer \<and> oi_requested_at entry = now \<and> oi_retry_not_before entry = None))"
  using assms
proof (induction ids arbitrary: claims requested)
  case (Cons j ids)
  from Cons.prems show ?case
  proof (cases rule: request_spec_Cons)
    case skip
    then show ?thesis using Cons.IH by blast
  next
    case (request r)
    then show ?thesis using Cons.IH [OF request(4)] by (cases "i = j"; cases "i \<in> set r") (auto simp: fresh_claim_def)
  qed simp
qed simp

lemma request_spec_missed:
  assumes "request_spec have now peer ids claims = (requested, claims')" "i \<in> set ids" "i \<notin> set requested" "\<not> have i"
    "\<not> (\<exists>entry. claims i = Some entry \<and> suppressed now peer entry)"
  shows "card (dom claims') = MAX_IHAVE_BATCH_SIZE"
  using assms
proof (induction ids arbitrary: claims requested)
  case (Cons j ids)
  from Cons.prems(1) show ?case
  proof (cases rule: request_spec_Cons)
    case skip
    then show ?thesis using Cons.IH [OF skip(2)] Cons.prems(2-5) by auto
  next
    case (request r)
    then show ?thesis using Cons.IH [OF request(4)] Cons.prems(2-5) by (cases "i = j") auto
  qed simp
qed simp

subsection \<open>Requests of a topic\<close>

definition aged_claims :: "instant \<Rightarrow> ('l, 'r) TopicState \<Rightarrow> MessageIdType \<rightharpoonup> OutstandingIwant" where
  "aged_claims now s = map_retain (\<lambda>_ entry. now - oi_requested_at entry < mc_max_age (ts_message_cache s)) (ts_outstanding_iwants s)"

lemma claims_ok_retain: "claims_ok s \<Longrightarrow> ts_outstanding_iwants s' = map_retain P (ts_outstanding_iwants s) \<Longrightarrow> claims_ok s'"
proof -
  assume ok: "claims_ok s" and eq: "ts_outstanding_iwants s' = map_retain P (ts_outstanding_iwants s)"
  have sub: "dom (ts_outstanding_iwants s') \<subseteq> dom (ts_outstanding_iwants s)" by (auto simp: eq map_retain_def split: option.splits if_splits)
  with ok show "claims_ok s'" unfolding claims_ok_def by (meson card_mono finite_subset le_trans)
qed

lemma request_result:
  assumes "claims_ok s" "ihave_request env now peer ids (Some s) = (requested, s')"
  shows "request_spec (has_message (pe_ops env) s) now peer ids (aged_claims now s) = (requested, ts_outstanding_iwants s')"
    "claims_ok s'" "ts_message_cache s' = ts_message_cache s"
proof -
  define s0 where "s0 = prune_deferred_iwants now (touch now s)"
  have c0: "ts_outstanding_iwants s0 = aged_claims now s" "ts_message_cache s0 = ts_message_cache s"
    by (simp_all add: s0_def prune_deferred_iwants_def touch_def aged_claims_def Let_def)
  have ok: "claims_ok s0" using claims_ok_retain [OF assms(1)] c0(1) by (simp add: aged_claims_def)
  have h: "has_message (pe_ops env) s0 = has_message (pe_ops env) s" by (simp add: has_message_def fun_eq_iff c0(2))
  have "ihave_request_loop (pe_ops env) now peer ids s0 = (requested, s')" using assms(2) by (simp add: ihave_request_def or_new_def s0_def)
  with request_loop_spec [OF ok, of "pe_ops env" now peer ids]
  have "(requested, s') = (let (r, c) = request_spec (has_message (pe_ops env) s) now peer ids (aged_claims now s) in (r, s0\<lparr>ts_outstanding_iwants := c\<rparr>))"
    and cs: "claims_ok s'" by (simp_all add: h c0(1))
  then show "request_spec (has_message (pe_ops env) s) now peer ids (aged_claims now s) = (requested, ts_outstanding_iwants s')"
    "ts_message_cache s' = ts_message_cache s" by (auto simp: c0(2) split: prod.splits)
  show "claims_ok s'" by (fact cs)
qed

text \<open>The section after the send rewrites or releases the claims of the requested ids and adds none.\<close>

lemma update_claims_at:
  "ts_outstanding_iwants (update_claims peer ids f s) i =
     (if i \<in> set ids then map_option (\<lambda>e. if oi_peer e = peer then (f ^^ count_list ids i) e else e) (ts_outstanding_iwants s i)
      else ts_outstanding_iwants s i)" if "\<And>e. oi_peer (f e) = oi_peer e"
proof (induction ids arbitrary: s)
  case (Cons j ids)
  define s1 where "s1 = s\<lparr>ts_outstanding_iwants := (case ts_outstanding_iwants s j of None \<Rightarrow> ts_outstanding_iwants s
    | Some entry \<Rightarrow> if oi_peer entry = peer then (ts_outstanding_iwants s)(j \<mapsto> f entry) else ts_outstanding_iwants s)\<rparr>"
  have step: "update_claims peer (j # ids) f s = update_claims peer ids f s1" by (simp add: update_claims_def s1_def)
  have s1: "ts_outstanding_iwants s1 i = (if i = j then map_option (\<lambda>e. if oi_peer e = peer then f e else e) (ts_outstanding_iwants s i) else ts_outstanding_iwants s i)"
    by (simp add: s1_def split: option.split)
  have iter: "(f ^^ n) (f e) = f ((f ^^ n) e)" for n e by (induction n) auto
  show ?case unfolding step Cons.IH s1
    by (cases "ts_outstanding_iwants s i") (auto simp: that iter count_notin)
qed (simp add: update_claims_def)

lemma claims_ok_sub: "claims_ok s \<Longrightarrow> dom (ts_outstanding_iwants s') \<subseteq> dom (ts_outstanding_iwants s) \<Longrightarrow> claims_ok s'"
  unfolding claims_ok_def by (meson card_mono finite_subset le_trans)

lemma claims_ok_update: "claims_ok s \<Longrightarrow> (\<And>e. oi_peer (f e) = oi_peer e) \<Longrightarrow> claims_ok (update_claims peer ids f s)"
  by (erule claims_ok_sub) (auto simp: update_claims_at split: if_splits)

lemma claims_ok_release: "claims_ok s \<Longrightarrow> claims_ok (release_claims peer ids s)"
proof (erule claims_ok_sub)
  have "dom (fold (\<lambda>i m. case m i of None \<Rightarrow> m | Some entry \<Rightarrow> if oi_peer entry = peer then map_remove i m else m) ids m) \<subseteq> dom m" for m
  proof (induction ids arbitrary: m)
    case (Cons j ids)
    show ?case using Cons.IH [of "case m j of None \<Rightarrow> m | Some entry \<Rightarrow> if oi_peer entry = peer then map_remove j m else m"]
      by (auto simp: map_remove_def split: option.splits if_splits)
  qed simp
  then show "dom (ts_outstanding_iwants (release_claims peer ids s)) \<subseteq> dom (ts_outstanding_iwants s)" by (simp add: release_claims_def)
qed

lemma claims_ok_complete:
  assumes "claims_ok s"
  shows "claims_ok (ihave_complete now peer ids outcome s)"
proof (cases "outcome = Some Deferred")
  case True
  define s1 where "s1 = update_claims peer ids (oi_retry_pending_update (\<lambda>_. True)) s"
  have s1: "claims_ok s1" unfolding s1_def by (rule claims_ok_update [OF assms]) simp
  obtain kept s2 where r: "retain_deferred_iwant peer ids now s1 = (kept, s2)" by fastforce
  have "ts_outstanding_iwants s2 = aged_claims now s1"
    using r by (auto simp: retain_deferred_iwant_def prune_deferred_iwants_def aged_claims_def Let_def split: if_splits)
  then have "claims_ok s2" using claims_ok_retain [OF s1] by (simp add: aged_claims_def)
  then show ?thesis using True r by (simp add: ihave_complete_def s1_def [symmetric] Let_def claims_ok_release)
qed (auto simp: ihave_complete_def Let_def intro!: claims_ok_update [OF assms] split: option.split PeerSendOutcome.split)

text \<open>A failed request arms the retry of its claims, so that another advertiser may take them over.\<close>

abbreviation failed_send :: "PeerSendOutcome option \<Rightarrow> bool" where
  "failed_send outcome \<equiv> outcome = None \<or> outcome = Some TimedOut \<or> outcome = Some NotConnected"

lemma failed_request_armed:
  assumes "failed_send outcome" "i \<in> set ids" "ts_outstanding_iwants s i = Some e" "oi_peer e = peer"
  shows "\<exists>e'. ts_outstanding_iwants (ihave_complete now peer ids outcome s) i = Some e' \<and> oi_peer e' = peer \<and> oi_retry_not_before e' \<noteq> None"
proof -
  define f where "f = (\<lambda>entry. let failures = min (oi_failures entry + 1) 255
     in entry\<lparr>oi_failures := failures, oi_retry_not_before := Some (now + iwant_retry_backoff failures)\<rparr> :: OutstandingIwant)"
  have peer: "oi_peer (f e) = oi_peer e" for e by (simp add: f_def Let_def)
  have c: "ihave_complete now peer ids outcome s = update_claims peer ids f s"
    using assms(1) by (auto simp: ihave_complete_def f_def)
  have iter: "oi_peer ((f ^^ n) e) = oi_peer e" "0 < n \<Longrightarrow> oi_retry_not_before ((f ^^ n) e) \<noteq> None" for n
    by (induction n) (auto simp: f_def Let_def)
  have "0 < count_list ids i" using assms(2) by (metis count_list_0_iff gr0I)
  then show ?thesis using iter assms(2-4) unfolding c update_claims_at [of f, OF peer] by auto
qed

subsection \<open>Properties\<close>

text \<open>
  C17: The ids an IHAVE makes this node request are exactly determined. An advertised id is requested
  unless the message is cached or a claim on it suppresses this advertiser (the claim of another
  peer that has not failed is never taken over) or the table of claims is full; every claim that
  was not requested is kept as it was, a requested id is claimed by the advertiser, and the table
  never holds more than \<open>MAX_IHAVE_BATCH_SIZE\<close> claims, also after the outcome of the send.
\<close>

theorem ihave_claims_exact:
  assumes "claims_ok s" "ihave_request env now peer ids (Some s) = (requested, s')"
  shows "claims_ok s' \<and> claims_ok (ihave_complete later peer requested outcome s') \<and>
    (\<forall>i \<in> set requested. i \<in> set ids \<and> \<not> has_message (pe_ops env) s i \<and>
       (\<forall>entry. aged_claims now s i = Some entry \<longrightarrow> \<not> suppressed now peer entry) \<and>
       (\<exists>entry. ts_outstanding_iwants s' i = Some entry \<and> oi_peer entry = peer \<and> oi_requested_at entry = now)) \<and>
    (\<forall>i. i \<notin> set requested \<longrightarrow> ts_outstanding_iwants s' i = aged_claims now s i) \<and>
    (\<forall>i \<in> set ids. i \<in> set requested \<or> has_message (pe_ops env) s i \<or>
       (\<exists>entry. aged_claims now s i = Some entry \<and> suppressed now peer entry) \<or>
       card (dom (ts_outstanding_iwants s')) = MAX_IHAVE_BATCH_SIZE)"
proof -
  note R = request_result [OF assms]
  have a: "\<And>i. i \<in> set requested \<Longrightarrow> i \<in> set ids \<and> \<not> has_message (pe_ops env) s i \<and> \<not> (\<exists>entry. aged_claims now s i = Some entry \<and> suppressed now peer entry)"
    using request_spec_asked [OF R(1)] by blast
  show ?thesis using R(2) claims_ok_complete [OF R(2)] a request_spec_claims [OF R(1)] request_spec_missed [OF R(1)]
    by (intro conjI ballI allI impI) blast+
qed

definition asked_topic :: "((MessageIdType, CachedEntry) lru_list, (bytes, PayloadReplayEntry) lru_list) TopicState" where
  "asked_topic = (with_cache_config list_lru list_lru 4 100000 60000 0 1 1 1)\<lparr>ts_outstanding_iwants :=
     [[7] \<mapsto> \<lparr>oi_peer = PeerId [1], oi_requested_at = 10, oi_retry_pending = False, oi_failures = 0, oi_retry_not_before = None\<rparr>]\<rparr>"

lemma asked_topic_ok: "claims_ok asked_topic" "aged_claims 20 asked_topic [7] =
    Some \<lparr>oi_peer = PeerId [1], oi_requested_at = 10, oi_retry_pending = False, oi_failures = 0, oi_retry_not_before = None\<rparr>"
  "\<not> has_message (pe_ops list_env) asked_topic i"
  by (simp_all add: claims_ok_def asked_topic_def MAX_IHAVE_BATCH_SIZE_def aged_claims_def map_retain_def with_cache_config_def
      cache_new_def has_message_def cache_contains_def list_env_def list_lru_def)

theorem ihave_claims_exact_witness:
  "\<exists>requested s'. ihave_request list_env 20 (PeerId [2]) [[7], [8]] (Some asked_topic) = (requested, s') \<and> claims_ok s' \<and>
     [7] \<notin> set requested \<and> ts_outstanding_iwants s' [7] \<noteq> None"
proof -
  obtain r s' where r: "ihave_request list_env 20 (PeerId [2]) [[7], [8]] (Some asked_topic) = (r, s')" by fastforce
  note C = ihave_claims_exact [OF asked_topic_ok(1) r, where later = 21 and outcome = "Some Sent"]
  have "[7] \<notin> set r" using C asked_topic_ok(2) by (force simp: suppressed_def)
  moreover have "ts_outstanding_iwants s' [7] \<noteq> None" using C calculation asked_topic_ok(2) by simp
  ultimately show ?thesis using r C by blast
qed

text \<open>
  A failed IWANT never strands a message. When the request for an id could not be sent, the next
  IHAVE of any other peer that advertises the id has it requested from that peer at once, whatever
  the backoff of the first peer, unless the table of claims is full.
\<close>

theorem failed_request_taken_over:
  assumes "claims_ok s" "ihave_request env t0 p ids (Some s) = (requested, s1)" "i \<in> set requested"
    and "failed_send outcome" "q \<noteq> p" "i \<in> set ids'"
    and "ihave_request env t2 q ids' (Some (ihave_complete t1 p requested outcome s1)) = (requested', s3)"
  shows "i \<in> set requested' \<and> (\<exists>entry. ts_outstanding_iwants s3 i = Some entry \<and> oi_peer entry = q) \<or>
    card (dom (ts_outstanding_iwants s3)) = MAX_IHAVE_BATCH_SIZE"
proof -
  let ?s2 = "ihave_complete t1 p requested outcome s1"
  note R = request_result [OF assms(1,2)]
  obtain e where e: "ts_outstanding_iwants s1 i = Some e" "oi_peer e = p" using request_spec_claims [OF R(1), of i] assms(3) by blast
  obtain e' where e': "ts_outstanding_iwants ?s2 i = Some e'" "oi_peer e' = p" "oi_retry_not_before e' \<noteq> None"
    using failed_request_armed [OF assms(4,3) e] by blast
  have "ts_message_cache ?s2 = ts_message_cache s"
    using assms(4) R(3) by (auto simp: ihave_complete_def update_claims_def)
  then have "\<not> has_message (pe_ops env) ?s2 i" using request_spec_asked [OF R(1) assms(3)] by (simp add: has_message_def)
  moreover have "\<not> (\<exists>entry. aged_claims t2 ?s2 i = Some entry \<and> suppressed t2 q entry)"
    using e' assms(5) by (auto simp: aged_claims_def suppressed_def)
  moreover note R2 = request_result [OF claims_ok_complete [OF R(2)] assms(7)]
  ultimately show ?thesis using request_spec_missed [OF R2(1) assms(6)] request_spec_claims [OF R2(1), of i] by blast
qed

theorem failed_request_taken_over_witness:
  "\<exists>r s1 r' s3. ihave_request list_env 20 (PeerId [2]) [[8]] (Some asked_topic) = (r, s1) \<and> [8] \<in> set r \<and>
     ihave_request list_env 22 (PeerId [3]) [[8]] (Some (ihave_complete 21 (PeerId [2]) r (Some TimedOut) s1)) = (r', s3) \<and>
     ([8] \<in> set r' \<or> card (dom (ts_outstanding_iwants s3)) = MAX_IHAVE_BATCH_SIZE)"
proof -
  obtain r s1 where r: "ihave_request list_env 20 (PeerId [2]) [[8]] (Some asked_topic) = (r, s1)" by fastforce
  note S = request_result(1) [OF asked_topic_ok(1) r]
  have "[8] \<notin> dom (aged_claims 20 asked_topic)" "card (dom (aged_claims 20 asked_topic)) \<noteq> MAX_IHAVE_BATCH_SIZE"
    using asked_topic_ok(2) by (auto simp: asked_topic_def aged_claims_def map_retain_def MAX_IHAVE_BATCH_SIZE_def dom_def with_cache_config_def)
  then have "r = [[8]]" using S asked_topic_ok(3) by (auto simp: domIff Let_def)
  then have m: "[8] \<in> set r" by simp
  obtain r' s3 where r': "ihave_request list_env 22 (PeerId [3]) [[8]] (Some (ihave_complete 21 (PeerId [2]) r (Some TimedOut) s1)) = (r', s3)"
    by fastforce
  from failed_request_taken_over [OF asked_topic_ok(1) r m _ _ _ r'] r r' m show ?thesis by auto
qed

text \<open>
  An advertiser that repeats its IHAVE while its own claim is healthy is asked again, and its claim
  counts from the repeated request: the age of a claim is not bounded from the first request.
\<close>

theorem repeated_ihave_renews:
  assumes "claims_ok s" "\<not> has_message (pe_ops env) s i" "ts_outstanding_iwants s i = Some entry" "oi_peer entry = peer"
    and "\<not> oi_retry_pending entry" "oi_retry_not_before entry = None" "now - oi_requested_at entry < mc_max_age (ts_message_cache s)"
  shows "\<exists>s'. ihave_request env now peer [i] (Some s) = ([i], s') \<and> ts_outstanding_iwants s' i = Some (entry\<lparr>oi_requested_at := now\<rparr>)"
proof -
  obtain r s' where r: "ihave_request env now peer [i] (Some s) = (r, s')" by fastforce
  note S = request_result(1) [OF assms(1) r]
  have "aged_claims now s i = Some entry" using assms(3,7) by (simp add: aged_claims_def)
  moreover have "\<not> suppressed now peer entry" using assms(4-6) by (simp add: suppressed_def)
  ultimately have "r = [i]" "ts_outstanding_iwants s' i = Some (fresh_claim now peer (Some entry))"
    using S assms(2) by (auto dest: sym)
  then show ?thesis using r assms(4-6) by (cases entry) (auto simp: fresh_claim_def)
qed

theorem repeated_ihave_renews_witness:
  "\<exists>s'. ihave_request list_env 20 (PeerId [1]) [[7]] (Some asked_topic) = ([[7]], s') \<and>
     map_option oi_requested_at (ts_outstanding_iwants s' [7]) = Some 20"
  using repeated_ihave_renews [OF asked_topic_ok(1,3), where i = "[7]" and now = 20 and peer = "PeerId [1]" and
      entry = "\<lparr>oi_peer = PeerId [1], oi_requested_at = 10, oi_retry_pending = False, oi_failures = 0, oi_retry_not_before = None\<rparr>"]
  by (auto simp: asked_topic_def with_cache_config_def cache_new_def)

end
