(* ===== verification/Reconcile.thy ===== *)
theory Reconcile
  imports Delivery
begin

text \<open>
  Set reconciliation by anti-entropy: which messages a digest of a peer is answered with, and that exactly
  the ids this node lacks are requested from it.
\<close>

text \<open>The messages of the cache that have not expired.\<close>

definition unexpired :: "('l, 'r) plum_env \<Rightarrow> instant \<Rightarrow> ('l, 'r) TopicState \<Rightarrow> MessageIdType \<rightharpoonup> CachedMessage" where
  "unexpired env now s i =
     map_option ce_message (map_of (fresh now (mc_max_age (ts_message_cache s)) (entries (pe_ops env) (ts_message_cache s))) i)"

lemma unexpired_lookup:
  assumes "plum_lawful env" "exchange_ok env s" "iwant_lookup (pe_ops env) False now i s = (found, s')"
  shows "found = unexpired env now s i" "unexpired env now s' = unexpired env now s" "exchange_ok env s'"
proof -
  note L = plum_lawfulD(1) [OF assms(1)] and C = exchange_okD(1) [OF assms(2)]
  let ?c = "ts_message_cache s"
  note G = get_at_ok [OF L C, of i now]
  have eq: "found = fst (get_at (pe_ops env) i now ?c)" "s' = s\<lparr>ts_message_cache := snd (get_at (pe_ops env) i now ?c)\<rparr>"
    using assms(3) by (auto simp: iwant_lookup_def split: prod.splits)
  show "found = unexpired env now s i" by (simp add: eq(1) G(2) unexpired_def)
  let ?xs = "fresh now (mc_max_age ?c) (entries (pe_ops env) ?c)"
    and ?ys = "fresh now (mc_max_age ?c) (entries (pe_ops env) (snd (get_at (pe_ops env) i now ?c)))"
  have "set ?ys = set ?xs" using G(3) by (auto simp: fresh_def)
  moreover have "distinct (map fst ?xs)" "distinct (map fst ?ys)"
    using lru_distinct [OF L cache_okD(2) [OF C]] lru_distinct [OF L cache_okD(2) [OF G(1)]] by (simp_all add: fresh_def distinct_map_filter)
  ultimately have "map_of ?ys k = map_of ?xs k" for k by (intro map_of_set_eq) auto
  then show "unexpired env now s' = unexpired env now s" using G(4) by (simp add: unexpired_def eq(2) same_limits_def fun_eq_iff)
  show "exchange_ok env s'" using G(1) assms(2) by (simp add: eq(2) exchange_ok_def)
qed

lemma select_loop_exact:
  assumes "plum_lawful env" "exchange_ok env s" "iwant_select_loop (pe_ops env) False now ids s = (to_send, s')"
  shows "set to_send = {(i, m). i \<in> set ids \<and> unexpired env now s i = Some m \<and> \<not> cm_dropped m}"
  using assms(2,3)
proof (induction ids arbitrary: s to_send)
  case (Cons i ids)
  obtain found s1 where f: "iwant_lookup (pe_ops env) False now i s = (found, s1)" by fastforce
  obtain rest s2 where r: "iwant_select_loop (pe_ops env) False now ids s1 = (rest, s2)" by fastforce
  note F = unexpired_lookup [OF assms(1) Cons.prems(1) f]
  have "to_send = (case found of None \<Rightarrow> rest | Some m \<Rightarrow> if cm_dropped m then rest else (i, m) # rest)" "s' = s2"
    using Cons.prems(2) by (simp_all add: f r)
  moreover have "set rest = {(i, m). i \<in> set ids \<and> unexpired env now s i = Some m \<and> \<not> cm_dropped m}"
    using Cons.IH [OF F(3)] r calculation(2) F(2) by simp
  ultimately show ?case using F(1) by (auto split: option.splits if_splits)
qed simp

lemma select_loop_length: "iwant_select_loop ops b now ids s = (to_send, s') \<Longrightarrow> length to_send \<le> length ids"
  by (induction ids arbitrary: s to_send) (auto simp: Let_def split: prod.splits option.splits if_splits, (fastforce intro: le_SucI)+)

lemma unexpired_cached: "plum_lawful env \<Longrightarrow> exchange_ok env s \<Longrightarrow> unexpired env now s i = Some m \<Longrightarrow> messages_of env s i = Some m"
  using cached_fresh [OF plum_lawfulD(1) cache_okD(2) [OF exchange_okD(1)], of env s now "mc_max_age (ts_message_cache s)"]
    shrinksD [of "messages_of env s" "unexpired env now s" i m]
  by (simp add: shrinks_def unexpired_def cache_view_def fun_eq_iff)

lemma our_ids: "set (cache_ids (pe_ops env) (ts_message_cache (touch now s))) = {i. messages_of env s i \<noteq> None}"
  by (auto simp: touch_def cache_ids_def cache_view_def entries_def domIff map_of_eq_None_iff)

lemma digest_exact:
  assumes "plum_lawful env" "exchange_ok env s" "\<forall>S. finite S \<longrightarrow> set (order S) = S"
    and "anti_entropy_digest env order now msg_ids (Some s) = ((to_send, ids_we_need), s')"
  shows "set to_send \<subseteq> {(i, m). i \<notin> set msg_ids \<and> unexpired env now s i = Some m \<and> \<not> cm_dropped m}"
    "\<not> pe_registered env \<Longrightarrow> set to_send = {(i, m). i \<notin> set msg_ids \<and> unexpired env now s i = Some m \<and> \<not> cm_dropped m}"
    "pe_registered env \<Longrightarrow> length to_send \<le> 32"
    "set ids_we_need = {i \<in> set msg_ids. \<not> has_message (pe_ops env) s i}"
    "frame env s s'"
proof -
  let ?ours = "set (cache_ids (pe_ops env) (ts_message_cache (touch now s)))"
  let ?ids = "order (?ours - set msg_ids)"
  let ?served = "if pe_registered env then take 32 ?ids else ?ids"
  note ours = our_ids [of env now s]
  have ok: "exchange_ok env (touch now s)" "unexpired env now (touch now s) = unexpired env now s"
    using assms(2) by (simp_all add: touch_def exchange_ok_def unexpired_def fun_eq_iff)
  obtain ts t where l: "iwant_select_loop (pe_ops env) False now ?served (touch now s) = (ts, t)" by fastforce
  have eq: "to_send = ts" "ids_we_need = order (set msg_ids - ?ours)"
    using assms(4) l by (simp_all add: anti_entropy_digest_def or_new_def digest_loop_eq Let_def split: if_splits)
  have all: "set ?ids = ?ours - set msg_ids" using assms(3) by simp
  have sub: "set ?served \<subseteq> ?ours - set msg_ids" using all by (auto dest: in_set_takeD)
  have sent: "set to_send = {(i, m). i \<in> set ?served \<and> unexpired env now s i = Some m \<and> \<not> cm_dropped m}"
    using select_loop_exact [OF assms(1) ok(1) l] by (simp only: eq(1) ok(2))
  show "set to_send \<subseteq> {(i, m). i \<notin> set msg_ids \<and> unexpired env now s i = Some m \<and> \<not> cm_dropped m}"
    using sent sub by auto
  show "set to_send = {(i, m). i \<notin> set msg_ids \<and> unexpired env now s i = Some m \<and> \<not> cm_dropped m}" if "\<not> pe_registered env"
    using sent all that unexpired_cached [OF assms(1,2)] unfolding ours by auto
  show "length to_send \<le> 32" if "pe_registered env"
    using select_loop_length [OF l] that unfolding eq(1) by simp
  show "set ids_we_need = {i \<in> set msg_ids. \<not> has_message (pe_ops env) s i}"
    unfolding eq(2) using assms(3) ours has_message_iff [OF assms(1)] by auto
  show "frame env s s'" using digest_serves [OF assms(1,2,4)] by (simp add: serves_def)
qed

text \<open>The frames of the answer, and that a policy that admits every message lets it run to its end.\<close>

lemma digest_frames_exact:
  assumes "digest_frames encodes admitted public_key sign n to_send = (err, frames)"
  shows "set frames \<subseteq> {f. \<exists>m \<in> snd ` set to_send. f = cached_frame public_key sign m \<and> forwardable_payload (cm_payload m) \<and> encodes f}"
    "length frames \<le> length to_send"
    "(\<And>n. admitted n) \<Longrightarrow> err = None \<and>
       set frames = {f. \<exists>m \<in> snd ` set to_send. f = cached_frame public_key sign m \<and> forwardable_payload (cm_payload m) \<and> encodes f}"
    "err \<in> {None, Some CacheServeRefused}"
  using assms
  by (induction to_send arbitrary: n err frames) (fastforce split: prod.splits if_splits)+

text \<open>
  C14: Anti-entropy reconciles two caches in one exchange. The handler answers an authentic digest only
  with frames of unexpired messages of the cache that the digest does not name, that the
  application did not drop, that the forward guard lets pass and that can be serialized, each with the
  header and payload in the cache. On a topic without a wire policy, where every serving is admitted, it
  answers with all of them; on a topic with one with at most 32. Unless the policy ends the
  serving, it then requests, in one IWANT, exactly the ids of the digest that are not cached. Nothing
  is added to the cache.
\<close>

theorem digest_reconciles:
  assumes "plum_lawful env" "exchange_ok env s" "\<forall>S. finite S \<longrightarrow> set (order S) = S"
    and "verify_message_signature env m" "pe_ingress env peer m" "gm_payload m = Some payload" "decode payload = Some (DigestPayload msg_ids)"
    and "handle_anti_entropy_admitted env decode encode_ids order admitted public_key sign now peer topic m (Some s) = ((err, frames, requested), st)"
  defines "owed \<equiv> {f. \<exists>i c. i \<notin> set msg_ids \<and> unexpired env now s i = Some c \<and> \<not> cm_dropped c \<and>
     f = cached_frame public_key sign c \<and> forwardable_payload (cm_payload c) \<and> pe_encodes env f}"
  shows "set frames \<subseteq> owed \<and> (\<not> pe_registered env \<and> (\<forall>n. admitted n) \<longrightarrow> set frames = owed) \<and> (pe_registered env \<longrightarrow> length frames \<le> 32) \<and>
    (err = Some CacheServeRefused \<and> requested = [] \<and> (\<exists>n. \<not> admitted n) \<or>
     (\<exists>ids. set ids = {i \<in> set msg_ids. \<not> has_message (pe_ops env) s i} \<and>
        (err, requested) = anti_entropy_iwant env encode_ids public_key sign topic ids)) \<and>
    (\<exists>s'. st = Some s' \<and> (\<forall>i m. messages_of env s' i = Some m \<longrightarrow> messages_of env s i = Some m))"
proof -
  let ?s = "record_verified_inbound_from_peer env now peer (Some s)"
  have f: "frame env s ?s"
    using frame_trans [OF frame_touch frame_inbound] by (simp add: record_verified_inbound_from_peer_def or_new_def)
  then have ok: "exchange_ok env ?s" using assms(2) by (simp add: frame_def)
  have same: "unexpired env now ?s = unexpired env now s" "has_message (pe_ops env) ?s = has_message (pe_ops env) s"
    by (simp_all add: fun_eq_iff unexpired_def has_message_def record_verified_inbound_from_peer_def record_inbound_def or_new_def touch_def)
  obtain to_send need s1 where d: "anti_entropy_digest env order now msg_ids (Some ?s) = ((to_send, need), s1)" by (metis prod.exhaust)
  obtain err0 fs where fr: "digest_frames (pe_encodes env) admitted public_key sign 0 to_send = (err0, fs)" by fastforce
  note D = digest_exact [OF assms(1) ok assms(3) d, unfolded same]
  note F = digest_frames_exact [OF fr]
  have h: "frames = fs" "st = Some s1"
    "(err, requested) = (case err0 of Some e \<Rightarrow> (Some e, []) | None \<Rightarrow> anti_entropy_iwant env encode_ids public_key sign topic need)"
    using assms(8) unfolding handle_anti_entropy_admitted_def
    by (auto simp: assms(4-7) d fr Let_def split: option.splits prod.splits)
  have "set frames \<subseteq> owed" using F(1) D(1) unfolding h(1) owed_def by fastforce
  moreover have "set frames = owed" if "\<not> pe_registered env" "\<forall>n. admitted n"
    using F(3) that D(2) unfolding h(1) owed_def by fastforce
  moreover have "length frames \<le> 32" if "pe_registered env" using F(2) D(3) [OF that] h(1) by simp
  moreover have "err = Some CacheServeRefused \<and> requested = [] \<and> (\<exists>n. \<not> admitted n) \<or>
      (\<exists>ids. set ids = {i \<in> set msg_ids. \<not> has_message (pe_ops env) s i} \<and>
        (err, requested) = anti_entropy_iwant env encode_ids public_key sign topic ids)"
    using F(3,4) D(4) h(3) by (cases err0) auto
  moreover have "messages_of env s i = Some m" if "messages_of env s1 i = Some m" for i m
    using frame_trans [OF f D(5)] assms(2) shrinksD that by (auto simp: frame_def)
  ultimately show ?thesis using h(2) by blast
qed

definition digest_message :: GossipMessage where
  "digest_message = \<lparr>gm_header = header_new (TopicId [3]) AntiEntropy 10, gm_payload = Some [9], gm_signature = [], gm_public_key = []\<rparr>"

theorem digest_reconciles_witness:
  "\<exists>s err frames requested st. exchange_ok list_env s \<and>
     handle_anti_entropy_admitted list_env (\<lambda>_. Some (DigestPayload [[9]])) (\<lambda>_. Some [1]) sorted_list_of_set (\<lambda>_. True) [] (\<lambda>_. [5]) 6
       (PeerId [2]) (TopicId [3]) digest_message (Some s) = ((err, frames, requested), st) \<and>
     set frames = {cached_frame [] (\<lambda>_. [5]) (small_message [1, 2] True)} \<and> set requested = {[9]}"
proof -
  obtain c where c: "entries list_lru c = [([7], \<lparr>ce_message = small_message [1, 2] True, ce_bytes = 5758, ce_inserted_at = 5\<rparr>)]"
    "cache_ok list_lru c" "mc_max_age c = 60000" by (rule small_cache_inserted)
  let ?s = "new_topic\<lparr>ts_message_cache := c\<rparr>"
  have ok: "exchange_ok list_env ?s" using new_topic_empty(3) c(2) by (simp add: exchange_ok_def list_env_def)
  obtain err frames requested st where h: "handle_anti_entropy_admitted list_env (\<lambda>_. Some (DigestPayload [[9]])) (\<lambda>_. Some [1]) sorted_list_of_set
      (\<lambda>_. True) [] (\<lambda>_. [5]) 6 (PeerId [2]) (TopicId [3]) digest_message (Some ?s) = ((err, frames, requested), st)" by (metis prod.exhaust)
  have sig: "verify_message_signature list_env digest_message" "pe_ingress list_env (PeerId [2]) digest_message" "gm_payload digest_message = Some [9]"
    by (simp_all add: digest_message_def verify_message_signature_def verify_payload_covering_signature_def list_env_def header_new_def)
  have u: "unexpired list_env 6 ?s i = (if i = [7] then Some (small_message [1, 2] True) else None)" for i
    by (simp add: unexpired_def fresh_def c(1,3) list_env_def)
  have n: "has_message (pe_ops list_env) ?s i \<longleftrightarrow> i = [7]" for i
    using c(1) by (simp add: has_message_iff [OF list_env_lawful] cache_view_def) (simp add: list_env_def)
  have pass: "forwardable_payload [1, 2]" by code_simp
  have env: "\<not> pe_registered list_env" "pe_encodes list_env = (\<lambda>m. gm_payload m \<noteq> Some [2])" by (simp_all add: list_env_def)
  note T = digest_reconciles [OF list_env_lawful ok _ sig _ h, of "[[9]]"]
  have "set frames = {cached_frame [] (\<lambda>_. [5]) (small_message [1, 2] True)}"
    using T pass env by (auto simp: u small_message_def cached_frame_def)
  moreover have "{i \<in> set [[9]]. \<not> has_message (pe_ops list_env) ?s i} = {[9]}" by (auto simp: n)
  then obtain ids where "set ids = {[9]}" "(err, requested) = anti_entropy_iwant list_env (\<lambda>_. Some [1]) [] (\<lambda>_. [5]) (TopicId [3]) ids"
    using T by auto
  then have "set requested = {[9]}" by (auto simp: anti_entropy_iwant_def iwant_message_def list_env_def Let_def split: if_splits)
  ultimately show ?thesis using ok h by blast
qed

end
