(* ===== verification/Egress.thy ===== *)
theory Egress
  imports Topic_State
begin

text \<open>
  The byte budget of a leaf node, \<open>crates/pubsub/src/egress.rs\<close>: one token bucket for all serialized
  frames, an escrow in which recovery frames collect their bytes, the rotation of the scopes that
  share it, and the displacement of an over-represented peer when the escrow is full.

  Instants are nanoseconds here, as the refill computes with them. \<open>iter\<close> is the order in which the
  hash map of intents is iterated. The charging loop runs with fuel; \<^verbatim>\<open>Egress_Charge\<close> shows that its fuel
  is always enough.
\<close>

subsection \<open>Configuration and state\<close>

definition RECOVERY_RESERVE_PERCENT :: nat where "RECOVERY_RESERVE_PERCENT = 25"

definition RECOVERY_RESERVE_MAX_PERCENT :: nat where "RECOVERY_RESERVE_MAX_PERCENT = 50"

definition DEFAULT_MAX_WAITERS :: nat where "DEFAULT_MAX_WAITERS = 256"

definition DEFAULT_MAX_WAITERS_PER_PEER :: nat where "DEFAULT_MAX_WAITERS_PER_PEER = 8"

definition DEFAULT_MAX_INTENTS :: nat where "DEFAULT_MAX_INTENTS = 1024"

definition CRITICAL_MAX_WAITERS :: nat where "CRITICAL_MAX_WAITERS = 16"

definition CRITICAL_MAX_INTENTS :: nat where "CRITICAL_MAX_INTENTS = 64"

definition ORDINARY_MAX_WAITERS :: nat where "ORDINARY_MAX_WAITERS = DEFAULT_MAX_WAITERS - CRITICAL_MAX_WAITERS"

definition ORDINARY_MAX_INTENTS :: nat where "ORDINARY_MAX_INTENTS = DEFAULT_MAX_INTENTS - CRITICAL_MAX_INTENTS"

definition ORDINARY_MAX_WAITERS_PER_PEER :: nat where "ORDINARY_MAX_WAITERS_PER_PEER = DEFAULT_MAX_WAITERS_PER_PEER - 1"

definition RECOVERY_INTENT_MAX_AGE :: duration where "RECOVERY_INTENT_MAX_AGE = MAX_CACHE_AGE_SECS * 1000000000"

definition RECOVERY_INTENT_MAX_LIFETIME :: duration where "RECOVERY_INTENT_MAX_LIFETIME = MAX_CACHE_AGE_SECS * 2 * 1000000000"

definition RECOVERY_CRITICAL_SLOTS :: nat where "RECOVERY_CRITICAL_SLOTS = 7"

definition RECOVERY_TOTAL_SLOTS :: nat where "RECOVERY_TOTAL_SLOTS = RECOVERY_CRITICAL_SLOTS + 1"

definition RECOVERY_MAX_QUANTUM_BYTES :: nat where "RECOVERY_MAX_QUANTUM_BYTES = 16 * 1024"

definition DISPLACEMENT_TOKEN_CAPACITY :: nat where "DISPLACEMENT_TOKEN_CAPACITY = 8"

definition DISPLACEMENT_REFILL_NANOS_PER_TOKEN :: nat where "DISPLACEMENT_REFILL_NANOS_PER_TOKEN = 2000000000"

lemmas egress_limits = RECOVERY_RESERVE_PERCENT_def RECOVERY_RESERVE_MAX_PERCENT_def DEFAULT_MAX_WAITERS_def DEFAULT_MAX_WAITERS_PER_PEER_def
  DEFAULT_MAX_INTENTS_def CRITICAL_MAX_WAITERS_def CRITICAL_MAX_INTENTS_def ORDINARY_MAX_WAITERS_def ORDINARY_MAX_INTENTS_def
  ORDINARY_MAX_WAITERS_PER_PEER_def RECOVERY_CRITICAL_SLOTS_def RECOVERY_TOTAL_SLOTS_def RECOVERY_MAX_QUANTUM_BYTES_def
  DISPLACEMENT_TOKEN_CAPACITY_def DISPLACEMENT_REFILL_NANOS_PER_TOKEN_def

datatype BytePolicy = ObserveOnly | ShedNormal

record LeafEgressConfig =
  ec_soft_bytes_per_second :: nat
  ec_hard_bytes_per_second :: nat
  ec_burst_bytes :: nat
  ec_max_serialized_frame_bytes :: nat
  ec_policy :: BytePolicy

definition validate :: "LeafEgressConfig \<Rightarrow> LeafEgressConfig option" where
  "validate c =
     (if ec_hard_bytes_per_second c = 0 then None
      else if ec_max_serialized_frame_bytes c > 0 \<and> ec_burst_bytes c \<ge> ec_max_serialized_frame_bytes c \<and>
              (ec_soft_bytes_per_second c = 0 \<or> ec_soft_bytes_per_second c \<le> ec_hard_bytes_per_second c)
      then Some c else None)"

definition default_config :: LeafEgressConfig where
  "default_config = \<lparr>ec_soft_bytes_per_second = 0, ec_hard_bytes_per_second = 0, ec_burst_bytes = 0, ec_max_serialized_frame_bytes = 0, ec_policy = ObserveOnly\<rparr>"

record RecoveryIntentKey =
  ik_peer :: bytes
  ik_scope :: bytes
  ik_family :: bytes
  ik_operation :: bytes

datatype ReserveError = Disabled | Oversized | ReserveDeferred | WaiterLimit | IntentLimit | Reconfigured

datatype RecoveryClass = Ordinary | CriticalEager

record Intent =
  in_bytes :: nat
  in_last_observed :: instant
  in_created_at :: instant
  in_order :: nat
  in_charged :: nat
  in_class :: RecoveryClass

record Promotion =
  pm_key :: RecoveryIntentKey
  pm_visits_remaining :: nat

record PurposeCounters =
  pu_demanded_bytes :: nat
  pu_charged_bytes :: nat
  pu_deferred :: nat
  pu_sent_bytes :: nat
  pu_send_failures :: nat

definition MAX_PURPOSE_ROWS :: nat where "MAX_PURPOSE_ROWS = 1024"

text \<open>\<open>State\<close> with the atomic counters, the waiter semaphores as their free permits, and the flags byte, which is written with the
  state under one lock. The two entries of \<open>displacement_credit\<close> are the arguments of a function
  of the class.\<close>

record Limiter =
  lm_config :: "LeafEgressConfig option"
  lm_generation :: nat
  lm_tokens :: nat
  lm_remainder :: nat
  lm_soft_tokens :: nat
  lm_soft_remainder :: nat
  lm_last_refill :: instant
  lm_intents :: "RecoveryIntentKey \<rightharpoonup> Intent"
  lm_waiters_by_peer :: "bytes \<rightharpoonup> nat \<times> nat"
  lm_next_order :: nat
  lm_recovery_quantum :: nat
  lm_recovery_slot :: nat
  lm_recovery_slot_remaining :: nat
  lm_ordinary_scopes :: "bytes list"
  lm_ordinary_scope_counts :: "bytes \<rightharpoonup> nat"
  lm_displacement_credit :: "RecoveryClass \<Rightarrow> nat"
  lm_displacement_last_refill :: instant
  lm_promoted :: "Promotion option"
  lm_enabled :: bool
  lm_enforcing :: bool
  lm_deferred_residue :: bool
  lm_ordinary_waiters :: nat
  lm_critical_waiters :: nat
  lm_demanded_bytes :: nat
  lm_charged_bytes :: nat
  lm_sent_bytes :: nat
  lm_send_failures :: nat
  lm_recovery_waited :: nat
  lm_budget_timeouts :: nat
  lm_shed_suppressed :: nat
  lm_data_deferred :: nat
  lm_queue_overflow :: nat
  lm_intent_displaced :: nat
  lm_displacement_rate_limited :: nat
  lm_invariant_violations :: nat
  lm_purpose_counters :: "bytes \<times> string \<rightharpoonup> PurposeCounters"

record ByteReservation =
  br_key :: RecoveryIntentKey
  br_generation :: nat

type_synonym intent_order = "(RecoveryIntentKey \<rightharpoonup> Intent) \<Rightarrow> RecoveryIntentKey list"

definition full_credit :: "RecoveryClass \<Rightarrow> nat" where
  "full_credit = (\<lambda>_. DISPLACEMENT_TOKEN_CAPACITY * DISPLACEMENT_REFILL_NANOS_PER_TOKEN)"

definition limiter_disabled :: "instant \<Rightarrow> Limiter" where
  "limiter_disabled now =
     \<lparr>lm_config = None, lm_generation = 0, lm_tokens = 0, lm_remainder = 0, lm_soft_tokens = 0, lm_soft_remainder = 0,
      lm_last_refill = now, lm_intents = Map.empty, lm_waiters_by_peer = Map.empty, lm_next_order = 0, lm_recovery_quantum = 1,
      lm_recovery_slot = 0, lm_recovery_slot_remaining = 1, lm_ordinary_scopes = [], lm_ordinary_scope_counts = Map.empty,
      lm_displacement_credit = full_credit, lm_displacement_last_refill = now, lm_promoted = None,
      lm_enabled = False, lm_enforcing = False, lm_deferred_residue = False,
      lm_ordinary_waiters = ORDINARY_MAX_WAITERS, lm_critical_waiters = CRITICAL_MAX_WAITERS,
      lm_demanded_bytes = 0, lm_charged_bytes = 0, lm_sent_bytes = 0, lm_send_failures = 0, lm_recovery_waited = 0,
      lm_budget_timeouts = 0, lm_shed_suppressed = 0, lm_data_deferred = 0, lm_queue_overflow = 0, lm_intent_displaced = 0,
      lm_displacement_rate_limited = 0, lm_invariant_violations = 0,
      lm_purpose_counters = Map.empty\<rparr>"

definition configure :: "LeafEgressConfig option \<Rightarrow> instant \<Rightarrow> Limiter \<Rightarrow> bool \<times> Limiter" where
  "configure requested now s =
     (let checked = (case requested of
            None \<Rightarrow> Some None
          | Some candidate \<Rightarrow>
              if ec_hard_bytes_per_second candidate = 0 then Some None
              else (case validate candidate of None \<Rightarrow> None | Some c \<Rightarrow> Some (Some c)))
      in case checked of
           None \<Rightarrow> (False, s)
         | Some validated \<Rightarrow>
             if lm_config s = validated then (True, s)
             else let burst = (case validated of None \<Rightarrow> 0 | Some c \<Rightarrow> ec_burst_bytes c);
                      quantum = (case validated of None \<Rightarrow> 1
                                 | Some c \<Rightarrow> min (max (ec_hard_bytes_per_second c div 8) 1) RECOVERY_MAX_QUANTUM_BYTES)
                  in (True, s\<lparr>lm_config := validated, lm_generation := u64_add (lm_generation s) 1,
                       lm_tokens := burst, lm_soft_tokens := burst, lm_remainder := 0, lm_soft_remainder := 0,
                       lm_last_refill := now, lm_intents := Map.empty, lm_ordinary_scopes := [], lm_ordinary_scope_counts := Map.empty,
                       lm_displacement_credit := full_credit, lm_displacement_last_refill := now, lm_promoted := None,
                       lm_recovery_quantum := quantum, lm_recovery_slot := 0, lm_recovery_slot_remaining := quantum,
                       lm_enabled := validated \<noteq> None,
                       lm_enforcing := (case validated of None \<Rightarrow> False | Some c \<Rightarrow> ec_policy c = ShedNormal),
                       lm_deferred_residue := (validated = None \<and> lm_config s \<noteq> None)\<rparr>))"

definition clear_deferred_residue :: "Limiter \<Rightarrow> Limiter" where
  "clear_deferred_residue s = s\<lparr>lm_deferred_residue := False\<rparr>"

subsection \<open>The rotation of ordinary scopes\<close>

abbreviation pending :: "Intent \<Rightarrow> bool" where
  "pending i \<equiv> in_charged i < in_bytes i"

definition add_ordinary_pending :: "bytes \<Rightarrow> Limiter \<Rightarrow> Limiter" where
  "add_ordinary_pending scope s =
     (let count = get_or 0 (lm_ordinary_scope_counts s) scope
      in s\<lparr>lm_ordinary_scopes := (if count = 0 then lm_ordinary_scopes s @ [scope] else lm_ordinary_scopes s),
           lm_ordinary_scope_counts := (lm_ordinary_scope_counts s)(scope \<mapsto> u64_sat_add count 1)\<rparr>)"

definition add_ordinary_pending_front :: "bytes \<Rightarrow> Limiter \<Rightarrow> Limiter" where
  "add_ordinary_pending_front scope s =
     (let count = get_or 0 (lm_ordinary_scope_counts s) scope
      in s\<lparr>lm_ordinary_scopes := (if count = 0 then scope # lm_ordinary_scopes s else lm_ordinary_scopes s),
           lm_ordinary_scope_counts := (lm_ordinary_scope_counts s)(scope \<mapsto> u64_sat_add count 1)\<rparr>)"

definition remove_ordinary_pending :: "bytes \<Rightarrow> Limiter \<Rightarrow> Limiter" where
  "remove_ordinary_pending scope s =
     (case lm_ordinary_scope_counts s scope of
        None \<Rightarrow> s
      | Some count \<Rightarrow>
          if count - 1 = 0
          then s\<lparr>lm_ordinary_scope_counts := map_remove scope (lm_ordinary_scope_counts s),
                 lm_ordinary_scopes := filter (\<lambda>c. c \<noteq> scope) (lm_ordinary_scopes s)\<rparr>
          else s\<lparr>lm_ordinary_scope_counts := (lm_ordinary_scope_counts s)(scope \<mapsto> count - 1)\<rparr>)"

text \<open>\<open>intents.remove(&key)\<close> with the bookkeeping that expiry, displacement and cancellation share.\<close>

definition forget_intent :: "RecoveryIntentKey \<Rightarrow> Limiter \<Rightarrow> Limiter" where
  "forget_intent key s =
     (case lm_intents s key of
        None \<Rightarrow> s
      | Some intent \<Rightarrow>
          (let s1 = s\<lparr>lm_intents := map_remove key (lm_intents s)\<rparr>
           in if in_class intent = Ordinary \<and> pending intent then remove_ordinary_pending (ik_scope key) s1 else s1))"

definition promotion_live :: "Limiter \<Rightarrow> bool \<times> Limiter" where
  "promotion_live s =
     (case lm_promoted s of
        None \<Rightarrow> (False, s)
      | Some promotion \<Rightarrow>
          if pm_visits_remaining promotion > 0 \<and>
             (case lm_intents s (pm_key promotion) of None \<Rightarrow> False | Some intent \<Rightarrow> pending intent)
          then (True, s) else (False, s\<lparr>lm_promoted := None\<rparr>))"

subsection \<open>Charging\<close>

text \<open>\<open>min_by_key\<close>: the first of the least elements.\<close>

fun min_by_key :: "('a \<Rightarrow> 'b :: linorder) \<Rightarrow> 'a list \<Rightarrow> 'a option" where
  "min_by_key f [] = None"
| "min_by_key f (x # xs) = Some (fold (\<lambda>y best. if f y < f best then y else best) xs x)"

definition pending_keys :: "intent_order \<Rightarrow> RecoveryClass \<Rightarrow> Limiter \<Rightarrow> RecoveryIntentKey list" where
  "pending_keys iter cls s =
     filter (\<lambda>k. case lm_intents s k of None \<Rightarrow> False | Some i \<Rightarrow> in_class i = cls \<and> pending i) (iter (lm_intents s))"

definition intent_at :: "Limiter \<Rightarrow> RecoveryIntentKey \<Rightarrow> Intent" where
  "intent_at s k = the (lm_intents s k)"

definition advance_recovery_slot :: "Limiter \<Rightarrow> Limiter" where
  "advance_recovery_slot s =
     s\<lparr>lm_recovery_slot := (lm_recovery_slot s + 1) mod RECOVERY_TOTAL_SLOTS, lm_recovery_slot_remaining := lm_recovery_quantum s\<rparr>"

text \<open>The class whose turn it is.\<close>

definition charge_class :: "intent_order \<Rightarrow> Limiter \<Rightarrow> RecoveryClass option" where
  "charge_class iter s =
     (let has_critical = pending_keys iter CriticalEager s \<noteq> []; has_ordinary = lm_ordinary_scopes s \<noteq> []
      in if \<not> has_critical \<and> \<not> has_ordinary then None
         else if \<not> has_ordinary then Some CriticalEager
         else if \<not> has_critical then Some Ordinary
         else if lm_recovery_slot s < RECOVERY_CRITICAL_SLOTS then Some CriticalEager else Some Ordinary)"

text \<open>A visit to the promoted scope uses up its budget.\<close>

definition note_promoted_visit :: "bytes \<Rightarrow> Limiter \<Rightarrow> Limiter" where
  "note_promoted_visit scope s =
     (case lm_promoted s of
        None \<Rightarrow> s
      | Some promotion \<Rightarrow>
          if ik_scope (pm_key promotion) = scope
          then let visits = pm_visits_remaining promotion - 1;
                   fully_charged = (case lm_intents s (pm_key promotion) of None \<Rightarrow> False | Some i \<Rightarrow> \<not> pending i)
               in s\<lparr>lm_promoted := (if fully_charged \<or> visits = 0 then None else Some (promotion\<lparr>pm_visits_remaining := visits\<rparr>))\<rparr>
          else s)"

definition rotate_scopes :: "Limiter \<Rightarrow> Limiter" where
  "rotate_scopes s = s\<lparr>lm_ordinary_scopes := (case lm_ordinary_scopes s of [] \<Rightarrow> [] | scope # rest \<Rightarrow> rest @ [scope])\<rparr>"

text \<open>What follows a charge of \<open>delta\<close> bytes to \<open>key\<close>: the promotion, and the end of the slot.\<close>

definition finish_charge :: "RecoveryClass \<Rightarrow> bytes option \<Rightarrow> RecoveryIntentKey \<Rightarrow> Limiter \<Rightarrow> Limiter" where
  "finish_charge cls ordinary_scope key s =
     (let s1 = (if cls = Ordinary then note_promoted_visit (ik_scope key) s else s);
          at_front = cls = Ordinary \<and>
            (case (ordinary_scope, lm_promoted s1) of (Some scope, Some promotion) \<Rightarrow> ik_scope (pm_key promotion) = scope | _ \<Rightarrow> False);
          (live, s2) = (if at_front then promotion_live s1 else (False, s1));
          scope_empty = (case ordinary_scope of None \<Rightarrow> False | Some scope \<Rightarrow> lm_ordinary_scope_counts s2 scope = None)
      in if lm_recovery_slot_remaining s2 = 0
         then advance_recovery_slot (if cls = Ordinary \<and> \<not> scope_empty \<and> \<not> live then rotate_scopes s2 else s2)
         else s2)"

definition charge_intent :: "RecoveryClass \<Rightarrow> RecoveryIntentKey \<Rightarrow> nat \<Rightarrow> Limiter \<Rightarrow> Limiter" where
  "charge_intent cls key delta s =
     (let intent = intent_at s key;
          s1 = s\<lparr>lm_tokens := lm_tokens s - delta, lm_recovery_slot_remaining := lm_recovery_slot_remaining s - delta,
                 lm_charged_bytes := u64_add (lm_charged_bytes s) delta,
                 lm_intents := (lm_intents s)(key \<mapsto> intent\<lparr>in_charged := u64_sat_add (in_charged intent) delta\<rparr>)\<rparr>
      in if cls = Ordinary \<and> delta = in_bytes intent - in_charged intent then remove_ordinary_pending (ik_scope key) s1 else s1)"

text \<open>One round of the loop; \<open>None\<close> is \<open>break\<close>.\<close>

definition charge_step :: "intent_order \<Rightarrow> Limiter \<Rightarrow> Limiter option" where
  "charge_step iter s =
     (case charge_class iter s of
        None \<Rightarrow> None
      | Some cls \<Rightarrow>
          (let ordinary_scope = (if cls = Ordinary then case lm_ordinary_scopes s of [] \<Rightarrow> None | scope # _ \<Rightarrow> Some scope else None);
               candidates = filter (\<lambda>k. case ordinary_scope of None \<Rightarrow> True | Some scope \<Rightarrow> ik_scope k = scope) (pending_keys iter cls s)
           in case min_by_key (\<lambda>k. in_order (intent_at s k)) candidates of
                None \<Rightarrow>
                  (case ordinary_scope of
                     None \<Rightarrow> if cls = Ordinary then Some s else None
                   | Some scope \<Rightarrow> Some (s\<lparr>lm_ordinary_scope_counts := map_remove scope (lm_ordinary_scope_counts s),
                                           lm_ordinary_scopes := tl (lm_ordinary_scopes s)\<rparr>))
              | Some key \<Rightarrow>
                  (let remaining = in_bytes (intent_at s key) - in_charged (intent_at s key);
                       delta = min (min remaining (lm_tokens s)) (lm_recovery_slot_remaining s)
                   in if delta = 0 then Some (advance_recovery_slot s)
                      else Some (finish_charge cls ordinary_scope key (charge_intent cls key delta s)))))"

fun charge_loop :: "nat \<Rightarrow> intent_order \<Rightarrow> Limiter \<Rightarrow> Limiter option" where
  "charge_loop 0 iter s = None"
| "charge_loop (Suc fuel) iter s =
     (if lm_tokens s = 0 then Some s
      else case charge_step iter s of None \<Rightarrow> Some s | Some s' \<Rightarrow> charge_loop fuel iter s')"

definition charge_fuel :: "Limiter \<Rightarrow> nat" where
  "charge_fuel s = 2 * lm_tokens s + length (lm_ordinary_scopes s) + 2"

definition charge_ready_recovery :: "intent_order \<Rightarrow> Limiter \<Rightarrow> Limiter option" where
  "charge_ready_recovery iter s = charge_loop (charge_fuel s) iter s"

subsection \<open>Refill\<close>

definition u128_max :: nat where
  "u128_max = 2 ^ 128 - 1"

definition refill_scaled :: "duration \<Rightarrow> nat \<Rightarrow> nat \<Rightarrow> nat" where
  "refill_scaled elapsed rate remainder = min (min (elapsed * rate) u128_max + remainder) u128_max"

definition refill_tokens :: "nat \<Rightarrow> nat \<Rightarrow> nat \<Rightarrow> nat" where
  "refill_tokens scaled tokens burst = min (u64_sat_add tokens (min (scaled div 1000000000) u64_max)) burst"

definition intent_expired :: "instant \<Rightarrow> Intent \<Rightarrow> bool" where
  "intent_expired now i \<longleftrightarrow>
     now - in_last_observed i \<ge> RECOVERY_INTENT_MAX_AGE \<or> now - in_created_at i \<ge> RECOVERY_INTENT_MAX_LIFETIME"

definition expire_intents :: "intent_order \<Rightarrow> instant \<Rightarrow> Limiter \<Rightarrow> Limiter" where
  "expire_intents iter now s =
     fold forget_intent (filter (\<lambda>k. intent_expired now (intent_at s k)) (iter (lm_intents s))) s"

definition refill_displacement :: "instant \<Rightarrow> Limiter \<Rightarrow> Limiter" where
  "refill_displacement now s =
     (let elapsed = now - lm_displacement_last_refill s
      in if elapsed > 0
         then s\<lparr>lm_displacement_credit := (\<lambda>cls. min (u64_sat_add (lm_displacement_credit s cls) (min elapsed u64_max)) (full_credit cls)),
                lm_displacement_last_refill := now\<rparr>
         else s)"

definition refill_buckets :: "LeafEgressConfig \<Rightarrow> instant \<Rightarrow> Limiter \<Rightarrow> Limiter" where
  "refill_buckets config now s =
     (let elapsed = now - lm_last_refill s;
          scaled = refill_scaled elapsed (ec_hard_bytes_per_second config) (lm_remainder s);
          s1 = s\<lparr>lm_tokens := refill_tokens scaled (lm_tokens s) (ec_burst_bytes config), lm_remainder := scaled mod 1000000000\<rparr>;
          soft = refill_scaled elapsed (ec_soft_bytes_per_second config) (lm_soft_remainder s);
          s2 = (if ec_soft_bytes_per_second config > 0
                then s1\<lparr>lm_soft_tokens := refill_tokens soft (lm_soft_tokens s) (ec_burst_bytes config), lm_soft_remainder := soft mod 1000000000\<rparr>
                else s1)
      in s2\<lparr>lm_last_refill := now\<rparr>)"

definition refill :: "intent_order \<Rightarrow> instant \<Rightarrow> Limiter \<Rightarrow> Limiter option" where
  "refill iter now s =
     (case lm_config s of
        None \<Rightarrow> Some s
      | Some config \<Rightarrow> charge_ready_recovery iter (expire_intents iter now (refill_displacement now (refill_buckets config now s))))"

subsection \<open>Data and protected sends\<close>

definition recovery_reserve :: "intent_order \<Rightarrow> LeafEgressConfig \<Rightarrow> Limiter \<Rightarrow> nat" where
  "recovery_reserve iter config s =
     (let floor = min (ec_burst_bytes config * RECOVERY_RESERVE_PERCENT) u64_max div 100;
          ceiling = min (ec_burst_bytes config * RECOVERY_RESERVE_MAX_PERCENT) u64_max div 100;
          demands = map (\<lambda>k. in_bytes (intent_at s k) - in_charged (intent_at s k))
                      (filter (\<lambda>k. pending (intent_at s k)) (iter (lm_intents s)));
          demand = (if demands = [] then floor else Max (set demands))
      in min (max demand floor) (max ceiling floor))"

definition data_hard_denied :: "intent_order \<Rightarrow> LeafEgressConfig \<Rightarrow> nat \<Rightarrow> Limiter \<Rightarrow> bool" where
  "data_hard_denied iter config n s \<longleftrightarrow> lm_tokens s < n \<or> lm_tokens s - n < recovery_reserve iter config s"

definition try_reserve_data_at ::
  "intent_order \<Rightarrow> RecoveryIntentKey \<Rightarrow> nat \<Rightarrow> bool \<Rightarrow> instant \<Rightarrow> Limiter \<Rightarrow> ((ReserveError + ByteReservation) \<times> Limiter) option" where
  "try_reserve_data_at iter key frame_bytes relayed now s =
     map_option (\<lambda>s1.
       (case lm_config s1 of
          None \<Rightarrow> (Inl Disabled, s1)
        | Some config \<Rightarrow>
            if frame_bytes > ec_max_serialized_frame_bytes config then (Inl Oversized, s1)
            else let s2 = s1\<lparr>lm_demanded_bytes := u64_add (lm_demanded_bytes s1) frame_bytes\<rparr>;
                     soft = relayed \<and> ec_soft_bytes_per_second config > 0
                 in if data_hard_denied iter config frame_bytes s2 \<or> soft \<and> lm_soft_tokens s2 < frame_bytes
                    then (Inl ReserveDeferred, s2\<lparr>lm_data_deferred := u64_add (lm_data_deferred s2) 1\<rparr>)
                    else (Inr \<lparr>br_key = key, br_generation = lm_generation s2\<rparr>,
                          s2\<lparr>lm_tokens := lm_tokens s2 - frame_bytes,
                             lm_soft_tokens := (if soft then lm_soft_tokens s2 - frame_bytes else lm_soft_tokens s2),
                             lm_charged_bytes := u64_add (lm_charged_bytes s2) frame_bytes\<rparr>))) (refill iter now s)"

definition reserve_protected ::
  "intent_order \<Rightarrow> RecoveryIntentKey \<Rightarrow> nat \<Rightarrow> bool \<Rightarrow> instant \<Rightarrow> Limiter \<Rightarrow> (ByteReservation option \<times> Limiter) option" where
  "reserve_protected iter key frame_bytes relayed now s =
     map_option (\<lambda>s1.
       (case lm_config s1 of
          None \<Rightarrow> (None, s1)
        | Some config \<Rightarrow>
            (let over = frame_bytes > ec_max_serialized_frame_bytes config \<or> data_hard_denied iter config frame_bytes s1;
                 soft = relayed \<and> ec_soft_bytes_per_second config > 0
             in (Some \<lparr>br_key = key, br_generation = lm_generation s1\<rparr>,
                 s1\<lparr>lm_demanded_bytes := u64_add (lm_demanded_bytes s1) frame_bytes,
                    lm_shed_suppressed := (if over then u64_add (lm_shed_suppressed s1) 1 else lm_shed_suppressed s1),
                    lm_tokens := lm_tokens s1 - frame_bytes,
                    lm_soft_tokens := (if soft then lm_soft_tokens s1 - frame_bytes else lm_soft_tokens s1),
                    lm_charged_bytes := u64_add (lm_charged_bytes s1) frame_bytes\<rparr>)))) (refill iter now s)"

definition validate_reservation :: "RecoveryIntentKey option \<Rightarrow> ByteReservation option \<Rightarrow> Limiter \<Rightarrow> bool \<times> Limiter" where
  "validate_reservation key reservation s =
     (if \<not> lm_enabled s \<or> lm_config s = None then (reservation = None, s)
      else let valid = (case (key, reservation) of
                          (Some k, Some owned) \<Rightarrow> br_key owned = k \<and> br_generation owned = lm_generation s
                        | _ \<Rightarrow> False)
           in (valid, if valid then s else s\<lparr>lm_invariant_violations := u64_add (lm_invariant_violations s) 1\<rparr>))"

subsection \<open>Displacement\<close>

definition spend_displacement_token :: "RecoveryClass \<Rightarrow> Limiter \<Rightarrow> bool \<times> Limiter" where
  "spend_displacement_token cls s =
     (if lm_displacement_credit s cls < DISPLACEMENT_REFILL_NANOS_PER_TOKEN then (False, s)
      else (True, s\<lparr>lm_displacement_credit := (lm_displacement_credit s)(cls := lm_displacement_credit s cls - DISPLACEMENT_REFILL_NANOS_PER_TOKEN)\<rparr>))"

definition peer_load :: "intent_order \<Rightarrow> RecoveryClass \<Rightarrow> Limiter \<Rightarrow> bytes \<Rightarrow> nat" where
  "peer_load iter cls s peer = length (filter (\<lambda>k. ik_peer k = peer) (pending_keys iter cls s))"

definition fairness_victim :: "intent_order \<Rightarrow> RecoveryClass \<Rightarrow> bytes \<Rightarrow> Limiter \<Rightarrow> RecoveryIntentKey option" where
  "fairness_victim iter cls newcomer s =
     (let ks = pending_keys iter cls s;
          load = peer_load iter cls s
      in if ks = [] then None
         else let n_max = Max (set (map (\<lambda>k. load (ik_peer k)) ks))
              in if load newcomer + 1 \<ge> n_max then None
                 else let victim_peer = Min (set (map ik_peer (filter (\<lambda>k. load (ik_peer k) = n_max) ks)))
                      in min_by_key (\<lambda>k. (in_charged (intent_at s k), - int (in_created_at (intent_at s k)), - int (in_order (intent_at s k))))
                           (filter (\<lambda>k. ik_peer k = victim_peer) ks))"

definition displace_intent_for_fair_admission :: "intent_order \<Rightarrow> RecoveryClass \<Rightarrow> RecoveryIntentKey \<Rightarrow> Limiter \<Rightarrow> bool \<times> Limiter" where
  "displace_intent_for_fair_admission iter cls key s =
     (case fairness_victim iter cls (ik_peer key) s of
        None \<Rightarrow> (False, s)
      | Some victim \<Rightarrow>
          (case spend_displacement_token cls s of
             (False, s1) \<Rightarrow> (False, s1\<lparr>lm_displacement_rate_limited := u64_add (lm_displacement_rate_limited s1) 1\<rparr>)
           | (True, s1) \<Rightarrow>
               (case lm_intents s1 victim of
                  None \<Rightarrow> (False, s1)
                | Some _ \<Rightarrow> (True, (forget_intent victim s1)\<lparr>lm_intent_displaced := u64_add (lm_intent_displaced s1) 1\<rparr>))))"

subsection \<open>Recovery sends\<close>

definition class_count :: "intent_order \<Rightarrow> RecoveryClass \<Rightarrow> Limiter \<Rightarrow> nat" where
  "class_count iter cls s = length (filter (\<lambda>k. in_class (intent_at s k) = cls) (iter (lm_intents s)))"

definition class_limit :: "RecoveryClass \<Rightarrow> nat" where
  "class_limit cls = (case cls of Ordinary \<Rightarrow> ORDINARY_MAX_INTENTS | CriticalEager \<Rightarrow> CRITICAL_MAX_INTENTS)"

definition overflow :: "Limiter \<Rightarrow> Limiter" where
  "overflow s = s\<lparr>lm_queue_overflow := u64_add (lm_queue_overflow s) 1\<rparr>"

text \<open>An intent that is already in the map: it may be raised to the critical class, and is observed again.\<close>

definition raise_class :: "intent_order \<Rightarrow> RecoveryIntentKey \<Rightarrow> Limiter \<Rightarrow> ReserveError option \<times> Limiter" where
  "raise_class iter key s =
     (let (room, s1) = (if class_count iter CriticalEager s \<ge> CRITICAL_MAX_INTENTS
                        then displace_intent_for_fair_admission iter CriticalEager key s else (True, s))
      in if \<not> room then (Some IntentLimit, overflow s1)
         else let s2 = (if in_class (intent_at s1 key) = Ordinary \<and> pending (intent_at s1 key)
                        then remove_ordinary_pending (ik_scope key) s1 else s1)
              in (None, s2\<lparr>lm_intents := (lm_intents s2)(key \<mapsto> (intent_at s2 key)\<lparr>in_class := CriticalEager\<rparr>)\<rparr>))"

definition observe_intent ::
  "intent_order \<Rightarrow> RecoveryIntentKey \<Rightarrow> nat \<Rightarrow> instant \<Rightarrow> RecoveryClass \<Rightarrow> Limiter \<Rightarrow> ReserveError option \<times> Limiter" where
  "observe_intent iter key n now cls s =
     (let (err, s1) = (if cls = CriticalEager \<and> in_class (intent_at s key) \<noteq> CriticalEager then raise_class iter key s else (None, s))
      in if err \<noteq> None then (err, s1)
         else if in_bytes (intent_at s1 key) \<noteq> n then (Some Oversized, s1)
         else (None, s1\<lparr>lm_intents := (lm_intents s1)(key \<mapsto> (intent_at s1 key)\<lparr>in_last_observed := now\<rparr>)\<rparr>))"

text \<open>A new intent takes over the place of the one of its family, if there is one. The result is the
  order, the creation time, the credit, and whether the scope keeps its place in the rotation.\<close>

definition inherit_family ::
  "intent_order \<Rightarrow> RecoveryIntentKey \<Rightarrow> nat \<Rightarrow> instant \<Rightarrow> RecoveryClass \<Rightarrow> Limiter \<Rightarrow> (nat \<times> instant \<times> nat \<times> bool) \<times> Limiter" where
  "inherit_family iter key n now cls s =
     (case find (\<lambda>k. ik_family k = ik_family key) (iter (lm_intents s)) of
        None \<Rightarrow> ((lm_next_order s, now, 0, False), s\<lparr>lm_next_order := u64_sat_add (lm_next_order s) 1\<rparr>)
      | Some previous_key \<Rightarrow>
          (let previous = intent_at s previous_key;
               credit = min (in_charged previous) n;
               preserve = in_class previous = Ordinary \<and> cls = Ordinary \<and> ik_scope previous_key = ik_scope key \<and>
                          pending previous \<and> credit < n;
               s1 = s\<lparr>lm_intents := map_remove previous_key (lm_intents s)\<rparr>
           in ((in_order previous, in_created_at previous, credit, preserve),
               if in_class previous = Ordinary \<and> pending previous \<and> \<not> preserve
               then remove_ordinary_pending (ik_scope previous_key) s1 else s1)))"

text \<open>The place of a new ordinary intent in the rotation.\<close>

definition enter_rotation :: "RecoveryIntentKey \<Rightarrow> nat \<Rightarrow> bool \<Rightarrow> Limiter \<Rightarrow> Limiter" where
  "enter_rotation key n displaced s =
     (let (live, s1) = (if displaced \<and> lm_ordinary_scope_counts s (ik_scope key) = None then promotion_live s else (True, s))
      in if \<not> live
         then let visits = (n + max (lm_recovery_quantum s1) 1 - 1) div max (lm_recovery_quantum s1) 1 + 1
              in add_ordinary_pending_front (ik_scope key) (s1\<lparr>lm_promoted := Some \<lparr>pm_key = key, pm_visits_remaining = visits\<rparr>\<rparr>)
         else add_ordinary_pending (ik_scope key) s1)"

definition register_intent ::
  "intent_order \<Rightarrow> RecoveryIntentKey \<Rightarrow> nat \<Rightarrow> instant \<Rightarrow> RecoveryClass \<Rightarrow> Limiter \<Rightarrow> ReserveError option \<times> Limiter" where
  "register_intent iter key n now cls s =
     (let ((order, created_at, credit, preserved), s1) = inherit_family iter key n now cls s;
          full = length (iter (lm_intents s1)) \<ge> DEFAULT_MAX_INTENTS \<or> class_count iter cls s1 \<ge> class_limit cls;
          (room, s2) = (if full then displace_intent_for_fair_admission iter cls key s1 else (True, s1))
      in if \<not> room then (Some IntentLimit, overflow s2)
         else let s3 = s2\<lparr>lm_intents := (lm_intents s2)(key \<mapsto>
                    \<lparr>in_bytes = n, in_last_observed = now, in_created_at = created_at, in_order = order, in_charged = credit, in_class = cls\<rparr>)\<rparr>;
                  s4 = (if cls = Ordinary \<and> credit < n \<and> \<not> preserved then enter_rotation key n full s3 else s3)
              in (None, s4\<lparr>lm_demanded_bytes := u64_add (lm_demanded_bytes s4) n\<rparr>))"

definition try_reserve_recovery_at_class ::
  "intent_order \<Rightarrow> RecoveryIntentKey \<Rightarrow> nat \<Rightarrow> nat \<Rightarrow> instant \<Rightarrow> RecoveryClass \<Rightarrow> Limiter \<Rightarrow> ((ReserveError + ByteReservation) \<times> Limiter) option" where
  "try_reserve_recovery_at_class iter key frame_bytes generation now cls s =
     (case refill iter now s of
        None \<Rightarrow> None
      | Some s1 \<Rightarrow>
          if lm_generation s1 \<noteq> generation then Some (Inl Reconfigured, s1)
          else case lm_config s1 of
                 None \<Rightarrow> Some (Inl Disabled, s1)
               | Some config \<Rightarrow>
                   if frame_bytes > ec_max_serialized_frame_bytes config then Some (Inl Oversized, s1)
                   else let (err, s2) = (if lm_intents s1 key \<noteq> None then observe_intent iter key frame_bytes now cls s1
                                         else register_intent iter key frame_bytes now cls s1)
                        in case err of
                             Some e \<Rightarrow> Some (Inl e, s2)
                           | None \<Rightarrow>
                               (case charge_ready_recovery iter s2 of
                                  None \<Rightarrow> None
                                | Some s3 \<Rightarrow>
                                    if (case lm_intents s3 key of None \<Rightarrow> False | Some i \<Rightarrow> \<not> pending i)
                                    then Some (Inr \<lparr>br_key = key, br_generation = generation\<rparr>,
                                               s3\<lparr>lm_intents := map_remove key (lm_intents s3)\<rparr>)
                                    else Some (Inl ReserveDeferred, s3)))"

definition try_reserve_recovery ::
  "intent_order \<Rightarrow> RecoveryIntentKey \<Rightarrow> nat \<Rightarrow> instant \<Rightarrow> Limiter \<Rightarrow> ((ReserveError + ByteReservation) \<times> Limiter) option" where
  "try_reserve_recovery iter key frame_bytes now s = try_reserve_recovery_at_class iter key frame_bytes (lm_generation s) now Ordinary s"

definition cancel_intent :: "RecoveryIntentKey \<Rightarrow> nat \<Rightarrow> Limiter \<Rightarrow> Limiter" where
  "cancel_intent key generation s = (if lm_generation s = generation then forget_intent key s else s)"

text \<open>\<open>waiter_permit\<close> and the drop of its permit. The free permits of a semaphore are its state.\<close>

definition waiter_permit :: "bytes \<Rightarrow> RecoveryClass \<Rightarrow> Limiter \<Rightarrow> bool \<times> Limiter" where
  "waiter_permit peer cls s =
     (if (case cls of Ordinary \<Rightarrow> lm_ordinary_waiters s | CriticalEager \<Rightarrow> lm_critical_waiters s) = 0 then (False, s)
      else let (ordinary, critical) = get_or (0, 0) (lm_waiters_by_peer s) peer;
               (count, limit) = (case cls of Ordinary \<Rightarrow> (ordinary, ORDINARY_MAX_WAITERS_PER_PEER) | CriticalEager \<Rightarrow> (critical, 1))
           in if count \<ge> limit \<or> ordinary + critical \<ge> DEFAULT_MAX_WAITERS_PER_PEER then (False, s)
              else (True, case cls of
                      Ordinary \<Rightarrow> s\<lparr>lm_waiters_by_peer := (lm_waiters_by_peer s)(peer \<mapsto> (ordinary + 1, critical)),
                                    lm_ordinary_waiters := lm_ordinary_waiters s - 1\<rparr>
                    | CriticalEager \<Rightarrow> s\<lparr>lm_waiters_by_peer := (lm_waiters_by_peer s)(peer \<mapsto> (ordinary, critical + 1)),
                                         lm_critical_waiters := lm_critical_waiters s - 1\<rparr>))"

definition drop_waiter :: "bytes \<Rightarrow> RecoveryClass \<Rightarrow> Limiter \<Rightarrow> Limiter" where
  "drop_waiter peer cls s =
     (let s1 = (case lm_waiters_by_peer s peer of
                  None \<Rightarrow> s
                | Some (ordinary, critical) \<Rightarrow>
                    (let counts = (case cls of Ordinary \<Rightarrow> (ordinary - 1, critical) | CriticalEager \<Rightarrow> (ordinary, critical - 1))
                     in s\<lparr>lm_waiters_by_peer := (if fst counts + snd counts = 0 then map_remove peer (lm_waiters_by_peer s)
                                                else (lm_waiters_by_peer s)(peer \<mapsto> counts))\<rparr>))
      in (case cls of Ordinary \<Rightarrow> s1\<lparr>lm_ordinary_waiters := lm_ordinary_waiters s1 + 1\<rparr>
          | CriticalEager \<Rightarrow> s1\<lparr>lm_critical_waiters := lm_critical_waiters s1 + 1\<rparr>))"

text \<open>\<open>reserve_recovery_class\<close>: the attempts of a waiter at the given instants, the last of which its
  deadline allows. The intent is cancelled unless the reservation was made or the caller keeps it.\<close>

fun recovery_attempts ::
  "intent_order \<Rightarrow> RecoveryIntentKey \<Rightarrow> nat \<Rightarrow> nat \<Rightarrow> RecoveryClass \<Rightarrow> instant list \<Rightarrow> Limiter \<Rightarrow> ((ReserveError + ByteReservation) option \<times> Limiter) option" where
  "recovery_attempts iter key n generation cls [] s = Some (None, s)"
| "recovery_attempts iter key n generation cls (now # nows) s =
     (case try_reserve_recovery_at_class iter key n generation now cls s of
        None \<Rightarrow> None
      | Some (Inl ReserveDeferred, s1) \<Rightarrow> recovery_attempts iter key n generation cls nows s1
      | Some (r, s1) \<Rightarrow> Some (Some r, s1))"

definition reserve_recovery_class ::
  "intent_order \<Rightarrow> RecoveryIntentKey \<Rightarrow> nat \<Rightarrow> bool \<Rightarrow> RecoveryClass \<Rightarrow> instant list \<Rightarrow> Limiter \<Rightarrow> ((ReserveError + ByteReservation) \<times> Limiter) option" where
  "reserve_recovery_class iter key n keep_intent_on_timeout cls nows s =
     (if \<not> lm_enabled s then Some (Inl Disabled, s)
      else case waiter_permit (ik_peer key) cls s of
             (False, s1) \<Rightarrow> Some (Inl WaiterLimit, s1)
           | (True, s1) \<Rightarrow>
               (let s2 = s1\<lparr>lm_recovery_waited := u64_add (lm_recovery_waited s1) 1\<rparr>; generation = lm_generation s2
                in map_option (\<lambda>(r, s3).
                     (case r of
                        Some (Inr reservation) \<Rightarrow> (Inr reservation, drop_waiter (ik_peer key) cls s3)
                      | Some (Inl err) \<Rightarrow> (Inl err, drop_waiter (ik_peer key) cls (cancel_intent key generation s3))
                      | None \<Rightarrow>
                          (let s4 = s3\<lparr>lm_budget_timeouts := u64_add (lm_budget_timeouts s3) 1\<rparr>
                           in (Inl ReserveDeferred, drop_waiter (ik_peer key) cls
                                 (if keep_intent_on_timeout then s4 else cancel_intent key generation s4)))))
                     (recovery_attempts iter key n generation cls nows s2)))"

definition reserve_recovery ::
  "intent_order \<Rightarrow> RecoveryIntentKey \<Rightarrow> nat \<Rightarrow> bool \<Rightarrow> instant list \<Rightarrow> Limiter \<Rightarrow> ((ReserveError + ByteReservation) \<times> Limiter) option" where
  "reserve_recovery iter key n keep_intent_on_timeout nows s =
     (if \<not> lm_enabled s then Some (Inl Disabled, s) else reserve_recovery_class iter key n keep_intent_on_timeout Ordinary nows s)"

definition reserve_critical_eager ::
  "intent_order \<Rightarrow> RecoveryIntentKey \<Rightarrow> nat \<Rightarrow> instant list \<Rightarrow> Limiter \<Rightarrow> ((ReserveError + ByteReservation) \<times> Limiter) option" where
  "reserve_critical_eager iter key n nows s = reserve_recovery_class iter key n False CriticalEager nows s"

subsection \<open>Accounting by purpose\<close>

definition purpose_row :: "bytes \<times> string \<Rightarrow> (PurposeCounters \<Rightarrow> PurposeCounters) \<Rightarrow> Limiter \<Rightarrow> Limiter" where
  "purpose_row row f s =
     (if card (dom (lm_purpose_counters s)) \<ge> MAX_PURPOSE_ROWS \<and> lm_purpose_counters s row = None then overflow s
      else s\<lparr>lm_purpose_counters := (lm_purpose_counters s)(row \<mapsto>
             f (get_or \<lparr>pu_demanded_bytes = 0, pu_charged_bytes = 0, pu_deferred = 0, pu_sent_bytes = 0, pu_send_failures = 0\<rparr>
                  (lm_purpose_counters s) row))\<rparr>)"

definition record_purpose_demand :: "bytes \<Rightarrow> string \<Rightarrow> nat \<Rightarrow> bool \<Rightarrow> Limiter \<Rightarrow> Limiter" where
  "record_purpose_demand topic purpose n charged s =
     purpose_row (topic, purpose) (\<lambda>e.
       let e1 = e\<lparr>pu_demanded_bytes := u64_sat_add (pu_demanded_bytes e) n\<rparr>
       in if charged then e1\<lparr>pu_charged_bytes := u64_sat_add (pu_charged_bytes e) n\<rparr>
          else e1\<lparr>pu_deferred := u64_sat_add (pu_deferred e) 1\<rparr>) s"

definition record_send_outcome :: "bytes \<Rightarrow> string \<Rightarrow> nat \<Rightarrow> bool \<Rightarrow> Limiter \<Rightarrow> Limiter" where
  "record_send_outcome topic purpose n sent s =
     (if \<not> lm_enabled s then s
      else purpose_row (topic, purpose) (\<lambda>e.
             if sent then e\<lparr>pu_sent_bytes := u64_sat_add (pu_sent_bytes e) n\<rparr>
             else e\<lparr>pu_send_failures := u64_sat_add (pu_send_failures e) 1\<rparr>)
             (if sent then s\<lparr>lm_sent_bytes := u64_add (lm_sent_bytes s) n\<rparr>
              else s\<lparr>lm_send_failures := u64_add (lm_send_failures s) 1\<rparr>))"

end
