(* ===== verification/Egress_Books.thy ===== *)
theory Egress_Books
  imports Egress
begin

text \<open>
  The books of the byte budget: the scope counts and the rotation always describe the ordinary intents
  that wait for bytes, every intent has at most the bytes it asked for, and the classes keep their
  limits. The charging loop ends with an empty bucket or nothing left to charge, and moves exactly
  the tokens it takes into the escrow.
\<close>

subsection \<open>Scopes and intents\<close>

definition iter_ok :: "intent_order \<Rightarrow> bool" where
  "iter_ok iter \<longleftrightarrow> (\<forall>m. finite (dom m) \<longrightarrow> iterates (iter m) m)"

definition waiting :: "(RecoveryIntentKey \<rightharpoonup> Intent) \<Rightarrow> bytes \<Rightarrow> RecoveryIntentKey set" where
  "waiting m scope = {k. \<exists>i. m k = Some i \<and> in_class i = Ordinary \<and> pending i \<and> ik_scope k = scope}"

text \<open>The counts and the rotation of a limiter describe the sets \<open>F\<close> of waiting keys.\<close>

definition booked :: "(bytes \<Rightarrow> RecoveryIntentKey set) \<Rightarrow> Limiter \<Rightarrow> bool" where
  "booked F s \<longleftrightarrow>
     (\<forall>scope. finite (F scope) \<and> card (F scope) \<le> DEFAULT_MAX_INTENTS \<and>
        lm_ordinary_scope_counts s scope = (if F scope = {} then None else Some (card (F scope)))) \<and>
     distinct (lm_ordinary_scopes s) \<and> set (lm_ordinary_scopes s) = {scope. F scope \<noteq> {}}"

lemma bookedD:
  assumes "booked F s"
  shows "finite (F scope)" "card (F scope) \<le> DEFAULT_MAX_INTENTS" "distinct (lm_ordinary_scopes s)"
    "lm_ordinary_scope_counts s scope = (if F scope = {} then None else Some (card (F scope)))"
    "set (lm_ordinary_scopes s) = {scope. F scope \<noteq> {}}"
  using assms by (simp_all add: booked_def)

lemma booked_same:
  "booked F s \<Longrightarrow> lm_ordinary_scope_counts s' = lm_ordinary_scope_counts s \<Longrightarrow> lm_ordinary_scopes s' = lm_ordinary_scopes s \<Longrightarrow> booked F s'"
  by (simp add: booked_def)

lemma booked_remove:
  assumes "booked F s" "k \<in> F scope"
  shows "booked (F(scope := F scope - {k})) (remove_ordinary_pending scope s)"
proof -
  note B = bookedD [OF assms(1)]
  have count: "lm_ordinary_scope_counts s scope = Some (card (F scope))" using B(4) [of scope] assms(2) by auto
  have card: "card (F scope - {k}) = card (F scope) - 1" "finite (F scope - {k})" using B(1) assms(2) by (simp_all add: card_Diff_singleton)
  show ?thesis
  proof (cases "card (F scope) - 1 = 0")
    case True
    then have empty: "F scope - {k} = {}" using card by simp
    then have "remove_ordinary_pending scope s =
        s\<lparr>lm_ordinary_scope_counts := map_remove scope (lm_ordinary_scope_counts s), lm_ordinary_scopes := filter (\<lambda>c. c \<noteq> scope) (lm_ordinary_scopes s)\<rparr>"
      using True count by (simp add: remove_ordinary_pending_def)
    moreover have "(F(scope := F scope - {k})) c = (if c = scope then {} else F c)" for c using empty by simp
    ultimately show ?thesis using B unfolding booked_def by simp blast
  next
    case False
    then have "card (F scope - {k}) \<noteq> 0" using card by simp
    then have "F scope - {k} \<noteq> {}" by (metis card.empty)
    moreover have "remove_ordinary_pending scope s = s\<lparr>lm_ordinary_scope_counts := (lm_ordinary_scope_counts s)(scope \<mapsto> card (F scope) - 1)\<rparr>"
      using False count by (simp add: remove_ordinary_pending_def)
    ultimately show ?thesis using B card assms(2) by (auto simp: booked_def intro: order.trans [OF diff_le_self])
  qed
qed

lemma booked_add:
  assumes "booked F s" "k \<notin> F scope" "card (F scope) < DEFAULT_MAX_INTENTS"
  shows "booked (F(scope := insert k (F scope))) (add_ordinary_pending scope s)"
    "booked (F(scope := insert k (F scope))) (add_ordinary_pending_front scope s)"
proof -
  note B = bookedD [OF assms(1)]
  have count: "get_or 0 (lm_ordinary_scope_counts s) scope = card (F scope)" using B(1,4) [of scope] by (simp add: get_or_def)
  have sat: "u64_sat_add (card (F scope)) 1 = card (insert k (F scope))"
    using B(1) assms(2,3) by (simp add: u64_sat_add_def egress_limits u64_max_eq)
  have le: "card (insert k (F scope)) \<le> DEFAULT_MAX_INTENTS" using B(1) assms(2,3) by simp
  have z: "card (F scope) = 0 \<longleftrightarrow> F scope = {}" using B(1) by simp
  show "booked (F(scope := insert k (F scope))) (add_ordinary_pending scope s)"
    "booked (F(scope := insert k (F scope))) (add_ordinary_pending_front scope s)"
    using B sat le by (auto simp: booked_def add_ordinary_pending_def add_ordinary_pending_front_def Let_def count z)
qed

text \<open>How the waiting keys change with the map of intents.\<close>

lemma waiting_remove:
  "waiting (map_remove k m) = (if \<exists>i. m k = Some i \<and> in_class i = Ordinary \<and> pending i then (waiting m)(ik_scope k := waiting m (ik_scope k) - {k}) else waiting m)"
  by (auto simp: waiting_def fun_eq_iff split: if_splits)

lemma waiting_update:
  assumes "m k = None \<or> (\<exists>i. m k = Some i \<and> \<not> (in_class i = Ordinary \<and> pending i))"
  shows "waiting (m(k \<mapsto> i')) = (if in_class i' = Ordinary \<and> pending i' then (waiting m)(ik_scope k := insert k (waiting m (ik_scope k))) else waiting m)"
  using assms by (auto simp: waiting_def fun_eq_iff split: if_splits)

lemma waiting_same:
  assumes "m k = Some i" "in_class i' = Ordinary \<and> pending i' \<longleftrightarrow> in_class i = Ordinary \<and> pending i"
  shows "waiting (m(k \<mapsto> i')) = waiting m"
  using assms by (auto simp: waiting_def fun_eq_iff)

lemma remove_ordinary_pending_intents [simp]: "lm_intents (remove_ordinary_pending scope s) = lm_intents s"
  by (simp add: remove_ordinary_pending_def split: option.split)

lemma booked_forget:
  assumes "booked (waiting (lm_intents s)) s"
  shows "booked (waiting (lm_intents (forget_intent k s))) (forget_intent k s)"
proof (cases "lm_intents s k")
  case None
  then show ?thesis using assms by (simp add: forget_intent_def)
next
  case (Some i)
  let ?s1 = "s\<lparr>lm_intents := map_remove k (lm_intents s)\<rparr>"
  have b: "booked (waiting (lm_intents s)) ?s1" by (rule booked_same [OF assms]) simp_all
  show ?thesis
  proof (cases "in_class i = Ordinary \<and> pending i")
    case True
    then have "k \<in> waiting (lm_intents s) (ik_scope k)" using Some by (simp add: waiting_def)
    from booked_remove [OF b this] have "booked (waiting (map_remove k (lm_intents s))) (remove_ordinary_pending (ik_scope k) ?s1)"
      unfolding waiting_remove using True Some by (simp del: map_remove_apply)
    moreover have "forget_intent k s = remove_ordinary_pending (ik_scope k) ?s1" using True Some by (simp add: forget_intent_def)
    ultimately show ?thesis by simp
  next
    case False
    then have "waiting (map_remove k (lm_intents s)) = waiting (lm_intents s)" unfolding waiting_remove using Some by auto
    then show ?thesis using b False Some by (auto simp: forget_intent_def Let_def)
  qed
qed


lemma booked_swap:
  assumes "booked F s" "k \<in> F scope" "k' \<notin> F scope"
  shows "booked (F(scope := insert k' (F scope - {k}))) s"
proof -
  note B = bookedD [OF assms(1)]
  have "card (insert k' (F scope - {k})) = card (F scope)" "finite (insert k' (F scope - {k}))"
    using B(1) [of scope] assms(2,3) card_Suc_Diff1 [OF B(1) assms(2)] by simp_all
  moreover have "F scope \<noteq> {}" using assms(2) by auto
  ultimately show ?thesis using B by (auto simp: booked_def)
qed

subsection \<open>The invariant\<close>

definition intent_ok :: "Intent \<Rightarrow> bool" where
  "intent_ok i \<longleftrightarrow> in_charged i \<le> in_bytes i \<and> in_bytes i \<le> u64_max"

definition members :: "(RecoveryIntentKey \<rightharpoonup> Intent) \<Rightarrow> RecoveryClass \<Rightarrow> RecoveryIntentKey set" where
  "members m cls = {k. \<exists>i. m k = Some i \<and> in_class i = cls}"

definition books_ok :: "Limiter \<Rightarrow> bool" where
  "books_ok s \<longleftrightarrow>
     finite (dom (lm_intents s)) \<and> (\<forall>k i. lm_intents s k = Some i \<longrightarrow> intent_ok i) \<and>
     (\<forall>cls. card (members (lm_intents s) cls) \<le> class_limit cls) \<and> booked (waiting (lm_intents s)) s \<and>
     1 \<le> lm_recovery_quantum s \<and> 1 \<le> lm_recovery_slot_remaining s"

lemma books_okD:
  assumes "books_ok s"
  shows "finite (dom (lm_intents s))" "lm_intents s k = Some i \<Longrightarrow> intent_ok i"
    "card (members (lm_intents s) cls) \<le> class_limit cls" "booked (waiting (lm_intents s)) s"
    "1 \<le> lm_recovery_quantum s" "1 \<le> lm_recovery_slot_remaining s"
  using assms unfolding books_ok_def by blast+

lemma members_remove: "members (map_remove k m) cls = members m cls - {k}"
  by (auto simp: members_def split: if_splits)

lemma members_update: "members (m(k \<mapsto> i)) cls = (if in_class i = cls then insert k (members m cls) else members m cls - {k})"
  by (auto simp: members_def split: if_splits)

lemma members_finite: "finite (dom m) \<Longrightarrow> finite (members m cls)"
  by (rule finite_subset [of _ "dom m"]) (auto simp: members_def)

lemma waiting_members: "waiting m scope \<subseteq> members m Ordinary"
  by (auto simp: waiting_def members_def)

lemma dom_members: "dom m = members m Ordinary \<union> members m CriticalEager"
proof -
  have "in_class i = Ordinary \<or> in_class i = CriticalEager" for i by (cases "in_class i") simp_all
  then show ?thesis unfolding members_def by auto
qed

lemma books_total:
  assumes "books_ok s"
  shows "card (dom (lm_intents s)) \<le> DEFAULT_MAX_INTENTS"
proof -
  have "card (dom (lm_intents s)) \<le> card (members (lm_intents s) Ordinary) + card (members (lm_intents s) CriticalEager)"
    unfolding dom_members [of "lm_intents s"] by (rule card_Un_le)
  also have "\<dots> \<le> class_limit Ordinary + class_limit CriticalEager" using assms by (intro add_mono books_okD)
  finally show ?thesis by (simp add: class_limit_def egress_limits)
qed

text \<open>The fields that charging never touches.\<close>

definition outside :: "Limiter \<Rightarrow> Limiter" where
  "outside s = s\<lparr>lm_tokens := 0, lm_intents := Map.empty, lm_recovery_slot := 0, lm_recovery_slot_remaining := 0,
     lm_ordinary_scopes := [], lm_ordinary_scope_counts := Map.empty, lm_promoted := None, lm_charged_bytes := 0\<rparr>"

lemma outsideD:
  assumes "outside s' = outside s"
  shows "lm_config s' = lm_config s" "lm_generation s' = lm_generation s" "lm_remainder s' = lm_remainder s"
    "lm_soft_tokens s' = lm_soft_tokens s" "lm_soft_remainder s' = lm_soft_remainder s" "lm_last_refill s' = lm_last_refill s"
    "lm_recovery_quantum s' = lm_recovery_quantum s" "lm_displacement_credit s' = lm_displacement_credit s"
    "lm_displacement_last_refill s' = lm_displacement_last_refill s" "lm_enabled s' = lm_enabled s"
    "lm_waiters_by_peer s' = lm_waiters_by_peer s" "lm_ordinary_waiters s' = lm_ordinary_waiters s"
    "lm_critical_waiters s' = lm_critical_waiters s" "lm_next_order s' = lm_next_order s"
    "lm_intent_displaced s' = lm_intent_displaced s"
  using arg_cong [OF assms, of lm_config]
    arg_cong [OF assms, of lm_generation]
    arg_cong [OF assms, of lm_remainder]
    arg_cong [OF assms, of lm_soft_tokens]
    arg_cong [OF assms, of lm_soft_remainder]
    arg_cong [OF assms, of lm_last_refill]
    arg_cong [OF assms, of lm_recovery_quantum]
    arg_cong [OF assms, of lm_displacement_credit]
    arg_cong [OF assms, of lm_displacement_last_refill]
    arg_cong [OF assms, of lm_enabled]
    arg_cong [OF assms, of lm_waiters_by_peer]
    arg_cong [OF assms, of lm_ordinary_waiters]
    arg_cong [OF assms, of lm_critical_waiters]
    arg_cong [OF assms, of lm_next_order]
    arg_cong [OF assms, of lm_intent_displaced]
  by (simp_all add: outside_def)

lemma outside_remove [simp]: "outside (remove_ordinary_pending scope s) = outside s"
  by (simp add: remove_ordinary_pending_def outside_def split: option.split)

lemma outside_forget [simp]: "outside (forget_intent k s) = outside s"
  by (simp add: forget_intent_def Let_def split: option.split) (simp add: outside_def)

lemma remove_ordinary_pending_fields [simp]:
  "lm_tokens (remove_ordinary_pending scope s) = lm_tokens s"
  "lm_recovery_slot_remaining (remove_ordinary_pending scope s) = lm_recovery_slot_remaining s"
  "lm_recovery_quantum (remove_ordinary_pending scope s) = lm_recovery_quantum s"
  "lm_promoted (remove_ordinary_pending scope s) = lm_promoted s"
  by (simp_all add: remove_ordinary_pending_def split: option.split)

lemma forget_intent_fields [simp]:
  "lm_tokens (forget_intent k s) = lm_tokens s"
  "lm_recovery_slot_remaining (forget_intent k s) = lm_recovery_slot_remaining s"
  "lm_recovery_quantum (forget_intent k s) = lm_recovery_quantum s"
  "lm_intents (forget_intent k s) = map_remove k (lm_intents s)"
  by (auto simp: forget_intent_def Let_def fun_eq_iff split: option.split)

lemma books_forget:
  assumes "books_ok s"
  shows "books_ok (forget_intent k s)"
proof -
  note B = books_okD [OF assms]
  have "card (members (lm_intents s) cls - {k}) \<le> class_limit cls" for cls
    using B(3) [of cls] by (rule order.trans [OF card_Diff1_le])
  moreover have "finite (dom (map_remove k (lm_intents s)))" using B(1) by (rule rev_finite_subset) (auto split: if_splits)
  moreover have "booked (waiting (map_remove k (lm_intents s))) (forget_intent k s)"
    using booked_forget [OF B(4), of k] by simp
  moreover have "\<forall>k' i. map_remove k (lm_intents s) k' = Some i \<longrightarrow> intent_ok i" using B(2) by (auto split: if_splits)
  ultimately show ?thesis using B(5,6) unfolding books_ok_def forget_intent_fields members_remove by blast
qed

end
