(* ===== verification/Egress_Charge.thy ===== *)
theory Egress_Charge
  imports Egress_Books
begin

text \<open>
  The charging loop of the byte budget. Every round moves tokens into the escrow of one waiting intent,
  so the loop ends, with an empty bucket or with every intent paid; it neither creates nor loses a
  token, and it keeps the books.
\<close>

subsection \<open>The head of a class\<close>

lemma fold_min_by_key:
  fixes f :: "'a \<Rightarrow> 'b :: linorder"
  shows "fold (\<lambda>y best. if f y < f best then y else best) xs x = r \<Longrightarrow> r \<in> insert x (set xs) \<and> (\<forall>y \<in> insert x (set xs). f r \<le> f y)"
proof (induction xs arbitrary: x)
  case Nil
  then show ?case by simp
next
  case (Cons a xs)
  then have "r \<in> insert (if f a < f x then a else x) (set xs) \<and> (\<forall>y \<in> insert (if f a < f x then a else x) (set xs). f r \<le> f y)"
    by simp
  then show ?case by (auto split: if_splits)
qed

lemma min_by_key_Some:
  assumes "min_by_key f xs = Some x"
  shows "x \<in> set xs" "y \<in> set xs \<Longrightarrow> f x \<le> f y"
proof -
  obtain a as where "xs = a # as" using assms by (cases xs) auto
  then show "x \<in> set xs" "y \<in> set xs \<Longrightarrow> f x \<le> f y" using assms fold_min_by_key [of f as a x] by auto
qed

lemma min_by_key_None [simp]: "min_by_key f xs = None \<longleftrightarrow> xs = []"
  by (cases xs) simp_all

lemma iter_okD:
  assumes "iter_ok iter" "books_ok s"
  shows "distinct (iter (lm_intents s))" "set (iter (lm_intents s)) = dom (lm_intents s)"
  using assms books_okD(1) [OF assms(2)] by (auto simp: iter_ok_def iterates_def)

lemma pending_keys_set:
  assumes "iter_ok iter" "books_ok s"
  shows "set (pending_keys iter cls s) = {k. \<exists>i. lm_intents s k = Some i \<and> in_class i = cls \<and> pending i}"
  using iter_okD [OF assms] by (auto simp: pending_keys_def split: option.splits)

subsection \<open>One round\<close>

lemma note_promoted_visit_fields [simp]:
  "lm_tokens (note_promoted_visit c s) = lm_tokens s" "lm_intents (note_promoted_visit c s) = lm_intents s"
  "lm_ordinary_scopes (note_promoted_visit c s) = lm_ordinary_scopes s"
  "lm_ordinary_scope_counts (note_promoted_visit c s) = lm_ordinary_scope_counts s"
  "lm_recovery_slot_remaining (note_promoted_visit c s) = lm_recovery_slot_remaining s"
  "lm_recovery_quantum (note_promoted_visit c s) = lm_recovery_quantum s"
  "outside (note_promoted_visit c s) = outside s"
  by (simp_all add: note_promoted_visit_def outside_def Let_def split: option.split)

lemma promotion_live_fields [simp]:
  "lm_tokens (snd (promotion_live s)) = lm_tokens s" "lm_intents (snd (promotion_live s)) = lm_intents s"
  "lm_ordinary_scopes (snd (promotion_live s)) = lm_ordinary_scopes s"
  "lm_ordinary_scope_counts (snd (promotion_live s)) = lm_ordinary_scope_counts s"
  "lm_recovery_slot_remaining (snd (promotion_live s)) = lm_recovery_slot_remaining s"
  "lm_recovery_quantum (snd (promotion_live s)) = lm_recovery_quantum s"
  "outside (snd (promotion_live s)) = outside s"
  by (simp_all add: promotion_live_def outside_def split: option.split)

lemma rotate_scopes_perm [simp]:
  "set (lm_ordinary_scopes (rotate_scopes s)) = set (lm_ordinary_scopes s) \<and> distinct (lm_ordinary_scopes (rotate_scopes s)) = distinct (lm_ordinary_scopes s)"
  by (cases "lm_ordinary_scopes s") (auto simp: rotate_scopes_def)

lemma rotate_scopes_fields [simp]:
  "lm_tokens (rotate_scopes s) = lm_tokens s" "lm_intents (rotate_scopes s) = lm_intents s"
  "lm_ordinary_scope_counts (rotate_scopes s) = lm_ordinary_scope_counts s"
  "lm_recovery_quantum (rotate_scopes s) = lm_recovery_quantum s"
  "outside (rotate_scopes s) = outside s"
  by (simp_all add: rotate_scopes_def outside_def)

text \<open>What a round does after its charge: it may turn the rotation and open the next slot.\<close>

lemma finish_charge_frame:
  assumes "1 \<le> lm_recovery_quantum s"
  shows "lm_tokens (finish_charge cls sc k s) = lm_tokens s" "lm_intents (finish_charge cls sc k s) = lm_intents s"
    "lm_ordinary_scope_counts (finish_charge cls sc k s) = lm_ordinary_scope_counts s"
    "set (lm_ordinary_scopes (finish_charge cls sc k s)) = set (lm_ordinary_scopes s)"
    "distinct (lm_ordinary_scopes (finish_charge cls sc k s)) = distinct (lm_ordinary_scopes s)"
    "1 \<le> lm_recovery_slot_remaining (finish_charge cls sc k s)" "outside (finish_charge cls sc k s) = outside s"
proof -
  define s1 where "s1 = (if cls = Ordinary then note_promoted_visit (ik_scope k) s else s)"
  define fr where "fr = (cls = Ordinary \<and> (case (sc, lm_promoted s1) of (Some scope, Some promotion) \<Rightarrow> ik_scope (pm_key promotion) = scope | _ \<Rightarrow> False))"
  define p where "p = (if fr then promotion_live s1 else (False, s1))"
  define t where "t = snd p"
  define live where "live = fst p"
  define se where "se = (case sc of None \<Rightarrow> False | Some scope \<Rightarrow> lm_ordinary_scope_counts t scope = None)"
  have t: "lm_tokens t = lm_tokens s" "lm_intents t = lm_intents s" "lm_ordinary_scope_counts t = lm_ordinary_scope_counts s"
    "lm_ordinary_scopes t = lm_ordinary_scopes s" "lm_recovery_quantum t = lm_recovery_quantum s" "outside t = outside s"
    by (simp_all add: t_def p_def s1_def)
  have p: "p = (live, t)" by (simp add: live_def t_def)
  have eq: "finish_charge cls sc k s =
      (if lm_recovery_slot_remaining t = 0
       then advance_recovery_slot (if cls = Ordinary \<and> \<not> se \<and> \<not> live then rotate_scopes t else t) else t)"
    unfolding finish_charge_def Let_def s1_def [symmetric] fr_def [symmetric] p_def [symmetric] p
    by (simp only: prod.case se_def)
  have adv: "lm_tokens (advance_recovery_slot u) = lm_tokens u \<and> lm_intents (advance_recovery_slot u) = lm_intents u \<and>
      lm_ordinary_scope_counts (advance_recovery_slot u) = lm_ordinary_scope_counts u \<and>
      lm_ordinary_scopes (advance_recovery_slot u) = lm_ordinary_scopes u \<and>
      lm_recovery_slot_remaining (advance_recovery_slot u) = lm_recovery_quantum u \<and> outside (advance_recovery_slot u) = outside u" for u
    by (simp add: advance_recovery_slot_def outside_def)
  show "lm_tokens (finish_charge cls sc k s) = lm_tokens s" "lm_intents (finish_charge cls sc k s) = lm_intents s"
    "lm_ordinary_scope_counts (finish_charge cls sc k s) = lm_ordinary_scope_counts s"
    "set (lm_ordinary_scopes (finish_charge cls sc k s)) = set (lm_ordinary_scopes s)"
    "distinct (lm_ordinary_scopes (finish_charge cls sc k s)) = distinct (lm_ordinary_scopes s)"
    "1 \<le> lm_recovery_slot_remaining (finish_charge cls sc k s)" "outside (finish_charge cls sc k s) = outside s"
    unfolding eq using adv t assms by simp_all
qed

lemma books_finish:
  assumes "finite (dom (lm_intents s))" "\<forall>k i. lm_intents s k = Some i \<longrightarrow> intent_ok i"
    "\<forall>cls. card (members (lm_intents s) cls) \<le> class_limit cls" "booked (waiting (lm_intents s)) s" "1 \<le> lm_recovery_quantum s"
  shows "books_ok (finish_charge cls sc k s)"
proof -
  note F = finish_charge_frame [OF assms(5), of cls sc k]
  have "booked (waiting (lm_intents s)) (finish_charge cls sc k s)" using assms(4) F(3,4,5) by (simp add: booked_def)
  then show ?thesis unfolding books_ok_def F(2) outsideD(7) [OF F(7)] using assms F(6) by blast
qed

lemma books_charge:
  assumes "books_ok s" "lm_intents s k = Some i" "in_class i = cls" "0 < d" "d \<le> in_bytes i - in_charged i" "d \<le> lm_tokens s"
  shows "lm_tokens (charge_intent cls k d s) = lm_tokens s - d"
    "lm_intents (charge_intent cls k d s) = (lm_intents s)(k \<mapsto> i\<lparr>in_charged := in_charged i + d\<rparr>)"
    "outside (charge_intent cls k d s) = outside s" "books_ok (finish_charge cls sc k (charge_intent cls k d s))"
proof -
  note B = books_okD [OF assms(1)]
  let ?i = "i\<lparr>in_charged := in_charged i + d\<rparr>"
  let ?m = "(lm_intents s)(k \<mapsto> ?i)"
  let ?t = "charge_intent cls k d s"
  have iok: "intent_ok i" using B(2) assms(2) by blast
  then have "in_charged i + d \<le> u64_max" using assms(5) unfolding intent_ok_def by arith
  then have sat: "u64_sat_add (in_charged i) d = in_charged i + d" by (simp add: u64_sat_add_def)
  define s1 where "s1 = s\<lparr>lm_tokens := lm_tokens s - d, lm_recovery_slot_remaining := lm_recovery_slot_remaining s - d,
      lm_charged_bytes := u64_add (lm_charged_bytes s) d, lm_intents := ?m\<rparr>"
  have t: "?t = (if cls = Ordinary \<and> d = in_bytes i - in_charged i then remove_ordinary_pending (ik_scope k) s1 else s1)"
    unfolding charge_intent_def s1_def Let_def intent_at_def assms(2) option.sel sat by (rule refl)
  show ft: "lm_tokens ?t = lm_tokens s - d" "lm_intents ?t = ?m" "outside ?t = outside s"
    unfolding t by (simp_all add: s1_def) (simp_all add: outside_def)
  have b1: "booked (waiting (lm_intents s)) s1" by (rule booked_same [OF B(4)]) (simp_all add: s1_def)
  have book: "booked (waiting ?m) ?t"
  proof (cases "cls = Ordinary \<and> d = in_bytes i - in_charged i")
    case True
    then have w: "k \<in> waiting (lm_intents s) (ik_scope k)" using assms by (simp add: waiting_def)
    moreover have "waiting ?m = (waiting (lm_intents s))(ik_scope k := waiting (lm_intents s) (ik_scope k) - {k})"
      using True assms(2,5) by (auto simp: waiting_def fun_eq_iff)
    ultimately show ?thesis unfolding t using True booked_remove [OF b1 w] by simp
  next
    case False
    then have "waiting ?m = waiting (lm_intents s)" using assms(2-5) by (intro waiting_same) auto
    then show ?thesis unfolding t using False b1 by auto
  qed
  have "finite (dom ?m)" using B(1) by simp
  moreover have "intent_ok ?i" using iok assms(4,5) by (simp add: intent_ok_def)
  then have "\<forall>k' i'. ?m k' = Some i' \<longrightarrow> intent_ok i'" using B(2) by (auto split: if_splits)
  moreover have "members ?m = members (lm_intents s)" using assms(2) by (auto simp: members_def fun_eq_iff)
  then have "\<forall>c. card (members ?m c) \<le> class_limit c" using B(3) by simp
  moreover have "1 \<le> lm_recovery_quantum ?t" using outsideD(7) [OF ft(3)] B(5) by simp
  ultimately show "books_ok (finish_charge cls sc k ?t)" using book ft(2) by (intro books_finish) simp_all
qed


text \<open>The candidates of a round. Some intent always waits where the rotation looks.\<close>

definition head_scope :: "RecoveryClass \<Rightarrow> Limiter \<Rightarrow> bytes option" where
  "head_scope cls s = (if cls = Ordinary then case lm_ordinary_scopes s of [] \<Rightarrow> None | scope # _ \<Rightarrow> Some scope else None)"

definition candidates :: "intent_order \<Rightarrow> RecoveryClass \<Rightarrow> Limiter \<Rightarrow> RecoveryIntentKey list" where
  "candidates iter cls s =
     filter (\<lambda>k. case head_scope cls s of None \<Rightarrow> True | Some scope \<Rightarrow> ik_scope k = scope) (pending_keys iter cls s)"

lemma waiting_head:
  assumes "books_ok s" "lm_ordinary_scopes s = scope # rest"
  obtains k i where "lm_intents s k = Some i" "in_class i = Ordinary" "pending i" "ik_scope k = scope"
proof -
  have "scope \<in> {c. waiting (lm_intents s) c \<noteq> {}}" using bookedD(5) [OF books_okD(4) [OF assms(1)]] assms(2) by auto
  then show thesis using that by (auto simp: waiting_def)
qed

lemma candidates_nonempty:
  assumes "iter_ok iter" "books_ok s" "charge_class iter s = Some cls"
  shows "candidates iter cls s \<noteq> []"
proof (cases cls)
  case CriticalEager
  then have "pending_keys iter CriticalEager s \<noteq> []" using assms(3) by (auto simp: charge_class_def Let_def split: if_splits)
  then show ?thesis using CriticalEager by (simp add: candidates_def head_scope_def)
next
  case Ordinary
  then have "lm_ordinary_scopes s \<noteq> []" using assms(3) by (auto simp: charge_class_def Let_def split: if_splits)
  then obtain scope rest where sc: "lm_ordinary_scopes s = scope # rest" by (cases "lm_ordinary_scopes s") auto
  obtain k i where k: "lm_intents s k = Some i" "in_class i = Ordinary" "pending i" "ik_scope k = scope"
    using waiting_head [OF assms(2) sc] .
  then have "k \<in> set (pending_keys iter Ordinary s)" unfolding pending_keys_set [OF assms(1,2)] by blast
  then have "k \<in> set (candidates iter cls s)" using Ordinary sc k(4) by (simp add: candidates_def head_scope_def)
  then show ?thesis by (metis empty_iff list.set(1))
qed

lemma charge_class_None:
  assumes "iter_ok iter" "books_ok s" "charge_class iter s = None" "lm_intents s k = Some i"
  shows "\<not> pending i"
proof
  assume p: "pending i"
  have none: "pending_keys iter CriticalEager s = []" "lm_ordinary_scopes s = []"
    using assms(3) by (auto simp: charge_class_def Let_def split: if_splits)
  show False
  proof (cases "in_class i")
    case Ordinary
    then have "k \<in> waiting (lm_intents s) (ik_scope k)" using p assms(4) by (simp add: waiting_def)
    then have "ik_scope k \<in> set (lm_ordinary_scopes s)" unfolding bookedD(5) [OF books_okD(4) [OF assms(2)]] by blast
    then show False using none by simp
  next
    case CriticalEager
    then have "k \<in> set (pending_keys iter CriticalEager s)" unfolding pending_keys_set [OF assms(1,2)] using p assms(4) by blast
    then show False using none by simp
  qed
qed

lemma charge_step_eq:
  assumes "iter_ok iter" "books_ok s" "charge_class iter s = Some cls" "0 < lm_tokens s"
  obtains k i d where "min_by_key (\<lambda>k. in_order (intent_at s k)) (candidates iter cls s) = Some k"
    "lm_intents s k = Some i" "in_class i = cls" "pending i" "0 < d" "d \<le> in_bytes i - in_charged i" "d \<le> lm_tokens s"
    "d = min (min (in_bytes i - in_charged i) (lm_tokens s)) (lm_recovery_slot_remaining s)"
    "charge_step iter s = Some (finish_charge cls (head_scope cls s) k (charge_intent cls k d s))"
proof -
  obtain k where k: "min_by_key (\<lambda>k. in_order (intent_at s k)) (candidates iter cls s) = Some k"
    using candidates_nonempty [OF assms(1-3)] min_by_key_None by blast
  then have "k \<in> set (pending_keys iter cls s)" using min_by_key_Some(1) [OF k] by (simp add: candidates_def)
  then obtain i where i: "lm_intents s k = Some i" "in_class i = cls" "pending i"
    unfolding pending_keys_set [OF assms(1,2)] by blast
  define d where "d = min (min (in_bytes i - in_charged i) (lm_tokens s)) (lm_recovery_slot_remaining s)"
  have at: "intent_at s k = i" by (simp add: intent_at_def i(1))
  have d: "0 < d" using i(3) assms(4) books_okD(6) [OF assms(2)] by (simp add: d_def)
  have "charge_step iter s = Some (finish_charge cls (head_scope cls s) k (charge_intent cls k d s))"
    using d unfolding charge_step_def assms(3) option.case Let_def head_scope_def [symmetric] candidates_def [symmetric] k
      at d_def [symmetric] by simp
  then show thesis using that [OF k i d] by (simp add: d_def)
qed

text \<open>One round, as its caller sees it.\<close>

lemma charge_step_round:
  assumes "iter_ok iter" "books_ok s" "0 < lm_tokens s" "charge_step iter s = Some s'"
  obtains k i d where "lm_intents s k = Some i" "0 < d" "d \<le> in_bytes i - in_charged i" "d \<le> lm_tokens s"
    "lm_tokens s' = lm_tokens s - d" "lm_intents s' = (lm_intents s)(k \<mapsto> i\<lparr>in_charged := in_charged i + d\<rparr>)"
    "outside s' = outside s" "books_ok s'"
proof -
  obtain cls where cls: "charge_class iter s = Some cls" using assms(4) by (cases "charge_class iter s") (simp_all add: charge_step_def)
  obtain k i d where r: "lm_intents s k = Some i" "in_class i = cls" "0 < d" "d \<le> in_bytes i - in_charged i" "d \<le> lm_tokens s"
    "charge_step iter s = Some (finish_charge cls (head_scope cls s) k (charge_intent cls k d s))"
    by (rule charge_step_eq [OF assms(1,2) cls assms(3)])
  have s': "s' = finish_charge cls (head_scope cls s) k (charge_intent cls k d s)" using r(6) assms(4) by simp
  note C = books_charge [OF assms(2) r(1-5)]
  have q: "1 \<le> lm_recovery_quantum (charge_intent cls k d s)" using outsideD(7) [OF C(3)] books_okD(5) [OF assms(2)] by simp
  note F = finish_charge_frame [OF q, of cls "head_scope cls s" k]
  show thesis
    using r(1,3,4,5) unfolding s' by (rule that [unfolded s']) (simp_all only: F C)
qed


subsection \<open>Sums over the intents\<close>

definition total :: "(Intent \<Rightarrow> nat) \<Rightarrow> (RecoveryIntentKey \<rightharpoonup> Intent) \<Rightarrow> nat" where
  "total f m = (\<Sum>k\<in>dom m. f (the (m k)))"

abbreviation escrow :: "(RecoveryIntentKey \<rightharpoonup> Intent) \<Rightarrow> nat" where
  "escrow \<equiv> total in_charged"

abbreviation unpaid :: "(RecoveryIntentKey \<rightharpoonup> Intent) \<Rightarrow> nat" where
  "unpaid \<equiv> total (\<lambda>i. in_bytes i - in_charged i)"

lemma total_empty [simp]: "total f Map.empty = 0"
  by (simp add: total_def)

lemma total_remove:
  assumes "finite (dom m)" "m k = Some i"
  shows "total f (map_remove k m) + f i = total f m"
proof -
  have "total f (map_remove k m) = (\<Sum>j\<in>dom m - {k}. f (the (m j)))" unfolding total_def by (rule sum.cong) auto
  moreover have "k \<in> dom m" using assms(2) by blast
  ultimately show ?thesis using assms sum.remove [of "dom m" k "\<lambda>j. f (the (m j))"] by (simp add: total_def)
qed

lemma total_insert:
  assumes "finite (dom m)" "m k = None"
  shows "total f (m(k \<mapsto> i)) = total f m + f i"
proof -
  have "(\<Sum>j\<in>dom m. f (the ((m(k \<mapsto> i)) j))) = total f m" unfolding total_def using assms(2) by (intro sum.cong) auto
  moreover have "k \<notin> dom m" using assms(2) by (simp add: domIff)
  ultimately show ?thesis using assms(1) unfolding total_def by simp
qed

lemma total_update:
  assumes "finite (dom m)" "m k = Some i"
  shows "total f (m(k \<mapsto> i')) + f i = total f m + f i'"
proof -
  have "m(k \<mapsto> i') = (map_remove k m)(k \<mapsto> i')" by (simp add: map_remove_def)
  then have "total f (m(k \<mapsto> i')) = total f (map_remove k m) + f i'" using assms(1) total_insert [of "map_remove k m" k f i'] by simp
  then show ?thesis using total_remove [OF assms, of f] by simp
qed

lemma total_member: "finite (dom m) \<Longrightarrow> m k = Some i \<Longrightarrow> f i \<le> total f m"
  using total_remove [of m k i f] by simp

subsection \<open>The loop\<close>

text \<open>The same intents, of which some are paid further.\<close>

definition paid_further :: "(RecoveryIntentKey \<rightharpoonup> Intent) \<Rightarrow> (RecoveryIntentKey \<rightharpoonup> Intent) \<Rightarrow> bool" where
  "paid_further m m' \<longleftrightarrow> (\<forall>k. (m k = None \<longrightarrow> m' k = None) \<and>
     (\<forall>i. m k = Some i \<longrightarrow> (\<exists>c. m' k = Some (i\<lparr>in_charged := c\<rparr>) \<and> in_charged i \<le> c \<and> c \<le> max (in_charged i) (in_bytes i))))"

lemma paid_further_refl: "paid_further m m"
proof -
  have "i = i\<lparr>in_charged := in_charged i\<rparr>" for i :: Intent by simp
  then show ?thesis unfolding paid_further_def by (metis max.cobounded1 order_refl)
qed

lemma paid_furtherD:
  assumes "paid_further m m'" "m k = Some i"
  obtains c where "m' k = Some (i\<lparr>in_charged := c\<rparr>)" "in_charged i \<le> c" "c \<le> max (in_charged i) (in_bytes i)"
proof -
  have "\<exists>c. m' k = Some (i\<lparr>in_charged := c\<rparr>) \<and> in_charged i \<le> c \<and> c \<le> max (in_charged i) (in_bytes i)"
    using assms unfolding paid_further_def by simp
  then show thesis using that by blast
qed

lemma paid_further_trans:
  assumes "paid_further a b" "paid_further b c"
  shows "paid_further a c"
  unfolding paid_further_def
proof (intro allI conjI impI)
  fix k assume "a k = None"
  then show "c k = None" using assms by (simp add: paid_further_def)
next
  fix k i assume "a k = Some i"
  then obtain x where x: "b k = Some (i\<lparr>in_charged := x\<rparr>)" "in_charged i \<le> x" "x \<le> max (in_charged i) (in_bytes i)"
    by (rule paid_furtherD [OF assms(1)])
  obtain y where "c k = Some (i\<lparr>in_charged := x\<rparr>\<lparr>in_charged := y\<rparr>)" "x \<le> y" "y \<le> max x (in_bytes i)"
    by (rule paid_furtherD [OF assms(2) x(1)]) simp
  then show "\<exists>y. c k = Some (i\<lparr>in_charged := y\<rparr>) \<and> in_charged i \<le> y \<and> y \<le> max (in_charged i) (in_bytes i)"
    using x by (intro exI [of _ y]) auto
qed

lemma paid_further_step:
  assumes "m k = Some i" "d \<le> in_bytes i - in_charged i"
  shows "paid_further m (m(k \<mapsto> i\<lparr>in_charged := in_charged i + d\<rparr>))"
  unfolding paid_further_def
proof (intro allI conjI impI)
  fix k' j assume j: "m k' = Some j"
  show "\<exists>c. (m(k \<mapsto> i\<lparr>in_charged := in_charged i + d\<rparr>)) k' = Some (j\<lparr>in_charged := c\<rparr>) \<and> in_charged j \<le> c \<and> c \<le> max (in_charged j) (in_bytes j)"
  proof (cases "k' = k")
    case True
    then show ?thesis using assms j by (intro exI [of _ "in_charged i + d"]) auto
  next
    case False
    then show ?thesis using j by (intro exI [of _ "in_charged j"]) simp
  qed
qed (use assms(1) in \<open>auto split: if_splits\<close>)

lemma charge_loop_exact:
  assumes "iter_ok iter"
  shows "books_ok s \<Longrightarrow> lm_tokens s < fuel \<Longrightarrow>
    \<exists>s'. charge_loop fuel iter s = Some s' \<and> books_ok s' \<and> outside s' = outside s \<and> paid_further (lm_intents s) (lm_intents s') \<and>
      lm_tokens s' = lm_tokens s - unpaid (lm_intents s) \<and> unpaid (lm_intents s') = unpaid (lm_intents s) - lm_tokens s \<and>
      escrow (lm_intents s') = escrow (lm_intents s) + min (lm_tokens s) (unpaid (lm_intents s))"
proof (induction fuel arbitrary: s)
  case 0
  then show ?case by simp
next
  case (Suc fuel)
  show ?case
  proof (cases "lm_tokens s = 0")
    case True
    then show ?thesis using Suc.prems(1) paid_further_refl by auto
  next
    case False
    then have pos: "0 < lm_tokens s" by simp
    show ?thesis
    proof (cases "charge_step iter s")
      case None
      then have cc: "charge_class iter s = None" using charge_step_eq [OF assms Suc.prems(1) _ pos] by (metis option.exhaust option.simps(3))
      have "in_bytes i - in_charged i = 0" if "lm_intents s k = Some i" for k i
        using charge_class_None [OF assms Suc.prems(1) cc that] by simp
      then have "unpaid (lm_intents s) = 0" unfolding total_def by (auto intro!: sum.neutral)
      then show ?thesis using None Suc.prems(1) paid_further_refl False by auto
    next
      case (Some t)
      obtain k i d where r: "lm_intents s k = Some i" "0 < d" "d \<le> in_bytes i - in_charged i" "d \<le> lm_tokens s"
        "lm_tokens t = lm_tokens s - d" "lm_intents t = (lm_intents s)(k \<mapsto> i\<lparr>in_charged := in_charged i + d\<rparr>)"
        "outside t = outside s" "books_ok t"
        by (rule charge_step_round [OF assms Suc.prems(1) pos Some])
      have fin: "finite (dom (lm_intents s))" by (rule books_okD(1) [OF Suc.prems(1)])
      have e: "escrow (lm_intents t) = escrow (lm_intents s) + d"
        using total_update [OF fin r(1), of in_charged "i\<lparr>in_charged := in_charged i + d\<rparr>"] r(6) by simp
      have u: "unpaid (lm_intents t) + d = unpaid (lm_intents s)"
        using total_update [OF fin r(1), of "\<lambda>i. in_bytes i - in_charged i" "i\<lparr>in_charged := in_charged i + d\<rparr>"] r(3,6) by simp
      have "lm_tokens t < fuel" using r(2,4,5) Suc.prems(2) by linarith
      then obtain s' where s': "charge_loop fuel iter t = Some s'" "books_ok s'" "outside s' = outside t"
        "paid_further (lm_intents t) (lm_intents s')" "lm_tokens s' = lm_tokens t - unpaid (lm_intents t)"
        "unpaid (lm_intents s') = unpaid (lm_intents t) - lm_tokens t"
        "escrow (lm_intents s') = escrow (lm_intents t) + min (lm_tokens t) (unpaid (lm_intents t))"
        using Suc.IH [OF r(8)] by blast
      have "charge_loop (Suc fuel) iter s = Some s'" using False Some s'(1) by simp
      moreover have "outside s' = outside s" using s'(3) r(7) by simp
      moreover have "paid_further (lm_intents s) (lm_intents s')"
        using paid_further_trans [OF _ s'(4)] paid_further_step [of "lm_intents s" k i d, OF r(1,3)] r(6) by simp
      moreover have "lm_tokens s' = lm_tokens s - unpaid (lm_intents s)" using s'(5) r(4,5) u by linarith
      moreover have "unpaid (lm_intents s') = unpaid (lm_intents s) - lm_tokens s" using s'(6) r(4,5) u by linarith
      moreover have "escrow (lm_intents s') = escrow (lm_intents s) + min (lm_tokens s) (unpaid (lm_intents s))"
        using s'(7) e u r(4,5) by linarith
      ultimately show ?thesis using s'(2) by blast
    qed
  qed
qed

lemma charge_exact:
  assumes "iter_ok iter" "books_ok s"
  obtains s' where "charge_ready_recovery iter s = Some s'" "books_ok s'" "outside s' = outside s"
    "paid_further (lm_intents s) (lm_intents s')" "lm_tokens s' = lm_tokens s - unpaid (lm_intents s)"
    "unpaid (lm_intents s') = unpaid (lm_intents s) - lm_tokens s"
    "escrow (lm_intents s') = escrow (lm_intents s) + min (lm_tokens s) (unpaid (lm_intents s))"
proof -
  have "lm_tokens s < charge_fuel s" by (simp add: charge_fuel_def)
  then show thesis using charge_loop_exact [OF assms] that unfolding charge_ready_recovery_def by blast
qed

end
