(* ===== verification/Egress_Admit.thy ===== *)
theory Egress_Admit
  imports Egress_Charge
begin

text \<open>
  The admission of recovery intents: an intent that is observed again, one that takes over the place of
  its family, and the displacement of an over-represented peer. All of them keep the books, none of
  them creates escrow, and a displacement never lets the two peers exchange places forever.
\<close>

subsection \<open>What admission leaves alone\<close>

definition seats :: "Limiter \<Rightarrow> (bytes \<rightharpoonup> nat \<times> nat) \<times> nat \<times> nat" where
  "seats s = (lm_waiters_by_peer s, lm_ordinary_waiters s, lm_critical_waiters s)"

definition ledger ::
  "Limiter \<Rightarrow> LeafEgressConfig option \<times> nat \<times> nat \<times> nat \<times> nat \<times> nat \<times> instant \<times> instant \<times> bool \<times> ((bytes \<rightharpoonup> nat \<times> nat) \<times> nat \<times> nat)" where
  "ledger s = (lm_config s, lm_generation s, lm_tokens s, lm_remainder s, lm_soft_tokens s, lm_soft_remainder s,
     lm_last_refill s, lm_displacement_last_refill s, lm_enabled s, seats s)"

lemma ledgerD:
  assumes "ledger s' = ledger s"
  shows "lm_config s' = lm_config s" "lm_generation s' = lm_generation s" "lm_tokens s' = lm_tokens s"
    "lm_remainder s' = lm_remainder s" "lm_soft_tokens s' = lm_soft_tokens s" "lm_soft_remainder s' = lm_soft_remainder s"
    "lm_last_refill s' = lm_last_refill s" "lm_displacement_last_refill s' = lm_displacement_last_refill s" "lm_enabled s' = lm_enabled s"
    "seats s' = seats s"
  using assms by (simp_all add: ledger_def)

definition admitted :: "Limiter \<Rightarrow> Limiter \<Rightarrow> bool" where
  "admitted s s' \<longleftrightarrow> books_ok s' \<and> ledger s' = ledger s \<and> escrow (lm_intents s') \<le> escrow (lm_intents s) \<and>
     (\<forall>cls. lm_displacement_credit s' cls \<le> lm_displacement_credit s cls)"

lemma admitted_refl: "books_ok s \<Longrightarrow> admitted s s"
  by (simp add: admitted_def)

lemma admitted_trans: "admitted a b \<Longrightarrow> admitted b c \<Longrightarrow> admitted a c"
  unfolding admitted_def by (metis order.trans)

lemma books_same:
  assumes "books_ok s" "lm_intents s' = lm_intents s" "lm_recovery_quantum s' = lm_recovery_quantum s"
    "lm_recovery_slot_remaining s' = lm_recovery_slot_remaining s"
    "lm_ordinary_scope_counts s' = lm_ordinary_scope_counts s" "lm_ordinary_scopes s' = lm_ordinary_scopes s"
  shows "books_ok s'"
  using assms by (simp add: books_ok_def booked_def)

lemma ledger_intents [simp]: "ledger (s\<lparr>lm_intents := m\<rparr>) = ledger s"
  by (simp add: ledger_def seats_def)

lemma ledger_remove [simp]: "ledger (remove_ordinary_pending scope s) = ledger s"
  using outsideD [OF outside_remove [of scope s]] by (simp add: ledger_def seats_def)

lemma ledger_forget [simp]: "ledger (forget_intent k s) = ledger s"
  using outsideD [OF outside_forget [of k s]] by (simp add: ledger_def seats_def)

lemma credit_remove [simp]: "lm_displacement_credit (remove_ordinary_pending scope s) = lm_displacement_credit s"
  by (rule outsideD(8) [OF outside_remove])

lemma credit_forget [simp]: "lm_displacement_credit (forget_intent k s) = lm_displacement_credit s"
  by (rule outsideD(8) [OF outside_forget])

lemma escrow_remove:
  assumes "finite (dom m)"
  shows "escrow (map_remove k m) \<le> escrow m"
proof (cases "m k")
  case None
  then have "map_remove k m = m" by (auto simp: map_remove_def)
  then show ?thesis by simp
next
  case (Some i)
  then show ?thesis using total_remove [OF assms Some, of in_charged] by simp
qed

lemma admitted_forget: "books_ok s \<Longrightarrow> admitted s (forget_intent k s)"
  using books_forget [of s k] escrow_remove [OF books_okD(1)] by (simp add: admitted_def)

lemma claim_eq_forget:
  assumes "lm_intents s k = Some i" "\<not> pending i"
  shows "s\<lparr>lm_intents := map_remove k (lm_intents s)\<rparr> = forget_intent k s"
  using assms by (simp add: forget_intent_def)

subsection \<open>Intents that are observed again\<close>

lemma class_count_members:
  assumes "iter_ok iter" "finite (dom (lm_intents s))"
  shows "class_count iter cls s = card (members (lm_intents s) cls)" "length (iter (lm_intents s)) = card (dom (lm_intents s))"
proof -
  have it: "distinct (iter (lm_intents s))" "set (iter (lm_intents s)) = dom (lm_intents s)"
    using assms by (auto simp: iter_ok_def iterates_def)
  have "set (filter (\<lambda>k. in_class (intent_at s k) = cls) (iter (lm_intents s))) = members (lm_intents s) cls"
    using it(2) by (auto simp: members_def intent_at_def)
  then show "class_count iter cls s = card (members (lm_intents s) cls)"
    unfolding class_count_def using it(1) by (metis distinct_card distinct_filter)
  show "length (iter (lm_intents s)) = card (dom (lm_intents s))" using it by (metis distinct_card)
qed

lemma admitted_observe:
  assumes "books_ok s" "lm_intents s k = Some i"
  shows "admitted s (s\<lparr>lm_intents := (lm_intents s)(k \<mapsto> i\<lparr>in_last_observed := now\<rparr>)\<rparr>)"
proof -
  note B = books_okD [OF assms(1)]
  let ?m = "(lm_intents s)(k \<mapsto> i\<lparr>in_last_observed := now\<rparr>)"
  have "waiting ?m = waiting (lm_intents s)" by (rule waiting_same [where i = i]) (use assms(2) in simp_all)
  then have "booked (waiting ?m) (s\<lparr>lm_intents := ?m\<rparr>)" using B(4) by (simp add: booked_def)
  moreover have "members ?m = members (lm_intents s)" using assms(2) by (auto simp: members_def fun_eq_iff)
  moreover have "intent_ok (i\<lparr>in_last_observed := now\<rparr>)" using B(2) [OF assms(2)] by (simp add: intent_ok_def)
  then have "\<forall>k' i'. ?m k' = Some i' \<longrightarrow> intent_ok i'" using B(2) by (auto split: if_splits)
  ultimately have "books_ok (s\<lparr>lm_intents := ?m\<rparr>)" using B(1,3,5,6) by (simp add: books_ok_def)
  moreover have "escrow ?m = escrow (lm_intents s)"
    using total_update [OF B(1) assms(2), of in_charged "i\<lparr>in_last_observed := now\<rparr>"] by simp
  ultimately show ?thesis by (simp add: admitted_def ledger_def seats_def)
qed

lemma admitted_raise:
  assumes "books_ok s" "lm_intents s k = Some i" "in_class i = Ordinary" "card (members (lm_intents s) CriticalEager) < CRITICAL_MAX_INTENTS"
  defines "t \<equiv> (if in_class i = Ordinary \<and> pending i then remove_ordinary_pending (ik_scope k) s else s)"
  shows "admitted s (t\<lparr>lm_intents := (lm_intents t)(k \<mapsto> i\<lparr>in_class := CriticalEager\<rparr>)\<rparr>)"
proof -
  note B = books_okD [OF assms(1)]
  let ?m = "(lm_intents s)(k \<mapsto> i\<lparr>in_class := CriticalEager\<rparr>)"
  have t: "lm_intents t = lm_intents s" "lm_recovery_quantum t = lm_recovery_quantum s" "ledger t = ledger s"
    "lm_recovery_slot_remaining t = lm_recovery_slot_remaining s" "lm_displacement_credit t = lm_displacement_credit s"
    by (simp_all add: t_def)
  have "booked (waiting ?m) t"
  proof (cases "pending i")
    case True
    then have w: "k \<in> waiting (lm_intents s) (ik_scope k)" using assms(2,3) by (simp add: waiting_def)
    have "waiting ?m = (waiting (lm_intents s))(ik_scope k := waiting (lm_intents s) (ik_scope k) - {k})"
      by (auto simp: waiting_def fun_eq_iff)
    then show ?thesis using booked_remove [OF B(4) w] True assms(3) by (simp add: t_def)
  next
    case False
    then have "waiting ?m = waiting (lm_intents s)" using assms(2) by (auto simp: waiting_def fun_eq_iff)
    then show ?thesis using B(4) False by (simp add: t_def)
  qed
  then have "booked (waiting ?m) (t\<lparr>lm_intents := ?m\<rparr>)" by (rule booked_same) simp_all
  moreover have "card (members ?m cls) \<le> class_limit cls" for cls
  proof (cases cls)
    case Ordinary
    then show ?thesis using order.trans [OF card_Diff1_le B(3) [of Ordinary]] by (simp add: members_update)
  next
    case CriticalEager
    then show ?thesis using assms(4) card_insert_le_m1 [of CRITICAL_MAX_INTENTS "members (lm_intents s) CriticalEager" k]
      by (simp add: members_update class_limit_def egress_limits)
  qed
  moreover have "intent_ok (i\<lparr>in_class := CriticalEager\<rparr>)" using B(2) [OF assms(2)] by (simp add: intent_ok_def)
  then have "\<forall>k' i'. ?m k' = Some i' \<longrightarrow> intent_ok i'" using B(2) by (auto split: if_splits)
  ultimately have "books_ok (t\<lparr>lm_intents := ?m\<rparr>)" using B(1,5,6) t by (simp add: books_ok_def)
  moreover have "escrow ?m = escrow (lm_intents s)"
    using total_update [OF B(1) assms(2), of in_charged "i\<lparr>in_class := CriticalEager\<rparr>"] by simp
  ultimately show ?thesis using t by (simp add: admitted_def ledger_def seats_def)
qed


subsection \<open>Displacement\<close>

lemma victim_member:
  assumes "iter_ok iter" "books_ok s" "fairness_victim iter cls p s = Some v"
  obtains i where "lm_intents s v = Some i" "in_class i = cls" "pending i"
    "peer_load iter cls s p + 1 < peer_load iter cls s (ik_peer v)"
    "\<forall>q. peer_load iter cls s q \<le> peer_load iter cls s (ik_peer v)"
    "\<forall>k j. lm_intents s k = Some j \<and> in_class j = cls \<and> pending j \<and> ik_peer k = ik_peer v \<longrightarrow> in_charged i \<le> in_charged j"
proof -
  let ?ks = "pending_keys iter cls s"
  let ?load = "peer_load iter cls s"
  let ?n = "Max (set (map (\<lambda>k. ?load (ik_peer k)) ?ks))"
  let ?vp = "Min (set (map ik_peer (filter (\<lambda>k. ?load (ik_peer k) = ?n) ?ks)))"
  let ?key = "\<lambda>k. (in_charged (intent_at s k), - int (in_created_at (intent_at s k)), - int (in_order (intent_at s k)))"
  have ne: "?ks \<noteq> []" and less: "?load p + 1 < ?n"
    and mk: "min_by_key ?key (filter (\<lambda>k. ik_peer k = ?vp) ?ks) = Some v"
    using assms(3) unfolding fairness_victim_def Let_def by (simp_all only: not_le option.distinct not_False_eq_True split: if_split_asm)
  have "?n \<in> set (map (\<lambda>k. ?load (ik_peer k)) ?ks)" using ne by (intro Max_in) simp_all
  then have "filter (\<lambda>k. ?load (ik_peer k) = ?n) ?ks \<noteq> []" by (auto simp: filter_empty_conv)
  then have "set (map ik_peer (filter (\<lambda>k. ?load (ik_peer k) = ?n) ?ks)) \<noteq> {}" unfolding set_map image_is_empty set_empty .
  then have "?vp \<in> set (map ik_peer (filter (\<lambda>k. ?load (ik_peer k) = ?n) ?ks))" by (intro Min_in finite_set)
  then have vp: "?load ?vp = ?n" by auto
  have v: "v \<in> set ?ks" "ik_peer v = ?vp" using min_by_key_Some(1) [OF mk] by simp_all
  obtain i where i: "lm_intents s v = Some i" "in_class i = cls" "pending i" using v(1) unfolding pending_keys_set [OF assms(1,2)] by blast
  have max: "?load q \<le> ?load (ik_peer v)" for q
  proof (cases "filter (\<lambda>k. ik_peer k = q) ?ks")
    case Nil
    then show ?thesis by (simp add: peer_load_def)
  next
    case (Cons k rest)
    then have "k \<in> set (filter (\<lambda>k. ik_peer k = q) ?ks)" by simp
    then have "?load q \<in> set (map (\<lambda>k. ?load (ik_peer k)) ?ks)" by auto
    then show ?thesis using vp v(2) by (metis List.finite_set Max_ge)
  qed
  have least: "in_charged i \<le> in_charged j" if "lm_intents s k = Some j" "in_class j = cls" "pending j" "ik_peer k = ik_peer v" for k j
  proof -
    have "k \<in> set (filter (\<lambda>k. ik_peer k = ?vp) ?ks)" using that v(2) pending_keys_set [OF assms(1,2), of cls] by auto
    then have "?key v \<le> ?key k" by (rule min_by_key_Some(2) [OF mk])
    then show ?thesis using that(1) i(1) by (auto simp: intent_at_def less_eq_prod_def)
  qed
  show thesis using that [OF i] less vp v(2) max least by metis
qed

lemma displace_cases:
  assumes "iter_ok iter" "books_ok s" "displace_intent_for_fair_admission iter cls key s = (room, s')"
  shows "admitted s s'"
    "\<not> room \<Longrightarrow> lm_intents s' = lm_intents s"
    "room \<Longrightarrow> \<exists>v. fairness_victim iter cls (ik_peer key) s = Some v \<and> lm_intents s' = map_remove v (lm_intents s) \<and>
       v \<in> members (lm_intents s) cls"
proof -
  have *: "admitted s s' \<and> (\<not> room \<longrightarrow> lm_intents s' = lm_intents s) \<and>
    (room \<longrightarrow> (\<exists>v. fairness_victim iter cls (ik_peer key) s = Some v \<and> lm_intents s' = map_remove v (lm_intents s) \<and> v \<in> members (lm_intents s) cls))"
  proof (cases "fairness_victim iter cls (ik_peer key) s")
    case None
    then have "s' = s" "\<not> room" using assms(3) by (simp_all add: displace_intent_for_fair_admission_def)
    then show ?thesis using admitted_refl [OF assms(2)] by simp
  next
    case (Some v)
    obtain i where i: "lm_intents s v = Some i" "in_class i = cls" by (rule victim_member [OF assms(1,2) Some])
    show ?thesis
    proof (cases "lm_displacement_credit s cls < DISPLACEMENT_REFILL_NANOS_PER_TOKEN")
      case True
      then have "s' = s\<lparr>lm_displacement_rate_limited := u64_add (lm_displacement_rate_limited s) 1\<rparr>" "\<not> room"
        using assms(3) Some by (simp_all add: displace_intent_for_fair_admission_def spend_displacement_token_def)
      moreover have "books_ok (s\<lparr>lm_displacement_rate_limited := u64_add (lm_displacement_rate_limited s) 1\<rparr>)"
        by (rule books_same [OF assms(2)]) simp_all
      ultimately show ?thesis by (simp add: admitted_def ledger_def seats_def)
    next
      case False
      define t where "t = s\<lparr>lm_displacement_credit := (lm_displacement_credit s)(cls := lm_displacement_credit s cls - DISPLACEMENT_REFILL_NANOS_PER_TOKEN)\<rparr>"
      have e: "s' = (forget_intent v t)\<lparr>lm_intent_displaced := u64_add (lm_intent_displaced t) 1\<rparr>" "room"
        using False assms(3) Some i(1) by (simp_all add: displace_intent_for_fair_admission_def spend_displacement_token_def t_def)
      have t: "books_ok t" "ledger t = ledger s" "lm_intents t = lm_intents s"
        by (rule books_same [OF assms(2)]) (simp_all add: t_def ledger_def seats_def)
      note F = admitted_forget [OF t(1), of v]
      have "books_ok s'" unfolding e(1) by (rule books_same [of "forget_intent v t"]) (use F in \<open>simp_all add: admitted_def\<close>)
      moreover have "ledger s' = ledger s" unfolding e(1) using ledger_forget [of v t] t(2) by (simp add: ledger_def seats_def)
      moreover have "lm_displacement_credit s' c \<le> lm_displacement_credit s c" for c unfolding e(1) by (simp add: t_def)
      ultimately have "admitted s s'" using F t(3) e(1) by (simp add: admitted_def)
      then show ?thesis using Some i e t(3) by (auto simp: members_def)
    qed
  qed
  show "admitted s s'" using * by blast
  show "\<not> room \<Longrightarrow> lm_intents s' = lm_intents s" using * by blast
  show "room \<Longrightarrow> \<exists>v. fairness_victim iter cls (ik_peer key) s = Some v \<and> lm_intents s' = map_remove v (lm_intents s) \<and> v \<in> members (lm_intents s) cls"
    using * by blast
qed

text \<open>Room for one more intent of a class, made by displacement where there is none.\<close>

lemma make_room:
  assumes "iter_ok iter" "books_ok s" "lm_intents s k = None \<or> k \<notin> members (lm_intents s) cls"
    "(if full then displace_intent_for_fair_admission iter cls k s else (True, s)) = (True, s')"
    "\<not> full \<Longrightarrow> card (members (lm_intents s) cls) < class_limit cls"
  shows "admitted s s'" "lm_intents s' k = lm_intents s k" "card (members (lm_intents s') cls) < class_limit cls"
proof -
  have "admitted s s' \<and> lm_intents s' k = lm_intents s k \<and> card (members (lm_intents s') cls) < class_limit cls"
  proof (cases full)
    case True
    then have d: "displace_intent_for_fair_admission iter cls k s = (True, s')" using assms(4) by simp
    obtain v where v: "lm_intents s' = map_remove v (lm_intents s)" "v \<in> members (lm_intents s) cls"
      using displace_cases(3) [OF assms(1,2) d] by blast
    have "card (members (lm_intents s) cls - {v}) < card (members (lm_intents s) cls)"
      using v(2) members_finite [OF books_okD(1) [OF assms(2)]] by (intro card_Diff1_less) simp_all
    then have "card (members (lm_intents s') cls) < class_limit cls" using books_okD(3) [OF assms(2), of cls] v(1) by (simp add: members_remove)
    moreover have "k \<noteq> v" using assms(3) v(2) by (auto simp: members_def)
    ultimately show ?thesis using displace_cases(1) [OF assms(1,2) d] v(1) by simp
  next
    case False
    then show ?thesis using assms(2,4,5) by (simp add: admitted_refl)
  qed
  then show "admitted s s'" "lm_intents s' k = lm_intents s k" "card (members (lm_intents s') cls) < class_limit cls" by blast+
qed

lemma admitted_overflow: "books_ok s \<Longrightarrow> admitted s (overflow s)"
  using books_same [of s "overflow s"] by (simp add: admitted_def overflow_def ledger_def seats_def)


subsection \<open>Registration\<close>

lemma raise_class_admitted:
  assumes "iter_ok iter" "books_ok s" "lm_intents s k = Some i" "in_class i = Ordinary" "raise_class iter k s = (err, s')"
  shows "admitted s s'" "err = None \<Longrightarrow> lm_intents s' k = Some (i\<lparr>in_class := CriticalEager\<rparr>)"
proof -
  let ?full = "class_count iter CriticalEager s \<ge> CRITICAL_MAX_INTENTS"
  obtain room t where r: "(if ?full then displace_intent_for_fair_admission iter CriticalEager k s else (True, s)) = (room, t)"
    by (rule prod.exhaust)
  have notin: "k \<notin> members (lm_intents s) CriticalEager" using assms(3,4) by (simp add: members_def)
  have "admitted s s' \<and> (err = None \<longrightarrow> lm_intents s' k = Some (i\<lparr>in_class := CriticalEager\<rparr>))"
  proof (cases room)
    case False
    then have d: "displace_intent_for_fair_admission iter CriticalEager k s = (False, t)" using r by (simp split: if_splits)
    have "err = Some IntentLimit" "s' = overflow t" using assms(5) r False by (auto simp: raise_class_def Let_def)
    then show ?thesis using displace_cases(1) [OF assms(1,2) d] admitted_overflow [of t] admitted_trans by (auto simp: admitted_def)
  next
    case True
    have room: "\<not> ?full \<Longrightarrow> card (members (lm_intents s) CriticalEager) < class_limit CriticalEager"
      using class_count_members(1) [OF assms(1) books_okD(1) [OF assms(2)], of CriticalEager] by (simp add: class_limit_def)
    have r': "(if ?full then displace_intent_for_fair_admission iter CriticalEager k s else (True, s)) = (True, t)" using r True by simp
    note M = make_room [OF assms(1,2) disjI2 [OF notin] r' room]
    have ki: "lm_intents t k = Some i" using M(2) assms(3) by simp
    define u where "u = (if in_class i = Ordinary \<and> pending i then remove_ordinary_pending (ik_scope k) t else t)"
    have "books_ok t" using M(1) by (simp add: admitted_def)
    then have a: "admitted t (u\<lparr>lm_intents := (lm_intents u)(k \<mapsto> i\<lparr>in_class := CriticalEager\<rparr>)\<rparr>)"
      unfolding u_def using ki assms(4) M(3) by (intro admitted_raise) (simp_all add: class_limit_def)
    have at: "intent_at t k = i" "intent_at u k = i" using ki by (simp_all add: intent_at_def u_def)
    have "(err, s') = (None, u\<lparr>lm_intents := (lm_intents u)(k \<mapsto> i\<lparr>in_class := CriticalEager\<rparr>)\<rparr>)"
      using assms(5) unfolding raise_class_def r Let_def prod.case at(1) u_def [symmetric] at(2) using True by simp
    then show ?thesis using admitted_trans [OF M(1) a] by auto
  qed
  then show "admitted s s'" "err = None \<Longrightarrow> lm_intents s' k = Some (i\<lparr>in_class := CriticalEager\<rparr>)" by blast+
qed

lemma observe_intent_admitted:
  assumes "iter_ok iter" "books_ok s" "lm_intents s k = Some i" "observe_intent iter k n now cls s = (err, s')"
  shows "admitted s s' \<and> (err = None \<longrightarrow> (\<exists>i'. lm_intents s' k = Some i' \<and> in_bytes i' = n))"
proof -
  obtain e t where et: "(if cls = CriticalEager \<and> in_class (intent_at s k) \<noteq> CriticalEager then raise_class iter k s else (None, s)) = (e, t)"
    by (rule prod.exhaust)
  have at: "intent_at s k = i" using assms(3) by (simp add: intent_at_def)
  have t: "admitted s t \<and> (e = None \<longrightarrow> (\<exists>j. lm_intents t k = Some j))"
  proof (cases "cls = CriticalEager \<and> in_class i \<noteq> CriticalEager")
    case True
    then have "in_class i = Ordinary" by (cases "in_class i") simp_all
    then show ?thesis using raise_class_admitted [OF assms(1-3), of e t] et True at by auto
  next
    case False
    then show ?thesis using et at assms(2,3) admitted_refl by auto
  qed
  show ?thesis
  proof (cases "e = None")
    case False
    then have "s' = t" "err = e" using assms(4) et by (auto simp: observe_intent_def)
    then show ?thesis using t False by auto
  next
    case True
    then obtain j where j: "lm_intents t k = Some j" using t by blast
    have bt: "books_ok t" and atj: "intent_at t k = j" using t j by (simp_all add: admitted_def intent_at_def)
    have o: "(err, s') = (if in_bytes j \<noteq> n then (Some Oversized, t) else (None, t\<lparr>lm_intents := (lm_intents t)(k \<mapsto> j\<lparr>in_last_observed := now\<rparr>)\<rparr>))"
      using assms(4) True unfolding observe_intent_def et Let_def prod.case atj by simp
    show ?thesis
    proof (cases "in_bytes j = n")
      case True
      then have "err = None" "s' = t\<lparr>lm_intents := (lm_intents t)(k \<mapsto> j\<lparr>in_last_observed := now\<rparr>)\<rparr>" using o by simp_all
      then show ?thesis using admitted_trans [OF conjunct1 [OF t] admitted_observe [OF bt j, of now]] True by simp
    next
      case False
      then show ?thesis using o t by simp
    qed
  qed
qed

lemma booked_enter:
  assumes "booked F s" "k \<notin> F (ik_scope k)" "card (F (ik_scope k)) < DEFAULT_MAX_INTENTS"
  shows "booked (F(ik_scope k := insert k (F (ik_scope k)))) (enter_rotation k n displaced s)"
proof -
  define p where "p = (if displaced \<and> lm_ordinary_scope_counts s (ik_scope k) = None then promotion_live s else (True, s))"
  have "booked F (snd p)" by (rule booked_same [OF assms(1)]) (simp_all add: p_def)
  moreover have "booked F ((snd p)\<lparr>lm_promoted := x\<rparr>)" for x by (rule booked_same [OF assms(1)]) (simp_all add: p_def)
  ultimately show ?thesis unfolding enter_rotation_def p_def [symmetric] Let_def
    using booked_add assms(2,3) by (simp add: split_beta)
qed

lemma enter_rotation_fields [simp]:
  "lm_intents (enter_rotation k n d s) = lm_intents s" "ledger (enter_rotation k n d s) = ledger s"
  "lm_displacement_credit (enter_rotation k n d s) = lm_displacement_credit s"
  "lm_recovery_quantum (enter_rotation k n d s) = lm_recovery_quantum s"
  "lm_recovery_slot_remaining (enter_rotation k n d s) = lm_recovery_slot_remaining s"
  using outsideD [OF promotion_live_fields(7) [of s]]
  by (simp_all add: enter_rotation_def add_ordinary_pending_def add_ordinary_pending_front_def ledger_def seats_def Let_def split_beta)


lemma books_insert:
  assumes "books_ok s" "lm_intents s k = None" "intent_ok i" "card (members (lm_intents s) (in_class i)) < class_limit (in_class i)"
  defines "t \<equiv> s\<lparr>lm_intents := (lm_intents s)(k \<mapsto> i)\<rparr>"
  shows "books_ok (if in_class i = Ordinary \<and> pending i then enter_rotation k n d t else t)"
proof -
  note B = books_okD [OF assms(1)]
  let ?m = "(lm_intents s)(k \<mapsto> i)"
  let ?s = "if in_class i = Ordinary \<and> pending i then enter_rotation k n d t else t"
  have bt: "booked (waiting (lm_intents s)) t" by (rule booked_same [OF B(4)]) (simp_all add: t_def)
  have w: "waiting ?m = (if in_class i = Ordinary \<and> pending i then (waiting (lm_intents s))(ik_scope k := insert k (waiting (lm_intents s) (ik_scope k))) else waiting (lm_intents s))"
    using assms(2) by (intro waiting_update) simp
  have "booked (waiting ?m) ?s"
  proof (cases "in_class i = Ordinary \<and> pending i")
    case True
    have "card (waiting (lm_intents s) (ik_scope k)) \<le> card (members (lm_intents s) Ordinary)"
      by (rule card_mono [OF members_finite [OF B(1)] waiting_members])
    then have "card (waiting (lm_intents s) (ik_scope k)) < DEFAULT_MAX_INTENTS"
      using assms(4) True by (simp add: class_limit_def egress_limits)
    moreover have "k \<notin> waiting (lm_intents s) (ik_scope k)" using assms(2) by (simp add: waiting_def)
    ultimately show ?thesis using booked_enter [OF bt] True w by simp
  next
    case False
    then show ?thesis using bt w by auto
  qed
  moreover have "card (members ?m cls) \<le> class_limit cls" for cls
  proof (cases "in_class i = cls")
    case True
    then show ?thesis using assms(4) members_finite [OF B(1)] by (simp add: members_update card_insert_if)
  next
    case False
    then show ?thesis using order.trans [OF card_Diff1_le B(3) [of cls]] by (simp add: members_update)
  qed
  moreover have "\<forall>k' i'. ?m k' = Some i' \<longrightarrow> intent_ok i'" using B(2) assms(3) by (auto split: if_splits)
  moreover have "finite (dom ?m)" using B(1) by simp
  moreover have "lm_intents ?s = ?m" "1 \<le> lm_recovery_quantum ?s" "1 \<le> lm_recovery_slot_remaining ?s"
    using B(5,6) by (simp_all add: t_def)
  ultimately show ?thesis by (simp only: books_ok_def simp_thms)
qed

text \<open>The family's earlier intent leaves its place: either it is forgotten, or the new intent takes
  over its seat in the rotation.\<close>

lemma inherit_cases:
  assumes "iter_ok iter" "books_ok s" "lm_intents s k = None"
    "inherit_family iter k n now cls s = ((ord, created, credit, preserved), t)"
  shows "lm_intents t k = None \<and> credit \<le> n \<and>
    (\<not> preserved \<and> admitted s t \<and> escrow (lm_intents t) + credit \<le> escrow (lm_intents s) \<or>
     preserved \<and> cls = Ordinary \<and> credit < n \<and> (\<exists>prev i. lm_intents s prev = Some i \<and> in_class i = Ordinary \<and> pending i \<and>
       ik_scope prev = ik_scope k \<and> credit \<le> in_charged i \<and> t = s\<lparr>lm_intents := map_remove prev (lm_intents s)\<rparr>))"
proof (cases "find (\<lambda>j. ik_family j = ik_family k) (iter (lm_intents s))")
  case None
  then have e: "credit = 0" "\<not> preserved" "t = s\<lparr>lm_next_order := u64_sat_add (lm_next_order s) 1\<rparr>"
    using assms(4) by (auto simp: inherit_family_def)
  have "books_ok t" unfolding e(3) by (rule books_same [OF assms(2)]) simp_all
  then show ?thesis using e assms(3) by (simp add: admitted_def ledger_def seats_def)
next
  case (Some prev)
  then have "prev \<in> set (iter (lm_intents s))" by (auto simp: find_Some_iff)
  then obtain i where i: "lm_intents s prev = Some i" using iter_okD(2) [OF assms(1,2)] by blast
  define u where "u = s\<lparr>lm_intents := map_remove prev (lm_intents s)\<rparr>"
  define pres where "pres \<longleftrightarrow> in_class i = Ordinary \<and> cls = Ordinary \<and> ik_scope prev = ik_scope k \<and> pending i \<and> min (in_charged i) n < n"
  have "inherit_family iter k n now cls s = ((in_order i, in_created_at i, min (in_charged i) n, pres),
      if in_class i = Ordinary \<and> pending i \<and> \<not> pres then remove_ordinary_pending (ik_scope prev) u else u)"
    unfolding inherit_family_def Some option.case Let_def intent_at_def i option.sel u_def pres_def by (rule refl)
  then have e: "credit = min (in_charged i) n" "preserved = pres"
    "t = (if in_class i = Ordinary \<and> pending i \<and> \<not> pres then remove_ordinary_pending (ik_scope prev) u else u)"
    using assms(4) by simp_all
  have tk: "lm_intents t k = None" using assms(3) by (simp add: e(3) u_def)
  show ?thesis
  proof (cases pres)
    case True
    then have "t = u" "preserved" "credit < n" "credit \<le> in_charged i" using e pres_def by auto
    then show ?thesis using tk True i unfolding u_def pres_def by auto
  next
    case False
    then have "t = forget_intent prev s" using i by (auto simp: e(3) u_def forget_intent_def)
    moreover have "escrow (map_remove prev (lm_intents s)) + in_charged i = escrow (lm_intents s)"
      by (rule total_remove [OF books_okD(1) [OF assms(2)] i])
    ultimately show ?thesis using tk False e(1,2) admitted_forget [OF assms(2), of prev] by simp
  qed
qed

text \<open>The seat of a waiting intent passes to another key of its scope.\<close>

lemma books_take_over:
  assumes "books_ok s" "lm_intents s prev = Some j" "in_class j = Ordinary" "pending j" "lm_intents s k = None"
    "ik_scope prev = ik_scope k" "in_class i = Ordinary" "pending i" "intent_ok i"
  shows "books_ok (s\<lparr>lm_intents := (map_remove prev (lm_intents s))(k \<mapsto> i)\<rparr>)"
proof -
  note B = books_okD [OF assms(1)]
  let ?m = "(map_remove prev (lm_intents s))(k \<mapsto> i)"
  have ne: "k \<noteq> prev" using assms(2,5) by auto
  have w: "prev \<in> waiting (lm_intents s) (ik_scope k)" "k \<notin> waiting (lm_intents s) (ik_scope k)"
    using assms(2-6) by (simp_all add: waiting_def)
  have "waiting ?m = (waiting (lm_intents s))(ik_scope k := insert k (waiting (lm_intents s) (ik_scope k) - {prev}))"
    using assms(2-8) by (auto simp: waiting_def fun_eq_iff)
  then have "booked (waiting ?m) (s\<lparr>lm_intents := ?m\<rparr>)" using booked_same [OF booked_swap [OF B(4) w]] by simp
  moreover have "card (members ?m cls) \<le> class_limit cls" for cls
  proof (cases cls)
    case Ordinary
    have "prev \<in> members (lm_intents s) Ordinary" "k \<notin> members (lm_intents s) Ordinary" using assms(2,3,5) by (simp_all add: members_def)
    then have "card (insert k (members (lm_intents s) Ordinary - {prev})) = card (members (lm_intents s) Ordinary)"
      using members_finite [OF B(1)] by (simp add: card_Suc_Diff1 del: card_Diff_insert)
    then show ?thesis using B(3) [of Ordinary] Ordinary assms(7) by (simp add: members_update members_remove)
  next
    case CriticalEager
    have "card (members (lm_intents s) CriticalEager - {prev} - {k}) \<le> card (members (lm_intents s) CriticalEager)"
      by (meson card_Diff1_le order.trans)
    then show ?thesis using B(3) [of CriticalEager] CriticalEager assms(7) by (simp add: members_update members_remove)
  qed
  moreover have "\<forall>k' i'. ?m k' = Some i' \<longrightarrow> intent_ok i'" using B(2) assms(9) by (auto split: if_splits)
  ultimately show ?thesis using B(1,5,6) by (simp add: books_ok_def)
qed


lemma removal_makes_room:
  assumes "iter_ok iter" "books_ok s" "lm_intents s prev = Some j" "in_class j = cls"
    "t = s\<lparr>lm_intents := map_remove prev (lm_intents s)\<rparr>"
  shows "class_count iter cls t < class_limit cls" "length (iter (lm_intents t)) < DEFAULT_MAX_INTENTS"
proof -
  note B = books_okD [OF assms(2)]
  have fin: "finite (dom (lm_intents t))" using B(1) assms(5) by simp
  have "card (members (lm_intents s) cls - {prev}) < card (members (lm_intents s) cls)"
    using assms(3,4) members_finite [OF B(1)] by (intro card_Diff1_less) (simp_all add: members_def)
  then show "class_count iter cls t < class_limit cls"
    using class_count_members(1) [OF assms(1) fin, of cls] B(3) [of cls] assms(5) by (simp add: members_remove)
  have "card (dom (lm_intents s) - {prev}) < card (dom (lm_intents s))" using assms(3) B(1) by (intro card_Diff1_less) auto
  then show "length (iter (lm_intents t)) < DEFAULT_MAX_INTENTS"
    using class_count_members(2) [OF assms(1) fin] books_total [OF assms(2)] assms(5) by simp
qed

lemma register_intent_admitted:
  assumes "iter_ok iter" "books_ok s" "lm_intents s k = None" "n \<le> u64_max" "register_intent iter k n now cls s = (err, s')"
  shows "admitted s s' \<and> (err = None \<longrightarrow> (\<exists>i. lm_intents s' k = Some i \<and> in_bytes i = n))"
proof -
  obtain ord created credit preserved t where inh: "inherit_family iter k n now cls s = ((ord, created, credit, preserved), t)"
    by (metis surj_pair)
  note I = inherit_cases [OF assms(1-3) inh]
  let ?i = "\<lparr>in_bytes = n, in_last_observed = now, in_created_at = created, in_order = ord, in_charged = credit, in_class = cls\<rparr>"
  define full where "full \<longleftrightarrow> length (iter (lm_intents t)) \<ge> DEFAULT_MAX_INTENTS \<or> class_count iter cls t \<ge> class_limit cls"
  obtain room u where r: "(if full then displace_intent_for_fair_admission iter cls k t else (True, t)) = (room, u)" by (rule prod.exhaust)
  define v where "v = u\<lparr>lm_intents := (lm_intents u)(k \<mapsto> ?i)\<rparr>"
  define w where "w = (if cls = Ordinary \<and> credit < n \<and> \<not> preserved then enter_rotation k n full v else v)"
  have reg: "register_intent iter k n now cls s =
      (if \<not> room then (Some IntentLimit, overflow u) else (None, w\<lparr>lm_demanded_bytes := u64_add (lm_demanded_bytes w) n\<rparr>))"
    unfolding register_intent_def inh Let_def prod.case full_def [symmetric] r v_def [symmetric] w_def [symmetric] by (rule refl)
  have wi: "lm_intents w = (lm_intents u)(k \<mapsto> ?i)" "ledger w = ledger u" "lm_displacement_credit w = lm_displacement_credit u"
    by (simp_all add: w_def v_def)
  have iok: "intent_ok ?i" using I assms(4) by (simp add: intent_ok_def)
  have not_full: "\<not> full" if preserved
    using I that removal_makes_room [OF assms(1,2)] unfolding full_def by (metis leD)
  have main: "admitted s w" if room
  proof (cases preserved)
    case False
    then have t: "admitted s t" "escrow (lm_intents t) + credit \<le> escrow (lm_intents s)" "books_ok t" using I by (auto simp: admitted_def)
    have "\<not> full \<Longrightarrow> card (members (lm_intents t) cls) < class_limit cls"
      using class_count_members(1) [OF assms(1) books_okD(1) [OF t(3)], of cls] by (simp add: full_def)
    then have M: "admitted t u" "lm_intents u k = lm_intents t k" "card (members (lm_intents u) cls) < class_limit cls"
      using make_room [OF assms(1) t(3), of k cls full u] I r that by simp_all
    then have u: "books_ok u" "lm_intents u k = None" using I by (simp_all add: admitted_def)
    have "w = (if in_class ?i = Ordinary \<and> pending ?i then enter_rotation k n full v else v)" using False by (simp add: w_def)
    then have "books_ok w" unfolding v_def using books_insert [OF u iok, of n full] M(3) by simp
    moreover have "escrow (lm_intents w) = escrow (lm_intents u) + credit"
      using total_insert [OF books_okD(1) [OF u(1)] u(2), of in_charged ?i] wi(1) by simp
    then have "escrow (lm_intents w) \<le> escrow (lm_intents s)" using t(2) M(1) unfolding admitted_def by linarith
    moreover have "\<forall>c. lm_displacement_credit u c \<le> lm_displacement_credit s c" "ledger u = ledger s"
      using admitted_trans [OF t(1) M(1)] by (simp_all add: admitted_def)
    ultimately show ?thesis using wi by (simp add: admitted_def)
  next
    case True
    then obtain prev j where p: "lm_intents s prev = Some j" "in_class j = Ordinary" "pending j" "ik_scope prev = ik_scope k"
      "credit \<le> in_charged j" "t = s\<lparr>lm_intents := map_remove prev (lm_intents s)\<rparr>" "cls = Ordinary" "credit < n" using I by auto
    have "u = t" using not_full [OF True] r by simp
    then have w: "w = s\<lparr>lm_intents := (map_remove prev (lm_intents s))(k \<mapsto> ?i)\<rparr>" using True p(6) by (simp add: w_def v_def)
    have "books_ok w" unfolding w using p iok assms(3) by (intro books_take_over [OF assms(2) p(1)]) simp_all
    moreover have "escrow (lm_intents w) = escrow (map_remove prev (lm_intents s)) + credit"
      using total_insert [of "map_remove prev (lm_intents s)" k in_charged ?i] books_okD(1) [OF assms(2)] assms(3) w by simp
    then have "escrow (lm_intents w) \<le> escrow (lm_intents s)"
      using total_remove [OF books_okD(1) [OF assms(2)] p(1), of in_charged] p(5) by simp
    ultimately show ?thesis using w by (simp add: admitted_def ledger_def seats_def)
  qed
  show ?thesis
  proof (cases room)
    case True
    then have e: "err = None" "s' = w\<lparr>lm_demanded_bytes := u64_add (lm_demanded_bytes w) n\<rparr>" using reg assms(5) by simp_all
    have "books_ok s'" unfolding e(2) by (rule books_same [of w]) (use main [OF True] in \<open>simp_all add: admitted_def\<close>)
    then show ?thesis using main [OF True] e wi(1) by (simp add: admitted_def ledger_def seats_def)
  next
    case False
    then have e: "err = Some IntentLimit" "s' = overflow u" and d: "displace_intent_for_fair_admission iter cls k t = (False, u)" full
      using reg assms(5) r by (auto split: if_splits)
    have t: "admitted s t" using I not_full d(2) by blast
    have "admitted t u" using displace_cases(1) [OF assms(1) _ d(1)] t by (simp add: admitted_def)
    then have "admitted s u" "books_ok u" using admitted_trans [OF t] by (simp_all add: admitted_def)
    then show ?thesis using e admitted_trans admitted_overflow by blast
  qed
qed

end
