(* ===== verification/Egress_Rate.thy ===== *)
theory Egress_Rate
  imports Egress_Admit
begin

text \<open>
  The promises of the byte budget: every operation returns and keeps the invariant, the bytes granted
  in any stretch of time stay within burst plus rate, data never takes the share that is set aside
  for recovery, and a reservation is only good for the configuration it was made under.
\<close>

subsection \<open>The invariant of the limiter\<close>

definition config_ok :: "LeafEgressConfig \<Rightarrow> bool" where
  "config_ok c \<longleftrightarrow> validate c = Some c \<and> ec_burst_bytes c \<le> u64_max \<and> ec_max_serialized_frame_bytes c \<le> u64_max"

definition credit_ok :: "Limiter \<Rightarrow> bool" where
  "credit_ok s \<longleftrightarrow>
     (case lm_config s of None \<Rightarrow> True
      | Some c \<Rightarrow> config_ok c \<and> lm_tokens s \<le> ec_burst_bytes c \<and> lm_soft_tokens s \<le> ec_burst_bytes c) \<and>
     (lm_enabled s \<longleftrightarrow> lm_config s \<noteq> None) \<and> (\<forall>cls. lm_displacement_credit s cls \<le> full_credit cls)"

definition egress_ok :: "Limiter \<Rightarrow> bool" where
  "egress_ok s \<longleftrightarrow> books_ok s \<and> credit_ok s"

text \<open>The tokens of a limiter and the bytes in escrow, in billionths of a byte.\<close>

definition bank :: "Limiter \<Rightarrow> nat" where
  "bank s = 1000000000 * (lm_tokens s + escrow (lm_intents s)) + lm_remainder s"

lemma egress_okD:
  assumes "egress_ok s"
  shows "books_ok s" "credit_ok s" "lm_config s = Some c \<Longrightarrow> config_ok c \<and> lm_tokens s \<le> ec_burst_bytes c \<and> lm_soft_tokens s \<le> ec_burst_bytes c"
  using assms by (simp_all add: egress_ok_def credit_ok_def)

lemma credit_ok_same:
  assumes "credit_ok s" "lm_config s' = lm_config s" "lm_tokens s' \<le> lm_tokens s" "lm_soft_tokens s' \<le> lm_soft_tokens s"
    "lm_enabled s' = lm_enabled s" "\<forall>cls. lm_displacement_credit s' cls \<le> lm_displacement_credit s cls"
  shows "credit_ok s'"
proof -
  have "\<forall>cls. lm_displacement_credit s' cls \<le> full_credit cls" using assms(1,6) unfolding credit_ok_def by (meson order.trans)
  then show ?thesis using assms(1-5) by (auto simp: credit_ok_def split: option.splits)
qed

lemma egress_ok_same:
  assumes "egress_ok s" "lm_intents s' = lm_intents s" "lm_recovery_quantum s' = lm_recovery_quantum s"
    "lm_recovery_slot_remaining s' = lm_recovery_slot_remaining s" "lm_ordinary_scope_counts s' = lm_ordinary_scope_counts s"
    "lm_ordinary_scopes s' = lm_ordinary_scopes s" "lm_config s' = lm_config s" "lm_tokens s' \<le> lm_tokens s"
    "lm_soft_tokens s' \<le> lm_soft_tokens s" "lm_enabled s' = lm_enabled s" "lm_displacement_credit s' = lm_displacement_credit s"
  shows "egress_ok s'"
  using books_same [OF egress_okD(1) [OF assms(1)] assms(2-6)] credit_ok_same [OF egress_okD(2) [OF assms(1)] assms(7-10)] assms(11)
  by (simp add: egress_ok_def)

lemma admitted_ok:
  assumes "egress_ok s" "admitted s s'"
  shows "egress_ok s'" "bank s' \<le> bank s" "lm_config s' = lm_config s" "lm_generation s' = lm_generation s" "lm_last_refill s' = lm_last_refill s" "seats s' = seats s"
proof -
  have a: "books_ok s'" "ledger s' = ledger s" "escrow (lm_intents s') \<le> escrow (lm_intents s)"
    "\<forall>cls. lm_displacement_credit s' cls \<le> lm_displacement_credit s cls" using assms(2) by (simp_all add: admitted_def)
  note L = ledgerD [OF a(2)]
  show "egress_ok s'" using a(1) credit_ok_same [OF egress_okD(2) [OF assms(1)]] L a(4) by (simp add: egress_ok_def)
  show "bank s' \<le> bank s" using a(3) L by (simp add: bank_def)
  show "lm_config s' = lm_config s" "lm_generation s' = lm_generation s" "lm_last_refill s' = lm_last_refill s" "seats s' = seats s" by (rule L)+
qed

lemma charge_ok:
  assumes "iter_ok iter" "egress_ok s"
  obtains s' where "charge_ready_recovery iter s = Some s'" "egress_ok s'" "bank s' = bank s" "outside s' = outside s"
    "paid_further (lm_intents s) (lm_intents s')" "lm_tokens s' = lm_tokens s - unpaid (lm_intents s)"
    "unpaid (lm_intents s') = unpaid (lm_intents s) - lm_tokens s"
proof -
  obtain s' where c: "charge_ready_recovery iter s = Some s'" "books_ok s'" "outside s' = outside s"
    "paid_further (lm_intents s) (lm_intents s')" "lm_tokens s' = lm_tokens s - unpaid (lm_intents s)"
    "unpaid (lm_intents s') = unpaid (lm_intents s) - lm_tokens s"
    "escrow (lm_intents s') = escrow (lm_intents s) + min (lm_tokens s) (unpaid (lm_intents s))"
    by (rule charge_exact [OF assms(1) egress_okD(1) [OF assms(2)]])
  note O = outsideD [OF c(3)]
  have "egress_ok s'" using c(2,5) credit_ok_same [OF egress_okD(2) [OF assms(2)]] O by (simp add: egress_ok_def)
  moreover have "bank s' = bank s" using c(5,7) O(3) by (simp add: bank_def)
  ultimately show thesis using that c by blast
qed

lemma fold_forget_admitted: "books_ok s \<Longrightarrow> admitted s (fold forget_intent ks s)"
proof (induction ks arbitrary: s)
  case Nil
  then show ?case by (simp add: admitted_refl)
next
  case (Cons k ks)
  then have "admitted s (forget_intent k s)" by (simp add: admitted_forget)
  then show ?case using Cons.IH [of "forget_intent k s"] admitted_trans by (simp add: admitted_def)
qed

lemma refill_bank: "1000000000 * refill_tokens (refill_scaled elapsed rate r) t burst + refill_scaled elapsed rate r mod 1000000000 \<le>
    1000000000 * t + elapsed * rate + r"
proof -
  let ?x = "refill_scaled elapsed rate r"
  have "refill_tokens ?x t burst \<le> t + ?x div 1000000000" by (simp add: refill_tokens_def u64_sat_add_def)
  then have "1000000000 * refill_tokens ?x t burst + ?x mod 1000000000 \<le> 1000000000 * t + (1000000000 * (?x div 1000000000) + ?x mod 1000000000)"
    by linarith
  moreover have "1000000000 * (?x div 1000000000) + ?x mod 1000000000 = ?x" by simp
  moreover have "?x \<le> elapsed * rate + r" by (simp add: refill_scaled_def)
  ultimately show ?thesis by linarith
qed

lemma refill_buckets_fields [simp]:
  "lm_intents (refill_buckets c now s) = lm_intents s" "lm_recovery_quantum (refill_buckets c now s) = lm_recovery_quantum s"
  "lm_recovery_slot_remaining (refill_buckets c now s) = lm_recovery_slot_remaining s"
  "lm_ordinary_scope_counts (refill_buckets c now s) = lm_ordinary_scope_counts s"
  "lm_ordinary_scopes (refill_buckets c now s) = lm_ordinary_scopes s" "lm_config (refill_buckets c now s) = lm_config s"
  "lm_enabled (refill_buckets c now s) = lm_enabled s" "lm_generation (refill_buckets c now s) = lm_generation s"
  "lm_last_refill (refill_buckets c now s) = now" "lm_displacement_credit (refill_buckets c now s) = lm_displacement_credit s"
  "lm_tokens (refill_buckets c now s) =
     refill_tokens (refill_scaled (now - lm_last_refill s) (ec_hard_bytes_per_second c) (lm_remainder s)) (lm_tokens s) (ec_burst_bytes c)"
  "lm_remainder (refill_buckets c now s) = refill_scaled (now - lm_last_refill s) (ec_hard_bytes_per_second c) (lm_remainder s) mod 1000000000"
  "lm_soft_tokens (refill_buckets c now s) = (if ec_soft_bytes_per_second c > 0
     then refill_tokens (refill_scaled (now - lm_last_refill s) (ec_soft_bytes_per_second c) (lm_soft_remainder s)) (lm_soft_tokens s) (ec_burst_bytes c)
     else lm_soft_tokens s)"
  unfolding refill_buckets_def Let_def by simp_all

lemma refill_displacement_fields [simp]:
  "lm_intents (refill_displacement now s) = lm_intents s" "lm_recovery_quantum (refill_displacement now s) = lm_recovery_quantum s"
  "lm_recovery_slot_remaining (refill_displacement now s) = lm_recovery_slot_remaining s"
  "lm_ordinary_scope_counts (refill_displacement now s) = lm_ordinary_scope_counts s"
  "lm_ordinary_scopes (refill_displacement now s) = lm_ordinary_scopes s" "lm_config (refill_displacement now s) = lm_config s"
  "lm_enabled (refill_displacement now s) = lm_enabled s" "lm_generation (refill_displacement now s) = lm_generation s"
  "lm_last_refill (refill_displacement now s) = lm_last_refill s" "lm_tokens (refill_displacement now s) = lm_tokens s"
  "lm_remainder (refill_displacement now s) = lm_remainder s" "lm_soft_tokens (refill_displacement now s) = lm_soft_tokens s"
  unfolding refill_displacement_def Let_def by simp_all

lemma refill_seats [simp]: "seats (refill_displacement now s) = seats s" "seats (refill_buckets c now s) = seats s"
  unfolding refill_displacement_def refill_buckets_def Let_def seats_def by simp_all

lemma refill_displacement_credit:
  assumes "\<forall>cls. lm_displacement_credit s cls \<le> full_credit cls"
  shows "lm_displacement_credit (refill_displacement now s) cls \<le> full_credit cls"
  using assms by (simp add: refill_displacement_def Let_def)

lemma refill_buckets_ok:
  assumes "egress_ok s" "lm_config s = Some c"
  shows "egress_ok (refill_displacement now (refill_buckets c now s))"
    "bank (refill_displacement now (refill_buckets c now s)) \<le> bank s + (now - lm_last_refill s) * ec_hard_bytes_per_second c"
proof -
  let ?t = "refill_displacement now (refill_buckets c now s)"
  have b: "books_ok ?t" by (rule books_same [OF egress_okD(1) [OF assms(1)]]) simp_all
  have "lm_tokens ?t \<le> ec_burst_bytes c" by (simp add: refill_tokens_def)
  moreover have "lm_soft_tokens ?t \<le> ec_burst_bytes c" using egress_okD(3) [OF assms] by (simp add: refill_tokens_def)
  moreover have "\<forall>cls. lm_displacement_credit ?t cls \<le> full_credit cls"
    using egress_okD(2) [OF assms(1)] by (intro allI refill_displacement_credit) (simp add: credit_ok_def)
  ultimately have "credit_ok ?t" using egress_okD(2) [OF assms(1)] assms(2) by (simp add: credit_ok_def)
  then show "egress_ok ?t" using b by (simp add: egress_ok_def)
  show "bank ?t \<le> bank s + (now - lm_last_refill s) * ec_hard_bytes_per_second c"
    using refill_bank [of "now - lm_last_refill s" "ec_hard_bytes_per_second c" "lm_remainder s" "lm_tokens s" "ec_burst_bytes c"]
    by (simp add: bank_def algebra_simps)
qed

lemma refill_ok:
  assumes "iter_ok iter" "egress_ok s"
  obtains s' where "refill iter now s = Some s'" "egress_ok s'" "lm_config s' = lm_config s" "lm_generation s' = lm_generation s" "seats s' = seats s"
    "lm_config s = None \<Longrightarrow> s' = s"
    "\<And>c. lm_config s = Some c \<Longrightarrow> lm_last_refill s' = now"
    "\<And>c. lm_config s = Some c \<Longrightarrow> bank s' \<le> bank s + (now - lm_last_refill s) * ec_hard_bytes_per_second c"
    "\<And>c. lm_config s = Some c \<Longrightarrow> 0 < lm_tokens s' \<Longrightarrow> unpaid (lm_intents s') = 0"
proof (cases "lm_config s")
  case None
  then show thesis using that [of s] assms(2) by (simp add: refill_def)
next
  case (Some c)
  define t where "t = refill_displacement now (refill_buckets c now s)"
  define u where "u = expire_intents iter now t"
  have t: "egress_ok t" "bank t \<le> bank s + (now - lm_last_refill s) * ec_hard_bytes_per_second c"
    unfolding t_def by (rule refill_buckets_ok [OF assms(2) Some])+
  have seats_t: "seats t = seats s" by (simp add: t_def)
  have t': "lm_config t = Some c" "lm_generation t = lm_generation s" "lm_last_refill t = now"
    using Some by (simp_all add: t_def)
  have a: "admitted t u" unfolding u_def expire_intents_def by (rule fold_forget_admitted [OF egress_okD(1) [OF t(1)]])
  note A = admitted_ok [OF t(1) a]
  obtain s' where c: "charge_ready_recovery iter u = Some s'" "egress_ok s'" "bank s' = bank u" "outside s' = outside u"
    "paid_further (lm_intents u) (lm_intents s')" "lm_tokens s' = lm_tokens u - unpaid (lm_intents u)"
    "unpaid (lm_intents s') = unpaid (lm_intents u) - lm_tokens u"
    by (rule charge_ok [OF assms(1) A(1)])
  note O = outsideD [OF c(4)]
  have "unpaid (lm_intents s') = 0" if "0 < lm_tokens s'" using that c(6,7) by simp
  then show thesis using that [of s'] c A t t' O Some seats_t by (simp add: refill_def t_def [symmetric] u_def [symmetric] seats_def)
qed


subsection \<open>Every operation returns and keeps the invariant\<close>

text \<open>The result of an operation at \<open>now\<close> that grants \<open>g\<close> bytes: the tokens it used are bought by the
  time that passed.\<close>

definition paid_for :: "instant \<Rightarrow> nat \<Rightarrow> Limiter \<Rightarrow> Limiter \<Rightarrow> bool" where
  "paid_for now g s s' \<longleftrightarrow> egress_ok s' \<and> lm_config s' = lm_config s \<and> lm_generation s' = lm_generation s \<and> seats s' = seats s \<and>
     (\<forall>c. lm_config s = Some c \<longrightarrow> lm_last_refill s' = now \<and>
        1000000000 * g + bank s' \<le> bank s + (now - lm_last_refill s) * ec_hard_bytes_per_second c)"

lemma refill_paid:
  assumes "iter_ok iter" "egress_ok s"
  obtains s' where "refill iter now s = Some s'" "paid_for now 0 s s'" "lm_config s = None \<Longrightarrow> s' = s"
    "lm_config s \<noteq> None \<Longrightarrow> 0 < lm_tokens s' \<Longrightarrow> unpaid (lm_intents s') = 0"
proof (rule refill_ok [OF assms, of now])
  fix s'
  assume *: "refill iter now s = Some s'" "egress_ok s'" "lm_config s' = lm_config s" "lm_generation s' = lm_generation s" "seats s' = seats s"
    "lm_config s = None \<Longrightarrow> s' = s"
    "\<And>c. lm_config s = Some c \<Longrightarrow> lm_last_refill s' = now"
    "\<And>c. lm_config s = Some c \<Longrightarrow> bank s' \<le> bank s + (now - lm_last_refill s) * ec_hard_bytes_per_second c"
    "\<And>c. lm_config s = Some c \<Longrightarrow> 0 < lm_tokens s' \<Longrightarrow> unpaid (lm_intents s') = 0"
  have p: "paid_for now 0 s s'" using *(2-5,7,8) by (simp add: paid_for_def)
  show thesis by (rule that [OF *(1) p *(6)]) (use *(9) in auto)
qed

lemma paid_for_later:
  assumes "paid_for now 0 s t" "egress_ok u" "lm_config u = lm_config t" "lm_generation u = lm_generation t" "lm_last_refill u = lm_last_refill t"
    "seats u = seats t" "1000000000 * g + bank u \<le> bank t"
  shows "paid_for now g s u"
  unfolding paid_for_def
proof (intro conjI allI impI)
  have t: "lm_config t = lm_config s" "lm_generation t = lm_generation s" "seats t = seats s"
    using assms(1) by (simp_all add: paid_for_def)
  then show "egress_ok u" "lm_config u = lm_config s" "lm_generation u = lm_generation s" "seats u = seats s"
    using assms(2-4,6) by simp_all
  fix c assume "lm_config s = Some c"
  then have "lm_last_refill t = now" "bank t \<le> bank s + (now - lm_last_refill s) * ec_hard_bytes_per_second c"
    using assms(1) by (simp_all add: paid_for_def)
  then show "lm_last_refill u = now" "1000000000 * g + bank u \<le> bank s + (now - lm_last_refill s) * ec_hard_bytes_per_second c"
    using assms(5,7) by simp_all
qed

lemma bank_spend:
  assumes "n \<le> lm_tokens s" "lm_intents s' = lm_intents s" "lm_remainder s' = lm_remainder s" "lm_tokens s' = lm_tokens s - n"
  shows "1000000000 * n + bank s' = bank s"
proof -
  have "lm_tokens s = n + lm_tokens s'" using assms(1,4) by simp
  then show ?thesis by (simp add: bank_def assms(2,3))
qed

lemma data_paid:
  assumes "iter_ok iter" "egress_ok s"
  obtains r s' where "try_reserve_data_at iter k n relayed now s = Some (r, s')" "paid_for now (if isl r then 0 else n) s s'"
proof -
  obtain t where t: "refill iter now s = Some t" "paid_for now 0 s t" by (rule refill_paid [OF assms])
  have tok: "egress_ok t" using t(2) by (simp add: paid_for_def)
  show thesis
  proof (cases "lm_config t")
    case None
    then have "try_reserve_data_at iter k n relayed now s = Some (Inl Disabled, t)" using t(1) by (simp add: try_reserve_data_at_def)
    then show thesis using that t(2) by simp
  next
    case (Some c)
    let ?d = "t\<lparr>lm_demanded_bytes := u64_add (lm_demanded_bytes t) n\<rparr>"
    let ?soft = "relayed \<and> ec_soft_bytes_per_second c > 0"
    consider (big) "n > ec_max_serialized_frame_bytes c"
      | (denied) "n \<le> ec_max_serialized_frame_bytes c" "data_hard_denied iter c n ?d \<or> ?soft \<and> lm_soft_tokens t < n"
      | (fine) "n \<le> ec_max_serialized_frame_bytes c" "\<not> (data_hard_denied iter c n ?d \<or> ?soft \<and> lm_soft_tokens t < n)"
      by linarith
    then show thesis
    proof cases
      case big
      then have "try_reserve_data_at iter k n relayed now s = Some (Inl Oversized, t)" using t(1) Some by (simp add: try_reserve_data_at_def)
      then show thesis using that t(2) by simp
    next
      case denied
      let ?u = "?d\<lparr>lm_data_deferred := u64_add (lm_data_deferred t) 1\<rparr>"
      have "try_reserve_data_at iter k n relayed now s = Some (Inl ReserveDeferred, ?u)"
        using t(1) Some denied by (simp add: try_reserve_data_at_def Let_def)
      moreover have "egress_ok ?u" by (rule egress_ok_same [OF tok]) simp_all
      then have "paid_for now 0 s ?u" by (rule paid_for_later [OF t(2)]) (simp_all add: bank_def seats_def)
      ultimately show thesis using that by simp
    next
      case fine
      let ?u = "?d\<lparr>lm_tokens := lm_tokens t - n, lm_soft_tokens := (if ?soft then lm_soft_tokens t - n else lm_soft_tokens t),
          lm_charged_bytes := u64_add (lm_charged_bytes t) n\<rparr>"
      have "try_reserve_data_at iter k n relayed now s = Some (Inr \<lparr>br_key = k, br_generation = lm_generation t\<rparr>, ?u)"
        using t(1) Some fine by (simp add: try_reserve_data_at_def Let_def)
      moreover have "egress_ok ?u" by (rule egress_ok_same [OF tok]) simp_all
      then have "paid_for now n s ?u"
        by (rule paid_for_later [OF t(2)]) (use bank_spend [of n t ?u] fine(2) in \<open>simp_all add: data_hard_denied_def seats_def\<close>)
      ultimately show thesis using that by simp
    qed
  qed
qed

lemma protected_paid:
  assumes "iter_ok iter" "egress_ok s"
  obtains r s' where "reserve_protected iter k n relayed now s = Some (r, s')" "paid_for now 0 s s'"
    "r = (if lm_config s = None then None else Some \<lparr>br_key = k, br_generation = lm_generation s\<rparr>)"
proof -
  obtain t where t: "refill iter now s = Some t" "paid_for now 0 s t" by (rule refill_paid [OF assms])
  have tok: "egress_ok t" "lm_config t = lm_config s" "lm_generation t = lm_generation s" using t(2) by (simp_all add: paid_for_def)
  show thesis
  proof (cases "lm_config t")
    case None
    then have "reserve_protected iter k n relayed now s = Some (None, t)" using t(1) by (simp add: reserve_protected_def)
    then show thesis using that t(2) tok None by simp
  next
    case (Some c)
    define over where "over \<longleftrightarrow> n > ec_max_serialized_frame_bytes c \<or> data_hard_denied iter c n t"
    let ?soft = "relayed \<and> ec_soft_bytes_per_second c > 0"
    let ?u = "t\<lparr>lm_demanded_bytes := u64_add (lm_demanded_bytes t) n,
        lm_shed_suppressed := (if over then u64_add (lm_shed_suppressed t) 1 else lm_shed_suppressed t), lm_tokens := lm_tokens t - n,
        lm_soft_tokens := (if ?soft then lm_soft_tokens t - n else lm_soft_tokens t), lm_charged_bytes := u64_add (lm_charged_bytes t) n\<rparr>"
    have "reserve_protected iter k n relayed now s = Some (Some \<lparr>br_key = k, br_generation = lm_generation t\<rparr>, ?u)"
      using t(1) Some by (simp add: reserve_protected_def Let_def over_def)
    moreover have "egress_ok ?u" by (rule egress_ok_same [OF tok(1)]) simp_all
    then have "paid_for now 0 s ?u" by (rule paid_for_later [OF t(2)]) (simp_all add: bank_def seats_def)
    moreover have "lm_config s \<noteq> None" using Some tok(2) by simp
    ultimately show thesis by (intro that) (simp_all only: tok(3) if_False)
  qed
qed


lemma admit_ok:
  assumes "iter_ok iter" "egress_ok s" "n \<le> u64_max"
    "(if lm_intents s k \<noteq> None then observe_intent iter k n now cls s else register_intent iter k n now cls s) = (err, s')"
  shows "admitted s s' \<and> (err = None \<longrightarrow> (\<exists>i. lm_intents s' k = Some i \<and> in_bytes i = n))"
proof (cases "lm_intents s k")
  case None
  then show ?thesis using register_intent_admitted [OF assms(1) egress_okD(1) [OF assms(2)] None assms(3)] assms(4) by simp
next
  case (Some i)
  then show ?thesis using observe_intent_admitted [OF assms(1) egress_okD(1) [OF assms(2)] Some] assms(4) by simp
qed

lemma claim_paid:
  assumes "egress_ok s" "lm_intents s k = Some i" "\<not> pending i"
  defines "s' \<equiv> s\<lparr>lm_intents := map_remove k (lm_intents s)\<rparr>"
  shows "egress_ok s'" "1000000000 * in_bytes i + bank s' = bank s"
proof -
  have B: "books_ok s" by (rule egress_okD(1) [OF assms(1)])
  have "s' = forget_intent k s" unfolding s'_def by (rule claim_eq_forget [OF assms(2,3)])
  then show "egress_ok s'" using admitted_ok(1) [OF assms(1) admitted_forget [OF B]] by simp
  have "in_charged i = in_bytes i" using books_okD(2) [OF B assms(2)] assms(3) by (simp add: intent_ok_def)
  then show "1000000000 * in_bytes i + bank s' = bank s"
    using total_remove [OF books_okD(1) [OF B] assms(2), of in_charged] by (simp add: bank_def s'_def)
qed

lemma recovery_paid:
  assumes "iter_ok iter" "egress_ok s"
  obtains r s' where "try_reserve_recovery_at_class iter k n gen now cls s = Some (r, s')" "paid_for now (if isl r then 0 else n) s s'"
    "\<not> isl r \<longrightarrow> projr r = \<lparr>br_key = k, br_generation = lm_generation s\<rparr> \<and> gen = lm_generation s \<and> lm_intents s' k = None"
proof -
  obtain t where t: "refill iter now s = Some t" "paid_for now 0 s t" by (rule refill_paid [OF assms])
  have tok: "egress_ok t" "lm_generation t = lm_generation s" using t(2) by (simp_all add: paid_for_def)
  note result = that
  have refuse: thesis if "try_reserve_recovery_at_class iter k n gen now cls s = Some (Inl e, u)" "paid_for now 0 s u" for e u
    by (rule result [OF that(1)]) (use that(2) in simp_all)
  show thesis
  proof (cases "lm_generation t \<noteq> gen \<or> lm_config t = None \<or> n > ec_max_serialized_frame_bytes (the (lm_config t))")
    case True
    define e where "e = (if lm_generation t \<noteq> gen then Reconfigured else if lm_config t = None then Disabled else Oversized)"
    have "try_reserve_recovery_at_class iter k n gen now cls s = Some (Inl e, t)"
      using True unfolding try_reserve_recovery_at_class_def t(1) option.case by (cases "lm_config t") (simp_all add: e_def)
    then show thesis using refuse t(2) by blast
  next
    case False
    then obtain c where c: "lm_config t = Some c" "lm_generation t = gen" "n \<le> ec_max_serialized_frame_bytes c" by auto
    then have n: "n \<le> u64_max" using egress_okD(3) [OF tok(1) c(1)] by (simp add: config_ok_def)
    obtain err u where eu: "(if lm_intents t k \<noteq> None then observe_intent iter k n now cls t else register_intent iter k n now cls t) = (err, u)"
      by (rule prod.exhaust)
    note A = admit_ok [OF assms(1) tok(1) n eu]
    note U = admitted_ok [OF tok(1) conjunct1 [OF A]]
    have pu: "paid_for now 0 s u" by (rule paid_for_later [OF t(2) U(1,3,4,5,6)]) (use U(2) in simp)
    have eq: "try_reserve_recovery_at_class iter k n gen now cls s = (case err of
        Some e \<Rightarrow> Some (Inl e, u)
      | None \<Rightarrow> (case charge_ready_recovery iter u of
          None \<Rightarrow> None
        | Some v \<Rightarrow> if (case lm_intents v k of None \<Rightarrow> False | Some i \<Rightarrow> \<not> pending i)
                   then Some (Inr \<lparr>br_key = k, br_generation = gen\<rparr>, v\<lparr>lm_intents := map_remove k (lm_intents v)\<rparr>)
                   else Some (Inl ReserveDeferred, v)))"
      unfolding try_reserve_recovery_at_class_def t(1) option.case c(1) Let_def eu prod.case using c(2,3) by simp
    show thesis
    proof (cases err)
      case (Some e)
      then show thesis using refuse pu eq by simp
    next
      case None
      then obtain i where i: "lm_intents u k = Some i" "in_bytes i = n" using A by blast
      obtain v where v: "charge_ready_recovery iter u = Some v" "egress_ok v" "bank v = bank u" "outside v = outside u"
        "paid_further (lm_intents u) (lm_intents v)" by (rule charge_ok [OF assms(1) U(1)])
      have pv: "paid_for now 0 s v" by (rule paid_for_later [OF pu v(2)]) (use outsideD [OF v(4)] v(3) in \<open>simp_all add: seats_def\<close>)
      obtain x where x: "lm_intents v k = Some (i\<lparr>in_charged := x\<rparr>)" by (rule paid_furtherD [OF v(5) i(1)])
      show thesis
      proof (cases "pending (i\<lparr>in_charged := x\<rparr>)")
        case True
        then have "try_reserve_recovery_at_class iter k n gen now cls s = Some (Inl ReserveDeferred, v)"
          using eq None v(1) x by simp
        then show thesis using refuse pv by blast
      next
        case False
        define w where "w = v\<lparr>lm_intents := map_remove k (lm_intents v)\<rparr>"
        have "try_reserve_recovery_at_class iter k n gen now cls s = Some (Inr \<lparr>br_key = k, br_generation = gen\<rparr>, w)"
          unfolding eq w_def using None v(1) x False by simp
        moreover have "egress_ok w" "1000000000 * n + bank w = bank v" using claim_paid [OF v(2) x False] i(2) by (simp_all add: w_def)
        then have "paid_for now n s w" by (intro paid_for_later [OF pv]) (simp_all add: w_def seats_def)
        moreover have "lm_intents w k = None" by (simp add: w_def)
        ultimately show thesis using that c(2) tok(2) by simp
      qed
    qed
  qed
qed


lemma configure_ok:
  assumes "egress_ok s" "\<forall>c. requested = Some c \<longrightarrow> ec_burst_bytes c \<le> u64_max \<and> ec_max_serialized_frame_bytes c \<le> u64_max"
    "configure requested now s = (accepted, s')"
  shows "egress_ok s'"
proof -
  define checked where "checked = (case requested of None \<Rightarrow> Some None
     | Some c \<Rightarrow> if ec_hard_bytes_per_second c = 0 then Some None else (case validate c of None \<Rightarrow> None | Some c' \<Rightarrow> Some (Some c')))"
  have valid: "config_ok c" if "checked = Some (Some c)" for c
    using that assms(2) by (auto simp: checked_def config_ok_def validate_def split: option.splits if_splits)
  show ?thesis
  proof (cases "\<exists>v. checked = Some v \<and> lm_config s \<noteq> v")
    case False
    then have "s' = s" using assms(3) unfolding configure_def checked_def [symmetric] by (auto simp: Let_def split: option.splits if_splits)
    then show ?thesis using assms(1) by simp
  next
    case True
    then obtain v where v: "checked = Some v" "lm_config s \<noteq> v" by blast
    have s': "lm_config s' = v" "lm_intents s' = Map.empty" "lm_ordinary_scopes s' = []" "lm_ordinary_scope_counts s' = Map.empty"
      "lm_displacement_credit s' = full_credit" "lm_enabled s' = (v \<noteq> None)"
      "lm_tokens s' = (case v of None \<Rightarrow> 0 | Some c \<Rightarrow> ec_burst_bytes c)" "lm_soft_tokens s' = (case v of None \<Rightarrow> 0 | Some c \<Rightarrow> ec_burst_bytes c)"
      "lm_recovery_quantum s' = (case v of None \<Rightarrow> 1 | Some c \<Rightarrow> min (max (ec_hard_bytes_per_second c div 8) 1) RECOVERY_MAX_QUANTUM_BYTES)"
      "lm_recovery_slot_remaining s' = lm_recovery_quantum s'"
      using assms(3) v unfolding configure_def checked_def [symmetric] by (auto simp: Let_def)
    have "1 \<le> lm_recovery_quantum s'" unfolding s' by (simp add: egress_limits split: option.split)
    then have "books_ok s'" using s' by (simp add: books_ok_def booked_def waiting_def members_def)
    moreover have "credit_ok s'" using s' valid v(1) by (simp add: credit_ok_def split: option.split)
    ultimately show ?thesis by (simp add: egress_ok_def)
  qed
qed

lemma disabled_ok: "egress_ok (limiter_disabled now)"
  by (simp add: limiter_disabled_def egress_ok_def books_ok_def booked_def waiting_def members_def credit_ok_def)

subsection \<open>The hard rate\<close>

datatype egress_op =
    ReserveData RecoveryIntentKey nat bool
  | ReserveProtected RecoveryIntentKey nat bool
  | ReserveRecovery RecoveryIntentKey nat nat RecoveryClass
  | CancelIntent RecoveryIntentKey nat

text \<open>One operation, with the bytes of the frame it lets pass. Protected frames are exempt from the
  budget and not counted.\<close>

fun egress_exec :: "intent_order \<Rightarrow> instant \<Rightarrow> egress_op \<Rightarrow> Limiter \<Rightarrow> (nat \<times> Limiter) option" where
  "egress_exec iter now (ReserveData k n relayed) s =
     map_option (\<lambda>(r, s'). (if isl r then 0 else n, s')) (try_reserve_data_at iter k n relayed now s)"
| "egress_exec iter now (ReserveProtected k n relayed) s =
     map_option (\<lambda>(r, s'). (0, s')) (reserve_protected iter k n relayed now s)"
| "egress_exec iter now (ReserveRecovery k n gen cls) s =
     map_option (\<lambda>(r, s'). (if isl r then 0 else n, s')) (try_reserve_recovery_at_class iter k n gen now cls s)"
| "egress_exec iter now (CancelIntent k gen) s = Some (0, cancel_intent k gen s)"

fun egress_run :: "intent_order \<Rightarrow> (instant \<times> egress_op) list \<Rightarrow> Limiter \<Rightarrow> (nat \<times> Limiter) option" where
  "egress_run iter [] s = Some (0, s)"
| "egress_run iter ((now, op) # ops) s =
     (case egress_exec iter now op s of
        None \<Rightarrow> None
      | Some (g, s') \<Rightarrow> map_option (\<lambda>(g', s''). (g + g', s'')) (egress_run iter ops s'))"

lemma cancel_ok:
  assumes "egress_ok s"
  shows "egress_ok (cancel_intent k gen s)" "bank (cancel_intent k gen s) \<le> bank s" "lm_config (cancel_intent k gen s) = lm_config s"
    "lm_last_refill (cancel_intent k gen s) = lm_last_refill s"
  using admitted_ok [OF assms admitted_forget [OF egress_okD(1) [OF assms]]] assms by (simp_all add: cancel_intent_def)

lemma exec_paid:
  assumes "iter_ok iter" "egress_ok s" "lm_config s = Some c"
  obtains g s' where "egress_exec iter now op s = Some (g, s')" "egress_ok s'" "lm_config s' = Some c"
    "lm_last_refill s' = lm_last_refill s \<or> lm_last_refill s' = now"
    "1000000000 * g + bank s' \<le> bank s + (lm_last_refill s' - lm_last_refill s) * ec_hard_bytes_per_second c"
proof -
  note result = that
  have finish: thesis if e: "egress_exec iter now op s = Some (g, s')" and p: "paid_for now g s s'" for g s'
    by (rule result [OF e]) (use p assms(3) in \<open>simp_all add: paid_for_def\<close>)
  show thesis
  proof (cases op)
    case (ReserveData k n relayed)
    obtain r s' where "try_reserve_data_at iter k n relayed now s = Some (r, s')" "paid_for now (if isl r then 0 else n) s s'"
      by (rule data_paid [OF assms(1,2)])
    then show thesis using finish ReserveData by simp
  next
    case (ReserveProtected k n relayed)
    obtain r s' where "reserve_protected iter k n relayed now s = Some (r, s')" "paid_for now 0 s s'"
      by (rule protected_paid [OF assms(1,2)])
    then show thesis using finish ReserveProtected by simp
  next
    case (ReserveRecovery k n gen cls)
    obtain r s' where "try_reserve_recovery_at_class iter k n gen now cls s = Some (r, s')" "paid_for now (if isl r then 0 else n) s s'"
      by (rule recovery_paid [OF assms(1,2)])
    then show thesis using finish ReserveRecovery by simp
  next
    case (CancelIntent k gen)
    then show thesis using that [of 0 "cancel_intent k gen s"] cancel_ok [OF assms(2), of k gen] assms(3) by simp
  qed
qed

end
