(* ===== verification/Egress_Promises.thy ===== *)
theory Egress_Promises
  imports Egress_Rate
begin

text \<open>
  What the senders of a leaf node may rely on: the properties of the byte budget, over every order of
  the hash map of intents.
\<close>

subsection \<open>An order of the intents\<close>

definition key_tuple :: "RecoveryIntentKey \<Rightarrow> bytes \<times> bytes \<times> bytes \<times> bytes" where
  "key_tuple k = (ik_peer k, ik_scope k, ik_family k, ik_operation k)"

definition tuple_key :: "bytes \<times> bytes \<times> bytes \<times> bytes \<Rightarrow> RecoveryIntentKey" where
  "tuple_key t = (case t of (p, c, f, n) \<Rightarrow> \<lparr>ik_peer = p, ik_scope = c, ik_family = f, ik_operation = n\<rparr>)"

definition sorted_intents :: intent_order where
  "sorted_intents m = map tuple_key (sorted_list_of_set (key_tuple ` dom m))"

lemma tuple_key_inv [simp]: "tuple_key (key_tuple k) = k" "key_tuple (tuple_key t) = t"
  by (simp_all add: key_tuple_def tuple_key_def split: prod.split)

lemma sorted_intents_ok: "iter_ok sorted_intents"
proof -
  have "inj tuple_key" by (rule inj_on_inverseI [where g = key_tuple]) simp
  then show ?thesis
    by (simp add: iter_ok_def iterates_def sorted_intents_def distinct_map inj_on_subset image_image)
qed

subsection \<open>Charging\<close>

text \<open>the loop that charges waiting recovery intents always ends. It takes from the bucket exactly
  what the intents still need, or all there is; what it takes is what the escrow gains, no intent is
  paid beyond its frame or loses bytes, and nothing else of the limiter changes.\<close>

theorem charging_conserves_work:
  assumes "iter_ok iter" "books_ok s"
  shows "\<exists>s'. charge_ready_recovery iter s = Some s' \<and> books_ok s' \<and> outside s' = outside s \<and>
    paid_further (lm_intents s) (lm_intents s') \<and> lm_tokens s' = lm_tokens s - unpaid (lm_intents s) \<and>
    unpaid (lm_intents s') = unpaid (lm_intents s) - lm_tokens s \<and>
    lm_tokens s' + escrow (lm_intents s') = lm_tokens s + escrow (lm_intents s)"
proof (rule charge_exact [OF assms])
  fix s'
  assume "charge_ready_recovery iter s = Some s'" "books_ok s'" "outside s' = outside s" "paid_further (lm_intents s) (lm_intents s')"
    "lm_tokens s' = lm_tokens s - unpaid (lm_intents s)" "unpaid (lm_intents s') = unpaid (lm_intents s) - lm_tokens s"
    "escrow (lm_intents s') = escrow (lm_intents s) + min (lm_tokens s) (unpaid (lm_intents s))"
  then show ?thesis by (intro exI [of _ s']) simp
qed

definition demo_key :: RecoveryIntentKey where
  "demo_key = \<lparr>ik_peer = [1], ik_scope = [2], ik_family = [3], ik_operation = [4]\<rparr>"

definition demo_limiter :: Limiter where
  "demo_limiter = (limiter_disabled 0)\<lparr>lm_tokens := 50, lm_intents := Map.empty(demo_key \<mapsto>
     \<lparr>in_bytes = 80, in_last_observed = 0, in_created_at = 0, in_order = 0, in_charged = 10, in_class = CriticalEager\<rparr>)\<rparr>"

lemma demo_limiter_books: "books_ok demo_limiter"
proof -
  have "{k. k = demo_key \<and> CriticalEager = cls} = (if cls = CriticalEager then {demo_key} else {})" for cls by auto
  then show ?thesis
    by (simp add: books_ok_def booked_def waiting_def members_def demo_limiter_def limiter_disabled_def intent_ok_def u64_max_eq
        class_limit_def egress_limits split: RecoveryClass.split)
qed

theorem charging_conserves_work_witness:
  "\<exists>s'. charge_ready_recovery sorted_intents demo_limiter = Some s' \<and> lm_tokens s' = 0 \<and> unpaid (lm_intents s') = 20"
  using charging_conserves_work [OF sorted_intents_ok demo_limiter_books]
  by (auto simp: demo_limiter_def limiter_disabled_def total_def)

subsection \<open>The hard rate\<close>

text \<open>How far the instants of the calls moved forward, one after the other. The callers read the clock before
  they take the lock, so an instant may lie before the one of the previous call; the limiter then sets its
  refill mark back, and the way forward is counted again. On instants that never go back it is the time that passed.\<close>

fun forward_time :: "instant \<Rightarrow> instant list \<Rightarrow> duration" where
  "forward_time t [] = 0"
| "forward_time t (x # xs) = (x - t) + forward_time x xs"

lemma forward_time_triangle: "forward_time t xs \<le> (x - t) + forward_time x xs"
  by (cases xs) simp_all

lemma forward_time_sorted: "sorted (t # ts) \<Longrightarrow> forward_time t ts = last (t # ts) - t"
proof (induction ts arbitrary: t)
  case (Cons x xs)
  then have "forward_time x xs = last (x # xs) - x" "t \<le> x" by simp_all
  moreover have "x \<le> last (x # xs)" using Cons.prems by (metis last_ConsL last_ConsR last_in_set order_refl sorted_simps(2))
  ultimately show ?case by auto
qed simp


definition demo_config :: LeafEgressConfig where
  "demo_config = \<lparr>ec_soft_bytes_per_second = 0, ec_hard_bytes_per_second = 1000, ec_burst_bytes = 4000, ec_max_serialized_frame_bytes = 2000, ec_policy = ShedNormal\<rparr>"

definition demo_enabled :: Limiter where
  "demo_enabled = snd (configure (Some demo_config) 0 (limiter_disabled 0))"

lemma demo_enabled_ok: "egress_ok demo_enabled"
proof -
  have "configure (Some demo_config) 0 (limiter_disabled 0) = (fst (configure (Some demo_config) 0 (limiter_disabled 0)), demo_enabled)"
    by (simp add: demo_enabled_def)
  then show ?thesis by (rule configure_ok [OF disabled_ok, rotated]) (simp add: demo_config_def u64_max_eq)
qed

lemma demo_enabled_eq:
  "lm_config demo_enabled = Some demo_config" "lm_last_refill demo_enabled = 0" "lm_tokens demo_enabled = 4000" "bank demo_enabled = 4000000000000"
  "lm_generation demo_enabled = 1" "lm_enabled demo_enabled" "lm_intents demo_enabled = Map.empty" "lm_waiters_by_peer demo_enabled = Map.empty"
  by (simp_all add: demo_enabled_def configure_def limiter_disabled_def validate_def demo_config_def bank_def u64_add_def Let_def)



subsection \<open>Data and recovery\<close>

definition data_floor :: "LeafEgressConfig \<Rightarrow> nat" where
  "data_floor c = min (ec_burst_bytes c * 25) u64_max div 100"

lemma unpaid_zero:
  assumes "finite (dom m)" "unpaid m = 0" "m k = Some i"
  shows "\<not> pending i"
  using total_member [OF assms(1,3), of "\<lambda>i. in_bytes i - in_charged i"] assms(2) by simp

lemma reserve_floor:
  assumes "iter_ok iter" "books_ok s"
  shows "data_floor c \<le> recovery_reserve iter c s"
    "unpaid (lm_intents s) = 0 \<Longrightarrow> recovery_reserve iter c s = data_floor c"
proof -
  show "data_floor c \<le> recovery_reserve iter c s" by (simp add: recovery_reserve_def data_floor_def Let_def egress_limits)
  assume u: "unpaid (lm_intents s) = 0"
  have "\<not> pending (intent_at s k)" if "k \<in> set (iter (lm_intents s))" for k
    using that iter_okD(2) [OF assms] unpaid_zero [OF books_okD(1) [OF assms(2)] u] by (auto simp: intent_at_def)
  then have "filter (\<lambda>k. pending (intent_at s k)) (iter (lm_intents s)) = []" by (simp add: filter_empty_conv)
  then show "recovery_reserve iter c s = data_floor c"
    unfolding recovery_reserve_def Let_def by (simp add: data_floor_def egress_limits)
qed

text \<open>the decision on a data frame. The refill first pays the recovery intents; the frame passes if
  and only if it is not too large, it leaves a quarter of the burst in the bucket, and, when it is
  relayed, the soft bucket has its bytes. In particular no data frame passes while a recovery intent
  is still unpaid.\<close>

theorem data_decision_exact:
  assumes "iter_ok iter" "egress_ok s" "lm_config s = Some c" "0 < n"
  shows "\<exists>t r s'. refill iter now s = Some t \<and> try_reserve_data_at iter k n relayed now s = Some (r, s') \<and>
    (\<not> isl r \<longleftrightarrow> n \<le> ec_max_serialized_frame_bytes c \<and> n + data_floor c \<le> lm_tokens t \<and>
       \<not> (relayed \<and> ec_soft_bytes_per_second c > 0 \<and> lm_soft_tokens t < n)) \<and>
    (\<not> isl r \<longrightarrow> unpaid (lm_intents s') = 0 \<and> lm_tokens s' = lm_tokens t - n \<and> r = Inr \<lparr>br_key = k, br_generation = lm_generation s\<rparr>)"
proof -
  obtain t where t: "refill iter now s = Some t" "paid_for now 0 s t"
    "lm_config s \<noteq> None \<longrightarrow> 0 < lm_tokens t \<longrightarrow> unpaid (lm_intents t) = 0"
    by (rule refill_paid [OF assms(1,2), of now]) simp
  let ?t = "t\<lparr>lm_demanded_bytes := u64_add (lm_demanded_bytes t) n\<rparr>"
  have ct: "lm_config t = Some c" "lm_generation t = lm_generation s" "books_ok ?t"
    using t(2) assms(3) books_same [of t ?t] by (simp_all add: paid_for_def egress_ok_def)
  have denied: "data_hard_denied iter c n ?t \<longleftrightarrow> \<not> n + data_floor c \<le> lm_tokens t"
  proof (cases "lm_tokens t = 0")
    case True
    then show ?thesis using assms(4) by (simp add: data_hard_denied_def)
  next
    case False
    then have "recovery_reserve iter c ?t = data_floor c" using t(3) assms(3) by (intro reserve_floor(2) [OF assms(1) ct(3)]) simp
    then show ?thesis using assms(4) by (auto simp: data_hard_denied_def)
  qed
  have unpaid: "n + data_floor c \<le> lm_tokens t \<Longrightarrow> unpaid (lm_intents t) = 0" using t(3) assms(3,4) by simp
  show ?thesis
    using denied unpaid unfolding try_reserve_data_at_def t(1) option.map ct(1) option.case Let_def
    by (auto simp: ct(2))
qed

theorem data_decision_exact_witness:
  "\<exists>r s'. try_reserve_data_at sorted_intents demo_key 700 False 5 demo_enabled = Some (r, s')"
  using data_decision_exact [OF sorted_intents_ok demo_enabled_ok demo_enabled_eq(1), of 700 5 demo_key False] by auto


subsection \<open>Displacement\<close>

lemma peer_load_remove:
  assumes "iter_ok iter" "books_ok s" "books_ok s'" "lm_intents s' = map_remove v (lm_intents s)" "lm_intents s v = Some i" "in_class i = cls" "pending i"
  shows "peer_load iter cls s' p = (if p = ik_peer v then peer_load iter cls s p - 1 else peer_load iter cls s p)"
proof -
  have load: "peer_load iter cls u p = card {k. ik_peer k = p \<and> (\<exists>i. lm_intents u k = Some i \<and> in_class i = cls \<and> pending i)}"
    if "books_ok u" for u
  proof -
    have "distinct (pending_keys iter cls u)" using iter_okD(1) [OF assms(1) that] by (simp add: pending_keys_def)
    then have "peer_load iter cls u p = card (set (filter (\<lambda>k. ik_peer k = p) (pending_keys iter cls u)))"
      by (metis distinct_card distinct_filter peer_load_def)
    also have "set (filter (\<lambda>k. ik_peer k = p) (pending_keys iter cls u)) = {k. ik_peer k = p \<and> (\<exists>i. lm_intents u k = Some i \<and> in_class i = cls \<and> pending i)}"
      using pending_keys_set [OF assms(1) that, of cls] by auto
    finally show ?thesis .
  qed
  let ?K = "\<lambda>m. {k. ik_peer k = p \<and> (\<exists>i. m k = Some i \<and> in_class i = cls \<and> pending i)}"
  have eq: "?K (lm_intents s') = ?K (lm_intents s) - {v}" using assms(4) by auto
  show ?thesis
  proof (cases "p = ik_peer v")
    case True
    then have "v \<in> ?K (lm_intents s)" using assms(5-7) by simp
    then show ?thesis unfolding load [OF assms(2)] load [OF assms(3)] eq using True by simp
  next
    case False
    then have "?K (lm_intents s) - {v} = ?K (lm_intents s)" by auto
    then show ?thesis unfolding load [OF assms(2)] load [OF assms(3)] eq using False by simp
  qed
qed

text \<open>a displacement serves fairness and cannot be undone at once. The intent that goes belongs to a
  peer with the largest load of the class, is the least paid of that peer's, and costs one token of
  the class; and when the newcomer is in, its peer still has no more intents than the peer that gave
  way, so that peer finds nobody to displace in return.\<close>

theorem displacement_is_fair:
  assumes "iter_ok iter" "books_ok s" "displace_intent_for_fair_admission iter cls key s = (True, s')"
  shows "\<exists>v i. lm_intents s v = Some i \<and> in_class i = cls \<and> pending i \<and> lm_intents s' = map_remove v (lm_intents s) \<and>
    (\<forall>q. peer_load iter cls s q \<le> peer_load iter cls s (ik_peer v)) \<and>
    (\<forall>k j. lm_intents s k = Some j \<and> in_class j = cls \<and> pending j \<and> ik_peer k = ik_peer v \<longrightarrow> in_charged i \<le> in_charged j) \<and>
    lm_displacement_credit s cls = lm_displacement_credit s' cls + DISPLACEMENT_REFILL_NANOS_PER_TOKEN \<and>
    peer_load iter cls s' (ik_peer key) + 1 \<le> peer_load iter cls s' (ik_peer v)"
proof -
  obtain v where v: "fairness_victim iter cls (ik_peer key) s = Some v" "lm_intents s' = map_remove v (lm_intents s)"
    using displace_cases(3) [OF assms] by auto
  obtain i where i: "lm_intents s v = Some i" "in_class i = cls" "pending i"
    "peer_load iter cls s (ik_peer key) + 1 < peer_load iter cls s (ik_peer v)"
    "\<forall>q. peer_load iter cls s q \<le> peer_load iter cls s (ik_peer v)"
    "\<forall>k j. lm_intents s k = Some j \<and> in_class j = cls \<and> pending j \<and> ik_peer k = ik_peer v \<longrightarrow> in_charged i \<le> in_charged j"
    by (rule victim_member [OF assms(1,2) v(1)])
  have b: "books_ok s'" using displace_cases(1) [OF assms] by (simp add: admitted_def)
  have "lm_displacement_credit s cls = lm_displacement_credit s' cls + DISPLACEMENT_REFILL_NANOS_PER_TOKEN"
    using assms(3) v(1) i(1)
    by (auto simp: displace_intent_for_fair_admission_def spend_displacement_token_def split: if_splits)
  moreover have "peer_load iter cls s' (ik_peer key) + 1 \<le> peer_load iter cls s' (ik_peer v)"
    unfolding peer_load_remove [OF assms(1,2) b v(2) i(1-3)] using i(4) by auto
  ultimately show ?thesis using v(2) i by blast
qed


definition crowded :: Limiter where
  "crowded = demo_enabled\<lparr>lm_intents := [demo_key \<mapsto>
       \<lparr>in_bytes = 80, in_last_observed = 0, in_created_at = 0, in_order = 0, in_charged = 10, in_class = CriticalEager\<rparr>,
     demo_key\<lparr>ik_operation := [5]\<rparr> \<mapsto>
       \<lparr>in_bytes = 90, in_last_observed = 0, in_created_at = 0, in_order = 1, in_charged = 20, in_class = CriticalEager\<rparr>]\<rparr>"

lemma demo_keys_differ: "demo_key\<lparr>ik_operation := [5]\<rparr> \<noteq> demo_key"
  by (simp add: demo_key_def)

lemma crowded_members: "members (lm_intents crowded) cls = (if cls = CriticalEager then {demo_key, demo_key\<lparr>ik_operation := [5]\<rparr>} else {})"
  by (auto simp: members_def crowded_def)

lemma crowded_books: "books_ok crowded"
proof -
  have "waiting (lm_intents crowded) = (\<lambda>_. {})" by (auto simp: waiting_def crowded_def fun_eq_iff)
  moreover have "lm_ordinary_scopes demo_enabled = []" "lm_ordinary_scope_counts demo_enabled = Map.empty"
    "lm_recovery_quantum demo_enabled = 125" "lm_recovery_slot_remaining demo_enabled = 125"
    by (simp_all add: demo_enabled_def configure_def limiter_disabled_def validate_def demo_config_def Let_def egress_limits)
  ultimately show ?thesis unfolding books_ok_def crowded_members
    by (simp add: booked_def crowded_def intent_ok_def u64_max_eq class_limit_def egress_limits demo_keys_differ card_insert_if split: RecoveryClass.split)
qed

lemma sorted_intents_crowded: "sorted_intents (lm_intents crowded) = [demo_key, demo_key\<lparr>ik_operation := [5]\<rparr>]"
  by (simp add: sorted_intents_def crowded_def demo_key_def key_tuple_def tuple_key_def)

lemma crowded_displaces:
  "fst (displace_intent_for_fair_admission sorted_intents CriticalEager \<lparr>ik_peer = [9], ik_scope = [2], ik_family = [7], ik_operation = [8]\<rparr> crowded)"
proof -
  have credit: "lm_displacement_credit crowded CriticalEager = full_credit CriticalEager"
    by (simp add: crowded_def demo_enabled_def configure_def limiter_disabled_def validate_def demo_config_def Let_def)
  have at: "lm_intents crowded demo_key = Some \<lparr>in_bytes = 80, in_last_observed = 0, in_created_at = 0, in_order = 0, in_charged = 10, in_class = CriticalEager\<rparr>"
    "lm_intents crowded (demo_key\<lparr>ik_operation := [5]\<rparr>) =
       Some \<lparr>in_bytes = 90, in_last_observed = 0, in_created_at = 0, in_order = 1, in_charged = 20, in_class = CriticalEager\<rparr>"
    by (simp_all add: crowded_def demo_key_def)
  have peer: "ik_peer demo_key = [1]" by (simp add: demo_key_def)
  have "fairness_victim sorted_intents CriticalEager [9] crowded = Some demo_key"
    by (simp add: fairness_victim_def peer_load_def pending_keys_def sorted_intents_crowded Let_def at peer intent_at_def)
  then show ?thesis
    using credit at(1) by (simp add: displace_intent_for_fair_admission_def spend_displacement_token_def full_credit_def egress_limits)
qed

theorem displacement_is_fair_witness:
  "\<exists>s' v. displace_intent_for_fair_admission sorted_intents CriticalEager \<lparr>ik_peer = [9], ik_scope = [2], ik_family = [7], ik_operation = [8]\<rparr> crowded = (True, s') \<and>
     lm_intents s' = map_remove v (lm_intents crowded) \<and>
     peer_load sorted_intents CriticalEager s' [9] + 1 \<le> peer_load sorted_intents CriticalEager s' (ik_peer v)"
proof -
  let ?k = "\<lparr>ik_peer = [9], ik_scope = [2], ik_family = [7], ik_operation = [8]\<rparr>"
  obtain s' where d: "displace_intent_for_fair_admission sorted_intents CriticalEager ?k crowded = (True, s')"
    using crowded_displaces by (metis (full_types) prod.collapse)
  obtain v where "lm_intents s' = map_remove v (lm_intents crowded)"
    "peer_load sorted_intents CriticalEager s' (ik_peer ?k) + 1 \<le> peer_load sorted_intents CriticalEager s' (ik_peer v)"
    using displacement_is_fair [OF sorted_intents_ok crowded_books d] by metis
  then show ?thesis using d by (intro exI [of _ s'] exI [of _ v]) simp
qed

subsection \<open>Waiting\<close>

lemma attempts_paid:
  assumes "iter_ok iter" "egress_ok s"
  shows "\<exists>r s'. recovery_attempts iter k n gen cls nows s = Some (r, s') \<and> egress_ok s' \<and> lm_generation s' = lm_generation s \<and> seats s' = seats s \<and>
    r \<noteq> Some (Inl ReserveDeferred) \<and> (\<forall>b. r = Some (Inr b) \<longrightarrow> lm_intents s' k = None \<and> b = \<lparr>br_key = k, br_generation = lm_generation s\<rparr>)"
  using assms(2)
proof (induction nows arbitrary: s)
  case Nil
  then show ?case by simp
next
  case (Cons now nows)
  obtain r t where t: "try_reserve_recovery_at_class iter k n gen now cls s = Some (r, t)" "paid_for now (if isl r then 0 else n) s t"
    "\<not> isl r \<longrightarrow> projr r = \<lparr>br_key = k, br_generation = lm_generation s\<rparr> \<and> gen = lm_generation s \<and> lm_intents t k = None"
    by (rule recovery_paid [OF assms(1) Cons.prems])
  have p: "egress_ok t" "lm_generation t = lm_generation s" "seats t = seats s" using t(2) by (simp_all add: paid_for_def)
  show ?case
  proof (cases "r = Inl ReserveDeferred")
    case True
    then show ?thesis using Cons.IH [OF p(1)] t(1) p(2,3) by simp
  next
    case False
    then have "recovery_attempts iter k n gen cls (now # nows) s = Some (Some r, t)"
      using t(1) by (simp split: sum.split ReserveError.split)
    then show ?thesis using p t(3) False by auto
  qed
qed

lemma permit_returned:
  assumes "waiter_permit p cls s = (True, t)" "seats u = seats t" "lm_waiters_by_peer s p \<noteq> Some (0, 0)"
  shows "seats (drop_waiter p cls u) = seats s"
proof -
  obtain a c where oc: "get_or (0, 0) (lm_waiters_by_peer s) p = (a, c)" by (rule prod.exhaust)
  have u: "lm_waiters_by_peer u = lm_waiters_by_peer t" "lm_ordinary_waiters u = lm_ordinary_waiters t" "lm_critical_waiters u = lm_critical_waiters t"
    using assms(2) by (simp_all add: seats_def)
  have undone: "((lm_waiters_by_peer s)(p \<mapsto> x))(p := (if a + c = 0 then None else Some (a, c))) = lm_waiters_by_peer s" for x
    using oc assms(3) by (auto simp: get_or_def fun_eq_iff split: option.splits)
  show ?thesis
    using assms(1) oc u undone unfolding waiter_permit_def drop_waiter_def seats_def
    by (cases cls) (auto simp: Let_def map_remove_def split: if_splits)
qed

lemma drop_waiter_ok:
  "lm_intents (drop_waiter p cls s) = lm_intents s" "egress_ok s \<Longrightarrow> egress_ok (drop_waiter p cls s)"
proof -
  have f: "lm_intents (drop_waiter p cls s) = lm_intents s \<and> lm_recovery_quantum (drop_waiter p cls s) = lm_recovery_quantum s \<and>
    lm_recovery_slot_remaining (drop_waiter p cls s) = lm_recovery_slot_remaining s \<and>
    lm_ordinary_scope_counts (drop_waiter p cls s) = lm_ordinary_scope_counts s \<and> lm_ordinary_scopes (drop_waiter p cls s) = lm_ordinary_scopes s \<and>
    lm_config (drop_waiter p cls s) = lm_config s \<and> lm_tokens (drop_waiter p cls s) = lm_tokens s \<and>
    lm_soft_tokens (drop_waiter p cls s) = lm_soft_tokens s \<and> lm_enabled (drop_waiter p cls s) = lm_enabled s \<and>
    lm_displacement_credit (drop_waiter p cls s) = lm_displacement_credit s"
    by (cases cls) (simp_all add: drop_waiter_def Let_def split: option.split)
  then show "lm_intents (drop_waiter p cls s) = lm_intents s" by blast
  show "egress_ok s \<Longrightarrow> egress_ok (drop_waiter p cls s)" by (rule egress_ok_same) (use f in simp_all)
qed

lemma cancel_clears:
  assumes "egress_ok s" "lm_generation s = gen"
  shows "lm_intents (cancel_intent k gen s) k = None" "seats (cancel_intent k gen s) = seats s"
  using ledgerD(10) [OF ledger_forget [of k s]] assms by (simp_all add: cancel_intent_def)

text \<open>a wait for bytes always ends, whatever happens at the attempts, and leaves nothing behind. The
  waiter's permit is returned on every path; the intent is gone, granted or cancelled, unless the
  caller asked to keep it over a timeout; and a refusal at the door changes nothing.\<close>

theorem wait_leaves_nothing_behind:
  assumes "iter_ok iter" "egress_ok s" "lm_waiters_by_peer s (ik_peer key) \<noteq> Some (0, 0)"
  shows "\<exists>r s'. reserve_recovery_class iter key n keep cls nows s = Some (r, s') \<and> egress_ok s' \<and> seats s' = seats s \<and>
    (lm_intents s' key = None \<or> r = Inl ReserveDeferred \<and> keep \<or> (r = Inl Disabled \<or> r = Inl WaiterLimit) \<and> s' = s) \<and>
    (\<forall>b. r = Inr b \<longrightarrow> b = \<lparr>br_key = key, br_generation = lm_generation s\<rparr>)"
proof (cases "lm_enabled s")
  case False
  then show ?thesis using assms(2) by (simp add: reserve_recovery_class_def)
next
  case True
  obtain ok t where w: "waiter_permit (ik_peer key) cls s = (ok, t)" by (rule prod.exhaust)
  show ?thesis
  proof (cases ok)
    case False
    then have "t = s" using w by (auto simp: waiter_permit_def Let_def split: if_splits prod.splits RecoveryClass.splits)
    then show ?thesis using True False w assms(2) by (simp add: reserve_recovery_class_def)
  next
    case ok: True
    define u where "u = t\<lparr>lm_recovery_waited := u64_add (lm_recovery_waited t) 1\<rparr>"
    have f: "lm_generation t = lm_generation s \<and> egress_ok t"
      using w ok egress_ok_same [OF assms(2), of t] by (auto simp: waiter_permit_def Let_def split: if_splits prod.splits RecoveryClass.splits)
    then have u: "egress_ok u" "lm_generation u = lm_generation s" "seats u = seats t"
      using egress_ok_same [of t u] by (simp_all add: u_def seats_def)
    obtain r v where v: "recovery_attempts iter key n (lm_generation s) cls nows u = Some (r, v)" "egress_ok v"
      "lm_generation v = lm_generation u" "seats v = seats u" "r \<noteq> Some (Inl ReserveDeferred)"
      "\<forall>b. r = Some (Inr b) \<longrightarrow> lm_intents v key = None \<and> b = \<lparr>br_key = key, br_generation = lm_generation u\<rparr>"
      using attempts_paid [OF assms(1) u(1), of key n "lm_generation s" cls nows] by blast
    define gone where "gone x = drop_waiter (ik_peer key) cls (cancel_intent key (lm_generation s) x)" for x
    define late where "late = v\<lparr>lm_budget_timeouts := u64_add (lm_budget_timeouts v) 1\<rparr>"
    have run: "reserve_recovery_class iter key n keep cls nows s = Some (case r of
        Some (Inr b) \<Rightarrow> (Inr b, drop_waiter (ik_peer key) cls v)
      | Some (Inl e) \<Rightarrow> (Inl e, gone v)
      | None \<Rightarrow> (Inl ReserveDeferred, if keep then drop_waiter (ik_peer key) cls late else gone late))"
      using True w ok v(1) [unfolded u_def] f
      by (simp add: reserve_recovery_class_def Let_def gone_def late_def split: option.split sum.split)
    have w': "waiter_permit (ik_peer key) cls s = (True, t)" using w ok by simp
    have sv: "seats v = seats t" "seats late = seats t" "egress_ok late" "lm_generation late = lm_generation s"
      using v(2,3,4) u(2,3) egress_ok_same [OF v(2), of late] by (simp_all add: late_def seats_def)
    have dropped: "egress_ok (drop_waiter (ik_peer key) cls x) \<and> seats (drop_waiter (ik_peer key) cls x) = seats s \<and>
        lm_intents (drop_waiter (ik_peer key) cls x) = lm_intents x" if "egress_ok x" "seats x = seats t" for x
      using permit_returned [OF w' that(2) assms(3)] drop_waiter_ok(1) drop_waiter_ok(2) [OF that(1)] by simp
    have cancelled: "egress_ok (gone x) \<and> seats (gone x) = seats s \<and> lm_intents (gone x) key = None"
      if "egress_ok x" "seats x = seats t" "lm_generation x = lm_generation s" for x
      using dropped [of "cancel_intent key (lm_generation s) x"] cancel_ok(1) [OF that(1)] cancel_clears [OF that(1,3)] that(2)
      by (simp add: gone_def)
    show ?thesis
    proof (cases r)
      case None
      then show ?thesis using run dropped [OF sv(3,2)] cancelled [OF sv(3,2,4)] by (cases keep) simp_all
    next
      case (Some q)
      then show ?thesis using run v dropped [OF v(2) sv(1)] cancelled [OF v(2) sv(1)] u(2) by (cases q) simp_all
    qed
  qed
qed


theorem wait_leaves_nothing_behind_witness:
  "\<exists>r s'. reserve_recovery_class sorted_intents demo_key 1500 False Ordinary [3, 7] demo_enabled = Some (r, s') \<and>
     lm_waiters_by_peer s' = Map.empty"
proof -
  have "lm_waiters_by_peer demo_enabled (ik_peer demo_key) \<noteq> Some (0, 0)" by (simp add: demo_enabled_eq)
  from wait_leaves_nothing_behind [OF sorted_intents_ok demo_enabled_ok this, of 1500 False Ordinary "[3, 7]"]
  show ?thesis using demo_enabled_eq(8) by (auto simp: seats_def)
qed

subsection \<open>Reservations\<close>

lemma configure_generation:
  assumes "configure requested t s = (ok, s2)" "lm_config s2 \<noteq> lm_config s"
  shows "lm_generation s2 = u64_add (lm_generation s) 1" "lm_enabled s2 \<longleftrightarrow> lm_config s2 \<noteq> None"
  using assms by (auto simp: configure_def Let_def split: option.splits if_splits)

lemma next_generation: "u64_add g 1 \<noteq> g"
proof (cases "g < 2 ^ 64")
  case True
  then show ?thesis by (cases "g = 2 ^ 64 - 1") (simp_all add: u64_add_def)
next
  case False
  have "(g + 1) mod 2 ^ 64 < 2 ^ 64" by (rule mod_less_divisor) simp
  then show ?thesis using False unfolding u64_add_def by linarith
qed

text \<open>a granted reservation is good for its own key under the configuration it was made under, and for
  nothing else. It passes validation for the key that reserved, fails for every other key, and fails
  for good as soon as the limiter is configured anew or switched off.\<close>

theorem reservation_bound_to_configuration:
  assumes "iter_ok iter" "egress_ok s" "try_reserve_recovery_at_class iter key n gen now cls s = Some (Inr b, s')"
  shows "validate_reservation (Some key) (Some b) s' = (True, s') \<and>
    (\<forall>other. other \<noteq> key \<longrightarrow> \<not> fst (validate_reservation (Some other) (Some b) s')) \<and>
    (\<forall>requested t s2. configure requested t s' = (True, s2) \<and> lm_config s2 \<noteq> lm_config s' \<longrightarrow>
       \<not> fst (validate_reservation (Some key) (Some b) s2))"
proof -
  obtain r t where t: "try_reserve_recovery_at_class iter key n gen now cls s = Some (r, t)" "paid_for now (if isl r then 0 else n) s t"
    "\<not> isl r \<longrightarrow> projr r = \<lparr>br_key = key, br_generation = lm_generation s\<rparr> \<and> gen = lm_generation s \<and> lm_intents t key = None"
    by (rule recovery_paid [OF assms(1,2)])
  have rt: "r = Inr b" "t = s'" using t(1) assms(3) by simp_all
  have b: "b = \<lparr>br_key = key, br_generation = lm_generation s'\<rparr>" using t(2,3) rt by (simp add: paid_for_def)
  have c: "lm_config s' \<noteq> None"
  proof
    assume "lm_config s' = None"
    then have "lm_config s = None" using t(2) rt by (simp add: paid_for_def)
    then show False using assms(3) by (simp add: try_reserve_recovery_at_class_def refill_def split: if_splits)
  qed
  have "lm_enabled s'" using t(2) rt c by (simp add: paid_for_def egress_ok_def credit_ok_def)
  then have V: "validate_reservation (Some k) (Some b) s' = (k = key, if k = key then s' else s'\<lparr>lm_invariant_violations := u64_add (lm_invariant_violations s') 1\<rparr>)" for k
    using c by (auto simp: validate_reservation_def b)
  have N: "\<not> fst (validate_reservation (Some key) (Some b) s2)"
    if "configure requested t s' = (True, s2)" "lm_config s2 \<noteq> lm_config s'" for requested t s2
    using configure_generation [OF that] next_generation [of "lm_generation s'"] by (auto simp: validate_reservation_def b)
  show ?thesis
  proof (intro conjI allI impI)
    fix requested t s2 assume "configure requested t s' = (True, s2) \<and> lm_config s2 \<noteq> lm_config s'"
    then show "\<not> fst (validate_reservation (Some key) (Some b) s2)" using N by metis
  qed (simp_all add: V)
qed

lemma charge_loop_unfold:
  "0 < fuel \<Longrightarrow> charge_loop fuel iter s =
     (if lm_tokens s = 0 then Some s else case charge_step iter s of None \<Rightarrow> Some s | Some s' \<Rightarrow> charge_loop (fuel - 1) iter s')"
  by (cases fuel) (simp_all split: option.split)

lemma demo_enabled_explicit:
  "demo_enabled = (limiter_disabled 0)\<lparr>lm_config := Some demo_config, lm_generation := 1, lm_tokens := 4000, lm_soft_tokens := 4000,
     lm_recovery_quantum := 125, lm_recovery_slot_remaining := 125, lm_enabled := True, lm_enforcing := True\<rparr>"
  by (simp add: demo_enabled_def configure_def limiter_disabled_def validate_def demo_config_def u64_add_def Let_def egress_limits)

lemma sorted_intents_none [simp]: "sorted_intents Map.empty = []"
  by (simp add: sorted_intents_def)

lemma sorted_intents_one [simp]: "sorted_intents [k \<mapsto> i] = [k]"
  by (simp add: sorted_intents_def)

lemma demo_refill: "refill sorted_intents 0 demo_enabled = Some demo_enabled"
  by (simp add: demo_enabled_explicit limiter_disabled_def refill_def refill_buckets_def refill_displacement_def expire_intents_def
      charge_ready_recovery_def charge_fuel_def charge_loop_unfold charge_step_def charge_class_def pending_keys_def
      refill_tokens_def refill_scaled_def u64_sat_add_def u64_max_eq u128_max_def demo_config_def)


definition demo_registered :: Limiter where
  "demo_registered = demo_enabled\<lparr>lm_next_order := 1, lm_demanded_bytes := 100, lm_intents := [demo_key \<mapsto>
     \<lparr>in_bytes = 100, in_last_observed = 0, in_created_at = 0, in_order = 0, in_charged = 0, in_class = CriticalEager\<rparr>]\<rparr>"

lemma demo_register: "register_intent sorted_intents demo_key 100 0 CriticalEager demo_enabled = (None, demo_registered)"
  by (simp add: register_intent_def inherit_family_def demo_registered_def demo_enabled_explicit limiter_disabled_def
      class_count_def class_limit_def egress_limits u64_sat_add_def u64_max_eq u64_add_def)

lemma demo_registered_unpaid: "unpaid (lm_intents demo_registered) - lm_tokens demo_registered = 0"
  by (simp add: demo_registered_def demo_enabled_eq total_def)

lemma demo_grant:
  "\<exists>s'. try_reserve_recovery_at_class sorted_intents demo_key 100 1 0 CriticalEager demo_enabled = Some (Inr \<lparr>br_key = demo_key, br_generation = 1\<rparr>, s')"
proof -
  obtain v where v: "charge_ready_recovery sorted_intents demo_registered = Some v" "paid_further (lm_intents demo_registered) (lm_intents v)"
    "unpaid (lm_intents v) = 0"
  proof -
    have "admitted demo_enabled demo_registered"
      using register_intent_admitted [OF sorted_intents_ok egress_okD(1) [OF demo_enabled_ok] _ _ demo_register] by (simp add: demo_enabled_eq u64_max_eq)
    then have "books_ok demo_registered" by (simp add: admitted_def)
    then show thesis using charge_exact [OF sorted_intents_ok] that
      by (metis demo_registered_unpaid)
  qed
  have dk: "lm_intents demo_registered demo_key = Some \<lparr>in_bytes = 100, in_last_observed = 0, in_created_at = 0, in_order = 0, in_charged = 0,
      in_class = CriticalEager\<rparr>" by (simp add: demo_registered_def)
  obtain c where c: "lm_intents v demo_key = Some (\<lparr>in_bytes = 100, in_last_observed = 0, in_created_at = 0, in_order = 0, in_charged = 0,
      in_class = CriticalEager\<rparr>\<lparr>in_charged := c\<rparr>)"
    by (rule paid_furtherD [OF v(2) dk])
  have "finite (dom (lm_intents v))"
  proof -
    have "dom (lm_intents v) \<subseteq> dom (lm_intents demo_registered)" using v(2) by (auto simp: paid_further_def)
    then show ?thesis by (rule finite_subset) (simp add: demo_registered_def)
  qed
  from unpaid_zero [OF this v(3) c] have "\<not> c < 100" by simp
  then show ?thesis
    unfolding try_reserve_recovery_at_class_def demo_refill option.case demo_enabled_eq
    using v(1) c demo_register by (simp add: demo_config_def)
qed

theorem reservation_bound_to_configuration_witness:
  "\<exists>s'. validate_reservation (Some demo_key) (Some \<lparr>br_key = demo_key, br_generation = 1\<rparr>) s' = (True, s') \<and>
     \<not> fst (validate_reservation (Some demo_key) (Some \<lparr>br_key = demo_key, br_generation = 1\<rparr>) (snd (configure None 5 s')))"
proof -
  obtain s' where g: "try_reserve_recovery_at_class sorted_intents demo_key 100 1 0 CriticalEager demo_enabled = Some (Inr \<lparr>br_key = demo_key, br_generation = 1\<rparr>, s')"
    using demo_grant by blast
  note R = reservation_bound_to_configuration [OF sorted_intents_ok demo_enabled_ok g]
  obtain r t where t: "try_reserve_recovery_at_class sorted_intents demo_key 100 1 0 CriticalEager demo_enabled = Some (r, t)"
    "paid_for 0 (if isl r then 0 else 100) demo_enabled t"
    by (rule recovery_paid [OF sorted_intents_ok demo_enabled_ok])
  have "lm_config s' = Some demo_config" using t g by (simp add: paid_for_def demo_enabled_eq)
  then have "configure None 5 s' = (True, snd (configure None 5 s'))" "lm_config (snd (configure None 5 s')) \<noteq> lm_config s'"
    by (simp_all add: configure_def Let_def)
  then show ?thesis using R by metis
qed


subsection \<open>Instants that arrive late\<close>

text \<open>A caller reads the clock before it takes the lock. A refill with an instant that lies before the last
  refill adds nothing, but it moves the last refill back, so the next refill counts that time again:
  here two refills, at second nine and at second ten, give a bucket that was already refilled at
  second ten another thousand bytes.\<close>

theorem late_instant_mints_tokens:
  "lm_tokens (refill_buckets demo_config 10000000000 (refill_buckets demo_config 9000000000
     (demo_enabled\<lparr>lm_tokens := 0, lm_last_refill := 10000000000\<rparr>))) = 1000"
  by (simp add: refill_scaled_def refill_tokens_def u128_max_def u64_sat_add_def u64_max_eq demo_config_def demo_enabled_explicit limiter_disabled_def)

end
