(* ===== verification/Coordinator.thy ===== *)
theory Coordinator
  imports Message_Cache
begin

text \<open>
  Coordinator discovery, \<open>crates/coordinator/src\<close>: adverts and their signature, the adapter that keeps
  them beside the bootstrap cache of the transport, the handler of adverts and FIND_COORDINATOR
  queries, the bootstrap flow, the publisher, and the two older caches.

  The two clocks of the code are separate inputs, both in nanoseconds: \<open>tick\<close> is \<open>Instant::now\<close>, and \<open>now\<close> or \<open>wall\<close> is
  \<open>SystemTime::now\<close>, of which \<open>unix_millis\<close> takes the milliseconds; one reading of it stands for those of one call. The bootstrap cache of
  the transport crate, the signature scheme, BLAKE3 and CBOR are parameters. Arithmetic on \<open>u64\<close> wraps,
  as it does in the release profile.
\<close>

subsection \<open>Adverts\<close>

type_synonym SocketAddr = "bytes \<times> nat" \<comment> \<open>the octets of the address and the port\<close>

definition unix_millis :: "instant \<Rightarrow> nat" where
  "unix_millis now = now div 1000000"

definition u64_sub :: "nat \<Rightarrow> nat \<Rightarrow> nat" where
  "u64_sub a b = (a + 2 ^ 64 - b) mod 2 ^ 64"

record PeerRoles =
  pr_coordinator :: bool
  pr_reflector :: bool
  pr_rendezvous :: bool
  pr_relay :: bool

definition default_roles :: PeerRoles where
  "default_roles = \<lparr>pr_coordinator = True, pr_reflector = True, pr_rendezvous = False, pr_relay = False\<rparr>"

datatype NatClass = Eim | Edm | Symmetric | UnknownNat

record AddrHint =
  ah_addr :: SocketAddr
  ah_observed_at :: nat

definition addr_hint_new :: "instant \<Rightarrow> SocketAddr \<Rightarrow> AddrHint" where
  "addr_hint_new now addr = \<lparr>ah_addr = addr, ah_observed_at = unix_millis now\<rparr>"

record TransportHint =
  th_transport_type :: string
  th_endpoint :: "string option"
  th_available :: bool

definition transport_hint_new :: "string \<Rightarrow> TransportHint" where
  "transport_hint_new t = \<lparr>th_transport_type = t, th_endpoint = None, th_available = True\<rparr>"

definition with_endpoint :: "string \<Rightarrow> string \<Rightarrow> TransportHint" where
  "with_endpoint t endpoint = \<lparr>th_transport_type = t, th_endpoint = Some endpoint, th_available = True\<rparr>"

definition unavailable :: "TransportHint \<Rightarrow> TransportHint" where
  "unavailable h = h\<lparr>th_available := False\<rparr>"

record SignableFields =
  sf_v :: nat
  sf_peer :: PeerId
  sf_roles :: PeerRoles
  sf_addr_hints :: "AddrHint list"
  sf_nat_class :: NatClass
  sf_not_before :: nat
  sf_not_after :: nat
  sf_score :: int
  sf_transport_hints :: "TransportHint list"

record CoordinatorAdvert =
  ca_v :: nat
  ca_peer :: PeerId
  ca_roles :: PeerRoles
  ca_addr_hints :: "AddrHint list"
  ca_nat_class :: NatClass
  ca_not_before :: nat
  ca_not_after :: nat
  ca_score :: int
  ca_transport_hints :: "TransportHint list"
  ca_sig :: bytes

text \<open>ML-DSA-65, CBOR and BLAKE3. An operation that can fail returns an option.\<close>

record advert_crypto =
  ac_encode :: "SignableFields \<Rightarrow> bytes option"
  ac_sign :: "bytes \<Rightarrow> bytes \<Rightarrow> bytes option"
  ac_verify :: "bytes \<Rightarrow> bytes \<Rightarrow> bytes \<Rightarrow> bool option"
  ac_hash :: "bytes \<Rightarrow> bytes"
  ac_to_cbor :: "CoordinatorAdvert \<Rightarrow> bytes option"
  ac_from_cbor :: "bytes \<Rightarrow> CoordinatorAdvert option"

definition advert_new :: "instant \<Rightarrow> PeerId \<Rightarrow> PeerRoles \<Rightarrow> AddrHint list \<Rightarrow> NatClass \<Rightarrow> nat \<Rightarrow> CoordinatorAdvert" where
  "advert_new now peer roles hints nat_class validity_duration_ms =
     \<lparr>ca_v = 1, ca_peer = peer, ca_roles = roles, ca_addr_hints = hints, ca_nat_class = nat_class,
      ca_not_before = unix_millis now, ca_not_after = u64_add (unix_millis now) validity_duration_ms,
      ca_score = 0, ca_transport_hints = [], ca_sig = []\<rparr>"

definition with_transport_hints :: "TransportHint list \<Rightarrow> CoordinatorAdvert \<Rightarrow> CoordinatorAdvert" where
  "with_transport_hints hints a = a\<lparr>ca_transport_hints := hints\<rparr>"

definition add_transport_hint :: "TransportHint \<Rightarrow> CoordinatorAdvert \<Rightarrow> CoordinatorAdvert" where
  "add_transport_hint hint a = a\<lparr>ca_transport_hints := ca_transport_hints a @ [hint]\<rparr>"

definition has_transport :: "string \<Rightarrow> CoordinatorAdvert \<Rightarrow> bool" where
  "has_transport t a = list_ex (\<lambda>h. th_transport_type h = t \<and> th_available h) (ca_transport_hints a)"

definition available_transports :: "CoordinatorAdvert \<Rightarrow> TransportHint list" where
  "available_transports a = filter th_available (ca_transport_hints a)"

definition signable_fields :: "CoordinatorAdvert \<Rightarrow> SignableFields" where
  "signable_fields a =
     \<lparr>sf_v = ca_v a, sf_peer = ca_peer a, sf_roles = ca_roles a, sf_addr_hints = ca_addr_hints a, sf_nat_class = ca_nat_class a,
      sf_not_before = ca_not_before a, sf_not_after = ca_not_after a, sf_score = ca_score a, sf_transport_hints = ca_transport_hints a\<rparr>"

definition advert_sign :: "advert_crypto \<Rightarrow> bytes \<Rightarrow> CoordinatorAdvert \<Rightarrow> CoordinatorAdvert option" where
  "advert_sign C key a =
     (case ac_encode C (signable_fields a) of
        None \<Rightarrow> None
      | Some m \<Rightarrow> (case ac_sign C key m of None \<Rightarrow> None | Some sg \<Rightarrow> Some (a\<lparr>ca_sig := sg\<rparr>)))"

definition advert_verify :: "advert_crypto \<Rightarrow> bytes \<Rightarrow> CoordinatorAdvert \<Rightarrow> bool option" where
  "advert_verify C public_key a =
     (case ac_encode C (signable_fields a) of None \<Rightarrow> None | Some m \<Rightarrow> ac_verify C public_key m (ca_sig a))"

definition is_valid :: "instant \<Rightarrow> CoordinatorAdvert \<Rightarrow> bool" where
  "is_valid now a \<longleftrightarrow> unix_millis now \<ge> ca_not_before a \<and> unix_millis now \<le> ca_not_after a"

subsection \<open>The adapter\<close>

text \<open>The bootstrap cache of the transport crate.\<close>

record ('b, 'c) boot_ops =
  bo_add_from_connection :: "bytes \<Rightarrow> SocketAddr list \<Rightarrow> 'b \<Rightarrow> 'b"
  bo_select_coordinators :: "nat \<Rightarrow> 'b \<Rightarrow> 'c list"
  bo_select_relay_peers :: "nat \<Rightarrow> 'b \<Rightarrow> 'c list"
  bo_select_peers :: "nat \<Rightarrow> 'b \<Rightarrow> 'c list"
  bo_record_success :: "bytes \<Rightarrow> nat \<Rightarrow> 'b \<Rightarrow> 'b"
  bo_record_failure :: "bytes \<Rightarrow> 'b \<Rightarrow> 'b"
  bo_get_peer :: "bytes \<Rightarrow> 'b \<Rightarrow> 'c option"
  bo_contains :: "bytes \<Rightarrow> 'b \<Rightarrow> bool"
  bo_peer_count :: "'b \<Rightarrow> nat"
  bo_remove :: "bytes \<Rightarrow> 'b \<Rightarrow> 'b"
  bo_peer_id :: "'c \<Rightarrow> bytes"

record 'b GossipCacheAdapter =
  ga_cache :: 'b
  ga_adverts :: "PeerId \<rightharpoonup> CoordinatorAdvert"

definition adapter_new :: "'b \<Rightarrow> 'b GossipCacheAdapter" where
  "adapter_new cache = \<lparr>ga_cache = cache, ga_adverts = Map.empty\<rparr>"

definition insert_advert :: "('b, 'c) boot_ops \<Rightarrow> instant \<Rightarrow> CoordinatorAdvert \<Rightarrow> 'b GossipCacheAdapter \<Rightarrow> bool \<times> 'b GossipCacheAdapter" where
  "insert_advert B now a g =
     (if \<not> is_valid now a then (False, g)
      else (True, g\<lparr>ga_adverts := (ga_adverts g)(ca_peer a \<mapsto> a),
                    ga_cache := bo_add_from_connection B (peer_bytes (ca_peer a)) (map ah_addr (ca_addr_hints a)) (ga_cache g)\<rparr>))"

definition get_advert :: "instant \<Rightarrow> PeerId \<Rightarrow> 'b GossipCacheAdapter \<Rightarrow> CoordinatorAdvert option" where
  "get_advert now p g = (case ga_adverts g p of None \<Rightarrow> None | Some a \<Rightarrow> if is_valid now a then Some a else None)"

text \<open>The values of the map in the order of its iteration.\<close>

definition adverts_in_order :: "PeerId list \<Rightarrow> 'b GossipCacheAdapter \<Rightarrow> CoordinatorAdvert list" where
  "adverts_in_order order g = List.map_filter (ga_adverts g) order"

definition get_all_adverts :: "PeerId list \<Rightarrow> instant \<Rightarrow> 'b GossipCacheAdapter \<Rightarrow> CoordinatorAdvert list" where
  "get_all_adverts order now g = sort_key (\<lambda>a. - ca_score a) (filter (is_valid now) (adverts_in_order order g))"

definition get_adverts_by_role :: "PeerId list \<Rightarrow> instant \<Rightarrow> (CoordinatorAdvert \<Rightarrow> bool) \<Rightarrow> 'b GossipCacheAdapter \<Rightarrow> CoordinatorAdvert list" where
  "get_adverts_by_role order now role_filter g = filter (\<lambda>a. is_valid now a \<and> role_filter a) (adverts_in_order order g)"

definition select_coordinators :: "('b, 'c) boot_ops \<Rightarrow> instant \<Rightarrow> nat \<Rightarrow> 'b GossipCacheAdapter \<Rightarrow> ('c \<times> CoordinatorAdvert option) list" where
  "select_coordinators B now n g = map (\<lambda>c. (c, get_advert now (PeerId (bo_peer_id B c)) g)) (bo_select_coordinators B n (ga_cache g))"

definition select_relays :: "('b, 'c) boot_ops \<Rightarrow> instant \<Rightarrow> nat \<Rightarrow> 'b GossipCacheAdapter \<Rightarrow> ('c \<times> CoordinatorAdvert option) list" where
  "select_relays B now n g = map (\<lambda>c. (c, get_advert now (PeerId (bo_peer_id B c)) g)) (bo_select_relay_peers B n (ga_cache g))"

definition adapter_record_success :: "('b, 'c) boot_ops \<Rightarrow> PeerId \<Rightarrow> nat \<Rightarrow> 'b GossipCacheAdapter \<Rightarrow> 'b GossipCacheAdapter" where
  "adapter_record_success B p rtt_ms g = g\<lparr>ga_cache := bo_record_success B (peer_bytes p) rtt_ms (ga_cache g)\<rparr>"

definition adapter_record_failure :: "('b, 'c) boot_ops \<Rightarrow> PeerId \<Rightarrow> 'b GossipCacheAdapter \<Rightarrow> 'b GossipCacheAdapter" where
  "adapter_record_failure B p g = g\<lparr>ga_cache := bo_record_failure B (peer_bytes p) (ga_cache g)\<rparr>"

definition advert_count :: "'b GossipCacheAdapter \<Rightarrow> nat" where
  "advert_count g = card (dom (ga_adverts g))"

definition prune_expired_adverts :: "instant \<Rightarrow> 'b GossipCacheAdapter \<Rightarrow> nat \<times> 'b GossipCacheAdapter" where
  "prune_expired_adverts now g =
     (let kept = map_retain (\<lambda>_ a. is_valid now a) (ga_adverts g)
      in (card (dom (ga_adverts g) - dom kept), g\<lparr>ga_adverts := kept\<rparr>))"

definition adapter_remove :: "('b, 'c) boot_ops \<Rightarrow> PeerId \<Rightarrow> 'b GossipCacheAdapter \<Rightarrow> 'b GossipCacheAdapter" where
  "adapter_remove B p g = g\<lparr>ga_cache := bo_remove B (peer_bytes p) (ga_cache g), ga_adverts := map_remove p (ga_adverts g)\<rparr>"

definition clear_adverts :: "'b GossipCacheAdapter \<Rightarrow> 'b GossipCacheAdapter" where
  "clear_adverts g = g\<lparr>ga_adverts := Map.empty\<rparr>"


subsection \<open>FIND_COORDINATOR\<close>

definition MAX_FIND_COORDINATOR_TTL :: nat where "MAX_FIND_COORDINATOR_TTL = 3"

definition DEFAULT_FIND_COORDINATOR_FANOUT :: nat where "DEFAULT_FIND_COORDINATOR_FANOUT = 3"

record FindCoordinatorQuery =
  fq_query_id :: bytes
  fq_origin :: PeerId
  fq_ttl :: nat
  fq_created_at :: nat

definition query_new :: "(bytes \<Rightarrow> bytes) \<Rightarrow> bytes \<Rightarrow> instant \<Rightarrow> PeerId \<Rightarrow> FindCoordinatorQuery" where
  "query_new blake3 rand_bytes now origin =
     \<lparr>fq_query_id = blake3 (peer_bytes origin @ rand_bytes), fq_origin = origin, fq_ttl = MAX_FIND_COORDINATOR_TTL, fq_created_at = unix_millis now\<rparr>"

definition query_decrement_ttl :: "FindCoordinatorQuery \<Rightarrow> bool \<times> FindCoordinatorQuery" where
  "query_decrement_ttl q = (if fq_ttl q > 0 then (True, q\<lparr>fq_ttl := fq_ttl q - 1\<rparr>) else (False, q))"

definition query_is_expired :: "instant \<Rightarrow> FindCoordinatorQuery \<Rightarrow> bool" where
  "query_is_expired now q \<longleftrightarrow> unix_millis now > u64_add (fq_created_at q) 30000"

record FindCoordinatorResponse =
  fr_query_id :: bytes
  fr_responder :: PeerId
  fr_adverts :: "CoordinatorAdvert list"

text \<open>The number of roles a peer hints at, and the order by hint and score that the handler and the
  bootstrap share.\<close>

definition hint_weight :: "CoordinatorAdvert \<Rightarrow> nat" where
  "hint_weight a = of_bool (pr_coordinator (ca_roles a)) + of_bool (pr_relay (ca_roles a)) +
     of_bool (pr_rendezvous (ca_roles a)) + of_bool (pr_reflector (ca_roles a))"

definition hint_rank :: "CoordinatorAdvert \<Rightarrow> int \<times> int" where
  "hint_rank a = (- int (hint_weight a), - ca_score a)"

definition sort_adverts_by_hint :: "CoordinatorAdvert list \<Rightarrow> CoordinatorAdvert list" where
  "sort_adverts_by_hint adverts = sort_key hint_rank adverts"

record 'b CoordinatorHandler =
  ch_peer_id :: PeerId
  ch_cache :: "'b GossipCacheAdapter option"
  ch_seen_queries :: "bytes \<rightharpoonup> instant"

definition handler_new :: "PeerId \<Rightarrow> 'b CoordinatorHandler" where
  "handler_new p = \<lparr>ch_peer_id = p, ch_cache = None, ch_seen_queries = Map.empty\<rparr>"

definition handler_with_cache :: "PeerId \<Rightarrow> 'b GossipCacheAdapter \<Rightarrow> 'b CoordinatorHandler" where
  "handler_with_cache p cache = \<lparr>ch_peer_id = p, ch_cache = Some cache, ch_seen_queries = Map.empty\<rparr>"

definition set_cache :: "'b GossipCacheAdapter \<Rightarrow> 'b CoordinatorHandler \<Rightarrow> 'b CoordinatorHandler" where
  "set_cache cache h = h\<lparr>ch_cache := Some cache\<rparr>"

text \<open>\<open>None\<close> is the error of the signature check.\<close>

definition handle_advert ::
  "advert_crypto \<Rightarrow> ('b, 'c) boot_ops \<Rightarrow> instant \<Rightarrow> CoordinatorAdvert \<Rightarrow> bytes \<Rightarrow> 'b CoordinatorHandler \<Rightarrow> bool option \<times> 'b CoordinatorHandler" where
  "handle_advert C B now advert public_key h =
     (if from_pubkey (ac_hash C) public_key \<noteq> ca_peer advert then (Some False, h)
      else case advert_verify C public_key advert of
             None \<Rightarrow> (None, h)
           | Some valid \<Rightarrow>
               if \<not> valid then (Some False, h)
               else (case ch_cache h of
                       None \<Rightarrow> (Some True, h)
                     | Some cache \<Rightarrow>
                         (let (inserted, cache') = insert_advert B now advert cache
                          in (Some inserted, h\<lparr>ch_cache := Some cache'\<rparr>))))"

definition handle_find_query ::
  "PeerId list \<Rightarrow> instant \<Rightarrow> instant \<Rightarrow> FindCoordinatorQuery \<Rightarrow> 'b CoordinatorHandler \<Rightarrow> FindCoordinatorResponse option \<times> 'b CoordinatorHandler" where
  "handle_find_query order tick wall query h =
     (if ch_seen_queries h (fq_query_id query) \<noteq> None then (None, h)
      else let h1 = h\<lparr>ch_seen_queries := (ch_seen_queries h)(fq_query_id query \<mapsto> tick)\<rparr>
           in if query_is_expired wall query then (None, h1)
              else let (alive, q) = query_decrement_ttl query
                   in if \<not> alive then (None, h1)
                      else let coordinators = (case ch_cache h1 of None \<Rightarrow> [] | Some c \<Rightarrow> get_all_adverts order wall c)
                           in (Some \<lparr>fr_query_id = fq_query_id q, fr_responder = ch_peer_id h1,
                                     fr_adverts = sort_adverts_by_hint coordinators\<rparr>, h1))"

definition handler_prune :: "instant \<Rightarrow> instant \<Rightarrow> 'b CoordinatorHandler \<Rightarrow> nat \<times> 'b CoordinatorHandler" where
  "handler_prune tick wall h =
     (let (pruned, cache) = (case ch_cache h of None \<Rightarrow> (0, None) | Some c \<Rightarrow> map_prod (\<lambda>n. n) Some (prune_expired_adverts wall c))
      in (pruned, h\<lparr>ch_cache := cache,
                    ch_seen_queries := map_retain (\<lambda>_ t. \<not> tick - t > 30 * 1000000000) (ch_seen_queries h)\<rparr>))"

subsection \<open>Bootstrap\<close>

datatype TraversalMethod = Direct | Reflexive | Relay

record BootstrapResult =
  br_peer_id :: PeerId
  br_addr :: SocketAddr
  br_method :: TraversalMethod

datatype BootstrapAction = Connect BootstrapResult | SendQuery FindCoordinatorQuery | NoAction

record 'b Bootstrap =
  bs_peer_id :: PeerId
  bs_cache :: "'b GossipCacheAdapter"
  bs_pending_queries :: "bytes \<rightharpoonup> instant"

definition bootstrap_new :: "PeerId \<Rightarrow> 'b GossipCacheAdapter \<Rightarrow> 'b Bootstrap" where
  "bootstrap_new p cache = \<lparr>bs_peer_id = p, bs_cache = cache, bs_pending_queries = Map.empty\<rparr>"

fun select_best_from_adverts :: "CoordinatorAdvert list \<Rightarrow> BootstrapResult option" where
  "select_best_from_adverts [] = None"
| "select_best_from_adverts (a # adverts) =
     (case ca_addr_hints a of
        [] \<Rightarrow> select_best_from_adverts adverts
      | h # _ \<Rightarrow> Some \<lparr>br_peer_id = ca_peer a, br_addr = ah_addr h, br_method = Direct\<rparr>)"

definition find_coordinator ::
  "(bytes \<Rightarrow> bytes) \<Rightarrow> bytes \<Rightarrow> PeerId list \<Rightarrow> instant \<Rightarrow> instant \<Rightarrow> 'b Bootstrap \<Rightarrow> BootstrapAction \<times> 'b Bootstrap" where
  "find_coordinator blake3 rand_bytes order tick now b =
     (let adverts = get_all_adverts order now (bs_cache b);
          best = (if adverts \<noteq> [] then select_best_from_adverts (sort_adverts_by_hint adverts) else None)
      in case best of
           Some result \<Rightarrow> (Connect result, b)
         | None \<Rightarrow>
             (let query = query_new blake3 rand_bytes now (bs_peer_id b)
              in (SendQuery query, b\<lparr>bs_pending_queries := (bs_pending_queries b)(fq_query_id query \<mapsto> tick)\<rparr>)))"

text \<open>The adverts of a response carry no public key: what is checked is that the signature is there and
  that the advert is valid.\<close>

definition accept_foaf_advert :: "('b, 'c) boot_ops \<Rightarrow> instant \<Rightarrow> CoordinatorAdvert \<Rightarrow> 'b GossipCacheAdapter \<Rightarrow> 'b GossipCacheAdapter" where
  "accept_foaf_advert B now advert g =
     (if ca_sig advert = [] then g
      else if \<not> is_valid now advert then g
      else snd (insert_advert B now advert g))"

definition handle_find_response ::
  "('b, 'c) boot_ops \<Rightarrow> PeerId list \<Rightarrow> instant \<Rightarrow> FindCoordinatorResponse \<Rightarrow> 'b Bootstrap \<Rightarrow> BootstrapAction option \<times> 'b Bootstrap" where
  "handle_find_response B order now response b =
     (let cache = fold (accept_foaf_advert B now) (fr_adverts response) (bs_cache b);
          b1 = b\<lparr>bs_pending_queries := map_remove (fr_query_id response) (bs_pending_queries b), bs_cache := cache\<rparr>
      in (map_option Connect (select_best_from_adverts (sort_adverts_by_hint (get_all_adverts order now cache))), b1))"

definition prune_expired_queries :: "instant \<Rightarrow> 'b Bootstrap \<Rightarrow> nat \<times> 'b Bootstrap" where
  "prune_expired_queries tick b =
     (let kept = map_retain (\<lambda>_ t. \<not> (tick - t) div 1000000000 > 30) (bs_pending_queries b)
      in (card (dom (bs_pending_queries b) - dom kept), b\<lparr>bs_pending_queries := kept\<rparr>))"

subsection \<open>The publisher\<close>

record CoordinatorPublisher =
  cp_peer_id :: PeerId
  cp_roles :: PeerRoles
  cp_addr_hints :: "SocketAddr list"
  cp_nat_class :: NatClass
  cp_signing_key :: "bytes option"
  cp_validity_duration :: nat

definition publisher_new :: "PeerId \<Rightarrow> PeerRoles \<Rightarrow> SocketAddr list \<Rightarrow> NatClass \<Rightarrow> CoordinatorPublisher" where
  "publisher_new p roles addrs nat_class =
     \<lparr>cp_peer_id = p, cp_roles = roles, cp_addr_hints = addrs, cp_nat_class = nat_class, cp_signing_key = None, cp_validity_duration = 3600000\<rparr>"

definition set_signing_key :: "bytes \<Rightarrow> CoordinatorPublisher \<Rightarrow> CoordinatorPublisher" where
  "set_signing_key key p = p\<lparr>cp_signing_key := Some key\<rparr>"

definition with_validity_duration :: "nat \<Rightarrow> CoordinatorPublisher \<Rightarrow> CoordinatorPublisher" where
  "with_validity_duration duration_ms p = p\<lparr>cp_validity_duration := duration_ms\<rparr>"

definition create_advert :: "advert_crypto \<Rightarrow> instant \<Rightarrow> CoordinatorPublisher \<Rightarrow> CoordinatorAdvert option" where
  "create_advert C now p =
     (let advert = advert_new now (cp_peer_id p) (cp_roles p) (map (addr_hint_new now) (cp_addr_hints p)) (cp_nat_class p) (cp_validity_duration p)
      in case cp_signing_key p of None \<Rightarrow> None | Some key \<Rightarrow> advert_sign C key advert)"

definition publish_advert :: "advert_crypto \<Rightarrow> instant \<Rightarrow> CoordinatorPublisher \<Rightarrow> bytes option" where
  "publish_advert C now p = Option.bind (create_advert C now p) (ac_to_cbor C)"

definition coordinator_topic :: "(bytes \<Rightarrow> bytes) \<Rightarrow> TopicId" where
  "coordinator_topic blake3 = TopicId (blake3 (ascii_bytes ''saorsa-coordinator-topic''))"

end
