(* ===== verification/Coordinator_Caches.thy ===== *)
theory Coordinator_Caches
  imports Coordinator
begin

text \<open>
  The two older caches of \<open>crates/coordinator/src\<close>: the LRU cache of adverts (\<open>cache.rs\<close>) over the crate
  \<open>lru\<close>, and the peer cache with its file (\<open>peer_cache.rs\<close>). A saved peer cache loads back as it was.
\<close>

subsection \<open>The LRU cache of adverts\<close>

type_synonym 'l advert_lru = "(PeerId, CoordinatorAdvert, 'l) lru_ops"

definition DEFAULT_CAPACITY :: nat where "DEFAULT_CAPACITY = 100"

definition non_zero_capacity :: "nat \<Rightarrow> nat" where
  "non_zero_capacity capacity = (if capacity = 0 then DEFAULT_CAPACITY else capacity)"

definition advert_cache_new :: "'l advert_lru \<Rightarrow> nat \<Rightarrow> 'l" where
  "advert_cache_new ops capacity = lru_new ops (non_zero_capacity (if capacity = 0 then DEFAULT_CAPACITY else capacity))"

definition advert_cache_insert :: "'l advert_lru \<Rightarrow> instant \<Rightarrow> CoordinatorAdvert \<Rightarrow> 'l \<Rightarrow> bool \<times> 'l" where
  "advert_cache_insert ops now advert c =
     (if \<not> is_valid now advert then (False, c) else (True, snd (lru_push ops (ca_peer advert) advert c)))"

definition advert_cache_get :: "'l advert_lru \<Rightarrow> instant \<Rightarrow> PeerId \<Rightarrow> 'l \<Rightarrow> CoordinatorAdvert option \<times> 'l" where
  "advert_cache_get ops now peer c =
     (case lru_get ops peer c of
        (None, c') \<Rightarrow> (None, c')
      | (Some advert, c') \<Rightarrow> (if is_valid now advert then Some advert else None, c'))"

definition get_all_sorted :: "'l advert_lru \<Rightarrow> instant \<Rightarrow> 'l \<Rightarrow> CoordinatorAdvert list" where
  "get_all_sorted ops now c = sort_key (\<lambda>a. - ca_score a) (map snd (filter (\<lambda>x. is_valid now (snd x)) (lru_iter ops c)))"

definition advert_cache_get_by_role :: "'l advert_lru \<Rightarrow> instant \<Rightarrow> (CoordinatorAdvert \<Rightarrow> bool) \<Rightarrow> 'l \<Rightarrow> CoordinatorAdvert list" where
  "advert_cache_get_by_role ops now role_filter c =
     map snd (filter (\<lambda>x. is_valid now (snd x) \<and> role_filter (snd x)) (lru_iter ops c))"

definition advert_cache_prune_expired :: "'l advert_lru \<Rightarrow> instant \<Rightarrow> 'l \<Rightarrow> nat \<times> 'l" where
  "advert_cache_prune_expired ops now c =
     (let to_remove = map fst (filter (\<lambda>x. \<not> is_valid now (snd x)) (lru_iter ops c))
      in (length to_remove, fold (\<lambda>p c. snd (lru_pop ops p c)) to_remove c))"

definition advert_cache_len :: "'l advert_lru \<Rightarrow> instant \<Rightarrow> 'l \<Rightarrow> nat" where
  "advert_cache_len ops now c = length (filter (\<lambda>x. is_valid now (snd x)) (lru_iter ops c))"

definition advert_cache_clear :: "'l advert_lru \<Rightarrow> 'l \<Rightarrow> 'l" where
  "advert_cache_clear ops c = ((\<lambda>l. snd (lru_pop_lru ops l)) ^^ lru_len ops c) c"

text \<open>\<open>put\<close> of the crate is \<open>lru_push\<close> without its result, and \<open>clear\<close> removes the entries one by one.\<close>

lemma fold_pop_iter:
  assumes "lru_laws ops"
  shows "lru_iter ops (fold (\<lambda>p c. snd (lru_pop ops p c)) ks c) = filter (\<lambda>x. fst x \<notin> set ks) (lru_iter ops c)"
proof (induction ks arbitrary: c)
  case Nil
  then show ?case by simp
next
  case (Cons k ks)
  have "lru_iter ops (snd (lru_pop ops k c)) = without k (lru_iter ops c)" using assms by (simp add: lru_laws_def lru_pops_def)
  then show ?case using Cons by (simp add: without_def conj_commute)
qed

text \<open>pruning the LRU cache of adverts removes the expired adverts and nothing else: it returns their
  number, the rest keeps its place, and afterwards every stored advert counts.\<close>

theorem advert_prune_exact:
  assumes "lru_laws ops"
  shows "case advert_cache_prune_expired ops now c of (n, c') \<Rightarrow>
    lru_iter ops c' = filter (\<lambda>x. is_valid now (snd x)) (lru_iter ops c) \<and> n = lru_len ops c - lru_len ops c' \<and>
    advert_cache_len ops now c' = lru_len ops c'"
proof -
  let ?xs = "lru_iter ops c"
  let ?ks = "map fst (filter (\<lambda>x. \<not> is_valid now (snd x)) ?xs)"
  let ?c' = "fold (\<lambda>p c. snd (lru_pop ops p c)) ?ks c"
  have d: "distinct (map fst ?xs)" and len: "\<And>l. lru_len ops l = length (lru_iter ops l)"
    using assms by (simp_all add: lru_laws_def lru_reads_def)
  have "fst x \<notin> set ?ks \<longleftrightarrow> is_valid now (snd x)" if "x \<in> set ?xs" for x
  proof -
    have "fst x = fst y \<longleftrightarrow> x = y" if "y \<in> set ?xs" for y using d that \<open>x \<in> set ?xs\<close> by (metis (no_types) distinct_map inj_onD)
    then show ?thesis using \<open>x \<in> set ?xs\<close> by auto
  qed
  then have it: "lru_iter ops ?c' = filter (\<lambda>x. is_valid now (snd x)) ?xs"
    unfolding fold_pop_iter [OF assms] by (intro filter_cong) simp_all
  have "length ?ks + length (filter (\<lambda>x. is_valid now (snd x)) ?xs) = length ?xs"
    using sum_length_filter_compl [of "\<lambda>x. is_valid now (snd x)" ?xs] by simp
  then show ?thesis using it len by (simp add: advert_cache_prune_expired_def advert_cache_len_def)
qed

definition demo_advert :: CoordinatorAdvert where
  "demo_advert = advert_new 0 (PeerId [1]) default_roles [\<lparr>ah_addr = ([127, 0, 0, 1], 9000), ah_observed_at = 0\<rparr>] Eim 10"

definition demo_lru :: "(PeerId, CoordinatorAdvert) lru_list" where
  "demo_lru = snd (advert_cache_insert list_lru 0 demo_advert (advert_cache_new list_lru 0))"

lemma demo_lru_iter: "lru_iter list_lru demo_lru = [(PeerId [1], demo_advert)]"
  by (simp add: demo_lru_def advert_cache_insert_def advert_cache_new_def is_valid_def demo_advert_def advert_new_def list_lru_def list_push_def
      non_zero_capacity_def DEFAULT_CAPACITY_def unix_millis_def u64_max_eq)

theorem advert_prune_exact_witness:
  "case advert_cache_prune_expired list_lru 60000000 demo_lru of (n, c') \<Rightarrow> n = 1 \<and> lru_iter list_lru c' = []"
proof -
  have len: "lru_len list_lru l = length (lru_iter list_lru l)" for l :: "(PeerId, CoordinatorAdvert) lru_list"
    by (simp add: list_lru_def)
  show ?thesis
    using advert_prune_exact [OF list_lru_laws, of 60000000 demo_lru]
    by (auto simp: len demo_lru_iter is_valid_def unix_millis_def demo_advert_def advert_new_def u64_max_eq)
qed

subsection \<open>The peer cache\<close>

record PeerCacheEntry =
  pe_peer_id :: PeerId
  pe_public_addrs :: "SocketAddr list"
  pe_reflexive_addrs :: "SocketAddr list"
  pe_relay_peer :: "PeerId option"
  pe_last_success :: nat
  pe_nat_class :: NatClass
  pe_roles :: PeerRoles

type_synonym PeerCache = "PeerId \<rightharpoonup> PeerCacheEntry"

definition cache_entry_new :: "instant \<Rightarrow> PeerId \<Rightarrow> SocketAddr list \<Rightarrow> NatClass \<Rightarrow> PeerRoles \<Rightarrow> PeerCacheEntry" where
  "cache_entry_new now p addrs nat_class roles =
     \<lparr>pe_peer_id = p, pe_public_addrs = addrs, pe_reflexive_addrs = [], pe_relay_peer = None,
      pe_last_success = unix_millis now, pe_nat_class = nat_class, pe_roles = roles\<rparr>"

definition with_reflexive_addrs :: "SocketAddr list \<Rightarrow> PeerCacheEntry \<Rightarrow> PeerCacheEntry" where
  "with_reflexive_addrs addrs e = e\<lparr>pe_reflexive_addrs := addrs\<rparr>"

definition with_relay_peer :: "PeerId \<Rightarrow> PeerCacheEntry \<Rightarrow> PeerCacheEntry" where
  "with_relay_peer relay e = e\<lparr>pe_relay_peer := Some relay\<rparr>"

definition mark_success :: "instant \<Rightarrow> PeerCacheEntry \<Rightarrow> PeerCacheEntry" where
  "mark_success now e = e\<lparr>pe_last_success := unix_millis now\<rparr>"

definition is_recent :: "instant \<Rightarrow> PeerCacheEntry \<Rightarrow> bool" where
  "is_recent now e \<longleftrightarrow> u64_sub (unix_millis now) (pe_last_success e) < 24 * 3600 * 1000"

definition peer_cache_insert :: "PeerCacheEntry \<Rightarrow> PeerCache \<Rightarrow> PeerCache" where
  "peer_cache_insert e m = m(pe_peer_id e \<mapsto> e)"

definition get_coordinators :: "PeerId list \<Rightarrow> PeerCache \<Rightarrow> PeerCacheEntry list" where
  "get_coordinators order m = sort_key (\<lambda>e. - int (pe_last_success e)) (filter (\<lambda>e. pr_coordinator (pe_roles e)) (List.map_filter m order))"

definition peer_cache_get_by_role :: "PeerId list \<Rightarrow> (PeerCacheEntry \<Rightarrow> bool) \<Rightarrow> PeerCache \<Rightarrow> PeerCacheEntry list" where
  "peer_cache_get_by_role order role_filter m = filter role_filter (List.map_filter m order)"

definition prune_old :: "instant \<Rightarrow> PeerCache \<Rightarrow> nat \<times> PeerCache" where
  "prune_old now m =
     (let cutoff = u64_sub (unix_millis now) (7 * 24 * 3600 * 1000);
          kept = map_retain (\<lambda>_ e. \<not> pe_last_success e < cutoff) m
      in (card (dom m - dom kept), kept))"

text \<open>CBOR and the file system: the content of a file is the bytes last written to it, or \<open>None\<close> where
  there is no file.\<close>

record peer_cache_codec =
  pcc_encode :: "PeerCacheEntry list \<Rightarrow> bytes option"
  pcc_decode :: "bytes \<Rightarrow> PeerCacheEntry list option"

definition peer_cache_save :: "peer_cache_codec \<Rightarrow> PeerId list \<Rightarrow> PeerCache \<Rightarrow> bytes option" where
  "peer_cache_save K order m = pcc_encode K (List.map_filter m order)"

definition peer_cache_load :: "peer_cache_codec \<Rightarrow> bytes option \<Rightarrow> PeerCache option" where
  "peer_cache_load K file =
     (case file of
        None \<Rightarrow> Some Map.empty
      | Some content \<Rightarrow> map_option (\<lambda>es. fold peer_cache_insert es Map.empty) (pcc_decode K content))"

definition keyed :: "PeerCache \<Rightarrow> bool" where
  "keyed m \<longleftrightarrow> (\<forall>p e. m p = Some e \<longrightarrow> pe_peer_id e = p)"

definition codec_ok :: "peer_cache_codec \<Rightarrow> bool" where
  "codec_ok K \<longleftrightarrow> (\<forall>es b. pcc_encode K es = Some b \<longrightarrow> pcc_decode K b = Some es)"

lemma keyed_insert: "keyed m \<Longrightarrow> keyed (peer_cache_insert e m)"
  by (simp add: keyed_def peer_cache_insert_def)

lemma keyed_fold: "keyed m \<Longrightarrow> keyed (fold peer_cache_insert es m)"
  by (induction es arbitrary: m) (simp_all add: keyed_insert)

lemma fold_insert_order:
  assumes "keyed m" "distinct ks" "set ks \<subseteq> dom m"
  shows "fold peer_cache_insert (List.map_filter m ks) n = (\<lambda>k. if k \<in> set ks then m k else n k)"
  using assms(2,3)
proof (induction ks arbitrary: n)
  case Nil
  then show ?case by (simp add: List.map_filter_simps)
next
  case (Cons k ks)
  then obtain e where e: "m k = Some e" "pe_peer_id e = k" using assms(1) by (auto simp: keyed_def)
  have ins: "peer_cache_insert e n = n(k \<mapsto> e)" by (simp add: peer_cache_insert_def e(2))
  have "fold peer_cache_insert (List.map_filter m (k # ks)) n = (\<lambda>j. if j \<in> set ks then m j else (n(k \<mapsto> e)) j)"
    unfolding List.map_filter_simps e(1) option.case fold_simps ins by (rule Cons.IH) (use Cons.prems in simp_all)
  then show ?case using Cons.prems(1) e(1) by (auto simp: fun_eq_iff)
qed

text \<open>a peer cache that is saved and loaded again is the same cache, in whatever order the entries are
  written, as long as CBOR decodes what it encoded; a missing file is the empty cache. Every cache the
  operations build has the entries under their own peer, which is what the file relies on.\<close>

theorem peer_cache_roundtrip:
  assumes "codec_ok K" "iterates order m" "keyed m" "peer_cache_save K order m = Some content"
  shows "peer_cache_load K (Some content) = Some m \<and> peer_cache_load K None = Some Map.empty \<and> keyed (peer_cache_insert e m)"
proof -
  have "pcc_decode K content = Some (List.map_filter m order)" using assms(1,4) by (simp add: codec_ok_def peer_cache_save_def)
  moreover have "fold peer_cache_insert (List.map_filter m order) Map.empty = m"
  proof -
    have "distinct order" "set order = dom m" using assms(2) by (simp_all add: iterates_def)
    then show ?thesis using fold_insert_order [OF assms(3), of order Map.empty] by (auto simp: fun_eq_iff domIff)
  qed
  ultimately show ?thesis using keyed_insert [OF assms(3)] by (simp add: peer_cache_load_def)
qed


definition demo_entry :: PeerCacheEntry where
  "demo_entry = cache_entry_new 0 (PeerId [7]) [([10, 0, 0, 7], 4433)] Edm default_roles"

definition demo_codec :: peer_cache_codec where
  "demo_codec = \<lparr>pcc_encode = \<lambda>es. if es = [demo_entry] then Some [42] else None, pcc_decode = \<lambda>b. if b = [42] then Some [demo_entry] else None\<rparr>"

theorem peer_cache_roundtrip_witness:
  "peer_cache_save demo_codec [PeerId [7]] [PeerId [7] \<mapsto> demo_entry] = Some [42] \<and>
   peer_cache_load demo_codec (Some [42]) = Some [PeerId [7] \<mapsto> demo_entry]"
proof -
  have "codec_ok demo_codec" by (simp add: codec_ok_def demo_codec_def)
  moreover have "iterates [PeerId [7]] [PeerId [7] \<mapsto> demo_entry]" by (simp add: iterates_def)
  moreover have "keyed [PeerId [7] \<mapsto> demo_entry]" by (simp add: keyed_def demo_entry_def cache_entry_new_def)
  moreover have save: "peer_cache_save demo_codec [PeerId [7]] [PeerId [7] \<mapsto> demo_entry] = Some [42]"
    by (simp add: peer_cache_save_def demo_codec_def List.map_filter_simps)
  ultimately show ?thesis using peer_cache_roundtrip [of demo_codec "[PeerId [7]]" "[PeerId [7] \<mapsto> demo_entry]" "[42]" demo_entry] by blast
qed

end
