(* ===== verification/Discovery.thy ===== *)
theory Discovery
  imports Coordinator
begin

text \<open>
  What coordinator discovery promises: when a query id is answered again, the handler only caches adverts
  their peer has signed, and the bootstrap connects to the best advert that has an address or asks for
  one.
\<close>

subsection \<open>Runs of the handler\<close>

datatype handler_event = QueryIn FindCoordinatorQuery | AdvertIn CoordinatorAdvert bytes | PruneTick

fun handler_step ::
  "advert_crypto \<Rightarrow> ('b, 'c) boot_ops \<Rightarrow> instant \<times> instant \<Rightarrow> PeerId list \<Rightarrow> handler_event \<Rightarrow> 'b CoordinatorHandler \<Rightarrow>
     FindCoordinatorResponse option \<times> 'b CoordinatorHandler" where
  "handler_step C B (tick, wall) order (QueryIn q) h = handle_find_query order tick wall q h"
| "handler_step C B (tick, wall) order (AdvertIn a pk) h = (None, snd (handle_advert C B wall a pk h))"
| "handler_step C B (tick, wall) order PruneTick h = (None, snd (handler_prune tick wall h))"

text \<open>An event comes with the readings of the monotonic and of the wall clock. A run results in the answer to each event, if there is one.\<close>

type_synonym timed_event = "(instant \<times> instant) \<times> PeerId list \<times> handler_event"

abbreviation tick_at :: "timed_event \<Rightarrow> instant" where "tick_at e \<equiv> fst (fst e)"

abbreviation wall_at :: "timed_event \<Rightarrow> instant" where "wall_at e \<equiv> snd (fst e)"

fun handler_run ::
  "advert_crypto \<Rightarrow> ('b, 'c) boot_ops \<Rightarrow> timed_event list \<Rightarrow> 'b CoordinatorHandler \<Rightarrow>
     FindCoordinatorResponse option list \<times> 'b CoordinatorHandler" where
  "handler_run C B [] h = ([], h)"
| "handler_run C B ((now, order, ev) # evs) h =
     (let (r, h1) = handler_step C B now order ev h; (rs, h2) = handler_run C B evs h1 in (r # rs, h2))"

lemma handler_run_Cons:
  "fst (handler_run C B ((now, order, ev) # evs) h) =
     fst (handler_step C B now order ev h) # fst (handler_run C B evs (snd (handler_step C B now order ev h)))"
  "snd (handler_run C B ((now, order, ev) # evs) h) = snd (handler_run C B evs (snd (handler_step C B now order ev h)))"
  by (simp_all add: Let_def split_beta)

lemma handler_run_nth:
  assumes "e = (now, order, ev)"
  shows "fst (handler_run C B (e # evs) h) ! 0 = fst (handler_step C B now order ev h)"
    "fst (handler_run C B (e # evs) h) ! Suc n = fst (handler_run C B evs (snd (handler_step C B now order ev h))) ! n"
  by (simp_all only: assms handler_run_Cons nth_Cons_0 nth_Cons_Suc)

lemma find_query_cases:
  "fst (handle_find_query order tick wall q h) = Some r \<Longrightarrow>
     ch_seen_queries h (fq_query_id q) = None \<and> \<not> query_is_expired wall q \<and> fr_query_id r = fq_query_id q"
  "ch_seen_queries (snd (handle_find_query order tick wall q h)) =
     (if ch_seen_queries h (fq_query_id q) = None then (ch_seen_queries h)(fq_query_id q \<mapsto> tick) else ch_seen_queries h)"
  "ch_cache (snd (handle_find_query order tick wall q h)) = ch_cache h"
  by (auto simp: handle_find_query_def query_decrement_ttl_def Let_def split: if_splits)

lemma handle_advert_seen: "ch_seen_queries (snd (handle_advert C B now a pk h)) = ch_seen_queries h"
  by (simp add: handle_advert_def Let_def split_beta split: option.split)

lemma prune_seen: "ch_seen_queries (snd (handler_prune tick wall h)) = map_retain (\<lambda>_ t. \<not> tick - t > 30 * 1000000000) (ch_seen_queries h)"
  by (simp add: handler_prune_def Let_def split_beta)

lemma step_answer:
  assumes "fst (handler_step C B now order ev h) = Some r"
  obtains q where "ev = QueryIn q" "fq_query_id q = fr_query_id r" "ch_seen_queries h (fr_query_id r) = None"
    "\<not> query_is_expired (snd now) q" "ch_seen_queries (snd (handler_step C B now order ev h)) (fr_query_id r) = Some (fst now)"
proof -
  obtain tick wall where now: "now = (tick, wall)" by fastforce
  then obtain q where q: "ev = QueryIn q" using assms by (cases ev) simp_all
  then show thesis using that [of q] assms find_query_cases(1) [of order tick wall q h r] by (simp add: now find_query_cases(2))
qed

lemma step_remembers:
  assumes "ch_seen_queries h i = Some t" "\<not> (ev = PruneTick \<and> fst now - t > 30 * 1000000000)"
  shows "ch_seen_queries (snd (handler_step C B now order ev h)) i = Some t"
  using assms by (cases ev; cases now) (auto simp: find_query_cases(2) handle_advert_seen prune_seen)

text \<open>An id that is remembered since an instant is answered again only after a prune that finds it too old.\<close>

lemma answer_after_prune:
  assumes "ch_seen_queries h i = Some t" "n < length evs" "fst (handler_run C B evs h) ! n = Some r" "fr_query_id r = i"
  shows "\<exists>l < n. snd (snd (evs ! l)) = PruneTick \<and> tick_at (evs ! l) - t > 30 * 1000000000"
  using assms
proof (induction evs arbitrary: h n)
  case (Cons e evs)
  obtain now order ev where e: "e = (now, order, ev)" by (metis surj_pair)
  show ?case
  proof (cases n)
    case 0
    then have "fst (handler_step C B now order ev h) = Some r" using Cons.prems(3) by (simp only: handler_run_nth [OF e])
    then have "ch_seen_queries h i = None" using Cons.prems(4) by (auto elim: step_answer)
    then show ?thesis using Cons.prems(1) by simp
  next
    case (Suc k)
    show ?thesis
    proof (cases "ev = PruneTick \<and> fst now - t > 30 * 1000000000")
      case True
      then show ?thesis using Suc e by (intro exI [of _ 0]) simp
    next
      case False
      have "k < length evs" using Cons.prems(2) Suc by simp
      moreover have "fst (handler_run C B evs (snd (handler_step C B now order ev h))) ! k = Some r"
        using Cons.prems(3) unfolding Suc handler_run_nth(2) [OF e] .
      ultimately obtain l where "l < k" "snd (snd (evs ! l)) = PruneTick" "tick_at (evs ! l) - t > 30 * 1000000000"
        using Cons.IH [OF step_remembers [OF Cons.prems(1) False] _ _ Cons.prems(4)] by blast
      then show ?thesis using Suc by (intro exI [of _ "Suc l"]) simp
    qed
  qed
qed simp

lemma answered_query:
  assumes "n < length evs" "fst (handler_run C B evs h) ! n = Some r"
  shows "\<exists>q. snd (snd (evs ! n)) = QueryIn q \<and> fq_query_id q = fr_query_id r \<and> \<not> query_is_expired (wall_at (evs ! n)) q"
  using assms
proof (induction evs arbitrary: h n)
  case (Cons e evs)
  obtain now order ev where e: "e = (now, order, ev)" by (metis surj_pair)
  show ?case
  proof (cases n)
    case 0
    then have "fst (handler_step C B now order ev h) = Some r" using Cons.prems(2) by (simp only: handler_run_nth [OF e])
    then show ?thesis using 0 e by (auto elim!: step_answer)
  next
    case (Suc k)
    then show ?thesis using Cons.IH [of k] Cons.prems handler_run_nth(2) [OF e, of C B evs h k] by simp
  qed
qed simp

lemma answered_twice:
  assumes "m < n" "n < length evs" "fst (handler_run C B evs h) ! m = Some r" "fst (handler_run C B evs h) ! n = Some r'" "fr_query_id r' = fr_query_id r"
  shows "\<exists>l. m < l \<and> l < n \<and> snd (snd (evs ! l)) = PruneTick \<and> tick_at (evs ! l) - tick_at (evs ! m) > 30 * 1000000000"
  using assms
proof (induction evs arbitrary: h m n)
  case (Cons e evs)
  obtain now order ev where e: "e = (now, order, ev)" by (metis surj_pair)
  let ?h = "snd (handler_step C B now order ev h)"
  obtain k where k: "n = Suc k" "k < length evs" using Cons.prems(1,2) by (cases n) simp_all
  have r': "fst (handler_run C B evs ?h) ! k = Some r'" using Cons.prems(4) unfolding k(1) handler_run_nth(2) [OF e] .
  show ?case
  proof (cases m)
    case 0
    then have "fst (handler_step C B now order ev h) = Some r" using Cons.prems(3) by (simp only: handler_run_nth [OF e])
    then have "ch_seen_queries ?h (fr_query_id r) = Some (fst now)" by (auto elim: step_answer)
    from answer_after_prune [OF this k(2) r' Cons.prems(5)] obtain l where
      "l < k" "snd (snd (evs ! l)) = PruneTick" "tick_at (evs ! l) - fst now > 30 * 1000000000" by blast
    then show ?thesis using 0 k(1) e by (intro exI [of _ "Suc l"]) simp
  next
    case (Suc j)
    have "fst (handler_run C B evs ?h) ! j = Some r" using Cons.prems(3) unfolding Suc handler_run_nth(2) [OF e] .
    then obtain l where "j < l" "l < k" "snd (snd (evs ! l)) = PruneTick" "tick_at (evs ! l) - tick_at (evs ! j) > 30 * 1000000000"
      using Cons.IH [OF _ k(2) _ r' Cons.prems(5)] Cons.prems(1) Suc k(1) by auto
    then show ?thesis using Suc k(1) by (intro exI [of _ "Suc l"]) simp
  qed
qed simp

lemma millis_later: "30 * 1000000000 < b - a \<Longrightarrow> unix_millis a + 30000 \<le> unix_millis b"
  using div_le_mono [of "a + 30000 * 1000000" b 1000000] by (simp add: unix_millis_def)


definition plain_crypto :: advert_crypto where
  "plain_crypto = \<lparr>ac_encode = \<lambda>f. Some (peer_bytes (sf_peer f)), ac_sign = \<lambda>k m. Some (k @ m), ac_verify = \<lambda>k m s. Some (s = k @ m),
     ac_hash = \<lambda>b. b, ac_to_cbor = \<lambda>a. None, ac_from_cbor = \<lambda>b. None\<rparr>"

definition plain_boot :: "(unit, unit) boot_ops" where
  "plain_boot = \<lparr>bo_add_from_connection = \<lambda>_ _ b. b, bo_select_coordinators = \<lambda>_ _. [], bo_select_relay_peers = \<lambda>_ _. [],
     bo_select_peers = \<lambda>_ _. [], bo_record_success = \<lambda>_ _ b. b, bo_record_failure = \<lambda>_ b. b, bo_get_peer = \<lambda>_ _. None,
     bo_contains = \<lambda>_ _. False, bo_peer_count = \<lambda>_. 0, bo_remove = \<lambda>_ b. b, bo_peer_id = \<lambda>_. []\<rparr>"

definition demo_query :: FindCoordinatorQuery where
  "demo_query = \<lparr>fq_query_id = [5], fq_origin = PeerId [1], fq_ttl = 2, fq_created_at = 1\<rparr>"


subsection \<open>Adverts\<close>

text \<open>Every advert of a cache is stored under its peer and carries a signature of that peer's key.\<close>

definition authentic :: "advert_crypto \<Rightarrow> 'b GossipCacheAdapter \<Rightarrow> bool" where
  "authentic C g \<longleftrightarrow> (\<forall>p a. ga_adverts g p = Some a \<longrightarrow>
     ca_peer a = p \<and> (\<exists>pk. from_pubkey (ac_hash C) pk = p \<and> advert_verify C pk a = Some True))"

lemma authentic_advert:
  assumes "\<forall>g. ch_cache h = Some g \<longrightarrow> authentic C g" "ch_cache (snd (handle_advert C B now a pk h)) = Some g"
  shows "authentic C g"
proof (cases "from_pubkey (ac_hash C) pk = ca_peer a \<and> advert_verify C pk a = Some True \<and> is_valid now a \<and> ch_cache h \<noteq> None")
  case False
  then have "ch_cache (snd (handle_advert C B now a pk h)) = ch_cache h"
    by (auto simp: handle_advert_def insert_advert_def Let_def split: option.split)
  then show ?thesis using assms by simp
next
  case True
  then obtain g0 where g0: "ch_cache h = Some g0" by blast
  then have "g = snd (insert_advert B now a g0)"
    using assms(2) True by (simp add: handle_advert_def Let_def split_beta)
  then have "ga_adverts g = (ga_adverts g0)(ca_peer a \<mapsto> a)" using True by (simp add: insert_advert_def)
  then show ?thesis using assms(1) g0 True unfolding authentic_def by auto
qed

lemma authentic_prune:
  assumes "\<forall>g. ch_cache h = Some g \<longrightarrow> authentic C g" "ch_cache (snd (handler_prune tick wall h)) = Some g"
  shows "authentic C g"
proof -
  obtain g0 where "ch_cache h = Some g0" "g = snd (prune_expired_adverts wall g0)"
    using assms(2) by (auto simp: handler_prune_def Let_def split_beta split: option.splits)
  then show ?thesis using assms(1) by (auto simp: authentic_def prune_expired_adverts_def Let_def)
qed

text \<open>C29: whatever arrives at the handler, in any order and at any time, an advert gets into its cache only
  with a signature that verifies under a key of the very peer it names; so nobody can place an advert
  for another peer.\<close>

theorem handler_cache_authentic:
  assumes "\<forall>g. ch_cache h = Some g \<longrightarrow> authentic C g" "ch_cache (snd (handler_run C B evs h)) = Some g"
  shows "authentic C g"
  using assms
proof (induction evs arbitrary: h)
  case Nil
  then show ?case by simp
next
  case (Cons e evs)
  obtain tick wall order ev where e: "e = ((tick, wall), order, ev)" by (metis surj_pair)
  have "\<forall>g. ch_cache (snd (handler_step C B (tick, wall) order ev h)) = Some g \<longrightarrow> authentic C g"
  proof (cases ev)
    case (QueryIn q)
    then show ?thesis using Cons.prems(1) by (simp add: find_query_cases(3))
  next
    case (AdvertIn a pk)
    show ?thesis unfolding AdvertIn handler_step.simps snd_conv using authentic_advert [OF Cons.prems(1), of B wall a pk] by blast
  next
    case PruneTick
    then show ?thesis using authentic_prune [OF Cons.prems(1)] by simp
  qed
  then show ?case using Cons.IH Cons.prems(2) unfolding e handler_run_Cons(2) by blast
qed

definition signed_advert :: CoordinatorAdvert where
  "signed_advert = (advert_new 0 (from_pubkey (\<lambda>b. b) [3]) default_roles [\<lparr>ah_addr = ([10, 0, 0, 3], 5000), ah_observed_at = 0\<rparr>] Eim 1000)
     \<lparr>ca_sig := [3] @ peer_bytes (from_pubkey (\<lambda>b. b) [3])\<rparr>"

theorem handler_cache_authentic_witness:
  "case ch_cache (snd (handler_run plain_crypto plain_boot [((5, 5), [], AdvertIn signed_advert [3])] (handler_with_cache (PeerId [9]) (adapter_new ())))) of
     None \<Rightarrow> False | Some g \<Rightarrow> authentic plain_crypto g \<and> ga_adverts g (ca_peer signed_advert) = Some signed_advert"
proof -
  let ?h = "handler_with_cache (PeerId [9]) (adapter_new ())"
  let ?r = "handler_run plain_crypto plain_boot [((5, 5), [], AdvertIn signed_advert [3])] ?h"
  have v: "is_valid 5 signed_advert" by (simp add: is_valid_def signed_advert_def advert_new_def unix_millis_def u64_max_eq)
  have k: "from_pubkey (\<lambda>b. b) [3] = ca_peer signed_advert" "ca_sig signed_advert = [3] @ peer_bytes (ca_peer signed_advert)"
    by (simp_all add: signed_advert_def advert_new_def)
  have c: "ch_cache (snd ?r) = Some (snd (insert_advert plain_boot 5 signed_advert (adapter_new ())))"
    using k by (simp add: Let_def split_beta handle_advert_def handler_with_cache_def plain_crypto_def advert_verify_def signable_fields_def)
  have "\<forall>g. ch_cache ?h = Some g \<longrightarrow> authentic plain_crypto g" by (simp add: handler_with_cache_def adapter_new_def authentic_def)
  from handler_cache_authentic [OF this c]
  show ?thesis using c v by (simp add: insert_advert_def adapter_new_def)
qed

text \<open>A FOAF response is not under that guard: its adverts need a non-empty signature only, and they
  replace what was cached. Here one forged advert takes the place of a signed one.\<close>

theorem foaf_response_replaces_authentic:
  "ga_adverts (bs_cache (snd (handle_find_response plain_boot [] 5
       \<lparr>fr_query_id = [0], fr_responder = PeerId [66], fr_adverts = [signed_advert\<lparr>ca_addr_hints := [], ca_sig := [0]\<rparr>]\<rparr>
       (bootstrap_new (PeerId [9]) \<lparr>ga_cache = (), ga_adverts = [ca_peer signed_advert \<mapsto> signed_advert]\<rparr>)))) (ca_peer signed_advert) =
     Some (signed_advert\<lparr>ca_addr_hints := [], ca_sig := [0]\<rparr>) \<and>
   advert_verify plain_crypto [3] (signed_advert\<lparr>ca_addr_hints := [], ca_sig := [0]\<rparr>) = Some False"
  by (simp add: handle_find_response_def accept_foaf_advert_def insert_advert_def is_valid_def signed_advert_def advert_new_def
      unix_millis_def u64_max_eq bootstrap_new_def Let_def plain_crypto_def advert_verify_def from_pubkey_def)


subsection \<open>The choice of a coordinator\<close>

lemma select_best_Some:
  assumes "select_best_from_adverts xs = Some r" "sorted (map hint_rank xs)"
  shows "\<exists>a h hs. a \<in> set xs \<and> ca_addr_hints a = h # hs \<and> r = \<lparr>br_peer_id = ca_peer a, br_addr = ah_addr h, br_method = Direct\<rparr> \<and>
    (\<forall>b \<in> set xs. ca_addr_hints b \<noteq> [] \<longrightarrow> hint_rank a \<le> hint_rank b)"
  using assms
proof (induction xs)
  case Nil
  then show ?case by simp
next
  case (Cons x xs)
  show ?case
  proof (cases "ca_addr_hints x")
    case Nil
    then obtain a h hs where "a \<in> set xs" "ca_addr_hints a = h # hs" "r = \<lparr>br_peer_id = ca_peer a, br_addr = ah_addr h, br_method = Direct\<rparr>"
      "\<forall>b \<in> set xs. ca_addr_hints b \<noteq> [] \<longrightarrow> hint_rank a \<le> hint_rank b"
      using Cons.IH Cons.prems by auto
    then show ?thesis using Nil by (intro exI [of _ a] exI [of _ h] exI [of _ hs]) auto
  next
    case (Cons h hs)
    then show ?thesis using Cons.prems by (intro exI [of _ x] exI [of _ h] exI [of _ hs]) auto
  qed
qed

lemma select_best_None: "select_best_from_adverts xs = None \<longleftrightarrow> (\<forall>a \<in> set xs. ca_addr_hints a = [])"
  by (induction xs) (auto split: list.split)

definition live_adverts :: "instant \<Rightarrow> 'b GossipCacheAdapter \<Rightarrow> CoordinatorAdvert set" where
  "live_adverts now g = {a. \<exists>p. ga_adverts g p = Some a \<and> is_valid now a}"

lemma all_adverts_set:
  assumes "iterates order (ga_adverts g)"
  shows "set (get_all_adverts order now g) = live_adverts now g"
  using iterates_mem [OF assms] by (force simp: get_all_adverts_def live_adverts_def adverts_in_order_def List.map_filter_def)

lemma hint_rank_le:
  "hint_rank a \<le> hint_rank b \<longleftrightarrow> hint_weight b < hint_weight a \<or> hint_weight b = hint_weight a \<and> ca_score b \<le> ca_score a"
  by (auto simp: hint_rank_def less_eq_prod_def)

text \<open>the bootstrap connects if and only if some cached advert is valid and has an address, and then to
  the first address of an advert that no other such advert beats in hinted roles, or in score with as
  many roles. Otherwise it asks the overlay, with a fresh query of full range that it remembers.\<close>

theorem bootstrap_choice_exact:
  assumes "iterates order (ga_adverts (bs_cache b))"
  shows "case find_coordinator hash rnd order tick now b of (action, b') \<Rightarrow>
    (case action of
       Connect r \<Rightarrow> b' = b \<and> (\<exists>a h hs. a \<in> live_adverts now (bs_cache b) \<and> ca_addr_hints a = h # hs \<and>
         r = \<lparr>br_peer_id = ca_peer a, br_addr = ah_addr h, br_method = Direct\<rparr> \<and>
         (\<forall>other \<in> live_adverts now (bs_cache b). ca_addr_hints other \<noteq> [] \<longrightarrow>
            hint_weight other < hint_weight a \<or> hint_weight other = hint_weight a \<and> ca_score other \<le> ca_score a))
     | SendQuery q \<Rightarrow> (\<forall>a \<in> live_adverts now (bs_cache b). ca_addr_hints a = []) \<and>
         q = query_new hash rnd now (bs_peer_id b) \<and> bs_pending_queries b' (fq_query_id q) = Some tick \<and> bs_cache b' = bs_cache b
     | NoAction \<Rightarrow> False)"
proof -
  let ?xs = "get_all_adverts order now (bs_cache b)"
  have set: "set (sort_adverts_by_hint ?xs) = live_adverts now (bs_cache b)"
    using all_adverts_set [OF assms] by (simp add: sort_adverts_by_hint_def)
  have so: "sorted (map hint_rank (sort_adverts_by_hint ?xs))" by (simp add: sort_adverts_by_hint_def)
  show ?thesis
  proof (cases "select_best_from_adverts (sort_adverts_by_hint ?xs)")
    case None
    then have "\<forall>a \<in> live_adverts now (bs_cache b). ca_addr_hints a = []" unfolding select_best_None set .
    then show ?thesis using None by (simp add: find_coordinator_def Let_def)
  next
    case (Some r)
    then have "?xs \<noteq> []" by (auto simp: sort_adverts_by_hint_def)
    then show ?thesis using Some select_best_Some [OF Some so] unfolding set hint_rank_le by (simp add: find_coordinator_def Let_def)
  qed
qed

theorem bootstrap_choice_exact_witness:
  "fst (find_coordinator (\<lambda>b. b) [1] [ca_peer signed_advert] 4 5
     (bootstrap_new (PeerId [9]) \<lparr>ga_cache = (), ga_adverts = [ca_peer signed_advert \<mapsto> signed_advert]\<rparr>)) \<noteq> NoAction"
proof -
  let ?b = "bootstrap_new (PeerId [9]) \<lparr>ga_cache = (), ga_adverts = [ca_peer signed_advert \<mapsto> signed_advert]\<rparr>"
  have "iterates [ca_peer signed_advert] (ga_adverts (bs_cache ?b))" by (simp add: iterates_def bootstrap_new_def)
  from bootstrap_choice_exact [OF this, where hash = "\<lambda>b. b" and rnd = "[1]" and tick = 4 and now = 5] show ?thesis by (auto split: prod.splits BootstrapAction.splits)
qed

end
