(* ===== verification/Presence.thy ===== *)
theory Presence
  imports Gossip_Types
begin

text \<open>
  Presence, \<open>crates/presence/src\<close> with the group contexts of \<open>crates/groups/src\<close>: the beacons a node
  sends and stores, the validation of records, FOAF queries with their aggregation, and the rate
  limiter per peer.

  Instants are nanoseconds; \<open>unix_secs\<close> reads the same clock. The signature scheme, BLAKE3, postcard,
  the random number generator and the arithmetic of \<open>f64\<close> are parameters; the transport is the list of
  messages that are sent, as the code ignores how the sends end, and of the peers whose send timed
  out. The environment variables that switch the policies are fields of the environment.
\<close>

subsection \<open>Group contexts\<close>

datatype CipherSuite = MlKem768MlDsa65

record GroupContext =
  gc_topic_id :: TopicId
  gc_cipher_suite :: CipherSuite
  gc_epoch :: nat
  gc_presence_exporter :: "bytes option"

definition group_new :: "TopicId \<Rightarrow> GroupContext" where
  "group_new topic = \<lparr>gc_topic_id = topic, gc_cipher_suite = MlKem768MlDsa65, gc_epoch = 0, gc_presence_exporter = None\<rparr>"

definition with_presence_exporter :: "TopicId \<Rightarrow> bytes \<Rightarrow> GroupContext" where
  "with_presence_exporter topic secret = (group_new topic)\<lparr>gc_presence_exporter := Some secret\<rparr>"

definition group_from_entity :: "(bytes \<Rightarrow> bytes) \<Rightarrow> bytes \<Rightarrow> GroupContext" where
  "group_from_entity blake3 entity_id = group_new (topic_from_entity blake3 entity_id)"

definition set_presence_exporter :: "bytes \<Rightarrow> GroupContext \<Rightarrow> GroupContext" where
  "set_presence_exporter secret g = g\<lparr>gc_presence_exporter := Some secret\<rparr>"

definition next_epoch :: "GroupContext \<Rightarrow> GroupContext" where
  "next_epoch g = g\<lparr>gc_epoch := u64_add (gc_epoch g) 1\<rparr>"

definition derive_presence_secret :: "(bytes \<Rightarrow> bytes \<Rightarrow> bytes) \<Rightarrow> bytes \<Rightarrow> bytes \<Rightarrow> nat \<Rightarrow> bytes" where
  "derive_presence_secret blake3_keyed exporter user_id time_slice = blake3_keyed exporter (user_id @ le_bytes 8 time_slice)"

subsection \<open>The rate limiter\<close>

text \<open>\<open>f64\<close>: the operations the limiter uses, rounded however the machine rounds.\<close>

record 'f f64_ops =
  fl_max_tokens :: 'f \<comment> \<open>\<open>3.0\<close>\<close>
  fl_refill_rate :: 'f \<comment> \<open>\<open>0.2\<close>\<close>
  fl_secs :: "duration \<Rightarrow> 'f" \<comment> \<open>\<open>as_secs_f64\<close>\<close>
  fl_add :: "'f \<Rightarrow> 'f \<Rightarrow> 'f"
  fl_mul :: "'f \<Rightarrow> 'f \<Rightarrow> 'f"
  fl_min :: "'f \<Rightarrow> 'f \<Rightarrow> 'f"
  fl_ge_one :: "'f \<Rightarrow> bool"
  fl_minus_one :: "'f \<Rightarrow> 'f"

record 'f RateLimitConfig =
  rc_max_tokens :: 'f
  rc_refill_rate :: 'f

record 'f TokenBucket =
  tb_tokens :: 'f
  tb_max_tokens :: 'f
  tb_refill_rate :: 'f
  tb_last_refill :: instant

record 'f RateLimiter =
  rl_buckets :: "PeerId \<rightharpoonup> 'f TokenBucket"
  rl_config :: "'f RateLimitConfig"

definition default_rate_config :: "'f f64_ops \<Rightarrow> 'f RateLimitConfig" where
  "default_rate_config F = \<lparr>rc_max_tokens = fl_max_tokens F, rc_refill_rate = fl_refill_rate F\<rparr>"

definition bucket_new :: "'f \<Rightarrow> 'f \<Rightarrow> instant \<Rightarrow> 'f TokenBucket" where
  "bucket_new max_tokens refill_rate now =
     \<lparr>tb_tokens = max_tokens, tb_max_tokens = max_tokens, tb_refill_rate = refill_rate, tb_last_refill = now\<rparr>"

definition bucket_refill :: "'f f64_ops \<Rightarrow> instant \<Rightarrow> 'f TokenBucket \<Rightarrow> 'f TokenBucket" where
  "bucket_refill F now b =
     (let tokens_to_add = fl_mul F (fl_secs F (now - tb_last_refill b)) (tb_refill_rate b)
      in b\<lparr>tb_tokens := fl_min F (fl_add F (tb_tokens b) tokens_to_add) (tb_max_tokens b), tb_last_refill := now\<rparr>)"

definition try_consume :: "'f f64_ops \<Rightarrow> instant \<Rightarrow> 'f TokenBucket \<Rightarrow> bool \<times> 'f TokenBucket" where
  "try_consume F now b =
     (let b1 = bucket_refill F now b
      in if fl_ge_one F (tb_tokens b1) then (True, b1\<lparr>tb_tokens := fl_minus_one F (tb_tokens b1)\<rparr>) else (False, b1))"

definition rate_limiter_new :: "'f RateLimitConfig \<Rightarrow> 'f RateLimiter" where
  "rate_limiter_new config = \<lparr>rl_buckets = Map.empty, rl_config = config\<rparr>"

definition check_rate_limit :: "'f f64_ops \<Rightarrow> instant \<Rightarrow> PeerId \<Rightarrow> 'f RateLimiter \<Rightarrow> bool \<times> 'f RateLimiter" where
  "check_rate_limit F now peer l =
     (let bucket = get_or (bucket_new (rc_max_tokens (rl_config l)) (rc_refill_rate (rl_config l)) now) (rl_buckets l) peer;
          (ok, bucket') = try_consume F now bucket
      in (ok, l\<lparr>rl_buckets := (rl_buckets l)(peer \<mapsto> bucket')\<rparr>))"

definition cleanup_stale :: "instant \<Rightarrow> duration \<Rightarrow> 'f RateLimiter \<Rightarrow> nat \<times> 'f RateLimiter" where
  "cleanup_stale now max_age l =
     (let kept = map_retain (\<lambda>_ b. now - tb_last_refill b \<le> max_age) (rl_buckets l)
      in (card (dom (rl_buckets l)) - card (dom kept), l\<lparr>rl_buckets := kept\<rparr>))"

subsection \<open>Messages and state\<close>

datatype PresenceStatus = Online | Offline | UnknownPresence

datatype PresenceMessage =
    Beacon TopicId PeerId PresenceRecord nat
  | Query bytes TopicId nat PeerId
  | QueryResponse bytes TopicId "(PeerId \<times> PresenceRecord) list"

record PendingQuery =
  pq_topic_id :: TopicId
  pq_started_at :: instant
  pq_responses :: "PeerId \<rightharpoonup> PresenceRecord"
  pq_response_count :: nat

definition REBOOT_GRACE_SECS :: nat where "REBOOT_GRACE_SECS = 120"

definition pending_new :: "instant \<Rightarrow> TopicId \<Rightarrow> PendingQuery" where
  "pending_new now topic = \<lparr>pq_topic_id = topic, pq_started_at = now, pq_responses = Map.empty, pq_response_count = 0\<rparr>"

text \<open>Whether a record takes the place of the one that is stored for its peer.\<close>

definition supersedes :: "PresenceRecord \<Rightarrow> PresenceRecord \<Rightarrow> bool" where
  "supersedes new old \<longleftrightarrow> seq new > seq old \<or> since new > u64_sat_add (since old) REBOOT_GRACE_SECS"

definition merge_record :: "PeerId \<times> PresenceRecord \<Rightarrow> (PeerId \<rightharpoonup> PresenceRecord) \<Rightarrow> (PeerId \<rightharpoonup> PresenceRecord)" where
  "merge_record pr m =
     (case m (fst pr) of
        None \<Rightarrow> m(fst pr \<mapsto> snd pr)
      | Some old \<Rightarrow> if supersedes (snd pr) old then m(fst pr \<mapsto> snd pr) else m)"

definition add_responses :: "(PeerId \<times> PresenceRecord) list \<Rightarrow> PendingQuery \<Rightarrow> PendingQuery" where
  "add_responses records q = q\<lparr>pq_responses := fold merge_record records (pq_responses q), pq_response_count := pq_response_count q + 1\<rparr>"

definition pending_is_expired :: "instant \<Rightarrow> PendingQuery \<Rightarrow> bool" where
  "pending_is_expired now q \<longleftrightarrow> now - pq_started_at q > 10 * 1000000000"

definition unix_secs :: "instant \<Rightarrow> nat" where
  "unix_secs now = now div 1000000000"

record 'f PresenceManager =
  pm_peer_id :: PeerId
  pm_groups :: "TopicId \<rightharpoonup> GroupContext"
  pm_received_beacons :: "TopicId \<rightharpoonup> (PeerId \<rightharpoonup> PresenceRecord)"
  pm_broadcast_peers :: "PeerId set"
  pm_addr_hints :: "string list"
  pm_four_words :: "string option"
  pm_seen_queries :: "bytes \<rightharpoonup> instant"
  pm_pending_queries :: "bytes \<rightharpoonup> PendingQuery"
  pm_identity :: "(bytes \<times> bytes) option" \<comment> \<open>public and secret key\<close>
  pm_rate_limiter :: "'f RateLimiter"
  pm_beacon_seq :: nat
  pm_beacon_task :: bool

text \<open>What the manager takes from other crates and from its environment.\<close>

record 'f presence_env =
  pv_float :: "'f f64_ops"
  pv_sha256 :: "bytes \<Rightarrow> bytes"
  pv_blake3_keyed :: "bytes \<Rightarrow> bytes \<Rightarrow> bytes"
  pv_signable :: "SignablePresenceRecord \<Rightarrow> bytes option"
  pv_sign :: "bytes \<Rightarrow> bytes \<Rightarrow> bytes option"
  pv_verify :: "bytes \<Rightarrow> bytes \<Rightarrow> bytes \<Rightarrow> bool option"
  pv_decode :: "bytes \<Rightarrow> PresenceMessage option"
  pv_encodes :: "PresenceMessage \<Rightarrow> bool"
  pv_require_signed :: bool
  pv_allow_plaintext :: bool
  pv_peer_order :: "PeerId set \<Rightarrow> PeerId list"
  pv_record_order :: "(PeerId \<rightharpoonup> PresenceRecord) \<Rightarrow> PeerId list"
  pv_swap :: "nat \<Rightarrow> nat \<Rightarrow> nat" \<comment> \<open>\<open>gen_range(i..n)\<close> at step \<open>i\<close> of a selection from \<open>n\<close>\<close>

definition new_with_four_words :: "'f presence_env \<Rightarrow> PeerId \<Rightarrow> (TopicId \<rightharpoonup> GroupContext) \<Rightarrow> string option \<Rightarrow> 'f PresenceManager" where
  "new_with_four_words env p groups words =
     \<lparr>pm_peer_id = p, pm_groups = groups, pm_received_beacons = Map.empty, pm_broadcast_peers = {}, pm_addr_hints = [], pm_four_words = words,
      pm_seen_queries = Map.empty, pm_pending_queries = Map.empty, pm_identity = None,
      pm_rate_limiter = rate_limiter_new (default_rate_config (pv_float env)), pm_beacon_seq = 0, pm_beacon_task = False\<rparr>"

definition new_with_identity ::
  "'f presence_env \<Rightarrow> PeerId \<Rightarrow> (TopicId \<rightharpoonup> GroupContext) \<Rightarrow> string option \<Rightarrow> bytes \<times> bytes \<Rightarrow> 'f PresenceManager" where
  "new_with_identity env p groups words identity = (new_with_four_words env p groups words)\<lparr>pm_identity := Some identity\<rparr>"

definition set_identity :: "bytes \<times> bytes \<Rightarrow> 'f PresenceManager \<Rightarrow> 'f PresenceManager" where
  "set_identity keypair m = m\<lparr>pm_identity := Some keypair\<rparr>"

definition add_broadcast_peer :: "PeerId \<Rightarrow> 'f PresenceManager \<Rightarrow> 'f PresenceManager" where
  "add_broadcast_peer p m = m\<lparr>pm_broadcast_peers := insert p (pm_broadcast_peers m)\<rparr>"

definition remove_broadcast_peer :: "PeerId \<Rightarrow> 'f PresenceManager \<Rightarrow> 'f PresenceManager" where
  "remove_broadcast_peer p m = m\<lparr>pm_broadcast_peers := pm_broadcast_peers m - {p}\<rparr>"

definition replace_broadcast_peers :: "PeerId list \<Rightarrow> 'f PresenceManager \<Rightarrow> 'f PresenceManager" where
  "replace_broadcast_peers peers m = m\<lparr>pm_broadcast_peers := set (filter (\<lambda>p. p \<noteq> pm_peer_id m) peers)\<rparr>"

definition set_addr_hints :: "string list \<Rightarrow> 'f PresenceManager \<Rightarrow> 'f PresenceManager" where
  "set_addr_hints hints m = m\<lparr>pm_addr_hints := hints\<rparr>"

definition set_four_words :: "string \<Rightarrow> 'f PresenceManager \<Rightarrow> 'f PresenceManager" where
  "set_four_words words m = m\<lparr>pm_four_words := Some words\<rparr>"

definition add_addr_hint :: "string \<Rightarrow> 'f PresenceManager \<Rightarrow> 'f PresenceManager" where
  "add_addr_hint hint m = (if hint \<in> set (pm_addr_hints m) then m else m\<lparr>pm_addr_hints := pm_addr_hints m @ [hint]\<rparr>)"

subsection \<open>Own beacons\<close>

definition derive_presence_tag :: "'f presence_env \<Rightarrow> bytes \<Rightarrow> PeerId \<Rightarrow> nat \<Rightarrow> bytes" where
  "derive_presence_tag env secret user time_slice = derive_presence_secret (pv_blake3_keyed env) secret (peer_bytes user) time_slice"

definition insert_beacon ::
  "TopicId \<Rightarrow> PeerId \<Rightarrow> PresenceRecord \<Rightarrow> 'f PresenceManager \<Rightarrow> 'f PresenceManager" where
  "insert_beacon topic p r m =
     m\<lparr>pm_received_beacons := (pm_received_beacons m)(topic \<mapsto> (get_or Map.empty (pm_received_beacons m) topic)(p \<mapsto> r))\<rparr>"

text \<open>The beacon for one group, and the messages that carry it.\<close>

definition sign_record :: "'f presence_env \<Rightarrow> (bytes \<times> bytes) option \<Rightarrow> PresenceRecord \<Rightarrow> PresenceRecord" where
  "sign_record env identity r =
     (case identity of
        None \<Rightarrow> r
      | Some (public_key, secret_key) \<Rightarrow>
          (case pv_sign env secret_key (signable_bytes (pv_signable env) r) of
             None \<Rightarrow> r | Some sg \<Rightarrow> r\<lparr>signature := sg, signer_pubkey := public_key\<rparr>))"

definition own_record :: "'f presence_env \<Rightarrow> nat \<Rightarrow> instant \<Rightarrow> bytes \<Rightarrow> 'f PresenceManager \<Rightarrow> PresenceRecord" where
  "own_record env interval_secs now secret m =
     (let tag = derive_presence_tag env secret (pm_peer_id m) (unix_secs now div 3600);
          hints = (if pm_addr_hints m = [] then [''127.0.0.1:8080''] else pm_addr_hints m);
          ttl = (interval_secs * 3) mod 2 ^ 64;
          r = (case pm_four_words m of
                 Some words \<Rightarrow> with_four_words (unix_secs now) tag hints ttl words
               | None \<Rightarrow> presence_new (unix_secs now) tag hints ttl)
      in sign_record env (pm_identity m) (r\<lparr>seq := pm_beacon_seq m\<rparr>))"

definition beacon_topic ::
  "'f presence_env \<Rightarrow> nat \<Rightarrow> instant \<Rightarrow> TopicId \<times> GroupContext \<Rightarrow> 'f PresenceManager \<Rightarrow> (PeerId \<times> PresenceMessage) list \<times> 'f PresenceManager" where
  "beacon_topic env interval_secs now tg m =
     (let secret = (case gc_presence_exporter (snd tg) of
                      Some x \<Rightarrow> Some x | None \<Rightarrow> if pv_allow_plaintext env then Some (replicate 32 0) else None)
      in case secret of
           None \<Rightarrow> ([], m)
         | Some x \<Rightarrow>
             (let r = own_record env interval_secs now x m;
                  m1 = insert_beacon (fst tg) (pm_peer_id m) r (m\<lparr>pm_beacon_seq := u64_add (pm_beacon_seq m) 1\<rparr>);
                  message = Beacon (fst tg) (pm_peer_id m) r (gc_epoch (snd tg))
              in (if pv_encodes env message then map (\<lambda>p. (p, message)) (pv_peer_order env (pm_broadcast_peers m1)) else [], m1)))"

text \<open>One tick of the beacon task: the groups in the order of the snapshot, each with the peers whose send
  timed out, and every tenth tick the clean-up of the limiter.\<close>

fun beacon_tick ::
  "'f presence_env \<Rightarrow> nat \<Rightarrow> instant \<Rightarrow> ((TopicId \<times> GroupContext) \<times> PeerId list) list \<Rightarrow> 'f PresenceManager \<Rightarrow>
     (PeerId \<times> PresenceMessage) list \<times> 'f PresenceManager" where
  "beacon_tick env interval_secs now [] m = ([], m)"
| "beacon_tick env interval_secs now ((tg, timed_out) # rest) m =
     (let (out, m1) = beacon_topic env interval_secs now tg m;
          m2 = (if out = [] then m1 else m1\<lparr>pm_broadcast_peers := pm_broadcast_peers m1 - set timed_out\<rparr>);
          (out', m3) = beacon_tick env interval_secs now rest m2
      in (out @ out', m3))"

definition tick_cleanup :: "nat \<Rightarrow> instant \<Rightarrow> 'f PresenceManager \<Rightarrow> 'f PresenceManager" where
  "tick_cleanup tick_count now m =
     (if tick_count mod 10 = 0 then m\<lparr>pm_rate_limiter := snd (cleanup_stale now (300 * 1000000000) (pm_rate_limiter m))\<rparr> else m)"

definition start_beacons :: "'f PresenceManager \<Rightarrow> bool \<times> 'f PresenceManager" where
  "start_beacons m = (if pm_beacon_task m then (False, m) else (True, m\<lparr>pm_beacon_task := True\<rparr>))"

definition stop_beacons :: "'f PresenceManager \<Rightarrow> 'f PresenceManager" where
  "stop_beacons m = m\<lparr>pm_beacon_task := False\<rparr>"


subsection \<open>Reading and expiry\<close>

definition get_status :: "instant \<Rightarrow> PeerId \<Rightarrow> TopicId \<Rightarrow> 'f PresenceManager \<Rightarrow> PresenceStatus" where
  "get_status now p topic m =
     (case pm_received_beacons m topic of
        None \<Rightarrow> UnknownPresence
      | Some beacons \<Rightarrow>
          (case beacons p of
             None \<Rightarrow> UnknownPresence
           | Some r \<Rightarrow> if presence_is_expired (unix_secs now) r then Offline else Online))"

definition live_records :: "'f presence_env \<Rightarrow> instant \<Rightarrow> TopicId \<Rightarrow> 'f PresenceManager \<Rightarrow> (PeerId \<times> PresenceRecord) list" where
  "live_records env now topic m =
     (case pm_received_beacons m topic of
        None \<Rightarrow> []
      | Some beacons \<Rightarrow>
          List.map_filter (\<lambda>p. case beacons p of None \<Rightarrow> None | Some r \<Rightarrow> if presence_is_expired (unix_secs now) r then None else Some (p, r))
            (pv_record_order env beacons))"

definition get_online_peers :: "'f presence_env \<Rightarrow> instant \<Rightarrow> TopicId \<Rightarrow> 'f PresenceManager \<Rightarrow> PeerId list" where
  "get_online_peers env now topic m = map fst (live_records env now topic m)"

definition cleanup_expired :: "instant \<Rightarrow> 'f PresenceManager \<Rightarrow> 'f PresenceManager" where
  "cleanup_expired now m =
     m\<lparr>pm_received_beacons := (\<lambda>topic. map_option (map_retain (\<lambda>_ r. \<not> presence_is_expired (unix_secs now) r)) (pm_received_beacons m topic))\<rparr>"

definition get_group_presence :: "TopicId \<Rightarrow> 'f PresenceManager \<Rightarrow> (PeerId \<rightharpoonup> PresenceRecord)" where
  "get_group_presence topic m = get_or Map.empty (pm_received_beacons m) topic"

definition cleanup_pending_queries :: "instant \<Rightarrow> 'f PresenceManager \<Rightarrow> 'f PresenceManager" where
  "cleanup_pending_queries now m = m\<lparr>pm_pending_queries := map_retain (\<lambda>_ q. \<not> pending_is_expired now q) (pm_pending_queries m)\<rparr>"

definition cleanup_seen_queries :: "instant \<Rightarrow> 'f PresenceManager \<Rightarrow> 'f PresenceManager" where
  "cleanup_seen_queries now m = m\<lparr>pm_seen_queries := map_retain (\<lambda>_ t. now - t \<le> 30 * 1000000000) (pm_seen_queries m)\<rparr>"

subsection \<open>Incoming records\<close>

definition handle_beacon :: "TopicId \<Rightarrow> PeerId \<Rightarrow> PresenceRecord \<Rightarrow> 'f PresenceManager \<Rightarrow> 'f PresenceManager" where
  "handle_beacon topic p r m =
     (let beacons = get_or Map.empty (pm_received_beacons m) topic
      in case beacons p of
           Some existing \<Rightarrow> if supersedes r existing then insert_beacon topic p r m else m
         | None \<Rightarrow> insert_beacon topic p r m)"

definition validate_presence_record :: "'f presence_env \<Rightarrow> TopicId \<Rightarrow> PeerId \<Rightarrow> PresenceRecord \<Rightarrow> 'f PresenceManager \<Rightarrow> bool" where
  "validate_presence_record env topic p r m =
     (if pm_groups m topic = None then False
      else case (signature r \<noteq> [], signer_pubkey r \<noteq> []) of
             (True, True) \<Rightarrow>
               (if from_pubkey (pv_sha256 env) (signer_pubkey r) \<noteq> p then False
                else pv_verify env (signer_pubkey r) (signable_bytes (pv_signable env) r) (signature r) = Some True)
           | (False, False) \<Rightarrow> \<not> pv_require_signed env
           | _ \<Rightarrow> False)"

subsection \<open>Random peers\<close>

text \<open>The partial Fisher-Yates shuffle of the indices: at step \<open>i\<close> the entry \<open>i\<close> is swapped with a random one
  of those that are left.\<close>

fun shuffle_steps :: "(nat \<Rightarrow> nat \<Rightarrow> nat) \<Rightarrow> nat \<Rightarrow> nat list \<Rightarrow> nat list \<Rightarrow> nat list" where
  "shuffle_steps gen n [] indices = indices"
| "shuffle_steps gen n (i # is) indices =
     (let j = gen i n in shuffle_steps gen n is (indices[i := indices ! j, j := indices ! i]))"

definition select_peers :: "'f presence_env \<Rightarrow> PeerId set \<Rightarrow> PeerId list" where
  "select_peers env broadcast =
     (let peers = pv_peer_order env broadcast; fanout = min 3 (length peers)
      in if fanout > 0
         then map (\<lambda>idx. peers ! idx) (take fanout (shuffle_steps (pv_swap env) (length peers) [0..<fanout] [0..<length peers]))
         else [])"

subsection \<open>Queries\<close>

definition initiate_foaf_query ::
  "'f presence_env \<Rightarrow> bytes \<Rightarrow> TopicId \<Rightarrow> nat \<Rightarrow> instant \<Rightarrow> 'f PresenceManager \<Rightarrow> (PeerId \<times> PresenceMessage) list \<times> 'f PresenceManager" where
  "initiate_foaf_query env query_id topic ttl now m =
     (let m1 = m\<lparr>pm_pending_queries := (pm_pending_queries m)(query_id \<mapsto> pending_new now topic),
                 pm_seen_queries := (pm_seen_queries m)(query_id \<mapsto> now)\<rparr>;
          query = Query query_id topic ttl (pm_peer_id m)
      in (if pv_encodes env query then map (\<lambda>p. (p, query)) (select_peers env (pm_broadcast_peers m1)) else [], m1))"

text \<open>The wait ends when three responses are in, or at the timeout; then the query is taken.\<close>

definition foaf_answered :: "bytes \<Rightarrow> 'f PresenceManager \<Rightarrow> bool" where
  "foaf_answered query_id m \<longleftrightarrow> (case pm_pending_queries m query_id of None \<Rightarrow> False | Some q \<Rightarrow> pq_response_count q \<ge> 3)"

definition finish_foaf_query ::
  "'f presence_env \<Rightarrow> bytes \<Rightarrow> instant \<Rightarrow> 'f PresenceManager \<Rightarrow> (PeerId \<times> PresenceRecord) list \<times> 'f PresenceManager" where
  "finish_foaf_query env query_id now m =
     (case pm_pending_queries m query_id of
        None \<Rightarrow> ([], m)
      | Some q \<Rightarrow>
          (List.map_filter (\<lambda>p. case pq_responses q p of None \<Rightarrow> None | Some r \<Rightarrow> if presence_is_expired (unix_secs now) r then None else Some (p, r))
             (pv_record_order env (pq_responses q)),
           m\<lparr>pm_pending_queries := map_remove query_id (pm_pending_queries m)\<rparr>))"

definition answer_query ::
  "'f presence_env \<Rightarrow> bytes \<Rightarrow> TopicId \<Rightarrow> PeerId \<Rightarrow> instant \<Rightarrow> 'f PresenceManager \<Rightarrow> (PeerId \<times> PresenceMessage) list" where
  "answer_query env query_id topic origin now m =
     (let records = live_records env now topic m; response = QueryResponse query_id topic records
      in if records \<noteq> [] \<and> pv_encodes env response then [(origin, response)] else [])"

definition forward_query :: "'f presence_env \<Rightarrow> bytes \<Rightarrow> TopicId \<Rightarrow> nat \<Rightarrow> PeerId \<Rightarrow> 'f PresenceManager \<Rightarrow> (PeerId \<times> PresenceMessage) list" where
  "forward_query env query_id topic ttl origin m =
     (let forward_msg = Query query_id topic (ttl - 1) origin
      in if ttl > 0 \<and> pv_encodes env forward_msg
         then map (\<lambda>p. (p, forward_msg)) (filter (\<lambda>p. p \<noteq> origin) (select_peers env (pm_broadcast_peers m))) else [])"

definition handle_query ::
  "'f presence_env \<Rightarrow> bytes \<Rightarrow> TopicId \<Rightarrow> nat \<Rightarrow> PeerId \<Rightarrow> instant \<Rightarrow> 'f PresenceManager \<Rightarrow> (PeerId \<times> PresenceMessage) list \<times> 'f PresenceManager" where
  "handle_query env query_id topic ttl origin now m =
     (if pm_seen_queries m query_id \<noteq> None then ([], m)
      else let m1 = m\<lparr>pm_seen_queries := (pm_seen_queries m)(query_id \<mapsto> now)\<rparr>
           in (answer_query env query_id topic origin now m1 @ forward_query env query_id topic ttl origin m1, m1))"

text \<open>A response: the check of the pending query, the validation, and the two writes. The query is looked up
  again before the writes, as it may have been taken meanwhile.\<close>

definition response_expected :: "bytes \<Rightarrow> TopicId \<Rightarrow> 'f PresenceManager \<Rightarrow> bool" where
  "response_expected query_id topic m \<longleftrightarrow> (case pm_pending_queries m query_id of None \<Rightarrow> False | Some q \<Rightarrow> pq_topic_id q = topic)"

definition valid_records ::
  "'f presence_env \<Rightarrow> TopicId \<Rightarrow> (PeerId \<times> PresenceRecord) list \<Rightarrow> instant \<Rightarrow> 'f PresenceManager \<Rightarrow> (PeerId \<times> PresenceRecord) list" where
  "valid_records env topic records now m =
     filter (\<lambda>pr. \<not> presence_is_expired (unix_secs now) (snd pr) \<and> validate_presence_record env topic (fst pr) (snd pr) m) records"

definition store_response :: "bytes \<Rightarrow> TopicId \<Rightarrow> (PeerId \<times> PresenceRecord) list \<Rightarrow> 'f PresenceManager \<Rightarrow> 'f PresenceManager" where
  "store_response query_id topic records m =
     (case pm_pending_queries m query_id of
        None \<Rightarrow> m
      | Some q \<Rightarrow>
          (let m1 = (if pq_topic_id q = topic then m\<lparr>pm_pending_queries := (pm_pending_queries m)(query_id \<mapsto> add_responses records q)\<rparr> else m)
           in fold (\<lambda>pr. handle_beacon topic (fst pr) (snd pr)) records m1))"

definition handle_response ::
  "'f presence_env \<Rightarrow> bytes \<Rightarrow> TopicId \<Rightarrow> (PeerId \<times> PresenceRecord) list \<Rightarrow> instant \<Rightarrow> 'f PresenceManager \<Rightarrow> 'f PresenceManager" where
  "handle_response env query_id topic records now m =
     (if \<not> response_expected query_id topic m then m
      else let valid = valid_records env topic records now m
           in if valid = [] then m else store_response query_id topic valid m)"

definition rate_limit_peer :: "PresenceMessage \<Rightarrow> PeerId option" where
  "rate_limit_peer message = (case message of Beacon _ sender _ _ \<Rightarrow> Some sender | Query _ _ _ origin \<Rightarrow> Some origin | QueryResponse _ _ _ \<Rightarrow> None)"

text \<open>\<open>None\<close> is the error of a frame that does not decode; the peer of a stored beacon is the result.\<close>

definition handle_presence_message ::
  "'f presence_env \<Rightarrow> bytes \<Rightarrow> instant \<Rightarrow> 'f PresenceManager \<Rightarrow> PeerId option option \<times> (PeerId \<times> PresenceMessage) list \<times> 'f PresenceManager" where
  "handle_presence_message env data now m =
     (case pv_decode env data of
        None \<Rightarrow> (None, [], m)
      | Some message \<Rightarrow>
          (let (allowed, m1) = (case rate_limit_peer message of
                 None \<Rightarrow> (True, m)
               | Some p \<Rightarrow> (case check_rate_limit (pv_float env) now p (pm_rate_limiter m) of (ok, l) \<Rightarrow> (ok, m\<lparr>pm_rate_limiter := l\<rparr>)))
           in if \<not> allowed then (Some None, [], m1)
              else case message of
                     Beacon topic sender r epoch \<Rightarrow>
                       if validate_presence_record env topic sender r m1 then (Some (Some sender), [], handle_beacon topic sender r m1)
                       else (Some None, [], m1)
                   | Query query_id topic ttl origin \<Rightarrow>
                       (case handle_query env query_id topic ttl origin now m1 of (out, m2) \<Rightarrow> (Some None, out, m2))
                   | QueryResponse query_id topic records \<Rightarrow> (Some None, [], handle_response env query_id topic records now m1)))"

text \<open>\<open>find\<close>: first the local records of the joined groups, then the answers of a query to each of them.\<close>

fun find_local :: "instant \<Rightarrow> PeerId \<Rightarrow> TopicId list \<Rightarrow> 'f PresenceManager \<Rightarrow> string list option" where
  "find_local now user [] m = None"
| "find_local now user (topic # topics) m =
     (case get_group_presence topic m user of
        None \<Rightarrow> find_local now user topics m
      | Some r \<Rightarrow> if presence_is_expired (unix_secs now) r then find_local now user topics m else Some (addr_hints r))"

fun find_in_results :: "PeerId \<Rightarrow> (instant \<times> (PeerId \<times> PresenceRecord) list) list \<Rightarrow> string list" where
  "find_in_results user [] = []"
| "find_in_results user ((now, results) # rest) =
     (case find (\<lambda>pr. fst pr = user \<and> \<not> presence_is_expired (unix_secs now) (snd pr)) results of
        Some pr \<Rightarrow> addr_hints (snd pr) | None \<Rightarrow> find_in_results user rest)"

definition presence_find :: "instant \<Rightarrow> PeerId \<Rightarrow> TopicId list \<Rightarrow> (instant \<times> (PeerId \<times> PresenceRecord) list) list \<Rightarrow> 'f PresenceManager \<Rightarrow> string list" where
  "presence_find now user topics results m = (case find_local now user topics m of Some hints \<Rightarrow> hints | None \<Rightarrow> find_in_results user results)"

end
