(* ===== verification/Presence_Trust.thy ===== *)
theory Presence_Trust
  imports Presence "HOL-Library.Multiset"
begin

text \<open>
  What presence promises: in every reachable state a stored record of another peer is signed by that
  peer's own key, or unsigned where the policy allows it; a query is relayed to few distinct peers and
  never back; and what the rule for reboots costs.
\<close>

subsection \<open>Reachable states\<close>

definition trusted :: "'f presence_env \<Rightarrow> PeerId \<Rightarrow> PresenceRecord \<Rightarrow> bool" where
  "trusted env p r \<longleftrightarrow>
     (signature r \<noteq> [] \<and> signer_pubkey r \<noteq> [] \<and> from_pubkey (pv_sha256 env) (signer_pubkey r) = p \<and>
        pv_verify env (signer_pubkey r) (signable_bytes (pv_signable env) r) (signature r) = Some True) \<or>
     (signature r = [] \<and> signer_pubkey r = [] \<and> \<not> pv_require_signed env)"

text \<open>Messages arrive, the beacon task ticks, queries start and end, the clean-ups run, and the membership
  layer and the application change peers, groups and identity, in any order.\<close>

inductive presence_step :: "'f presence_env \<Rightarrow> 'f PresenceManager \<Rightarrow> 'f PresenceManager \<Rightarrow> bool" for env where
  step_message: "presence_step env m (snd (snd (handle_presence_message env data now m)))"
| step_beacon: "presence_step env m (snd (beacon_tick env interval_secs now groups m))"
| step_tick_cleanup: "presence_step env m (tick_cleanup n now m)"
| step_initiate: "presence_step env m (snd (initiate_foaf_query env query_id topic ttl now m))"
| step_finish: "presence_step env m (snd (finish_foaf_query env query_id now m))"
| step_expire: "presence_step env m (cleanup_expired now m)"
| step_expire_pending: "presence_step env m (cleanup_pending_queries now m)"
| step_forget_seen: "presence_step env m (cleanup_seen_queries now m)"
| step_peers: "presence_step env m (m\<lparr>pm_broadcast_peers := peers\<rparr>)"
| step_groups: "presence_step env m (m\<lparr>pm_groups := joined\<rparr>)"
| step_hints: "presence_step env m (m\<lparr>pm_addr_hints := hints, pm_four_words := words\<rparr>)"
| step_identity: "presence_step env m (set_identity keypair m)"

inductive presence_reachable :: "'f presence_env \<Rightarrow> 'f PresenceManager \<Rightarrow> bool" for env where
  reach_new: "presence_reachable env (new_with_four_words env p groups words)"
| reach_step: "presence_reachable env m \<Longrightarrow> presence_step env m m' \<Longrightarrow> presence_reachable env m'"

definition store_trusted :: "'f presence_env \<Rightarrow> 'f PresenceManager \<Rightarrow> bool" where
  "store_trusted env m \<longleftrightarrow>
     (\<forall>topic beacons p r. pm_received_beacons m topic = Some beacons \<and> beacons p = Some r \<and> p \<noteq> pm_peer_id m \<longrightarrow> trusted env p r) \<and>
     (\<forall>i q p r. pm_pending_queries m i = Some q \<and> pq_responses q p = Some r \<longrightarrow> trusted env p r)"

lemma store_trustedD:
  assumes "store_trusted env m"
  shows "pm_received_beacons m topic = Some beacons \<Longrightarrow> beacons p = Some r \<Longrightarrow> p \<noteq> pm_peer_id m \<Longrightarrow> trusted env p r"
    "pm_pending_queries m i = Some q \<Longrightarrow> pq_responses q p = Some r \<Longrightarrow> trusted env p r"
  using assms by (auto simp: store_trusted_def)

lemma store_trusted_same:
  "store_trusted env m \<Longrightarrow> pm_received_beacons m' = pm_received_beacons m \<Longrightarrow> pm_pending_queries m' = pm_pending_queries m \<Longrightarrow>
     pm_peer_id m' = pm_peer_id m \<Longrightarrow> store_trusted env m'"
  by (auto simp: store_trusted_def)

lemma validate_trusted: "validate_presence_record env topic p r m \<Longrightarrow> trusted env p r"
  by (auto simp: validate_presence_record_def trusted_def split: if_splits bool.splits)

lemma insert_beacon_trusted:
  assumes "store_trusted env m" "p = pm_peer_id m \<or> trusted env p r"
  shows "store_trusted env (insert_beacon topic p r m)"
proof -
  have old: "trusted env p' r'" if "get_or Map.empty (pm_received_beacons m) topic p' = Some r'" "p' \<noteq> pm_peer_id m" for p' r'
    using that store_trustedD(1) [OF assms(1)] by (auto simp: get_or_def split: option.splits)
  show ?thesis
    using assms old unfolding store_trusted_def insert_beacon_def by (auto split: if_splits)
qed

lemma handle_beacon_trusted: "store_trusted env m \<Longrightarrow> trusted env p r \<Longrightarrow> store_trusted env (handle_beacon topic p r m)"
  by (auto simp: handle_beacon_def Let_def insert_beacon_trusted split: option.split)

lemma fold_handle_beacon_trusted:
  "store_trusted env m \<Longrightarrow> (\<forall>pr \<in> set records. trusted env (fst pr) (snd pr)) \<Longrightarrow>
     store_trusted env (fold (\<lambda>pr. handle_beacon topic (fst pr) (snd pr)) records m)"
  by (induction records arbitrary: m) (simp_all add: handle_beacon_trusted)

lemma merge_trusted:
  "(\<forall>p r. m p = Some r \<longrightarrow> trusted env p r) \<Longrightarrow> (\<forall>pr \<in> set records. trusted env (fst pr) (snd pr)) \<Longrightarrow>
     fold merge_record records m p = Some r \<Longrightarrow> trusted env p r"
proof (induction records arbitrary: m)
  case Nil
  then show ?case by simp
next
  case (Cons pr records)
  have "\<forall>p r. merge_record pr m p = Some r \<longrightarrow> trusted env p r"
    using Cons.prems(1,2) by (auto simp: merge_record_def split: option.splits if_splits)
  then show ?case using Cons.IH [of "merge_record pr m"] Cons.prems(2,3) by simp
qed

lemma store_response_trusted:
  assumes "store_trusted env m" "\<forall>pr \<in> set records. trusted env (fst pr) (snd pr)"
  shows "store_trusted env (store_response query_id topic records m)"
proof (cases "pm_pending_queries m query_id")
  case None
  then show ?thesis using assms(1) by (simp add: store_response_def)
next
  case (Some q)
  let ?m = "m\<lparr>pm_pending_queries := (pm_pending_queries m)(query_id \<mapsto> add_responses records q)\<rparr>"
  have "\<forall>p r. pq_responses q p = Some r \<longrightarrow> trusted env p r" using store_trustedD(2) [OF assms(1) Some] by blast
  then have "trusted env p r" if "pq_responses (add_responses records q) p = Some r" for p r
    using that merge_trusted [OF _ assms(2)] by (simp add: add_responses_def)
  then have "store_trusted env ?m" using assms(1) unfolding store_trusted_def by auto
  then show ?thesis using Some assms by (simp add: store_response_def Let_def fold_handle_beacon_trusted)
qed

lemma message_trusted:
  assumes "store_trusted env m"
  shows "store_trusted env (snd (snd (handle_presence_message env data now m)))"
proof (cases "pv_decode env data")
  case None
  then show ?thesis using assms by (simp add: handle_presence_message_def)
next
  case (Some message)
  obtain allowed m1 where lim: "(case rate_limit_peer message of None \<Rightarrow> (True, m)
      | Some p \<Rightarrow> (case check_rate_limit (pv_float env) now p (pm_rate_limiter m) of (ok, l) \<Rightarrow> (ok, m\<lparr>pm_rate_limiter := l\<rparr>))) = (allowed, m1)"
    by (rule prod.exhaust)
  have m1: "store_trusted env m1"
    by (rule store_trusted_same [OF assms]) (use lim in \<open>auto split: option.splits prod.splits\<close>)
  have "\<forall>pr \<in> set (valid_records env topic records now m1). trusted env (fst pr) (snd pr)" for topic records
    by (auto simp: valid_records_def intro: validate_trusted)
  then have "store_trusted env (handle_response env i topic records now m1)" for i topic records
    using m1 by (simp add: handle_response_def Let_def store_response_trusted)
  moreover have "store_trusted env (snd (handle_query env i topic ttl origin now m1))" for i topic ttl origin
    by (rule store_trusted_same [OF m1]) (simp_all add: handle_query_def Let_def)
  ultimately show ?thesis
    using m1 unfolding handle_presence_message_def Some option.case lim Let_def prod.case
    by (auto simp: split_beta intro: handle_beacon_trusted validate_trusted split: PresenceMessage.split)
qed

lemma beacon_tick_trusted: "store_trusted env m \<Longrightarrow> store_trusted env (snd (beacon_tick env interval_secs now groups m))"
proof (induction groups arbitrary: m)
  case Nil
  then show ?case by simp
next
  case (Cons g groups)
  obtain tg timed_out where g: "g = (tg, timed_out)" by (rule prod.exhaust)
  have "store_trusted env (m\<lparr>pm_beacon_seq := n\<rparr>)" for n by (rule store_trusted_same [OF Cons.prems]) simp_all
  then have "store_trusted env (insert_beacon (fst tg) (pm_peer_id m) r (m\<lparr>pm_beacon_seq := n\<rparr>))" for r n
    using insert_beacon_trusted [of env "m\<lparr>pm_beacon_seq := n\<rparr>" "pm_peer_id m"] by simp
  then have t: "store_trusted env (snd (beacon_topic env interval_secs now tg m))"
    using Cons.prems by (simp add: beacon_topic_def Let_def split: option.split)
  have "store_trusted env ((snd (beacon_topic env interval_secs now tg m))\<lparr>pm_broadcast_peers := x\<rparr>)" for x
    by (rule store_trusted_same [OF t]) simp_all
  then show ?case using t Cons.IH unfolding g by (simp add: Let_def split_beta)
qed

lemma presence_step_trusted:
  assumes "presence_step env m m'" "store_trusted env m"
  shows "store_trusted env m'"
  using assms(1)
proof cases
  case step_message
  then show ?thesis using message_trusted [OF assms(2)] by simp
next
  case step_beacon
  then show ?thesis using beacon_tick_trusted [OF assms(2)] by simp
next
  case step_initiate
  then show ?thesis using assms(2) unfolding store_trusted_def by (auto simp: initiate_foaf_query_def Let_def pending_new_def split: if_splits)
next
  case step_finish
  then show ?thesis using assms(2) unfolding store_trusted_def by (auto simp: finish_foaf_query_def split: option.splits if_splits)
next
  case step_expire
  then show ?thesis using assms(2) unfolding store_trusted_def by (auto simp: cleanup_expired_def)
next
  case step_expire_pending
  then show ?thesis using assms(2) unfolding store_trusted_def by (auto simp: cleanup_pending_queries_def)
next
  case step_tick_cleanup
  then show ?thesis using store_trusted_same [OF assms(2)] by (simp add: tick_cleanup_def)
qed (auto simp: cleanup_seen_queries_def set_identity_def intro: store_trusted_same [OF assms(2)])

lemma reachable_trusted: "presence_reachable env m \<Longrightarrow> store_trusted env m"
proof (induction rule: presence_reachable.induct)
  case (reach_new p groups words)
  show ?case by (simp add: store_trusted_def new_with_four_words_def)
next
  case (reach_step m m')
  show ?case by (rule presence_step_trusted [OF reach_step.hyps(2) reach_step.IH])
qed

lemma finish_lists_responses:
  assumes "(p, r) \<in> set (fst (finish_foaf_query env i now m))"
  obtains q where "pm_pending_queries m i = Some q" "pq_responses q p = Some r"
  using assms by (auto simp: finish_foaf_query_def List.map_filter_def split: option.splits if_splits)


definition nat_float :: "nat f64_ops" where
  "nat_float = \<lparr>fl_max_tokens = 3, fl_refill_rate = 0, fl_secs = \<lambda>d. d div 1000000000, fl_add = (+), fl_mul = (*), fl_min = min,
     fl_ge_one = \<lambda>x. x \<ge> 1, fl_minus_one = \<lambda>x. x - 1\<rparr>"

definition demo_record :: PresenceRecord where
  "demo_record = (presence_new 0 [1] [''10.0.0.2:1''] 900)\<lparr>signature := [4], signer_pubkey := [4]\<rparr>"

definition demo_sender :: PeerId where
  "demo_sender = from_pubkey (\<lambda>b. b) [4]"

definition demo_env :: "nat presence_env" where
  "demo_env = \<lparr>pv_float = nat_float, pv_sha256 = \<lambda>b. b, pv_blake3_keyed = \<lambda>k b. b, pv_signable = \<lambda>r. Some [1], pv_sign = \<lambda>k m. Some k,
     pv_verify = \<lambda>pk m s. Some (s = pk), pv_decode = \<lambda>d. if d = [0] then Some (Beacon (TopicId [5]) demo_sender demo_record 0)
       else if d = [1] then Some (QueryResponse [8] (TopicId [5]) [(demo_sender, demo_record)]) else None,
     pv_encodes = \<lambda>msg. True, pv_require_signed = True, pv_allow_plaintext = True, pv_peer_order = sorted_list_of_set,
     pv_record_order = \<lambda>m. sorted_list_of_set (dom m), pv_swap = \<lambda>i n. i\<rparr>"

definition demo_manager :: "nat PresenceManager" where
  "demo_manager = new_with_four_words demo_env (PeerId [9]) [TopicId [5] \<mapsto> group_new (TopicId [5])] None"

lemmas presence_eval = handle_presence_message_def demo_env_def rate_limit_peer_def check_rate_limit_def try_consume_def bucket_refill_def
  bucket_new_def nat_float_def demo_manager_def new_with_four_words_def rate_limiter_new_def default_rate_config_def validate_presence_record_def
  demo_record_def demo_sender_def handle_beacon_def insert_beacon_def from_pubkey_def PEER_ID_DOMAIN_SEPARATOR_def ascii_bytes_def


subsection \<open>The relay of queries\<close>

definition relay_order_ok :: "'f presence_env \<Rightarrow> bool" where
  "relay_order_ok env \<longleftrightarrow> (\<forall>S. finite S \<longrightarrow> iterates_set (pv_peer_order env S) S) \<and>
     (\<forall>m. finite (dom m) \<longrightarrow> iterates (pv_record_order env m) m) \<and> (\<forall>i n. i < n \<longrightarrow> i \<le> pv_swap env i n \<and> pv_swap env i n < n)"

lemma mset_swap_update:
  assumes "i < length xs" "j < length xs"
  shows "mset (xs[i := xs ! j, j := xs ! i]) = mset xs"
  using mset_swap [OF assms(2,1)] by (simp add: list_update_swap)

lemma shuffle_mset:
  assumes "\<forall>i \<in> set is. i < n \<and> gen i n < n" "length xs = n"
  shows "mset (shuffle_steps gen n is xs) = mset xs"
  using assms
proof (induction "is" arbitrary: xs)
  case Nil
  then show ?case by simp
next
  case (Cons i "is")
  let ?ys = "xs[i := xs ! gen i n, gen i n := xs ! i]"
  have "mset (shuffle_steps gen n is ?ys) = mset ?ys" using Cons by simp
  also have "\<dots> = mset xs" using Cons.prems by (intro mset_swap_update) simp_all
  finally show ?case by (simp add: Let_def)
qed

lemma select_peers_props:
  assumes "relay_order_ok env" "finite S"
  shows "distinct (select_peers env S)" "set (select_peers env S) \<subseteq> S" "length (select_peers env S) = min 3 (card S)"
proof -
  let ?peers = "pv_peer_order env S"
  let ?n = "length ?peers"
  let ?f = "min 3 ?n"
  let ?ix = "shuffle_steps (pv_swap env) ?n [0..<?f] [0..<?n]"
  have it: "distinct ?peers" "set ?peers = S" using assms by (auto simp: relay_order_ok_def iterates_set_def)
  have gen: "\<forall>i n. i < n \<longrightarrow> pv_swap env i n < n" using assms(1) by (simp add: relay_order_ok_def)
  have ms: "mset ?ix = mset [0..<?n]" by (rule shuffle_mset) (use gen in auto)
  then have ix: "distinct ?ix" "set ?ix = {0..<?n}" "length ?ix = ?n"
    by (metis distinct_upt mset_eq_imp_distinct_iff, metis atLeastLessThan_upt mset_eq_setD, metis diff_zero length_upt mset_eq_length)
  have eq: "select_peers env S = map (\<lambda>i. ?peers ! i) (take ?f ?ix)" by (simp add: select_peers_def Let_def)
  have sub: "set (take ?f ?ix) \<subseteq> {0..<?n}" using ix(2) set_take_subset by metis
  have "inj_on (\<lambda>i. ?peers ! i) (set (take ?f ?ix))"
    using sub it(1) by (meson atLeastLessThan_iff inj_onI nth_eq_iff_index_eq subsetD)
  then show "distinct (select_peers env S)" unfolding eq using ix(1) by (simp add: distinct_map distinct_take)
  show "set (select_peers env S) \<subseteq> S" unfolding eq set_map using sub nth_mem it(2) by (metis atLeastLessThan_iff image_subsetI subsetD)
  show "length (select_peers env S) = min 3 (card S)" unfolding eq using ix(3) it by (simp add: distinct_card [symmetric])
qed

text \<open>what a FOAF query makes a node send. A query that is still remembered sends nothing. A new one is
  remembered; its origin, and nobody else, gets the live records of the topic, if there are any; and
  the query goes on, with its hop count reduced, to at most three distinct broadcast peers other than
  the origin, and not at all when its hops are used up.\<close>

theorem query_relay_exact:
  assumes "relay_order_ok env" "finite (pm_broadcast_peers m)" "handle_query env i topic ttl origin now m = (out, m')"
  shows "if pm_seen_queries m i \<noteq> None then out = [] \<and> m' = m
    else m' = m\<lparr>pm_seen_queries := (pm_seen_queries m)(i \<mapsto> now)\<rparr> \<and>
      (\<exists>peers. out = answer_query env i topic origin now m @ map (\<lambda>p. (p, Query i topic (ttl - 1) origin)) peers \<and>
         distinct peers \<and> length peers \<le> 3 \<and> set peers \<subseteq> pm_broadcast_peers m - {origin} \<and> (ttl = 0 \<longrightarrow> peers = [])) \<and>
      (\<forall>p msg. (p, msg) \<in> set (answer_query env i topic origin now m) \<longrightarrow> p = origin \<and> msg = QueryResponse i topic (live_records env now topic m))"
proof -
  let ?m = "m\<lparr>pm_seen_queries := (pm_seen_queries m)(i \<mapsto> now)\<rparr>"
  let ?sel = "filter (\<lambda>p. p \<noteq> origin) (select_peers env (pm_broadcast_peers m))"
  define peers where "peers = (if ttl > 0 \<and> pv_encodes env (Query i topic (ttl - 1) origin) then ?sel else [])"
  note S = select_peers_props [OF assms(1,2)]
  have live: "live_records env now topic ?m = live_records env now topic m" by (simp add: live_records_def)
  have fwd: "forward_query env i topic ttl origin ?m = map (\<lambda>p. (p, Query i topic (ttl - 1) origin)) peers"
    by (simp add: forward_query_def peers_def Let_def)
  have "length ?sel \<le> length (select_peers env (pm_broadcast_peers m))" by (rule length_filter_le)
  then have "length ?sel \<le> 3" using S(3) by simp
  then have P: "distinct peers \<and> length peers \<le> 3 \<and> set peers \<subseteq> pm_broadcast_peers m - {origin} \<and> (ttl = 0 \<longrightarrow> peers = [])"
    using S(1,2) by (auto simp: peers_def)
  have A: "answer_query env i topic origin now ?m = answer_query env i topic origin now m" by (simp add: answer_query_def live)
  have R: "\<forall>p msg. (p, msg) \<in> set (answer_query env i topic origin now m) \<longrightarrow> p = origin \<and> msg = QueryResponse i topic (live_records env now topic m)"
    by (simp add: answer_query_def Let_def)
  show ?thesis
  proof (cases "pm_seen_queries m i")
    case None
    then have "out = answer_query env i topic origin now ?m @ forward_query env i topic ttl origin ?m" "m' = ?m"
      using assms(3) by (auto simp: handle_query_def Let_def)
    then show ?thesis unfolding A fwd using None P R by simp blast
  next
    case (Some t)
    then show ?thesis using assms(3) by (simp add: handle_query_def)
  qed
qed


lemma demo_order_ok: "relay_order_ok demo_env"
  by (simp add: relay_order_ok_def demo_env_def iterates_set_def iterates_def)

theorem query_relay_exact_witness:
  "case handle_query demo_env [8] (TopicId [5]) 2 (PeerId [1]) 4 (add_broadcast_peer (PeerId [2]) demo_manager) of
     (out, m') \<Rightarrow> length out \<le> 3 \<and> pm_seen_queries m' [8] = Some 4"
proof -
  let ?m = "add_broadcast_peer (PeerId [2]) demo_manager"
  obtain out m' where h: "handle_query demo_env [8] (TopicId [5]) 2 (PeerId [1]) 4 ?m = (out, m')" by (rule prod.exhaust)
  have "finite (pm_broadcast_peers ?m)" "pm_seen_queries ?m [8] = None" "answer_query demo_env [8] (TopicId [5]) (PeerId [1]) 4 ?m = []"
    by (simp_all add: add_broadcast_peer_def demo_manager_def new_with_four_words_def answer_query_def live_records_def)
  then show ?thesis using query_relay_exact [OF demo_order_ok _ h] h by auto
qed

subsection \<open>Reboots and replays\<close>

definition beacon_at :: "nat \<Rightarrow> nat \<Rightarrow> nat \<Rightarrow> PresenceRecord" where
  "beacon_at from_secs ttl n = (presence_new from_secs [1] [''10.0.0.1:1''] ttl)\<lparr>seq := n\<rparr>"

text \<open>A beacon that arrives is not checked for expiry, and a higher sequence number always wins. So after a
  peer has restarted and its new beacon was taken as a reboot, a copy of the beacon from before, long
  expired, puts the peer offline again.\<close>

theorem replay_after_reboot_wins:
  fixes m :: "'f PresenceManager"
  defines "before \<equiv> handle_beacon (TopicId [5]) (PeerId [1]) (beacon_at 100 900 7) (m\<lparr>pm_received_beacons := Map.empty\<rparr>)"
  defines "rebooted \<equiv> handle_beacon (TopicId [5]) (PeerId [1]) (beacon_at 2000 900 0) before"
  shows "get_status 2100000000000 (PeerId [1]) (TopicId [5]) rebooted = Online \<and>
    get_status 2100000000000 (PeerId [1]) (TopicId [5]) (handle_beacon (TopicId [5]) (PeerId [1]) (beacon_at 100 900 7) rebooted) = Offline"
  unfolding rebooted_def before_def
  by (simp add: get_status_def handle_beacon_def insert_beacon_def beacon_at_def presence_new_def supersedes_def unix_secs_def
      presence_is_expired_def REBOOT_GRACE_SECS_def u64_sat_add_def u64_max_eq get_or_def)

end
