(* ===== verification/Rendezvous.thy ===== *)
theory Rendezvous
  imports Coordinator
begin

text \<open>
  Rendezvous shards, \<open>crates/rendezvous/src/lib.rs\<close>, and the two clients of the runtime,
  \<open>crates/runtime/src/rendezvous.rs\<close> and \<open>crates/runtime/src/coordinator.rs\<close>: the shard of a target,
  provider summaries, the cache of summaries and its ranking, and the collection of coordinator
  adverts.

  BLAKE3, CBOR, the signature scheme, the random choice of peers and the transport are parameters: what
  the transport receives is a list of events, and where the list ends the deadline has passed.
\<close>

unbundle bit_operations_syntax

subsection \<open>Shards\<close>

definition SHARD_BITS :: nat where "SHARD_BITS = 16"

definition SHARD_COUNT :: "32 word" where "SHARD_COUNT = push_bit SHARD_BITS 1"

definition SHARD_MASK :: "32 word" where "SHARD_MASK = SHARD_COUNT - 1"

definition RENDEZVOUS_PREFIX :: bytes where "RENDEZVOUS_PREFIX = ascii_bytes ''saorsa-rendezvous''"

type_synonym ShardId = "16 word"

definition u32_from_le_bytes :: "u8 \<Rightarrow> u8 \<Rightarrow> u8 \<Rightarrow> u8 \<Rightarrow> 32 word" where
  "u32_from_le_bytes b_0 b_1 b_2 b_3 = ucast b_0 OR push_bit 8 (ucast b_1) OR push_bit 16 (ucast b_2) OR push_bit 24 (ucast b_3)"

definition calculate_shard :: "(bytes \<Rightarrow> bytes) \<Rightarrow> bytes \<Rightarrow> ShardId" where
  "calculate_shard blake3 target_id =
     (let hash = blake3 (RENDEZVOUS_PREFIX @ target_id);
          value = u32_from_le_bytes (hash ! 0) (hash ! 1) (hash ! 2) (hash ! 3)
      in ucast (value AND SHARD_MASK))"

subsection \<open>Provider summaries\<close>

datatype Capability = Site | Identity

record SummaryData =
  sd_bloom :: "bytes option"
  sd_iblt :: "bytes option"

record ProviderSummary =
  ps_v :: nat
  ps_target :: bytes
  ps_provider :: PeerId
  ps_cap :: "Capability list"
  ps_have_root :: bool
  ps_manifest_ver :: "nat option"
  ps_summary :: "SummaryData option"
  ps_exp :: nat
  ps_extensions :: "bytes option"
  ps_sig :: bytes

text \<open>The fields under the signature are all but \<open>sig\<close>; a summary whose signature is left empty stands for
  them.\<close>

definition summary_fields :: "ProviderSummary \<Rightarrow> ProviderSummary" where
  "summary_fields s = s\<lparr>ps_sig := []\<rparr>"

record summary_crypto =
  sc_encode :: "ProviderSummary \<Rightarrow> bytes option" \<comment> \<open>CBOR of the fields under the signature\<close>
  sc_secret_key :: "bytes \<Rightarrow> bytes option" \<comment> \<open>\<open>MlDsaSecretKey::from_bytes\<close>\<close>
  sc_public_key :: "bytes \<Rightarrow> bytes option"
  sc_sign :: "bytes \<Rightarrow> bytes \<Rightarrow> bytes option"
  sc_verify :: "bytes \<Rightarrow> bytes \<Rightarrow> bytes \<Rightarrow> bool option"
  sc_to_cbor :: "ProviderSummary \<Rightarrow> bytes option"
  sc_from_cbor :: "bytes \<Rightarrow> ProviderSummary option"

definition summary_new :: "instant \<Rightarrow> bytes \<Rightarrow> PeerId \<Rightarrow> Capability list \<Rightarrow> nat \<Rightarrow> ProviderSummary" where
  "summary_new now target provider capabilities validity_ms =
     \<lparr>ps_v = 1, ps_target = target, ps_provider = provider, ps_cap = capabilities, ps_have_root = False, ps_manifest_ver = None,
      ps_summary = None, ps_exp = u64_add (unix_millis now) validity_ms, ps_extensions = None, ps_sig = []\<rparr>"

definition with_root :: "bool \<Rightarrow> ProviderSummary \<Rightarrow> ProviderSummary" where
  "with_root has_root s = s\<lparr>ps_have_root := has_root\<rparr>"

definition with_manifest_version :: "nat \<Rightarrow> ProviderSummary \<Rightarrow> ProviderSummary" where
  "with_manifest_version version s = s\<lparr>ps_manifest_ver := Some version\<rparr>"

definition with_summary :: "SummaryData \<Rightarrow> ProviderSummary \<Rightarrow> ProviderSummary" where
  "with_summary data s = s\<lparr>ps_summary := Some data\<rparr>"

definition with_extensions :: "bytes \<Rightarrow> ProviderSummary \<Rightarrow> ProviderSummary" where
  "with_extensions data s = s\<lparr>ps_extensions := Some data\<rparr>"

definition summary_is_valid :: "instant \<Rightarrow> ProviderSummary \<Rightarrow> bool" where
  "summary_is_valid now s \<longleftrightarrow> unix_millis now \<le> ps_exp s"

definition summary_sign :: "summary_crypto \<Rightarrow> bytes \<Rightarrow> ProviderSummary \<Rightarrow> ProviderSummary option" where
  "summary_sign C key s =
     (case sc_encode C (summary_fields s) of
        None \<Rightarrow> None
      | Some m \<Rightarrow> (case sc_sign C key m of None \<Rightarrow> None | Some sg \<Rightarrow> Some (s\<lparr>ps_sig := sg\<rparr>)))"

definition summary_verify :: "summary_crypto \<Rightarrow> bytes \<Rightarrow> ProviderSummary \<Rightarrow> bool option" where
  "summary_verify C public_key s =
     (case sc_encode C (summary_fields s) of None \<Rightarrow> None | Some m \<Rightarrow> sc_verify C public_key m (ps_sig s))"

definition sign_raw :: "summary_crypto \<Rightarrow> bytes \<Rightarrow> ProviderSummary \<Rightarrow> ProviderSummary option" where
  "sign_raw C raw s = (case sc_secret_key C raw of None \<Rightarrow> None | Some key \<Rightarrow> summary_sign C key s)"

definition verify_raw :: "summary_crypto \<Rightarrow> bytes \<Rightarrow> ProviderSummary \<Rightarrow> bool option" where
  "verify_raw C raw s = (case sc_public_key C raw of None \<Rightarrow> None | Some key \<Rightarrow> summary_verify C key s)"

definition shard :: "(bytes \<Rightarrow> bytes) \<Rightarrow> ProviderSummary \<Rightarrow> ShardId" where
  "shard blake3 s = calculate_shard blake3 (ps_target s)"

subsection \<open>The rendezvous client\<close>

fun decimal :: "nat \<Rightarrow> string" where
  "decimal n = (if n < 10 then [char_of (48 + n)] else decimal (n div 10) @ [char_of (48 + n mod 10)])"

declare decimal.simps [simp del]

definition shard_topic :: "(bytes \<Rightarrow> bytes) \<Rightarrow> ShardId \<Rightarrow> TopicId" where
  "shard_topic blake3 sh = TopicId (blake3 (ascii_bytes (''rendezvous_shard_'' @ decimal (unat sh))))"

record RendezvousClient =
  rc_peer_id :: PeerId
  rc_cached_summaries :: "bytes \<rightharpoonup> ProviderSummary list"
  rc_subscriptions :: "ShardId \<rightharpoonup> TopicId"
  rc_active_collectors :: "bytes set"

definition rendezvous_new :: "PeerId \<Rightarrow> RendezvousClient" where
  "rendezvous_new p = \<lparr>rc_peer_id = p, rc_cached_summaries = Map.empty, rc_subscriptions = Map.empty, rc_active_collectors = {}\<rparr>"

definition get_cached_summaries :: "bytes \<Rightarrow> RendezvousClient \<Rightarrow> ProviderSummary list" where
  "get_cached_summaries target_id c = get_or [] (rc_cached_summaries c) target_id"

text \<open>The topics an operation subscribes to at the pub/sub layer are part of its result.\<close>

definition subscribe_to_shard :: "(bytes \<Rightarrow> bytes) \<Rightarrow> bytes \<Rightarrow> RendezvousClient \<Rightarrow> ShardId \<times> TopicId list \<times> RendezvousClient" where
  "subscribe_to_shard blake3 target_id c =
     (let sh = calculate_shard blake3 target_id
      in if rc_subscriptions c sh \<noteq> None then (sh, [], c)
         else (sh, [shard_topic blake3 sh], c\<lparr>rc_subscriptions := (rc_subscriptions c)(sh \<mapsto> shard_topic blake3 sh)\<rparr>))"

text \<open>\<open>None\<close> is the error of the encoder; the publish that follows is the result.\<close>

definition publish_provider_summary :: "summary_crypto \<Rightarrow> (bytes \<Rightarrow> bytes) \<Rightarrow> ProviderSummary \<Rightarrow> (TopicId \<times> bytes) option" where
  "publish_provider_summary C blake3 s =
     map_option (\<lambda>data. (shard_topic blake3 (calculate_shard blake3 (ps_target s)), data)) (sc_to_cbor C s)"

text \<open>The clock is read once for every cached summary, by its position in the list; \<open>None\<close> is a clock before 1970.\<close>

definition get_providers_for_target :: "(nat \<Rightarrow> instant option) \<Rightarrow> bytes \<Rightarrow> RendezvousClient \<Rightarrow> ProviderSummary list" where
  "get_providers_for_target clock target_id c =
     map fst (sort_key (\<lambda>e. - int (snd e))
       (List.map_filter
         (\<lambda>(n, s).
            case clock n of
              None \<Rightarrow> None
            | Some now \<Rightarrow> if ps_exp s \<le> unix_millis now then None else Some (s, ps_exp s - unix_millis now))
         (enumerate 0 (get_cached_summaries target_id c))))"

datatype summary_error = InvalidPayload | TargetMismatch

fun replace_or_push :: "ProviderSummary \<Rightarrow> ProviderSummary list \<Rightarrow> ProviderSummary list" where
  "replace_or_push s [] = [s]"
| "replace_or_push s (x # xs) = (if ps_provider x = ps_provider s then s # xs else x # replace_or_push s xs)"

definition process_incoming_summary :: "summary_crypto \<Rightarrow> bytes \<Rightarrow> bytes \<Rightarrow> RendezvousClient \<Rightarrow> (summary_error + unit) \<times> RendezvousClient" where
  "process_incoming_summary C target_id data c =
     (case sc_from_cbor C data of
        None \<Rightarrow> (Inl InvalidPayload, c)
      | Some s \<Rightarrow>
          if ps_target s \<noteq> target_id then (Inl TargetMismatch, c)
          else (Inr (), c\<lparr>rc_cached_summaries := (rc_cached_summaries c)(target_id \<mapsto> replace_or_push s (get_cached_summaries target_id c))\<rparr>))"

text \<open>The collector runs \<open>process_incoming_summary\<close> on every message of the topic; here it is started.\<close>

definition start_collecting_for_target :: "(bytes \<Rightarrow> bytes) \<Rightarrow> bytes \<Rightarrow> RendezvousClient \<Rightarrow> TopicId list option \<times> RendezvousClient" where
  "start_collecting_for_target blake3 target_id c =
     (if target_id \<in> rc_active_collectors c then (Some [], c)
      else case rc_subscriptions c (calculate_shard blake3 target_id) of
             None \<Rightarrow> (None, c)
           | Some topic_id \<Rightarrow> (Some [topic_id], c\<lparr>rc_active_collectors := insert target_id (rc_active_collectors c)\<rparr>))"

subsection \<open>The coordinator client\<close>

datatype GossipStreamType = MembershipStream | PubSubStream | BulkStream

datatype received = Received PeerId GossipStreamType bytes | ReceiveError

record CoordinatorClient =
  cc_peer_id :: PeerId
  cc_cached_adverts :: "CoordinatorAdvert list"

definition client_new :: "PeerId \<Rightarrow> CoordinatorClient" where
  "client_new p = \<lparr>cc_peer_id = p, cc_cached_adverts = []\<rparr>"

definition publish_coordinator_advert ::
  "advert_crypto \<Rightarrow> instant \<Rightarrow> PeerRoles \<Rightarrow> SocketAddr list \<Rightarrow> NatClass \<Rightarrow> nat \<Rightarrow> PeerId list \<Rightarrow> CoordinatorClient \<Rightarrow>
     (PeerId \<times> bytes) list option \<times> CoordinatorClient" where
  "publish_coordinator_advert C now roles endpoints nat_class validity_ms active_peers c =
     (let advert = advert_new now (cc_peer_id c) roles (map (addr_hint_new now) endpoints) nat_class validity_ms;
          c1 = c\<lparr>cc_cached_adverts := cc_cached_adverts c @ [advert]\<rparr>
      in case ac_to_cbor C advert of
           None \<Rightarrow> (None, c1)
         | Some data \<Rightarrow> (Some (map (\<lambda>p. (p, data)) active_peers), c1))"

text \<open>\<open>None\<close>: the deadline passed before the collection ended.\<close>

fun collect_loop :: "(bytes \<Rightarrow> CoordinatorAdvert option) \<Rightarrow> PeerId list \<Rightarrow> received list \<Rightarrow> (PeerId \<rightharpoonup> CoordinatorAdvert) \<Rightarrow> (PeerId \<rightharpoonup> CoordinatorAdvert) option" where
  "collect_loop decode expected [] adverts = None"
| "collect_loop decode expected (ReceiveError # rest) adverts = Some adverts"
| "collect_loop decode expected (Received p stream data # rest) adverts =
     (if stream \<noteq> MembershipStream then collect_loop decode expected rest adverts
      else if p \<notin> set expected then collect_loop decode expected rest adverts
      else let adverts' = (case decode data of None \<Rightarrow> adverts | Some a \<Rightarrow> map_or_insert (ca_peer a) a adverts)
           in if card (dom adverts') \<ge> length expected then Some adverts' else collect_loop decode expected rest adverts')"

definition collect_coordinator_responses ::
  "advert_crypto \<Rightarrow> ((PeerId \<rightharpoonup> CoordinatorAdvert) \<Rightarrow> PeerId list) \<Rightarrow> PeerId list \<Rightarrow> received list \<Rightarrow> CoordinatorAdvert list" where
  "collect_coordinator_responses C order expected events =
     (case collect_loop (ac_from_cbor C) expected events Map.empty of
        None \<Rightarrow> []
      | Some m \<Rightarrow> List.map_filter m (order m))"

definition cache_new_adverts :: "CoordinatorAdvert list \<Rightarrow> CoordinatorClient \<Rightarrow> CoordinatorClient" where
  "cache_new_adverts adverts c =
     c\<lparr>cc_cached_adverts := fold (\<lambda>a cache. if list_ex (\<lambda>b. ca_peer b = ca_peer a) cache then cache else cache @ [a]) adverts (cc_cached_adverts c)\<rparr>"

text \<open>The peers are a random choice from the active view, and \<open>send_ok\<close> says which sends succeed; the
  encoder of the query may fail, which is the error \<open>None\<close>.\<close>

definition find_coordinators_via_foaf ::
  "advert_crypto \<Rightarrow> ((PeerId \<rightharpoonup> CoordinatorAdvert) \<Rightarrow> PeerId list) \<Rightarrow> (PeerId list \<Rightarrow> nat \<Rightarrow> PeerId list) \<Rightarrow> (PeerId \<Rightarrow> bool) \<Rightarrow>
     bytes option \<Rightarrow> nat \<Rightarrow> PeerId list \<Rightarrow> received list \<Rightarrow> CoordinatorClient \<Rightarrow>
     (CoordinatorAdvert list \<times> (PeerId \<times> bytes) list) option \<times> CoordinatorClient" where
  "find_coordinators_via_foaf C order pick send_ok query fanout active_peers events c =
     (if cc_cached_adverts c \<noteq> [] then (Some (cc_cached_adverts c, []), c)
      else if active_peers = [] then (Some ([], []), c)
      else let selected = pick active_peers fanout
           in case query of
                None \<Rightarrow> (None, c)
              | Some data \<Rightarrow>
                  (let sent = map (\<lambda>p. (p, data)) selected
                   in if length (filter send_ok selected) = 0 then (Some ([], sent), c)
                      else let adverts = collect_coordinator_responses C order selected events
                           in (Some (adverts, sent), if adverts = [] then c else cache_new_adverts adverts c)))"

definition parse_reflection :: "(bytes \<Rightarrow> SocketAddr option) \<Rightarrow> bytes \<Rightarrow> SocketAddr option" where
  "parse_reflection parse data =
     (let prefix = ascii_bytes ''ADDR_REFLECT_RESPONSE:''
      in if take (length prefix) data = prefix then parse (drop (length prefix) data) else None)"

text \<open>After the request is sent, messages are read until one is the reflection, an error ends the wait, or
  the deadline passes.\<close>

datatype reflection_error = RequestFailed | NoValidResponse | ReflectionTimeout

fun await_reflection :: "(bytes \<Rightarrow> SocketAddr option) \<Rightarrow> PeerId \<Rightarrow> received list \<Rightarrow> reflection_error + SocketAddr" where
  "await_reflection parse coordinator [] = Inl ReflectionTimeout"
| "await_reflection parse coordinator (ReceiveError # rest) = Inl NoValidResponse"
| "await_reflection parse coordinator (Received p stream data # rest) =
     (if p = coordinator \<and> stream = MembershipStream
      then (case parse_reflection parse data of
              Some addr \<Rightarrow> Inr addr | None \<Rightarrow> await_reflection parse coordinator rest)
      else await_reflection parse coordinator rest)"

definition request_address_reflection ::
  "(bytes \<Rightarrow> SocketAddr option) \<Rightarrow> (PeerId \<Rightarrow> bool) \<Rightarrow> PeerId \<Rightarrow> received list \<Rightarrow> reflection_error + SocketAddr" where
  "request_address_reflection parse send_ok coordinator events =
     (if send_ok coordinator then await_reflection parse coordinator events else Inl RequestFailed)"

end
