(* ===== verification/Providers.thy ===== *)
theory Providers
  imports Rendezvous
begin

text \<open>
  What the rendezvous and coordinator clients promise: a seeker listens where the publishers of its
  target speak, the providers it is given are the latest unexpired summaries, best first, and when a
  lookup of coordinators returns what it heard.
\<close>

unbundle bit_operations_syntax

subsection \<open>Shards\<close>

lemma shard_mask: "SHARD_MASK = mask 16"
  by (simp add: SHARD_MASK_def SHARD_COUNT_def SHARD_BITS_def mask_eq_exp_minus_1)

lemma shard_word:
  "calculate_shard blake3 t =
     (let hash = blake3 (RENDEZVOUS_PREFIX @ t) in ucast (hash ! 0) OR push_bit 8 (ucast (hash ! 1)))"
  unfolding calculate_shard_def Let_def u32_from_le_bytes_def shard_mask
  by (rule bit_word_eqI) (auto simp: bit_simps)

lemma unat_two_bytes: "unat (ucast a OR push_bit 8 (ucast b) :: 16 word) = unat a + 256 * unat b" for a b :: u8
proof -
  have disj: "ucast a OR push_bit 8 (ucast b) = (ucast a + push_bit 8 (ucast b) :: 16 word)"
    by (rule disjunctive_add_eq_or [symmetric]) (rule bit_word_eqI, auto simp: bit_simps dest: bit_imp_le_length)
  have "unat a < 256" "unat b < 256" using unsigned_less [of a] unsigned_less [of b] by simp_all
  then show ?thesis
    unfolding disj by (simp add: unat_word_ariths push_bit_eq_mult unsigned_ucast_eq take_bit_eq_mod)
qed

lemma shard_bytes:
  "unat (calculate_shard blake3 t) =
     unat (blake3 (RENDEZVOUS_PREFIX @ t) ! 0) + 256 * unat (blake3 (RENDEZVOUS_PREFIX @ t) ! 1)"
  by (simp add: shard_word Let_def unat_two_bytes)

text \<open>Numbers are printed injectively: the value can be read back.\<close>

definition read_decimal :: "string \<Rightarrow> nat" where
  "read_decimal s = foldl (\<lambda>v c. 10 * v + (of_char c - 48)) 0 s"

lemma read_decimal_decimal: "read_decimal (decimal n) = n"
proof (induction n rule: decimal.induct)
  case (1 n)
  show ?case
  proof (cases "n < 10")
    case True
    then have "of_char (char_of (48 + n) :: char) = 48 + n" by (simp add: of_char_of)
    then show ?thesis using True by (simp add: read_decimal_def decimal.simps [of n])
  next
    case False
    have "of_char (char_of (48 + n mod 10) :: char) = 48 + n mod 10" by (simp add: of_char_of)
    then show ?thesis using 1 False by (simp add: read_decimal_def decimal.simps [of n])
  qed
qed

lemma decimal_inj: "decimal a = decimal b \<longleftrightarrow> a = b"
  by (metis read_decimal_decimal)

lemma two_digits: "x < 256 \<Longrightarrow> y < 256 \<Longrightarrow> x + 256 * p = y + 256 * q \<longleftrightarrow> x = y \<and> p = q" for x y p q :: nat
proof
  assume x: "x < 256" "y < 256" and eq: "x + 256 * p = y + 256 * q"
  from eq have "(x + 256 * p) mod 256 = (y + 256 * q) mod 256" by simp
  then have "x = y" using x by simp
  then show "x = y \<and> p = q" using eq by simp
qed simp

lemma same_shard:
  "calculate_shard blake3 s = calculate_shard blake3 t \<longleftrightarrow>
     blake3 (RENDEZVOUS_PREFIX @ s) ! 0 = blake3 (RENDEZVOUS_PREFIX @ t) ! 0 \<and>
     blake3 (RENDEZVOUS_PREFIX @ s) ! 1 = blake3 (RENDEZVOUS_PREFIX @ t) ! 1"
proof -
  have two: "unat a + 256 * unat b = unat c + 256 * unat d \<longleftrightarrow> a = c \<and> b = d" for a b c d :: u8
  proof -
    have "unat a < 256" "unat c < 256" using unsigned_less [of a] unsigned_less [of c] by simp_all
    then have "unat a + 256 * unat b = unat c + 256 * unat d \<longleftrightarrow> unat a = unat c \<and> unat b = unat d" by (rule two_digits)
    then show ?thesis by (auto dest: unsigned_word_eqI)
  qed
  have "calculate_shard blake3 s = calculate_shard blake3 t \<longleftrightarrow> unat (calculate_shard blake3 s) = unat (calculate_shard blake3 t)" by (auto intro: unsigned_word_eqI)
  then show ?thesis unfolding shard_bytes two .
qed

lemma char_byte_inj: "word_of_nat (of_char a) = (word_of_nat (of_char b) :: u8) \<Longrightarrow> a = b"
proof -
  assume "word_of_nat (of_char a) = (word_of_nat (of_char b) :: u8)"
  then have "of_char a mod 256 = (of_char b mod 256 :: nat)" by (simp add: word_of_nat_eq_iff take_bit_eq_mod)
  then show "a = b" by (simp add: of_char_mod_256 of_char_eq_iff)
qed

subsection \<open>Runs of the client\<close>

datatype client_op = SubscribeTo bytes | Incoming bytes bytes | CollectFor bytes

fun client_exec :: "summary_crypto \<Rightarrow> (bytes \<Rightarrow> bytes) \<Rightarrow> client_op \<Rightarrow> RendezvousClient \<Rightarrow> RendezvousClient" where
  "client_exec C blake3 (SubscribeTo t) c = snd (snd (subscribe_to_shard blake3 t c))"
| "client_exec C blake3 (Incoming t data) c = snd (process_incoming_summary C t data c)"
| "client_exec C blake3 (CollectFor t) c = snd (start_collecting_for_target blake3 t c)"

definition client_run :: "summary_crypto \<Rightarrow> (bytes \<Rightarrow> bytes) \<Rightarrow> PeerId \<Rightarrow> client_op list \<Rightarrow> RendezvousClient" where
  "client_run C blake3 p ops = fold (client_exec C blake3) ops (rendezvous_new p)"

lemma client_run_snoc [simp]:
  "client_run C blake3 p [] = rendezvous_new p"
  "client_run C blake3 p (ops @ [op]) = client_exec C blake3 op (client_run C blake3 p ops)"
  by (simp_all add: client_run_def)

lemma subscriptions_after:
  "rc_subscriptions (client_run C blake3 p ops) sh = Some topic \<Longrightarrow> topic = shard_topic blake3 sh"
proof (induction ops arbitrary: sh topic rule: rev_induct)
  case Nil
  then show ?case by (simp add: rendezvous_new_def)
next
  case (snoc op ops)
  then show ?case
    by (cases op)
      (auto simp: subscribe_to_shard_def process_incoming_summary_def start_collecting_for_target_def Let_def
        split: if_splits option.splits)
qed

lemma shard_topic_inj:
  assumes "inj_on blake3 (range (\<lambda>sh :: ShardId. ascii_bytes (''rendezvous_shard_'' @ decimal (unat sh))))"
  shows "shard_topic blake3 a = shard_topic blake3 b \<longleftrightarrow> a = b"
proof
  assume "shard_topic blake3 a = shard_topic blake3 b"
  then have "blake3 (ascii_bytes (''rendezvous_shard_'' @ decimal (unat a))) = blake3 (ascii_bytes (''rendezvous_shard_'' @ decimal (unat b)))"
    by (simp only: shard_topic_def TopicId.inject)
  then have "ascii_bytes (''rendezvous_shard_'' @ decimal (unat a)) = ascii_bytes (''rendezvous_shard_'' @ decimal (unat b))"
    by (rule inj_onD [OF assms]) (rule rangeI)+
  then have "ascii_bytes (decimal (unat a)) = ascii_bytes (decimal (unat b))" by (simp add: ascii_bytes_def)
  then have "decimal (unat a) = decimal (unat b)"
    unfolding ascii_bytes_def by (rule map_injective [OF _ injI]) (rule char_byte_inj)
  then show "a = b" by (simp add: decimal_inj unsigned_word_eqI)
qed simp

text \<open>a client that has subscribed to the shard of a target and then collects for it listens, whatever
  it did before, on exactly the topic to which the summaries of that target are published; and a
  summary of another target is published there if and only if the first two bytes of the two hashes
  agree, provided BLAKE3 keeps the names of the shards apart.\<close>

theorem seekers_meet_publishers:
  assumes "inj_on blake3 (range (\<lambda>sh :: ShardId. ascii_bytes (''rendezvous_shard_'' @ decimal (unat sh))))"
    and "c = client_run C blake3 p ops" "subscribe_to_shard blake3 t c = (sh, subs, c1)"
    and "start_collecting_for_target blake3 t c1 = (r, c2)" "t \<notin> rc_active_collectors c"
    and "publish_provider_summary C blake3 s = Some (topic, data)"
  shows "r \<noteq> None \<and> (the r = [topic] \<longleftrightarrow>
    blake3 (RENDEZVOUS_PREFIX @ ps_target s) ! 0 = blake3 (RENDEZVOUS_PREFIX @ t) ! 0 \<and>
    blake3 (RENDEZVOUS_PREFIX @ ps_target s) ! 1 = blake3 (RENDEZVOUS_PREFIX @ t) ! 1)"
proof -
  let ?sh = "calculate_shard blake3 t"
  have sub: "rc_subscriptions c1 ?sh = Some (shard_topic blake3 ?sh)" "rc_active_collectors c1 = rc_active_collectors c"
    using assms(2,3) subscriptions_after [of C blake3 p ops ?sh]
    by (auto simp: subscribe_to_shard_def Let_def split: if_splits)
  then have r: "r = Some [shard_topic blake3 ?sh]"
    using assms(4,5) by (auto simp: start_collecting_for_target_def)
  have top: "topic = shard_topic blake3 (calculate_shard blake3 (ps_target s))"
    using assms(6) by (auto simp: publish_provider_summary_def)
  show ?thesis
    unfolding r top by (auto simp: shard_topic_inj [OF assms(1)] same_shard)
qed

text \<open>A stand-in for BLAKE3 that keeps inputs apart, and plain codecs.\<close>

definition demo_hash :: "bytes \<Rightarrow> bytes" where
  "demo_hash m = m"

definition plain_summary :: "bytes \<Rightarrow> ProviderSummary option" where
  "plain_summary m =
     (case m of
        [t, p, e] \<Rightarrow> Some ((summary_new 0 [t] (PeerId [p]) [Site] (unat e))\<lparr>ps_sig := [1]\<rparr>)
      | _ \<Rightarrow> None)"

definition demo_codec_summary :: summary_crypto where
  "demo_codec_summary =
     \<lparr>sc_encode = (\<lambda>s. Some (ps_target s)), sc_secret_key = Some, sc_public_key = Some, sc_sign = (\<lambda>k m. Some (k @ m)),
      sc_verify = (\<lambda>k m sg. Some (sg = k @ m)), sc_to_cbor = (\<lambda>s. Some (ps_target s)), sc_from_cbor = plain_summary\<rparr>"

theorem seekers_meet_publishers_witness:
  "case subscribe_to_shard demo_hash [7] (rendezvous_new (PeerId [1])) of (sh, subs, c) \<Rightarrow>
     fst (start_collecting_for_target demo_hash [7] c) =
       map_option (\<lambda>td. [fst td]) (publish_provider_summary demo_codec_summary demo_hash (summary_new 0 [7] (PeerId [2]) [Site] 9))"
proof -
  let ?c = "rendezvous_new (PeerId [1])" and ?s = "summary_new 0 [7] (PeerId [2]) [Site] 9"
  obtain sh subs d where sub: "subscribe_to_shard demo_hash [7] ?c = (sh, subs, d)" by (rule prod_cases3)
  obtain r e where st: "start_collecting_for_target demo_hash [7] d = (r, e)" by (rule prod.exhaust)
  obtain topic data where pub: "publish_provider_summary demo_codec_summary demo_hash ?s = Some (topic, data)"
    by (simp add: publish_provider_summary_def demo_codec_summary_def)
  have inj: "inj_on demo_hash (range (\<lambda>sh :: ShardId. ascii_bytes (''rendezvous_shard_'' @ decimal (unat sh))))"
    by (simp add: demo_hash_def inj_on_def)
  have run: "?c = client_run demo_codec_summary demo_hash (PeerId [1]) []" by simp
  have "[7] \<notin> rc_active_collectors ?c" by (simp add: rendezvous_new_def)
  from seekers_meet_publishers [OF inj run sub st this pub]
  have "r = Some [topic]" by (auto simp: summary_new_def)
  then show ?thesis by (simp add: sub st pub)
qed

subsection \<open>Providers\<close>

text \<open>The last summary of each provider of a target, as the messages came in.\<close>

definition learn :: "summary_crypto \<Rightarrow> bytes \<Rightarrow> client_op \<Rightarrow> (PeerId \<rightharpoonup> ProviderSummary) \<Rightarrow> (PeerId \<rightharpoonup> ProviderSummary)" where
  "learn C t op m =
     (case op of
        Incoming u data \<Rightarrow>
          (case sc_from_cbor C data of
             Some s \<Rightarrow> if u = t \<and> ps_target s = t then m(ps_provider s \<mapsto> s) else m
           | None \<Rightarrow> m)
      | _ \<Rightarrow> m)"

definition latest :: "summary_crypto \<Rightarrow> bytes \<Rightarrow> client_op list \<Rightarrow> (PeerId \<rightharpoonup> ProviderSummary)" where
  "latest C t ops = fold (learn C t) ops Map.empty"

definition by_provider :: "ProviderSummary list \<Rightarrow> (PeerId \<rightharpoonup> ProviderSummary)" where
  "by_provider xs = map_of (map (\<lambda>s. (ps_provider s, s)) xs)"

lemma by_provider_simps [simp]:
  "by_provider [] = Map.empty"
  "by_provider (x # xs) = (by_provider xs)(ps_provider x \<mapsto> x)"
  by (simp_all add: by_provider_def)

lemma by_provider_eq_None: "by_provider xs q = None \<longleftrightarrow> q \<notin> ps_provider ` set xs"
  by (induction xs) auto

lemma replace_or_push_view [view_simps]:
  "distinct (map ps_provider xs) \<Longrightarrow>
     ps_provider ` set (replace_or_push s xs) = insert (ps_provider s) (ps_provider ` set xs) \<and>
     distinct (map ps_provider (replace_or_push s xs)) \<and>
     by_provider (replace_or_push s xs) = (by_provider xs)(ps_provider s \<mapsto> s)"
proof (induction xs)
  case (Cons x xs)
  then show ?case by (auto simp: fun_upd_twist)
qed simp

lemma cached_refines_latest:
  "distinct (map ps_provider (get_cached_summaries t (client_run C blake3 p ops))) \<and>
   by_provider (get_cached_summaries t (client_run C blake3 p ops)) = latest C t ops"
proof (induction ops rule: rev_induct)
  case Nil
  show ?case by (simp add: get_cached_summaries_def rendezvous_new_def latest_def)
next
  case (snoc op ops)
  let ?c = "client_run C blake3 p ops"
  have L: "latest C t (ops @ [op]) = learn C t op (latest C t ops)" by (simp add: latest_def)
  show ?case
  proof (cases op)
    case (SubscribeTo u)
    then show ?thesis
      using snoc unfolding L by (simp add: learn_def subscribe_to_shard_def get_cached_summaries_def Let_def)
  next
    case (CollectFor u)
    then show ?thesis
      using snoc unfolding L
      by (simp add: learn_def start_collecting_for_target_def get_cached_summaries_def split: option.split)
  next
    case (Incoming u data)
    then show ?thesis
      using snoc replace_or_push_view unfolding L
      by (auto simp: learn_def process_incoming_summary_def get_cached_summaries_def split: option.split)
  qed
qed

lemma insort_key_map: "insort_key f (g x) (map g xs) = map g (insort_key (\<lambda>x. f (g x)) x xs)"
  by (induction xs) simp_all

lemma sort_key_map: "sort_key f (map g xs) = map g (sort_key (\<lambda>x. f (g x)) xs)"
  by (induction xs) (simp_all add: insort_key_map)

lemma ran_by_provider: "distinct (map ps_provider xs) \<Longrightarrow> ran (by_provider xs) = set xs"
  by (simp add: by_provider_def ran_distinct comp_def image_image)

lemma sort_key_stable_order:
  "sorted_wrt (<) xs \<Longrightarrow> sorted_wrt (\<lambda>a b. f a < f b \<or> f a = f b \<and> a < b) (sort_key f xs)" for f :: "nat \<Rightarrow> int"
proof (induction xs)
  case (Cons x xs)
  have ins: "sorted_wrt (\<lambda>a b. f a < f b \<or> f a = f b \<and> a < b) ys \<Longrightarrow> (\<forall>y \<in> set ys. x < y) \<Longrightarrow>
      sorted_wrt (\<lambda>a b. f a < f b \<or> f a = f b \<and> a < b) (insort_key f x ys)" for ys
    by (induction ys) (auto simp: set_insort_key order.order_iff_strict)
  show ?case using Cons ins [of "sort_key f xs"] by simp
qed simp

text \<open>The milliseconds that the summary at a position is still valid when it is looked at, zero when it is left out.\<close>

definition validity :: "(nat \<Rightarrow> instant option) \<Rightarrow> ProviderSummary list \<Rightarrow> nat \<Rightarrow> nat" where
  "validity clock ss n = (case clock n of None \<Rightarrow> 0 | Some now \<Rightarrow> ps_exp (ss ! n) - unix_millis now)"

lemma scored_positions:
  "List.map_filter
     (\<lambda>(n, s). case clock n of None \<Rightarrow> None | Some now \<Rightarrow> if ps_exp s \<le> unix_millis now then None else Some (s, ps_exp s - unix_millis now))
     (enumerate 0 ss) = map (\<lambda>n. (ss ! n, validity clock ss n)) (filter (\<lambda>n. 0 < validity clock ss n) [0..<length ss])"
proof -
  have "enumerate 0 ss = map (\<lambda>n. (n, ss ! n)) [0..<length ss]" by (rule nth_equalityI) (simp_all add: nth_enumerate_eq)
  moreover have "List.map_filter
     (\<lambda>(n, s). case clock n of None \<Rightarrow> None | Some now \<Rightarrow> if ps_exp s \<le> unix_millis now then None else Some (s, ps_exp s - unix_millis now))
     (map (\<lambda>n. (n, ss ! n)) ns) = map (\<lambda>n. (ss ! n, validity clock ss n)) (filter (\<lambda>n. 0 < validity clock ss n) ns)" for ns
    by (induction ns) (auto simp: List.map_filter_simps validity_def split: option.split)
  ultimately show ?thesis by simp
qed

lemma providers_positions:
  fixes clock t c
  defines "ss \<equiv> get_cached_summaries t c"
  obtains ps where "get_providers_for_target clock t c = map (\<lambda>n. ss ! n) ps" "distinct ps"
    "set ps = {n. n < length ss \<and> 0 < validity clock ss n}"
    "sorted_wrt (\<lambda>m n. validity clock ss m > validity clock ss n \<or> validity clock ss m = validity clock ss n \<and> m < n) ps"
proof
  let ?key = "\<lambda>n. - int (validity clock ss n)" and ?live = "filter (\<lambda>n. 0 < validity clock ss n) [0..<length ss]"
  show "get_providers_for_target clock t c = map (\<lambda>n. ss ! n) (sort_key ?key ?live)"
    unfolding get_providers_for_target_def ss_def [symmetric] scored_positions by (simp add: sort_key_map comp_def)
  have "sorted_wrt (<) ?live" by (rule sorted_wrt_filter) (simp add: strict_sorted_iff)
  from sort_key_stable_order [OF this, of ?key]
  show "sorted_wrt (\<lambda>m n. validity clock ss m > validity clock ss n \<or> validity clock ss m = validity clock ss n \<and> m < n) (sort_key ?key ?live)"
    by (rule sorted_wrt_mono_rel [rotated]) auto
qed auto

lemma cached_summaries_set: "set (get_cached_summaries t (client_run C blake3 p ops)) = ran (latest C t ops)"
  using cached_refines_latest [of t C blake3 p ops] ran_by_provider by metis

text \<open>C34: whatever a client received, in whatever order, it keeps for a target the latest summary of each provider, once each, and returns
  exactly those that are unexpired when it looks at them, the longest validity at that look first and equal ones in the order in
  which the providers came. The clock is read for each summary, so neither the set nor the order is that of one instant; if
  all readings lie within d milliseconds, no summary comes before one that expires more than d milliseconds later, and what is
  valid throughout is returned.\<close>

theorem providers_exact:
  "let c = client_run C blake3 p ops; ss = get_cached_summaries t c; rs = get_providers_for_target clock t c
   in distinct (map ps_provider ss) \<and> set ss = ran (latest C t ops) \<and>
      (\<exists>ps. rs = map (\<lambda>n. ss ! n) ps \<and> distinct ps \<and> set ps = {n. n < length ss \<and> 0 < validity clock ss n} \<and>
         sorted_wrt (\<lambda>m n. validity clock ss m > validity clock ss n \<or> validity clock ss m = validity clock ss n \<and> m < n) ps) \<and>
      ((\<forall>n < length ss. \<exists>now. clock n = Some now \<and> lo \<le> unix_millis now \<and> unix_millis now \<le> lo + d) \<longrightarrow>
         sorted_wrt (\<lambda>a b. ps_exp b \<le> ps_exp a + d) rs \<and>
         {s \<in> ran (latest C t ops). lo + d < ps_exp s} \<subseteq> set rs \<and> set rs \<subseteq> {s \<in> ran (latest C t ops). lo < ps_exp s})"
proof -
  define ss where "ss = get_cached_summaries t (client_run C blake3 p ops)"
  define rs where "rs = get_providers_for_target clock t (client_run C blake3 p ops)"
  obtain ps where ps: "rs = map (\<lambda>n. ss ! n) ps" "distinct ps" "set ps = {n. n < length ss \<and> 0 < validity clock ss n}"
    "sorted_wrt (\<lambda>m n. validity clock ss m > validity clock ss n \<or> validity clock ss m = validity clock ss n \<and> m < n) ps"
    unfolding ss_def rs_def by (rule providers_positions)
  have ss: "distinct (map ps_provider ss)" "set ss = ran (latest C t ops)"
    using cached_refines_latest [of t C blake3 p ops] by (simp_all add: ss_def cached_summaries_set)
  have near: "sorted_wrt (\<lambda>a b. ps_exp b \<le> ps_exp a + d) rs \<and> {s \<in> set ss. lo + d < ps_exp s} \<subseteq> set rs \<and> set rs \<subseteq> {s \<in> set ss. lo < ps_exp s}"
    if within: "\<forall>n < length ss. \<exists>now. clock n = Some now \<and> lo \<le> unix_millis now \<and> unix_millis now \<le> lo + d"
  proof -
    have v: "ps_exp (ss ! n) - (lo + d) \<le> validity clock ss n" "validity clock ss n \<le> ps_exp (ss ! n) - lo" if "n < length ss" for n
      using within that by (force simp: validity_def)+
    have "sorted_wrt (\<lambda>m n. ps_exp (ss ! n) \<le> ps_exp (ss ! m) + d) ps"
    proof (rule sorted_wrt_mono_rel [rotated, OF ps(4)])
      fix m n
      assume mem: "m \<in> set ps" "n \<in> set ps" and le: "validity clock ss m > validity clock ss n \<or> validity clock ss m = validity clock ss n \<and> m < n"
      have "m < length ss" "n < length ss" "0 < validity clock ss n" using mem by (simp_all add: ps(3))
      moreover have "validity clock ss n \<le> validity clock ss m" using le by linarith
      ultimately show "ps_exp (ss ! n) \<le> ps_exp (ss ! m) + d" using v(1) [of n] v(2) [of m] by linarith
    qed
    moreover have "ss ! n \<in> set rs" if "n < length ss" "lo + d < ps_exp (ss ! n)" for n
      using that v(1) [of n] ps(1,3) by auto
    then have "{s \<in> set ss. lo + d < ps_exp s} \<subseteq> set rs" by (auto simp: in_set_conv_nth)
    moreover have "ss ! n \<in> set ss \<and> lo < ps_exp (ss ! n)" if "n \<in> set ps" for n
    proof -
      have n: "n < length ss" "0 < validity clock ss n" using that by (simp_all add: ps(3))
      then show ?thesis using v(2) [OF n(1)] by simp
    qed
    then have "set rs \<subseteq> {s \<in> set ss. lo < ps_exp s}" unfolding ps(1) by auto
    ultimately show ?thesis by (simp add: ps(1) sorted_wrt_map)
  qed
  show ?thesis unfolding Let_def ss_def [symmetric] rs_def [symmetric] ss(2) [symmetric] using ps ss(1) near by blast
qed

text \<open>Two summaries that expire one millisecond apart, looked at two milliseconds apart: the one that expires earlier comes first.\<close>

definition two_summaries :: summary_crypto where
  "two_summaries = demo_codec_summary\<lparr>sc_from_cbor := \<lambda>data.
     if data = [0] then Some (summary_new 0 [7] (PeerId [2]) [Site] 1000) else Some (summary_new 0 [7] (PeerId [3]) [Site] 1001)\<rparr>"

theorem providers_exact_witness:
  "let rs = get_providers_for_target (\<lambda>n. Some (2000000 * n)) [7] (client_run two_summaries demo_hash (PeerId [1]) [Incoming [7] [0], Incoming [7] [1]])
   in map ps_exp rs = [1000, 1001] \<and> sorted_wrt (\<lambda>a b. ps_exp b \<le> ps_exp a + 2) rs"
proof -
  let ?c = "client_run two_summaries demo_hash (PeerId [1]) [Incoming [7] [0], Incoming [7] [1]]" and ?clock = "\<lambda>n. Some (2000000 * n)"
  have ss: "get_cached_summaries [7] ?c = [summary_new 0 [7] (PeerId [2]) [Site] 1000, summary_new 0 [7] (PeerId [3]) [Site] 1001]"
    by (simp add: client_run_def process_incoming_summary_def two_summaries_def get_cached_summaries_def rendezvous_new_def get_or_def summary_new_def)
  have "map ps_exp (get_providers_for_target ?clock [7] ?c) = [1000, 1001]"
    by (simp add: get_providers_for_target_def ss List.map_filter_simps summary_new_def unix_millis_def u64_max_eq)
  moreover have "\<forall>n < length (get_cached_summaries [7] ?c). \<exists>now. ?clock n = Some now \<and> 0 \<le> unix_millis now \<and> unix_millis now \<le> 0 + 2"
    by (simp add: ss unix_millis_def less_Suc_eq)
  then have "sorted_wrt (\<lambda>a b. ps_exp b \<le> ps_exp a + 2) (get_providers_for_target ?clock [7] ?c)"
    using providers_exact [of two_summaries demo_hash "PeerId [1]" "[Incoming [7] [0], Incoming [7] [1]]" "[7]" ?clock 0 2] by (simp add: Let_def)
  ultimately show ?thesis by (simp add: Let_def)
qed

text \<open>No signature is asked for on the way: any message that decodes and names the target takes the place of
  the summary of the provider it names.\<close>

theorem unverified_summary_wins:
  assumes "sc_from_cbor C data = Some s" "ps_target s = t" "\<And>n. \<exists>now. clock n = Some now \<and> unix_millis now < ps_exp s"
  shows "s \<in> set (get_providers_for_target clock t (client_run C blake3 p (ops @ [Incoming t data])))"
proof -
  let ?c = "client_run C blake3 p (ops @ [Incoming t data])"
  let ?ss = "get_cached_summaries t ?c"
  have "latest C t (ops @ [Incoming t data]) (ps_provider s) = Some s"
    using assms(1,2) by (simp add: latest_def learn_def)
  then have "s \<in> set ?ss" unfolding cached_summaries_set by (rule ranI)
  then obtain n where n: "n < length ?ss" "?ss ! n = s" by (auto simp: in_set_conv_nth)
  then have "0 < validity clock ?ss n" using assms(3) [of n] by (auto simp: validity_def)
  then show ?thesis using n by (auto intro: providers_positions [of clock t ?c])
qed

subsection \<open>Lookup of coordinators\<close>

text \<open>What the events say: the first advert of each coordinator that an asked peer sent on the membership
  stream.\<close>

fun heard :: "(bytes \<Rightarrow> CoordinatorAdvert option) \<Rightarrow> PeerId list \<Rightarrow> received list \<Rightarrow> (PeerId \<rightharpoonup> CoordinatorAdvert) \<Rightarrow> (PeerId \<rightharpoonup> CoordinatorAdvert)" where
  "heard decode expected [] m = m"
| "heard decode expected (ReceiveError # rest) m = heard decode expected rest m"
| "heard decode expected (Received p stream data # rest) m =
     heard decode expected rest
       (if stream = MembershipStream \<and> p \<in> set expected
        then case decode data of None \<Rightarrow> m | Some a \<Rightarrow> map_or_insert (ca_peer a) a m
        else m)"

lemma map_or_insert_keeps: "m p = Some a \<Longrightarrow> map_or_insert k d m p = Some a"
  by (auto simp: get_or_Some)

lemma heard_keeps: "m p = Some a \<Longrightarrow> heard decode expected evs m p = Some a"
  by (induction decode expected evs m rule: heard.induct)
    (auto simp: map_or_insert_keeps simp del: map_or_insert_apply split: option.splits)

lemma finite_heard: "finite (dom m) \<Longrightarrow> finite (dom (heard decode expected evs m))"
  by (induction decode expected evs m rule: heard.induct) (auto split: option.splits)

lemma heard_grows:
  assumes "finite (dom m)"
  shows "card (dom m) \<le> card (dom (heard decode expected evs m))"
proof (rule card_mono)
  show "finite (dom (heard decode expected evs m))" using assms by (rule finite_heard)
  show "dom m \<subseteq> dom (heard decode expected evs m)" by (auto dest: heard_keeps)
qed

lemma collect_times_out:
  "finite (dom m) \<Longrightarrow> card (dom m) < length expected \<Longrightarrow>
     collect_loop decode expected evs m = None \<longleftrightarrow>
       ReceiveError \<notin> set evs \<and> card (dom (heard decode expected evs m)) < length expected"
proof (induction decode expected evs m rule: collect_loop.induct)
  case (3 decode expected p stream data rest m)
  let ?m = "case decode data of None \<Rightarrow> m | Some a \<Rightarrow> map_or_insert (ca_peer a) a m"
  have fin: "finite (dom ?m)" using 3(4) by (simp split: option.split)
  show ?case
  proof (cases "stream = MembershipStream \<and> p \<in> set expected")
    case True
    show ?thesis
    proof (cases "card (dom ?m) \<ge> length expected")
      case full: True
      have "card (dom ?m) \<le> card (dom (heard decode expected rest ?m))" using fin by (rule heard_grows)
      then show ?thesis using True full by simp
    next
      case False
      then show ?thesis using 3(3) [OF _ _ refl] fin True by simp
    qed
  next
    case False
    then show ?thesis using 3 by auto
  qed
qed simp_all

lemma collect_is_heard:
  "collect_loop decode expected evs m = Some r \<Longrightarrow>
     \<exists>pre post. evs = pre @ post \<and> r = heard decode expected pre m \<and> (card (dom r) \<ge> length expected \<or> take 1 post = [ReceiveError])"
proof (induction decode expected evs m rule: collect_loop.induct)
  case (2 decode expected rest m)
  then have "ReceiveError # rest = [] @ ReceiveError # rest \<and> r = heard decode expected [] m \<and> take 1 (ReceiveError # rest) = [ReceiveError]" by simp
  then show ?case by blast
next
  case (3 decode expected p stream data rest m)
  let ?e = "Received p stream data"
  have step: "?case" if ex: "\<exists>pre post. rest = pre @ post \<and> r = heard decode expected pre m' \<and> (card (dom r) \<ge> length expected \<or> take 1 post = [ReceiveError])"
      and eq: "\<And>pre. heard decode expected (?e # pre) m = heard decode expected pre m'" for m'
  proof -
    obtain pre post where "rest = pre @ post" "r = heard decode expected pre m'" "card (dom r) \<ge> length expected \<or> take 1 post = [ReceiveError]"
      using ex by blast
    then have "?e # rest = (?e # pre) @ post" "r = heard decode expected (?e # pre) m" using eq by simp_all
    then show ?thesis using \<open>card (dom r) \<ge> length expected \<or> take 1 post = [ReceiveError]\<close> by blast
  qed
  show ?case
  proof (cases "stream = MembershipStream \<and> p \<in> set expected")
    case False
    then have "collect_loop decode expected rest m = Some r" using 3(4) by (simp split: if_splits)
    then have "\<exists>pre post. rest = pre @ post \<and> r = heard decode expected pre m \<and> (card (dom r) \<ge> length expected \<or> take 1 post = [ReceiveError])"
      using 3(1,2) False by blast
    then show ?thesis using False by (intro step [of m]) auto
  next
    case True
    let ?m = "case decode data of None \<Rightarrow> m | Some a \<Rightarrow> map_or_insert (ca_peer a) a m"
    show ?thesis
    proof (cases "card (dom ?m) \<ge> length expected")
      case full: True
      then have "r = ?m" using 3(4) True by (simp add: Let_def)
      then have "?e # rest = [?e] @ rest \<and> r = heard decode expected [?e] m \<and> card (dom r) \<ge> length expected"
        using True full by simp
      then show ?thesis by blast
    next
      case False
      then have "collect_loop decode expected rest ?m = Some r" using 3(4) True by (simp add: Let_def)
      then show ?thesis using 3(3) [OF _ _ refl False] True by (intro step [of ?m]) auto
    qed
  qed
qed simp

lemma heard_append: "heard decode expected (pre @ post) m = heard decode expected post (heard decode expected pre m)"
  by (induction decode expected pre m rule: heard.induct) simp_all

lemma heard_keyed: "\<forall>p a. m p = Some a \<longrightarrow> ca_peer a = p \<Longrightarrow> heard decode expected evs m p = Some a \<Longrightarrow> ca_peer a = p"
proof (induction decode expected evs m rule: heard.induct)
  case (3 decode expected q stream data rest m)
  let ?m = "if stream = MembershipStream \<and> q \<in> set expected
    then case decode data of None \<Rightarrow> m | Some a \<Rightarrow> map_or_insert (ca_peer a) a m else m"
  have "\<forall>p a. ?m p = Some a \<longrightarrow> ca_peer a = p"
    using 3(2) by (auto simp: get_or_def split: option.splits if_splits)
  then show ?case using 3(1,3) by simp
qed auto

lemma map_filter_iterates:
  assumes "iterates ks m"
  shows "set (List.map_filter m ks) = ran m" "length (List.map_filter m ks) = card (dom m)"
proof -
  have ks: "set ks = dom m" "distinct ks" using assms by (auto simp: iterates_def)
  have f: "List.map_filter m ks = map (\<lambda>k. the (m k)) ks"
  proof -
    have "List.map_filter m ls = map (\<lambda>k. the (m k)) ls" if "set ls \<subseteq> dom m" for ls
      using that by (induction ls) (auto simp: List.map_filter_simps)
    then show ?thesis using ks by simp
  qed
  show "set (List.map_filter m ks) = ran m" unfolding f by (force simp: ks ran_def image_iff)
  show "length (List.map_filter m ks) = card (dom m)" unfolding f using ks by (simp add: distinct_card [symmetric])
qed

lemma map_filter_keyed:
  assumes "iterates ks m" "\<And>p a. m p = Some a \<Longrightarrow> ca_peer a = p"
  shows "map ca_peer (List.map_filter m ks) = ks"
proof -
  have "map ca_peer (List.map_filter m ls) = ls" if "set ls \<subseteq> dom m" for ls
    using that assms(2) by (induction ls) (auto simp: List.map_filter_simps)
  then show ?thesis using assms(1) by (simp add: iterates_def)
qed

text \<open>what a lookup of coordinators returns, as long as no receive fails. If the peers that were asked
  named fewer coordinators than there are peers, it returns nothing at all, even though some of them
  answered. Otherwise it returns the first advert of each coordinator among the messages it read, sent by
  the peers it asked: one for each coordinator, and at least as many as peers were asked.\<close>

theorem lookup_returns_when_all_answer:
  assumes "expected \<noteq> []" "ReceiveError \<notin> set evs" "\<forall>m. finite (dom m) \<longrightarrow> iterates (order m) m"
  shows "let r = collect_coordinator_responses C order expected evs;
             h = heard (ac_from_cbor C) expected evs Map.empty
         in if card (dom h) < length expected then r = []
            else (\<exists>pre post. evs = pre @ post \<and> set r = ran (heard (ac_from_cbor C) expected pre Map.empty)) \<and>
                 set r \<subseteq> ran h \<and> distinct (map ca_peer r) \<and> length r \<ge> length expected"
proof -
  let ?d = "ac_from_cbor C" and ?h = "heard (ac_from_cbor C) expected evs Map.empty"
  have out: "collect_loop ?d expected evs Map.empty = None \<longleftrightarrow> card (dom ?h) < length expected"
    using collect_times_out [of Map.empty expected ?d evs] assms(1,2) by simp
  show ?thesis
  proof (cases "collect_loop ?d expected evs Map.empty")
    case None
    then show ?thesis using out by (simp add: collect_coordinator_responses_def Let_def)
  next
    case (Some m)
    obtain pre post where m: "evs = pre @ post" "m = heard ?d expected pre Map.empty" "card (dom m) \<ge> length expected"
    proof -
      obtain pre post where c: "evs = pre @ post" "m = heard ?d expected pre Map.empty" "card (dom m) \<ge> length expected \<or> take 1 post = [ReceiveError]"
        using collect_is_heard [OF Some] by blast
      have "take 1 post \<noteq> [ReceiveError]" using assms(2) c(1) in_set_takeD [of ReceiveError 1 post] by auto
      then show ?thesis using c that by blast
    qed
    have it: "iterates (order m) m" using assms(3) finite_heard [of Map.empty ?d expected pre] m(2) by simp
    have key: "ca_peer a = p" if "m p = Some a" for p a using heard_keyed [of Map.empty ?d expected pre p a] that m(2) by simp
    have r: "collect_coordinator_responses C order expected evs = List.map_filter m (order m)"
      using Some by (simp add: collect_coordinator_responses_def)
    have sub: "ran m \<subseteq> ran ?h"
      unfolding m(1) heard_append m(2) [symmetric] by (auto simp: ran_def dest: heard_keeps)
    have "distinct (order m)" using it by (simp add: iterates_def)
    then show ?thesis
      unfolding r Let_def using out Some m sub map_filter_iterates [OF it] map_filter_keyed [OF it key] by auto
  qed
qed

definition demo_advert_codec :: advert_crypto where
  "demo_advert_codec =
     \<lparr>ac_encode = (\<lambda>_. None), ac_sign = (\<lambda>_ _. None), ac_verify = (\<lambda>_ _ _. None), ac_hash = (\<lambda>m. m), ac_to_cbor = (\<lambda>a. Some (peer_bytes (ca_peer a))),
      ac_from_cbor = (\<lambda>m. Some (advert_new 0 (PeerId m) default_roles [] Edm 5))\<rparr>"

theorem lookup_returns_when_all_answer_witness:
  "collect_coordinator_responses demo_advert_codec (\<lambda>m. sorted_list_of_set (dom m)) [PeerId [1], PeerId [2]]
     [Received (PeerId [1]) MembershipStream [9]] = []"
proof -
  have "\<forall>m :: PeerId \<rightharpoonup> CoordinatorAdvert. finite (dom m) \<longrightarrow> iterates (sorted_list_of_set (dom m)) m"
    by (simp add: iterates_def)
  from lookup_returns_when_all_answer [OF _ _ this, of "[PeerId [1], PeerId [2]]" "[Received (PeerId [1]) MembershipStream [9]]" demo_advert_codec]
  show ?thesis by (simp add: demo_advert_codec_def map_or_insert_def advert_new_def Let_def)
qed

end
