(* ===== verification/Key_Wire.thy ===== *)
theory Key_Wire
  imports Plumtree
begin

text \<open>
  Frames that name their signing key by a hash, the wire part of \<open>crates/pubsub/src/key_cache.rs\<close>: the
  inspection of a frame before anything of it is allocated, its encoding with the full key or a
  reference, its decoding, and the control messages of the key cache.

  The crate \<open>postcard\<close> and SHA-256 are parameters (\<open>postcard\<close>). The lengths inside a frame are parsed by
  this code itself, and modelled.
\<close>

unbundle bit_operations_syntax

subsection \<open>Errors\<close>

datatype wire_error =
    KeySize | SignatureSize | TruncatedLength | OversizedLength | LengthOverflow | TruncatedField
  | MissingPayloadTag | MalformedPayloadTag | ControlPayloadCap | InvalidSize | InvalidKeyTag | TrailingBytes
  | InvalidHeader | InvalidControlKind | MissingMarker | KeyHashMismatch | PostcardError | InvalidControl

text \<open>The operator \<open>?\<close> and \<open>ensure!\<close>.\<close>

definition and_then :: "wire_error + 'a \<Rightarrow> ('a \<Rightarrow> wire_error + 'b) \<Rightarrow> wire_error + 'b" where
  "and_then r f = (case r of Inl e \<Rightarrow> Inl e | Inr x \<Rightarrow> f x)"

lemma and_then_simps [simp]: "and_then (Inl e) f = Inl e" "and_then (Inr x) f = f x"
  by (simp_all add: and_then_def)

lemma and_then_Inr: "and_then r f = Inr y \<longleftrightarrow> (\<exists>x. r = Inr x \<and> f x = Inr y)"
  by (auto simp: and_then_def split: sum.splits)

definition ensure :: "bool \<Rightarrow> wire_error \<Rightarrow> wire_error + 'a \<Rightarrow> wire_error + 'a" where
  "ensure b e k = (if b then k else Inl e)"

lemma ensure_Inr [simp]: "ensure b e k = Inr y \<longleftrightarrow> b \<and> k = Inr y"
  by (simp add: ensure_def)

lemma ensure_True: "ensure True e k = k"
  by (simp add: ensure_def)

definition ok_or :: "wire_error \<Rightarrow> 'a option \<Rightarrow> wire_error + 'a" where
  "ok_or e x = (case x of None \<Rightarrow> Inl e | Some y \<Rightarrow> Inr y)"

lemma ok_or_Inr [simp]: "ok_or e x = Inr y \<longleftrightarrow> x = Some y"
  by (simp add: ok_or_def split: option.split)

subsection \<open>Constants\<close>

definition WIRE_MARKER :: bytes where "WIRE_MARKER = [255] @ ascii_bytes ''SGKC'' @ [3]"

definition CONTROL_DOMAIN :: string where "CONTROL_DOMAIN = ''saorsa-gossip/key-cache-control/v1''"

definition MAX_KEY_CACHE_CONTROL_BYTES :: nat where "MAX_KEY_CACHE_CONTROL_BYTES = 65536"

definition CONTROL_MAGIC :: bytes where "CONTROL_MAGIC = ascii_bytes ''SGKEYC01''"

definition KEY_BYTES :: nat where "KEY_BYTES = 1952"

definition SIGNATURE_BYTES :: nat where "SIGNATURE_BYTES = 3309"

definition MAX_CONTROL_ITEMS :: nat where "MAX_CONTROL_ITEMS = 32"

subsection \<open>Data\<close>

datatype KeyMaterial = FullKey PeerId bytes | RefKey PeerId

record WireMessage =
  wm_header :: MessageHeader
  wm_payload :: "bytes option"
  wm_signature :: bytes
  wm_key :: KeyMaterial

datatype Control = Hello nat | AckKeys "PeerId list" | RequestKeys "PeerId list" | ResponseKeys "(PeerId \<times> bytes) list"

record ControlPayload =
  cp_magic :: bytes
  cp_version :: nat
  cp_body :: Control

datatype Decoded = DecodedFull GossipMessage PeerId | DecodedRef GossipMessage PeerId

record postcard =
  pc_take_header :: "bytes \<Rightarrow> (MessageHeader \<times> bytes) option"
  pc_to_wire :: "WireMessage \<Rightarrow> bytes option"
  pc_take_wire :: "bytes \<Rightarrow> (WireMessage \<times> bytes) option"
  pc_to_control :: "ControlPayload \<Rightarrow> bytes option"
  pc_take_control :: "bytes \<Rightarrow> (ControlPayload \<times> bytes) option"
  pc_sha256 :: "bytes \<Rightarrow> bytes"
  pc_blake3 :: "bytes \<Rightarrow> bytes"

definition control_topic :: "postcard \<Rightarrow> TopicId" where
  "control_topic P = topic_from_entity (pc_blake3 P) (ascii_bytes CONTROL_DOMAIN)"

definition key_id_of :: "postcard \<Rightarrow> bytes \<Rightarrow> PeerId" where
  "key_id_of P key = from_pubkey (pc_sha256 P) key"

definition encode :: "postcard \<Rightarrow> GossipMessage \<Rightarrow> bool \<Rightarrow> wire_error + bytes" where
  "encode P m reference =
     ensure (length (gm_public_key m) = KEY_BYTES) KeySize
     (ensure (length (gm_signature m) = SIGNATURE_BYTES) SignatureSize
      (let key_id = key_id_of P (gm_public_key m);
           key = (if reference then RefKey key_id else FullKey key_id (gm_public_key m));
           wire = \<lparr>wm_header = gm_header m, wm_payload = gm_payload m, wm_signature = gm_signature m, wm_key = key\<rparr>
       in and_then (ok_or PostcardError (pc_to_wire P wire)) (\<lambda>body. Inr (WIRE_MARKER @ body))))"

definition strip_prefix :: "bytes \<Rightarrow> bytes \<Rightarrow> bytes option" where
  "strip_prefix mark data = (if take (length mark) data = mark then Some (drop (length mark) data) else None)"

definition is_v3 :: "bytes \<Rightarrow> bool" where
  "is_v3 data \<longleftrightarrow> take (length WIRE_MARKER) data = WIRE_MARKER"

subsection \<open>Inspection without allocation\<close>

text \<open>At most ten groups of seven bits; the value is collected in \<open>u128\<close>, which holds the seventy bits, and
  must fit in \<open>usize\<close>.\<close>

fun varint_loop :: "nat \<Rightarrow> nat \<Rightarrow> nat \<Rightarrow> bytes \<Rightarrow> wire_error + nat \<times> bytes" where
  "varint_loop 0 index value input = Inl OversizedLength"
| "varint_loop (Suc rounds) index value [] = Inl TruncatedLength"
| "varint_loop (Suc rounds) index value (byte # rest) =
     (let value' = value OR push_bit (index * 7) (unat (byte AND 127))
      in if byte AND 128 = 0
         then (if value' \<le> u64_max then Inr (value', rest) else Inl LengthOverflow)
         else varint_loop rounds (index + 1) value' rest)"

definition take_varint :: "bytes \<Rightarrow> wire_error + nat \<times> bytes" where
  "take_varint input = varint_loop 10 0 0 input"

definition skip :: "nat \<Rightarrow> bytes \<Rightarrow> wire_error + bytes" where
  "skip len input = (if len \<le> length input then Inr (drop len input) else Inl TruncatedField)"

definition take_payload :: "nat option \<Rightarrow> bytes \<Rightarrow> wire_error + bytes" where
  "take_payload cap input =
     (case input of
        [] \<Rightarrow> Inl MissingPayloadTag
      | tag # rest \<Rightarrow>
          if tag = 0 then Inr rest
          else if tag = 1
          then and_then (take_varint rest) (\<lambda>(len, rest').
                 ensure (case cap of None \<Rightarrow> True | Some c \<Rightarrow> len \<le> c) ControlPayloadCap (skip len rest'))
          else Inl MalformedPayloadTag)"

definition take_sized_vec :: "nat \<Rightarrow> bytes \<Rightarrow> wire_error + bytes" where
  "take_sized_vec expected input =
     and_then (take_varint input) (\<lambda>(len, rest). ensure (len = expected) InvalidSize (skip len rest))"

definition preflight_legacy_control :: "postcard \<Rightarrow> bytes \<Rightarrow> wire_error + bool" where
  "preflight_legacy_control P data =
     and_then (ok_or InvalidHeader (pc_take_header P data)) (\<lambda>(header, rest).
       if hdr_topic header \<noteq> control_topic P then Inr False
       else ensure (hdr_kind header = Ping) InvalidControlKind
            (and_then (take_payload (Some MAX_KEY_CACHE_CONTROL_BYTES) rest) (\<lambda>r1.
             and_then (take_sized_vec SIGNATURE_BYTES r1) (\<lambda>r2.
             and_then (take_sized_vec KEY_BYTES r2) (\<lambda>r3.
             ensure (r3 = []) TrailingBytes (Inr True))))))"

definition preflight_v3 :: "postcard \<Rightarrow> bytes \<Rightarrow> wire_error + MessageHeader" where
  "preflight_v3 P body =
     and_then (ok_or InvalidHeader (pc_take_header P body)) (\<lambda>(header, rest).
       let reserved_control = (hdr_topic header = control_topic P)
       in ensure (\<not> reserved_control \<or> hdr_kind header = Ping) InvalidControlKind
          (and_then (take_payload (if reserved_control then Some MAX_KEY_CACHE_CONTROL_BYTES else None) rest) (\<lambda>r1.
           and_then (take_sized_vec SIGNATURE_BYTES r1) (\<lambda>r2.
           and_then (take_varint r2) (\<lambda>(variant, r3).
           ensure (variant \<le> 1) InvalidKeyTag
           (and_then (skip 32 r3) (\<lambda>r4.
            and_then (if variant = 0 then take_sized_vec KEY_BYTES r4 else Inr r4) (\<lambda>r5.
            ensure (r5 = []) TrailingBytes (Inr header))))))))) "

definition inspect_header :: "postcard \<Rightarrow> bytes \<Rightarrow> wire_error + MessageHeader \<times> bool" where
  "inspect_header P data =
     (case strip_prefix WIRE_MARKER data of
        Some body \<Rightarrow> and_then (preflight_v3 P body) (\<lambda>header. Inr (header, hdr_topic header = control_topic P))
      | None \<Rightarrow>
          and_then (ok_or InvalidHeader (pc_take_header P data)) (\<lambda>(header, rest).
            let reserved_control = (hdr_topic header = control_topic P)
            in if reserved_control
               then and_then (preflight_legacy_control P data) (\<lambda>_. Inr (header, reserved_control))
               else and_then (take_payload None rest) (\<lambda>r1.
                    and_then (take_sized_vec SIGNATURE_BYTES r1) (\<lambda>r2.
                    and_then (take_sized_vec KEY_BYTES r2) (\<lambda>_. Inr (header, reserved_control))))))"

subsection \<open>Decoding\<close>

definition decode :: "postcard \<Rightarrow> bytes \<Rightarrow> wire_error + Decoded" where
  "decode P data =
     and_then (ok_or MissingMarker (strip_prefix WIRE_MARKER data)) (\<lambda>body.
     and_then (preflight_v3 P body) (\<lambda>_.
     and_then (ok_or PostcardError (pc_take_wire P body)) (\<lambda>(w, trailing).
     ensure (trailing = []) TrailingBytes
     (ensure (length (wm_signature w) = SIGNATURE_BYTES) SignatureSize
      (case wm_key w of
         FullKey key_id public_key \<Rightarrow>
           ensure (length public_key = KEY_BYTES) KeySize
           (ensure (key_id_of P public_key = key_id) KeyHashMismatch
            (Inr (DecodedFull \<lparr>gm_header = wm_header w, gm_payload = wm_payload w, gm_signature = wm_signature w, gm_public_key = public_key\<rparr> key_id)))
       | RefKey key_id \<Rightarrow>
           Inr (DecodedRef \<lparr>gm_header = wm_header w, gm_payload = wm_payload w, gm_signature = wm_signature w, gm_public_key = []\<rparr> key_id))))))"

subsection \<open>Control messages\<close>

fun validate_entries :: "postcard \<Rightarrow> (PeerId \<times> bytes) list \<Rightarrow> wire_error + unit" where
  "validate_entries P [] = Inr ()"
| "validate_entries P ((key_id, key) # es) =
     ensure (length key = KEY_BYTES) KeySize (ensure (key_id_of P key = key_id) KeyHashMismatch (validate_entries P es))"

definition validate_control :: "postcard \<Rightarrow> Control \<Rightarrow> wire_error + unit" where
  "validate_control P control =
     (case control of
        Hello key_ref_version \<Rightarrow> ensure (key_ref_version = 1) InvalidControl (Inr ())
      | AckKeys key_ids \<Rightarrow> ensure (key_ids \<noteq> [] \<and> length key_ids \<le> MAX_CONTROL_ITEMS) InvalidControl (Inr ())
      | RequestKeys key_ids \<Rightarrow> ensure (key_ids \<noteq> [] \<and> length key_ids \<le> MAX_CONTROL_ITEMS) InvalidControl (Inr ())
      | ResponseKeys es \<Rightarrow>
          ensure (es \<noteq> [] \<and> length es \<le> MAX_CONTROL_ITEMS) InvalidControl (validate_entries P es))"

definition encode_control :: "postcard \<Rightarrow> Control \<Rightarrow> wire_error + bytes" where
  "encode_control P body =
     and_then (validate_control P body) (\<lambda>_.
     and_then (ok_or PostcardError (pc_to_control P \<lparr>cp_magic = CONTROL_MAGIC, cp_version = 1, cp_body = body\<rparr>)) (\<lambda>payload.
     ensure (length payload \<le> MAX_KEY_CACHE_CONTROL_BYTES) ControlPayloadCap (Inr payload)))"

definition decode_control :: "postcard \<Rightarrow> bytes \<Rightarrow> wire_error + Control" where
  "decode_control P payload =
     ensure (length payload \<le> MAX_KEY_CACHE_CONTROL_BYTES) ControlPayloadCap
     (and_then (ok_or PostcardError (pc_take_control P payload)) (\<lambda>(value, trailing).
      ensure (trailing = []) TrailingBytes
      (ensure (cp_magic value = CONTROL_MAGIC \<and> cp_version value = 1) InvalidControl
       (and_then (validate_control P (cp_body value)) (\<lambda>_. Inr (cp_body value))))))"

end
