(* ===== verification/Key_Cache.thy ===== *)
theory Key_Cache
  imports Key_Wire
begin

text \<open>
  The sender key cache, \<open>KeyCache\<close> of \<open>crates/pubsub/src/key_cache.rs\<close>: the keys that are known by their
  hash, the session with each neighbour and what the two have told each other, and the frames that wait
  for a key. The second part is the code around it in \<open>crates/pubsub/src/lib.rs\<close>: the resolution of
  incoming frames, the handler of control messages and the task that sends them.

  The LRU maps of the crate \<open>lru\<close>, the floating point token bucket of a session, the hash maps'
  iteration orders and the codec are parameters. Instants are nanoseconds.
\<close>

subsection \<open>State\<close>

definition MAX_SESSIONS :: nat where "MAX_SESSIONS = 1024"

definition MAX_QUEUED_IDS_PER_SESSION :: nat where "MAX_QUEUED_IDS_PER_SESSION = 64"

definition MAX_PENDING_PER_SESSION :: nat where "MAX_PENDING_PER_SESSION = 16"

definition MAX_PENDING_BYTES_PER_SESSION :: nat where "MAX_PENDING_BYTES_PER_SESSION = 256 * 1024"

definition MAX_PENDING_GLOBAL :: nat where "MAX_PENDING_GLOBAL = 1024"

definition MAX_PENDING_BYTES_GLOBAL :: nat where "MAX_PENDING_BYTES_GLOBAL = 8 * 1024 * 1024"

definition PENDING_TTL :: duration where "PENDING_TTL = 5 * 1000000000"

record AuthenticatedSession =
  as_peer :: PeerId
  as_generation :: nat

type_synonym pending_key = "PeerId \<times> nat \<times> PeerId"

record KeyCacheSnapshot =
  ks_full_out_frames :: nat
  ks_full_out_bytes :: nat
  ks_ref_out_frames :: nat
  ks_ref_out_bytes :: nat
  ks_full_in_frames :: nat
  ks_full_in_bytes :: nat
  ks_ref_in_frames :: nat
  ks_ref_in_bytes :: nat
  ks_cache_hits :: nat
  ks_cache_misses :: nat
  ks_cache_evictions :: nat
  ks_requests :: nat
  ks_responses :: nat
  ks_pending_frames_high_water :: nat
  ks_pending_bytes_high_water :: nat
  ks_pending_timeouts :: nat
  ks_pending_peer_limit_drops :: nat
  ks_pending_global_limit_drops :: nat
  ks_malformed_controls :: nat
  ks_hash_mismatches :: nat
  ks_replay_success :: nat
  ks_replay_failure :: nat
  ks_unsolicited_response_keys :: nat
  ks_critical_ref_mismatches :: nat

definition snapshot_default :: KeyCacheSnapshot where
  "snapshot_default =
     \<lparr>ks_full_out_frames = 0, ks_full_out_bytes = 0, ks_ref_out_frames = 0, ks_ref_out_bytes = 0, ks_full_in_frames = 0,
      ks_full_in_bytes = 0, ks_ref_in_frames = 0, ks_ref_in_bytes = 0, ks_cache_hits = 0, ks_cache_misses = 0,
      ks_cache_evictions = 0, ks_requests = 0, ks_responses = 0, ks_pending_frames_high_water = 0,
      ks_pending_bytes_high_water = 0, ks_pending_timeouts = 0, ks_pending_peer_limit_drops = 0,
      ks_pending_global_limit_drops = 0, ks_malformed_controls = 0, ks_hash_mismatches = 0, ks_replay_success = 0,
      ks_replay_failure = 0, ks_unsolicited_response_keys = 0, ks_critical_ref_mismatches = 0\<rparr>"

record PendingFrame =
  pf_bytes :: bytes
  pf_received_at :: instant

record PendingKey =
  pk_frames :: "PendingFrame list"
  pk_requested :: bool

record 'f SessionState =
  ss_generation :: nat
  ss_hello_sent :: bool
  ss_hello_pending :: bool
  ss_hello_received :: bool
  ss_queued_acks :: "PeerId set"
  ss_queued_requests :: "PeerId set"
  ss_queued_responses :: "PeerId set"
  ss_tokens :: 'f
  ss_last_refill :: instant

record ('f, 'r, 'a) KeyCache =
  kc_resolved :: 'r
  kc_acknowledged :: 'a
  kc_announced_inbound :: 'a
  kc_sessions :: "PeerId \<rightharpoonup> 'f SessionState"
  kc_pending :: "pending_key \<rightharpoonup> PendingKey"
  kc_pending_frames :: nat
  kc_pending_bytes :: nat
  kc_stats :: KeyCacheSnapshot

record ('f, 'r, 'a) key_env =
  ke_resolved :: "(PeerId, bytes, 'r) lru_ops"
  ke_acks :: "(pending_key, unit, 'a) lru_ops"
  ke_postcard :: postcard
  ke_burst :: 'f \<comment> \<open>\<open>CONTROL_BURST\<close>, \<open>2.0\<close>\<close>
  ke_add_secs :: "'f \<Rightarrow> duration \<Rightarrow> 'f"
  ke_min :: "'f \<Rightarrow> 'f \<Rightarrow> 'f"
  ke_less_one :: "'f \<Rightarrow> bool"
  ke_minus_one :: "'f \<Rightarrow> 'f"
  ke_pending_order :: "(pending_key \<rightharpoonup> PendingKey) \<Rightarrow> pending_key list"
  ke_id_order :: "PeerId set \<Rightarrow> PeerId list"

text \<open>A counter of the statistics is raised by \<open>saturating_add\<close>.\<close>

definition bump :: "((nat \<Rightarrow> nat) \<Rightarrow> KeyCacheSnapshot \<Rightarrow> KeyCacheSnapshot) \<Rightarrow> nat \<Rightarrow> ('f, 'r, 'a) KeyCache \<Rightarrow> ('f, 'r, 'a) KeyCache" where
  "bump counter n s = s\<lparr>kc_stats := counter (\<lambda>x. u64_sat_add x n) (kc_stats s)\<rparr>"

lemma bump_other [simp]:
  "kc_resolved (bump c n s) = kc_resolved s" "kc_acknowledged (bump c n s) = kc_acknowledged s"
  "kc_announced_inbound (bump c n s) = kc_announced_inbound s" "kc_sessions (bump c n s) = kc_sessions s"
  "kc_pending (bump c n s) = kc_pending s" "kc_pending_frames (bump c n s) = kc_pending_frames s"
  "kc_pending_bytes (bump c n s) = kc_pending_bytes s"
  by (simp_all add: bump_def)

definition session_new :: "('f, 'r, 'a) key_env \<Rightarrow> nat \<Rightarrow> instant \<Rightarrow> 'f SessionState" where
  "session_new E generation now =
     \<lparr>ss_generation = generation, ss_hello_sent = False, ss_hello_pending = False, ss_hello_received = False,
      ss_queued_acks = {}, ss_queued_requests = {}, ss_queued_responses = {}, ss_tokens = ke_burst E, ss_last_refill = now\<rparr>"

definition consume_token :: "('f, 'r, 'a) key_env \<Rightarrow> instant \<Rightarrow> 'f SessionState \<Rightarrow> bool \<times> 'f SessionState" where
  "consume_token E now st =
     (let tokens = ke_min E (ke_add_secs E (ss_tokens st) (now - ss_last_refill st)) (ke_burst E);
          st1 = st\<lparr>ss_tokens := tokens, ss_last_refill := now\<rparr>
      in if ke_less_one E tokens then (False, st1) else (True, st1\<lparr>ss_tokens := ke_minus_one E tokens\<rparr>))"

definition lru_capacity :: "nat \<Rightarrow> nat" where
  "lru_capacity capacity = (if capacity = 0 then 1 else capacity)"

definition key_cache_default :: "('f, 'r, 'a) key_env \<Rightarrow> ('f, 'r, 'a) KeyCache" where
  "key_cache_default E =
     \<lparr>kc_resolved = lru_new (ke_resolved E) (lru_capacity 2048), kc_acknowledged = lru_new (ke_acks E) (lru_capacity 4096),
      kc_announced_inbound = lru_new (ke_acks E) (lru_capacity 4096), kc_sessions = Map.empty, kc_pending = Map.empty,
      kc_pending_frames = 0, kc_pending_bytes = 0, kc_stats = snapshot_default\<rparr>"

subsection \<open>Sessions\<close>

definition frame_bytes :: "PendingFrame list \<Rightarrow> nat" where
  "frame_bytes frames = sum_list (map (\<lambda>f. length (pf_bytes f)) frames)"

definition remove_pending :: "pending_key \<Rightarrow> ('f, 'r, 'a) KeyCache \<Rightarrow> PendingKey option \<times> ('f, 'r, 'a) KeyCache" where
  "remove_pending key s =
     (case kc_pending s key of
        None \<Rightarrow> (None, s)
      | Some entry \<Rightarrow>
          (Some entry, s\<lparr>kc_pending := map_remove key (kc_pending s),
                         kc_pending_frames := kc_pending_frames s - length (pk_frames entry),
                         kc_pending_bytes := kc_pending_bytes s - frame_bytes (pk_frames entry)\<rparr>))"

definition lru_forget :: "(pending_key, unit, 'a) lru_ops \<Rightarrow> PeerId \<Rightarrow> 'a \<Rightarrow> 'a" where
  "lru_forget ops peer l =
     fold (\<lambda>key l. snd (lru_pop ops key l)) (filter (\<lambda>key. fst key = peer) (map fst (lru_iter ops l))) l"

definition clear_peer :: "('f, 'r, 'a) key_env \<Rightarrow> PeerId \<Rightarrow> ('f, 'r, 'a) KeyCache \<Rightarrow> ('f, 'r, 'a) KeyCache" where
  "clear_peer E peer s =
     (let s1 = s\<lparr>kc_sessions := map_remove peer (kc_sessions s)\<rparr>;
          keys = filter (\<lambda>key. fst key = peer) (ke_pending_order E (kc_pending s1));
          s2 = fold (\<lambda>key s. snd (remove_pending key s)) keys s1
      in s2\<lparr>kc_acknowledged := lru_forget (ke_acks E) peer (kc_acknowledged s2),
            kc_announced_inbound := lru_forget (ke_acks E) peer (kc_announced_inbound s2)\<rparr>)"

text \<open>The state of the session, if it is the current one of its peer.\<close>

definition live_session :: "AuthenticatedSession \<Rightarrow> ('f, 'r, 'a) KeyCache \<Rightarrow> 'f SessionState option" where
  "live_session ses s =
     (case kc_sessions s (as_peer ses) of
        None \<Rightarrow> None | Some st \<Rightarrow> if ss_generation st = as_generation ses then Some st else None)"

definition put_session :: "AuthenticatedSession \<Rightarrow> 'f SessionState \<Rightarrow> ('f, 'r, 'a) KeyCache \<Rightarrow> ('f, 'r, 'a) KeyCache" where
  "put_session ses st s = s\<lparr>kc_sessions := (kc_sessions s)(as_peer ses \<mapsto> st)\<rparr>"

definition observe_session :: "('f, 'r, 'a) key_env \<Rightarrow> AuthenticatedSession \<Rightarrow> instant \<Rightarrow> ('f, 'r, 'a) KeyCache \<Rightarrow> ('f, 'r, 'a) KeyCache" where
  "observe_session E ses now s =
     (if live_session ses s \<noteq> None then s
      else let s1 = (if kc_sessions s (as_peer ses) \<noteq> None then clear_peer E (as_peer ses) s else s)
           in if card (dom (kc_sessions s1)) < MAX_SESSIONS then put_session ses (session_new E (as_generation ses) now) s1 else s1)"

definition forget_stale :: "('f, 'r, 'a) key_env \<Rightarrow> AuthenticatedSession \<Rightarrow> ('f, 'r, 'a) KeyCache \<Rightarrow> ('f, 'r, 'a) KeyCache" where
  "forget_stale E ses s = (if live_session ses s \<noteq> None then clear_peer E (as_peer ses) s else s)"

definition session_key :: "AuthenticatedSession \<Rightarrow> PeerId \<Rightarrow> pending_key" where
  "session_key ses key_id = (as_peer ses, as_generation ses, key_id)"

definition supports_v3 :: "AuthenticatedSession \<Rightarrow> ('f, 'r, 'a) KeyCache \<Rightarrow> bool" where
  "supports_v3 ses s \<longleftrightarrow> (case live_session ses s of None \<Rightarrow> False | Some st \<Rightarrow> ss_hello_sent st \<and> ss_hello_received st)"

text \<open>The look-up moves the entry to the front of the LRU map.\<close>

definition supports_ref :: "('f, 'r, 'a) key_env \<Rightarrow> AuthenticatedSession \<Rightarrow> PeerId \<Rightarrow> ('f, 'r, 'a) KeyCache \<Rightarrow> bool \<times> ('f, 'r, 'a) KeyCache" where
  "supports_ref E ses signer s =
     (if \<not> supports_v3 ses s then (False, s)
      else case lru_get (ke_acks E) (session_key ses signer) (kc_acknowledged s) of
             (r, l) \<Rightarrow> (r \<noteq> None, s\<lparr>kc_acknowledged := l\<rparr>))"

definition received_hello :: "AuthenticatedSession \<Rightarrow> ('f, 'r, 'a) KeyCache \<Rightarrow> ('f, 'r, 'a) KeyCache" where
  "received_hello ses s =
     (case live_session ses s of None \<Rightarrow> s | Some st \<Rightarrow> put_session ses (st\<lparr>ss_hello_received := True\<rparr>) s)"

definition acknowledge :: "('f, 'r, 'a) key_env \<Rightarrow> AuthenticatedSession \<Rightarrow> PeerId list \<Rightarrow> ('f, 'r, 'a) KeyCache \<Rightarrow> ('f, 'r, 'a) KeyCache" where
  "acknowledge E ses keys s =
     (if live_session ses s = None then s
      else s\<lparr>kc_acknowledged := fold (\<lambda>key l. snd (lru_push (ke_acks E) (session_key ses key) () l)) keys (kc_acknowledged s)\<rparr>)"

subsection \<open>Keys\<close>

definition note_verified_key ::
  "('f, 'r, 'a) key_env \<Rightarrow> PeerId \<Rightarrow> bytes \<Rightarrow> AuthenticatedSession option \<Rightarrow> ('f, 'r, 'a) KeyCache \<Rightarrow> ('f, 'r, 'a) KeyCache" where
  "note_verified_key E key_id key session s =
     (if length key \<noteq> KEY_BYTES \<or> key_id_of (ke_postcard E) key \<noteq> key_id then bump ks_hash_mismatches_update 1 s
      else let R = ke_resolved E; A = ke_acks E;
               s1 = (if lru_peek R key_id (kc_resolved s) = None \<and> lru_len R (kc_resolved s) = lru_cap R (kc_resolved s)
                     then bump ks_cache_evictions_update 1 s else s);
               s2 = s1\<lparr>kc_resolved := snd (lru_push R key_id key (kc_resolved s1))\<rparr>
           in case session of
                None \<Rightarrow> s2
              | Some ses \<Rightarrow>
                  (let announcement = session_key ses key_id;
                       novel = (lru_peek A announcement (kc_announced_inbound s2) = None);
                       s3 = s2\<lparr>kc_announced_inbound := snd (lru_push A announcement () (kc_announced_inbound s2))\<rparr>
                   in case live_session ses s3 of
                        None \<Rightarrow> s3
                      | Some st \<Rightarrow>
                          if novel \<and> card (ss_queued_acks st) < MAX_QUEUED_IDS_PER_SESSION
                          then put_session ses (st\<lparr>ss_queued_acks := insert key_id (ss_queued_acks st)\<rparr>) s3 else s3))"

definition note_response_key ::
  "('f, 'r, 'a) key_env \<Rightarrow> AuthenticatedSession \<Rightarrow> PeerId \<Rightarrow> bytes \<Rightarrow> ('f, 'r, 'a) KeyCache \<Rightarrow> bool \<times> ('f, 'r, 'a) KeyCache" where
  "note_response_key E ses key_id key s =
     (if kc_pending s (session_key ses key_id) = None then (False, bump ks_unsolicited_response_keys_update 1 s)
      else (True, note_verified_key E key_id key None s))"

definition record_critical_ref_mismatch :: "('f, 'r, 'a) KeyCache \<Rightarrow> ('f, 'r, 'a) KeyCache" where
  "record_critical_ref_mismatch s = bump ks_critical_ref_mismatches_update 1 s"

definition lookup_key :: "('f, 'r, 'a) key_env \<Rightarrow> PeerId \<Rightarrow> ('f, 'r, 'a) KeyCache \<Rightarrow> bytes option \<times> ('f, 'r, 'a) KeyCache" where
  "lookup_key E key_id s =
     (case lru_get (ke_resolved E) key_id (kc_resolved s) of
        (key, l) \<Rightarrow>
          (key, bump (if key \<noteq> None then ks_cache_hits_update else ks_cache_misses_update) 1 (s\<lparr>kc_resolved := l\<rparr>)))"

subsection \<open>Frames that wait for a key\<close>

definition frame_expired :: "instant \<Rightarrow> PendingFrame \<Rightarrow> bool" where
  "frame_expired now f \<longleftrightarrow> now - pf_received_at f \<ge> PENDING_TTL"

definition expire_key :: "instant \<Rightarrow> pending_key \<Rightarrow> ('f, 'r, 'a) KeyCache \<Rightarrow> ('f, 'r, 'a) KeyCache" where
  "expire_key now key s =
     (case kc_pending s key of
        None \<Rightarrow> s
      | Some entry \<Rightarrow>
          (let gone = takeWhile (frame_expired now) (pk_frames entry);
               left = dropWhile (frame_expired now) (pk_frames entry);
               s1 = bump ks_pending_timeouts_update (length gone)
                      (s\<lparr>kc_pending := (kc_pending s)(key \<mapsto> entry\<lparr>pk_frames := left\<rparr>),
                         kc_pending_frames := kc_pending_frames s - length gone,
                         kc_pending_bytes := kc_pending_bytes s - frame_bytes gone\<rparr>)
           in if left \<noteq> [] then s1
              else let s2 = s1\<lparr>kc_pending := map_remove key (kc_pending s1)\<rparr>
                   in case kc_sessions s2 (fst key) of
                        None \<Rightarrow> s2
                      | Some st \<Rightarrow>
                          if ss_generation st = fst (snd key)
                          then s2\<lparr>kc_sessions := (kc_sessions s2)(fst key \<mapsto> st\<lparr>ss_queued_requests := ss_queued_requests st - {snd (snd key)}\<rparr>)\<rparr>
                          else s2))"

definition expire :: "('f, 'r, 'a) key_env \<Rightarrow> instant \<Rightarrow> ('f, 'r, 'a) KeyCache \<Rightarrow> ('f, 'r, 'a) KeyCache" where
  "expire E now s = fold (expire_key now) (ke_pending_order E (kc_pending s)) s"

definition session_entries :: "('f, 'r, 'a) key_env \<Rightarrow> AuthenticatedSession \<Rightarrow> ('f, 'r, 'a) KeyCache \<Rightarrow> PendingKey list" where
  "session_entries E ses s =
     List.map_filter (kc_pending s)
       (filter (\<lambda>key. fst key = as_peer ses \<and> fst (snd key) = as_generation ses) (ke_pending_order E (kc_pending s)))"

definition request_key ::
  "AuthenticatedSession \<Rightarrow> PeerId \<Rightarrow> PendingKey \<Rightarrow> ('f, 'r, 'a) KeyCache \<Rightarrow> bool \<times> ('f, 'r, 'a) KeyCache" where
  "request_key ses key_id entry s =
     (if pk_requested entry then (True, s)
      else case live_session ses s of
             None \<Rightarrow> (False, s)
           | Some st \<Rightarrow>
               if card (ss_queued_requests st) < MAX_QUEUED_IDS_PER_SESSION
               then (True, put_session ses (st\<lparr>ss_queued_requests := insert key_id (ss_queued_requests st)\<rparr>) s)
               else (False, s))"

definition queue_miss ::
  "('f, 'r, 'a) key_env \<Rightarrow> AuthenticatedSession \<Rightarrow> PeerId \<Rightarrow> bytes \<Rightarrow> instant \<Rightarrow> ('f, 'r, 'a) KeyCache \<Rightarrow> bool \<times> ('f, 'r, 'a) KeyCache" where
  "queue_miss E ses key_id data now s0 =
     (let s = expire E now s0;
          peer_frames = sum_list (map (\<lambda>e. length (pk_frames e)) (session_entries E ses s));
          peer_bytes = sum_list (map (\<lambda>e. frame_bytes (pk_frames e)) (session_entries E ses s))
      in if peer_frames \<ge> MAX_PENDING_PER_SESSION \<or> u64_sat_add peer_bytes (length data) > MAX_PENDING_BYTES_PER_SESSION
         then (False, bump ks_pending_peer_limit_drops_update 1 s)
         else if kc_pending_frames s \<ge> MAX_PENDING_GLOBAL \<or> u64_sat_add (kc_pending_bytes s) (length data) > MAX_PENDING_BYTES_GLOBAL
         then (False, bump ks_pending_global_limit_drops_update 1 s)
         else let key = session_key ses key_id;
                  entry = get_or \<lparr>pk_frames = [], pk_requested = False\<rparr> (kc_pending s) key;
                  (requested, s1) = request_key ses key_id entry s;
                  entry1 = entry\<lparr>pk_requested := requested\<rparr>
              in if \<not> requested
                 then (False, bump ks_pending_peer_limit_drops_update 1 (s1\<lparr>kc_pending := (kc_pending s1)(key \<mapsto> entry1)\<rparr>))
                 else let entry2 = entry1\<lparr>pk_frames := pk_frames entry1 @ [\<lparr>pf_bytes = data, pf_received_at = now\<rparr>]\<rparr>;
                          s2 = s1\<lparr>kc_pending := (kc_pending s1)(key \<mapsto> entry2),
                                  kc_pending_frames := kc_pending_frames s1 + 1,
                                  kc_pending_bytes := kc_pending_bytes s1 + length data\<rparr>
                      in (True, s2\<lparr>kc_stats := (kc_stats s2)
                           \<lparr>ks_pending_frames_high_water := max (ks_pending_frames_high_water (kc_stats s2)) (kc_pending_frames s2),
                            ks_pending_bytes_high_water := max (ks_pending_bytes_high_water (kc_stats s2)) (kc_pending_bytes s2)\<rparr>\<rparr>))"

definition take_pending :: "AuthenticatedSession \<Rightarrow> PeerId \<Rightarrow> ('f, 'r, 'a) KeyCache \<Rightarrow> bytes list \<times> ('f, 'r, 'a) KeyCache" where
  "take_pending ses key_id s =
     (case remove_pending (session_key ses key_id) s of
        (entry, s1) \<Rightarrow> (case entry of None \<Rightarrow> [] | Some e \<Rightarrow> map pf_bytes (pk_frames e), s1))"

subsection \<open>Control messages\<close>

definition queue_responses :: "('f, 'r, 'a) key_env \<Rightarrow> AuthenticatedSession \<Rightarrow> PeerId list \<Rightarrow> ('f, 'r, 'a) KeyCache \<Rightarrow> ('f, 'r, 'a) KeyCache" where
  "queue_responses E ses ids s =
     (case live_session ses s of
        None \<Rightarrow> s
      | Some st \<Rightarrow>
          put_session ses (st\<lparr>ss_queued_responses :=
            fold (\<lambda>i q. if lru_peek (ke_resolved E) i (kc_resolved s) \<noteq> None \<and> card q < MAX_QUEUED_IDS_PER_SESSION then insert i q else q)
              ids (ss_queued_responses st)\<rparr>) s)"

definition take_ids :: "('f, 'r, 'a) key_env \<Rightarrow> PeerId set \<Rightarrow> PeerId list \<times> PeerId set" where
  "take_ids E ids = (let batch = take MAX_CONTROL_ITEMS (ke_id_order E ids) in (batch, ids - set batch))"

text \<open>The keys of a response are looked up one after the other, each look-up moving its entry to the front.\<close>

fun response_entries :: "('f, 'r, 'a) key_env \<Rightarrow> PeerId list \<Rightarrow> 'r \<Rightarrow> (PeerId \<times> bytes) list \<times> 'r" where
  "response_entries E [] l = ([], l)"
| "response_entries E (i # ids) l =
     (case lru_get (ke_resolved E) i l of
        (key, l1) \<Rightarrow> (case response_entries E ids l1 of (es, l2) \<Rightarrow> ((case key of None \<Rightarrow> es | Some k \<Rightarrow> (i, k) # es), l2)))"

definition next_control ::
  "('f, 'r, 'a) key_env \<Rightarrow> AuthenticatedSession \<Rightarrow> instant \<Rightarrow> ('f, 'r, 'a) KeyCache \<Rightarrow> Control option \<times> ('f, 'r, 'a) KeyCache" where
  "next_control E ses now s0 =
     (let s = expire E now s0
      in case live_session ses s of
           None \<Rightarrow> (None, s)
         | Some st \<Rightarrow>
             if \<not> ss_hello_sent st
             then (if ss_hello_pending st then (None, s)
                   else case consume_token E now st of
                          (ok, st1) \<Rightarrow>
                            if \<not> ok then (None, put_session ses st1 s)
                            else (Some (Hello 1), put_session ses (st1\<lparr>ss_hello_pending := True\<rparr>) s))
             else if \<not> ss_hello_received st then (None, s)
             else if ss_queued_requests st \<noteq> {}
             then (case consume_token E now st of
                     (ok, st1) \<Rightarrow>
                       if \<not> ok then (None, put_session ses st1 s)
                       else case take_ids E (ss_queued_requests st1) of
                              (ids, left) \<Rightarrow>
                                (Some (RequestKeys ids), bump ks_requests_update 1 (put_session ses (st1\<lparr>ss_queued_requests := left\<rparr>) s)))
             else if ss_queued_responses st \<noteq> {}
             then (case consume_token E now st of
                     (ok, st1) \<Rightarrow>
                       if \<not> ok then (None, put_session ses st1 s)
                       else case take_ids E (ss_queued_responses st1) of
                              (ids, left) \<Rightarrow>
                                (case response_entries E ids (kc_resolved s) of
                                   (es, l) \<Rightarrow>
                                     (let s1 = (put_session ses (st1\<lparr>ss_queued_responses := left\<rparr>) s)\<lparr>kc_resolved := l\<rparr>
                                      in if es = [] then (None, s1) else (Some (ResponseKeys es), bump ks_responses_update 1 s1))))
             else if ss_queued_acks st \<noteq> {}
             then (case consume_token E now st of
                     (ok, st1) \<Rightarrow>
                       if \<not> ok then (None, put_session ses st1 s)
                       else case take_ids E (ss_queued_acks st1) of
                              (ids, left) \<Rightarrow> (Some (AckKeys ids), put_session ses (st1\<lparr>ss_queued_acks := left\<rparr>) s))
             else (None, s))"

definition requeue :: "PeerId list \<Rightarrow> PeerId set \<Rightarrow> PeerId set" where
  "requeue ids q = fold (\<lambda>i q. if card q < MAX_QUEUED_IDS_PER_SESSION then insert i q else q) ids q"

definition control_result :: "AuthenticatedSession \<Rightarrow> Control \<Rightarrow> bool \<Rightarrow> ('f, 'r, 'a) KeyCache \<Rightarrow> ('f, 'r, 'a) KeyCache" where
  "control_result ses control sent s =
     (case live_session ses s of
        None \<Rightarrow> s
      | Some st \<Rightarrow>
          (case control of
             Hello v \<Rightarrow> put_session ses (st\<lparr>ss_hello_pending := False, ss_hello_sent := ss_hello_sent st \<or> sent\<rparr>) s
           | AckKeys ids \<Rightarrow> if sent then s else put_session ses (st\<lparr>ss_queued_acks := requeue ids (ss_queued_acks st)\<rparr>) s
           | RequestKeys ids \<Rightarrow> if sent then s else put_session ses (st\<lparr>ss_queued_requests := requeue ids (ss_queued_requests st)\<rparr>) s
           | ResponseKeys es \<Rightarrow> if sent then s else put_session ses (st\<lparr>ss_queued_responses := requeue (map fst es) (ss_queued_responses st)\<rparr>) s))"

definition cached_sessions :: "PeerId list \<Rightarrow> ('f, 'r, 'a) KeyCache \<Rightarrow> AuthenticatedSession list" where
  "cached_sessions order s =
     List.map_filter (\<lambda>p. map_option (\<lambda>st. \<lparr>as_peer = p, as_generation = ss_generation st\<rparr>) (kc_sessions s p)) order"

subsection \<open>Statistics\<close>

definition record_outbound_frame :: "bool \<Rightarrow> nat \<Rightarrow> ('f, 'r, 'a) KeyCache \<Rightarrow> ('f, 'r, 'a) KeyCache" where
  "record_outbound_frame reference n s =
     (if reference then bump ks_ref_out_bytes_update n (bump ks_ref_out_frames_update 1 s)
      else bump ks_full_out_bytes_update n (bump ks_full_out_frames_update 1 s))"

definition record_inbound_frame :: "bool \<Rightarrow> nat \<Rightarrow> ('f, 'r, 'a) KeyCache \<Rightarrow> ('f, 'r, 'a) KeyCache" where
  "record_inbound_frame reference n s =
     (if reference then bump ks_ref_in_bytes_update n (bump ks_ref_in_frames_update 1 s)
      else bump ks_full_in_bytes_update n (bump ks_full_in_frames_update 1 s))"

definition malformed_control :: "('f, 'r, 'a) KeyCache \<Rightarrow> ('f, 'r, 'a) KeyCache" where
  "malformed_control s = bump ks_malformed_controls_update 1 s"

definition hash_mismatch :: "('f, 'r, 'a) KeyCache \<Rightarrow> ('f, 'r, 'a) KeyCache" where
  "hash_mismatch s = bump ks_hash_mismatches_update 1 s"

definition replay_result :: "bool \<Rightarrow> ('f, 'r, 'a) KeyCache \<Rightarrow> ('f, 'r, 'a) KeyCache" where
  "replay_result success s = bump (if success then ks_replay_success_update else ks_replay_failure_update) 1 s"

end
