(* ===== verification/Key_Exchange.thy ===== *)
theory Key_Exchange
  imports Key_Cache
begin

text \<open>
  The use of the sender key cache in \<open>crates/pubsub/src/lib.rs\<close>: how an incoming frame becomes a message
  with its signing key (the first half of \<open>dispatch_message\<close>), the handler of control messages, what is
  learned from a verified message, and the task that sends control messages.

  The transport's current session of a peer, the migration policy, the signature check, the priority of
  topics and the codec of legacy frames are parameters. The frames that a control message releases are
  its result; the code dispatches them one after the other.
\<close>

datatype frame_error =
    StaleReceiveSession | MigrationFrameSize | ProvenanceRequired | WireError wire_error | SignerNotAdjacent
  | LegacyDecode | TrailingMigrationBytes | ReservedTopicKind | IngressDenied | MissingControlPayload | ControlSignature

record dispatch_env =
  de_current :: "PeerId \<Rightarrow> AuthenticatedSession option" \<comment> \<open>\<open>transport.authenticated_session\<close>\<close>
  de_registered :: "TopicId \<Rightarrow> bool" \<comment> \<open>\<open>migration.registered\<close>\<close>
  de_take_message :: "bytes \<Rightarrow> (GossipMessage \<times> bytes) option" \<comment> \<open>\<open>postcard::take_from_bytes\<close>\<close>
  de_critical :: "TopicId \<Rightarrow> bool"
  de_ingress :: "PeerId \<Rightarrow> AuthenticatedSession option \<Rightarrow> GossipMessage \<Rightarrow> bool"
  de_verify :: "GossipMessage \<Rightarrow> bool"

definition session_current :: "dispatch_env \<Rightarrow> PeerId \<Rightarrow> AuthenticatedSession \<Rightarrow> bool" where
  "session_current D p ses \<longleftrightarrow> as_peer ses = p \<and> de_current D p = Some ses"

subsection \<open>Incoming frames\<close>

text \<open>The size limits that hold before a legacy frame is decoded.\<close>

definition bound_legacy_frame :: "postcard \<Rightarrow> dispatch_env \<Rightarrow> bytes \<Rightarrow> frame_error option" where
  "bound_legacy_frame P D data =
     (case pc_take_header P data of
        None \<Rightarrow> None
      | Some (header, _) \<Rightarrow>
          (case (if hdr_topic header = control_topic P then preflight_legacy_control P data else Inr True) of
             Inl e \<Rightarrow> Some (WireError e)
           | Inr _ \<Rightarrow>
               if de_registered D (hdr_topic header) \<and> length data > 1024 * 1024 + 6000 then Some MigrationFrameSize else None))"

text \<open>A reference is resolved from the cache; on a miss the frame is kept and its key requested, and there
  is no message (\<open>Inr None\<close>).\<close>

definition resolve_reference ::
  "('f, 'r, 'a) key_env \<Rightarrow> dispatch_env \<Rightarrow> AuthenticatedSession \<Rightarrow> GossipMessage \<Rightarrow> PeerId \<Rightarrow> bytes \<Rightarrow> instant \<Rightarrow> ('f, 'r, 'a) KeyCache \<Rightarrow>
     GossipMessage option \<times> ('f, 'r, 'a) KeyCache" where
  "resolve_reference E D ses m key_id data now s =
     (let s1 = (if de_critical D (hdr_topic (gm_header m)) then record_critical_ref_mismatch s else s)
      in case lookup_key E key_id s1 of
           (None, s2) \<Rightarrow> (None, snd (queue_miss E ses key_id data now (record_inbound_frame True (length data) s2)))
         | (Some key, s2) \<Rightarrow> (Some (m\<lparr>gm_public_key := key\<rparr>), record_inbound_frame True (length data) s2))"

definition resolve_v3 ::
  "('f, 'r, 'a) key_env \<Rightarrow> dispatch_env \<Rightarrow> PeerId \<Rightarrow> AuthenticatedSession option \<Rightarrow> bytes \<Rightarrow> instant \<Rightarrow> ('f, 'r, 'a) KeyCache \<Rightarrow>
     (frame_error + GossipMessage option) \<times> ('f, 'r, 'a) KeyCache" where
  "resolve_v3 E D p session data now s =
     (case session of
        None \<Rightarrow> (Inl ProvenanceRequired, s)
      | Some ses \<Rightarrow>
          (case decode (ke_postcard E) data of
             Inl e \<Rightarrow> (Inl (WireError e), if e = KeyHashMismatch then hash_mismatch s else s)
           | Inr (DecodedFull m key_id) \<Rightarrow>
               if hdr_kind (gm_header m) \<noteq> Eager \<and> key_id \<noteq> p then (Inl SignerNotAdjacent, s)
               else (Inr (Some m), record_inbound_frame False (length data) s)
           | Inr (DecodedRef m key_id) \<Rightarrow>
               if hdr_kind (gm_header m) \<noteq> Eager \<and> key_id \<noteq> p then (Inl SignerNotAdjacent, s)
               else (case resolve_reference E D ses m key_id data now s of (r, s1) \<Rightarrow> (Inr r, s1))))"

definition resolve_legacy ::
  "postcard \<Rightarrow> dispatch_env \<Rightarrow> PeerId \<Rightarrow> AuthenticatedSession option \<Rightarrow> bytes \<Rightarrow> ('f, 'r, 'a) KeyCache \<Rightarrow>
     (frame_error + GossipMessage option) \<times> ('f, 'r, 'a) KeyCache" where
  "resolve_legacy P D p session data s =
     (case de_take_message D data of
        None \<Rightarrow> (Inl LegacyDecode, s)
      | Some (m, trailing) \<Rightarrow>
          (let topic = hdr_topic (gm_header m)
           in if de_registered D topic \<and> trailing \<noteq> [] then (Inl TrailingMigrationBytes, s)
              else if topic = control_topic P
              then (if (case session of None \<Rightarrow> False | Some ses \<Rightarrow> as_peer ses = p) \<and> key_id_of P (gm_public_key m) = p
                    then (Inr (Some m), s) else (Inl SignerNotAdjacent, s))
              else (Inr (Some m), record_inbound_frame False (length data) s)))"

definition check_message :: "postcard \<Rightarrow> PeerId \<Rightarrow> AuthenticatedSession option \<Rightarrow> bytes \<Rightarrow> GossipMessage \<Rightarrow> frame_error option" where
  "check_message P p session data m =
     (if hdr_topic (gm_header m) = control_topic P \<and> hdr_kind (gm_header m) \<noteq> Ping then Some ReservedTopicKind
      else if is_v3 data \<and> hdr_kind (gm_header m) \<noteq> Eager \<and>
              \<not> ((case session of None \<Rightarrow> False | Some ses \<Rightarrow> as_peer ses = p) \<and> key_id_of P (gm_public_key m) = p)
      then Some SignerNotAdjacent
      else None)"

text \<open>The part of \<open>dispatch_message\<close> before the message is routed by its kind.\<close>

definition resolve_frame ::
  "('f, 'r, 'a) key_env \<Rightarrow> dispatch_env \<Rightarrow> PeerId \<Rightarrow> AuthenticatedSession option \<Rightarrow> bytes \<Rightarrow> instant \<Rightarrow> ('f, 'r, 'a) KeyCache \<Rightarrow>
     (frame_error + GossipMessage option) \<times> ('f, 'r, 'a) KeyCache" where
  "resolve_frame E D p session data now s =
     (let P = ke_postcard E
      in if (case session of None \<Rightarrow> False | Some ses \<Rightarrow> \<not> session_current D p ses) then (Inl StaleReceiveSession, s)
         else case bound_legacy_frame P D data of
                Some e \<Rightarrow> (Inl e, s)
              | None \<Rightarrow>
                  (case (if is_v3 data then resolve_v3 E D p session data now s else resolve_legacy P D p session data s) of
                     (Inl e, s1) \<Rightarrow> (Inl e, s1)
                   | (Inr None, s1) \<Rightarrow> (Inr None, s1)
                   | (Inr (Some m), s1) \<Rightarrow>
                       (case check_message P p session data m of Some e \<Rightarrow> (Inl e, s1) | None \<Rightarrow> (Inr (Some m), s1))))"

definition note_verified_inbound_key ::
  "('f, 'r, 'a) key_env \<Rightarrow> AuthenticatedSession option \<Rightarrow> GossipMessage \<Rightarrow> ('f, 'r, 'a) KeyCache \<Rightarrow> ('f, 'r, 'a) KeyCache" where
  "note_verified_inbound_key E session m s =
     (if hdr_topic (gm_header m) = control_topic (ke_postcard E) then s
      else note_verified_key E (key_id_of (ke_postcard E) (gm_public_key m)) (gm_public_key m) session s)"

subsection \<open>Incoming control messages\<close>

fun accept_response_keys ::
  "('f, 'r, 'a) key_env \<Rightarrow> AuthenticatedSession \<Rightarrow> (PeerId \<times> bytes) list \<Rightarrow> ('f, 'r, 'a) KeyCache \<Rightarrow> bytes list \<times> ('f, 'r, 'a) KeyCache" where
  "accept_response_keys E ses [] s = ([], s)"
| "accept_response_keys E ses ((key_id, key) # es) s =
     (case note_response_key E ses key_id key s of
        (accepted, s1) \<Rightarrow>
          (case (if accepted then take_pending ses key_id s1 else ([], s1)) of
             (frames, s2) \<Rightarrow> (case accept_response_keys E ses es s2 of (others, s3) \<Rightarrow> (frames @ others, s3))))"

definition apply_control ::
  "('f, 'r, 'a) key_env \<Rightarrow> AuthenticatedSession \<Rightarrow> Control \<Rightarrow> instant \<Rightarrow> ('f, 'r, 'a) KeyCache \<Rightarrow> bytes list \<times> ('f, 'r, 'a) KeyCache" where
  "apply_control E ses control now s =
     (let s1 = observe_session E ses now s
      in case control of
           Hello v \<Rightarrow> ([], received_hello ses s1)
         | AckKeys ids \<Rightarrow> ([], acknowledge E ses ids s1)
         | RequestKeys ids \<Rightarrow> ([], queue_responses E ses ids s1)
         | ResponseKeys es \<Rightarrow> accept_response_keys E ses es s1)"

definition handle_key_cache_control ::
  "('f, 'r, 'a) key_env \<Rightarrow> dispatch_env \<Rightarrow> PeerId \<Rightarrow> AuthenticatedSession option \<Rightarrow> GossipMessage \<Rightarrow> instant \<Rightarrow> ('f, 'r, 'a) KeyCache \<Rightarrow>
     (frame_error + bytes list) \<times> ('f, 'r, 'a) KeyCache" where
  "handle_key_cache_control E D p session m now s =
     (case session of
        None \<Rightarrow> (Inl ProvenanceRequired, s)
      | Some ses \<Rightarrow>
          if \<not> session_current D p ses then (Inl StaleReceiveSession, s)
          else if \<not> (key_id_of (ke_postcard E) (gm_public_key m) = p \<and> length (gm_public_key m) = 1952) then (Inl SignerNotAdjacent, s)
          else case gm_payload m of
                 None \<Rightarrow> (Inl MissingControlPayload, s)
               | Some payload \<Rightarrow>
                   (case decode_control (ke_postcard E) payload of
                      Inl e \<Rightarrow>
                        (Inl (WireError e), if e = KeyHashMismatch then hash_mismatch (malformed_control s) else malformed_control s)
                    | Inr control \<Rightarrow> (case apply_control E ses control now s of (frames, s1) \<Rightarrow> (Inr frames, s1))))"

text \<open>The kinds that the pub/sub layer does not route to a topic.\<close>

definition handle_other_kind ::
  "('f, 'r, 'a) key_env \<Rightarrow> dispatch_env \<Rightarrow> PeerId \<Rightarrow> AuthenticatedSession option \<Rightarrow> GossipMessage \<Rightarrow> instant \<Rightarrow> ('f, 'r, 'a) KeyCache \<Rightarrow>
     (frame_error + bytes list) \<times> ('f, 'r, 'a) KeyCache" where
  "handle_other_kind E D p session m now s =
     (let control = (hdr_topic (gm_header m) = control_topic (ke_postcard E))
      in if \<not> de_ingress D p session m then (Inl IngressDenied, s)
         else if de_verify D m
         then (if control
               then (if hdr_kind (gm_header m) \<noteq> Ping then (Inl (WireError InvalidControlKind), s)
                     else handle_key_cache_control E D p session m now s)
               else (Inr [], note_verified_inbound_key E session m s))
         else if control then (Inl ControlSignature, s) else (Inr [], s))"

definition observe_authenticated :: "('f, 'r, 'a) key_env \<Rightarrow> dispatch_env \<Rightarrow> AuthenticatedSession \<Rightarrow> instant \<Rightarrow> ('f, 'r, 'a) KeyCache \<Rightarrow> ('f, 'r, 'a) KeyCache" where
  "observe_authenticated E D ses now s = (if de_current D (as_peer ses) = Some ses then observe_session E ses now s else s)"

subsection \<open>Outgoing control messages\<close>

text \<open>One session in a tick of the task: control messages are sent until there is none or a send fails. Each
  round has its instant and the outcome of its send.\<close>

fun flush_session ::
  "('f, 'r, 'a) key_env \<Rightarrow> AuthenticatedSession \<Rightarrow> (instant \<times> bool) list \<Rightarrow> ('f, 'r, 'a) KeyCache \<Rightarrow> Control list \<times> ('f, 'r, 'a) KeyCache" where
  "flush_session E ses [] s = ([], s)"
| "flush_session E ses ((now, sent) # rounds) s =
     (case next_control E ses now s of
        (None, s1) \<Rightarrow> ([], s1)
      | (Some control, s1) \<Rightarrow>
          (let s2 = control_result ses control sent s1
           in if sent then (case flush_session E ses rounds s2 of (cs, s3) \<Rightarrow> (control # cs, s3)) else ([control], s2)))"

fun flush_sessions ::
  "('f, 'r, 'a) key_env \<Rightarrow> dispatch_env \<Rightarrow> (AuthenticatedSession \<times> (instant \<times> bool) list) list \<Rightarrow> ('f, 'r, 'a) KeyCache \<Rightarrow>
     (AuthenticatedSession \<times> Control list) list \<times> ('f, 'r, 'a) KeyCache" where
  "flush_sessions E D [] s = ([], s)"
| "flush_sessions E D ((ses, rounds) # rest) s =
     (if de_current D (as_peer ses) \<noteq> Some ses then flush_sessions E D rest (forget_stale E ses s)
      else case flush_session E ses rounds s of
             (cs, s1) \<Rightarrow> (case flush_sessions E D rest s1 of (others, s2) \<Rightarrow> ((ses, cs) # others, s2)))"

end
