(* ===== verification/Key_Books.thy ===== *)
theory Key_Books
  imports Key_Exchange
begin

text \<open>
  The invariant of the sender key cache and that every operation keeps it: the keys it knows are the ones
  their identifiers name, every queue and map keeps its bound, the counters are the sums they stand for,
  and a frame waits only for a key that was asked for in a session that is still the current one.
\<close>

subsection \<open>LRU maps\<close>

text \<open>What the cache needs of an LRU map: what is in it after an operation was there before or was put
  there, and it never grows beyond its capacity.\<close>

definition lru_fits :: "('k, 'v, 'l) lru_ops \<Rightarrow> nat \<Rightarrow> 'l \<Rightarrow> bool" where
  "lru_fits ops n l \<longleftrightarrow> lru_cap ops l = n \<and> length (lru_iter ops l) \<le> n"

locale lru_map =
  fixes ops :: "('k, 'v, 'l) lru_ops"
  assumes laws: "lru_laws ops"
begin

lemma new_fits: "lru_fits ops n (lru_new ops n)" "lru_iter ops (lru_new ops n) = []"
  using laws by (simp_all add: lru_laws_def lru_reads_def lru_fits_def)

lemma peek_map_of: "lru_peek ops k l = map_of (lru_iter ops l) k"
  using laws by (simp add: lru_laws_def lru_reads_def)

lemma iter_distinct: "distinct (map fst (lru_iter ops l))"
  using laws by (simp add: lru_laws_def lru_reads_def)

lemma without_le: "length (without k xs) \<le> length xs" "map_of xs k \<noteq> None \<Longrightarrow> length (without k xs) < length xs"
proof -
  show "length (without k xs) \<le> length xs" by (simp add: without_def)
  show "map_of xs k \<noteq> None \<Longrightarrow> length (without k xs) < length xs"
    by (induction xs) (auto simp: without_def le_imp_less_Suc split: if_splits)
qed

lemma push_fits:
  assumes "lru_fits ops n l" "0 < n"
  shows "lru_fits ops n (snd (lru_push ops k v l))"
    and "set (lru_iter ops (snd (lru_push ops k v l))) \<subseteq> insert (k, v) (set (lru_iter ops l))"
    and "(k, v) \<in> set (lru_iter ops (snd (lru_push ops k v l)))"
proof -
  let ?xs = "lru_iter ops l" and ?l = "snd (lru_push ops k v l)"
  have P: "lru_cap ops ?l = lru_cap ops l"
    "case map_of ?xs k of
       Some old \<Rightarrow> lru_iter ops ?l = (k, v) # without k ?xs
     | None \<Rightarrow> if length ?xs < lru_cap ops l then lru_iter ops ?l = (k, v) # ?xs
               else ?xs \<noteq> [] \<longrightarrow> lru_iter ops ?l = (k, v) # butlast ?xs"
  proof -
    have "lru_cap ops ?l = lru_cap ops l \<and>
        (case map_of ?xs k of
           Some old \<Rightarrow> fst (lru_push ops k v l) = Some (k, old) \<and> lru_iter ops ?l = (k, v) # without k ?xs
         | None \<Rightarrow>
             if length ?xs < lru_cap ops l
             then fst (lru_push ops k v l) = None \<and> lru_iter ops ?l = (k, v) # ?xs
             else ?xs \<noteq> [] \<longrightarrow> fst (lru_push ops k v l) = Some (last ?xs) \<and> lru_iter ops ?l = (k, v) # butlast ?xs)"
      using laws unfolding lru_laws_def lru_pushes_def by blast
    then show "lru_cap ops ?l = lru_cap ops l"
      "case map_of ?xs k of
         Some old \<Rightarrow> lru_iter ops ?l = (k, v) # without k ?xs
       | None \<Rightarrow> if length ?xs < lru_cap ops l then lru_iter ops ?l = (k, v) # ?xs
                 else ?xs \<noteq> [] \<longrightarrow> lru_iter ops ?l = (k, v) # butlast ?xs"
      by (simp_all split: option.splits if_splits)
  qed
  have cap: "lru_cap ops l = n" "length ?xs \<le> n" using assms(1) by (simp_all add: lru_fits_def)
  have "length (lru_iter ops ?l) \<le> n \<and> set (lru_iter ops ?l) \<subseteq> insert (k, v) (set ?xs) \<and> (k, v) \<in> set (lru_iter ops ?l)"
  proof (cases "map_of ?xs k")
    case (Some old)
    then have "lru_iter ops ?l = (k, v) # without k ?xs" using P(2) by simp
    then show ?thesis using without_le(2) [of ?xs k] Some cap by (auto simp: without_def)
  next
    case None
    show ?thesis
    proof (cases "length ?xs < n")
      case True
      then show ?thesis using P(2) None cap by auto
    next
      case False
      then have "?xs \<noteq> []" using assms(2) by auto
      then have "lru_iter ops ?l = (k, v) # butlast ?xs" using P(2) None False cap by simp
      then show ?thesis using \<open>?xs \<noteq> []\<close> cap by (auto dest: in_set_butlastD)
    qed
  qed
  then show "lru_fits ops n ?l" "set (lru_iter ops ?l) \<subseteq> insert (k, v) (set ?xs)" "(k, v) \<in> set (lru_iter ops ?l)"
    using P(1) cap by (simp_all add: lru_fits_def)
qed

lemma get_fits:
  shows "fst (lru_get ops k l) = map_of (lru_iter ops l) k"
    and "set (lru_iter ops (snd (lru_get ops k l))) = set (lru_iter ops l)"
    and "lru_fits ops n l \<Longrightarrow> lru_fits ops n (snd (lru_get ops k l))"
proof -
  let ?xs = "lru_iter ops l" and ?l = "snd (lru_get ops k l)"
  have G: "fst (lru_get ops k l) = map_of ?xs k" "lru_cap ops ?l = lru_cap ops l"
    "lru_iter ops ?l = (case map_of ?xs k of None \<Rightarrow> ?xs | Some v \<Rightarrow> (k, v) # without k ?xs)"
    using laws unfolding lru_laws_def lru_gets_def by blast+
  show "fst (lru_get ops k l) = map_of ?xs k" by (rule G)
  have key: "x = y" if "(k, x) \<in> set ?xs" "(k, y) \<in> set ?xs" for x y
    using that iter_distinct [of l] by (auto simp: eq_key_imp_eq_value)
  show "set (lru_iter ops ?l) = set ?xs"
    using G(3) key by (auto simp: without_def dest: map_of_SomeD split: option.splits)
  show "lru_fits ops n l \<Longrightarrow> lru_fits ops n ?l"
    using G(2,3) without_le(2) [of ?xs k] by (auto simp: lru_fits_def split: option.splits)
qed

lemma pop_fits:
  shows "lru_iter ops (snd (lru_pop ops k l)) = without k (lru_iter ops l)"
    and "lru_fits ops n l \<Longrightarrow> lru_fits ops n (snd (lru_pop ops k l))"
proof -
  have P: "lru_iter ops (snd (lru_pop ops k l)) = without k (lru_iter ops l)" "lru_cap ops (snd (lru_pop ops k l)) = lru_cap ops l"
    using laws unfolding lru_laws_def lru_pops_def by blast+
  show "lru_iter ops (snd (lru_pop ops k l)) = without k (lru_iter ops l)" by (rule P)
  show "lru_fits ops n l \<Longrightarrow> lru_fits ops n (snd (lru_pop ops k l))"
    using P without_le(1) [of k "lru_iter ops l"] by (simp add: lru_fits_def)
qed

lemma pops_fit:
  "lru_fits ops n l \<Longrightarrow> lru_fits ops n (fold (\<lambda>k l. snd (lru_pop ops k l)) ks l)"
  "lru_iter ops (fold (\<lambda>k l. snd (lru_pop ops k l)) ks l) = filter (\<lambda>x. fst x \<notin> set ks) (lru_iter ops l)"
proof -
  show "lru_fits ops n l \<Longrightarrow> lru_fits ops n (fold (\<lambda>k l. snd (lru_pop ops k l)) ks l)"
    by (induction ks arbitrary: l) (simp_all add: pop_fits(2))
  show "lru_iter ops (fold (\<lambda>k l. snd (lru_pop ops k l)) ks l) = filter (\<lambda>x. fst x \<notin> set ks) (lru_iter ops l)"
  proof (induction ks arbitrary: l)
    case (Cons k ks)
    have "filter (\<lambda>x. fst x \<notin> set ks) (without k xs) = filter (\<lambda>x. fst x \<notin> set (k # ks)) xs" for xs :: "('k \<times> 'v) list"
      by (auto simp: without_def intro: filter_cong)
    then show ?case using Cons by (simp add: pop_fits(1))
  qed simp
qed

end

interpretation list_lru_map: lru_map "list_lru :: ('k, 'v, ('k, 'v) lru_list) lru_ops"
  by unfold_locales (rule list_lru_laws)

subsection \<open>Sums over the pending frames\<close>

definition ssum :: "('v \<Rightarrow> nat) \<Rightarrow> 'k set \<Rightarrow> ('k \<rightharpoonup> 'v) \<Rightarrow> nat" where
  "ssum f S m = (\<Sum>k \<in> dom m \<inter> S. f (the (m k)))"

lemma ssum_empty [simp]: "ssum f S Map.empty = 0"
  by (simp add: ssum_def)

lemma ssum_split:
  assumes "finite (dom m)" "m k = Some v"
  shows "ssum f S m = ssum f S (map_remove k m) + (if k \<in> S then f v else 0)"
proof -
  have dom: "dom (map_remove k m) \<inter> S = (dom m \<inter> S) - {k}" by auto
  have eq: "(\<Sum>x \<in> (dom m \<inter> S) - {k}. f (the (map_remove k m x))) = (\<Sum>x \<in> (dom m \<inter> S) - {k}. f (the (m x)))"
    by (rule sum.cong) auto
  show ?thesis
  proof (cases "k \<in> S")
    case True
    then have "k \<in> dom m \<inter> S" using assms(2) by auto
    then show ?thesis unfolding ssum_def dom eq using assms True by (subst sum.remove [of _ k]) auto
  next
    case False
    then have "(dom m \<inter> S) - {k} = dom m \<inter> S" by auto
    then show ?thesis unfolding ssum_def dom eq using False by simp
  qed
qed

lemma ssum_upd:
  assumes "finite (dom m)"
  shows "ssum f S (m(k \<mapsto> v)) = ssum f S (map_remove k m) + (if k \<in> S then f v else 0)"
proof -
  have "map_remove k (m(k \<mapsto> v)) = map_remove k m" by (rule ext) simp
  then show ?thesis using ssum_split [of "m(k \<mapsto> v)" k v f S] assms by simp
qed

lemma map_remove_absent: "m k = None \<Longrightarrow> map_remove k m = m"
  by (rule ext) simp

lemma ssum_remove_le: "finite (dom m) \<Longrightarrow> ssum f S (map_remove k m) \<le> ssum f S m"
  by (cases "m k") (simp_all add: map_remove_absent ssum_split [of m k])

lemma ssum_list:
  assumes "iterates ks m"
  shows "sum_list (map f (List.map_filter m (filter P ks))) = ssum f {k. P k} m"
proof -
  have ks: "distinct ks" "set ks = dom m" using assms by (auto simp: iterates_def)
  have "sum_list (map f (List.map_filter m (filter P ls))) = (\<Sum>k \<in> set ls \<inter> {k. P k}. f (the (m k)))"
    if "distinct ls" "set ls \<subseteq> dom m" for ls
    using that
  proof (induction ls)
    case (Cons k ls)
    obtain v where v: "m k = Some v" using Cons.prems(2) by auto
    have "insert k (set ls) \<inter> {k. P k} = (if P k then insert k (set ls \<inter> {k. P k}) else set ls \<inter> {k. P k})" by auto
    then show ?case using Cons v by (simp add: List.map_filter_simps)
  qed simp
  from this [OF ks(1)] show ?thesis using ks(2) by (simp add: ssum_def)
qed

subsection \<open>The invariant\<close>

definition key_env_ok :: "('f, 'r, 'a) key_env \<Rightarrow> bool" where
  "key_env_ok E \<longleftrightarrow> lru_map (ke_resolved E) \<and> lru_map (ke_acks E) \<and>
     (\<forall>m. finite (dom m) \<longrightarrow> iterates (ke_pending_order E m) m) \<and> (\<forall>S. finite S \<longrightarrow> iterates_set (ke_id_order E S) S)"

definition authentic_keys :: "('f, 'r, 'a) key_env \<Rightarrow> 'r \<Rightarrow> bool" where
  "authentic_keys E l \<longleftrightarrow>
     lru_fits (ke_resolved E) 2048 l \<and>
     (\<forall>i k. (i, k) \<in> set (lru_iter (ke_resolved E) l) \<longrightarrow> length k = KEY_BYTES \<and> key_id_of (ke_postcard E) k = i)"

definition queue_ok :: "PeerId set \<Rightarrow> bool" where
  "queue_ok q \<longleftrightarrow> finite q \<and> card q \<le> MAX_QUEUED_IDS_PER_SESSION"

definition session_ok :: "'f SessionState \<Rightarrow> bool" where
  "session_ok st \<longleftrightarrow> queue_ok (ss_queued_acks st) \<and> queue_ok (ss_queued_requests st) \<and> queue_ok (ss_queued_responses st)"

definition sessions_ok :: "(PeerId \<rightharpoonup> 'f SessionState) \<Rightarrow> bool" where
  "sessions_ok m \<longleftrightarrow> finite (dom m) \<and> card (dom m) \<le> MAX_SESSIONS \<and> (\<forall>p st. m p = Some st \<longrightarrow> session_ok st)"

definition of_session :: "PeerId \<Rightarrow> nat \<Rightarrow> pending_key set" where
  "of_session p g = {k. fst k = p \<and> fst (snd k) = g}"

definition pending_count :: "pending_key set \<Rightarrow> (pending_key \<rightharpoonup> PendingKey) \<Rightarrow> nat" where
  "pending_count S m = ssum (\<lambda>e. length (pk_frames e)) S m"

definition pending_size :: "pending_key set \<Rightarrow> (pending_key \<rightharpoonup> PendingKey) \<Rightarrow> nat" where
  "pending_size S m = ssum (\<lambda>e. frame_bytes (pk_frames e)) S m"

definition frames_ok :: "('f, 'r, 'a) KeyCache \<Rightarrow> bool" where
  "frames_ok s \<longleftrightarrow> finite (dom (kc_pending s)) \<and>
     kc_pending_frames s = pending_count UNIV (kc_pending s) \<and> kc_pending_bytes s = pending_size UNIV (kc_pending s) \<and>
     kc_pending_frames s \<le> MAX_PENDING_GLOBAL \<and> kc_pending_bytes s \<le> MAX_PENDING_BYTES_GLOBAL \<and>
     (\<forall>p g. pending_count (of_session p g) (kc_pending s) \<le> MAX_PENDING_PER_SESSION \<and>
            pending_size (of_session p g) (kc_pending s) \<le> MAX_PENDING_BYTES_PER_SESSION)"

definition live_at :: "(PeerId \<rightharpoonup> 'f SessionState) \<Rightarrow> PeerId \<Rightarrow> nat \<Rightarrow> bool" where
  "live_at m p g \<longleftrightarrow> (case m p of None \<Rightarrow> False | Some st \<Rightarrow> ss_generation st = g)"

definition frames_live :: "('f, 'r, 'a) KeyCache \<Rightarrow> bool" where
  "frames_live s \<longleftrightarrow>
     (\<forall>k e. kc_pending s k = Some e \<and> pk_frames e \<noteq> [] \<longrightarrow> pk_requested e \<and> live_at (kc_sessions s) (fst k) (fst (snd k)))"

definition key_cache_ok :: "('f, 'r, 'a) key_env \<Rightarrow> ('f, 'r, 'a) KeyCache \<Rightarrow> bool" where
  "key_cache_ok E s \<longleftrightarrow>
     authentic_keys E (kc_resolved s) \<and> lru_fits (ke_acks E) 4096 (kc_acknowledged s) \<and> lru_fits (ke_acks E) 4096 (kc_announced_inbound s) \<and>
     sessions_ok (kc_sessions s) \<and> frames_ok s \<and> frames_live s"

lemma key_cache_okI:
  assumes "authentic_keys E (kc_resolved s)" "lru_fits (ke_acks E) 4096 (kc_acknowledged s)"
    "lru_fits (ke_acks E) 4096 (kc_announced_inbound s)" "sessions_ok (kc_sessions s)" "frames_ok s" "frames_live s"
  shows "key_cache_ok E s"
  using assms by (simp add: key_cache_ok_def)

lemma key_cache_okD:
  assumes "key_cache_ok E s"
  shows "authentic_keys E (kc_resolved s)" "lru_fits (ke_acks E) 4096 (kc_acknowledged s)"
    "lru_fits (ke_acks E) 4096 (kc_announced_inbound s)" "sessions_ok (kc_sessions s)" "frames_ok s" "frames_live s"
  using assms by (simp_all add: key_cache_ok_def)

lemma key_env_okD:
  assumes "key_env_ok E"
  shows "lru_map (ke_resolved E)" "lru_map (ke_acks E)" "finite (dom m) \<Longrightarrow> iterates (ke_pending_order E m) m"
    "finite S \<Longrightarrow> iterates_set (ke_id_order E S) S"
  using assms by (simp_all add: key_env_ok_def)

lemma frames_same:
  "kc_pending s' = kc_pending s \<Longrightarrow> kc_pending_frames s' = kc_pending_frames s \<Longrightarrow> kc_pending_bytes s' = kc_pending_bytes s \<Longrightarrow>
     frames_ok s \<Longrightarrow> frames_ok s'"
  by (simp add: frames_ok_def)

lemma frames_liveI:
  "(\<And>k e. kc_pending s k = Some e \<Longrightarrow> pk_frames e \<noteq> [] \<Longrightarrow> pk_requested e \<and> live_at (kc_sessions s) (fst k) (fst (snd k))) \<Longrightarrow> frames_live s"
  unfolding frames_live_def by blast

lemma frames_liveD:
  "frames_live s \<Longrightarrow> kc_pending s k = Some e \<Longrightarrow> pk_frames e \<noteq> [] \<Longrightarrow> pk_requested e \<and> live_at (kc_sessions s) (fst k) (fst (snd k))"
  unfolding frames_live_def by blast

lemma frames_live_same:
  "frames_live s \<Longrightarrow> kc_pending s' = kc_pending s \<Longrightarrow> (\<And>p g. live_at (kc_sessions s) p g \<Longrightarrow> live_at (kc_sessions s') p g) \<Longrightarrow> frames_live s'"
  by (auto simp: frames_live_def)

lemma default_ok: "key_env_ok E \<Longrightarrow> key_cache_ok E (key_cache_default E)"
  using lru_map.new_fits [OF key_env_okD(1), of E 2048] lru_map.new_fits [OF key_env_okD(2), of E 4096]
  by (simp add: key_cache_ok_def key_cache_default_def authentic_keys_def sessions_ok_def frames_ok_def frames_live_def
      pending_count_def pending_size_def lru_capacity_def)

text \<open>Operations that change nothing but statistics keep it.\<close>

lemma bump_ok: "key_cache_ok E s \<Longrightarrow> key_cache_ok E (bump c n s)"
  unfolding key_cache_ok_def using frames_same [of "bump c n s" s] frames_live_same [of s "bump c n s"] by simp

lemma live_session_Some: "live_session ses s = Some st \<longleftrightarrow> kc_sessions s (as_peer ses) = Some st \<and> ss_generation st = as_generation ses"
  by (auto simp: live_session_def split: option.splits)

lemma put_session_simps [simp]:
  "kc_resolved (put_session ses st s) = kc_resolved s" "kc_acknowledged (put_session ses st s) = kc_acknowledged s"
  "kc_announced_inbound (put_session ses st s) = kc_announced_inbound s" "kc_pending (put_session ses st s) = kc_pending s"
  "kc_pending_frames (put_session ses st s) = kc_pending_frames s" "kc_pending_bytes (put_session ses st s) = kc_pending_bytes s"
  "kc_sessions (put_session ses st s) = (kc_sessions s)(as_peer ses \<mapsto> st)"
  by (simp_all add: put_session_def)

lemma put_session_ok:
  assumes "key_cache_ok E s" "live_session ses s = Some st" "session_ok st'" "ss_generation st' = ss_generation st"
  shows "key_cache_ok E (put_session ses st' s)"
proof (rule key_cache_okI)
  note K = key_cache_okD [OF assms(1)]
  have p: "kc_sessions s (as_peer ses) = Some st" using assms(2) by (simp add: live_session_Some)
  then have "dom ((kc_sessions s)(as_peer ses \<mapsto> st')) = dom (kc_sessions s)" by auto
  then show "sessions_ok (kc_sessions (put_session ses st' s))" using K(4) assms(3) by (auto simp: sessions_ok_def)
  show "frames_ok (put_session ses st' s)" by (rule frames_same [OF _ _ _ K(5)]) simp_all
  show "frames_live (put_session ses st' s)" 
    by (rule frames_live_same [OF K(6)]) (use p assms(4) in \<open>auto simp: live_at_def\<close>)
qed (use key_cache_okD [OF assms(1)] in simp_all)

lemma live_session_ok: "key_cache_ok E s \<Longrightarrow> live_session ses s = Some st \<Longrightarrow> session_ok st"
  by (auto simp: key_cache_ok_def sessions_ok_def live_session_Some)

subsection \<open>Frames leave\<close>

lemma frame_bytes_append [simp]: "frame_bytes (xs @ ys) = frame_bytes xs + frame_bytes ys" "frame_bytes [] = 0"
  by (simp_all add: frame_bytes_def)

lemma frames_ok_le:
  assumes "frames_ok s" "finite (dom (kc_pending s'))"
    and "kc_pending_frames s' = pending_count UNIV (kc_pending s')" "kc_pending_bytes s' = pending_size UNIV (kc_pending s')"
    and "\<And>S. pending_count S (kc_pending s') \<le> pending_count S (kc_pending s) \<and> pending_size S (kc_pending s') \<le> pending_size S (kc_pending s)"
  shows "frames_ok s'"
proof -
  have glob: "kc_pending_frames s' \<le> MAX_PENDING_GLOBAL" "kc_pending_bytes s' \<le> MAX_PENDING_BYTES_GLOBAL"
    using assms(1) assms(3,4) assms(5) [of UNIV] by (simp_all add: frames_ok_def)
  have "pending_count (of_session p g) (kc_pending s') \<le> MAX_PENDING_PER_SESSION \<and>
      pending_size (of_session p g) (kc_pending s') \<le> MAX_PENDING_BYTES_PER_SESSION" for p g
    using assms(1) assms(5) [of "of_session p g"] unfolding frames_ok_def by (meson le_trans)
  then show ?thesis using assms(2-4) glob by (simp add: frames_ok_def)
qed

lemma pending_sums_split:
  assumes "finite (dom m)" "m k = Some e"
  shows "pending_count S m = pending_count S (map_remove k m) + (if k \<in> S then length (pk_frames e) else 0)"
    "pending_size S m = pending_size S (map_remove k m) + (if k \<in> S then frame_bytes (pk_frames e) else 0)"
  using ssum_split [OF assms] by (simp_all add: pending_count_def pending_size_def)

lemma pending_sums_upd:
  assumes "finite (dom m)"
  shows "pending_count S (m(k \<mapsto> e)) = pending_count S (map_remove k m) + (if k \<in> S then length (pk_frames e) else 0)"
    "pending_size S (m(k \<mapsto> e)) = pending_size S (map_remove k m) + (if k \<in> S then frame_bytes (pk_frames e) else 0)"
  using ssum_upd [OF assms] by (simp_all add: pending_count_def pending_size_def)

lemma frames_okD:
  assumes "frames_ok s"
  shows "finite (dom (kc_pending s))" "kc_pending_frames s = pending_count UNIV (kc_pending s)"
    "kc_pending_bytes s = pending_size UNIV (kc_pending s)"
  using assms by (simp_all add: frames_ok_def)

lemma drop_frames_ok:
  assumes "frames_ok s" "kc_pending s k = Some e" "pk_frames e = gone @ left"
    and "kc_pending s' = (kc_pending s)(k \<mapsto> e\<lparr>pk_frames := left\<rparr>) \<or> left = [] \<and> kc_pending s' = map_remove k (kc_pending s)"
    and "kc_pending_frames s' = kc_pending_frames s - length gone" "kc_pending_bytes s' = kc_pending_bytes s - frame_bytes gone"
  shows "frames_ok s'"
proof -
  let ?m = "kc_pending s"
  note F = frames_okD [OF assms(1)]
  note split = pending_sums_split [OF F(1) assms(2)]
  have sums: "pending_count S (kc_pending s') = pending_count S (map_remove k ?m) + (if k \<in> S then length left else 0)"
    "pending_size S (kc_pending s') = pending_size S (map_remove k ?m) + (if k \<in> S then frame_bytes left else 0)" for S
    using assms(4) by (auto simp: pending_sums_upd [OF F(1), of _ k])
  show ?thesis
  proof (rule frames_ok_le [OF assms(1)])
    show "finite (dom (kc_pending s'))" using assms(4) F(1) by auto
    show "kc_pending_frames s' = pending_count UNIV (kc_pending s')" "kc_pending_bytes s' = pending_size UNIV (kc_pending s')"
      unfolding sums assms(5,6) F(2,3) split assms(3) by simp_all
    show "pending_count S (kc_pending s') \<le> pending_count S ?m \<and> pending_size S (kc_pending s') \<le> pending_size S ?m" for S
      unfolding sums split assms(3) by simp
  qed
qed

lemma remove_pending_simps [simp]:
  "kc_resolved (snd (remove_pending k s)) = kc_resolved s" "kc_acknowledged (snd (remove_pending k s)) = kc_acknowledged s"
  "kc_announced_inbound (snd (remove_pending k s)) = kc_announced_inbound s" "kc_sessions (snd (remove_pending k s)) = kc_sessions s"
  "kc_pending (snd (remove_pending k s)) = map_remove k (kc_pending s)" "kc_stats (snd (remove_pending k s)) = kc_stats s"
  by (simp_all add: remove_pending_def map_remove_absent split: option.split)

lemma remove_pending_frames_ok: "frames_ok s \<Longrightarrow> frames_ok (snd (remove_pending k s))"
proof (cases "kc_pending s k")
  case (Some e)
  assume "frames_ok s"
  then show ?thesis using Some by (rule drop_frames_ok [where gone = "pk_frames e" and left = "[]"]) (simp_all add: Some remove_pending_def)
qed (simp add: remove_pending_def)

lemma remove_pending_ok:
  assumes "key_cache_ok E s"
  shows "key_cache_ok E (snd (remove_pending k s))"
proof (rule key_cache_okI)
  note K = key_cache_okD [OF assms]
  show "frames_ok (snd (remove_pending k s))" by (rule remove_pending_frames_ok [OF K(5)])
  show "frames_live (snd (remove_pending k s))"
    by (rule frames_liveI, rule conjI) (use frames_liveD [OF K(6)] in \<open>simp_all split: if_splits\<close>)
qed (use key_cache_okD [OF assms] in simp_all)

lemma queue_ok_minus: "queue_ok q \<Longrightarrow> queue_ok (q - A)"
  by (auto simp: queue_ok_def intro: order_trans [OF card_mono])

lemma expire_key_ok:
  assumes "key_cache_ok E s"
  shows "key_cache_ok E (expire_key now k s)"
proof (cases "kc_pending s k")
  case None
  then show ?thesis using assms by (simp add: expire_key_def)
next
  case (Some e)
  note K = key_cache_okD [OF assms]
  define gone where "gone = takeWhile (frame_expired now) (pk_frames e)"
  define left where "left = dropWhile (frame_expired now) (pk_frames e)"
  have fr: "pk_frames e = gone @ left" by (simp add: gone_def left_def)
  define s1 where "s1 = bump ks_pending_timeouts_update (length gone)
    (s\<lparr>kc_pending := (kc_pending s)(k \<mapsto> e\<lparr>pk_frames := left\<rparr>), kc_pending_frames := kc_pending_frames s - length gone,
       kc_pending_bytes := kc_pending_bytes s - frame_bytes gone\<rparr>)"
  have s1: "key_cache_ok E s1"
  proof (rule key_cache_okI)
    show "frames_ok s1" using K(5) Some fr by (rule drop_frames_ok) (simp_all add: s1_def)
    show "frames_live s1"
    proof (rule frames_liveI)
      fix k' e'
      assume *: "kc_pending s1 k' = Some e'" "pk_frames e' \<noteq> []"
      show "pk_requested e' \<and> live_at (kc_sessions s1) (fst k') (fst (snd k'))"
      proof (cases "k' = k")
        case True
        then have "e' = e\<lparr>pk_frames := left\<rparr>" using *(1) by (simp add: s1_def)
        then show ?thesis using frames_liveD [OF K(6) Some] *(2) fr True by (simp add: s1_def)
      next
        case False
        then show ?thesis using frames_liveD [OF K(6), of k' e'] * by (simp add: s1_def)
      qed
    qed
  qed (use K in \<open>simp_all add: s1_def\<close>)
  show ?thesis
  proof (cases "left = []")
    case False
    then show ?thesis using s1 unfolding expire_key_def Some option.case Let_def gone_def [symmetric] left_def [symmetric] s1_def [symmetric] by simp
  next
    case True
    define s2 where "s2 = s1\<lparr>kc_pending := map_remove k (kc_pending s1)\<rparr>"
    have s2: "key_cache_ok E s2"
    proof (rule key_cache_okI)
      show "frames_ok s2" using K(5) Some fr by (rule drop_frames_ok) (auto simp: True s1_def s2_def fun_eq_iff)
      show "frames_live s2"
        by (rule frames_liveI, rule conjI) (use frames_liveD [OF key_cache_okD(6) [OF s1]] in \<open>simp_all add: s2_def split: if_splits\<close>)
    qed (use key_cache_okD [OF s1] in \<open>simp_all add: s2_def\<close>)
    have eq: "expire_key now k s =
        (case kc_sessions s2 (fst k) of
           None \<Rightarrow> s2
         | Some st \<Rightarrow> if ss_generation st = fst (snd k)
             then put_session \<lparr>as_peer = fst k, as_generation = fst (snd k)\<rparr> (st\<lparr>ss_queued_requests := ss_queued_requests st - {snd (snd k)}\<rparr>) s2
             else s2)"
      unfolding expire_key_def Some option.case Let_def gone_def [symmetric] left_def [symmetric] s1_def [symmetric] s2_def [symmetric]
        put_session_def
      by (simp add: True split: option.split)
    show ?thesis
    proof (cases "live_session \<lparr>as_peer = fst k, as_generation = fst (snd k)\<rparr> s2")
      case None
      then have "expire_key now k s = s2" unfolding eq by (auto simp: live_session_def split: option.splits if_splits)
      then show ?thesis using s2 by simp
    next
      case (Some st)
      have "session_ok st" by (rule live_session_ok [OF s2 Some])
      then have "session_ok (st\<lparr>ss_queued_requests := ss_queued_requests st - {snd (snd k)}\<rparr>)"
        by (simp add: session_ok_def queue_ok_minus)
      from put_session_ok [OF s2 Some this] show ?thesis
        using Some unfolding eq by (simp add: live_session_Some)
    qed
  qed
qed

lemma expire_ok: "key_cache_ok E s \<Longrightarrow> key_cache_ok E (expire E now s)"
  unfolding expire_def by (rule fold_invariant) (simp_all add: expire_key_ok)

subsection \<open>Sessions\<close>

lemma fold_remove_pending:
  "kc_pending (fold (\<lambda>k s. snd (remove_pending k s)) ks s) k = (if k \<in> set ks then None else kc_pending s k)"
  by (induction ks arbitrary: s) auto

lemma fold_remove_pending_simps [simp]:
  "kc_resolved (fold (\<lambda>k s. snd (remove_pending k s)) ks s) = kc_resolved s"
  "kc_acknowledged (fold (\<lambda>k s. snd (remove_pending k s)) ks s) = kc_acknowledged s"
  "kc_announced_inbound (fold (\<lambda>k s. snd (remove_pending k s)) ks s) = kc_announced_inbound s"
  "kc_sessions (fold (\<lambda>k s. snd (remove_pending k s)) ks s) = kc_sessions s"
  by (induction ks arbitrary: s) simp_all

lemma lru_forget_fits:
  assumes "lru_map A" "lru_fits A n l"
  shows "lru_fits A n (lru_forget A p l)"
    and "set (lru_iter A (lru_forget A p l)) = {x \<in> set (lru_iter A l). fst (fst x) \<noteq> p}"
proof -
  show "lru_fits A n (lru_forget A p l)" unfolding lru_forget_def by (rule lru_map.pops_fit(1) [OF assms])
  have "lru_iter A (lru_forget A p l) =
      filter (\<lambda>x. fst x \<notin> set (filter (\<lambda>key. fst key = p) (map fst (lru_iter A l)))) (lru_iter A l)"
    unfolding lru_forget_def by (rule lru_map.pops_fit(2) [OF assms(1)])
  then show "set (lru_iter A (lru_forget A p l)) = {x \<in> set (lru_iter A l). fst (fst x) \<noteq> p}" by auto
qed

lemma clear_peer_view:
  assumes "key_env_ok E" "frames_ok s"
  shows "kc_sessions (clear_peer E p s) = map_remove p (kc_sessions s)"
    and "kc_pending (clear_peer E p s) k = (if fst k = p then None else kc_pending s k)"
    and "kc_resolved (clear_peer E p s) = kc_resolved s"
    and "kc_acknowledged (clear_peer E p s) = lru_forget (ke_acks E) p (kc_acknowledged s)"
    and "kc_announced_inbound (clear_peer E p s) = lru_forget (ke_acks E) p (kc_announced_inbound s)"
proof -
  have it: "iterates (ke_pending_order E (kc_pending s)) (kc_pending s)"
    using key_env_okD(3) [OF assms(1)] frames_okD(1) [OF assms(2)] .
  then have "k \<in> set (ke_pending_order E (kc_pending s)) \<longleftrightarrow> kc_pending s k \<noteq> None" by (rule iterates_mem)
  then show "kc_pending (clear_peer E p s) k = (if fst k = p then None else kc_pending s k)"
    by (auto simp: clear_peer_def Let_def fold_remove_pending)
qed (simp_all add: clear_peer_def Let_def)

lemma clear_peer_ok:
  assumes "key_env_ok E" "key_cache_ok E s"
  shows "key_cache_ok E (clear_peer E p s)"
proof (rule key_cache_okI)
  note K = key_cache_okD [OF assms(2)]
  note V = clear_peer_view [OF assms(1) K(5), of p]
  note A = key_env_okD(2) [OF assms(1)]
  show "authentic_keys E (kc_resolved (clear_peer E p s))" using K(1) by (simp add: V)
  show "lru_fits (ke_acks E) 4096 (kc_acknowledged (clear_peer E p s))" "lru_fits (ke_acks E) 4096 (kc_announced_inbound (clear_peer E p s))"
    unfolding V(4,5) by (rule lru_forget_fits(1) [OF A K(2)], rule lru_forget_fits(1) [OF A K(3)])
  have fin: "finite (dom (kc_sessions s))" using K(4) by (simp add: sessions_ok_def)
  have "card (dom (kc_sessions s) - {p}) \<le> card (dom (kc_sessions s))" using fin by (intro card_mono) auto
  then show "sessions_ok (kc_sessions (clear_peer E p s))" using K(4) by (auto simp: V sessions_ok_def)
  let ?s = "s\<lparr>kc_sessions := map_remove p (kc_sessions s)\<rparr>"
  have "frames_ok ?s" by (rule frames_same [OF _ _ _ K(5)]) simp_all
  then have "frames_ok (fold (\<lambda>k s. snd (remove_pending k s)) ks ?s)" for ks
    by (rule fold_invariant) (rule remove_pending_frames_ok)
  then show "frames_ok (clear_peer E p s)"
    unfolding clear_peer_def Let_def by (rule frames_same [rotated 3]) simp_all
  show "frames_live (clear_peer E p s)"
  proof (rule frames_liveI)
    fix k e
    assume *: "kc_pending (clear_peer E p s) k = Some e" "pk_frames e \<noteq> []"
    then have "fst k \<noteq> p" "kc_pending s k = Some e" by (auto simp: V(2) split: if_splits)
    then show "pk_requested e \<and> live_at (kc_sessions (clear_peer E p s)) (fst k) (fst (snd k))"
      using frames_liveD [OF K(6), of k e] *(2) by (simp add: V(1) live_at_def)
  qed
qed

lemma session_new_ok: "session_ok (session_new E g now)"
  by (simp add: session_ok_def session_new_def queue_ok_def)

lemma observe_session_ok:
  assumes "key_env_ok E" "key_cache_ok E s"
  shows "key_cache_ok E (observe_session E ses now s)"
proof (cases "live_session ses s")
  case (Some st)
  then show ?thesis using assms(2) by (simp add: observe_session_def)
next
  case None
  let ?p = "as_peer ses"
  define s1 where "s1 = (if kc_sessions s ?p \<noteq> None then clear_peer E ?p s else s)"
  have s1: "key_cache_ok E s1" by (simp add: s1_def assms clear_peer_ok)
  note K = key_cache_okD [OF s1]
  have free: "kc_sessions s1 ?p = None" and no: "\<And>k e. kc_pending s1 k = Some e \<Longrightarrow> pk_frames e \<noteq> [] \<Longrightarrow> fst k \<noteq> ?p"
  proof -
    show "kc_sessions s1 ?p = None"
      using clear_peer_view(1) [OF assms(1) key_cache_okD(5) [OF assms(2)], of ?p] by (simp add: s1_def)
    then show "kc_pending s1 k = Some e \<Longrightarrow> pk_frames e \<noteq> [] \<Longrightarrow> fst k \<noteq> ?p" for k e
      using frames_liveD [OF K(6), of k e] by (auto simp: live_at_def)
  qed
  have obs: "observe_session E ses now s =
      (if card (dom (kc_sessions s1)) < MAX_SESSIONS then put_session ses (session_new E (as_generation ses) now) s1 else s1)"
    using None by (simp add: observe_session_def s1_def Let_def)
  show ?thesis
  proof (cases "card (dom (kc_sessions s1)) < MAX_SESSIONS")
    case False
    then show ?thesis using s1 obs by simp
  next
    case True
    let ?s = "put_session ses (session_new E (as_generation ses) now) s1"
    have "key_cache_ok E ?s"
    proof (rule key_cache_okI)
      have "finite (dom (kc_sessions s1))" using K(4) by (simp add: sessions_ok_def)
      then show "sessions_ok (kc_sessions ?s)" using K(4) True free session_new_ok by (auto simp: sessions_ok_def card_insert_if)
      show "frames_ok ?s" by (rule frames_same [OF _ _ _ K(5)]) simp_all
      show "frames_live ?s"
      proof (rule frames_liveI)
        fix k e
        assume *: "kc_pending ?s k = Some e" "pk_frames e \<noteq> []"
        then have "fst k \<noteq> ?p" "kc_pending s1 k = Some e" using no by simp_all
        then show "pk_requested e \<and> live_at (kc_sessions ?s) (fst k) (fst (snd k))"
          using frames_liveD [OF K(6), of k e] *(2) by (simp add: live_at_def)
      qed
    qed (use K in simp_all)
    then show ?thesis using True obs by simp
  qed
qed

lemma forget_stale_ok: "key_env_ok E \<Longrightarrow> key_cache_ok E s \<Longrightarrow> key_cache_ok E (forget_stale E ses s)"
  by (simp add: forget_stale_def clear_peer_ok)

lemma set_acknowledged_ok:
  "key_cache_ok E s \<Longrightarrow> lru_fits (ke_acks E) 4096 l \<Longrightarrow> key_cache_ok E (s\<lparr>kc_acknowledged := l\<rparr>)"
  using frames_same [of "s\<lparr>kc_acknowledged := l\<rparr>" s] frames_live_same [of s "s\<lparr>kc_acknowledged := l\<rparr>"]
  by (simp add: key_cache_ok_def)

lemma set_announced_ok:
  "key_cache_ok E s \<Longrightarrow> lru_fits (ke_acks E) 4096 l \<Longrightarrow> key_cache_ok E (s\<lparr>kc_announced_inbound := l\<rparr>)"
  using frames_same [of "s\<lparr>kc_announced_inbound := l\<rparr>" s] frames_live_same [of s "s\<lparr>kc_announced_inbound := l\<rparr>"]
  by (simp add: key_cache_ok_def)

lemma set_resolved_ok:
  "key_cache_ok E s \<Longrightarrow> authentic_keys E l \<Longrightarrow> key_cache_ok E (s\<lparr>kc_resolved := l\<rparr>)"
  using frames_same [of "s\<lparr>kc_resolved := l\<rparr>" s] frames_live_same [of s "s\<lparr>kc_resolved := l\<rparr>"]
  by (simp add: key_cache_ok_def)

lemma supports_ref_ok: "key_env_ok E \<Longrightarrow> key_cache_ok E s \<Longrightarrow> key_cache_ok E (snd (supports_ref E ses signer s))"
  by (simp add: supports_ref_def prod.case_eq_if set_acknowledged_ok lru_map.get_fits(3) [OF key_env_okD(2) key_cache_okD(2)])

lemma received_hello_ok: "key_cache_ok E s \<Longrightarrow> key_cache_ok E (received_hello ses s)"
  using live_session_ok by (fastforce simp: received_hello_def session_ok_def intro: put_session_ok split: option.split)

lemma push_acks_fit:
  "lru_map A \<Longrightarrow> lru_fits A 4096 l \<Longrightarrow> lru_fits A 4096 (fold (\<lambda>key l. snd (lru_push A (f key) () l)) keys l)"
  by (rule fold_invariant) (auto intro: lru_map.push_fits(1))

lemma acknowledge_ok: "key_env_ok E \<Longrightarrow> key_cache_ok E s \<Longrightarrow> key_cache_ok E (acknowledge E ses keys s)"
  using push_acks_fit [OF key_env_okD(2) key_cache_okD(2)] by (auto simp: acknowledge_def intro!: set_acknowledged_ok)

end
