(* ===== verification/Key_Steps.thy ===== *)
theory Key_Steps
  imports Key_Books
begin

text \<open>
  The remaining operations of the sender key cache keep its invariant: keys that are learned, frames that
  arrive before their key, and the control messages in both directions.
\<close>

subsection \<open>Keys\<close>

lemma authentic_push:
  assumes "key_env_ok E" "authentic_keys E l" "length k = KEY_BYTES" "key_id_of (ke_postcard E) k = i"
  shows "authentic_keys E (snd (lru_push (ke_resolved E) i k l))"
proof -
  have fit: "lru_fits (ke_resolved E) 2048 l" using assms(2) by (simp add: authentic_keys_def)
  note P = lru_map.push_fits [OF key_env_okD(1) [OF assms(1)] fit, of i k]
  have "length k' = KEY_BYTES \<and> key_id_of (ke_postcard E) k' = i'"
    if "(i', k') \<in> set (lru_iter (ke_resolved E) (snd (lru_push (ke_resolved E) i k l)))" for i' k'
    using that P(2) assms(2-4) by (auto simp: authentic_keys_def)
  then show ?thesis using P(1) by (simp add: authentic_keys_def)
qed

lemma authentic_get:
  assumes "key_env_ok E" "authentic_keys E l"
  shows "authentic_keys E (snd (lru_get (ke_resolved E) i l))"
    and "fst (lru_get (ke_resolved E) i l) = Some k \<Longrightarrow> length k = KEY_BYTES \<and> key_id_of (ke_postcard E) k = i"
proof -
  note G = lru_map.get_fits [OF key_env_okD(1) [OF assms(1)]]
  show "authentic_keys E (snd (lru_get (ke_resolved E) i l))"
    using assms(2) G(2) G(3) [of 2048 l i] by (simp add: authentic_keys_def)
  show "fst (lru_get (ke_resolved E) i l) = Some k \<Longrightarrow> length k = KEY_BYTES \<and> key_id_of (ke_postcard E) k = i"
    using assms(2) G(1) by (auto simp: authentic_keys_def dest: map_of_SomeD)
qed

lemma queue_ok_insert: "queue_ok q \<Longrightarrow> card q < MAX_QUEUED_IDS_PER_SESSION \<Longrightarrow> queue_ok (insert i q)"
  by (auto simp: queue_ok_def card_insert_if)

lemma queue_ok_fold:
  "queue_ok q \<Longrightarrow> queue_ok (fold (\<lambda>i q. if b i \<and> card q < MAX_QUEUED_IDS_PER_SESSION then insert i q else q) ids q)"
  by (rule fold_invariant) (auto intro: queue_ok_insert)

lemma queue_ok_requeue: "queue_ok q \<Longrightarrow> queue_ok (requeue ids q)"
  using queue_ok_fold [of q "\<lambda>_. True" ids] by (simp add: requeue_def)

lemma note_verified_key_ok:
  assumes "key_env_ok E" "key_cache_ok E s"
  shows "key_cache_ok E (note_verified_key E i k session s)"
proof (cases "length k \<noteq> KEY_BYTES \<or> key_id_of (ke_postcard E) k \<noteq> i")
  case True
  then show ?thesis using assms(2) by (simp add: note_verified_key_def bump_ok)
next
  case False
  let ?R = "ke_resolved E" and ?A = "ke_acks E"
  define s1 where "s1 = (if lru_peek ?R i (kc_resolved s) = None \<and> lru_len ?R (kc_resolved s) = lru_cap ?R (kc_resolved s)
    then bump ks_cache_evictions_update 1 s else s)"
  define s2 where "s2 = s1\<lparr>kc_resolved := snd (lru_push ?R i k (kc_resolved s1))\<rparr>"
  have s1: "key_cache_ok E s1" using assms(2) by (simp add: s1_def bump_ok)
  have s2: "key_cache_ok E s2"
    unfolding s2_def by (rule set_resolved_ok [OF s1]) (use authentic_push [OF assms(1) key_cache_okD(1) [OF s1]] False in simp)
  show ?thesis
  proof (cases session)
    case None
    then have "note_verified_key E i k session s = s2" using False by (simp add: note_verified_key_def Let_def s1_def s2_def)
    then show ?thesis using s2 by simp
  next
    case (Some ses)
    define s3 where "s3 = s2\<lparr>kc_announced_inbound := snd (lru_push ?A (session_key ses i) () (kc_announced_inbound s2))\<rparr>"
    have s3: "key_cache_ok E s3"
      unfolding s3_def by (rule set_announced_ok [OF s2]) (simp add: lru_map.push_fits(1) [OF key_env_okD(2) [OF assms(1)] key_cache_okD(3) [OF s2]])
    have eq: "note_verified_key E i k session s =
        (case live_session ses s3 of
           None \<Rightarrow> s3
         | Some st \<Rightarrow>
             if lru_peek ?A (session_key ses i) (kc_announced_inbound s2) = None \<and> card (ss_queued_acks st) < MAX_QUEUED_IDS_PER_SESSION
             then put_session ses (st\<lparr>ss_queued_acks := insert i (ss_queued_acks st)\<rparr>) s3 else s3)"
      unfolding note_verified_key_def Let_def s1_def [symmetric] s2_def [symmetric] Some option.case s3_def [symmetric]
      by (subst if_not_P [OF False]) (rule refl)
    show ?thesis
    proof (cases "live_session ses s3")
      case None
      then show ?thesis using eq s3 by simp
    next
      case (Some st)
      have ok: "session_ok st" by (rule live_session_ok [OF s3 Some])
      show ?thesis
      proof (cases "card (ss_queued_acks st) < MAX_QUEUED_IDS_PER_SESSION")
        case True
        then have "session_ok (st\<lparr>ss_queued_acks := insert i (ss_queued_acks st)\<rparr>)"
          using ok queue_ok_insert by (simp add: session_ok_def)
        from put_session_ok [OF s3 Some this] show ?thesis using s3 by (simp add: eq Some)
      qed (use s3 in \<open>simp add: eq Some\<close>)
    qed
  qed
qed

lemma note_response_key_ok: "key_env_ok E \<Longrightarrow> key_cache_ok E s \<Longrightarrow> key_cache_ok E (snd (note_response_key E ses i k s))"
  by (simp add: note_response_key_def bump_ok note_verified_key_ok)

lemma lookup_key_ok: "key_env_ok E \<Longrightarrow> key_cache_ok E s \<Longrightarrow> key_cache_ok E (snd (lookup_key E i s))"
  by (simp add: lookup_key_def prod.case_eq_if bump_ok set_resolved_ok authentic_get(1) [OF _ key_cache_okD(1)])

lemma lookup_key_authentic:
  assumes "key_env_ok E" "key_cache_ok E s" "fst (lookup_key E i s) = Some k"
  shows "length k = KEY_BYTES \<and> key_id_of (ke_postcard E) k = i"
  using authentic_get(2) [OF assms(1) key_cache_okD(1) [OF assms(2)], of i k] assms(3)
  by (simp add: lookup_key_def prod.case_eq_if)

lemma take_pending_ok: "key_cache_ok E s \<Longrightarrow> key_cache_ok E (snd (take_pending ses i s))"
  by (simp add: take_pending_def prod.case_eq_if remove_pending_ok)

subsection \<open>Frames that arrive\<close>

lemma pending_sums_add:
  assumes "finite (dom m)"
  shows "pending_count S (m(k \<mapsto> \<lparr>pk_frames = pk_frames (get_or \<lparr>pk_frames = [], pk_requested = b\<rparr> m k) @ [f], pk_requested = c\<rparr>)) =
      pending_count S m + (if k \<in> S then 1 else 0)" (is "pending_count S (m(k \<mapsto> ?e)) = _")
    and "pending_size S (m(k \<mapsto> \<lparr>pk_frames = pk_frames (get_or \<lparr>pk_frames = [], pk_requested = b\<rparr> m k) @ [f], pk_requested = c\<rparr>)) =
      pending_size S m + (if k \<in> S then length (pf_bytes f) else 0)"
proof -
  note U = pending_sums_upd [OF assms]
  show "pending_count S (m(k \<mapsto> ?e)) = pending_count S m + (if k \<in> S then 1 else 0)"
  proof (cases "m k")
    case None
    then show ?thesis by (simp add: U(1) get_or_None map_remove_absent)
  next
    case (Some e)
    then show ?thesis by (simp add: U(1) get_or_Some pending_sums_split(1) [OF assms Some, of S])
  qed
  show "pending_size S (m(k \<mapsto> ?e)) = pending_size S m + (if k \<in> S then length (pf_bytes f) else 0)"
  proof (cases "m k")
    case None
    then show ?thesis by (simp add: U(2) get_or_None map_remove_absent frame_bytes_def)
  next
    case (Some e)
    then show ?thesis by (simp add: U(2) get_or_Some pending_sums_split(2) [OF assms Some, of S] frame_bytes_def)
  qed
qed

lemma add_frame_ok:
  assumes "key_cache_ok E s" "live_at (kc_sessions s) (fst k) (fst (snd k))"
    and "pending_count (of_session (fst k) (fst (snd k))) (kc_pending s) < MAX_PENDING_PER_SESSION"
    and "pending_size (of_session (fst k) (fst (snd k))) (kc_pending s) + length (pf_bytes f) \<le> MAX_PENDING_BYTES_PER_SESSION"
    and "kc_pending_frames s < MAX_PENDING_GLOBAL" "kc_pending_bytes s + length (pf_bytes f) \<le> MAX_PENDING_BYTES_GLOBAL"
    and new: "kc_pending s' = (kc_pending s)(k \<mapsto>
      \<lparr>pk_frames = pk_frames (get_or \<lparr>pk_frames = [], pk_requested = False\<rparr> (kc_pending s) k) @ [f], pk_requested = True\<rparr>)"
    and same: "kc_pending_frames s' = kc_pending_frames s + 1" "kc_pending_bytes s' = kc_pending_bytes s + length (pf_bytes f)"
      "kc_resolved s' = kc_resolved s" "kc_acknowledged s' = kc_acknowledged s"
      "kc_announced_inbound s' = kc_announced_inbound s" "kc_sessions s' = kc_sessions s"
  shows "key_cache_ok E s'"
proof (rule key_cache_okI)
  let ?m = "kc_pending s"
  note K = key_cache_okD [OF assms(1)]
  note F = frames_okD [OF K(5)]
  have sums: "pending_count S (kc_pending s') = pending_count S ?m + (if k \<in> S then 1 else 0)"
    "pending_size S (kc_pending s') = pending_size S ?m + (if k \<in> S then length (pf_bytes f) else 0)" for S
    unfolding new by (rule pending_sums_add(1) [OF F(1)], rule pending_sums_add(2) [OF F(1)])
  have own: "pending_count (of_session q h) ?m \<le> MAX_PENDING_PER_SESSION \<and> pending_size (of_session q h) ?m \<le> MAX_PENDING_BYTES_PER_SESSION" for q h
    using K(5) unfolding frames_ok_def by blast
  have bounds: "pending_count (of_session q h) (kc_pending s') \<le> MAX_PENDING_PER_SESSION \<and>
      pending_size (of_session q h) (kc_pending s') \<le> MAX_PENDING_BYTES_PER_SESSION" for q h
  proof (cases "q = fst k \<and> h = fst (snd k)")
    case True
    then show ?thesis using assms(3,4) unfolding sums by simp
  next
    case False
    then have "k \<notin> of_session q h" by (auto simp: of_session_def)
    then show ?thesis using own unfolding sums by simp
  qed
  have "finite (dom (kc_pending s'))" unfolding new using F(1) by simp
  moreover have "kc_pending_frames s' = pending_count UNIV (kc_pending s')" "kc_pending_bytes s' = pending_size UNIV (kc_pending s')"
    unfolding sums same using F(2,3) by simp_all
  moreover have "kc_pending_frames s' \<le> MAX_PENDING_GLOBAL" "kc_pending_bytes s' \<le> MAX_PENDING_BYTES_GLOBAL"
    unfolding same using assms(5,6) by simp_all
  ultimately show "frames_ok s'" unfolding frames_ok_def using bounds by blast
  show "frames_live s'"
  proof (rule frames_liveI)
    fix k' e
    assume *: "kc_pending s' k' = Some e" "pk_frames e \<noteq> []"
    show "pk_requested e \<and> live_at (kc_sessions s') (fst k') (fst (snd k'))"
    proof (cases "k' = k")
      case True
      then have "pk_requested e" using *(1) unfolding new by auto
      then show ?thesis using assms(2) True same by simp
    next
      case False
      then show ?thesis using * frames_liveD [OF K(6), of k' e] unfolding new same by simp
    qed
  qed
qed (use key_cache_okD [OF assms(1)] same in simp_all)

text \<open>What the expiry leaves: every entry that still has a frame, without its expired ones.\<close>

definition unexpired_entry :: "instant \<Rightarrow> PendingKey \<Rightarrow> PendingKey option" where
  "unexpired_entry now e =
     (let left = dropWhile (frame_expired now) (pk_frames e) in if left = [] then None else Some (e\<lparr>pk_frames := left\<rparr>))"

lemma expire_key_pending:
  "kc_pending (expire_key now k s) k' = (if k' = k then Option.bind (kc_pending s k) (unexpired_entry now) else kc_pending s k')"
  by (cases "kc_pending s k") (simp_all add: expire_key_def unexpired_entry_def Let_def split: option.split)

lemma fold_expire_pending:
  "distinct ks \<Longrightarrow> kc_pending (fold (expire_key now) ks s) k =
     (if k \<in> set ks then Option.bind (kc_pending s k) (unexpired_entry now) else kc_pending s k)"
  by (induction ks arbitrary: s) (auto simp: expire_key_pending)

lemma expire_pending:
  assumes "key_env_ok E" "key_cache_ok E s"
  shows "kc_pending (expire E now s) k = Option.bind (kc_pending s k) (unexpired_entry now)"
proof -
  have it: "iterates (ke_pending_order E (kc_pending s)) (kc_pending s)"
    by (rule key_env_okD(3) [OF assms(1) frames_okD(1) [OF key_cache_okD(5) [OF assms(2)]]])
  then have "distinct (ke_pending_order E (kc_pending s))" by (simp add: iterates_def)
  then show ?thesis unfolding expire_def using iterates_mem [OF it, of k] by (auto simp: fold_expire_pending)
qed

lemma expire_nonempty:
  assumes "key_env_ok E" "key_cache_ok E s" "kc_pending (expire E now s) k = Some e"
  shows "pk_requested e \<and> live_at (kc_sessions (expire E now s)) (fst k) (fst (snd k))"
proof -
  have "pk_frames e \<noteq> []"
    using assms(3) unfolding expire_pending [OF assms(1,2)] by (auto simp: bind_eq_Some_conv unexpired_entry_def Let_def split: if_splits)
  then show ?thesis by (rule frames_liveD [OF key_cache_okD(6) [OF expire_ok [OF assms(2)]] assms(3)])
qed

lemma sat_add_leD: "\<not> n < u64_sat_add a b \<Longrightarrow> n < u64_max \<Longrightarrow> a + b \<le> n"
  by (auto simp: u64_sat_add_def min_def split: if_splits)

lemma session_sums:
  assumes "key_env_ok E" "key_cache_ok E s"
  shows "sum_list (map (\<lambda>e. length (pk_frames e)) (session_entries E ses s)) =
      pending_count (of_session (as_peer ses) (as_generation ses)) (kc_pending s)"
    and "sum_list (map (\<lambda>e. frame_bytes (pk_frames e)) (session_entries E ses s)) =
      pending_size (of_session (as_peer ses) (as_generation ses)) (kc_pending s)"
proof -
  have it: "iterates (ke_pending_order E (kc_pending s)) (kc_pending s)"
    by (rule key_env_okD(3) [OF assms(1) frames_okD(1) [OF key_cache_okD(5) [OF assms(2)]]])
  show "sum_list (map (\<lambda>e. length (pk_frames e)) (session_entries E ses s)) =
      pending_count (of_session (as_peer ses) (as_generation ses)) (kc_pending s)"
    "sum_list (map (\<lambda>e. frame_bytes (pk_frames e)) (session_entries E ses s)) =
      pending_size (of_session (as_peer ses) (as_generation ses)) (kc_pending s)"
    unfolding session_entries_def pending_count_def pending_size_def of_session_def by (rule ssum_list [OF it])+
qed

lemma request_key_ok:
  assumes "key_cache_ok E s"
  shows "key_cache_ok E (snd (request_key ses i e s))"
proof (cases "live_session ses s")
  case (Some st)
  have "session_ok st" by (rule live_session_ok [OF assms Some])
  then have "session_ok (st\<lparr>ss_queued_requests := insert i (ss_queued_requests st)\<rparr>)"
    if "card (ss_queued_requests st) < MAX_QUEUED_IDS_PER_SESSION"
    using that by (simp add: session_ok_def queue_ok_insert)
  then show ?thesis using put_session_ok [OF assms Some] assms by (simp add: request_key_def Some)
qed (simp add: request_key_def assms)

lemma request_key_frame:
  "kc_pending (snd (request_key ses i e s)) = kc_pending s" "kc_resolved (snd (request_key ses i e s)) = kc_resolved s"
  "kc_pending_frames (snd (request_key ses i e s)) = kc_pending_frames s"
  "kc_pending_bytes (snd (request_key ses i e s)) = kc_pending_bytes s"
  by (simp_all add: request_key_def split: option.split)

lemma request_key_live:
  assumes "fst (request_key ses i e s)" "pk_requested e \<Longrightarrow> live_at (kc_sessions s) (as_peer ses) (as_generation ses)"
  shows "live_at (kc_sessions (snd (request_key ses i e s))) (as_peer ses) (as_generation ses)"
  using assms by (auto simp: request_key_def live_at_def live_session_Some split: option.splits if_splits)

text \<open>A frame that is not kept is dropped by a limit; its key is then not pending, or pending with no frame.\<close>

lemma set_empty_pending_ok:
  assumes "key_cache_ok E s" "kc_pending s k = None" "pk_frames e = []"
  shows "key_cache_ok E (s\<lparr>kc_pending := (kc_pending s)(k \<mapsto> e)\<rparr>)" (is "key_cache_ok E ?s")
proof (rule key_cache_okI)
  note K = key_cache_okD [OF assms(1)]
  note F = frames_okD [OF K(5)]
  have "pending_count S (kc_pending ?s) = pending_count S (kc_pending s)" "pending_size S (kc_pending ?s) = pending_size S (kc_pending s)" for S
    by (simp_all add: pending_sums_upd [OF F(1)] map_remove_absent assms(2,3))
  then show "frames_ok ?s" using K(5) unfolding frames_ok_def by simp
  show "frames_live ?s"
  proof (rule frames_liveI)
    fix k' e'
    assume *: "kc_pending ?s k' = Some e'" "pk_frames e' \<noteq> []"
    then have "k' \<noteq> k" using assms(3) by auto
    then show "pk_requested e' \<and> live_at (kc_sessions ?s) (fst k') (fst (snd k'))"
      using * frames_liveD [OF K(6), of k' e'] by simp
  qed
qed (use key_cache_okD [OF assms(1)] in simp_all)

definition no_frames :: PendingKey where
  "no_frames = \<lparr>pk_frames = [], pk_requested = False\<rparr>"

lemma pending_key_rebuild: "e\<lparr>pk_requested := b, pk_frames := fs\<rparr> = \<lparr>pk_frames = fs, pk_requested = b\<rparr>"
  by (cases e) simp

lemma queue_miss_True:
  assumes "fst (queue_miss E ses i data now s0)"
  defines "s \<equiv> expire E now s0" and "k \<equiv> session_key ses i" and "s' \<equiv> snd (queue_miss E ses i data now s0)"
  defines "e \<equiv> get_or no_frames (kc_pending s) k"
  defines "s1 \<equiv> snd (request_key ses i e s)"
  shows "fst (request_key ses i e s)"
    and "sum_list (map (\<lambda>e. length (pk_frames e)) (session_entries E ses s)) < MAX_PENDING_PER_SESSION"
    and "sum_list (map (\<lambda>e. frame_bytes (pk_frames e)) (session_entries E ses s)) + length data \<le> MAX_PENDING_BYTES_PER_SESSION"
    and "kc_pending_frames s < MAX_PENDING_GLOBAL" "kc_pending_bytes s + length data \<le> MAX_PENDING_BYTES_GLOBAL"
    and "kc_pending s' = (kc_pending s1)(k \<mapsto> \<lparr>pk_frames = pk_frames e @ [\<lparr>pf_bytes = data, pf_received_at = now\<rparr>], pk_requested = True\<rparr>)"
    and "kc_pending_frames s' = kc_pending_frames s1 + 1" "kc_pending_bytes s' = kc_pending_bytes s1 + length data"
    and "kc_resolved s' = kc_resolved s1" "kc_acknowledged s' = kc_acknowledged s1"
    and "kc_announced_inbound s' = kc_announced_inbound s1" "kc_sessions s' = kc_sessions s1"
proof -
  have big: "MAX_PENDING_BYTES_PER_SESSION < u64_max" "MAX_PENDING_BYTES_GLOBAL < u64_max"
    by (simp_all add: MAX_PENDING_BYTES_PER_SESSION_def MAX_PENDING_BYTES_GLOBAL_def u64_max_def)
  note Q = queue_miss_def [of E ses i data now s0, folded no_frames_def, unfolded Let_def prod.case_eq_if,
      folded s_def k_def, folded e_def, folded s1_def]
  have pass: "\<not> (sum_list (map (\<lambda>e. length (pk_frames e)) (session_entries E ses s)) \<ge> MAX_PENDING_PER_SESSION \<or>
      u64_sat_add (sum_list (map (\<lambda>e. frame_bytes (pk_frames e)) (session_entries E ses s))) (length data) > MAX_PENDING_BYTES_PER_SESSION)"
    "\<not> (kc_pending_frames s \<ge> MAX_PENDING_GLOBAL \<or> u64_sat_add (kc_pending_bytes s) (length data) > MAX_PENDING_BYTES_GLOBAL)"
    and req: "fst (request_key ses i e s)"
    using assms(1) unfolding Q by (simp_all split: if_splits)
  show "fst (request_key ses i e s)" by (rule req)
  show "sum_list (map (\<lambda>e. length (pk_frames e)) (session_entries E ses s)) < MAX_PENDING_PER_SESSION" "kc_pending_frames s < MAX_PENDING_GLOBAL"
    using pass by simp_all
  show "sum_list (map (\<lambda>e. frame_bytes (pk_frames e)) (session_entries E ses s)) + length data \<le> MAX_PENDING_BYTES_PER_SESSION"
    "kc_pending_bytes s + length data \<le> MAX_PENDING_BYTES_GLOBAL"
    using pass big sat_add_leD by blast+
  have eq: "s' = s1\<lparr>kc_pending := (kc_pending s1)(k \<mapsto> \<lparr>pk_frames = pk_frames e @ [\<lparr>pf_bytes = data, pf_received_at = now\<rparr>], pk_requested = True\<rparr>),
      kc_pending_frames := kc_pending_frames s1 + 1, kc_pending_bytes := kc_pending_bytes s1 + length data, kc_stats := kc_stats s'\<rparr>"
    unfolding s'_def Q if_not_P [OF pass(1)] if_not_P [OF pass(2)] using req by (simp add: pending_key_rebuild)
  show "kc_pending s' = (kc_pending s1)(k \<mapsto> \<lparr>pk_frames = pk_frames e @ [\<lparr>pf_bytes = data, pf_received_at = now\<rparr>], pk_requested = True\<rparr>)"
    "kc_pending_frames s' = kc_pending_frames s1 + 1" "kc_pending_bytes s' = kc_pending_bytes s1 + length data"
    "kc_resolved s' = kc_resolved s1" "kc_acknowledged s' = kc_acknowledged s1"
    "kc_announced_inbound s' = kc_announced_inbound s1" "kc_sessions s' = kc_sessions s1"
    by (subst eq; simp)+
qed

lemma request_key_False: "\<not> fst (request_key ses i e s) \<Longrightarrow> request_key ses i e s = (False, s) \<and> \<not> pk_requested e"
  by (auto simp: request_key_def split: option.splits if_splits)

lemma queue_miss_False:
  assumes "\<not> fst (queue_miss E ses i data now s0)"
  defines "s \<equiv> expire E now s0" and "k \<equiv> session_key ses i"
  defines "e \<equiv> get_or no_frames (kc_pending s) k"
  shows "(\<exists>c. snd (queue_miss E ses i data now s0) = bump c 1 s) \<or>
    (request_key ses i e s = (False, s) \<and> \<not> pk_requested e \<and>
     (\<exists>c. snd (queue_miss E ses i data now s0) = bump c 1 (s\<lparr>kc_pending := (kc_pending s)(k \<mapsto> e\<lparr>pk_requested := False\<rparr>)\<rparr>)))"
proof -
  note Q = queue_miss_def [of E ses i data now s0, folded no_frames_def, unfolded Let_def prod.case_eq_if,
      folded s_def k_def, folded e_def]
  show ?thesis
  proof (cases "fst (request_key ses i e s)")
    case True
    then show ?thesis using assms(1) unfolding Q by (auto split: if_splits)
  next
    case False
    then show ?thesis using request_key_False [OF False] unfolding Q by auto
  qed
qed

lemma queue_miss_ok:
  assumes "key_env_ok E" "key_cache_ok E s0"
  shows "key_cache_ok E (snd (queue_miss E ses i data now s0))"
proof -
  define s where "s = expire E now s0"
  define k where "k = session_key ses i"
  define e where "e = get_or no_frames (kc_pending s) k"
  have s: "key_cache_ok E s" by (simp add: s_def expire_ok assms(2))
  have kd: "fst k = as_peer ses" "fst (snd k) = as_generation ses" by (simp_all add: k_def session_key_def)
  have live: "live_at (kc_sessions s) (as_peer ses) (as_generation ses) \<and> pk_requested e'" if "kc_pending s k = Some e'" for e'
    using expire_nonempty [OF assms, of now k e'] that kd by (simp add: s_def)
  show ?thesis
  proof (cases "fst (queue_miss E ses i data now s0)")
    case True
    note Q = queue_miss_True [OF True, folded s_def k_def, folded e_def]
    define s1 where "s1 = snd (request_key ses i e s)"
    note R = request_key_frame [of ses i e s, folded s1_def]
    have s1: "key_cache_ok E s1" unfolding s1_def by (rule request_key_ok [OF s])
    have "live_at (kc_sessions s) (as_peer ses) (as_generation ses)" if "pk_requested e"
      using that live by (cases "kc_pending s k") (simp_all add: e_def no_frames_def get_or_None)
    then have "live_at (kc_sessions s1) (as_peer ses) (as_generation ses)"
      unfolding s1_def by (rule request_key_live [OF Q(1)])
    then show ?thesis
      using Q(2-) unfolding session_sums [OF assms(1) s] s1_def [symmetric]
      by (intro add_frame_ok [OF s1, of k "\<lparr>pf_bytes = data, pf_received_at = now\<rparr>"])
        (simp_all add: kd R e_def no_frames_def)
  next
    case False
    from queue_miss_False [OF this, folded s_def k_def, folded e_def] show ?thesis
    proof (elim disjE exE conjE)
      fix c
      assume "snd (queue_miss E ses i data now s0) = bump c 1 s"
      then show ?thesis using s by (simp add: bump_ok)
    next
      fix c
      assume "\<not> pk_requested e"
        and eq: "snd (queue_miss E ses i data now s0) = bump c 1 (s\<lparr>kc_pending := (kc_pending s)(k \<mapsto> e\<lparr>pk_requested := False\<rparr>)\<rparr>)"
      then have none: "kc_pending s k = None" using live by (cases "kc_pending s k") (auto simp: e_def get_or_Some)
      then have "pk_frames e = []" by (simp add: e_def get_or_None no_frames_def)
      then show ?thesis unfolding eq by (intro bump_ok set_empty_pending_ok [OF s none]) simp
    qed
  qed
qed

subsection \<open>Control messages\<close>

lemma consume_token_same:
  "ss_generation (snd (consume_token E now st)) = ss_generation st"
  "ss_queued_acks (snd (consume_token E now st)) = ss_queued_acks st"
  "ss_queued_requests (snd (consume_token E now st)) = ss_queued_requests st"
  "ss_queued_responses (snd (consume_token E now st)) = ss_queued_responses st"
  "ss_hello_sent (snd (consume_token E now st)) = ss_hello_sent st"
  "ss_hello_received (snd (consume_token E now st)) = ss_hello_received st"
  by (simp_all add: consume_token_def Let_def)

lemma response_entries_ok:
  assumes "key_env_ok E" "authentic_keys E l"
  shows "authentic_keys E (snd (response_entries E ids l))"
    and "(i, k) \<in> set (fst (response_entries E ids l)) \<Longrightarrow> i \<in> set ids \<and> length k = KEY_BYTES \<and> key_id_of (ke_postcard E) k = i"
  using assms(2)
proof (induction ids arbitrary: l)
  case (Cons j ids)
  note G = authentic_get [OF assms(1)]
  {
    case 1
    then show ?case using Cons(1) [OF G(1) [OF 1]] by (simp add: prod.case_eq_if)
  next
    case 2
    then show ?case
      using Cons(2) [OF _ G(1) [OF 2(2)]] G(2) [OF 2(2), of j] by (auto simp: prod.case_eq_if split: option.splits)
  }
qed simp_all

lemma queue_responses_ok:
  assumes "key_cache_ok E s"
  shows "key_cache_ok E (queue_responses E ses ids s)"
proof (cases "live_session ses s")
  case (Some st)
  let ?b = "\<lambda>i. lru_peek (ke_resolved E) i (kc_resolved s) \<noteq> None"
  have "session_ok st" by (rule live_session_ok [OF assms Some])
  then have "session_ok (st\<lparr>ss_queued_responses :=
      fold (\<lambda>i q. if ?b i \<and> card q < MAX_QUEUED_IDS_PER_SESSION then insert i q else q) ids (ss_queued_responses st)\<rparr>)"
    using queue_ok_fold [of "ss_queued_responses st" ?b ids] by (simp add: session_ok_def)
  then show ?thesis using put_session_ok [OF assms Some] by (simp add: queue_responses_def Some)
qed (simp add: queue_responses_def assms)

lemma next_control_ok:
  assumes "key_env_ok E" "key_cache_ok E s0"
  shows "key_cache_ok E (snd (next_control E ses now s0))"
proof -
  define s where "s = expire E now s0"
  have s: "key_cache_ok E s" by (simp add: s_def expire_ok assms(2))
  show ?thesis
  proof (cases "live_session ses s")
    case None
    then show ?thesis using s by (simp add: next_control_def s_def [symmetric])
  next
    case (Some st)
    define st1 where "st1 = snd (consume_token E now st)"
    note C = consume_token_same [of E now st, folded st1_def]
    have ok: "session_ok st" by (rule live_session_ok [OF s Some])
    have put: "session_ok st' \<Longrightarrow> ss_generation st' = ss_generation st \<Longrightarrow> key_cache_ok E (put_session ses st' s)" for st'
      by (rule put_session_ok [OF s Some])
    have steps: "key_cache_ok E (put_session ses st1 s)" "key_cache_ok E (put_session ses (st1\<lparr>ss_hello_pending := True\<rparr>) s)"
      "key_cache_ok E (put_session ses (st1\<lparr>ss_queued_requests := ss_queued_requests st1 - A\<rparr>) s)"
      "key_cache_ok E (put_session ses (st1\<lparr>ss_queued_responses := ss_queued_responses st1 - A\<rparr>) s)"
      "key_cache_ok E (put_session ses (st1\<lparr>ss_queued_acks := ss_queued_acks st1 - A\<rparr>) s)" for A
      by (rule put; use ok in \<open>simp add: session_ok_def C queue_ok_minus\<close>)+
    have resolve: "key_cache_ok E ((put_session ses (st1\<lparr>ss_queued_responses := ss_queued_responses st1 - A\<rparr>) s)
        \<lparr>kc_resolved := snd (response_entries E ids (kc_resolved s))\<rparr>)" for A ids
      by (rule set_resolved_ok [OF steps(4)]) (rule response_entries_ok(1) [OF assms(1) key_cache_okD(1) [OF s]])
    show ?thesis
      unfolding next_control_def s_def [symmetric] Let_def Some option.case prod.case_eq_if st1_def [symmetric] take_ids_def
      by (simp add: s steps resolve bump_ok)
  qed
qed

lemma control_result_ok:
  assumes "key_cache_ok E s"
  shows "key_cache_ok E (control_result ses control sent s)"
proof (cases "live_session ses s")
  case (Some st)
  have "session_ok st" by (rule live_session_ok [OF assms Some])
  then have "session_ok (st\<lparr>ss_hello_pending := b, ss_hello_sent := c\<rparr>)"
    "session_ok (st\<lparr>ss_queued_acks := requeue ids (ss_queued_acks st)\<rparr>)"
    "session_ok (st\<lparr>ss_queued_requests := requeue ids (ss_queued_requests st)\<rparr>)"
    "session_ok (st\<lparr>ss_queued_responses := requeue ids (ss_queued_responses st)\<rparr>)" for b c ids
    by (simp_all add: session_ok_def queue_ok_requeue)
  then show ?thesis using put_session_ok [OF assms Some] assms by (cases control) (simp_all add: control_result_def Some)
qed (simp add: control_result_def assms)

lemma accept_response_keys_ok:
  "key_env_ok E \<Longrightarrow> key_cache_ok E s \<Longrightarrow> key_cache_ok E (snd (accept_response_keys E ses es s))"
proof (induction es arbitrary: s)
  case (Cons x es)
  obtain i k where x: "x = (i, k)" by fastforce
  let ?n = "note_response_key E ses i k s"
  have n: "key_cache_ok E (snd ?n)" by (rule note_response_key_ok [OF Cons.prems])
  then have "key_cache_ok E (snd (take_pending ses i (snd ?n)))" by (rule take_pending_ok)
  then show ?case using Cons.IH [OF Cons.prems(1)] n unfolding x by (simp add: prod.case_eq_if)
qed simp

lemma apply_control_ok:
  assumes "key_env_ok E" "key_cache_ok E s"
  shows "key_cache_ok E (snd (apply_control E ses control now s))"
proof -
  have "key_cache_ok E (observe_session E ses now s)" by (rule observe_session_ok [OF assms])
  then show ?thesis
    by (cases control) (simp_all add: apply_control_def received_hello_ok acknowledge_ok queue_responses_ok accept_response_keys_ok assms(1))
qed

end
