(* ===== verification/Key_Frames.thy ===== *)
theory Key_Frames
  imports Key_Wire
begin

text \<open>
  What the wire part of the key cache promises: the lengths it parses are the ones \<open>postcard\<close> writes, a
  frame that passes the inspection has the announced shape and nothing more, every message that can be
  encoded is decoded again, and a control message always fits its cap.
\<close>

unbundle bit_operations_syntax

subsection \<open>Lengths\<close>

text \<open>The variable-length integers of \<open>postcard\<close>: groups of seven bits, the lowest first, the high bit set on
  all but the last.\<close>

fun varint_bytes :: "nat \<Rightarrow> bytes" where
  "varint_bytes n = (if n < 128 then [word_of_nat n] else word_of_nat (128 + n mod 128) # varint_bytes (n div 128))"

declare varint_bytes.simps [simp del]

lemma or_shift: "v < 2 ^ k \<Longrightarrow> v OR push_bit k x = v + x * 2 ^ k" for v x :: nat
proof -
  assume "v < 2 ^ k"
  then have "take_bit k v = v" by (simp add: take_bit_nat_eq_self_iff)
  then have "v AND push_bit k x = take_bit k v AND push_bit k x" by simp
  also have "\<dots> = 0" by (rule bit_eqI) (auto simp: bit_simps)
  finally have "v + push_bit k x = v OR push_bit k x" by (rule disjunctive_add_eq_or)
  then show ?thesis by (simp add: push_bit_eq_mult)
qed

lemma low_bits: "unat ((word_of_nat n :: u8) AND 127) = n mod 128"
proof -
  have "(127 :: u8) = mask 7" by (simp add: mask_eq_exp_minus_1)
  then have "(word_of_nat n :: u8) AND 127 = take_bit 7 (word_of_nat n)" by (simp add: take_bit_eq_mask)
  then have "unat ((word_of_nat n :: u8) AND 127) = take_bit 7 (unat (word_of_nat n :: u8))" by (simp add: unsigned_take_bit_eq)
  also have "\<dots> = n mod 128" by (simp add: unsigned_of_nat take_bit_eq_mod mod_mod_cancel)
  finally show ?thesis .
qed

lemma high_bit: "n < 256 \<Longrightarrow> (word_of_nat n :: u8) AND 128 = 0 \<longleftrightarrow> n < 128"
proof -
  assume n: "n < 256"
  have "(128 :: u8) = push_bit 7 1" by (simp add: push_bit_eq_mult)
  then have "(word_of_nat n :: u8) AND 128 = 0 \<longleftrightarrow> \<not> bit (word_of_nat n :: u8) 7"
    by (simp only: bit_iff_and_push_bit_not_eq_0 not_not)
  also have "\<dots> \<longleftrightarrow> \<not> odd (n div 128)" by (simp add: bit_of_nat_iff bit_iff_odd [of n])
  also have "\<dots> \<longleftrightarrow> n < 128"
  proof (cases "n < 128")
    case False
    then have "n div 128 = 1" using n by (simp add: div_nat_eqI)
    then show ?thesis using False by simp
  qed simp
  finally show ?thesis .
qed

lemma varint_loop_bytes:
  "0 < rounds \<Longrightarrow> acc < 2 ^ (7 * index) \<Longrightarrow> n < 128 ^ rounds \<Longrightarrow> acc + n * 2 ^ (7 * index) \<le> u64_max \<Longrightarrow>
     varint_loop rounds index acc (varint_bytes n @ rest) = Inr (acc + n * 2 ^ (7 * index), rest)"
proof (induction n arbitrary: acc index rounds rule: varint_bytes.induct)
  case (1 n)
  then obtain r where r: "rounds = Suc r" by (cases rounds) auto
  show ?case
  proof (cases "n < 128")
    case True
    have v: "acc OR push_bit (index * 7) n = acc + n * 2 ^ (7 * index)"
      using 1(3) by (simp add: or_shift mult.commute)
    show ?thesis
      unfolding r varint_bytes.simps [of n] using True 1(5) v high_bit [of n] low_bits [of n]
      by (simp add: Let_def)
  next
    case False
    let ?b = "word_of_nat (128 + n mod 128) :: u8" and ?v = "acc + n mod 128 * 2 ^ (7 * index)"
    have "128 + n mod 128 < 256" using mod_less_divisor [of 128 n] by linarith
    then have hi: "?b AND 128 \<noteq> 0" using high_bit [of "128 + n mod 128"] by simp
    have lo: "unat (?b AND 127) = n mod 128" by (simp only: low_bits) simp
    have v: "acc OR push_bit (index * 7) (n mod 128) = ?v" using 1(3) by (simp add: or_shift mult.commute)
    have split: "n = n mod 128 + 128 * (n div 128)" by simp
    have pow: "2 ^ (7 * (index + 1)) = 128 * (2 ^ (7 * index) :: nat)" by (simp add: power_add)
    have sum: "?v + n div 128 * 2 ^ (7 * (index + 1)) = acc + n * 2 ^ (7 * index)"
      unfolding pow by (subst (3) split) (simp only: distrib_right distrib_left mult_ac add_ac)
    have "(n mod 128 + 1) * 2 ^ (7 * index) \<le> 128 * (2 ^ (7 * index) :: nat)"
      using mod_less_divisor [of 128 n] by (intro mult_right_mono) simp_all
    then have "n mod 128 * 2 ^ (7 * index) + 2 ^ (7 * index) \<le> 128 * (2 ^ (7 * index) :: nat)" by (simp only: distrib_right mult_1)
    then have "?v < 2 ^ (7 * (index + 1))" unfolding pow using 1(3) by linarith
    moreover have "n div 128 < 128 ^ r" using 1(4) r by (simp add: less_mult_imp_div_less)
    moreover have "?v + n div 128 * 2 ^ (7 * (index + 1)) \<le> u64_max" using 1(5) sum by simp
    moreover have "0 < r" using 1(4) r False by (cases r) auto
    ultimately have "varint_loop r (index + 1) ?v (varint_bytes (n div 128) @ rest) =
        Inr (?v + n div 128 * 2 ^ (7 * (index + 1)), rest)"
      using 1(1) False by blast
    then show ?thesis
      unfolding r varint_bytes.simps [of n] using False hi lo v sum by (simp add: Let_def)
  qed
qed

lemma take_varint_bytes: "n \<le> u64_max \<Longrightarrow> take_varint (varint_bytes n @ rest) = Inr (n, rest)"
  using varint_loop_bytes [of 10 0 0 n rest] by (simp add: take_varint_def u64_max_eq)

lemma varint_loop_consumes:
  "varint_loop rounds index acc input = Inr (n, rest) \<Longrightarrow> \<exists>ds. input = ds @ rest \<and> ds \<noteq> [] \<and> length ds \<le> rounds \<and> n \<le> u64_max"
proof (induction rounds index acc input rule: varint_loop.induct)
  case (3 rounds index acc byte bs)
  show ?case
  proof (cases "byte AND 128 = 0")
    case True
    then have "byte # bs = [byte] @ rest" "n \<le> u64_max" using 3(2) by (simp_all add: Let_def split: if_splits)
    then show ?thesis by force
  next
    case False
    then obtain ds where "bs = ds @ rest" "length ds \<le> rounds" "n \<le> u64_max" using 3 by (auto simp: Let_def)
    then have "byte # bs = (byte # ds) @ rest" "length (byte # ds) \<le> Suc rounds" "n \<le> u64_max" by simp_all
    then show ?thesis by blast
  qed
qed simp_all

lemma take_varint_consumes:
  assumes "take_varint input = Inr (n, rest)"
  obtains ds where "input = ds @ rest" "ds \<noteq> []" "length ds \<le> 10" "n \<le> u64_max"
  using varint_loop_consumes [OF assms [unfolded take_varint_def]] by blast

lemma skip_Inr: "skip len input = Inr rest \<longleftrightarrow> (\<exists>v. length v = len \<and> input = v @ rest)"
proof
  assume "skip len input = Inr rest"
  then have "length (take len input) = len" "input = take len input @ rest" by (auto simp: skip_def split: if_splits)
  then show "\<exists>v. length v = len \<and> input = v @ rest" by blast
qed (auto simp: skip_def)

lemma take_sized_vec_shape:
  assumes "take_sized_vec expected input = Inr rest"
  obtains ds v where "input = ds @ v @ rest" "length ds \<le> 10" "length v = expected"
proof -
  obtain r where r: "take_varint input = Inr (expected, r)" "skip expected r = Inr rest"
    using assms by (auto simp: take_sized_vec_def and_then_Inr)
  obtain ds where "input = ds @ r" "length ds \<le> 10" using r(1) by (rule take_varint_consumes)
  moreover obtain v where "length v = expected" "r = v @ rest" using r(2) by (auto simp: skip_Inr)
  ultimately show ?thesis using that by blast
qed

lemma take_payload_shape:
  assumes "take_payload cap input = Inr rest"
  obtains tag ds v where "input = tag # ds @ v @ rest" "length ds \<le> 10"
    "case cap of None \<Rightarrow> True | Some c \<Rightarrow> length v \<le> c"
proof -
  obtain tag r where input: "input = tag # r" using assms by (auto simp: take_payload_def split: list.splits)
  show ?thesis
  proof (cases "tag = 0")
    case True
    then have "input = tag # [] @ [] @ rest" using assms input by (simp add: take_payload_def)
    moreover have "case cap of None \<Rightarrow> True | Some c \<Rightarrow> length ([] :: bytes) \<le> c" by (simp split: option.split)
    ultimately show ?thesis using that [of tag "[]" "[]"] by simp
  next
    case False
    then obtain len r' where t: "take_varint r = Inr (len, r')" "case cap of None \<Rightarrow> True | Some c \<Rightarrow> len \<le> c" "skip len r' = Inr rest"
      using assms input by (auto simp: take_payload_def and_then_Inr split: if_splits)
    obtain ds where ds: "r = ds @ r'" "length ds \<le> 10" using t(1) by (rule take_varint_consumes)
    obtain v where v: "length v = len" "r' = v @ rest" using t(3) by (auto simp: skip_Inr)
    have "case cap of None \<Rightarrow> True | Some c \<Rightarrow> length v \<le> c" using t(2) unfolding v(1) .
    then show ?thesis using that [of tag ds v] input ds v by simp
  qed
qed

subsection \<open>Shape of a frame\<close>

text \<open>a frame that passes the inspection has exactly the announced shape: after its header come a payload,
  a signature of 3309 bytes, the key material with a key identifier of 32 bytes and, for a full key, a
  key of 1952 bytes, and nothing else; each length field takes at most ten bytes. On the reserved control
  topic the frame is a Ping and its payload is within the cap. So nothing but the payload can make a frame
  large.\<close>

theorem accepted_frame_shape:
  assumes "preflight_v3 P body = Inr header"
  shows "\<exists>tag pd payload sd sg kd key_id key.
    pc_take_header P body = Some (header, tag # pd @ payload @ sd @ sg @ kd @ key_id @ key) \<and>
    length pd \<le> 10 \<and> length sd \<le> 10 \<and> length sg = SIGNATURE_BYTES \<and> length kd \<le> 10 \<and> length key_id = 32 \<and>
    (key = [] \<or> (\<exists>ld k. key = ld @ k \<and> length ld \<le> 10 \<and> length k = KEY_BYTES)) \<and>
    (hdr_topic header = control_topic P \<longrightarrow> hdr_kind header = Ping \<and> length payload \<le> MAX_KEY_CACHE_CONTROL_BYTES)"
proof -
  let ?cap = "if hdr_topic header = control_topic P then Some MAX_KEY_CACHE_CONTROL_BYTES else None"
  obtain rest r1 r2 r3 r4 r5 variant where
    h: "pc_take_header P body = Some (header, rest)" and kind: "hdr_topic header \<noteq> control_topic P \<or> hdr_kind header = Ping" and
    p: "take_payload ?cap rest = Inr r1" and s: "take_sized_vec SIGNATURE_BYTES r1 = Inr r2" and
    t: "take_varint r2 = Inr (variant, r3)" and i: "skip 32 r3 = Inr r4" and
    k: "(if variant = 0 then take_sized_vec KEY_BYTES r4 else Inr r4) = Inr r5" and e: "r5 = []"
    using assms by (auto simp: preflight_v3_def and_then_Inr Let_def)
  obtain tag pd payload where P: "rest = tag # pd @ payload @ r1" "length pd \<le> 10"
      "case ?cap of None \<Rightarrow> True | Some c \<Rightarrow> length payload \<le> c"
    using p by (rule take_payload_shape)
  obtain sd sg where S: "r1 = sd @ sg @ r2" "length sd \<le> 10" "length sg = SIGNATURE_BYTES"
    using s by (rule take_sized_vec_shape)
  obtain kd where K: "r2 = kd @ r3" "length kd \<le> 10" using t by (rule take_varint_consumes)
  obtain key_id where I: "length key_id = 32" "r3 = key_id @ r4" using i by (auto simp: skip_Inr)
  have key: "r4 = [] \<or> (\<exists>ld v. r4 = ld @ v \<and> length ld \<le> 10 \<and> length v = KEY_BYTES)"
  proof (cases "variant = 0")
    case True
    then have "take_sized_vec KEY_BYTES r4 = Inr []" using k e by simp
    then obtain ld v where "r4 = ld @ v @ []" "length ld \<le> 10" "length v = KEY_BYTES" by (rule take_sized_vec_shape)
    then show ?thesis by auto
  qed (use k e in simp)
  have "pc_take_header P body = Some (header, tag # pd @ payload @ sd @ sg @ kd @ key_id @ r4)"
    unfolding h P(1) S(1) K(1) I(2) by simp
  moreover have "hdr_topic header = control_topic P \<longrightarrow> hdr_kind header = Ping \<and> length payload \<le> MAX_KEY_CACHE_CONTROL_BYTES"
    using kind P(3) by auto
  ultimately show ?thesis using P(2) S(2,3) K(2) I(1) key by blast
qed

subsection \<open>Round trips\<close>

text \<open>The format of \<open>postcard\<close>: a vector is its length and its bytes, an option a tag, an enum the index of its
  variant; an array has no length.\<close>

definition vec_bytes :: "bytes \<Rightarrow> bytes" where
  "vec_bytes v = varint_bytes (length v) @ v"

definition payload_bytes :: "bytes option \<Rightarrow> bytes" where
  "payload_bytes p = (case p of None \<Rightarrow> [0] | Some v \<Rightarrow> 1 # vec_bytes v)"

definition material_bytes :: "KeyMaterial \<Rightarrow> bytes" where
  "material_bytes k = (case k of FullKey i v \<Rightarrow> varint_bytes 0 @ peer_bytes i @ vec_bytes v | RefKey i \<Rightarrow> varint_bytes 1 @ peer_bytes i)"

definition frame_body :: "bytes \<Rightarrow> WireMessage \<Rightarrow> bytes" where
  "frame_body hb w = hb @ payload_bytes (wm_payload w) @ vec_bytes (wm_signature w) @ material_bytes (wm_key w)"

text \<open>What the code relies on for one message, whose header has the bytes \<open>hb\<close>.\<close>

definition wire_laws :: "postcard \<Rightarrow> bytes \<Rightarrow> WireMessage \<Rightarrow> bool" where
  "wire_laws P hb w \<longleftrightarrow>
     (\<forall>rest. pc_take_header P (hb @ rest) = Some (wm_header w, rest)) \<and>
     pc_to_wire P w = Some (frame_body hb w) \<and> pc_take_wire P (frame_body hb w) = Some (w, [])"

lemma take_sized_vec_bytes: "length v \<le> u64_max \<Longrightarrow> take_sized_vec (length v) (vec_bytes v @ rest) = Inr rest"
  by (simp add: take_sized_vec_def vec_bytes_def take_varint_bytes ensure_def skip_def)

lemma take_payload_bytes:
  "(\<forall>v. p = Some v \<longrightarrow> length v \<le> u64_max \<and> (\<forall>c. cap = Some c \<longrightarrow> length v \<le> c)) \<Longrightarrow> take_payload cap (payload_bytes p @ rest) = Inr rest"
  by (auto simp: take_payload_def payload_bytes_def vec_bytes_def take_varint_bytes ensure_def skip_def split: option.split)

lemma preflight_frame_body:
  assumes "\<And>rest. pc_take_header P (hb @ rest) = Some (wm_header w, rest)"
    and "length (wm_signature w) = SIGNATURE_BYTES"
    and key: "case wm_key w of FullKey i v \<Rightarrow> length (peer_bytes i) = 32 \<and> length v = KEY_BYTES | RefKey i \<Rightarrow> length (peer_bytes i) = 32"
    and pay: "\<forall>v. wm_payload w = Some v \<longrightarrow> length v \<le> u64_max"
    and ctl: "hdr_topic (wm_header w) = control_topic P \<longrightarrow>
      hdr_kind (wm_header w) = Ping \<and> (\<forall>v. wm_payload w = Some v \<longrightarrow> length v \<le> MAX_KEY_CACHE_CONTROL_BYTES)"
  shows "preflight_v3 P (frame_body hb w) = Inr (wm_header w)"
proof -
  let ?cap = "if hdr_topic (wm_header w) = control_topic P then Some MAX_KEY_CACHE_CONTROL_BYTES else None"
  have big: "SIGNATURE_BYTES \<le> u64_max" "KEY_BYTES \<le> u64_max" by (simp_all add: SIGNATURE_BYTES_def KEY_BYTES_def u64_max_eq)
  have guard: "\<not> hdr_topic (wm_header w) = control_topic P \<or> hdr_kind (wm_header w) = Ping" using ctl by blast
  have p: "take_payload ?cap (payload_bytes (wm_payload w) @ rest) = Inr rest" for rest
    using pay ctl by (intro take_payload_bytes) auto
  have s: "take_sized_vec SIGNATURE_BYTES (vec_bytes (wm_signature w) @ rest) = Inr rest" for rest
    using take_sized_vec_bytes [of "wm_signature w" rest] assms(2) big by simp
  have tail: "and_then (take_varint (material_bytes (wm_key w))) (\<lambda>(variant, r3).
       ensure (variant \<le> 1) InvalidKeyTag
         (and_then (skip 32 r3) (\<lambda>r4.
            and_then (if variant = 0 then take_sized_vec KEY_BYTES r4 else Inr r4) (\<lambda>r5.
            ensure (r5 = []) TrailingBytes (Inr (wm_header w)))))) = Inr (wm_header w)"
  proof (cases "wm_key w")
    case (FullKey i v)
    have "take_sized_vec KEY_BYTES (vec_bytes v) = Inr []" using take_sized_vec_bytes [of v "[]"] key FullKey big by simp
    then show ?thesis
      using key FullKey by (simp add: material_bytes_def take_varint_bytes ensure_def skip_def)
  next
    case (RefKey i)
    then show ?thesis
      using key take_varint_bytes [of 1] by (simp add: material_bytes_def ensure_def skip_def u64_max_eq)
  qed
  show ?thesis
    unfolding preflight_v3_def frame_body_def ok_or_def assms(1)
    by (simp only: and_then_simps option.case prod.case Let_def guard ensure_True p s tail)
qed

lemma key_id_length: "\<forall>m. length (pc_sha256 P m) = 32 \<Longrightarrow> length (peer_bytes (key_id_of P k)) = 32"
  by (simp add: key_id_of_def from_pubkey_def)

text \<open>C35: a message that is encoded, with its full key or as a reference, is decoded to the same message and
  the hash of its key, where a reference leaves the key to be filled in. On the reserved control topic this
  holds for Pings with a payload within the cap.\<close>

theorem frame_roundtrip:
  assumes "encode P m reference = Inr data" "\<forall>x. length (pc_sha256 P x) = 32"
    and "wire_laws P hb \<lparr>wm_header = gm_header m, wm_payload = gm_payload m, wm_signature = gm_signature m,
      wm_key = (if reference then RefKey (key_id_of P (gm_public_key m)) else FullKey (key_id_of P (gm_public_key m)) (gm_public_key m))\<rparr>"
    and "\<forall>v. gm_payload m = Some v \<longrightarrow> length v \<le> u64_max"
    and "hdr_topic (gm_header m) = control_topic P \<longrightarrow>
      hdr_kind (gm_header m) = Ping \<and> (\<forall>v. gm_payload m = Some v \<longrightarrow> length v \<le> MAX_KEY_CACHE_CONTROL_BYTES)"
  shows "is_v3 data \<and> decode P data =
    Inr (if reference then DecodedRef (m\<lparr>gm_public_key := []\<rparr>) (key_id_of P (gm_public_key m))
         else DecodedFull m (key_id_of P (gm_public_key m)))"
proof -
  define w where "w = \<lparr>wm_header = gm_header m, wm_payload = gm_payload m, wm_signature = gm_signature m,
      wm_key = (if reference then RefKey (key_id_of P (gm_public_key m)) else FullKey (key_id_of P (gm_public_key m)) (gm_public_key m))\<rparr>"
  have W: "wire_laws P hb w" using assms(3) by (simp add: w_def)
  have len: "length (gm_public_key m) = KEY_BYTES" "length (gm_signature m) = SIGNATURE_BYTES"
    and out: "data = WIRE_MARKER @ frame_body hb w"
    using assms(1) W by (auto simp: encode_def Let_def and_then_Inr wire_laws_def w_def)
  have "preflight_v3 P (frame_body hb w) = Inr (wm_header w)"
  proof (rule preflight_frame_body)
    show "pc_take_header P (hb @ rest) = Some (wm_header w, rest)" for rest using W by (simp add: wire_laws_def)
  qed (use assms(2,4,5) len key_id_length in \<open>simp_all add: w_def\<close>)
  moreover have "strip_prefix WIRE_MARKER data = Some (frame_body hb w)" "is_v3 data" by (simp_all add: out strip_prefix_def is_v3_def)
  moreover have "pc_take_wire P (frame_body hb w) = Some (w, [])" using W by (simp add: wire_laws_def)
  ultimately show ?thesis
    by (simp add: decode_def ok_or_def ensure_def len w_def)
qed

text \<open>A concrete codec for one message of each kind.\<close>

definition demo_header :: MessageHeader where
  "demo_header = header_new (TopicId [5]) Eager 4"

definition demo_message :: GossipMessage where
  "demo_message =
     \<lparr>gm_header = demo_header, gm_payload = Some [7, 8], gm_signature = replicate SIGNATURE_BYTES 1, gm_public_key = replicate KEY_BYTES 2\<rparr>"

definition demo_key_id :: PeerId where
  "demo_key_id = PeerId (replicate 32 9)"

definition demo_wire :: WireMessage where
  "demo_wire =
     \<lparr>wm_header = demo_header, wm_payload = Some [7, 8], wm_signature = replicate SIGNATURE_BYTES 1, wm_key = RefKey demo_key_id\<rparr>"

definition demo_control :: ControlPayload where
  "demo_control = \<lparr>cp_magic = CONTROL_MAGIC, cp_version = 1, cp_body = ResponseKeys [(demo_key_id, replicate KEY_BYTES 2)]\<rparr>"

definition id_list_bytes :: "PeerId list \<Rightarrow> bytes" where
  "id_list_bytes ids = varint_bytes (length ids) @ concat (map peer_bytes ids)"

definition control_bytes :: "Control \<Rightarrow> bytes" where
  "control_bytes c =
     (case c of
        Hello v \<Rightarrow> varint_bytes 0 @ [word_of_nat v]
      | AckKeys ids \<Rightarrow> varint_bytes 1 @ id_list_bytes ids
      | RequestKeys ids \<Rightarrow> varint_bytes 2 @ id_list_bytes ids
      | ResponseKeys es \<Rightarrow> varint_bytes 3 @ varint_bytes (length es) @ concat (map (\<lambda>(i, k). peer_bytes i @ vec_bytes k) es))"

definition control_payload_bytes :: "ControlPayload \<Rightarrow> bytes" where
  "control_payload_bytes cp = cp_magic cp @ [word_of_nat (cp_version cp)] @ control_bytes (cp_body cp)"

definition control_laws :: "postcard \<Rightarrow> ControlPayload \<Rightarrow> bool" where
  "control_laws P cp \<longleftrightarrow>
     pc_to_control P cp = Some (control_payload_bytes cp) \<and> pc_take_control P (control_payload_bytes cp) = Some (cp, [])"

definition demo_postcard :: postcard where
  "demo_postcard =
     \<lparr>pc_take_header = (\<lambda>data. Some (demo_header, drop 1 data)),
      pc_to_wire = (\<lambda>w. Some (frame_body [0] w)),
      pc_take_wire = (\<lambda>data. if data = frame_body [0] demo_wire then Some (demo_wire, []) else None),
      pc_to_control = (\<lambda>cp. Some (control_payload_bytes cp)),
      pc_take_control = (\<lambda>data. if data = control_payload_bytes demo_control then Some (demo_control, []) else None),
      pc_sha256 = (\<lambda>_. replicate 32 9), pc_blake3 = (\<lambda>_. [])\<rparr>"

lemma demo_postcard_facts:
  "key_id_of demo_postcard k = demo_key_id" "hdr_topic demo_header \<noteq> control_topic demo_postcard"
  "wire_laws demo_postcard [0] demo_wire" "length (pc_sha256 demo_postcard x) = 32"
  by (simp_all add: key_id_of_def demo_postcard_def from_pubkey_def demo_key_id_def demo_header_def header_new_def control_topic_def
      topic_from_entity_def wire_laws_def demo_wire_def)

lemma demo_preflight: "preflight_v3 demo_postcard (frame_body [0] demo_wire) = Inr demo_header"
proof -
  have "preflight_v3 demo_postcard (frame_body [0] demo_wire) = Inr (wm_header demo_wire)"
  proof (rule preflight_frame_body)
    show "pc_take_header demo_postcard ([0] @ rest) = Some (wm_header demo_wire, rest)" for rest
      using demo_postcard_facts(3) by (simp add: wire_laws_def)
  qed (use demo_postcard_facts(2) in \<open>simp_all add: demo_wire_def demo_key_id_def u64_max_eq\<close>)
  then show ?thesis by (simp add: demo_wire_def)
qed

lemma demo_decode: "decode demo_postcard (WIRE_MARKER @ frame_body [0] demo_wire) = Inr (DecodedRef (demo_message\<lparr>gm_public_key := []\<rparr>) demo_key_id)"
proof -
  have "strip_prefix WIRE_MARKER (WIRE_MARKER @ frame_body [0] demo_wire) = Some (frame_body [0] demo_wire)" by (simp add: strip_prefix_def)
  moreover have "pc_take_wire demo_postcard (frame_body [0] demo_wire) = Some (demo_wire, [])"
    using demo_postcard_facts(3) by (simp add: wire_laws_def)
  ultimately show ?thesis
    by (simp add: decode_def demo_preflight ok_or_def ensure_def) (simp add: demo_wire_def demo_message_def)
qed

theorem frame_roundtrip_witness:
  "case encode demo_postcard demo_message True of
     Inl e \<Rightarrow> False
   | Inr data \<Rightarrow> decode demo_postcard data = Inr (DecodedRef (demo_message\<lparr>gm_public_key := []\<rparr>) demo_key_id)"
proof -
  have enc: "encode demo_postcard demo_message True = Inr (WIRE_MARKER @ frame_body [0] demo_wire)"
    by (simp add: encode_def demo_message_def ensure_def ok_or_def Let_def demo_postcard_facts demo_wire_def)
      (simp add: demo_postcard_def)
  have laws: "wire_laws demo_postcard [0] \<lparr>wm_header = gm_header demo_message, wm_payload = gm_payload demo_message,
      wm_signature = gm_signature demo_message,
      wm_key = (if True then RefKey (key_id_of demo_postcard (gm_public_key demo_message))
        else FullKey (key_id_of demo_postcard (gm_public_key demo_message)) (gm_public_key demo_message))\<rparr>"
    using demo_postcard_facts(3) by (simp add: demo_postcard_facts(1) demo_message_def demo_wire_def)
  have "decode demo_postcard (WIRE_MARKER @ frame_body [0] demo_wire) =
      Inr (DecodedRef (demo_message\<lparr>gm_public_key := []\<rparr>) (key_id_of demo_postcard (gm_public_key demo_message)))"
    using frame_roundtrip [OF enc _ laws] demo_postcard_facts(2,4) by (simp add: demo_message_def u64_max_eq)
  then show ?thesis by (simp add: enc demo_postcard_facts(1))
qed

theorem accepted_frame_shape_witness:
  "\<exists>tag pd payload sd sg kd key_id key.
     pc_take_header demo_postcard (frame_body [0] demo_wire) = Some (demo_header, tag # pd @ payload @ sd @ sg @ kd @ key_id @ key) \<and>
     length sg = SIGNATURE_BYTES \<and> length key_id = 32"
proof -
  from accepted_frame_shape [OF demo_preflight] show ?thesis by blast
qed

subsection \<open>Control messages\<close>

lemma length_varint_small: "n < 128 \<Longrightarrow> length (varint_bytes n) = 1"
  by (simp add: varint_bytes.simps [of n])

lemma length_varint_key: "length (varint_bytes KEY_BYTES) = 2"
  by (simp add: KEY_BYTES_def varint_bytes.simps)

lemma length_concat_ids: "\<forall>i \<in> set ids. length (peer_bytes i) = 32 \<Longrightarrow> length (concat (map peer_bytes ids)) = 32 * length ids"
  by (induction ids) auto

lemma length_concat_entries:
  "validate_entries P es = Inr () \<Longrightarrow> \<forall>x. length (pc_sha256 P x) = 32 \<Longrightarrow>
     length (concat (map (\<lambda>(i, k). peer_bytes i @ vec_bytes k) es)) = (32 + 2 + KEY_BYTES) * length es"
proof (induction es)
  case (Cons e es)
  obtain i k where e: "e = (i, k)" by (rule prod.exhaust)
  then have "length k = KEY_BYTES" "key_id_of P k = i" using Cons.prems(1) by auto
  then have "length (peer_bytes i @ vec_bytes k) = 32 + 2 + KEY_BYTES"
    using key_id_length [OF Cons.prems(2)] length_varint_key by (auto simp: vec_bytes_def)
  then show ?case using Cons e by simp
qed simp

definition control_ids :: "Control \<Rightarrow> PeerId list" where
  "control_ids c = (case c of Hello _ \<Rightarrow> [] | AckKeys ids \<Rightarrow> ids | RequestKeys ids \<Rightarrow> ids | ResponseKeys es \<Rightarrow> map fst es)"

lemma control_bytes_fit:
  assumes "validate_control P c = Inr ()" "\<forall>x. length (pc_sha256 P x) = 32" "\<forall>i \<in> set (control_ids c). length (peer_bytes i) = 32"
  shows "length (control_payload_bytes \<lparr>cp_magic = CONTROL_MAGIC, cp_version = 1, cp_body = c\<rparr>) \<le> MAX_KEY_CACHE_CONTROL_BYTES"
proof -
  have "length CONTROL_MAGIC = 8" by (simp add: CONTROL_MAGIC_def ascii_bytes_def)
  moreover have "length (control_bytes c) \<le> 2 + (34 + KEY_BYTES) * 32"
  proof (cases c)
    case (ResponseKeys es)
    then have es: "length es \<le> 32" "validate_entries P es = Inr ()"
      using assms(1) by (auto simp: validate_control_def MAX_CONTROL_ITEMS_def)
    have "(34 + KEY_BYTES) * length es \<le> (34 + KEY_BYTES) * 32" using es(1) by (rule mult_le_mono2)
    then show ?thesis
      using ResponseKeys es length_concat_entries [OF es(2) assms(2)] length_varint_small [of 3] length_varint_small [of "length es"]
      by (simp add: control_bytes_def)
  qed (use assms(1,3) length_varint_small in \<open>auto simp: control_bytes_def id_list_bytes_def validate_control_def MAX_CONTROL_ITEMS_def
      control_ids_def length_concat_ids KEY_BYTES_def\<close>)
  ultimately show ?thesis
    by (simp add: control_payload_bytes_def MAX_KEY_CACHE_CONTROL_BYTES_def KEY_BYTES_def)
qed

text \<open>a control message within its limits, a Hello, up to 32 identifiers or up to 32 keys with their hashes,
  is never too large for its cap, and what is encoded is decoded to the same control message.\<close>

theorem control_roundtrip:
  assumes "validate_control P c = Inr ()" "\<forall>x. length (pc_sha256 P x) = 32" "\<forall>i \<in> set (control_ids c). length (peer_bytes i) = 32"
    and "control_laws P \<lparr>cp_magic = CONTROL_MAGIC, cp_version = 1, cp_body = c\<rparr>"
  shows "\<exists>payload. encode_control P c = Inr payload \<and> length payload \<le> MAX_KEY_CACHE_CONTROL_BYTES \<and> decode_control P payload = Inr c"
proof -
  let ?cp = "\<lparr>cp_magic = CONTROL_MAGIC, cp_version = 1, cp_body = c\<rparr>"
  note fit = control_bytes_fit [OF assms(1-3)]
  have law: "pc_to_control P ?cp = Some (control_payload_bytes ?cp)" "pc_take_control P (control_payload_bytes ?cp) = Some (?cp, [])"
    using assms(4) by (simp_all add: control_laws_def)
  have "encode_control P c = Inr (control_payload_bytes ?cp)"
    unfolding encode_control_def assms(1) law ok_or_def and_then_simps option.case using fit by (simp only: ensure_def if_True)
  moreover have "decode_control P (control_payload_bytes ?cp) = Inr c"
    unfolding decode_control_def law ok_or_def using assms(1) fit by (simp add: ensure_def del: One_nat_def)
  ultimately show ?thesis using fit by blast
qed

theorem control_roundtrip_witness:
  "\<exists>payload. encode_control demo_postcard (ResponseKeys [(demo_key_id, replicate KEY_BYTES 2)]) = Inr payload \<and>
     decode_control demo_postcard payload = Inr (ResponseKeys [(demo_key_id, replicate KEY_BYTES 2)])"
proof -
  let ?c = "ResponseKeys [(demo_key_id, replicate KEY_BYTES 2)]"
  have "validate_control demo_postcard ?c = Inr ()"
    by (simp add: validate_control_def MAX_CONTROL_ITEMS_def demo_postcard_facts ensure_def)
  moreover have "control_laws demo_postcard \<lparr>cp_magic = CONTROL_MAGIC, cp_version = 1, cp_body = ?c\<rparr>"
    by (simp add: control_laws_def demo_postcard_def demo_control_def)
  moreover have "\<forall>i \<in> set (control_ids ?c). length (peer_bytes i) = 32" by (simp add: control_ids_def demo_key_id_def)
  ultimately show ?thesis using control_roundtrip [of demo_postcard ?c] demo_postcard_facts(4) by blast
qed

end
