(* ===== verification/Key_Promises.thy ===== *)
theory Key_Promises
  imports Key_Steps Key_Frames
begin

text \<open>
  What the sender key cache promises: its invariant in every state that the pub/sub layer can reach, that a
  resolved reference carries the key it names, that of a response only entries count for which something is
  pending, and what happens when the answer to a request is lost.
\<close>

subsection \<open>Reachable caches\<close>

text \<open>One step is one critical section on the cache's lock.\<close>

inductive key_step :: "('f, 'r, 'a) key_env \<Rightarrow> ('f, 'r, 'a) KeyCache \<Rightarrow> ('f, 'r, 'a) KeyCache \<Rightarrow> bool" for E where
  observe: "key_step E s (observe_session E ses now s)"
| stale: "key_step E s (forget_stale E ses s)"
| supports: "key_step E s (snd (supports_ref E ses signer s))"
| look_up: "key_step E s (snd (lookup_key E i s))"
| miss: "key_step E s (snd (queue_miss E ses i data now s))"
| verified: "key_step E s (note_verified_key E i k session s)"
| control: "key_step E s (snd (apply_control E ses c now s))"
| flush: "key_step E s (snd (next_control E ses now s))"
| result: "key_step E s (control_result ses c sent s)"
| outbound: "key_step E s (record_outbound_frame reference n s)"
| inbound: "key_step E s (record_inbound_frame reference n s)"
| critical: "key_step E s (record_critical_ref_mismatch s)"
| malformed: "key_step E s (malformed_control s)"
| mismatch: "key_step E s (hash_mismatch s)"
| replay: "key_step E s (replay_result success s)"

inductive key_reachable :: "('f, 'r, 'a) key_env \<Rightarrow> ('f, 'r, 'a) KeyCache \<Rightarrow> bool" for E where
  start: "key_reachable E (key_cache_default E)"
| more: "key_reachable E s \<Longrightarrow> key_step E s s' \<Longrightarrow> key_reachable E s'"

lemma key_step_ok: "key_step E s s' \<Longrightarrow> key_env_ok E \<Longrightarrow> key_cache_ok E s \<Longrightarrow> key_cache_ok E s'"
  by (induction rule: key_step.induct)
    (simp_all add: observe_session_ok forget_stale_ok supports_ref_ok lookup_key_ok queue_miss_ok note_verified_key_ok
      apply_control_ok next_control_ok control_result_ok record_outbound_frame_def record_inbound_frame_def record_critical_ref_mismatch_def
      malformed_control_def hash_mismatch_def replay_result_def bump_ok)

lemma reachable_ok: "key_reachable E s \<Longrightarrow> key_env_ok E \<Longrightarrow> key_cache_ok E s"
  by (induction rule: key_reachable.induct) (auto intro: default_ok key_step_ok)

text \<open>C28: whatever the neighbours send and however the tasks interleave, the sender key cache keeps its bounds (2048 keys,
  1024 sessions with 64 identifiers in each queue, 16 frames and 256 KiB for a session, 1024 frames and 8 MiB for
  all of them), its counters are exactly the frames and bytes that wait, a frame waits only for a key that was requested in
  the current session of its peer, and every key is the one whose hash is its identifier.\<close>

theorem key_cache_invariant:
  assumes "key_env_ok E" "key_reachable E s"
  shows "(\<forall>i k. (i, k) \<in> set (lru_iter (ke_resolved E) (kc_resolved s)) \<longrightarrow> length k = KEY_BYTES \<and> key_id_of (ke_postcard E) k = i) \<and>
    length (lru_iter (ke_resolved E) (kc_resolved s)) \<le> 2048 \<and> card (dom (kc_sessions s)) \<le> MAX_SESSIONS \<and>
    (\<forall>p st. kc_sessions s p = Some st \<longrightarrow>
       card (ss_queued_acks st) \<le> MAX_QUEUED_IDS_PER_SESSION \<and> card (ss_queued_requests st) \<le> MAX_QUEUED_IDS_PER_SESSION \<and>
       card (ss_queued_responses st) \<le> MAX_QUEUED_IDS_PER_SESSION) \<and>
    kc_pending_frames s = pending_count UNIV (kc_pending s) \<and> kc_pending_bytes s = pending_size UNIV (kc_pending s) \<and>
    kc_pending_frames s \<le> MAX_PENDING_GLOBAL \<and> kc_pending_bytes s \<le> MAX_PENDING_BYTES_GLOBAL \<and>
    (\<forall>p g. pending_count (of_session p g) (kc_pending s) \<le> MAX_PENDING_PER_SESSION \<and>
           pending_size (of_session p g) (kc_pending s) \<le> MAX_PENDING_BYTES_PER_SESSION) \<and>
    (\<forall>k e. kc_pending s k = Some e \<and> pk_frames e \<noteq> [] \<longrightarrow> pk_requested e \<and> live_at (kc_sessions s) (fst k) (fst (snd k)))"
proof -
  note K = key_cache_okD [OF reachable_ok [OF assms(2,1)]]
  note U = K(1) [unfolded authentic_keys_def lru_fits_def] K(4) [unfolded sessions_ok_def session_ok_def queue_ok_def]
    K(5) [unfolded frames_ok_def] K(6) [unfolded frames_live_def]
  show ?thesis by (intro conjI) (use U in blast)+
qed

subsection \<open>A concrete cache\<close>

definition demo_key_env ::
  "(nat, (PeerId, bytes) lru_list, (pending_key, unit) lru_list) key_env" where
  "demo_key_env =
     \<lparr>ke_resolved = list_lru, ke_acks = list_lru, ke_postcard = demo_postcard, ke_burst = 2,
      ke_add_secs = \<lambda>t d. t + d div 1000000000, ke_min = min, ke_less_one = \<lambda>t. t < 1, ke_minus_one = \<lambda>t. t - 1,
      ke_pending_order = \<lambda>m. sorted_list_of_set (dom m), ke_id_order = sorted_list_of_set\<rparr>"

lemma demo_key_env_ok: "key_env_ok demo_key_env"
  by (simp add: key_env_ok_def demo_key_env_def list_lru_map.lru_map_axioms iterates_def iterates_set_def)

definition demo_session :: AuthenticatedSession where
  "demo_session = \<lparr>as_peer = PeerId [2], as_generation = 7\<rparr>"

definition demo_observed where
  "demo_observed = observe_session demo_key_env demo_session 0 (key_cache_default demo_key_env)"

definition demo_missed where
  "demo_missed = snd (queue_miss demo_key_env demo_session demo_key_id [1, 2, 3] 10 demo_observed)"

lemma demo_observed_eq:
  "demo_observed = (key_cache_default demo_key_env)\<lparr>kc_sessions := [PeerId [2] \<mapsto> session_new demo_key_env 7 0]\<rparr>"
  by (simp add: demo_observed_def observe_session_def live_session_def key_cache_default_def demo_session_def MAX_SESSIONS_def put_session_def)

lemma demo_reachable: "key_reachable demo_key_env demo_observed" "key_reachable demo_key_env demo_missed"
proof -
  show "key_reachable demo_key_env demo_observed"
    unfolding demo_observed_def by (rule key_reachable.more [OF key_reachable.start key_step.observe])
  then show "key_reachable demo_key_env demo_missed"
    unfolding demo_missed_def by (rule key_reachable.more [OF _ key_step.miss])
qed

lemma demo_expire: "expire demo_key_env now demo_observed = demo_observed"
  by (simp add: expire_def demo_key_env_def demo_observed_eq key_cache_default_def)

lemma demo_queued: "fst (queue_miss demo_key_env demo_session demo_key_id [1, 2, 3] 10 demo_observed)"
proof -
  have "session_entries demo_key_env demo_session demo_observed = []"
    by (simp add: session_entries_def demo_key_env_def demo_observed_eq key_cache_default_def List.map_filter_simps)
  moreover have "fst (request_key demo_session demo_key_id \<lparr>pk_frames = [], pk_requested = False\<rparr> demo_observed)"
    by (simp add: request_key_def live_session_def demo_observed_eq demo_session_def session_new_def MAX_QUEUED_IDS_PER_SESSION_def)
  moreover have "kc_pending demo_observed k = None" "kc_pending_frames demo_observed = 0" "kc_pending_bytes demo_observed = 0" for k
    by (simp_all add: demo_observed_eq key_cache_default_def)
  ultimately show ?thesis
    unfolding queue_miss_def Let_def demo_expire prod.case_eq_if
    by (simp add: get_or_None MAX_PENDING_PER_SESSION_def MAX_PENDING_BYTES_PER_SESSION_def MAX_PENDING_GLOBAL_def
        MAX_PENDING_BYTES_GLOBAL_def u64_sat_add_def u64_max_def)
qed

theorem key_cache_invariant_witness:
  "card (dom (kc_sessions demo_missed)) \<le> MAX_SESSIONS \<and> kc_pending_frames demo_missed = pending_count UNIV (kc_pending demo_missed)"
  using key_cache_invariant [OF demo_key_env_ok demo_reachable(2)] by blast

subsection \<open>Resolved references\<close>

lemma note_verified_key_resolved:
  assumes "key_env_ok E" "key_cache_ok E s"
  shows "set (lru_iter (ke_resolved E) (kc_resolved (note_verified_key E i k None s))) \<subseteq>
      insert (i, k) (set (lru_iter (ke_resolved E) (kc_resolved s)))"
    and "length k = KEY_BYTES \<Longrightarrow> key_id_of (ke_postcard E) k = i \<Longrightarrow>
      (i, k) \<in> set (lru_iter (ke_resolved E) (kc_resolved (note_verified_key E i k None s)))"
    and "kc_pending (note_verified_key E i k None s) = kc_pending s" "kc_sessions (note_verified_key E i k None s) = kc_sessions s"
proof -
  note P = lru_map.push_fits [OF key_env_okD(1) [OF assms(1)], of 2048 "kc_resolved s" i k]
  have fit: "lru_fits (ke_resolved E) 2048 (kc_resolved s)" using key_cache_okD(1) [OF assms(2)] by (simp add: authentic_keys_def)
  show "set (lru_iter (ke_resolved E) (kc_resolved (note_verified_key E i k None s))) \<subseteq>
      insert (i, k) (set (lru_iter (ke_resolved E) (kc_resolved s)))"
    using P(2) [OF fit] by (auto simp: note_verified_key_def Let_def)
  show "length k = KEY_BYTES \<Longrightarrow> key_id_of (ke_postcard E) k = i \<Longrightarrow>
      (i, k) \<in> set (lru_iter (ke_resolved E) (kc_resolved (note_verified_key E i k None s)))"
    using P(3) [OF fit] by (simp add: note_verified_key_def Let_def)
qed (simp_all add: note_verified_key_def Let_def)

lemma lookup_known:
  "key_env_ok E \<Longrightarrow> (i, k) \<in> set (lru_iter (ke_resolved E) (kc_resolved s)) \<Longrightarrow> fst (lookup_key E i s) = Some k"
  by (simp add: lookup_key_def prod.case_eq_if lru_map.get_fits(1) [OF key_env_okD(1)] lru_map.iter_distinct [OF key_env_okD(1)])

lemma decode_Full_key: "decode P data = Inr (DecodedFull m i) \<Longrightarrow> length (gm_public_key m) = KEY_BYTES \<and> key_id_of P (gm_public_key m) = i"
  unfolding decode_def and_then_Inr prod.case_eq_if ensure_Inr by (elim exE conjE) (simp split: KeyMaterial.splits, auto simp: ensure_Inr)

lemma resolve_reference_key:
  assumes "key_env_ok E" "key_cache_ok E s" "fst (resolve_reference E D ses m0 i data now s) = Some m"
  shows "length (gm_public_key m) = KEY_BYTES \<and> key_id_of (ke_postcard E) (gm_public_key m) = i \<and>
    m = m0\<lparr>gm_public_key := gm_public_key m\<rparr>"
proof -
  define s1 where "s1 = (if de_critical D (hdr_topic (gm_header m0)) then record_critical_ref_mismatch s else s)"
  have s1: "key_cache_ok E s1" by (simp add: s1_def record_critical_ref_mismatch_def bump_ok assms(2))
  obtain k where "fst (lookup_key E i s1) = Some k" "m = m0\<lparr>gm_public_key := k\<rparr>"
    using assms(3) unfolding resolve_reference_def Let_def s1_def [symmetric] prod.case_eq_if by (auto split: option.splits)
  then show ?thesis using lookup_key_authentic [OF assms(1) s1] by simp
qed

text \<open>C30: a message that comes out of a v3 frame has a key of the right size whose hash is the identifier that the frame
  names, whether the frame carries the key or refers to it, and nothing else of the message is changed; unless it is an
  Eager message, that key is the one of the peer the frame came from.\<close>

theorem resolved_key_is_named:
  assumes "key_env_ok E" "key_reachable E s" "is_v3 data" "fst (resolve_frame E D p session data now s) = Inr (Some m)"
  shows "\<exists>m0 i. (decode (ke_postcard E) data = Inr (DecodedFull m0 i) \<or> decode (ke_postcard E) data = Inr (DecodedRef m0 i)) \<and>
    m = m0\<lparr>gm_public_key := gm_public_key m\<rparr> \<and> length (gm_public_key m) = KEY_BYTES \<and>
    key_id_of (ke_postcard E) (gm_public_key m) = i \<and> (hdr_kind (gm_header m) \<noteq> Eager \<longrightarrow> i = p)"
proof -
  have ok: "key_cache_ok E s" by (rule reachable_ok [OF assms(2,1)])
  have "fst (resolve_v3 E D p session data now s) = Inr (Some m)"
    using assms(3,4) by (simp add: resolve_frame_def Let_def split: option.splits if_splits prod.splits sum.splits)
  then obtain ses dec where dec: "decode (ke_postcard E) data = Inr dec"
    "case dec of
       DecodedFull m0 i \<Rightarrow> m = m0 \<and> (hdr_kind (gm_header m) \<noteq> Eager \<longrightarrow> i = p)
     | DecodedRef m0 i \<Rightarrow> fst (resolve_reference E D ses m0 i data now s) = Some m \<and> (hdr_kind (gm_header m0) \<noteq> Eager \<longrightarrow> i = p)"
    unfolding resolve_v3_def by (auto simp: prod.case_eq_if split: option.splits sum.splits Decoded.splits if_splits)
  show ?thesis
  proof (cases dec)
    case (DecodedFull m0 i)
    then show ?thesis using dec decode_Full_key [of "ke_postcard E" data m0 i] by (intro exI [of _ m0] exI [of _ i]) simp
  next
    case (DecodedRef m0 i)
    then have "fst (resolve_reference E D ses m0 i data now s) = Some m" "hdr_kind (gm_header m0) \<noteq> Eager \<longrightarrow> i = p"
      using dec(2) by simp_all
    moreover have r: "length (gm_public_key m) = KEY_BYTES \<and> key_id_of (ke_postcard E) (gm_public_key m) = i \<and>
        m = m0\<lparr>gm_public_key := gm_public_key m\<rparr>"
      by (rule resolve_reference_key [OF assms(1) ok]) (rule calculation(1))
    moreover have "gm_header m = gm_header m0" by (subst r [THEN conjunct2, THEN conjunct2]) simp
    ultimately show ?thesis using dec(1) DecodedRef by (intro exI [of _ m0] exI [of _ i]) simp
  qed
qed

definition demo_known where
  "demo_known = note_verified_key demo_key_env demo_key_id (replicate KEY_BYTES 2) None demo_observed"

definition demo_dispatch :: dispatch_env where
  "demo_dispatch =
     \<lparr>de_current = \<lambda>p. Some demo_session, de_registered = \<lambda>t. False, de_take_message = \<lambda>data. None, de_critical = \<lambda>t. False,
      de_ingress = \<lambda>p ses m. True, de_verify = \<lambda>m. True\<rparr>"

lemma demo_resolves:
  "fst (resolve_frame demo_key_env demo_dispatch (PeerId [2]) (Some demo_session) (WIRE_MARKER @ frame_body [0] demo_wire) 20 demo_known) =
     Inr (Some demo_message)"
proof -
  let ?data = "WIRE_MARKER @ frame_body [0] demo_wire" and ?s = demo_known
  have v3: "is_v3 ?data" by (simp add: is_v3_def)
  have env: "ke_postcard demo_key_env = demo_postcard" "ke_resolved demo_key_env = list_lru" by (simp_all add: demo_key_env_def)
  have "(demo_key_id, replicate KEY_BYTES 2) \<in> set (lru_iter (ke_resolved demo_key_env) (kc_resolved demo_known))"
    unfolding demo_known_def
    by (rule note_verified_key_resolved(2) [OF demo_key_env_ok reachable_ok [OF demo_reachable(1) demo_key_env_ok]])
      (simp_all add: env demo_postcard_facts(1))
  then have "fst (lookup_key demo_key_env demo_key_id ?s) = Some (replicate KEY_BYTES 2)" by (rule lookup_known [OF demo_key_env_ok])
  then have "fst (resolve_reference demo_key_env demo_dispatch demo_session (demo_message\<lparr>gm_public_key := []\<rparr>) demo_key_id ?data 20 ?s) =
      Some demo_message"
    by (simp add: resolve_reference_def Let_def demo_dispatch_def prod.case_eq_if) (simp add: demo_message_def)
  moreover have "hdr_kind (gm_header demo_message) = Eager" by (simp add: demo_message_def demo_header_def header_new_def)
  ultimately have "fst (resolve_v3 demo_key_env demo_dispatch (PeerId [2]) (Some demo_session) ?data 20 ?s) = Inr (Some demo_message)"
    by (simp add: resolve_v3_def env demo_decode prod.case_eq_if)
  moreover have "bound_legacy_frame demo_postcard demo_dispatch ?data = None"
    using demo_postcard_facts(2) by (simp add: bound_legacy_frame_def demo_dispatch_def demo_postcard_def)
  moreover have "check_message demo_postcard (PeerId [2]) (Some demo_session) ?data demo_message = None"
    using demo_postcard_facts(2) by (simp add: check_message_def demo_message_def demo_header_def header_new_def)
  moreover have "session_current demo_dispatch (PeerId [2]) demo_session"
    by (simp add: session_current_def demo_dispatch_def demo_session_def)
  ultimately show ?thesis by (simp add: resolve_frame_def Let_def env v3 prod.case_eq_if)
qed

theorem resolved_key_is_named_witness:
  "length (gm_public_key demo_message) = KEY_BYTES \<and> key_id_of demo_postcard (gm_public_key demo_message) = demo_key_id"
proof -
  let ?data = "WIRE_MARKER @ frame_body [0] demo_wire"
  have reach: "key_reachable demo_key_env demo_known"
    unfolding demo_known_def by (rule key_reachable.more [OF demo_reachable(1) key_step.verified])
  have "is_v3 ?data" by (simp add: is_v3_def)
  then show ?thesis
    using resolved_key_is_named [OF demo_key_env_ok reach _ demo_resolves] demo_decode by (auto simp: demo_key_env_def)
qed

subsection \<open>Keys that nobody asked for\<close>

lemma observe_session_frame:
  assumes "key_env_ok E" "key_cache_ok E s"
  shows "kc_resolved (observe_session E ses now s) = kc_resolved s"
    and "kc_pending (observe_session E ses now s) k = Some e \<Longrightarrow> kc_pending s k = Some e"
proof -
  note V = clear_peer_view [OF assms(1) key_cache_okD(5) [OF assms(2)]]
  show "kc_resolved (observe_session E ses now s) = kc_resolved s" by (simp add: observe_session_def Let_def V(3))
  show "kc_pending (observe_session E ses now s) k = Some e \<Longrightarrow> kc_pending s k = Some e"
    by (simp add: observe_session_def Let_def V(2) split: if_splits)
qed

text \<open>Two caches that differ in their statistics only.\<close>

definition silent :: "('f, 'r, 'a) KeyCache \<Rightarrow> ('f, 'r, 'a) KeyCache" where
  "silent s = s\<lparr>kc_stats := snapshot_default\<rparr>"

lemma silentE: "silent s = silent t \<Longrightarrow> (\<And>x. t = s\<lparr>kc_stats := x\<rparr> \<Longrightarrow> thesis) \<Longrightarrow> thesis"
  by (cases s, cases t) (auto simp: silent_def)

lemma silent_stats [simp]: "silent (s\<lparr>kc_stats := x\<rparr>) = silent s" "silent (bump c n s) = silent s"
  by (simp_all add: silent_def bump_def)

lemma note_response_silent:
  "fst (note_response_key E ses i k (s\<lparr>kc_stats := x\<rparr>)) = fst (note_response_key E ses i k s)"
  "silent (snd (note_response_key E ses i k (s\<lparr>kc_stats := x\<rparr>))) = silent (snd (note_response_key E ses i k s))"
  by (simp_all add: note_response_key_def note_verified_key_def Let_def silent_def bump_def)

lemma take_pending_silent:
  "fst (take_pending ses i (s\<lparr>kc_stats := x\<rparr>)) = fst (take_pending ses i s)"
  "silent (snd (take_pending ses i (s\<lparr>kc_stats := x\<rparr>))) = silent (snd (take_pending ses i s))"
  by (simp_all add: take_pending_def remove_pending_def silent_def split: option.split)

text \<open>The state after one entry of a response.\<close>

abbreviation accept_one :: "('f, 'r, 'a) key_env \<Rightarrow> AuthenticatedSession \<Rightarrow> PeerId \<times> bytes \<Rightarrow> ('f, 'r, 'a) KeyCache \<Rightarrow> bytes list \<times> ('f, 'r, 'a) KeyCache" where
  "accept_one E ses x s \<equiv>
     (if fst (note_response_key E ses (fst x) (snd x) s) then take_pending ses (fst x) (snd (note_response_key E ses (fst x) (snd x) s))
      else ([], snd (note_response_key E ses (fst x) (snd x) s)))"

lemma accept_Cons:
  "accept_response_keys E ses (x # es) s =
     (fst (accept_one E ses x s) @ fst (accept_response_keys E ses es (snd (accept_one E ses x s))),
      snd (accept_response_keys E ses es (snd (accept_one E ses x s))))"
  by (cases x) (simp add: prod.case_eq_if)

lemma accept_one_silent:
  assumes "silent s = silent t"
  shows "fst (accept_one E ses x s) = fst (accept_one E ses x t)" "silent (snd (accept_one E ses x s)) = silent (snd (accept_one E ses x t))"
proof -
  obtain st where t: "t = s\<lparr>kc_stats := st\<rparr>" using assms by (rule silentE)
  let ?n = "\<lambda>s. note_response_key E ses (fst x) (snd x) s"
  have same: "silent (snd (?n s)) = silent (snd (?n t))" unfolding t by (rule note_response_silent(2) [symmetric])
  then obtain st' where n: "snd (?n t) = (snd (?n s))\<lparr>kc_stats := st'\<rparr>" by (rule silentE)
  have f: "fst (?n t) = fst (?n s)" unfolding t by (rule note_response_silent(1))
  show "fst (accept_one E ses x s) = fst (accept_one E ses x t)" "silent (snd (accept_one E ses x s)) = silent (snd (accept_one E ses x t))"
    unfolding f n by (simp_all add: take_pending_silent)
qed

lemma accept_silent:
  "silent s = silent t \<Longrightarrow> fst (accept_response_keys E ses es s) = fst (accept_response_keys E ses es t) \<and>
     silent (snd (accept_response_keys E ses es s)) = silent (snd (accept_response_keys E ses es t))"
proof (induction es arbitrary: s t)
  case (Cons x es)
  note one = accept_one_silent [OF Cons.prems, of E ses x]
  from Cons.IH [OF one(2)] show ?case unfolding accept_Cons one(1) by simp
qed simp

lemma accept_one_pending: "kc_pending (snd (accept_one E ses x s)) k \<noteq> None \<Longrightarrow> kc_pending s k \<noteq> None"
proof -
  have "kc_pending (snd (note_response_key E ses (fst x) (snd x) s)) = kc_pending s"
    by (simp add: note_response_key_def note_verified_key_def Let_def)
  then show "kc_pending (snd (accept_one E ses x s)) k \<noteq> None \<Longrightarrow> kc_pending s k \<noteq> None"
    by (auto simp: take_pending_def prod.case_eq_if split: if_splits)
qed

text \<open>Entries without a pending entry have no effect, whatever else the response holds.\<close>

lemma accept_filter:
  "(\<And>i k. (i, k) \<in> set es \<Longrightarrow> kc_pending s (session_key ses i) \<noteq> None \<Longrightarrow> P (i, k)) \<Longrightarrow>
     fst (accept_response_keys E ses es s) = fst (accept_response_keys E ses (filter P es) s) \<and>
     silent (snd (accept_response_keys E ses es s)) = silent (snd (accept_response_keys E ses (filter P es) s))"
proof (induction es arbitrary: s)
  case (Cons x es)
  let ?s = "snd (accept_one E ses x s)"
  have "P (i, k)" if "(i, k) \<in> set es" "kc_pending ?s (session_key ses i) \<noteq> None" for i k
    using Cons.prems [of i k] accept_one_pending [OF that(2)] that(1) by simp
  note IH = Cons.IH [OF this]
  show ?case
  proof (cases "P x")
    case True
    then show ?thesis using IH by (simp add: accept_Cons del: accept_response_keys.simps(2))
  next
    case False
    then have "kc_pending s (session_key ses (fst x)) = None" using Cons.prems [of "fst x" "snd x"] by (cases "kc_pending s (session_key ses (fst x))") auto
    then have one: "fst (accept_one E ses x s) = []" "silent ?s = silent s" by (simp_all add: note_response_key_def)
    show ?thesis using IH accept_silent [OF one(2), of E ses "filter P es"] False one(1)
      by (simp add: accept_Cons del: accept_response_keys.simps(2))
  qed
qed simp

lemma accept_asked:
  assumes "key_env_ok E"
  shows "key_cache_ok E s \<Longrightarrow> (i, k) \<in> set (lru_iter (ke_resolved E) (kc_resolved (snd (accept_response_keys E ses es s)))) \<Longrightarrow>
    (i, k) \<in> set (lru_iter (ke_resolved E) (kc_resolved s)) \<or> (i, k) \<in> set es \<and> kc_pending s (session_key ses i) \<noteq> None"
proof (induction es arbitrary: s)
  case (Cons x es)
  obtain j k' where x: "x = (j, k')" by fastforce
  define s1 where "s1 = snd (note_response_key E ses j k' s)"
  define s2 where "s2 = (if fst (note_response_key E ses j k' s) then snd (take_pending ses j s1) else s1)"
  have s1: "key_cache_ok E s1" unfolding s1_def by (rule note_response_key_ok [OF assms Cons.prems(1)])
  have s2: "key_cache_ok E s2" using s1 take_pending_ok [OF s1] by (simp add: s2_def)
  have "snd (accept_response_keys E ses (x # es) s) = snd (accept_response_keys E ses es s2)"
    by (simp add: x s1_def s2_def prod.case_eq_if)
  then have "(i, k) \<in> set (lru_iter (ke_resolved E) (kc_resolved s2)) \<or> (i, k) \<in> set es \<and> kc_pending s2 (session_key ses i) \<noteq> None"
    using Cons.IH [OF s2] Cons.prems(2) by simp
  moreover have "kc_resolved s2 = kc_resolved s1" "kc_pending s2 (session_key ses i) \<noteq> None \<Longrightarrow> kc_pending s1 (session_key ses i) \<noteq> None"
    by (simp_all add: s2_def take_pending_def prod.case_eq_if split: if_splits)
  moreover have "kc_pending s1 = kc_pending s"
    by (simp add: s1_def note_response_key_def note_verified_key_resolved [OF assms Cons.prems(1)])
  moreover have "kc_pending s (session_key ses j) = None \<Longrightarrow> kc_resolved s1 = kc_resolved s"
    by (simp add: s1_def note_response_key_def)
  moreover have "kc_pending s (session_key ses j) \<noteq> None \<Longrightarrow>
      set (lru_iter (ke_resolved E) (kc_resolved s1)) \<subseteq> insert (j, k') (set (lru_iter (ke_resolved E) (kc_resolved s)))"
    using note_verified_key_resolved(1) [OF assms Cons.prems(1), of j k'] by (auto simp: s1_def note_response_key_def)
  ultimately show ?case unfolding x by (cases "kc_pending s (session_key ses j)") auto
qed simp

subsection \<open>The frames that waited\<close>

lemma live_at_session: "live_at (kc_sessions s) (as_peer ses) (as_generation ses) \<longleftrightarrow> live_session ses s \<noteq> None"
  by (simp add: live_at_def live_session_def split: option.split)

lemma missed_pending:
  assumes "key_env_ok E" "key_cache_ok E s" "fst (queue_miss E ses i data now s)"
  shows "kc_pending (snd (queue_miss E ses i data now s)) (session_key ses i) =
      Some \<lparr>pk_frames = pk_frames (get_or no_frames (kc_pending (expire E now s)) (session_key ses i)) @ [\<lparr>pf_bytes = data, pf_received_at = now\<rparr>],
            pk_requested = True\<rparr>"
    and "live_session ses (snd (queue_miss E ses i data now s)) \<noteq> None"
proof -
  let ?s = "snd (queue_miss E ses i data now s)" and ?k = "session_key ses i"
  show p: "kc_pending ?s ?k =
      Some \<lparr>pk_frames = pk_frames (get_or no_frames (kc_pending (expire E now s)) ?k) @ [\<lparr>pf_bytes = data, pf_received_at = now\<rparr>],
            pk_requested = True\<rparr>"
    by (simp add: queue_miss_True(6) [OF assms(3)])
  have "live_at (kc_sessions ?s) (fst ?k) (fst (snd ?k))"
    using frames_liveD [OF key_cache_okD(6) [OF queue_miss_ok [OF assms(1,2)]] p] by simp
  then show "live_session ses ?s \<noteq> None" unfolding session_key_def fst_conv snd_conv live_at_session .
qed

subsection \<open>A lost response\<close>

text \<open>What happens to one missing key of a session: frames that refer to it arrive, and the task that sends control
  messages looks at the session. The result says whether every frame was kept.\<close>

datatype miss_event = Missed bytes instant | Flushed instant

fun miss_events ::
  "('f, 'r, 'a) key_env \<Rightarrow> AuthenticatedSession \<Rightarrow> PeerId \<Rightarrow> miss_event list \<Rightarrow> ('f, 'r, 'a) KeyCache \<Rightarrow> bool \<times> ('f, 'r, 'a) KeyCache" where
  "miss_events E ses i [] s = (True, s)"
| "miss_events E ses i (Missed data now # es) s =
     (case queue_miss E ses i data now s of (was_kept, s1) \<Rightarrow> (case miss_events E ses i es s1 of (rest, s2) \<Rightarrow> (was_kept \<and> rest, s2)))"
| "miss_events E ses i (Flushed now # es) s = miss_events E ses i es (snd (next_control E ses now s))"

text \<open>No pause between two frames is as long as the five seconds after which a frame expires.\<close>

fun steady :: "instant \<Rightarrow> miss_event list \<Rightarrow> bool" where
  "steady t [] \<longleftrightarrow> True"
| "steady t (Missed data now # es) \<longleftrightarrow> now - t < PENDING_TTL \<and> steady now es"
| "steady t (Flushed now # es) \<longleftrightarrow> now - t < PENDING_TTL \<and> steady t es"

definition asked_once :: "AuthenticatedSession \<Rightarrow> PeerId \<Rightarrow> instant \<Rightarrow> ('f, 'r, 'a) KeyCache \<Rightarrow> bool" where
  "asked_once ses i t s \<longleftrightarrow>
     (case kc_pending s (session_key ses i) of
        None \<Rightarrow> False | Some e \<Rightarrow> pk_requested e \<and> pk_frames e \<noteq> [] \<and> pf_received_at (last (pk_frames e)) = t) \<and>
     (case live_session ses s of None \<Rightarrow> False | Some st \<Rightarrow> i \<notin> ss_queued_requests st)"

lemma expire_key_session:
  "live_session ses s = Some st \<Longrightarrow> \<exists>st'. live_session ses (expire_key now k s) = Some st' \<and> ss_queued_requests st' \<subseteq> ss_queued_requests st"
  by (cases "kc_pending s k") (auto simp: expire_key_def Let_def live_session_Some split: option.split)

lemma expire_session:
  assumes "live_session ses s = Some st"
  shows "\<exists>st'. live_session ses (expire E now s) = Some st' \<and> ss_queued_requests st' \<subseteq> ss_queued_requests st"
proof -
  let ?Q = "\<lambda>s. \<exists>st'. live_session ses s = Some st' \<and> ss_queued_requests st' \<subseteq> ss_queued_requests st"
  have "?Q (fold (expire_key now) ks s')" if "?Q s'" for ks s'
    using that by (rule fold_invariant) (meson expire_key_session order_trans)
  then show ?thesis unfolding expire_def using assms by blast
qed

lemma expire_asked_once:
  assumes "key_env_ok E" "key_cache_ok E s" "asked_once ses i t s" "now - t < PENDING_TTL"
  shows "asked_once ses i t (expire E now s)"
proof -
  obtain e st where e: "kc_pending s (session_key ses i) = Some e" "pk_requested e" "pk_frames e \<noteq> []" "pf_received_at (last (pk_frames e)) = t"
    and st: "live_session ses s = Some st" "i \<notin> ss_queued_requests st"
    using assms(3) by (auto simp: asked_once_def split: option.splits)
  have "\<not> frame_expired now (last (pk_frames e))" using assms(4) e(4) by (simp add: frame_expired_def)
  then have "dropWhile (frame_expired now) (pk_frames e) \<noteq> []" using e(3) by (auto simp: dropWhile_eq_Nil_conv)
  moreover from this have "last (dropWhile (frame_expired now) (pk_frames e)) = last (pk_frames e)"
    by (metis last_append takeWhile_dropWhile_id)
  moreover obtain st' where "live_session ses (expire E now s) = Some st'" "ss_queued_requests st' \<subseteq> ss_queued_requests st"
    using expire_session [OF st(1)] by blast
  ultimately show ?thesis
    using e st(2) by (auto simp: asked_once_def expire_pending [OF assms(1,2)] unexpired_entry_def Let_def)
qed

lemma queue_miss_asked_once:
  assumes "key_env_ok E" "key_cache_ok E s" "asked_once ses i t s" "now - t < PENDING_TTL" "fst (queue_miss E ses i data now s)"
  shows "asked_once ses i now (snd (queue_miss E ses i data now s))"
proof -
  let ?s = "expire E now s" and ?k = "session_key ses i" and ?q = "snd (queue_miss E ses i data now s)"
  have A: "asked_once ses i t ?s" by (rule expire_asked_once [OF assms(1-4)])
  then obtain e where e: "kc_pending ?s ?k = Some e" "pk_requested e" by (auto simp: asked_once_def split: option.splits)
  then have "request_key ses i (get_or no_frames (kc_pending ?s) ?k) ?s = (True, ?s)" by (simp add: request_key_def get_or_Some)
  then have "kc_sessions ?q = kc_sessions ?s" using queue_miss_True(12) [OF assms(5)] by simp
  then have "live_session ses ?q = live_session ses ?s" by (simp add: live_session_def)
  then show ?thesis using A missed_pending(1) [OF assms(1,2,5)] by (simp add: asked_once_def split: option.splits)
qed

lemma next_control_asked_once:
  assumes "key_env_ok E" "key_cache_ok E s" "asked_once ses i t s" "now - t < PENDING_TTL"
  shows "asked_once ses i t (snd (next_control E ses now s))"
proof -
  let ?s = "expire E now s"
  have A: "asked_once ses i t ?s" by (rule expire_asked_once [OF assms])
  then obtain st where st: "live_session ses ?s = Some st" "i \<notin> ss_queued_requests st" by (auto simp: asked_once_def split: option.splits)
  have put: "asked_once ses i t s'"
    if "kc_pending s' = kc_pending ?s" "kc_sessions s' = (kc_sessions ?s)(as_peer ses \<mapsto> st')" "ss_generation st' = ss_generation st"
      "ss_queued_requests st' \<subseteq> ss_queued_requests st" for s' :: "('a, 'b, 'c) KeyCache" and st'
    using that A st by (auto simp: asked_once_def live_session_Some live_session_def split: option.splits if_splits)
  define st1 where "st1 = snd (consume_token E now st)"
  note C = consume_token_same [of E now st, folded st1_def]
  have steps: "asked_once ses i t (put_session ses st1 ?s)" "asked_once ses i t (put_session ses (st1\<lparr>ss_hello_pending := True\<rparr>) ?s)"
    "asked_once ses i t (bump c n (put_session ses (st1\<lparr>ss_queued_requests := ss_queued_requests st1 - Q\<rparr>) ?s))"
    "asked_once ses i t (put_session ses (st1\<lparr>ss_queued_responses := R\<rparr>) ?s\<lparr>kc_resolved := l\<rparr>)"
    "asked_once ses i t (bump c n (put_session ses (st1\<lparr>ss_queued_responses := R\<rparr>) ?s\<lparr>kc_resolved := l\<rparr>))"
    "asked_once ses i t (put_session ses (st1\<lparr>ss_queued_acks := R\<rparr>) ?s)" for c n Q R l
    by (rule put, simp, simp, auto simp: C)+
  show ?thesis
    unfolding next_control_def Let_def st(1) option.case prod.case_eq_if take_ids_def st1_def [symmetric]
    by (simp add: A steps)
qed


text \<open>A session that has asked for a key and misses it once more.\<close>

definition demo_greeted where
  "demo_greeted = control_result demo_session (Hello 1) True (snd (apply_control demo_key_env demo_session (Hello 1) 15 demo_missed))"

definition demo_asked where
  "demo_asked = snd (next_control demo_key_env demo_session 20 demo_greeted)"

definition demo_waiting :: PendingKey where
  "demo_waiting = \<lparr>pk_frames = [\<lparr>pf_bytes = [1, 2, 3], pf_received_at = 10\<rparr>], pk_requested = True\<rparr>"

lemma demo_missed_view:
  "kc_pending demo_missed = [session_key demo_session demo_key_id \<mapsto> demo_waiting]"
  "kc_sessions demo_missed = [PeerId [2] \<mapsto> (session_new demo_key_env 7 0)\<lparr>ss_queued_requests := {demo_key_id}\<rparr>]"
  "kc_pending_frames demo_missed = 1" "kc_pending_bytes demo_missed = 3"
proof -
  note Q = queue_miss_True [OF demo_queued, folded demo_missed_def, unfolded demo_expire]
  have e: "get_or no_frames (kc_pending demo_observed) (session_key demo_session demo_key_id) = no_frames"
    by (simp add: demo_observed_eq key_cache_default_def get_or_None)
  have "snd (request_key demo_session demo_key_id no_frames demo_observed) =
      put_session demo_session ((session_new demo_key_env 7 0)\<lparr>ss_queued_requests := {demo_key_id}\<rparr>) demo_observed"
    by (simp add: request_key_def no_frames_def live_session_def demo_observed_eq demo_session_def session_new_def MAX_QUEUED_IDS_PER_SESSION_def)
  note Q' = Q [unfolded e, unfolded this]
  show "kc_pending demo_missed = [session_key demo_session demo_key_id \<mapsto> demo_waiting]"
    "kc_sessions demo_missed = [PeerId [2] \<mapsto> (session_new demo_key_env 7 0)\<lparr>ss_queued_requests := {demo_key_id}\<rparr>]"
    "kc_pending_frames demo_missed = 1" "kc_pending_bytes demo_missed = 3"
    using Q'(6-8,12) by (simp_all add: demo_observed_eq key_cache_default_def no_frames_def demo_waiting_def demo_session_def)
qed

text \<open>C37: of a response of a neighbour only the entries count whose key has a pending entry of this very session: every key that is known
  afterwards was known before or belongs to such an entry, and the response does exactly what the same response without its other
  entries does, the released frames and the whole state of the cache but for its statistics. A pending entry
  is made by a frame that misses the key; the cache keeps it also when the frame is refused because no more requests fit into the
  queue of the session.\<close>

theorem response_keys_solicited:
  assumes "key_env_ok E" "key_reachable E s"
  shows "((i, k) \<in> set (lru_iter (ke_resolved E) (kc_resolved (snd (apply_control E ses (ResponseKeys es) now s)))) \<longrightarrow>
      (i, k) \<in> set (lru_iter (ke_resolved E) (kc_resolved s)) \<or> (i, k) \<in> set es \<and> kc_pending s (session_key ses i) \<noteq> None) \<and>
    (let waited = filter (\<lambda>(i, k). kc_pending s (session_key ses i) \<noteq> None) es;
         response = apply_control E ses (ResponseKeys es) now s; solicited = apply_control E ses (ResponseKeys waited) now s
     in fst response = fst solicited \<and> silent (snd response) = silent (snd solicited))"
proof -
  have ok: "key_cache_ok E s" by (rule reachable_ok [OF assms(2,1)])
  define s1 where "s1 = observe_session E ses now s"
  have s1: "key_cache_ok E s1" unfolding s1_def by (rule observe_session_ok [OF assms(1) ok])
  note F = observe_session_frame [OF assms(1) ok, of ses now, folded s1_def]
  have pend: "kc_pending s1 q \<noteq> None \<Longrightarrow> kc_pending s q \<noteq> None" for q using F(2) [of q] by fastforce
  have ap: "apply_control E ses (ResponseKeys es) now s = accept_response_keys E ses es s1" for es
    by (simp add: apply_control_def s1_def)
  have "fst (accept_response_keys E ses es s1) =
        fst (accept_response_keys E ses (filter (\<lambda>(i, k). kc_pending s (session_key ses i) \<noteq> None) es) s1) \<and>
      silent (snd (accept_response_keys E ses es s1)) =
        silent (snd (accept_response_keys E ses (filter (\<lambda>(i, k). kc_pending s (session_key ses i) \<noteq> None) es) s1))"
    by (rule accept_filter) (use pend in auto)
  then show ?thesis unfolding ap Let_def F(1) [symmetric]
    using accept_asked [OF assms(1) s1, of i k ses es] pend [of "session_key ses i"] by blast
qed

text \<open>One of two entries was waited for.\<close>

theorem response_keys_solicited_witness:
  "(let k = replicate KEY_BYTES 2; response = apply_control demo_key_env demo_session (ResponseKeys [(PeerId [7], [7]), (demo_key_id, k)]) 20 demo_missed
    in (demo_key_id, k) \<in> set (lru_iter (ke_resolved demo_key_env) (kc_resolved (snd response))) \<and>
       (demo_key_id, k) \<notin> set (lru_iter (ke_resolved demo_key_env) (kc_resolved demo_missed)) \<and>
       kc_pending demo_missed (session_key demo_session demo_key_id) \<noteq> None \<and> fst response = [[1, 2, 3]])"
proof -
  let ?k = "replicate KEY_BYTES (2 :: u8)" and ?es = "[(PeerId [7], [7]), (demo_key_id, replicate KEY_BYTES 2)]"
  let ?known = "\<lambda>s. set (lru_iter (ke_resolved demo_key_env) (kc_resolved s))"
  have ok: "key_cache_ok demo_key_env demo_missed" by (rule reachable_ok [OF demo_reachable(2) demo_key_env_ok])
  have k: "length ?k = KEY_BYTES" "key_id_of (ke_postcard demo_key_env) ?k = demo_key_id" by (simp_all add: demo_key_env_def demo_postcard_facts)
  note N = note_verified_key_resolved(2) [OF demo_key_env_ok ok k] note_verified_key_resolved(3) [OF demo_key_env_ok ok]
  have p: "kc_pending demo_missed (session_key demo_session demo_key_id) = Some demo_waiting" by (simp add: demo_missed_view)
  have "PeerId [7] \<noteq> demo_key_id" by (simp add: demo_key_id_def numeral_eq_Suc)
  then have q: "kc_pending demo_missed (session_key demo_session (PeerId [7])) = None" by (simp add: demo_missed_view session_key_def)
  have obs: "observe_session demo_key_env demo_session 20 demo_missed = demo_missed"
    by (simp add: observe_session_def live_session_def demo_missed_view demo_session_def session_new_def)
  have one: "apply_control demo_key_env demo_session (ResponseKeys [(demo_key_id, ?k)]) 20 demo_missed =
      ([[1, 2, 3]], snd (remove_pending (session_key demo_session demo_key_id) (note_verified_key demo_key_env demo_key_id ?k None demo_missed)))"
    using p N(2) by (simp add: apply_control_def obs note_response_key_def take_pending_def remove_pending_def demo_waiting_def)
  have res: "fst (apply_control demo_key_env demo_session (ResponseKeys ?es) 20 demo_missed) = [[1, 2, 3]]"
    "silent (snd (apply_control demo_key_env demo_session (ResponseKeys ?es) 20 demo_missed)) =
     silent (snd (apply_control demo_key_env demo_session (ResponseKeys [(demo_key_id, ?k)]) 20 demo_missed))"
    using response_keys_solicited [OF demo_key_env_ok demo_reachable(2), of demo_key_id ?k demo_session ?es 20] p q by (simp_all add: one Let_def)
  then have "kc_resolved (snd (apply_control demo_key_env demo_session (ResponseKeys ?es) 20 demo_missed)) =
      kc_resolved (note_verified_key demo_key_env demo_key_id ?k None demo_missed)"
    unfolding one by (auto simp: silent_def dest: arg_cong [where f = kc_resolved])
  then have "(demo_key_id, ?k) \<in> ?known (snd (apply_control demo_key_env demo_session (ResponseKeys ?es) 20 demo_missed))" using N(1) by simp
  moreover have "kc_resolved demo_missed = lru_new (ke_resolved demo_key_env) (lru_capacity 2048)"
    using queue_miss_True(9) [OF demo_queued, folded demo_missed_def, unfolded demo_expire]
    by (simp add: request_key_frame demo_observed_eq key_cache_default_def)
  then have "?known demo_missed = {}" by (simp add: lru_map.new_fits(2) [OF key_env_okD(1) [OF demo_key_env_ok]])
  ultimately show ?thesis using p res(1) by (simp add: Let_def)
qed

lemma demo_expire_one:
  assumes "kc_pending s = [session_key demo_session demo_key_id \<mapsto> demo_waiting]" "now < 5000"
  shows "expire demo_key_env now s = bump ks_pending_timeouts_update 0 s"
proof -
  have "\<not> frame_expired now \<lparr>pf_bytes = [1, 2, 3], pf_received_at = 10\<rparr>" using assms(2) by (simp add: frame_expired_def PENDING_TTL_def)
  then show ?thesis
    by (simp add: expire_def demo_key_env_def assms(1) expire_key_def Let_def demo_waiting_def)
      (rule KeyCache.equality; simp add: assms(1) demo_waiting_def bump_def)
qed

lemma demo_asked_view:
  "kc_pending demo_asked = [session_key demo_session demo_key_id \<mapsto> demo_waiting]"
  "\<exists>st. live_session demo_session demo_asked = Some st \<and> ss_queued_requests st = {}"
  "kc_pending_frames demo_asked = 1" "kc_pending_bytes demo_asked = 3" "key_reachable demo_key_env demo_asked"
proof -
  define st where "st = (session_new demo_key_env 7 0)\<lparr>ss_queued_requests := {demo_key_id}, ss_hello_received := True, ss_hello_sent := True\<rparr>"
  have live: "live_session demo_session demo_missed = Some ((session_new demo_key_env 7 0)\<lparr>ss_queued_requests := {demo_key_id}\<rparr>)"
    by (simp add: live_session_Some demo_missed_view demo_session_def session_new_def)
  have hello: "snd (apply_control demo_key_env demo_session (Hello 1) 15 demo_missed) =
      put_session demo_session ((session_new demo_key_env 7 0)\<lparr>ss_queued_requests := {demo_key_id}, ss_hello_received := True\<rparr>) demo_missed"
    by (simp add: apply_control_def observe_session_def live received_hello_def Let_def)
  have put: "live_session demo_session (put_session demo_session x s) = Some x" if "ss_generation x = 7" for x s
    using that by (simp add: live_session_Some) (simp add: demo_session_def)
  have g: "demo_greeted = put_session demo_session st demo_missed"
    unfolding demo_greeted_def hello control_result_def
    by (subst put) (simp_all add: session_new_def st_def put_session_def)
  have p: "kc_pending demo_greeted = [session_key demo_session demo_key_id \<mapsto> demo_waiting]" by (simp add: g demo_missed_view)
  have "live_session demo_session (bump c n demo_greeted) = Some st" for c n
    by (simp add: live_session_Some g demo_session_def st_def session_new_def)
  moreover have "ss_hello_sent st" "ss_hello_received st" "ss_queued_requests st = {demo_key_id}" "ss_generation st = 7" by (simp_all add: st_def session_new_def)
  moreover have ids: "take_ids demo_key_env {demo_key_id} = ([demo_key_id], {})"
    by (simp add: take_ids_def demo_key_env_def MAX_CONTROL_ITEMS_def)
  moreover have "fst (consume_token demo_key_env 20 st)"
    by (simp add: consume_token_def demo_key_env_def st_def session_new_def Let_def)
  ultimately have a: "demo_asked = bump ks_requests_update 1
      (put_session demo_session ((snd (consume_token demo_key_env 20 st))\<lparr>ss_queued_requests := {}\<rparr>) (bump ks_pending_timeouts_update 0 demo_greeted))"
    by (simp add: demo_asked_def next_control_def demo_expire_one [OF p] prod.case_eq_if Let_def ids consume_token_same)
  show "kc_pending demo_asked = [session_key demo_session demo_key_id \<mapsto> demo_waiting]" "kc_pending_frames demo_asked = 1" "kc_pending_bytes demo_asked = 3"
    by (simp_all add: a g demo_missed_view)
  show "\<exists>st. live_session demo_session demo_asked = Some st \<and> ss_queued_requests st = {}"
    by (simp add: a live_session_Some consume_token_same \<open>ss_generation st = 7\<close> demo_session_def)
  have "key_reachable demo_key_env demo_greeted" unfolding demo_greeted_def
    by (rule key_reachable.more [OF key_reachable.more [OF demo_reachable(2) key_step.control] key_step.result])
  then show "key_reachable demo_key_env demo_asked" unfolding demo_asked_def by (rule key_reachable.more [OF _ key_step.flush])
qed

lemma demo_missed_again: "fst (queue_miss demo_key_env demo_session demo_key_id [4] 30 demo_asked)"
proof -
  note V = demo_asked_view
  let ?s = "bump ks_pending_timeouts_update 0 demo_asked"
  have "session_entries demo_key_env demo_session ?s = [demo_waiting]"
    by (simp add: session_entries_def demo_key_env_def V(1) List.map_filter_simps session_key_def)
  moreover have "fst (request_key demo_session demo_key_id demo_waiting ?s)" by (simp add: request_key_def demo_waiting_def)
  ultimately show ?thesis
    unfolding queue_miss_def Let_def demo_expire_one [OF V(1), of 30, simplified] prod.case_eq_if
    by (simp add: V get_or_Some demo_waiting_def frame_bytes_def MAX_PENDING_PER_SESSION_def MAX_PENDING_BYTES_PER_SESSION_def MAX_PENDING_GLOBAL_def
        MAX_PENDING_BYTES_GLOBAL_def u64_sat_add_def u64_max_def)
qed


end
