(* ===== verification/Key_Waiting.thy ===== *)
theory Key_Waiting
  imports Key_Promises
begin

text \<open>
  The frames that wait for a key, as an abstract waiting room: for every peer its current session, and for
  every key of a session the queue of its frames. Every critical section of the sender key cache is one event of the
  room, and a run of the cache is refined by the run of the room with the same events, with every frame that it releases.
\<close>

subsection \<open>Events of the cache\<close>

datatype key_event =
    SessionObserved AuthenticatedSession instant
  | SessionStale AuthenticatedSession
  | FrameMissed AuthenticatedSession PeerId bytes instant
  | ControlReceived AuthenticatedSession Control instant
  | ControlTaken AuthenticatedSession instant
  | ControlSent AuthenticatedSession Control bool
  | KeyVerified PeerId bytes "AuthenticatedSession option"
  | KeyLookedUp PeerId
  | ReferenceChecked AuthenticatedSession PeerId
  | OutboundRecorded bool nat
  | InboundRecorded bool nat
  | CriticalMismatch
  | MalformedControl
  | HashMismatched
  | FrameReplayed bool

text \<open>An event results in whether its frame was kept, if it brings one, and in the frames that are released.\<close>

fun key_event_step :: "('f, 'r, 'a) key_env \<Rightarrow> key_event \<Rightarrow> ('f, 'r, 'a) KeyCache \<Rightarrow> (bool \<times> bytes list) \<times> ('f, 'r, 'a) KeyCache" where
  "key_event_step E (SessionObserved ses now) s = ((False, []), observe_session E ses now s)"
| "key_event_step E (SessionStale ses) s = ((False, []), forget_stale E ses s)"
| "key_event_step E (FrameMissed ses i data now) s = (case queue_miss E ses i data now s of (was_kept, s1) \<Rightarrow> ((was_kept, []), s1))"
| "key_event_step E (ControlReceived ses c now) s = (case apply_control E ses c now s of (frames, s1) \<Rightarrow> ((False, frames), s1))"
| "key_event_step E (ControlTaken ses now) s = ((False, []), snd (next_control E ses now s))"
| "key_event_step E (ControlSent ses c sent) s = ((False, []), control_result ses c sent s)"
| "key_event_step E (KeyVerified i k session) s = ((False, []), note_verified_key E i k session s)"
| "key_event_step E (KeyLookedUp i) s = ((False, []), snd (lookup_key E i s))"
| "key_event_step E (ReferenceChecked ses i) s = ((False, []), snd (supports_ref E ses i s))"
| "key_event_step E (OutboundRecorded reference n) s = ((False, []), record_outbound_frame reference n s)"
| "key_event_step E (InboundRecorded reference n) s = ((False, []), record_inbound_frame reference n s)"
| "key_event_step E CriticalMismatch s = ((False, []), record_critical_ref_mismatch s)"
| "key_event_step E MalformedControl s = ((False, []), malformed_control s)"
| "key_event_step E HashMismatched s = ((False, []), hash_mismatch s)"
| "key_event_step E (FrameReplayed success) s = ((False, []), replay_result success s)"

fun key_events :: "('f, 'r, 'a) key_env \<Rightarrow> key_event list \<Rightarrow> ('f, 'r, 'a) KeyCache \<Rightarrow> (bool \<times> bytes list) list \<times> ('f, 'r, 'a) KeyCache" where
  "key_events E [] s = ([], s)"
| "key_events E (x # xs) s =
     (case key_event_step E x s of (out, s1) \<Rightarrow> (case key_events E xs s1 of (outs, s2) \<Rightarrow> (out # outs, s2)))"

lemma key_event_step_step: "key_step E s (snd (key_event_step E x s))"
  by (cases x) (auto simp: prod.case_eq_if intro: key_step.intros)

lemma event_results:
  "snd (key_event_step E (FrameMissed ses i data now) s) = snd (queue_miss E ses i data now s)"
  "snd (key_event_step E (ControlReceived ses c now) s) = snd (apply_control E ses c now s)"
  by (simp_all add: prod.case_eq_if)

lemma key_step_event: "key_step E s s' \<Longrightarrow> \<exists>x. s' = snd (key_event_step E x s)"
  by (erule key_step.cases) (metis event_results key_event_step.simps(1,2,5-15) snd_conv)+

subsection \<open>The waiting room\<close>

record waiting_room =
  wr_session :: "PeerId \<rightharpoonup> nat"
  wr_frames :: "pending_key \<Rightarrow> PendingFrame list"

definition room_of :: "('f, 'r, 'a) KeyCache \<Rightarrow> waiting_room" where
  "room_of s =
     \<lparr>wr_session = \<lambda>p. map_option ss_generation (kc_sessions s p),
      wr_frames = \<lambda>k. case kc_pending s k of None \<Rightarrow> [] | Some e \<Rightarrow> pk_frames e\<rparr>"

definition room_empty :: "PeerId \<Rightarrow> waiting_room \<Rightarrow> waiting_room" where
  "room_empty p r = r\<lparr>wr_session := map_remove p (wr_session r), wr_frames := \<lambda>k. if fst k = p then [] else wr_frames r k\<rparr>"

text \<open>The frames that waited in an older session of the peer are gone.\<close>

definition room_observe :: "AuthenticatedSession \<Rightarrow> waiting_room \<Rightarrow> waiting_room" where
  "room_observe ses r =
     (if wr_session r (as_peer ses) = Some (as_generation ses) then r
      else let r1 = (if wr_session r (as_peer ses) \<noteq> None then room_empty (as_peer ses) r else r)
           in if card (dom (wr_session r1)) < MAX_SESSIONS
              then r1\<lparr>wr_session := (wr_session r1)(as_peer ses \<mapsto> as_generation ses)\<rparr> else r1)"

text \<open>From every queue the expired frames at its front go.\<close>

definition room_expire :: "instant \<Rightarrow> waiting_room \<Rightarrow> waiting_room" where
  "room_expire now r = r\<lparr>wr_frames := \<lambda>k. dropWhile (frame_expired now) (wr_frames r k)\<rparr>"

fun room_release :: "AuthenticatedSession \<Rightarrow> PeerId list \<Rightarrow> waiting_room \<Rightarrow> bytes list \<times> waiting_room" where
  "room_release ses [] r = ([], r)"
| "room_release ses (i # ids) r =
     (case room_release ses ids (r\<lparr>wr_frames := (wr_frames r)(session_key ses i := [])\<rparr>) of
        (frames, r1) \<Rightarrow> (map pf_bytes (wr_frames r (session_key ses i)) @ frames, r1))"

fun room_step :: "key_event \<Rightarrow> bool \<Rightarrow> waiting_room \<Rightarrow> bytes list \<times> waiting_room" where
  "room_step (SessionObserved ses now) was_kept r = ([], room_observe ses r)"
| "room_step (SessionStale ses) was_kept r =
     ([], if wr_session r (as_peer ses) = Some (as_generation ses) then room_empty (as_peer ses) r else r)"
| "room_step (FrameMissed ses i data now) was_kept r =
     (let r1 = room_expire now r; k = session_key ses i
      in ([], if was_kept then r1\<lparr>wr_frames := (wr_frames r1)(k := wr_frames r1 k @ [\<lparr>pf_bytes = data, pf_received_at = now\<rparr>])\<rparr> else r1))"
| "room_step (ControlReceived ses c now) was_kept r =
     (case c of ResponseKeys es \<Rightarrow> room_release ses (map fst es) (room_observe ses r) | _ \<Rightarrow> ([], room_observe ses r))"
| "room_step (ControlTaken ses now) was_kept r = ([], room_expire now r)"
| "room_step _ was_kept r = ([], r)"

fun room_steps :: "key_event list \<Rightarrow> bool list \<Rightarrow> waiting_room \<Rightarrow> bytes list list \<times> waiting_room" where
  "room_steps (x # xs) (b # bs) r =
     (case room_step x b r of (frames, r1) \<Rightarrow> (case room_steps xs bs r1 of (rest, r2) \<Rightarrow> (frames # rest, r2)))"
| "room_steps _ _ r = ([], r)"

subsection \<open>The refinement\<close>

lemma room_of_bump [simp]: "room_of (bump c n s) = room_of s"
  by (simp add: room_of_def)

lemma room_same: "kc_sessions s' = kc_sessions s \<Longrightarrow> kc_pending s' = kc_pending s \<Longrightarrow> room_of s' = room_of s"
  by (simp add: room_of_def)

lemma room_live: "live_session ses s \<noteq> None \<longleftrightarrow> wr_session (room_of s) (as_peer ses) = Some (as_generation ses)"
  by (auto simp: live_session_def room_of_def split: option.split)

lemma room_put:
  assumes "live_session ses s = Some st" "ss_generation st' = ss_generation st"
  shows "room_of (put_session ses st' s) = room_of s"
  using assms by (auto simp: room_of_def live_session_Some)

lemma room_clear:
  assumes "key_env_ok E" "key_cache_ok E s"
  shows "room_of (clear_peer E p s) = room_empty p (room_of s)"
proof -
  note V = clear_peer_view(1,2) [OF assms(1) key_cache_okD(5) [OF assms(2)]]
  show ?thesis unfolding room_of_def room_empty_def by (auto simp: V fun_eq_iff split: option.split)
qed

lemma room_observe_session:
  assumes "key_env_ok E" "key_cache_ok E s"
  shows "room_of (observe_session E ses now s) = room_observe ses (room_of s)"
proof -
  define s1 where "s1 = (if kc_sessions s (as_peer ses) \<noteq> None then clear_peer E (as_peer ses) s else s)"
  have r1: "room_of s1 = (if wr_session (room_of s) (as_peer ses) \<noteq> None then room_empty (as_peer ses) (room_of s) else room_of s)"
    using room_clear [OF assms, of "as_peer ses"] room_of_def [of s, THEN arg_cong [where f = wr_session]] by (simp add: s1_def)
  have "dom (wr_session (room_of s1)) = dom (kc_sessions s1)" by (auto simp: room_of_def)
  moreover have "room_of (put_session ses (session_new E (as_generation ses) now) s1) =
      (room_of s1)\<lparr>wr_session := (wr_session (room_of s1))(as_peer ses \<mapsto> as_generation ses)\<rparr>"
    by (auto simp: room_of_def session_new_def)
  ultimately show ?thesis
    unfolding observe_session_def room_observe_def Let_def room_live s1_def [symmetric] r1 [symmetric] by simp
qed

lemma expire_key_room_session: "wr_session (room_of (expire_key now k s)) = wr_session (room_of s)"
  by (cases "kc_pending s k") (auto simp: expire_key_def Let_def room_of_def split: option.split)

lemma expire_room_session: "wr_session (room_of (expire E now s)) = wr_session (room_of s)"
proof -
  have "wr_session (room_of (fold (expire_key now) ks s)) = wr_session (room_of s)" for ks
    by (induction ks arbitrary: s) (simp_all add: expire_key_room_session)
  then show ?thesis by (simp add: expire_def)
qed

lemma room_of_expire:
  assumes "key_env_ok E" "key_cache_ok E s"
  shows "room_of (expire E now s) = room_expire now (room_of s)"
proof (rule waiting_room.equality)
  show "wr_frames (room_of (expire E now s)) = wr_frames (room_expire now (room_of s))"
    by (rule ext)
      (simp add: room_of_def room_expire_def expire_pending [OF assms] unexpired_entry_def Let_def del: dropWhile_eq_Nil_conv split: option.split bind_splits)
qed (simp_all add: expire_room_session room_expire_def)

lemma room_request_key: "room_of (snd (request_key ses i e s)) = room_of s"
  by (auto simp: request_key_def room_put split: option.split)

lemma room_queue_miss:
  assumes "key_env_ok E" "key_cache_ok E s"
  shows "room_of (snd (queue_miss E ses i data now s)) = snd (room_step (FrameMissed ses i data now) (fst (queue_miss E ses i data now s)) (room_of s))"
proof -
  let ?s = "expire E now s" and ?k = "session_key ses i" and ?q = "queue_miss E ses i data now s"
  define e where "e = get_or no_frames (kc_pending ?s) ?k"
  have e: "pk_frames e = wr_frames (room_of ?s) ?k" by (simp add: e_def get_or_def room_of_def no_frames_def split: option.split)
  have set: "room_of (x\<lparr>kc_pending := (kc_pending y)(?k \<mapsto> \<lparr>pk_frames = fs, pk_requested = b\<rparr>)\<rparr>) =
      (room_of y)\<lparr>wr_frames := (wr_frames (room_of y))(?k := fs)\<rparr>" if "kc_sessions x = kc_sessions y" for x y :: "('a, 'b, 'c) KeyCache" and fs b
    using that by (auto simp: room_of_def fun_eq_iff)
  note expired = room_of_expire [OF assms, of now]
  show ?thesis
  proof (cases "fst ?q")
    case True
    note Q = queue_miss_True [OF True, folded e_def]
    let ?s1 = "snd (request_key ses i e ?s)"
    have "room_of (snd ?q) = room_of (?s1\<lparr>kc_pending := kc_pending (snd ?q)\<rparr>)" by (simp add: room_of_def Q(12))
    also have "\<dots> = (room_of ?s1)\<lparr>wr_frames := (wr_frames (room_of ?s1))(?k := pk_frames e @ [\<lparr>pf_bytes = data, pf_received_at = now\<rparr>])\<rparr>"
      unfolding Q(6) by (rule set) simp
    finally show ?thesis using True by (simp add: room_request_key e expired Let_def)
  next
    case False
    have "room_of (?s\<lparr>kc_pending := (kc_pending ?s)(?k \<mapsto> e\<lparr>pk_requested := False\<rparr>)\<rparr>) = room_of ?s"
      using set [of ?s ?s "pk_frames e" False] e by (cases e) simp
    then have "room_of (snd ?q) = room_of ?s" using queue_miss_False [OF False, folded e_def] by fastforce
    then show ?thesis using False by (simp add: expired Let_def)
  qed
qed

lemma room_next_control:
  assumes "key_env_ok E" "key_cache_ok E s"
  shows "room_of (snd (next_control E ses now s)) = room_expire now (room_of s)"
proof -
  let ?s = "expire E now s"
  show ?thesis
  proof (cases "live_session ses ?s")
    case None
    then show ?thesis by (simp add: next_control_def Let_def room_of_expire [OF assms])
  next
    case (Some st)
    define st1 where "st1 = snd (consume_token E now st)"
    have gen: "ss_generation st1 = ss_generation st" by (simp add: st1_def consume_token_same)
    have put: "room_of (put_session ses st' ?s) = room_of ?s" "room_of (put_session ses st' ?s\<lparr>kc_resolved := l\<rparr>) = room_of ?s"
      if "ss_generation st' = ss_generation st" for st' l
      using room_put [OF Some that] by (simp_all add: room_of_def)
    show ?thesis
      unfolding next_control_def Let_def Some option.case prod.case_eq_if take_ids_def st1_def [symmetric]
      by (simp add: put gen room_of_expire [OF assms])
  qed
qed

lemma room_control_result: "room_of (control_result ses c sent s) = room_of s"
  by (cases "live_session ses s") (auto simp: control_result_def room_put split: Control.split)

lemma room_note_verified: "room_of (note_verified_key E i k session s) = room_of s"
proof -
  have put: "live_session ses s' = Some st \<Longrightarrow> room_of s' = room_of s \<Longrightarrow> room_of (put_session ses (st\<lparr>ss_queued_acks := Q\<rparr>) s') = room_of s"
    for ses s' st Q by (simp add: room_put)
  have set: "room_of (x\<lparr>kc_resolved := l\<rparr>) = room_of x" "room_of (x\<lparr>kc_announced_inbound := a\<rparr>) = room_of x" for x :: "('a, 'b, 'c) KeyCache" and l a
    by (simp_all add: room_of_def)
  show ?thesis unfolding note_verified_key_def Let_def
    by (auto simp: set put split: option.split)
qed

lemma room_accept:
  "room_release ses (map fst es) (room_of s) = (fst (accept_response_keys E ses es s), room_of (snd (accept_response_keys E ses es s)))"
proof (induction es arbitrary: s)
  case (Cons x es)
  obtain i k where x: "x = (i, k)" by fastforce
  let ?key = "session_key ses i"
  define s1 where "s1 = snd (note_response_key E ses i k s)"
  define q where "q = (if fst (note_response_key E ses i k s) then take_pending ses i s1 else ([], s1))"
  have r1: "room_of s1 = room_of s" by (simp add: s1_def note_response_key_def room_note_verified)
  have "kc_pending s1 = kc_pending s"
    by (simp add: s1_def note_response_key_def note_verified_key_def Let_def)
  then have "fst q = map pf_bytes (wr_frames (room_of s) ?key) \<and> kc_pending (snd q) = map_remove ?key (kc_pending s) \<and> kc_sessions (snd q) = kc_sessions s1"
    by (auto simp: q_def note_response_key_def take_pending_def room_of_def prod.case_eq_if map_remove_absent remove_pending_def split: option.split)
  then have q: "fst q = map pf_bytes (wr_frames (room_of s) ?key)"
    "room_of (snd q) = (room_of s)\<lparr>wr_frames := (wr_frames (room_of s))(?key := [])\<rparr>"
    using r1 by (auto simp: room_of_def fun_eq_iff)
  show ?case using Cons.IH [of "snd q"]
    by (simp add: x q_def [symmetric] s1_def [symmetric] q prod.case_eq_if)
qed simp

lemma room_apply_control:
  assumes "key_env_ok E" "key_cache_ok E s"
  shows "room_step (ControlReceived ses c now) b (room_of s) = (fst (apply_control E ses c now s), room_of (snd (apply_control E ses c now s)))"
proof -
  define s1 where "s1 = observe_session E ses now s"
  have r1: "room_observe ses (room_of s) = room_of s1" by (simp add: s1_def room_observe_session [OF assms])
  have "room_of (acknowledge E ses ids s1) = room_of s1" for ids by (simp add: acknowledge_def room_of_def)
  then show ?thesis
    by (auto simp: apply_control_def Let_def s1_def [symmetric] r1 room_accept received_hello_def queue_responses_def room_put split: Control.split option.split)
qed

lemma room_refines:
  assumes "key_env_ok E" "key_cache_ok E s"
  shows "room_step x (fst (fst (key_event_step E x s))) (room_of s) = (snd (fst (key_event_step E x s)), room_of (snd (key_event_step E x s)))"
proof (cases x)
  case (ControlReceived ses c now)
  then show ?thesis using room_apply_control [OF assms, of ses c now] by (simp add: prod.case_eq_if del: room_step.simps)
next
  case (FrameMissed ses i data now)
  then show ?thesis using room_queue_miss [OF assms, of ses i data now] by (simp add: prod.case_eq_if Let_def)
qed (auto simp: room_observe_session [OF assms] forget_stale_def room_clear [OF assms] room_live [symmetric] room_next_control [OF assms]
    room_control_result room_note_verified supports_ref_def lookup_key_def prod.case_eq_if record_outbound_frame_def record_inbound_frame_def
    record_critical_ref_mismatch_def malformed_control_def hash_mismatch_def replay_result_def intro: room_same)

subsection \<open>The promise\<close>

lemma key_arrives:
  assumes "key_env_ok E" "key_cache_ok E s" "wr_frames (room_of s) (session_key ses i) \<noteq> []"
    and "length k = KEY_BYTES" "key_id_of (ke_postcard E) k = i"
  shows "fst (apply_control E ses (ResponseKeys [(i, k)]) now s) = map pf_bytes (wr_frames (room_of s) (session_key ses i)) \<and>
    fst (lookup_key E i (snd (apply_control E ses (ResponseKeys [(i, k)]) now s))) = Some k"
proof -
  obtain e where e: "kc_pending s (session_key ses i) = Some e" "pk_frames e \<noteq> []"
    using assms(3) by (auto simp: room_of_def split: option.splits)
  have "live_session ses s \<noteq> None"
    using frames_liveD [OF key_cache_okD(6) [OF assms(2)] e] by (simp add: session_key_def live_at_session)
  then have obs: "observe_session E ses now s = s" by (simp add: observe_session_def)
  note N = note_verified_key_resolved(2,3) [OF assms(1,2), where i = i and k = k]
  have ap: "apply_control E ses (ResponseKeys [(i, k)]) now s =
      (map pf_bytes (pk_frames e), snd (remove_pending (session_key ses i) (note_verified_key E i k None s)))"
    using e(1) N(2) by (simp add: apply_control_def obs note_response_key_def take_pending_def remove_pending_def)
  have "(i, k) \<in> set (lru_iter (ke_resolved E) (kc_resolved (snd (apply_control E ses (ResponseKeys [(i, k)]) now s))))"
    using N(1) [OF assms(4,5)] by (simp add: ap)
  from lookup_known [OF assms(1) this] show ?thesis by (simp add: ap room_of_def e(1))
qed

text \<open>C32: the frames that wait for keys are queues, in every run of the cache. A frame that is kept is the last of its session and key; an
  event on another key or session takes nothing away; a response releases exactly what waits at that moment for its keys in its session,
  oldest first, whatever happened between, and only then; a frame is lost only when its session is replaced or closed, or when a
  miss or a look for control messages, of any session, finds it and all before it in its queue five seconds old. A
  response itself does not look at the age. After an authentic key has come, it resolves.\<close>

theorem waiting_frames_exact:
  assumes "key_env_ok E" "key_reachable E s" "key_events E xs s = (outs, s')"
  shows "room_steps xs (map fst outs) (room_of s) = (map snd outs, room_of s') \<and>
    (wr_frames (room_of s') (session_key ses i) \<noteq> [] \<and> length k = KEY_BYTES \<and> key_id_of (ke_postcard E) k = i \<longrightarrow>
       fst (apply_control E ses (ResponseKeys [(i, k)]) now s') = map pf_bytes (wr_frames (room_of s') (session_key ses i)) \<and>
       fst (lookup_key E i (snd (apply_control E ses (ResponseKeys [(i, k)]) now s'))) = Some k)"
proof -
  have "room_steps xs (map fst outs) (room_of s) = (map snd outs, room_of s') \<and> key_reachable E s'"
    using assms(2,3)
  proof (induction xs arbitrary: s outs)
    case (Cons x xs)
    obtain out s1 where x: "key_event_step E x s = (out, s1)" by fastforce
    obtain rest where r: "key_events E xs s1 = (rest, s')" "outs = out # rest"
      using Cons.prems(2) by (auto simp: x split: prod.splits)
    have "key_reachable E s1" using key_reachable.more [OF Cons.prems(1) key_event_step_step [of E s x]] by (simp add: x)
    from Cons.IH [OF this r(1)] show ?case
      using room_refines [OF assms(1) reachable_ok [OF Cons.prems(1) assms(1)], of x] by (simp add: x r(2))
  qed simp
  then show ?thesis using key_arrives [OF assms(1) reachable_ok [OF _ assms(1)]] by blast
qed

text \<open>A frame waits from instant 10; the key comes a minute later, when no other event has looked at the age of the frame.\<close>

theorem waiting_frames_exact_witness:
  "map snd (fst (key_events demo_key_env [FrameMissed demo_session demo_key_id [1, 2, 3] 10,
       ControlReceived demo_session (ResponseKeys [(demo_key_id, replicate KEY_BYTES 2)]) 60000] demo_observed)) = [[], [[1, 2, 3]]] \<and>
   fst (lookup_key demo_key_env demo_key_id (snd (apply_control demo_key_env demo_session
       (ResponseKeys [(demo_key_id, replicate KEY_BYTES 2)]) 60000 demo_missed))) = Some (replicate KEY_BYTES 2)"
proof -
  let ?x = "FrameMissed demo_session demo_key_id [1, 2, 3] 10" and ?k = "replicate KEY_BYTES (2 :: u8)"
  let ?y = "ControlReceived demo_session (ResponseKeys [(demo_key_id, ?k)]) 60000"
  have q: "queue_miss demo_key_env demo_session demo_key_id [1, 2, 3] 10 demo_observed = (True, demo_missed)"
    using demo_queued by (simp add: demo_missed_def prod_eq_iff)
  obtain frames s' where a: "apply_control demo_key_env demo_session (ResponseKeys [(demo_key_id, ?k)]) 60000 demo_missed = (frames, s')" by fastforce
  have ev: "key_events demo_key_env [?x, ?y] demo_observed = ([(True, []), (False, frames)], s')" by (simp add: q a)
  have one: "key_events demo_key_env [?x] demo_observed = ([(True, [])], demo_missed)" by (simp add: q)
  have room: "wr_session (room_of demo_observed) (PeerId [2]) = Some 7" "wr_frames (room_of demo_observed) key = []" for key
    by (simp_all add: room_of_def demo_observed_eq key_cache_default_def session_new_def)
  have ses: "as_peer demo_session = PeerId [2]" "as_generation demo_session = 7" by (simp_all add: demo_session_def)
  have "map snd [(True, []), (False, frames)] = [[], [[1, 2, 3]]]"
    using waiting_frames_exact [OF demo_key_env_ok demo_reachable(1) ev]
    by (simp add: Let_def room room_expire_def room_observe_def ses)
  moreover have "wr_frames (room_of demo_missed) (session_key demo_session demo_key_id) \<noteq> []"
    by (simp add: room_of_def demo_missed_view demo_waiting_def)
  moreover have "key_id_of (ke_postcard demo_key_env) ?k = demo_key_id" by (simp add: demo_key_env_def demo_postcard_facts)
  ultimately show ?thesis
    using waiting_frames_exact [OF demo_key_env_ok demo_reachable(1) one, of demo_session demo_key_id ?k 60000] unfolding ev by simp
qed

end
