(* ===== verification/Migration.thy ===== *)
theory Migration
  imports Key_Exchange
begin

text \<open>
  The migration policy for older receivers, \<open>crates/pubsub/src/compat.rs\<close>: topics whose messages carry an
  independently signed inner envelope, permissions to exchange version 1 frames with single peers on such
  topics, the journal of peers that must never be served version 1 again, and the rates of both directions.

  The codec, the hash functions and ML-DSA are parameters, and so is what the operating system answers: the
  readings of the two clocks and of the journal file, in the order in which the code asks for them. Clocks
  count_stat nanoseconds.
\<close>

subsection \<open>Topics with a signed inner envelope\<close>

definition MAX_TOPICS :: nat where "MAX_TOPICS = 128"

definition MAX_GRANTS :: nat where "MAX_GRANTS = 1024"

text \<open>The last instant of the monotonic clock in nanoseconds, with 64-bit signed seconds.\<close>

definition INSTANT_MAX :: instant where "INSTANT_MAX = (2 ^ 63 - 1) * 1000000000 + 999999999"

definition MAX_AUTHORS :: nat where "MAX_AUTHORS = 1024"

definition MAX_INNER_BYTES :: nat where "MAX_INNER_BYTES = 1024 * 1024"

definition MAX_CONTROL_IDS :: nat where "MAX_CONTROL_IDS = 1024"

definition MAX_CONTROL_BYTES :: nat where "MAX_CONTROL_BYTES = 1 + 2 + MAX_CONTROL_IDS * 32"

definition MAX_CONTROL_WORK :: nat where "MAX_CONTROL_WORK = 4096"

definition MAX_VARIANT_BYTES :: nat where "MAX_VARIANT_BYTES = 4 * 1024 * 1024"

definition AUDITED_RECEIVER :: bytes where
  "AUDITED_RECEIVER = ascii_bytes ''x0x/0.30.1+signed-kv-inner-v3;saorsa-gossip-pubsub/0.5.66''"

datatype SignedKvFamily = DeltaTopic | StateSync

record SignedKvTopic =
  sk_topic_name :: bytes
  sk_family :: SignedKvFamily
  sk_revision :: nat
  sk_authors :: "PeerId set"

record migration_env =
  mg_postcard :: postcard
  mg_take_message :: "bytes \<Rightarrow> (GossipMessage \<times> bytes) option"
  mg_to_message :: "GossipMessage \<Rightarrow> bytes option"
  mg_to_header :: "MessageHeader \<Rightarrow> bytes option"
  mg_take_u32 :: "bytes \<Rightarrow> (nat \<times> bytes) option"
  mg_verify :: "bytes \<Rightarrow> bytes \<Rightarrow> bytes \<Rightarrow> bool option" \<comment> \<open>key, message, signature\<close>
  mg_sign :: "bytes \<Rightarrow> bytes option" \<comment> \<open>with this node's key\<close>
  mg_own_key :: bytes

definition mg_blake3 :: "migration_env \<Rightarrow> bytes \<Rightarrow> bytes" where
  "mg_blake3 E = pc_blake3 (mg_postcard E)"

definition own_id :: "migration_env \<Rightarrow> PeerId" where
  "own_id E = key_id_of (mg_postcard E) (mg_own_key E)"

text \<open>Errors are messages, as in the code; an error that another crate or the system reports is \<open>''external''\<close>.\<close>

type_synonym migration_error = string

definition signed_kv_topic_new :: "bytes \<Rightarrow> SignedKvFamily \<Rightarrow> nat \<Rightarrow> PeerId list \<Rightarrow> migration_error + SignedKvTopic" where
  "signed_kv_topic_new delta_topic family revision known_authors =
     (if \<not> (delta_topic \<noteq> [] \<and> length delta_topic \<le> 512) then Inl ''invalid KV topic''
      else if \<not> revision > 0 then Inl ''verifier revision must be positive''
      else let authors = set (take (MAX_AUTHORS + 1) known_authors)
           in if \<not> (authors \<noteq> {} \<and> card authors \<le> MAX_AUTHORS) then Inl ''invalid author roster''
              else Inr \<lparr>sk_topic_name = (case family of DeltaTopic \<Rightarrow> delta_topic | StateSync \<Rightarrow> delta_topic @ ascii_bytes ''/state-sync''),
                        sk_family = family, sk_revision = revision, sk_authors = authors\<rparr>)"

definition kv_topic :: "migration_env \<Rightarrow> SignedKvTopic \<Rightarrow> TopicId" where
  "kv_topic E t = topic_from_entity (mg_blake3 E) (sk_topic_name t)"

text \<open>A field is a length of two bytes, most significant first, and that many bytes.\<close>

definition take_field :: "bytes \<Rightarrow> (bytes \<times> bytes) option" where
  "take_field rest =
     (if length rest < 2 then None
      else let n = 256 * unat (rest ! 0) + unat (rest ! 1)
           in if length rest < 2 + n then None else Some (take n (drop 2 rest), drop (2 + n) rest))"

definition u16_be_bytes :: "nat \<Rightarrow> bytes" where
  "u16_be_bytes n = [word_of_nat (n div 256), word_of_nat (n mod 256)]"

definition inner_preimage :: "bytes \<Rightarrow> bytes \<Rightarrow> bytes \<Rightarrow> bytes" where
  "inner_preimage author_bytes topic rest =
     ascii_bytes ''x0x-msg-v3'' @ author_bytes @ u16_be_bytes (length topic) @ topic @ rest"

definition kv_verify :: "migration_env \<Rightarrow> SignedKvTopic \<Rightarrow> bytes \<Rightarrow> migration_error + VerifiedInner" where
  "kv_verify E t data =
     (if \<not> length data \<le> MAX_INNER_BYTES then Inl ''inner envelope exceeds bound''
      else if \<not> (data \<noteq> [] \<and> hd data = 3) then Inl ''only topic-bound V3 inner envelopes are eligible''
      else if length data < 33 then Inl ''truncated author''
      else let author_bytes = take 32 (drop 1 data)
           in case take_field (drop 33 data) of
                None \<Rightarrow> Inl ''truncated inner field''
              | Some (key, r1) \<Rightarrow>
                  (case take_field r1 of
                     None \<Rightarrow> Inl ''truncated inner field''
                   | Some (sg, r2) \<Rightarrow>
                       (case take_field r2 of
                          None \<Rightarrow> Inl ''truncated inner field''
                        | Some (topic, rest) \<Rightarrow>
                            if \<not> (length key = 1952 \<and> length sg = 3309) then Inl ''invalid ML-DSA-65 shape''
                            else if topic \<noteq> sk_topic_name t then Inl ''inner topic mismatch''
                            else let author = key_id_of (mg_postcard E) key
                                 in if \<not> (peer_bytes author = author_bytes \<and> author \<in> sk_authors t) then Inl ''unknown or mismatched inner author''
                                    else if \<not> length topic < 65536 then Inl ''external''
                                    else case mg_verify E key (inner_preimage author_bytes topic rest) sg of
                                           None \<Rightarrow> Inl ''external''
                                         | Some False \<Rightarrow> Inl ''invalid inner signature''
                                         | Some True \<Rightarrow>
                                             Inr \<lparr>vi_author = author, vi_digest = mg_blake3 E data, vi_revision = sk_revision t\<rparr>)))"

subsection \<open>The journal of modern peers\<close>

record FloorStamp =
  fs_modified :: instant
  fs_len :: nat

record ModernFloors =
  mf_peers :: "PeerId set"
  mf_stamp :: "FloorStamp option"

text \<open>What the file system answers: the stamp of the file before and after it is read and its bytes, \<open>None\<close> for
  an error, and whether each part of an append succeeds.\<close>

record floor_disk =
  fd_before :: "FloorStamp option"
  fd_bytes :: "bytes option"
  fd_after :: "FloorStamp option"

record floor_append =
  fa_open :: bool
  fa_write :: bool
  fa_sync :: bool

definition FLOOR_MAGIC :: bytes where "FLOOR_MAGIC = ascii_bytes ''SG-FLOORS-1'' @ [10]"

definition floor_record :: "migration_env \<Rightarrow> PeerId \<Rightarrow> bytes" where
  "floor_record E p = peer_bytes p @ mg_blake3 E (peer_bytes p)"

fun floor_records :: "migration_env \<Rightarrow> bytes list \<Rightarrow> migration_error + PeerId set" where
  "floor_records E [] = Inr {}"
| "floor_records E (r # rs) =
     (if mg_blake3 E (take 32 r) \<noteq> drop 32 r then Inl ''corrupt floor record''
      else case floor_records E rs of Inl e \<Rightarrow> Inl e | Inr ps \<Rightarrow> Inr (insert (PeerId (take 32 r)) ps))"

definition floors_decode :: "migration_env \<Rightarrow> bytes \<Rightarrow> migration_error + PeerId set" where
  "floors_decode E data =
     (case strip_prefix FLOOR_MAGIC data of
        None \<Rightarrow> Inl ''invalid floor journal''
      | Some body \<Rightarrow>
          if \<not> (length body mod 64 = 0 \<and> length body \<le> 64 * 65536) then Inl ''invalid floor records''
          else floor_records E (map (\<lambda>i. take 64 (drop (64 * i) body)) [0..<length body div 64]))"

definition floors_refresh :: "migration_env \<Rightarrow> floor_disk \<Rightarrow> ModernFloors \<Rightarrow> (migration_error + unit) \<times> ModernFloors" where
  "floors_refresh E disk f =
     (case fd_before disk of
        None \<Rightarrow> (Inl ''external'', f)
      | Some stamp \<Rightarrow>
          if mf_stamp f = Some stamp then (Inr (), f)
          else case fd_bytes disk of
                 None \<Rightarrow> (Inl ''external'', f)
               | Some data \<Rightarrow>
                   (case floors_decode E (take (12 + 64 * 65536 + 1) data) of
                      Inl e \<Rightarrow> (Inl e, f)
                    | Inr peers \<Rightarrow>
                        (case fd_after disk of
                           None \<Rightarrow> (Inl ''external'', f)
                         | Some after \<Rightarrow>
                             if after \<noteq> stamp then (Inl ''floor journal changed during read'', f)
                             else if \<not> mf_peers f \<subseteq> peers then (Inl ''floor journal rolled back'', f)
                             else (Inr (), f\<lparr>mf_peers := peers, mf_stamp := Some stamp\<rparr>))))"

definition floors_open :: "migration_env \<Rightarrow> floor_disk \<Rightarrow> migration_error + ModernFloors" where
  "floors_open E disk =
     (case floors_refresh E disk \<lparr>mf_peers = {}, mf_stamp = None\<rparr> of (Inl e, f) \<Rightarrow> Inl e | (Inr _, f) \<Rightarrow> Inr f)"

text \<open>The file is created with its first line, unless it exists or a step fails, and then opened.\<close>

definition floors_initialize :: "migration_env \<Rightarrow> bool \<Rightarrow> floor_disk \<Rightarrow> migration_error + ModernFloors" where
  "floors_initialize E created disk = (if created then floors_open E disk else Inl ''external'')"

definition floors_require_v2 ::
  "migration_env \<Rightarrow> floor_disk \<Rightarrow> floor_append \<Rightarrow> PeerId \<Rightarrow> ModernFloors \<Rightarrow> (migration_error + unit) \<times> ModernFloors" where
  "floors_require_v2 E disk out peer f0 =
     (case floors_refresh E disk f0 of
        (Inl e, f) \<Rightarrow> (Inl e, f)
      | (Inr _, f) \<Rightarrow>
          if peer \<in> mf_peers f then (Inr (), f)
          else if \<not> card (mf_peers f) < 65536 then (Inl ''floor journal full'', f)
          else if \<not> fa_open out then (Inl ''external'', f)
          else let f1 = f\<lparr>mf_stamp := None\<rparr>
               in if fa_write out \<and> fa_sync out then (Inr (), f1\<lparr>mf_peers := insert peer (mf_peers f1)\<rparr>) else (Inl ''external'', f1))"

subsection \<open>The policy\<close>

record LegacyGrant =
  lg_peer :: PeerId
  lg_topic :: TopicId
  lg_receiver :: bytes
  lg_verifier_revision :: nat
  lg_revision :: nat
  lg_issuer :: bytes
  lg_reason :: bytes
  lg_expires :: instant

record BoundGrant =
  bg_grant :: LegacyGrant
  bg_deadline :: instant
  bg_session :: AuthenticatedSession

type_synonym grant_key = "PeerId \<times> TopicId"

record MigrationStats =
  mt_legacy_egress :: "nat list"
  mt_legacy_ingress :: "nat list"
  mt_denied_legacy :: nat
  mt_expired_grants :: nat
  mt_revoked_grants :: nat
  mt_v2_payload_mismatches :: nat
  mt_invalid_inner :: nat
  mt_variant_signatures :: nat

record MigrationState =
  ms_topics :: "TopicId \<rightharpoonup> SignedKvTopic"
  ms_grants :: "grant_key \<rightharpoonup> BoundGrant"
  ms_revisions :: "grant_key \<rightharpoonup> nat"
  ms_floors :: "ModernFloors option"
  ms_floor_failed :: bool
  ms_reject_v1 :: bool
  ms_last_wall :: "instant option"
  ms_control_window :: "instant option"
  ms_control_work :: nat
  ms_response_window :: "instant option"
  ms_response_bytes :: nat
  ms_variants :: "(bytes \<times> u8) \<rightharpoonup> bytes"
  ms_variant_bytes :: nat
  ms_stats :: MigrationStats

definition migration_default :: MigrationState where
  "migration_default =
     \<lparr>ms_topics = Map.empty, ms_grants = Map.empty, ms_revisions = Map.empty, ms_floors = None, ms_floor_failed = False,
      ms_reject_v1 = False, ms_last_wall = None, ms_control_window = None, ms_control_work = 0, ms_response_window = None,
      ms_response_bytes = 0, ms_variants = Map.empty, ms_variant_bytes = 0,
      ms_stats = \<lparr>mt_legacy_egress = [0, 0, 0, 0], mt_legacy_ingress = [0, 0, 0, 0], mt_denied_legacy = 0, mt_expired_grants = 0,
        mt_revoked_grants = 0, mt_v2_payload_mismatches = 0, mt_invalid_inner = 0, mt_variant_signatures = 0\<rparr>\<rparr>"

definition count_stat :: "((nat \<Rightarrow> nat) \<Rightarrow> MigrationStats \<Rightarrow> MigrationStats) \<Rightarrow> MigrationState \<Rightarrow> MigrationState" where
  "count_stat counter s = s\<lparr>ms_stats := counter (\<lambda>x. u64_sat_add x 1) (ms_stats s)\<rparr>"

text \<open>The clocks and the journal during one admission: the two clocks of the expiry, the wall clock of the roll-back
  check, the two clocks of the validity, and the file.\<close>

record reading =
  rd_mono1 :: instant
  rd_wall1 :: instant
  rd_wall2 :: instant
  rd_mono2 :: instant
  rd_wall3 :: instant
  rd_disk :: floor_disk

definition install_floors :: "ModernFloors \<Rightarrow> MigrationState \<Rightarrow> (migration_error + unit) \<times> MigrationState" where
  "install_floors floors s =
     (if \<not> (ms_floors s = None \<and> \<not> ms_floor_failed s) then (Inl ''floor store already initialized or failed'', s)
      else (Inr (), s\<lparr>ms_floors := Some floors\<rparr>))"

definition register_topic :: "migration_env \<Rightarrow> SignedKvTopic \<Rightarrow> MigrationState \<Rightarrow> (migration_error + unit) \<times> MigrationState" where
  "register_topic E topic s =
     (let i = kv_topic E topic
      in if i = control_topic (mg_postcard E) then (Inl ''reserved key-cache topic cannot be registered'', s)
         else if (case ms_topics s i of Some old \<Rightarrow> \<not> sk_revision topic > sk_revision old | None \<Rightarrow> False)
         then (Inl ''verifier revision replay'', s)
         else if ms_topics s i = None \<and> \<not> card (dom (ms_topics s)) < MAX_TOPICS then (Inl ''topic registry full'', s)
         else (Inr (), s\<lparr>ms_grants := (\<lambda>k. if snd k \<noteq> i then ms_grants s k else None), ms_variants := Map.empty,
                        ms_variant_bytes := 0, ms_topics := (ms_topics s)(i \<mapsto> topic)\<rparr>))"

definition migration_require_v2 ::
  "migration_env \<Rightarrow> floor_disk \<Rightarrow> floor_append \<Rightarrow> PeerId \<Rightarrow> MigrationState \<Rightarrow> (migration_error + unit) \<times> MigrationState" where
  "migration_require_v2 E disk out peer s =
     (case ms_floors s of
        None \<Rightarrow> (Inl ''floor storage missing'', s)
      | Some f \<Rightarrow>
          (case floors_require_v2 E disk out peer f of
             (r, f1) \<Rightarrow>
               (r, s\<lparr>ms_floors := Some f1, ms_floor_failed := (ms_floor_failed s \<or> (\<exists>e. r = Inl e)),
                     ms_grants := (\<lambda>k. if fst k \<noteq> peer then ms_grants s k else None)\<rparr>)))"

definition check_clock :: "instant \<Rightarrow> MigrationState \<Rightarrow> (migration_error + unit) \<times> MigrationState" where
  "check_clock now s =
     (if (case ms_last_wall s of None \<Rightarrow> False | Some previous \<Rightarrow> now < previous)
      then (Inl ''clock rollback invalidated grants'', s\<lparr>ms_grants := Map.empty\<rparr>)
      else (Inr (), s\<lparr>ms_last_wall := Some now\<rparr>))"

definition check_floors :: "migration_env \<Rightarrow> floor_disk \<Rightarrow> MigrationState \<Rightarrow> (migration_error + unit) \<times> MigrationState" where
  "check_floors E disk s =
     (if ms_floor_failed s then (Inl ''floor storage failed'', s)
      else case ms_floors s of
             None \<Rightarrow> (Inl ''floor storage uninitialized'', s)
           | Some f \<Rightarrow>
               (case floors_refresh E disk f of
                  (Inl e, f1) \<Rightarrow> (Inl e, s\<lparr>ms_floors := Some f1, ms_floor_failed := True, ms_grants := Map.empty\<rparr>)
                | (Inr _, f1) \<Rightarrow> (Inr (), s\<lparr>ms_floors := Some f1\<rparr>)))"

definition floored :: "PeerId \<Rightarrow> MigrationState \<Rightarrow> bool" where
  "floored peer s \<longleftrightarrow> (case ms_floors s of None \<Rightarrow> False | Some f \<Rightarrow> peer \<in> mf_peers f)"

text \<open>The checks of a grant before the clock and the journal are consulted, and the ones after.\<close>

definition grant_refusal :: "LegacyGrant \<Rightarrow> AuthenticatedSession \<Rightarrow> MigrationState \<Rightarrow> migration_error option" where
  "grant_refusal g ses s =
     (if ms_reject_v1 s then Some ''bidirectional legacy service conflicts with RejectV1''
      else if lg_receiver g \<noteq> AUDITED_RECEIVER then Some ''unaudited receiver''
      else if lg_peer g \<noteq> as_peer ses then Some ''session peer mismatch''
      else if \<not> (lg_issuer g \<noteq> [] \<and> length (lg_issuer g) \<le> 128 \<and> lg_reason g \<noteq> [] \<and> length (lg_reason g) \<le> 256)
      then Some ''invalid grant attribution''
      else case ms_topics s (lg_topic g) of
             None \<Rightarrow> Some ''unregistered topic''
           | Some policy \<Rightarrow> if sk_revision policy \<noteq> lg_verifier_revision g then Some ''verifier mismatch'' else None)"

definition commit_grant :: "reading \<Rightarrow> LegacyGrant \<Rightarrow> AuthenticatedSession \<Rightarrow> MigrationState \<Rightarrow> (migration_error + unit) \<times> MigrationState" where
  "commit_grant rd g ses s =
     (let key = (lg_peer g, lg_topic g); remaining = lg_expires g - rd_wall3 rd
      in if floored (lg_peer g) s then (Inl ''V2Required floor conflict'', s)
         else if \<not> lg_revision g > get_or 0 (ms_revisions s) key then (Inl ''grant revision replay'', s)
         else if \<not> (ms_revisions s key \<noteq> None \<or> card (dom (ms_revisions s)) < MAX_GRANTS) then (Inl ''grant inventory full'', s)
         else if lg_expires g < rd_wall3 rd then (Inl ''external'', s)
         else if \<not> (remaining \<noteq> 0 \<and> remaining \<le> 86400 * 1000000000) then (Inl ''grant lifetime must be at most 24 hours'', s)
         else if rd_mono2 rd + remaining > INSTANT_MAX then (Inl ''deadline overflow'', s)
         else (Inr (), s\<lparr>ms_revisions := (ms_revisions s)(key \<mapsto> lg_revision g),
                ms_grants := (ms_grants s)(key \<mapsto> \<lparr>bg_grant = g, bg_deadline = rd_mono2 rd + remaining, bg_session = ses\<rparr>)\<rparr>))"

definition grant_legacy ::
  "migration_env \<Rightarrow> reading \<Rightarrow> LegacyGrant \<Rightarrow> AuthenticatedSession \<Rightarrow> MigrationState \<Rightarrow> (migration_error + unit) \<times> MigrationState" where
  "grant_legacy E rd g ses s =
     (case grant_refusal g ses s of
        Some e \<Rightarrow> (Inl e, s)
      | None \<Rightarrow>
          (case check_clock (rd_wall2 rd) s of
             (Inl e, s1) \<Rightarrow> (Inl e, s1)
           | (Inr _, s1) \<Rightarrow>
               (case check_floors E (rd_disk rd) s1 of (Inl e, s2) \<Rightarrow> (Inl e, s2) | (Inr _, s2) \<Rightarrow> commit_grant rd g ses s2)))"

definition revoke_grant :: "PeerId \<Rightarrow> TopicId \<Rightarrow> nat \<Rightarrow> MigrationState \<Rightarrow> (migration_error + unit) \<times> MigrationState" where
  "revoke_grant peer topic revision s =
     (let key = (peer, topic)
      in if \<not> revision > get_or 0 (ms_revisions s) key then (Inl ''revocation revision replay'', s)
         else if \<not> (ms_revisions s key \<noteq> None \<or> card (dom (ms_revisions s)) < MAX_GRANTS) then (Inl ''grant inventory full'', s)
         else (Inr (), count_stat mt_revoked_grants_update
                (s\<lparr>ms_revisions := (ms_revisions s)(key \<mapsto> revision), ms_grants := map_remove key (ms_grants s)\<rparr>)))"

definition record_payload_mismatch :: "MigrationState \<Rightarrow> MigrationState" where
  "record_payload_mismatch s = count_stat mt_v2_payload_mismatches_update s"

definition set_migration_policy :: "bool \<Rightarrow> MigrationState \<Rightarrow> MigrationState" where
  "set_migration_policy reject s =
     s\<lparr>ms_reject_v1 := reject, ms_grants := (if reject then Map.empty else ms_grants s)\<rparr>"

definition admit_cache_serve :: "TopicId \<Rightarrow> nat \<Rightarrow> instant \<Rightarrow> MigrationState \<Rightarrow> (migration_error + unit) \<times> MigrationState" where
  "admit_cache_serve topic n now s =
     (if ms_topics s topic = None then (Inr (), s)
      else let s1 = (if (case ms_response_window s of None \<Rightarrow> True | Some start \<Rightarrow> now - start \<ge> 1000000000)
                     then s\<lparr>ms_response_window := Some now, ms_response_bytes := 0\<rparr> else s)
           in if \<not> n \<le> 16 * 1024 * 1024 - ms_response_bytes s1 then (Inl ''migration cache-serve byte rate exceeded'', s1)
              else (Inr (), s1\<lparr>ms_response_bytes := ms_response_bytes s1 + n\<rparr>))"

definition topic_registered :: "TopicId \<Rightarrow> MigrationState \<Rightarrow> bool" where
  "topic_registered topic s \<longleftrightarrow> ms_topics s topic \<noteq> None"

definition verify_inner :: "migration_env \<Rightarrow> TopicId \<Rightarrow> bytes \<Rightarrow> MigrationState \<Rightarrow> (migration_error + VerifiedInner option) \<times> MigrationState" where
  "verify_inner E topic payload s =
     (case ms_topics s topic of
        None \<Rightarrow> (Inr None, s)
      | Some policy \<Rightarrow>
          (case kv_verify E policy payload of
             Inl e \<Rightarrow> (Inl e, count_stat mt_invalid_inner_update s)
           | Inr v \<Rightarrow> (Inr (Some v), s)))"

text \<open>Whether a version 1 frame may be exchanged in a session: the grant is of this session, has not expired and is for the
  current verifier, and the peer is not in the journal.\<close>

definition grant_in_force :: "reading \<Rightarrow> TopicId \<Rightarrow> AuthenticatedSession \<Rightarrow> MigrationState \<Rightarrow> bool" where
  "grant_in_force rd topic ses s \<longleftrightarrow>
     (case ms_grants s (as_peer ses, topic) of
        None \<Rightarrow> False
      | Some g \<Rightarrow>
          bg_session g = ses \<and> rd_mono2 rd < bg_deadline g \<and> rd_wall3 rd < lg_expires (bg_grant g) \<and>
          (case ms_topics s topic of None \<Rightarrow> False | Some p \<Rightarrow> sk_revision p = lg_verifier_revision (bg_grant g)))"

definition drop_expired_grant :: "reading \<Rightarrow> TopicId \<Rightarrow> AuthenticatedSession \<Rightarrow> MigrationState \<Rightarrow> MigrationState" where
  "drop_expired_grant rd topic ses s =
     (case ms_grants s (as_peer ses, topic) of
        None \<Rightarrow> s
      | Some g \<Rightarrow>
          if rd_mono1 rd \<ge> bg_deadline g \<or> rd_wall1 rd \<ge> lg_expires (bg_grant g)
          then count_stat mt_expired_grants_update (s\<lparr>ms_grants := map_remove (as_peer ses, topic) (ms_grants s)\<rparr>) else s)"

definition permitted :: "migration_env \<Rightarrow> reading \<Rightarrow> TopicId \<Rightarrow> AuthenticatedSession \<Rightarrow> MigrationState \<Rightarrow> bool \<times> MigrationState" where
  "permitted E rd topic ses s =
     (let s1 = drop_expired_grant rd topic ses s;
          (valid, s2) =
            (if ms_reject_v1 s1 then (False, s1)
             else case check_clock (rd_wall2 rd) s1 of
                    (Inl e, s2) \<Rightarrow> (False, s2)
                  | (Inr _, s2) \<Rightarrow>
                      if \<not> grant_in_force rd topic ses s2 then (False, s2)
                      else case check_floors E (rd_disk rd) s2 of
                             (Inl e, s3) \<Rightarrow> (False, s3)
                           | (Inr _, s3) \<Rightarrow> (\<not> floored (as_peer ses) s3, s3))
      in if valid then (True, s2) else (False, count_stat mt_denied_legacy_update s2))"

subsection \<open>Frames\<close>

definition kind_index :: "MessageKind \<Rightarrow> migration_error + nat" where
  "kind_index kind =
     (case kind of Eager \<Rightarrow> Inr 0 | IHave \<Rightarrow> Inr 1 | IWant \<Rightarrow> Inr 2 | AntiEntropy \<Rightarrow> Inr 3 | _ \<Rightarrow> Inl ''message kind outside migration scope'')"

definition control_work :: "migration_env \<Rightarrow> GossipMessage \<Rightarrow> migration_error + nat" where
  "control_work E m =
     (case kind_index (hdr_kind (gm_header m)) of
        Inl e \<Rightarrow> Inl e
      | Inr kind \<Rightarrow>
          if kind = 0 then Inl ''expected control''
          else case gm_payload m of
                 None \<Rightarrow> Inl ''missing control payload''
               | Some payload \<Rightarrow>
                   if \<not> length payload \<le> MAX_CONTROL_BYTES then Inl ''control payload too large''
                   else if kind = 3 \<and> \<not> (payload \<noteq> [] \<and> (hd payload = 0 \<or> hd payload = 1)) then Inl ''unknown anti-entropy variant''
                   else case mg_take_u32 E (if kind = 3 then tl payload else payload) of
                          None \<Rightarrow> Inl ''external''
                        | Some (n, ids) \<Rightarrow>
                            if \<not> (n \<le> MAX_CONTROL_IDS \<and> length ids = n * 32) then Inl ''malformed or oversized control list''
                            else Inr (max n 1))"

definition count_kind :: "((nat list \<Rightarrow> nat list) \<Rightarrow> MigrationStats \<Rightarrow> MigrationStats) \<Rightarrow> nat \<Rightarrow> MigrationState \<Rightarrow> MigrationState" where
  "count_kind counter kind s = s\<lparr>ms_stats := counter (\<lambda>xs. xs[kind := u64_sat_add (xs ! kind) 1]) (ms_stats s)\<rparr>"

text \<open>The check of a version 1 frame, and the budget of control messages.\<close>

definition ingress_legacy ::
  "migration_env \<Rightarrow> reading \<Rightarrow> PeerId \<Rightarrow> AuthenticatedSession option \<Rightarrow> TopicId \<Rightarrow> nat \<Rightarrow> MigrationState \<Rightarrow>
     (migration_error + unit) \<times> MigrationState" where
  "ingress_legacy E rd p session topic kind s =
     (case session of
        None \<Rightarrow> (Inl ''legacy ingress requires authenticated session provenance'', s)
      | Some ses \<Rightarrow>
          if as_peer ses \<noteq> p then (Inl ''legacy ingress denied'', s)
          else case permitted E rd topic ses s of
                 (False, s1) \<Rightarrow> (Inl ''legacy ingress denied'', s1)
               | (True, s1) \<Rightarrow> (Inr (), count_kind mt_legacy_ingress_update kind s1))"

definition ingress_control ::
  "migration_env \<Rightarrow> instant \<Rightarrow> PeerId \<Rightarrow> AuthenticatedSession option \<Rightarrow> GossipMessage \<Rightarrow> MigrationState \<Rightarrow>
     (migration_error + unit) \<times> MigrationState" where
  "ingress_control E now p session m s =
     (if \<not> (case session of None \<Rightarrow> False | Some ses \<Rightarrow> as_peer ses = p) then (Inl ''control requires adjacent session provenance'', s)
      else if key_id_of (mg_postcard E) (gm_public_key m) \<noteq> p then (Inl ''control signer is not adjacent peer'', s)
      else case control_work E m of
             Inl e \<Rightarrow> (Inl e, s)
           | Inr work \<Rightarrow>
               (let s1 = (if (case ms_control_window s of None \<Rightarrow> True | Some start \<Rightarrow> now - start \<ge> 1000000000)
                          then s\<lparr>ms_control_window := Some now, ms_control_work := 0\<rparr> else s)
                in if \<not> ms_control_work s1 + work \<le> MAX_CONTROL_WORK then (Inl ''control work rate exceeded'', s1)
                   else (Inr (), s1\<lparr>ms_control_work := ms_control_work s1 + work\<rparr>)))"

definition migration_ingress ::
  "migration_env \<Rightarrow> reading \<Rightarrow> instant \<Rightarrow> PeerId \<Rightarrow> AuthenticatedSession option \<Rightarrow> GossipMessage \<Rightarrow> MigrationState \<Rightarrow>
     (migration_error + unit) \<times> MigrationState" where
  "migration_ingress E rd now p session m s =
     (let topic = hdr_topic (gm_header m)
      in if ms_topics s topic = None then (Inr (), s)
         else case kind_index (hdr_kind (gm_header m)) of
                Inl e \<Rightarrow> (Inl e, s)
              | Inr kind \<Rightarrow>
                  (case (if hdr_version (gm_header m) = 1 then ingress_legacy E rd p session topic kind s else (Inr (), s)) of
                     (Inl e, s1) \<Rightarrow> (Inl e, s1)
                   | (Inr _, s1) \<Rightarrow> if kind \<noteq> 0 then ingress_control E now p session m s1 else (Inr (), s1)))"

text \<open>The frame of a message in the given version, signed again by this node if its version changes.\<close>

definition reversion :: "migration_env \<Rightarrow> u8 \<Rightarrow> GossipMessage \<Rightarrow> migration_error + GossipMessage" where
  "reversion E version m =
     (let h = (gm_header m)\<lparr>hdr_version := version, hdr_payload_hash := None\<rparr>;
          h1 = (if version = 2 then seal_payload_hash (mg_blake3 E) (gm_payload m) h else h)
      in case mg_to_header E h1 of
           None \<Rightarrow> Inl ''external''
         | Some data \<Rightarrow>
             (case mg_sign E data of
                None \<Rightarrow> Inl ''external''
              | Some sg \<Rightarrow> Inr (m\<lparr>gm_header := h1, gm_signature := sg, gm_public_key := mg_own_key E\<rparr>)))"

definition store_variant :: "bytes \<times> u8 \<Rightarrow> bytes \<Rightarrow> MigrationState \<Rightarrow> MigrationState" where
  "store_variant key data s =
     (let s1 = (if ms_variant_bytes s + length data > MAX_VARIANT_BYTES then s\<lparr>ms_variants := Map.empty, ms_variant_bytes := 0\<rparr> else s)
      in if length data \<le> MAX_VARIANT_BYTES
         then s1\<lparr>ms_variant_bytes := ms_variant_bytes s1 + length data, ms_variants := (ms_variants s1)(key \<mapsto> data)\<rparr> else s1)"

definition variant ::
  "migration_env \<Rightarrow> GossipMessage \<Rightarrow> u8 \<Rightarrow> bytes \<Rightarrow> MigrationState \<Rightarrow> (migration_error + bytes) \<times> MigrationState" where
  "variant E m version wire_digest s =
     (case ms_variants s (wire_digest, version) of
        Some data \<Rightarrow> (Inr data, s)
      | None \<Rightarrow>
          (case (if hdr_version (gm_header m) \<noteq> version
                 then (case reversion E version m of Inl e \<Rightarrow> Inl e | Inr out \<Rightarrow> Inr (out, count_stat mt_variant_signatures_update s))
                 else Inr (m, s)) of
             Inl e \<Rightarrow> (Inl e, s)
           | Inr (out, s1) \<Rightarrow>
               (case mg_to_message E out of
                  None \<Rightarrow> (Inl ''external'', s1)
                | Some data \<Rightarrow> (Inr data, store_variant (wire_digest, version) data s1))))"

definition verify_inner_if_eager :: "migration_env \<Rightarrow> GossipMessage \<Rightarrow> MigrationState \<Rightarrow> (migration_error + unit) \<times> MigrationState" where
  "verify_inner_if_eager E m s =
     (if hdr_kind (gm_header m) = Eager
      then (case gm_payload m of
              None \<Rightarrow> (Inl ''missing inner payload'', s)
            | Some payload \<Rightarrow>
                (case verify_inner E (hdr_topic (gm_header m)) payload s of (Inl e, s1) \<Rightarrow> (Inl e, s1) | (Inr _, s1) \<Rightarrow> (Inr (), s1)))
      else (case control_work E m of Inl e \<Rightarrow> (Inl e, s) | Inr _ \<Rightarrow> (Inr (), s)))"

definition modern_allowed :: "migration_env \<Rightarrow> reading \<Rightarrow> PeerId \<Rightarrow> AuthenticatedSession \<Rightarrow> TopicId \<Rightarrow> MigrationState \<Rightarrow> bool \<times> MigrationState" where
  "modern_allowed E rd peer ses topic s =
     (if ms_grants s (peer, topic) = None then (True, s)
      else case permitted E rd topic ses s of (valid, s1) \<Rightarrow> (\<not> valid, s1))"

definition prepare_key_cache_egress ::
  "migration_env \<Rightarrow> reading \<Rightarrow> (PeerId \<Rightarrow> AuthenticatedSession option) \<Rightarrow> PeerId \<Rightarrow> AuthenticatedSession \<Rightarrow> bytes \<Rightarrow> MigrationState \<Rightarrow>
     (migration_error + bytes option) \<times> MigrationState" where
  "prepare_key_cache_egress E rd current peer ses data s =
     (case pc_take_header (mg_postcard E) data of
        None \<Rightarrow> (Inl ''external'', s)
      | Some (header, _) \<Rightarrow>
          if \<not> topic_registered (hdr_topic header) s then (Inr (Some data), s)
          else case mg_take_message E data of
                 None \<Rightarrow> (Inl ''external'', s)
               | Some (m, trailing) \<Rightarrow>
                   if trailing \<noteq> [] then (Inl ''trailing gossip bytes'', s)
                   else case verify_inner_if_eager E m s of
                          (Inl e, s1) \<Rightarrow> (Inl e, s1)
                        | (Inr _, s1) \<Rightarrow>
                            (case (if ms_grants s1 (peer, hdr_topic header) \<noteq> None \<and> current peer = Some ses
                                   then permitted E rd (hdr_topic header) ses s1 else (False, s1)) of
                               (legacy, s2) \<Rightarrow>
                                 if legacy then (Inr None, s2)
                                 else if hdr_version (gm_header m) = 2 then (Inr (Some data), s2)
                                 else case variant E m 2 (mg_blake3 E data) s2 of
                                        (Inl e, s3) \<Rightarrow> (Inl e, s3) | (Inr out, s3) \<Rightarrow> (Inr (Some out), s3)))"

end
