(* ===== verification/Policy_Transport.thy ===== *)
theory Policy_Transport
  imports Migration
begin

text \<open>
  The transport that applies the migration policy and the sender key cache to every send, \<open>PolicyTransport\<close>
  and \<open>LegacyMigration::send\<close> of \<open>crates/pubsub/src/compat.rs\<close>. A send results in the bytes that are handed to the inner
  transport, or an error. What the inner transport answers is a parameter: its current session of a peer,
  its own identity, and, for a guarded send, the session at the moment the bytes are admitted, if it comes to that, with
  what other tasks have made of the policy between the call and that moment.
\<close>

record transport_view =
  tv_current :: "PeerId \<Rightarrow> AuthenticatedSession option"
  tv_local :: PeerId
  tv_admission :: "AuthenticatedSession option"
  tv_meanwhile :: "MigrationState \<Rightarrow> MigrationState"

record ('f, 'r, 'a) PolicyState =
  ps_migration :: MigrationState
  ps_keys :: "('f, 'r, 'a) KeyCache option"

definition record_legacy_full_outbound :: "postcard \<Rightarrow> bytes \<Rightarrow> ('f, 'r, 'a) PolicyState \<Rightarrow> ('f, 'r, 'a) PolicyState" where
  "record_legacy_full_outbound P data st =
     (case ps_keys st of
        None \<Rightarrow> st
      | Some cache \<Rightarrow>
          (case inspect_header P data of
             Inr (_, False) \<Rightarrow> st\<lparr>ps_keys := Some (record_outbound_frame False (length data) cache)\<rparr>
           | _ \<Rightarrow> st))"

text \<open>The check at the moment a version 1 frame is admitted to a connection.\<close>

definition legacy_admission ::
  "migration_env \<Rightarrow> reading \<Rightarrow> PeerId \<Rightarrow> TopicId \<Rightarrow> GossipMessage \<Rightarrow> bytes \<Rightarrow> AuthenticatedSession \<Rightarrow> MigrationState \<Rightarrow>
     (migration_error + bytes) \<times> MigrationState" where
  "legacy_admission E rd peer topic m wire_digest ses s =
     (case (if as_peer ses = peer then permitted E rd topic ses s else (False, s)) of
        (False, s1) \<Rightarrow> (Inl ''queued legacy send canceled'', s1)
      | (True, s1) \<Rightarrow>
          (let checked =
             (if hdr_kind (gm_header m) = Eager
              then (case ms_topics s1 topic of
                      None \<Rightarrow> Some ''topic removed''
                    | Some policy \<Rightarrow>
                        (case gm_payload m of
                           None \<Rightarrow> Some ''missing inner payload''
                         | Some payload \<Rightarrow> (case kv_verify E policy payload of Inl e \<Rightarrow> Some e | Inr _ \<Rightarrow> None)))
              else if key_id_of (mg_postcard E) (gm_public_key m) \<noteq> own_id E then Some ''transit control denied''
              else case control_work E m of Inl e \<Rightarrow> Some e | Inr _ \<Rightarrow> None)
           in case checked of
                Some e \<Rightarrow> (Inl e, s1)
              | None \<Rightarrow>
                  (case variant E m 1 wire_digest s1 of
                     (Inl e, s2) \<Rightarrow> (Inl e, s2)
                   | (Inr out, s2) \<Rightarrow>
                       (case kind_index (hdr_kind (gm_header m)) of
                          Inl e \<Rightarrow> (Inl e, s2)
                        | Inr kind \<Rightarrow> (Inr out, count_kind mt_legacy_egress_update kind s2)))))"

text \<open>A message that was checked is handed over in version 1 where that is permitted, and in version 2 otherwise.\<close>

definition hand_over ::
  "migration_env \<Rightarrow> reading \<Rightarrow> reading \<Rightarrow> transport_view \<Rightarrow> PeerId \<Rightarrow> TopicId \<Rightarrow> bytes \<Rightarrow> GossipMessage \<Rightarrow> ('f, 'r, 'a) PolicyState \<Rightarrow>
     (migration_error + bytes) \<times> ('f, 'r, 'a) PolicyState" where
  "hand_over E rd1 rd2 T peer topic data m st =
     (let P = mg_postcard E; s1 = ps_migration st
      in case (if ms_grants s1 (peer, topic) = None then (False, s1)
               else case tv_current T peer of None \<Rightarrow> (False, s1) | Some ses \<Rightarrow> permitted E rd1 topic ses s1) of
           (True, s2) \<Rightarrow>
             (case tv_admission T of
                None \<Rightarrow> (Inl ''external'', st\<lparr>ps_migration := tv_meanwhile T s2\<rparr>)
              | Some actual \<Rightarrow>
                  (case legacy_admission E rd2 peer topic m (mg_blake3 E data) actual (tv_meanwhile T s2) of
                     (Inl e, s3) \<Rightarrow> (Inl e, st\<lparr>ps_migration := s3\<rparr>)
                   | (Inr out, s3) \<Rightarrow> (Inr out, record_legacy_full_outbound P out (st\<lparr>ps_migration := s3\<rparr>))))
         | (False, s2) \<Rightarrow>
             (if hdr_version (gm_header m) \<noteq> 2
              then (case variant E m 2 (mg_blake3 E data) s2 of
                      (Inl e, s3) \<Rightarrow> (Inl e, st\<lparr>ps_migration := s3\<rparr>)
                    | (Inr out, s3) \<Rightarrow> (Inr out, record_legacy_full_outbound P out (st\<lparr>ps_migration := s3\<rparr>)))
              else (Inr data, record_legacy_full_outbound P data (st\<lparr>ps_migration := s2\<rparr>))))"

definition migration_send ::
  "migration_env \<Rightarrow> reading \<Rightarrow> reading \<Rightarrow> transport_view \<Rightarrow> PeerId \<Rightarrow> bytes \<Rightarrow> ('f, 'r, 'a) PolicyState \<Rightarrow>
     (migration_error + bytes) \<times> ('f, 'r, 'a) PolicyState" where
  "migration_send E rd1 rd2 T peer data st =
     (case pc_take_header (mg_postcard E) data of
        None \<Rightarrow> (Inl ''external'', st)
      | Some (header, _) \<Rightarrow>
          if \<not> topic_registered (hdr_topic header) (ps_migration st)
          then (Inr data, record_legacy_full_outbound (mg_postcard E) data st)
          else case mg_take_message E data of
                 None \<Rightarrow> (Inl ''external'', st)
               | Some (m, trailing) \<Rightarrow>
                   if trailing \<noteq> [] then (Inl ''trailing gossip bytes'', st)
                   else case verify_inner_if_eager E m (ps_migration st) of
                          (Inl e, s1) \<Rightarrow> (Inl e, st\<lparr>ps_migration := s1\<rparr>)
                        | (Inr _, s1) \<Rightarrow>
                            if hdr_kind (gm_header m) \<noteq> Eager \<and> own_id E \<noteq> tv_local T
                            then (Inl ''control signing key does not match authenticated transport identity'', st\<lparr>ps_migration := s1\<rparr>)
                            else hand_over E rd1 rd2 T peer (hdr_topic header) data m (st\<lparr>ps_migration := s1\<rparr>))"

definition send_v3_guarded ::
  "migration_env \<Rightarrow> reading \<Rightarrow> transport_view \<Rightarrow> PeerId \<Rightarrow> AuthenticatedSession \<Rightarrow> TopicId \<Rightarrow> bytes \<Rightarrow> ('f, 'r, 'a) PolicyState \<Rightarrow>
     (migration_error + bytes) \<times> ('f, 'r, 'a) PolicyState" where
  "send_v3_guarded E rd T peer ses topic data st =
     (let s = tv_meanwhile T (ps_migration st)
      in case tv_admission T of
           None \<Rightarrow> (Inl ''external'', st\<lparr>ps_migration := s\<rparr>)
         | Some actual \<Rightarrow>
             if actual \<noteq> ses then (Inl ''key-cache session changed before send'', st\<lparr>ps_migration := s\<rparr>)
             else if \<not> topic_registered topic s then (Inr data, st\<lparr>ps_migration := s\<rparr>)
             else case modern_allowed E rd peer actual topic s of
                    (ok, s1) \<Rightarrow>
                      if ok then (Inr data, st\<lparr>ps_migration := s1\<rparr>)
                      else (Inl ''legacy grant became active before key-cache send'', st\<lparr>ps_migration := s1\<rparr>))"

definition policy_send_v3 ::
  "migration_env \<Rightarrow> ('f, 'r, 'a) key_env \<Rightarrow> reading \<Rightarrow> transport_view \<Rightarrow> PeerId \<Rightarrow> bytes \<Rightarrow> ('f, 'r, 'a) PolicyState \<Rightarrow>
     (migration_error + bytes) \<times> ('f, 'r, 'a) PolicyState" where
  "policy_send_v3 E K rd T peer data st =
     (case ps_keys st of
        None \<Rightarrow> (Inl ''key-cache transport state unavailable'', st)
      | Some cache \<Rightarrow>
          (case tv_current T peer of
             None \<Rightarrow> (Inl ''v3 send requires authenticated session'', st)
           | Some ses \<Rightarrow>
               (case decode (mg_postcard E) data of
                  Inl e \<Rightarrow> (Inl ''external'', st)
                | Inr decoded \<Rightarrow>
                    (let (topic, signer, reference) =
                           (case decoded of
                              DecodedFull m signer \<Rightarrow> (hdr_topic (gm_header m), signer, False)
                            | DecodedRef m signer \<Rightarrow> (hdr_topic (gm_header m), signer, True))
                     in if \<not> supports_v3 ses cache then (Inl ''v3 capability expired before send'', st)
                        else case (if reference then supports_ref K ses signer cache else (True, cache)) of
                               (False, c1) \<Rightarrow> (Inl ''key acknowledgement expired before send'', st\<lparr>ps_keys := Some c1\<rparr>)
                             | (True, c1) \<Rightarrow>
                                 send_v3_guarded E rd T peer ses topic data
                                   (st\<lparr>ps_keys := Some (record_outbound_frame reference (length data) c1)\<rparr>)))))"

definition policy_send_to_peer ::
  "migration_env \<Rightarrow> ('f, 'r, 'a) key_env \<Rightarrow> reading \<Rightarrow> reading \<Rightarrow> transport_view \<Rightarrow> PeerId \<Rightarrow> bytes \<Rightarrow> ('f, 'r, 'a) PolicyState \<Rightarrow>
     (migration_error + bytes) \<times> ('f, 'r, 'a) PolicyState" where
  "policy_send_to_peer E K rd1 rd2 T peer data st =
     (if is_v3 data then policy_send_v3 E K rd1 T peer data st
      else if ms_topics (ps_migration st) = Map.empty then (Inr data, record_legacy_full_outbound (mg_postcard E) data st)
      else migration_send E rd1 rd2 T peer data st)"

subsection \<open>The form of a frame for a peer\<close>

text \<open>The frames that were encoded for other peers of the same fan-out are kept by their content and form.\<close>

type_synonym encoded = "(bytes \<times> bool) \<rightharpoonup> bytes"

definition wire_bytes_for_peer_cached ::
  "migration_env \<Rightarrow> ('f, 'r, 'a) key_env \<Rightarrow> reading \<Rightarrow> instant \<Rightarrow> transport_view \<Rightarrow> PeerId \<Rightarrow> bytes \<Rightarrow> TopicPriority \<Rightarrow> encoded \<Rightarrow>
     ('f, 'r, 'a) PolicyState \<Rightarrow> bytes \<times> encoded \<times> ('f, 'r, 'a) PolicyState" where
  "wire_bytes_for_peer_cached E K rd now T peer data priority enc st =
     (if is_v3 data then (data, enc, st)
      else case ps_keys st of
             None \<Rightarrow> (data, enc, st)
           | Some cache \<Rightarrow>
               (case tv_current T peer of
                  None \<Rightarrow> (data, enc, st)
                | Some ses \<Rightarrow>
                    (let c1 = observe_session K ses now cache; st1 = st\<lparr>ps_keys := Some c1\<rparr>
                     in if \<not> supports_v3 ses c1 then (data, enc, st1)
                        else case prepare_key_cache_egress E rd (tv_current T) peer ses data (ps_migration st1) of
                               (Inl e, s2) \<Rightarrow> (data, enc, st1\<lparr>ps_migration := s2\<rparr>)
                             | (Inr None, s2) \<Rightarrow> (data, enc, st1\<lparr>ps_migration := s2\<rparr>)
                             | (Inr (Some prepared), s2) \<Rightarrow>
                                 (let st2 = st1\<lparr>ps_migration := s2\<rparr>
                                  in case mg_take_message E prepared of
                                       None \<Rightarrow> (prepared, enc, st2)
                                     | Some (m, _) \<Rightarrow>
                                         if hdr_topic (gm_header m) = control_topic (mg_postcard E) then (prepared, enc, st2)
                                         else case (if priority \<noteq> Critical
                                                    then supports_ref K ses (key_id_of (mg_postcard E) (gm_public_key m)) c1
                                                    else (False, c1)) of
                                                (reference, c2) \<Rightarrow>
                                                  (let st3 = st2\<lparr>ps_keys := Some c2\<rparr>; key = (mg_blake3 E prepared, reference)
                                                   in case enc key of
                                                        Some wire \<Rightarrow> (wire, enc, st3)
                                                      | None \<Rightarrow>
                                                          (let wire = (case encode (mg_postcard E) m reference of Inl _ \<Rightarrow> prepared | Inr w \<Rightarrow> w)
                                                           in (wire, enc(key \<mapsto> wire), st3)))))))"

fun wire_bytes_for_peers ::
  "migration_env \<Rightarrow> ('f, 'r, 'a) key_env \<Rightarrow> (PeerId \<Rightarrow> reading) \<Rightarrow> (PeerId \<Rightarrow> instant) \<Rightarrow> transport_view \<Rightarrow> PeerId list \<Rightarrow> bytes \<Rightarrow> TopicPriority \<Rightarrow>
     encoded \<Rightarrow> ('f, 'r, 'a) PolicyState \<Rightarrow> (PeerId \<times> bytes) list \<times> ('f, 'r, 'a) PolicyState" where
  "wire_bytes_for_peers E K rd now T [] data priority enc st = ([], st)"
| "wire_bytes_for_peers E K rd now T (p # ps) data priority enc st =
     (case wire_bytes_for_peer_cached E K (rd p) (now p) T p data priority enc st of
        (wire, enc1, st1) \<Rightarrow>
          (case wire_bytes_for_peers E K rd now T ps data priority enc1 st1 of (rest, st2) \<Rightarrow> ((p, wire) # rest, st2)))"

definition wire_bytes_for_peer ::
  "migration_env \<Rightarrow> ('f, 'r, 'a) key_env \<Rightarrow> reading \<Rightarrow> instant \<Rightarrow> transport_view \<Rightarrow> PeerId \<Rightarrow> bytes \<Rightarrow> TopicPriority \<Rightarrow> ('f, 'r, 'a) PolicyState \<Rightarrow>
     bytes \<times> ('f, 'r, 'a) PolicyState" where
  "wire_bytes_for_peer E K rd now T peer data priority st =
     (case wire_bytes_for_peer_cached E K rd now T peer data priority Map.empty st of (wire, _, st1) \<Rightarrow> (wire, st1))"

end
