(* ===== verification/Migration_Wire.thy ===== *)
theory Migration_Wire
  imports Migration
begin

text \<open>
  The byte formats of the migration policy: the inner envelope that is accepted is exactly the one that is
  specified, what is signed in it determines its topic, and the journal of modern peers reads back what was
  written.
\<close>

subsection \<open>Fields\<close>

lemma length_u16_be_bytes [simp]: "length (u16_be_bytes n) = 2"
  by (simp add: u16_be_bytes_def)

lemma unat_byte: "unat (word_of_nat k :: u8) = k mod 256"
  by (simp add: unat_of_nat)

lemma byte_bound: "unat (b :: u8) < 256"
  using unsigned_less [of b] by simp

lemma u16_be_value:
  assumes "n < 65536"
  shows "256 * unat (word_of_nat (n div 256) :: u8) + unat (word_of_nat (n mod 256) :: u8) = n"
proof -
  have "n div 256 < 256" using assms by simp
  then have "n div 256 mod 256 = n div 256" by simp
  then show ?thesis unfolding unat_byte by simp
qed

lemma u16_be_bytes_inj:
  assumes "u16_be_bytes m = u16_be_bytes n" "m < 65536" "n < 65536"
  shows "m = n"
proof -
  have "word_of_nat (m div 256) = (word_of_nat (n div 256) :: u8)" "word_of_nat (m mod 256) = (word_of_nat (n mod 256) :: u8)"
    using assms(1) unfolding u16_be_bytes_def by blast+
  then show ?thesis using u16_be_value [OF assms(2)] u16_be_value [OF assms(3)] by metis
qed

lemma u16_be_bytes_surj: "u16_be_bytes (256 * unat a + unat b) = [a, b]"
proof -
  have "(256 * unat a + unat b) div 256 = unat a" "(256 * unat a + unat b) mod 256 = unat b" using byte_bound [of b] by simp_all
  then show ?thesis unfolding u16_be_bytes_def by simp
qed

lemma take_field_Some: "take_field data = Some (v, rest) \<longleftrightarrow> length v < 65536 \<and> data = u16_be_bytes (length v) @ v @ rest"
proof
  assume *: "take_field data = Some (v, rest)"
  define n where "n = 256 * unat (data ! 0) + unat (data ! 1)"
  have len: "2 + n \<le> length data" and v: "v = take n (drop 2 data)" "rest = drop (2 + n) data"
    using * by (auto simp: take_field_def Let_def n_def split: if_splits)
  have "unat (data ! 0) < 256" "unat (data ! 1) < 256" by (rule byte_bound)+
  then have "n < 65536" by (simp add: n_def)
  moreover have lv: "length v = n" using len v by simp
  moreover have "take 2 data = [data ! 0, data ! 1]"
    using len by (cases data; cases "tl data") (simp_all add: numeral_2_eq_2)
  then have "take 2 data = u16_be_bytes n" by (simp add: n_def u16_be_bytes_surj)
  moreover have "data = take 2 data @ take n (drop 2 data) @ drop (2 + n) data"
    by (metis append_take_drop_id drop_drop add.commute)
  ultimately show "length v < 65536 \<and> data = u16_be_bytes (length v) @ v @ rest" using v by simp
next
  assume *: "length v < 65536 \<and> data = u16_be_bytes (length v) @ v @ rest"
  then have "256 * unat (data ! 0) + unat (data ! 1) = length v" using u16_be_value [of "length v"] by (simp add: u16_be_bytes_def)
  then show "take_field data = Some (v, rest)" using * by (simp add: take_field_def Let_def)
qed

lemma length_ascii_bytes [simp]: "length (ascii_bytes t) = length t"
  by (simp add: ascii_bytes_def)

lemma inner_preimage_inj:
  assumes "inner_preimage a t r = inner_preimage a' t' r'" "length a = 32" "length a' = 32" "length t < 65536" "length t' < 65536"
  shows "a = a' \<and> t = t' \<and> r = r'"
proof -
  have "a @ u16_be_bytes (length t) @ t @ r = a' @ u16_be_bytes (length t') @ t' @ r'"
    using assms(1) by (simp add: inner_preimage_def)
  then have a: "a = a'" and rest: "u16_be_bytes (length t) @ t @ r = u16_be_bytes (length t') @ t' @ r'"
    using assms(2,3) by (simp_all add: append_eq_append_conv)
  from rest have "u16_be_bytes (length t) = u16_be_bytes (length t')" and tr: "t @ r = t' @ r'"
    by (simp_all add: append_eq_append_conv)
  then have "length t = length t'" using assms(4,5) u16_be_bytes_inj by blast
  then show ?thesis using a tr by simp
qed

subsection \<open>The inner envelope\<close>

definition inner_envelope :: "bytes \<Rightarrow> bytes \<Rightarrow> bytes \<Rightarrow> bytes \<Rightarrow> bytes \<Rightarrow> bytes" where
  "inner_envelope author key sg topic body =
     [3] @ author @ u16_be_bytes (length key) @ key @ u16_be_bytes (length sg) @ sg @ u16_be_bytes (length topic) @ topic @ body"

text \<open>C38: an inner envelope is accepted exactly when it consists of the version byte 3, the identifier of its key, the
  key, the signature and the topic of this policy with their lengths, and a body, within a megabyte; the
  key's owner is in the roster of the topic and its signature covers the identifier, the length of the topic,
  the topic and the body. The result names this author and the hash of all the bytes.\<close>

theorem inner_envelope_exact:
  "kv_verify E t data = Inr v \<longleftrightarrow>
     (\<exists>key sg body. length key = 1952 \<and> length sg = 3309 \<and> length (sk_topic_name t) < 65536 \<and>
        length (peer_bytes (key_id_of (mg_postcard E) key)) = 32 \<and>
        data = inner_envelope (peer_bytes (key_id_of (mg_postcard E) key)) key sg (sk_topic_name t) body \<and> length data \<le> MAX_INNER_BYTES \<and>
        key_id_of (mg_postcard E) key \<in> sk_authors t \<and>
        mg_verify E key (inner_preimage (peer_bytes (key_id_of (mg_postcard E) key)) (sk_topic_name t) body) sg = Some True \<and>
        v = \<lparr>vi_author = key_id_of (mg_postcard E) key, vi_digest = mg_blake3 E data, vi_revision = sk_revision t\<rparr>)"
    (is "?L \<longleftrightarrow> ?R")
proof
  assume ?L
  then obtain key sg topic r1 r2 body where
    data: "length data \<le> MAX_INNER_BYTES" "data \<noteq> []" "hd data = 3" "33 \<le> length data" and
    f: "take_field (drop 33 data) = Some (key, r1)" "take_field r1 = Some (sg, r2)" "take_field r2 = Some (topic, body)" and
    c: "length key = 1952" "length sg = 3309" "topic = sk_topic_name t" "peer_bytes (key_id_of (mg_postcard E) key) = take 32 (drop 1 data)"
      "key_id_of (mg_postcard E) key \<in> sk_authors t" "length topic < 65536"
      "mg_verify E key (inner_preimage (take 32 (drop 1 data)) topic body) sg = Some True"
      "v = \<lparr>vi_author = key_id_of (mg_postcard E) key, vi_digest = mg_blake3 E data, vi_revision = sk_revision t\<rparr>"
    unfolding kv_verify_def Let_def by (auto split: if_splits option.splits bool.splits)
  have "data = [3] @ drop 1 data" using data(2,3) by (cases data) simp_all
  also have "drop 1 data = take 32 (drop 1 data) @ drop 33 data" by (metis append_take_drop_id drop_drop numeral_plus_one semiring_norm(5))
  finally have "data = inner_envelope (take 32 (drop 1 data)) key sg topic body"
    using f by (simp add: take_field_Some inner_envelope_def)
  moreover have "length (take 32 (drop 1 data)) = 32" using data(4) by simp
  ultimately show ?R using c data(1) by (intro exI [of _ key] exI [of _ sg] exI [of _ body]) simp
next
  assume ?R
  then obtain key sg body where R: "length key = 1952" "length sg = 3309" "length (sk_topic_name t) < 65536"
    "length (peer_bytes (key_id_of (mg_postcard E) key)) = 32"
    "data = inner_envelope (peer_bytes (key_id_of (mg_postcard E) key)) key sg (sk_topic_name t) body" "length data \<le> MAX_INNER_BYTES"
    "key_id_of (mg_postcard E) key \<in> sk_authors t"
    "mg_verify E key (inner_preimage (peer_bytes (key_id_of (mg_postcard E) key)) (sk_topic_name t) body) sg = Some True"
    "v = \<lparr>vi_author = key_id_of (mg_postcard E) key, vi_digest = mg_blake3 E data, vi_revision = sk_revision t\<rparr>" by blast
  let ?a = "peer_bytes (key_id_of (mg_postcard E) key)"
  have a: "take 32 (drop 1 data) = ?a" "hd data = 3" "data \<noteq> []" "\<not> length data < 33"
    unfolding R(5) using R(4) by (simp_all add: inner_envelope_def)
  have "drop 33 data = u16_be_bytes (length key) @ key @ u16_be_bytes (length sg) @ sg @ u16_be_bytes (length (sk_topic_name t)) @ sk_topic_name t @ body"
    unfolding R(5) using R(4) by (simp add: inner_envelope_def)
  then have "take_field (drop 33 data) = Some (key, u16_be_bytes (length sg) @ sg @ u16_be_bytes (length (sk_topic_name t)) @ sk_topic_name t @ body)"
    using R(1) by (simp add: take_field_Some)
  moreover have "take_field (u16_be_bytes (length sg) @ sg @ u16_be_bytes (length (sk_topic_name t)) @ sk_topic_name t @ body) =
      Some (sg, u16_be_bytes (length (sk_topic_name t)) @ sk_topic_name t @ body)" using R(2) by (simp add: take_field_Some)
  moreover have "take_field (u16_be_bytes (length (sk_topic_name t)) @ sk_topic_name t @ body) = Some (sk_topic_name t, body)"
    using R(3) by (simp add: take_field_Some)
  ultimately show ?L using R(1,2,3,6-9) a by (simp add: kv_verify_def Let_def)
qed

subsection \<open>The journal\<close>

definition chunks64 :: "bytes \<Rightarrow> bytes list" where
  "chunks64 body = map (\<lambda>i. take 64 (drop (64 * i) body)) [0..<length body div 64]"

lemma chunks64_append:
  assumes "length body mod 64 = 0" "length r = 64"
  shows "chunks64 (body @ r) = chunks64 body @ [r]"
proof -
  let ?n = "length body div 64"
  have len: "64 * ?n = length body" using assms(1) by (metis mult_div_mod_eq add.right_neutral)
  have "(length body + 64) div 64 = Suc ?n" by simp
  then have "chunks64 (body @ r) = map (\<lambda>i. take 64 (drop (64 * i) (body @ r))) [0..<?n] @ [take 64 (drop (64 * ?n) (body @ r))]"
    using assms(2) by (simp add: chunks64_def)
  moreover have "take 64 (drop (64 * i) (body @ r)) = take 64 (drop (64 * i) body)" if "i < ?n" for i
  proof -
    have "64 * i + 64 \<le> length body" using that len by linarith
    then show ?thesis by simp
  qed
  then have "map (\<lambda>i. take 64 (drop (64 * i) (body @ r))) [0..<?n] = chunks64 body" unfolding chunks64_def by (intro map_cong) auto
  moreover have "take 64 (drop (64 * ?n) (body @ r)) = r" using len assms(2) by simp
  ultimately show ?thesis by simp
qed

lemma floor_records_append:
  assumes "floor_records E rs = Inr ps" "length (peer_bytes p) = 32"
  shows "floor_records E (rs @ [floor_record E p]) = Inr (insert p ps)"
  using assms by (induction rs arbitrary: ps) (auto simp: floor_record_def insert_commute split: sum.splits if_splits)

lemma strip_prefix_Some: "strip_prefix m data = Some body \<longleftrightarrow> data = m @ body"
  by (metis append_eq_conv_conj append_take_drop_id option.distinct(1) option.inject strip_prefix_def)

lemma strip_prefix_append: "strip_prefix m data = Some body \<Longrightarrow> strip_prefix m (data @ r) = Some (body @ r)"
  by (simp add: strip_prefix_Some)

lemma floors_decode_Inr:
  "floors_decode E data = Inr ps \<longleftrightarrow>
     (\<exists>body. strip_prefix FLOOR_MAGIC data = Some body \<and> length body mod 64 = 0 \<and> length body \<le> 64 * 65536 \<and> floor_records E (chunks64 body) = Inr ps)"
  by (auto simp: floors_decode_def chunks64_def split: option.splits)

text \<open>C39: the record that is appended for a peer extends the journal by exactly this peer, as long as there is room for it; and
  if only a part of it reaches the file, the journal is refused as a whole instead of being read without it. An
  empty journal has no peers.\<close>

theorem journal_append_safe:
  assumes "floors_decode E old = Inr ps" "length (peer_bytes p) = 32" "length (mg_blake3 E (peer_bytes p)) = 32"
    and "length old + 64 \<le> length FLOOR_MAGIC + 64 * 65536" "0 < n" "n < 64"
  shows "floors_decode E (old @ floor_record E p) = Inr (insert p ps) \<and>
    floors_decode E (old @ take n (floor_record E p)) = Inl ''invalid floor records'' \<and> floors_decode E FLOOR_MAGIC = Inr {}"
proof -
  obtain body where b: "strip_prefix FLOOR_MAGIC old = Some body" "length body mod 64 = 0" "floor_records E (chunks64 body) = Inr ps"
    using assms(1) by (auto simp: floors_decode_Inr)
  have "length old = length FLOOR_MAGIC + length body" using b(1) by (simp add: strip_prefix_Some)
  then have room: "length body + 64 \<le> 64 * 65536" using assms(4) by simp
  let ?r = "floor_record E p"
  have r: "length ?r = 64" using assms(2,3) by (simp add: floor_record_def)
  have "length (body @ ?r) mod 64 = 0" using b(2) r by simp
  moreover have "floor_records E (chunks64 (body @ ?r)) = Inr (insert p ps)"
    unfolding chunks64_append [OF b(2) r] by (rule floor_records_append [OF b(3) assms(2)])
  ultimately have full: "floors_decode E (old @ ?r) = Inr (insert p ps)"
    using strip_prefix_append [OF b(1)] room r by (simp add: floors_decode_Inr)
  have "length (body @ take n ?r) mod 64 = (length body mod 64 + n) mod 64" using r assms(6) by (simp add: mod_add_left_eq)
  then have "length (body @ take n ?r) mod 64 = n" using b(2) assms(6) by simp
  then have "floors_decode E (old @ take n ?r) = Inl ''invalid floor records''"
    using strip_prefix_append [OF b(1), of "take n ?r"] assms(5) by (simp add: floors_decode_def)
  moreover have "floors_decode E FLOOR_MAGIC = Inr {}" by (simp add: floors_decode_def strip_prefix_def)
  ultimately show ?thesis using full by blast
qed

definition demo_migration :: migration_env where
  "demo_migration =
     \<lparr>mg_postcard = \<lparr>pc_take_header = (\<lambda>d. None), pc_to_wire = (\<lambda>w. None), pc_take_wire = (\<lambda>d. None), pc_to_control = (\<lambda>c. None),
        pc_take_control = (\<lambda>d. None), pc_sha256 = take 32, pc_blake3 = (\<lambda>d. take 32 (d @ replicate 32 0))\<rparr>,
      mg_take_message = (\<lambda>d. None), mg_to_message = (\<lambda>m. None), mg_to_header = (\<lambda>h. None), mg_take_u32 = (\<lambda>d. None),
      mg_verify = (\<lambda>k m s. Some True), mg_sign = (\<lambda>d. None), mg_own_key = []\<rparr>"

theorem journal_append_safe_witness:
  "floors_decode demo_migration (FLOOR_MAGIC @ floor_record demo_migration (PeerId (replicate 32 7))) = Inr {PeerId (replicate 32 7)} \<and>
   floors_decode demo_migration (FLOOR_MAGIC @ take 40 (floor_record demo_migration (PeerId (replicate 32 7)))) = Inl ''invalid floor records''"
proof -
  have "floors_decode demo_migration FLOOR_MAGIC = Inr {}" by (simp add: floors_decode_def strip_prefix_def)
  moreover have "length (mg_blake3 demo_migration (peer_bytes (PeerId (replicate 32 7)))) = 32" by (simp add: mg_blake3_def demo_migration_def)
  ultimately show ?thesis using journal_append_safe [of demo_migration FLOOR_MAGIC "{}" "PeerId (replicate 32 7)" 40] by simp
qed

end
