(* ===== verification/Migration_Policy.thy ===== *)
theory Migration_Policy
  imports Policy_Transport Migration_Wire Key_Books
begin

text \<open>
  The migration policy in every reachable state: when a version 1 frame may be exchanged, that a grant is in
  force only with the newest revision of its peer and topic, that a peer of the journal never gets version 1 again,
  and which version every send hands to the transport.
\<close>

subsection \<open>The decision\<close>

lemma count_stat_other [simp]:
  "ms_topics (count_stat c s) = ms_topics s" "ms_grants (count_stat c s) = ms_grants s" "ms_revisions (count_stat c s) = ms_revisions s"
  "ms_floors (count_stat c s) = ms_floors s" "ms_floor_failed (count_stat c s) = ms_floor_failed s" "ms_reject_v1 (count_stat c s) = ms_reject_v1 s"
  "ms_last_wall (count_stat c s) = ms_last_wall s" "ms_control_work (count_stat c s) = ms_control_work s"
  "ms_response_bytes (count_stat c s) = ms_response_bytes s" "ms_variants (count_stat c s) = ms_variants s"
  "ms_variant_bytes (count_stat c s) = ms_variant_bytes s"
  by (simp_all add: count_stat_def)

lemma count_kind_other [simp]:
  "ms_topics (count_kind c k s) = ms_topics s" "ms_grants (count_kind c k s) = ms_grants s" "ms_revisions (count_kind c k s) = ms_revisions s"
  "ms_floors (count_kind c k s) = ms_floors s" "ms_reject_v1 (count_kind c k s) = ms_reject_v1 s"
  "ms_control_work (count_kind c k s) = ms_control_work s" "ms_response_bytes (count_kind c k s) = ms_response_bytes s"
  "ms_variants (count_kind c k s) = ms_variants s" "ms_variant_bytes (count_kind c k s) = ms_variant_bytes s"
  by (simp_all add: count_kind_def)

lemma drop_expired_grant_other [simp]:
  "ms_topics (drop_expired_grant rd t ses s) = ms_topics s" "ms_revisions (drop_expired_grant rd t ses s) = ms_revisions s"
  "ms_floors (drop_expired_grant rd t ses s) = ms_floors s" "ms_floor_failed (drop_expired_grant rd t ses s) = ms_floor_failed s"
  "ms_reject_v1 (drop_expired_grant rd t ses s) = ms_reject_v1 s" "ms_last_wall (drop_expired_grant rd t ses s) = ms_last_wall s"
  "ms_control_work (drop_expired_grant rd t ses s) = ms_control_work s" "ms_response_bytes (drop_expired_grant rd t ses s) = ms_response_bytes s"
  "ms_variants (drop_expired_grant rd t ses s) = ms_variants s" "ms_variant_bytes (drop_expired_grant rd t ses s) = ms_variant_bytes s"
  by (simp_all add: drop_expired_grant_def split: option.split)

text \<open>The specification of the decision.\<close>

definition may_use_v1 :: "migration_env \<Rightarrow> reading \<Rightarrow> TopicId \<Rightarrow> AuthenticatedSession \<Rightarrow> MigrationState \<Rightarrow> bool" where
  "may_use_v1 E rd topic ses s \<longleftrightarrow>
     \<not> ms_reject_v1 s \<and> (case ms_last_wall s of None \<Rightarrow> True | Some w \<Rightarrow> w \<le> rd_wall2 rd) \<and>
     (case (ms_grants s (as_peer ses, topic), ms_topics s topic) of
        (Some g, Some p) \<Rightarrow>
          bg_session g = ses \<and> sk_revision p = lg_verifier_revision (bg_grant g) \<and>
          max (rd_mono1 rd) (rd_mono2 rd) < bg_deadline g \<and> max (rd_wall1 rd) (rd_wall3 rd) < lg_expires (bg_grant g)
      | _ \<Rightarrow> False) \<and>
     \<not> ms_floor_failed s \<and>
     (case ms_floors s of
        None \<Rightarrow> False
      | Some f \<Rightarrow> (case floors_refresh E (rd_disk rd) f of (r, f1) \<Rightarrow> r = Inr () \<and> as_peer ses \<notin> mf_peers f1))"

lemma check_clock_eq:
  "check_clock w s =
     (if (case ms_last_wall s of None \<Rightarrow> True | Some v \<Rightarrow> v \<le> w) then (Inr (), s\<lparr>ms_last_wall := Some w\<rparr>)
      else (Inl ''clock rollback invalidated grants'', s\<lparr>ms_grants := Map.empty\<rparr>))"
  by (auto simp: check_clock_def split: option.split)

lemma check_floors_Inr:
  "check_floors E disk s = (Inr u, s1) \<longleftrightarrow>
     \<not> ms_floor_failed s \<and> (\<exists>f f1. ms_floors s = Some f \<and> floors_refresh E disk f = (Inr (), f1) \<and> s1 = s\<lparr>ms_floors := Some f1\<rparr>)"
  by (auto simp: check_floors_def split: option.splits prod.splits sum.splits)

lemma permitted_exact: "fst (permitted E rd topic ses s) \<longleftrightarrow> may_use_v1 E rd topic ses s"
proof -
  define s1 where "s1 = drop_expired_grant rd topic ses s"
  define s2 where "s2 = s1\<lparr>ms_last_wall := Some (rd_wall2 rd)\<rparr>"
  let ?clock = "case ms_last_wall s of None \<Rightarrow> True | Some v \<Rightarrow> v \<le> rd_wall2 rd"
  have force: "grant_in_force rd topic ses s2 \<longleftrightarrow>
      (case (ms_grants s (as_peer ses, topic), ms_topics s topic) of
        (Some g, Some p) \<Rightarrow>
          bg_session g = ses \<and> sk_revision p = lg_verifier_revision (bg_grant g) \<and>
          max (rd_mono1 rd) (rd_mono2 rd) < bg_deadline g \<and> max (rd_wall1 rd) (rd_wall3 rd) < lg_expires (bg_grant g)
      | _ \<Rightarrow> False)"
    by (auto simp: grant_in_force_def s2_def s1_def drop_expired_grant_def split: option.splits)
  have floor: "(case check_floors E (rd_disk rd) s2 of (Inl e, s3) \<Rightarrow> (False, s3) | (Inr _, s3) \<Rightarrow> (\<not> floored (as_peer ses) s3, s3)) =
      (f, s3) \<Longrightarrow> f \<longleftrightarrow> \<not> ms_floor_failed s \<and>
     (case ms_floors s of
        None \<Rightarrow> False
      | Some f \<Rightarrow> (case floors_refresh E (rd_disk rd) f of (r, f1) \<Rightarrow> r = Inr () \<and> as_peer ses \<notin> mf_peers f1))" for f s3
    by (auto simp: check_floors_def s2_def s1_def floored_def split: option.splits prod.splits sum.splits if_splits)
  have rej: "ms_reject_v1 s1 = ms_reject_v1 s" "ms_last_wall s1 = ms_last_wall s" by (simp_all add: s1_def)
  show ?thesis
  proof (cases "ms_reject_v1 s \<or> \<not> ?clock \<or> \<not> grant_in_force rd topic ses s2")
    case True
    then have "\<not> fst (permitted E rd topic ses s)"
      by (auto simp: permitted_def Let_def s1_def [symmetric] rej check_clock_eq s2_def [symmetric] split: if_splits)
    moreover have "\<not> may_use_v1 E rd topic ses s" using True unfolding may_use_v1_def force by blast
    ultimately show ?thesis by blast
  next
    case False
    then have "fst (permitted E rd topic ses s) \<longleftrightarrow>
        fst (case check_floors E (rd_disk rd) s2 of (Inl e, s3) \<Rightarrow> (False, s3) | (Inr _, s3) \<Rightarrow> (\<not> floored (as_peer ses) s3, s3))"
      unfolding permitted_def Let_def s1_def [symmetric] rej check_clock_eq s2_def [symmetric]
      by (simp add: prod.case_eq_if)
    then show ?thesis using floor [OF surjective_pairing] False unfolding may_use_v1_def force by simp
  qed
qed

subsection \<open>Operations that only withdraw\<close>

text \<open>What a check may change: it withdraws grants, and it reads more of the journal.\<close>

definition withdraws :: "MigrationState \<Rightarrow> MigrationState \<Rightarrow> bool" where
  "withdraws s s' \<longleftrightarrow>
     (\<forall>k g. ms_grants s' k = Some g \<longrightarrow> ms_grants s k = Some g) \<and> (\<forall>p. floored p s \<longrightarrow> floored p s') \<and>
     ms_topics s' = ms_topics s \<and> ms_revisions s' = ms_revisions s \<and> ms_reject_v1 s' = ms_reject_v1 s \<and>
     ms_control_work s' = ms_control_work s \<and> ms_response_bytes s' = ms_response_bytes s \<and>
     ms_variants s' = ms_variants s \<and> ms_variant_bytes s' = ms_variant_bytes s"

lemma withdrawsI:
  assumes "\<And>k g. ms_grants s' k = Some g \<Longrightarrow> ms_grants s k = Some g" "\<And>p. floored p s \<Longrightarrow> floored p s'"
    "ms_topics s' = ms_topics s" "ms_revisions s' = ms_revisions s" "ms_reject_v1 s' = ms_reject_v1 s"
    "ms_control_work s' = ms_control_work s" "ms_response_bytes s' = ms_response_bytes s" "ms_variants s' = ms_variants s"
    "ms_variant_bytes s' = ms_variant_bytes s"
  shows "withdraws s s'"
  using assms unfolding withdraws_def by blast

lemma withdraws_refl: "withdraws s s"
  by (simp add: withdraws_def)

lemma withdraws_trans: "withdraws s s1 \<Longrightarrow> withdraws s1 s2 \<Longrightarrow> withdraws s s2"
  unfolding withdraws_def by (intro conjI; metis)

lemma floors_refresh_grows: "mf_peers f \<subseteq> mf_peers (snd (floors_refresh E disk f))"
  by (simp add: floors_refresh_def split: option.split sum.split)

lemma count_stat_withdraws: "withdraws s (count_stat c s)" "withdraws s (count_kind d k s)"
  by (rule withdrawsI; simp add: floored_def)+

lemma drop_expired_withdraws: "withdraws s (drop_expired_grant rd t ses s)"
proof (rule withdrawsI)
  fix k g
  assume "ms_grants (drop_expired_grant rd t ses s) k = Some g"
  then show "ms_grants s k = Some g" by (cases "k = (as_peer ses, t)") (simp_all add: drop_expired_grant_def split: option.splits if_splits)
qed (simp_all add: floored_def)

lemma check_clock_withdraws: "withdraws s (snd (check_clock w s))"
  by (rule withdrawsI) (simp_all add: check_clock_def floored_def split: if_splits)

lemma check_floors_withdraws: "withdraws s (snd (check_floors E disk s))"
proof (cases "ms_floor_failed s \<or> ms_floors s = None")
  case True
  then show ?thesis by (auto simp: check_floors_def withdraws_refl)
next
  case False
  then obtain f where f: "ms_floors s = Some f" by blast
  obtain r f1 where r: "floors_refresh E disk f = (r, f1)" by fastforce
  have "mf_peers f \<subseteq> mf_peers f1" using floors_refresh_grows [of f E disk] r by simp
  then show ?thesis
    using False f r by (intro withdrawsI) (auto simp: check_floors_def floored_def split: sum.splits)
qed

lemma permitted_withdraws: "withdraws s (snd (permitted E rd t ses s))"
proof -
  define s1 where "s1 = drop_expired_grant rd t ses s"
  define s2 where "s2 = snd (check_clock (rd_wall2 rd) s1)"
  define s3 where "s3 = snd (check_floors E (rd_disk rd) s2)"
  have w1: "withdraws s s1" unfolding s1_def by (rule drop_expired_withdraws)
  have w2: "withdraws s s2" unfolding s2_def by (rule withdraws_trans [OF w1 check_clock_withdraws])
  have w3: "withdraws s s3" unfolding s3_def by (rule withdraws_trans [OF w2 check_floors_withdraws])
  have "snd (permitted E rd t ses s) \<in> {s1, count_stat mt_denied_legacy_update s1, s2, count_stat mt_denied_legacy_update s2, s3, count_stat mt_denied_legacy_update s3}"
    by (auto simp: permitted_def Let_def s1_def [symmetric] s2_def s3_def split: prod.splits sum.splits)
  then show ?thesis using w1 w2 w3 withdraws_trans [OF _ count_stat_withdraws(1)] by auto
qed

subsection \<open>The invariant\<close>

definition grant_ok :: "MigrationState \<Rightarrow> grant_key \<Rightarrow> BoundGrant \<Rightarrow> bool" where
  "grant_ok s k g \<longleftrightarrow>
     ms_revisions s k = Some (lg_revision (bg_grant g)) \<and> lg_peer (bg_grant g) = fst k \<and> lg_topic (bg_grant g) = snd k \<and>
     as_peer (bg_session g) = fst k \<and> lg_receiver (bg_grant g) = AUDITED_RECEIVER \<and>
     (case ms_topics s (snd k) of None \<Rightarrow> False | Some p \<Rightarrow> sk_revision p = lg_verifier_revision (bg_grant g))"

definition registry_ok :: "migration_env \<Rightarrow> MigrationState \<Rightarrow> bool" where
  "registry_ok E s \<longleftrightarrow>
     finite (dom (ms_topics s)) \<and> card (dom (ms_topics s)) \<le> MAX_TOPICS \<and> ms_topics s (control_topic (mg_postcard E)) = None \<and>
     finite (dom (ms_revisions s)) \<and> card (dom (ms_revisions s)) \<le> MAX_GRANTS"

definition rates_ok :: "MigrationState \<Rightarrow> bool" where
  "rates_ok s \<longleftrightarrow> ms_control_work s \<le> MAX_CONTROL_WORK \<and> ms_response_bytes s \<le> 16 * 1024 * 1024 \<and>
     finite (dom (ms_variants s)) \<and> ms_variant_bytes s = ssum length UNIV (ms_variants s) \<and> ms_variant_bytes s \<le> MAX_VARIANT_BYTES"

definition migration_ok :: "migration_env \<Rightarrow> MigrationState \<Rightarrow> bool" where
  "migration_ok E s \<longleftrightarrow>
     (\<forall>k g. ms_grants s k = Some g \<longrightarrow> grant_ok s k g) \<and> (ms_reject_v1 s \<longrightarrow> ms_grants s = Map.empty) \<and> registry_ok E s \<and> rates_ok s"

lemma migration_okI:
  assumes "\<And>k g. ms_grants s k = Some g \<Longrightarrow> grant_ok s k g" "ms_reject_v1 s \<Longrightarrow> ms_grants s = Map.empty" "registry_ok E s" "rates_ok s"
  shows "migration_ok E s"
  using assms unfolding migration_ok_def by blast

lemma migration_okD:
  assumes "migration_ok E s"
  shows "ms_grants s k = Some g \<Longrightarrow> grant_ok s k g" "ms_reject_v1 s \<Longrightarrow> ms_grants s = Map.empty" "registry_ok E s" "rates_ok s"
  using assms unfolding migration_ok_def by blast+

lemma withdraws_ok:
  assumes "migration_ok E s" "withdraws s s'"
  shows "migration_ok E s'"
proof (rule migration_okI)
  note W = assms(2) [unfolded withdraws_def]
  show "grant_ok s' k g" if "ms_grants s' k = Some g" for k g
    using migration_okD(1) [OF assms(1), of k g] W that unfolding grant_ok_def by metis
  show "ms_grants s' = Map.empty" if "ms_reject_v1 s'"
  proof (rule ext)
    show "ms_grants s' k = None" for k using migration_okD(2) [OF assms(1)] W that by (metis not_Some_eq)
  qed
  show "registry_ok E s'" using migration_okD(3) [OF assms(1)] W unfolding registry_ok_def by metis
  show "rates_ok s'" using migration_okD(4) [OF assms(1)] W unfolding rates_ok_def by metis
qed

lemma default_migration_ok: "migration_ok E migration_default"
  by (simp add: migration_ok_def migration_default_def registry_ok_def rates_ok_def)

lemma install_floors_ok: "migration_ok E s \<Longrightarrow> migration_ok E (snd (install_floors f s))"
  by (simp add: install_floors_def migration_ok_def grant_ok_def registry_ok_def rates_ok_def)

lemma register_topic_ok:
  assumes "migration_ok E s"
  shows "migration_ok E (snd (register_topic E t s))"
proof (cases "fst (register_topic E t s)")
  case (Inl e)
  then have "snd (register_topic E t s) = s" by (auto simp: register_topic_def Let_def split: if_splits)
  then show ?thesis using assms by simp
next
  case (Inr u)
  let ?i = "kv_topic E t"
  define s' where "s' = s\<lparr>ms_grants := (\<lambda>k. if snd k \<noteq> ?i then ms_grants s k else None), ms_variants := Map.empty,
      ms_variant_bytes := 0, ms_topics := (ms_topics s)(?i \<mapsto> t)\<rparr>"
  have c: "?i \<noteq> control_topic (mg_postcard E)" "ms_topics s ?i = None \<Longrightarrow> card (dom (ms_topics s)) < MAX_TOPICS"
    and eq: "snd (register_topic E t s) = s'"
    using Inr by (auto simp: register_topic_def Let_def s'_def split: if_splits)
  note R = migration_okD(3) [OF assms, unfolded registry_ok_def]
  have "migration_ok E s'"
  proof (rule migration_okI)
    show "grant_ok s' k g" if "ms_grants s' k = Some g" for k g
    proof -
      have "snd k \<noteq> ?i" "ms_grants s k = Some g" using that by (simp_all add: s'_def split: if_splits)
      then show ?thesis using migration_okD(1) [OF assms, of k g] by (simp add: grant_ok_def s'_def)
    qed
    show "ms_grants s' = Map.empty" if "ms_reject_v1 s'" using that migration_okD(2) [OF assms] by (simp add: s'_def fun_eq_iff)
    have "card (insert ?i (dom (ms_topics s))) \<le> MAX_TOPICS"
      using R c(2) by (cases "ms_topics s ?i") (auto simp: card_insert_if domIff)
    then show "registry_ok E s'" using R c(1) by (simp add: registry_ok_def s'_def)
    show "rates_ok s'" using migration_okD(4) [OF assms] by (simp add: rates_ok_def s'_def)
  qed
  then show ?thesis using eq by simp
qed

lemma require_v2_ok:
  assumes "migration_ok E s"
  shows "migration_ok E (snd (migration_require_v2 E disk out p s))"
proof (cases "ms_floors s")
  case (Some f)
  define s' where "s' = snd (migration_require_v2 E disk out p s)"
  have F: "ms_topics s' = ms_topics s" "ms_revisions s' = ms_revisions s" "ms_reject_v1 s' = ms_reject_v1 s"
    "ms_control_work s' = ms_control_work s" "ms_response_bytes s' = ms_response_bytes s" "ms_variants s' = ms_variants s"
    "ms_variant_bytes s' = ms_variant_bytes s" "ms_grants s' k = (if fst k \<noteq> p then ms_grants s k else None)" for k
    by (simp_all add: s'_def migration_require_v2_def Some prod.case_eq_if)
  have "migration_ok E s'"
  proof (rule migration_okI)
    show "grant_ok s' k g" if "ms_grants s' k = Some g" for k g
      using that migration_okD(1) [OF assms, of k g] unfolding F grant_ok_def by (simp split: if_splits)
    show "ms_grants s' = Map.empty" if "ms_reject_v1 s'" using that migration_okD(2) [OF assms] by (simp add: F fun_eq_iff)
  qed (use migration_okD(3,4) [OF assms] in \<open>simp_all add: F registry_ok_def rates_ok_def\<close>)
  then show ?thesis by (simp add: s'_def)
qed (simp add: migration_require_v2_def assms)

lemma put_revision_ok:
  assumes "migration_ok E s" "ms_revisions s k \<noteq> None \<or> card (dom (ms_revisions s)) < MAX_GRANTS"
    and "\<And>g. gr = Some g \<Longrightarrow> \<not> ms_reject_v1 s \<and> grant_ok (s\<lparr>ms_revisions := (ms_revisions s)(k \<mapsto> r)\<rparr>) k g"
  shows "migration_ok E (s\<lparr>ms_revisions := (ms_revisions s)(k \<mapsto> r), ms_grants := (ms_grants s)(k := gr)\<rparr>)" (is "migration_ok E ?s")
proof (rule migration_okI)
  show "grant_ok ?s k' g" if "ms_grants ?s k' = Some g" for k' g
  proof (cases "k' = k")
    case True
    then show ?thesis using that assms(3) by (simp add: grant_ok_def)
  next
    case False
    then show ?thesis using that migration_okD(1) [OF assms(1), of k' g] by (simp add: grant_ok_def)
  qed
  show "ms_grants ?s = Map.empty" if "ms_reject_v1 ?s"
    using that migration_okD(2) [OF assms(1)] assms(3) by (cases gr) auto
  note R = migration_okD(3) [OF assms(1), unfolded registry_ok_def]
  have "card (insert k (dom (ms_revisions s))) \<le> MAX_GRANTS"
    using R assms(2) by (cases "k \<in> dom (ms_revisions s)") (auto simp: card_insert_if domIff)
  then show "registry_ok E ?s" using R by (simp add: registry_ok_def)
  show "rates_ok ?s" using migration_okD(4) [OF assms(1)] by (simp add: rates_ok_def)
qed

abbreviation granted_state :: "reading \<Rightarrow> LegacyGrant \<Rightarrow> AuthenticatedSession \<Rightarrow> MigrationState \<Rightarrow> MigrationState" where
  "granted_state rd g ses s \<equiv>
     s\<lparr>ms_revisions := (ms_revisions s)((lg_peer g, lg_topic g) \<mapsto> lg_revision g),
       ms_grants := (ms_grants s)((lg_peer g, lg_topic g) \<mapsto>
         \<lparr>bg_grant = g, bg_deadline = rd_mono2 rd + (lg_expires g - rd_wall3 rd), bg_session = ses\<rparr>)\<rparr>"

lemma commit_grant_cases:
  "(\<exists>e. commit_grant rd g ses s = (Inl e, s)) \<or>
   get_or 0 (ms_revisions s) (lg_peer g, lg_topic g) < lg_revision g \<and>
   (ms_revisions s (lg_peer g, lg_topic g) \<noteq> None \<or> card (dom (ms_revisions s)) < MAX_GRANTS) \<and>
   commit_grant rd g ses s = (Inr (), granted_state rd g ses s)"
  unfolding commit_grant_def Let_def by auto

lemma grant_refusal_None:
  "grant_refusal g ses s = None \<Longrightarrow> \<not> ms_reject_v1 s \<and> lg_receiver g = AUDITED_RECEIVER \<and> lg_peer g = as_peer ses \<and>
     (\<exists>p. ms_topics s (lg_topic g) = Some p \<and> sk_revision p = lg_verifier_revision g)"
  by (auto simp: grant_refusal_def split: if_splits option.splits)

lemma grant_legacy_cases:
  obtains (refused) e where "fst (grant_legacy E rd g ses s) = Inl e" "withdraws s (snd (grant_legacy E rd g ses s))"
  | (granted) s2 where "fst (grant_legacy E rd g ses s) = Inr ()" "withdraws s s2" "grant_refusal g ses s = None"
      "get_or 0 (ms_revisions s2) (lg_peer g, lg_topic g) < lg_revision g"
      "ms_revisions s2 (lg_peer g, lg_topic g) \<noteq> None \<or> card (dom (ms_revisions s2)) < MAX_GRANTS"
      "snd (grant_legacy E rd g ses s) = granted_state rd g ses s2"
proof (cases "grant_refusal g ses s")
  case (Some e)
  then show ?thesis using refused [of e] withdraws_refl by (simp add: grant_legacy_def)
next
  case None
  obtain r1 s1 where c: "check_clock (rd_wall2 rd) s = (r1, s1)" by fastforce
  obtain r2 s2 where f: "check_floors E (rd_disk rd) s1 = (r2, s2)" by fastforce
  have w1: "withdraws s s1" using check_clock_withdraws [of s "rd_wall2 rd"] c by simp
  have w2: "withdraws s s2" using withdraws_trans [OF w1 check_floors_withdraws, of E "rd_disk rd"] f by simp
  show ?thesis
  proof (cases r1)
    case (Inl e)
    then show ?thesis using refused [of e] None c w1 by (simp add: grant_legacy_def)
  next
    case r1: (Inr u)
    show ?thesis
    proof (cases r2)
      case (Inl e)
      then show ?thesis using refused [of e] None c f r1 w2 by (simp add: grant_legacy_def)
    next
      case (Inr v)
      then have eq: "grant_legacy E rd g ses s = commit_grant rd g ses s2" using None c f r1 by (simp add: grant_legacy_def)
      from commit_grant_cases [of rd g ses s2] show ?thesis
      proof (elim disjE exE conjE)
        fix e
        assume "commit_grant rd g ses s2 = (Inl e, s2)"
        then show ?thesis using refused [of e] w2 by (simp add: eq)
      qed (use granted [of s2] None w2 eq in simp_all)
    qed
  qed
qed

lemma grant_legacy_ok:
  assumes "migration_ok E s"
  shows "migration_ok E (snd (grant_legacy E rd g ses s))"
proof (cases rule: grant_legacy_cases [of E rd g ses s])
  case (refused e)
  then show ?thesis using withdraws_ok [OF assms] by blast
next
  case (granted s2)
  have s2: "migration_ok E s2" by (rule withdraws_ok [OF assms granted(2)])
  have same: "ms_topics s2 = ms_topics s" "ms_reject_v1 s2 = ms_reject_v1 s" using granted(2) by (simp_all add: withdraws_def)
  let ?g = "\<lparr>bg_grant = g, bg_deadline = rd_mono2 rd + (lg_expires g - rd_wall3 rd), bg_session = ses\<rparr>"
  have "grant_ok (s2\<lparr>ms_revisions := (ms_revisions s2)((lg_peer g, lg_topic g) \<mapsto> lg_revision g)\<rparr>) (lg_peer g, lg_topic g) ?g"
    using grant_refusal_None [OF granted(3)] same by (auto simp: grant_ok_def)
  moreover have "\<not> ms_reject_v1 s2" using grant_refusal_None [OF granted(3)] same by simp
  ultimately show ?thesis unfolding granted(6) by (intro put_revision_ok [OF s2 granted(5)]) simp
qed

lemma map_remove_upd: "map_remove k m = m(k := None)"
  by (rule ext) simp

lemma revoke_grant_cases:
  obtains (refused) e where "revoke_grant p t r s = (Inl e, s)"
  | (revoked) "get_or 0 (ms_revisions s) (p, t) < r" "ms_revisions s (p, t) \<noteq> None \<or> card (dom (ms_revisions s)) < MAX_GRANTS"
      "revoke_grant p t r s = (Inr (), count_stat mt_revoked_grants_update
         (s\<lparr>ms_revisions := (ms_revisions s)((p, t) \<mapsto> r), ms_grants := (ms_grants s)((p, t) := None)\<rparr>))"
proof -
  have "(\<exists>e. revoke_grant p t r s = (Inl e, s)) \<or>
      get_or 0 (ms_revisions s) (p, t) < r \<and> (ms_revisions s (p, t) \<noteq> None \<or> card (dom (ms_revisions s)) < MAX_GRANTS) \<and>
      revoke_grant p t r s = (Inr (), count_stat mt_revoked_grants_update
         (s\<lparr>ms_revisions := (ms_revisions s)((p, t) \<mapsto> r), ms_grants := (ms_grants s)((p, t) := None)\<rparr>))"
    unfolding revoke_grant_def Let_def map_remove_upd by auto
  then show thesis using refused revoked by blast
qed

lemma revoke_grant_ok:
  assumes "migration_ok E s"
  shows "migration_ok E (snd (revoke_grant p t r s))"
proof (cases rule: revoke_grant_cases [of p t r s])
  case (refused e)
  then show ?thesis using assms by simp
next
  case revoked
  have "migration_ok E (s\<lparr>ms_revisions := (ms_revisions s)((p, t) \<mapsto> r), ms_grants := (ms_grants s)((p, t) := None)\<rparr>)"
    by (rule put_revision_ok [OF assms revoked(2)]) simp
  then show ?thesis using withdraws_ok [OF _ count_stat_withdraws(1)] by (simp add: revoked(3))
qed

lemma set_migration_policy_ok:
  assumes "migration_ok E s"
  shows "migration_ok E (set_migration_policy reject s)"
proof (rule migration_okI)
  show "grant_ok (set_migration_policy reject s) k g" if "ms_grants (set_migration_policy reject s) k = Some g" for k g
    using that migration_okD(1) [OF assms, of k g] by (simp add: set_migration_policy_def grant_ok_def split: if_splits)
qed (use migration_okD(3,4) [OF assms] in \<open>simp_all add: set_migration_policy_def registry_ok_def rates_ok_def\<close>)

lemma keeps_grants_ok:
  assumes "migration_ok E s" "ms_grants s' = ms_grants s" "ms_topics s' = ms_topics s" "ms_revisions s' = ms_revisions s"
    "ms_reject_v1 s' = ms_reject_v1 s" "rates_ok s'"
  shows "migration_ok E s'"
proof (rule migration_okI)
  show "grant_ok s' k g" if "ms_grants s' k = Some g" for k g
    using migration_okD(1) [OF assms(1), of k g] that unfolding grant_ok_def assms(2-5) .
qed (use migration_okD(2,3) [OF assms(1)] assms(2-6) in \<open>simp_all add: registry_ok_def\<close>)

lemma admit_cache_serve_ok:
  assumes "migration_ok E s"
  shows "migration_ok E (snd (admit_cache_serve t n now s))"
  by (rule keeps_grants_ok [OF assms]) (use migration_okD(4) [OF assms] in \<open>auto simp: admit_cache_serve_def Let_def rates_ok_def\<close>)

lemma ingress_control_ok:
  assumes "migration_ok E s"
  shows "migration_ok E (snd (ingress_control E now p session m s))"
  by (rule keeps_grants_ok [OF assms])
    (use migration_okD(4) [OF assms] in \<open>auto simp: ingress_control_def Let_def rates_ok_def split: sum.split option.split\<close>)

lemma store_variant_ok:
  assumes "migration_ok E s" "ms_variants s key = None"
  shows "migration_ok E (store_variant key data s)"
proof (rule keeps_grants_ok [OF assms(1)])
  note V = migration_okD(4) [OF assms(1), unfolded rates_ok_def]
  define s1 where "s1 = (if ms_variant_bytes s + length data > MAX_VARIANT_BYTES then s\<lparr>ms_variants := Map.empty, ms_variant_bytes := 0\<rparr> else s)"
  have s1: "rates_ok s1" "ms_variants s1 key = None" "length data \<le> MAX_VARIANT_BYTES \<Longrightarrow> ms_variant_bytes s1 + length data \<le> MAX_VARIANT_BYTES"
    using V assms(2) by (auto simp: s1_def rates_ok_def)
  have "rates_ok (s1\<lparr>ms_variant_bytes := ms_variant_bytes s1 + length data, ms_variants := (ms_variants s1)(key \<mapsto> data)\<rparr>)"
    if "length data \<le> MAX_VARIANT_BYTES"
    using s1 that unfolding rates_ok_def by (simp add: ssum_upd map_remove_absent)
  then show "rates_ok (store_variant key data s)" using s1(1) by (simp add: store_variant_def Let_def s1_def [symmetric])
qed (simp_all add: store_variant_def Let_def)

text \<open>The cache of variants: a stored frame has the version it is stored under.\<close>

definition codec_ok :: "migration_env \<Rightarrow> bool" where
  "codec_ok E \<longleftrightarrow> (\<forall>m data. mg_to_message E m = Some data \<longrightarrow> mg_take_message E data = Some (m, []))"

definition has_version :: "migration_env \<Rightarrow> u8 \<Rightarrow> bytes \<Rightarrow> bool" where
  "has_version E v data \<longleftrightarrow> (case mg_take_message E data of None \<Rightarrow> False | Some (m, rest) \<Rightarrow> rest = [] \<and> hdr_version (gm_header m) = v)"

definition variants_ok :: "migration_env \<Rightarrow> MigrationState \<Rightarrow> bool" where
  "variants_ok E s \<longleftrightarrow> (\<forall>d v data. ms_variants s (d, v) = Some data \<longrightarrow> has_version E v data)"

lemma reversion_version: "reversion E v m = Inr out \<Longrightarrow> hdr_version (gm_header out) = v"
  by (auto simp: reversion_def Let_def seal_payload_hash_def split: option.splits if_splits)

lemma variants_okI: "(\<And>d v data. ms_variants s (d, v) = Some data \<Longrightarrow> has_version E v data) \<Longrightarrow> variants_ok E s"
  unfolding variants_ok_def by blast

lemma variants_okD: "variants_ok E s \<Longrightarrow> ms_variants s (d, v) = Some data \<Longrightarrow> has_version E v data"
  unfolding variants_ok_def by blast

lemma store_variant_versions:
  assumes "variants_ok E s" "has_version E v data"
  shows "variants_ok E (store_variant (d, v) data s)"
proof (rule variants_okI)
  fix d' v' data'
  assume *: "ms_variants (store_variant (d, v) data s) (d', v') = Some data'"
  show "has_version E v' data'"
  proof (cases "(d', v') = (d, v) \<and> data' = data")
    case True
    then show ?thesis using assms(2) by simp
  next
    case False
    then have "ms_variants s (d', v') = Some data'" using * by (auto simp: store_variant_def Let_def split: if_splits)
    then show ?thesis by (rule variants_okD [OF assms(1)])
  qed
qed

lemma variant_cases:
  obtains (hit) data where "variant E m v d s = (Inr data, s)" "ms_variants s (d, v) = Some data"
  | (failed) e s1 where "variant E m v d s = (Inl e, s1)" "withdraws s s1"
  | (made) out data s1 where "variant E m v d s = (Inr data, store_variant (d, v) data s1)" "withdraws s s1" "ms_variants s (d, v) = None"
      "mg_to_message E out = Some data" "hdr_version (gm_header out) = v" "out = m \<or> reversion E v m = Inr out"
proof (cases "ms_variants s (d, v)")
  case (Some data)
  then show ?thesis using hit [of data] by (simp add: variant_def)
next
  case None
  show ?thesis
  proof (cases "hdr_version (gm_header m) = v")
    case True
    then show ?thesis
      using None failed made [of _ s m] withdraws_refl by (cases "mg_to_message E m") (simp_all add: variant_def)
  next
    case False
    let ?s = "count_stat mt_variant_signatures_update s"
    show ?thesis
    proof (cases "reversion E v m")
      case (Inl e)
      then show ?thesis using None False failed withdraws_refl by (simp add: variant_def)
    next
      case (Inr out)
      then show ?thesis
        using None False failed made [of _ ?s out] reversion_version [OF Inr] count_stat_withdraws(1)
        by (cases "mg_to_message E out") (simp_all add: variant_def)
    qed
  qed
qed

lemma variant_ok:
  assumes "migration_ok E s"
  shows "migration_ok E (snd (variant E m v d s))"
proof (cases rule: variant_cases [of E m v d s])
  case (hit data)
  then show ?thesis using assms by simp
next
  case (failed e s1)
  then show ?thesis using withdraws_ok [OF assms] by simp
next
  case (made out data s1)
  have "ms_variants s1 (d, v) = None" using made(2,3) by (simp add: withdraws_def)
  then show ?thesis using store_variant_ok [OF withdraws_ok [OF assms made(2)]] by (simp add: made(1))
qed

lemma withdraws_variants: "variants_ok E s \<Longrightarrow> withdraws s s' \<Longrightarrow> variants_ok E s'"
  by (simp add: variants_ok_def withdraws_def)

lemma variant_versions:
  assumes "codec_ok E" "variants_ok E s"
  shows "variants_ok E (snd (variant E m v d s))" "fst (variant E m v d s) = Inr data \<Longrightarrow> has_version E v data"
proof -
  have "variants_ok E (snd (variant E m v d s)) \<and> (fst (variant E m v d s) = Inr data \<longrightarrow> has_version E v data)"
  proof (cases rule: variant_cases [of E m v d s])
    case (hit data')
    then show ?thesis using assms(2) variants_okD by auto
  next
    case (failed e s1)
    then show ?thesis using withdraws_variants [OF assms(2)] by simp
  next
    case (made out data' s1)
    have "has_version E v data'" using assms(1) made(4,5) by (simp add: codec_ok_def has_version_def)
    then show ?thesis using store_variant_versions [OF withdraws_variants [OF assms(2) made(2)]] made(1) by auto
  qed
  then show "variants_ok E (snd (variant E m v d s))" "fst (variant E m v d s) = Inr data \<Longrightarrow> has_version E v data" by blast+
qed

end
