(* ===== verification/Migration_Promises.thy ===== *)
theory Migration_Promises
  imports Migration_Policy
begin

text \<open>
  Runs of the migration policy. A property that each elementary operation keeps is kept by every operation of
  the policy and of the transport around it; the locale \<open>policy_invariant\<close> states this once, for the invariant, the
  journal, the revisions and the cached frames.
\<close>

inductive migration_step :: "migration_env \<Rightarrow> MigrationState \<Rightarrow> MigrationState \<Rightarrow> bool" for E where
  install: "migration_step E s (snd (install_floors f s))"
| register: "migration_step E s (snd (register_topic E t s))"
| require: "migration_step E s (snd (migration_require_v2 E disk out p s))"
| grant: "migration_step E s (snd (grant_legacy E rd g ses s))"
| revoke: "migration_step E s (snd (revoke_grant p t r s))"
| mismatch: "migration_step E s (record_payload_mismatch s)"
| policy: "migration_step E s (set_migration_policy reject s)"
| serve: "migration_step E s (snd (admit_cache_serve t n now s))"
| inner: "migration_step E s (snd (verify_inner E t payload s))"
| ingress: "migration_step E s (snd (migration_ingress E rd now p session m s))"
| allowed: "migration_step E s (snd (modern_allowed E rd p ses t s))"
| prepare: "migration_step E s (snd (prepare_key_cache_egress E rd current p ses data s))"
| permit: "migration_step E s (snd (permitted E rd t ses s))"
| admission: "migration_step E s (snd (legacy_admission E rd p t m d ses s))"
| variant: "migration_step E s (snd (variant E m v d s))"

abbreviation migration_run :: "migration_env \<Rightarrow> MigrationState \<Rightarrow> MigrationState \<Rightarrow> bool" where
  "migration_run E \<equiv> (migration_step E)\<^sup>*\<^sup>*"

locale policy_invariant =
  fixes E :: migration_env and I :: "MigrationState \<Rightarrow> bool"
  assumes withdraw: "I s \<Longrightarrow> withdraws s s' \<Longrightarrow> I s'"
    and install: "I s \<Longrightarrow> I (snd (install_floors f s))"
    and register: "I s \<Longrightarrow> I (snd (register_topic E t s))"
    and require: "I s \<Longrightarrow> I (snd (migration_require_v2 E disk out p s))"
    and grant: "I s \<Longrightarrow> I (snd (grant_legacy E rd g ses s))"
    and revoke: "I s \<Longrightarrow> I (snd (revoke_grant p topic r s))"
    and set_policy: "I s \<Longrightarrow> I (set_migration_policy reject s)"
    and serve: "I s \<Longrightarrow> I (snd (admit_cache_serve topic n now s))"
    and control: "I s \<Longrightarrow> I (snd (ingress_control E now p session m s))"
    and variants: "I s \<Longrightarrow> I (snd (variant E m v d s))"
begin

lemma permit_keeps: "I s \<Longrightarrow> I (snd (permitted E rd topic ses s))"
  using withdraw permitted_withdraws by blast

lemma stat_keeps: "I s \<Longrightarrow> I (count_stat c s)" "I s \<Longrightarrow> I (count_kind c' k s)"
  using withdraw count_stat_withdraws by blast+

lemma inner_keeps: "I s \<Longrightarrow> I (snd (verify_inner E topic payload s))"
  by (auto simp: verify_inner_def stat_keeps split: option.split sum.split)

lemma inner_if_eager_keeps: "I s \<Longrightarrow> I (snd (verify_inner_if_eager E m s))"
  using inner_keeps [of s "hdr_topic (gm_header m)"]
  by (simp add: verify_inner_if_eager_def prod.case_eq_if split: option.split sum.split)

lemma legacy_keeps: "I s \<Longrightarrow> I (snd (ingress_legacy E rd p session topic kind s))"
proof (cases session)
  case (Some ses)
  assume "I s"
  then have "I (snd (permitted E rd topic ses s))" by (rule permit_keeps)
  then show ?thesis using \<open>I s\<close> Some stat_keeps(2) by (simp add: ingress_legacy_def prod.case_eq_if split: bool.split)
qed (simp add: ingress_legacy_def)

lemma ingress_keeps:
  assumes "I s"
  shows "I (snd (migration_ingress E rd now p session m s))"
proof -
  define q where "q kind = (if hdr_version (gm_header m) = 1 then ingress_legacy E rd p session (hdr_topic (gm_header m)) kind s else (Inr (), s))"
    for kind
  have l: "I (snd (q kind))" for kind using assms legacy_keeps by (simp add: q_def)
  then have c: "I (snd (ingress_control E now p session m (snd (q kind))))" for kind by (rule control)
  show ?thesis unfolding migration_ingress_def Let_def q_def [symmetric] prod.case_eq_if
    by (simp add: assms l c split: sum.split)
qed

lemma allowed_keeps: "I s \<Longrightarrow> I (snd (modern_allowed E rd p ses topic s))"
  using permit_keeps by (simp add: modern_allowed_def prod.case_eq_if)

lemma prepare_keeps:
  assumes "I s"
  shows "I (snd (prepare_key_cache_egress E rd current p ses data s))"
proof (cases "pc_take_header (mg_postcard E) data")
  case (Some hr)
  let ?t = "hdr_topic (fst hr)"
  show ?thesis
  proof (cases "mg_take_message E data")
    case None
    then show ?thesis using assms by (simp add: prepare_key_cache_egress_def Some prod.case_eq_if)
  next
    case m: (Some mr)
    define s1 where "s1 = snd (verify_inner_if_eager E (fst mr) s)"
    define q where "q = (if ms_grants s1 (p, ?t) \<noteq> None \<and> current p = Some ses then permitted E rd ?t ses s1 else (False, s1))"
    have s1: "I s1" unfolding s1_def by (rule inner_if_eager_keeps [OF assms])
    have q: "I (snd q)" using s1 permit_keeps by (simp add: q_def)
    have v: "I (snd (variant E (fst mr) 2 (mg_blake3 E data) (snd q)))" by (rule variants [OF q])
    show ?thesis
      unfolding prepare_key_cache_egress_def Some m option.case prod.case_eq_if s1_def [symmetric] q_def [symmetric]
      using assms s1 q v by (simp split: sum.split)
  qed
qed (simp add: prepare_key_cache_egress_def assms)

lemma admission_keeps:
  assumes "I s"
  shows "I (snd (legacy_admission E rd p topic m d ses s))"
proof -
  define q where "q = (if as_peer ses = p then permitted E rd topic ses s else (False, s))"
  have q: "I (snd q)" using assms permit_keeps by (simp add: q_def)
  have v: "I (snd (variant E m 1 d (snd q)))" by (rule variants [OF q])
  show ?thesis
    unfolding legacy_admission_def q_def [symmetric] Let_def prod.case_eq_if
    using q v stat_keeps(2) [OF v] by (simp split: bool.split option.split sum.split)
qed

lemma step_keeps: "migration_step E s s' \<Longrightarrow> I s \<Longrightarrow> I s'"
  by (induction rule: migration_step.induct)
    (simp_all add: install register require grant revoke set_policy serve inner_keeps ingress_keeps allowed_keeps prepare_keeps
      permit_keeps admission_keeps variants record_payload_mismatch_def stat_keeps)

lemma run_keeps: "migration_run E s s' \<Longrightarrow> I s \<Longrightarrow> I s'"
  by (induction rule: rtranclp_induct) (blast intro: step_keeps)+

end

subsection \<open>The invariants\<close>

interpretation policy_ok: policy_invariant E "migration_ok E" for E
  by unfold_locales
    (auto intro: withdraws_ok install_floors_ok register_topic_ok require_v2_ok grant_legacy_ok revoke_grant_ok set_migration_policy_ok
      admit_cache_serve_ok ingress_control_ok variant_ok)

text \<open>The journal only grows.\<close>

lemma floors_require_grows: "mf_peers f \<subseteq> mf_peers (snd (floors_require_v2 E disk out p f))"
proof -
  obtain r f1 where r: "floors_refresh E disk f = (r, f1)" by fastforce
  then have "mf_peers f \<subseteq> mf_peers f1" using floors_refresh_grows [of f E disk] by simp
  then show ?thesis using r by (auto simp: floors_require_v2_def Let_def split: sum.split)
qed

lemma floored_same: "ms_floors s' = ms_floors s \<Longrightarrow> floored p s \<Longrightarrow> floored p s'"
  by (simp add: floored_def)

lemma other_floors:
  "ms_floors (snd (register_topic E t s)) = ms_floors s" "ms_floors (snd (revoke_grant q t' r s)) = ms_floors s"
  "ms_floors (set_migration_policy reject s) = ms_floors s" "ms_floors (snd (admit_cache_serve t' n now s)) = ms_floors s"
  "ms_floors (snd (ingress_control E now q session m s)) = ms_floors s" "ms_floors (store_variant key data s) = ms_floors s"
  by (simp_all add: register_topic_def revoke_grant_def set_migration_policy_def admit_cache_serve_def ingress_control_def store_variant_def
      Let_def split: sum.split)

lemma withdraws_floored: "floored p s \<Longrightarrow> withdraws s s' \<Longrightarrow> floored p s'"
  by (simp add: withdraws_def)

lemma install_floored: "floored p s \<Longrightarrow> floored p (snd (install_floors f s))"
  by (auto simp: install_floors_def floored_def split: option.splits)

lemma require_floored: "floored p s \<Longrightarrow> floored p (snd (migration_require_v2 E disk out q s))"
  by (auto simp: migration_require_v2_def floored_def prod.case_eq_if dest: subsetD [OF floors_require_grows] split: option.splits)

lemma grant_floored:
  assumes "floored p s"
  shows "floored p (snd (grant_legacy E rd g ses s))"
proof (cases rule: grant_legacy_cases [of E rd g ses s])
  case (refused e)
  then show ?thesis using withdraws_floored [OF assms] by simp
next
  case (granted s2)
  have "floored p s2" by (rule withdraws_floored [OF assms granted(2)])
  then show ?thesis unfolding granted(6) by (rule floored_same [rotated]) simp
qed

lemma variant_floored:
  assumes "floored p s"
  shows "floored p (snd (variant E m v d s))"
proof (cases rule: variant_cases [of E m v d s])
  case (made out data s1)
  have "floored p s1" by (rule withdraws_floored [OF assms made(2)])
  then show ?thesis unfolding made(1) snd_conv by (rule floored_same [rotated]) (rule other_floors)
qed (use assms withdraws_floored [OF assms] in simp_all)

interpretation policy_floor: policy_invariant E "floored p" for E p
  by unfold_locales
    (auto intro: withdraws_floored install_floored require_floored grant_floored variant_floored floored_same [OF other_floors(1)]
      floored_same [OF other_floors(2)] floored_same [OF other_floors(3)] floored_same [OF other_floors(4)] floored_same [OF other_floors(5)])

text \<open>Revisions only rise, and a grant has a newer one than what was recorded before.\<close>

definition above :: "nat \<Rightarrow> grant_key \<Rightarrow> MigrationState \<Rightarrow> bool" where
  "above r k s \<longleftrightarrow> r \<le> get_or 0 (ms_revisions s) k \<and>
     (case ms_grants s k of None \<Rightarrow> True | Some g \<Rightarrow> r < lg_revision (bg_grant g))"

lemma withdraws_above: "above r k s \<Longrightarrow> withdraws s s' \<Longrightarrow> above r k s'"
  unfolding above_def withdraws_def by (cases "ms_grants s' k") (auto simp: get_or_def)

lemma above_same: "ms_revisions s' = ms_revisions s \<Longrightarrow> (ms_grants s' k = ms_grants s k \<or> ms_grants s' k = None) \<Longrightarrow> above r k s \<Longrightarrow> above r k s'"
  by (auto simp: above_def)

lemma grant_above:
  assumes "above r k s"
  shows "above r k (snd (grant_legacy E rd g ses s))"
proof (cases rule: grant_legacy_cases [of E rd g ses s])
  case (refused e)
  then show ?thesis using withdraws_above [OF assms] by simp
next
  case (granted s2)
  have a: "above r k s2" by (rule withdraws_above [OF assms granted(2)])
  show ?thesis
  proof (cases "k = (lg_peer g, lg_topic g)")
    case True
    then show ?thesis using a granted(4) unfolding granted(6) above_def by (simp add: get_or_def)
  next
    case False
    then show ?thesis using a unfolding granted(6) above_def by (simp add: get_or_def)
  qed
qed

lemma revoke_above:
  assumes "above r k s"
  shows "above r k (snd (revoke_grant p t r' s))"
proof (cases rule: revoke_grant_cases [of p t r' s])
  case revoked
  show ?thesis
  proof (cases "k = (p, t)")
    case True
    then show ?thesis using assms revoked(1) unfolding revoked(3) above_def by (simp add: get_or_def)
  next
    case False
    then show ?thesis using assms unfolding revoked(3) above_def by (simp add: get_or_def)
  qed
qed (use assms in simp)

lemma variant_above:
  assumes "above r k s"
  shows "above r k (snd (variant E m v d s))"
proof (cases rule: variant_cases [of E m v d s])
  case (made out data s1)
  have "above r k s1" by (rule withdraws_above [OF assms made(2)])
  then show ?thesis unfolding made(1) snd_conv by (rule above_same [rotated 2]) (simp_all add: store_variant_def Let_def)
qed (use assms withdraws_above [OF assms] in simp_all)

lemma other_above:
  assumes "above r k s"
  shows "above r k (snd (install_floors f s))" "above r k (snd (register_topic E t s))" "above r k (snd (migration_require_v2 E disk out p s))"
    "above r k (set_migration_policy reject s)" "above r k (snd (admit_cache_serve t' n now s))" "above r k (snd (ingress_control E now p session m s))"
  by (rule above_same [OF _ _ assms];
      simp add: install_floors_def register_topic_def migration_require_v2_def set_migration_policy_def admit_cache_serve_def ingress_control_def
        Let_def prod.case_eq_if split: sum.split option.split)+

interpretation policy_revision: policy_invariant E "above r k" for E r k
  by unfold_locales (auto intro: withdraws_above grant_above revoke_above variant_above other_above)

text \<open>Stored frames have the version they are stored under.\<close>

lemma variants_same: "ms_variants s' = ms_variants s \<or> ms_variants s' = Map.empty \<Longrightarrow> variants_ok E s \<Longrightarrow> variants_ok E s'"
  by (auto simp: variants_ok_def)

lemma other_variants:
  assumes "variants_ok E s"
  shows "variants_ok E (snd (install_floors f s))" "variants_ok E (snd (register_topic E t s))"
    "variants_ok E (snd (migration_require_v2 E disk out p s))" "variants_ok E (snd (revoke_grant p t' r s))"
    "variants_ok E (set_migration_policy reject s)" "variants_ok E (snd (admit_cache_serve t' n now s))"
    "variants_ok E (snd (ingress_control E now p session m s))"
  by (rule variants_same [OF _ assms];
      simp add: install_floors_def register_topic_def migration_require_v2_def revoke_grant_def set_migration_policy_def admit_cache_serve_def
        ingress_control_def Let_def prod.case_eq_if split: sum.split option.split)+

lemma grant_variants:
  assumes "variants_ok E s"
  shows "variants_ok E (snd (grant_legacy E rd g ses s))"
proof (cases rule: grant_legacy_cases [of E rd g ses s])
  case (refused e)
  then show ?thesis using withdraws_variants [OF assms] by simp
next
  case (granted s2)
  show ?thesis unfolding granted(6) by (rule variants_same [OF _ withdraws_variants [OF assms granted(2)]]) simp
qed

interpretation policy_versions: policy_invariant E "\<lambda>s. codec_ok E \<longrightarrow> variants_ok E s" for E
  by unfold_locales (auto intro: withdraws_variants grant_variants other_variants variant_versions(1))

subsection \<open>Promises\<close>

text \<open>C36: in every run of the migration policy at most 128 topics are registered, never the reserved one, at most 1024 revisions are
  kept, and every grant is the newest of its peer and topic, bound to a session of this peer, for the audited
  receiver and the current verifier of a registered topic. While version 1 is rejected there is no grant. The
  control work of a window, the bytes served in a second and the stored frames keep their bounds.\<close>

theorem migration_invariant:
  assumes "migration_run E migration_default s"
  shows "migration_ok E s"
  by (rule policy_ok.run_keeps [OF assms default_migration_ok])

lemma floored_not_permitted: "floored (as_peer ses) s \<Longrightarrow> \<not> fst (permitted E rd t ses s)"
  using floors_refresh_grows
  by (auto simp: permitted_exact may_use_v1_def floored_def prod.case_eq_if dest: subsetD [OF floors_refresh_grows] split: option.splits)

text \<open>C31: once a peer is required to use version 2, no version 1 frame is permitted in a session with it any more, whatever
  happens afterwards: the journal is read again, topics are registered, grants are issued or the clock is turned.\<close>

theorem modern_floor_permanent:
  assumes "fst (migration_require_v2 E disk out (as_peer ses) s) = Inr ()"
    and "migration_run E (snd (migration_require_v2 E disk out (as_peer ses) s)) s'"
  shows "\<not> fst (permitted E rd t ses s')"
proof -
  have "floored (as_peer ses) (snd (migration_require_v2 E disk out (as_peer ses) s))"
    using assms(1)
    by (auto simp: migration_require_v2_def floored_def floors_require_v2_def Let_def split: option.splits prod.splits sum.splits if_splits)
  then have "floored (as_peer ses) s'" by (rule policy_floor.run_keeps [OF assms(2)])
  then show ?thesis by (rule floored_not_permitted)
qed

text \<open>after a revocation no grant of this peer and topic is in force whose revision is not newer than the revocation, so
  an old grant cannot be issued again.\<close>

theorem revocation_permanent:
  assumes "fst (revoke_grant p t r s) = Inr ()" "migration_run E (snd (revoke_grant p t r s)) s'"
    and "ms_grants s' (p, t) = Some g"
  shows "r < lg_revision (bg_grant g)"
proof -
  have "above r (p, t) (snd (revoke_grant p t r s))"
    using assms(1) by (cases rule: revoke_grant_cases [of p t r s]) (simp_all add: above_def get_or_def)
  then have "above r (p, t) s'" by (rule policy_revision.run_keeps [OF assms(2)])
  then show ?thesis using assms(3) by (simp add: above_def)
qed

text \<open>a version 1 frame on a registered topic is accepted only from an authenticated session of its sender with a grant: the
  grant is of this very session and of the current verifier, both clocks are before its end and the wall clock has
  not gone back, version 1 is not rejected, and the journal could be read and does not name the peer.\<close>

theorem v1_ingress_needs_grant:
  assumes "ms_topics s (hdr_topic (gm_header m)) \<noteq> None" "hdr_version (gm_header m) = 1"
    and "fst (migration_ingress E rd now p session m s) = Inr ()"
  shows "\<exists>ses. session = Some ses \<and> as_peer ses = p \<and> may_use_v1 E rd (hdr_topic (gm_header m)) ses s"
proof -
  obtain kind where kind: "kind_index (hdr_kind (gm_header m)) = Inr kind"
    using assms by (auto simp: migration_ingress_def Let_def split: sum.splits)
  then have l: "fst (ingress_legacy E rd p session (hdr_topic (gm_header m)) kind s) = Inr ()"
    using assms by (auto simp: migration_ingress_def Let_def split: sum.splits prod.splits)
  then obtain ses where ses: "session = Some ses" "as_peer ses = p"
    by (auto simp: ingress_legacy_def split: option.splits if_splits)
  then have "fst (permitted E rd (hdr_topic (gm_header m)) ses s)"
    using l by (auto simp: ingress_legacy_def split: prod.splits bool.splits)
  then show ?thesis using ses by (simp add: permitted_exact)
qed

subsection \<open>What is sent\<close>

abbreviation legacy_choice :: "migration_env \<Rightarrow> reading \<Rightarrow> transport_view \<Rightarrow> PeerId \<Rightarrow> TopicId \<Rightarrow> MigrationState \<Rightarrow> bool \<times> MigrationState" where
  "legacy_choice E rd T peer t s \<equiv>
     (if ms_grants s (peer, t) = None then (False, s)
      else case tv_current T peer of None \<Rightarrow> (False, s) | Some ses \<Rightarrow> permitted E rd t ses s)"

lemma hand_over_cases:
  assumes "fst (hand_over E rd1 rd2 T peer t data m st) = Inr out" "ps_migration st = s"
  obtains legacy s2 where "legacy_choice E rd1 T peer t s = (legacy, s2)"
    "if legacy then \<exists>actual s3. tv_admission T = Some actual \<and> legacy_admission E rd2 peer t m (mg_blake3 E data) actual (tv_meanwhile T s2) = (Inr out, s3)
     else if hdr_version (gm_header m) \<noteq> 2 then \<exists>s3. variant E m 2 (mg_blake3 E data) s2 = (Inr out, s3) else out = data"
proof -
  obtain legacy s2 where c: "legacy_choice E rd1 T peer t s = (legacy, s2)" by fastforce
  have "if legacy then \<exists>actual s3. tv_admission T = Some actual \<and> legacy_admission E rd2 peer t m (mg_blake3 E data) actual (tv_meanwhile T s2) = (Inr out, s3)
     else if hdr_version (gm_header m) \<noteq> 2 then \<exists>s3. variant E m 2 (mg_blake3 E data) s2 = (Inr out, s3) else out = data"
    using assms(1) unfolding hand_over_def Let_def assms(2) c by (cases legacy) (auto split: option.splits prod.splits sum.splits if_splits)
  then show thesis using that c by blast
qed

lemma migration_send_cases:
  assumes "fst (migration_send E rd1 rd2 T peer data st) = Inr out"
    and "pc_take_header (mg_postcard E) data = Some (h, rest)" "topic_registered (hdr_topic h) (ps_migration st)"
  obtains m s1 where "mg_take_message E data = Some (m, [])" "verify_inner_if_eager E m (ps_migration st) = (Inr (), s1)"
    "fst (hand_over E rd1 rd2 T peer (hdr_topic h) data m (st\<lparr>ps_migration := s1\<rparr>)) = Inr out"
  using assms unfolding migration_send_def by (auto split: option.splits prod.splits sum.splits if_splits)

lemma legacy_admission_Inr:
  assumes "legacy_admission E rd peer t m d ses s = (Inr out, s')"
  shows "as_peer ses = peer" "fst (permitted E rd t ses s)" "fst (variant E m 1 d (snd (permitted E rd t ses s))) = Inr out"
proof -
  define q where "q = (if as_peer ses = peer then permitted E rd t ses s else (False, s))"
  have q: "fst q" using assms by (auto simp: legacy_admission_def q_def [symmetric] prod.case_eq_if split: bool.splits)
  then show p: "as_peer ses = peer" by (simp add: q_def split: if_splits)
  then show "fst (permitted E rd t ses s)" using q by (simp add: q_def)
  have "fst (variant E m 1 d (snd q)) = Inr out"
    using assms q unfolding legacy_admission_def q_def [symmetric] Let_def prod.case_eq_if
    by (auto split: option.splits sum.splits if_splits)
  then show "fst (variant E m 1 d (snd (permitted E rd t ses s))) = Inr out" using p by (simp add: q_def)
qed

lemma verified_same: "verify_inner_if_eager E m s = (Inr (), s1) \<Longrightarrow> s1 = s"
  by (auto simp: verify_inner_if_eager_def verify_inner_def split: if_splits option.splits sum.splits prod.splits)

lemma legacy_choice_exact:
  "fst (legacy_choice E rd T peer t s) \<longleftrightarrow> ms_grants s (peer, t) \<noteq> None \<and> (\<exists>ses. tv_current T peer = Some ses \<and> may_use_v1 E rd t ses s)"
  by (auto simp: permitted_exact split: option.split)

lemma legacy_choice_versions: "variants_ok E s \<Longrightarrow> variants_ok E (snd (legacy_choice E rd T peer t s))"
  using withdraws_variants permitted_withdraws by (auto split: option.split)

text \<open>C25: a send on a registered topic hands over a version 1 frame exactly when the peer and the topic have a grant that permits
  version 1 in the current session when the send is decided, and a version 2 frame otherwise, whatever version it was given. The
  version 1 frame goes out only if version 1 is also permitted at the moment of its admission: in the session the
  bytes are then sent on, which is one of this peer, in the state that the other tasks have made of the policy in between.\<close>

theorem sent_version_exact:
  assumes "codec_ok E" "migration_run E migration_default (ps_migration st)" "\<And>s. migration_run E s (tv_meanwhile T s)"
    and "pc_take_header (mg_postcard E) data = Some (h, rest)" "topic_registered (hdr_topic h) (ps_migration st)"
    and "migration_send E rd1 rd2 T peer data st = (Inr out, st')"
  shows "if ms_grants (ps_migration st) (peer, hdr_topic h) \<noteq> None \<and>
       (\<exists>ses. tv_current T peer = Some ses \<and> may_use_v1 E rd1 (hdr_topic h) ses (ps_migration st))
     then has_version E 1 out \<and>
       (\<exists>ses actual. tv_current T peer = Some ses \<and> tv_admission T = Some actual \<and> as_peer actual = peer \<and>
         may_use_v1 E rd2 (hdr_topic h) actual (tv_meanwhile T (snd (permitted E rd1 (hdr_topic h) ses (ps_migration st)))))
     else has_version E 2 out"
proof -
  let ?s = "ps_migration st" and ?t = "hdr_topic h"
  have "variants_ok E migration_default" by (simp add: variants_ok_def migration_default_def)
  then have ok: "variants_ok E ?s" using policy_versions.run_keeps [OF assms(2)] assms(1) by blast
  have sent: "fst (migration_send E rd1 rd2 T peer data st) = Inr out" using assms(6) by simp
  obtain m s1 where m: "mg_take_message E data = Some (m, [])" "verify_inner_if_eager E m ?s = (Inr (), s1)"
    "fst (hand_over E rd1 rd2 T peer ?t data m (st\<lparr>ps_migration := s1\<rparr>)) = Inr out"
    using sent assms(4,5) by (rule migration_send_cases)
  have same: "ps_migration (st\<lparr>ps_migration := s1\<rparr>) = ?s" using verified_same [OF m(2)] by simp
  obtain legacy s2 where c: "legacy_choice E rd1 T peer ?t ?s = (legacy, s2)"
    and o: "if legacy then \<exists>actual s3. tv_admission T = Some actual \<and>
         legacy_admission E rd2 peer ?t m (mg_blake3 E data) actual (tv_meanwhile T s2) = (Inr out, s3)
     else if hdr_version (gm_header m) \<noteq> 2 then \<exists>s3. variant E m 2 (mg_blake3 E data) s2 = (Inr out, s3) else out = data"
    using m(3) same by (rule hand_over_cases)
  note choice = legacy_choice_exact [where E = E and rd = rd1 and T = T and peer = peer and t = ?t and s = ?s, unfolded c fst_conv]
  have s2: "variants_ok E s2" using legacy_choice_versions [OF ok, where rd = rd1 and T = T and peer = peer and t = ?t] unfolding c by simp
  show ?thesis
  proof (cases legacy)
    case True
    then obtain actual s3 where a: "tv_admission T = Some actual"
      "legacy_admission E rd2 peer ?t m (mg_blake3 E data) actual (tv_meanwhile T s2) = (Inr out, s3)"
      using o by auto
    note A = legacy_admission_Inr [OF a(2)]
    have "variants_ok E (tv_meanwhile T s2)" using policy_versions.run_keeps [OF assms(3) [of s2]] assms(1) s2 by blast
    then have "variants_ok E (snd (permitted E rd2 ?t actual (tv_meanwhile T s2)))"
      using withdraws_variants permitted_withdraws by blast
    then have "has_version E 1 out" using A(3) by (rule variant_versions(2) [OF assms(1)])
    moreover obtain ses where "tv_current T peer = Some ses" "s2 = snd (permitted E rd1 ?t ses ?s)"
      using c True choice by (auto simp: prod_eq_iff)
    moreover have "may_use_v1 E rd2 ?t actual (tv_meanwhile T s2)" using A(2) by (simp add: permitted_exact)
    ultimately show ?thesis using A(1) a(1) choice True by auto
  next
    case False
    have "has_version E 2 out"
    proof (cases "hdr_version (gm_header m) = 2")
      case True
      then have "out = data" using o False by simp
      then show ?thesis using m(1) True by (simp add: has_version_def)
    next
      case v: False
      then have "fst (variant E m 2 (mg_blake3 E data) s2) = Inr out" using o False by auto
      then show ?thesis using variant_versions(2) [OF assms(1)] s2 by blast
    qed
    then show ?thesis using choice False by auto
  qed
qed

text \<open>a v3 frame is handed over unchanged and only in the session that was current when it was checked, with a neighbour with
  whom the greetings were exchanged; a frame that refers to its key only if the neighbour acknowledged this key in
  this session.\<close>

theorem v3_send_needs_capability:
  assumes "is_v3 data" "ps_keys st = Some cache" "policy_send_to_peer E K rd1 rd2 T peer data st = (Inr out, st')"
  shows "\<exists>ses. tv_current T peer = Some ses \<and> tv_admission T = Some ses \<and> out = data \<and> supports_v3 ses cache \<and>
    (\<forall>m signer. decode (mg_postcard E) data = Inr (DecodedRef m signer) \<longrightarrow> fst (supports_ref K ses signer cache))"
proof -
  have sent: "policy_send_v3 E K rd1 T peer data st = (Inr out, st')" using assms(1,3) by (simp add: policy_send_to_peer_def)
  then obtain ses where ses: "tv_current T peer = Some ses" using assms(2) by (auto simp: policy_send_v3_def split: option.splits)
  obtain dec where dec: "decode (mg_postcard E) data = Inr dec" using sent ses assms(2) by (auto simp: policy_send_v3_def split: sum.splits)
  have v3: "supports_v3 ses cache" using sent ses dec assms(2) by (auto simp: policy_send_v3_def Let_def prod.case_eq_if split: if_splits)
  have guard: "tv_admission T = Some ses \<and> out = data" if "send_v3_guarded E rd1 T peer ses t data st1 = (Inr out, st')" for t st1
    using that by (auto simp: send_v3_guarded_def Let_def prod.case_eq_if split: option.splits if_splits)
  show ?thesis
  proof (cases dec)
    case (DecodedFull m signer)
    then show ?thesis using guard sent ses dec v3 assms(2) by (auto simp: policy_send_v3_def)
  next
    case (DecodedRef m signer)
    then have "fst (supports_ref K ses signer cache)" using sent ses dec v3 assms(2)
      by (auto simp: policy_send_v3_def prod.case_eq_if split: bool.splits)
    moreover from this have "tv_admission T = Some ses \<and> out = data"
      using guard sent ses dec v3 assms(2) DecodedRef by (simp add: policy_send_v3_def prod.case_eq_if)
    ultimately show ?thesis using ses dec v3 DecodedRef by auto
  qed
qed

subsection \<open>A concrete policy\<close>

definition kv_header :: "u8 \<Rightarrow> MessageKind \<Rightarrow> MessageHeader" where
  "kv_header version kind = (header_new (TopicId [5]) kind 4)\<lparr>hdr_version := version\<rparr>"

definition kv_message :: "u8 \<Rightarrow> MessageKind \<Rightarrow> GossipMessage" where
  "kv_message version kind = \<lparr>gm_header = kv_header version kind, gm_payload = Some [0], gm_signature = [], gm_public_key = [8]\<rparr>"

definition kv_env :: migration_env where
  "kv_env =
     \<lparr>mg_postcard = \<lparr>pc_take_header = (\<lambda>d. Some (kv_header 2 IHave, [])), pc_to_wire = (\<lambda>w. None), pc_take_wire = (\<lambda>d. None),
        pc_to_control = (\<lambda>c. None), pc_take_control = (\<lambda>d. None), pc_sha256 = (\<lambda>d. [1]), pc_blake3 = (\<lambda>d. d)\<rparr>,
      mg_take_message = (\<lambda>d. if d = [2] then Some (kv_message 2 IHave, []) else if d = [1] then Some (kv_message 1 IHave, []) else None),
      mg_to_message = (\<lambda>m. if m = kv_message 2 IHave then Some [2] else if m = kv_message 1 IHave then Some [1] else None),
      mg_to_header = (\<lambda>h. Some []), mg_take_u32 = (\<lambda>d. Some (0, [])), mg_verify = (\<lambda>k m s. Some True), mg_sign = (\<lambda>d. Some []),
      mg_own_key = [8]\<rparr>"

definition kv_policy :: SignedKvTopic where
  "kv_policy = \<lparr>sk_topic_name = [5], sk_family = DeltaTopic, sk_revision = 1, sk_authors = {PeerId [1]}\<rparr>"

definition kv_stamp :: FloorStamp where "kv_stamp = \<lparr>fs_modified = 0, fs_len = 12\<rparr>"

definition kv_disk :: floor_disk where "kv_disk = \<lparr>fd_before = Some kv_stamp, fd_bytes = None, fd_after = None\<rparr>"

definition kv_reading :: reading where
  "kv_reading = \<lparr>rd_mono1 = 1, rd_wall1 = 10, rd_wall2 = 10, rd_mono2 = 1, rd_wall3 = 10, rd_disk = kv_disk\<rparr>"

definition kv_session :: AuthenticatedSession where "kv_session = \<lparr>as_peer = PeerId [9], as_generation = 3\<rparr>"

definition kv_grant :: LegacyGrant where
  "kv_grant = \<lparr>lg_peer = PeerId [9], lg_topic = TopicId [5], lg_receiver = AUDITED_RECEIVER, lg_verifier_revision = 1, lg_revision = 1,
     lg_issuer = [1], lg_reason = [1], lg_expires = 1000\<rparr>"

definition kv_registered :: MigrationState where
  "kv_registered = snd (register_topic kv_env kv_policy (snd (install_floors \<lparr>mf_peers = {}, mf_stamp = Some kv_stamp\<rparr> migration_default)))"

definition kv_granted :: MigrationState where
  "kv_granted = snd (grant_legacy kv_env kv_reading kv_grant kv_session kv_registered)"

lemma kv_ids: "kv_topic kv_env kv_policy = TopicId [5]" "control_topic (mg_postcard kv_env) \<noteq> TopicId [5]"
  by (simp_all add: kv_topic_def topic_from_entity_def mg_blake3_def kv_env_def kv_policy_def control_topic_def CONTROL_DOMAIN_def ascii_bytes_def)

lemma kv_registered_eq:
  "kv_registered = migration_default\<lparr>ms_floors := Some \<lparr>mf_peers = {}, mf_stamp = Some kv_stamp\<rparr>, ms_topics := [TopicId [5] \<mapsto> kv_policy]\<rparr>"
  using kv_ids(2)
  by (simp add: kv_registered_def register_topic_def install_floors_def kv_ids(1) migration_default_def MAX_TOPICS_def Let_def)
    (rule ext, simp)

lemma kv_granted_eq:
  "kv_granted = kv_registered\<lparr>ms_last_wall := Some 10, ms_revisions := [(PeerId [9], TopicId [5]) \<mapsto> 1],
     ms_grants := [(PeerId [9], TopicId [5]) \<mapsto> \<lparr>bg_grant = kv_grant, bg_deadline = 991, bg_session = kv_session\<rparr>]\<rparr>"
proof -
  have "grant_refusal kv_grant kv_session kv_registered = None"
    by (simp add: grant_refusal_def kv_registered_eq kv_grant_def kv_session_def migration_default_def kv_policy_def)
  moreover have "check_clock (rd_wall2 kv_reading) kv_registered = (Inr (), kv_registered\<lparr>ms_last_wall := Some 10\<rparr>)"
    by (simp add: check_clock_def kv_registered_eq migration_default_def kv_reading_def)
  moreover have "check_floors kv_env (rd_disk kv_reading) (kv_registered\<lparr>ms_last_wall := Some 10\<rparr>) = (Inr (), kv_registered\<lparr>ms_last_wall := Some 10\<rparr>)"
    by (simp add: check_floors_def kv_registered_eq migration_default_def kv_reading_def kv_disk_def floors_refresh_def)
  ultimately show ?thesis
    by (simp add: kv_granted_def grant_legacy_def commit_grant_def Let_def floored_def kv_registered_eq migration_default_def kv_grant_def
        get_or_def MAX_GRANTS_def kv_reading_def INSTANT_MAX_def)
qed

lemma kv_runs: "migration_run kv_env migration_default kv_registered" "migration_run kv_env migration_default kv_granted"
proof -
  show r: "migration_run kv_env migration_default kv_registered" unfolding kv_registered_def
    by (meson migration_step.install migration_step.register rtranclp.rtrancl_into_rtrancl rtranclp.rtrancl_refl)
  show "migration_run kv_env migration_default kv_granted" unfolding kv_granted_def
    by (rule rtranclp.rtrancl_into_rtrancl [OF r migration_step.grant])
qed

theorem migration_invariant_witness: "migration_ok kv_env kv_granted"
  by (rule migration_invariant [OF kv_runs(2)])

theorem modern_floor_permanent_witness:
  "\<not> fst (permitted kv_env kv_reading (TopicId [5]) kv_session
       (snd (migration_require_v2 kv_env kv_disk \<lparr>fa_open = True, fa_write = True, fa_sync = True\<rparr> (PeerId [9]) kv_granted)))"
proof -
  have "fst (migration_require_v2 kv_env kv_disk \<lparr>fa_open = True, fa_write = True, fa_sync = True\<rparr> (as_peer kv_session) kv_granted) = Inr ()"
    by (simp add: migration_require_v2_def kv_granted_eq kv_registered_eq floors_require_v2_def floors_refresh_def kv_disk_def Let_def)
  from modern_floor_permanent [OF this rtranclp.rtrancl_refl] show ?thesis by (simp add: kv_session_def)
qed

theorem revocation_permanent_witness:
  "ms_grants (snd (grant_legacy kv_env kv_reading (kv_grant\<lparr>lg_revision := 1\<rparr>) kv_session
     (snd (revoke_grant (PeerId [9]) (TopicId [5]) 5 kv_granted)))) (PeerId [9], TopicId [5]) = None"
proof (rule ccontr)
  let ?s = "snd (revoke_grant (PeerId [9]) (TopicId [5]) 5 kv_granted)"
  let ?s' = "snd (grant_legacy kv_env kv_reading (kv_grant\<lparr>lg_revision := 1\<rparr>) kv_session ?s)"
  assume "ms_grants ?s' (PeerId [9], TopicId [5]) \<noteq> None"
  then obtain g where g: "ms_grants ?s' (PeerId [9], TopicId [5]) = Some g" by blast
  have r: "fst (revoke_grant (PeerId [9]) (TopicId [5]) 5 kv_granted) = Inr ()"
    by (simp add: revoke_grant_def kv_granted_eq get_or_def Let_def)
  have run: "migration_run kv_env ?s ?s'" by (rule r_into_rtranclp) (rule migration_step.grant)
  have "5 < lg_revision (bg_grant g)" by (rule revocation_permanent [OF r run g])
  moreover have "migration_run kv_env migration_default ?s'"
    using rtranclp.rtrancl_into_rtrancl [OF kv_runs(2) migration_step.revoke] run by (rule rtranclp_trans)
  then have "grant_ok ?s' (PeerId [9], TopicId [5]) g" using migration_okD(1) [OF policy_ok.run_keeps [OF _ default_migration_ok] g] by blast
  ultimately show False
    by (cases rule: grant_legacy_cases [of kv_env kv_reading "kv_grant\<lparr>lg_revision := 1\<rparr>" kv_session ?s])
      (use g in \<open>auto simp: kv_grant_def revoke_grant_def kv_granted_eq get_or_def withdraws_def map_remove_upd\<close>)
qed

theorem v1_ingress_needs_grant_witness:
  "\<exists>ses. Some kv_session = Some ses \<and> as_peer ses = PeerId [9] \<and> may_use_v1 kv_env kv_reading (TopicId [5]) ses kv_granted"
proof -
  have may: "fst (permitted kv_env kv_reading (TopicId [5]) kv_session kv_granted)"
    unfolding permitted_exact
    by (simp add: may_use_v1_def kv_granted_eq kv_registered_eq migration_default_def kv_session_def kv_reading_def kv_policy_def kv_grant_def
        floors_refresh_def kv_disk_def)
  have t: "hdr_topic (gm_header (kv_message 1 Eager)) = TopicId [5]" "hdr_version (gm_header (kv_message 1 Eager)) = 1"
    "hdr_kind (gm_header (kv_message 1 Eager)) = Eager" by (simp_all add: kv_message_def kv_header_def header_new_def)
  have reg: "ms_topics kv_granted (TopicId [5]) \<noteq> None" by (simp add: kv_granted_eq kv_registered_eq)
  have "fst (migration_ingress kv_env kv_reading 0 (PeerId [9]) (Some kv_session) (kv_message 1 Eager) kv_granted) = Inr ()"
    using may reg by (simp add: migration_ingress_def Let_def t kind_index_def ingress_legacy_def kv_session_def prod.case_eq_if split: bool.split)
  then show ?thesis using v1_ingress_needs_grant [of kv_granted "kv_message 1 Eager" kv_env kv_reading 0 "PeerId [9]" "Some kv_session"] reg
    unfolding t by blast
qed

text \<open>The neighbour has a session while the send is decided and the same one at its admission; nothing else happens.\<close>

definition kv_view :: transport_view where
  "kv_view = \<lparr>tv_current = \<lambda>p. Some kv_session, tv_local = PeerId [1], tv_admission = Some kv_session, tv_meanwhile = \<lambda>s. s\<rparr>"

definition kv_state :: "MigrationState \<Rightarrow> (nat, nat, nat) PolicyState" where
  "kv_state s = \<lparr>ps_migration = s, ps_keys = None\<rparr>"

lemma kv_permitted: "may_use_v1 kv_env kv_reading (TopicId [5]) kv_session kv_granted"
  by (simp add: may_use_v1_def kv_granted_eq kv_registered_eq migration_default_def kv_session_def kv_reading_def kv_policy_def kv_grant_def
      floors_refresh_def kv_disk_def)

lemma kv_permitted_state: "permitted kv_env kv_reading (TopicId [5]) kv_session kv_granted = (True, kv_granted)"
  by (simp add: permitted_def check_clock_def check_floors_def drop_expired_grant_def grant_in_force_def floored_def floors_refresh_def Let_def
      kv_granted_eq kv_registered_eq migration_default_def kv_session_def kv_reading_def kv_policy_def kv_grant_def kv_disk_def)

lemma kv_control: "control_work kv_env (kv_message 2 IHave) = Inr 1"
  by (simp add: control_work_def kv_message_def kv_header_def header_new_def kind_index_def kv_env_def MAX_CONTROL_BYTES_def)

lemma kv_message_fields [simp]:
  "gm_header (kv_message v k) = kv_header v k" "hdr_kind (kv_header v k) = k" "hdr_version (kv_header v k) = v" "hdr_topic (kv_header v k) = TopicId [5]"
  by (simp_all add: kv_message_def kv_header_def header_new_def)

lemma kv_codec:
  "codec_ok kv_env" "mg_take_message kv_env [2] = Some (kv_message 2 IHave, [])" "pc_take_header (mg_postcard kv_env) d = Some (kv_header 2 IHave, [])"
  "own_id kv_env = PeerId [1]" "key_id_of (mg_postcard kv_env) k = PeerId [1]"
  by (simp_all add: codec_ok_def kv_env_def own_id_def key_id_of_def from_pubkey_def)

lemma kv_reversion: "reversion kv_env 1 (kv_message 2 IHave) = Inr (kv_message 1 IHave)"
  by (simp add: reversion_def kv_env_def kv_message_def kv_header_def header_new_def)

lemma kv_hand_over:
  assumes "topic_registered (TopicId [5]) s"
  shows "migration_send kv_env rd1 rd2 T (PeerId [9]) [2] (kv_state s) =
    (if tv_local T = PeerId [1] then hand_over kv_env rd1 rd2 T (PeerId [9]) (TopicId [5]) [2] (kv_message 2 IHave) (kv_state s)
     else migration_send kv_env rd1 rd2 T (PeerId [9]) [2] (kv_state s))"
  using assms by (simp add: migration_send_def kv_codec verify_inner_if_eager_def kv_control kv_state_def)

theorem sent_version_exact_witness: "has_version kv_env 2 [2] \<and> has_version kv_env 1 [1]"
proof
  have view: "tv_local kv_view = PeerId [1]" "tv_current kv_view p = Some kv_session" "tv_admission kv_view = Some kv_session" "tv_meanwhile kv_view s = s"
    for p s by (simp_all add: kv_view_def)
  have run: "migration_run E s (tv_meanwhile kv_view s)" for E s by (simp add: view)
  have st: "ps_migration (kv_state s) = s" for s by (simp add: kv_state_def)
  have reg: "topic_registered (hdr_topic (kv_header 2 IHave)) kv_registered" "topic_registered (hdr_topic (kv_header 2 IHave)) kv_granted"
    by (simp_all add: topic_registered_def kv_registered_eq kv_granted_eq)
  have none: "ms_grants kv_registered k = None" for k by (simp add: kv_registered_eq migration_default_def)
  have some: "ms_grants kv_granted (PeerId [9], TopicId [5]) \<noteq> None" by (simp add: kv_granted_eq)
  let ?send = "\<lambda>s. migration_send kv_env kv_reading kv_reading kv_view (PeerId [9]) [2] (kv_state s)"
  have "fst (?send kv_registered) = Inr [2]"
    using reg by (simp add: kv_hand_over view hand_over_def Let_def none st)
  then have "?send kv_registered = (Inr [2], snd (?send kv_registered))" by (simp add: prod_eq_iff)
  from sent_version_exact [OF kv_codec(1) _ run kv_codec(3) _ this] kv_runs(1) reg(1)
  show "has_version kv_env 2 [2]" by (simp add: st none)
  have "ms_variants kv_granted k = None" for k by (simp add: kv_granted_eq kv_registered_eq migration_default_def)
  moreover have "mg_to_message kv_env (kv_message 1 IHave) = Some [1]" by (simp add: kv_env_def kv_message_def kv_header_def header_new_def)
  moreover have "as_peer kv_session = PeerId [9]" by (simp add: kv_session_def)
  ultimately have "fst (legacy_admission kv_env kv_reading (PeerId [9]) (TopicId [5]) (kv_message 2 IHave) d kv_session kv_granted) = Inr [1]" for d
    by (simp add: legacy_admission_def kv_permitted_state kv_codec kv_control variant_def kv_reversion
        kind_index_def)
  then have "fst (?send kv_granted) = Inr [1]"
    using reg some by (simp add: kv_hand_over view hand_over_def Let_def st kv_permitted_state prod.case_eq_if split: sum.split)
  then have "?send kv_granted = (Inr [1], snd (?send kv_granted))" by (simp add: prod_eq_iff)
  from sent_version_exact [OF kv_codec(1) _ run kv_codec(3) _ this] kv_runs(2) reg(2)
  show "has_version kv_env 1 [1]" using some kv_permitted by (simp add: st view)
qed

end
